(* ===== verification/TFS_Prelude.thy ===== *)
theory TFS_Prelude
  imports Main "HOL-Library.Word"
begin

text \<open>
  The prelude of the development: the machine types of the server (unsigned words of 8, 16, 32 and
  64 bits, and signed ones that \<open>sint\<close> reads), little-endian byte strings as \<open>memcpy\<close> of an integer produces them on the supported
  (x86-64) targets, byte memories with block reads and writes, and the lemma collections the
  component theories share.
\<close>

unbundle bit_operations_syntax

text \<open>Sizes and offsets stay numerals.\<close>

declare add_2_eq_Suc [simp del] add_2_eq_Suc' [simp del]

named_theorems mem_simps \<open>reading back what was written to a byte memory\<close>
named_theorems width_simps \<open>word arithmetic that stays in range\<close>

section \<open>Machine types\<close>

type_synonym u8 = "8 word"
type_synonym u16 = "16 word"
type_synonym u32 = "32 word"
type_synonym u64 = "64 word"
type_synonym s8 = "8 word"
type_synonym s32 = "32 word"
type_synonym s64 = "64 word"
type_synonym memory = "nat \<Rightarrow> u8"

lemma unat_add_of_nat [width_simps]:
  "unat w + n < 2 ^ LENGTH('a) \<Longrightarrow> unat (w + of_nat n) = unat w + n" for w :: "'a::len word"
  by (simp add: unat_word_ariths unat_of_nat take_bit_eq_mod mod_add_right_eq)

lemma unat_of_nat_lt [width_simps]:
  "n < 2 ^ LENGTH('a) \<Longrightarrow> unat (of_nat n :: 'a::len word) = n"
  by (simp add: unat_of_nat take_bit_eq_mod)

lemma byte_le: "unat (x :: u8) \<le> 255"
proof -
  have "unat x < 2 ^ LENGTH(8)" by (rule unsigned_less)
  then show ?thesis by simp
qed

lemma unat_ucast_up [width_simps]:
  "LENGTH('b) \<le> LENGTH('a) \<Longrightarrow> unat (ucast (x :: 'b::len word) :: 'a::len word) = unat x"
  by (simp add: unsigned_ucast_eq take_bit_nat_eq_self_iff)
    (meson nat_less_le order_less_le_trans one_le_numeral power_increasing unsigned_less)

lemma unat_push_or:
  fixes a b :: "'a::len word"
  assumes "unat a < 2 ^ n" and "unat b * 2 ^ n + unat a < 2 ^ LENGTH('a)"
  shows "unat (push_bit n b OR a) = unat b * 2 ^ n + unat a"
proof -
  have "take_bit n (unat a) = unat a" using assms(1) by (simp add: take_bit_nat_eq_self_iff)
  then have "take_bit n a = a" by (metis unsigned_take_bit_eq word_eq_iff_unsigned)
  then have "push_bit n b AND a = 0"
    by (intro bit_word_eqI) (metis bit_and_iff bit_push_bit_iff bit_take_bit_iff bit_0_eq bot_apply bot_bool_def not_le)
  then have "push_bit n b OR a = push_bit n b + a"
    by (simp add: disjunctive_add_eq_or)
  also have "\<dots> = b * 2 ^ n + a" by (simp add: push_bit_eq_mult)
  also have "\<dots> = of_nat (unat b * 2 ^ n + unat a)" by simp
  finally show ?thesis using unat_of_nat_lt[OF assms(2)] by (simp only:)
qed

section \<open>Little-endian byte strings\<close>

text \<open>
  \<open>le_bytes n w\<close> is the object representation of an \<open>n\<close>-byte unsigned integer, \<open>le_word\<close> reads
  one back.
\<close>

primrec le_bytes :: "nat \<Rightarrow> 'a::len word \<Rightarrow> u8 list" where
  "le_bytes 0 w = []"
| "le_bytes (Suc n) w = ucast w # le_bytes n (drop_bit 8 w)"

primrec le_word :: "u8 list \<Rightarrow> 'a::len word" where
  "le_word [] = 0"
| "le_word (b # bs) = ucast b OR push_bit 8 (le_word bs)"

lemma length_le_bytes [simp]: "length (le_bytes n w) = n"
  by (induction n arbitrary: w) auto

lemma le_word_le_bytes_take: "le_word (le_bytes n w) = take_bit (8 * n) (w :: 'a::len word)"
proof (induction n arbitrary: w)
  case 0
  then show ?case by simp
next
  case (Suc n)
  show ?case by (rule bit_word_eqI) (auto simp: Suc bit_simps)
qed

lemma le_word_le_bytes [simp]:
  "LENGTH('a) \<le> 8 * n \<Longrightarrow> le_word (le_bytes n w) = (w :: 'a::len word)"
  by (simp add: le_word_le_bytes_take take_bit_word_eq_self)

lemma bit_le_word_bound: "bit (le_word bs :: 'a::len word) i \<Longrightarrow> i < 8 * length bs"
proof (induction bs arbitrary: i)
  case Nil
  then show ?case by simp
next
  case (Cons b bs)
  have "i < 8 * length (b # bs)" if "bit b i"
    using bit_imp_le_length[OF that] by simp
  moreover have "i < 8 * length (b # bs)" if "bit (le_word bs :: 'a word) (i - 8)"
    using Cons.IH[OF that] by simp
  ultimately show ?case using Cons.prems by (auto simp: bit_simps)
qed

lemma le_bytes_le_word [simp]:
  "8 * length bs \<le> LENGTH('a) \<Longrightarrow> le_bytes (length bs) (le_word bs :: 'a::len word) = bs"
proof (induction bs)
  case Nil
  then show ?case by simp
next
  case (Cons b bs)
  let ?w = "ucast b OR push_bit 8 (le_word bs :: 'a word)"
  have "ucast ?w = b"
    using Cons.prems by (intro bit_word_eqI) (auto simp: bit_simps)
  moreover have "drop_bit 8 ?w = (le_word bs :: 'a word)"
    using Cons.prems bit_le_word_bound[of bs, where 'a='a] bit_imp_le_length[of b]
    by (intro bit_word_eqI) (fastforce simp: bit_simps)
  ultimately show ?case using Cons by simp
qed

section \<open>Folds that undo each other\<close>

lemma fold_rev_inverse:
  "(\<And>j s. g j (f j s) = s) \<Longrightarrow> fold g (rev js) (fold f js s) = s"
  by (induction js arbitrary: s) auto

section \<open>Byte memories\<close>

definition read_at :: "memory \<Rightarrow> nat \<Rightarrow> nat \<Rightarrow> u8 list" where
  "read_at mem off n = map (\<lambda>i. mem (off + i)) [0..<n]"

definition write_at :: "memory \<Rightarrow> nat \<Rightarrow> u8 list \<Rightarrow> memory" where
  "write_at mem off bs = (\<lambda>a. if off \<le> a \<and> a < off + length bs then bs ! (a - off) else mem a)"

lemma length_read_at [simp]: "length (read_at mem off n) = n"
  by (simp add: read_at_def)

lemma read_at_nth [simp]: "i < n \<Longrightarrow> read_at mem off n ! i = mem (off + i)"
  by (simp add: read_at_def)

lemma write_at_Nil [simp]: "write_at mem off [] = mem"
  by (rule ext) (auto simp: write_at_def)

lemma write_at_outside [mem_simps]:
  "a < off \<or> off + length bs \<le> a \<Longrightarrow> write_at mem off bs a = mem a"
  by (auto simp: write_at_def)

lemma write_at_inside [mem_simps]:
  "off \<le> a \<Longrightarrow> a < off + length bs \<Longrightarrow> write_at mem off bs a = bs ! (a - off)"
  by (simp add: write_at_def)

lemma read_at_cong: "(\<And>i. i < n \<Longrightarrow> m (off + i) = m' (off + i)) \<Longrightarrow> read_at m off n = read_at m' off n"
  by (simp add: read_at_def)

lemma read_write_same [mem_simps]: "n = length bs \<Longrightarrow> read_at (write_at mem off bs) off n = bs"
  by (rule nth_equalityI) (auto simp: write_at_def)

lemma read_write_disjoint [mem_simps]:
  "off' + n \<le> off \<or> off + length bs \<le> off' \<Longrightarrow> read_at (write_at mem off bs) off' n = read_at mem off' n"
  by (rule read_at_cong) (auto simp: write_at_def)

lemma write_read_id [mem_simps]: "write_at mem off (read_at mem off n) = mem"
  by (rule ext) (auto simp: write_at_def)

lemma write_write_same [mem_simps]:
  "length bs = length cs \<Longrightarrow> write_at (write_at mem off bs) off cs = write_at mem off cs"
  by (rule ext) (auto simp: write_at_def)

lemma write_write_commute:
  "off + length bs \<le> off' \<or> off' + length cs \<le> off \<Longrightarrow>
   write_at (write_at mem off bs) off' cs = write_at (write_at mem off' cs) off bs"
  by (rule ext) (auto simp: write_at_def)

lemma read_at_append: "read_at mem off (m + n) = read_at mem off m @ read_at mem (off + m) n"
  by (rule nth_equalityI) (auto simp: nth_append)

lemma take_read_at: "take m (read_at mem off n) = read_at mem off (min m n)"
  by (rule nth_equalityI) auto

lemma drop_read_at: "drop m (read_at mem off n) = read_at mem (off + m) (n - m)"
  by (rule nth_equalityI) (auto simp: add.assoc)

lemma write_at_append:
  "write_at mem off (bs @ cs) = write_at (write_at mem off bs) (off + length bs) cs"
  by (rule ext) (auto simp: write_at_def nth_append)

end
