(* ===== verification/Strings.thy ===== *)
theory Strings
  imports TFS_Prelude "HOL-Library.Sublist"
begin

text \<open>
  The string utilities of tools.cpp. Strings are lists of characters; \<open>std::tolower\<close>, \<open>std::toupper\<close>,
  \<open>std::isalpha\<close> and \<open>std::isspace\<close> are those of the "C" locale, which the server never changes.
  \<open>std::string::find\<close> is \<open>find_sub\<close>. A function that changes its argument in place returns it.
\<close>

section \<open>Characters\<close>

definition tolower :: "char \<Rightarrow> char" where
  "tolower c = (if 65 \<le> (of_char c :: nat) \<and> (of_char c :: nat) \<le> 90 then char_of ((of_char c :: nat) + 32) else c)"

definition toupper :: "char \<Rightarrow> char" where
  "toupper c = (if 97 \<le> (of_char c :: nat) \<and> (of_char c :: nat) \<le> 122 then char_of ((of_char c :: nat) - 32) else c)"

definition isalpha :: "char \<Rightarrow> bool" where
  "isalpha c \<longleftrightarrow> (65 \<le> (of_char c :: nat) \<and> (of_char c :: nat) \<le> 90) \<or> (97 \<le> (of_char c :: nat) \<and> (of_char c :: nat) \<le> 122)"

definition isspace :: "char \<Rightarrow> bool" where
  "isspace c \<longleftrightarrow> (of_char c :: nat) = 32 \<or> (9 \<le> (of_char c :: nat) \<and> (of_char c :: nat) \<le> 13)"

section \<open>Player names\<close>

abbreviation apostrophe :: char where
  "apostrophe \<equiv> CHR 0x27"

definition separator :: "char \<Rightarrow> bool" where
  "separator c \<longleftrightarrow> c = CHR '' '' \<or> c = apostrophe"

fun format_loop :: "char \<Rightarrow> bool \<Rightarrow> string \<Rightarrow> bool \<times> string" where
  "format_loop lastChar capitalizeNext [] = (True, [])"
| "format_loop lastChar capitalizeNext (c # cs) =
     (if \<not> isalpha c \<and> c \<noteq> CHR '' '' \<and> c \<noteq> apostrophe then (False, c # cs)
      else if separator c \<and> separator lastChar then (False, c # cs)
      else let (c', cap') =
             (if capitalizeNext \<and> isalpha c then (toupper c, False)
              else if isalpha c then (tolower c, capitalizeNext)
              else if c = CHR '' '' then (c, True)
              else (c, capitalizeNext));
             (ok, cs') = format_loop c cap' cs
           in (ok, c' # cs'))"

text \<open>
  \<open>name.substr(start, end - start + 1)\<close> between the first and the last character that is not a blank.
\<close>

definition strip_blanks :: "string \<Rightarrow> string" where
  "strip_blanks name = rev (dropWhile (\<lambda>c. c = CHR '' '') (rev (dropWhile (\<lambda>c. c = CHR '' '') name)))"

definition validateAndFormatPlayerName :: "string \<Rightarrow> bool \<times> string" where
  "validateAndFormatPlayerName name =
     (if name = [] then (False, name)
      else if list_all (\<lambda>c. c = CHR '' '') name then (False, name)
      else let name = strip_blanks name in
        if length name < 3 \<or> length name > 29 then (False, name)
        else if \<not> isalpha (name ! 0) then (False, name)
        else if \<not> isalpha (name ! (length name - 1)) then (False, name)
        else format_loop CHR '' '' True name)"

section \<open>Comparison and case\<close>

definition caseInsensitiveEqual :: "string \<Rightarrow> string \<Rightarrow> bool" where
  "caseInsensitiveEqual str1 str2 \<longleftrightarrow>
     length str1 = length str2 \<and> list_all2 (\<lambda>a b. tolower a = tolower b) str1 str2"

definition caseInsensitiveStartsWith :: "string \<Rightarrow> string \<Rightarrow> bool" where
  "caseInsensitiveStartsWith str pre \<longleftrightarrow>
     length str \<ge> length pre \<and> list_all2 (\<lambda>a b. tolower a = tolower b) pre (take (length pre) str)"

fun search_ci :: "string \<Rightarrow> string \<Rightarrow> bool" where
  "search_ci needle [] \<longleftrightarrow> False"
| "search_ci needle (c # cs) \<longleftrightarrow> caseInsensitiveStartsWith (c # cs) needle \<or> search_ci needle cs"

definition caseInsensitiveContains :: "string \<Rightarrow> string \<Rightarrow> bool" where
  "caseInsensitiveContains str needle \<longleftrightarrow> (if needle = [] then True else search_ci needle str)"

definition toLowerCaseString :: "string \<Rightarrow> string" where
  "toLowerCaseString source = map tolower source"

definition asLowerCaseString :: "string \<Rightarrow> string" where
  "asLowerCaseString source = toLowerCaseString source"

definition toUpperCaseString :: "string \<Rightarrow> string" where
  "toUpperCaseString source = map toupper source"

definition asUpperCaseString :: "string \<Rightarrow> string" where
  "asUpperCaseString source = toUpperCaseString source"

definition trimLeftString :: "string \<Rightarrow> string" where
  "trimLeftString source = dropWhile isspace source"

definition trimString :: "string \<Rightarrow> string" where
  "trimString source = rev (dropWhile isspace (rev (trimLeftString source)))"

definition asTrimmedString :: "string \<Rightarrow> string" where
  "asTrimmedString source = trimString source"

fun ucfirst :: "string \<Rightarrow> string" where
  "ucfirst [] = []"
| "ucfirst (i # str) = (if i \<noteq> CHR '' '' then toupper i # str else i # ucfirst str)"

fun ucwords_from :: "char \<Rightarrow> string \<Rightarrow> string" where
  "ucwords_from prev [] = []"
| "ucwords_from prev (c # str) =
     (let c' = (if prev = CHR '' '' then toupper c else c) in c' # ucwords_from c' str)"

definition ucwords :: "string \<Rightarrow> string" where
  "ucwords str = (case str of [] \<Rightarrow> [] | c # cs \<Rightarrow> toupper c # ucwords_from (toupper c) cs)"

definition booleanString :: "string \<Rightarrow> bool" where
  "booleanString str =
     (case str of [] \<Rightarrow> False
      | c # _ \<Rightarrow> let ch = tolower c in ch \<noteq> CHR ''f'' \<and> ch \<noteq> CHR ''n'' \<and> ch \<noteq> CHR ''0'')"

fun getFirstLine :: "string \<Rightarrow> string" where
  "getFirstLine [] = []"
| "getFirstLine (c # str) = (if c = CHR 0x0A then [] else c # getFirstLine str)"

section \<open>Splitting and replacing\<close>

text \<open>The index of the first occurrence of a substring.\<close>

fun find_sub :: "string \<Rightarrow> string \<Rightarrow> nat option" where
  "find_sub sub str =
     (if prefix sub str then Some 0
      else case str of [] \<Rightarrow> None | _ # cs \<Rightarrow> map_option Suc (find_sub sub cs))"

text \<open>
  \<open>explodeString\<close>: the loop works on the rest of the view from \<open>start\<close>. With an empty separator and no
  limit it never ends, which is the result \<open>None\<close>.
\<close>

partial_function (option) explode_loop :: "string \<Rightarrow> int \<Rightarrow> string \<Rightarrow> string list option" where
  "explode_loop sep limit rest =
     (let limit = limit - 1 in
      if limit = -1 then Some [rest]
      else case find_sub sep rest of
          None \<Rightarrow> Some [rest]
        | Some n \<Rightarrow> Option.bind (explode_loop sep limit (drop (n + length sep) rest))
                     (\<lambda>r. Some (take n rest # r)))"

definition explodeString :: "string \<Rightarrow> string \<Rightarrow> int \<Rightarrow> string list option" where
  "explodeString inString sep limit = explode_loop sep limit inString"

function replace_from :: "string \<Rightarrow> string \<Rightarrow> string \<Rightarrow> nat \<Rightarrow> string" where
  "replace_from search replacement source pos =
     (if search = [] then source
      else case find_sub search (drop pos source) of
          None \<Rightarrow> source
        | Some n \<Rightarrow>
            replace_from search replacement
              (take (pos + n) source @ replacement @ drop (pos + n + length search) source)
              (pos + n + length replacement))"
  by pat_completeness auto

definition replaceString :: "string \<Rightarrow> string \<Rightarrow> string \<Rightarrow> string" where
  "replaceString source search replacement =
     (if search = [] then source else replace_from search replacement source 0)"

lemma find_sub_Some: "find_sub sub str = Some n \<Longrightarrow> \<exists>v. str = take n str @ sub @ v \<and> n + length sub \<le> length str"
proof (induction sub str arbitrary: n rule: find_sub.induct)
  case (1 sub str)
  show ?case
  proof (cases "prefix sub str")
    case True
    with 1(2) show ?thesis by (auto simp: prefix_def)
  next
    case False
    with 1(2) obtain c cs m where "str = c # cs" "find_sub sub cs = Some m" "n = Suc m"
      by (auto split: list.splits simp del: find_sub.simps simp: find_sub.simps[of sub str])
    with 1(1)[OF False] show ?thesis by auto
  qed
qed

declare find_sub.simps [simp del]

termination replace_from
proof (relation "measure (\<lambda>(_, _, source, pos). length source - pos)", goal_cases)
  case (2 search replacement source pos n)
  from find_sub_Some[OF 2(2)] 2(1) show ?case
    by (cases search) (auto simp: min_def)
qed simp

declare replace_from.simps [simp del]

section \<open>Numbers\<close>

fun decimal :: "nat \<Rightarrow> string" where
  "decimal n = (if n < 10 then [char_of (48 + n)] else decimal (n div 10) @ [char_of (48 + n mod 10)])"

declare decimal.simps [simp del]

definition convertIPToString :: "u32 \<Rightarrow> string" where
  "convertIPToString ip =
     decimal (unat (ip AND 0xFF)) @ ''.'' @ decimal (unat (drop_bit 8 ip AND 0xFF)) @ ''.'' @
     decimal (unat (drop_bit 16 ip AND 0xFF)) @ ''.'' @ decimal (unat (drop_bit 24 ip AND 0xFF))"

text \<open>\<open>absValue\<close> is computed on \<open>int64_t\<close> without overflow for the least value.\<close>

definition formatValueK :: "64 word \<Rightarrow> string" where
  "formatValueK value =
     (let negative = sint value < 0;
          absValue = (if negative then - (value + 1) + 1 else value) :: u64;
          result =
            (if absValue \<ge> 1000000000000 then decimal (unat (absValue div 1000000000000)) @ ''T''
             else if absValue \<ge> 1000000000 then decimal (unat (absValue div 1000000000)) @ ''B''
             else if absValue \<ge> 1000000 then decimal (unat (absValue div 1000000)) @ ''KK''
             else if absValue \<ge> 1000 then decimal (unat (absValue div 1000)) @ ''K''
             else decimal (unat absValue))
      in if negative then ''-'' @ result else result)"

section \<open>Facts about characters\<close>

definition isupper :: "char \<Rightarrow> bool" where
  "isupper c \<longleftrightarrow> 65 \<le> (of_char c :: nat) \<and> (of_char c :: nat) \<le> 90"

lemma of_char_tolower: "(of_char (tolower c) :: nat) = (if isupper c then of_char c + 32 else of_char c)"
  by (simp add: tolower_def isupper_def)

lemma of_char_toupper: "(of_char (toupper c) :: nat) =
    (if isalpha c \<and> \<not> isupper c then of_char c - 32 else of_char c)"
  by (auto simp: toupper_def isupper_def isalpha_def)

lemma isalpha_case [simp]: "isalpha (tolower c) = isalpha c" "isalpha (toupper c) = isalpha c"
  by (auto simp: isalpha_def of_char_tolower of_char_toupper isupper_def)

lemma isupper_case [simp]: "\<not> isupper (tolower c)" "isalpha c \<Longrightarrow> isupper (toupper c)"
  by (auto simp: isalpha_def of_char_tolower of_char_toupper isupper_def)

lemma of_char_inject: "(of_char c :: nat) = of_char d \<Longrightarrow> c = d"
  by (simp add: of_char_eq_iff)

lemma tolower_lower: "\<not> isupper c \<Longrightarrow> tolower c = c"
  by (intro of_char_inject) (simp add: of_char_tolower)

lemma toupper_upper: "isupper c \<Longrightarrow> toupper c = c"
  by (intro of_char_inject) (simp add: of_char_toupper)

lemma tolower_case [simp]: "tolower (tolower c) = tolower c" "tolower (toupper c) = tolower c"
  by (intro of_char_inject; auto simp: of_char_tolower of_char_toupper isupper_def isalpha_def)+

lemma separator_not_alpha: "isalpha c \<Longrightarrow> \<not> separator c \<and> c \<noteq> CHR '' '' \<and> c \<noteq> apostrophe"
  by (auto simp: separator_def isalpha_def)

lemma not_alpha [simp]: "\<not> isalpha CHR '' ''" "\<not> isalpha apostrophe"
  by (auto simp: isalpha_def)

section \<open>The names that are accepted\<close>

text \<open>
  A proper name has 3 to 29 characters, letters and single blanks or apostrophes, begins and ends with a
  letter, and a letter is a capital exactly at the start of the name or after a blank.
\<close>

definition proper_name :: "string \<Rightarrow> bool" where
  "proper_name n \<longleftrightarrow>
     3 \<le> length n \<and> length n \<le> 29 \<and> isalpha (hd n) \<and> isalpha (last n) \<and>
     (\<forall>c \<in> set n. isalpha c \<or> separator c) \<and>
     (\<forall>i. Suc i < length n \<longrightarrow> \<not> (separator (n ! i) \<and> separator (n ! Suc i))) \<and>
     (\<forall>i < length n. isalpha (n ! i) \<longrightarrow> (isupper (n ! i) \<longleftrightarrow> i = 0 \<or> n ! (i - 1) = CHR '' ''))"

fun name_tail :: "char \<Rightarrow> string \<Rightarrow> bool" where
  "name_tail p [] \<longleftrightarrow> True"
| "name_tail p (c # cs) \<longleftrightarrow> (isalpha c \<or> separator c) \<and> \<not> (separator c \<and> separator p) \<and>
     (isalpha c \<longrightarrow> (isupper c \<longleftrightarrow> p = CHR '' '')) \<and> name_tail c cs"

lemma name_tail_cong: "separator p = separator q \<Longrightarrow> (p = CHR '' '') = (q = CHR '' '') \<Longrightarrow> name_tail p s = name_tail q s"
  by (cases s) auto

lemma name_tail_nth:
  "name_tail p s \<longleftrightarrow> (\<forall>c \<in> set s. isalpha c \<or> separator c) \<and>
     (\<forall>i < length s. \<not> (separator (s ! i) \<and> separator ((p # s) ! i))) \<and>
     (\<forall>i < length s. isalpha (s ! i) \<longrightarrow> (isupper (s ! i) \<longleftrightarrow> (p # s) ! i = CHR '' ''))"
  by (induction p s rule: name_tail.induct) (auto simp: All_less_Suc2)

lemma format_loop_tail:
  "format_loop p (p = CHR '' '') s = (True, r) \<Longrightarrow> name_tail p r \<and> map tolower r = map tolower s"
proof (induction s arbitrary: p r)
  case (Cons c cs)
  let ?c = "if isalpha c then if p = CHR '' '' then toupper c else tolower c else c"
  from Cons.prems obtain r' where ok: "isalpha c \<or> separator c" "\<not> (separator c \<and> separator p)"
    and r: "r = ?c # r'" and "format_loop c (c = CHR '' '') cs = (True, r')"
    by (auto simp: separator_def separator_not_alpha split: if_splits prod.splits)
  then have "name_tail c r'" "map tolower r' = map tolower cs" using Cons.IH by auto
  moreover have "name_tail ?c r' = name_tail c r'"
    by (intro name_tail_cong) (auto simp: separator_not_alpha)
  ultimately show ?case using ok by (auto simp: r separator_not_alpha)
qed simp

lemma format_loop_fixed: "name_tail p s \<Longrightarrow> format_loop p (p = CHR '' '') s = (True, s)"
proof (induction p s rule: name_tail.induct)
  case (2 p c cs)
  then show ?case
    by (auto simp: separator_def separator_not_alpha toupper_upper tolower_lower)
qed simp

lemma proper_name_tail:
  "proper_name n \<longleftrightarrow> 3 \<le> length n \<and> length n \<le> 29 \<and> isalpha (n ! 0) \<and> isalpha (n ! (length n - 1)) \<and>
     name_tail CHR '' '' n"
proof (cases n)
  case (Cons c cs)
  then show ?thesis
    by (auto simp: proper_name_def name_tail_nth hd_conv_nth last_conv_nth All_less_Suc2 separator_not_alpha
        separator_def[of "CHR '' ''"])
qed (simp add: proper_name_def)

lemma strip_blanks_ends:
  "s \<noteq> [] \<Longrightarrow> hd s \<noteq> CHR '' '' \<Longrightarrow> last s \<noteq> CHR '' '' \<Longrightarrow> strip_blanks s = s"
  by (simp add: strip_blanks_def dropWhile_eq_self_iff[THEN iffD2] hd_rev)

lemma proper_name_strip: "proper_name n \<Longrightarrow> strip_blanks n = n \<and> \<not> list_all (\<lambda>c. c = CHR '' '') n"
  by (cases n) (auto simp: proper_name_def intro!: strip_blanks_ends)

lemma validate_proper: "proper_name n \<Longrightarrow> validateAndFormatPlayerName n = (True, n)"
  using format_loop_fixed[of "CHR '' ''" n] proper_name_strip[of n]
  by (auto simp: validateAndFormatPlayerName_def Let_def proper_name_tail)

lemma length_tolower: "map tolower r = map tolower s \<Longrightarrow> length r = length s"
  by (drule arg_cong[of _ _ length]) simp

lemma isalpha_tolower_eq: "map tolower r = map tolower s \<Longrightarrow> i < length s \<Longrightarrow> isalpha (r ! i) = isalpha (s ! i)"
  by (metis isalpha_case(1) length_tolower nth_map)

lemma validate_accepts:
  assumes "validateAndFormatPlayerName name = (True, n)"
  shows "proper_name n \<and> map tolower n = map tolower (strip_blanks name)"
proof -
  let ?s = "strip_blanks name"
  have f: "format_loop CHR '' '' True ?s = (True, n)" and l: "3 \<le> length ?s" "length ?s \<le> 29"
    and a: "isalpha (?s ! 0)" "isalpha (?s ! (length ?s - 1))"
    using assms by (auto simp: validateAndFormatPlayerName_def Let_def split: if_splits)
  then have t: "name_tail CHR '' '' n" and m: "map tolower n = map tolower ?s"
    using format_loop_tail[of "CHR '' ''" ?s n] by auto
  moreover have "isalpha (n ! 0)" "isalpha (n ! (length n - 1))"
    unfolding length_tolower[OF m]
    using a l isalpha_tolower_eq[OF m, of 0] isalpha_tolower_eq[OF m, of "length ?s - 1"]
    by (auto simp del: length_greater_0_conv)
  ultimately show ?thesis using l length_tolower[OF m] by (simp add: proper_name_tail)
qed

lemma caseInsensitiveEqual_map: "caseInsensitiveEqual a b \<longleftrightarrow> map tolower a = map tolower b"
  by (auto simp: caseInsensitiveEqual_def list_all2_conv_all_nth list_eq_iff_nth_eq)

lemma tolower_eq_facts:
  assumes "tolower c = tolower d"
  shows "isalpha c = isalpha d" "separator c = separator d" "c = CHR '' '' \<longleftrightarrow> d = CHR '' ''"
    "c = apostrophe \<longleftrightarrow> d = apostrophe" "isalpha c \<Longrightarrow> toupper c = toupper d"
proof -
  have o: "(of_char (tolower c) :: nat) = of_char (tolower d)" using assms by simp
  show "isalpha c = isalpha d" by (metis assms isalpha_case(1))
  show b: "c = CHR '' '' \<longleftrightarrow> d = CHR '' ''" and a: "c = apostrophe \<longleftrightarrow> d = apostrophe"
    using assms by (auto simp: tolower_def split: if_splits dest!: arg_cong[of _ _ "of_char :: char \<Rightarrow> nat"])
  show "separator c = separator d" by (simp add: separator_def a b)
  show "isalpha c \<Longrightarrow> toupper c = toupper d"
    using o by (intro of_char_inject)
      (auto simp: of_char_tolower of_char_toupper isalpha_def isupper_def split: if_splits)
qed

definition format_char :: "bool \<Rightarrow> char \<Rightarrow> char" where
  "format_char cap c = (if isalpha c then if cap then toupper c else tolower c else c)"

lemma format_loop_Cons:
  "format_loop p cap (c # cs) =
     (if \<not> (isalpha c \<or> separator c) \<or> (separator c \<and> separator p) then (False, c # cs)
      else map_prod id ((#) (format_char cap c))
        (format_loop c (if isalpha c then False else if c = CHR '' '' then True else cap) cs))"
  by (auto simp: format_char_def separator_def split: prod.splits)

lemma format_char_case: "tolower c = tolower d \<Longrightarrow> format_char cap c = format_char cap d"
  using tolower_eq_facts[of c d] tolower_lower[of c] tolower_lower[of d]
  by (auto simp: format_char_def isalpha_def isupper_def)

lemma format_loop_case:
  "map tolower s = map tolower s' \<Longrightarrow> separator p = separator p' \<Longrightarrow>
   format_loop p cap s = (True, r) \<Longrightarrow> format_loop p' cap s' = (True, r)"
proof (induction s arbitrary: s' p p' cap r)
  case (Cons c s)
  then obtain d t where s': "s' = d # t" and cd: "tolower c = tolower d" and m: "map tolower s = map tolower t"
    by (cases s') auto
  let ?cap = "if isalpha c then False else if c = CHR '' '' then True else cap"
  obtain r' where ok: "isalpha c \<or> separator c" "\<not> (separator c \<and> separator p)"
    and r: "r = format_char cap c # r'" and l: "format_loop c ?cap s = (True, r')"
    using Cons.prems(3) by (cases "format_loop c ?cap s") (auto simp: format_loop_Cons simp del: format_loop.simps split: if_splits)
  have "format_loop d ?cap t = (True, r')"
    by (rule Cons.IH[OF m tolower_eq_facts(2)[OF cd] l])
  note this[unfolded tolower_eq_facts(1,3)[OF cd]]
  then show ?case
    using ok Cons.prems(2) unfolding s' r format_loop_Cons
    by (simp add: tolower_eq_facts(1-4)[OF cd] format_char_case[OF cd] del: format_loop.simps)
qed simp

lemma validate_complete:
  assumes "proper_name n" and "map tolower n = map tolower (strip_blanks name)"
  shows "validateAndFormatPlayerName name = (True, n)"
proof -
  let ?s = "strip_blanks name"
  have n: "3 \<le> length n" "length n \<le> 29" "isalpha (n ! 0)" "isalpha (n ! (length n - 1))" "name_tail CHR '' '' n"
    using assms(1) by (auto simp: proper_name_tail)
  have l: "length n = length ?s" by (rule length_tolower[OF assms(2)])
  have "format_loop CHR '' '' True ?s = (True, n)"
    using format_loop_case[OF assms(2) refl format_loop_fixed[OF n(5)]] by simp
  moreover have "isalpha (?s ! 0)" "isalpha (?s ! (length ?s - 1))"
    using n l isalpha_tolower_eq[OF assms(2), of 0] isalpha_tolower_eq[OF assms(2), of "length ?s - 1"]
    by (auto simp del: length_greater_0_conv)
  moreover have "strip_blanks name \<noteq> []" using n(1) l by auto
  then have "dropWhile (\<lambda>c. c = CHR '' '') name \<noteq> []" by (auto simp: strip_blanks_def simp del: dropWhile_eq_Nil_conv)
  then have "\<not> list_all (\<lambda>c. c = CHR '' '') name" "name \<noteq> []"
    by (simp_all only: list_all_iff dropWhile_eq_Nil_conv not_False_eq_True) auto
  ultimately show ?thesis using n(1,2) l by (auto simp: validateAndFormatPlayerName_def Let_def)
qed

text \<open>
  \<open>validateAndFormatPlayerName\<close> accepts a typed name exactly when some proper name equals it up
  to case and blanks around it, and returns that proper name; every other input is refused.
\<close>

theorem validateAndFormat_correct:
  "validateAndFormatPlayerName name = (True, n) \<longleftrightarrow> proper_name n \<and> caseInsensitiveEqual n (strip_blanks name)"
  using validate_accepts validate_complete unfolding caseInsensitiveEqual_map by blast

section \<open>Splitting gives the parts between separators\<close>

fun join :: "string \<Rightarrow> string list \<Rightarrow> string" where
  "join sep [] = []"
| "join sep [p] = p"
| "join sep (p # q # ps) = p @ sep @ join sep (q # ps)"

lemma join_Cons: "ps \<noteq> [] \<Longrightarrow> join sep (p # ps) = p @ sep @ join sep ps"
  by (cases ps) auto

lemma find_sub_Nil: "find_sub sub [] = (if sub = [] then Some 0 else None)"
  by (simp add: find_sub.simps)

lemma find_sub_Cons: "find_sub sub (c # cs) = (if prefix sub (c # cs) then Some 0 else map_option Suc (find_sub sub cs))"
  by (subst find_sub.simps) simp

lemma find_sub_None: "find_sub sub str = None \<longleftrightarrow> \<not> sublist sub str"
  by (induction str) (auto simp: find_sub_Nil find_sub_Cons sublist_Cons_right)

lemma find_sub_first:
  assumes "find_sub sub str = Some n" and "sub \<noteq> []"
  shows "\<not> sublist sub (take n str)"
  using assms(1)
proof (induction str arbitrary: n)
  case Nil
  with assms(2) show ?case by (simp add: find_sub_Nil)
next
  case (Cons c cs)
  show ?case
  proof (cases "prefix sub (c # cs)")
    case True
    with Cons.prems assms(2) show ?thesis by (auto simp: find_sub_Cons)
  next
    case False
    with Cons.prems obtain m where m: "find_sub sub cs = Some m" "n = Suc m"
      by (auto simp: find_sub_Cons)
    have "prefix (c # take m cs) (c # cs)" by (simp add: take_is_prefix)
    with False have "\<not> prefix sub (c # take m cs)" by (meson prefix_order.trans)
    with Cons.IH[OF m(1)] m(2) show ?thesis by (auto simp: sublist_Cons_right)
  qed
qed

lemma find_sub_split:
  assumes "find_sub sub str = Some n"
  shows "str = take n str @ sub @ drop (n + length sub) str"
proof -
  obtain v where v: "str = take n str @ sub @ v" and "n + length sub \<le> length str"
    using find_sub_Some[OF assms] by blast
  then have "drop (n + length sub) str = v"
    by (metis add_leD1 append_eq_conv_conj append_assoc length_append length_take min.absorb2)
  with v show ?thesis by simp
qed

definition exploded :: "string \<Rightarrow> int \<Rightarrow> string \<Rightarrow> string list \<Rightarrow> bool" where
  "exploded sep limit s parts \<longleftrightarrow>
     parts \<noteq> [] \<and> join sep parts = s \<and> (\<forall>p \<in> set (butlast parts). \<not> sublist sep p) \<and>
     (limit \<ge> 0 \<longrightarrow> int (length parts) \<le> limit + 1) \<and>
     (limit < 0 \<or> int (length parts) \<le> limit \<longrightarrow> \<not> sublist sep (last parts))"

lemma explode_loop_correct:
  "sep \<noteq> [] \<Longrightarrow> \<exists>parts. explode_loop sep limit s = Some parts \<and> exploded sep limit s parts"
proof (induction "length s" arbitrary: s limit rule: less_induct)
  case less
  show ?case
  proof (cases "limit = 0 \<or> find_sub sep s = None")
    case True
    moreover have "exploded sep limit s [s]"
      using True by (auto simp: exploded_def find_sub_None)
    ultimately show ?thesis by (subst explode_loop.simps) auto
  next
    case False
    then obtain n where n: "limit \<noteq> 0" "find_sub sep s = Some n" by auto
    let ?t = "drop (n + length sep) s"
    have "length ?t < length s"
      using find_sub_Some[OF n(2)] less.prems by (cases sep) auto
    from less.hyps[OF this less.prems, of "limit - 1"] obtain parts
      where p: "explode_loop sep (limit - 1) ?t = Some parts" "exploded sep (limit - 1) ?t parts" by auto
    have "exploded sep limit s (take n s # parts)"
      using p(2) n(1) find_sub_split[OF n(2)] find_sub_first[OF n(2) less.prems]
      by (auto simp: exploded_def join_Cons)
    with p(1) n show ?thesis by (subst explode_loop.simps) auto
  qed
qed

text \<open>
  \<open>explodeString\<close> with a non-empty separator always returns; the parts joined by the separator
  are the input, no part but the last contains the separator, a limit bounds the number of cuts, and
  the last part has the separator in it only when the limit was used up.
\<close>

theorem explodeString_correct:
  assumes "sep \<noteq> []"
  shows "\<exists>parts. explodeString s sep limit = Some parts \<and> exploded sep limit s parts"
  unfolding explodeString_def by (rule explode_loop_correct[OF assms])

section \<open>Replacing is splitting and joining\<close>

lemma replace_from_join:
  "search \<noteq> [] \<Longrightarrow> pos \<le> length s \<Longrightarrow> explode_loop search limit (drop pos s) = Some parts \<Longrightarrow> limit < 0 \<Longrightarrow>
   replace_from search rep s pos = take pos s @ join rep parts"
proof (induction search rep s pos arbitrary: limit parts rule: replace_from.induct)
  case (1 search rep s pos)
  show ?case
  proof (cases "find_sub search (drop pos s)")
    case None
    with 1(2-5) show ?thesis
      by (subst replace_from.simps, subst (asm) explode_loop.simps) auto
  next
    case (Some n)
    let ?s = "take (pos + n) s @ rep @ drop (pos + n + length search) s"
    have len: "n + length search \<le> length (drop pos s)" using find_sub_Some[OF Some] by auto
    with 1(3) have le: "pos + n + length search \<le> length s" by simp
    then have d: "drop (pos + n + length rep) ?s = drop (n + length search) (drop pos s)"
      by (simp add: add.commute add.left_commute)
    from 1(4) Some 1(5) obtain r where r: "explode_loop search (limit - 1) (drop (n + length search) (drop pos s)) = Some r"
      and parts: "parts = take n (drop pos s) # r"
      by (subst (asm) explode_loop.simps) (auto simp: bind_eq_Some_conv)
    have "r \<noteq> []"
      using explode_loop_correct[OF 1(2), of "limit - 1" "drop (n + length search) (drop pos s)"] r by (auto simp: exploded_def)
    from 1(1)[OF 1(2) Some 1(2) _ r[folded d]] 1(5) le
    have "replace_from search rep ?s (pos + n + length rep) = take (pos + n + length rep) ?s @ join rep r" by simp
    with 1(2) Some parts le \<open>r \<noteq> []\<close> show ?thesis
      by (subst replace_from.simps) (simp add: join_Cons take_add)
  qed
qed

text \<open>
  Replacing every occurrence of a non-empty text is splitting at it and joining the parts
  with the replacement, also when the replacement contains the text again.
\<close>

theorem replaceString_is_join:
  assumes "search \<noteq> []"
  shows "map_option (join replacement) (explodeString source search (-1)) = Some (replaceString source search replacement)"
  using explode_loop_correct[OF assms, of "-1" source] replace_from_join[OF assms, of 0 source "-1"] assms
  by (auto simp: explodeString_def replaceString_def)

theorem explodeString_witness:
  "''; '' \<noteq> [] \<and> (\<exists>parts. explodeString ''a; b; c'' ''; '' 1 = Some parts \<and> exploded ''; '' 1 ''a; b; c'' parts)"
  using explodeString_correct[of "''; ''" "''a; b; c''" 1] by simp

theorem replaceString_witness:
  "''a'' \<noteq> [] \<and> map_option (join ''aa'') (explodeString ''banana'' ''a'' (-1)) = Some (replaceString ''banana'' ''a'' ''aa'')"
  using replaceString_is_join[of "''a''" "''aa''" "''banana''"] by simp

end
