(* ===== verification/Positions.thy ===== *)
theory Positions
  imports TFS_Prelude
begin

text \<open>
  \<^verbatim>\<open>src/src/position.h\<close>, \<^verbatim>\<open>src/src/position.cpp\<close> and the direction helpers of
  \<^verbatim>\<open>src/src/tools.cpp\<close>: map coordinates, their order and distances, and stepping by a direction.
  Coordinates are machine words, so stepping off the map wraps as it does in the code.
\<close>

section \<open>Coordinates\<close>

datatype Position = Position (pos_x: u16) (pos_y: u16) (pos_z: u8)

definition getOffsetX :: "Position \<Rightarrow> Position \<Rightarrow> int" where
  "getOffsetX p q = uint (pos_x p) - uint (pos_x q)"

definition getOffsetY :: "Position \<Rightarrow> Position \<Rightarrow> int" where
  "getOffsetY p q = uint (pos_y p) - uint (pos_y q)"

definition getOffsetZ :: "Position \<Rightarrow> Position \<Rightarrow> int" where
  "getOffsetZ p q = uint (pos_z p) - uint (pos_z q)"

definition tfs_abs :: "int \<Rightarrow> int" where
  "tfs_abs num = (if num < 0 then - num else num)"

definition getDistanceX :: "Position \<Rightarrow> Position \<Rightarrow> int" where
  "getDistanceX p q = tfs_abs (getOffsetX p q)"

definition getDistanceY :: "Position \<Rightarrow> Position \<Rightarrow> int" where
  "getDistanceY p q = tfs_abs (getOffsetY p q)"

definition getDistanceZ :: "Position \<Rightarrow> Position \<Rightarrow> int" where
  "getDistanceZ p q = tfs_abs (getOffsetZ p q)"

definition isInRange2 :: "Position \<Rightarrow> Position \<Rightarrow> int \<Rightarrow> int \<Rightarrow> bool" where
  "isInRange2 p q deltax deltay \<longleftrightarrow> getDistanceX p q \<le> deltax \<and> getDistanceY p q \<le> deltay"

definition isInRange3 :: "Position \<Rightarrow> Position \<Rightarrow> int \<Rightarrow> int \<Rightarrow> u16 \<Rightarrow> bool" where
  "isInRange3 p q deltax deltay deltaz \<longleftrightarrow>
     getDistanceX p q \<le> deltax \<and> getDistanceY p q \<le> deltay \<and> getDistanceZ p q \<le> sint deltaz"

text \<open>\<open>operator<\<close> compares the tuples \<open>(z, y, x)\<close> lexicographically.\<close>

definition position_less :: "Position \<Rightarrow> Position \<Rightarrow> bool" where
  "position_less p q \<longleftrightarrow>
     pos_z p < pos_z q \<or> (pos_z p = pos_z q \<and>
       (pos_y p < pos_y q \<or> (pos_y p = pos_y q \<and> pos_x p < pos_x q)))"

instantiation Position :: linorder
begin

definition less_Position :: "Position \<Rightarrow> Position \<Rightarrow> bool" where
  "p < q \<longleftrightarrow> position_less p q"

definition less_eq_Position :: "Position \<Rightarrow> Position \<Rightarrow> bool" where
  "p \<le> q \<longleftrightarrow> position_less p q \<or> p = q"

instance
  by standard
    (auto simp: less_Position_def less_eq_Position_def position_less_def intro: Position.expand)

end

section \<open>Directions\<close>

datatype Direction =
    DIRECTION_NORTH | DIRECTION_EAST | DIRECTION_SOUTH | DIRECTION_WEST
  | DIRECTION_SOUTHWEST | DIRECTION_SOUTHEAST | DIRECTION_NORTHWEST | DIRECTION_NORTHEAST
  | DIRECTION_NONE

fun direction_code :: "Direction \<Rightarrow> u8" where
  "direction_code DIRECTION_NORTH = 0"
| "direction_code DIRECTION_EAST = 1"
| "direction_code DIRECTION_SOUTH = 2"
| "direction_code DIRECTION_WEST = 3"
| "direction_code DIRECTION_SOUTHWEST = 4 OR 0"
| "direction_code DIRECTION_SOUTHEAST = 4 OR 1"
| "direction_code DIRECTION_NORTHWEST = 4 OR 2"
| "direction_code DIRECTION_NORTHEAST = 4 OR 3"
| "direction_code DIRECTION_NONE = 8"

fun direction_string :: "Direction \<Rightarrow> string" where
  "direction_string DIRECTION_NORTH = ''North''"
| "direction_string DIRECTION_EAST = ''East''"
| "direction_string DIRECTION_WEST = ''West''"
| "direction_string DIRECTION_SOUTH = ''South''"
| "direction_string DIRECTION_SOUTHWEST = ''South-West''"
| "direction_string DIRECTION_SOUTHEAST = ''South-East''"
| "direction_string DIRECTION_NORTHWEST = ''North-West''"
| "direction_string DIRECTION_NORTHEAST = ''North-East''"
| "direction_string DIRECTION_NONE = ''''"

fun getNextPosition :: "Direction \<Rightarrow> Position \<Rightarrow> Position" where
  "getNextPosition DIRECTION_NORTH (Position x y z) = Position x (y - 1) z"
| "getNextPosition DIRECTION_SOUTH (Position x y z) = Position x (y + 1) z"
| "getNextPosition DIRECTION_WEST (Position x y z) = Position (x - 1) y z"
| "getNextPosition DIRECTION_EAST (Position x y z) = Position (x + 1) y z"
| "getNextPosition DIRECTION_SOUTHWEST (Position x y z) = Position (x - 1) (y + 1) z"
| "getNextPosition DIRECTION_NORTHWEST (Position x y z) = Position (x - 1) (y - 1) z"
| "getNextPosition DIRECTION_NORTHEAST (Position x y z) = Position (x + 1) (y - 1) z"
| "getNextPosition DIRECTION_SOUTHEAST (Position x y z) = Position (x + 1) (y + 1) z"
| "getNextPosition DIRECTION_NONE (Position x y z) = Position x y z"

definition getDirectionTo :: "Position \<Rightarrow> Position \<Rightarrow> bool \<Rightarrow> Direction" where
  "getDirectionTo from to extended =
     (if from = to then DIRECTION_NONE
      else
        let x_off = getOffsetX from to;
            dir = (if x_off < 0 then DIRECTION_EAST else DIRECTION_WEST);
            x_offset = (if x_off < 0 then \<bar>x_off\<bar> else x_off);
            y_off = getOffsetY from to
        in if 0 \<le> y_off
           then (if x_offset < y_off then DIRECTION_NORTH
                 else if y_off = x_offset \<and> extended
                 then (if dir = DIRECTION_EAST then DIRECTION_NORTHEAST else DIRECTION_NORTHWEST)
                 else dir)
           else let y_offset = \<bar>y_off\<bar>
             in if x_offset < y_offset then DIRECTION_SOUTH
                else if y_offset = x_offset \<and> extended
                then (if dir = DIRECTION_EAST then DIRECTION_SOUTHEAST else DIRECTION_SOUTHWEST)
                else dir)"

section \<open>Distances\<close>

lemma tfs_abs_eq [simp]: "tfs_abs num = \<bar>num\<bar>"
  by (simp add: tfs_abs_def)

lemmas distance_defs =
  getDistanceX_def getDistanceY_def getDistanceZ_def getOffsetX_def getOffsetY_def getOffsetZ_def

lemma isInRange3_sym: "isInRange3 p q dx dy dz \<longleftrightarrow> isInRange3 q p dx dy dz"
  by (auto simp: isInRange3_def distance_defs)

lemma isInRange3_triangle:
  "isInRange3 p q dx dy dz \<Longrightarrow> isInRange3 q r ex ey ez \<Longrightarrow> sint dz + sint ez \<le> sint fz \<Longrightarrow>
     isInRange3 p r (dx + ex) (dy + ey) fz"
  by (auto simp: isInRange3_def distance_defs)

lemma isInRange3_zero: "isInRange3 p q 0 0 0 \<longleftrightarrow> p = q"
  by (cases p; cases q) (auto simp: isInRange3_def distance_defs word_uint_eq_iff)

section \<open>Stepping and pointing\<close>

lemma uint_inc: "w \<noteq> 65535 \<Longrightarrow> uint (w + 1) = uint w + 1" for w :: u16
  by uint_arith simp

lemma uint_dec: "w \<noteq> 0 \<Longrightarrow> uint (w - 1) = uint w - 1" for w :: u16
  by uint_arith

definition on_border :: "Position \<Rightarrow> bool" where
  "on_border p \<longleftrightarrow> pos_x p \<in> {0, 65535} \<or> pos_y p \<in> {0, 65535}"

text \<open>
  Stepping in a direction and asking for the direction to the new position gives the
  direction back, on every position off the border of the coordinate space.
\<close>

theorem direction_of_step:
  "\<not> on_border p \<Longrightarrow> getDirectionTo p (getNextPosition d p) True = d"
  by (cases p; cases d)
    (auto simp: getDirectionTo_def Let_def getOffsetX_def getOffsetY_def on_border_def uint_inc uint_dec)

theorem direction_of_step_witness:
  "getDirectionTo (Position 100 200 7) (getNextPosition DIRECTION_SOUTHWEST (Position 100 200 7)) True
   = DIRECTION_SOUTHWEST"
  by (rule direction_of_step) (simp add: on_border_def)

end
