(* ===== verification/Enums.thy ===== *)
theory Enums
  imports TFS_Prelude
begin

text \<open>
  Enumerations that several components share: the result codes of game operations
  (\<open>ReturnValue\<close> of enums.h), in the source's order.
\<close>

datatype (plugins only:) ReturnValue =
    RETURNVALUE_NOERROR | RETURNVALUE_NOTPOSSIBLE
  | RETURNVALUE_NOTENOUGHROOM | RETURNVALUE_PLAYERISPZLOCKED
  | RETURNVALUE_PLAYERISNOTINVITED | RETURNVALUE_ONLYGUILDMEMBERSMAYENTER
  | RETURNVALUE_CANNOTTHROW | RETURNVALUE_THEREISNOWAY
  | RETURNVALUE_DESTINATIONOUTOFREACH | RETURNVALUE_CREATUREBLOCK
  | RETURNVALUE_NOTMOVEABLE | RETURNVALUE_DROPTWOHANDEDITEM
  | RETURNVALUE_BOTHHANDSNEEDTOBEFREE | RETURNVALUE_CANONLYUSEONEWEAPON
  | RETURNVALUE_NEEDEXCHANGE | RETURNVALUE_CANNOTBEDRESSED
  | RETURNVALUE_PUTTHISOBJECTINYOURHAND | RETURNVALUE_PUTTHISOBJECTINBOTHHANDS
  | RETURNVALUE_TOOFARAWAY | RETURNVALUE_FIRSTGODOWNSTAIRS
  | RETURNVALUE_FIRSTGOUPSTAIRS | RETURNVALUE_CONTAINERNOTENOUGHROOM
  | RETURNVALUE_NOTENOUGHCAPACITY | RETURNVALUE_CANNOTPICKUP
  | RETURNVALUE_THISISIMPOSSIBLE | RETURNVALUE_DEPOTISFULL
  | RETURNVALUE_CREATUREDOESNOTEXIST | RETURNVALUE_CANNOTUSETHISOBJECT
  | RETURNVALUE_PLAYERWITHTHISNAMEISNOTONLINE | RETURNVALUE_NOTREQUIREDLEVELTOUSERUNE
  | RETURNVALUE_YOUAREALREADYTRADING | RETURNVALUE_THISPLAYERISALREADYTRADING
  | RETURNVALUE_YOUMAYNOTLOGOUTDURINGAFIGHT | RETURNVALUE_DIRECTPLAYERSHOOT
  | RETURNVALUE_NOTENOUGHLEVEL | RETURNVALUE_NOTENOUGHMAGICLEVEL
  | RETURNVALUE_NOTENOUGHMANA | RETURNVALUE_NOTENOUGHSOUL
  | RETURNVALUE_YOUAREEXHAUSTED | RETURNVALUE_YOUCANNOTUSEOBJECTSTHATFAST
  | RETURNVALUE_PLAYERISNOTREACHABLE | RETURNVALUE_CANONLYUSETHISRUNEONCREATURES
  | RETURNVALUE_ACTIONNOTPERMITTEDINPROTECTIONZONE | RETURNVALUE_YOUMAYNOTATTACKTHISPLAYER
  | RETURNVALUE_YOUMAYNOTATTACKAPERSONINPROTECTIONZONE | RETURNVALUE_YOUMAYNOTATTACKAPERSONWHILEINPROTECTIONZONE
  | RETURNVALUE_YOUMAYNOTATTACKTHISCREATURE | RETURNVALUE_YOUCANONLYUSEITONCREATURES
  | RETURNVALUE_CREATUREISNOTREACHABLE | RETURNVALUE_TURNSECUREMODETOATTACKUNMARKEDPLAYERS
  | RETURNVALUE_YOUNEEDPREMIUMACCOUNT | RETURNVALUE_YOUNEEDTOLEARNTHISSPELL
  | RETURNVALUE_YOURVOCATIONCANNOTUSETHISSPELL | RETURNVALUE_YOUNEEDAWEAPONTOUSETHISSPELL
  | RETURNVALUE_PLAYERISPZLOCKEDLEAVEPVPZONE | RETURNVALUE_PLAYERISPZLOCKEDENTERPVPZONE
  | RETURNVALUE_ACTIONNOTPERMITTEDINANOPVPZONE | RETURNVALUE_YOUCANNOTLOGOUTHERE
  | RETURNVALUE_YOUNEEDAMAGICITEMTOCASTSPELL | RETURNVALUE_CANNOTCONJUREITEMHERE
  | RETURNVALUE_YOUNEEDTOSPLITYOURSPEARS | RETURNVALUE_NAMEISTOOAMBIGUOUS
  | RETURNVALUE_CANONLYUSEONESHIELD | RETURNVALUE_NOPARTYMEMBERSINRANGE
  | RETURNVALUE_YOUARENOTTHEOWNER | RETURNVALUE_NOSUCHRAIDEXISTS
  | RETURNVALUE_ANOTHERRAIDISALREADYEXECUTING | RETURNVALUE_TRADEPLAYERFARAWAY
  | RETURNVALUE_YOUDONTOWNTHISHOUSE | RETURNVALUE_TRADEPLAYERALREADYOWNSAHOUSE
  | RETURNVALUE_TRADEPLAYERHIGHESTBIDDER | RETURNVALUE_YOUCANNOTTRADETHISHOUSE
  | RETURNVALUE_TRADEPLAYERNOTINAGUILD | RETURNVALUE_TRADEGUILDALREADYOWNSAHOUSE
  | RETURNVALUE_TRADEPLAYERNOTGUILDLEADER | RETURNVALUE_YOUARENOTGUILDLEADER
  | RETURNVALUE_YOUDONTHAVEREQUIREDPROFESSION | RETURNVALUE_CANNOTMOVEITEMISNOTSTOREITEM
  | RETURNVALUE_ITEMCANNOTBEMOVEDTHERE | RETURNVALUE_YOUCANNOTUSETHISBED
  | RETURNVALUE_CANNOTTHROWONTELEPORT | RETURNVALUE_CREATURENOTMOVEABLE
  | RETURNVALUE_NOTENOUGHRESET | RETURNVALUE_REWARDCHESTEMPTY
  | RETURNVALUE_CANNOTMOVEITEMISPROTECTED | RETURNVALUE_CANNOTMOVEEXERCISEWEAPON
  | RETURNVALUE_CANNOTMOVEGOLDPOUCH | RETURNVALUE_CANNOTADDMOREITEMSONTILE
  | RETURNVALUE_ITEMSTOKENPROTECTED | RETURNVALUE_QUIVERAMMOONLY
  | RETURNVALUE_CANNOTPLACEITEMINMONSTERCORPSE

end
