(* ===== verification/Houses.thy ===== *)
theory Houses
  imports Strings Positions Enums
begin

text \<open>
  Houses (\<^verbatim>\<open>src/src/house.h\<close>, \<^verbatim>\<open>src/src/house.cpp\<close>, \<^verbatim>\<open>src/src/housetile.cpp\<close>) and the ranks of guilds
  (\<^verbatim>\<open>src/src/guild.cpp\<close>) that their lists refer to: who may enter a house, open its doors, edit its lists and move its
  items; how a house changes hands; and how its rent is collected.

  The state is one house with its doors, the creatures on the tiles around, and the bank balances of players and guilds.
  Creatures and doors are known by numbers, in the order of their addresses; a rank is an object with an address, because
  the code compares pointers to ranks. What the database and the registry of players answer, the configuration and the
  clock are the record \<open>HouseEnv\<close>. Statements sent to the database, letters (delivered or not), the transport of items to the depot, sleepers
  who are woken and the texts on doors are recorded in \<open>calls\<close>, in order.
\<close>

section \<open>The data\<close>

record GuildRank =
  rank_id :: u32
  rank_name :: string
  rank_level :: u8

record Guild =
  guild_id :: u32
  guild_ownerGUID :: u32
  ranks :: "(nat \<times> GuildRank) list"

record HousePlayer =
  guid :: u32
  account :: u32
  canEditHouses :: bool
  guild :: "Guild option"
  guildRank :: "(nat \<times> GuildRank) option"
  templePosition :: Position

record AccessList =
  list_text :: string
  playerList :: "u32 set"
  guildRankList :: "u32 set"
  allowEveryone :: bool

record Door =
  doorId :: u32
  ofHouse :: bool
  doorList :: "AccessList option"
  doorPos :: Position

datatype AccessHouseLevel_t = HOUSE_NOT_INVITED | HOUSE_GUEST | HOUSE_SUBOWNER | HOUSE_OWNER

datatype HouseType_t = HOUSE_TYPE_NORMAL | HOUSE_TYPE_GUILDHALL

datatype RentPeriod_t =
  RENTPERIOD_DAILY | RENTPERIOD_WEEKLY | RENTPERIOD_MONTHLY | RENTPERIOD_YEARLY | RENTPERIOD_DEV | RENTPERIOD_NEVER

definition GUEST_LIST :: u32 where [simp]: "GUEST_LIST = 0x100"
definition SUBOWNER_LIST :: u32 where [simp]: "SUBOWNER_LIST = 0x101"
definition FLAG_NOLIMIT :: u32 where [simp]: "FLAG_NOLIMIT = 1"

record House =
  guestList :: AccessList
  subOwnerList :: AccessList
  houseTiles :: "Position list"
  doorSet :: "nat list"
  bedsList :: "nat list"
  ownerName :: string
  transferItem :: "nat option"
  paidUntil :: s64
  owner :: u32
  ownerAccountId :: u32
  rentWarnings :: u32
  rent :: u32
  posEntry :: Position
  isLoaded :: bool
  isProtected :: bool
  protectionGuests :: "u32 set"
  house_type :: HouseType_t

datatype HouseCall =
    UpdateOwner u32 bool  \<comment> \<open>the new owner, and whether the protection is reset with it\<close>
  | TransferToDepot "u32 option"
  | WakeUp nat
  | UpdateDoorDescription
  | InsertGuest u32
  | DeleteGuest u32
  | DeleteGuests
  | Letter u32 nat  \<comment> \<open>to a player: the days left\<close>
  | GuildTransaction u32 u32
  | RemoveTransferItem nat

record HouseWorld =
  house :: House
  doors :: "nat \<Rightarrow> Door"
  tile_exists :: "Position \<Rightarrow> bool"
  on_tile :: "Position \<Rightarrow> nat list"
  position_of :: "nat \<Rightarrow> Position"
  player_of :: "nat \<Rightarrow> HousePlayer option"
  removed :: "nat \<Rightarrow> bool"
  balance :: "u32 \<Rightarrow> u64 option"
  windowTextId :: "nat \<Rightarrow> u32"
  editListId :: "nat \<Rightarrow> u32"
  editHouse :: "nat \<Rightarrow> bool"
  guild_account :: "u32 \<Rightarrow> (u32 \<times> u64) option"  \<comment> \<open>owner and balance of a guild\<close>
  calls :: "HouseCall list"

record HouseEnv =
  onlineGuid :: "string \<Rightarrow> u32 option"
  getGuidByName :: "string \<Rightarrow> u32"
  getGuildIdByName :: "string \<Rightarrow> u32"
  getGuild :: "u32 \<Rightarrow> Guild option"
  loadGuild :: "u32 \<Rightarrow> Guild option"
  ownerData :: "u32 \<Rightarrow> HouseType_t \<Rightarrow> (u32 \<times> string \<times> string) option"  \<comment> \<open>account, player and guild\<close>
  houseOwnedByAccount :: bool
  onlyInvitedCanMove :: bool
  rentPeriodConfig :: string
  time :: s64
  townExists :: bool
  executeQuery :: bool
  savePlayerSync :: "u32 \<Rightarrow> bool"
  asleep :: "nat \<Rightarrow> bool"
  plain_queryAdd :: "Position \<Rightarrow> nat \<Rightarrow> u32 \<Rightarrow> ReturnValue"  \<comment> \<open>\<open>Tile::queryAdd\<close> of a creature\<close>
  plain_destination :: "Position \<Rightarrow> Position option"  \<comment> \<open>\<open>Tile::queryDestination\<close>\<close>

text \<open>The levels of access are ordered as numbers.\<close>

primrec level_num :: "AccessHouseLevel_t \<Rightarrow> nat" where
  "level_num HOUSE_NOT_INVITED = 0"
| "level_num HOUSE_GUEST = 1"
| "level_num HOUSE_SUBOWNER = 2"
| "level_num HOUSE_OWNER = 3"

instantiation AccessHouseLevel_t :: linorder
begin

definition less_eq_AccessHouseLevel_t where "a \<le> b \<longleftrightarrow> level_num a \<le> level_num b"

definition less_AccessHouseLevel_t where "a < b \<longleftrightarrow> level_num a < level_num b"

instance
proof
  fix a b :: AccessHouseLevel_t
  show "a = b" if "a \<le> b" "b \<le> a" using that by (cases a; cases b) (simp_all add: less_eq_AccessHouseLevel_t_def)
qed (auto simp: less_eq_AccessHouseLevel_t_def less_AccessHouseLevel_t_def)

end

section \<open>Ranks of a guild\<close>

definition getRankById :: "u32 \<Rightarrow> Guild \<Rightarrow> (nat \<times> GuildRank) option" where
  "getRankById i g = List.find (\<lambda>(_, r). rank_id r = i) (ranks g)"

definition getRankByName :: "string \<Rightarrow> Guild \<Rightarrow> (nat \<times> GuildRank) option" where
  "getRankByName name g = List.find (\<lambda>(_, r). caseInsensitiveEqual (rank_name r) name) (ranks g)"

definition getRankByLevel :: "u8 \<Rightarrow> Guild \<Rightarrow> (nat \<times> GuildRank) option" where
  "getRankByLevel level g = List.find (\<lambda>(_, r). rank_level r = level) (ranks g)"

definition addRank :: "nat \<Rightarrow> u32 \<Rightarrow> string \<Rightarrow> u8 \<Rightarrow> Guild \<Rightarrow> Guild" where
  "addRank p i name level g = g\<lparr>ranks := ranks g @ [(p, \<lparr>rank_id = i, rank_name = name, rank_level = level\<rparr>)]\<rparr>"

section \<open>Access lists\<close>

definition new_AccessList :: AccessList where
  "new_AccessList = \<lparr>list_text = '''', playerList = {}, guildRankList = {}, allowEveryone = False\<rparr>"

definition AccessList_addPlayer :: "HouseEnv \<Rightarrow> string \<Rightarrow> AccessList \<Rightarrow> AccessList" where
  "AccessList_addPlayer env name l =
     (case onlineGuid env name of
        Some g \<Rightarrow> l\<lparr>playerList := insert g (playerList l)\<rparr>
      | None \<Rightarrow> let g = getGuidByName env name
                in if g \<noteq> 0 then l\<lparr>playerList := insert g (playerList l)\<rparr> else l)"

definition getGuildByName :: "HouseEnv \<Rightarrow> string \<Rightarrow> Guild option" where
  "getGuildByName env name =
     (let guildId = getGuildIdByName env name
      in if guildId = 0 then None
         else case getGuild env guildId of Some g \<Rightarrow> Some g | None \<Rightarrow> loadGuild env guildId)"

definition addGuild :: "HouseEnv \<Rightarrow> string \<Rightarrow> AccessList \<Rightarrow> AccessList" where
  "addGuild env name l =
     (case getGuildByName env name of
        None \<Rightarrow> l
      | Some g \<Rightarrow> fold (\<lambda>(_, r) l. l\<lparr>guildRankList := insert (rank_id r) (guildRankList l)\<rparr>) (ranks g) l)"

definition addGuildRank :: "HouseEnv \<Rightarrow> string \<Rightarrow> string \<Rightarrow> AccessList \<Rightarrow> AccessList" where
  "addGuildRank env name rankName l =
     (case getGuildByName env name of
        None \<Rightarrow> l
      | Some g \<Rightarrow> (case getRankByName rankName g of
            None \<Rightarrow> l
          | Some (_, r) \<Rightarrow> l\<lparr>guildRankList := insert (rank_id r) (guildRankList l)\<rparr>))"

text \<open>\<open>getline\<close> until the stream ends: no line follows a final line break.\<close>

function getlines :: "string \<Rightarrow> string list" where
  "getlines s =
     (if s = [] then []
      else takeWhile (\<lambda>c. c \<noteq> CHR 0x0A) s # getlines (drop 1 (dropWhile (\<lambda>c. c \<noteq> CHR 0x0A) s)))"
  by pat_completeness auto
termination
proof (relation "measure length")
  show "(drop 1 (dropWhile (\<lambda>c. c \<noteq> CHR 0x0A) s), s) \<in> measure length" if "s \<noteq> []" for s
    using that length_dropWhile_le[of "\<lambda>c. c \<noteq> CHR 0x0A" s] by (cases s) auto
qed simp

declare getlines.simps [simp del]

definition parse_line :: "HouseEnv \<Rightarrow> string \<Rightarrow> AccessList \<Rightarrow> AccessList" where
  "parse_line env line0 l =
     (let line = trimString line0
      in if line = [] \<or> hd line = CHR ''#'' \<or> length line > 100 then l
         else case find_sub ''@'' line of
             Some at_pos \<Rightarrow>
               if at_pos = 0 then addGuild env (drop 1 line) l
               else addGuildRank env (take at_pos line) (drop (at_pos + 1) line) l
           | None \<Rightarrow>
               if line = ''*'' then l\<lparr>allowEveryone := True\<rparr>
               else if find_sub ''!'' line \<noteq> None \<or> find_sub ''*'' line \<noteq> None \<or> find_sub ''?'' line \<noteq> None then l
               else AccessList_addPlayer env line l)"

fun parse_lines :: "HouseEnv \<Rightarrow> nat \<Rightarrow> string list \<Rightarrow> AccessList \<Rightarrow> AccessList" where
  "parse_lines env lineNo [] l = l"
| "parse_lines env lineNo (line # ls) l =
     (if lineNo + 1 > 100 then l else parse_lines env (lineNo + 1) ls (parse_line env line l))"

text \<open>The stream is made from \<open>list.data()\<close>, which ends at the first zero character.\<close>

definition parseList :: "HouseEnv \<Rightarrow> string \<Rightarrow> AccessList \<Rightarrow> AccessList" where
  "parseList env text l =
     (let l1 = l\<lparr>playerList := {}, guildRankList := {}, allowEveryone := False, list_text := text\<rparr>
      in if text = [] then l1 else parse_lines env 1 (getlines (takeWhile (\<lambda>c. c \<noteq> CHR 0x00) text)) l1)"

definition isInList :: "AccessList \<Rightarrow> HousePlayer \<Rightarrow> bool" where
  "isInList l p \<longleftrightarrow> allowEveryone l \<or> guid p \<in> playerList l \<or>
     (case guildRank p of None \<Rightarrow> False | Some (_, r) \<Rightarrow> rank_id r \<in> guildRankList l)"

section \<open>Levels of access\<close>

definition getHouseAccessLevel :: "HouseEnv \<Rightarrow> House \<Rightarrow> HousePlayer option \<Rightarrow> AccessHouseLevel_t" where
  "getHouseAccessLevel env h player =
     (case player of
        None \<Rightarrow> HOUSE_OWNER
      | Some p \<Rightarrow>
          let by_lists = (if isInList (subOwnerList h) p then HOUSE_SUBOWNER
                          else if isInList (guestList h) p then HOUSE_GUEST else HOUSE_NOT_INVITED)
          in if canEditHouses p then HOUSE_OWNER
             else case house_type h of
               HOUSE_TYPE_NORMAL \<Rightarrow>
                 if houseOwnedByAccount env \<and> ownerAccountId h = account p then HOUSE_OWNER
                 else if guid p = owner h then HOUSE_OWNER else by_lists
             | HOUSE_TYPE_GUILDHALL \<Rightarrow>
                 (case guild p of
                    None \<Rightarrow> by_lists
                  | Some g \<Rightarrow>
                      if guild_id g = owner h
                      then if guild_ownerGUID g = guid p then HOUSE_OWNER
                           else if map_option fst (guildRank p) = map_option fst (getRankByLevel 2 g) then HOUSE_SUBOWNER
                           else HOUSE_GUEST
                      else by_lists))"

definition isInvited :: "HouseEnv \<Rightarrow> House \<Rightarrow> HousePlayer option \<Rightarrow> bool" where
  "isInvited env h player \<longleftrightarrow> getHouseAccessLevel env h player \<noteq> HOUSE_NOT_INVITED"

definition canEditAccessList :: "HouseEnv \<Rightarrow> House \<Rightarrow> u32 \<Rightarrow> HousePlayer option \<Rightarrow> bool" where
  "canEditAccessList env h listId player =
     (case getHouseAccessLevel env h player of
        HOUSE_OWNER \<Rightarrow> True
      | HOUSE_SUBOWNER \<Rightarrow> listId = GUEST_LIST
      | _ \<Rightarrow> False)"

definition canModifyItems :: "House \<Rightarrow> HousePlayer option \<Rightarrow> bool" where
  "canModifyItems h player =
     (case player of
        None \<Rightarrow> False
      | Some p \<Rightarrow> \<not> isProtected h \<or> canEditHouses p \<or> guid p = owner h \<or> guid p \<in> protectionGuests h)"

text \<open>\<open>None\<close> is an access through the null pointer of a door without list.\<close>

definition canUse :: "HouseEnv \<Rightarrow> House \<Rightarrow> Door \<Rightarrow> HousePlayer option \<Rightarrow> bool option" where
  "canUse env h d player =
     (if \<not> ofHouse d then Some True
      else if (case house_type h of
                 HOUSE_TYPE_GUILDHALL \<Rightarrow> getHouseAccessLevel env h player \<ge> HOUSE_GUEST
               | HOUSE_TYPE_NORMAL \<Rightarrow> getHouseAccessLevel env h player \<ge> HOUSE_SUBOWNER) then Some True
      else Option.bind player (\<lambda>p. map_option (\<lambda>l. isInList l p) (doorList d)))"

section \<open>Creatures on the tiles\<close>

definition on_house :: "(House \<Rightarrow> House) \<Rightarrow> HouseWorld \<Rightarrow> HouseWorld" where
  "on_house f w = w\<lparr>house := f (house w)\<rparr>"

definition call :: "HouseCall \<Rightarrow> HouseWorld \<Rightarrow> HouseWorld" where
  "call x w = w\<lparr>calls := calls w @ [x]\<rparr>"

definition no_limit :: "u32 \<Rightarrow> bool" where
  "no_limit flags \<longleftrightarrow> FLAG_NOLIMIT AND flags \<noteq> 0"

definition tile_queryAdd :: "HouseEnv \<Rightarrow> Position \<Rightarrow> nat \<Rightarrow> u32 \<Rightarrow> ReturnValue" where
  "tile_queryAdd env p c flags = (if no_limit flags then RETURNVALUE_NOERROR else plain_queryAdd env p c flags)"

definition house_queryAdd :: "HouseEnv \<Rightarrow> HouseWorld \<Rightarrow> Position \<Rightarrow> nat \<Rightarrow> u32 \<Rightarrow> ReturnValue" where
  "house_queryAdd env w p c flags =
     (if no_limit flags then RETURNVALUE_NOERROR
      else case player_of w c of
          None \<Rightarrow> RETURNVALUE_NOTPOSSIBLE
        | Some player \<Rightarrow>
            if \<not> isInvited env (house w) (Some player)
            then if house_type (house w) = HOUSE_TYPE_GUILDHALL then RETURNVALUE_ONLYGUILDMEMBERSMAYENTER
                 else RETURNVALUE_PLAYERISNOTINVITED
            else tile_queryAdd env p c flags)"

text \<open>
  For items: \<open>store\<close> and \<open>wrapped\<close> say what the item is, \<open>actor\<close> is the creature that moves it (a player or not), and
  \<open>rest\<close> is what the plain tile answers.
\<close>

definition house_queryAdd_item :: "HouseEnv \<Rightarrow> House \<Rightarrow> u32 \<Rightarrow> bool \<Rightarrow> bool \<Rightarrow> HousePlayer option option \<Rightarrow> ReturnValue \<Rightarrow> ReturnValue" where
  "house_queryAdd_item env h flags store wrapped actor rest =
     (if no_limit flags then RETURNVALUE_NOERROR
      else if store \<and> \<not> wrapped then RETURNVALUE_ITEMCANNOTBEMOVEDTHERE
      else case actor of
          None \<Rightarrow> rest
        | Some player \<Rightarrow>
            if isProtected h \<and> \<not> canModifyItems h player then RETURNVALUE_CANNOTMOVEITEMISPROTECTED
            else if \<not> isInvited env h player then RETURNVALUE_CANNOTTHROW
            else rest)"

definition house_queryRemove :: "HouseEnv \<Rightarrow> House \<Rightarrow> bool \<Rightarrow> HousePlayer option option \<Rightarrow> ReturnValue \<Rightarrow> ReturnValue" where
  "house_queryRemove env h is_item actor rest =
     (if \<not> is_item then RETURNVALUE_NOTPOSSIBLE
      else case actor of
          None \<Rightarrow> rest
        | Some player \<Rightarrow>
            if isProtected h \<and> \<not> canModifyItems h player then RETURNVALUE_CANNOTMOVEITEMISPROTECTED
            else if onlyInvitedCanMove env \<and> \<not> isInvited env h player then RETURNVALUE_PLAYERISNOTINVITED
            else rest)"

text \<open>Where a creature ends up that is put on a tile of the house; \<open>None\<close> is the null tile.\<close>

definition house_queryDestination :: "HouseEnv \<Rightarrow> HouseWorld \<Rightarrow> Position \<Rightarrow> nat \<Rightarrow> Position option" where
  "house_queryDestination env w p c =
     (case player_of w c of
        Some player \<Rightarrow>
          if \<not> isInvited env (house w) (Some player)
          then if tile_exists w (posEntry (house w)) then Some (posEntry (house w))
               else if tile_exists w (templePosition player) then Some (templePosition player)
               else None
          else plain_destination env p
      | None \<Rightarrow> plain_destination env p)"

definition add_creature :: "nat \<Rightarrow> Position \<Rightarrow> HouseWorld \<Rightarrow> HouseWorld" where
  "add_creature c p w = w\<lparr>on_tile := (on_tile w)(p := c # on_tile w p), position_of := (position_of w)(c := p)\<rparr>"

definition remove_creature :: "nat \<Rightarrow> HouseWorld \<Rightarrow> HouseWorld" where
  "remove_creature c w =
     (let p = position_of w c in w\<lparr>on_tile := (on_tile w)(p := remove1 c (on_tile w p))\<rparr>)"

definition tile_move :: "nat \<Rightarrow> Position \<Rightarrow> HouseWorld \<Rightarrow> HouseWorld" where
  "tile_move c p w = (if c \<in> set (on_tile w (position_of w c)) then add_creature c p (remove_creature c w) else w)"

definition any_queryAdd :: "HouseEnv \<Rightarrow> HouseWorld \<Rightarrow> Position \<Rightarrow> nat \<Rightarrow> u32 \<Rightarrow> ReturnValue" where
  "any_queryAdd env w p c flags =
     (if p \<in> set (houseTiles (house w)) then house_queryAdd env w p c flags else tile_queryAdd env p c flags)"

definition internalTeleport :: "HouseEnv \<Rightarrow> nat \<Rightarrow> Position \<Rightarrow> HouseWorld \<Rightarrow> ReturnValue \<times> HouseWorld" where
  "internalTeleport env c newPos w =
     (if newPos = position_of w c then (RETURNVALUE_NOERROR, w)
      else if removed w c \<or> \<not> tile_exists w newPos then (RETURNVALUE_NOTPOSSIBLE, w)
      else let ret = any_queryAdd env w newPos c FLAG_NOLIMIT
           in if ret \<noteq> RETURNVALUE_NOERROR then (ret, w) else (RETURNVALUE_NOERROR, tile_move c newPos w))"

definition kickPlayer :: "HouseEnv \<Rightarrow> HousePlayer option \<Rightarrow> nat \<Rightarrow> HouseWorld \<Rightarrow> bool \<times> HouseWorld" where
  "kickPlayer env player target w =
     (case player_of w target of
        None \<Rightarrow> (False, w)
      | Some t \<Rightarrow>
          if target \<notin> set (on_tile w (position_of w target)) then (False, w)
          else if position_of w target \<notin> set (houseTiles (house w)) then (False, w)
          else if getHouseAccessLevel env (house w) player < getHouseAccessLevel env (house w) (Some t) \<or> canEditHouses t
          then (False, w)
          else (True, snd (internalTeleport env target (posEntry (house w)) w)))"

fun kick_loop :: "(nat \<Rightarrow> HouseWorld \<Rightarrow> HouseWorld) \<Rightarrow> Position \<Rightarrow> nat \<Rightarrow> HouseWorld \<Rightarrow> HouseWorld" where
  "kick_loop f t 0 w = w"
| "kick_loop f t (Suc i) w = kick_loop f t i (f (on_tile w t ! i) w)"

definition kick_tiles :: "(nat \<Rightarrow> HouseWorld \<Rightarrow> HouseWorld) \<Rightarrow> HouseWorld \<Rightarrow> HouseWorld" where
  "kick_tiles f w = fold (\<lambda>t w. kick_loop f t (length (on_tile w t)) w) (houseTiles (house w)) w"

section \<open>Doors and lists\<close>

definition getDoorByNumber :: "HouseWorld \<Rightarrow> u32 \<Rightarrow> nat option" where
  "getDoorByNumber w n = List.find (\<lambda>d. doorId (doors w d) = n) (doorSet (house w))"

definition getDoorByPosition :: "HouseWorld \<Rightarrow> Position \<Rightarrow> nat option" where
  "getDoorByPosition w p = List.find (\<lambda>d. doorPos (doors w d) = p) (doorSet (house w))"

definition on_door :: "(Door \<Rightarrow> Door) \<Rightarrow> nat \<Rightarrow> HouseWorld \<Rightarrow> HouseWorld" where
  "on_door f d w = w\<lparr>doors := (doors w)(d := f (doors w d))\<rparr>"

definition some_list :: "Door \<Rightarrow> AccessList" where
  "some_list d = (case doorList d of Some l \<Rightarrow> l | None \<Rightarrow> new_AccessList)"

definition setHouse :: "Door \<Rightarrow> Door" where
  "setHouse d = (if ofHouse d then d else d\<lparr>ofHouse := True, doorList := Some (some_list d)\<rparr>)"

definition addDoor :: "nat \<Rightarrow> HouseWorld \<Rightarrow> HouseWorld" where
  "addDoor d w =
     on_door setHouse d (on_house (\<lambda>h. h\<lparr>doorSet := if d \<in> set (doorSet h) then doorSet h else insort d (doorSet h)\<rparr>) w)"

definition removeDoor :: "nat \<Rightarrow> HouseWorld \<Rightarrow> HouseWorld" where
  "removeDoor d = on_house (\<lambda>h. h\<lparr>doorSet := remove1 d (doorSet h)\<rparr>)"

definition Door_setAccessList :: "HouseEnv \<Rightarrow> string \<Rightarrow> Door \<Rightarrow> Door" where
  "Door_setAccessList env text d = d\<lparr>doorList := Some (parseList env text (some_list d))\<rparr>"

definition Door_getAccessList :: "Door \<Rightarrow> string option" where
  "Door_getAccessList d = (if \<not> ofHouse d then None else map_option list_text (doorList d))"

definition getAccessList :: "HouseWorld \<Rightarrow> u32 \<Rightarrow> string option" where
  "getAccessList w listId =
     (if listId = GUEST_LIST then Some (list_text (guestList (house w)))
      else if listId = SUBOWNER_LIST then Some (list_text (subOwnerList (house w)))
      else case getDoorByNumber w listId of None \<Rightarrow> None | Some d \<Rightarrow> Door_getAccessList (doors w d))"

definition kick_uninvited :: "HouseEnv \<Rightarrow> nat \<Rightarrow> HouseWorld \<Rightarrow> HouseWorld" where
  "kick_uninvited env c w =
     (if player_of w c \<noteq> None \<and> \<not> isInvited env (house w) (player_of w c) then snd (kickPlayer env None c w) else w)"

definition setAccessList :: "HouseEnv \<Rightarrow> u32 \<Rightarrow> string \<Rightarrow> HouseWorld \<Rightarrow> HouseWorld" where
  "setAccessList env listId text w =
     (if listId = GUEST_LIST
      then kick_tiles (kick_uninvited env) (on_house (\<lambda>h. h\<lparr>guestList := parseList env text (guestList h)\<rparr>) w)
      else if listId = SUBOWNER_LIST
      then kick_tiles (kick_uninvited env) (on_house (\<lambda>h. h\<lparr>subOwnerList := parseList env text (subOwnerList h)\<rparr>) w)
      else case getDoorByNumber w listId of None \<Rightarrow> w | Some d \<Rightarrow> on_door (Door_setAccessList env text) d w)"

definition setEditHouse :: "nat \<Rightarrow> bool \<Rightarrow> u32 \<Rightarrow> HouseWorld \<Rightarrow> HouseWorld" where
  "setEditHouse c this listId w =
     w\<lparr>windowTextId := (windowTextId w)(c := windowTextId w c + 1), editHouse := (editHouse w)(c := this),
       editListId := (editListId w)(c := listId)\<rparr>"

text \<open>The text of a window that a player sends back; the window of the loot settings has the largest number.\<close>

definition playerUpdateHouseWindow :: "HouseEnv \<Rightarrow> nat \<Rightarrow> u8 \<Rightarrow> u32 \<Rightarrow> string \<Rightarrow> HouseWorld \<Rightarrow> HouseWorld" where
  "playerUpdateHouseWindow env c listId window text w =
     (if player_of w c = None \<or> window = 0xFFFFFFFF then w
      else setEditHouse c False 0
        (if editHouse w c \<and> canEditAccessList env (house w) (editListId w c) (player_of w c) \<and>
            windowTextId w c = window \<and> listId = 0
         then setAccessList env (editListId w c) text w else w))"

section \<open>Owners\<close>

definition updateDoorDescription :: "HouseWorld \<Rightarrow> HouseWorld" where
  "updateDoorDescription = call UpdateDoorDescription"

definition wake_beds :: "HouseEnv \<Rightarrow> HouseWorld \<Rightarrow> HouseWorld" where
  "wake_beds env w = fold (\<lambda>b w. if asleep env b then call (WakeUp b) w else w) (bedsList (house w)) w"

definition clear_doors :: "HouseEnv \<Rightarrow> HouseWorld \<Rightarrow> HouseWorld" where
  "clear_doors env w = fold (on_door (Door_setAccessList env '''')) (doorSet (house w)) w"

definition evict :: "HouseEnv \<Rightarrow> u32 option \<Rightarrow> HouseWorld \<Rightarrow> HouseWorld" where
  "evict env prev w =
     (let w1 = call (TransferToDepot prev) w;
          w2 = kick_tiles (\<lambda>c w. snd (kickPlayer env None c w)) w1;
          w3 = wake_beds env w2;
          w4 = on_house (\<lambda>h. h\<lparr>owner := 0, ownerAccountId := 0, ownerName := '''', isProtected := False\<rparr>) w3;
          w5 = setAccessList env SUBOWNER_LIST '''' w4;
          w6 = setAccessList env GUEST_LIST '''' w5
      in clear_doors env w6)"

definition first_rent :: "HouseEnv \<Rightarrow> s64" where
  "first_rent env =
     (let period = asLowerCaseString (rentPeriodConfig env); day = 24 * 60 * 60
      in if period = ''yearly'' \<or> period = ''annual'' then time env + day * 365
         else if period = ''monthly'' then time env + day * 30
         else if period = ''weekly'' then time env + day * 7
         else if period = ''daily'' then time env + day
         else if period = ''dev'' then time env + 5 * 60
         else 0)"

definition name_owner :: "HouseEnv \<Rightarrow> u32 \<Rightarrow> HouseWorld \<Rightarrow> HouseWorld" where
  "name_owner env g w =
     (if g = 0 then updateDoorDescription w
      else case ownerData env g (house_type (house w)) of
          None \<Rightarrow> w
        | Some (acc, playerName, guildName) \<Rightarrow>
            updateDoorDescription (on_house (\<lambda>h. h\<lparr>owner := g, ownerAccountId := acc,
              ownerName := if house_type h = HOUSE_TYPE_GUILDHALL then ''The '' @ guildName else playerName\<rparr>) w))"

definition setOwner :: "HouseEnv \<Rightarrow> u32 \<Rightarrow> bool \<Rightarrow> u32 option \<Rightarrow> HouseWorld \<Rightarrow> HouseWorld" where
  "setOwner env g updateDatabase prev w =
     (let w1 = (if updateDatabase \<and> owner (house w) \<noteq> g
                then let reset = (g = 0 \<or> owner (house w) = 0); w' = call (UpdateOwner g reset) w
                     in if reset then on_house (\<lambda>h. h\<lparr>isProtected := False\<rparr>) w' else w'
                else w)
      in if isLoaded (house w1) \<and> owner (house w1) = g then w1
         else let w2 = on_house (\<lambda>h. h\<lparr>isLoaded := True\<rparr>) w1;
                  w3 = (if owner (house w2) \<noteq> 0 \<and> updateDatabase then evict env prev w2
                        else on_house (\<lambda>h. h\<lparr>paidUntil := first_rent env\<rparr>) w2)
              in name_owner env g (on_house (\<lambda>h. h\<lparr>rentWarnings := 0\<rparr>) w3))"

definition getTransferItem :: "nat \<Rightarrow> HouseWorld \<Rightarrow> nat \<times> HouseWorld" where
  "getTransferItem new w =
     (case transferItem (house w) of
        Some i \<Rightarrow> (i, w)
      | None \<Rightarrow> (new, on_house (\<lambda>h. h\<lparr>transferItem := Some new\<rparr>) w))"

definition resetTransferItem :: "HouseWorld \<Rightarrow> HouseWorld" where
  "resetTransferItem w =
     (case transferItem (house w) of
        None \<Rightarrow> w
      | Some i \<Rightarrow> call (RemoveTransferItem i) (on_house (\<lambda>h. h\<lparr>transferItem := None\<rparr>) w))"

definition executeTransfer :: "HouseEnv \<Rightarrow> nat \<Rightarrow> HousePlayer \<Rightarrow> HouseWorld \<Rightarrow> bool \<times> HouseWorld" where
  "executeTransfer env item newOwner w =
     (if transferItem (house w) \<noteq> Some item then (False, w)
      else (True, on_house (\<lambda>h. h\<lparr>transferItem := None\<rparr>)
        (case house_type (house w) of
           HOUSE_TYPE_NORMAL \<Rightarrow> setOwner env (guid newOwner) True None w
         | HOUSE_TYPE_GUILDHALL \<Rightarrow>
             (case guild newOwner of None \<Rightarrow> w | Some g \<Rightarrow> setOwner env (guild_id g) True None w))))"

section \<open>Guests of a protected house\<close>

definition addProtectionGuest :: "HouseEnv \<Rightarrow> u32 \<Rightarrow> HouseWorld \<Rightarrow> bool \<times> HouseWorld" where
  "addProtectionGuest env p w =
     (if p = 0 \<or> p = owner (house w) then (False, w)
      else if p \<notin> protectionGuests (house w)
      then (executeQuery env, call (InsertGuest p) (on_house (\<lambda>h. h\<lparr>protectionGuests := insert p (protectionGuests h)\<rparr>) w))
      else (False, w))"

definition removeProtectionGuest :: "HouseEnv \<Rightarrow> u32 \<Rightarrow> HouseWorld \<Rightarrow> bool \<times> HouseWorld" where
  "removeProtectionGuest env p w =
     (if p \<in> protectionGuests (house w)
      then (executeQuery env, call (DeleteGuest p) (on_house (\<lambda>h. h\<lparr>protectionGuests := protectionGuests h - {p}\<rparr>) w))
      else (False, w))"

definition clearProtectionGuests :: "HouseWorld \<Rightarrow> HouseWorld" where
  "clearProtectionGuests w =
     (if protectionGuests (house w) = {} then w
      else call DeleteGuests (on_house (\<lambda>h. h\<lparr>protectionGuests := {}\<rparr>) w))"

section \<open>Rent\<close>

definition increasePaidUntil :: "RentPeriod_t \<Rightarrow> s64 \<Rightarrow> s64" where
  "increasePaidUntil period t =
     (case period of
        RENTPERIOD_DAILY \<Rightarrow> t + 24 * 60 * 60
      | RENTPERIOD_WEEKLY \<Rightarrow> t + 7 * 24 * 60 * 60
      | RENTPERIOD_MONTHLY \<Rightarrow> t + 30 * 24 * 60 * 60
      | RENTPERIOD_YEARLY \<Rightarrow> t + 365 * 24 * 60 * 60
      | RENTPERIOD_DEV \<Rightarrow> t + 5 * 60
      | RENTPERIOD_NEVER \<Rightarrow> t)"

definition warn :: "HouseEnv \<Rightarrow> u32 \<Rightarrow> HouseWorld \<Rightarrow> HouseWorld" where
  "warn env debtor w =
     (if rentWarnings (house w) < 7
      then on_house (\<lambda>h. h\<lparr>rentWarnings := rentWarnings h + 1\<rparr>) (call (Letter debtor (7 - unat (rentWarnings (house w)))) w)
      else setOwner env 0 True (Some debtor) w)"

definition pay_player :: "HouseEnv \<Rightarrow> RentPeriod_t \<Rightarrow> HouseWorld \<Rightarrow> HouseWorld" where
  "pay_player env period w =
     (let h = house w; ownerId = owner h
      in case balance w ownerId of
           None \<Rightarrow> setOwner env 0 True None w
         | Some b \<Rightarrow>
             if b \<ge> ucast (rent h)
             then let w1 = on_house (\<lambda>h. h\<lparr>paidUntil := increasePaidUntil period (time env), rentWarnings := 0\<rparr>) w
                  in if savePlayerSync env ownerId then w1\<lparr>balance := (balance w)(ownerId \<mapsto> b - ucast (rent h))\<rparr> else w1
             else warn env ownerId w)"

definition pay_guild :: "HouseEnv \<Rightarrow> RentPeriod_t \<Rightarrow> HouseWorld \<Rightarrow> HouseWorld" where
  "pay_guild env period w =
     (let h = house w; ownerId = owner h
      in case guild_account w ownerId of
           None \<Rightarrow> setOwner env 0 True None w
         | Some (leader, b) \<Rightarrow>
             if b \<ge> ucast (rent h)
             then on_house (\<lambda>h. h\<lparr>paidUntil := increasePaidUntil period (time env)\<rparr>)
               (call (GuildTransaction ownerId (rent h))
                 (w\<lparr>guild_account := (guild_account w)(ownerId \<mapsto> (leader, b - ucast (rent h)))\<rparr>))
             else if balance w leader = None then setOwner env 0 True None w
             else warn env leader w)"

text \<open>One round of the loop of \<open>payHouses\<close>; times are compared as signed numbers.\<close>

definition pay_house :: "HouseEnv \<Rightarrow> RentPeriod_t \<Rightarrow> HouseWorld \<Rightarrow> HouseWorld" where
  "pay_house env period w =
     (let h = house w
      in if period = RENTPERIOD_NEVER \<or> owner h = 0 \<or> rent h = 0 \<or> sint (paidUntil h) > sint (time env) \<or> \<not> townExists env
         then w
         else case house_type h of
             HOUSE_TYPE_NORMAL \<Rightarrow> pay_player env period w
           | HOUSE_TYPE_GUILDHALL \<Rightarrow> pay_guild env period w)"

end
