(* ===== verification/HouseRuns.thy ===== *)
theory HouseRuns
  imports Houses
begin

text \<open>
  What the access lists, owners and rents of houses promise: a parsed list admits exactly those whom one of its lines
  names; nobody stays in a house uninvited, whatever lists and owners change; a house that changes hands is emptied
  with its lists; and a house whose rent is not paid is lost after seven warnings.
\<close>

section \<open>Access lists\<close>

definition guid_named :: "HouseEnv \<Rightarrow> string \<Rightarrow> u32 option" where
  "guid_named env n =
     (case onlineGuid env n of Some g \<Rightarrow> Some g | None \<Rightarrow> if getGuidByName env n = 0 then None else Some (getGuidByName env n))"

definition has_rank :: "HousePlayer \<Rightarrow> u32 \<Rightarrow> bool" where
  "has_rank p i \<longleftrightarrow> (\<exists>a r. guildRank p = Some (a, r) \<and> rank_id r = i)"

text \<open>A line admits everybody, the player it names, all ranks of a guild, or one rank of it.\<close>

definition admits :: "HouseEnv \<Rightarrow> HousePlayer \<Rightarrow> string \<Rightarrow> bool" where
  "admits env p line \<longleftrightarrow> length line \<le> 100 \<and>
     (line = ''*'' \<or>
      line \<noteq> [] \<and> hd line \<noteq> CHR ''#'' \<and> set line \<inter> set ''@!*?'' = {} \<and> guid_named env line = Some (guid p) \<or>
      (\<exists>n g a r. line = CHR ''@'' # n \<and> getGuildByName env n = Some g \<and> (a, r) \<in> set (ranks g) \<and> has_rank p (rank_id r)) \<or>
      (\<exists>n m g a r. line = n @ CHR ''@'' # m \<and> n \<noteq> [] \<and> hd n \<noteq> CHR ''#'' \<and> CHR ''@'' \<notin> set n \<and>
         getGuildByName env n = Some g \<and> getRankByName m g = Some (a, r) \<and> has_rank p (rank_id r)))"

lemma find_char: "find_sub [c] s = (if c \<in> set s then Some (length (takeWhile (\<lambda>x. x \<noteq> c) s)) else None)"
  by (induction s) (auto simp: find_sub.simps[of "[c]"])

lemma isInList_iff: "isInList l p \<longleftrightarrow> allowEveryone l \<or> guid p \<in> playerList l \<or> (\<exists>i \<in> guildRankList l. has_rank p i)"
  by (auto simp: isInList_def has_rank_def split: option.splits)

lemma addPlayer_lets: "isInList (AccessList_addPlayer env n l) p \<longleftrightarrow> isInList l p \<or> guid_named env n = Some (guid p)"
  by (auto simp: isInList_iff AccessList_addPlayer_def guid_named_def Let_def split: option.splits)

lemma addRanks_lets:
  "isInList (fold (\<lambda>(_, r) l. l\<lparr>guildRankList := insert (rank_id r) (guildRankList l)\<rparr>) rs l) p \<longleftrightarrow>
     isInList l p \<or> (\<exists>(a, r) \<in> set rs. has_rank p (rank_id r))"
proof (induction rs arbitrary: l)
  case (Cons x rs)
  then show ?case by (cases x) (auto simp: isInList_iff)
qed simp

lemma addGuild_lets:
  "isInList (addGuild env n l) p \<longleftrightarrow>
     isInList l p \<or> (\<exists>g a r. getGuildByName env n = Some g \<and> (a, r) \<in> set (ranks g) \<and> has_rank p (rank_id r))"
  by (auto simp: addGuild_def addRanks_lets split: option.splits)

lemma addGuildRank_lets:
  "isInList (addGuildRank env n m l) p \<longleftrightarrow>
     isInList l p \<or> (\<exists>g a r. getGuildByName env n = Some g \<and> getRankByName m g = Some (a, r) \<and> has_rank p (rank_id r))"
  by (auto simp: addGuildRank_def isInList_iff split: option.splits)

lemma split_at:
  assumes "c \<in> set s" and "n = length (takeWhile (\<lambda>x. x \<noteq> c) s)"
  shows "s = take n s @ c # drop (n + 1) s" and "c \<notin> set (take n s)"
    and "s = n' @ c # m' \<Longrightarrow> c \<notin> set n' \<Longrightarrow> n' = take n s \<and> m' = drop (n + 1) s"
proof -
  obtain a b where s: "s = a @ c # b" "c \<notin> set a" using assms(1) by (meson split_list_first)
  then have n: "n = length a" by (simp add: assms(2) takeWhile_append)
  then show "s = take n s @ c # drop (n + 1) s" "c \<notin> set (take n s)" using s by simp_all
  show "n' = take n s \<and> m' = drop (n + 1) s" if "s = n' @ c # m'" "c \<notin> set n'"
  proof -
    have "n = length n'" using that by (simp add: assms(2) takeWhile_append)
    then show ?thesis using that(1) by simp
  qed
qed

lemma parse_line_lets: "isInList (parse_line env line l) p \<longleftrightarrow> isInList l p \<or> admits env p (trimString line)"
proof -
  define s where "s = trimString line"
  show ?thesis
  proof (cases "s = [] \<or> hd s = CHR ''#'' \<or> length s > 100")
    case True
    then have "parse_line env line l = l" by (simp add: parse_line_def s_def[symmetric] Let_def)
    moreover have "\<not> admits env p s" using True by (auto simp: admits_def)
    ultimately show ?thesis by (simp add: s_def)
  next
    case ok: False
    show ?thesis
    proof (cases "CHR ''@'' \<in> set s")
      case True
      define n where "n = length (takeWhile (\<lambda>x. x \<noteq> CHR ''@'') s)"
      note at = split_at[OF True n_def]
      have f: "find_sub ''@'' s = Some n" using True by (simp add: find_char n_def)
      show ?thesis
      proof (cases "n = 0")
        case z: True
        then obtain q where s': "s = CHR ''@'' # q" using at(1) by auto
        have "isInList (parse_line env line l) p \<longleftrightarrow> isInList (addGuild env q l) p"
          using ok f z by (simp add: parse_line_def s_def[symmetric] Let_def s')
        moreover have "admits env p s \<longleftrightarrow>
          (\<exists>g a r. getGuildByName env q = Some g \<and> (a, r) \<in> set (ranks g) \<and> has_rank p (rank_id r))"
          using ok unfolding s' by (auto simp: admits_def Cons_eq_append_conv)
        ultimately show ?thesis by (simp add: addGuild_lets s_def)
      next
        case nz: False
        have n: "take n s \<noteq> []" "hd (take n s) = hd s" using nz ok by (cases s; cases n; simp)+
        have "isInList (parse_line env line l) p \<longleftrightarrow> isInList (addGuildRank env (take n s) (drop (n + 1) s) l) p"
          using ok f nz by (simp add: parse_line_def s_def[symmetric] Let_def)
        moreover have "admits env p s \<longleftrightarrow> (\<exists>g a r. getGuildByName env (take n s) = Some g \<and>
            getRankByName (drop (n + 1) s) g = Some (a, r) \<and> has_rank p (rank_id r))"
        proof -
          have "s \<noteq> ''*''" "\<nexists>m. s = CHR ''@'' # m" using True nz by (auto simp: n_def)
          then have "admits env p s \<longleftrightarrow> (\<exists>n' m' g a r. s = n' @ CHR ''@'' # m' \<and> n' \<noteq> [] \<and> hd n' \<noteq> CHR ''#'' \<and>
              CHR ''@'' \<notin> set n' \<and> getGuildByName env n' = Some g \<and> getRankByName m' g = Some (a, r) \<and> has_rank p (rank_id r))"
            using True ok by (auto simp: admits_def)
          then show ?thesis using at n ok by metis
        qed
        ultimately show ?thesis by (simp add: addGuildRank_lets s_def)
      qed
    next
      case False
      then have f: "find_sub ''@'' s = None" by (simp add: find_char)
      have "admits env p s \<longleftrightarrow> s = ''*'' \<or> set s \<inter> set ''!*?'' = {} \<and> guid_named env s = Some (guid p)"
        using False ok by (auto simp: admits_def)
      then show ?thesis using ok f
        by (auto simp: parse_line_def s_def[symmetric] Let_def find_char addPlayer_lets) (auto simp: isInList_iff)
    qed
  qed
qed

lemma parse_lines_lets:
  "n \<le> 100 \<Longrightarrow> isInList (parse_lines env n ls l) p \<longleftrightarrow>
     isInList l p \<or> (\<exists>line \<in> set (take (100 - n) ls). admits env p (trimString line))"
proof (induction ls arbitrary: n l)
  case (Cons line ls)
  show ?case
  proof (cases "n = 100")
    case False
    then have "take (100 - n) (line # ls) = line # take (100 - (n + 1)) ls"
      using Cons.prems by (simp add: take_Cons' Suc_diff_le)
    then show ?thesis using Cons.IH[of "n + 1"] False Cons.prems by (auto simp: parse_line_lets)
  qed simp
qed simp

text \<open>
  Claim C27. A player is on a list that was read from a text exactly if one of its first 99 lines (up to a zero character)
  names him, his guild or his rank, or is a star; other texts, comments and lines of more than 100 characters admit nobody.
\<close>

theorem access_list_correct:
  "isInList (parseList env text l) p \<longleftrightarrow>
     (\<exists>line \<in> set (take 99 (getlines (takeWhile (\<lambda>c. c \<noteq> CHR 0x00) text))). admits env p (trimString line))"
proof -
  have none: "\<not> isInList (l\<lparr>playerList := {}, guildRankList := {}, allowEveryone := False, list_text := text\<rparr>) p"
    by (simp add: isInList_iff)
  show ?thesis
    using parse_lines_lets[of 1 env "getlines (takeWhile (\<lambda>c. c \<noteq> CHR 0x00) text)"] none
    by (auto simp: parseList_def Let_def getlines.simps[of "[]"])
qed

section \<open>Sending players out\<close>

text \<open>
  Creatures on tiles stand there once and nowhere else, and the house has its entry outside. An operation may move
  creatures only (\<open>moves_only\<close>).
\<close>

definition placed :: "HouseWorld \<Rightarrow> bool" where
  "placed w \<longleftrightarrow> (\<forall>p. distinct (on_tile w p) \<and> (\<forall>c \<in> set (on_tile w p). position_of w c = p \<and> \<not> removed w c)) \<and>
     tile_exists w (posEntry (house w)) \<and> posEntry (house w) \<notin> set (houseTiles (house w))"

definition moves_only :: "HouseWorld \<Rightarrow> HouseWorld \<Rightarrow> bool" where
  "moves_only w w' \<longleftrightarrow> w' = w\<lparr>on_tile := on_tile w', position_of := position_of w'\<rparr>"

lemma moves_only_refl [simp]: "moves_only w w"
  by (simp add: moves_only_def)

lemma moves_only_trans: "moves_only w w1 \<Longrightarrow> moves_only w1 w2 \<Longrightarrow> moves_only w w2"
  unfolding moves_only_def by (metis HouseWorld.update_convs(4,5) HouseWorld.surjective)

lemma moves_onlyD:
  assumes "moves_only w w'"
  shows "house w' = house w" "player_of w' = player_of w" "doors w' = doors w" "tile_exists w' = tile_exists w"
    "removed w' = removed w" "balance w' = balance w" "guild_account w' = guild_account w" "editHouse w' = editHouse w"
  using assms unfolding moves_only_def
  by (metis HouseWorld.select_convs HouseWorld.surjective HouseWorld.update_convs(4,5))+

lemma tile_move_moves: "moves_only w (tile_move c p w)"
  by (simp add: moves_only_def tile_move_def add_creature_def remove_creature_def Let_def)

lemma placedD: "placed w \<Longrightarrow> c \<in> set (on_tile w p) \<Longrightarrow> position_of w c = p \<and> \<not> removed w c \<and> distinct (on_tile w p)"
  by (simp add: placed_def)

lemma tile_move_on_tile:
  assumes "placed w" "c \<in> set (on_tile w p)"
  shows "on_tile (tile_move c q w) = (on_tile w)(p := remove1 c (on_tile w p), q := c # ((on_tile w)(p := remove1 c (on_tile w p))) q)"
    and "position_of (tile_move c q w) = (position_of w)(c := q)"
  using placedD[OF assms] assms(2) by (simp_all add: tile_move_def add_creature_def remove_creature_def Let_def)

lemma tile_move_placed:
  assumes ok: "placed w" and c: "c \<in> set (on_tile w p)"
  shows "placed (tile_move c q w)"
proof -
  have elsewhere: "c \<notin> set (on_tile w r)" if "r \<noteq> p" for r using placedD[OF ok] c that by blast
  note d = placedD[OF ok c]
  have "distinct (on_tile (tile_move c q w) r) \<and> (\<forall>x \<in> set (on_tile (tile_move c q w) r). position_of (tile_move c q w) x = r \<and> \<not> removed w x)" for r
    using ok d elsewhere[of r] elsewhere[of q] unfolding tile_move_on_tile[OF ok c]
    by (cases "r = q"; cases "r = p") (auto simp: placed_def)
  then show ?thesis using ok moves_onlyD[OF tile_move_moves[of w c q]] by (simp add: placed_def)
qed

locale kicker =
  fixes f :: "nat \<Rightarrow> HouseWorld \<Rightarrow> HouseWorld" and stays :: "House \<Rightarrow> HousePlayer option \<Rightarrow> bool"
  assumes law: "placed w \<Longrightarrow> c \<in> set (on_tile w t) \<Longrightarrow> t \<in> set (houseTiles (house w)) \<Longrightarrow>
      f c w = (if stays (house w) (player_of w c) then w else tile_move c (posEntry (house w)) w)"
    and moves: "moves_only w (f c w)"
begin

lemma kick_loop_moves: "moves_only w (kick_loop f t i w)"
  by (induction i arbitrary: w) (use moves moves_only_trans in \<open>auto intro: moves_only_trans\<close>)

lemma kick_tiles_moves: "moves_only w (kick_tiles f w)"
proof -
  have "moves_only w (fold (\<lambda>t w. kick_loop f t (length (on_tile w t)) w) ts w)" for ts w
  proof (induction ts arbitrary: w)
    case (Cons t ts)
    show ?case unfolding fold_Cons comp_apply by (rule moves_only_trans[OF kick_loop_moves Cons.IH])
  qed simp
  then show ?thesis by (simp add: kick_tiles_def)
qed

lemma kick_loop_ok:
  assumes "placed w" "t \<in> set (houseTiles (house w))" "i \<le> length (on_tile w t)"
  shows "placed (kick_loop f t i w) \<and>
    on_tile (kick_loop f t i w) t = filter (\<lambda>c. stays (house w) (player_of w c)) (take i (on_tile w t)) @ drop i (on_tile w t) \<and>
    (\<forall>s. s \<noteq> t \<and> s \<noteq> posEntry (house w) \<longrightarrow> on_tile (kick_loop f t i w) s = on_tile w s)"
  using assms
proof (induction i arbitrary: w)
  case (Suc i)
  let ?xs = "on_tile w t" and ?c = "on_tile w t ! i"
  have c: "?c \<in> set ?xs" and i: "i < length ?xs" using Suc.prems(3) by simp_all
  have d: "drop i ?xs = ?c # drop (Suc i) ?xs" "take (Suc i) ?xs = take i ?xs @ [?c]"
    using i by (simp_all add: Cons_nth_drop_Suc take_Suc_conv_app_nth)
  note f = law[OF Suc.prems(1) c Suc.prems(2)]
  show ?case
  proof (cases "stays (house w) (player_of w ?c)")
    case True
    then show ?thesis using Suc.IH[OF Suc.prems(1,2)] i f by (simp add: d)
  next
    case False
    let ?w = "tile_move ?c (posEntry (house w)) w"
    have ne: "posEntry (house w) \<noteq> t" using Suc.prems(1,2) by (auto simp: placed_def)
    have di: "distinct ?xs" using placedD[OF Suc.prems(1) c] by blast
    have "?c \<notin> set (take i ?xs)" using di i by (auto simp: in_set_conv_nth nth_eq_iff_index_eq)
    then have "remove1 ?c ?xs = take i ?xs @ drop (Suc i) ?xs"
      by (subst append_take_drop_id[of i ?xs, symmetric], unfold d remove1_append) simp
    then have t: "on_tile ?w t = take i ?xs @ drop (Suc i) ?xs"
      using ne by (simp add: tile_move_on_tile[OF Suc.prems(1) c])
    have other: "on_tile ?w s = on_tile w s" if "s \<noteq> t" "s \<noteq> posEntry (house w)" for s
      using that by (simp add: tile_move_on_tile[OF Suc.prems(1) c])
    note same = moves_onlyD[OF tile_move_moves[of w ?c "posEntry (house w)"]]
    have "placed ?w" by (rule tile_move_placed[OF Suc.prems(1) c])
    from Suc.IH[OF this] Suc.prems(2) i False f t other show ?thesis by (simp add: same d)
  qed
qed simp

lemma kick_tiles_ok:
  assumes "placed w"
  shows "placed (kick_tiles f w) \<and>
    (\<forall>t \<in> set (houseTiles (house w)). on_tile (kick_tiles f w) t = filter (\<lambda>c. stays (house w) (player_of w c)) (on_tile w t))"
proof -
  have "placed (fold (\<lambda>t w. kick_loop f t (length (on_tile w t)) w) ts w) \<and>
      (\<forall>t \<in> set (houseTiles (house w)). on_tile (fold (\<lambda>t w. kick_loop f t (length (on_tile w t)) w) ts w) t =
         (if t \<in> set ts then filter (\<lambda>c. stays (house w) (player_of w c)) (on_tile w t) else on_tile w t))"
    if "set ts \<subseteq> set (houseTiles (house w))" "placed w" for ts w
    using that
  proof (induction ts arbitrary: w)
    case (Cons t ts)
    let ?w = "kick_loop f t (length (on_tile w t)) w"
    note same = moves_onlyD[OF kick_loop_moves[of w t "length (on_tile w t)"]]
    have l: "placed ?w" "on_tile ?w t = filter (\<lambda>c. stays (house w) (player_of w c)) (on_tile w t)"
      "\<And>s. s \<noteq> t \<Longrightarrow> s \<noteq> posEntry (house w) \<Longrightarrow> on_tile ?w s = on_tile w s"
      using kick_loop_ok[OF Cons.prems(2), of t "length (on_tile w t)"] Cons.prems(1) by simp_all
    have ne: "s \<noteq> posEntry (house w)" if "s \<in> set (houseTiles (house w))" for s
      using Cons.prems(2) that by (auto simp: placed_def)
    have "on_tile ?w s = (if s = t then filter (\<lambda>c. stays (house w) (player_of w c)) (on_tile w s) else on_tile w s)"
      if "s \<in> set (houseTiles (house w))" for s using l(2,3) ne[OF that] by simp
    then show ?case using Cons.IH[of ?w] Cons.prems(1) l(1) by (auto simp: same)
  qed simp
  from this[OF subset_refl assms] show ?thesis by (simp add: kick_tiles_def)
qed

end

lemma level_le_owner: "\<not> HOUSE_OWNER < l"
  by (cases l) (simp_all add: less_AccessHouseLevel_t_def)

lemma level_None [simp]: "getHouseAccessLevel env h None = HOUSE_OWNER" "isInvited env h None"
  by (simp_all add: getHouseAccessLevel_def isInvited_def)

lemma editor_invited: "canEditHouses p \<Longrightarrow> isInvited env h (Some p)"
  by (simp add: isInvited_def getHouseAccessLevel_def Let_def)

lemma teleport_out:
  assumes ok: "placed w" and c: "c \<in> set (on_tile w t)" and t: "t \<in> set (houseTiles (house w))"
  shows "snd (internalTeleport env c (posEntry (house w)) w) = tile_move c (posEntry (house w)) w"
  using placedD[OF ok c] ok t
  by (auto simp: internalTeleport_def any_queryAdd_def house_queryAdd_def tile_queryAdd_def no_limit_def placed_def Let_def)

lemma kick_None:
  assumes ok: "placed w" and c: "c \<in> set (on_tile w t)" and t: "t \<in> set (houseTiles (house w))"
  shows "snd (kickPlayer env None c w) =
    (case player_of w c of
       Some p \<Rightarrow> if canEditHouses p then w else tile_move c (posEntry (house w)) w
     | None \<Rightarrow> w)"
  using placedD[OF ok c] c t teleport_out[OF assms]
  by (auto simp: kickPlayer_def level_le_owner split: option.splits)

lemma teleport_moves: "moves_only w (snd (internalTeleport env c p w))"
  by (simp add: internalTeleport_def Let_def tile_move_moves)

lemma kick_moves: "moves_only w (snd (kickPlayer env a c w))"
  by (auto simp: kickPlayer_def teleport_moves split: option.splits)

definition editor :: "House \<Rightarrow> HousePlayer option \<Rightarrow> bool" where
  "editor h p \<longleftrightarrow> (case p of None \<Rightarrow> True | Some p \<Rightarrow> canEditHouses p)"

interpretation everybody: kicker "\<lambda>c w. snd (kickPlayer env None c w)" editor for env
  by unfold_locales (auto simp: kick_None editor_def kick_moves split: option.splits)

interpretation uninvited: kicker "kick_uninvited env" "isInvited env" for env
  by unfold_locales (auto simp: kick_uninvited_def kick_None kick_moves editor_invited split: option.splits)

section \<open>Lists and owners\<close>

definition safe_inside :: "HouseEnv \<Rightarrow> HouseWorld \<Rightarrow> bool" where
  "safe_inside env w \<longleftrightarrow> (\<forall>t \<in> set (houseTiles (house w)). \<forall>c \<in> set (on_tile w t). isInvited env (house w) (player_of w c))"

text \<open>Changes to the house and its doors that leave the tiles and the creatures alone.\<close>

definition same_tiles :: "HouseWorld \<Rightarrow> HouseWorld \<Rightarrow> bool" where
  "same_tiles w w' \<longleftrightarrow> on_tile w' = on_tile w \<and> position_of w' = position_of w \<and> removed w' = removed w \<and>
     tile_exists w' = tile_exists w \<and> player_of w' = player_of w \<and>
     posEntry (house w') = posEntry (house w) \<and> houseTiles (house w') = houseTiles (house w)"

lemma same_tiles_placed: "same_tiles w w' \<Longrightarrow> placed w \<Longrightarrow> placed w'"
  by (simp add: same_tiles_def placed_def)

lemma setList_ok:
  assumes ok: "placed w" and same: "same_tiles w w'"
  shows "placed (kick_tiles (kick_uninvited env) w') \<and> safe_inside env (kick_tiles (kick_uninvited env) w') \<and>
    moves_only w' (kick_tiles (kick_uninvited env) w') \<and>
    (\<forall>t \<in> set (houseTiles (house w)). set (on_tile (kick_tiles (kick_uninvited env) w') t) \<subseteq> set (on_tile w t))"
proof -
  have w': "placed w'" by (rule same_tiles_placed[OF same ok])
  note m = uninvited.kick_tiles_moves[of w' env]
  have k: "placed (kick_tiles (kick_uninvited env) w')"
    "\<And>t. t \<in> set (houseTiles (house w')) \<Longrightarrow> on_tile (kick_tiles (kick_uninvited env) w') t =
       filter (\<lambda>c. isInvited env (house w') (player_of w' c)) (on_tile w' t)"
    using uninvited.kick_tiles_ok[OF w', of env] by blast+
  then show ?thesis using m same by (auto simp: safe_inside_def moves_onlyD[OF m] same_tiles_def)
qed

lemma door_same: "same_tiles w (on_door f d w)" "house (on_door f d w) = house w"
  by (simp_all add: on_door_def same_tiles_def)

lemma setAccessList_ok:
  assumes ok: "placed w" and safe: "safe_inside env w"
  shows "placed (setAccessList env i text w)" "safe_inside env (setAccessList env i text w)"
proof -
  let ?w = "setAccessList env i text w"
  have g: "same_tiles w (on_house (\<lambda>h. h\<lparr>guestList := l h\<rparr>) w)" "same_tiles w (on_house (\<lambda>h. h\<lparr>subOwnerList := l h\<rparr>) w)" for l
    by (simp_all add: same_tiles_def on_house_def)
  have "placed ?w \<and> safe_inside env ?w"
    using setList_ok[OF ok g(1), of env] setList_ok[OF ok g(2), of env] ok safe door_same
      same_tiles_placed[OF door_same(1) ok]
    by (auto simp: setAccessList_def safe_inside_def on_door_def split: option.splits)
  then show "placed ?w" "safe_inside env ?w" by blast+
qed

text \<open>What \<open>evict\<close> makes of the house.\<close>

definition evicted :: "HouseEnv \<Rightarrow> House \<Rightarrow> House" where
  "evicted env h = h\<lparr>owner := 0, ownerAccountId := 0, ownerName := '''', isProtected := False,
     subOwnerList := parseList env '''' (subOwnerList h), guestList := parseList env '''' (guestList h)\<rparr>"

lemma wake_beds_calls: "\<exists>cs. wake_beds env w = w\<lparr>calls := cs\<rparr>"
proof -
  have "\<exists>cs. fold (\<lambda>b w. if asleep env b then call (WakeUp b) w else w) bs w = w\<lparr>calls := cs\<rparr>" for bs w
  proof (induction bs arbitrary: w)
    case Nil
    show ?case by (rule exI[of _ "calls w"]) simp
  next
    case (Cons b bs)
    obtain cs where "fold (\<lambda>b w. if asleep env b then call (WakeUp b) w else w) bs (if asleep env b then call (WakeUp b) w else w) =
      (if asleep env b then call (WakeUp b) w else w)\<lparr>calls := cs\<rparr>" using Cons.IH by blast
    then show ?case by (auto simp: call_def)
  qed
  then show ?thesis by (simp add: wake_beds_def)
qed

lemma clear_list_idem: "Door_setAccessList env '''' (Door_setAccessList env '''' d) = Door_setAccessList env '''' d"
  by (simp add: Door_setAccessList_def parseList_def some_list_def)

lemma clear_doors_ok:
  "clear_doors env w = w\<lparr>doors := \<lambda>d. if d \<in> set (doorSet (house w)) then Door_setAccessList env '''' (doors w d) else doors w d\<rparr>"
proof -
  have "fold (on_door (Door_setAccessList env '''')) ds w =
      w\<lparr>doors := \<lambda>d. if d \<in> set ds then Door_setAccessList env '''' (doors w d) else doors w d\<rparr>" for ds w
  proof (induction ds arbitrary: w)
    case (Cons d ds)
    have "(\<lambda>e. if e \<in> set ds then Door_setAccessList env '''' (doors (on_door (Door_setAccessList env '''') d w) e)
        else doors (on_door (Door_setAccessList env '''') d w) e) =
      (\<lambda>e. if e \<in> set (d # ds) then Door_setAccessList env '''' (doors w e) else doors w e)"
      by (auto simp: on_door_def clear_list_idem)
    then show ?case unfolding fold_Cons comp_apply Cons.IH by (simp only:) (simp add: on_door_def)
  qed simp
  then show ?thesis by (simp add: clear_doors_def)
qed

lemma evict_ok:
  fixes env prev w
  defines "w' \<equiv> evict env prev w"
  shows "house w' = evicted env (house w)" "player_of w' = player_of w" "balance w' = balance w" "guild_account w' = guild_account w"
    "d \<in> set (doorSet (house w)) \<Longrightarrow> doors w' d = Door_setAccessList env '''' (doors w d)"
    "placed w \<Longrightarrow> placed w'"
    "placed w \<Longrightarrow> t \<in> set (houseTiles (house w)) \<Longrightarrow> c \<in> set (on_tile w' t) \<Longrightarrow> editor (house w) (player_of w c)"
proof -
  define w1 where "w1 = call (TransferToDepot prev) w"
  define w2 where "w2 = kick_tiles (\<lambda>c w. snd (kickPlayer env None c w)) w1"
  define w3 where "w3 = wake_beds env w2"
  define w4 where "w4 = on_house (\<lambda>h. h\<lparr>owner := 0, ownerAccountId := 0, ownerName := '''', isProtected := False\<rparr>) w3"
  define w4' where "w4' = on_house (\<lambda>h. h\<lparr>subOwnerList := parseList env '''' (subOwnerList h)\<rparr>) w4"
  define w5 where "w5 = setAccessList env SUBOWNER_LIST '''' w4"
  define w5' where "w5' = on_house (\<lambda>h. h\<lparr>guestList := parseList env '''' (guestList h)\<rparr>) w5"
  define w6 where "w6 = setAccessList env GUEST_LIST '''' w5"
  have w': "w' = clear_doors env w6"
    by (simp add: w'_def evict_def Let_def w1_def w2_def w3_def w4_def w5_def w6_def)
  obtain cs where w3: "w3 = w2\<lparr>calls := cs\<rparr>" using wake_beds_calls w3_def by blast
  have w5: "w5 = kick_tiles (kick_uninvited env) w4'" and w6: "w6 = kick_tiles (kick_uninvited env) w5'"
    by (simp_all add: w5_def w6_def setAccessList_def w4'_def w5'_def)
  note m1 = moves_onlyD[OF everybody.kick_tiles_moves[of w1 env], folded w2_def]
  note m2 = moves_onlyD[OF uninvited.kick_tiles_moves[of w4' env], folded w5]
  note m3 = moves_onlyD[OF uninvited.kick_tiles_moves[of w5' env], folded w6]
  have h6: "house w6 = evicted env (house w)"
    by (simp add: m3 w5'_def on_house_def m2 w4'_def w4_def w3 m1 w1_def call_def evicted_def)
  have rest: "player_of w6 = player_of w" "doors w6 = doors w" "balance w6 = balance w" "guild_account w6 = guild_account w"
    by (simp_all add: m3 w5'_def on_house_def m2 w4'_def w4_def w3 m1 w1_def call_def)
  have ds: "doorSet (evicted env h) = doorSet h" for h by (simp add: evicted_def)
  show "house w' = evicted env (house w)" "player_of w' = player_of w" "balance w' = balance w" "guild_account w' = guild_account w"
    by (simp_all add: w' clear_doors_ok h6 rest)
  show "doors w' d = Door_setAccessList env '''' (doors w d)" if "d \<in> set (doorSet (house w))"
    using that by (simp add: w' clear_doors_ok h6 rest ds)
  have pl: "placed w6 \<and> (\<forall>t \<in> set (houseTiles (house w)). \<forall>c \<in> set (on_tile w6 t). editor (house w) (player_of w c))" if ok: "placed w"
  proof -
    have p1: "placed w1" using ok by (simp add: w1_def call_def placed_def)
    note k = everybody.kick_tiles_ok[OF p1, of env, folded w2_def]
    have p2: "placed w2" using k by blast
    have same4: "same_tiles w2 w4'" by (simp add: same_tiles_def w4'_def w4_def w3 on_house_def)
    note k5 = setList_ok[OF p2 same4, of env, folded w5]
    then have p5: "placed w5" by blast
    have same5: "same_tiles w5 w5'" by (simp add: same_tiles_def w5'_def on_house_def)
    note k6 = setList_ok[OF p5 same5, of env, folded w6]
    have tiles: "houseTiles (house w5) = houseTiles (house w)" "houseTiles (house w2) = houseTiles (house w)"
      "houseTiles (house w1) = houseTiles (house w)" "player_of w1 = player_of w" "house w1 = house w"
      by (simp_all add: m2 w4'_def w4_def w3 on_house_def m1 w1_def call_def)
    have "set (on_tile w6 t) \<subseteq> set (on_tile w2 t)" if "t \<in> set (houseTiles (house w))" for t
      using k5 k6 that unfolding tiles by blast
    moreover have "editor (house w) (player_of w c)" if "t \<in> set (houseTiles (house w))" "c \<in> set (on_tile w2 t)" for t c
      using k that unfolding tiles by auto
    ultimately show ?thesis using k6 by blast
  qed
  have same: "same_tiles w6 w'" by (simp add: w' clear_doors_ok same_tiles_def)
  show "placed w'" if "placed w" using same_tiles_placed[OF same] pl[OF that] by blast
  show "editor (house w) (player_of w c)" if "placed w" "t \<in> set (houseTiles (house w))" "c \<in> set (on_tile w' t)"
    using pl[OF that(1)] that(2,3) same by (simp add: same_tiles_def)
qed

section \<open>Nobody is inside uninvited\<close>

text \<open>Players, their accounts and guilds have identifiers other than 0, which stands for no owner.\<close>

definition known :: "HousePlayer \<Rightarrow> bool" where
  "known p \<longleftrightarrow> guid p \<noteq> 0 \<and> account p \<noteq> 0 \<and> (\<forall>g. guild p = Some g \<longrightarrow> guild_id g \<noteq> 0)"

definition house_inv :: "bool \<Rightarrow> HouseWorld \<Rightarrow> bool" where
  "house_inv acct w \<longleftrightarrow> placed w \<and> (\<forall>c p. player_of w c = Some p \<longrightarrow> known p) \<and>
     (owner (house w) = 0 \<longrightarrow> ownerAccountId (house w) = 0) \<and>
     (\<forall>env. houseOwnedByAccount env = acct \<longrightarrow> safe_inside env w)"

definition same_access :: "House \<Rightarrow> House \<Rightarrow> bool" where
  "same_access h h' \<longleftrightarrow> owner h' = owner h \<and> ownerAccountId h' = ownerAccountId h \<and> house_type h' = house_type h \<and>
     subOwnerList h' = subOwnerList h \<and> guestList h' = guestList h"

lemma isInvited_cong:
  assumes "same_access h h'" "houseOwnedByAccount env = houseOwnedByAccount env'"
  shows "isInvited env' h' p = isInvited env h p"
proof -
  have eq: "owner h' = owner h" "ownerAccountId h' = ownerAccountId h" "house_type h' = house_type h"
    "subOwnerList h' = subOwnerList h" "guestList h' = guestList h" using assms(1) by (simp_all add: same_access_def)
  show ?thesis unfolding isInvited_def getHouseAccessLevel_def eq assms(2) ..
qed

lemma harmless:
  assumes "house_inv acct w" "same_tiles w w'" "same_access (house w) (house w')"
  shows "house_inv acct w'"
proof -
  have "isInvited env (house w') p = isInvited env (house w) p" for env p by (rule isInvited_cong[OF assms(3)]) simp
  then show ?thesis using assms same_tiles_placed[OF assms(2)]
    by (auto simp: house_inv_def safe_inside_def same_tiles_def same_access_def)
qed

lemma editors_inv:
  assumes "placed w" "\<And>c p. player_of w c = Some p \<Longrightarrow> known p" "owner (house w) = 0 \<longrightarrow> ownerAccountId (house w) = 0"
    "\<And>t c. t \<in> set (houseTiles (house w)) \<Longrightarrow> c \<in> set (on_tile w t) \<Longrightarrow> editor h (player_of w c)"
  shows "house_inv acct w"
proof -
  have "isInvited env (house w) (player_of w c)" if "editor h (player_of w c)" for env c
    using that by (cases "player_of w c") (simp_all add: editor_def editor_invited)
  then show ?thesis using assms by (simp add: house_inv_def safe_inside_def)
qed

lemma setAccessList_inv:
  assumes inv: "house_inv acct w" and e: "houseOwnedByAccount env = acct"
  shows "house_inv acct (setAccessList env i text w)"
proof -
  let ?w = "setAccessList env i text w"
  have ok: "placed w" "safe_inside env w" using inv e by (auto simp: house_inv_def)
  note k = setAccessList_ok[OF ok, of i "text"]
  have f: "owner (house ?w) = owner (house w)" "ownerAccountId (house ?w) = ownerAccountId (house w)" "player_of ?w = player_of w"
    by (simp_all add: setAccessList_def moves_onlyD[OF uninvited.kick_tiles_moves] on_house_def on_door_def split: option.splits)
  have "safe_inside env' ?w" if "houseOwnedByAccount env' = acct" for env'
  proof -
    have "isInvited env' (house ?w) p = isInvited env (house ?w) p" for p
      by (rule isInvited_cong) (use that e in \<open>simp_all add: same_access_def\<close>)
    then show ?thesis using k(2) by (simp add: safe_inside_def)
  qed
  then show ?thesis using inv k(1) by (simp add: house_inv_def f)
qed

lemma new_owner_invites:
  assumes "owner h = 0" "ownerAccountId h = 0" "isInvited env h p" "\<And>q. p = Some q \<Longrightarrow> known q"
    "house_type h' = house_type h" "subOwnerList h' = subOwnerList h" "guestList h' = guestList h"
  shows "isInvited env h' p"
proof (cases p)
  case (Some q)
  then have "canEditHouses q \<or> isInList (subOwnerList h) q \<or> isInList (guestList h) q"
    using assms(1-4) by (auto simp: isInvited_def getHouseAccessLevel_def known_def Let_def split: HouseType_t.splits option.splits if_splits)
  then show ?thesis using assms(5-7) Some
    by (auto simp: isInvited_def getHouseAccessLevel_def Let_def split: HouseType_t.splits option.splits)
qed simp

lemma name_owner_same:
  "same_tiles w (name_owner env g w)" "house_type (house (name_owner env g w)) = house_type (house w)"
  "subOwnerList (house (name_owner env g w)) = subOwnerList (house w)" "guestList (house (name_owner env g w)) = guestList (house w)"
  "owner (house (name_owner env g w)) = (if g \<noteq> 0 \<and> ownerData env g (house_type (house w)) \<noteq> None then g else owner (house w))"
  "owner (house w) = 0 \<longrightarrow> ownerAccountId (house w) = 0 \<Longrightarrow>
     owner (house (name_owner env g w)) = 0 \<longrightarrow> ownerAccountId (house (name_owner env g w)) = 0"
  "protectionGuests (house (name_owner env g w)) = protectionGuests (house w)" "isProtected (house (name_owner env g w)) = isProtected (house w)"
  "doors (name_owner env g w) = doors w" "doorSet (house (name_owner env g w)) = doorSet (house w)"
  "rentWarnings (house (name_owner env g w)) = rentWarnings (house w)"
  by (auto simp: name_owner_def updateDoorDescription_def call_def on_house_def same_tiles_def split: option.splits)

lemma name_owner_inv:
  assumes inv: "house_inv acct w" and free: "owner (house w) = 0"
  shows "house_inv acct (name_owner env g w)"
proof -
  note s = name_owner_same[where w = w and env = env and g = g]
  have "isInvited e (house (name_owner env g w)) (player_of w c)" if "isInvited e (house w) (player_of w c)" for e c
    by (rule new_owner_invites[OF free _ that]) (use inv free s in \<open>auto simp: house_inv_def\<close>)
  then show ?thesis using inv s(1) s(6) same_tiles_placed[OF s(1)]
    by (auto simp: house_inv_def safe_inside_def same_tiles_def)
qed

text \<open>The part of \<open>setOwner\<close> before the new owner is entered.\<close>

definition vacated :: "HouseEnv \<Rightarrow> u32 \<Rightarrow> u32 option \<Rightarrow> HouseWorld \<Rightarrow> HouseWorld" where
  "vacated env g prev w =
     (let reset = (g = 0 \<or> owner (house w) = 0);
          w1 = (if owner (house w) \<noteq> g
                then (if reset then on_house (\<lambda>h. h\<lparr>isProtected := False\<rparr>) (call (UpdateOwner g reset) w) else call (UpdateOwner g reset) w)
                else w)
      in on_house (\<lambda>h. h\<lparr>isLoaded := True\<rparr>) w1)"

lemma vacated_same:
  "same_tiles w (vacated env g prev w)" "same_access (house w) (house (vacated env g prev w))"
  "doors (vacated env g prev w) = doors w" "doorSet (house (vacated env g prev w)) = doorSet (house w)"
  "protectionGuests (house (vacated env g prev w)) = protectionGuests (house w)"
  by (simp_all add: vacated_def same_tiles_def same_access_def on_house_def call_def Let_def)

lemma setOwner_eq:
  "setOwner env g True prev w =
     (if isLoaded (house w) \<and> owner (house w) = g then w
      else name_owner env g (on_house (\<lambda>h. h\<lparr>rentWarnings := 0\<rparr>)
        (if owner (house w) \<noteq> 0 then evict env prev (vacated env g prev w)
         else on_house (\<lambda>h. h\<lparr>paidUntil := first_rent env\<rparr>) (vacated env g prev w))))"
  by (auto simp: setOwner_def vacated_def Let_def on_house_def call_def)

lemma setOwner_inv:
  assumes inv: "house_inv acct w"
  shows "house_inv acct (setOwner env g True prev w)"
proof (cases "owner (house w) = 0")
  case True
  let ?w = "on_house (\<lambda>h. h\<lparr>rentWarnings := 0\<rparr>) (on_house (\<lambda>h. h\<lparr>paidUntil := first_rent env\<rparr>) (vacated env g prev w))"
  have "same_tiles w ?w" "same_access (house w) (house ?w)"
    using vacated_same(1,2)[of w env g prev] by (simp_all add: same_tiles_def same_access_def on_house_def)
  then have "house_inv acct ?w" "owner (house ?w) = 0" using harmless[OF inv] True by (simp_all add: same_access_def)
  then show ?thesis using name_owner_inv[of acct ?w env g] True inv by (simp add: setOwner_eq)
next
  case False
  let ?v = "vacated env g prev w"
  let ?w = "on_house (\<lambda>h. h\<lparr>rentWarnings := 0\<rparr>) (evict env prev ?v)"
  have v: "house_inv acct ?v" by (rule harmless[OF inv vacated_same(1,2)])
  then have p: "placed ?v" by (simp add: house_inv_def)
  note e = evict_ok[where env = env and prev = prev and w = ?v]
  have h: "house ?w = (evicted env (house ?v))\<lparr>rentWarnings := 0\<rparr>" by (simp add: on_house_def e(1))
  have pl: "player_of ?w = player_of ?v" "on_tile ?w = on_tile (evict env prev ?v)" by (simp_all add: on_house_def e(2))
  have "placed ?w" using e(6)[OF p] by (simp add: placed_def on_house_def)
  then have "house_inv acct ?w"
    by (rule editors_inv[where h = "house ?v"]) (use v e(7)[OF p] in \<open>auto simp: h pl evicted_def house_inv_def\<close>)
  moreover have "owner (house ?w) = 0" by (simp add: h evicted_def)
  ultimately show ?thesis using name_owner_inv[of acct ?w env g] False inv by (simp add: setOwner_eq)
qed

section \<open>Runs\<close>

text \<open>
  A house is loaded while nobody is on its tiles. Then players log in, walk, log out, join and leave guilds while they
  are outside, are kicked; the lists, doors, guests and owners change by windows, scripts, trades and unpaid rents.
  Walking asks the tile first; a teleport of a script or a gamemaster, which does not ask, is no step. The environment
  of a step is arbitrary but for the configuration \<open>acct\<close> (\<open>HOUSE_OWNED_BY_ACCOUNT\<close>).
\<close>

inductive house_run :: "bool \<Rightarrow> HouseWorld \<Rightarrow> bool" for acct :: bool where
  loaded: "placed w \<Longrightarrow> (\<And>c p. player_of w c = Some p \<Longrightarrow> known p) \<Longrightarrow> (owner (house w) = 0 \<longrightarrow> ownerAccountId (house w) = 0) \<Longrightarrow>
    (\<And>t. t \<in> set (houseTiles (house w)) \<Longrightarrow> on_tile w t = []) \<Longrightarrow> house_run acct w"
| login: "house_run acct w \<Longrightarrow> houseOwnedByAccount env = acct \<Longrightarrow> (\<And>t. c \<notin> set (on_tile w t)) \<Longrightarrow> \<not> removed w c \<Longrightarrow>
    p \<in> set (houseTiles (house w)) \<Longrightarrow> plain_destination env p = Some p \<Longrightarrow> house_queryDestination env w p c = Some q \<Longrightarrow>
    house_run acct (add_creature c q w)"
| walk: "house_run acct w \<Longrightarrow> houseOwnedByAccount env = acct \<Longrightarrow> c \<in> set (on_tile w s) \<Longrightarrow> \<not> no_limit flags \<Longrightarrow>
    any_queryAdd env w p c flags = RETURNVALUE_NOERROR \<Longrightarrow> house_run acct (tile_move c p w)"
| logout: "house_run acct w \<Longrightarrow> c \<in> set (on_tile w s) \<Longrightarrow>
    house_run acct ((remove_creature c w)\<lparr>removed := (removed w)(c := True)\<rparr>)"
| become: "house_run acct w \<Longrightarrow> (\<And>t. t \<in> set (houseTiles (house w)) \<Longrightarrow> c \<notin> set (on_tile w t)) \<Longrightarrow> known d \<Longrightarrow>
    house_run acct (w\<lparr>player_of := (player_of w)(c \<mapsto> d)\<rparr>)"
| kick: "house_run acct w \<Longrightarrow> c \<in> set (on_tile w s) \<Longrightarrow> house_run acct (snd (kickPlayer env actor c w))"
| edit: "house_run acct w \<Longrightarrow> house_run acct (setEditHouse c b i w)"
| window: "house_run acct w \<Longrightarrow> houseOwnedByAccount env = acct \<Longrightarrow> house_run acct (playerUpdateHouseWindow env c i n text w)"
| lists: "house_run acct w \<Longrightarrow> houseOwnedByAccount env = acct \<Longrightarrow> house_run acct (setAccessList env i text w)"
| owners: "house_run acct w \<Longrightarrow> house_run acct (setOwner env g True prev w)"
| document: "house_run acct w \<Longrightarrow> house_run acct (snd (getTransferItem new w))"
| reset: "house_run acct w \<Longrightarrow> house_run acct (resetTransferItem w)"
| trade: "house_run acct w \<Longrightarrow> house_run acct (snd (executeTransfer env item newOwner w))"
| add_guest: "house_run acct w \<Longrightarrow> house_run acct (snd (addProtectionGuest env i w))"
| remove_guest: "house_run acct w \<Longrightarrow> house_run acct (snd (removeProtectionGuest env i w))"
| clear_guests: "house_run acct w \<Longrightarrow> house_run acct (clearProtectionGuests w)"
| add_door: "house_run acct w \<Longrightarrow> house_run acct (addDoor d w)"
| remove_door: "house_run acct w \<Longrightarrow> house_run acct (removeDoor d w)"
| pay: "house_run acct w \<Longrightarrow> house_run acct (pay_house env period w)"

lemmas harmless_defs = same_tiles_def same_access_def on_house_def on_door_def call_def

lemma add_creature_inv:
  assumes inv: "house_inv acct w" and c: "\<And>t. c \<notin> set (on_tile w t)" "\<not> removed w c"
    and q: "q \<in> set (houseTiles (house w)) \<Longrightarrow> isInvited env (house w) (player_of w c)" and e: "houseOwnedByAccount env = acct"
  shows "house_inv acct (add_creature c q w)"
proof -
  have "isInvited env' (house w) p = isInvited env (house w) p" if "houseOwnedByAccount env' = acct" for env' p
    by (rule isInvited_cong) (use that e in \<open>simp_all add: same_access_def\<close>)
  moreover have "safe_inside env' w" if "houseOwnedByAccount env' = acct" for env' using inv that by (simp add: house_inv_def)
  ultimately have "safe_inside env' (add_creature c q w)" if "houseOwnedByAccount env' = acct" for env'
    using q that by (auto simp: safe_inside_def add_creature_def)
  moreover have "placed (add_creature c q w)"
    using inv c by (auto simp: house_inv_def placed_def add_creature_def)
  ultimately show ?thesis using inv by (simp add: house_inv_def add_creature_def)
qed

lemma tile_move_inv:
  assumes inv: "house_inv acct w" and c: "c \<in> set (on_tile w s)"
    and p: "p \<in> set (houseTiles (house w)) \<Longrightarrow> isInvited env (house w) (player_of w c)" and e: "houseOwnedByAccount env = acct"
  shows "house_inv acct (tile_move c p w)"
proof -
  have ok: "placed w" using inv by (simp add: house_inv_def)
  note m = moves_onlyD[OF tile_move_moves[of w c p]]
  have "isInvited env' (house w) x = isInvited env (house w) x" if "houseOwnedByAccount env' = acct" for env' x
    by (rule isInvited_cong) (use that e in \<open>simp_all add: same_access_def\<close>)
  moreover have "d \<in> set (on_tile w t) \<or> (d = c \<and> t = p)" if "d \<in> set (on_tile (tile_move c p w) t)" for d t
    using that unfolding tile_move_on_tile[OF ok c] by (auto split: if_splits dest: set_remove1_subset[THEN subsetD])
  ultimately have "safe_inside env' (tile_move c p w)" if "houseOwnedByAccount env' = acct" for env'
    using inv p that unfolding safe_inside_def m house_inv_def by blast
  then show ?thesis using inv tile_move_placed[OF ok c] by (simp add: house_inv_def m)
qed

lemma remove_creature_inv:
  assumes inv: "house_inv acct w" and c: "c \<in> set (on_tile w s)"
  shows "house_inv acct ((remove_creature c w)\<lparr>removed := (removed w)(c := True)\<rparr>)" (is "house_inv acct ?w")
proof -
  have ok: "placed w" using inv by (simp add: house_inv_def)
  have "c \<notin> set (on_tile w t)" if "t \<noteq> s" for t using placedD[OF ok] c that by blast
  then have "placed ?w" using ok placedD[OF ok c]
    by (auto simp: placed_def remove_creature_def Let_def)
  moreover have sub: "set (on_tile ?w t) \<subseteq> set (on_tile w t)" for t
    by (auto simp: remove_creature_def Let_def split: if_splits dest: set_remove1_subset[THEN subsetD])
  moreover have same: "house ?w = house w" "player_of ?w = player_of w" by (simp_all add: remove_creature_def Let_def)
  moreover have "safe_inside env ?w" if "safe_inside env w" for env
    using that sub unfolding safe_inside_def same by blast
  ultimately show ?thesis using inv unfolding house_inv_def same by blast
qed

lemma kickPlayer_inv:
  assumes inv: "house_inv acct w" and c: "c \<in> set (on_tile w s)"
  shows "house_inv acct (snd (kickPlayer env actor c w))"
proof -
  have ok: "placed w" using inv by (simp add: house_inv_def)
  have "\<exists>e :: HouseEnv. houseOwnedByAccount e = acct" by (rule exI[of _ "undefined\<lparr>houseOwnedByAccount := acct\<rparr>"]) simp
  then obtain e :: HouseEnv where e: "houseOwnedByAccount e = acct" by blast
  have "snd (kickPlayer env actor c w) = w \<or> snd (kickPlayer env actor c w) = tile_move c (posEntry (house w)) w"
    by (auto simp: kickPlayer_def internalTeleport_def Let_def split: option.splits)
  moreover have "house_inv acct (tile_move c (posEntry (house w)) w)"
    by (rule tile_move_inv[where env = e, OF inv c]) (use ok e in \<open>simp_all add: placed_def\<close>)
  ultimately show ?thesis using inv by auto
qed

lemma pay_inv:
  assumes inv: "house_inv acct w"
  shows "house_inv acct (pay_house env period w)"
proof -
  have warn: "house_inv acct (warn env i w)" for i
    using setOwner_inv[OF inv] by (auto simp: warn_def harmless_defs intro!: harmless[OF inv])
  have "house_inv acct (pay_player env period w)"
    using warn setOwner_inv[OF inv]
    by (auto simp: pay_player_def Let_def harmless_defs intro!: harmless[OF inv] split: option.splits)
  moreover have "house_inv acct (pay_guild env period w)"
    using warn setOwner_inv[OF inv]
    by (auto simp: pay_guild_def Let_def harmless_defs intro!: harmless[OF inv] split: option.splits)
  ultimately show ?thesis using inv by (auto simp: pay_house_def Let_def split: HouseType_t.splits)
qed

lemma queryAdd_invited:
  assumes "any_queryAdd env w p c flags = RETURNVALUE_NOERROR" "\<not> no_limit flags" "p \<in> set (houseTiles (house w))"
  shows "isInvited env (house w) (player_of w c)"
  using assms by (auto simp: any_queryAdd_def house_queryAdd_def split: option.splits if_splits)

lemma house_run_inv: "house_run acct w \<Longrightarrow> house_inv acct w"
proof (induction rule: house_run.induct)
  case (loaded w)
  then show ?case by (simp add: house_inv_def safe_inside_def)
next
  case (login w env c p q)
  have "isInvited env (house w) (player_of w c)" if "q \<in> set (houseTiles (house w))"
    using login.hyps login.IH that
    by (auto simp: house_queryDestination_def house_inv_def placed_def split: option.splits if_splits)
  then show ?case by (intro add_creature_inv[where env = env, OF login.IH login.hyps(3,4)]) (auto simp: login.hyps(2))
next
  case (walk w env c s flags p)
  show ?case by (rule tile_move_inv[OF walk.IH walk.hyps(3) queryAdd_invited[OF walk.hyps(5,4)] walk.hyps(2)])
next
  case (logout w c s)
  then show ?case by (intro remove_creature_inv)
next
  case (become w c d)
  then show ?case by (auto simp: house_inv_def safe_inside_def placed_def)
next
  case (kick w c s env actor)
  then show ?case by (intro kickPlayer_inv)
next
  case (edit w c b i)
  show ?case by (rule harmless[OF edit.IH]) (simp_all add: setEditHouse_def harmless_defs)
next
  case (window w env c i n "text")
  let ?w = "setAccessList env (editListId w c) text w"
  have "house_inv acct (setEditHouse c False 0 v)" if "house_inv acct v" for v
    by (rule harmless[OF that]) (simp_all add: setEditHouse_def harmless_defs)
  then show ?case using window.IH setAccessList_inv[OF window.IH window.hyps(2)] by (simp add: playerUpdateHouseWindow_def)
next
  case (lists w env i "text")
  then show ?case by (intro setAccessList_inv)
next
  case (owners w env g prev)
  then show ?case by (intro setOwner_inv)
next
  case (document w new)
  then show ?case by (auto simp: getTransferItem_def harmless_defs intro!: harmless[OF document.IH] split: option.splits)
next
  case (reset w)
  then show ?case by (auto simp: resetTransferItem_def harmless_defs intro!: harmless[OF reset.IH] split: option.splits)
next
  case (trade w env item newOwner)
  have "house_inv acct (on_house (\<lambda>h. h\<lparr>transferItem := None\<rparr>) v)" if "house_inv acct v" for v
    by (rule harmless[OF that]) (simp_all add: harmless_defs)
  then show ?case using trade.IH setOwner_inv[OF trade.IH]
    by (auto simp: executeTransfer_def split: HouseType_t.splits option.splits)
next
  case (add_guest w env i)
  then show ?case by (auto simp: addProtectionGuest_def harmless_defs intro!: harmless[OF add_guest.IH])
next
  case (remove_guest w env i)
  then show ?case by (auto simp: removeProtectionGuest_def harmless_defs intro!: harmless[OF remove_guest.IH])
next
  case (clear_guests w)
  then show ?case by (auto simp: clearProtectionGuests_def harmless_defs intro!: harmless[OF clear_guests.IH])
next
  case (add_door w d)
  show ?case by (rule harmless[OF add_door.IH]) (simp_all add: addDoor_def harmless_defs)
next
  case (remove_door w d)
  show ?case by (rule harmless[OF remove_door.IH]) (simp_all add: removeDoor_def harmless_defs)
next
  case (pay w env period)
  then show ?case by (intro pay_inv)
qed

section \<open>Rent that is not paid\<close>

definition insolvent :: "HouseWorld \<Rightarrow> bool" where
  "insolvent w \<longleftrightarrow>
     (case house_type (house w) of
        HOUSE_TYPE_NORMAL \<Rightarrow> (\<exists>b. balance w (owner (house w)) = Some b \<and> b < ucast (rent (house w)))
      | HOUSE_TYPE_GUILDHALL \<Rightarrow>
          (\<exists>leader b. guild_account w (owner (house w)) = Some (leader, b) \<and> b < ucast (rent (house w)) \<and> balance w leader \<noteq> None))"

definition overdue :: "HouseEnv \<Rightarrow> RentPeriod_t \<Rightarrow> House \<Rightarrow> bool" where
  "overdue env period h \<longleftrightarrow> period \<noteq> RENTPERIOD_NEVER \<and> rent h \<noteq> 0 \<and> sint (paidUntil h) \<le> sint (time env) \<and> townExists env"

lemma unpaid_warns:
  assumes "owner (house w) \<noteq> 0" "insolvent w" "overdue env period (house w)"
  shows "\<exists>debtor. pay_house env period w = warn env debtor w"
  using assms
  by (auto simp: pay_house_def pay_player_def pay_guild_def insolvent_def overdue_def Let_def not_le
      split: HouseType_t.splits)

lemma unowned_stays: "owner (house w) = 0 \<Longrightarrow> fold (\<lambda>env. pay_house env period) envs w = w"
  by (induction envs) (simp_all add: pay_house_def)

lemma setOwner_none: "owner (house w) \<noteq> 0 \<Longrightarrow> owner (house (setOwner env 0 True prev w)) = 0"
  by (simp add: setOwner_eq name_owner_same on_house_def evict_ok(1) evicted_def)

section \<open>Properties of houses\<close>


text \<open>
  Claim C28. When a house with an owner gets another or none, all of its lists and those of its doors become empty, every
  player but those who may edit all houses is out, the warnings and the protection are reset, and the new owner is
  entered if the database knows him; the guests of the protection are those of the former owner.
\<close>

theorem setOwner_clears:
  assumes "placed w" "owner (house w) \<noteq> 0" "g \<noteq> owner (house w)"
  shows "owner (house (setOwner env g True prev w)) =
      (if g \<noteq> 0 \<and> ownerData env g (house_type (house w)) \<noteq> None then g else 0) \<and>
    (\<forall>p. \<not> isInList (guestList (house (setOwner env g True prev w))) p \<and>
      \<not> isInList (subOwnerList (house (setOwner env g True prev w))) p) \<and>
    (\<forall>d \<in> set (doorSet (house w)). \<exists>l. doorList (doors (setOwner env g True prev w) d) = Some l \<and> (\<forall>p. \<not> isInList l p)) \<and>
    (\<forall>t \<in> set (houseTiles (house w)). \<forall>c \<in> set (on_tile (setOwner env g True prev w) t).
      \<forall>p. player_of w c = Some p \<longrightarrow> canEditHouses p) \<and>
    rentWarnings (house (setOwner env g True prev w)) = 0 \<and> \<not> isProtected (house (setOwner env g True prev w)) \<and>
    protectionGuests (house (setOwner env g True prev w)) = protectionGuests (house w)"
proof -
  let ?v = "vacated env g prev w"
  let ?w = "on_house (\<lambda>h. h\<lparr>rentWarnings := 0\<rparr>) (evict env prev ?v)"
  have eq: "setOwner env g True prev w = name_owner env g ?w" using assms(2,3) by (simp add: setOwner_eq)
  note v = vacated_same[where w = w and env = env and g = g and prev = prev] and e = evict_ok[where env = env and prev = prev and w = ?v]
    and n = name_owner_same[where w = ?w and env = env and g = g]
  have p: "placed ?v" by (rule same_tiles_placed[OF v(1) assms(1)])
  have h: "house ?w = (evicted env (house ?v))\<lparr>rentWarnings := 0\<rparr>" by (simp add: on_house_def e(1))
  have own: "owner (house ?w) = 0" by (simp add: h evicted_def)
  have type: "house_type (house ?w) = house_type (house w)" using v(2) by (simp add: h evicted_def same_access_def)
  have empty: "\<not> isInList (parseList env [] l) q" for l q by (simp add: parseList_def isInList_iff)
  have "owner (house (name_owner env g ?w)) = (if g \<noteq> 0 \<and> ownerData env g (house_type (house w)) \<noteq> None then g else 0)"
    unfolding n(5) type own ..
  moreover have "\<forall>q. \<not> isInList (guestList (house (name_owner env g ?w))) q \<and> \<not> isInList (subOwnerList (house (name_owner env g ?w))) q"
    unfolding n(3,4) by (simp add: h evicted_def empty)
  moreover have "\<forall>d \<in> set (doorSet (house w)). \<exists>l. doorList (doors (name_owner env g ?w) d) = Some l \<and> (\<forall>q. \<not> isInList l q)"
    unfolding n(9) using e(5) v(4) by (simp add: on_house_def Door_setAccessList_def empty)
  moreover have "\<forall>t \<in> set (houseTiles (house w)). \<forall>c \<in> set (on_tile (name_owner env g ?w) t). \<forall>q. player_of w c = Some q \<longrightarrow> canEditHouses q"
    using n(1) v(1) e(7)[OF p] by (fastforce simp: same_tiles_def on_house_def editor_def)
  moreover have "rentWarnings (house (name_owner env g ?w)) = 0 \<and> \<not> isProtected (house (name_owner env g ?w)) \<and>
      protectionGuests (house (name_owner env g ?w)) = protectionGuests (house w)"
    unfolding n(7,8,11) using v(5) by (simp add: h evicted_def)
  ultimately show ?thesis unfolding eq by blast
qed

text \<open>
  Claim C29. A house or guildhall whose owner cannot pay a rent that is due keeps its owner through seven warnings and
  loses him with the next collection.
\<close>

theorem unpaid_house_lost:
  assumes "owner (house w) \<noteq> 0" "insolvent w" "\<forall>env \<in> set envs. overdue env period (house w)" "unat (rentWarnings (house w)) \<le> 7"
  shows "owner (house (fold (\<lambda>env. pay_house env period) envs w)) =
    (if length envs + unat (rentWarnings (house w)) < 8 then owner (house w) else 0)"
  using assms
proof (induction envs arbitrary: w)
  case (Cons env envs)
  have "overdue env period (house w)" using Cons.prems(3) by simp
  then obtain debtor where pay: "pay_house env period w = warn env debtor w"
    using unpaid_warns[OF Cons.prems(1,2)] by blast
  show ?case
  proof (cases "unat (rentWarnings (house w)) = 7")
    case True
    then have "\<not> rentWarnings (house w) < 7" by (simp add: word_less_nat_alt)
    then have "owner (house (warn env debtor w)) = 0" using setOwner_none[OF Cons.prems(1)] by (simp add: warn_def)
    then show ?thesis using True by (simp add: pay unowned_stays)
  next
    case False
    then have lt: "unat (rentWarnings (house w)) < 7" using Cons.prems(4) by simp
    let ?w = "warn env debtor w"
    have h: "house ?w = (house w)\<lparr>rentWarnings := rentWarnings (house w) + 1\<rparr>" "balance ?w = balance w" "guild_account ?w = guild_account w"
      using lt by (simp_all add: warn_def word_less_nat_alt on_house_def call_def)
    have n: "unat (rentWarnings (house ?w)) = unat (rentWarnings (house w)) + 1"
      using lt by (simp add: h unat_word_ariths)
    have ins: "insolvent ?w" using Cons.prems(2) by (simp add: insolvent_def h split: HouseType_t.splits)
    have due: "\<forall>env \<in> set envs. overdue env period (house ?w)" using Cons.prems(3) by (simp add: overdue_def h)
    show ?thesis using Cons.IH[OF _ ins due] Cons.prems(1) lt by (simp add: pay h(1) n[unfolded h(1), simplified])
  qed
qed simp

section \<open>An example\<close>

definition sample_env :: HouseEnv where
  "sample_env = \<lparr>onlineGuid = (\<lambda>_. None), getGuidByName = (\<lambda>_. 0), getGuildIdByName = (\<lambda>_. 0), getGuild = (\<lambda>_. None),
     loadGuild = (\<lambda>_. None), ownerData = (\<lambda>_ _. None), houseOwnedByAccount = False, onlyInvitedCanMove = True,
     rentPeriodConfig = ''weekly'', time = 1000, townExists = True, executeQuery = True, savePlayerSync = (\<lambda>_. True),
     asleep = (\<lambda>_. False), plain_queryAdd = (\<lambda>_ _ _. RETURNVALUE_NOERROR), plain_destination = Some\<rparr>"

definition sample_house :: House where
  "sample_house = \<lparr>guestList = new_AccessList, subOwnerList = new_AccessList, houseTiles = [Position 10 10 7], doorSet = [],
     bedsList = [], ownerName = ''Anna'', transferItem = None, paidUntil = 500, owner = 3, ownerAccountId = 2, rentWarnings = 0,
     rent = 100, posEntry = Position 10 12 7, isLoaded = True, isProtected = False, protectionGuests = {},
     house_type = HOUSE_TYPE_NORMAL\<rparr>"

definition sample_world :: HouseWorld where
  "sample_world = \<lparr>house = sample_house, doors = (\<lambda>_. \<lparr>doorId = 0, ofHouse = False, doorList = None, doorPos = Position 0 0 0\<rparr>),
     tile_exists = (\<lambda>_. True), on_tile = (\<lambda>_. []), position_of = (\<lambda>_. Position 0 0 0),
     player_of = (\<lambda>_. Some \<lparr>guid = 3, account = 2, canEditHouses = False, guild = None, guildRank = None, templePosition = Position 0 0 0\<rparr>),
     removed = (\<lambda>_. False), balance = (\<lambda>_. Some 10), windowTextId = (\<lambda>_. 0), editListId = (\<lambda>_. 0), editHouse = (\<lambda>_. False),
     guild_account = (\<lambda>_. None), calls = []\<rparr>"

definition sample_inside :: HouseWorld where
  "sample_inside = add_creature 1 (Position 10 10 7) sample_world"

lemma sample_run: "house_run False sample_inside"
proof -
  have "house_run False sample_world"
    by (rule house_run.loaded) (auto simp: sample_world_def sample_house_def placed_def known_def)
  then show ?thesis unfolding sample_inside_def
    by (rule house_run.login[where env = sample_env and p = "Position 10 10 7"])
      (simp_all add: sample_env_def sample_world_def sample_house_def house_queryDestination_def isInvited_def getHouseAccessLevel_def)
qed


theorem setOwner_clears_witness:
  "owner (house (setOwner sample_env 0 True None sample_inside)) = 0 \<and>
   1 \<notin> set (on_tile (setOwner sample_env 0 True None sample_inside) (Position 10 10 7))"
proof -
  have ok: "placed sample_inside" using house_run_inv[OF sample_run] by (simp add: house_inv_def)
  have h: "house sample_inside = sample_house" "player_of sample_inside = player_of sample_world"
    by (simp_all add: sample_inside_def add_creature_def sample_world_def)
  have o3: "owner (house sample_inside) \<noteq> 0" "0 \<noteq> owner (house sample_inside)" by (simp_all add: h sample_house_def)
  show ?thesis using setOwner_clears[OF ok o3, of sample_env None] by (auto simp: h sample_house_def sample_world_def)
qed

theorem unpaid_house_lost_witness:
  "owner (house (fold (\<lambda>env. pay_house env RENTPERIOD_WEEKLY) (replicate 8 sample_env) sample_world)) = 0"
  using unpaid_house_lost[of sample_world "replicate 8 sample_env" RENTPERIOD_WEEKLY]
  by (simp add: sample_world_def sample_house_def sample_env_def insolvent_def overdue_def)

end
