(* ===== verification/QuadTree.thy ===== *)
theory QuadTree
  imports Positions
begin

text \<open>
  The quadtree of the map (\<open>QTreeNode\<close>, \<open>QTreeLeafNode\<close> of \<^verbatim>\<open>src/src/map.h\<close> and \<^verbatim>\<open>src/src/map.cpp\<close>): the tree leads from
  the bits 15 to 3 of the coordinates to a leaf, which stands for a block of eight by eight fields. Leaves are objects
  at addresses, because neighbouring leaves point to each other. \<open>None\<close> is the result of a descent that never reaches
  a leaf.
\<close>

datatype QTreeNode = QLeaf nat | QNode "QTreeNode option list"

record QTreeLeafNode =
  leafS :: "nat option"
  leafE :: "nat option"
  creature_list :: "nat list"
  player_list :: "nat list"

definition FLOOR_BITS :: u32 where [simp]: "FLOOR_BITS = 3"
definition FLOOR_SIZE :: u32 where [simp]: "FLOOR_SIZE = 8"
definition FLOOR_MASK :: u32 where [simp]: "FLOOR_MASK = 7"

definition new_leaf :: QTreeLeafNode where
  "new_leaf = \<lparr>leafS = None, leafE = None, creature_list = [], player_list = []\<rparr>"

definition new_node :: QTreeNode where
  "new_node = QNode (replicate 4 None)"

section \<open>Descending\<close>

definition qindex :: "u32 \<Rightarrow> u32 \<Rightarrow> nat" where
  "qindex x y = unat (drop_bit 15 (x AND 0x8000) OR drop_bit 14 (y AND 0x8000))"

definition child_at :: "nat \<Rightarrow> QTreeNode option list \<Rightarrow> QTreeNode option" where
  "child_at i ch = (if i < length ch then ch ! i else None)"

lemma child_smaller [termination_simp]: "child_at i ch = Some t \<Longrightarrow> size t < Suc (size_list (size_option size) ch)"
  using size_list_estimation[of "Some t" ch "size t" "size_option size"]
  by (auto simp: child_at_def split: if_splits dest: nth_mem)

lemma child_node_smaller [termination_simp]:
  "child_at i ch = Some (QNode ch') \<Longrightarrow> size_list (size_option size) ch' < size_list (size_option size) ch"
  using child_smaller[of i ch "QNode ch'"] by simp

fun getLeaf :: "QTreeNode \<Rightarrow> u32 \<Rightarrow> u32 \<Rightarrow> nat option" where
  "getLeaf (QLeaf a) x y = Some a"
| "getLeaf (QNode ch) x y =
     (case child_at (qindex x y) ch of None \<Rightarrow> None | Some t \<Rightarrow> getLeaf t (push_bit 1 x) (push_bit 1 y))"

fun getLeafStatic :: "QTreeNode \<Rightarrow> u32 \<Rightarrow> u32 \<Rightarrow> nat option" where
  "getLeafStatic (QLeaf a) x y = None"
| "getLeafStatic (QNode ch) x y =
     (case child_at (qindex x y) ch of
        None \<Rightarrow> None
      | Some t \<Rightarrow> (case t of QLeaf a \<Rightarrow> Some a | QNode _ \<Rightarrow> getLeafStatic t (push_bit 1 x) (push_bit 1 y)))"

text \<open>
  \<open>createLeaf\<close> returns the address of the leaf, the tree, the next free address and whether the leaf is new.
\<close>

partial_function (option) createLeaf ::
  "nat \<Rightarrow> u32 \<Rightarrow> u32 \<Rightarrow> u32 \<Rightarrow> QTreeNode \<Rightarrow> (nat \<times> QTreeNode \<times> nat \<times> bool) option" where
  "createLeaf n x y level t =
     (case t of
        QLeaf a \<Rightarrow> Some (a, t, n, False)
      | QNode ch \<Rightarrow>
          let i = qindex x y; missing = child_at i ch = None;
              c = (case child_at i ch of Some c \<Rightarrow> c | None \<Rightarrow> if level \<noteq> FLOOR_BITS then new_node else QLeaf n);
              new = missing \<and> level = FLOOR_BITS
          in Option.bind (createLeaf (if new then Suc n else n) (x * 2) (y * 2) (level - 1) c)
               (\<lambda>(a, c', n', new'). Some (a, QNode (ch[i := Some c']), n', new \<or> new')))"

section \<open>Blocks\<close>

definition blk :: "u32 \<Rightarrow> u32" where
  "blk x = take_bit 13 (drop_bit 3 x)"

fun path :: "nat \<Rightarrow> u32 \<Rightarrow> u32 \<Rightarrow> nat list" where
  "path 0 x y = []"
| "path (Suc d) x y = qindex x y # path d (push_bit 1 x) (push_bit 1 y)"

lemma qindex_bits: "qindex x y = of_bool (bit x 15) + 2 * of_bool (bit y 15)"
proof -
  have "(z AND 0x8000 :: u32) = of_bool (bit z 15) * 0x8000" for z
  proof (rule bit_word_eqI)
    fix n
    have b: "bit (0x8000 :: u32) n \<longleftrightarrow> n = 15" using bit_exp_iff[of 15 n, where 'a = "32 word"] by auto
    have "bit (z AND 0x8000) n \<longleftrightarrow> bit z n \<and> n = 15" by (simp only: bit_and_iff b)
    moreover have "bit (of_bool (bit z 15) * 0x8000 :: u32) n \<longleftrightarrow> bit z 15 \<and> n = 15" using b by (cases "bit z 15") auto
    ultimately show "bit (z AND 0x8000) n = bit (of_bool (bit z 15) * 0x8000 :: u32) n" by auto
  qed
  then show ?thesis by (cases "bit x 15"; cases "bit y 15") (simp_all add: qindex_def)
qed

lemma qindex_less: "qindex x y < 4"
  by (auto simp: qindex_bits)

lemma bit_shift: "bit (x * 2 :: u32) n \<longleftrightarrow> n < 32 \<and> 0 < n \<and> bit x (n - 1)"
  using bit_double_iff[of x n] by (auto simp: mult.commute)

lemma path_bits: "d \<le> 16 \<Longrightarrow> path d x y = path d x' y' \<longleftrightarrow>
    (\<forall>k. 16 - d \<le> k \<and> k < 16 \<longrightarrow> bit x k = bit x' k \<and> bit y k = bit y' k)"
proof (induction d arbitrary: x y x' y')
  case (Suc d)
  have top: "qindex x y = qindex x' y' \<longleftrightarrow> bit x 15 = bit x' 15 \<and> bit y 15 = bit y' 15"
    by (auto simp: qindex_bits split: if_splits)
  have "(\<forall>k. 16 - d \<le> k \<and> k < 16 \<longrightarrow> bit (push_bit 1 x) k = bit (push_bit 1 x') k \<and> bit (push_bit 1 y) k = bit (push_bit 1 y') k) \<longleftrightarrow>
    (\<forall>k. 15 - d \<le> k \<and> k < 15 \<longrightarrow> bit x k = bit x' k \<and> bit y k = bit y' k)" (is "?A \<longleftrightarrow> ?B")
  proof
    assume ?A
    show ?B
    proof (intro allI impI)
      fix k assume "15 - d \<le> k \<and> k < 15"
      then have "16 - d \<le> Suc k \<and> Suc k < 16" using Suc.prems by linarith
      then show "bit x k = bit x' k \<and> bit y k = bit y' k" using \<open>?A\<close>[rule_format, of "Suc k"] by (simp add: bit_shift)
    qed
  next
    assume ?B
    show ?A
    proof (intro allI impI)
      fix k assume "16 - d \<le> k \<and> k < 16"
      moreover from this have "15 - d \<le> k - 1 \<and> k - 1 < 15" using Suc.prems by linarith
      ultimately show "bit (push_bit 1 x) k = bit (push_bit 1 x') k \<and> bit (push_bit 1 y) k = bit (push_bit 1 y') k"
        using \<open>?B\<close>[rule_format, of "k - 1"] by (auto simp: bit_shift)
    qed
  qed
  moreover have "(\<forall>k. 16 - Suc d \<le> k \<and> k < 16 \<longrightarrow> P k) \<longleftrightarrow> P 15 \<and> (\<forall>k. 15 - d \<le> k \<and> k < 15 \<longrightarrow> P k)" for P
    using Suc.prems by (auto simp: less_Suc_eq[of _ 15, simplified])
  ultimately show ?case using Suc.IH[of "push_bit 1 x" "push_bit 1 y" "push_bit 1 x'" "push_bit 1 y'"] Suc.prems
    by (simp add: top)
qed auto

lemma all_shift: "(\<forall>n < 13. P (3 + n)) \<longleftrightarrow> (\<forall>k. 3 \<le> k \<and> k < 16 \<longrightarrow> P k)" for P :: "nat \<Rightarrow> bool"
proof -
  have "\<exists>n < 13. k = 3 + n" if "3 \<le> k \<and> k < 16" for k :: nat using that by (intro exI[of _ "k - 3"]) linarith
  then show ?thesis by fastforce
qed

lemma path_blk: "path 13 x y = path 13 x' y' \<longleftrightarrow> blk x = blk x' \<and> blk y = blk y'"
proof -
  have "blk a = blk b \<longleftrightarrow> (\<forall>k. 3 \<le> k \<and> k < 16 \<longrightarrow> bit a k = bit b k)" for a b
  proof -
    have bits: "bit (blk a) n \<longleftrightarrow> n < 13 \<and> bit a (3 + n)" for a n by (simp add: blk_def bit_take_bit_iff bit_drop_bit_eq)
    have "blk a = blk b \<longleftrightarrow> (\<forall>n < 13. bit a (3 + n) = bit b (3 + n))" (is "_ \<longleftrightarrow> ?R")
    proof
      assume "blk a = blk b"
      then show ?R using bits[of a] bits[of b] by metis
    next
      assume ?R
      then show "blk a = blk b" by (intro bit_word_eqI) (auto simp: bits)
    qed
    also have "\<dots> \<longleftrightarrow> (\<forall>k. 3 \<le> k \<and> k < 16 \<longrightarrow> bit a k = bit b k)"
      by (rule all_shift)
    finally show ?thesis .
  qed
  then show ?thesis using path_bits[of 13 x y x' y'] by auto
qed

section \<open>Well-formed trees\<close>

fun qwf :: "nat \<Rightarrow> QTreeNode \<Rightarrow> bool" where
  "qwf 0 t \<longleftrightarrow> (case t of QLeaf _ \<Rightarrow> True | QNode _ \<Rightarrow> False)"
| "qwf (Suc d) t \<longleftrightarrow> (case t of QLeaf _ \<Rightarrow> False | QNode ch \<Rightarrow> length ch = 4 \<and> (\<forall>c. Some c \<in> set ch \<longrightarrow> qwf d c))"

lemma qwf_leaf: "qwf 0 t \<Longrightarrow> (\<And>a. t = QLeaf a \<Longrightarrow> P) \<Longrightarrow> P"
  by (cases t) simp_all

lemma qwf_node:
  assumes "qwf (Suc d) t"
  shows "\<exists>ch. t = QNode ch \<and> length ch = 4 \<and> (\<forall>c x y. ch ! qindex x y = Some c \<longrightarrow> qwf d c)"
proof -
  obtain ch where ch: "t = QNode ch" "length ch = 4" "\<forall>c. Some c \<in> set ch \<longrightarrow> qwf d c"
    using assms by (cases t) simp_all
  then have "ch ! qindex x y = Some c \<Longrightarrow> qwf d c" for c x y using qindex_less[of x y] by (metis nth_mem)
  then show ?thesis using ch by blast
qed

lemma qwf_update: "qwf (Suc d) (QNode ch) \<Longrightarrow> qwf d c \<Longrightarrow> qwf (Suc d) (QNode (ch[i := Some c]))"
  using set_update_subset_insert[of ch i "Some c"] by auto

lemma getLeaf_node:
  "length ch = 4 \<Longrightarrow> getLeaf (QNode ch) x y = Option.bind (ch ! qindex x y) (\<lambda>t. getLeaf t (x * 2) (y * 2))"
  using qindex_less[of x y] by (simp add: child_at_def split: option.splits)

declare qwf.simps [simp del] getLeaf.simps(2) [simp del]

lemma getLeaf_path: "qwf d t \<Longrightarrow> path d x y = path d x' y' \<Longrightarrow> getLeaf t x y = getLeaf t x' y'"
proof (induction d arbitrary: t x y x' y')
  case 0
  then show ?case by (auto elim: qwf_leaf)
next
  case (Suc d)
  obtain ch where ch: "t = QNode ch" "length ch = 4" "\<And>c x y. ch ! qindex x y = Some c \<Longrightarrow> qwf d c"
    using qwf_node[OF Suc.prems(1)] by blast
  show ?case
  proof (cases "ch ! qindex x y")
    case (Some c)
    then show ?thesis using ch(1,2) Suc.prems(2) Suc.IH[OF ch(3)[OF Some], of "x * 2" "y * 2" "x' * 2" "y' * 2"]
      by (simp add: getLeaf_node)
  qed (use ch(1,2) Suc.prems(2) in \<open>simp add: getLeaf_node\<close>)
qed

lemma getLeafStatic_eq: "qwf (Suc d) t \<Longrightarrow> getLeafStatic t x y = getLeaf t x y"
proof (induction d arbitrary: t x y)
  case 0
  obtain ch where ch: "t = QNode ch" "length ch = 4" "\<And>c x y. ch ! qindex x y = Some c \<Longrightarrow> qwf 0 c"
    using qwf_node[OF 0] by blast
  show ?case
  proof (cases "ch ! qindex x y")
    case (Some c)
    obtain a where "c = QLeaf a" using ch(3)[OF Some] by (rule qwf_leaf)
    then show ?thesis using Some ch(1,2) qindex_less[of x y] by (simp add: getLeaf_node child_at_def)
  qed (use ch(1,2) qindex_less[of x y] in \<open>simp add: getLeaf_node child_at_def\<close>)
next
  case (Suc d)
  obtain ch where ch: "t = QNode ch" "length ch = 4" "\<And>c x y. ch ! qindex x y = Some c \<Longrightarrow> qwf (Suc d) c"
    using qwf_node[OF Suc.prems] by blast
  show ?case
  proof (cases "ch ! qindex x y")
    case (Some c)
    then obtain ch' where "c = QNode ch'" using qwf_node[OF ch(3)[OF Some]] by blast
    then show ?thesis using Suc.IH[OF ch(3)[OF Some], of "x * 2" "y * 2"] Some ch(1,2) qindex_less[of x y]
      by (simp add: getLeaf_node child_at_def)
  qed (use ch(1,2) qindex_less[of x y] in \<open>simp add: getLeaf_node child_at_def\<close>)
qed

text \<open>Creating a leaf: it is found afterwards, everything else is found as before.\<close>

definition created :: "nat \<Rightarrow> nat \<Rightarrow> u32 \<Rightarrow> u32 \<Rightarrow> QTreeNode \<Rightarrow> nat \<times> QTreeNode \<times> nat \<times> bool \<Rightarrow> bool" where
  "created d n x y t r \<longleftrightarrow> (case r of (a, t', n', new) \<Rightarrow> qwf d t' \<and> getLeaf t' x y = Some a \<and>
     (\<forall>x' y'. path d x' y' \<noteq> path d x y \<longrightarrow> getLeaf t' x' y' = getLeaf t x' y') \<and>
     new = (getLeaf t x y = None) \<and> (if new then a = n \<and> n' = Suc n else t' = t \<and> n' = n))"

lemma createLeaf_leaf [simp]: "createLeaf n x y level (QLeaf a) = Some (a, QLeaf a, n, False)"
  by (subst createLeaf.simps) simp

lemma createLeaf_node:
  assumes "length ch = 4"
  shows "createLeaf n x y level (QNode ch) =
    (case ch ! qindex x y of
       None \<Rightarrow> Option.bind (createLeaf (if level = 3 then Suc n else n) (x * 2) (y * 2) (level - 1)
           (if level = 3 then QLeaf n else new_node))
         (\<lambda>(a, c, n', new). Some (a, QNode (ch[qindex x y := Some c]), n', level = 3 \<or> new))
     | Some c \<Rightarrow> Option.bind (createLeaf n (x * 2) (y * 2) (level - 1) c)
         (\<lambda>(a, c, n', new). Some (a, QNode (ch[qindex x y := Some c]), n', new)))"
  using assms qindex_less[of x y] by (subst createLeaf.simps) (simp add: Let_def child_at_def split: option.splits)

lemma created_node:
  assumes t: "qwf (Suc d) (QNode ch)" and l: "length ch = 4" and c: "created d n (x * 2) (y * 2) c (a, c', n', new)"
    and "ch ! qindex x y = Some c \<or> ch ! qindex x y = None \<and> (\<forall>x y. getLeaf c x y = None)"
  shows "created (Suc d) n x y (QNode ch) (a, QNode (ch[qindex x y := Some c']), n', new)"
proof -
  note i = qindex_less[of x y]
  let ?t' = "QNode (ch[qindex x y := Some c'])"
  have at: "getLeaf (QNode ch) x y = getLeaf c (x * 2) (y * 2)" using assms(4) l by (auto simp: getLeaf_node)
  have t': "getLeaf ?t' x' y' = (if qindex x' y' = qindex x y then getLeaf c' (x' * 2) (y' * 2) else getLeaf (QNode ch) x' y')" for x' y'
    using l i by (auto simp: getLeaf_node nth_list_update)
  have "getLeaf ?t' x' y' = getLeaf (QNode ch) x' y'" if p: "path (Suc d) x' y' \<noteq> path (Suc d) x y" for x' y'
  proof (cases "qindex x' y' = qindex x y")
    case True
    then have "getLeaf c' (x' * 2) (y' * 2) = getLeaf c (x' * 2) (y' * 2)" using p c by (simp add: created_def)
    moreover have "getLeaf (QNode ch) x' y' = getLeaf c (x' * 2) (y' * 2)" using True assms(4) l by (auto simp: getLeaf_node)
    ultimately show ?thesis using True by (simp add: t')
  qed (simp add: t')
  moreover have "ch[qindex x y := Some c'] = ch" if "\<not> new"
    using that c at assms(4) by (auto simp: created_def split: if_splits) (metis list_update_id)
  ultimately show ?thesis
    using c t t'[of x y] qwf_update[OF t, of c' "qindex x y"] by (auto simp: created_def at split: if_splits)
qed

lemma new_node_ok: "qwf (Suc d) new_node" "getLeaf new_node x y = None"
  using qindex_less[of x y] by (simp_all add: new_node_def qwf.simps getLeaf_node)

lemma createLeaf_ok:
  assumes "qwf (Suc d) t" and "d < 13"
  shows "\<exists>r. createLeaf n x y (of_nat d + 3) t = Some r \<and> created (Suc d) n x y t r"
  using assms
proof (induction d arbitrary: t n x y)
  case 0
  obtain ch where ch: "t = QNode ch" "length ch = 4" "\<And>c x y. ch ! qindex x y = Some c \<Longrightarrow> qwf 0 c"
    using qwf_node[OF 0(1)] by blast
  show ?case
  proof (cases "ch ! qindex x y")
    case None
    have "qwf (Suc 0) (QNode (ch[qindex x y := Some (QLeaf n)]))"
      using qwf_update[OF 0(1)[unfolded ch(1)], of "QLeaf n"] by (simp add: qwf.simps(1))
    then show ?thesis
      using None ch(1,2) qindex_less[of x y]
      by (auto simp: createLeaf_node created_def getLeaf_node nth_list_update)
  next
    case (Some c)
    obtain a where a: "c = QLeaf a" using ch(3)[OF Some] by (rule qwf_leaf)
    have "ch[qindex x y := Some (QLeaf a)] = ch" using Some a by (metis list_update_id)
    then show ?thesis using Some a ch(1,2) 0(1) by (simp add: createLeaf_node created_def getLeaf_node)
  qed
next
  case (Suc d)
  obtain ch where ch: "t = QNode ch" "length ch = 4" "\<And>c x y. ch ! qindex x y = Some c \<Longrightarrow> qwf (Suc d) c"
    using qwf_node[OF Suc.prems(1)] by blast
  have t: "qwf (Suc (Suc d)) (QNode ch)" using Suc.prems(1) ch(1) by simp
  have lev: "(of_nat (Suc d) + 3 :: u32) - 1 = of_nat d + 3" by simp
  have "unat (of_nat (Suc d) :: u32) = Suc d" using Suc.prems(2) by (intro unat_of_nat_lt) simp
  then have ne: "(of_nat (Suc d) + 3 :: u32) \<noteq> 3" by (metis add_cancel_left_left add.commute nat.distinct(1) unsigned_0)
  define c where "c = (case ch ! qindex x y of Some c \<Rightarrow> c | None \<Rightarrow> new_node)"
  have c: "qwf (Suc d) c" "ch ! qindex x y = Some c \<or> ch ! qindex x y = None \<and> (\<forall>x y. getLeaf c x y = None)"
    using ch(3) new_node_ok by (auto simp: c_def split: option.splits)
  obtain a c' n' new where r: "createLeaf n (x * 2) (y * 2) (of_nat d + 3) c = Some (a, c', n', new)"
    "created (Suc d) n (x * 2) (y * 2) c (a, c', n', new)"
    using Suc.IH[OF c(1), of n "x * 2" "y * 2"] Suc.prems(2) by auto
  have "createLeaf n x y (of_nat (Suc d) + 3) t = Some (a, QNode (ch[qindex x y := Some c']), n', new)"
    using r(1) ne unfolding ch(1) createLeaf_node[OF ch(2)] lev by (simp add: c_def split: option.splits)
  then show ?case using created_node[OF t ch(2) r(2) c(2)] ch(1) by blast
qed

section \<open>The grid of leaves\<close>

lemma unat_blk: "unat (blk x) = unat x div 8 mod 8192"
proof -
  have "unat x < 4294967296" using unsigned_less[of x, where 'a = nat] by simp
  then show ?thesis by (simp add: blk_def unsigned_take_bit_eq unsigned_drop_bit_eq take_bit_nat_def drop_bit_nat_def)
qed

lemma blk_next: "unat (blk (x + 8)) = (unat (blk x) + 1) mod 8192"
proof -
  have w: "unat (x + 8) = (unat x + 8) mod (8 * 536870912)" by (simp add: unat_word_ariths)
  have "(n + 8) mod (8 * 536870912) div 8 = (n div 8 + 1) mod 536870912" for n :: nat
    unfolding mod_mult2_eq using div_add_self2[of 8 n] by simp
  then have "(n + 8) mod (8 * 536870912) div 8 mod 8192 = (n div 8 + 1) mod 8192" for n :: nat
    by (simp only: mod_mod_cancel dvd_numeral_simp) (simp add: mod_mod_cancel)
  then show ?thesis unfolding unat_blk w by (simp only: mod_add_left_eq)
qed

lemma blk_next_eq: "blk (x + 8) = blk (y + 8) \<longleftrightarrow> blk x = blk y"
proof -
  have l: "unat (blk z) < 8192" for z by (simp add: unat_blk)
  have "(n + 1) mod 8192 = (if n = 8191 then 0 else n + 1)" if "n < 8192" for n :: nat using that by simp
  then show ?thesis using l[of x] l[of y] by (auto simp: word_unat_eq_iff blk_next split: if_splits)
qed

lemma blk_back: "blk (x + 8) = blk y \<longleftrightarrow> blk x = blk (y - 8)"
  using blk_next_eq[of x "y - 8"] by simp

lemma blk_mask: "blk (x AND NOT 7) = blk x"
proof (rule bit_word_eqI)
  fix n
  have m: "(7 :: u32) = mask 3" by (simp add: mask_eq_exp_minus_1)
  show "bit (blk (x AND NOT 7)) n = bit (blk x) n"
    unfolding blk_def m by (auto simp: bit_take_bit_iff bit_drop_bit_eq bit_and_iff bit_not_iff bit_mask_iff)
qed

lemma blk_base [simp]: "blk (x AND - 8) = blk x"
  using blk_mask[of x] by simp

section \<open>The leaves of a map\<close>

record QMap =
  root :: QTreeNode
  leaf_mem :: "nat \<Rightarrow> QTreeLeafNode"
  leaf_count :: nat
  cachedLeaf :: "nat option"
  cachedLeafBaseX :: u32
  cachedLeafBaseY :: u32

definition empty_map :: QMap where
  "empty_map = \<lparr>root = new_node, leaf_mem = (\<lambda>_. new_leaf), leaf_count = 0, cachedLeaf = None,
     cachedLeafBaseX = 0, cachedLeafBaseY = 0\<rparr>"

definition on_leaf :: "(QTreeLeafNode \<Rightarrow> QTreeLeafNode) \<Rightarrow> nat \<Rightarrow> QMap \<Rightarrow> QMap" where
  "on_leaf f a m = m\<lparr>leaf_mem := (leaf_mem m)(a := f (leaf_mem m a))\<rparr>"

definition if_leaf :: "nat option \<Rightarrow> (nat \<Rightarrow> QMap \<Rightarrow> QMap) \<Rightarrow> QMap \<Rightarrow> QMap" where
  "if_leaf l f m = (case l of None \<Rightarrow> m | Some b \<Rightarrow> f b m)"

text \<open>The links of a new leaf to the leaves around it.\<close>

definition link_leaf :: "nat \<Rightarrow> u32 \<Rightarrow> u32 \<Rightarrow> QMap \<Rightarrow> QMap" where
  "link_leaf a x y m =
     (let m1 = if_leaf (getLeaf (root m) x (y - FLOOR_SIZE)) (on_leaf (\<lambda>l. l\<lparr>leafS := Some a\<rparr>)) m;
          m2 = if_leaf (getLeaf (root m) (x - FLOOR_SIZE) y) (on_leaf (\<lambda>l. l\<lparr>leafE := Some a\<rparr>)) m1;
          m3 = if_leaf (getLeaf (root m) x (y + FLOOR_SIZE)) (\<lambda>b. on_leaf (\<lambda>l. l\<lparr>leafS := Some b\<rparr>) a) m2
      in if_leaf (getLeaf (root m) (x + FLOOR_SIZE) y) (\<lambda>b. on_leaf (\<lambda>l. l\<lparr>leafE := Some b\<rparr>) a) m3)"

definition getOrCreateLeaf :: "u16 \<Rightarrow> u16 \<Rightarrow> QMap \<Rightarrow> (nat \<times> QMap) option" where
  "getOrCreateLeaf x y m =
     (let baseX = ucast x AND NOT FLOOR_MASK; baseY = ucast y AND NOT FLOOR_MASK
      in if cachedLeaf m \<noteq> None \<and> baseX = cachedLeafBaseX m \<and> baseY = cachedLeafBaseY m
         then Some (the (cachedLeaf m), m)
         else map_option (\<lambda>(a, t, n, new).
             let m1 = m\<lparr>root := t, leaf_count := n, leaf_mem := if new then (leaf_mem m)(a := new_leaf) else leaf_mem m\<rparr>;
                 m2 = (if new then link_leaf a (ucast x) (ucast y) m1 else m1)
             in (a, m2\<lparr>cachedLeaf := Some a, cachedLeafBaseX := baseX, cachedLeafBaseY := baseY\<rparr>))
           (createLeaf (leaf_count m) (ucast x) (ucast y) 15 (root m)))"

abbreviation at :: "QMap \<Rightarrow> u32 \<Rightarrow> u32 \<Rightarrow> nat option" where
  "at m x y \<equiv> getLeaf (root m) x y"

abbreviation same_blk :: "u32 \<Rightarrow> u32 \<Rightarrow> u32 \<Rightarrow> u32 \<Rightarrow> bool" where
  "same_blk x y x' y' \<equiv> blk x = blk x' \<and> blk y = blk y'"

definition tree_ok :: "QMap \<Rightarrow> bool" where
  "tree_ok m \<longleftrightarrow> qwf 13 (root m) \<and>
     (\<forall>x y a. at m x y = Some a \<longrightarrow> a < leaf_count m \<and>
        leafS (leaf_mem m a) = at m x (y + 8) \<and> leafE (leaf_mem m a) = at m (x + 8) y \<and>
        (\<forall>x' y'. at m x' y' = Some a \<longrightarrow> same_blk x y x' y')) \<and>
     (\<forall>a. cachedLeaf m = Some a \<longrightarrow> at m (cachedLeafBaseX m) (cachedLeafBaseY m) = Some a)"

lemma at_blk: "qwf 13 (root m) \<Longrightarrow> same_blk x y x' y' \<Longrightarrow> at m x y = at m x' y'"
  by (rule getLeaf_path, assumption, rule path_blk[THEN iffD2])

lemma tree_okD:
  assumes "tree_ok m"
  shows "qwf 13 (root m)" "at m x y = Some a \<Longrightarrow> a < leaf_count m"
    "at m x y = Some a \<Longrightarrow> leafS (leaf_mem m a) = at m x (y + 8)" "at m x y = Some a \<Longrightarrow> leafE (leaf_mem m a) = at m (x + 8) y"
    "at m x y = Some a \<Longrightarrow> at m x' y' = Some a \<longleftrightarrow> same_blk x y x' y'"
proof -
  show w: "qwf 13 (root m)" using assms unfolding tree_ok_def by (elim conjE)
  have all: "\<forall>x y a. at m x y = Some a \<longrightarrow> a < leaf_count m \<and>
        leafS (leaf_mem m a) = at m x (y + 8) \<and> leafE (leaf_mem m a) = at m (x + 8) y \<and>
        (\<forall>x' y'. at m x' y' = Some a \<longrightarrow> same_blk x y x' y')" using assms unfolding tree_ok_def by (elim conjE)
  then show "at m x y = Some a \<Longrightarrow> a < leaf_count m" "at m x y = Some a \<Longrightarrow> leafS (leaf_mem m a) = at m x (y + 8)"
    "at m x y = Some a \<Longrightarrow> leafE (leaf_mem m a) = at m (x + 8) y" by blast+
  assume a: "at m x y = Some a"
  have inj: "\<forall>x' y'. at m x' y' = Some a \<longrightarrow> same_blk x y x' y'" using all[rule_format, OF a] by blast
  show "at m x' y' = Some a \<longleftrightarrow> same_blk x y x' y'"
  proof
    assume "same_blk x y x' y'"
    then show "at m x' y' = Some a" using at_blk[OF w, of x x' y y'] a by simp
  qed (use inj in blast)
qed

lemma tree_okI:
  assumes "qwf 13 (root m)"
    "\<And>x y a. at m x y = Some a \<Longrightarrow> leafS (leaf_mem m a) = at m x (y + 8) \<and> leafE (leaf_mem m a) = at m (x + 8) y"
    "\<And>x y a. at m x y = Some a \<Longrightarrow> a < leaf_count m \<and> (\<forall>x' y'. at m x' y' = Some a \<longrightarrow> same_blk x y x' y')"
    "\<And>a. cachedLeaf m = Some a \<Longrightarrow> at m (cachedLeafBaseX m) (cachedLeafBaseY m) = Some a"
  shows "tree_ok m"
  unfolding tree_ok_def using assms by blast

lemma cache_tree_ok:
  assumes ok: "tree_ok m" and a: "at m X Y = Some a"
  shows "tree_ok (m\<lparr>cachedLeaf := Some a, cachedLeafBaseX := X AND NOT 7, cachedLeafBaseY := Y AND NOT 7\<rparr>)"
proof -
  have "at m (X AND NOT 7) (Y AND NOT 7) = Some a" unfolding tree_okD(5)[OF ok a] by (simp add: blk_mask)
  then show ?thesis by (intro tree_okI) (auto simp: tree_okD(1,3,4)[OF ok] tree_okD(5)[OF ok] dest: tree_okD(2)[OF ok])
qed

lemma empty_map_ok: "tree_ok empty_map"
  using new_node_ok(1)[of 12] by (simp add: tree_ok_def empty_map_def new_node_ok(2))

lemma on_leaf_simps [simp]:
  "root (on_leaf f a m) = root m" "leaf_count (on_leaf f a m) = leaf_count m" "cachedLeaf (on_leaf f a m) = cachedLeaf m"
  "leaf_mem (on_leaf f a m) b = (if b = a then f (leaf_mem m a) else leaf_mem m b)"
  by (simp_all add: on_leaf_def)

lemma link_leaf_simps:
  "root (link_leaf a x y m) = root m" "leaf_count (link_leaf a x y m) = leaf_count m"
  "creature_list (leaf_mem (link_leaf a x y m) b) = creature_list (leaf_mem m b)"
  "player_list (leaf_mem (link_leaf a x y m) b) = player_list (leaf_mem m b)"
  by (auto simp: link_leaf_def if_leaf_def Let_def split: option.splits)

lemma link_leaf_S:
  assumes "at m x (y - 8) \<noteq> Some a"
  shows "leafS (leaf_mem (link_leaf a x y m) b) =
    (if b = a then (case at m x (y + 8) of None \<Rightarrow> leafS (leaf_mem m a) | Some c \<Rightarrow> Some c)
     else if at m x (y - 8) = Some b then Some a else leafS (leaf_mem m b))"
  using assms by (auto simp: link_leaf_def if_leaf_def Let_def split: option.splits)

lemma link_leaf_E:
  assumes "at m (x - 8) y \<noteq> Some a"
  shows "leafE (leaf_mem (link_leaf a x y m) b) =
    (if b = a then (case at m (x + 8) y of None \<Rightarrow> leafE (leaf_mem m a) | Some c \<Rightarrow> Some c)
     else if at m (x - 8) y = Some b then Some a else leafE (leaf_mem m b))"
  using assms by (auto simp: link_leaf_def if_leaf_def Let_def split: option.splits)

lemma cached_ok:
  assumes "tree_ok m" and "cachedLeaf m \<noteq> None" "X AND NOT 7 = cachedLeafBaseX m" "Y AND NOT 7 = cachedLeafBaseY m"
  shows "at m X Y = cachedLeaf m"
proof -
  obtain a where "cachedLeaf m = Some a" using assms(2) by blast
  moreover have "at m X Y = at m (X AND NOT 7) (Y AND NOT 7)"
    using assms(1) by (intro at_blk) (simp_all add: tree_ok_def blk_mask)
  ultimately show ?thesis using assms by (simp add: tree_ok_def)
qed

text \<open>A new leaf at a block that had none, with its links.\<close>

lemma link_tree_ok:
  assumes ok: "tree_ok m" and w: "qwf 13 t" and new: "getLeaf t X Y = Some (leaf_count m)" "at m X Y = None"
    and old: "\<And>x y. \<not> same_blk x y X Y \<Longrightarrow> getLeaf t x y = at m x y"
  defines "m1 \<equiv> m\<lparr>root := t, leaf_count := Suc (leaf_count m), leaf_mem := (leaf_mem m)(leaf_count m := new_leaf)\<rparr>"
  defines "m2 \<equiv> link_leaf (leaf_count m) X Y m1"
  shows "tree_ok (m2\<lparr>cachedLeaf := Some (leaf_count m), cachedLeafBaseX := X AND NOT 7, cachedLeafBaseY := Y AND NOT 7\<rparr>)"
proof -
  let ?a = "leaf_count m"
  have r: "at m1 x y = getLeaf t x y" "at m2 x y = getLeaf t x y" for x y by (simp_all add: m1_def m2_def link_leaf_simps)
  have here: "getLeaf t x y = Some ?a" if "same_blk x y X Y" for x y
    using getLeaf_path[OF w path_blk[THEN iffD2], of x X y Y] that new(1) by simp
  have lt: "a < ?a" if "at m x y = Some a" for x y a using ok that by (simp add: tree_ok_def)
  have iff: "getLeaf t x y = Some ?a \<longleftrightarrow> same_blk x y X Y" for x y using here old lt by (metis less_irrefl)
  have far: "\<not> same_blk X (Y - 8) X Y" "\<not> same_blk (X - 8) Y X Y"
  proof -
    have "blk (z - 8) \<noteq> blk z" for z
    proof -
      have "unat (blk z) = (unat (blk (z - 8)) + 1) mod 8192" using blk_next[of "z - 8"] by simp
      moreover have "(n + 1) mod 8192 \<noteq> n" if "n < 8192" for n :: nat using that by (cases "n = 8191") simp_all
      ultimately show ?thesis by (metis unat_blk mod_less_divisor zero_less_numeral)
    qed
    then show "\<not> same_blk X (Y - 8) X Y" "\<not> same_blk (X - 8) Y X Y" by auto
  qed
  have far1: "at m1 X (Y - 8) \<noteq> Some ?a" "at m1 (X - 8) Y \<noteq> Some ?a" using far iff r(1) by auto
  note S = link_leaf_S[OF far1(1), folded m2_def] and E = link_leaf_E[OF far1(2), folded m2_def]
  have mem1: "leafS (leaf_mem m1 b) = (if b = ?a then None else leafS (leaf_mem m b))"
    "leafE (leaf_mem m1 b) = (if b = ?a then None else leafE (leaf_mem m b))" for b by (simp_all add: m1_def new_leaf_def)
  have links: "leafS (leaf_mem m2 b) = getLeaf t x (y + 8) \<and> leafE (leaf_mem m2 b) = getLeaf t (x + 8) y"
    if b: "getLeaf t x y = Some b" for x y b
  proof (cases "b = ?a")
    case True
    then have same: "same_blk x y X Y" using b iff by simp
    have "getLeaf t x (y + 8) = getLeaf t X (Y + 8)" "getLeaf t (x + 8) y = getLeaf t (X + 8) Y"
      using same blk_next_eq by (intro getLeaf_path[OF w path_blk[THEN iffD2]]; simp)+
    then show ?thesis using True by (simp add: S E mem1 r(1) split: option.splits)
  next
    case False
    then have nb: "\<not> same_blk x y X Y" using b iff[of x y] by auto
    then have m: "at m x y = Some b" using b old by simp
    have oldS: "leafS (leaf_mem m b) = at m x (y + 8)" "leafE (leaf_mem m b) = at m (x + 8) y" using ok m by (simp_all add: tree_ok_def)
    have nS: "at m1 X (Y - 8) = Some b \<longleftrightarrow> same_blk x (y + 8) X Y" and nE: "at m1 (X - 8) Y = Some b \<longleftrightarrow> same_blk (x + 8) y X Y"
    proof -
      have "getLeaf t x' y' = Some b \<longleftrightarrow> same_blk x y x' y'" if "\<not> same_blk x' y' X Y" for x' y'
        using tree_okD(5)[OF ok m] old[OF that] by simp
      then show "at m1 X (Y - 8) = Some b \<longleftrightarrow> same_blk x (y + 8) X Y" "at m1 (X - 8) Y = Some b \<longleftrightarrow> same_blk (x + 8) y X Y"
        using far r(1) blk_back by auto
    qed
    have "leafS (leaf_mem m2 b) = getLeaf t x (y + 8)"
      using nS oldS(1) old[of x "y + 8"] here[of x "y + 8"] False by (auto simp: S mem1)
    moreover have "leafE (leaf_mem m2 b) = getLeaf t (x + 8) y"
      using nE oldS(2) old[of "x + 8" y] here[of "x + 8" y] False by (auto simp: E mem1)
    ultimately show ?thesis by blast
  qed
  have inj: "b < Suc ?a \<and> (\<forall>x' y'. getLeaf t x' y' = Some b \<longrightarrow> same_blk x y x' y')" if b: "getLeaf t x y = Some b" for x y b
  proof (cases "b = ?a")
    case True
    then show ?thesis using b iff by auto
  next
    case False
    then have "at m x' y' = Some b" if "getLeaf t x' y' = Some b" for x' y' using that iff old by (metis option.inject)
    then show ?thesis using tree_okD(2,5)[OF ok] b by (metis less_SucI)
  qed
  let ?m = "m2\<lparr>cachedLeaf := Some ?a, cachedLeafBaseX := X AND NOT 7, cachedLeafBaseY := Y AND NOT 7\<rparr>"
  have sel: "root ?m = t" "leaf_mem ?m = leaf_mem m2" "leaf_count ?m = Suc ?a" "cachedLeaf ?m = Some ?a"
    "cachedLeafBaseX ?m = X AND NOT 7" "cachedLeafBaseY ?m = Y AND NOT 7"
    by (simp_all add: m2_def m1_def link_leaf_simps)
  have cached: "getLeaf t (X AND NOT 7) (Y AND NOT 7) = Some ?a" by (rule here) (simp add: blk_mask)
  show "tree_ok ?m"
  proof (rule tree_okI, unfold sel)
    show "qwf 13 t" by (rule w)
    show "leafS (leaf_mem m2 b) = getLeaf t x (y + 8) \<and> leafE (leaf_mem m2 b) = getLeaf t (x + 8) y"
      if "getLeaf t x y = Some b" for x y b using that by (rule links)
    show "b < Suc ?a \<and> (\<forall>x' y'. getLeaf t x' y' = Some b \<longrightarrow> same_blk x y x' y')" if "getLeaf t x y = Some b" for x y b
      using that by (rule inj)
    show "getLeaf t (X AND NOT 7) (Y AND NOT 7) = Some b" if "Some ?a = Some b" for b using that cached by simp
  qed
qed

lemma getOrCreateLeaf_ok:
  assumes ok: "tree_ok m"
  shows "\<exists>a m'. getOrCreateLeaf x y m = Some (a, m') \<and> tree_ok m' \<and> at m' (ucast x) (ucast y) = Some a \<and>
    (\<forall>x' y'. at m' x' y' = (if same_blk x' y' (ucast x) (ucast y) then Some a else at m x' y')) \<and>
    (\<forall>b. b \<noteq> a \<or> at m (ucast x) (ucast y) \<noteq> None \<longrightarrow>
       creature_list (leaf_mem m' b) = creature_list (leaf_mem m b) \<and> player_list (leaf_mem m' b) = player_list (leaf_mem m b)) \<and>
    (case at m (ucast x) (ucast y) of Some b \<Rightarrow> a = b
     | None \<Rightarrow> (\<forall>x' y'. at m x' y' \<noteq> Some a) \<and> creature_list (leaf_mem m' a) = [] \<and> player_list (leaf_mem m' a) = [])"
proof -
  let ?X = "ucast x :: u32" and ?Y = "ucast y :: u32"
  have w: "qwf (Suc 12) (root m)" using ok by (simp add: tree_ok_def)
  have all: "at k x' y' = Some a" if "qwf 13 (root k)" "at k ?X ?Y = Some a" "same_blk x' y' ?X ?Y" for k x' y' a
    using at_blk[OF that(1,3)] that(2) by simp
  show ?thesis
  proof (cases "cachedLeaf m \<noteq> None \<and> ?X AND NOT 7 = cachedLeafBaseX m \<and> ?Y AND NOT 7 = cachedLeafBaseY m")
    case True
    then have "at m ?X ?Y = cachedLeaf m" using cached_ok[OF ok] by blast
    moreover obtain a where "cachedLeaf m = Some a" using True by blast
    ultimately have "getOrCreateLeaf x y m = Some (a, m)" "at m ?X ?Y = Some a" using True by (simp_all add: getOrCreateLeaf_def)
    moreover have "at m x' y' = (if same_blk x' y' ?X ?Y then Some a else at m x' y')" for x' y'
      using all[of m a x' y'] tree_okD(1)[OF ok] \<open>at m ?X ?Y = Some a\<close> by simp
    ultimately show ?thesis using ok by auto
  next
    case False
    obtain a t n new where r: "createLeaf (leaf_count m) ?X ?Y 15 (root m) = Some (a, t, n, new)"
      "created 13 (leaf_count m) ?X ?Y (root m) (a, t, n, new)"
      using createLeaf_ok[OF w, of "leaf_count m" ?X ?Y] by auto
    have t: "qwf 13 t" "getLeaf t ?X ?Y = Some a" "\<And>x' y'. \<not> same_blk x' y' ?X ?Y \<Longrightarrow> getLeaf t x' y' = at m x' y'"
      "new = (at m ?X ?Y = None)" "if new then a = leaf_count m \<and> n = Suc (leaf_count m) else t = root m \<and> n = leaf_count m"
      using r(2) path_blk by (auto simp: created_def)
    have here: "getLeaf t x' y' = Some a" if "same_blk x' y' ?X ?Y" for x' y'
      using all[of "m\<lparr>root := t\<rparr>" a x' y'] t(1,2) that by simp
    show ?thesis
    proof (cases new)
      case True
      have "\<forall>x' y'. at m x' y' \<noteq> Some a" using tree_okD(2)[OF ok] True t(5) by (metis less_irrefl)
      then show ?thesis
        using link_tree_ok[OF ok t(1), of ?X ?Y] False r(1) t True here
        by (auto simp: getOrCreateLeaf_def Let_def link_leaf_simps new_leaf_def)
    next
      case new: False
      then have "m\<lparr>root := t, leaf_count := n\<rparr> = m" "at m ?X ?Y = Some a" using t by simp_all
      then have "tree_ok (m\<lparr>root := t, leaf_count := n, cachedLeaf := Some a, cachedLeafBaseX := ?X AND NOT 7, cachedLeafBaseY := ?Y AND NOT 7\<rparr>)"
        using cache_tree_ok[OF ok, of ?X ?Y a] by (simp only:)
      then show ?thesis using False r(1) t new here by (auto simp: getOrCreateLeaf_def Let_def)
    qed
  qed
qed

end
