(* ===== verification/Spectators.thy ===== *)
theory Spectators
  imports QuadTree
begin

text \<open>
  The creatures on the map and who sees a position (\<open>Map::getSpectators\<close>, \<open>Map::moveCreature\<close> and
  \<open>QTreeLeafNode\<close> of \<^verbatim>\<open>src/src/map.cpp\<close>, \<open>SpectatorVec\<close> of \<^verbatim>\<open>src/src/spectators.h\<close>, the creatures of a tile in
  \<^verbatim>\<open>src/src/tile.cpp\<close>). Each leaf of the quadtree lists the creatures on its block; the search walks along the links
  between the leaves, and its results are cached by position until a creature comes, goes or moves. Creatures are
  known by numbers, in the order of their addresses. Ranges are integers, exact up to
  \<open>2 ^ 30\<close> tiles, where no sum overflows an \<open>int32_t\<close>; the ranges stored with a cached result are never read and left out. \<open>None\<close> is an access through a null pointer. Messages to the clients are left out.
\<close>

record MapCreature =
  crPos :: Position
  isPlayer :: bool
  isMonster :: bool
  isNpc :: bool
  crRemoved :: bool
  crDirection :: Direction

record FloorData =
  hasFloor :: bool
  hasMultiFloor :: bool
  floorVec :: "nat list"
  multiFloorVec :: "nat list"

record SpectatorsCache =
  creatureData :: FloorData
  monsterData :: FloorData
  npcData :: FloorData
  playerData :: FloorData

record World =
  qmap :: QMap
  spectatorsCache :: "Position \<Rightarrow> SpectatorsCache option"
  creatures :: "nat \<Rightarrow> MapCreature"

definition MAP_MAX_LAYERS :: int where [simp]: "MAP_MAX_LAYERS = 16"
definition maxViewportX :: int where [simp]: "maxViewportX = 11"
definition maxViewportY :: int where [simp]: "maxViewportY = 11"

definition no_data :: FloorData where
  "no_data = \<lparr>hasFloor = False, hasMultiFloor = False, floorVec = [], multiFloorVec = []\<rparr>"

definition new_SpectatorsCache :: SpectatorsCache where
  "new_SpectatorsCache = \<lparr>creatureData = no_data, monsterData = no_data, npcData = no_data, playerData = no_data\<rparr>"

section \<open>Vectors of spectators\<close>

text \<open>\<open>std::partition\<close> leaves the order inside each part open; the parts keep their order here.\<close>

definition partitionByType :: "World \<Rightarrow> nat list \<Rightarrow> nat list" where
  "partitionByType w v =
     (let p = (\<lambda>c. isPlayer (creatures w c)); m = (\<lambda>c. isMonster (creatures w c))
      in filter p v @ filter (\<lambda>c. \<not> p c \<and> m c) v @ filter (\<lambda>c. \<not> p c \<and> \<not> m c) v)"

definition addSpectators :: "nat list \<Rightarrow> nat list \<Rightarrow> nat list" where
  "addSpectators spectators v = (if spectators = [] then v else remdups_adj (sort (v @ spectators)))"

fun find_index :: "nat \<Rightarrow> nat list \<Rightarrow> nat option" where
  "find_index x [] = None"
| "find_index x (y # ys) = (if y = x then Some 0 else map_option Suc (find_index x ys))"

definition swap_remove :: "nat \<Rightarrow> nat list \<Rightarrow> nat list option" where
  "swap_remove x xs = map_option (\<lambda>i. butlast (xs[i := last xs])) (find_index x xs)"

section \<open>Creatures in the leaves\<close>

definition leaf_addCreature :: "World \<Rightarrow> nat \<Rightarrow> nat \<Rightarrow> World" where
  "leaf_addCreature w c a = w\<lparr>qmap := on_leaf (\<lambda>l.
     l\<lparr>creature_list := creature_list l @ [c],
       player_list := if isPlayer (creatures w c) then player_list l @ [c] else player_list l\<rparr>) a (qmap w)\<rparr>"

definition leaf_removeCreature :: "World \<Rightarrow> nat \<Rightarrow> nat \<Rightarrow> World option" where
  "leaf_removeCreature w c a =
     (let l = leaf_mem (qmap w) a
      in Option.bind (swap_remove c (creature_list l)) (\<lambda>cs.
        map_option (\<lambda>ps. w\<lparr>qmap := on_leaf (\<lambda>l. l\<lparr>creature_list := cs, player_list := ps\<rparr>) a (qmap w)\<rparr>)
          (if isPlayer (creatures w c) then swap_remove c (player_list l) else Some (player_list l))))"

definition getQTNode :: "World \<Rightarrow> Position \<Rightarrow> nat option" where
  "getQTNode w p = getLeafStatic (root (qmap w)) (ucast (pos_x p)) (ucast (pos_y p))"

definition clearSpectatorCache :: "World \<Rightarrow> World" where
  "clearSpectatorCache w = w\<lparr>spectatorsCache := Map.empty\<rparr>"

definition setPosition :: "Position \<Rightarrow> nat \<Rightarrow> World \<Rightarrow> World" where
  "setPosition p c w = w\<lparr>creatures := (creatures w)(c := (creatures w c)\<lparr>crPos := p\<rparr>)\<rparr>"

text \<open>What \<open>Tile::addThing\<close> and \<open>Tile::internalAddThing\<close> do with a creature.\<close>

definition tile_addCreature :: "Position \<Rightarrow> nat \<Rightarrow> World \<Rightarrow> World" where
  "tile_addCreature p c w = setPosition p c (clearSpectatorCache w)"

definition place_creature :: "World \<Rightarrow> nat \<Rightarrow> Position \<Rightarrow> World option" where
  "place_creature w c dest =
     (let w1 = tile_addCreature dest c w in map_option (leaf_addCreature w1 c) (getQTNode w1 dest))"

definition tile_removeCreature :: "World \<Rightarrow> nat \<Rightarrow> World option" where
  "tile_removeCreature w c =
     Option.bind (getQTNode w (crPos (creatures w c))) (\<lambda>a.
       map_option clearSpectatorCache (leaf_removeCreature w c a))"

definition setRemoved :: "nat \<Rightarrow> World \<Rightarrow> World" where
  "setRemoved c w = w\<lparr>creatures := (creatures w)(c := (creatures w c)\<lparr>crRemoved := True\<rparr>)\<rparr>"

section \<open>The search\<close>

function step_list :: "int \<Rightarrow> int \<Rightarrow> int list" where
  "step_list s e = (if s > e then [] else s # step_list (s + 8) e)"
  by pat_completeness auto
termination by (relation "measure (\<lambda>(s, e). nat (e - s + 1))") auto

fun row_leaves :: "(int \<Rightarrow> nat option) \<Rightarrow> (nat \<Rightarrow> nat option) \<Rightarrow> nat option \<Rightarrow> int list \<Rightarrow> nat list" where
  "row_leaves leafAt east l [] = []"
| "row_leaves leafAt east l (nx # nxs) =
     (case l of
        Some a \<Rightarrow> a # row_leaves leafAt east (east a) nxs
      | None \<Rightarrow> row_leaves leafAt east (leafAt (nx + 8)) nxs)"

fun grid_leaves :: "(int \<Rightarrow> int \<Rightarrow> nat option) \<Rightarrow> (nat \<Rightarrow> nat option) \<Rightarrow> (nat \<Rightarrow> nat option) \<Rightarrow> int \<Rightarrow> int list \<Rightarrow> nat option \<Rightarrow>
    int list \<Rightarrow> nat list" where
  "grid_leaves leafAt east south startx1 nxs l [] = []"
| "grid_leaves leafAt east south startx1 nxs l (ny # nys) =
     row_leaves (\<lambda>nx. leafAt nx ny) east l nxs @
     grid_leaves leafAt east south startx1 nxs (case l of Some a \<Rightarrow> south a | None \<Rightarrow> leafAt startx1 (ny + 8)) nys"

definition clamp16 :: "int \<Rightarrow> int" where
  "clamp16 v = min 0xFFFF (max 0 v)"

definition wanted :: "World \<Rightarrow> bool \<Rightarrow> bool \<Rightarrow> nat \<Rightarrow> bool" where
  "wanted w onlyMonsters onlyNpcs c \<longleftrightarrow> \<not> crRemoved (creatures w c) \<and>
     (onlyMonsters \<longrightarrow> isMonster (creatures w c)) \<and> (onlyNpcs \<longrightarrow> isNpc (creatures w c))"

record Range =
  minRangeX :: int
  maxRangeX :: int
  minRangeY :: int
  maxRangeY :: int
  minRangeZ :: int
  maxRangeZ :: int

definition in_view :: "Position \<Rightarrow> Range \<Rightarrow> Position \<Rightarrow> bool" where
  "in_view centerPos r cpos \<longleftrightarrow>
     (let min_x = uint (pos_x centerPos) + minRangeX r; max_x = uint (pos_x centerPos) + maxRangeX r;
          min_y = uint (pos_y centerPos) + minRangeY r; max_y = uint (pos_y centerPos) + maxRangeY r;
          offsetZ = getOffsetZ centerPos cpos
      in \<not> (minRangeZ r > uint (pos_z cpos) \<or> maxRangeZ r < uint (pos_z cpos)) \<and>
         \<not> (min_y + offsetZ > uint (pos_y cpos) \<or> max_y + offsetZ < uint (pos_y cpos) \<or>
            min_x + offsetZ > uint (pos_x cpos) \<or> max_x + offsetZ < uint (pos_x cpos)))"

definition leaf_spectators :: "World \<Rightarrow> Position \<Rightarrow> Range \<Rightarrow> bool \<Rightarrow> bool \<Rightarrow> bool \<Rightarrow> nat \<Rightarrow> nat list" where
  "leaf_spectators w centerPos r onlyPlayers onlyMonsters onlyNpcs a =
     filter (\<lambda>c. wanted w onlyMonsters onlyNpcs c \<and> in_view centerPos r (crPos (creatures w c)))
       (let l = leaf_mem (qmap w) a in if onlyPlayers then player_list l else creature_list l)"

definition getSpectatorsInternal ::
  "World \<Rightarrow> nat list \<Rightarrow> Position \<Rightarrow> Range \<Rightarrow> bool \<Rightarrow> bool \<Rightarrow> bool \<Rightarrow> nat list" where
  "getSpectatorsInternal w spectators centerPos r onlyPlayers onlyMonsters onlyNpcs =
     (let min_y = uint (pos_y centerPos) + minRangeY r; min_x = uint (pos_x centerPos) + minRangeX r;
          max_y = uint (pos_y centerPos) + maxRangeY r; max_x = uint (pos_x centerPos) + maxRangeX r;
          minoffset = uint (pos_z centerPos) - maxRangeZ r;
          x1 = clamp16 (min_x + minoffset); y1 = clamp16 (min_y + minoffset);
          maxoffset = uint (pos_z centerPos) - minRangeZ r;
          x2 = clamp16 (max_x + maxoffset); y2 = clamp16 (max_y + maxoffset);
          startx1 = x1 - x1 mod 8; starty1 = y1 - y1 mod 8; endx2 = x2 - x2 mod 8; endy2 = y2 - y2 mod 8;
          leafAt = (\<lambda>nx ny. getLeafStatic (root (qmap w)) (word_of_int nx) (word_of_int ny));
          mem = leaf_mem (qmap w)
      in spectators @ concat (map (leaf_spectators w centerPos r onlyPlayers onlyMonsters onlyNpcs)
           (grid_leaves leafAt (\<lambda>a. leafE (mem a)) (\<lambda>a. leafS (mem a)) startx1 (step_list startx1 endx2)
              (leafAt startx1 starty1) (step_list starty1 endy2))))"

definition floor_data :: "bool \<Rightarrow> bool \<Rightarrow> bool \<Rightarrow> SpectatorsCache \<Rightarrow> FloorData" where
  "floor_data onlyPlayers onlyMonsters onlyNpcs entry =
     (if onlyPlayers then playerData entry else if onlyMonsters then monsterData entry
      else if onlyNpcs then npcData entry else creatureData entry)"

definition set_floor_data :: "bool \<Rightarrow> bool \<Rightarrow> bool \<Rightarrow> FloorData \<Rightarrow> SpectatorsCache \<Rightarrow> SpectatorsCache" where
  "set_floor_data onlyPlayers onlyMonsters onlyNpcs d entry =
     (if onlyPlayers then entry\<lparr>playerData := d\<rparr> else if onlyMonsters then entry\<lparr>monsterData := d\<rparr>
      else if onlyNpcs then entry\<lparr>npcData := d\<rparr> else entry\<lparr>creatureData := d\<rparr>)"

definition cached_vec :: "bool \<Rightarrow> FloorData \<Rightarrow> nat list option" where
  "cached_vec multifloor d =
     (if multifloor then if hasMultiFloor d then Some (multiFloorVec d) else None
      else if hasFloor d then Some (floorVec d) else None)"

definition store_vec :: "bool \<Rightarrow> nat list \<Rightarrow> FloorData \<Rightarrow> FloorData" where
  "store_vec multifloor v d =
     (if multifloor then d\<lparr>hasMultiFloor := True, multiFloorVec := v\<rparr> else d\<lparr>hasFloor := True, floorVec := v\<rparr>)"

definition z_range :: "bool \<Rightarrow> Position \<Rightarrow> int \<times> int" where
  "z_range multifloor centerPos =
     (let z = uint (pos_z centerPos)
      in if multifloor
         then if z > 7 then (max (z - 2) 0, min (z + 2) (MAP_MAX_LAYERS - 1)) else (max (z - 2) 0, min (z + 2) 7)
         else (z, z))"

definition full_range :: "bool \<Rightarrow> Position \<Rightarrow> int \<Rightarrow> int \<Rightarrow> int \<Rightarrow> int \<Rightarrow> Range" where
  "full_range multifloor centerPos minX maxX minY maxY =
     \<lparr>minRangeX = (if minX = 0 then - maxViewportX else - minX), maxRangeX = (if maxX = 0 then maxViewportX else maxX),
      minRangeY = (if minY = 0 then - maxViewportY else - minY), maxRangeY = (if maxY = 0 then maxViewportY else maxY),
      minRangeZ = fst (z_range multifloor centerPos), maxRangeZ = snd (z_range multifloor centerPos)\<rparr>"

definition default_range :: "Range \<Rightarrow> bool" where
  "default_range r \<longleftrightarrow> minRangeX r = - maxViewportX \<and> maxRangeX r = maxViewportX \<and>
     minRangeY r = - maxViewportY \<and> maxRangeY r = maxViewportY"

definition getSpectators ::
  "World \<Rightarrow> nat list \<Rightarrow> Position \<Rightarrow> bool \<Rightarrow> bool \<Rightarrow> int \<Rightarrow> int \<Rightarrow> int \<Rightarrow> int \<Rightarrow> bool \<Rightarrow> bool \<Rightarrow> nat list \<times> World" where
  "getSpectators w spectators centerPos multifloor onlyPlayers minX maxX minY maxY onlyMonsters onlyNpcs =
     (if uint (pos_z centerPos) \<ge> MAP_MAX_LAYERS then (spectators, w)
      else
        let r = full_range multifloor centerPos minX maxX minY maxY; cacheResult = default_range r;
            cacheOpt = (if cacheResult
              then Option.bind (spectatorsCache w centerPos) (\<lambda>entry.
                cached_vec multifloor (floor_data onlyPlayers onlyMonsters onlyNpcs entry)) else None)
        in case cacheOpt of
             Some cached \<Rightarrow>
               (if spectators \<noteq> [] then partitionByType w (addSpectators cached spectators) else cached, w)
           | None \<Rightarrow>
               let v = partitionByType w (getSpectatorsInternal w spectators centerPos r onlyPlayers onlyMonsters onlyNpcs);
                   entry = (case spectatorsCache w centerPos of Some entry \<Rightarrow> entry | None \<Rightarrow> new_SpectatorsCache);
                   d = store_vec multifloor v (floor_data onlyPlayers onlyMonsters onlyNpcs entry)
               in (v, if cacheResult
                      then w\<lparr>spectatorsCache := (spectatorsCache w)(centerPos \<mapsto> set_floor_data onlyPlayers onlyMonsters onlyNpcs d entry)\<rparr>
                      else w))"

section \<open>Moving\<close>

definition switch_leaf :: "World \<Rightarrow> nat \<Rightarrow> Position \<Rightarrow> Position \<Rightarrow> World option" where
  "switch_leaf w c oldPos newPos =
     (let leaf = getQTNode w oldPos; new_leaf = getQTNode w newPos
      in if leaf \<noteq> new_leaf
         then Option.bind leaf (\<lambda>a. Option.bind new_leaf (\<lambda>b.
                map_option (\<lambda>w. leaf_addCreature w c b) (leaf_removeCreature w c a)))
         else Some w)"

definition step_facing :: "Position \<Rightarrow> Position \<Rightarrow> Direction \<Rightarrow> Direction" where
  "step_facing oldPos newPos d =
     (let d1 = (if pos_y oldPos > pos_y newPos then DIRECTION_NORTH else if pos_y oldPos < pos_y newPos then DIRECTION_SOUTH else d)
      in if pos_x oldPos < pos_x newPos then DIRECTION_EAST else if pos_x oldPos > pos_x newPos then DIRECTION_WEST else d1)"

text \<open>\<open>ground\<close> says whether the new tile has a ground; the creature stands on its tile.\<close>

definition moveCreature :: "World \<Rightarrow> nat \<Rightarrow> Position \<Rightarrow> bool \<Rightarrow> bool \<Rightarrow> World option" where
  "moveCreature w c newPos ground forceTeleport =
     (let oldPos = crPos (creatures w c);
          teleport = forceTeleport \<or> \<not> ground \<or> \<not> isInRange3 oldPos newPos 1 1 0;
          w1 = snd (getSpectators w [] oldPos True False 0 0 0 0 False False);
          w2 = snd (getSpectators w1 [] newPos True False 0 0 0 0 False False);
          w3 = clearSpectatorCache w2
      in map_option (\<lambda>w4.
           let w5 = tile_addCreature newPos c w4
           in if teleport then w5
              else w5\<lparr>creatures := (creatures w5)(c := (creatures w5 c)\<lparr>crDirection := step_facing oldPos newPos (crDirection (creatures w5 c))\<rparr>)\<rparr>)
         (switch_leaf w3 c oldPos newPos))"

end
