(* ===== verification/SpectatorRuns.thy ===== *)
theory SpectatorRuns
  imports Spectators
begin

text \<open>
  The search for spectators finds exactly the creatures in range, whether they come from the cache or not, however
  creatures were placed, moved and removed before.
\<close>

section \<open>Walking along the links\<close>

text \<open>What the search relies on: a leaf points to the leaf of the next block.\<close>

locale leaf_grid =
  fixes ok :: "'m \<Rightarrow> bool" and leaf_at :: "'m \<Rightarrow> u32 \<Rightarrow> u32 \<Rightarrow> nat option" and east south :: "'m \<Rightarrow> nat \<Rightarrow> nat option"
  assumes east: "ok m \<Longrightarrow> leaf_at m x y = Some a \<Longrightarrow> east m a = leaf_at m (x + 8) y"
    and south: "ok m \<Longrightarrow> leaf_at m x y = Some a \<Longrightarrow> south m a = leaf_at m x (y + 8)"
begin

definition cell :: "'m \<Rightarrow> int \<Rightarrow> int \<Rightarrow> nat option" where
  "cell m nx ny = leaf_at m (word_of_int nx) (word_of_int ny)"

lemma next_cell:
  assumes "ok m"
  shows "cell m nx ny = Some a \<Longrightarrow> east m a = cell m (nx + 8) ny" "cell m nx ny = Some a \<Longrightarrow> south m a = cell m nx (ny + 8)"
  using east[OF assms] south[OF assms] by (simp_all add: cell_def)

lemma row_walk:
  assumes "ok m"
  shows "row_leaves (\<lambda>nx. cell m nx ny) (east m) (cell m s ny) (step_list s e) =
    List.map_filter (\<lambda>nx. cell m nx ny) (step_list s e)"
proof (induction s e rule: step_list.induct)
  case (1 s e)
  show ?case
  proof (cases "s > e")
    case False
    then have l: "step_list s e = s # step_list (s + 8) e" by simp
    show ?thesis unfolding l
      using 1[OF False] next_cell(1)[OF assms, of s ny] by (simp add: map_filter_simps del: step_list.simps split: option.splits)
  qed (simp add: map_filter_simps)
qed

lemma grid_walk:
  assumes "ok m"
  shows "grid_leaves (cell m) (east m) (south m) xs (step_list xs xe) (cell m xs ys) (step_list ys ye) =
    List.map_filter (\<lambda>(ny, nx). cell m nx ny) (List.product (step_list ys ye) (step_list xs xe))"
proof (induction ys ye rule: step_list.induct)
  case (1 ys ye)
  show ?case
  proof (cases "ys > ye")
    case False
    then have l: "step_list ys ye = ys # step_list (ys + 8) ye" by simp
    have "List.map_filter (\<lambda>(ny, nx). cell m nx ny) (map (Pair ys) nxs) = List.map_filter (\<lambda>nx. cell m nx ys) nxs" for nxs
      by (induction nxs) (simp_all add: map_filter_simps split: option.splits)
    moreover have "List.map_filter f (us @ vs) = List.map_filter f us @ List.map_filter f vs" for f :: "int \<times> int \<Rightarrow> nat option" and us vs
      by (simp add: map_filter_def)
    moreover have "(case cell m xs ys of None \<Rightarrow> cell m xs (ys + 8) | Some a \<Rightarrow> south m a) = cell m xs (ys + 8)"
      using next_cell(2)[OF assms, of xs ys] by (cases "cell m xs ys") simp_all
    ultimately show ?thesis
      unfolding l using 1[OF False] by (simp add: row_walk[OF assms] del: step_list.simps)
  qed (simp add: map_filter_simps)
qed

end

interpretation quad: leaf_grid tree_ok "\<lambda>m. getLeaf (root m)" "\<lambda>m a. leafE (leaf_mem m a)" "\<lambda>m a. leafS (leaf_mem m a)"
  by unfold_locales (simp_all add: tree_okD)

declare step_list.simps [simp del]

section \<open>The blocks of a range\<close>

lemma step_list_set: "v \<in> set (step_list s e) \<longleftrightarrow> s \<le> v \<and> v \<le> e \<and> (v - s) mod 8 = 0"
proof (induction s e rule: step_list.induct)
  case (1 s e)
  show ?case
  proof (cases "s > e")
    case False
    then have "v \<in> set (step_list s e) \<longleftrightarrow> v = s \<or> s + 8 \<le> v \<and> v \<le> e \<and> (v - (s + 8)) mod 8 = 0"
      using 1 by (subst step_list.simps) simp
    moreover have "(v - (s + 8)) mod 8 = 0 \<longleftrightarrow> (v - s) mod 8 = 0" by presburger
    moreover have "s \<le> v \<and> (v - s) mod 8 = 0 \<longrightarrow> v = s \<or> s + 8 \<le> v" by presburger
    ultimately show ?thesis using False by auto
  qed (simp add: step_list.simps)
qed

lemma step_list_distinct: "distinct (step_list s e)"
proof (induction s e rule: step_list.induct)
  case (1 s e)
  then show ?case
    by (subst step_list.simps) (auto simp: step_list_set)
qed

lemma blk_int:
  assumes "0 \<le> n" "n < 65536"
  shows "int (unat (blk (word_of_int n))) = n div 8"
proof -
  have "int (unat (word_of_int n :: u32)) = n"
    using assms by (simp add: uint_word_of_int_eq take_bit_int_eq_self)
  then have "int (unat (word_of_int n :: u32) div 8 mod 8192) = n div 8 mod 8192" by (simp only: zdiv_int zmod_int of_nat_numeral)
  moreover have "n div 8 < 8192" "0 \<le> n div 8" using assms by auto
  then have "n div 8 mod 8192 = n div 8" by (rule mod_pos_pos_trivial[rotated])
  ultimately show ?thesis unfolding unat_blk by (rule trans)
qed

lemma blk_coord: "blk (ucast (c :: u16)) = blk (word_of_int (uint c - uint c mod 8))"
proof -
  have u: "0 \<le> uint c" "uint c < 65536" using unsigned_less[of c, where 'a = int] by simp_all
  have w: "(ucast c :: u32) = word_of_int (uint c)" by simp
  have "0 \<le> uint c - uint c mod 8" "uint c - uint c mod 8 < 65536"
    using u pos_mod_sign[of 8 "uint c"] pos_imp_zdiv_nonneg_iff[of 8 "uint c"] by (simp_all add: minus_mod_eq_mult_div del: pos_mod_sign)
  then have "int (unat (blk (word_of_int (uint c - uint c mod 8)))) = (uint c - uint c mod 8) div 8" by (rule blk_int)
  also have "\<dots> = uint c div 8" by (simp add: minus_mod_eq_mult_div)
  also have "\<dots> = int (unat (blk (ucast c)))" unfolding w by (rule blk_int[OF u, symmetric])
  finally show ?thesis by (simp only: of_nat_eq_iff word_unat_eq_iff)
qed

lemma cells_apart:
  assumes "tree_ok m" and "quad.cell m nx ny = Some a" "quad.cell m nx' ny' = Some a"
    and "0 \<le> nx" "nx < 65536" "0 \<le> nx'" "nx' < 65536" "0 \<le> ny" "ny < 65536" "0 \<le> ny'" "ny' < 65536"
    and "nx mod 8 = 0" "nx' mod 8 = 0" "ny mod 8 = 0" "ny' mod 8 = 0"
  shows "nx = nx' \<and> ny = ny'"
proof -
  have "blk (word_of_int nx) = blk (word_of_int nx')" "blk (word_of_int ny) = blk (word_of_int ny')"
    using tree_okD(5)[OF assms(1)] assms(2,3) by (auto simp: quad.cell_def)
  then have "nx div 8 = nx' div 8" "ny div 8 = ny' div 8" using assms(4-11) by (metis blk_int)+
  then show ?thesis using assms(12-15) by (metis div_mod_decomp_int mult.commute add.right_neutral)
qed

section \<open>The creatures of the leaves\<close>

abbreviation cx :: "World \<Rightarrow> nat \<Rightarrow> u32" where
  "cx w c \<equiv> ucast (pos_x (crPos (creatures w c)))"

abbreviation cy :: "World \<Rightarrow> nat \<Rightarrow> u32" where
  "cy w c \<equiv> ucast (pos_y (crPos (creatures w c)))"

abbreviation crs :: "World \<Rightarrow> nat \<Rightarrow> nat list" where
  "crs w a \<equiv> creature_list (leaf_mem (qmap w) a)"

abbreviation pls :: "World \<Rightarrow> nat \<Rightarrow> nat list" where
  "pls w a \<equiv> player_list (leaf_mem (qmap w) a)"

definition leaf_ok :: "World \<Rightarrow> u32 \<Rightarrow> u32 \<Rightarrow> nat \<Rightarrow> bool" where
  "leaf_ok w x y a \<longleftrightarrow> distinct (crs w a) \<and> distinct (pls w a) \<and>
     set (pls w a) = {c \<in> set (crs w a). isPlayer (creatures w c)} \<and> (\<forall>c \<in> set (crs w a). same_blk x y (cx w c) (cy w c))"

definition leaves_ok :: "World \<Rightarrow> bool" where
  "leaves_ok w \<longleftrightarrow> tree_ok (qmap w) \<and> (\<forall>x y a. at (qmap w) x y = Some a \<longrightarrow> leaf_ok w x y a)"

definition on_map :: "World \<Rightarrow> nat \<Rightarrow> bool" where
  "on_map w c \<longleftrightarrow> (\<exists>x y a. at (qmap w) x y = Some a \<and> c \<in> set (crs w a))"

text \<open>The creatures a search has to find.\<close>

definition seen :: "World \<Rightarrow> Position \<Rightarrow> Range \<Rightarrow> bool \<Rightarrow> bool \<Rightarrow> bool \<Rightarrow> nat set" where
  "seen w centerPos r onlyPlayers onlyMonsters onlyNpcs =
     {c. on_map w c \<and> (onlyPlayers \<longrightarrow> isPlayer (creatures w c)) \<and> wanted w onlyMonsters onlyNpcs c \<and>
       in_view centerPos r (crPos (creatures w c))}"

lemma on_mapI: "at (qmap w) x y = Some a \<Longrightarrow> c \<in> set (crs w a) \<Longrightarrow> on_map w c"
  by (auto simp: on_map_def)

lemma on_map_at:
  assumes "leaves_ok w" and "at (qmap w) x y = Some a" and "c \<in> set (crs w a)"
  shows "at (qmap w) (cx w c) (cy w c) = Some a"
  using assms tree_okD(5)[of "qmap w" x y a "cx w c" "cy w c"] by (auto simp: leaves_ok_def leaf_ok_def)

lemma on_map_iff:
  assumes "leaves_ok w"
  shows "on_map w c \<longleftrightarrow> (\<exists>a. at (qmap w) (cx w c) (cy w c) = Some a \<and> c \<in> set (crs w a))"
  using on_map_at[OF assms] unfolding on_map_def by blast

lemma distinct_map_filter:
  assumes "distinct ps" and "\<And>p a. p \<in> set ps \<Longrightarrow> g p = Some a \<Longrightarrow> distinct (f a)"
    and "\<And>p q a b. p \<in> set ps \<Longrightarrow> q \<in> set ps \<Longrightarrow> p \<noteq> q \<Longrightarrow> g p = Some a \<Longrightarrow> g q = Some b \<Longrightarrow> set (f a) \<inter> set (f b) = {}"
  shows "distinct (concat (map f (List.map_filter g ps)))"
  using assms
proof (induction ps)
  case (Cons p ps)
  have IH: "distinct (concat (map f (List.map_filter g ps)))"
    using Cons.prems(1) by (intro Cons.IH Cons.prems(2,3)[OF list.set_intros(2)]) simp_all
  have "set (f a) \<inter> set (concat (map f (List.map_filter g ps))) = {}" if "g p = Some a" for a
  proof -
    have "set (f a) \<inter> set (f b) = {}" if "q \<in> set ps" "g q = Some b" for q b
      using Cons.prems(3)[of p q a b] \<open>g p = Some a\<close> that Cons.prems(1) by auto
    then show ?thesis by (fastforce simp: map_filter_def)
  qed
  then show ?case using IH Cons.prems(2)[of p] by (auto simp: map_filter_simps split: option.splits)
qed (simp add: map_filter_simps)

lemma clamp16_range: "0 \<le> clamp16 v" "clamp16 v < 65536"
  by (simp_all add: clamp16_def)

lemma clamp16_between: "lo \<le> uint (c :: u16) \<Longrightarrow> uint c \<le> hi \<Longrightarrow> clamp16 lo \<le> uint c \<and> uint c \<le> clamp16 hi"
  using unsigned_less[of c, where 'a = int] by (auto simp: clamp16_def)

lemma block_between:
  fixes v lo hi :: int
  assumes "lo \<le> v" "v \<le> hi"
  shows "v - v mod 8 \<in> set (step_list (lo - lo mod 8) (hi - hi mod 8))"
proof -
  have "lo div 8 \<le> v div 8" "v div 8 \<le> hi div 8" using assms by (simp_all add: zdiv_mono1)
  moreover have "(8 * a - 8 * b) mod 8 = 0" for a b :: int by presburger
  ultimately show ?thesis unfolding step_list_set minus_mod_eq_mult_div by simp
qed

lemma block_list:
  assumes "v \<in> set (step_list (lo - lo mod 8) (hi - hi mod 8))" and "0 \<le> lo" "hi < 65536"
  shows "0 \<le> v" "v < 65536" "v mod 8 = 0"
proof -
  have v: "8 * (lo div 8) \<le> v" "v \<le> 8 * (hi div 8)" "(v - 8 * (lo div 8)) mod 8 = 0"
    using assms(1) by (simp_all add: step_list_set minus_mod_eq_mult_div)
  have "8 * (hi div 8) \<le> hi" by (metis mult.commute div_mult_mod_eq le_add_same_cancel1 pos_mod_sign zero_less_numeral)
  then show "v < 65536" using v(2) assms(3) by linarith
  have "0 \<le> lo div 8" using assms(2) by (simp add: pos_imp_zdiv_nonneg_iff)
  then show "0 \<le> v" using v(1) by linarith
  show "v mod 8 = 0" using v(3) by (metis mod_diff_right_eq mod_mult_self1_is_0 diff_zero)
qed

lemma in_view_bounds:
  assumes "in_view p r q"
  defines "lo \<equiv> uint (pos_z p) - maxRangeZ r" and "hi \<equiv> uint (pos_z p) - minRangeZ r"
  shows "uint (pos_x p) + minRangeX r + lo \<le> uint (pos_x q)" "uint (pos_x q) \<le> uint (pos_x p) + maxRangeX r + hi"
    "uint (pos_y p) + minRangeY r + lo \<le> uint (pos_y q)" "uint (pos_y q) \<le> uint (pos_y p) + maxRangeY r + hi"
  using assms(1) by (auto simp: in_view_def Let_def getOffsetZ_def lo_def hi_def)

lemma leaf_spectators_mem:
  assumes "leaf_ok w x y a"
  shows "c \<in> set (leaf_spectators w p r P M N a) \<longleftrightarrow> c \<in> set (crs w a) \<and> (P \<longrightarrow> isPlayer (creatures w c)) \<and>
      wanted w M N c \<and> in_view p r (crPos (creatures w c))"
    and "distinct (leaf_spectators w p r P M N a)"
  using assms by (auto simp: leaf_spectators_def leaf_ok_def Let_def)

lemma internal_seen:
  assumes ok: "leaves_ok w"
  shows "\<exists>vs. getSpectatorsInternal w spectators p r P M N = spectators @ vs \<and> distinct vs \<and> set vs = seen w p r P M N"
proof -
  let ?m = "qmap w" and ?f = "leaf_spectators w p r P M N"
  define lo hi where "lo = uint (pos_z p) - maxRangeZ r" and "hi = uint (pos_z p) - minRangeZ r"
  define x1 where "x1 = clamp16 (uint (pos_x p) + minRangeX r + lo)"
  define y1 where "y1 = clamp16 (uint (pos_y p) + minRangeY r + lo)"
  define x2 where "x2 = clamp16 (uint (pos_x p) + maxRangeX r + hi)"
  define y2 where "y2 = clamp16 (uint (pos_y p) + maxRangeY r + hi)"
  define nxs where "nxs = step_list (x1 - x1 mod 8) (x2 - x2 mod 8)"
  define nys where "nys = step_list (y1 - y1 mod 8) (y2 - y2 mod 8)"
  define g where "g = (\<lambda>(ny, nx). quad.cell ?m nx ny)"
  have t: "tree_ok ?m" using ok by (simp add: leaves_ok_def)
  have "qwf (Suc 12) (root ?m)" using tree_okD(1)[OF t] by simp
  then have static: "getLeafStatic (root ?m) (word_of_int nx) (word_of_int ny) = quad.cell ?m nx ny" for nx ny
    unfolding quad.cell_def by (rule getLeafStatic_eq)
  have res: "getSpectatorsInternal w spectators p r P M N = spectators @ concat (map ?f (List.map_filter g (List.product nys nxs)))"
    unfolding getSpectatorsInternal_def Let_def static quad.grid_walk[OF t]
      x1_def[symmetric] y1_def[symmetric] x2_def[symmetric] y2_def[symmetric] lo_def[symmetric] hi_def[symmetric]
      nxs_def[symmetric] nys_def[symmetric] g_def[symmetric] ..
  have leaf: "leaf_ok w (word_of_int nx) (word_of_int ny) a" if "g (ny, nx) = Some a" for nx ny a
    using ok that by (simp add: leaves_ok_def g_def quad.cell_def)
  have xr: "0 \<le> v \<and> v < 65536 \<and> v mod 8 = 0" if "v \<in> set nxs" for v
    using that block_list[of v x1 x2] clamp16_range by (simp add: nxs_def x1_def x2_def)
  have yr: "0 \<le> v \<and> v < 65536 \<and> v mod 8 = 0" if "v \<in> set nys" for v
    using that block_list[of v y1 y2] clamp16_range by (simp add: nys_def y1_def y2_def)
  have "distinct (concat (map ?f (List.map_filter g (List.product nys nxs))))"
  proof (rule distinct_map_filter)
    show "distinct (List.product nys nxs)" by (simp add: distinct_product nxs_def nys_def step_list_distinct)
    show "distinct (?f a)" if "g q = Some a" for q a using that leaf leaf_spectators_mem(2) by (cases q) blast
    show "set (?f a) \<inter> set (?f b) = {}"
      if q: "q \<in> set (List.product nys nxs)" "q' \<in> set (List.product nys nxs)" "q \<noteq> q'" "g q = Some a" "g q' = Some b" for q q' a b
    proof -
      obtain ny nx ny' nx' where e: "q = (ny, nx)" "q' = (ny', nx')" by (cases q, cases q')
      have "a \<noteq> b" using cells_apart[OF t, of nx ny a nx' ny'] q e xr yr by (auto simp: g_def)
      moreover have "at ?m (cx w c) (cy w c) = Some a" if "c \<in> set (?f a)" "g (ny, nx) = Some a" for c a nx ny
        using on_map_at[OF ok, of "word_of_int nx" "word_of_int ny" a c] that leaf_spectators_mem(1)[OF leaf]
        by (simp add: g_def quad.cell_def)
      ultimately show ?thesis using q(4,5) e by (metis disjoint_iff option.inject)
    qed
  qed
  moreover have "set (concat (map ?f (List.map_filter g (List.product nys nxs)))) = seen w p r P M N"
  proof (intro set_eqI iffI)
    fix c assume "c \<in> set (concat (map ?f (List.map_filter g (List.product nys nxs))))"
    then obtain ny nx a where a: "g (ny, nx) = Some a" "c \<in> set (?f a)" by (auto simp: map_filter_def)
    then show "c \<in> seen w p r P M N"
      using leaf_spectators_mem(1)[OF leaf[OF a(1)]] by (auto simp: seen_def on_map_def g_def quad.cell_def)
  next
    fix c assume c: "c \<in> seen w p r P M N"
    let ?q = "crPos (creatures w c)"
    obtain a where a: "at ?m (cx w c) (cy w c) = Some a" "c \<in> set (crs w a)" using c on_map_iff[OF ok] by (auto simp: seen_def)
    define nx ny where "nx = uint (pos_x ?q) - uint (pos_x ?q) mod 8" and "ny = uint (pos_y ?q) - uint (pos_y ?q) mod 8"
    have v: "in_view p r ?q" using c by (simp add: seen_def)
    have "nx \<in> set nxs" "ny \<in> set nys"
      unfolding nx_def ny_def nxs_def nys_def x1_def x2_def y1_def y2_def lo_def hi_def
      using clamp16_between[OF in_view_bounds(1,2)[OF v]] clamp16_between[OF in_view_bounds(3,4)[OF v]]
      by (auto intro: block_between)
    moreover have "g (ny, nx) = Some a"
      using tree_okD(5)[OF t a(1), of "word_of_int nx" "word_of_int ny"] blk_coord
      by (simp add: g_def quad.cell_def nx_def ny_def)
    moreover have "c \<in> set (?f a)" using leaf_spectators_mem(1)[OF leaf[OF \<open>g (ny, nx) = Some a\<close>]] c a(2) by (simp add: seen_def)
    ultimately show "c \<in> set (concat (map ?f (List.map_filter g (List.product nys nxs))))" by (force simp: map_filter_def)
  qed
  ultimately show ?thesis using res by blast
qed

section \<open>The cache\<close>

definition one_kind :: "bool \<Rightarrow> bool \<Rightarrow> bool \<Rightarrow> bool" where
  "one_kind P M N \<longleftrightarrow> \<not> (P \<and> M) \<and> \<not> (P \<and> N) \<and> \<not> (M \<and> N)"

definition exactly :: "nat list \<Rightarrow> nat set \<Rightarrow> bool" where
  "exactly v S \<longleftrightarrow> distinct v \<and> set v = S"

definition cache_ok :: "World \<Rightarrow> bool" where
  "cache_ok w \<longleftrightarrow> (\<forall>p entry multi P M N v. spectatorsCache w p = Some entry \<longrightarrow> one_kind P M N \<longrightarrow>
     cached_vec multi (floor_data P M N entry) = Some v \<longrightarrow> exactly v (seen w p (full_range multi p 0 0 0 0) P M N))"

definition world_ok :: "World \<Rightarrow> bool" where
  "world_ok w \<longleftrightarrow> leaves_ok w \<and> cache_ok w"

lemma seen_cong:
  assumes "\<And>c. on_map w' c = on_map w c" and "\<And>c. on_map w c \<Longrightarrow> creatures w' c = creatures w c"
  shows "seen w' p r P M N = seen w p r P M N"
  using assms by (auto simp: seen_def wanted_def)

lemma cache_ok_cong:
  assumes "cache_ok w" and "spectatorsCache w' = spectatorsCache w"
    and "\<And>c. on_map w' c = on_map w c" and "\<And>c. on_map w c \<Longrightarrow> creatures w' c = creatures w c"
  shows "cache_ok w'"
proof -
  have "seen w' p r P M N = seen w p r P M N" for p r P M N by (rule seen_cong) (use assms(3,4) in simp_all)
  then show ?thesis using assms(1) unfolding cache_ok_def assms(2) by (simp only:)
qed

lemma exactly_partition: "exactly v S \<Longrightarrow> exactly (partitionByType w v) S"
  by (auto simp: exactly_def partitionByType_def Let_def)

lemma floor_data_set:
  assumes "one_kind P M N" "one_kind P' M' N'"
  shows "floor_data P M N (set_floor_data P' M' N' d entry) = (if (P, M, N) = (P', M', N') then d else floor_data P M N entry)"
  using assms by (cases P; cases M; cases N; cases P'; cases M'; cases N') (simp_all add: floor_data_def set_floor_data_def one_kind_def)

lemma cached_store: "cached_vec multi (store_vec multi' v d) = (if multi = multi' then Some v else cached_vec multi d)"
  by (simp add: cached_vec_def store_vec_def)

lemma cached_new: "cached_vec multi (floor_data P M N new_SpectatorsCache) = None"
  by (simp add: cached_vec_def floor_data_def new_SpectatorsCache_def no_data_def)

lemma default_full: "default_range (full_range multi p a b c d) \<Longrightarrow> full_range multi p a b c d = full_range multi p 0 0 0 0"
  by (auto simp: default_range_def full_range_def split: if_splits)

lemma cache_store_ok:
  assumes "cache_ok w" and k: "one_kind P M N" and v: "exactly v (seen w p (full_range multi p 0 0 0 0) P M N)"
  defines "entry \<equiv> case spectatorsCache w p of Some e \<Rightarrow> e | None \<Rightarrow> new_SpectatorsCache"
  defines "e' \<equiv> set_floor_data P M N (store_vec multi v (floor_data P M N entry)) entry"
  shows "cache_ok (w\<lparr>spectatorsCache := (spectatorsCache w)(p \<mapsto> e')\<rparr>)" (is "cache_ok ?w")
proof -
  have s: "seen ?w q r P' M' N' = seen w q r P' M' N'" for q r P' M' N' by (rule seen_cong) (simp_all add: on_map_def)
  have old: "exactly v' (seen w q (full_range multi' q 0 0 0 0) P' M' N')"
    if "spectatorsCache w q = Some e" "one_kind P' M' N'" "cached_vec multi' (floor_data P' M' N' e) = Some v'" for q e multi' P' M' N' v'
    using assms(1) that by (simp add: cache_ok_def)
  have new: "exactly v' (seen w p (full_range multi' p 0 0 0 0) P' M' N')"
    if "one_kind P' M' N'" "cached_vec multi' (floor_data P' M' N' e') = Some v'" for multi' P' M' N' v'
  proof (cases "(P', M', N') = (P, M, N) \<and> multi' = multi")
    case True
    then show ?thesis using that k v by (simp add: e'_def floor_data_set cached_store)
  next
    case False
    then have "cached_vec multi' (floor_data P' M' N' entry) = Some v'"
      using that k by (auto simp: e'_def floor_data_set cached_store split: if_splits)
    then show ?thesis using old[of p] that(1) by (cases "spectatorsCache w p") (simp_all add: entry_def cached_new)
  qed
  show ?thesis unfolding cache_ok_def s using old new by (auto split: if_splits)
qed

lemma getSpectators_ok:
  assumes ok: "world_ok w" and k: "one_kind P M N" and z: "uint (pos_z p) < 16"
  shows "exactly (fst (getSpectators w [] p multi P minX maxX minY maxY M N)) (seen w p (full_range multi p minX maxX minY maxY) P M N)"
    and "world_ok (snd (getSpectators w [] p multi P minX maxX minY maxY M N))"
proof -
  let ?r = "full_range multi p minX maxX minY maxY"
  let ?res = "getSpectators w [] p multi P minX maxX minY maxY M N"
  let ?o = "if default_range ?r then Option.bind (spectatorsCache w p) (\<lambda>e. cached_vec multi (floor_data P M N e)) else None"
  have l: "leaves_ok w" "cache_ok w" using ok by (simp_all add: world_ok_def)
  have leaves: "leaves_ok (w\<lparr>spectatorsCache := c\<rparr>)" for c
    using l(1) by (simp add: leaves_ok_def leaf_ok_def)
  have "exactly (fst ?res) (seen w p ?r P M N) \<and> world_ok (snd ?res)"
  proof (cases ?o)
    case None
    define v where "v = partitionByType w (getSpectatorsInternal w [] p ?r P M N)"
    obtain vs where "getSpectatorsInternal w [] p ?r P M N = [] @ vs" "exactly vs (seen w p ?r P M N)"
      using internal_seen[OF l(1), of "[]" p ?r P M N] by (auto simp: exactly_def)
    then have v: "exactly v (seen w p ?r P M N)" unfolding v_def by (simp add: exactly_partition)
    show ?thesis
    proof (cases "default_range ?r")
      case True
      have "exactly v (seen w p (full_range multi p 0 0 0 0) P M N)" using v default_full[OF True] by simp
      from cache_store_ok[OF l(2) k this] leaves v True None z show ?thesis
        by (simp add: getSpectators_def Let_def v_def[symmetric] world_ok_def)
    next
      case False
      then show ?thesis using v ok z by (simp add: getSpectators_def Let_def v_def)
    qed
  next
    case (Some v)
    then have d: "default_range ?r" by (simp split: if_splits)
    with Some obtain e where "spectatorsCache w p = Some e" "cached_vec multi (floor_data P M N e) = Some v"
      by (auto simp: bind_eq_Some_conv)
    then have "exactly v (seen w p (full_range multi p 0 0 0 0) P M N)" using l(2) k by (simp add: cache_ok_def)
    then have "exactly v (seen w p ?r P M N)" using default_full[OF d] by simp
    then show ?thesis using Some ok z by (simp add: getSpectators_def Let_def)
  qed
  then show "exactly (fst ?res) (seen w p ?r P M N)" "world_ok (snd ?res)" by auto
qed

lemma getSpectators_frame:
  "qmap (snd (getSpectators w v p multi P a b c d M N)) = qmap w"
  "creatures (snd (getSpectators w v p multi P a b c d M N)) = creatures w"
  by (simp_all add: getSpectators_def Let_def split: option.splits)

section \<open>Placing, removing and moving\<close>

lemma find_index_Some: "x \<in> set xs \<Longrightarrow> \<exists>i < length xs. find_index x xs = Some i \<and> xs ! i = x"
  by (induction xs) fastforce+

lemma swap_remove_ok:
  assumes "x \<in> set xs" and d: "distinct xs"
  shows "\<exists>ys. swap_remove x xs = Some ys \<and> distinct ys \<and> set ys = set xs - {x}"
proof -
  obtain i where i: "find_index x xs = Some i" "i < length xs" "xs ! i = x" using find_index_Some[OF assms(1)] by blast
  let ?ys = "butlast (xs[i := last xs])"
  obtain zs z where z: "xs = zs @ [z]" using i(2) by (cases xs rule: rev_cases) auto
  have "distinct ?ys \<and> set ?ys = set xs - {x}"
  proof (cases "i = length zs")
    case True
    then show ?thesis using i(3) d z by (auto simp: list_update_append nth_append)
  next
    case False
    then have l: "i < length zs" using i(2) z by simp
    then have "?ys = zs[i := z]" using z by (simp add: list_update_append butlast_append)
    moreover have "x = zs ! i" using i(3) l z by (simp add: nth_append)
    moreover have "set (zs[i := z]) = insert z (set zs - {zs ! i})" using d z l by (intro set_update_distinct) auto
    moreover have "distinct (zs[i := z])" using d z l by (intro distinct_list_update) auto
    ultimately show ?thesis using d z l by (auto dest: nth_mem)
  qed
  then show ?thesis using i(1) by (simp add: swap_remove_def)
qed

lemma getQTNode_at: "leaves_ok w \<Longrightarrow> getQTNode w p = at (qmap w) (ucast (pos_x p)) (ucast (pos_y p))"
  using getLeafStatic_eq[of 12 "root (qmap w)"] tree_okD(1)[of "qmap w"] by (simp add: leaves_ok_def getQTNode_def)

text \<open>The tree does not depend on the lists in its leaves.\<close>

lemma on_leaf_tree_ok:
  assumes ok: "tree_ok m" and "\<And>l. leafS (f l) = leafS l" "\<And>l. leafE (f l) = leafE l"
  shows "tree_ok (on_leaf f a m)"
proof -
  have c: "at m (cachedLeafBaseX m) (cachedLeafBaseY m) = Some b" if "cachedLeaf m = Some b" for b
    using ok that by (simp add: tree_ok_def)
  have b: "cachedLeafBaseX (on_leaf f a m) = cachedLeafBaseX m" "cachedLeafBaseY (on_leaf f a m) = cachedLeafBaseY m"
    by (simp_all add: on_leaf_def)
  show ?thesis
    by (rule tree_okI) (auto simp: tree_okD(1,3,4)[OF ok] tree_okD(5)[OF ok] assms(2,3) c b dest: tree_okD(2)[OF ok])
qed

lemma leaves_ok_cong:
  assumes "leaves_ok w" and "qmap w' = qmap w"
    and "\<And>c. on_map w c \<Longrightarrow> crPos (creatures w' c) = crPos (creatures w c) \<and> isPlayer (creatures w' c) = isPlayer (creatures w c)"
  shows "leaves_ok w'"
proof -
  have "leaf_ok w' x y a" if a: "at (qmap w) x y = Some a" for x y a
  proof -
    have "\<forall>c \<in> set (crs w a). on_map w c" using a by (auto simp: on_map_def)
    moreover have "leaf_ok w x y a" using assms(1) a by (simp add: leaves_ok_def)
    ultimately show ?thesis using assms(2,3) by (auto simp: leaf_ok_def)
  qed
  then show ?thesis using assms(1,2) by (simp add: leaves_ok_def)
qed

text \<open>New lists for one leaf; a creature \<open>d\<close> may have changed that no other leaf lists.\<close>

lemma relist_ok:
  assumes ok: "leaves_ok w" and a: "at (qmap w) x y = Some a"
    and same: "\<And>c. c \<noteq> d \<Longrightarrow> creatures w' c = creatures w c"
    and only: "\<And>x' y' b. at (qmap w) x' y' = Some b \<Longrightarrow> b \<noteq> a \<Longrightarrow> d \<notin> set (crs w b)"
    and q: "qmap w' = on_leaf (\<lambda>l. l\<lparr>creature_list := cs, player_list := ps\<rparr>) a (qmap w)"
    and new: "distinct cs" "distinct ps" "set ps = {c \<in> set cs. isPlayer (creatures w' c)}"
      "\<forall>c \<in> set cs. same_blk x y (cx w' c) (cy w' c)"
  shows "leaves_ok w'" and "on_map w' c \<longleftrightarrow> c \<in> set cs \<or> on_map w c \<and> c \<notin> set (crs w a)"
proof -
  have t: "tree_ok (qmap w)" using ok by (simp add: leaves_ok_def)
  have at': "at (qmap w') x' y' = at (qmap w) x' y'" for x' y' by (simp add: q)
  have lists: "crs w' b = (if b = a then cs else crs w b)" "pls w' b = (if b = a then ps else pls w b)" for b by (simp_all add: q)
  have "leaf_ok w' x' y' b" if b: "at (qmap w) x' y' = Some b" for x' y' b
  proof (cases "b = a")
    case True
    then have "same_blk x' y' x y" using tree_okD(5)[OF t a] b by auto
    then show ?thesis using new True lists by (auto simp: leaf_ok_def)
  next
    case False
    have "creatures w' c = creatures w c" if "c \<in> set (crs w b)" for c using same[of c] only[OF b False] that by auto
    moreover have "leaf_ok w x' y' b" using ok b by (simp add: leaves_ok_def)
    ultimately show ?thesis using False lists by (auto simp: leaf_ok_def)
  qed
  then show "leaves_ok w'" using on_leaf_tree_ok[OF t] by (simp add: leaves_ok_def at') (simp add: q)
  have "c \<notin> set (crs w a)" if "at (qmap w) x' y' = Some b" "c \<in> set (crs w b)" "b \<noteq> a" for x' y' b
    using on_map_at[OF ok that(1,2)] on_map_at[OF ok a, of c] that(3) by auto
  note elsewhere = this
  show "on_map w' c \<longleftrightarrow> c \<in> set cs \<or> on_map w c \<and> c \<notin> set (crs w a)"
  proof
    assume "on_map w' c"
    then obtain x' y' b where "at (qmap w) x' y' = Some b" "c \<in> set (if b = a then cs else crs w b)"
      unfolding on_map_def at' lists by blast
    then show "c \<in> set cs \<or> on_map w c \<and> c \<notin> set (crs w a)"
      using elsewhere by (cases "b = a") (auto simp: on_map_def)
  next
    assume r: "c \<in> set cs \<or> on_map w c \<and> c \<notin> set (crs w a)"
    show "on_map w' c"
    proof (cases "c \<in> set cs")
      case True
      then show ?thesis unfolding on_map_def at' lists using a by (intro exI[of _ x] exI[of _ y] exI[of _ a]) simp
    next
      case False
      then obtain x' y' b where "at (qmap w) x' y' = Some b" "c \<in> set (crs w b)" "b \<noteq> a" using r by (auto simp: on_map_def)
      then show ?thesis unfolding on_map_def at' lists by (intro exI[of _ x'] exI[of _ y'] exI[of _ b]) simp
    qed
  qed
qed

lemma cache_empty_ok: "leaves_ok w \<Longrightarrow> spectatorsCache w = Map.empty \<Longrightarrow> world_ok w"
  by (simp add: world_ok_def cache_ok_def)

lemma place_ok:
  assumes ok: "leaves_ok w" and c: "\<not> on_map w c" and p: "place_creature w c dest = Some w'"
  shows "world_ok w'" and "on_map w' d \<longleftrightarrow> d = c \<or> on_map w d"
proof -
  let ?w1 = "tile_addCreature dest c w"
  let ?x = "ucast (pos_x dest) :: u32" and ?y = "ucast (pos_y dest) :: u32"
  have same: "qmap ?w1 = qmap w" "creatures ?w1 = (creatures w)(c := (creatures w c)\<lparr>crPos := dest\<rparr>)" "spectatorsCache ?w1 = Map.empty"
    by (simp_all add: tile_addCreature_def setPosition_def clearSpectatorCache_def)
  obtain a where a: "at (qmap w) ?x ?y = Some a" "w' = leaf_addCreature ?w1 c a"
    using p getQTNode_at[OF ok, of dest] same(1) by (auto simp: place_creature_def Let_def getQTNode_def)
  have l: "leaf_ok w ?x ?y a" using ok a(1) by (simp add: leaves_ok_def)
  have nc: "c \<notin> set (crs w b)" if "at (qmap w) x' y' = Some b" for x' y' b using that c by (auto simp: on_map_def)
  define cs where "cs = crs w a @ [c]"
  define ps where "ps = (if isPlayer (creatures w c) then pls w a @ [c] else pls w a)"
  have q: "qmap w' = on_leaf (\<lambda>l. l\<lparr>creature_list := cs, player_list := ps\<rparr>) a (qmap w)"
    by (simp add: a(2) leaf_addCreature_def on_leaf_def same cs_def ps_def)
  have cr: "creatures w' = creatures ?w1" "spectatorsCache w' = Map.empty" by (simp_all add: a(2) leaf_addCreature_def same(3))
  have "distinct cs" "distinct ps" "set ps = {d \<in> set cs. isPlayer (creatures w' d)}" "\<forall>d \<in> set cs. same_blk ?x ?y (cx w' d) (cy w' d)"
    using l nc[OF a(1)] by (auto simp: leaf_ok_def cs_def ps_def cr same(2))
  moreover have "creatures w' e = creatures w e" if "e \<noteq> c" for e using that by (simp add: cr same(2))
  ultimately have r: "leaves_ok w'" "on_map w' e \<longleftrightarrow> e \<in> set cs \<or> on_map w e \<and> e \<notin> set (crs w a)" for e
    using relist_ok[where w' = w' and d = c and cs = cs and ps = ps, OF ok a(1) _ _ q] nc by blast+
  show "world_ok w'" by (rule cache_empty_ok[OF r(1) cr(2)])
  show "on_map w' d \<longleftrightarrow> d = c \<or> on_map w d"
    using r(2)[of d] a(1) by (auto simp: cs_def on_map_def)
qed

lemma remove_leaf_ok:
  assumes ok: "leaves_ok w" and c: "on_map w c"
  shows "\<exists>a w'. getQTNode w (crPos (creatures w c)) = Some a \<and> leaf_removeCreature w c a = Some w' \<and> leaves_ok w' \<and>
    (\<forall>d. on_map w' d \<longleftrightarrow> on_map w d \<and> d \<noteq> c) \<and> creatures w' = creatures w \<and> (\<forall>x y. at (qmap w') x y = at (qmap w) x y) \<and>
    spectatorsCache w' = spectatorsCache w"
proof -
  obtain a where a: "at (qmap w) (cx w c) (cy w c) = Some a" "c \<in> set (crs w a)" using c on_map_iff[OF ok] by blast
  have l: "leaf_ok w (cx w c) (cy w c) a" using ok a(1) by (simp add: leaves_ok_def)
  obtain cs where cs: "swap_remove c (crs w a) = Some cs" "distinct cs" "set cs = set (crs w a) - {c}"
    using swap_remove_ok[OF a(2)] l by (auto simp: leaf_ok_def)
  obtain ps where ps: "(if isPlayer (creatures w c) then swap_remove c (pls w a) else Some (pls w a)) = Some ps" "distinct ps"
    "set ps = set (pls w a) - {c}"
    using swap_remove_ok[of c "pls w a"] l a(2) by (cases "isPlayer (creatures w c)") (auto simp: leaf_ok_def)
  define w' where "w' = w\<lparr>qmap := on_leaf (\<lambda>l. l\<lparr>creature_list := cs, player_list := ps\<rparr>) a (qmap w)\<rparr>"
  have r: "leaf_removeCreature w c a = Some w'" using cs(1) ps(1) by (simp add: leaf_removeCreature_def Let_def w'_def)
  have q: "qmap w' = on_leaf (\<lambda>l. l\<lparr>creature_list := cs, player_list := ps\<rparr>) a (qmap w)" by (simp add: w'_def)
  have only: "c \<notin> set (crs w b)" if "at (qmap w) x' y' = Some b" "b \<noteq> a" for x' y' b
    using on_map_at[OF ok that(1)] a(1) that(2) by fastforce
  have "set ps = {d \<in> set cs. isPlayer (creatures w' d)}" "\<forall>d \<in> set cs. same_blk (cx w c) (cy w c) (cx w' d) (cy w' d)"
    using l cs(3) ps(3) by (auto simp: leaf_ok_def w'_def)
  moreover have "creatures w' e = creatures w e" for e by (simp add: w'_def)
  ultimately have rel: "leaves_ok w'" "on_map w' e \<longleftrightarrow> e \<in> set cs \<or> on_map w e \<and> e \<notin> set (crs w a)" for e
    using relist_ok[where w' = w' and d = c and cs = cs and ps = ps, OF ok a(1) _ _ q cs(2) ps(2)] only by blast+
  have "getQTNode w (crPos (creatures w c)) = Some a" using a(1) getQTNode_at[OF ok] by simp
  moreover have "on_map w' d \<longleftrightarrow> on_map w d \<and> d \<noteq> c" for d
    using rel(2)[of d] cs(3) a on_map_def[of w d] by auto
  ultimately show ?thesis using r rel(1) by (intro exI[of _ a] exI[of _ w']) (simp add: w'_def)
qed

lemma tile_removeCreature_ok:
  assumes ok: "leaves_ok w" and c: "on_map w c" and r: "tile_removeCreature w c = Some w'"
  shows "world_ok w'" and "on_map w' d \<longleftrightarrow> on_map w d \<and> d \<noteq> c"
proof -
  obtain a w1 where w1: "getQTNode w (crPos (creatures w c)) = Some a" "leaf_removeCreature w c a = Some w1" "leaves_ok w1"
    "\<forall>d. on_map w1 d \<longleftrightarrow> on_map w d \<and> d \<noteq> c" using remove_leaf_ok[OF ok c] by blast
  then have w': "w' = clearSpectatorCache w1" using r by (simp add: tile_removeCreature_def)
  have "leaves_ok w'" by (rule leaves_ok_cong[OF w1(3)]) (simp_all add: w' clearSpectatorCache_def)
  then show "world_ok w'" by (rule cache_empty_ok) (simp add: w' clearSpectatorCache_def)
  show "on_map w' d \<longleftrightarrow> on_map w d \<and> d \<noteq> c" using w1(4) by (simp add: w' clearSpectatorCache_def on_map_def)
qed

lemma move_ok:
  assumes ok: "world_ok w" and c: "on_map w c" and r: "moveCreature w c newPos ground force = Some w'"
  shows "world_ok w'" and "on_map w' d = on_map w d" and "crPos (creatures w' c) = newPos"
proof -
  let ?old = "crPos (creatures w c)"
  define w3 where "w3 = clearSpectatorCache (snd (getSpectators (snd (getSpectators w [] ?old True False 0 0 0 0 False False)) []
    newPos True False 0 0 0 0 False False))"
  have w3: "qmap w3 = qmap w" "creatures w3 = creatures w" "spectatorsCache w3 = Map.empty"
    by (simp_all add: w3_def clearSpectatorCache_def getSpectators_frame)
  have l0: "leaves_ok w" using ok by (simp add: world_ok_def)
  have l3: "leaves_ok w3" by (rule leaves_ok_cong[OF l0 w3(1)]) (simp add: w3(2))
  have c3: "on_map w3 c" using c by (simp add: on_map_def w3)
  note r' = r[unfolded moveCreature_def Let_def, folded w3_def]
  obtain w4 where w4: "switch_leaf w3 c ?old newPos = Some w4" using r' by blast
  define w5 where "w5 = tile_addCreature newPos c w4"
  have w': "qmap w' = qmap w5" "spectatorsCache w' = Map.empty" "\<And>d. crPos (creatures w' d) = crPos (creatures w5 d)"
    "\<And>d. isPlayer (creatures w' d) = isPlayer (creatures w5 d)"
    using r' unfolding w4 option.map option.inject
    by (auto simp: w5_def tile_addCreature_def clearSpectatorCache_def setPosition_def split: if_splits)
  have "leaves_ok w5 \<and> (\<forall>d. on_map w5 d = on_map w d)"
  proof (cases "getQTNode w3 ?old = getQTNode w3 newPos")
    case True
    then have "w4 = w3" using w4 by (simp add: switch_leaf_def Let_def)
    then have w5: "qmap w5 = qmap w" "creatures w5 = (creatures w)(c := (creatures w c)\<lparr>crPos := newPos\<rparr>)"
      by (simp_all add: w5_def tile_addCreature_def clearSpectatorCache_def setPosition_def w3)
    obtain a where a: "at (qmap w) (cx w c) (cy w c) = Some a" "c \<in> set (crs w a)"
      using c on_map_iff[of w] ok by (auto simp: world_ok_def)
    have t: "tree_ok (qmap w)" using ok by (simp add: world_ok_def leaves_ok_def)
    have "at (qmap w) (ucast (pos_x newPos)) (ucast (pos_y newPos)) = Some a"
      using a(1) True getQTNode_at[OF l3] by (simp add: w3)
    then have "same_blk (cx w c) (cy w c) (ucast (pos_x newPos)) (ucast (pos_y newPos))"
      by (rule tree_okD(5)[OF t a(1), THEN iffD1])
    moreover have "leaf_ok w x y b" if "at (qmap w) x y = Some b" for x y b using ok that by (simp add: world_ok_def leaves_ok_def)
    ultimately have "leaf_ok w5 x y b" if "at (qmap w) x y = Some b" for x y b
    proof -
      have "same_blk x y (cx w d) (cy w d)" if "d \<in> set (crs w b)" for d
        using \<open>\<And>x y b. at (qmap w) x y = Some b \<Longrightarrow> leaf_ok w x y b\<close>[OF \<open>at (qmap w) x y = Some b\<close>] that by (simp add: leaf_ok_def)
      then have "same_blk x y (cx w5 d) (cy w5 d)" if "d \<in> set (crs w b)" for d
        using that \<open>same_blk (cx w c) (cy w c) (ucast (pos_x newPos)) (ucast (pos_y newPos))\<close> by (cases "d = c") (simp_all add: w5)
      moreover have "isPlayer (creatures w5 d) = isPlayer (creatures w d)" for d by (simp add: w5)
      ultimately show ?thesis
        using \<open>\<And>x y b. at (qmap w) x y = Some b \<Longrightarrow> leaf_ok w x y b\<close>[OF that] unfolding leaf_ok_def w5(1) by simp
    qed
    then have "leaves_ok w5" using t by (simp add: leaves_ok_def w5)
    then show ?thesis by (simp add: on_map_def w5)
  next
    case False
    obtain a w1 where w1: "getQTNode w3 ?old = Some a" "leaf_removeCreature w3 c a = Some w1" "leaves_ok w1"
      "\<forall>d. on_map w1 d \<longleftrightarrow> on_map w3 d \<and> d \<noteq> c" "creatures w1 = creatures w3" "\<forall>x y. at (qmap w1) x y = at (qmap w3) x y"
      using remove_leaf_ok[OF l3 c3] by (auto simp: w3)
    obtain b where b: "getQTNode w3 newPos = Some b" "w4 = leaf_addCreature w1 c b"
      using w4 False w1(1,2) by (auto simp: switch_leaf_def Let_def bind_eq_Some_conv)
    have "getQTNode w1 newPos = Some b" using b(1) getQTNode_at[OF w1(3)] getQTNode_at[OF l3] w1(6) by simp
    then have p: "place_creature w1 c newPos = Some w5"
      by (simp add: place_creature_def w5_def b(2) leaf_addCreature_def tile_addCreature_def setPosition_def clearSpectatorCache_def
          getQTNode_def Let_def on_leaf_def)
    have n: "\<not> on_map w1 c" using w1(4) by blast
    have "on_map w3 d = on_map w d" for d by (simp add: on_map_def w3)
    then show ?thesis using place_ok(1)[OF w1(3) n p] place_ok(2)[OF w1(3) n p] w1(4) c3 by (auto simp: world_ok_def)
  qed
  then have l5: "leaves_ok w5" "\<And>d. on_map w5 d = on_map w d" by auto
  have "leaves_ok w'" by (rule leaves_ok_cong[OF l5(1)]) (simp_all add: w')
  then show "world_ok w'" by (rule cache_empty_ok[OF _ w'(2)])
  show "on_map w' d = on_map w d" using l5(2)[of d] by (simp add: on_map_def w'(1))
  show "crPos (creatures w' c) = newPos" by (simp add: w'(3) w5_def tile_addCreature_def setPosition_def)
qed

lemma grow_ok:
  assumes ok: "world_ok w" and g: "getOrCreateLeaf x y (qmap w) = Some (a, m)"
  shows "world_ok (w\<lparr>qmap := m\<rparr>)" and "on_map (w\<lparr>qmap := m\<rparr>) c = on_map w c"
proof -
  let ?w = "w\<lparr>qmap := m\<rparr>" and ?X = "ucast x :: u32" and ?Y = "ucast y :: u32"
  have l: "leaves_ok w" "tree_ok (qmap w)" using ok by (simp_all add: world_ok_def leaves_ok_def)
  have m: "tree_ok m" "\<And>x' y'. at m x' y' = (if same_blk x' y' ?X ?Y then Some a else at (qmap w) x' y')"
    "\<And>b. b \<noteq> a \<or> at (qmap w) ?X ?Y \<noteq> None \<Longrightarrow> crs ?w b = crs w b \<and> pls ?w b = pls w b"
    "case at (qmap w) ?X ?Y of Some b \<Rightarrow> a = b
     | None \<Rightarrow> (\<forall>x' y'. at (qmap w) x' y' \<noteq> Some a) \<and> creature_list (leaf_mem m a) = [] \<and> player_list (leaf_mem m a) = []"
    using getOrCreateLeaf_ok[OF l(2), of x y] g by auto
  have leaf: "(at (qmap w) x' y' = Some b \<and> crs ?w b = crs w b \<and> pls ?w b = pls w b) \<or> (crs ?w b = [] \<and> pls ?w b = [])"
    if b: "at m x' y' = Some b" for x' y' b
  proof (cases "at (qmap w) ?X ?Y")
    case None
    then show ?thesis using b m(2)[of x' y'] m(3)[of b] m(4) by (cases "same_blk x' y' ?X ?Y") auto
  next
    case (Some b')
    then show ?thesis using b m(2)[of x' y'] m(3)[of b] m(4) tree_okD(5)[OF l(2) Some, of x' y'] by (auto split: if_splits)
  qed
  have "leaf_ok ?w x' y' b" if b: "at m x' y' = Some b" for x' y' b
    using leaf[OF b] l(1) by (auto simp: leaf_ok_def leaves_ok_def)
  then have lw: "leaves_ok ?w" using m(1) by (simp add: leaves_ok_def)
  have on: "on_map ?w d = on_map w d" for d
  proof
    assume "on_map ?w d"
    then obtain x' y' b where "at m x' y' = Some b" "d \<in> set (crs ?w b)" by (auto simp: on_map_def)
    then show "on_map w d" using leaf[of x' y' b] by (auto intro: on_mapI)
  next
    assume "on_map w d"
    then obtain x' y' b where b: "at (qmap w) x' y' = Some b" "d \<in> set (crs w b)" by (auto simp: on_map_def)
    have "at m x' y' = Some b \<and> crs ?w b = crs w b"
      using b m(2)[of x' y'] m(3)[of b] m(4) tree_okD(5)[OF l(2) b(1), of ?X ?Y] by (cases "at (qmap w) ?X ?Y") (auto split: if_splits)
    then show "on_map ?w d" using b(2) by (intro on_mapI[of ?w x' y' b]) simp_all
  qed
  then show "on_map ?w c = on_map w c" .
  have "cache_ok ?w" by (rule cache_ok_cong[of w]) (use ok on in \<open>simp_all add: world_ok_def\<close>)
  then show "world_ok ?w" using lw by (simp add: world_ok_def)
qed

section \<open>Runs\<close>

text \<open>
  A leaf is made when a tile is set; a creature that is not on the map may be anything; creatures are placed, moved and
  removed; and at any time somebody asks for spectators.
\<close>

inductive map_run :: "World \<Rightarrow> bool" where
  start: "map_run \<lparr>qmap = empty_map, spectatorsCache = Map.empty, creatures = cr\<rparr>"
| grow: "map_run w \<Longrightarrow> getOrCreateLeaf x y (qmap w) = Some (a, m) \<Longrightarrow> map_run (w\<lparr>qmap := m\<rparr>)"
| spawn: "map_run w \<Longrightarrow> \<not> on_map w c \<Longrightarrow> map_run (w\<lparr>creatures := (creatures w)(c := d)\<rparr>)"
| place: "map_run w \<Longrightarrow> \<not> on_map w c \<Longrightarrow> place_creature w c dest = Some w' \<Longrightarrow> map_run w'"
| remove: "map_run w \<Longrightarrow> on_map w c \<Longrightarrow> tile_removeCreature w c = Some w' \<Longrightarrow> map_run (setRemoved c w')"
| move: "map_run w \<Longrightarrow> on_map w c \<Longrightarrow> moveCreature w c newPos ground force = Some w' \<Longrightarrow> map_run w'"
| query: "map_run w \<Longrightarrow> one_kind onlyPlayers onlyMonsters onlyNpcs \<Longrightarrow>
    map_run (snd (getSpectators w [] centerPos multifloor onlyPlayers minX maxX minY maxY onlyMonsters onlyNpcs))"

lemma recreate_ok:
  assumes ok: "world_ok w" and c: "\<not> on_map w c"
  shows "world_ok (w\<lparr>creatures := (creatures w)(c := d)\<rparr>)" (is "world_ok ?w")
proof -
  have same: "creatures ?w e = creatures w e" if "on_map w e" for e using that c by auto
  have "leaves_ok ?w" by (rule leaves_ok_cong[of w]) (use ok same in \<open>simp_all add: world_ok_def\<close>)
  moreover have "cache_ok ?w" by (rule cache_ok_cong[of w]) (use ok same in \<open>simp_all add: world_ok_def on_map_def\<close>)
  ultimately show ?thesis by (simp add: world_ok_def)
qed

lemma run_ok: "map_run w \<Longrightarrow> world_ok w"
proof (induction rule: map_run.induct)
  case (start cr)
  show ?case
    using empty_map_ok by (intro cache_empty_ok) (simp_all add: leaves_ok_def empty_map_def new_node_ok)
next
  case (grow w x y a m)
  then show ?case by (intro grow_ok(1))
next
  case (spawn w c d)
  then show ?case by (intro recreate_ok)
next
  case (place w c dest w')
  then show ?case using place_ok(1)[of w c dest w'] by (simp add: world_ok_def)
next
  case (remove w c w')
  then have "world_ok w'" "\<not> on_map w' c" using tile_removeCreature_ok[of w c w'] by (simp_all add: world_ok_def)
  then show ?case unfolding setRemoved_def by (rule recreate_ok)
next
  case (move w c newPos ground force w')
  then show ?case using move_ok(1)[of w c newPos ground force w'] by simp
next
  case (query w P M N p multi minX maxX minY maxY)
  then show ?case
  proof (cases "uint (pos_z p) < 16")
    case True
    then show ?thesis using getSpectators_ok(2) query by blast
  next
    case False
    then show ?thesis using query by (simp add: getSpectators_def)
  qed
qed

section \<open>What is seen\<close>

definition one_leaf :: "QMap" where
  "one_leaf = snd (the (getOrCreateLeaf 100 100 empty_map))"

definition hero :: MapCreature where
  "hero = \<lparr>crPos = Position 0 0 0, isPlayer = True, isMonster = False, isNpc = False, crRemoved = False, crDirection = DIRECTION_NORTH\<rparr>"

definition hero_world :: World where
  "hero_world = the (place_creature \<lparr>qmap = one_leaf, spectatorsCache = Map.empty, creatures = (\<lambda>_. hero)\<rparr> 7 (Position 101 102 7))"

lemma place_creatures:
  assumes "place_creature w c dest = Some w'"
  shows "creatures w' = (creatures w)(c := (creatures w c)\<lparr>crPos := dest\<rparr>)"
  using assms by (auto simp: place_creature_def Let_def leaf_addCreature_def tile_addCreature_def setPosition_def clearSpectatorCache_def)

lemma hero_run: "map_run hero_world \<and> on_map hero_world 7 \<and> crPos (creatures hero_world 7) = Position 101 102 7 \<and>
    isPlayer (creatures hero_world 7) \<and> \<not> crRemoved (creatures hero_world 7)"
proof -
  obtain a where g: "getOrCreateLeaf 100 100 empty_map = Some (a, one_leaf)"
    and t: "tree_ok one_leaf" "\<And>x y. at one_leaf x y = (if same_blk x y 100 100 then Some a else at empty_map x y)"
    using getOrCreateLeaf_ok[OF empty_map_ok, of 100 100] by (auto simp: one_leaf_def)
  let ?w = "\<lparr>qmap = one_leaf, spectatorsCache = Map.empty, creatures = (\<lambda>_. hero)\<rparr>"
  have run: "map_run ?w" using map_run.grow[OF map_run.start] g by fastforce
  have ok: "leaves_ok ?w" using run_ok[OF run] by (simp add: world_ok_def)
  have none: "\<not> on_map ?w c" for c
    using grow_ok(2)[OF run_ok[OF map_run.start[of "\<lambda>_. hero"]], of 100 100 a one_leaf c] g
    by (simp add: on_map_def empty_map_def new_node_ok)
  have "at one_leaf 101 102 = Some a" using t(2)[of 101 102] by (simp add: word_unat_eq_iff unat_blk)
  then have "getQTNode (tile_addCreature (Position 101 102 7) 7 ?w) (Position 101 102 7) = Some a"
    using getQTNode_at[OF ok, of "Position 101 102 7"]
    by (simp add: getQTNode_def tile_addCreature_def setPosition_def clearSpectatorCache_def)
  then have p: "place_creature ?w 7 (Position 101 102 7) = Some hero_world"
    by (simp add: hero_world_def place_creature_def)
  have "creatures hero_world 7 = hero\<lparr>crPos := Position 101 102 7\<rparr>"
    using place_creatures[OF p] by simp
  then show ?thesis using map_run.place[OF run none p] place_ok(2)[OF ok none p, of 7] by (simp add: hero_def)
qed

text \<open>
  What is asked for, said without the code: the floors, and how far a creature may be to either side, where 0 stands for
  the 11 tiles of the default view and every floor in between shifts the view by one tile.
\<close>

definition floor_seen :: "bool \<Rightarrow> int \<Rightarrow> int \<Rightarrow> bool" where
  "floor_seen multifloor z z' \<longleftrightarrow>
     (if multifloor then \<bar>z - z'\<bar> \<le> 2 \<and> z' \<le> (if z \<le> 7 then 7 else 15) else z' = z)"

definition within :: "int \<Rightarrow> int \<Rightarrow> int \<Rightarrow> int \<Rightarrow> bool" where
  "within before after v v' \<longleftrightarrow> v - (if before = 0 then 11 else before) \<le> v' \<and> v' \<le> v + (if after = 0 then 11 else after)"

lemma in_view_iff:
  "in_view p (full_range multifloor p minX maxX minY maxY) q \<longleftrightarrow>
     floor_seen multifloor (uint (pos_z p)) (uint (pos_z q)) \<and>
     within minX maxX (uint (pos_x p)) (uint (pos_x q) - (uint (pos_z p) - uint (pos_z q))) \<and>
     within minY maxY (uint (pos_y p)) (uint (pos_y q) - (uint (pos_z p) - uint (pos_z q)))"
proof -
  have floors: "\<not> (fst (z_range multifloor p) > z \<or> snd (z_range multifloor p) < z) \<longleftrightarrow> floor_seen multifloor (uint (pos_z p)) z"
    if "0 \<le> z" for z
    using that uint_ge_0[of "pos_z p"] by (auto simp: z_range_def floor_seen_def Let_def)
  have axis: "\<not> (v + (if before = 0 then - maxViewportX else - before) + d > v' \<or>
      v + (if after = 0 then maxViewportX else after) + d < v') \<longleftrightarrow> within before after v (v' - d)" for before after v v' d
    by (auto simp: within_def)
  have "in_view p (full_range multifloor p minX maxX minY maxY) q \<longleftrightarrow>
     \<not> (fst (z_range multifloor p) > uint (pos_z q) \<or> snd (z_range multifloor p) < uint (pos_z q)) \<and>
     \<not> (uint (pos_x p) + (if minX = 0 then - maxViewportX else - minX) + getOffsetZ p q > uint (pos_x q) \<or>
       uint (pos_x p) + (if maxX = 0 then maxViewportX else maxX) + getOffsetZ p q < uint (pos_x q)) \<and>
     \<not> (uint (pos_y p) + (if minY = 0 then - maxViewportX else - minY) + getOffsetZ p q > uint (pos_y q) \<or>
       uint (pos_y p) + (if maxY = 0 then maxViewportX else maxY) + getOffsetZ p q < uint (pos_y q))"
    unfolding in_view_def full_range_def Let_def by auto
  then show ?thesis
    unfolding floors[OF uint_ge_0] axis by (simp only: getOffsetZ_def)
qed

text \<open>
  Claim C19. However leaves were made and creatures were placed, moved and removed before, and whatever was asked
  before, a search finds exactly the creatures on the map, not removed and of the kind asked for, that stand on one of
  the floors asked for and within the given number of tiles, each once, be it from the cache or by walking through the
  leaves. The numbers of tiles are those a 32-bit sum with a coordinate can hold.
\<close>

theorem spectators_correct:
  assumes "map_run w" and "one_kind onlyPlayers onlyMonsters onlyNpcs" and "uint (pos_z centerPos) < 16"
    and "{minX, maxX, minY, maxY} \<subseteq> {- (2 ^ 30) .. 2 ^ 30}"
  shows "distinct (fst (getSpectators w [] centerPos multifloor onlyPlayers minX maxX minY maxY onlyMonsters onlyNpcs)) \<and>
    set (fst (getSpectators w [] centerPos multifloor onlyPlayers minX maxX minY maxY onlyMonsters onlyNpcs)) =
      {c. on_map w c \<and> \<not> crRemoved (creatures w c) \<and> (onlyPlayers \<longrightarrow> isPlayer (creatures w c)) \<and>
        (onlyMonsters \<longrightarrow> isMonster (creatures w c)) \<and> (onlyNpcs \<longrightarrow> isNpc (creatures w c)) \<and>
        (let pos = crPos (creatures w c); below = uint (pos_z centerPos) - uint (pos_z pos)
         in floor_seen multifloor (uint (pos_z centerPos)) (uint (pos_z pos)) \<and>
           within minX maxX (uint (pos_x centerPos)) (uint (pos_x pos) - below) \<and>
           within minY maxY (uint (pos_y centerPos)) (uint (pos_y pos) - below))}"
proof -
  have "exactly (fst (getSpectators w [] centerPos multifloor onlyPlayers minX maxX minY maxY onlyMonsters onlyNpcs))
      (seen w centerPos (full_range multifloor centerPos minX maxX minY maxY) onlyPlayers onlyMonsters onlyNpcs)"
    by (rule getSpectators_ok(1)[OF run_ok[OF assms(1)] assms(2,3)])
  then show ?thesis
    unfolding exactly_def seen_def in_view_iff wanted_def Let_def by auto
qed

theorem spectators_correct_witness:
  "7 \<in> set (fst (getSpectators hero_world [] (Position 104 100 6) True True 0 0 0 0 False False)) \<and>
   7 \<notin> set (fst (getSpectators hero_world [] (Position 104 100 6) True True 2 2 2 2 False False))"
  using spectators_correct[of hero_world True False False "Position 104 100 6" 0 0 0 0 True]
    spectators_correct[of hero_world True False False "Position 104 100 6" 2 2 2 2 True] hero_run
  by (simp add: one_kind_def floor_seen_def within_def Let_def)

end
