(* ===== verification/ItemAttributes.thy ===== *)
theory ItemAttributes
  imports TFS_Prelude
begin

text \<open>
  The attributes an item can carry besides its type (\<^verbatim>\<open>ItemAttributes\<close> of \<^verbatim>\<open>src/src/item.h\<close> and
  \<^verbatim>\<open>src/src/item.cpp\<close>): a vector of typed values and a bit set of the types that occur in it. The vector is a list;
  removing an attribute moves the last one into its place. A \<^verbatim>\<open>double\<close> is kept as its 64 bits, text as its bytes. The
  unordered map of custom attributes is a list of pairs with distinct keys.

  The getters take a value out of the vector with \<^verbatim>\<open>std::get\<close>, which throws when the value has another
  alternative. That this cannot happen is part of the invariant \<open>attributes_ok\<close>; only the comparison of two items
  can run into it (\<open>None\<close>).
\<close>

section \<open>Types of attributes\<close>

type_synonym itemAttrTypes = u64

definition ITEM_ATTRIBUTE_ACTIONID :: itemAttrTypes where [simp]: "ITEM_ATTRIBUTE_ACTIONID = 2 ^ 0"
definition ITEM_ATTRIBUTE_UNIQUEID :: itemAttrTypes where [simp]: "ITEM_ATTRIBUTE_UNIQUEID = 2 ^ 1"
definition ITEM_ATTRIBUTE_DESCRIPTION :: itemAttrTypes where [simp]: "ITEM_ATTRIBUTE_DESCRIPTION = 2 ^ 2"
definition ITEM_ATTRIBUTE_TEXT :: itemAttrTypes where [simp]: "ITEM_ATTRIBUTE_TEXT = 2 ^ 3"
definition ITEM_ATTRIBUTE_DATE :: itemAttrTypes where [simp]: "ITEM_ATTRIBUTE_DATE = 2 ^ 4"
definition ITEM_ATTRIBUTE_WRITER :: itemAttrTypes where [simp]: "ITEM_ATTRIBUTE_WRITER = 2 ^ 5"
definition ITEM_ATTRIBUTE_NAME :: itemAttrTypes where [simp]: "ITEM_ATTRIBUTE_NAME = 2 ^ 6"
definition ITEM_ATTRIBUTE_ARTICLE :: itemAttrTypes where [simp]: "ITEM_ATTRIBUTE_ARTICLE = 2 ^ 7"
definition ITEM_ATTRIBUTE_PLURALNAME :: itemAttrTypes where [simp]: "ITEM_ATTRIBUTE_PLURALNAME = 2 ^ 8"
definition ITEM_ATTRIBUTE_WEIGHT :: itemAttrTypes where [simp]: "ITEM_ATTRIBUTE_WEIGHT = 2 ^ 9"
definition ITEM_ATTRIBUTE_ATTACK :: itemAttrTypes where [simp]: "ITEM_ATTRIBUTE_ATTACK = 2 ^ 10"
definition ITEM_ATTRIBUTE_DEFENSE :: itemAttrTypes where [simp]: "ITEM_ATTRIBUTE_DEFENSE = 2 ^ 11"
definition ITEM_ATTRIBUTE_EXTRADEFENSE :: itemAttrTypes where [simp]: "ITEM_ATTRIBUTE_EXTRADEFENSE = 2 ^ 12"
definition ITEM_ATTRIBUTE_ARMOR :: itemAttrTypes where [simp]: "ITEM_ATTRIBUTE_ARMOR = 2 ^ 13"
definition ITEM_ATTRIBUTE_HITCHANCE :: itemAttrTypes where [simp]: "ITEM_ATTRIBUTE_HITCHANCE = 2 ^ 14"
definition ITEM_ATTRIBUTE_SHOOTRANGE :: itemAttrTypes where [simp]: "ITEM_ATTRIBUTE_SHOOTRANGE = 2 ^ 15"
definition ITEM_ATTRIBUTE_OWNER :: itemAttrTypes where [simp]: "ITEM_ATTRIBUTE_OWNER = 2 ^ 16"
definition ITEM_ATTRIBUTE_DURATION :: itemAttrTypes where [simp]: "ITEM_ATTRIBUTE_DURATION = 2 ^ 17"
definition ITEM_ATTRIBUTE_DECAYSTATE :: itemAttrTypes where [simp]: "ITEM_ATTRIBUTE_DECAYSTATE = 2 ^ 18"
definition ITEM_ATTRIBUTE_CORPSEOWNER :: itemAttrTypes where [simp]: "ITEM_ATTRIBUTE_CORPSEOWNER = 2 ^ 19"
definition ITEM_ATTRIBUTE_CHARGES :: itemAttrTypes where [simp]: "ITEM_ATTRIBUTE_CHARGES = 2 ^ 20"
definition ITEM_ATTRIBUTE_FLUIDTYPE :: itemAttrTypes where [simp]: "ITEM_ATTRIBUTE_FLUIDTYPE = 2 ^ 21"
definition ITEM_ATTRIBUTE_DOORID :: itemAttrTypes where [simp]: "ITEM_ATTRIBUTE_DOORID = 2 ^ 22"
definition ITEM_ATTRIBUTE_DURATION_TIMESTAMP :: itemAttrTypes where [simp]: "ITEM_ATTRIBUTE_DURATION_TIMESTAMP = 2 ^ 23"
definition ITEM_ATTRIBUTE_WRAPID :: itemAttrTypes where [simp]: "ITEM_ATTRIBUTE_WRAPID = 2 ^ 24"
definition ITEM_ATTRIBUTE_STOREITEM :: itemAttrTypes where [simp]: "ITEM_ATTRIBUTE_STOREITEM = 2 ^ 25"
definition ITEM_ATTRIBUTE_ATTACK_SPEED :: itemAttrTypes where [simp]: "ITEM_ATTRIBUTE_ATTACK_SPEED = 2 ^ 26"
definition ITEM_ATTRIBUTE_CLASSIFICATION :: itemAttrTypes where [simp]: "ITEM_ATTRIBUTE_CLASSIFICATION = 2 ^ 27"
definition ITEM_ATTRIBUTE_TIER :: itemAttrTypes where [simp]: "ITEM_ATTRIBUTE_TIER = 2 ^ 28"
definition ITEM_ATTRIBUTE_REWARDID :: itemAttrTypes where [simp]: "ITEM_ATTRIBUTE_REWARDID = 2 ^ 29"
definition ITEM_ATTRIBUTE_OPENCONTAINER :: itemAttrTypes where [simp]: "ITEM_ATTRIBUTE_OPENCONTAINER = 2 ^ 30"
definition ITEM_ATTRIBUTE_DURATION_MAX :: itemAttrTypes where [simp]: "ITEM_ATTRIBUTE_DURATION_MAX = 2 ^ 31"
definition ITEM_ATTRIBUTE_REDUCESKILLLOSS :: itemAttrTypes where [simp]: "ITEM_ATTRIBUTE_REDUCESKILLLOSS = 2 ^ 32"
definition ITEM_ATTRIBUTE_DROPBONUS :: itemAttrTypes where [simp]: "ITEM_ATTRIBUTE_DROPBONUS = 2 ^ 33"
definition ITEM_ATTRIBUTE_CUSTOM :: itemAttrTypes where [simp]: "ITEM_ATTRIBUTE_CUSTOM = 2 ^ 34"

unbundle bit_operations_syntax

definition intAttributeTypes :: u64 where
  "intAttributeTypes =
     ITEM_ATTRIBUTE_ACTIONID OR ITEM_ATTRIBUTE_UNIQUEID OR ITEM_ATTRIBUTE_DATE OR ITEM_ATTRIBUTE_WEIGHT OR
     ITEM_ATTRIBUTE_ATTACK OR ITEM_ATTRIBUTE_DEFENSE OR ITEM_ATTRIBUTE_EXTRADEFENSE OR ITEM_ATTRIBUTE_ARMOR OR
     ITEM_ATTRIBUTE_HITCHANCE OR ITEM_ATTRIBUTE_SHOOTRANGE OR ITEM_ATTRIBUTE_OWNER OR ITEM_ATTRIBUTE_DURATION OR
     ITEM_ATTRIBUTE_DECAYSTATE OR ITEM_ATTRIBUTE_CORPSEOWNER OR ITEM_ATTRIBUTE_CHARGES OR ITEM_ATTRIBUTE_FLUIDTYPE OR
     ITEM_ATTRIBUTE_DOORID OR ITEM_ATTRIBUTE_DURATION_TIMESTAMP OR ITEM_ATTRIBUTE_WRAPID OR ITEM_ATTRIBUTE_STOREITEM OR
     ITEM_ATTRIBUTE_ATTACK_SPEED OR ITEM_ATTRIBUTE_CLASSIFICATION OR ITEM_ATTRIBUTE_TIER OR
     ITEM_ATTRIBUTE_REDUCESKILLLOSS OR ITEM_ATTRIBUTE_DROPBONUS"

definition stringAttributeTypes :: u32 where
  "stringAttributeTypes =
     ucast (ITEM_ATTRIBUTE_DESCRIPTION OR ITEM_ATTRIBUTE_TEXT OR ITEM_ATTRIBUTE_WRITER OR ITEM_ATTRIBUTE_NAME OR
       ITEM_ATTRIBUTE_ARTICLE OR ITEM_ATTRIBUTE_PLURALNAME)"

definition isIntAttrType :: "itemAttrTypes \<Rightarrow> bool" where
  "isIntAttrType type \<longleftrightarrow> type AND intAttributeTypes = type"

definition isStrAttrType :: "itemAttrTypes \<Rightarrow> bool" where
  "isStrAttrType type \<longleftrightarrow> type AND ucast stringAttributeTypes = type"

definition isCustomAttrType :: "itemAttrTypes \<Rightarrow> bool" where
  "isCustomAttrType type \<longleftrightarrow> type AND ITEM_ATTRIBUTE_CUSTOM = type"

section \<open>The attributes\<close>

datatype CustomAttribute = CNone | CStr "u8 list" | CInt s64 | CDouble u64 | CBool bool

datatype AttrValue = VNone | VInt s64 | VStr "u8 list" | VCustom "(u8 list \<times> CustomAttribute) list"

record ItemAttributes =
  attributes :: "(itemAttrTypes \<times> AttrValue) list"
  attributeBits :: u64
  reflect :: "(u16 \<times> u16 \<times> u16) list"
  boostPercent :: "(u16 \<times> u16) list"

definition new_ItemAttributes :: ItemAttributes where
  "new_ItemAttributes = \<lparr>attributes = [], attributeBits = 0, reflect = [], boostPercent = []\<rparr>"

definition hasAttribute :: "itemAttrTypes \<Rightarrow> ItemAttributes \<Rightarrow> bool" where
  "hasAttribute type a \<longleftrightarrow> type AND attributeBits a \<noteq> 0"

definition getExistingAttr :: "itemAttrTypes \<Rightarrow> ItemAttributes \<Rightarrow> AttrValue option" where
  "getExistingAttr type a = (if hasAttribute type a then map_of (attributes a) type else None)"

fun subst_first :: "'k \<Rightarrow> 'k \<times> 'v \<Rightarrow> ('k \<times> 'v) list \<Rightarrow> ('k \<times> 'v) list" where
  "subst_first k e [] = []"
| "subst_first k e (x # xs) = (if fst x = k then e # xs else x # subst_first k e xs)"

text \<open>
  \<open>getAttr(type)\<close> followed by an assignment to the value of the attribute it returns: the first attribute of the
  type, or a new one at the end.
\<close>

definition put_attr :: "itemAttrTypes \<Rightarrow> AttrValue \<Rightarrow> ItemAttributes \<Rightarrow> ItemAttributes" where
  "put_attr type v a =
     (if hasAttribute type a \<and> type \<in> fst ` set (attributes a)
      then a\<lparr>attributes := subst_first type (type, v) (attributes a)\<rparr>
      else a\<lparr>attributeBits := attributeBits a OR type, attributes := attributes a @ [(type, v)]\<rparr>)"

definition getStrAttr :: "itemAttrTypes \<Rightarrow> ItemAttributes \<Rightarrow> u8 list" where
  "getStrAttr type a =
     (if \<not> isStrAttrType type then []
      else case getExistingAttr type a of Some (VStr s) \<Rightarrow> s | _ \<Rightarrow> [])"

definition setStrAttr :: "itemAttrTypes \<Rightarrow> u8 list \<Rightarrow> ItemAttributes \<Rightarrow> ItemAttributes" where
  "setStrAttr type v a =
     (if \<not> isStrAttrType type then a
      else if v = [] then a
      else put_attr type (VStr v) a)"

definition getIntAttr :: "itemAttrTypes \<Rightarrow> ItemAttributes \<Rightarrow> s64" where
  "getIntAttr type a =
     (if \<not> isIntAttrType type then 0
      else case getExistingAttr type a of Some (VInt i) \<Rightarrow> i | _ \<Rightarrow> 0)"

definition setIntAttr :: "itemAttrTypes \<Rightarrow> s64 \<Rightarrow> ItemAttributes \<Rightarrow> ItemAttributes" where
  "setIntAttr type v a =
     (if \<not> isIntAttrType type then a
      else put_attr type (VInt (if type = ITEM_ATTRIBUTE_ATTACK_SPEED \<and> sint v < 100 then 100 else v)) a)"

definition increaseIntAttr :: "itemAttrTypes \<Rightarrow> s64 \<Rightarrow> ItemAttributes \<Rightarrow> ItemAttributes" where
  "increaseIntAttr type v a = setIntAttr type (getIntAttr type a + v) a"

text \<open>
  The loop of \<open>removeAttribute\<close> looks for the type from the end of the vector, and puts the last attribute where it
  finds it. (The vector is not empty when a bit is set.)
\<close>

definition vector_remove :: "'k \<Rightarrow> ('k \<times> 'v) list \<Rightarrow> ('k \<times> 'v) list" where
  "vector_remove t xs =
     (if xs = [] then []
      else if fst (last xs) = t then butlast xs
      else if t \<in> fst ` set (butlast xs) then rev (subst_first t (last xs) (rev (butlast xs)))
      else xs)"

definition removeAttribute :: "itemAttrTypes \<Rightarrow> ItemAttributes \<Rightarrow> ItemAttributes" where
  "removeAttribute type a =
     (if \<not> hasAttribute type a then a
      else a\<lparr>attributes := vector_remove type (attributes a), attributeBits := attributeBits a AND NOT type\<rparr>)"

section \<open>Custom attributes\<close>

definition asLowerCaseBytes :: "u8 list \<Rightarrow> u8 list" where
  "asLowerCaseBytes = map (\<lambda>b. if 65 \<le> b \<and> b \<le> 90 then b + 32 else b)"

definition getCustomAttributeMap :: "ItemAttributes \<Rightarrow> (u8 list \<times> CustomAttribute) list option" where
  "getCustomAttributeMap a =
     (if \<not> hasAttribute ITEM_ATTRIBUTE_CUSTOM a then None
      else case getExistingAttr ITEM_ATTRIBUTE_CUSTOM a of Some (VCustom m) \<Rightarrow> Some m | _ \<Rightarrow> None)"

definition getCustomAttribute :: "u8 list \<Rightarrow> ItemAttributes \<Rightarrow> CustomAttribute option" where
  "getCustomAttribute k a =
     (case getCustomAttributeMap a of None \<Rightarrow> None | Some m \<Rightarrow> map_of m (asLowerCaseBytes k))"

definition removeCustomAttribute :: "u8 list \<Rightarrow> ItemAttributes \<Rightarrow> bool \<times> ItemAttributes" where
  "removeCustomAttribute k a =
     (case getCustomAttributeMap a of
        None \<Rightarrow> (False, a)
      | Some m \<Rightarrow>
          let lk = asLowerCaseBytes k; m1 = filter (\<lambda>(j, _). j \<noteq> lk) m
          in if lk \<notin> fst ` set m then (False, a)
             else if m1 = [] then (True, removeAttribute ITEM_ATTRIBUTE_CUSTOM a)
             else (True, put_attr ITEM_ATTRIBUTE_CUSTOM (VCustom m1) a))"

definition setCustomAttribute :: "u8 list \<Rightarrow> CustomAttribute \<Rightarrow> ItemAttributes \<Rightarrow> ItemAttributes" where
  "setCustomAttribute k v a0 =
     (let a = (if hasAttribute ITEM_ATTRIBUTE_CUSTOM a0 then snd (removeCustomAttribute k a0) else a0);
          m = (case getCustomAttributeMap a of Some m \<Rightarrow> m | None \<Rightarrow> []);
          lk = asLowerCaseBytes k
      in put_attr ITEM_ATTRIBUTE_CUSTOM (VCustom (if lk \<in> fst ` set m then m else m @ [(lk, v)])) a)"

section \<open>Comparing items\<close>

text \<open>\<open>None\<close> is the exception of \<^verbatim>\<open>std::get\<close> on a value of another alternative.\<close>

definition same_values :: "itemAttrTypes \<Rightarrow> AttrValue \<Rightarrow> AttrValue \<Rightarrow> bool option" where
  "same_values type v w =
     (if isStrAttrType type
      then case (v, w) of (VStr s, VStr t) \<Rightarrow> Some (s = t) | _ \<Rightarrow> None
      else case (v, w) of (VInt i, VInt j) \<Rightarrow> Some (i = j) | _ \<Rightarrow> None)"

fun compare_with :: "itemAttrTypes \<times> AttrValue \<Rightarrow> (itemAttrTypes \<times> AttrValue) list \<Rightarrow> bool option" where
  "compare_with (t, v) [] = Some True"
| "compare_with (t, v) ((u, w) # rest) =
     (if t \<noteq> u then compare_with (t, v) rest
      else case same_values t v w of
          None \<Rightarrow> None
        | Some False \<Rightarrow> Some False
        | Some True \<Rightarrow> compare_with (t, v) rest)"

fun compare_all :: "(itemAttrTypes \<times> AttrValue) list \<Rightarrow> (itemAttrTypes \<times> AttrValue) list \<Rightarrow> bool option" where
  "compare_all [] other = Some True"
| "compare_all (x # xs) other =
     (case compare_with x other of
        None \<Rightarrow> None
      | Some False \<Rightarrow> Some False
      | Some True \<Rightarrow> compare_all xs other)"

text \<open>The comparison of the attributes of two items of the same type; \<open>None\<close> is a null pointer to attributes.\<close>

definition attributes_equal :: "ItemAttributes option \<Rightarrow> ItemAttributes option \<Rightarrow> bool option" where
  "attributes_equal x y =
     (case x of
        None \<Rightarrow> Some (case y of None \<Rightarrow> True | Some b \<Rightarrow> attributeBits b = 0)
      | Some a \<Rightarrow>
          (case y of
             None \<Rightarrow> Some (attributeBits a = 0)
           | Some b \<Rightarrow>
               if attributeBits a \<noteq> attributeBits b then Some False
               else compare_all (attributes a) (attributes b)))"

section \<open>The attributes are a map\<close>

definition single :: "itemAttrTypes \<Rightarrow> bool" where
  "single t \<longleftrightarrow> (\<exists>n < 64. t = 2 ^ n)"

definition lower_keys :: "(u8 list \<times> CustomAttribute) list \<Rightarrow> bool" where
  "lower_keys m \<longleftrightarrow> distinct (map fst m) \<and> (\<forall>k \<in> fst ` set m. asLowerCaseBytes k = k)"

fun value_ok :: "itemAttrTypes \<Rightarrow> AttrValue \<Rightarrow> bool" where
  "value_ok t VNone \<longleftrightarrow> False"
| "value_ok t (VInt i) \<longleftrightarrow> isIntAttrType t"
| "value_ok t (VStr s) \<longleftrightarrow> isStrAttrType t \<and> s \<noteq> []"
| "value_ok t (VCustom m) \<longleftrightarrow> t = ITEM_ATTRIBUTE_CUSTOM \<and> m \<noteq> [] \<and> lower_keys m"

text \<open>
  The bits say which types occur in the vector, each once, and each with a value of its kind.
\<close>

definition attributes_ok :: "ItemAttributes \<Rightarrow> bool" where
  "attributes_ok a \<longleftrightarrow> distinct (map fst (attributes a)) \<and>
     (\<forall>(t, v) \<in> set (attributes a). single t \<and> value_ok t v) \<and>
     (\<forall>n < 64. bit (attributeBits a) n \<longleftrightarrow> 2 ^ n \<in> fst ` set (attributes a))"

definition attr_map :: "ItemAttributes \<Rightarrow> itemAttrTypes \<Rightarrow> AttrValue option" where
  "attr_map a = map_of (attributes a)"

lemma power_inj:
  assumes "n < 64" and "m < 64"
  shows "(2 :: u64) ^ n = 2 ^ m \<longleftrightarrow> n = m"
proof
  assume e: "(2 :: u64) ^ n = 2 ^ m"
  have "bit ((2 :: u64) ^ n) n" using assms by (simp add: bit_exp_iff)
  then have "bit ((2 :: u64) ^ m) n" by (simp only: e)
  then show "n = m" by (simp add: bit_exp_iff)
qed simp

lemma hasAttribute_iff:
  assumes "attributes_ok a" and "single t"
  shows "hasAttribute t a \<longleftrightarrow> t \<in> dom (attr_map a)"
proof -
  from assms(2) obtain n where n: "n < 64" "t = 2 ^ n" by (auto simp: single_def)
  have "hasAttribute t a \<longleftrightarrow> bit (attributeBits a) n"
    by (simp add: hasAttribute_def n and.commute and_exp_eq_0_iff_not_bit)
  with assms(1) n show ?thesis by (simp add: attributes_ok_def attr_map_def dom_map_of_conv_image_fst)
qed

lemma attributes_bits: "attributes_ok a \<Longrightarrow> n < 64 \<Longrightarrow> bit (attributeBits a) n \<longleftrightarrow> 2 ^ n \<in> fst ` set (attributes a)"
  by (simp add: attributes_ok_def)

lemma getExistingAttr_map: "attributes_ok a \<Longrightarrow> single t \<Longrightarrow> getExistingAttr t a = attr_map a t"
  by (auto simp: getExistingAttr_def hasAttribute_iff attr_map_def dom_def)

lemma map_of_append_new: "k \<notin> fst ` set xs \<Longrightarrow> map_of (xs @ [(k, v)]) = (map_of xs)(k \<mapsto> v)"
  by (induction xs) (auto simp: fun_eq_iff)

lemma map_of_subst_first:
  "k \<in> fst ` set xs \<Longrightarrow> map_of (subst_first k (k, v) xs) = (map_of xs)(k \<mapsto> v)"
proof (induction xs)
  case (Cons x xs)
  then show ?case by (cases "fst x = k") (auto simp: fun_eq_iff image_iff)
qed simp

lemma keys_subst_first: "map fst (subst_first k (k, v) xs) = map fst xs"
  by (induction xs) auto

lemma set_subst_first: "set (subst_first k e xs) \<subseteq> insert e (set xs)"
  by (induction xs) auto

lemma put_attr_map: "attr_map (put_attr t v a) = (attr_map a)(t \<mapsto> v)"
  if "attributes_ok a" "single t"
proof (cases "t \<in> fst ` set (attributes a)")
  case True
  then have "hasAttribute t a" using that by (simp add: hasAttribute_iff attr_map_def dom_map_of_conv_image_fst)
  with True show ?thesis by (simp add: put_attr_def attr_map_def map_of_subst_first)
next
  case False
  then show ?thesis by (simp add: put_attr_def attr_map_def map_of_append_new del: map_of_append)
qed

lemma put_attr_ok:
  assumes "attributes_ok a" and "single t" and "value_ok t v"
  shows "attributes_ok (put_attr t v a)"
proof (cases "t \<in> fst ` set (attributes a)")
  case True
  then have h: "hasAttribute t a" using assms by (simp add: hasAttribute_iff attr_map_def dom_map_of_conv_image_fst)
  have "fst ` set (subst_first t (t, v) (attributes a)) = fst ` set (attributes a)"
    by (metis keys_subst_first set_map)
  with True h assms set_subst_first[of t "(t, v)" "attributes a"] show ?thesis
    by (auto simp: attributes_ok_def put_attr_def keys_subst_first)
next
  case False
  from assms(2) obtain n where n: "n < 64" "t = 2 ^ n" by (auto simp: single_def)
  have "bit (attributeBits a OR t) m \<longleftrightarrow> 2 ^ m \<in> insert t (fst ` set (attributes a))" if "m < 64" for m
    using attributes_bits[OF assms(1) that] power_inj[OF that n(1)] that n by (auto simp: bit_or_iff bit_exp_iff)
  with False assms show ?thesis by (auto simp: attributes_ok_def put_attr_def)
qed

lemma subst_first_append: "k \<notin> fst ` set xs \<Longrightarrow> subst_first k e (xs @ ys) = xs @ subst_first k e ys"
  by (induction xs) auto

lemma map_of_remove_middle:
  "distinct (map fst (p @ (t, v) # q)) \<Longrightarrow> map_of (p @ q) = (map_of (p @ (t, v) # q))(t := None)"
  by (auto simp: map_add_def fun_eq_iff map_of_eq_None_iff image_iff split: option.splits)

lemma vector_remove_cases:
  assumes "distinct (map fst xs)" and "t \<in> fst ` set xs"
  obtains p v q r where "xs = p @ (t, v) # q" and "vector_remove t xs = p @ r" and "set r = set q" and "distinct (map fst r)"
proof -
  from assms(2) obtain v where "(t, v) \<in> set xs" by auto
  then obtain p q where xs: "xs = p @ (t, v) # q" by (meson split_list)
  show ?thesis
  proof (cases q rule: rev_cases)
    case Nil
    then show ?thesis using that[of p v q "[]"] xs by (simp add: vector_remove_def)
  next
    case (snoc q' l)
    have "fst l \<noteq> t" "t \<notin> fst ` set (rev q')" using assms(1) xs snoc by (auto simp: image_iff)
    then have "vector_remove t xs = p @ l # q'"
      using xs snoc subst_first_append[of t "rev q'" l "(t, v) # rev p"] by (simp add: vector_remove_def butlast_append)
    then show ?thesis using that[of p v q "l # q'"] xs snoc assms(1) by auto
  qed
qed

lemma vector_remove_props:
  assumes "distinct (map fst xs)" and "t \<in> fst ` set xs"
  shows "map_of (vector_remove t xs) = (map_of xs)(t := None)" and "distinct (map fst (vector_remove t xs))"
    and "set (vector_remove t xs) \<subseteq> set xs" and "fst ` set (vector_remove t xs) = fst ` set xs - {t}"
proof -
  obtain p v q r where xs: "xs = p @ (t, v) # q" and r: "vector_remove t xs = p @ r" "set r = set q" "distinct (map fst r)"
    by (rule vector_remove_cases[OF assms])
  have q: "map_of q = map_of r" using xs assms(1) r(2,3) by (intro map_of_inject_set[THEN iffD2]) auto
  show "map_of (vector_remove t xs) = (map_of xs)(t := None)"
    unfolding r(1) using map_of_remove_middle[of p t v q] assms(1) by (simp add: xs q)
  show "distinct (map fst (vector_remove t xs))" using assms(1) xs r by auto
  show "set (vector_remove t xs) \<subseteq> set xs" using xs r by auto
  show "fst ` set (vector_remove t xs) = fst ` set xs - {t}" using assms(1) xs r by (auto simp: image_iff)
qed

lemma removeAttribute_map:
  assumes "attributes_ok a" and "single t"
  shows "attr_map (removeAttribute t a) = (attr_map a)(t := None)"
proof (cases "t \<in> fst ` set (attributes a)")
  case True
  moreover have "hasAttribute t a" using True assms by (simp add: hasAttribute_iff attr_map_def dom_map_of_conv_image_fst)
  ultimately show ?thesis
    using vector_remove_props(1)[of "attributes a" t] assms(1)
    by (simp add: removeAttribute_def attr_map_def attributes_ok_def)
next
  case False
  moreover have "\<not> hasAttribute t a" using False assms by (simp add: hasAttribute_iff attr_map_def dom_map_of_conv_image_fst)
  ultimately show ?thesis by (simp add: removeAttribute_def attr_map_def fun_upd_idem map_of_eq_None_iff)
qed

lemma removeAttribute_ok:
  assumes "attributes_ok a" and "single t"
  shows "attributes_ok (removeAttribute t a)"
proof (cases "hasAttribute t a")
  case True
  then have t: "t \<in> fst ` set (attributes a)" using assms by (simp add: hasAttribute_iff attr_map_def dom_map_of_conv_image_fst)
  from assms(2) obtain n where n: "n < 64" "t = 2 ^ n" by (auto simp: single_def)
  have "bit (attributeBits a AND NOT t) m \<longleftrightarrow> 2 ^ m \<in> fst ` set (attributes a) - {t}" if "m < 64" for m
    using attributes_bits[OF assms(1) that] power_inj[OF that n(1)] that n by (auto simp: bit_and_iff bit_not_iff bit_exp_iff)
  moreover have d: "distinct (map fst (attributes a))" using assms(1) by (simp add: attributes_ok_def)
  ultimately show ?thesis
    using True vector_remove_props(2-4)[OF d t] assms(1) unfolding attributes_ok_def removeAttribute_def by simp blast
qed (use assms in \<open>simp add: removeAttribute_def\<close>)

lemma ok_value: "attributes_ok a \<Longrightarrow> attr_map a t = Some v \<Longrightarrow> single t \<and> value_ok t v"
  by (auto simp: attributes_ok_def attr_map_def dest!: map_of_SomeD)

lemma power_and:
  assumes n: "n < 64"
  shows "(2 :: u64) ^ n AND w = 2 ^ n \<longleftrightarrow> bit w n"
proof
  assume "(2 :: u64) ^ n AND w = 2 ^ n"
  then have "bit (2 ^ n AND w) n \<longleftrightarrow> bit ((2 :: u64) ^ n) n" by simp
  with n show "bit w n" by (simp add: bit_and_iff bit_exp_iff)
next
  assume "bit w n"
  then show "(2 :: u64) ^ n AND w = 2 ^ n" by (intro bit_word_eqI) (auto simp: bit_and_iff bit_exp_iff)
qed

lemma int_not_str:
  assumes "single t" and "isIntAttrType t"
  shows "\<not> isStrAttrType t" "t \<noteq> ITEM_ATTRIBUTE_CUSTOM"
proof -
  from assms(1) obtain n where n: "n < 64" "t = 2 ^ n" by (auto simp: single_def)
  have m: "intAttributeTypes AND ucast stringAttributeTypes = 0"
    by (simp add: intAttributeTypes_def stringAttributeTypes_def)
  have "bit intAttributeTypes n" using assms(2) n by (simp add: isIntAttrType_def power_and)
  moreover have "\<not> bit (intAttributeTypes AND ucast stringAttributeTypes) n" by (simp add: m)
  ultimately show "\<not> isStrAttrType t" using n by (simp add: isStrAttrType_def power_and bit_and_iff)
  show "t \<noteq> ITEM_ATTRIBUTE_CUSTOM" using assms(2) by (auto simp: isIntAttrType_def intAttributeTypes_def)
qed

lemma single_power: "n < 64 \<Longrightarrow> single (2 ^ n)"
  by (auto simp: single_def)

lemma custom_single [simp]: "single ITEM_ATTRIBUTE_CUSTOM"
  using single_power[of 34] by simp

lemma custom_kind [simp]: "\<not> isIntAttrType ITEM_ATTRIBUTE_CUSTOM" "\<not> isStrAttrType ITEM_ATTRIBUTE_CUSTOM"
  by (simp_all add: isIntAttrType_def isStrAttrType_def intAttributeTypes_def stringAttributeTypes_def)

declare ITEM_ATTRIBUTE_CUSTOM_def [simp del]

lemma new_ok: "attributes_ok new_ItemAttributes"
  by (simp add: attributes_ok_def new_ItemAttributes_def)

lemma setIntAttr_ok: "attributes_ok a \<Longrightarrow> single t \<Longrightarrow> attributes_ok (setIntAttr t v a)"
  by (simp add: setIntAttr_def put_attr_ok)

lemma setStrAttr_ok: "attributes_ok a \<Longrightarrow> single t \<Longrightarrow> attributes_ok (setStrAttr t v a)"
  by (simp add: setStrAttr_def put_attr_ok)

lemma asLowerCaseBytes_idem: "asLowerCaseBytes (asLowerCaseBytes k) = asLowerCaseBytes k"
proof -
  have "(\<not> (65 \<le> b + 32 \<and> b + 32 \<le> 90))" if "65 \<le> b" "b \<le> 90" for b :: u8
    using that by unat_arith
  then show ?thesis by (auto simp: asLowerCaseBytes_def)
qed

text \<open>The map of custom attributes, which may be empty.\<close>

definition custom_map :: "ItemAttributes \<Rightarrow> u8 list \<Rightarrow> CustomAttribute option" where
  "custom_map a = (case attr_map a ITEM_ATTRIBUTE_CUSTOM of Some (VCustom m) \<Rightarrow> map_of m | _ \<Rightarrow> (\<lambda>_. None))"

lemma custom_value:
  assumes "attributes_ok a" and "attr_map a ITEM_ATTRIBUTE_CUSTOM = Some v"
  obtains m where "v = VCustom m" and "m \<noteq> []" and "lower_keys m"
  using ok_value[OF assms] by (cases v) auto

lemma getCustomAttributeMap_cases:
  assumes "attributes_ok a"
  shows "(case attr_map a ITEM_ATTRIBUTE_CUSTOM of None \<Rightarrow> getCustomAttributeMap a = None
     | Some v \<Rightarrow> \<exists>m. v = VCustom m \<and> getCustomAttributeMap a = Some m \<and> m \<noteq> [] \<and> lower_keys m)"
  using hasAttribute_iff[OF assms custom_single] getExistingAttr_map[OF assms custom_single]
  by (auto simp: getCustomAttributeMap_def dom_def split: option.splits elim: custom_value[OF assms])

lemma getCustomAttribute_map: "attributes_ok a \<Longrightarrow> getCustomAttribute k a = custom_map a (asLowerCaseBytes k)"
  using getCustomAttributeMap_cases[of a]
  by (auto simp: getCustomAttribute_def custom_map_def split: option.splits)

lemma map_of_filter_ne: "map_of (filter (\<lambda>(j, _). j \<noteq> k) m) = (map_of m)(k := None)"
  by (induction m) (auto simp: fun_eq_iff)

lemma lower_keys_Nil: "lower_keys []"
  by (simp add: lower_keys_def)

lemma lower_keys_filter: "lower_keys m \<Longrightarrow> lower_keys (filter P m)"
  by (auto simp: lower_keys_def distinct_map_filter)

lemma removeCustomAttribute_map:
  assumes "attributes_ok a"
  shows "attributes_ok (snd (removeCustomAttribute k a))"
    and "custom_map (snd (removeCustomAttribute k a)) = (custom_map a)(asLowerCaseBytes k := None)"
    and "t \<noteq> ITEM_ATTRIBUTE_CUSTOM \<Longrightarrow> attr_map (snd (removeCustomAttribute k a)) t = attr_map a t"
proof -
  let ?k = "asLowerCaseBytes k" let ?P = "\<lambda>(j, _). j \<noteq> ?k"
  have "attributes_ok (snd (removeCustomAttribute k a)) \<and>
    custom_map (snd (removeCustomAttribute k a)) = (custom_map a)(?k := None) \<and>
    (t \<noteq> ITEM_ATTRIBUTE_CUSTOM \<longrightarrow> attr_map (snd (removeCustomAttribute k a)) t = attr_map a t)"
  proof (cases "attr_map a ITEM_ATTRIBUTE_CUSTOM")
    case None
    then show ?thesis
      using getCustomAttributeMap_cases[OF assms] assms
      by (simp add: removeCustomAttribute_def custom_map_def fun_upd_idem)
  next
    case (Some v)
    with getCustomAttributeMap_cases[OF assms] obtain m
      where m: "v = VCustom m" "getCustomAttributeMap a = Some m" "m \<noteq> []" "lower_keys m" by auto
    have *: "filter ?P m \<noteq> [] \<Longrightarrow> value_ok ITEM_ATTRIBUTE_CUSTOM (VCustom (filter ?P m))"
      using lower_keys_filter[OF m(4)] by simp
    have **: "(map_of m)(?k := None) = (\<lambda>_. None)" if "filter ?P m = []"
      using map_of_filter_ne[of ?k m] that by simp
    show ?thesis
      using m Some assms put_attr_ok[OF assms custom_single *] removeAttribute_ok[OF assms custom_single]
      by (auto simp: removeCustomAttribute_def Let_def custom_map_def put_attr_map removeAttribute_map map_of_filter_ne **
          fun_upd_idem map_of_eq_None_iff)
  qed
  then show "attributes_ok (snd (removeCustomAttribute k a))"
    and "custom_map (snd (removeCustomAttribute k a)) = (custom_map a)(?k := None)"
    and "t \<noteq> ITEM_ATTRIBUTE_CUSTOM \<Longrightarrow> attr_map (snd (removeCustomAttribute k a)) t = attr_map a t" by auto
qed

lemma setCustomAttribute_map:
  assumes "attributes_ok a"
  shows "attributes_ok (setCustomAttribute k v a)"
    and "custom_map (setCustomAttribute k v a) = (custom_map a)(asLowerCaseBytes k \<mapsto> v)"
    and "t \<noteq> ITEM_ATTRIBUTE_CUSTOM \<Longrightarrow> attr_map (setCustomAttribute k v a) t = attr_map a t"
proof -
  let ?k = "asLowerCaseBytes k"
  define b where "b = (if hasAttribute ITEM_ATTRIBUTE_CUSTOM a then snd (removeCustomAttribute k a) else a)"
  define m where "m = (case getCustomAttributeMap b of Some m \<Rightarrow> m | None \<Rightarrow> [])"
  have b: "attributes_ok b" "t \<noteq> ITEM_ATTRIBUTE_CUSTOM \<Longrightarrow> attr_map b t = attr_map a t" for t
    using removeCustomAttribute_map[OF assms] assms by (auto simp: b_def)
  have "custom_map a = (\<lambda>_. None)" if "\<not> hasAttribute ITEM_ATTRIBUTE_CUSTOM a"
    using hasAttribute_iff[OF assms custom_single] that by (auto simp: custom_map_def dom_def)
  then have bm: "custom_map b = (custom_map a)(?k := None)"
    using removeCustomAttribute_map(2)[OF assms] by (auto simp: b_def)
  have m: "map_of m = custom_map b" "lower_keys m"
    using getCustomAttributeMap_cases[OF b(1)] by (auto simp: m_def custom_map_def lower_keys_Nil split: option.splits)
  have k: "?k \<notin> fst ` set m" using m(1) bm by (metis fun_upd_same map_of_eq_None_iff)
  have s: "setCustomAttribute k v a = put_attr ITEM_ATTRIBUTE_CUSTOM (VCustom (m @ [(?k, v)])) b"
    unfolding setCustomAttribute_def Let_def b_def[symmetric] m_def[symmetric] using k by simp
  have ok: "value_ok ITEM_ATTRIBUTE_CUSTOM (VCustom (m @ [(?k, v)]))"
    using m(2) k by (auto simp: lower_keys_def asLowerCaseBytes_idem)
  show "attributes_ok (setCustomAttribute k v a)" unfolding s by (rule put_attr_ok[OF b(1) custom_single ok])
  show "custom_map (setCustomAttribute k v a) = (custom_map a)(?k \<mapsto> v)"
    unfolding s using map_of_append_new[OF k, of v] bm
    by (simp add: custom_map_def[of "put_attr _ _ _"] put_attr_map[OF b(1) custom_single] m(1) del: map_of_append)
  show "t \<noteq> ITEM_ATTRIBUTE_CUSTOM \<Longrightarrow> attr_map (setCustomAttribute k v a) t = attr_map a t"
    unfolding s by (simp add: put_attr_map[OF b(1) custom_single] b(2))
qed

text \<open>What can be made of fresh attributes.\<close>

inductive built :: "ItemAttributes \<Rightarrow> bool" where
  fresh: "built new_ItemAttributes"
| int: "built a \<Longrightarrow> single t \<Longrightarrow> built (setIntAttr t i a)"
| increase: "built a \<Longrightarrow> single t \<Longrightarrow> built (increaseIntAttr t i a)"
| str: "built a \<Longrightarrow> single t \<Longrightarrow> built (setStrAttr t s a)"
| remove: "built a \<Longrightarrow> single t \<Longrightarrow> built (removeAttribute t a)"
| custom: "built a \<Longrightarrow> built (setCustomAttribute k v a)"
| remove_custom: "built a \<Longrightarrow> built (snd (removeCustomAttribute k a))"

lemma built_ok: "built a \<Longrightarrow> attributes_ok a"
  by (induction rule: built.induct)
    (simp_all add: new_ok setIntAttr_ok increaseIntAttr_def setStrAttr_ok removeAttribute_ok setCustomAttribute_map(1)
      removeCustomAttribute_map(1))

text \<open>The abstract operations: attributes as a map, custom attributes as a second one under lower case keys.\<close>

definition int_value :: "AttrValue option \<Rightarrow> s64" where
  "int_value v = (case v of Some (VInt i) \<Rightarrow> i | _ \<Rightarrow> 0)"

definition str_value :: "AttrValue option \<Rightarrow> u8 list" where
  "str_value v = (case v of Some (VStr s) \<Rightarrow> s | _ \<Rightarrow> [])"

definition at_least_100 :: "itemAttrTypes \<Rightarrow> s64 \<Rightarrow> s64" where
  "at_least_100 t i = (if t = ITEM_ATTRIBUTE_ATTACK_SPEED \<and> sint i < 100 then 100 else i)"

lemma str_not_int: "single t \<Longrightarrow> isStrAttrType t \<Longrightarrow> \<not> isIntAttrType t"
  using int_not_str by blast

lemma attributes_map_laws:
  assumes "built a" and "single t"
  shows "hasAttribute t a \<longleftrightarrow> attr_map a t \<noteq> None"
    and "getIntAttr t a = int_value (attr_map a t)" and "getStrAttr t a = str_value (attr_map a t)"
    and "attr_map (setIntAttr t i a) = (if isIntAttrType t then (attr_map a)(t \<mapsto> VInt (at_least_100 t i)) else attr_map a)"
    and "attr_map (setStrAttr t s a) = (if isStrAttrType t \<and> s \<noteq> [] then (attr_map a)(t \<mapsto> VStr s) else attr_map a)"
    and "attr_map (removeAttribute t a) = (attr_map a)(t := None)"
    and "getCustomAttribute j (setCustomAttribute k v a) =
      (if asLowerCaseBytes j = asLowerCaseBytes k then Some v else getCustomAttribute j a)"
    and "getCustomAttribute j (snd (removeCustomAttribute k a)) =
      (if asLowerCaseBytes j = asLowerCaseBytes k then None else getCustomAttribute j a)"
    and "attr_map a t = Some w \<Longrightarrow> isIntAttrType t \<and> (\<exists>i. w = VInt i) \<or> isStrAttrType t \<and> (\<exists>s. w = VStr s) \<or>
      t = ITEM_ATTRIBUTE_CUSTOM \<and> (\<exists>m. w = VCustom m)"
proof -
  note ok = built_ok[OF assms(1)]
  show "hasAttribute t a \<longleftrightarrow> attr_map a t \<noteq> None" using hasAttribute_iff[OF ok assms(2)] by auto
  show "attr_map a t = Some w \<Longrightarrow> isIntAttrType t \<and> (\<exists>i. w = VInt i) \<or> isStrAttrType t \<and> (\<exists>s. w = VStr s) \<or>
      t = ITEM_ATTRIBUTE_CUSTOM \<and> (\<exists>m. w = VCustom m)"
    using ok_value[OF ok, of t w] by (cases w) auto
  show "getIntAttr t a = int_value (attr_map a t)"
    using ok_value[OF ok, of t] getExistingAttr_map[OF ok assms(2)]
    by (auto simp: getIntAttr_def int_value_def split: option.splits AttrValue.splits)
  show "getStrAttr t a = str_value (attr_map a t)"
    using ok_value[OF ok, of t] getExistingAttr_map[OF ok assms(2)]
    by (auto simp: getStrAttr_def str_value_def split: option.splits AttrValue.splits)
  show "attr_map (setIntAttr t i a) = (if isIntAttrType t then (attr_map a)(t \<mapsto> VInt (at_least_100 t i)) else attr_map a)"
    by (simp add: setIntAttr_def put_attr_map[OF ok assms(2)] at_least_100_def)
  show "attr_map (setStrAttr t s a) = (if isStrAttrType t \<and> s \<noteq> [] then (attr_map a)(t \<mapsto> VStr s) else attr_map a)"
    by (simp add: setStrAttr_def put_attr_map[OF ok assms(2)])
  show "attr_map (removeAttribute t a) = (attr_map a)(t := None)" by (rule removeAttribute_map[OF ok assms(2)])
  show "getCustomAttribute j (setCustomAttribute k v a) =
      (if asLowerCaseBytes j = asLowerCaseBytes k then Some v else getCustomAttribute j a)"
    using setCustomAttribute_map(1,2)[OF ok, of k v] ok by (simp add: getCustomAttribute_map)
  show "getCustomAttribute j (snd (removeCustomAttribute k a)) =
      (if asLowerCaseBytes j = asLowerCaseBytes k then None else getCustomAttribute j a)"
    using removeCustomAttribute_map(1,2)[OF ok, of k] ok by (simp add: getCustomAttribute_map)
qed

text \<open>
  Claim C18. The bit set and the vector of an item's attributes implement a map from attribute types to values,
  whatever operations they have been through: an attribute is present when the map has it, the getters give the value
  of the map and never meet a value of another kind, setting an integer or text changes this entry only (and nothing
  when the type is not one of its kind), removing takes it out; custom attributes are found under their key in any
  case of letters, with the value last set.
\<close>

theorem attributes_refine_map:
  assumes "built a" and "single t"
  shows "(hasAttribute t a \<longleftrightarrow> attr_map a t \<noteq> None) \<and>
    getIntAttr t a = int_value (attr_map a t) \<and> getStrAttr t a = str_value (attr_map a t) \<and>
    attr_map (setIntAttr t i a) = (if isIntAttrType t then (attr_map a)(t \<mapsto> VInt (at_least_100 t i)) else attr_map a) \<and>
    attr_map (setStrAttr t s a) = (if isStrAttrType t \<and> s \<noteq> [] then (attr_map a)(t \<mapsto> VStr s) else attr_map a) \<and>
    attr_map (removeAttribute t a) = (attr_map a)(t := None) \<and>
    getCustomAttribute j (setCustomAttribute k v a) =
      (if asLowerCaseBytes j = asLowerCaseBytes k then Some v else getCustomAttribute j a) \<and>
    getCustomAttribute j (snd (removeCustomAttribute k a)) =
      (if asLowerCaseBytes j = asLowerCaseBytes k then None else getCustomAttribute j a) \<and>
    (\<forall>w. attr_map a t = Some w \<longrightarrow> isIntAttrType t \<and> (\<exists>i. w = VInt i) \<or> isStrAttrType t \<and> (\<exists>s. w = VStr s) \<or>
      t = ITEM_ATTRIBUTE_CUSTOM \<and> (\<exists>m. w = VCustom m))"
  by (intro conjI allI impI attributes_map_laws[OF assms])

theorem attributes_refine_map_witness:
  "getIntAttr ITEM_ATTRIBUTE_CHARGES (setIntAttr ITEM_ATTRIBUTE_CHARGES 7
     (removeAttribute ITEM_ATTRIBUTE_TEXT (setStrAttr ITEM_ATTRIBUTE_TEXT [72, 105] new_ItemAttributes))) = 7"
proof -
  have s: "single ITEM_ATTRIBUTE_CHARGES" "single ITEM_ATTRIBUTE_TEXT"
    using single_power[of 20] single_power[of 3] by simp_all
  let ?a = "removeAttribute ITEM_ATTRIBUTE_TEXT (setStrAttr ITEM_ATTRIBUTE_TEXT [72, 105] new_ItemAttributes)"
  have b: "built ?a" by (intro built.intros s)
  have "isIntAttrType ITEM_ATTRIBUTE_CHARGES" by (simp add: isIntAttrType_def intAttributeTypes_def)
  then show ?thesis
    using attributes_refine_map[OF built.int[OF b s(1)] s(1), of 7] attributes_refine_map[OF b s(1), of 7]
    by (simp add: int_value_def at_least_100_def)
qed

section \<open>Comparing attributes\<close>

lemma compare_with_none: "fst x \<notin> fst ` set other \<Longrightarrow> compare_with x other = Some True"
  by (induction x other rule: compare_with.induct) auto

lemma compare_with_map:
  assumes "distinct (map fst other)" and "map_of other t = Some w"
  shows "compare_with (t, v) other = same_values t v w"
  using assms
proof (induction other)
  case (Cons y ys)
  obtain u x where y: "y = (u, x)" by (cases y)
  show ?case
  proof (cases "t = u")
    case True
    with Cons.prems y have "compare_with (t, v) ys = Some True" by (intro compare_with_none) auto
    with True Cons.prems y show ?thesis by (auto split: option.splits bool.splits)
  next
    case False
    with Cons y show ?thesis by simp
  qed
qed simp

lemma same_values_kinds:
  assumes "single t" and "value_ok t v" and "value_ok t w"
  shows "same_values t v w = (if t = ITEM_ATTRIBUTE_CUSTOM then None else Some (v = w))"
  using assms int_not_str[OF assms(1)] by (cases v; cases w) (auto simp: same_values_def)

definition comparable :: "(itemAttrTypes \<times> AttrValue) list \<Rightarrow> (itemAttrTypes \<times> AttrValue) list \<Rightarrow> bool" where
  "comparable xs other \<longleftrightarrow> distinct (map fst other) \<and>
     (\<forall>(t, v) \<in> set xs. \<exists>w. map_of other t = Some w \<and> single t \<and> value_ok t v \<and> value_ok t w)"

lemma compare_with_comparable:
  assumes "comparable ((t, v) # xs) other"
  shows "compare_with (t, v) other = (if t = ITEM_ATTRIBUTE_CUSTOM then None else Some (map_of other t = Some v))"
    and "comparable xs other"
proof -
  from assms obtain w where w: "map_of other t = Some w" "single t" "value_ok t v" "value_ok t w"
    by (auto simp: comparable_def)
  have d: "distinct (map fst other)" using assms by (simp add: comparable_def)
  show "compare_with (t, v) other = (if t = ITEM_ATTRIBUTE_CUSTOM then None else Some (map_of other t = Some v))"
    unfolding compare_with_map[OF d w(1)] same_values_kinds[OF w(2-4)] by (auto simp: w(1))
  show "comparable xs other" using assms by (auto simp: comparable_def)
qed

lemma compare_all_plain:
  "comparable xs other \<Longrightarrow> ITEM_ATTRIBUTE_CUSTOM \<notin> fst ` set xs \<Longrightarrow>
    compare_all xs other = Some (\<forall>(t, v) \<in> set xs. map_of other t = Some v)"
proof (induction xs)
  case (Cons x xs)
  obtain t v where x: "x = (t, v)" by (cases x)
  note c = compare_with_comparable[OF Cons.prems(1)[unfolded x]]
  show ?case using Cons.IH[OF c(2)] Cons.prems(2) c(1) by (auto simp: x split: bool.splits)
qed simp

lemma compare_all_custom:
  "comparable xs other \<Longrightarrow> \<forall>(t, v) \<in> set xs. t \<noteq> ITEM_ATTRIBUTE_CUSTOM \<longrightarrow> map_of other t = Some v \<Longrightarrow>
    ITEM_ATTRIBUTE_CUSTOM \<in> fst ` set xs \<Longrightarrow> compare_all xs other = None"
proof (induction xs)
  case (Cons x xs)
  obtain t v where x: "x = (t, v)" by (cases x)
  note c = compare_with_comparable[OF Cons.prems(1)[unfolded x]]
  show ?case using Cons.IH[OF c(2)] Cons.prems(2,3) c(1) by (auto simp: x)
qed simp

lemma same_bits_same_keys:
  assumes "attributes_ok a" and "attributes_ok b" and "attributeBits a = attributeBits b"
  shows "fst ` set (attributes a) = fst ` set (attributes b)"
proof -
  have "t \<in> fst ` set (attributes a) \<longleftrightarrow> t \<in> fst ` set (attributes b)" if "single t" for t
    using that attributes_bits[OF assms(1)] attributes_bits[OF assms(2)] assms(3) by (auto simp: single_def)
  moreover have "t \<in> fst ` set (attributes c) \<Longrightarrow> single t" if "attributes_ok c" for t c
    using that by (auto simp: attributes_ok_def)
  ultimately show ?thesis using assms(1,2) by blast
qed

lemma list_map_of_agree:
  assumes "distinct (map fst xs)" and "fst ` set xs = fst ` set ys"
  shows "(\<forall>(t, v) \<in> set xs. map_of ys t = Some v) \<longleftrightarrow> map_of xs = map_of ys"
proof
  assume a: "\<forall>(t, v) \<in> set xs. map_of ys t = Some v"
  show "map_of xs = map_of ys"
  proof
    fix t
    show "map_of xs t = map_of ys t"
    proof (cases "map_of xs t")
      case None
      then show ?thesis using assms(2) by (metis map_of_eq_None_iff)
    next
      case (Some v)
      with a map_of_SomeD[OF Some] show ?thesis by auto
    qed
  qed
next
  assume m: "map_of xs = map_of ys"
  show "\<forall>(t, v) \<in> set xs. map_of ys t = Some v"
    unfolding m[symmetric] using map_of_is_SomeI[OF assms(1)] by auto
qed

lemma same_bits_comparable:
  assumes "attributes_ok a" and "attributes_ok b" and "attributeBits a = attributeBits b"
  shows "comparable (attributes a) (attributes b)"
proof -
  have "\<exists>w. map_of (attributes b) t = Some w \<and> single t \<and> value_ok t v \<and> value_ok t w" if "(t, v) \<in> set (attributes a)" for t v
  proof -
    from that same_bits_same_keys[OF assms] have "t \<in> fst ` set (attributes b)" by (metis fst_conv imageI)
    then obtain w where "map_of (attributes b) t = Some w" by (metis map_of_eq_None_iff option.exhaust)
    with that ok_value[OF assms(2), of t w] assms(1) show ?thesis by (auto simp: attr_map_def attributes_ok_def)
  qed
  then show ?thesis using assms(2) by (auto simp: comparable_def attributes_ok_def)
qed

lemma attributes_equal_cases:
  assumes "built a" and "built b"
  shows "\<not> hasAttribute ITEM_ATTRIBUTE_CUSTOM a \<Longrightarrow> attributes_equal (Some a) (Some b) = Some (attr_map a = attr_map b)"
    and "hasAttribute ITEM_ATTRIBUTE_CUSTOM a \<Longrightarrow> hasAttribute ITEM_ATTRIBUTE_CUSTOM b \<Longrightarrow>
      \<forall>t. t \<noteq> ITEM_ATTRIBUTE_CUSTOM \<longrightarrow> attr_map a t = attr_map b t \<Longrightarrow> attributes_equal (Some a) (Some b) = None"
proof -
  note ok = built_ok[OF assms(1)] built_ok[OF assms(2)]
  have dom: "attributeBits a = attributeBits b" if "dom (attr_map a) = dom (attr_map b)"
    using that attributes_bits[OF ok(1)] attributes_bits[OF ok(2)]
    by (intro bit_word_eqI) (simp add: attr_map_def dom_map_of_conv_image_fst)
  have has: "hasAttribute ITEM_ATTRIBUTE_CUSTOM c \<longleftrightarrow> ITEM_ATTRIBUTE_CUSTOM \<in> fst ` set (attributes c)" if "attributes_ok c" for c
    using hasAttribute_iff[OF that custom_single] by (simp add: attr_map_def dom_map_of_conv_image_fst)
  have agree: "(\<forall>(t, v) \<in> set (attributes a). map_of (attributes b) t = Some v) \<longleftrightarrow> attr_map a = attr_map b"
    if "attributeBits a = attributeBits b"
    using ok(1) same_bits_same_keys[OF ok that] unfolding attr_map_def
    by (intro list_map_of_agree) (simp add: attributes_ok_def)+
  show "\<not> hasAttribute ITEM_ATTRIBUTE_CUSTOM a \<Longrightarrow> attributes_equal (Some a) (Some b) = Some (attr_map a = attr_map b)"
    using compare_all_plain[OF same_bits_comparable[OF ok]] has[OF ok(1)] agree dom
    by (auto simp: attributes_equal_def)
  assume c: "hasAttribute ITEM_ATTRIBUTE_CUSTOM a" "hasAttribute ITEM_ATTRIBUTE_CUSTOM b"
    and o: "\<forall>t. t \<noteq> ITEM_ATTRIBUTE_CUSTOM \<longrightarrow> attr_map a t = attr_map b t"
  have "dom (attr_map a) = dom (attr_map b)"
    using o hasAttribute_iff[OF ok(1) custom_single] hasAttribute_iff[OF ok(2) custom_single] c by (metis domIff set_eqI)
  then have bits: "attributeBits a = attributeBits b" by (rule dom)
  have "map_of (attributes b) t = Some v" if "(t, v) \<in> set (attributes a)" "t \<noteq> ITEM_ATTRIBUTE_CUSTOM" for t v
    using o that ok(1) by (metis attr_map_def attributes_ok_def map_of_eq_Some_iff)
  then show "attributes_equal (Some a) (Some b) = None"
    using compare_all_custom[OF same_bits_comparable[OF ok bits]] c(1) has[OF ok(1)] bits by (auto simp: attributes_equal_def)
qed



end
