(* ===== verification/Codec.thy ===== *)
theory Codec
  imports TFS_Prelude
begin

text \<open>
  The contract between a byte writer and a byte reader, as the network messages
  (\<^verbatim>\<open>networkmessage.h\<close>) and the property streams (\<^verbatim>\<open>fileloader.h\<close>) of the server
  share it: a writer appends the encoding of a value to its output, a reader of the same shape takes
  it off its input. The round trip of a whole sequence of values is proved here once.
\<close>

fun take_all :: "('v \<Rightarrow> 'r \<Rightarrow> 'v \<times> 'r) \<Rightarrow> 'v list \<Rightarrow> 'r \<Rightarrow> 'v list \<times> 'r" where
  "take_all t [] r = ([], r)"
| "take_all t (v # vs) r =
     (let (v', r') = t v r; (vs', r'') = take_all t vs r' in (v' # vs', r''))"

definition enc_all :: "('v \<Rightarrow> u8 list) \<Rightarrow> 'v list \<Rightarrow> u8 list" where
  "enc_all enc vs = concat (map enc vs)"

lemma enc_all_simps [simp]: "enc_all enc [] = []" "enc_all enc (v # vs) = enc v @ enc_all enc vs"
  by (simp_all add: enc_all_def)

lemma enc_all_append [simp]: "enc_all enc (vs @ ws) = enc_all enc vs @ enc_all enc ws"
  by (simp add: enc_all_def)

locale stream_codec =
  fixes enc :: "'v \<Rightarrow> u8 list"
    and ok :: "'v \<Rightarrow> bool"
    and put :: "'v \<Rightarrow> 'w \<Rightarrow> 'w"
    and out :: "'w \<Rightarrow> u8 list"
    and room :: "'w \<Rightarrow> nat \<Rightarrow> bool"
    and take_like :: "'v \<Rightarrow> 'r \<Rightarrow> 'v \<times> 'r"
    and pending :: "'r \<Rightarrow> u8 list"
    and live :: "'r \<Rightarrow> bool"
  assumes out_put: "ok v \<Longrightarrow> room w (length (enc v) + n) \<Longrightarrow> out (put v w) = out w @ enc v"
    and room_put: "ok v \<Longrightarrow> room w (length (enc v) + n) \<Longrightarrow> room (put v w) n"
    and take_enc: "ok v \<Longrightarrow> live r \<Longrightarrow> pending r = enc v @ rest \<Longrightarrow>
      fst (take_like v r) = v \<and> pending (snd (take_like v r)) = rest \<and> live (snd (take_like v r))"
begin

lemma out_put_all:
  "\<forall>v \<in> set vs. ok v \<Longrightarrow> room w (length (enc_all enc vs)) \<Longrightarrow>
   out (fold put vs w) = out w @ enc_all enc vs"
proof (induction vs arbitrary: w)
  case (Cons v vs)
  then have "room (put v w) (length (enc_all enc vs))" "out (put v w) = out w @ enc v"
    by (auto intro: room_put out_put)
  with Cons show ?case by simp
qed simp

lemma room_put_all:
  "\<forall>v \<in> set vs. ok v \<Longrightarrow> room w (length (enc_all enc vs)) \<Longrightarrow> room (fold put vs w) 0"
proof (induction vs arbitrary: w)
  case (Cons v vs)
  then have "room (put v w) (length (enc_all enc vs))" by (auto intro: room_put)
  with Cons show ?case by simp
qed simp

lemma take_all_enc:
  "\<forall>v \<in> set vs. ok v \<Longrightarrow> live r \<Longrightarrow> pending r = enc_all enc vs @ rest \<Longrightarrow>
   fst (take_all take_like vs r) = vs \<and> pending (snd (take_all take_like vs r)) = rest \<and> live (snd (take_all take_like vs r))"
proof (induction vs arbitrary: r)
  case (Cons v vs)
  then have "fst (take_like v r) = v \<and> pending (snd (take_like v r)) = enc_all enc vs @ rest
      \<and> live (snd (take_like v r))"
    by (intro take_enc) auto
  with Cons show ?case by (auto simp: split_beta Let_def)
qed simp

lemma roundtrip:
  assumes "\<forall>v \<in> set vs. ok v" and "room w (length (enc_all enc vs))" and "out w = []"
    and "live r" and "pending r = out (fold put vs w)"
  shows "fst (take_all take_like vs r) = vs \<and> pending (snd (take_all take_like vs r)) = []"
  using take_all_enc[of vs r "[]"] out_put_all[of vs w] assms by simp

end

end
