(* ===== verification/PropStreams.thy ===== *)
theory PropStreams
  imports Codec
begin

text \<open>
  The streams of properties in fileloader.h: \<open>PropStream\<close> reads integers and strings from a range of
  bytes, \<open>PropWriteStream\<close> writes them. A reader is the bytes between its two pointers; a read that
  fails leaves it, and the variable read into, as they were. A writer is its buffer.
\<close>

type_synonym PropStream = "u8 list"
type_synonym PropWriteStream = "u8 list"

definition prop_size :: "PropStream \<Rightarrow> nat" where
  "prop_size s = length s"

definition prop_read :: "PropStream \<Rightarrow> 'a::len word option \<times> PropStream" where
  "prop_read s =
     (let n = LENGTH('a) div 8
      in if prop_size s < n then (None, s) else (Some (le_word (take n s)), drop n s))"

definition readString :: "PropStream \<Rightarrow> (u8 list \<times> bool) \<times> PropStream" where
  "readString s =
     (case prop_read s :: u16 option \<times> PropStream of
        (None, s1) \<Rightarrow> (([], False), s1)
      | (Some strLen, s1) \<Rightarrow>
          if prop_size s1 < unat strLen then (([], False), s1)
          else ((take (unat strLen) s1, True), drop (unat strLen) s1))"

definition prop_skip :: "nat \<Rightarrow> PropStream \<Rightarrow> bool \<times> PropStream" where
  "prop_skip n s = (if prop_size s < n then (False, s) else (True, drop n s))"

definition prop_write :: "'a::len word \<Rightarrow> PropWriteStream \<Rightarrow> PropWriteStream" where
  "prop_write v buffer = buffer @ le_bytes (LENGTH('a) div 8) v"

definition writeString :: "u8 list \<Rightarrow> PropWriteStream \<Rightarrow> PropWriteStream" where
  "writeString str buffer =
     (if length str > 65535 then prop_write (0 :: u16) buffer
      else prop_write (of_nat (length str) :: u16) buffer @ str)"

text \<open>No read gives bytes back to the stream.\<close>

lemma prop_read_shorter: "prop_read s = (v, s1) \<Longrightarrow> length s1 \<le> length s"
  by (auto simp: prop_read_def Let_def split: if_splits)

lemma prop_read_Some_shorter:
  "prop_read s = (Some (v :: 'a::len word), s1) \<Longrightarrow> 8 \<le> LENGTH('a) \<Longrightarrow> length s1 < length s"
  by (auto simp: prop_read_def Let_def prop_size_def split: if_splits)

lemma readString_shorter: "readString s = (r, s1) \<Longrightarrow> length s1 \<le> length s"
  by (auto simp: readString_def dest: prop_read_shorter split: prod.splits option.splits if_splits)

lemma prop_skip_shorter: "prop_skip n s = (r, s1) \<Longrightarrow> length s1 \<le> length s"
  by (auto simp: prop_skip_def split: if_splits)

section \<open>What is written is read back\<close>

datatype prop_value = PByte u8 | PU16 u16 | PU32 u32 | PU64 u64 | PStr "u8 list"

fun write_value :: "prop_value \<Rightarrow> PropWriteStream \<Rightarrow> PropWriteStream" where
  "write_value (PByte b) = prop_write b"
| "write_value (PU16 w) = prop_write w"
| "write_value (PU32 w) = prop_write w"
| "write_value (PU64 w) = prop_write w"
| "write_value (PStr v) = writeString v"

text \<open>A value of the same type is read into a variable that holds zero.\<close>

definition read_into :: "('a::len word \<Rightarrow> prop_value) \<Rightarrow> PropStream \<Rightarrow> prop_value \<times> PropStream" where
  "read_into C s = (case prop_read s of (None, s1) \<Rightarrow> (C 0, s1) | (Some w, s1) \<Rightarrow> (C w, s1))"

fun read_value :: "prop_value \<Rightarrow> PropStream \<Rightarrow> prop_value \<times> PropStream" where
  "read_value (PByte _) = read_into PByte"
| "read_value (PU16 _) = read_into PU16"
| "read_value (PU32 _) = read_into PU32"
| "read_value (PU64 _) = read_into PU64"
| "read_value (PStr _) = (\<lambda>s. case readString s of ((v, _), s1) \<Rightarrow> (PStr v, s1))"

fun prop_bytes :: "prop_value \<Rightarrow> u8 list" where
  "prop_bytes (PByte b) = le_bytes 1 b"
| "prop_bytes (PU16 w) = le_bytes 2 w"
| "prop_bytes (PU32 w) = le_bytes 4 w"
| "prop_bytes (PU64 w) = le_bytes 8 w"
| "prop_bytes (PStr v) = le_bytes 2 (of_nat (length v) :: u16) @ v"

fun prop_ok :: "prop_value \<Rightarrow> bool" where
  "prop_ok (PStr v) \<longleftrightarrow> length v \<le> 65535"
| "prop_ok _ \<longleftrightarrow> True"

lemma prop_read_bytes:
  "LENGTH('a) = 8 * n \<Longrightarrow> prop_read (le_bytes n (w :: 'a::len word) @ rest) = (Some w, rest)"
  by (simp add: prop_read_def prop_size_def Let_def)

lemma read_value_bytes: "prop_ok v \<Longrightarrow> read_value v (prop_bytes v @ rest) = (v, rest)"
proof (cases v)
  case (PStr s)
  assume "prop_ok v"
  with PStr have "unat (of_nat (length s) :: u16) = length s" by (simp add: unat_of_nat_lt)
  with PStr show ?thesis
    using prop_read_bytes[of 2 "of_nat (length s) :: u16" "s @ rest"] by (simp add: readString_def prop_size_def)
qed (use prop_read_bytes[where 'a = 8, of 1] prop_read_bytes[where 'a = 16, of 2]
       prop_read_bytes[where 'a = 32, of 4] prop_read_bytes[where 'a = 64, of 8] in
     \<open>simp_all add: read_into_def del: le_bytes.simps\<close>)

interpretation props: stream_codec prop_bytes prop_ok write_value id "\<lambda>_ _. True" read_value id "\<lambda>_. True"
proof unfold_locales
  fix v and w :: PropWriteStream
  assume "prop_ok v"
  then show "id (write_value v w) = id w @ prop_bytes v"
    by (cases v) (simp_all add: prop_write_def writeString_def)
qed (simp_all add: read_value_bytes)

text \<open>
  Properties written to a \<open>PropWriteStream\<close>, with strings of at most 65535 bytes, are read
  back by a \<open>PropStream\<close> in the same order, and nothing is left over.
\<close>

theorem props_roundtrip:
  assumes "\<forall>v \<in> set vs. prop_ok v"
  shows "take_all read_value vs (fold write_value vs []) = (vs, [])"
  using props.roundtrip[OF assms, of "[]" "fold write_value vs []"] by (simp add: prod_eq_iff)

theorem props_roundtrip_witness:
  "list_all prop_ok [PByte 7, PU32 0xDEADBEEF, PStr [72, 105]] \<and>
   take_all read_value [PByte 7, PU32 0xDEADBEEF, PStr [72, 105]]
     (fold write_value [PByte 7, PU32 0xDEADBEEF, PStr [72, 105]] []) = ([PByte 7, PU32 0xDEADBEEF, PStr [72, 105]], [])"
  using props_roundtrip[of "[PByte 7, PU32 0xDEADBEEF, PStr [72, 105]]"] by simp

end
