(* ===== verification/Items.thy ===== *)
theory Items
  imports ItemAttributes PropStreams
begin

text \<open>
  Items (\<^verbatim>\<open>src/src/item.h\<close>, \<^verbatim>\<open>src/src/item.cpp\<close>): the members of an item, its attributes seen through it, its count
  and weight. The table of item types, which is loaded from
  files, is an argument \<open>ty\<close>; \<open>ItemType\<close> has the members that the code here reads. \<open>now\<close> is the clock. Text is a
  list of bytes, a signed integer a word that \<open>sint\<close> reads.
\<close>

unbundle bit_operations_syntax

section \<open>Item types\<close>

datatype WeaponType_t = WEAPON_NONE | WEAPON_SWORD | WEAPON_CLUB | WEAPON_AXE | WEAPON_SHIELD | WEAPON_DISTANCE
  | WEAPON_WAND | WEAPON_AMMO | WEAPON_QUIVER | WEAPON_FIST

record ItemType =
  type_id :: u16
  deprecated :: bool
  isFluid :: bool  \<comment> \<open>\<^verbatim>\<open>isFluidContainer() || isSplash()\<close>\<close>
  stackable :: bool
  type_charges :: u32
  moveable :: bool
  pickupable :: bool  \<comment> \<open>\<^verbatim>\<open>isPickupable()\<close>\<close>
  storeItem :: bool
  weight :: u32
  worth :: u64
  stackSize :: u8
  maxItems :: u16
  weaponType :: WeaponType_t
  imbuementSlot :: u16
  decayTo :: s32
  decayTimeMin :: u32
  decayTimeMax :: u32
  stopTime :: bool

type_synonym Items = "u16 \<Rightarrow> ItemType"

record Imbuement =
  imbuetype :: u8
  imbue_value :: u32
  imbue_duration :: u32
  decaytype :: u8
  baseId :: u16

record Item =
  itemId :: u16
  item_count :: u8
  item_attributes :: "ItemAttributes option"
  imbuementSlots :: u16
  imbuements :: "Imbuement list"
  instanceID :: u32

section \<open>Attributes of an item\<close>

text \<open>\<open>getAttributes()\<close> makes the attributes that are missing.\<close>

definition getAttributes :: "('a) Item_scheme \<Rightarrow> ItemAttributes" where
  "getAttributes it = (case item_attributes it of None \<Rightarrow> new_ItemAttributes | Some a \<Rightarrow> a)"

definition on_attributes :: "(ItemAttributes \<Rightarrow> ItemAttributes) \<Rightarrow> ('a) Item_scheme \<Rightarrow> ('a) Item_scheme" where
  "on_attributes f it = it\<lparr>item_attributes := Some (f (getAttributes it))\<rparr>"

definition Item_getStrAttr :: "itemAttrTypes \<Rightarrow> ('a) Item_scheme \<Rightarrow> u8 list" where
  "Item_getStrAttr t it = (case item_attributes it of None \<Rightarrow> [] | Some a \<Rightarrow> getStrAttr t a)"

definition Item_setStrAttr :: "itemAttrTypes \<Rightarrow> u8 list \<Rightarrow> ('a) Item_scheme \<Rightarrow> ('a) Item_scheme" where
  "Item_setStrAttr t s = on_attributes (setStrAttr t s)"

definition Item_getIntAttr :: "itemAttrTypes \<Rightarrow> ('a) Item_scheme \<Rightarrow> s64" where
  "Item_getIntAttr t it = (case item_attributes it of None \<Rightarrow> 0 | Some a \<Rightarrow> getIntAttr t a)"

definition Item_setIntAttr :: "itemAttrTypes \<Rightarrow> s64 \<Rightarrow> ('a) Item_scheme \<Rightarrow> ('a) Item_scheme" where
  "Item_setIntAttr t i = on_attributes (setIntAttr t i)"

definition Item_removeAttribute :: "itemAttrTypes \<Rightarrow> ('a) Item_scheme \<Rightarrow> ('a) Item_scheme" where
  "Item_removeAttribute t it =
     (case item_attributes it of None \<Rightarrow> it | Some a \<Rightarrow> it\<lparr>item_attributes := Some (removeAttribute t a)\<rparr>)"

definition Item_hasAttribute :: "itemAttrTypes \<Rightarrow> ('a) Item_scheme \<Rightarrow> bool" where
  "Item_hasAttribute t it = (case item_attributes it of None \<Rightarrow> False | Some a \<Rightarrow> hasAttribute t a)"

definition Item_setCustomAttribute :: "u8 list \<Rightarrow> CustomAttribute \<Rightarrow> ('a) Item_scheme \<Rightarrow> ('a) Item_scheme" where
  "Item_setCustomAttribute k v = on_attributes (setCustomAttribute k v)"

definition setActionId :: "u16 \<Rightarrow> ('a) Item_scheme \<Rightarrow> ('a) Item_scheme" where
  "setActionId n = Item_setIntAttr ITEM_ATTRIBUTE_ACTIONID (ucast (if n < 100 then 100 else n))"

definition getActionId :: "('a) Item_scheme \<Rightarrow> u16" where
  "getActionId it = ucast (Item_getIntAttr ITEM_ATTRIBUTE_ACTIONID it)"

definition setCharges :: "u16 \<Rightarrow> ('a) Item_scheme \<Rightarrow> ('a) Item_scheme" where
  "setCharges n = Item_setIntAttr ITEM_ATTRIBUTE_CHARGES (ucast n)"

definition getCharges :: "('a) Item_scheme \<Rightarrow> u16" where
  "getCharges it = ucast (Item_getIntAttr ITEM_ATTRIBUTE_CHARGES it)"

definition setFluidType :: "u16 \<Rightarrow> ('a) Item_scheme \<Rightarrow> ('a) Item_scheme" where
  "setFluidType n = Item_setIntAttr ITEM_ATTRIBUTE_FLUIDTYPE (ucast n)"

definition getFluidType :: "('a) Item_scheme \<Rightarrow> u16" where
  "getFluidType it = ucast (Item_getIntAttr ITEM_ATTRIBUTE_FLUIDTYPE it)"

definition getCorpseOwner :: "('a) Item_scheme \<Rightarrow> u32" where
  "getCorpseOwner it = ucast (Item_getIntAttr ITEM_ATTRIBUTE_CORPSEOWNER it)"

definition setDate :: "s32 \<Rightarrow> ('a) Item_scheme \<Rightarrow> ('a) Item_scheme" where
  "setDate n = Item_setIntAttr ITEM_ATTRIBUTE_DATE (scast n)"

definition DECAYING_FALSE :: u8 where [simp]: "DECAYING_FALSE = 0"
definition DECAYING_TRUE :: u8 where [simp]: "DECAYING_TRUE = 1"
definition DECAYING_PENDING :: u8 where [simp]: "DECAYING_PENDING = 2"
definition DECAYING_STOPPING :: u8 where [simp]: "DECAYING_STOPPING = 3"

definition getDecaying :: "('a) Item_scheme \<Rightarrow> u8" where
  "getDecaying it = ucast (Item_getIntAttr ITEM_ATTRIBUTE_DECAYSTATE it)"

definition setDecaying :: "u8 \<Rightarrow> ('a) Item_scheme \<Rightarrow> ('a) Item_scheme" where
  "setDecaying state = Item_setIntAttr ITEM_ATTRIBUTE_DECAYSTATE (ucast state)"

definition setDuration :: "s32 \<Rightarrow> ('a) Item_scheme \<Rightarrow> ('a) Item_scheme" where
  "setDuration time = Item_setIntAttr ITEM_ATTRIBUTE_DURATION (scast (if sint time < 0 then 0 else time))"

definition getDuration :: "s64 \<Rightarrow> ('a) Item_scheme \<Rightarrow> s32" where
  "getDuration now it =
     (if getDecaying it = DECAYING_TRUE \<or> getDecaying it = DECAYING_STOPPING
      then let left = ucast (Item_getIntAttr ITEM_ATTRIBUTE_DURATION_TIMESTAMP it - now) :: s32
           in if sint left < 0 then 0 else left
      else ucast (Item_getIntAttr ITEM_ATTRIBUTE_DURATION it))"

section \<open>Count, subtype and weight\<close>

definition isStackable :: "Items \<Rightarrow> ('a) Item_scheme \<Rightarrow> bool" where
  "isStackable ty it \<longleftrightarrow> stackable (ty (itemId it))"

definition getItemCount :: "('a) Item_scheme \<Rightarrow> u16" where
  "getItemCount it = ucast (item_count it)"

definition setItemCount :: "u8 \<Rightarrow> ('a) Item_scheme \<Rightarrow> ('a) Item_scheme" where
  "setItemCount n it = it\<lparr>item_count := n\<rparr>"

definition getStackSize :: "Items \<Rightarrow> ('a) Item_scheme \<Rightarrow> u8" where
  "getStackSize ty it = (if isStackable ty it then stackSize (ty (itemId it)) else 1)"

definition getSubType :: "Items \<Rightarrow> ('a) Item_scheme \<Rightarrow> u16" where
  "getSubType ty it =
     (let t = ty (itemId it)
      in if isFluid t then getFluidType it
         else if stackable t then ucast (item_count it)
         else if type_charges t \<noteq> 0 then getCharges it
         else ucast (item_count it))"

definition setSubType :: "Items \<Rightarrow> u16 \<Rightarrow> ('a) Item_scheme \<Rightarrow> ('a) Item_scheme" where
  "setSubType ty n it =
     (let t = ty (itemId it)
      in if isFluid t then setFluidType n it
         else if stackable t then setItemCount (ucast n) it
         else if type_charges t \<noteq> 0 then setCharges n it
         else setItemCount (ucast n) it)"

definition getBaseWeight :: "Items \<Rightarrow> ('a) Item_scheme \<Rightarrow> u32" where
  "getBaseWeight ty it =
     (if Item_hasAttribute ITEM_ATTRIBUTE_WEIGHT it then ucast (Item_getIntAttr ITEM_ATTRIBUTE_WEIGHT it)
      else weight (ty (itemId it)))"

definition Item_getWeight :: "Items \<Rightarrow> ('a) Item_scheme \<Rightarrow> u32" where
  "Item_getWeight ty it =
     (if isStackable ty it then getBaseWeight ty it * max 1 (ucast (getItemCount it)) else getBaseWeight ty it)"

definition getWorth :: "Items \<Rightarrow> ('a) Item_scheme \<Rightarrow> u32" where
  "getWorth ty it = ucast (worth (ty (itemId it)) * ucast (item_count it))"

definition isStoreItem :: "Items \<Rightarrow> ('a) Item_scheme \<Rightarrow> bool" where
  "isStoreItem ty it =
     (if Item_hasAttribute ITEM_ATTRIBUTE_STOREITEM it then Item_getIntAttr ITEM_ATTRIBUTE_STOREITEM it = 1
      else storeItem (ty (itemId it)))"

text \<open>\<open>None\<close> is the exception of a comparison of custom attributes.\<close>

definition equalsIgnoringInstance :: "('a) Item_scheme \<Rightarrow> ('a) Item_scheme \<Rightarrow> bool option" where
  "equalsIgnoringInstance it other =
     (if itemId it \<noteq> itemId other then Some False
      else attributes_equal (item_attributes it) (item_attributes other))"

definition equals :: "('a) Item_scheme \<Rightarrow> ('a) Item_scheme \<Rightarrow> bool option" where
  "equals it other = (if instanceID it \<noteq> instanceID other then Some False else equalsIgnoringInstance it other)"

text \<open>\<open>duration\<close> is the decay time in milliseconds that \<^verbatim>\<open>normal_random\<close> gives for the new type.\<close>

definition setID :: "Items \<Rightarrow> u32 \<Rightarrow> u16 \<Rightarrow> ('a) Item_scheme \<Rightarrow> ('a) Item_scheme" where
  "setID ty duration newid it0 =
     (let prevIt = ty (itemId it0); t = ty newid; it = it0\<lparr>itemId := newid\<rparr>;
          it1 = (if duration = 0 \<and> \<not> stopTime t \<and> sint (decayTo t) < 0
                 then Item_removeAttribute ITEM_ATTRIBUTE_DURATION
                   (if Item_hasAttribute ITEM_ATTRIBUTE_DECAYSTATE it then setDecaying DECAYING_STOPPING it else it)
                 else it);
          it2 = Item_removeAttribute ITEM_ATTRIBUTE_CORPSEOWNER it1
      in if duration > 0 \<and> (\<not> stopTime prevIt \<or> \<not> Item_hasAttribute ITEM_ATTRIBUTE_DURATION it2)
         then setDuration duration (setDecaying DECAYING_PENDING it2) else it2)"

definition addImbuementSlots :: "u16 \<Rightarrow> ('a) Item_scheme \<Rightarrow> bool \<times> ('a) Item_scheme" where
  "addImbuementSlots amount it =
     (if length (imbuements it) mod 65536 + unat amount \<ge> 65535 then (False, it)
      else (True, it\<lparr>imbuementSlots := imbuementSlots it + amount\<rparr>))"

text \<open>The constructor; \<open>duration\<close> is the default duration that \<open>setDefaultDuration\<close> draws.\<close>

definition new_Item :: "Items \<Rightarrow> u32 \<Rightarrow> u16 \<Rightarrow> u16 \<Rightarrow> Item" where
  "new_Item ty duration type cnt =
     (let t = ty type;
          it = \<lparr>itemId = type, item_count = 1, item_attributes = None, imbuementSlots = 0, imbuements = [], instanceID = 0\<rparr>;
          it1 = (if isFluid t then setFluidType cnt it
                 else if stackable t
                 then (if cnt \<noteq> 0 then setItemCount (ucast cnt) it
                       else if type_charges t \<noteq> 0 then setItemCount (ucast (type_charges t)) it else it)
                 else if type_charges t \<noteq> 0
                 then setCharges (if cnt \<noteq> 0 then cnt else ucast (type_charges t)) it
                 else it);
          it2 = (if imbuementSlot t \<noteq> 0 then snd (addImbuementSlots (imbuementSlot t) it1) else it1)
      in if duration \<noteq> 0 then setDuration duration it2 else it2)"

end
