(* ===== verification/Containers.thy ===== *)
theory Containers
  imports Items Enums
begin

text \<open>
  Containers (\<^verbatim>\<open>src/src/container.h\<close>, \<^verbatim>\<open>src/src/container.cpp\<close>): the objects of a heap, each an item with the
  cylinder that holds it and, for a container, its list of items, its capacity and the cached weight and ammunition
  of its contents. A cylinder is a container or something else (a tile, a player, the virtual cylinder), known by a
  number. Walking from a container to the cylinders around it is a loop that ends only when no container holds itself;
  \<open>None\<close> is the result of a loop that does not end and of a comparison of items that throws. Messages to the clients
  and the scripts they run are left out.
\<close>

datatype Cylinder = CContainer nat | COther nat

datatype container_class = PlainContainer | DepotLocker | RewardChest | StoreInbox | DepotChest | Inbox

record Container =
  itemlist :: "nat list"
  maxSize :: u32
  pagination :: bool
  ammoCount :: u32
  totalWeight :: u32
  container_class :: container_class

record Obj = Item +
  parent :: "Cylinder option"
  contents :: "Container option"

type_synonym heap = "nat \<Rightarrow> Obj"

definition ITEM_BROWSEFIELD :: u16 where [simp]: "ITEM_BROWSEFIELD = 0xFFFF"
definition ITEM_MALE_CORPSE :: u16 where [simp]: "ITEM_MALE_CORPSE = 4240"
definition ITEM_FEMALE_CORPSE :: u16 where [simp]: "ITEM_FEMALE_CORPSE = 4247"
definition ITEM_REWARD_CONTAINER :: u16 where [simp]: "ITEM_REWARD_CONTAINER = 19202"
definition ITEM_GOLD_POUCH :: u16 where [simp]: "ITEM_GOLD_POUCH = 23721"

definition INDEX_WHEREEVER :: s32 where [simp]: "INDEX_WHEREEVER = -1"
definition FLAG_CHILDISOWNER :: u32 where [simp]: "FLAG_CHILDISOWNER = 8"
definition FLAG_IGNORENOTMOVEABLE :: u32 where [simp]: "FLAG_IGNORENOTMOVEABLE = 64"
definition FLAG_IGNOREAUTOSTACK :: u32 where [simp]: "FLAG_IGNOREAUTOSTACK = 128"

definition hasBitSet :: "u32 \<Rightarrow> u32 \<Rightarrow> bool" where
  "hasBitSet flag flags \<longleftrightarrow> flags AND flag \<noteq> 0"

definition new_Container :: "container_class \<Rightarrow> u16 \<Rightarrow> u16 \<Rightarrow> Container" where
  "new_Container k type sz =
     \<lparr>itemlist = [], maxSize = ucast sz, pagination = (type = ITEM_GOLD_POUCH \<or> type = ITEM_BROWSEFIELD),
      ammoCount = 0, totalWeight = 0, container_class = k\<rparr>"

section \<open>State\<close>

definition on_contents :: "(Container \<Rightarrow> Container) \<Rightarrow> nat \<Rightarrow> heap \<Rightarrow> heap" where
  "on_contents f c h = h(c := (h c)\<lparr>contents := map_option f (contents (h c))\<rparr>)"

definition setParent :: "Cylinder option \<Rightarrow> nat \<Rightarrow> heap \<Rightarrow> heap" where
  "setParent p x h = h(x := (h x)\<lparr>parent := p\<rparr>)"

definition on_item :: "(Obj \<Rightarrow> Obj) \<Rightarrow> nat \<Rightarrow> heap \<Rightarrow> heap" where
  "on_item f x h = h(x := f (h x))"

definition getItemList :: "heap \<Rightarrow> nat \<Rightarrow> nat list" where
  "getItemList h c = (case contents (h c) of None \<Rightarrow> [] | Some k \<Rightarrow> itemlist k)"

definition capacity :: "heap \<Rightarrow> nat \<Rightarrow> u32" where
  "capacity h c = (case contents (h c) of None \<Rightarrow> 0 | Some k \<Rightarrow> maxSize k)"

definition getWeight :: "Items \<Rightarrow> Obj \<Rightarrow> u32" where
  "getWeight ty x =
     (case contents x of None \<Rightarrow> Item_getWeight ty x | Some k \<Rightarrow> Item_getWeight ty x + totalWeight k)"

definition getWeaponType :: "Items \<Rightarrow> Obj \<Rightarrow> WeaponType_t" where
  "getWeaponType ty x = weaponType (ty (itemId x))"

definition updateAmmoCount :: "Items \<Rightarrow> Obj \<Rightarrow> s32 \<Rightarrow> nat \<Rightarrow> heap \<Rightarrow> heap" where
  "updateAmmoCount ty x diff =
     (if getWeaponType ty x \<noteq> WEAPON_AMMO \<or> diff = 0 then (\<lambda>_ h. h)
      else if sint diff > 0 then on_contents (\<lambda>k. k\<lparr>ammoCount := ammoCount k + diff\<rparr>)
      else on_contents (\<lambda>k. k\<lparr>ammoCount := ammoCount k - min (ammoCount k) (- diff)\<rparr>))"

partial_function (option) updateItemWeight :: "s32 \<Rightarrow> nat \<Rightarrow> heap \<Rightarrow> heap option" where
  "updateItemWeight diff c h =
     (let h1 = on_contents (\<lambda>k. k\<lparr>totalWeight := totalWeight k + diff\<rparr>) c h
      in case parent (h1 c) of
           Some (CContainer p) \<Rightarrow> updateItemWeight diff p h1
         | _ \<Rightarrow> Some h1)"

section \<open>Operations\<close>

definition push_front :: "nat \<Rightarrow> nat \<Rightarrow> heap \<Rightarrow> heap" where
  "push_front x = on_contents (\<lambda>k. k\<lparr>itemlist := x # itemlist k\<rparr>)"

definition push_back :: "nat \<Rightarrow> nat \<Rightarrow> heap \<Rightarrow> heap" where
  "push_back x = on_contents (\<lambda>k. k\<lparr>itemlist := itemlist k @ [x]\<rparr>)"

definition addItem :: "Items \<Rightarrow> nat \<Rightarrow> nat \<Rightarrow> heap \<Rightarrow> heap" where
  "addItem ty c x h =
     (let h1 = setParent (Some (CContainer c)) x (push_back x c h)
      in updateAmmoCount ty (h1 x) (ucast (getItemCount (h1 x))) c h1)"

text \<open>The steps that \<open>addThing\<close> and \<open>internalAddThing\<close> share.\<close>

definition insert_front :: "Items \<Rightarrow> nat \<Rightarrow> nat \<Rightarrow> heap \<Rightarrow> heap option" where
  "insert_front ty c x h =
     (let h1 = push_front x c (setParent (Some (CContainer c)) x h);
          h2 = updateAmmoCount ty (h1 x) (ucast (getItemCount (h1 x))) c h1
      in updateItemWeight (getWeight ty (h2 x)) c h2)"

definition addThing :: "Items \<Rightarrow> s32 \<Rightarrow> nat \<Rightarrow> nat \<Rightarrow> heap \<Rightarrow> heap option" where
  "addThing ty index c x h =
     (if sint index \<ge> sint (capacity h c) then Some h else insert_front ty c x h)"

definition addItemBack :: "Items \<Rightarrow> nat \<Rightarrow> nat \<Rightarrow> heap \<Rightarrow> heap option" where
  "addItemBack ty c x h = (let h1 = addItem ty c x h in updateItemWeight (getWeight ty (h1 x)) c h1)"

definition internalAddThing :: "Items \<Rightarrow> nat \<Rightarrow> nat \<Rightarrow> heap \<Rightarrow> heap option" where
  "internalAddThing ty c x h =
     map_option (\<lambda>h1.
       if itemId (h1 c) = ITEM_REWARD_CONTAINER \<and> isStackable ty (h1 x)
       then on_item (Item_removeAttribute ITEM_ATTRIBUTE_REWARDID \<circ> Item_removeAttribute ITEM_ATTRIBUTE_DATE) x h1
       else h1) (insert_front ty c x h)"

fun index_of :: "nat \<Rightarrow> nat list \<Rightarrow> nat option" where
  "index_of x [] = None"
| "index_of x (y # ys) = (if y = x then Some 0 else map_option Suc (index_of x ys))"

definition getThingIndex :: "heap \<Rightarrow> nat \<Rightarrow> nat \<Rightarrow> int" where
  "getThingIndex h c x = (case index_of x (getItemList h c) of None \<Rightarrow> -1 | Some i \<Rightarrow> int i)"

definition getItemByIndex :: "heap \<Rightarrow> nat \<Rightarrow> nat \<Rightarrow> nat option" where
  "getItemByIndex h c i = (if i \<ge> length (getItemList h c) then None else Some (getItemList h c ! i))"

text \<open>\<open>duration\<close> is what \<^verbatim>\<open>setID\<close> draws for the decay time of the new type.\<close>

definition updateThing :: "Items \<Rightarrow> u32 \<Rightarrow> nat \<Rightarrow> nat \<Rightarrow> u16 \<Rightarrow> u32 \<Rightarrow> heap \<Rightarrow> heap option" where
  "updateThing ty duration c x newId cnt h =
     (if getThingIndex h c x = -1 then Some h
      else let oldWeight = getWeight ty (h x);
               h1 = updateAmmoCount ty (h x) (- ucast (getItemCount (h x))) c h;
               h2 = on_item (setSubType ty (ucast cnt) \<circ> setID ty duration newId) x h1;
               h3 = updateAmmoCount ty (h2 x) (ucast (getItemCount (h2 x))) c h2
           in updateItemWeight (- oldWeight + getWeight ty (h3 x)) c h3)"

definition replaceThing :: "Items \<Rightarrow> nat \<Rightarrow> nat \<Rightarrow> nat \<Rightarrow> heap \<Rightarrow> heap option" where
  "replaceThing ty index c x h =
     (case getItemByIndex h c index of
        None \<Rightarrow> Some h
      | Some old \<Rightarrow>
          let h1 = setParent (Some (CContainer c)) x (on_contents (\<lambda>k. k\<lparr>itemlist := (itemlist k)[index := x]\<rparr>) c h)
          in map_option (\<lambda>h2.
               let h3 = updateAmmoCount ty (h2 old) (- ucast (getItemCount (h2 old))) c h2;
                   h4 = updateAmmoCount ty (h3 x) (ucast (getItemCount (h3 x))) c h3
               in setParent None old h4)
             (updateItemWeight (- getWeight ty (h1 old) + getWeight ty (h1 x)) c h1))"

definition removeThing :: "Items \<Rightarrow> nat \<Rightarrow> nat \<Rightarrow> u32 \<Rightarrow> heap \<Rightarrow> heap option" where
  "removeThing ty c x cnt h =
     (if getThingIndex h c x = -1 then Some h
      else if isStackable ty (h x) \<and> cnt \<noteq> ucast (getItemCount (h x))
      then let left = ucast (getItemCount (h x)) - cnt :: s32;
               newCount = (if sint left < 0 then 0 else ucast left :: u8);
               oldWeight = getWeight ty (h x);
               h1 = updateAmmoCount ty (h x) (- (ucast (getItemCount (h x)) - ucast newCount)) c h;
               h2 = on_item (setItemCount newCount) x h1
           in updateItemWeight (- oldWeight + getWeight ty (h2 x)) c h2
      else map_option (\<lambda>h1.
             let h2 = updateAmmoCount ty (h1 x) (- ucast (getItemCount (h1 x))) c h1
             in on_contents (\<lambda>k. k\<lparr>itemlist := remove1 x (itemlist k)\<rparr>) c (setParent None x h2))
           (updateItemWeight (- getWeight ty (h x)) c h))"

section \<open>Everything inside a container\<close>

partial_function (option) iterator_loop :: "heap \<Rightarrow> nat list \<Rightarrow> nat list \<Rightarrow> nat list option" where
  "iterator_loop h pending items =
     (case pending of
        [] \<Rightarrow> Some items
      | c # rest \<Rightarrow>
          iterator_loop h (rest @ filter (\<lambda>x. contents (h x) \<noteq> None) (getItemList h c)) (items @ getItemList h c))"

definition iterator :: "heap \<Rightarrow> nat \<Rightarrow> nat list option" where
  "iterator h c = iterator_loop h [c] []"

definition getItems :: "heap \<Rightarrow> nat \<Rightarrow> bool \<Rightarrow> nat list option" where
  "getItems h c recursive = (if recursive then iterator h c else Some (getItemList h c))"

definition getItemHoldingCount :: "heap \<Rightarrow> nat \<Rightarrow> u32 option" where
  "getItemHoldingCount h c = map_option (\<lambda>xs. of_nat (length xs)) (iterator h c)"

definition isHoldingItem :: "heap \<Rightarrow> nat \<Rightarrow> nat \<Rightarrow> bool option" where
  "isHoldingItem h c x = map_option (\<lambda>xs. x \<in> set xs) (iterator h c)"

definition countByType :: "Items \<Rightarrow> Obj \<Rightarrow> s32 \<Rightarrow> u32" where
  "countByType ty x subType =
     (if subType = -1 \<or> subType = ucast (getSubType ty x) then ucast (getItemCount x) else 0)"

definition getItemTypeCount :: "Items \<Rightarrow> heap \<Rightarrow> nat \<Rightarrow> u16 \<Rightarrow> s32 \<Rightarrow> u32" where
  "getItemTypeCount ty h c itemid subType =
     sum_list (map (\<lambda>x. if itemId (h x) = itemid then countByType ty (h x) subType else 0) (getItemList h c))"

definition getAllItemTypeCount :: "heap \<Rightarrow> nat \<Rightarrow> (u32 \<Rightarrow> u32) \<Rightarrow> u32 \<Rightarrow> u32" where
  "getAllItemTypeCount h c =
     fold (\<lambda>x m. m(ucast (itemId (h x)) := m (ucast (itemId (h x))) + ucast (getItemCount (h x)))) (getItemList h c)"

definition container_size :: "heap \<Rightarrow> nat \<Rightarrow> bool \<Rightarrow> nat option" where
  "container_size h c recursive = map_option length (getItems h c recursive)"

definition isRewardCorpse :: "heap \<Rightarrow> nat \<Rightarrow> bool" where
  "isRewardCorpse h c \<longleftrightarrow> (\<exists>x \<in> set (getItemList h c). itemId (h x) = ITEM_REWARD_CONTAINER)"

section \<open>The cylinders around a container\<close>

text \<open>
  What the queries ask of the rest of the server. \<open>carrier\<close> is the cylinder of another cylinder (the tile of a player);
  \<open>houseOf\<close> the house on whose tile a cylinder stands; \<open>ownerQueryAdd\<close> the answer of a player or tile that carries the
  container.
\<close>

record House_query =
  getProtected :: bool
  canModifyItems :: bool
  isInvited :: bool

record Query_env =
  actor :: bool
  actorIsPlayer :: bool
  onlyInvited :: bool
  carrier :: "nat \<Rightarrow> nat option"
  isCreature :: "nat \<Rightarrow> bool"
  houseOf :: "Cylinder \<Rightarrow> House_query option"
  ownerQueryAdd :: "nat \<Rightarrow> nat \<Rightarrow> u32 \<Rightarrow> u32 \<Rightarrow> ReturnValue"

definition cylinder_parent :: "Query_env \<Rightarrow> heap \<Rightarrow> Cylinder \<Rightarrow> Cylinder option" where
  "cylinder_parent env h cyl =
     (case cyl of CContainer c \<Rightarrow> parent (h c) | COther n \<Rightarrow> map_option COther (carrier env n))"

text \<open>The loop of \<open>queryAdd\<close> over the cylinders around the container: does it meet the thing?\<close>

partial_function (option) surrounded_loop :: "Query_env \<Rightarrow> heap \<Rightarrow> nat \<Rightarrow> Cylinder \<Rightarrow> bool option" where
  "surrounded_loop env h x cyl =
     (if cyl = CContainer x then Some True
      else case cylinder_parent env h cyl of
          None \<Rightarrow> Some False
        | Some p \<Rightarrow> surrounded_loop env h x p)"

definition surrounded_by :: "Query_env \<Rightarrow> heap \<Rightarrow> nat \<Rightarrow> nat \<Rightarrow> bool option" where
  "surrounded_by env h x c = (case parent (h c) of None \<Rightarrow> Some False | Some p \<Rightarrow> surrounded_loop env h x p)"

partial_function (option) topParent_loop :: "Query_env \<Rightarrow> heap \<Rightarrow> Cylinder \<Rightarrow> Cylinder \<Rightarrow> Cylinder option" where
  "topParent_loop env h aux prevaux =
     (case cylinder_parent env h aux of
        None \<Rightarrow> Some prevaux
      | Some p \<Rightarrow> topParent_loop env h p aux)"

definition getTopParent :: "Query_env \<Rightarrow> heap \<Rightarrow> nat \<Rightarrow> Cylinder option" where
  "getTopParent env h c =
     (case parent (h c) of None \<Rightarrow> Some (CContainer c) | Some aux \<Rightarrow> topParent_loop env h aux (CContainer c))"

section \<open>Queries\<close>

definition hasCapacityLimit :: "heap \<Rightarrow> nat \<Rightarrow> bool" where
  "hasCapacityLimit h c \<longleftrightarrow>
     (case contents (h c) of
        None \<Rightarrow> False
      | Some k \<Rightarrow> itemId (h c) \<noteq> ITEM_GOLD_POUCH \<and> \<not> pagination k \<and> container_class k = PlainContainer)"

definition getFreeSlotsFor :: "Items \<Rightarrow> heap \<Rightarrow> nat \<Rightarrow> nat \<Rightarrow> u32 \<Rightarrow> u32" where
  "getFreeSlotsFor ty h c x cnt =
     (let currentSize = length (getItemList h c);
          freeSlots = (if currentSize < unat (capacity h c) then capacity h c - of_nat currentSize else 0)
      in if parent (h x) = Some (CContainer c) \<and> (\<not> isStackable ty (h x) \<or> cnt \<ge> ucast (getItemCount (h x)))
         then freeSlots + 1 else freeSlots)"

definition canStackWith :: "Items \<Rightarrow> heap \<Rightarrow> nat \<Rightarrow> nat \<Rightarrow> bool option" where
  "canStackWith ty h x y =
     (if y = x then Some False
      else map_option (\<lambda>e. e \<and> getItemCount (h y) < ucast (getStackSize ty (h y))) (equals (h y) (h x)))"

fun any_stack :: "Items \<Rightarrow> heap \<Rightarrow> nat \<Rightarrow> nat list \<Rightarrow> bool option" where
  "any_stack ty h x [] = Some False"
| "any_stack ty h x (y # ys) =
     (case canStackWith ty h x y of
        None \<Rightarrow> None
      | Some True \<Rightarrow> Some True
      | Some False \<Rightarrow> any_stack ty h x ys)"

definition item_at :: "heap \<Rightarrow> nat \<Rightarrow> s32 \<Rightarrow> nat option" where
  "item_at h c index = (if sint index < 0 then None else getItemByIndex h c (unat index))"

definition canMergeIntoExistingStack :: "Items \<Rightarrow> heap \<Rightarrow> nat \<Rightarrow> nat \<Rightarrow> s32 \<Rightarrow> bool option" where
  "canMergeIntoExistingStack ty h c x index =
     (if \<not> isStackable ty (h x) then Some False
      else if index = INDEX_WHEREEVER then any_stack ty h x (getItemList h c)
      else case item_at h c index of None \<Rightarrow> Some False | Some y \<Rightarrow> canStackWith ty h x y)"

definition hasRoomForItem :: "Items \<Rightarrow> heap \<Rightarrow> nat \<Rightarrow> nat \<Rightarrow> s32 \<Rightarrow> u32 \<Rightarrow> bool option" where
  "hasRoomForItem ty h c x index cnt =
     (if \<not> hasCapacityLimit h c \<or> getFreeSlotsFor ty h c x cnt > 0 then Some True
      else canMergeIntoExistingStack ty h c x index)"

definition class_of :: "heap \<Rightarrow> nat \<Rightarrow> container_class option" where
  "class_of h c = map_option container_class (contents (h c))"

definition is_creature :: "Query_env \<Rightarrow> Cylinder \<Rightarrow> bool" where
  "is_creature env cyl = (case cyl of CContainer _ \<Rightarrow> False | COther n \<Rightarrow> isCreature env n)"

text \<open>The rules of houses that \<open>queryAdd\<close> and \<open>queryRemove\<close> share; \<open>None\<close> when they do not refuse.\<close>

definition house_refuses :: "Query_env \<Rightarrow> Cylinder \<Rightarrow> ReturnValue option" where
  "house_refuses env topParent =
     (case houseOf env topParent of
        None \<Rightarrow> None
      | Some house \<Rightarrow>
          if getProtected house \<and> actor env \<and> \<not> is_creature env topParent \<and> \<not> canModifyItems house
          then Some RETURNVALUE_CANNOTMOVEITEMISPROTECTED
          else if actor env \<and> onlyInvited env \<and> \<not> is_creature env topParent \<and> \<not> isInvited house
          then Some RETURNVALUE_PLAYERISNOTINVITED
          else None)"

text \<open>The answer of a container that is asked by one of its children.\<close>

definition queryAdd_owner :: "heap \<Rightarrow> nat \<Rightarrow> ReturnValue" where
  "queryAdd_owner h c =
     (if itemId (h c) = ITEM_BROWSEFIELD then RETURNVALUE_NOTPOSSIBLE else RETURNVALUE_NOERROR)"

definition queryAdd :: "Items \<Rightarrow> Query_env \<Rightarrow> heap \<Rightarrow> nat \<Rightarrow> s32 \<Rightarrow> nat \<Rightarrow> u32 \<Rightarrow> u32 \<Rightarrow> ReturnValue option" where
  "queryAdd ty env h c index x cnt flags =
     (if itemId (h c) = ITEM_BROWSEFIELD then Some RETURNVALUE_NOTPOSSIBLE
      else if hasBitSet FLAG_CHILDISOWNER flags then Some RETURNVALUE_NOERROR
      else if \<not> pickupable (ty (itemId (h x))) then Some RETURNVALUE_CANNOTPICKUP
      else if x = c then Some RETURNVALUE_THISISIMPOSSIBLE
      else if isStoreItem ty (h x) \<and> class_of h c \<noteq> Some DepotChest \<and> class_of h c \<noteq> Some StoreInbox
      then Some RETURNVALUE_ITEMCANNOTBEMOVEDTHERE
      else if getCorpseOwner (h c) \<noteq> 0 \<and> getCorpseOwner (h c) \<noteq> 0x7FFFFFFF \<and>
        itemId (h c) \<noteq> ITEM_MALE_CORPSE \<and> itemId (h c) \<noteq> ITEM_FEMALE_CORPSE \<and> actor env \<and> actorIsPlayer env
      then Some RETURNVALUE_CANNOTPLACEITEMINMONSTERCORPSE
      else if getWeaponType ty (h c) = WEAPON_QUIVER \<and> getWeaponType ty (h x) \<noteq> WEAPON_AMMO
      then Some RETURNVALUE_QUIVERAMMOONLY
      else if isStoreItem ty (h c) \<and> (case parent (h c) of Some (CContainer p) \<Rightarrow> class_of h p = Some StoreInbox | _ \<Rightarrow> False)
      then Some (if isStoreItem ty (h x) then RETURNVALUE_ITEMCANNOTBEMOVEDTHERE else RETURNVALUE_CANNOTMOVEITEMISNOTSTOREITEM)
      else Option.bind (surrounded_by env h x c) (\<lambda>inside.
        if inside then Some RETURNVALUE_THISISIMPOSSIBLE
        else Option.bind (hasRoomForItem ty h c x index cnt) (\<lambda>room.
          if \<not> room then Some RETURNVALUE_CONTAINERNOTENOUGHROOM
          else Option.bind (getTopParent env h c) (\<lambda>topParent.
            case house_refuses env topParent of
              Some ret \<Rightarrow> Some ret
            | None \<Rightarrow>
                if topParent = CContainer c then Some RETURNVALUE_NOERROR
                else case topParent of
                    CContainer p \<Rightarrow> Some (queryAdd_owner h p)
                  | COther n \<Rightarrow> Some (ownerQueryAdd env n x cnt (flags OR FLAG_CHILDISOWNER))))))"

text \<open>
  The room in stacks of the same kind: the loop of \<open>queryMaxCount\<close> asks \<open>queryAdd\<close> for every slot, without an actor.
\<close>

fun stack_room :: "Items \<Rightarrow> Query_env \<Rightarrow> heap \<Rightarrow> nat \<Rightarrow> nat \<Rightarrow> u32 \<Rightarrow> u32 \<Rightarrow> s32 \<Rightarrow> nat list \<Rightarrow> u32 option" where
  "stack_room ty env h c x cnt flags slot [] = Some 0"
| "stack_room ty env h c x cnt flags slot (y # ys) =
     Option.bind (canStackWith ty h x y) (\<lambda>stacks.
       Option.bind (if stacks then queryAdd ty env h c slot x cnt flags else Some RETURNVALUE_NOTPOSSIBLE) (\<lambda>ret.
         map_option (\<lambda>n. (if ret = RETURNVALUE_NOERROR
             then ucast (getStackSize ty (h y)) - ucast (getItemCount (h y)) else 0) + n)
           (stack_room ty env h c x cnt flags (slot + 1) ys)))"

definition queryMaxCount ::
  "Items \<Rightarrow> Query_env \<Rightarrow> heap \<Rightarrow> nat \<Rightarrow> s32 \<Rightarrow> nat \<Rightarrow> u32 \<Rightarrow> u32 \<Rightarrow> (ReturnValue \<times> u32) option" where
  "queryMaxCount ty env0 h c index x cnt flags =
     (let env = env0\<lparr>actor := False\<rparr>; freeSlots = getFreeSlotsFor ty h c x cnt
      in if \<not> hasCapacityLimit h c then Some (RETURNVALUE_NOERROR, max 1 cnt)
         else if isStackable ty (h x)
         then map_option (\<lambda>n.
             let maxQueryCount = freeSlots * ucast (getStackSize ty (h x)) + n
             in (if maxQueryCount < cnt then RETURNVALUE_CONTAINERNOTENOUGHROOM else RETURNVALUE_NOERROR, maxQueryCount))
           (if index = INDEX_WHEREEVER then stack_room ty env h c x cnt flags 0 (getItemList h c)
            else case item_at h c index of
                None \<Rightarrow> Some 0
              | Some y \<Rightarrow>
                  Option.bind (equals (h x) (h y)) (\<lambda>e.
                    if e \<and> getItemCount (h y) < ucast (getStackSize ty (h y))
                    then map_option (\<lambda>ret. if ret = RETURNVALUE_NOERROR
                        then ucast (getStackSize ty (h y)) - ucast (getItemCount (h y)) else 0)
                      (queryAdd ty env h c index x cnt flags)
                    else Some 0))
         else Some (if freeSlots = 0 then RETURNVALUE_CONTAINERNOTENOUGHROOM else RETURNVALUE_NOERROR, freeSlots))"

definition queryRemove :: "Items \<Rightarrow> Query_env \<Rightarrow> heap \<Rightarrow> nat \<Rightarrow> nat \<Rightarrow> u32 \<Rightarrow> u32 \<Rightarrow> ReturnValue option" where
  "queryRemove ty env h c x cnt flags =
     (if getThingIndex h c x = -1 then Some RETURNVALUE_NOTPOSSIBLE
      else if cnt = 0 \<or> (isStackable ty (h x) \<and> cnt > ucast (getItemCount (h x))) then Some RETURNVALUE_NOTPOSSIBLE
      else if \<not> moveable (ty (itemId (h x))) \<and> \<not> hasBitSet FLAG_IGNORENOTMOVEABLE flags then Some RETURNVALUE_NOTMOVEABLE
      else map_option (\<lambda>topParent. case house_refuses env topParent of Some ret \<Rightarrow> ret | None \<Rightarrow> RETURNVALUE_NOERROR)
        (getTopParent env h c))"

text \<open>\<open>stackable_with\<close> is the test of \<open>queryDestination\<close>, which also compares the instances of the items.\<close>

definition stackable_with :: "Items \<Rightarrow> heap \<Rightarrow> u32 \<Rightarrow> nat \<Rightarrow> nat \<Rightarrow> bool option" where
  "stackable_with ty h instance_id x y =
     (if instanceID (h y) \<noteq> instance_id then Some False
      else map_option (\<lambda>e. e \<and> getItemCount (h y) < ucast (getStackSize ty (h y))) (equalsIgnoringInstance (h y) (h x)))"

fun find_stack :: "Items \<Rightarrow> heap \<Rightarrow> u32 \<Rightarrow> nat \<Rightarrow> nat \<Rightarrow> nat list \<Rightarrow> (nat \<times> nat) option option" where
  "find_stack ty h instance_id x n [] = Some None"
| "find_stack ty h instance_id x n (y # ys) =
     (case (if y = x then Some False else stackable_with ty h instance_id x y) of
        None \<Rightarrow> None
      | Some True \<Rightarrow> Some (Some (y, n))
      | Some False \<Rightarrow> find_stack ty h instance_id x (Suc n) ys)"

text \<open>The cylinder, the index and the item that are the destination.\<close>

definition queryDestination ::
  "Items \<Rightarrow> heap \<Rightarrow> nat \<Rightarrow> s32 \<Rightarrow> nat \<Rightarrow> nat option \<Rightarrow> u32 \<Rightarrow> u32 \<Rightarrow> (nat \<times> s32 \<times> nat option) option" where
  "queryDestination ty h c index0 x destItem0 flags instance_id =
     (if index0 = 254
      then Some (case parent (h c) of Some (CContainer p) \<Rightarrow> p | _ \<Rightarrow> c, INDEX_WHEREEVER, None)
      else
        let wherever = index0 = 255 \<or> sint index0 \<ge> sint (capacity h c);
            index = (if wherever then INDEX_WHEREEVER else index0);
            destItem1 = (if wherever then None else destItem0);
            destItem = (if index \<noteq> INDEX_WHEREEVER
              then (case item_at h c index of None \<Rightarrow> destItem1 | Some y \<Rightarrow> Some y) else destItem1);
            sub = (if index = INDEX_WHEREEVER then None
              else case destItem of Some y \<Rightarrow> if contents (h y) \<noteq> None then Some y else None | None \<Rightarrow> None)
        in case sub of
             Some y \<Rightarrow> Some (y, INDEX_WHEREEVER, None)
           | None \<Rightarrow>
               if \<not> hasBitSet FLAG_IGNOREAUTOSTACK flags \<and> isStackable ty (h x) \<and> parent (h x) \<noteq> Some (CContainer c)
               then Option.bind (case destItem of None \<Rightarrow> Some False | Some y \<Rightarrow> stackable_with ty h instance_id x y) (\<lambda>fits.
                 if fits then Some (c, index, destItem)
                 else map_option (\<lambda>found. case found of
                     Some (y, n) \<Rightarrow> (c, of_nat n, Some y)
                   | None \<Rightarrow> (c, index, destItem)) (find_stack ty h instance_id x 0 (getItemList h c)))
               else Some (c, index, destItem))"

end
