(* ===== verification/ContainerTree.thy ===== *)
theory ContainerTree
  imports Containers "HOL-Library.Multiset"
begin

text \<open>
  The containers of a heap form a forest: \<open>linked\<close> says that the lists of items and the pointers to the holding
  container agree and that no container holds itself, \<open>weights_ok\<close> and \<open>ammo_ok\<close> that the cached weights and
  counts are those of the contents. Every operation on containers keeps these invariants, and its walk to the
  outermost container ends.
\<close>

section \<open>Invariants\<close>

definition par :: "heap \<Rightarrow> (nat \<times> nat) set" where
  "par h = {(x, c). parent (h x) = Some (CContainer c)}"

definition linked :: "heap \<Rightarrow> bool" where
  "linked h \<longleftrightarrow> (\<forall>c. distinct (getItemList h c)) \<and>
     (\<forall>x c. x \<in> set (getItemList h c) \<longleftrightarrow> (x, c) \<in> par h) \<and> acyclic (par h) \<and> finite (par h)"

definition content_weight :: "Items \<Rightarrow> heap \<Rightarrow> nat \<Rightarrow> u32" where
  "content_weight ty h c = (\<Sum>x \<leftarrow> getItemList h c. getWeight ty (h x))"

definition total :: "heap \<Rightarrow> nat \<Rightarrow> u32" where
  "total h c = (case contents (h c) of None \<Rightarrow> 0 | Some k \<Rightarrow> totalWeight k)"

text \<open>All cached weights are ahead of the contents by \<open>e\<close>, but the one of \<open>c\<close> is behind this by \<open>d\<close>.\<close>

definition weights_behind :: "Items \<Rightarrow> (nat \<Rightarrow> u32) \<Rightarrow> heap \<Rightarrow> nat \<Rightarrow> u32 \<Rightarrow> bool" where
  "weights_behind ty e h c d \<longleftrightarrow>
     (\<forall>a. contents (h a) \<noteq> None \<longrightarrow> total h a + (if a = c then d else 0) = content_weight ty h a + e a)"

definition weights_ahead :: "Items \<Rightarrow> (nat \<Rightarrow> u32) \<Rightarrow> heap \<Rightarrow> bool" where
  "weights_ahead ty e h \<longleftrightarrow> (\<forall>a. contents (h a) \<noteq> None \<longrightarrow> total h a = content_weight ty h a + e a)"

definition weights_ok :: "Items \<Rightarrow> heap \<Rightarrow> bool" where
  "weights_ok ty h \<longleftrightarrow> (\<forall>a. contents (h a) \<noteq> None \<longrightarrow> total h a = content_weight ty h a)"

definition ammo_of :: "Items \<Rightarrow> Obj \<Rightarrow> nat" where
  "ammo_of ty x = (if getWeaponType ty x = WEAPON_AMMO then unat (item_count x) else 0)"

definition ammo :: "heap \<Rightarrow> nat \<Rightarrow> nat" where
  "ammo h c = (case contents (h c) of None \<Rightarrow> 0 | Some k \<Rightarrow> unat (ammoCount k))"

definition ammo_ok :: "Items \<Rightarrow> heap \<Rightarrow> bool" where
  "ammo_ok ty h \<longleftrightarrow> (\<forall>a. ammo h a = (\<Sum>x \<leftarrow> getItemList h a. ammo_of ty (h x)))"

section \<open>What the small steps change\<close>

lemma on_contents_simps [simp]:
  "parent (on_contents f c h a) = parent (h a)" "itemId (on_contents f c h a) = itemId (h a)"
  "item_count (on_contents f c h a) = item_count (h a)" "item_attributes (on_contents f c h a) = item_attributes (h a)"
  "contents (on_contents f c h a) = (if a = c then map_option f (contents (h c)) else contents (h a))"
  by (simp_all add: on_contents_def)

lemma setParent_simps [simp]:
  "parent (setParent p x h a) = (if a = x then p else parent (h a))" "itemId (setParent p x h a) = itemId (h a)"
  "item_count (setParent p x h a) = item_count (h a)" "item_attributes (setParent p x h a) = item_attributes (h a)"
  "contents (setParent p x h a) = contents (h a)"
  by (simp_all add: setParent_def)

text \<open>What an item contributes to the numbers of its container depends on these members only.\<close>

lemma item_weight_cong:
  "itemId x = itemId y \<Longrightarrow> item_count x = item_count y \<Longrightarrow> item_attributes x = item_attributes y \<Longrightarrow>
    Item_getWeight ty x = Item_getWeight ty y"
  by (simp add: Item_getWeight_def isStackable_def getBaseWeight_def getItemCount_def Item_hasAttribute_def Item_getIntAttr_def)

lemma ammo_of_cong: "itemId x = itemId y \<Longrightarrow> item_count x = item_count y \<Longrightarrow> ammo_of ty x = ammo_of ty y"
  by (simp add: ammo_of_def getWeaponType_def)

lemma getWeight_total: "getWeight ty (h x) = Item_getWeight ty (h x) + total h x"
  by (simp add: getWeight_def total_def split: option.splits)

lemma updateAmmoCount_simps [simp]:
  "parent (updateAmmoCount ty y d c h a) = parent (h a)" "itemId (updateAmmoCount ty y d c h a) = itemId (h a)"
  "item_count (updateAmmoCount ty y d c h a) = item_count (h a)"
  "item_attributes (updateAmmoCount ty y d c h a) = item_attributes (h a)"
  "getItemList (updateAmmoCount ty y d c h) a = getItemList h a" "total (updateAmmoCount ty y d c h) a = total h a"
  "contents (updateAmmoCount ty y d c h a) = None \<longleftrightarrow> contents (h a) = None"
  by (auto simp: updateAmmoCount_def getItemList_def total_def split: option.splits)

section \<open>The weights of the containers around\<close>

lemma sum_list_bump:
  fixes d :: "'a::ab_group_add"
  shows "distinct xs \<Longrightarrow> (\<Sum>x \<leftarrow> xs. f x + (if x = c then d else 0)) = (\<Sum>x \<leftarrow> xs. f x) + (if c \<in> set xs then d else 0)"
  by (induction xs) (auto simp: algebra_simps)

definition same_but_weights :: "heap \<Rightarrow> heap \<Rightarrow> bool" where
  "same_but_weights h h' \<longleftrightarrow>
     (\<forall>a. parent (h' a) = parent (h a) \<and> itemId (h' a) = itemId (h a) \<and> item_count (h' a) = item_count (h a) \<and>
       item_attributes (h' a) = item_attributes (h a) \<and>
       map_option (\<lambda>k. k\<lparr>totalWeight := 0\<rparr>) (contents (h' a)) = map_option (\<lambda>k. k\<lparr>totalWeight := 0\<rparr>) (contents (h a)))"

lemma same_but_weights_refl: "same_but_weights h h"
  by (simp add: same_but_weights_def)

lemma same_but_weights_trans: "same_but_weights h h1 \<Longrightarrow> same_but_weights h1 h2 \<Longrightarrow> same_but_weights h h2"
  by (simp add: same_but_weights_def)

lemma same_contents:
  assumes "map_option (\<lambda>k. k\<lparr>totalWeight := 0\<rparr>) x = map_option (\<lambda>k. k\<lparr>totalWeight := 0\<rparr>) y"
  shows "(x = None) = (y = None)" "x = Some k \<Longrightarrow> y = Some l \<Longrightarrow> itemlist k = itemlist l \<and> ammoCount k = ammoCount l \<and>
    maxSize k = maxSize l \<and> pagination k = pagination l \<and> container_class k = container_class l"
proof -
  show "(x = None) = (y = None)" using assms by (cases x; cases y) auto
  assume "x = Some k" "y = Some l"
  then show "itemlist k = itemlist l \<and> ammoCount k = ammoCount l \<and>
      maxSize k = maxSize l \<and> pagination k = pagination l \<and> container_class k = container_class l"
    using assms by (cases k, cases l) simp
qed

lemma same_but_weights_simps:
  assumes "same_but_weights h h'"
  shows "getItemList h' a = getItemList h a" "par h' = par h" "ammo h' a = ammo h a" "(contents (h' a) = None) = (contents (h a) = None)"
    "ammo_of ty (h' a) = ammo_of ty (h a)" "Item_getWeight ty (h' a) = Item_getWeight ty (h a)"
proof -
  have c: "map_option (\<lambda>k. k\<lparr>totalWeight := 0\<rparr>) (contents (h' a)) = map_option (\<lambda>k. k\<lparr>totalWeight := 0\<rparr>) (contents (h a))"
    using assms by (simp add: same_but_weights_def)
  have "getItemList h' a = getItemList h a \<and> ammo h' a = ammo h a \<and> (contents (h' a) = None) = (contents (h a) = None)"
  proof (cases "contents (h a)")
    case None
    then show ?thesis using same_contents(1)[OF c] by (simp add: getItemList_def ammo_def)
  next
    case (Some l)
    then obtain k where k: "contents (h' a) = Some k" using same_contents(1)[OF c] by auto
    then show ?thesis using same_contents(2)[OF c k Some] Some by (simp add: getItemList_def ammo_def)
  qed
  then show "getItemList h' a = getItemList h a" "ammo h' a = ammo h a" "(contents (h' a) = None) = (contents (h a) = None)"
    by auto
  show "par h' = par h" "ammo_of ty (h' a) = ammo_of ty (h a)" "Item_getWeight ty (h' a) = Item_getWeight ty (h a)"
    using assms by (auto simp: same_but_weights_def par_def intro!: ammo_of_cong item_weight_cong)
qed

lemma linked_same: "same_but_weights h h' \<Longrightarrow> linked h' = linked h"
  by (simp add: linked_def same_but_weights_simps)

lemma ammo_ok_same: "same_but_weights h h' \<Longrightarrow> ammo_ok ty h' = ammo_ok ty h"
  by (simp add: ammo_ok_def same_but_weights_simps)

lemma linked_list: "linked h \<Longrightarrow> x \<in> set (getItemList h c) \<longleftrightarrow> (x, c) \<in> par h"
  by (simp add: linked_def)

lemma linked_irrefl: "linked h \<Longrightarrow> (c, c) \<notin> par h"
  by (auto simp: linked_def acyclic_def)

lemma linked_container: "linked h \<Longrightarrow> (x, c) \<in> par h \<Longrightarrow> contents (h c) \<noteq> None"
  using linked_list[of h x c] by (cases "contents (h c)") (simp_all add: getItemList_def)

definition add_weight :: "u32 \<Rightarrow> nat \<Rightarrow> heap \<Rightarrow> heap" where
  "add_weight d = on_contents (\<lambda>k. k\<lparr>totalWeight := totalWeight k + d\<rparr>)"

lemma add_weight_same: "same_but_weights h (add_weight d c h)"
  by (auto simp: same_but_weights_def add_weight_def option.map_comp comp_def)

lemma add_weight_total: "contents (h c) \<noteq> None \<Longrightarrow> total (add_weight d c h) a = total h a + (if a = c then d else 0)"
  by (auto simp: add_weight_def total_def)

lemma add_weight_content:
  assumes "linked h" and "contents (h c) \<noteq> None"
  shows "content_weight ty (add_weight d c h) a = content_weight ty h a + (if (c, a) \<in> par h then d else 0)"
proof -
  note s = same_but_weights_simps[OF add_weight_same[of h d c]]
  have "getWeight ty (add_weight d c h x) = getWeight ty (h x) + (if x = c then d else 0)" for x
    by (simp add: getWeight_total s add_weight_total[where h = h and c = c, OF assms(2)])
  then show ?thesis
    using sum_list_bump[of "getItemList h a" "\<lambda>x. getWeight ty (h x)" c d] assms(1)
    by (simp add: content_weight_def s linked_list linked_def)
qed

lemma updateItemWeight_step:
  "updateItemWeight d c h =
     (case parent (h c) of Some (CContainer p) \<Rightarrow> updateItemWeight d p (add_weight d c h) | _ \<Rightarrow> Some (add_weight d c h))"
  by (subst updateItemWeight.simps) (simp add: add_weight_def Let_def split: option.splits Cylinder.splits)

lemma updateItemWeight_returns:
  assumes "linked h0" and "same_but_weights h0 h" and "contents (h c) \<noteq> None" and "weights_behind ty e h c d"
  shows "\<exists>h'. updateItemWeight d c h = Some h' \<and> same_but_weights h h' \<and> weights_ahead ty e h' \<and>
    (\<forall>a. (c, a) \<notin> (par h)\<^sup>* \<longrightarrow> h' a = h a)"
proof -
  have "wf ((par h0)\<inverse>)" using assms(1) by (simp add: linked_def finite_acyclic_wf_converse)
  then show ?thesis using assms(2-4)
  proof (induction c arbitrary: h rule: wf_induct_rule)
    case (less c)
    let ?h1 = "add_weight d c h"
    have l: "linked h" using assms(1) less.prems(1) by (simp add: linked_same)
    have p: "par h = par h0" using less.prems(1) by (simp add: same_but_weights_simps)
    note s = same_but_weights_simps[OF add_weight_same[of h d c]]
    have w: "total ?h1 a + (if (c, a) \<in> par h then d else 0) = content_weight ty ?h1 a + e a" if "contents (?h1 a) \<noteq> None" for a
      using that less.prems(3) s(4)[of a]
      by (simp add: weights_behind_def add_weight_total[where h = h and c = c, OF less.prems(2)]
          add_weight_content[where c = c, OF l less.prems(2)])
    have other: "?h1 a = h a" if "a \<noteq> c" for a using that by (simp add: add_weight_def on_contents_def)
    show ?case
    proof (cases "\<exists>q. parent (h c) = Some (CContainer q)")
      case True
      then obtain q where q: "parent (h c) = Some (CContainer q)" by blast
      then have cq: "(c, a) \<in> par h \<longleftrightarrow> a = q" for a by (auto simp: par_def)
      have "(q, c) \<in> (par h0)\<inverse>" "contents (?h1 q) \<noteq> None"
        using cq linked_container[OF l, of c q] p s(4)[of q] by auto
      moreover have "weights_behind ty e ?h1 q d" using w by (simp add: weights_behind_def cq)
      moreover have "same_but_weights h0 ?h1" using less.prems(1) add_weight_same same_but_weights_trans by blast
      ultimately obtain h' where h': "updateItemWeight d q ?h1 = Some h'" "same_but_weights ?h1 h'" "weights_ahead ty e h'"
        "\<forall>a. (q, a) \<notin> (par ?h1)\<^sup>* \<longrightarrow> h' a = ?h1 a"
        using less.IH by blast
      have "(c, a) \<notin> (par h)\<^sup>* \<Longrightarrow> a \<noteq> c \<and> (q, a) \<notin> (par ?h1)\<^sup>*" for a
        using cq[of q] s(2) by (auto intro: converse_rtrancl_into_rtrancl)
      then show ?thesis
        using h' q other add_weight_same[of h d c] same_but_weights_trans by (auto simp: updateItemWeight_step[of d c h])
    next
      case False
      then have "(c, a) \<notin> par h" for a by (auto simp: par_def)
      then have "weights_ahead ty e ?h1" using w by (simp add: weights_ahead_def)
      moreover have "updateItemWeight d c h = Some ?h1"
        using False by (subst updateItemWeight_step) (auto split: option.splits Cylinder.splits)
      moreover have "(c, a) \<notin> (par h)\<^sup>* \<Longrightarrow> ?h1 a = h a" for a using other[of a] by (cases "a = c") auto
      ultimately show ?thesis using add_weight_same[of h d c] by blast
    qed
  qed
qed

lemma updateItemWeight_ok:
  assumes "linked h" and "contents (h c) \<noteq> None" and "weights_behind ty (\<lambda>_. 0) h c d"
  shows "\<exists>h'. updateItemWeight d c h = Some h' \<and> same_but_weights h h' \<and> weights_ok ty h'"
  using updateItemWeight_returns[OF assms(1) same_but_weights_refl assms(2,3)]
  by (auto simp: weights_ahead_def weights_ok_def)

section \<open>Counting ammunition\<close>

lemma ammo_bound: "ammo_of ty x \<le> 255"
  using byte_le[of "item_count x"] by (simp add: ammo_of_def)

lemma ammo_sum_bound: "(\<Sum>x \<leftarrow> xs. ammo_of ty (h x)) \<le> 255 * length xs"
proof (induction xs)
  case (Cons a xs)
  then show ?case using ammo_bound[of ty "h a"] by simp
qed simp

lemma ucast_count: "unat (ucast (w :: u16) :: u32) = unat w" "(ucast w :: s32) = 0 \<longleftrightarrow> w = 0"
proof -
  show u: "unat (ucast w :: u32) = unat w"
    using unsigned_less[of w, where 'a = nat] by (simp add: unat_ucast_up)
  show "(ucast w :: s32) = 0 \<longleftrightarrow> w = 0" using u by (metis unat_eq_zero unsigned_0)
qed

lemma sint_count:
  "sint (ucast (w :: u16) :: s32) = int (unat w)" "sint (- ucast w :: s32) = - int (unat w)"
proof -
  have "uint w < 65536" using unsigned_less[of w, where 'a = int] by simp
  moreover have "0 \<le> uint w" by simp
  ultimately have b: "uint w < 65536" "- 2147483648 \<le> uint w" "- uint w < 2147483648" by linarith+
  have i: "(ucast w :: s32) = word_of_int (int (unat w))" by simp
  show "sint (ucast w :: s32) = int (unat w)" 
    unfolding i sint_sbintrunc' using b by (intro signed_take_bit_int_eq_self) simp_all
  have "sint (word_of_int (- int (unat w)) :: s32) = - int (unat w)"
    unfolding sint_sbintrunc' using b by (intro signed_take_bit_int_eq_self) simp_all
  then show "sint (- ucast w :: s32) = - int (unat w)" by simp
qed

lemma ammo_add:
  assumes "contents (h c) \<noteq> None" and "ammo h c + ammo_of ty y < 2 ^ 32"
  shows "ammo (updateAmmoCount ty y (ucast (getItemCount y)) c h) a = ammo h a + (if a = c then ammo_of ty y else 0)"
proof -
  obtain k where k: "contents (h c) = Some k" using assms(1) by blast
  have u: "unat (ucast (getItemCount y) :: u32) = unat (item_count y)" "sint (ucast (getItemCount y) :: s32) = int (unat (item_count y))"
    using ucast_count(1)[of "getItemCount y"] sint_count(1)[of "getItemCount y"] by (simp_all add: getItemCount_def unat_ucast_up)
  show ?thesis
  proof (cases "getWeaponType ty y = WEAPON_AMMO \<and> item_count y \<noteq> 0")
    case True
    then have "unat (item_count y) > 0" by (simp add: unat_gt_0)
    then have "sint (ucast (getItemCount y) :: s32) > 0" using u(2) by linarith
    moreover have "unat (ammoCount k + ucast (getItemCount y)) = unat (ammoCount k) + unat (item_count y)"
      using assms(2) True k u(1) by (subst unat_add_lem[THEN iffD1]) (simp_all add: ammo_def ammo_of_def)
    ultimately show ?thesis using True k
      by (auto simp: updateAmmoCount_def ammo_def ammo_of_def split: option.splits)
  next
    case False
    then have "getWeaponType ty y \<noteq> WEAPON_AMMO \<or> (ucast (getItemCount y) :: s32) = 0" by (auto simp: getItemCount_def)
    with False show ?thesis by (auto simp: updateAmmoCount_def ammo_of_def)
  qed
qed

lemma ammo_sub:
  "ammo (updateAmmoCount ty y (- ucast (w :: u16)) c h) a =
     ammo h a - (if a = c \<and> getWeaponType ty y = WEAPON_AMMO then unat w else 0)"
proof (cases "getWeaponType ty y = WEAPON_AMMO \<and> w \<noteq> 0")
  case True
  then have n: "(- ucast w :: s32) \<noteq> 0" "\<not> sint (- ucast w :: s32) > 0" using ucast_count(2)[of w] sint_count(2)[of w] by auto
  have "unat (m - min m (ucast w)) = unat m - unat w" for m :: u32
    using ucast_count(1)[of w] by (cases "m \<le> ucast w") (auto simp: min_def unat_sub word_le_nat_alt)
  with n True show ?thesis by (auto simp: updateAmmoCount_def ammo_def split: option.splits)
next
  case False
  then have "getWeaponType ty y \<noteq> WEAPON_AMMO \<or> (- ucast w :: s32) = 0" using ucast_count(2)[of w] by auto
  with False show ?thesis by (auto simp: updateAmmoCount_def)
qed

section \<open>Consistent heaps\<close>

definition consistent :: "Items \<Rightarrow> heap \<Rightarrow> bool" where
  "consistent ty h \<longleftrightarrow> linked h \<and> weights_ok ty h \<and> ammo_ok ty h"

text \<open>The list of \<open>c\<close> and some parents are new; items and cached numbers are as they were.\<close>

definition relisted :: "heap \<Rightarrow> nat \<Rightarrow> nat list \<Rightarrow> heap \<Rightarrow> bool" where
  "relisted h c L h1 \<longleftrightarrow>
     (\<forall>a. getItemList h1 a = (if a = c then L else getItemList h a) \<and> itemId (h1 a) = itemId (h a) \<and>
       item_count (h1 a) = item_count (h a) \<and> item_attributes (h1 a) = item_attributes (h a) \<and>
       total h1 a = total h a \<and> (contents (h1 a) = None \<longleftrightarrow> contents (h a) = None))"

lemma relisted_items:
  assumes "relisted h c L h1"
  shows "getWeight ty (h1 a) = getWeight ty (h a)" "ammo_of ty (h1 a) = ammo_of ty (h a)"
proof -
  have "Item_getWeight ty (h1 a) = Item_getWeight ty (h a)" "ammo_of ty (h1 a) = ammo_of ty (h a)"
    using assms by (auto simp: relisted_def intro!: item_weight_cong ammo_of_cong)
  then show "getWeight ty (h1 a) = getWeight ty (h a)" "ammo_of ty (h1 a) = ammo_of ty (h a)"
    using assms by (simp_all add: getWeight_total relisted_def)
qed

lemma relisted_weights:
  assumes "weights_ok ty h" and r: "relisted h c L h1" and "linked h1" and "contents (h c) \<noteq> None"
    and d: "d = (\<Sum>x \<leftarrow> L. getWeight ty (h x)) - content_weight ty h c"
  shows "\<exists>h'. updateItemWeight d c h1 = Some h' \<and> same_but_weights h1 h' \<and> weights_ok ty h'"
proof -
  have "contents (h1 c) \<noteq> None" using assms(4) r by (simp add: relisted_def)
  moreover have "content_weight ty h1 a = (if a = c then \<Sum>x \<leftarrow> L. getWeight ty (h x) else content_weight ty h a)" for a
    using r by (simp add: content_weight_def relisted_items[OF r]) (simp add: relisted_def)
  then have "weights_behind ty (\<lambda>_. 0) h1 c d"
    using assms(1) d r by (simp add: weights_behind_def weights_ok_def relisted_def)
  ultimately show ?thesis using updateItemWeight_ok[OF assms(3)] by blast
qed

lemma relisted_finish:
  assumes "weights_ok ty h" and "ammo_ok ty h" and r: "relisted h c L h1" and "linked h1" and "contents (h c) \<noteq> None"
    and d: "d = (\<Sum>x \<leftarrow> L. getWeight ty (h x)) - content_weight ty h c"
    and a: "\<forall>a. ammo h1 a = (if a = c then \<Sum>x \<leftarrow> L. ammo_of ty (h x) else ammo h a)"
  shows "\<exists>h'. updateItemWeight d c h1 = Some h' \<and> same_but_weights h1 h' \<and> consistent ty h'"
proof -
  obtain h' where h': "updateItemWeight d c h1 = Some h'" "same_but_weights h1 h'" "weights_ok ty h'"
    using relisted_weights[OF assms(1) r assms(4,5) d] by blast
  have "ammo_ok ty h1" using assms(2) a r by (simp add: ammo_ok_def relisted_items[OF r]) (simp add: relisted_def)
  then have "consistent ty h'" using h' assms(4) by (simp add: consistent_def linked_same ammo_ok_same)
  with h' show ?thesis by blast
qed

text \<open>An item that is nowhere goes into a container that it does not hold.\<close>

definition free :: "heap \<Rightarrow> nat \<Rightarrow> bool" where
  "free h x \<longleftrightarrow> (\<forall>c. (x, c) \<notin> par h)"

definition small :: "heap \<Rightarrow> bool" where
  "small h \<longleftrightarrow> (\<forall>c. length (getItemList h c) < 2 ^ 24)"

definition put_into :: "nat \<Rightarrow> nat \<Rightarrow> (nat list \<Rightarrow> nat list) \<Rightarrow> heap \<Rightarrow> heap" where
  "put_into c x f h = setParent (Some (CContainer c)) x (on_contents (\<lambda>k. k\<lparr>itemlist := f (itemlist k)\<rparr>) c h)"

lemma getItemList_put:
  "contents (h c) \<noteq> None \<Longrightarrow> getItemList (put_into c x f h) a = (if a = c then f (getItemList h c) else getItemList h a)"
  by (auto simp: put_into_def getItemList_def)

lemma par_put:
  "free h x \<Longrightarrow> par (put_into c x f h) = insert (x, c) (par h)"
  by (auto simp: put_into_def par_def free_def split: if_splits)

lemma put_relisted:
  "contents (h c) \<noteq> None \<Longrightarrow> relisted h c (f (getItemList h c)) (put_into c x f h)"
  by (auto simp: relisted_def getItemList_put) (auto simp: put_into_def total_def split: if_splits)

lemma put_linked:
  assumes "linked h" and "contents (h c) \<noteq> None" and "free h x" and "(c, x) \<notin> (par h)\<^sup>*"
    and "mset (f (getItemList h c)) = add_mset x (mset (getItemList h c))"
  shows "linked (put_into c x f h)"
proof -
  have s: "set (f (getItemList h c)) = insert x (set (getItemList h c))" using assms(5) by (metis set_mset_add_mset_insert set_mset_mset)
  have x: "x \<notin> set (getItemList h c)" using assms(1,3) by (simp add: linked_list free_def)
  have "distinct (x # getItemList h c)" using x assms(1) by (simp add: linked_def)
  then have "distinct (f (getItemList h c))"
    using assms(5) by (metis mset.simps(2) mset_eq_imp_distinct_iff)
  then show ?thesis
    using assms(1,2,4) s unfolding linked_def par_put[OF assms(3)]
    by (auto simp: getItemList_put acyclic_insert)
qed

lemma put_consistent:
  assumes c: "consistent ty h" and "small h" and n: "contents (h c) \<noteq> None" and "free h x" and "(c, x) \<notin> (par h)\<^sup>*"
    and m: "mset (f (getItemList h c)) = add_mset x (mset (getItemList h c))"
  shows "\<exists>h'. updateItemWeight (getWeight ty (h x)) c
      (updateAmmoCount ty (h x) (ucast (getItemCount (h x))) c (put_into c x f h)) = Some h' \<and>
    same_but_weights (updateAmmoCount ty (h x) (ucast (getItemCount (h x))) c (put_into c x f h)) h' \<and> consistent ty h'"
    (is "\<exists>h'. updateItemWeight ?d c ?h1 = _ \<and> _")
proof -
  let ?L = "f (getItemList h c)"
  have sums: "(\<Sum>y \<leftarrow> ?L. g y) = g x + (\<Sum>y \<leftarrow> getItemList h c. g y)" for g :: "nat \<Rightarrow> 'z::comm_monoid_add"
    using m by (metis (no_types, lifting) mset_map sum_mset_sum_list image_mset_add_mset sum_mset.add_mset)
  have p: "relisted h c ?L (put_into c x f h)" using put_relisted[of h c f x] n by blast
  have r: "relisted h c ?L ?h1" using p by (simp add: relisted_def)
  have l: "linked ?h1" using put_linked[where h = h and c = c and f = f, OF _ n assms(4,5) m] c by (simp add: consistent_def linked_def par_def)
  have am: "ammo (put_into c x f h) a = ammo h a" for a by (simp add: put_into_def ammo_def split: option.splits)
  have "ammo h c = (\<Sum>y \<leftarrow> getItemList h c. ammo_of ty (h y))" using c by (simp add: consistent_def ammo_ok_def)
  moreover have "\<dots> \<le> 255 * length (getItemList h c)" using ammo_sum_bound[of ty h "getItemList h c"] .
  moreover have "length (getItemList h c) < 2 ^ 24" using assms(2) by (simp add: small_def)
  ultimately have "ammo h c + ammo_of ty (h x) < 2 ^ 32" using ammo_bound[of ty "h x"] by simp
  moreover have q: "contents (put_into c x f h c) \<noteq> None" using n p by (simp add: relisted_def)
  ultimately have "ammo ?h1 a = ammo h a + (if a = c then ammo_of ty (h x) else 0)" for a
    using ammo_add[of "put_into c x f h" c ty "h x", OF q] am by simp
  then have "\<forall>a. ammo ?h1 a = (if a = c then \<Sum>y \<leftarrow> ?L. ammo_of ty (h y) else ammo h a)"
    using \<open>ammo h c = _\<close> by (simp add: sums)
  moreover have "?d = (\<Sum>y \<leftarrow> ?L. getWeight ty (h y)) - content_weight ty h c" by (simp add: sums content_weight_def)
  ultimately show ?thesis using relisted_finish[OF _ _ r l n] c by (simp add: consistent_def)
qed

definition insert_with :: "Items \<Rightarrow> nat \<Rightarrow> nat \<Rightarrow> (nat list \<Rightarrow> nat list) \<Rightarrow> heap \<Rightarrow> heap option" where
  "insert_with ty c x f h =
     (let h1 = put_into c x f h;
          h2 = updateAmmoCount ty (h1 x) (ucast (getItemCount (h1 x))) c h1
      in updateItemWeight (getWeight ty (h2 x)) c h2)"

lemma inserts:
  "insert_front ty c x h = insert_with ty c x ((#) x) h" "addItemBack ty c x h = insert_with ty c x (\<lambda>xs. xs @ [x]) h"
proof -
  have "push_front x c (setParent (Some (CContainer c)) x h) = put_into c x ((#) x) h"
    by (auto simp: push_front_def put_into_def setParent_def on_contents_def fun_eq_iff)
  then show "insert_front ty c x h = insert_with ty c x ((#) x) h" by (simp add: insert_front_def insert_with_def)
  show "addItemBack ty c x h = insert_with ty c x (\<lambda>xs. xs @ [x]) h"
    by (simp add: addItemBack_def addItem_def insert_with_def put_into_def push_back_def Let_def)
qed

lemma insert_with_ok:
  assumes "consistent ty h" "small h" "contents (h c) \<noteq> None" "free h x" "(c, x) \<notin> (par h)\<^sup>*"
    and m: "mset (f (getItemList h c)) = add_mset x (mset (getItemList h c))"
  shows "\<exists>h'. insert_with ty c x f h = Some h' \<and> consistent ty h' \<and> par h' = insert (x, c) (par h) \<and>
    (\<forall>a. getItemList h' a = (if a = c then f (getItemList h c) else getItemList h a)) \<and>
    (\<forall>a. itemId (h' a) = itemId (h a) \<and> item_count (h' a) = item_count (h a) \<and> item_attributes (h' a) = item_attributes (h a))"
proof -
  let ?p = "put_into c x f h"
  have ne: "x \<noteq> c" using assms(5) by auto
  then have x: "?p x = (h x)\<lparr>parent := Some (CContainer c)\<rparr>"
    by (simp add: put_into_def setParent_def on_contents_def)
  have i: "getItemCount (?p x) = getItemCount (h x)" by (simp add: x getItemCount_def)
  have "updateAmmoCount ty (?p x) d c = updateAmmoCount ty (h x) d c" for d
    by (simp add: x updateAmmoCount_def getWeaponType_def)
  moreover have "getWeight ty (updateAmmoCount ty (h x) d c ?p x) = getWeight ty (h x)" for d
  proof -
    have "Item_getWeight ty (updateAmmoCount ty (h x) d c ?p x) = Item_getWeight ty (h x)"
      by (rule item_weight_cong) (simp_all add: put_into_def)
    then show ?thesis by (simp add: getWeight_total) (simp add: total_def put_into_def ne)
  qed
  ultimately have f: "insert_with ty c x f h = updateItemWeight (getWeight ty (h x)) c
      (updateAmmoCount ty (h x) (ucast (getItemCount (h x))) c ?p)"
    unfolding insert_with_def Let_def by (simp add: i)
  obtain h' where h': "insert_with ty c x f h = Some h'"
    "same_but_weights (updateAmmoCount ty (h x) (ucast (getItemCount (h x))) c ?p) h'" "consistent ty h'"
    using put_consistent[where f = f, OF assms] f by auto
  note s = same_but_weights_simps[OF h'(2)]
  have "par h' = insert (x, c) (par h)" using s(2) par_put[OF assms(4)] by (simp add: par_def)
  moreover have "getItemList h' a = (if a = c then f (getItemList h c) else getItemList h a)" for a
    using s(1) getItemList_put[of h c x f] assms(3) by simp
  moreover have "itemId (h' a) = itemId (h a) \<and> item_count (h' a) = item_count (h a) \<and> item_attributes (h' a) = item_attributes (h a)" for a
    using h'(2) by (simp add: same_but_weights_def put_into_def)
  ultimately show ?thesis using h' by blast
qed

section \<open>Taking items out\<close>

lemma index_of_None: "index_of x xs = None \<longleftrightarrow> x \<notin> set xs"
  by (induction xs) auto

lemma getThingIndex_iff: "getThingIndex h c x = -1 \<longleftrightarrow> x \<notin> set (getItemList h c)"
  by (auto simp: getThingIndex_def index_of_None[symmetric] split: option.splits)

lemma child_not_above: "linked h \<Longrightarrow> (x, c) \<in> par h \<Longrightarrow> (c, x) \<notin> (par h)\<^sup>*"
  by (auto simp: linked_def acyclic_def dest: rtrancl_into_trancl2)

definition take_out :: "nat \<Rightarrow> nat \<Rightarrow> heap \<Rightarrow> heap" where
  "take_out c x h = on_contents (\<lambda>k. k\<lparr>itemlist := remove1 x (itemlist k)\<rparr>) c (setParent None x h)"

lemma take_out_simps:
  "getItemList (take_out c x h) a = (if a = c then remove1 x (getItemList h c) else getItemList h a)"
  "itemId (take_out c x h a) = itemId (h a)" "item_count (take_out c x h a) = item_count (h a)"
  "item_attributes (take_out c x h a) = item_attributes (h a)" "total (take_out c x h) a = total h a"
  "ammo (take_out c x h) a = ammo h a" "contents (take_out c x h a) = None \<longleftrightarrow> contents (h a) = None"
  by (auto simp: take_out_def getItemList_def total_def ammo_def split: option.splits)

lemma par_take_out: "(x, c) \<in> par h \<Longrightarrow> par (take_out c x h) = par h - {(x, c)}"
  by (auto simp: take_out_def par_def split: if_splits)

lemma take_out_linked: "linked h \<Longrightarrow> (x, c) \<in> par h \<Longrightarrow> linked (take_out c x h)"
  by (auto simp: linked_def take_out_simps par_take_out intro: acyclic_subset)

lemma sum_remove1:
  fixes g :: "nat \<Rightarrow> 'z::ab_group_add"
  shows "x \<in> set xs \<Longrightarrow> (\<Sum>y \<leftarrow> remove1 x xs. g y) = (\<Sum>y \<leftarrow> xs. g y) - g x"
  by (induction xs) (auto simp: algebra_simps)

lemma nat_sum_remove1: "x \<in> set xs \<Longrightarrow> (\<Sum>y \<leftarrow> remove1 x xs. g y) = (\<Sum>y \<leftarrow> xs. g y) - (g x :: nat)"
  by (induction xs) (auto simp: sum_list_map_remove1)

lemma take_out_ok:
  assumes c: "consistent ty h" and x: "(x, c) \<in> par h"
  shows "\<exists>h1. updateItemWeight (- getWeight ty (h x)) c h = Some h1 \<and> h1 x = h x \<and>
    consistent ty (take_out c x (updateAmmoCount ty (h x) (- ucast (getItemCount (h x))) c h1)) \<and> same_but_weights h h1"
proof -
  let ?w = "getWeight ty (h x)"
  let ?e = "\<lambda>a. if a = c then - ?w else 0"
  have l: "linked h" using c by (simp add: consistent_def)
  have "weights_behind ty ?e h c (- ?w)" using c by (simp add: consistent_def weights_ok_def weights_behind_def)
  then obtain h1 where h1: "updateItemWeight (- ?w) c h = Some h1" "same_but_weights h h1" "weights_ahead ty ?e h1" "h1 x = h x"
    using updateItemWeight_returns[OF l same_but_weights_refl linked_container[OF l x]] child_not_above[OF l x] by blast
  note s = same_but_weights_simps[OF h1(2)]
  let ?h2 = "updateAmmoCount ty (h x) (- ucast (getItemCount (h x))) c h1"
  let ?h3 = "take_out c x ?h2"
  have xin: "x \<in> set (getItemList h c)" using l x by (simp add: linked_list)
  have l2: "linked ?h2" "par ?h2 = par h" using l h1(2) s(2) by (simp_all add: linked_def par_def s(1))
  then have "linked ?h3" using take_out_linked[OF l2(1), of x c] x by simp
  moreover have w: "getWeight ty (?h3 a) = getWeight ty (h1 a)" for a
  proof -
    have "Item_getWeight ty (?h3 a) = Item_getWeight ty (h1 a)" by (rule item_weight_cong) (simp_all add: take_out_simps)
    then show ?thesis by (simp add: getWeight_total take_out_simps)
  qed
  then have "content_weight ty ?h3 a = content_weight ty h1 a + (if a = c then - ?w else 0)" for a
    using xin by (simp add: content_weight_def take_out_simps s(1) sum_remove1 h1(4))
  then have "weights_ok ty ?h3" using h1(3) by (simp add: weights_ok_def weights_ahead_def take_out_simps)
  moreover have "ammo_ok ty ?h3"
  proof -
    have "ammo_of ty (?h3 a) = ammo_of ty (h a)" for a
      using s(5)[of ty a] ammo_of_cong[of "?h3 a" "h1 a" ty] by (simp add: take_out_simps)
    moreover have "unat (getItemCount (h x)) = unat (item_count (h x))" by (simp add: getItemCount_def unat_ucast_up)
    ultimately show ?thesis
      using c xin unfolding consistent_def ammo_ok_def
      by (auto simp: take_out_simps ammo_sub s(1,3) nat_sum_remove1 ammo_of_def)
  qed
  ultimately show ?thesis using h1 by (auto simp: consistent_def)
qed

section \<open>Changing an item in its container\<close>

text \<open>Only the item \<open>x\<close> itself differs, and the counts of ammunition.\<close>

definition restocked :: "heap \<Rightarrow> nat \<Rightarrow> heap \<Rightarrow> bool" where
  "restocked h x h1 \<longleftrightarrow>
     (\<forall>a. getItemList h1 a = getItemList h a \<and> parent (h1 a) = parent (h a) \<and> total h1 a = total h a \<and>
       (contents (h1 a) = None \<longleftrightarrow> contents (h a) = None) \<and>
       (a \<noteq> x \<longrightarrow> itemId (h1 a) = itemId (h a) \<and> item_count (h1 a) = item_count (h a) \<and>
         item_attributes (h1 a) = item_attributes (h a)))"

lemma restocked_finish:
  assumes "consistent ty h" and x: "(x, c) \<in> par h" and r: "restocked h x h1" and a: "ammo_ok ty h1"
  shows "\<exists>h'. updateItemWeight (- getWeight ty (h x) + getWeight ty (h1 x)) c h1 = Some h' \<and> consistent ty h' \<and>
    same_but_weights h1 h' \<and> par h' = par h"
proof -
  let ?d = "- getWeight ty (h x) + getWeight ty (h1 x)"
  have l: "linked h" using assms(1) by (simp add: consistent_def)
  have p: "par h1 = par h" using r by (simp add: par_def restocked_def)
  have l1: "linked h1" using l r by (simp add: linked_def p restocked_def)
  have "getWeight ty (h1 a) = getWeight ty (h a) + (if a = x then ?d else 0)" for a
  proof (cases "a = x")
    case False
    then have "Item_getWeight ty (h1 a) = Item_getWeight ty (h a)" using r by (auto simp: restocked_def intro!: item_weight_cong)
    then show ?thesis using False r by (simp add: getWeight_total restocked_def)
  qed simp
  then have "content_weight ty h1 a = content_weight ty h a + (if (x, a) \<in> par h then ?d else 0)" for a
    using sum_list_bump[of "getItemList h a" "\<lambda>y. getWeight ty (h y)" x ?d] l r
    by (simp add: content_weight_def restocked_def linked_list linked_def)
  moreover have "(x, a) \<in> par h \<longleftrightarrow> a = c" for a using x by (auto simp: par_def)
  ultimately have "weights_behind ty (\<lambda>_. 0) h1 c ?d"
    using assms(1) r by (simp add: weights_behind_def consistent_def weights_ok_def restocked_def)
  then obtain h' where h': "updateItemWeight ?d c h1 = Some h'" "same_but_weights h1 h'" "weights_ok ty h'"
    using updateItemWeight_ok[OF l1] linked_container[OF l1, of x c] x p by blast
  then have "consistent ty h'" using l1 a by (simp add: consistent_def linked_same ammo_ok_same)
  with h' p same_but_weights_simps(2)[OF h'(2)] show ?thesis by auto
qed

lemma updateAmmoCount_other: "a \<noteq> c \<Longrightarrow> updateAmmoCount ty y d c h a = h a"
  by (simp add: updateAmmoCount_def on_contents_def)

lemma ammo_split: "x \<in> set xs \<Longrightarrow> (\<Sum>y \<leftarrow> xs. g y) = g x + (\<Sum>y \<leftarrow> remove1 x xs. g y :: nat)"
  by (simp add: sum_list_map_remove1)

lemma restocked_ammo:
  assumes "consistent ty h" and x: "(x, c) \<in> par h" and r: "restocked h x h3"
    and a3: "\<And>a. ammo h3 a =
      (if a = c then (\<Sum>y \<leftarrow> remove1 x (getItemList h c). ammo_of ty (h y)) + ammo_of ty (h3 x) else ammo h a)"
  shows "ammo_ok ty h3"
  unfolding ammo_ok_def
proof
  fix a
  have l: "linked h" using assms(1) by (simp add: consistent_def)
  have xin: "x \<in> set (getItemList h c)" using l x by (simp add: linked_list)
  have same: "ammo_of ty (h3 y) = ammo_of ty (h y)" if "y \<noteq> x" for y
    using r that by (auto simp: restocked_def intro!: ammo_of_cong)
  have list: "getItemList h3 a = getItemList h a" using r by (simp add: restocked_def)
  show "ammo h3 a = (\<Sum>y \<leftarrow> getItemList h3 a. ammo_of ty (h3 y))"
  proof (cases "a = c")
    case True
    have "x \<notin> set (remove1 x (getItemList h c))" using l by (simp add: linked_def)
    then have "map (\<lambda>y. ammo_of ty (h3 y)) (remove1 x (getItemList h c)) = map (\<lambda>y. ammo_of ty (h y)) (remove1 x (getItemList h c))"
      by (intro map_cong refl same) auto
    then have "(\<Sum>y \<leftarrow> getItemList h c. ammo_of ty (h3 y)) =
        (\<Sum>y \<leftarrow> remove1 x (getItemList h c). ammo_of ty (h y)) + ammo_of ty (h3 x)"
      by (simp only: ammo_split[OF xin])
    then show ?thesis using a3[of a] True list by simp
  next
    case False
    then have "x \<notin> set (getItemList h a)" using l x by (auto simp: linked_list par_def)
    then have "map (\<lambda>y. ammo_of ty (h3 y)) (getItemList h a) = map (\<lambda>y. ammo_of ty (h y)) (getItemList h a)"
      by (intro map_cong refl same) auto
    then have "(\<Sum>y \<leftarrow> getItemList h a. ammo_of ty (h3 y)) = (\<Sum>y \<leftarrow> getItemList h a. ammo_of ty (h y))" by (rule arg_cong)
    then show ?thesis using a3[of a] False list assms(1) by (metis consistent_def ammo_ok_def)
  qed
qed

text \<open>The steps of \<open>updateThing\<close>, for any change of the item that keeps its place and its contents.\<close>

lemma update_ok:
  assumes "consistent ty h" and "small h" and x: "(x, c) \<in> par h"
    and g: "parent (g (h x)) = parent (h x)" "contents (g (h x)) = contents (h x)"
  defines "h1 \<equiv> updateAmmoCount ty (h x) (- ucast (getItemCount (h x))) c h"
  defines "h2 \<equiv> on_item g x h1"
  defines "h3 \<equiv> updateAmmoCount ty (h2 x) (ucast (getItemCount (h2 x))) c h2"
  shows "\<exists>h'. updateItemWeight (- getWeight ty (h x) + getWeight ty (h3 x)) c h3 = Some h' \<and> consistent ty h' \<and>
    same_but_weights h3 h' \<and> par h' = par h"
proof -
  have l: "linked h" using assms(1) by (simp add: consistent_def)
  have ne: "x \<noteq> c" using linked_irrefl[OF l] x by blast
  have xin: "x \<in> set (getItemList h c)" using l x by (simp add: linked_list)
  have hx: "h1 x = h x" "h2 x = g (h x)" using ne by (simp_all add: h1_def h2_def on_item_def updateAmmoCount_other)
  have c2: "contents (h2 a) = contents (h1 a)" for a using g(2) hx by (simp add: h2_def on_item_def)
  then have "getItemList h2 a = getItemList h1 a" "total h2 a = total h1 a" and am: "ammo h2 a = ammo h1 a" for a
    by (simp_all add: getItemList_def ammo_def total_def)
  then have l2: "getItemList h2 a = getItemList h a" "total h2 a = total h a" for a by (simp_all add: h1_def)
  have r: "restocked h x h3"
    unfolding restocked_def h3_def using l2 g hx by (auto simp: h2_def on_item_def h1_def)
  let ?rest = "\<Sum>y \<leftarrow> remove1 x (getItemList h c). ammo_of ty (h y)"
  have sum: "ammo h c = ammo_of ty (h x) + ?rest"
    using assms(1) xin by (simp add: consistent_def ammo_ok_def ammo_split[of x])
  have u: "(if getWeaponType ty (h x) = WEAPON_AMMO then unat (getItemCount (h x)) else 0) = ammo_of ty (h x)"
    by (simp add: ammo_of_def getItemCount_def unat_ucast_up)
  then have a1: "ammo h1 a = (if a = c then ?rest else ammo h a)" for a
    unfolding h1_def ammo_sub using sum by (cases "a = c") (simp_all split: if_splits)
  have "?rest \<le> 255 * length (remove1 x (getItemList h c))" by (rule ammo_sum_bound)
  also have "\<dots> \<le> 255 * length (getItemList h c)" by (simp add: length_remove1)
  finally have b: "?rest \<le> 255 * length (getItemList h c)" .
  have "length (getItemList h c) < 2 ^ 24" using assms(2) by (simp add: small_def)
  with b have "?rest + ammo_of ty (h2 x) < 2 ^ 32" using ammo_bound[of ty "h2 x"] by simp
  then have a3: "ammo h3 a = (if a = c then ?rest + ammo_of ty (h2 x) else ammo h a)" for a
    unfolding h3_def using ammo_add[of h2 c ty "h2 x" a] linked_container[OF l x] c2[of c] am a1
    by (simp add: h1_def)
  moreover have "ammo_of ty (h3 x) = ammo_of ty (h2 x)" by (simp add: h3_def ammo_of_def getWeaponType_def)
  ultimately have "ammo_ok ty h3" using restocked_ammo[OF assms(1) x r] by simp
  then show ?thesis using restocked_finish[OF assms(1) x r] by blast
qed

text \<open>The steps of \<open>removeThing\<close> on a stack of which something is left.\<close>

lemma decrease_ok:
  assumes "consistent ty h" and x: "(x, c) \<in> par h" and "n \<le> item_count (h x)"
  defines "h1 \<equiv> updateAmmoCount ty (h x) (- ucast (getItemCount (h x) - ucast n)) c h"
  defines "h2 \<equiv> on_item (setItemCount n) x h1"
  shows "\<exists>h'. updateItemWeight (- getWeight ty (h x) + getWeight ty (h2 x)) c h2 = Some h' \<and> consistent ty h' \<and>
    same_but_weights h2 h' \<and> par h' = par h"
proof -
  have l: "linked h" using assms(1) by (simp add: consistent_def)
  have ne: "x \<noteq> c" using linked_irrefl[OF l] x by blast
  have xin: "x \<in> set (getItemList h c)" using l x by (simp add: linked_list)
  have hx: "h1 x = h x" using ne by (simp add: h1_def updateAmmoCount_other)
  have c2: "contents (h2 a) = contents (h1 a)" for a using hx by (simp add: h2_def on_item_def setItemCount_def)
  then have "getItemList h2 a = getItemList h1 a" "total h2 a = total h1 a" and am: "ammo h2 a = ammo h1 a" for a
    by (simp_all add: getItemList_def ammo_def total_def)
  then have l2: "getItemList h2 a = getItemList h a" "total h2 a = total h a" for a by (simp_all add: h1_def)
  have r: "restocked h x h2"
    unfolding restocked_def using l2 hx c2 by (auto simp: h2_def on_item_def h1_def setItemCount_def)
  let ?rest = "\<Sum>y \<leftarrow> remove1 x (getItemList h c). ammo_of ty (h y)"
  have sum: "ammo h c = ammo_of ty (h x) + ?rest"
    using assms(1) xin by (simp add: consistent_def ammo_ok_def ammo_split[of x])
  have "unat (getItemCount (h x) - ucast n) = unat (item_count (h x)) - unat n"
    using assms(3) by (simp add: getItemCount_def unat_sub word_le_nat_alt unat_ucast_up)
  then have "ammo h2 a = (if a = c then ?rest + ammo_of ty (h2 x) else ammo h a)" for a
    using sum assms(3) hx am[of a]
    by (auto simp: h1_def ammo_sub ammo_of_def h2_def on_item_def setItemCount_def getWeaponType_def word_le_nat_alt)
  then have "ammo_ok ty h2" using restocked_ammo[OF assms(1) x r] by blast
  then show ?thesis using restocked_finish[OF assms(1) x r] by blast
qed

section \<open>Replacing an item\<close>

lemma add_weight_setParent: "add_weight d c (setParent p x h) = setParent p x (add_weight d c h)"
  by (auto simp: add_weight_def on_contents_def setParent_def fun_eq_iff)

lemma updateItemWeight_setParent:
  assumes "acyclic (par h0)" and "finite (par h0)" and "same_but_weights h0 h" and "(c, x) \<notin> (par h0)\<^sup>*"
  shows "updateItemWeight d c (setParent p x h) = map_option (setParent p x) (updateItemWeight d c h)"
proof -
  have "wf ((par h0)\<inverse>)" using assms(1,2) by (simp add: finite_acyclic_wf_converse)
  then show ?thesis using assms(3,4)
  proof (induction c arbitrary: h rule: wf_induct_rule)
    case (less c)
    have c: "parent (setParent p x h c) = parent (h c)" using less.prems(2) by auto
    show ?case
    proof (cases "\<exists>q. parent (h c) = Some (CContainer q)")
      case True
      then obtain q where q: "parent (h c) = Some (CContainer q)" by blast
      then have cq: "(c, q) \<in> par h0" using less.prems(1) by (simp add: same_but_weights_def par_def)
      moreover have "(q, x) \<notin> (par h0)\<^sup>*" using cq less.prems(2) by (meson converse_rtrancl_into_rtrancl)
      moreover have "same_but_weights h0 (add_weight d c h)" using less.prems(1) add_weight_same same_but_weights_trans by blast
      ultimately show ?thesis
        using less.IH[of q "add_weight d c h"] q c
        by (simp add: updateItemWeight_step[of d c "setParent p x h"] updateItemWeight_step[of d c h] add_weight_setParent)
    next
      case False
      then show ?thesis using c
        by (auto simp: updateItemWeight_step[of d c "setParent p x h"] updateItemWeight_step[of d c h] add_weight_setParent
            split: option.splits Cylinder.splits)
    qed
  qed
qed

lemma updateAmmoCount_keeps:
  "linked h \<Longrightarrow> linked (updateAmmoCount ty y d c h)" "weights_ok ty h \<Longrightarrow> weights_ok ty (updateAmmoCount ty y d c h)"
  "ammo_of ty (updateAmmoCount ty y d c h a) = ammo_of ty (h a)" "par (updateAmmoCount ty y d c h) = par h"
proof -
  have "getWeight ty (updateAmmoCount ty y d c h a) = getWeight ty (h a)" for a
    using item_weight_cong[of "updateAmmoCount ty y d c h a" "h a" ty] by (simp add: getWeight_total)
  then show "weights_ok ty h \<Longrightarrow> weights_ok ty (updateAmmoCount ty y d c h)"
    by (simp add: weights_ok_def content_weight_def)
qed (simp_all add: linked_def par_def ammo_of_def getWeaponType_def)

lemma updateAmmoCount_setParent:
  "setParent p x (updateAmmoCount ty y d c h) = updateAmmoCount ty y d c (setParent p x h)"
  by (auto simp: updateAmmoCount_def on_contents_def setParent_def fun_eq_iff)

lemma replace_linked:
  assumes l: "linked h" and i: "i < length (getItemList h c)" and n: "contents (h c) \<noteq> None"
    and x: "free h x" "(c, x) \<notin> (par h)\<^sup>*"
  defines "h1 \<equiv> setParent None (getItemList h c ! i) (put_into c x (\<lambda>xs. xs[i := x]) h)"
  shows "linked h1" and "relisted h c ((getItemList h c)[i := x]) h1" and "par h1 = insert (x, c) (par h - {(getItemList h c ! i, c)})"
proof -
  let ?old = "getItemList h c ! i"
  have old: "(?old, c) \<in> par h" using l i by (simp add: linked_list[symmetric])
  then have ne: "?old \<noteq> x" "parent (h ?old) = Some (CContainer c)" using x(1) by (auto simp: free_def par_def)
  have lists: "getItemList h1 a = (if a = c then (getItemList h c)[i := x] else getItemList h a)" for a
    using getItemList_put[of h c x "\<lambda>xs. xs[i := x]" a] n by (simp add: h1_def getItemList_def)
  show p: "par h1 = insert (x, c) (par h - {(?old, c)})"
    using x(1) ne by (auto simp: h1_def put_into_def par_def free_def split: if_splits)
  have "x \<notin> set (getItemList h c)" using l x(1) by (simp add: linked_list free_def)
  moreover have d: "distinct (getItemList h c)" using l by (simp add: linked_def)
  ultimately have "distinct ((getItemList h c)[i := x])" "set ((getItemList h c)[i := x]) = insert x (set (getItemList h c) - {?old})"
    using i by (auto simp: distinct_list_update set_update_distinct)
  moreover have "acyclic (par h1)"
    using l x(2) unfolding p
    by (intro acyclic_insert[THEN iffD2] conjI) (auto simp: linked_def intro: acyclic_subset dest: rtrancl_mono[THEN subsetD, rotated])
  ultimately show "linked h1"
    using l unfolding linked_def p lists by auto
  show "relisted h c ((getItemList h c)[i := x]) h1"
    unfolding relisted_def lists using n by (auto simp: h1_def put_into_def total_def split: if_splits)
qed

end
