(* ===== verification/ContainerMoves.thy ===== *)
theory ContainerMoves
  imports ContainerTree
begin

text \<open>
  Every operation of a container keeps a consistent heap consistent, and the queries that walk through the cylinders
  around a container end there.
\<close>

section \<open>Operations keep the heap consistent\<close>

lemma sum_list_subst:
  fixes g :: "nat \<Rightarrow> 'z::ab_group_add"
  shows "i < length xs \<Longrightarrow> (\<Sum>y \<leftarrow> xs[i := x]. g y) = (\<Sum>y \<leftarrow> xs. g y) - g (xs ! i) + g x"
  by (induction xs arbitrary: i) (auto simp: algebra_simps split: nat.splits)

lemma nat_sum_list_subst:
  fixes g :: "nat \<Rightarrow> nat"
  shows "i < length xs \<Longrightarrow> (\<Sum>y \<leftarrow> xs[i := x]. g y) + g (xs ! i) = (\<Sum>y \<leftarrow> xs. g y) + g x"
  by (induction xs arbitrary: i) (auto split: nat.splits)

lemma getWeight_parent [simp]: "getWeight ty (y\<lparr>parent := p\<rparr>) = getWeight ty y"
proof -
  have "Item_getWeight ty (y\<lparr>parent := p\<rparr>) = Item_getWeight ty y" by (rule item_weight_cong) simp_all
  then show ?thesis unfolding getWeight_def by (cases "contents y") simp_all
qed

lemma ammo_room:
  assumes "consistent ty h" and "small h"
  shows "ammo h c + 255 < 2 ^ 32"
proof -
  have "ammo h c = (\<Sum>y \<leftarrow> getItemList h c. ammo_of ty (h y))" using assms(1) by (simp add: consistent_def ammo_ok_def)
  then have "ammo h c \<le> 255 * length (getItemList h c)" using ammo_sum_bound[of ty h] by simp
  moreover have "length (getItemList h c) < 2 ^ 24" using assms(2) by (simp add: small_def)
  ultimately show ?thesis by simp
qed

lemma replaceThing_ok:
  assumes c: "consistent ty h" "small h" and n: "contents (h c) \<noteq> None" and x: "free h x" "(c, x) \<notin> (par h)\<^sup>*"
    and i: "i < length (getItemList h c)"
  shows "\<exists>h'. replaceThing ty i c x h = Some h' \<and> consistent ty h' \<and>
    par h' = insert (x, c) (par h - {(getItemList h c ! i, c)})"
proof -
  let ?old = "getItemList h c ! i" and ?L = "(getItemList h c)[i := x]"
  let ?h1 = "put_into c x (\<lambda>xs. xs[i := x]) h"
  let ?g1 = "setParent None ?old ?h1"
  let ?d = "- getWeight ty (h ?old) + getWeight ty (h x)"
  have l: "linked h" using c by (simp add: consistent_def)
  note g1 = replace_linked[OF l i n x]
  have old: "(?old, c) \<in> par h" using l i by (simp add: linked_list[symmetric])
  have ne: "x \<noteq> c" "?old \<noteq> c" using x(2) linked_irrefl[OF l] old by auto
  have h1: "?h1 ?old = (h ?old)\<lparr>parent := if ?old = x then Some (CContainer c) else parent (h ?old)\<rparr>"
    "?h1 x = (h x)\<lparr>parent := Some (CContainer c)\<rparr>"
    using ne by (simp_all add: put_into_def setParent_def on_contents_def)
  have w: "getWeight ty (?h1 ?old) = getWeight ty (h ?old)" "getWeight ty (?h1 x) = getWeight ty (h x)"
    by (simp_all only: h1 getWeight_parent)
  have "?d = (\<Sum>y \<leftarrow> ?L. getWeight ty (h y)) - content_weight ty h c"
    using i by (simp add: content_weight_def sum_list_subst)
  then obtain h2 where h2: "updateItemWeight ?d c ?g1 = Some h2" "same_but_weights ?g1 h2" "weights_ok ty h2"
    using relisted_weights[OF _ g1(2,1) n] c by (auto simp: consistent_def)
  have p1: "par ?h1 = insert (x, c) (par h)" using par_put[OF x(1)] .
  have ac: "acyclic (par ?h1)" "finite (par ?h1)" using l x(2) by (simp_all add: p1 linked_def acyclic_insert)
  moreover have "(c, ?old) \<notin> (par ?h1)\<^sup>*"
  proof
    assume "(c, ?old) \<in> (par ?h1)\<^sup>*"
    moreover have "(?old, c) \<in> par ?h1" using old p1 by simp
    ultimately have "(?old, ?old) \<in> (par ?h1)\<^sup>+" by (rule rtrancl_into_trancl2[rotated])
    then show False using ac(1) unfolding acyclic_def by blast
  qed
  ultimately obtain h2' where h2': "updateItemWeight ?d c ?h1 = Some h2'" "h2 = setParent None ?old h2'"
    using updateItemWeight_setParent[OF _ _ same_but_weights_refl, of ?h1 c ?old ?d None] h2(1) by auto
  note s = same_but_weights_simps[OF h2(2)]
  have i2: "itemId (h2' a) = itemId (h a)" "item_count (h2' a) = item_count (h a)" for a
    using h2(2) g1(2) unfolding h2'(2) by (simp_all add: same_but_weights_def relisted_def)
  let ?r = "updateAmmoCount ty (h x) (ucast (getItemCount (h x))) c
    (updateAmmoCount ty (h ?old) (- ucast (getItemCount (h ?old))) c h2)"
  have same: "updateAmmoCount ty y d c = updateAmmoCount ty z d c" if "itemId y = itemId z" for y z d
    using that by (simp add: updateAmmoCount_def getWeaponType_def)
  have r: "replaceThing ty i c x h = Some ?r"
  proof -
    have "getItemByIndex h c i = Some ?old" using i by (simp add: getItemByIndex_def)
    moreover have "setParent (Some (CContainer c)) x (on_contents (\<lambda>k. k\<lparr>itemlist := (itemlist k)[i := x]\<rparr>) c h) = ?h1"
      by (simp add: put_into_def)
    ultimately show ?thesis
      using same[of "h2' ?old" "h ?old"] same[of "updateAmmoCount ty (h ?old) (- ucast (getItemCount (h ?old))) c h2' x" "h x"]
      by (simp add: replaceThing_def w h2'(1)[unfolded uminus_add_conv_diff] Let_def i2 getItemCount_def updateAmmoCount_setParent h2'(2))
  qed
  have a2: "ammo h2 a = ammo h a" for a
    using s(3) by (simp add: put_into_def ammo_def split: option.splits)
  have ao: "ammo_of ty (h ?old) + (\<Sum>y \<leftarrow> remove1 ?old (getItemList h c). ammo_of ty (h y)) = ammo h c"
    using c i by (simp add: consistent_def ammo_ok_def ammo_split[of ?old])
  have u: "(if getWeaponType ty (h ?old) = WEAPON_AMMO then unat (getItemCount (h ?old)) else 0) = ammo_of ty (h ?old)"
    by (simp add: ammo_of_def getItemCount_def unat_ucast_up)
  let ?r1 = "updateAmmoCount ty (h ?old) (- ucast (getItemCount (h ?old))) c h2"
  have a3: "ammo ?r1 a = (if a = c then ammo h c - ammo_of ty (h ?old) else ammo h a)" for a
    using u by (auto simp: ammo_sub a2)
  have "contents (?r1 c) \<noteq> None" using s(4)[of c] n g1(2) by (simp add: relisted_def)
  moreover have "ammo ?r1 c + ammo_of ty (h x) < 2 ^ 32"
    using ammo_room[OF c, of c] ammo_bound[of ty "h x"] a3[of c] by simp
  ultimately have "ammo ?r a = (if a = c then ammo h c - ammo_of ty (h ?old) + ammo_of ty (h x) else ammo h a)" for a
    using ammo_add[of ?r1 c ty "h x" a] a3 by simp
  moreover have "(\<Sum>y \<leftarrow> ?L. ammo_of ty (h y)) = ammo h c - ammo_of ty (h ?old) + ammo_of ty (h x)"
    using nat_sum_list_subst[OF i, of "\<lambda>y. ammo_of ty (h y)" x] c ao by (simp add: consistent_def ammo_ok_def)
  moreover have "ammo_of ty (h2 a) = ammo_of ty (h a)" for a
    using s(5)[of ty a] relisted_items(2)[OF g1(2)] by simp
  moreover have "getItemList h2 a = (if a = c then ?L else getItemList h a)" for a
    using s(1)[of a] g1(2) by (simp add: relisted_def)
  ultimately have "ammo_ok ty ?r" using c(1) by (auto simp: ammo_ok_def updateAmmoCount_keeps consistent_def)
  moreover have "linked h2" using g1(1) h2(2) by (simp add: linked_same)
  ultimately have "consistent ty ?r" using h2(3) by (simp add: consistent_def updateAmmoCount_keeps)
  moreover have "par ?r = insert (x, c) (par h - {(?old, c)})" using s(2) g1(3) by (simp add: updateAmmoCount_keeps)
  ultimately show ?thesis using r by blast
qed

lemma addThing_ok:
  assumes "consistent ty h" "small h" "contents (h c) \<noteq> None" "free h x" "(c, x) \<notin> (par h)\<^sup>*"
    and "sint index < sint (capacity h c)"
  shows "\<exists>h'. addThing ty index c x h = Some h' \<and> consistent ty h' \<and> par h' = insert (x, c) (par h) \<and>
    (\<forall>a. getItemList h' a = (if a = c then x # getItemList h c else getItemList h a))"
  using insert_with_ok[OF assms(1-5), of "(#) x"] assms(6) by (auto simp: addThing_def inserts)

lemma addItemBack_ok:
  assumes "consistent ty h" "small h" "contents (h c) \<noteq> None" "free h x" "(c, x) \<notin> (par h)\<^sup>*"
  shows "\<exists>h'. addItemBack ty c x h = Some h' \<and> consistent ty h' \<and> par h' = insert (x, c) (par h)"
  using insert_with_ok[OF assms, of "\<lambda>xs. xs @ [x]"] by (auto simp: inserts)

lemma ucast_sub_count:
  assumes "n \<le> m"
  shows "(ucast (ucast (m :: u8) - ucast n :: u16) :: u32) = ucast (ucast m :: u16) - ucast n"
proof (rule word_unat_eq_iff[THEN iffD2])
  have le: "(ucast n :: u16) \<le> ucast m" "(ucast n :: u32) \<le> ucast (ucast m :: u16)"
    using assms by (simp_all add: word_le_nat_alt unat_ucast_up)
  have "unat (ucast (ucast m - ucast n :: u16) :: u32) = unat (ucast m - ucast n :: u16)" by (rule ucast_count(1))
  also have "\<dots> = unat m - unat n" using le(1) by (simp add: unat_sub unat_ucast_up)
  also have "\<dots> = unat (ucast (ucast m :: u16) - ucast n :: u32)" using le(2) by (simp add: unat_sub unat_ucast_up)
  finally show "unat (ucast (ucast m - ucast n :: u16) :: u32) = unat (ucast (ucast m :: u16) - ucast n :: u32)" .
qed

lemma unat_ucast_small:
  assumes "unat (w :: 'a::len word) < 2 ^ LENGTH('b)"
  shows "unat (ucast w :: 'b::len word) = unat w"
proof -
  have "unat (ucast w :: 'b word) = take_bit LENGTH('b) (unat w)"
    by (simp only: unsigned_ucast_eq unsigned_take_bit_eq)
  then show ?thesis using assms by (simp add: take_bit_nat_eq_self)
qed

lemma sint_small:
  assumes "unat (w :: s32) \<le> 255"
  shows "\<not> sint w < 0"
proof -
  have u: "uint w \<le> 255" using of_nat_mono[OF assms, where 'a = int] by simp
  moreover have "0 \<le> uint w" by simp
  ultimately have "- 2147483648 \<le> uint w" "uint w < 2147483648" by linarith+
  then have "sint w = uint w" by (simp only: sint_uint) (rule signed_take_bit_int_eq_self, simp_all)
  then show ?thesis by simp
qed

lemma removeThing_stack_ok:
  assumes "consistent ty h" and x: "(x, c) \<in> par h" and "isStackable ty (h x)" and cnt: "unat cnt < unat (item_count (h x))"
  shows "\<exists>h'. removeThing ty c x cnt h = Some h' \<and> consistent ty h' \<and> par h' = par h"
proof -
  let ?m = "item_count (h x)" and ?left = "ucast (getItemCount (h x)) - cnt :: s32"
  have ul: "unat ?left = unat ?m - unat cnt"
    using cnt by (simp add: unat_sub word_le_nat_alt getItemCount_def unat_ucast_up)
  then have small: "unat ?left \<le> 255" using byte_le[of ?m] by simp
  define n where "n = (ucast ?left :: u8)"
  have un: "unat n = unat ?m - unat cnt"
    unfolding n_def ul[symmetric] by (rule unat_ucast_small) (use small in simp)
  have pos: "\<not> sint ?left < 0" using small by (rule sint_small)
  have "n \<le> ?m" using un by (simp add: word_le_nat_alt)
  note ok = decrease_ok[OF assms(1) x this] ucast_sub_count[OF this]
  have xin: "getThingIndex h c x \<noteq> -1" using assms(1) x by (simp add: getThingIndex_iff consistent_def linked_list)
  have "cnt \<noteq> ucast (getItemCount (h x))" using cnt by (auto simp: getItemCount_def unat_ucast_up)
  then have "removeThing ty c x cnt h =
      (let h1 = updateAmmoCount ty (h x) (- (ucast (getItemCount (h x)) - ucast n)) c h; h2 = on_item (setItemCount n) x h1
       in updateItemWeight (- getWeight ty (h x) + getWeight ty (h2 x)) c h2)"
    using xin assms(3) pos by (simp add: removeThing_def n_def Let_def)
  then show ?thesis using ok by (auto simp: getItemCount_def Let_def)
qed

lemma removeThing_whole_ok:
  assumes "consistent ty h" and x: "(x, c) \<in> par h" and "isStackable ty (h x) \<Longrightarrow> cnt = ucast (getItemCount (h x))"
  shows "\<exists>h'. removeThing ty c x cnt h = Some h' \<and> consistent ty h' \<and> par h' = par h - {(x, c)} \<and>
    (\<forall>a. contents (h' a) = None \<longleftrightarrow> contents (h a) = None)"
proof -
  obtain h1 where h1: "updateItemWeight (- getWeight ty (h x)) c h = Some h1" "h1 x = h x" "same_but_weights h h1"
    "consistent ty (take_out c x (updateAmmoCount ty (h x) (- ucast (getItemCount (h x))) c h1))"
    using take_out_ok[OF assms(1) x] by blast
  have "getThingIndex h c x \<noteq> -1" using assms(1) x by (simp add: getThingIndex_iff consistent_def linked_list)
  then have r: "removeThing ty c x cnt h = Some (take_out c x (updateAmmoCount ty (h x) (- ucast (getItemCount (h x))) c h1))"
    using h1(1,2) assms(3) by (auto simp: removeThing_def take_out_def Let_def)
  have "par (updateAmmoCount ty (h x) (- ucast (getItemCount (h x))) c h1) = par h"
    using same_but_weights_simps(2)[OF h1(3)] by (simp add: updateAmmoCount_keeps)
  moreover have "contents (take_out c x (updateAmmoCount ty (h x) (- ucast (getItemCount (h x))) c h1) a) = None \<longleftrightarrow>
      contents (h a) = None" for a
    using same_but_weights_simps(4)[OF h1(3), of a] by (simp add: take_out_simps)
  ultimately show ?thesis using r h1(4) par_take_out[of x c] x by auto
qed

text \<open>Changing the type and the count of an item leaves its place and its contents alone.\<close>

lemma item_setters [simp]:
  "parent (on_attributes f y) = parent y" "contents (on_attributes f y) = contents y"
  "parent (Item_removeAttribute t y) = parent y" "contents (Item_removeAttribute t y) = contents y"
  by (simp_all add: on_attributes_def Item_removeAttribute_def split: option.splits)

lemma setID_keeps [simp]: "parent (setID ty d i y) = parent y" "contents (setID ty d i y) = contents y"
  by (simp_all add: setID_def Let_def setDuration_def setDecaying_def Item_setIntAttr_def)

lemma setSubType_keeps [simp]: "parent (setSubType ty n y) = parent y" "contents (setSubType ty n y) = contents y"
  by (simp_all add: setSubType_def Let_def setFluidType_def setCharges_def setItemCount_def Item_setIntAttr_def)

lemma updateThing_ok:
  assumes "consistent ty h" and "small h" and x: "(x, c) \<in> par h"
  shows "\<exists>h'. updateThing ty duration c x newId cnt h = Some h' \<and> consistent ty h' \<and> par h' = par h"
proof -
  have "getThingIndex h c x \<noteq> -1" using assms(1) x by (simp add: getThingIndex_iff consistent_def linked_list)
  then show ?thesis
    using update_ok[OF assms, of "setSubType ty (ucast cnt) \<circ> setID ty duration newId"]
    by (auto simp: updateThing_def Let_def)
qed

text \<open>Removing an attribute other than the weight does not change the weight.\<close>

lemma removeAttribute_weight:
  assumes "\<And>a. item_attributes y = Some a \<Longrightarrow> attributes_ok a" and "single t" and "t \<noteq> ITEM_ATTRIBUTE_WEIGHT"
  shows "Item_getWeight ty (Item_removeAttribute t y) = Item_getWeight ty y"
    and "item_attributes (Item_removeAttribute t y) = Some b \<Longrightarrow> attributes_ok b"
proof -
  have w: "single ITEM_ATTRIBUTE_WEIGHT" unfolding ITEM_ATTRIBUTE_WEIGHT_def by (rule single_power) simp
  show "item_attributes (Item_removeAttribute t y) = Some b \<Longrightarrow> attributes_ok b"
    using assms(1,2) removeAttribute_ok by (auto simp: Item_removeAttribute_def split: option.splits)
  show "Item_getWeight ty (Item_removeAttribute t y) = Item_getWeight ty y"
  proof (cases "item_attributes y")
    case (Some a)
    note ok = assms(1)[OF Some] removeAttribute_ok[OF assms(1)[OF Some] assms(2)]
    have m: "attr_map (removeAttribute t a) ITEM_ATTRIBUTE_WEIGHT = attr_map a ITEM_ATTRIBUTE_WEIGHT"
      using removeAttribute_map[OF ok(1) assms(2)] assms(3) by simp
    have "hasAttribute ITEM_ATTRIBUTE_WEIGHT (removeAttribute t a) = hasAttribute ITEM_ATTRIBUTE_WEIGHT a"
      "getIntAttr ITEM_ATTRIBUTE_WEIGHT (removeAttribute t a) = getIntAttr ITEM_ATTRIBUTE_WEIGHT a"
      using hasAttribute_iff[OF ok(1) w] hasAttribute_iff[OF ok(2) w] getExistingAttr_map[OF ok(1) w] getExistingAttr_map[OF ok(2) w] m
      by (simp_all add: getIntAttr_def dom_def del: ITEM_ATTRIBUTE_WEIGHT_def)
    then show ?thesis
      using Some by (simp add: Item_removeAttribute_def Item_getWeight_def isStackable_def getBaseWeight_def getItemCount_def
          Item_hasAttribute_def Item_getIntAttr_def)
  qed (simp add: Item_removeAttribute_def)
qed

lemma on_item_consistent:
  assumes "consistent ty h" and "itemId (g (h x)) = itemId (h x)" "item_count (g (h x)) = item_count (h x)"
    "parent (g (h x)) = parent (h x)" "contents (g (h x)) = contents (h x)" "Item_getWeight ty (g (h x)) = Item_getWeight ty (h x)"
  shows "consistent ty (on_item g x h)" and "par (on_item g x h) = par h"
proof -
  let ?h = "on_item g x h"
  have same: "contents (?h a) = contents (h a)" "parent (?h a) = parent (h a)" for a using assms(4,5) by (simp_all add: on_item_def)
  then have l: "getItemList ?h a = getItemList h a" "total ?h a = total h a" "ammo ?h a = ammo h a" for a
    by (simp_all add: getItemList_def total_def ammo_def)
  have w: "getWeight ty (?h a) = getWeight ty (h a)" for a
    using assms(5,6) by (simp add: getWeight_def on_item_def split: option.splits)
  have am: "ammo_of ty (?h a) = ammo_of ty (h a)" for a
    using ammo_of_cong[OF assms(2,3)] by (simp add: on_item_def)
  show p: "par ?h = par h" by (simp add: par_def same)
  show "consistent ty ?h"
    using assms(1) unfolding consistent_def linked_def weights_ok_def ammo_ok_def content_weight_def p
    by (simp add: same l w am)
qed

lemma internalAddThing_ok:
  assumes "consistent ty h" "small h" "contents (h c) \<noteq> None" "free h x" "(c, x) \<notin> (par h)\<^sup>*"
    and at: "\<And>a. item_attributes (h x) = Some a \<Longrightarrow> attributes_ok a"
  shows "\<exists>h'. internalAddThing ty c x h = Some h' \<and> consistent ty h' \<and> par h' = insert (x, c) (par h)"
proof -
  obtain h1 where h1: "insert_front ty c x h = Some h1" "consistent ty h1" "par h1 = insert (x, c) (par h)"
    "item_attributes (h1 x) = item_attributes (h x)"
    using insert_with_ok[OF assms(1-5), of "(#) x"] by (auto simp: inserts)
  have at1: "\<And>a. item_attributes (h1 x) = Some a \<Longrightarrow> attributes_ok a" using at h1(4) by simp
  have s: "single ITEM_ATTRIBUTE_DATE" "single ITEM_ATTRIBUTE_REWARDID"
    unfolding ITEM_ATTRIBUTE_DATE_def ITEM_ATTRIBUTE_REWARDID_def by (rule single_power, simp)+
  have ne: "ITEM_ATTRIBUTE_DATE \<noteq> ITEM_ATTRIBUTE_WEIGHT" "ITEM_ATTRIBUTE_REWARDID \<noteq> ITEM_ATTRIBUTE_WEIGHT" by simp_all
  let ?g = "Item_removeAttribute ITEM_ATTRIBUTE_REWARDID \<circ> Item_removeAttribute ITEM_ATTRIBUTE_DATE :: Obj \<Rightarrow> Obj"
  have d: "Item_getWeight ty (Item_removeAttribute ITEM_ATTRIBUTE_DATE (h1 x)) = Item_getWeight ty (h1 x)"
    by (rule removeAttribute_weight(1)[OF _ s(1) ne(1)]) (rule at1)
  have "attributes_ok b" if "item_attributes (Item_removeAttribute ITEM_ATTRIBUTE_DATE (h1 x)) = Some b" for b
    using removeAttribute_weight(2)[OF _ s(1) ne(1) that] at1 by blast
  then have "Item_getWeight ty (Item_removeAttribute ITEM_ATTRIBUTE_REWARDID (Item_removeAttribute ITEM_ATTRIBUTE_DATE (h1 x))) =
      Item_getWeight ty (Item_removeAttribute ITEM_ATTRIBUTE_DATE (h1 x))"
    by (rule removeAttribute_weight(1)[OF _ s(2) ne(2)])
  with d have r: "Item_getWeight ty (?g (h1 x)) = Item_getWeight ty (h1 x)" by (simp only: comp_apply)
  have "itemId (?g (h1 x)) = itemId (h1 x)" "item_count (?g (h1 x)) = item_count (h1 x)"
    by (simp_all add: Item_removeAttribute_def split: option.splits)
  then have "consistent ty (on_item ?g x h1)" "par (on_item ?g x h1) = par h1"
    using on_item_consistent[where g = ?g and x = x, OF h1(2) _ _ _ _ r] by simp_all
  then show ?thesis using h1 by (simp add: internalAddThing_def)
qed

section \<open>The queries end\<close>

text \<open>A tile has no cylinder around it.\<close>

definition env_ok :: "Query_env \<Rightarrow> bool" where
  "env_ok env \<longleftrightarrow> (\<forall>n m. carrier env n = Some m \<longrightarrow> carrier env m = None)"

lemma surrounded_other:
  assumes "env_ok env"
  shows "surrounded_loop env h x (COther n) = Some False"
proof -
  have base: "surrounded_loop env h x (COther m) = Some False" if "carrier env m = None" for m
    using that by (subst surrounded_loop.simps) (simp add: cylinder_parent_def)
  show ?thesis
  proof (cases "carrier env n")
    case (Some m)
    then have "surrounded_loop env h x (COther m) = Some False" using assms base by (simp add: env_ok_def)
    with Some show ?thesis by (subst surrounded_loop.simps) (simp add: cylinder_parent_def)
  qed (rule base)
qed

lemma surrounded_loop_iff:
  assumes "linked h" and "env_ok env"
  shows "surrounded_loop env h x (CContainer c) = Some ((c, x) \<in> (par h)\<^sup>*)"
proof -
  have "wf ((par h)\<inverse>)" using assms(1) by (simp add: linked_def finite_acyclic_wf_converse)
  then show ?thesis
  proof (induction c rule: wf_induct_rule)
    case (less c)
    show ?case
    proof (cases "parent (h c)")
      case None
      then have "(c, x) \<in> (par h)\<^sup>* \<longleftrightarrow> c = x" by (auto simp: par_def elim: converse_rtranclE)
      with None show ?thesis by (subst surrounded_loop.simps) (simp add: cylinder_parent_def)
    next
      case (Some p)
      show ?thesis
      proof (cases p)
        case (CContainer q)
        then have "(c, a) \<in> par h \<longleftrightarrow> a = q" for a using Some by (auto simp: par_def)
        then have "(c, x) \<in> (par h)\<^sup>* \<longleftrightarrow> c = x \<or> (q, x) \<in> (par h)\<^sup>*"
          by (auto elim: converse_rtranclE intro: converse_rtrancl_into_rtrancl)
        moreover have "surrounded_loop env h x (CContainer q) = Some ((q, x) \<in> (par h)\<^sup>*)"
          using less.IH[of q] Some CContainer by (simp add: par_def)
        ultimately show ?thesis using Some CContainer by (subst surrounded_loop.simps) (simp add: cylinder_parent_def)
      next
        case (COther n)
        then have "(c, x) \<in> (par h)\<^sup>* \<longleftrightarrow> c = x" using Some by (auto simp: par_def elim: converse_rtranclE)
        with COther Some show ?thesis
          using surrounded_other[OF assms(2), of h x n] by (subst surrounded_loop.simps) (simp add: cylinder_parent_def)
      qed
    qed
  qed
qed

lemma surrounded_by_iff:
  assumes "linked h" and "env_ok env"
  shows "surrounded_by env h x c = Some ((c, x) \<in> (par h)\<^sup>+)"
proof (cases "parent (h c)")
  case None
  then have "(c, x) \<notin> (par h)\<^sup>+" by (auto simp: par_def dest: tranclD)
  with None show ?thesis by (simp add: surrounded_by_def)
next
  case (Some p)
  show ?thesis
  proof (cases p)
    case (CContainer q)
    then have "(c, a) \<in> par h \<longleftrightarrow> a = q" for a using Some by (auto simp: par_def)
    then have "(c, x) \<in> (par h)\<^sup>+ \<longleftrightarrow> (q, x) \<in> (par h)\<^sup>*" by (auto dest: tranclD intro: rtrancl_into_trancl2)
    with Some CContainer show ?thesis using surrounded_loop_iff[OF assms] by (simp add: surrounded_by_def)
  next
    case (COther n)
    then have "(c, x) \<notin> (par h)\<^sup>+" using Some by (auto simp: par_def dest: tranclD)
    with Some COther show ?thesis using surrounded_other[OF assms(2)] by (simp add: surrounded_by_def)
  qed
qed

lemma topParent_other: "env_ok env \<Longrightarrow> topParent_loop env h (COther n) prev \<noteq> None"
  by (subst topParent_loop.simps, subst topParent_loop.simps)
    (auto simp: cylinder_parent_def env_ok_def split: option.splits)

lemma getTopParent_returns:
  assumes "linked h" and "env_ok env"
  shows "getTopParent env h c \<noteq> None"
proof -
  have "wf ((par h)\<inverse>)" using assms(1) by (simp add: linked_def finite_acyclic_wf_converse)
  then have "topParent_loop env h (CContainer q) prev \<noteq> None" for q prev
  proof (induction q arbitrary: prev rule: wf_induct_rule)
    case (less q)
    show ?case
      using less.IH topParent_other[OF assms(2)]
      by (subst topParent_loop.simps) (auto simp: cylinder_parent_def par_def split: option.splits, metis Cylinder.exhaust)
  qed
  then show ?thesis
    using topParent_other[OF assms(2)] by (auto simp: getTopParent_def split: option.splits) (metis Cylinder.exhaust)
qed

lemma queryAdd_not_inside:
  assumes "linked h" and "env_ok env" and "queryAdd ty env h c index x cnt flags = Some RETURNVALUE_NOERROR"
    and "\<not> hasBitSet FLAG_CHILDISOWNER flags"
  shows "(c, x) \<notin> (par h)\<^sup>*"
proof -
  have "x \<noteq> c \<and> (c, x) \<notin> (par h)\<^sup>+"
    using assms(3,4) surrounded_by_iff[OF assms(1,2), of x c]
    by (auto simp: queryAdd_def split: if_splits)
  then show ?thesis by (metis rtranclD)
qed

lemma any_stack_returns: "\<forall>y \<in> set ys. canStackWith ty h x y \<noteq> None \<Longrightarrow> any_stack ty h x ys \<noteq> None"
  by (induction ys) (auto split: option.splits bool.splits)

lemma queryAdd_returns:
  assumes "linked h" and "env_ok env" and "\<forall>y \<in> set (getItemList h c). canStackWith ty h x y \<noteq> None"
  shows "queryAdd ty env h c index x cnt flags \<noteq> None"
proof -
  obtain b where b: "surrounded_by env h x c = Some b" using surrounded_by_iff[OF assms(1,2)] by blast
  obtain t where t: "getTopParent env h c = Some t" using getTopParent_returns[OF assms(1,2), of c] by blast
  have "item_at h c index = Some y \<Longrightarrow> y \<in> set (getItemList h c)" for y
    by (auto simp: item_at_def getItemByIndex_def split: if_splits)
  then have "canMergeIntoExistingStack ty h c x index \<noteq> None"
    using any_stack_returns[OF assms(3)] assms(3) by (auto simp: canMergeIntoExistingStack_def split: option.splits)
  then obtain r where "hasRoomForItem ty h c x index cnt = Some r"
    unfolding hasRoomForItem_def by (metis not_Some_eq)
  with b t show ?thesis
    by (auto simp: queryAdd_def split: option.splits Cylinder.splits)
qed

end
