(* ===== verification/ContainerRuns.thy ===== *)
theory ContainerRuns
  imports ContainerMoves
begin

text \<open>
  What a container holds in the end: the iterator lists every item inside it once, and the cached weight is the weight
  of them all. Then the heaps that the server can reach, where a thing is moved into a container only after \<open>queryAdd\<close>
  has agreed: they are consistent, and no operation loops for ever on them.
\<close>

section \<open>The items below a container\<close>

definition below :: "heap \<Rightarrow> nat \<Rightarrow> nat set" where
  "below h c = {x. (x, c) \<in> (par h)\<^sup>+}"

lemma par_functional: "(x, c) \<in> par h \<Longrightarrow> (x, d) \<in> par h \<Longrightarrow> c = d"
  by (simp add: par_def)

lemma finite_below: "linked h \<Longrightarrow> finite (below h c)"
proof -
  assume "linked h"
  then have "finite (Domain (par h))" by (simp add: linked_def finite_Domain)
  then show ?thesis by (rule rev_finite_subset) (auto simp: below_def dest: tranclD)
qed

lemma par_trancl_iff: "(x, c) \<in> par h \<Longrightarrow> (x, d) \<in> (par h)\<^sup>+ \<longleftrightarrow> (c, d) \<in> (par h)\<^sup>*"
  by (metis par_functional rtrancl_into_trancl2 tranclD)

lemma insert_below: "insert q (below h q) = {x. (x, q) \<in> (par h)\<^sup>*}"
  by (auto simp: below_def dest: rtranclD)

lemma below_children:
  assumes "linked h"
  shows "below h c = (\<Union>q \<in> set (getItemList h c). insert q (below h q))"
proof -
  have "x \<in> below h c \<longleftrightarrow> (\<exists>q. (q, c) \<in> par h \<and> (x, q) \<in> (par h)\<^sup>*)" for x
    unfolding below_def mem_Collect_eq by (metis rtrancl_into_trancl1 tranclD2)
  moreover have "set (getItemList h c) = {q. (q, c) \<in> par h}" using assms by (auto simp: linked_list)
  ultimately show ?thesis by (auto simp: insert_below)
qed

lemma par_linear:
  assumes "(x, a) \<in> (par h)\<^sup>*" and "(x, b) \<in> (par h)\<^sup>*"
  shows "(a, b) \<in> (par h)\<^sup>* \<or> (b, a) \<in> (par h)\<^sup>*"
  using assms
proof (induction x rule: converse_rtrancl_induct)
  case (step y z)
  then show ?case by (metis par_trancl_iff rtranclD rtrancl.rtrancl_refl r_into_rtrancl converse_rtrancl_into_rtrancl)
qed simp

definition apart :: "heap \<Rightarrow> nat \<Rightarrow> nat \<Rightarrow> bool" where
  "apart h a b \<longleftrightarrow> insert a (below h a) \<inter> insert b (below h b) = {}"

lemma siblings_apart:
  assumes l: "linked h" and "(a, c) \<in> par h" "(b, c) \<in> par h" "a \<noteq> b"
  shows "apart h a b"
proof -
  have up: "(p, q) \<notin> (par h)\<^sup>*" if "(p, c) \<in> par h" "(q, c) \<in> par h" "p \<noteq> q" for p q
    using that child_not_above[OF l that(2)] par_trancl_iff[OF that(1), of q] by (metis rtranclD)
  show ?thesis
    using up[OF assms(2,3)] up[OF assms(3,2)] assms(4) par_linear[of _ a h b] by (auto simp: apart_def insert_below)
qed

lemma child_apart: "(q, c) \<in> par h \<Longrightarrow> apart h c b \<Longrightarrow> apart h q b"
  by (auto simp: apart_def insert_below intro: rtrancl.rtrancl_into_rtrancl)

lemma sum_below:
  assumes l: "linked h"
  shows "sum g (below h c) = (\<Sum>q \<in> set (getItemList h c). g q + sum g (below h q))"
proof -
  have "sum g (below h c) = (\<Sum>q \<in> set (getItemList h c). sum g (insert q (below h q)))"
    unfolding below_children[OF l, of c]
    using siblings_apart[OF l] finite_below[OF l] l
    by (intro sum.UNION_disjoint) (auto simp: apart_def linked_list)
  moreover have "q \<notin> below h q" for q using l by (simp add: below_def linked_def acyclic_def)
  ultimately show ?thesis using finite_below[OF l] by simp
qed

text \<open>The cached weight of a container is the weight of everything inside it.\<close>

lemma total_weight_below:
  assumes c: "consistent ty h"
  shows "total h c = (\<Sum>x \<in> below h c. Item_getWeight ty (h x))"
proof -
  have l: "linked h" using c by (simp add: consistent_def)
  have "finite (par h)" "acyclic (par h)" using l by (simp_all add: linked_def)
  then have "wf (par h)" by (rule finite_acyclic_wf)
  then show ?thesis
  proof (induction c rule: wf_induct_rule)
    case (less c)
    have "total h c = (\<Sum>q \<leftarrow> getItemList h c. getWeight ty (h q))"
    proof (cases "contents (h c)")
      case None
      then show ?thesis by (simp add: total_def getItemList_def)
    next
      case (Some k)
      then show ?thesis using c by (simp add: consistent_def weights_ok_def content_weight_def)
    qed
    also have "\<dots> = (\<Sum>q \<in> set (getItemList h c). getWeight ty (h q))"
      using l by (intro sum_list_distinct_conv_sum_set) (simp add: linked_def)
    also have "\<dots> = (\<Sum>q \<in> set (getItemList h c). Item_getWeight ty (h q) + (\<Sum>x \<in> below h q. Item_getWeight ty (h x)))"
      using less.IH l by (intro sum.cong) (simp_all add: getWeight_total linked_list)
    finally show ?case by (simp add: sum_below[OF l, of _ c])
  qed
qed

section \<open>The iterator lists them all\<close>

lemma containers_below:
  assumes "linked h"
  shows "(\<Union>q \<in> set (filter (\<lambda>x. contents (h x) \<noteq> None) xs). below h q) = (\<Union>q \<in> set xs. below h q)"
proof (induction xs)
  case (Cons x xs)
  have "contents (h x) = None \<Longrightarrow> below h x = {}" using below_children[OF assms, of x] by (simp add: getItemList_def)
  then show ?case using Cons by (cases "contents (h x)") simp_all
qed simp

lemma loop_lists:
  assumes l: "linked h" and "distinct P" and "\<forall>p \<in> set P. \<forall>q \<in> set P. p \<noteq> q \<longrightarrow> apart h p q"
  shows "\<exists>ys. iterator_loop h P items = Some (items @ ys) \<and> distinct ys \<and> set ys = (\<Union>p \<in> set P. below h p)"
  using assms(2,3)
proof (induction "\<Sum>p \<leftarrow> P. Suc (card (below h p))" arbitrary: P items rule: less_induct)
  case less
  show ?case
  proof (cases P)
    case Nil
    then show ?thesis by (subst iterator_loop.simps) simp
  next
    case (Cons c rest)
    let ?L = "getItemList h c" and ?K = "filter (\<lambda>x. contents (h x) \<noteq> None) (getItemList h c)"
    let ?P = "rest @ ?K"
    have d: "distinct ?L" and mem: "\<And>q. q \<in> set ?L \<longleftrightarrow> (q, c) \<in> par h" using l by (simp_all add: linked_def)
    have ca: "apart h c p" if "p \<in> set rest" for p using that less.prems Cons by auto
    have qa: "apart h q p" "apart h p q" if "p \<in> set rest" "q \<in> set ?L" for p q
      using child_apart[OF _ ca[OF that(1)], of q] that(2) by (auto simp: mem apart_def)
    have dis: "distinct ?P" using less.prems(1) Cons d qa by (auto simp: apart_def)
    have ap: "\<forall>p \<in> set ?P. \<forall>q \<in> set ?P. p \<noteq> q \<longrightarrow> apart h p q"
      using less.prems(2) Cons qa siblings_apart[OF l, of _ c] by (auto simp: mem)
    have "(\<Sum>p \<leftarrow> ?K. Suc (card (below h p))) \<le> (\<Sum>p \<leftarrow> ?L. Suc (card (below h p)))"
      by (rule sum_list_filter_le_nat)
    also have "\<dots> = card (below h c)"
      using sum_below[OF l, of "\<lambda>_. 1 :: nat" c] by (simp add: sum_list_distinct_conv_sum_set[OF d])
    finally have "(\<Sum>p \<leftarrow> ?P. Suc (card (below h p))) < (\<Sum>p \<leftarrow> P. Suc (card (below h p)))" using Cons by simp
    from less.hyps[OF this dis ap, of "items @ ?L"] obtain ys
      where ys: "iterator_loop h ?P (items @ ?L) = Some (items @ ?L @ ys)" "distinct ys"
        "set ys = (\<Union>p \<in> set ?P. below h p)" by auto
    have "(\<Union>q \<in> set ?K. below h q) = (\<Union>q \<in> set ?L. below h q)" by (rule containers_below[OF l])
    then have "set (?L @ ys) = (\<Union>p \<in> set P. below h p)"
      unfolding set_append ys(3) Cons list.set UN_Un UN_insert below_children[OF l, of c] by (simp only:) blast
    moreover have "distinct (?L @ ys)"
    proof -
      have "q \<notin> below h p" if "q \<in> set ?L" "p \<in> set ?P" for p q
      proof (cases "p = q")
        case True
        then show ?thesis using l by (simp add: below_def linked_def acyclic_def)
      next
        case False
        then show ?thesis using that qa(1)[of p q] siblings_apart[OF l, of q c p] by (auto simp: apart_def mem)
      qed
      then show ?thesis using d ys(2,3) by auto
    qed
    ultimately show ?thesis using ys(1) Cons by (subst iterator_loop.simps) (intro exI[of _ "?L @ ys"], simp)
  qed
qed

lemma iterator_lists:
  assumes "linked h"
  shows "\<exists>xs. iterator h c = Some xs \<and> distinct xs \<and> set xs = below h c"
  using loop_lists[OF assms, of "[c]" "[]"] by (simp add: iterator_def)

lemma sum_list_below:
  assumes "consistent ty h" and "distinct xs" and "set xs = below h c"
  shows "getWeight ty (h c) = Item_getWeight ty (h c) + (\<Sum>x \<leftarrow> xs. Item_getWeight ty (h x))"
  using assms by (simp add: getWeight_total total_weight_below sum_list_distinct_conv_sum_set)

section \<open>The heaps that the server reaches\<close>

text \<open>
  An object is created outside of every container and empty; what is outside may be put somewhere else outside. A thing
  is added or moved when \<open>queryAdd\<close> (and \<open>queryRemove\<close>) agreed on the heap as it was; the operations that ask nobody
  are given a thing that does not hold the container. No list reaches \<open>2\<^sup>24\<close> items.
\<close>

definition outside :: "Cylinder option \<Rightarrow> bool" where
  "outside p \<longleftrightarrow> (case p of Some (CContainer _) \<Rightarrow> False | _ \<Rightarrow> True)"

definition fresh :: "Obj \<Rightarrow> bool" where
  "fresh x \<longleftrightarrow> outside (parent x) \<and>
     (case contents x of None \<Rightarrow> True | Some k \<Rightarrow> itemlist k = [] \<and> totalWeight k = 0 \<and> ammoCount k = 0)"

inductive held :: "Items \<Rightarrow> heap \<Rightarrow> bool" for ty where
  start: "\<forall>a. fresh (h a) \<Longrightarrow> held ty h"
| create: "held ty h \<Longrightarrow> free h x \<Longrightarrow> getItemList h x = [] \<Longrightarrow> fresh y \<Longrightarrow> held ty (h(x := y))"
| place: "held ty h \<Longrightarrow> free h x \<Longrightarrow> outside p \<Longrightarrow> held ty (setParent p x h)"
| add: "held ty h \<Longrightarrow> small h \<Longrightarrow> contents (h c) \<noteq> None \<Longrightarrow> free h x \<Longrightarrow> env_ok env \<Longrightarrow>
    queryAdd ty env h c index x cnt flags = Some RETURNVALUE_NOERROR \<Longrightarrow> \<not> hasBitSet FLAG_CHILDISOWNER flags \<Longrightarrow>
    addThing ty index c x h = Some h' \<Longrightarrow> held ty h'"
| move: "held ty h \<Longrightarrow> contents (h d) \<noteq> None \<Longrightarrow> env_ok env \<Longrightarrow>
    queryAdd ty env h d index x cnt flags = Some RETURNVALUE_NOERROR \<Longrightarrow> \<not> hasBitSet FLAG_CHILDISOWNER flags \<Longrightarrow>
    queryRemove ty env h c x cnt flags = Some RETURNVALUE_NOERROR \<Longrightarrow>
    (isStackable ty (h x) \<Longrightarrow> cnt = ucast (getItemCount (h x))) \<Longrightarrow> removeThing ty c x cnt h = Some h1 \<Longrightarrow> small h1 \<Longrightarrow>
    addThing ty index d x h1 = Some h' \<Longrightarrow> held ty h'"
| remove: "held ty h \<Longrightarrow> queryRemove ty env h c x cnt flags = Some RETURNVALUE_NOERROR \<Longrightarrow>
    removeThing ty c x cnt h = Some h' \<Longrightarrow> held ty h'"
| update: "held ty h \<Longrightarrow> small h \<Longrightarrow> updateThing ty duration c x newId n h = Some h' \<Longrightarrow> held ty h'"
| replace: "held ty h \<Longrightarrow> small h \<Longrightarrow> contents (h c) \<noteq> None \<Longrightarrow> free h x \<Longrightarrow> (c, x) \<notin> (par h)\<^sup>* \<Longrightarrow>
    replaceThing ty i c x h = Some h' \<Longrightarrow> held ty h'"
| append: "held ty h \<Longrightarrow> small h \<Longrightarrow> contents (h c) \<noteq> None \<Longrightarrow> free h x \<Longrightarrow> (c, x) \<notin> (par h)\<^sup>* \<Longrightarrow>
    addItemBack ty c x h = Some h' \<Longrightarrow> held ty h'"
| load: "held ty h \<Longrightarrow> small h \<Longrightarrow> contents (h c) \<noteq> None \<Longrightarrow> free h x \<Longrightarrow> (c, x) \<notin> (par h)\<^sup>* \<Longrightarrow>
    (\<And>a. item_attributes (h x) = Some a \<Longrightarrow> attributes_ok a) \<Longrightarrow> internalAddThing ty c x h = Some h' \<Longrightarrow> held ty h'"

lemma fresh_object:
  assumes "fresh (h a)"
  shows "getItemList h a = []" "total h a = 0" "ammo h a = 0" "(a, c) \<notin> par h"
  using assms by (auto simp: fresh_def outside_def getItemList_def total_def ammo_def par_def split: option.splits)

lemma fresh_consistent:
  assumes "\<forall>a. fresh (h a)"
  shows "consistent ty h"
proof -
  have "par h = {}" using fresh_object(4) assms by auto
  then show ?thesis
    using fresh_object(1-3)[of h] assms
    by (simp add: consistent_def linked_def weights_ok_def ammo_ok_def content_weight_def acyclic_def)
qed

text \<open>Whatever happens to an object that no container holds, if it leaves its contents as they were.\<close>

lemma create_consistent:
  assumes c: "consistent ty h" and f: "free h x" and e: "getItemList h x = []" and y: "fresh y"
  shows "consistent ty (h(x := y))"
proof -
  let ?h = "h(x := y)"
  note fx = fresh_object[where h = ?h and a = x, simplified fun_upd_same, OF y]
  have list: "getItemList ?h a = getItemList h a" for a using fx(1) e by (cases "a = x") (auto simp: getItemList_def)
  have np: "parent y \<noteq> Some (CContainer b)" for b using y by (auto simp: fresh_def outside_def)
  have "(a, b) \<in> par ?h \<longleftrightarrow> (a, b) \<in> par h" for a b
    using f by (cases "a = x") (simp_all add: par_def free_def np)
  then have p: "par ?h = par h" by auto
  have "a \<noteq> x" if "a \<in> set (getItemList h b)" for a b using that f c by (auto simp: consistent_def linked_list free_def)
  then have m: "map (\<lambda>a. g (?h a)) (getItemList h b) = map (\<lambda>a. g (h a)) (getItemList h b)" for g :: "Obj \<Rightarrow> 'z" and b
    by (intro map_cong) auto
  have "weights_ok ty ?h"
    unfolding weights_ok_def content_weight_def list m
  proof (intro allI impI)
    fix a assume "contents (?h a) \<noteq> None"
    then show "total ?h a = (\<Sum>b \<leftarrow> getItemList h a. getWeight ty (h b))"
      using c fx(2) e by (cases "a = x") (auto simp: consistent_def weights_ok_def content_weight_def total_def)
  qed
  moreover have "ammo_ok ty ?h"
    unfolding ammo_ok_def list m
  proof
    fix a
    show "ammo ?h a = (\<Sum>b \<leftarrow> getItemList h a. ammo_of ty (h b))"
      using c fx(3) e by (cases "a = x") (auto simp: consistent_def ammo_ok_def ammo_def)
  qed
  moreover have "linked ?h" using c by (simp add: consistent_def linked_def list p)
  ultimately show ?thesis by (simp add: consistent_def)
qed

lemma place_consistent:
  assumes c: "consistent ty h" and f: "free h x" and p: "outside p"
  shows "consistent ty (setParent p x h)"
proof -
  let ?h = "setParent p x h"
  have list: "getItemList ?h a = getItemList h a" "total ?h a = total h a" "ammo ?h a = ammo h a" for a
    by (simp_all add: getItemList_def total_def ammo_def)
  have "par ?h = par h" using p f by (auto simp: par_def free_def outside_def split: if_splits)
  moreover have "Item_getWeight ty (?h a) = Item_getWeight ty (h a)" "ammo_of ty (?h a) = ammo_of ty (h a)" for a
    by (auto intro!: item_weight_cong ammo_of_cong)
  then have "getWeight ty (?h a) = getWeight ty (h a)" "ammo_of ty (?h a) = ammo_of ty (h a)" for a
    by (simp_all add: getWeight_total list)
  ultimately show ?thesis
    using c by (simp add: consistent_def linked_def weights_ok_def ammo_ok_def content_weight_def list)
qed

lemma addThing_any:
  assumes "consistent ty h" "small h" "contents (h c) \<noteq> None" "free h x" "(c, x) \<notin> (par h)\<^sup>*"
  shows "\<exists>h'. addThing ty index c x h = Some h' \<and> consistent ty h'"
proof (cases "sint index < sint (capacity h c)")
  case True
  then show ?thesis using addThing_ok[OF assms] by blast
qed (use assms(1) in \<open>simp add: addThing_def\<close>)

lemma queryRemove_found:
  assumes "consistent ty h" and "queryRemove ty env h c x cnt flags = Some RETURNVALUE_NOERROR"
  shows "(x, c) \<in> par h" and "isStackable ty (h x) \<Longrightarrow> unat cnt \<le> unat (item_count (h x))"
proof -
  have "getThingIndex h c x \<noteq> -1" "\<not> (isStackable ty (h x) \<and> cnt > ucast (getItemCount (h x)))"
    using assms(2) by (auto simp: queryRemove_def split: if_splits)
  then show "(x, c) \<in> par h" "isStackable ty (h x) \<Longrightarrow> unat cnt \<le> unat (item_count (h x))"
    using assms(1) by (auto simp: getThingIndex_iff consistent_def linked_list not_less word_le_nat_alt getItemCount_def unat_ucast_up)
qed

lemma removeThing_any:
  assumes "consistent ty h" and q: "queryRemove ty env h c x cnt flags = Some RETURNVALUE_NOERROR"
  shows "\<exists>h'. removeThing ty c x cnt h = Some h' \<and> consistent ty h'"
proof (cases "isStackable ty (h x) \<and> cnt \<noteq> ucast (getItemCount (h x))")
  case True
  then have "unat cnt \<noteq> unat (item_count (h x))"
    by (auto simp: getItemCount_def word_unat_eq_iff unat_ucast_up)
  then have "unat cnt < unat (item_count (h x))" using queryRemove_found(2)[OF assms] True by simp
  then show ?thesis using removeThing_stack_ok[OF assms(1) queryRemove_found(1)[OF assms]] True by blast
next
  case False
  then show ?thesis using removeThing_whole_ok[OF assms(1) queryRemove_found(1)[OF assms], of cnt] by blast
qed

lemma held_consistent:
  assumes "held ty h"
  shows "consistent ty h"
  using assms
proof (induction rule: held.induct)
  case (add h c x env index cnt flags h')
  have "(c, x) \<notin> (par h)\<^sup>*"
    using queryAdd_not_inside[OF _ add.hyps(5-7)] add.IH by (simp add: consistent_def)
  then show ?case using addThing_any[OF add.IH add.hyps(2-4), of index] add.hyps(8) by auto
next
  case (move h d env index x cnt flags c h1 h')
  note found = queryRemove_found(1)[OF move.IH move.hyps(6)]
  obtain h2 where h2: "removeThing ty c x cnt h = Some h2" "consistent ty h2" "par h2 = par h - {(x, c)}"
    "\<forall>a. contents (h2 a) = None \<longleftrightarrow> contents (h a) = None"
    using removeThing_whole_ok[OF move.IH found, of cnt] move.hyps(7) by blast
  have "(d, x) \<notin> (par h)\<^sup>*"
    using queryAdd_not_inside[OF _ move.hyps(3-5)] move.IH by (simp add: consistent_def)
  then have "(d, x) \<notin> (par h2)\<^sup>*" using rtrancl_mono[of "par h2" "par h"] h2(3) by auto
  moreover have "free h2 x" using found h2(3) by (auto simp: free_def dest: par_functional)
  ultimately show ?case
    using addThing_any[OF h2(2), of d x index] h2(1,4) move.hyps(2,8-10) by auto
next
  case (remove h env c x cnt flags h')
  then show ?case using removeThing_any[OF remove.IH remove.hyps(2)] by auto
next
  case (update h duration c x newId n h')
  show ?case
  proof (cases "(x, c) \<in> par h")
    case True
    then show ?thesis using updateThing_ok[OF update.IH update.hyps(2) True, of duration newId n] update.hyps(3) by auto
  next
    case False
    then have "getThingIndex h c x = -1" using update.IH by (simp add: getThingIndex_iff consistent_def linked_list)
    then show ?thesis using update.IH update.hyps(3) by (simp add: updateThing_def)
  qed
next
  case (replace h c x i h')
  then show ?case
    using replaceThing_ok[OF replace.IH replace.hyps(2-5), of i]
    by (cases "i < length (getItemList h c)") (auto simp: replaceThing_def getItemByIndex_def)
next
  case (append h c x h')
  then show ?case using addItemBack_ok[OF append.IH append.hyps(2-5)] by auto
next
  case (create h x y)
  show ?case by (rule create_consistent[OF create.IH create.hyps(2-4)])
next
  case (load h c x h')
  then show ?case using internalAddThing_ok[OF load.IH load.hyps(2-5)] by auto
qed (simp_all add: fresh_consistent place_consistent)

section \<open>Every operation returns\<close>

lemma updateItemWeight_total:
  assumes "acyclic (par h)" and "finite (par h)"
  shows "updateItemWeight d c h \<noteq> None"
proof -
  have "wf ((par h)\<inverse>)" using assms by (simp add: finite_acyclic_wf_converse)
  then have "par h' = par h \<Longrightarrow> updateItemWeight d c h' \<noteq> None" for h'
  proof (induction c arbitrary: h' rule: wf_induct_rule)
    case (less c)
    have p: "par (add_weight d c h') = par h" using same_but_weights_simps(2)[OF add_weight_same] less.prems by simp
    have "(c, q) \<in> par h" if "parent (h' c) = Some (CContainer q)" for q using that less.prems by (auto simp: par_def)
    then show ?case
      using less.IH[OF _ p] by (subst updateItemWeight_step) (auto split: option.splits Cylinder.splits)
  qed
  then show ?thesis by blast
qed

lemma par_on_item: "parent (g (h x)) = parent (h x) \<Longrightarrow> par (on_item g x h) = par h"
  by (auto simp: par_def on_item_def split: if_splits)

lemma operations_return:
  assumes l: "linked h"
  shows "removeThing ty c x cnt h \<noteq> None" and "updateThing ty duration c x newId n h \<noteq> None"
    and "iterator h c \<noteq> None"
    and "free h x \<Longrightarrow> (c, x) \<notin> (par h)\<^sup>* \<Longrightarrow> addThing ty index c x h \<noteq> None"
proof -
  have ret: "updateItemWeight d c h1 \<noteq> None" if "par h1 = par h" for d h1
    using updateItemWeight_total l that by (simp add: linked_def)
  have keep: "parent (setItemCount m y) = parent y" for m and y :: Obj by (simp add: setItemCount_def)
  show "removeThing ty c x cnt h \<noteq> None"
    unfolding removeThing_def Let_def by (simp add: ret par_on_item updateAmmoCount_keeps keep del: not_None_eq)
  show "updateThing ty duration c x newId n h \<noteq> None"
    unfolding updateThing_def Let_def by (simp add: ret par_on_item updateAmmoCount_keeps del: not_None_eq)
  show "iterator h c \<noteq> None" using iterator_lists[OF l] by auto
  assume x: "free h x" "(c, x) \<notin> (par h)\<^sup>*"
  have "acyclic (insert (x, c) (par h))" "finite (insert (x, c) (par h))" using l x(2) by (simp_all add: linked_def acyclic_insert)
  then have "insert_with ty c x ((#) x) h \<noteq> None"
    unfolding insert_with_def Let_def by (intro updateItemWeight_total) (simp_all add: updateAmmoCount_keeps par_put[OF x(1)])
  then show "addThing ty index c x h \<noteq> None" by (simp add: addThing_def inserts del: not_None_eq)
qed

section \<open>Bags\<close>

text \<open>A heap of empty bags on a tile, and one with a bag inside another.\<close>

definition bag_type :: ItemType where
  "bag_type = \<lparr>type_id = 1987, deprecated = False, isFluid = False, stackable = False, type_charges = 0, moveable = True,
     pickupable = True, storeItem = False, weight = 800, worth = 0, stackSize = 1, maxItems = 8, weaponType = WEAPON_NONE,
     imbuementSlot = 0, decayTo = -1, decayTimeMin = 0, decayTimeMax = 0, stopTime = False\<rparr>"

definition bags :: heap where
  "bags = (\<lambda>_. \<lparr>itemId = 1987, item_count = 1, item_attributes = None, imbuementSlots = 0, imbuements = [], instanceID = 0,
     parent = None, contents = Some (new_Container PlainContainer 1987 8)\<rparr>)"

definition bag_env :: Query_env where
  "bag_env = \<lparr>actor = False, actorIsPlayer = False, onlyInvited = False, carrier = Map.empty, isCreature = (\<lambda>_. False),
     houseOf = Map.empty, ownerQueryAdd = (\<lambda>_ _ _ _. RETURNVALUE_NOERROR)\<rparr>"

lemma bags_held: "held ty bags"
  by (rule held.start) (simp add: fresh_def outside_def bags_def new_Container_def)

lemma bags_facts:
  "env_ok bag_env" "small bags" "contents (bags c) \<noteq> None" "free bags x" "par bags = {}" "getItemList bags c = []"
  "capacity bags c = 8" "\<not> hasBitSet FLAG_CHILDISOWNER 0"
  by (simp_all add: env_ok_def bag_env_def small_def bags_def new_Container_def free_def par_def getItemList_def capacity_def hasBitSet_def)

lemma bags_query: "queryAdd (\<lambda>_. bag_type) bag_env bags 0 (-1) 1 1 0 = Some RETURNVALUE_NOERROR"
proof -
  have "hasRoomForItem (\<lambda>_. bag_type) bags 0 1 (-1) 1 = Some True"
    by (simp add: hasRoomForItem_def getFreeSlotsFor_def bags_facts isStackable_def bag_type_def)
  moreover have "surrounded_by bag_env bags 1 0 = Some False" "getTopParent bag_env bags 0 = Some (CContainer 0)"
    "house_refuses bag_env (CContainer 0) = None"
    by (simp_all add: surrounded_by_def getTopParent_def house_refuses_def bag_env_def) (simp_all add: bags_def)
  moreover have "getCorpseOwner (bags 0) = 0" "\<not> isStoreItem (\<lambda>_. bag_type) (bags x)" "itemId (bags x) = 1987" for x
    by (simp_all add: getCorpseOwner_def isStoreItem_def Item_hasAttribute_def Item_getIntAttr_def bag_type_def bags_def)
  ultimately show ?thesis
    by (simp add: queryAdd_def hasBitSet_def getWeaponType_def) (simp add: bag_type_def)
qed

lemma bag_in_bag:
  "\<exists>h. addThing (\<lambda>_. bag_type) (-1) 0 1 bags = Some h \<and> held (\<lambda>_. bag_type) h \<and> getItemList h 0 = [1]"
proof -
  have "consistent (\<lambda>_. bag_type) bags" by (rule held_consistent[OF bags_held])
  then obtain h where h: "addThing (\<lambda>_. bag_type) (-1) 0 1 bags = Some h" "getItemList h 0 = [1]"
    using addThing_ok[of "\<lambda>_. bag_type" bags 0 1 "-1"] bags_facts by auto
  moreover have "held (\<lambda>_. bag_type) h"
    by (rule held.add[OF bags_held bags_facts(2) _ bags_facts(4) bags_facts(1) bags_query bags_facts(8) h(1)])
      (rule bags_facts(3))
  ultimately show ?thesis by blast
qed

section \<open>Properties\<close>







end
