(* ===== verification/Money.thy ===== *)
theory Money
  imports ContainerRuns
begin

text \<open>
  Money (\<^verbatim>\<open>Game::addMoney\<close>, \<^verbatim>\<open>Game::removeMoney\<close>, \<^verbatim>\<open>Game::findItemOfType\<close> of \<^verbatim>\<open>src/src/game.cpp\<close> and
  \<^verbatim>\<open>Player::getMoney\<close> of \<^verbatim>\<open>src/src/player.cpp\<close>): coins are items, found at any depth in the containers of a cylinder.
  The cylinder is the list \<open>things\<close> of the items at its indices; the calls that create and remove items are returned as
  a sequence of steps, in the order of the code. \<open>None\<close> is a loop that does not end.
\<close>

datatype Money_step =
    Add_coins u16 u16  \<comment> \<open>\<open>CreateItem(id, count)\<close> and \<open>internalAddItem\<close>\<close>
  | Remove_item nat s32  \<comment> \<open>\<open>internalRemoveItem(item, count)\<close>, where -1 is all of it\<close>

section \<open>Looking through containers\<close>

definition matches :: "Items \<Rightarrow> heap \<Rightarrow> u16 \<Rightarrow> s32 \<Rightarrow> nat \<Rightarrow> bool" where
  "matches ty h itemId' subType x \<longleftrightarrow>
     itemId (h x) = itemId' \<and> (subType = -1 \<or> subType = ucast (getSubType ty (h x)))"

abbreviation is_container :: "heap \<Rightarrow> nat \<Rightarrow> bool" where
  "is_container h x \<equiv> contents (h x) \<noteq> None"

partial_function (option) find_loop :: "(nat \<Rightarrow> bool) \<Rightarrow> heap \<Rightarrow> nat list \<Rightarrow> nat option option" where
  "find_loop p h containers =
     (case containers of
        [] \<Rightarrow> Some None
      | c # rest \<Rightarrow>
          (case find p (getItemList h c) of
             Some x \<Rightarrow> Some (Some x)
           | None \<Rightarrow> find_loop p h (rest @ filter (is_container h) (getItemList h c))))"

definition findItemOfType :: "Items \<Rightarrow> heap \<Rightarrow> nat list \<Rightarrow> u16 \<Rightarrow> bool \<Rightarrow> s32 \<Rightarrow> nat option option" where
  "findItemOfType ty h things itemId' depthSearch subType =
     (case find (matches ty h itemId' subType) things of
        Some x \<Rightarrow> Some (Some x)
      | None \<Rightarrow> find_loop (matches ty h itemId' subType) h (if depthSearch then filter (is_container h) things else []))"

text \<open>The items that are no containers, in the order in which the loops of \<open>removeMoney\<close> and \<open>getMoney\<close> meet them.\<close>

partial_function (option) leaf_loop :: "heap \<Rightarrow> nat list \<Rightarrow> nat list \<Rightarrow> nat list option" where
  "leaf_loop h containers found =
     (case containers of
        [] \<Rightarrow> Some found
      | c # rest \<Rightarrow>
          leaf_loop h (rest @ filter (is_container h) (getItemList h c))
            (found @ filter (\<lambda>x. \<not> is_container h x) (getItemList h c)))"

definition leaves :: "heap \<Rightarrow> nat list \<Rightarrow> nat list option" where
  "leaves h things = leaf_loop h (filter (is_container h) things) (filter (\<lambda>x. \<not> is_container h x) things)"

definition item_worth :: "Items \<Rightarrow> heap \<Rightarrow> nat \<Rightarrow> u64" where
  "item_worth ty h x = ucast (getWorth ty (h x))"

definition getMoney :: "Items \<Rightarrow> heap \<Rightarrow> nat list \<Rightarrow> u64 option" where
  "getMoney ty h inventory = map_option (\<lambda>xs. \<Sum>x \<leftarrow> xs. item_worth ty h x) (leaves h inventory)"

section \<open>Giving money\<close>

text \<open>\<open>currencyItems\<close> is the map from worth to item, in falling order of worth.\<close>

type_synonym CurrencyMap = "(u64 \<times> u16) list"

partial_function (option) coin_loop :: "u16 \<Rightarrow> u32 \<Rightarrow> Money_step list \<Rightarrow> Money_step list option" where
  "coin_loop itemid currencyCoins steps =
     (if currencyCoins = 0 then Some steps
      else let cnt = min 100 (ucast currencyCoins) :: u16
           in coin_loop itemid (currencyCoins - ucast cnt) (steps @ [Add_coins itemid cnt]))"

fun add_loop :: "CurrencyMap \<Rightarrow> u64 \<Rightarrow> Money_step list \<Rightarrow> Money_step list option" where
  "add_loop [] money steps = Some steps"
| "add_loop ((w, itemid) # cs) money steps =
     (let currencyCoins = ucast (money div w) :: u32
      in if currencyCoins = 0 then add_loop cs money steps
         else Option.bind (coin_loop itemid currencyCoins steps) (add_loop cs (money - ucast currencyCoins * w)))"

definition addMoney :: "CurrencyMap \<Rightarrow> u64 \<Rightarrow> Money_step list option" where
  "addMoney currencyItems money = (if money = 0 then Some [] else add_loop currencyItems money [])"

section \<open>Taking money\<close>

text \<open>
  \<open>moneyMap\<close> is a multimap from worth to item: entries of the same worth stay in the order of their insertion. The
  quotient of two integers below \<open>2\<^sup>32\<close> as a \<open>double\<close> has the ceiling of the exact quotient.
\<close>

definition ceil_div :: "u64 \<Rightarrow> u64 \<Rightarrow> u64" where
  "ceil_div a b = (if a mod b = 0 then a div b else a div b + 1)"

fun remove_loop :: "CurrencyMap \<Rightarrow> heap \<Rightarrow> u64 \<Rightarrow> (u64 \<times> nat) list \<Rightarrow> Money_step list option" where
  "remove_loop currencyItems h money [] = Some []"
| "remove_loop currencyItems h money ((w, x) # moneyMap) =
     (if w < money then map_option ((#) (Remove_item x (-1))) (remove_loop currencyItems h (money - w) moneyMap)
      else if w > money
      then let coin = ucast (w div ucast (getItemCount (h x))) :: u32;
               removeCount = ucast (ceil_div money (ucast coin)) :: u32
           in map_option (\<lambda>steps. steps @ [Remove_item x removeCount])
                (addMoney currencyItems (ucast (coin * removeCount) - money))
      else Some [Remove_item x (-1)])"

definition moneyMap_of :: "Items \<Rightarrow> heap \<Rightarrow> nat list \<Rightarrow> (u64 \<times> nat) list" where
  "moneyMap_of ty h xs = sort_key fst (filter (\<lambda>e. fst e \<noteq> 0) (map (\<lambda>x. (item_worth ty h x, x)) xs))"

definition removeMoney :: "Items \<Rightarrow> CurrencyMap \<Rightarrow> heap \<Rightarrow> nat list \<Rightarrow> u64 \<Rightarrow> (bool \<times> Money_step list) option" where
  "removeMoney ty currencyItems h things money =
     (if money = 0 then Some (True, [])
      else Option.bind (leaves h things) (\<lambda>xs.
        let moneyMap = moneyMap_of ty h xs; moneyCount = (\<Sum>e \<leftarrow> moneyMap. fst e)
        in if moneyCount < money then Some (False, [])
           else map_option (Pair True) (remove_loop currencyItems h money moneyMap)))"

section \<open>What the searches find\<close>

lemma find_append: "find p (xs @ ys) = (case find p xs of Some x \<Rightarrow> Some x | None \<Rightarrow> find p ys)"
  by (induction xs) auto

text \<open>Both searches meet the items in the order of the iterator.\<close>

lemma find_loop_iterator:
  assumes "iterator_loop h P items = Some zs"
  shows "\<exists>ys. zs = items @ ys \<and> find_loop p h P = Some (find p ys)"
    (is "?Q h P items zs")
proof (rule iterator_loop.raw_induct[where P = ?Q, OF _ assms])
  fix rec and h :: heap and P items zs
  assume IH: "\<And>h P items zs. rec h P items = Some zs \<Longrightarrow> ?Q h P items zs"
    and step: "(case P of [] \<Rightarrow> Some items
      | c # rest \<Rightarrow> rec h (rest @ filter (is_container h) (getItemList h c)) (items @ getItemList h c)) = Some zs"
  show "?Q h P items zs"
  proof (cases P)
    case Nil
    then show ?thesis using step by (subst find_loop.simps) simp
  next
    case (Cons c rest)
    then have "rec h (rest @ filter (is_container h) (getItemList h c)) (items @ getItemList h c) = Some zs"
      using step by (simp del: not_None_eq)
    from IH[OF this] obtain ys where "zs = (items @ getItemList h c) @ ys"
      "find_loop p h (rest @ filter (is_container h) (getItemList h c)) = Some (find p ys)"
      by blast
    then show ?thesis
      using Cons by (subst find_loop.simps) (intro exI[of _ "getItemList h c @ ys"], simp add: find_append split: option.splits)
  qed
qed

lemma leaf_loop_iterator:
  assumes "iterator_loop h P items = Some zs"
  shows "\<exists>ys. zs = items @ ys \<and> (\<forall>found. leaf_loop h P found = Some (found @ filter (\<lambda>x. \<not> is_container h x) ys))"
    (is "?Q h P items zs")
proof (rule iterator_loop.raw_induct[where P = ?Q, OF _ assms])
  fix rec and h :: heap and P items zs
  assume IH: "\<And>h P items zs. rec h P items = Some zs \<Longrightarrow> ?Q h P items zs"
    and step: "(case P of [] \<Rightarrow> Some items
      | c # rest \<Rightarrow> rec h (rest @ filter (is_container h) (getItemList h c)) (items @ getItemList h c)) = Some zs"
  show "?Q h P items zs"
  proof (cases P)
    case Nil
    then show ?thesis using step by (subst leaf_loop.simps) simp
  next
    case (Cons c rest)
    then have "rec h (rest @ filter (is_container h) (getItemList h c)) (items @ getItemList h c) = Some zs"
      using step by (simp del: not_None_eq)
    from IH[OF this] obtain ys where "zs = (items @ getItemList h c) @ ys"
      "\<And>found. leaf_loop h (rest @ filter (is_container h) (getItemList h c)) found =
         Some (found @ filter (\<lambda>x. \<not> is_container h x) ys)"
      by blast
    then show ?thesis
      using Cons by (subst leaf_loop.simps) (intro exI[of _ "getItemList h c @ ys"], simp)
  qed
qed

text \<open>A cylinder whose items are roots of separate trees: what it holds at any depth, each item once.\<close>

definition top_level :: "heap \<Rightarrow> nat list \<Rightarrow> bool" where
  "top_level h things \<longleftrightarrow> distinct things \<and> (\<forall>x \<in> set things. free h x)"

definition inside :: "heap \<Rightarrow> nat list \<Rightarrow> nat set" where
  "inside h things = {y. \<exists>x \<in> set things. (y, x) \<in> (par h)\<^sup>*}"

lemma roots_apart:
  assumes "free h a" "free h b" "a \<noteq> b"
  shows "apart h a b"
proof -
  have "(a, b) \<notin> (par h)\<^sup>*" "(b, a) \<notin> (par h)\<^sup>*"
    using assms by (auto simp: free_def elim: converse_rtranclE)
  then show ?thesis using par_linear[of _ a h b] by (auto simp: apart_def insert_below)
qed

lemma cylinder_walk:
  assumes l: "linked h" and t: "top_level h things"
  shows "\<exists>ys. iterator_loop h (filter (is_container h) things) [] = Some ys \<and> distinct (things @ ys) \<and>
    set (things @ ys) = inside h things"
proof -
  let ?P = "filter (is_container h) things"
  have ap: "\<forall>p \<in> set ?P. \<forall>q \<in> set ?P. p \<noteq> q \<longrightarrow> apart h p q" and d: "distinct things" "distinct ?P"
    using t roots_apart by (auto simp: top_level_def)
  obtain ys where ys: "iterator_loop h ?P [] = Some ys" "distinct ys" "set ys = (\<Union>p \<in> set ?P. below h p)"
    using loop_lists[OF l d(2) ap, of "[]"] by auto
  have s: "set ys = (\<Union>p \<in> set things. below h p)" using ys(3) containers_below[OF l, of things] by simp
  have "x \<notin> below h p" if "x \<in> set things" for x p
    using that t by (auto simp: top_level_def free_def below_def dest: tranclD)
  then have "distinct (things @ ys)" using d(1) ys(2) s by auto
  moreover have "inside h things = (\<Union>p \<in> set things. insert p (below h p))" by (auto simp: inside_def insert_below)
  then have "set (things @ ys) = inside h things" using s by auto
  ultimately show ?thesis using ys(1) by blast
qed

section \<open>What is given\<close>

fun coin_counts :: "CurrencyMap \<Rightarrow> nat \<Rightarrow> nat list" where
  "coin_counts [] m = []"
| "coin_counts ((w, i) # cs) m = m div unat w # coin_counts cs (m mod unat w)"

definition step_value :: "Items \<Rightarrow> heap \<Rightarrow> Money_step \<Rightarrow> int" where
  "step_value ty h s =
     (case s of
        Add_coins i n \<Rightarrow> int (unat (worth (ty i)) * unat n)
      | Remove_item x n \<Rightarrow> - int (unat (worth (ty (itemId (h x)))) * (if n = -1 then unat (item_count (h x)) else unat n)))"

definition currency_ok :: "Items \<Rightarrow> CurrencyMap \<Rightarrow> bool" where
  "currency_ok ty cur \<longleftrightarrow> (\<forall>(w, i) \<in> set cur. w \<noteq> 0 \<and> worth (ty i) = w) \<and> 1 \<in> fst ` set cur"

definition coin_step :: "u16 \<Rightarrow> Money_step \<Rightarrow> bool" where
  "coin_step i s \<longleftrightarrow> (\<exists>n. s = Add_coins i n \<and> 1 \<le> n \<and> n \<le> 100)"

lemma coin_count:
  assumes "unat (n :: u32) < 65536"
  shows "unat (ucast n :: u16) = unat n" "unat (ucast (min 100 (ucast n :: u16)) :: u32) = min 100 (unat n)"
proof -
  show u: "unat (ucast n :: u16) = unat n" using assms by (intro unat_ucast_small) simp
  then show "unat (ucast (min 100 (ucast n :: u16)) :: u32) = min 100 (unat n)"
    by (simp add: unat_ucast_up min_def word_le_nat_alt)
qed

lemma coin_loop_gives:
  assumes "unat n < 65536"
  shows "\<exists>cs. coin_loop i n steps = Some (steps @ cs) \<and> (\<forall>s \<in> set cs. coin_step i s) \<and>
    (\<Sum>s \<leftarrow> cs. step_value ty h s) = int (unat (worth (ty i)) * unat n)"
  using assms
proof (induction "unat n" arbitrary: n steps rule: less_induct)
  case less
  show ?case
  proof (cases "n = 0")
    case True
    then show ?thesis by (subst coin_loop.simps) simp
  next
    case False
    let ?c = "min 100 (ucast n) :: u16" and ?m = "n - ucast (min 100 (ucast n :: u16)) :: u32"
    note c = coin_count[OF less.prems]
    have pos: "0 < unat n" using False by (simp add: unat_gt_0)
    have m: "unat ?m = unat n - min 100 (unat n)"
      using c(2) by (subst unat_sub) (simp_all add: word_le_nat_alt)
    have uc: "unat ?c = min 100 (unat n)" using c(2) by (simp add: unat_ucast_up)
    have "unat ?m < unat n" "unat ?m < 65536" using m pos less.prems by auto
    from less.hyps[OF this(1,2), of "steps @ [Add_coins i ?c]"] obtain cs
      where cs: "coin_loop i ?m (steps @ [Add_coins i ?c]) = Some ((steps @ [Add_coins i ?c]) @ cs)"
        "\<forall>s \<in> set cs. coin_step i s" "(\<Sum>s \<leftarrow> cs. step_value ty h s) = int (unat (worth (ty i)) * unat ?m)" by blast
    have "coin_step i (Add_coins i ?c)" using uc pos by (auto simp: coin_step_def word_le_nat_alt)
    moreover have "unat ?c + unat ?m = unat n" using m uc by simp
    then have "step_value ty h (Add_coins i ?c) + int (unat (worth (ty i)) * unat ?m) = int (unat (worth (ty i)) * unat n)"
      unfolding step_value_def Money_step.case by (metis of_nat_add add_mult_distrib2)
    ultimately show ?thesis
      using cs False by (subst coin_loop.simps) (intro exI[of _ "Add_coins i ?c # cs"], simp add: Let_def)
  qed
qed

text \<open>With \<open>2\<^sup>16\<close> coins or more the low half of the counter reaches zero before the counter does.\<close>

lemma coin_loop_ends:
  assumes "coin_loop i n steps = Some ss"
  shows "unat n < 65536"
proof (rule coin_loop.raw_induct[where P = "\<lambda>_ n _ _. unat n < 65536", OF _ assms])
  fix rec and i :: u16 and n :: u32 and steps ss
  assume IH: "\<And>i n steps ss. rec i n steps = Some ss \<Longrightarrow> unat (n :: u32) < 65536"
    and step: "(if n = 0 then Some steps else let cnt = min 100 (ucast n) in rec i (n - ucast cnt) (steps @ [Add_coins i cnt])) = Some ss"
  show "unat n < 65536"
  proof (cases "n = 0")
    case False
    let ?k = "ucast (min 100 (ucast n :: u16)) :: u32"
    have "unat (n - ?k) < 65536" using IH step False by (auto simp: Let_def)
    moreover have low: "unat (ucast n :: u16) = unat n mod 65536"
      by (simp add: unsigned_ucast_eq unsigned_take_bit_eq take_bit_nat_def)
    have "unat (min 100 (ucast n :: u16)) \<le> unat (ucast n :: u16)" by (rule word_le_nat_alt[THEN iffD1]) simp
    then have k: "unat ?k \<le> unat n mod 65536" by (simp only: ucast_count(1) low)
    then have "?k \<le> n" using mod_less_eq_dividend[of "unat n" 65536] by (simp only: word_le_nat_alt)
    then have "unat (n - ?k) = unat n - unat ?k" by (rule unat_sub)
    ultimately have "unat n - unat n mod 65536 < 65536" using k by linarith
    then have "unat n div 65536 * 65536 < 65536" by (simp only: minus_mod_eq_div_mult)
    then have "unat n div 65536 = 0" by simp
    then show ?thesis by (simp add: div_eq_0_iff)
  qed simp
qed

definition gives :: "Items \<Rightarrow> heap \<Rightarrow> Money_step list \<Rightarrow> nat \<Rightarrow> bool" where
  "gives ty h ss m \<longleftrightarrow> (\<forall>s \<in> set ss. \<exists>i. coin_step i s) \<and> (\<Sum>s \<leftarrow> ss. step_value ty h s) = int m"

lemma coin_counts_zero: "n \<in> set (coin_counts cs 0) \<Longrightarrow> n = 0"
  by (induction cs "0 :: nat" rule: coin_counts.induct) auto

text \<open>What \<open>addMoney\<close> has done with the money when the currencies before these were given out.\<close>

lemma add_loop_gives:
  assumes "\<forall>(w, i) \<in> set cs. w \<noteq> 0 \<and> worth (ty i) = w" and "\<forall>n \<in> set (coin_counts cs (unat money)). n < 2 ^ 32"
  shows "case add_loop cs money steps of
      None \<Rightarrow> (\<exists>n \<in> set (coin_counts cs (unat money)). n \<ge> 65536)
    | Some ss \<Rightarrow> (\<forall>n \<in> set (coin_counts cs (unat money)). n < 65536) \<and>
        (\<exists>ys m. ss = steps @ ys \<and> gives ty h ys m \<and> (1 \<in> fst ` set cs \<or> money = 0 \<longrightarrow> m = unat money))"
  using assms
proof (induction cs arbitrary: money steps)
  case Nil
  then show ?case by (auto simp: gives_def intro: exI[of _ 0])
next
  case (Cons c cs)
  obtain w i where c: "c = (w, i)" by fastforce
  let ?n = "ucast (money div w) :: u32" and ?r = "money - ucast (ucast (money div w) :: u32) * w"
  have w: "w \<noteq> 0" "worth (ty i) = w" using Cons.prems(1) c by auto
  have lt: "unat money div unat w < 2 ^ 32" using Cons.prems(2) c by simp
  then have n: "unat ?n = unat money div unat w" by (simp add: unat_ucast_small unat_div)
  have "unat (ucast ?n :: u64) = unat money div unat w" by (simp add: unat_ucast_up n)
  then have q: "(ucast ?n :: u64) = money div w" by (simp add: word_unat_eq_iff unat_div)
  have r: "?r = money mod w" by (simp only: q minus_div_mult_eq_mod)
  have um: "unat (money mod w) = unat money mod unat w" by (simp add: unat_mod)
  have IH: "case add_loop cs (money mod w) ss of
      None \<Rightarrow> (\<exists>n \<in> set (coin_counts cs (unat money mod unat w)). n \<ge> 65536)
    | Some zs \<Rightarrow> (\<forall>n \<in> set (coin_counts cs (unat money mod unat w)). n < 65536) \<and>
        (\<exists>ys m. zs = ss @ ys \<and> gives ty h ys m \<and> (1 \<in> fst ` set cs \<or> money mod w = 0 \<longrightarrow> m = unat money mod unat w))" for ss
    using Cons.IH[of "money mod w" ss] Cons.prems unfolding um c by simp
  show ?case
  proof (cases "unat money div unat w < 65536")
    case False
    then have "?n \<noteq> 0" "\<not> unat ?n < 65536" using n by auto
    then have "add_loop (c # cs) money steps = None"
      using coin_loop_ends[of i ?n steps] c by (cases "coin_loop i ?n steps") (auto simp: Let_def)
    then show ?thesis using c False by auto
  next
    case True
    then have "unat ?n < 65536" using n by simp
    from coin_loop_gives[OF this, of i steps ty h] obtain zs where zs: "coin_loop i ?n steps = Some (steps @ zs)"
      "gives ty h zs (unat w * unat ?n)" using w(2) by (auto simp: gives_def)
    have same: "add_loop (c # cs) money steps = add_loop cs (money mod w) (steps @ zs)"
    proof (cases "?n = 0")
      case True
      then have "money mod w = money" using r by simp
      moreover have "zs = []" using zs(1) True by (subst (asm) coin_loop.simps) simp
      ultimately show ?thesis using True c by simp
    next
      case False
      then show ?thesis using zs(1) c r by (simp add: Let_def)
    qed
    show ?thesis
    proof (cases "add_loop cs (money mod w) (steps @ zs)")
      case None
      then show ?thesis using IH[of "steps @ zs"] same c by simp
    next
      case (Some ss)
      then obtain ys m where ys: "ss = steps @ zs @ ys" "gives ty h ys m"
        "1 \<in> fst ` set cs \<or> money mod w = 0 \<longrightarrow> m = unat money mod unat w"
        "\<forall>n \<in> set (coin_counts cs (unat money mod unat w)). n < 65536"
        using IH[of "steps @ zs"] by auto
      have "gives ty h (zs @ ys) (unat w * unat ?n + m)" using zs(2) ys(2) by (auto simp: gives_def)
      moreover have "unat w * unat ?n + unat money mod unat w = unat money" using n by simp
      moreover have "w = 1 \<or> money = 0 \<Longrightarrow> money mod w = 0" by auto
      then have "1 \<in> fst ` set (c # cs) \<or> money = 0 \<longrightarrow> m = unat money mod unat w" using ys(3) c by auto
      ultimately show ?thesis using Some same ys(1,4) True c by (auto intro!: exI[of _ "zs @ ys"])
    qed
  qed
qed

lemma addMoney_gives:
  assumes "currency_ok ty cur" and "\<forall>n \<in> set (coin_counts cur (unat money)). n < 65536"
  shows "\<exists>ss. addMoney cur money = Some ss \<and> gives ty h ss (unat money)"
proof (cases "money = 0")
  case True
  then show ?thesis by (simp add: addMoney_def gives_def)
next
  case False
  have "\<forall>n \<in> set (coin_counts cur (unat money)). n < 2 ^ 32" using assms(2) by fastforce
  from add_loop_gives[OF _ this, of ty "[]" h] show ?thesis
    using assms False by (auto simp: currency_ok_def addMoney_def split: option.splits)
qed

section \<open>What is taken\<close>

abbreviation unit :: "Items \<Rightarrow> heap \<Rightarrow> nat \<Rightarrow> nat" where
  "unit ty h x \<equiv> unat (worth (ty (itemId (h x))))"

text \<open>An item whose worth fits into 32 bits for every count, and for a unit of which there is change.\<close>

definition payable :: "Items \<Rightarrow> CurrencyMap \<Rightarrow> heap \<Rightarrow> nat \<Rightarrow> bool" where
  "payable ty cur h x \<longleftrightarrow> unit ty h x * 255 < 2 ^ 32 \<and>
     (\<forall>m < unit ty h x. \<forall>n \<in> set (coin_counts cur m). n < 65536)"

lemma item_worth_exact:
  assumes "payable ty cur h x"
  shows "unat (item_worth ty h x) = unit ty h x * unat (item_count (h x))"
proof -
  let ?w = "worth (ty (itemId (h x)))" and ?c = "item_count (h x)"
  have "unit ty h x * unat ?c \<le> unit ty h x * 255" using byte_le[of ?c] by simp
  also have "\<dots> < 2 ^ 32" using assms by (simp add: payable_def)
  finally have lt: "unit ty h x * unat ?c < 2 ^ 32" .
  have "unat (?w * ucast ?c :: u64) = unat ?w * unat (ucast ?c :: u64)"
    using lt by (intro unat_mult_lem[THEN iffD1]) (simp add: unat_ucast_up)
  then have p: "unat (?w * ucast ?c :: u64) = unit ty h x * unat ?c" by (simp add: unat_ucast_up)
  then have "unat (ucast (?w * ucast ?c :: u64) :: u32) = unit ty h x * unat ?c" using lt by (simp add: unat_ucast_small)
  then show ?thesis by (simp add: item_worth_def getWorth_def unat_ucast_up)
qed

lemma ceil_div_bounds:
  assumes "b \<noteq> 0" and "unat a < 2 ^ 63"
  shows "unat a \<le> unat (ceil_div a b) * unat b" "unat (ceil_div a b) * unat b < unat a + unat b"
    "unat a \<le> k * unat b \<Longrightarrow> unat (ceil_div a b) \<le> k"
proof -
  have b: "0 < unat b" using assms(1) by (simp add: unat_gt_0)
  have "unat a div unat b \<le> unat a" by (rule div_le_dividend)
  also have "\<dots> < 2 ^ 63" by (rule assms(2))
  finally have lt: "unat a div unat b + 1 < 2 ^ 64" by simp
  have "unat (a div b + 1) = unat a div unat b + 1"
    using lt by (subst unat_add_lem[THEN iffD1]) (simp_all add: unat_div)
  then have u: "unat (ceil_div a b) = (if unat a mod unat b = 0 then unat a div unat b else unat a div unat b + 1)"
    by (simp add: ceil_div_def word_unat_eq_iff[of "a mod b"] unat_mod unat_div)
  have d: "unat a div unat b * unat b + unat a mod unat b = unat a" by simp
  have m: "unat a mod unat b < unat b" using b by simp
  define q r where "q = unat a div unat b" and "r = unat a mod unat b"
  have "q * unat b + r = unat a" "r < unat b" "unat (ceil_div a b) = (if r = 0 then q else q + 1)"
    using u d m by (simp_all add: q_def r_def)
  then show le: "unat a \<le> unat (ceil_div a b) * unat b" and lt: "unat (ceil_div a b) * unat b < unat a + unat b"
    by (cases "r = 0"; simp add: add_mult_distrib)+
  show "unat (ceil_div a b) \<le> k" if "unat a \<le> k * unat b"
  proof -
    have "unat (ceil_div a b) * unat b < (k + 1) * unat b" using lt that by (simp add: algebra_simps)
    then have "unat (ceil_div a b) < k + 1" by (simp only: mult_less_cancel2)
    then show ?thesis by simp
  qed
qed

text \<open>The last item is worth more than the money still due: some of it is taken, and there is change.\<close>

lemma change_back:
  assumes cur: "currency_ok ty cur" and p: "payable ty cur h x" and lt: "unat money < unit ty h x * unat (item_count (h x))"
  defines "coin \<equiv> ucast (item_worth ty h x div ucast (getItemCount (h x))) :: u32"
  defines "rc \<equiv> ucast (ceil_div money (ucast coin)) :: u32"
  shows "\<exists>ss. addMoney cur (ucast (coin * rc) - money) = Some ss \<and>
    (\<Sum>s \<leftarrow> ss @ [Remove_item x rc]. step_value ty h s) = - int (unat money) \<and> (\<forall>s \<in> set ss. \<exists>i. coin_step i s)"
proof -
  let ?u = "unit ty h x" and ?c = "unat (item_count (h x))"
  have pos: "0 < ?u" "0 < ?c" using lt by (auto intro: gr0I)
  have "?u * ?c \<le> ?u * 255" using byte_le[of "item_count (h x)"] by simp
  also have "\<dots> < 2 ^ 32" using p by (simp add: payable_def)
  finally have fit: "?u * ?c < 2 ^ 32" .
  have "?u * 1 \<le> ?u * ?c" using pos(2) by (intro mult_le_mono2) simp
  then have u32: "?u < 2 ^ 32" using fit by linarith
  have "unat (item_worth ty h x div ucast (getItemCount (h x)) :: u64) = ?u"
    using pos(2) by (simp add: unat_div item_worth_exact[OF p] getItemCount_def unat_ucast_up)
  then have coin: "unat coin = ?u" using u32 by (simp add: coin_def unat_ucast_small)
  have uc: "unat (ucast coin :: u64) = ?u" by (simp add: unat_ucast_up coin)
  have nz: "(ucast coin :: u64) \<noteq> 0" using uc pos(1) by (metis less_numeral_extra(3) unsigned_0)
  have "unat money < 2 ^ 63" using lt fit by simp
  note k = ceil_div_bounds[OF nz this, unfolded uc]
  have kc: "unat (ceil_div money (ucast coin)) \<le> ?c" using k(3)[of ?c] lt by (simp add: mult.commute)
  then have "unat (ceil_div money (ucast coin)) \<le> 255" using byte_le[of "item_count (h x)"] by linarith
  then have rc: "unat rc = unat (ceil_div money (ucast coin))" "unat rc \<le> 255"
    by (simp_all add: rc_def unat_ucast_small)
  have "unat (- 1 :: u32) = 4294967295" by (simp add: unsigned_minus_1_eq_mask mask_eq_exp_minus_1)
  then have all: "rc \<noteq> -1" using rc(2) by auto
  have prod: "?u * unat rc \<le> ?u * ?c" using kc rc(1) by simp
  then have "unat coin * unat rc < 2 ^ 32" unfolding coin using fit by (rule le_less_trans)
  then have "unat (coin * rc) = ?u * unat rc"
    using coin by (subst unat_mult_lem[THEN iffD1]) simp_all
  then have uv: "unat (ucast (coin * rc) :: u64) = ?u * unat rc" by (simp add: unat_ucast_up)
  have le: "unat money \<le> ?u * unat rc" using k(1) rc(1) by (simp add: mult.commute)
  then have ch: "unat (ucast (coin * rc) - money) = ?u * unat rc - unat money"
    using uv by (subst unat_sub) (simp_all add: word_le_nat_alt)
  have "?u * unat rc - unat money < ?u" using k(2) rc(1) le pos(1) by (simp add: mult.commute)
  then have "\<forall>n \<in> set (coin_counts cur (unat (ucast (coin * rc) - money))). n < 65536"
    using p ch by (simp add: payable_def)
  from addMoney_gives[OF cur this, of h] obtain ss
    where ss: "addMoney cur (ucast (coin * rc) - money) = Some ss" "gives ty h ss (?u * unat rc - unat money)"
    using ch by auto
  have "step_value ty h (Remove_item x rc) = - int (?u * unat rc)" using all by (simp add: step_value_def)
  then show ?thesis using ss le by (auto simp: gives_def of_nat_diff)
qed

lemma remove_loop_takes:
  assumes "currency_ok ty cur" and "\<forall>(w, x) \<in> set E. w = item_worth ty h x \<and> payable ty cur h x"
    and "money \<noteq> 0" and "unat money \<le> (\<Sum>(w, x) \<leftarrow> E. unat w)"
  shows "\<exists>ss. remove_loop cur h money E = Some ss \<and> (\<Sum>s \<leftarrow> ss. step_value ty h s) = - int (unat money) \<and>
    (\<forall>x n. Remove_item x n \<in> set ss \<longrightarrow> x \<in> snd ` set E)"
  using assms(2-4)
proof (induction E arbitrary: money)
  case Nil
  then show ?case by (simp add: unat_eq_zero)
next
  case (Cons e E)
  obtain w x where e: "e = (w, x)" by fastforce
  have x: "w = item_worth ty h x" "payable ty cur h x" using Cons.prems(1) e by auto
  note exact = item_worth_exact[OF x(2)]
  have all: "step_value ty h (Remove_item x (-1)) = - int (unat w)" by (simp add: step_value_def x(1) exact)
  consider "w < money" | "w > money" | "w = money" by fastforce
  then show ?case
  proof cases
    case 1
    then have m: "unat (money - w) = unat money - unat w" "unat w < unat money"
      by (simp_all add: unat_sub word_less_nat_alt word_le_nat_alt)
    have "money - w \<noteq> 0" "unat (money - w) \<le> (\<Sum>(w, x) \<leftarrow> E. unat w)" using 1 m Cons.prems(3) e by auto
    from Cons.IH[OF _ this] Cons.prems(1) obtain ss where ss: "remove_loop cur h (money - w) E = Some ss"
      "(\<Sum>s \<leftarrow> ss. step_value ty h s) = - int (unat (money - w))"
      "\<forall>x n. Remove_item x n \<in> set ss \<longrightarrow> x \<in> snd ` set E" by auto
    then show ?thesis using 1 e m all by (auto simp: of_nat_diff)
  next
    case 2
    then have "unat money < unit ty h x * unat (item_count (h x))" using x(1) exact by (simp add: word_less_nat_alt)
    from change_back[OF assms(1) x(2) this] 2 e x(1) show ?thesis by (auto simp: coin_step_def Let_def)
  next
    case 3
    then show ?thesis using e all by auto
  qed
qed

section \<open>What a cylinder is worth\<close>

lemma unat_sum_list:
  fixes f :: "'a \<Rightarrow> u64"
  shows "(\<Sum>x \<leftarrow> xs. unat (f x)) < 2 ^ 64 \<Longrightarrow> unat (\<Sum>x \<leftarrow> xs. f x) = (\<Sum>x \<leftarrow> xs. unat (f x))"
proof (induction xs)
  case (Cons a xs)
  then show ?case by (simp add: unat_add_lem[THEN iffD1])
qed simp

lemma sum_list_sort_key: "(\<Sum>x \<leftarrow> sort_key k xs. f x) = (\<Sum>x \<leftarrow> xs. f x :: 'z :: comm_monoid_add)"
  by (metis mset_map mset_sort sum_mset_sum_list)

lemma moneyMap_sum:
  "(\<Sum>(w, x) \<leftarrow> moneyMap_of ty h xs. unat w) = (\<Sum>x \<leftarrow> xs. unat (item_worth ty h x))"
  unfolding moneyMap_of_def sum_list_sort_key by (induction xs) auto

definition total_worth :: "Items \<Rightarrow> heap \<Rightarrow> nat list \<Rightarrow> nat" where
  "total_worth ty h things =
     (\<Sum>x \<in> {x \<in> inside h things. \<not> is_container h x}. unit ty h x * unat (item_count (h x)))"

lemma leaves_worth:
  assumes l: "linked h" and t: "top_level h things" and p: "\<forall>x \<in> inside h things. payable ty cur h x"
    and few: "card (inside h things) < 2 ^ 32"
  shows "\<exists>xs. leaves h things = Some xs \<and> set xs \<subseteq> inside h things \<and>
    (\<Sum>x \<leftarrow> xs. unat (item_worth ty h x)) = total_worth ty h things \<and> total_worth ty h things < 2 ^ 64"
proof -
  let ?leaf = "\<lambda>x. \<not> is_container h x"
  obtain ys where ys: "iterator_loop h (filter (is_container h) things) [] = Some ys" "distinct (things @ ys)"
    "set (things @ ys) = inside h things" using cylinder_walk[OF l t] by blast
  let ?xs = "filter ?leaf (things @ ys)"
  have r: "leaves h things = Some ?xs"
    using leaf_loop_iterator[OF ys(1)] by (auto simp: leaves_def)
  have s: "set ?xs = {x \<in> inside h things. ?leaf x}" and d: "distinct ?xs" using ys(2,3) by auto
  have sum: "(\<Sum>x \<leftarrow> ?xs. unat (item_worth ty h x)) = total_worth ty h things"
    unfolding sum_list_distinct_conv_sum_set[OF d] s total_worth_def
    by (rule sum.cong) (use p item_worth_exact in auto)
  have "unat (item_worth ty h x) \<le> 2 ^ 32 - 1" for x
    using unsigned_less[of "getWorth ty (h x)", where 'a = nat] by (simp add: item_worth_def unat_ucast_up)
  then have "(\<Sum>x \<leftarrow> ?xs. unat (item_worth ty h x)) \<le> (\<Sum>x \<leftarrow> ?xs. 2 ^ 32 - 1)" by (intro sum_list_mono) simp
  also have "\<dots> = length ?xs * (2 ^ 32 - 1)" by (simp only: sum_list_triv) simp
  finally have le: "total_worth ty h things \<le> length ?xs * (2 ^ 32 - 1)" unfolding sum .
  have "length ?xs \<le> length (things @ ys)" by (rule length_filter_le)
  also have "\<dots> = card (inside h things)" using ys(2,3) distinct_card by fastforce
  finally have "length ?xs \<le> 2 ^ 32" using few by linarith
  then have "length ?xs * (2 ^ 32 - 1) \<le> 2 ^ 32 * (2 ^ 32 - 1)" by (rule mult_le_mono1)
  then have "total_worth ty h things < 2 ^ 64" using le by simp
  moreover have "set ?xs \<subseteq> inside h things" using s by blast
  ultimately show ?thesis using r sum by blast
qed

section \<open>The coins of the server's data\<close>

definition coins :: CurrencyMap where
  "coins = [(1000000, 32724), (10000, 3043), (100, 3035), (1, 3031)]"

definition coin_types :: Items where
  "coin_types i = bag_type\<lparr>stackable := True, stackSize := 100,
     worth := if i = 32724 then 1000000 else if i = 3043 then 10000 else if i = 3035 then 100 else if i = 3031 then 1 else 0\<rparr>"

definition gold_heap :: heap where
  "gold_heap = (\<lambda>_. \<lparr>itemId = 3031, item_count = 100, item_attributes = None, imbuementSlots = 0, imbuements = [],
     instanceID = 0, parent = None, contents = None\<rparr>)"

lemma coins_ok: "currency_ok coin_types coins"
  by (simp add: currency_ok_def coins_def coin_types_def)

lemma coins_counts: "set (coin_counts coins 65536000000) = {65536, 0}"
  by (simp add: coins_def)

lemma gold_facts:
  "held ty gold_heap" "top_level gold_heap [0, 1]" "inside gold_heap [0, 1] = {0, 1}"
  "payable coin_types coins gold_heap x" "total_worth coin_types gold_heap [0, 1] = 200"
proof -
  show "held ty gold_heap" by (rule held.start) (simp add: fresh_def outside_def gold_heap_def)
  have p: "par gold_heap = {}" by (simp add: par_def gold_heap_def)
  then show "top_level gold_heap [0, 1]" and i: "inside gold_heap [0, 1] = {0, 1}"
    by (auto simp: top_level_def free_def inside_def)
  have u: "unit coin_types gold_heap x = 1" for x by (simp add: coin_types_def gold_heap_def)
  show "payable coin_types coins gold_heap x" unfolding payable_def u by (auto dest: coin_counts_zero)
  have "{x \<in> {0, 1}. \<not> is_container gold_heap x} = {0, 1}" by (auto simp: gold_heap_def)
  then show "total_worth coin_types gold_heap [0, 1] = 200"
    unfolding total_worth_def i u by (simp add: gold_heap_def)
qed

section \<open>Properties\<close>

text \<open>
  Claim C24. \<open>addMoney\<close> hands out exactly the money in stacks of at most a hundred coins, if it returns; it never returns
  when some currency needs \<open>65536\<close> coins or more (as long as the number of coins fits into 32 bits).
\<close>

theorem addMoney_correct:
  assumes "currency_ok ty cur" and "\<forall>n \<in> set (coin_counts cur (unat money)). n < 2 ^ 32"
  shows "case addMoney cur money of
      None \<Rightarrow> \<exists>n \<in> set (coin_counts cur (unat money)). n \<ge> 65536
    | Some ss \<Rightarrow> (\<forall>n \<in> set (coin_counts cur (unat money)). n < 65536) \<and>
        (\<forall>s \<in> set ss. \<exists>i n. s = Add_coins i n \<and> 1 \<le> n \<and> n \<le> 100) \<and>
        (\<Sum>s \<leftarrow> ss. step_value ty h s) = int (unat money)"
proof (cases "money = 0")
  case True
  have "\<forall>n \<in> set (coin_counts cur 0). n < 65536" by (auto dest: coin_counts_zero)
  then show ?thesis using True by (simp add: addMoney_def)
next
  case False
  then show ?thesis
    using add_loop_gives[OF _ assms(2), of ty "[]" h] assms(1)
    by (auto simp: currency_ok_def addMoney_def gives_def coin_step_def split: option.splits)
qed

theorem addMoney_correct_witness: "addMoney coins 65536000000 = None"
  using addMoney_correct[OF coins_ok, of 65536000000 gold_heap] coins_counts
  by (cases "addMoney coins 65536000000") simp_all

text \<open>
  Claim C23. In every heap that the server reaches, \<open>removeMoney\<close> succeeds exactly if the coins at any depth in the
  cylinder, which \<open>getMoney\<close> sums up, are worth the money; what it takes is then worth exactly the money and the change
  that it gives back, and it only takes items of the cylinder. If it refuses, it takes nothing.
\<close>

theorem removeMoney_correct:
  assumes "held ty h" and "top_level h things" and "currency_ok ty cur"
    and "\<forall>x \<in> inside h things. payable ty cur h x" and "card (inside h things) < 2 ^ 32"
  shows "getMoney ty h things = Some (of_nat (total_worth ty h things)) \<and> total_worth ty h things < 2 ^ 64 \<and>
    (\<exists>ss. removeMoney ty cur h things money = Some (unat money \<le> total_worth ty h things, ss) \<and>
       (if unat money \<le> total_worth ty h things
        then (\<Sum>s \<leftarrow> ss. step_value ty h s) = - int (unat money) \<and>
          (\<forall>x n. Remove_item x n \<in> set ss \<longrightarrow> x \<in> inside h things)
        else ss = []))"
proof -
  have l: "linked h" using held_consistent[OF assms(1)] by (simp add: consistent_def)
  obtain xs where xs: "leaves h things = Some xs" "set xs \<subseteq> inside h things"
    "(\<Sum>x \<leftarrow> xs. unat (item_worth ty h x)) = total_worth ty h things" "total_worth ty h things < 2 ^ 64"
    using leaves_worth[OF l assms(2,4,5)] by blast
  let ?E = "moneyMap_of ty h xs" and ?T = "total_worth ty h things"
  have E: "(\<Sum>e \<leftarrow> ?E. unat (fst e)) = ?T" using moneyMap_sum[of ty h xs] xs(3) by (simp add: case_prod_unfold)
  have g: "unat (\<Sum>x \<leftarrow> xs. item_worth ty h x) = ?T" using unat_sum_list[of "item_worth ty h" xs] xs(3,4) by simp
  have c: "unat (\<Sum>e \<leftarrow> ?E. fst e) = ?T" using unat_sum_list[of fst ?E] E xs(4) by simp
  have ent: "\<forall>(w, x) \<in> set ?E. w = item_worth ty h x \<and> payable ty cur h x"
    using xs(2) assms(4) by (auto simp: moneyMap_of_def)
  have sub: "snd ` set ?E \<subseteq> inside h things" using xs(2) by (auto simp: moneyMap_of_def)
  have "\<exists>ss. removeMoney ty cur h things money = Some (unat money \<le> ?T, ss) \<and>
       (if unat money \<le> ?T then (\<Sum>s \<leftarrow> ss. step_value ty h s) = - int (unat money) \<and>
          (\<forall>x n. Remove_item x n \<in> set ss \<longrightarrow> x \<in> inside h things) else ss = [])"
  proof (cases "money = 0 \<or> ?T < unat money")
    case True
    then show ?thesis using c xs(1) by (auto simp: removeMoney_def word_less_nat_alt Let_def)
  next
    case False
    then obtain ss where "remove_loop cur h money ?E = Some ss" "(\<Sum>s \<leftarrow> ss. step_value ty h s) = - int (unat money)"
      "\<forall>x n. Remove_item x n \<in> set ss \<longrightarrow> x \<in> snd ` set ?E"
      using remove_loop_takes[OF assms(3) ent, of money] E by (auto simp: case_prod_unfold)
    then show ?thesis using False c xs(1) sub by (auto simp: removeMoney_def word_less_nat_alt Let_def)
  qed
  moreover have "getMoney ty h things = Some (of_nat ?T)" using xs(1) by (simp add: getMoney_def g[symmetric])
  ultimately show ?thesis using xs(4) by blast
qed

theorem removeMoney_correct_witness:
  "\<exists>ss. removeMoney coin_types coins gold_heap [0, 1] 150 = Some (True, ss) \<and>
    (\<Sum>s \<leftarrow> ss. step_value coin_types gold_heap s) = -150"
  using removeMoney_correct[OF gold_facts(1,2) coins_ok, of 150] gold_facts(3-5) by auto

text \<open>What \<open>findItemOfType\<close> returns is an item of the kind somewhere in the cylinder, and there is none if it finds none.\<close>

lemma findItemOfType_correct:
  assumes "linked h" and "top_level h things"
  shows "\<exists>r. findItemOfType ty h things i True sub = Some r \<and>
    (case r of None \<Rightarrow> \<forall>x \<in> inside h things. \<not> matches ty h i sub x
     | Some x \<Rightarrow> x \<in> inside h things \<and> matches ty h i sub x)"
proof -
  obtain ys where ys: "iterator_loop h (filter (is_container h) things) [] = Some ys"
    "set (things @ ys) = inside h things" using cylinder_walk[OF assms] by blast
  have "findItemOfType ty h things i True sub = Some (find (matches ty h i sub) (things @ ys))"
    using find_loop_iterator[OF ys(1)] by (auto simp: findItemOfType_def find_append split: option.splits)
  moreover have "case find p zs of None \<Rightarrow> \<forall>x \<in> set zs. \<not> p x | Some x \<Rightarrow> x \<in> set zs \<and> p x" for p and zs :: "nat list"
    by (induction zs) (auto split: option.splits)
  ultimately show ?thesis using ys(2) by metis
qed

end
