(* ===== verification/ItemStore.thy ===== *)
theory ItemStore
  imports Items
begin

text \<open>
  How an item is stored: the attributes that \<^verbatim>\<open>Item::serializeAttr\<close> writes and \<^verbatim>\<open>Item::unserializeAttr\<close> reads
  (\<^verbatim>\<open>src/src/item.cpp\<close>), with the custom attributes (\<^verbatim>\<open>item.h\<close>) and imbuements (\<^verbatim>\<open>imbuement.h\<close>) among them.
  \<open>system\<close> is the configuration flag of the imbuement system, \<open>uniqueFree\<close> what \<^verbatim>\<open>Game::addUniqueItem\<close> answers. An
  item that is being read has no owner, so no effect of an imbuement is started.
\<close>

definition ATTR_ACTION_ID :: u8 where [simp]: "ATTR_ACTION_ID = 4"
definition ATTR_UNIQUE_ID :: u8 where [simp]: "ATTR_UNIQUE_ID = 5"
definition ATTR_TEXT :: u8 where [simp]: "ATTR_TEXT = 6"
definition ATTR_DESC :: u8 where [simp]: "ATTR_DESC = 7"
definition ATTR_TELE_DEST :: u8 where [simp]: "ATTR_TELE_DEST = 8"
definition ATTR_DEPOT_ID :: u8 where [simp]: "ATTR_DEPOT_ID = 10"
definition ATTR_RUNE_CHARGES :: u8 where [simp]: "ATTR_RUNE_CHARGES = 12"
definition ATTR_HOUSEDOORID :: u8 where [simp]: "ATTR_HOUSEDOORID = 14"
definition ATTR_COUNT :: u8 where [simp]: "ATTR_COUNT = 15"
definition ATTR_DURATION :: u8 where [simp]: "ATTR_DURATION = 16"
definition ATTR_DECAYING_STATE :: u8 where [simp]: "ATTR_DECAYING_STATE = 17"
definition ATTR_WRITTENDATE :: u8 where [simp]: "ATTR_WRITTENDATE = 18"
definition ATTR_WRITTENBY :: u8 where [simp]: "ATTR_WRITTENBY = 19"
definition ATTR_SLEEPERGUID :: u8 where [simp]: "ATTR_SLEEPERGUID = 20"
definition ATTR_SLEEPSTART :: u8 where [simp]: "ATTR_SLEEPSTART = 21"
definition ATTR_CHARGES :: u8 where [simp]: "ATTR_CHARGES = 22"
definition ATTR_CONTAINER_ITEMS :: u8 where [simp]: "ATTR_CONTAINER_ITEMS = 23"
definition ATTR_NAME :: u8 where [simp]: "ATTR_NAME = 24"
definition ATTR_ARTICLE :: u8 where [simp]: "ATTR_ARTICLE = 25"
definition ATTR_PLURALNAME :: u8 where [simp]: "ATTR_PLURALNAME = 26"
definition ATTR_WEIGHT :: u8 where [simp]: "ATTR_WEIGHT = 27"
definition ATTR_ATTACK :: u8 where [simp]: "ATTR_ATTACK = 28"
definition ATTR_DEFENSE :: u8 where [simp]: "ATTR_DEFENSE = 29"
definition ATTR_EXTRADEFENSE :: u8 where [simp]: "ATTR_EXTRADEFENSE = 30"
definition ATTR_ARMOR :: u8 where [simp]: "ATTR_ARMOR = 31"
definition ATTR_HITCHANCE :: u8 where [simp]: "ATTR_HITCHANCE = 32"
definition ATTR_SHOOTRANGE :: u8 where [simp]: "ATTR_SHOOTRANGE = 33"
definition ATTR_CUSTOM_ATTRIBUTES :: u8 where [simp]: "ATTR_CUSTOM_ATTRIBUTES = 34"
definition ATTR_WRAPID :: u8 where [simp]: "ATTR_WRAPID = 36"
definition ATTR_STOREITEM :: u8 where [simp]: "ATTR_STOREITEM = 37"
definition ATTR_ATTACK_SPEED :: u8 where [simp]: "ATTR_ATTACK_SPEED = 38"
definition ATTR_CLASSIFICATION :: u8 where [simp]: "ATTR_CLASSIFICATION = 39"
definition ATTR_TIER :: u8 where [simp]: "ATTR_TIER = 40"
definition ATTR_REWARDID :: u8 where [simp]: "ATTR_REWARDID = 41"
definition ATTR_REFLECT :: u8 where [simp]: "ATTR_REFLECT = 42"
definition ATTR_BOOST :: u8 where [simp]: "ATTR_BOOST = 43"
definition ATTR_IMBUESLOTS :: u8 where [simp]: "ATTR_IMBUESLOTS = 44"
definition ATTR_IMBUEMENTS :: u8 where [simp]: "ATTR_IMBUEMENTS = 45"

datatype Attr_ReadValue = ATTR_READ_CONTINUE | ATTR_READ_ERROR | ATTR_READ_END

section \<open>Writing\<close>

definition Imbuement_serialize :: "Imbuement \<Rightarrow> prop_value list" where
  "Imbuement_serialize imb =
     [PU32 (ucast (imbuetype imb)), PU32 (imbue_value imb), PU32 (imbue_duration imb),
      PU32 (push_bit 16 (ucast (baseId imb)) OR ucast (decaytype imb))]"

fun CustomAttribute_serialize :: "CustomAttribute \<Rightarrow> prop_value list" where
  "CustomAttribute_serialize CNone = [PByte 0]"
| "CustomAttribute_serialize (CStr s) = [PByte 1, PStr s]"
| "CustomAttribute_serialize (CInt i) = [PByte 2, PU64 i]"
| "CustomAttribute_serialize (CDouble d) = [PByte 3, PU64 d]"
| "CustomAttribute_serialize (CBool b) = [PByte 4, PByte (of_bool b)]"

definition getImbuementSlots :: "bool \<Rightarrow> ('a) Item_scheme \<Rightarrow> u16" where
  "getImbuementSlots system it = (if system then imbuementSlots it else 0)"

definition write_int :: "itemAttrTypes \<Rightarrow> u8 \<Rightarrow> (s64 \<Rightarrow> prop_value) \<Rightarrow> ('a) Item_scheme \<Rightarrow> prop_value list" where
  "write_int t attr C it = (if Item_hasAttribute t it then [PByte attr, C (Item_getIntAttr t it)] else [])"

definition write_str :: "itemAttrTypes \<Rightarrow> u8 \<Rightarrow> ('a) Item_scheme \<Rightarrow> prop_value list" where
  "write_str t attr it = (if Item_hasAttribute t it then [PByte attr, PStr (Item_getStrAttr t it)] else [])"

definition write_text :: "itemAttrTypes \<Rightarrow> u8 \<Rightarrow> ('a) Item_scheme \<Rightarrow> prop_value list" where
  "write_text t attr it = (if Item_getStrAttr t it \<noteq> [] then [PByte attr, PStr (Item_getStrAttr t it)] else [])"

definition serializeAttr :: "Items \<Rightarrow> bool \<Rightarrow> s64 \<Rightarrow> ('a) Item_scheme \<Rightarrow> PropWriteStream \<Rightarrow> PropWriteStream" where
  "serializeAttr ty system now it =
     (let t = ty (itemId it); date = Item_getIntAttr ITEM_ATTRIBUTE_DATE it
      in fold write_value
       ((if stackable t \<or> isFluid t then [PByte ATTR_COUNT, PByte (ucast (getSubType ty it))] else []) @
        (if getCharges it \<noteq> 0 then [PByte ATTR_CHARGES, PU16 (getCharges it)] else []) @
        (if moveable t \<and> getActionId it \<noteq> 0 then [PByte ATTR_ACTION_ID, PU16 (getActionId it)] else []) @
        write_text ITEM_ATTRIBUTE_TEXT ATTR_TEXT it @
        (if date \<noteq> 0 then [PByte ATTR_WRITTENDATE, PU32 (ucast date)] else []) @
        write_text ITEM_ATTRIBUTE_WRITER ATTR_WRITTENBY it @
        write_text ITEM_ATTRIBUTE_DESCRIPTION ATTR_DESC it @
        (if Item_hasAttribute ITEM_ATTRIBUTE_DURATION it then [PByte ATTR_DURATION, PU32 (getDuration now it)] else []) @
        (if getDecaying it = DECAYING_TRUE \<or> getDecaying it = DECAYING_PENDING
         then [PByte ATTR_DECAYING_STATE, PByte (getDecaying it)] else []) @
        write_str ITEM_ATTRIBUTE_NAME ATTR_NAME it @
        write_str ITEM_ATTRIBUTE_ARTICLE ATTR_ARTICLE it @
        write_str ITEM_ATTRIBUTE_PLURALNAME ATTR_PLURALNAME it @
        write_int ITEM_ATTRIBUTE_WEIGHT ATTR_WEIGHT (PU32 \<circ> ucast) it @
        write_int ITEM_ATTRIBUTE_ATTACK ATTR_ATTACK (PU32 \<circ> ucast) it @
        write_int ITEM_ATTRIBUTE_ATTACK_SPEED ATTR_ATTACK_SPEED (PU32 \<circ> ucast) it @
        write_int ITEM_ATTRIBUTE_CLASSIFICATION ATTR_CLASSIFICATION (PU32 \<circ> ucast) it @
        write_int ITEM_ATTRIBUTE_TIER ATTR_TIER (PU32 \<circ> ucast) it @
        write_int ITEM_ATTRIBUTE_REWARDID ATTR_REWARDID (PU32 \<circ> ucast) it @
        write_int ITEM_ATTRIBUTE_DEFENSE ATTR_DEFENSE (PU32 \<circ> ucast) it @
        (if getImbuementSlots system it > 0 then [PByte ATTR_IMBUESLOTS, PU32 (ucast (imbuementSlots it))] else []) @
        (if imbuements it \<noteq> []
         then [PByte ATTR_IMBUEMENTS, PU16 (of_nat (length (imbuements it)))] @ concat (map Imbuement_serialize (imbuements it))
         else []) @
        write_int ITEM_ATTRIBUTE_EXTRADEFENSE ATTR_EXTRADEFENSE (PU32 \<circ> ucast) it @
        write_int ITEM_ATTRIBUTE_ARMOR ATTR_ARMOR (PU32 \<circ> ucast) it @
        write_int ITEM_ATTRIBUTE_HITCHANCE ATTR_HITCHANCE (PByte \<circ> ucast) it @
        write_int ITEM_ATTRIBUTE_SHOOTRANGE ATTR_SHOOTRANGE (PByte \<circ> ucast) it @
        write_int ITEM_ATTRIBUTE_WRAPID ATTR_WRAPID (PU16 \<circ> ucast) it @
        write_int ITEM_ATTRIBUTE_STOREITEM ATTR_STOREITEM (PByte \<circ> ucast) it @
        (case (case item_attributes it of None \<Rightarrow> None | Some a \<Rightarrow> getCustomAttributeMap a) of
           None \<Rightarrow> []
         | Some m \<Rightarrow>
             [PByte ATTR_CUSTOM_ATTRIBUTES, PU64 (of_nat (length m))] @
             concat (map (\<lambda>(k, v). PStr k # CustomAttribute_serialize v) m))))"

section \<open>Reading\<close>

type_synonym 'a read_result = "Attr_ReadValue \<times> ('a) Item_scheme \<times> PropStream"

definition read_with :: "('w::len word \<Rightarrow> ('a) Item_scheme \<Rightarrow> ('a) Item_scheme) \<Rightarrow> ('a) Item_scheme \<Rightarrow> PropStream \<Rightarrow> 'a read_result" where
  "read_with f it s =
     (case prop_read s of
        (None, s1) \<Rightarrow> (ATTR_READ_ERROR, it, s1)
      | (Some v, s1) \<Rightarrow> (ATTR_READ_CONTINUE, f v it, s1))"

definition read_string_with :: "(u8 list \<Rightarrow> ('a) Item_scheme \<Rightarrow> ('a) Item_scheme) \<Rightarrow> ('a) Item_scheme \<Rightarrow> PropStream \<Rightarrow> 'a read_result" where
  "read_string_with f it s =
     (case readString s of
        ((v, ok), s1) \<Rightarrow> if ok then (ATTR_READ_CONTINUE, f v it, s1) else (ATTR_READ_ERROR, it, s1))"

definition read_skip :: "nat \<Rightarrow> ('a) Item_scheme \<Rightarrow> PropStream \<Rightarrow> 'a read_result" where
  "read_skip n it s =
     (case prop_skip n s of (ok, s1) \<Rightarrow> (if ok then ATTR_READ_CONTINUE else ATTR_READ_ERROR, it, s1))"

definition Imbuement_unserialize :: "PropStream \<Rightarrow> Imbuement option \<times> PropStream" where
  "Imbuement_unserialize s0 =
     (case prop_read s0 :: u32 option \<times> PropStream of
        (None, s1) \<Rightarrow> (None, s1)
      | (Some type, s1) \<Rightarrow>
        (case prop_read s1 :: u32 option \<times> PropStream of
           (None, s2) \<Rightarrow> (None, s2)
         | (Some val, s2) \<Rightarrow>
           (case prop_read s2 :: u32 option \<times> PropStream of
              (None, s3) \<Rightarrow> (None, s3)
            | (Some dur, s3) \<Rightarrow>
              (case prop_read s3 :: u32 option \<times> PropStream of
                 (None, s4) \<Rightarrow> (None, s4)
               | (Some packedDecay, s4) \<Rightarrow>
                   (Some \<lparr>imbuetype = ucast type, imbue_value = val, imbue_duration = dur,
                      decaytype = ucast (packedDecay AND 0xFFFF), baseId = ucast (drop_bit 16 packedDecay AND 0xFFFF)\<rparr>, s4)))))"

text \<open>\<open>addImbuement\<close> of a stored imbuement.\<close>

definition addImbuement :: "Imbuement \<Rightarrow> ('a) Item_scheme \<Rightarrow> ('a) Item_scheme" where
  "addImbuement imb it =
     (if imbuementSlots it > 0 \<and> unat (imbuementSlots it) > length (imbuements it)
      then it\<lparr>imbuements := imbuements it @ [imb]\<rparr> else it)"

fun read_imbuements :: "nat \<Rightarrow> ('a) Item_scheme \<Rightarrow> PropStream \<Rightarrow> 'a read_result" where
  "read_imbuements 0 it s = (ATTR_READ_CONTINUE, it, s)"
| "read_imbuements (Suc n) it s =
     (case Imbuement_unserialize s of
        (None, s1) \<Rightarrow> (ATTR_READ_ERROR, it, s1)
      | (Some imb, s1) \<Rightarrow> read_imbuements n (addImbuement imb it) s1)"

fun assign_key :: "'k \<Rightarrow> 'v \<Rightarrow> ('k \<times> 'v) list \<Rightarrow> ('k \<times> 'v) list" where
  "assign_key k v [] = [(k, v)]"
| "assign_key k v ((j, w) # xs) = (if j = k then (k, v) # xs else (j, w) # assign_key k v xs)"

fun read_reflects :: "nat \<Rightarrow> ('a) Item_scheme \<Rightarrow> PropStream \<Rightarrow> 'a read_result" where
  "read_reflects 0 it s = (ATTR_READ_CONTINUE, it, s)"
| "read_reflects (Suc n) it s =
     (case prop_read s :: u16 option \<times> PropStream of
        (None, s1) \<Rightarrow> (ATTR_READ_ERROR, it, s1)
      | (Some combatType, s1) \<Rightarrow>
        (case prop_read s1 :: u16 option \<times> PropStream of
           (None, s2) \<Rightarrow> (ATTR_READ_ERROR, it, s2)
         | (Some percent, s2) \<Rightarrow>
           (case prop_read s2 :: u16 option \<times> PropStream of
              (None, s3) \<Rightarrow> (ATTR_READ_ERROR, it, s3)
            | (Some chance, s3) \<Rightarrow>
                read_reflects n (on_attributes (\<lambda>a. a\<lparr>reflect := assign_key combatType (percent, chance) (reflect a)\<rparr>) it) s3)))"

fun read_boosts :: "nat \<Rightarrow> ('a) Item_scheme \<Rightarrow> PropStream \<Rightarrow> 'a read_result" where
  "read_boosts 0 it s = (ATTR_READ_CONTINUE, it, s)"
| "read_boosts (Suc n) it s =
     (case prop_read s :: u16 option \<times> PropStream of
        (None, s1) \<Rightarrow> (ATTR_READ_ERROR, it, s1)
      | (Some combatType, s1) \<Rightarrow>
        (case prop_read s1 :: u16 option \<times> PropStream of
           (None, s2) \<Rightarrow> (ATTR_READ_ERROR, it, s2)
         | (Some percent, s2) \<Rightarrow>
             read_boosts n (on_attributes (\<lambda>a. a\<lparr>boostPercent := assign_key combatType percent (boostPercent a)\<rparr>) it) s2))"

definition CustomAttribute_unserialize :: "PropStream \<Rightarrow> CustomAttribute option \<times> PropStream" where
  "CustomAttribute_unserialize s =
     (case prop_read s :: u8 option \<times> PropStream of
        (None, s1) \<Rightarrow> (None, s1)
      | (Some pos, s1) \<Rightarrow>
          if pos = 0 then (Some CNone, s1)
          else if pos = 1 then (case readString s1 of ((v, ok), s2) \<Rightarrow> (if ok then Some (CStr v) else None, s2))
          else if pos = 2 then (case prop_read s1 of (v, s2) \<Rightarrow> (map_option CInt v, s2))
          else if pos = 3 then (case prop_read s1 of (v, s2) \<Rightarrow> (map_option CDouble v, s2))
          else if pos = 4 then (case prop_read s1 :: u8 option \<times> PropStream of (v, s2) \<Rightarrow> (map_option (\<lambda>b. CBool (b \<noteq> 0)) v, s2))
          else (None, s1))"

fun read_customs :: "nat \<Rightarrow> ('a) Item_scheme \<Rightarrow> PropStream \<Rightarrow> 'a read_result" where
  "read_customs 0 it s = (ATTR_READ_CONTINUE, it, s)"
| "read_customs (Suc n) it s =
     (case readString s of
        ((k, ok), s1) \<Rightarrow>
          if \<not> ok then (ATTR_READ_ERROR, it, s1)
          else case CustomAttribute_unserialize s1 of
              (None, s2) \<Rightarrow> (ATTR_READ_ERROR, it, s2)
            | (Some v, s2) \<Rightarrow> read_customs n (Item_setCustomAttribute k v it) s2)"

definition read_counted ::
  "(nat \<Rightarrow> ('a) Item_scheme \<Rightarrow> PropStream \<Rightarrow> 'a read_result) \<Rightarrow> 'w::len itself \<Rightarrow> ('a) Item_scheme \<Rightarrow> PropStream \<Rightarrow> 'a read_result" where
  "read_counted f _ it s =
     (case prop_read s :: 'w word option \<times> PropStream of
        (None, s1) \<Rightarrow> (ATTR_READ_ERROR, it, s1)
      | (Some n, s1) \<Rightarrow> f (unat n) it s1)"

definition setUniqueId :: "(u16 \<Rightarrow> bool) \<Rightarrow> u16 \<Rightarrow> ('a) Item_scheme \<Rightarrow> ('a) Item_scheme" where
  "setUniqueId uniqueFree n it =
     (if Item_hasAttribute ITEM_ATTRIBUTE_UNIQUEID it then it
      else if uniqueFree n then Item_setIntAttr ITEM_ATTRIBUTE_UNIQUEID (ucast n) it else it)"

definition readAttr :: "Items \<Rightarrow> (u16 \<Rightarrow> bool) \<Rightarrow> u8 \<Rightarrow> ('a) Item_scheme \<Rightarrow> PropStream \<Rightarrow> 'a read_result" where
  "readAttr ty uniqueFree attr =
     (if attr = ATTR_COUNT \<or> attr = ATTR_RUNE_CHARGES then read_with (\<lambda>v :: u8. setSubType ty (ucast v))
      else if attr = ATTR_ACTION_ID then read_with setActionId
      else if attr = ATTR_UNIQUE_ID then read_with (setUniqueId uniqueFree)
      else if attr = ATTR_TEXT then read_string_with (Item_setStrAttr ITEM_ATTRIBUTE_TEXT)
      else if attr = ATTR_WRITTENDATE then read_with (\<lambda>v :: u32. setDate v)
      else if attr = ATTR_WRITTENBY then read_string_with (Item_setStrAttr ITEM_ATTRIBUTE_WRITER)
      else if attr = ATTR_DESC then read_string_with (Item_setStrAttr ITEM_ATTRIBUTE_DESCRIPTION)
      else if attr = ATTR_CHARGES then read_with (setSubType ty)
      else if attr = ATTR_DURATION then read_with setDuration
      else if attr = ATTR_DECAYING_STATE
      then read_with (\<lambda>state :: u8. if state \<noteq> DECAYING_FALSE then setDecaying DECAYING_PENDING else id)
      else if attr = ATTR_NAME then read_string_with (Item_setStrAttr ITEM_ATTRIBUTE_NAME)
      else if attr = ATTR_ARTICLE then read_string_with (Item_setStrAttr ITEM_ATTRIBUTE_ARTICLE)
      else if attr = ATTR_PLURALNAME then read_string_with (Item_setStrAttr ITEM_ATTRIBUTE_PLURALNAME)
      else if attr = ATTR_WEIGHT then read_with (\<lambda>v :: u32. Item_setIntAttr ITEM_ATTRIBUTE_WEIGHT (ucast v))
      else if attr = ATTR_ATTACK then read_with (\<lambda>v :: s32. Item_setIntAttr ITEM_ATTRIBUTE_ATTACK (scast v))
      else if attr = ATTR_ATTACK_SPEED then read_with (\<lambda>v :: u32. Item_setIntAttr ITEM_ATTRIBUTE_ATTACK_SPEED (ucast v))
      else if attr = ATTR_IMBUESLOTS then read_with (\<lambda>(v :: u32) it. it\<lparr>imbuementSlots := ucast v\<rparr>)
      else if attr = ATTR_DEFENSE then read_with (\<lambda>v :: s32. Item_setIntAttr ITEM_ATTRIBUTE_DEFENSE (scast v))
      else if attr = ATTR_EXTRADEFENSE then read_with (\<lambda>v :: s32. Item_setIntAttr ITEM_ATTRIBUTE_EXTRADEFENSE (scast v))
      else if attr = ATTR_ARMOR then read_with (\<lambda>v :: s32. Item_setIntAttr ITEM_ATTRIBUTE_ARMOR (scast v))
      else if attr = ATTR_HITCHANCE then read_with (\<lambda>v :: s8. Item_setIntAttr ITEM_ATTRIBUTE_HITCHANCE (scast v))
      else if attr = ATTR_SHOOTRANGE then read_with (\<lambda>v :: u8. Item_setIntAttr ITEM_ATTRIBUTE_SHOOTRANGE (ucast v))
      else if attr = ATTR_WRAPID then read_with (\<lambda>v :: u16. Item_setIntAttr ITEM_ATTRIBUTE_WRAPID (ucast v))
      else if attr = ATTR_STOREITEM then read_with (\<lambda>v :: u8. Item_setIntAttr ITEM_ATTRIBUTE_STOREITEM (ucast v))
      else if attr = ATTR_REWARDID then read_with (\<lambda>v :: u32. Item_setIntAttr ITEM_ATTRIBUTE_REWARDID (ucast v))
      else if attr = ATTR_CLASSIFICATION then read_with (\<lambda>v :: u32. Item_setIntAttr ITEM_ATTRIBUTE_CLASSIFICATION (ucast v))
      else if attr = ATTR_TIER then read_with (\<lambda>v :: u32. Item_setIntAttr ITEM_ATTRIBUTE_TIER (ucast v))
      else if attr = ATTR_IMBUEMENTS then read_counted read_imbuements TYPE(16)
      else if attr = ATTR_REFLECT then read_counted read_reflects TYPE(16)
      else if attr = ATTR_BOOST then read_counted read_boosts TYPE(16)
      else if attr = ATTR_DEPOT_ID then read_skip 2
      else if attr = ATTR_HOUSEDOORID then read_skip 1
      else if attr = ATTR_SLEEPERGUID then read_skip 4
      else if attr = ATTR_SLEEPSTART then read_skip 4
      else if attr = ATTR_TELE_DEST then read_skip 5
      else if attr = ATTR_CONTAINER_ITEMS then (\<lambda>it s. (ATTR_READ_ERROR, it, s))
      else if attr = ATTR_CUSTOM_ATTRIBUTES then read_counted read_customs TYPE(64)
      else (\<lambda>it s. (ATTR_READ_ERROR, it, s)))"

lemma read_with_shorter: "read_with f it s = (r, it', s') \<Longrightarrow> length s' \<le> length s"
  by (auto simp: read_with_def dest: prop_read_shorter split: prod.splits option.splits)

lemma read_string_with_shorter: "read_string_with f it s = (r, it', s') \<Longrightarrow> length s' \<le> length s"
  by (auto simp: read_string_with_def dest: readString_shorter split: prod.splits if_splits)

lemma read_skip_shorter: "read_skip n it s = (r, it', s') \<Longrightarrow> length s' \<le> length s"
  by (auto simp: read_skip_def dest: prop_skip_shorter split: prod.splits)

lemma Imbuement_unserialize_shorter: "Imbuement_unserialize s = (r, s') \<Longrightarrow> length s' \<le> length s"
  by (auto simp: Imbuement_unserialize_def dest!: prop_read_shorter split: prod.splits option.splits)

lemma CustomAttribute_unserialize_shorter: "CustomAttribute_unserialize s = (r, s') \<Longrightarrow> length s' \<le> length s"
  by (auto simp: CustomAttribute_unserialize_def dest!: prop_read_shorter readString_shorter
      split: prod.splits option.splits if_splits)

lemma read_imbuements_shorter: "read_imbuements n it s = (r, it', s') \<Longrightarrow> length s' \<le> length s"
  by (induction n it s rule: read_imbuements.induct)
    (fastforce dest!: Imbuement_unserialize_shorter split: prod.splits option.splits)+

lemma read_reflects_shorter: "read_reflects n it s = (r, it', s') \<Longrightarrow> length s' \<le> length s"
  by (induction n it s rule: read_reflects.induct)
    (fastforce dest!: prop_read_shorter split: prod.splits option.splits)+

lemma read_boosts_shorter: "read_boosts n it s = (r, it', s') \<Longrightarrow> length s' \<le> length s"
  by (induction n it s rule: read_boosts.induct)
    (fastforce dest!: prop_read_shorter split: prod.splits option.splits)+

lemma read_customs_shorter: "read_customs n it s = (r, it', s') \<Longrightarrow> length s' \<le> length s"
  by (induction n it s rule: read_customs.induct)
    (fastforce dest!: readString_shorter CustomAttribute_unserialize_shorter split: prod.splits option.splits if_splits)+

definition shrinks :: "(('a) Item_scheme \<Rightarrow> PropStream \<Rightarrow> 'a read_result) \<Rightarrow> bool" where
  "shrinks f \<longleftrightarrow> (\<forall>it s r it' s'. f it s = (r, it', s') \<longrightarrow> length s' \<le> length s)"

lemma shrinks_readers [simp]:
  "shrinks (read_with f)" "shrinks (read_string_with g)" "shrinks (read_skip n)"
  "shrinks (\<lambda>it s. (ATTR_READ_ERROR, it, s))"
  by (auto simp: shrinks_def dest: read_with_shorter read_string_with_shorter read_skip_shorter)

lemma shrinks_counted:
  assumes "\<And>n. shrinks (f n)"
  shows "shrinks (read_counted f w)"
  unfolding shrinks_def read_counted_def
proof (intro allI impI)
  fix it :: "('a) Item_scheme" and s r it' s'
  assume "(case prop_read s :: 'b word option \<times> PropStream of (None, s1) \<Rightarrow> (ATTR_READ_ERROR, it, s1)
            | (Some n, s1) \<Rightarrow> f (unat n) it s1) = (r, it', s')"
  then show "length s' \<le> length s"
    using assms unfolding shrinks_def
    by (fastforce dest: prop_read_shorter le_trans split: prod.splits option.splits)
qed

lemma shrinksI: "(\<And>it s r it' s'. f it s = (r, it', s') \<Longrightarrow> length s' \<le> length s) \<Longrightarrow> shrinks f"
  by (simp add: shrinks_def)

lemma shrinksD: "shrinks f \<Longrightarrow> f it s = (r, it', s') \<Longrightarrow> length s' \<le> length s"
  unfolding shrinks_def by blast

lemmas shrinks_lists [simp] =
  shrinks_counted[OF shrinksI[OF read_imbuements_shorter]] shrinks_counted[OF shrinksI[OF read_reflects_shorter]]
  shrinks_counted[OF shrinksI[OF read_boosts_shorter]] shrinks_counted[OF shrinksI[OF read_customs_shorter]]

lemma readAttr_shorter: "readAttr ty u attr it s = (r, it', s') \<Longrightarrow> length s' \<le> length s"
  by (rule shrinksD[of "readAttr ty u attr"]) (simp_all add: readAttr_def)

function unserializeAttr :: "Items \<Rightarrow> (u16 \<Rightarrow> bool) \<Rightarrow> ('a) Item_scheme \<Rightarrow> PropStream \<Rightarrow> bool \<times> ('a) Item_scheme \<times> PropStream" where
  "unserializeAttr ty uniqueFree it s =
     (case prop_read s :: u8 option \<times> PropStream of
        (None, s1) \<Rightarrow> (True, it, s1)
      | (Some attr_type, s1) \<Rightarrow>
          if attr_type = 0 then (True, it, s1)
          else case readAttr ty uniqueFree attr_type it s1 of
              (ATTR_READ_ERROR, it2, s2) \<Rightarrow> (False, it2, s2)
            | (ATTR_READ_END, it2, s2) \<Rightarrow> (True, it2, s2)
            | (ATTR_READ_CONTINUE, it2, s2) \<Rightarrow> unserializeAttr ty uniqueFree it2 s2)"
  by pat_completeness auto

termination
  by (relation "measure (\<lambda>(_, _, _, s). length s)")
    (auto dest!: prop_read_Some_shorter[OF sym] readAttr_shorter[OF sym])

declare unserializeAttr.simps [simp del]

end
