(* ===== verification/ItemRoundtrip.thy ===== *)
theory ItemRoundtrip
  imports ItemStore
begin

text \<open>
  An item that was stored by \<open>serializeAttr\<close> and is read by \<open>unserializeAttr\<close> has its attributes again. The reading is
  followed chunk by chunk: \<open>absorbs\<close> says what one written chunk does to the item that is being read.
\<close>

section \<open>Narrow integers\<close>

lemma uint_take_sint: "uint (i :: 'b::len word) = take_bit LENGTH('b) (sint i)"
  by (simp add: sint_uint take_bit_signed_take_bit take_bit_int_eq_self)

lemma ucast_back:
  assumes "0 \<le> sint (i :: s64)" and "sint i < 2 ^ LENGTH('a)"
  shows "ucast (ucast i :: 'a::len word) = i"
proof -
  have "sint i < 2 ^ 63" using sint_lt[of i] by simp
  then have u: "uint i = sint i" using assms(1) by (simp add: uint_take_sint take_bit_int_eq_self)
  show ?thesis
    by (rule word_uint_eqI)
      (use assms u sint_lt[of i] in \<open>simp add: unsigned_ucast_eq unsigned_take_bit_eq take_bit_int_eq_self\<close>)
qed

lemma scast_back:
  assumes "- (2 ^ (LENGTH('a) - 1)) \<le> sint (i :: s64)" and "sint i < 2 ^ (LENGTH('a) - 1)" and "LENGTH('a) \<le> 64"
  shows "scast (ucast i :: 'a::len word) = i"
proof -
  have l: "LENGTH('a) - Suc 0 < 64" using assms(3) by simp
  have "sint (ucast i :: 'a word) = signed_take_bit (LENGTH('a) - 1) (take_bit 64 (sint i))"
    by (simp add: signed_ucast_eq uint_take_sint)
  also have "\<dots> = sint i" using l assms
    by (simp add: signed_take_bit_take_bit signed_take_bit_int_eq_self)
  finally show ?thesis by (metis scast_eq scast_id)
qed

lemma mask16: "(0xFFFF :: u32) = mask 16"
  by (simp add: mask_eq_exp_minus_1)

lemma unpack_decay:
  "ucast ((push_bit 16 (ucast (b :: u16)) OR ucast (d :: u8)) AND 0xFFFF :: u32) = d"
  "ucast ((drop_bit 16 (push_bit 16 (ucast b)) OR drop_bit 16 (ucast d)) AND 0xFFFF :: u32) = b"
  unfolding mask16 by (rule bit_word_eqI; auto simp: bit_simps dest: bit_imp_le_length)+

lemma ucast_up_down [simp]:
  "ucast (ucast (b :: u8) :: u16) = b" "ucast (ucast b :: u32) = b" "ucast (ucast (w :: u16) :: u32) = w"
  by (rule bit_word_eqI; auto simp: bit_simps)+

section \<open>Reading one chunk\<close>

lemma read_with_bytes [simp]:
  "read_with f it (prop_bytes (PByte b) @ s) = (ATTR_READ_CONTINUE, f b it, s)"
  "read_with g it (prop_bytes (PU16 w) @ s) = (ATTR_READ_CONTINUE, g w it, s)"
  "read_with h it (prop_bytes (PU32 d) @ s) = (ATTR_READ_CONTINUE, h d it, s)"
  using prop_read_bytes[where 'a = 8, of 1] prop_read_bytes[where 'a = 16, of 2] prop_read_bytes[where 'a = 32, of 4]
  by (simp_all add: read_with_def del: le_bytes.simps)

lemma readString_bytes:
  assumes "length v \<le> 65535"
  shows "readString (prop_bytes (PStr v) @ s) = ((v, True), s)"
  using assms prop_read_bytes[where 'a = 16, of 2 "of_nat (length v)" "v @ s"]
  by (simp add: readString_def prop_size_def unat_of_nat_lt del: le_bytes.simps)

lemma read_string_with_bytes:
  "length v \<le> 65535 \<Longrightarrow> read_string_with f it (prop_bytes (PStr v) @ s) = (ATTR_READ_CONTINUE, f v it, s)"
  by (simp add: read_string_with_def readString_bytes del: prop_bytes.simps)

definition absorbs :: "Items \<Rightarrow> (u16 \<Rightarrow> bool) \<Rightarrow> ('a) Item_scheme \<Rightarrow> prop_value list \<Rightarrow> ('a) Item_scheme \<Rightarrow> bool" where
  "absorbs ty u it vs it' \<longleftrightarrow> (\<forall>s. unserializeAttr ty u it (enc_all prop_bytes vs @ s) = unserializeAttr ty u it' s)"

lemma absorbs_Nil: "absorbs ty u it [] it"
  by (simp add: absorbs_def)

lemma absorbs_append: "absorbs ty u it vs it1 \<Longrightarrow> absorbs ty u it1 ws it2 \<Longrightarrow> absorbs ty u it (vs @ ws) it2"
  by (simp add: absorbs_def)

lemma absorbs_chunk:
  assumes "attr \<noteq> 0" and "\<And>s. readAttr ty u attr it (enc_all prop_bytes vs @ s) = (ATTR_READ_CONTINUE, it', s)"
  shows "absorbs ty u it (PByte attr # vs) it'"
proof -
  have "unserializeAttr ty u it (prop_bytes (PByte attr) @ enc_all prop_bytes vs @ s) = unserializeAttr ty u it' s" for s
    using assms prop_read_bytes[where 'a = 8, of 1 attr]
    by (subst unserializeAttr.simps) (simp del: le_bytes.simps)
  then show ?thesis by (simp add: absorbs_def del: prop_bytes.simps)
qed

section \<open>The attributes of an item as a map\<close>

definition item_map :: "('a) Item_scheme \<Rightarrow> itemAttrTypes \<Rightarrow> AttrValue option" where
  "item_map it = (case item_attributes it of None \<Rightarrow> Map.empty | Some a \<Rightarrow> attr_map a)"

definition item_ok :: "('a) Item_scheme \<Rightarrow> bool" where
  "item_ok it \<longleftrightarrow> (case item_attributes it of None \<Rightarrow> True | Some a \<Rightarrow> attributes_ok a)"

lemmas attribute_defs =
  ITEM_ATTRIBUTE_ACTIONID_def ITEM_ATTRIBUTE_DATE_def ITEM_ATTRIBUTE_WEIGHT_def ITEM_ATTRIBUTE_ATTACK_def
  ITEM_ATTRIBUTE_DEFENSE_def ITEM_ATTRIBUTE_EXTRADEFENSE_def ITEM_ATTRIBUTE_ARMOR_def ITEM_ATTRIBUTE_HITCHANCE_def
  ITEM_ATTRIBUTE_SHOOTRANGE_def ITEM_ATTRIBUTE_DURATION_def ITEM_ATTRIBUTE_DECAYSTATE_def
  ITEM_ATTRIBUTE_CHARGES_def ITEM_ATTRIBUTE_FLUIDTYPE_def ITEM_ATTRIBUTE_WRAPID_def ITEM_ATTRIBUTE_STOREITEM_def
  ITEM_ATTRIBUTE_ATTACK_SPEED_def ITEM_ATTRIBUTE_CLASSIFICATION_def ITEM_ATTRIBUTE_TIER_def
  ITEM_ATTRIBUTE_DESCRIPTION_def ITEM_ATTRIBUTE_TEXT_def ITEM_ATTRIBUTE_WRITER_def ITEM_ATTRIBUTE_NAME_def
  ITEM_ATTRIBUTE_ARTICLE_def ITEM_ATTRIBUTE_PLURALNAME_def ITEM_ATTRIBUTE_REWARDID_def

lemma single_types:
  "single ITEM_ATTRIBUTE_ACTIONID" "single ITEM_ATTRIBUTE_DATE" "single ITEM_ATTRIBUTE_WEIGHT"
  "single ITEM_ATTRIBUTE_ATTACK" "single ITEM_ATTRIBUTE_DEFENSE" "single ITEM_ATTRIBUTE_EXTRADEFENSE"
  "single ITEM_ATTRIBUTE_ARMOR" "single ITEM_ATTRIBUTE_HITCHANCE" "single ITEM_ATTRIBUTE_SHOOTRANGE"
  "single ITEM_ATTRIBUTE_DURATION" "single ITEM_ATTRIBUTE_DECAYSTATE" "single ITEM_ATTRIBUTE_CHARGES"
  "single ITEM_ATTRIBUTE_FLUIDTYPE" "single ITEM_ATTRIBUTE_WRAPID" "single ITEM_ATTRIBUTE_STOREITEM"
  "single ITEM_ATTRIBUTE_ATTACK_SPEED" "single ITEM_ATTRIBUTE_CLASSIFICATION" "single ITEM_ATTRIBUTE_TIER"
  "single ITEM_ATTRIBUTE_DESCRIPTION" "single ITEM_ATTRIBUTE_TEXT" "single ITEM_ATTRIBUTE_WRITER"
  "single ITEM_ATTRIBUTE_NAME" "single ITEM_ATTRIBUTE_ARTICLE" "single ITEM_ATTRIBUTE_PLURALNAME"
  "single ITEM_ATTRIBUTE_REWARDID"
  unfolding attribute_defs by (rule single_power, simp)+

lemma int_types:
  "isIntAttrType ITEM_ATTRIBUTE_ACTIONID" "isIntAttrType ITEM_ATTRIBUTE_DATE"
  "isIntAttrType ITEM_ATTRIBUTE_WEIGHT" "isIntAttrType ITEM_ATTRIBUTE_ATTACK"
  "isIntAttrType ITEM_ATTRIBUTE_DEFENSE" "isIntAttrType ITEM_ATTRIBUTE_EXTRADEFENSE"
  "isIntAttrType ITEM_ATTRIBUTE_ARMOR" "isIntAttrType ITEM_ATTRIBUTE_HITCHANCE"
  "isIntAttrType ITEM_ATTRIBUTE_SHOOTRANGE" "isIntAttrType ITEM_ATTRIBUTE_DURATION"
  "isIntAttrType ITEM_ATTRIBUTE_DECAYSTATE" "isIntAttrType ITEM_ATTRIBUTE_CHARGES"
  "isIntAttrType ITEM_ATTRIBUTE_FLUIDTYPE" "isIntAttrType ITEM_ATTRIBUTE_WRAPID"
  "isIntAttrType ITEM_ATTRIBUTE_STOREITEM" "isIntAttrType ITEM_ATTRIBUTE_ATTACK_SPEED"
  "isIntAttrType ITEM_ATTRIBUTE_CLASSIFICATION" "isIntAttrType ITEM_ATTRIBUTE_TIER"
  by (simp_all add: isIntAttrType_def intAttributeTypes_def ITEM_ATTRIBUTE_CUSTOM_def)

lemma str_types:
  "isStrAttrType ITEM_ATTRIBUTE_DESCRIPTION" "isStrAttrType ITEM_ATTRIBUTE_TEXT"
  "isStrAttrType ITEM_ATTRIBUTE_WRITER" "isStrAttrType ITEM_ATTRIBUTE_NAME" "isStrAttrType ITEM_ATTRIBUTE_ARTICLE"
  "isStrAttrType ITEM_ATTRIBUTE_PLURALNAME"
  by (simp_all add: isStrAttrType_def stringAttributeTypes_def)

lemma Item_hasAttribute_map: "item_ok it \<Longrightarrow> single t \<Longrightarrow> Item_hasAttribute t it \<longleftrightarrow> item_map it t \<noteq> None"
  by (auto simp: item_ok_def Item_hasAttribute_def item_map_def hasAttribute_iff split: option.splits)

lemma item_value: "item_ok it \<Longrightarrow> item_map it t = Some v \<Longrightarrow> single t \<and> value_ok t v"
  by (auto simp: item_ok_def item_map_def dest: ok_value split: option.splits)

lemma int_only:
  assumes "item_ok it" and "isIntAttrType t" and "item_map it t = Some v"
  obtains i where "v = VInt i"
  using item_value[OF assms(1,3)] assms(2) int_not_str[of t] by (cases v) auto

lemma str_only:
  assumes "item_ok it" and "isStrAttrType t" and "item_map it t = Some v"
  obtains s where "v = VStr s" and "s \<noteq> []"
  using item_value[OF assms(1,3)] assms(2) int_not_str[of t] custom_kind by (cases v) auto

lemma Item_getIntAttr_map:
  "item_ok it \<Longrightarrow> single t \<Longrightarrow> isIntAttrType t \<Longrightarrow> Item_getIntAttr t it = int_value (item_map it t)"
  by (auto simp: item_ok_def Item_getIntAttr_def item_map_def getIntAttr_def getExistingAttr_map int_value_def
      split: option.splits)

lemma Item_getStrAttr_map:
  "item_ok it \<Longrightarrow> single t \<Longrightarrow> isStrAttrType t \<Longrightarrow> Item_getStrAttr t it = str_value (item_map it t)"
  by (auto simp: item_ok_def Item_getStrAttr_def item_map_def getStrAttr_def getExistingAttr_map str_value_def
      split: option.splits)

lemma on_put_map:
  assumes "item_ok it" and "single t" and "value_ok t v"
  shows "item_map (on_attributes (put_attr t v) it) = (item_map it)(t \<mapsto> v)" and "item_ok (on_attributes (put_attr t v) it)"
proof -
  have a: "attributes_ok (getAttributes it)" "attr_map (getAttributes it) = item_map it"
    using assms(1) new_ok by (auto simp: item_ok_def getAttributes_def item_map_def attr_map_def new_ItemAttributes_def split: option.splits)
  show "item_map (on_attributes (put_attr t v) it) = (item_map it)(t \<mapsto> v)" "item_ok (on_attributes (put_attr t v) it)"
    using put_attr_map[OF a(1) assms(2)] put_attr_ok[OF a(1) assms(2,3)] a(2)
    by (simp_all add: on_attributes_def item_map_def item_ok_def)
qed

lemma set_is_put:
  "isIntAttrType t \<Longrightarrow> Item_setIntAttr t i = on_attributes (put_attr t (VInt (at_least_100 t i)))"
  "isStrAttrType t \<Longrightarrow> v \<noteq> [] \<Longrightarrow> Item_setStrAttr t v = on_attributes (put_attr t (VStr v))"
  by (auto simp: Item_setIntAttr_def Item_setStrAttr_def setIntAttr_def[abs_def] setStrAttr_def[abs_def] at_least_100_def fun_eq_iff)

section \<open>What a chunk carries\<close>

text \<open>
  \<open>carries ty u i m vs T\<close>: reading the chunk \<open>vs\<close> into an item of type \<open>i\<close> that has none of the attributes \<open>T\<close> gives
  it the values that \<open>m\<close> has for them, and changes nothing else.
\<close>

definition carries ::
  "Items \<Rightarrow> (u16 \<Rightarrow> bool) \<Rightarrow> u16 \<Rightarrow> (itemAttrTypes \<Rightarrow> AttrValue option) \<Rightarrow> 'a itself \<Rightarrow> prop_value list \<Rightarrow> itemAttrTypes set \<Rightarrow> bool" where
  "carries ty u i m _ vs T \<longleftrightarrow>
     (\<forall>it0 :: ('a) Item_scheme. item_ok it0 \<and> itemId it0 = i \<and> (\<forall>t \<in> T. item_map it0 t = None) \<longrightarrow>
       (\<exists>a. let it1 = it0\<lparr>item_attributes := a\<rparr> in
          absorbs ty u it0 vs it1 \<and> item_ok it1 \<and> item_map it1 = override_on (item_map it0) m T))"

lemma carries_none:
  assumes "\<forall>t \<in> T. m t = None"
  shows "carries ty u i m TYPE('a) [] T"
  unfolding carries_def Let_def
proof (intro allI impI)
  fix it0 :: "('a) Item_scheme"
  assume "item_ok it0 \<and> itemId it0 = i \<and> (\<forall>t \<in> T. item_map it0 t = None)"
  with assms show "\<exists>a. absorbs ty u it0 [] (it0\<lparr>item_attributes := a\<rparr>) \<and> item_ok (it0\<lparr>item_attributes := a\<rparr>) \<and>
      item_map (it0\<lparr>item_attributes := a\<rparr>) = override_on (item_map it0) m T"
    by (intro exI[of _ "item_attributes it0"]) (auto simp: absorbs_Nil fun_eq_iff override_on_def)
qed

lemma carries_chunk:
  fixes ty u i m T
  assumes "attr \<noteq> 0" and "m t = Some v" and "single t" and "value_ok t v"
    and "\<And>(it0 :: ('a) Item_scheme) s. itemId it0 = i \<Longrightarrow>
      readAttr ty u attr it0 (enc_all prop_bytes vs @ s) = (ATTR_READ_CONTINUE, on_attributes (put_attr t v) it0, s)"
  shows "carries ty u i m TYPE('a) (PByte attr # vs) {t}"
  unfolding carries_def Let_def
proof (intro allI impI)
  fix it0 :: "('a) Item_scheme"
  assume it0: "item_ok it0 \<and> itemId it0 = i \<and> (\<forall>t \<in> {t}. item_map it0 t = None)"
  let ?it1 = "on_attributes (put_attr t v) it0"
  have "absorbs ty u it0 (PByte attr # vs) ?it1" using assms(1,5) it0 by (simp add: absorbs_chunk)
  moreover have "item_ok ?it1" "item_map ?it1 = override_on (item_map it0) m {t}"
    using on_put_map[of it0 t v] it0 assms(2-4) by (auto simp: override_on_def)
  ultimately show "\<exists>a. absorbs ty u it0 (PByte attr # vs) (it0\<lparr>item_attributes := a\<rparr>) \<and> item_ok (it0\<lparr>item_attributes := a\<rparr>) \<and>
      item_map (it0\<lparr>item_attributes := a\<rparr>) = override_on (item_map it0) m {t}"
    unfolding on_attributes_def by blast
qed

lemma carriesE:
  fixes it0 :: "('a) Item_scheme"
  assumes "carries ty u (itemId it0) m TYPE('a) vs T" and "item_ok it0" and "\<forall>t \<in> T. item_map it0 t = None"
  obtains a where "absorbs ty u it0 vs (it0\<lparr>item_attributes := a\<rparr>)" and "item_ok (it0\<lparr>item_attributes := a\<rparr>)"
    and "item_map (it0\<lparr>item_attributes := a\<rparr>) = override_on (item_map it0) m T"
  using assms by (auto simp: carries_def Let_def)

lemma carries_append:
  fixes ty u i m
  assumes "carries ty u i m TYPE('a) vs T" and "carries ty u i m TYPE('a) ws U" and "T \<inter> U = {}"
  shows "carries ty u i m TYPE('a) (vs @ ws) (T \<union> U)"
  unfolding carries_def Let_def
proof (intro allI impI)
  fix it0 :: "('a) Item_scheme"
  assume it0: "item_ok it0 \<and> itemId it0 = i \<and> (\<forall>t \<in> T \<union> U. item_map it0 t = None)"
  then obtain a where a: "absorbs ty u it0 vs (it0\<lparr>item_attributes := a\<rparr>)" "item_ok (it0\<lparr>item_attributes := a\<rparr>)"
    "item_map (it0\<lparr>item_attributes := a\<rparr>) = override_on (item_map it0) m T"
    using assms(1) by (auto simp: carries_def Let_def)
  have "\<forall>t \<in> U. item_map (it0\<lparr>item_attributes := a\<rparr>) t = None" using it0 a(3) assms(3) by (auto simp: override_on_def)
  with it0 a(2) obtain b where b: "absorbs ty u (it0\<lparr>item_attributes := a\<rparr>) ws (it0\<lparr>item_attributes := b\<rparr>)"
    "item_ok (it0\<lparr>item_attributes := b\<rparr>)"
    "item_map (it0\<lparr>item_attributes := b\<rparr>) = override_on (item_map (it0\<lparr>item_attributes := a\<rparr>)) m U"
    using assms(2) by (fastforce simp: carries_def Let_def)
  have "override_on (override_on (item_map it0) m T) m U = override_on (item_map it0) m (T \<union> U)"
    by (auto simp: override_on_def fun_eq_iff)
  with a b show "\<exists>a. absorbs ty u it0 (vs @ ws) (it0\<lparr>item_attributes := a\<rparr>) \<and> item_ok (it0\<lparr>item_attributes := a\<rparr>) \<and>
      item_map (it0\<lparr>item_attributes := a\<rparr>) = override_on (item_map it0) m (T \<union> U)"
    by (intro exI[of _ b]) (auto intro: absorbs_append)
qed

section \<open>The chunks of an item\<close>

text \<open>The integers that fit the fields they are written to, and that are written at all.\<close>

definition storable_int :: "ItemType \<Rightarrow> itemAttrTypes \<Rightarrow> int \<Rightarrow> bool" where
  "storable_int t a i \<longleftrightarrow>
     (if a \<in> {ITEM_ATTRIBUTE_WEIGHT, ITEM_ATTRIBUTE_CLASSIFICATION, ITEM_ATTRIBUTE_TIER} then 0 \<le> i \<and> i < 2 ^ 32
      else if a = ITEM_ATTRIBUTE_ATTACK_SPEED then 100 \<le> i \<and> i < 2 ^ 32
      else if a \<in> {ITEM_ATTRIBUTE_ATTACK, ITEM_ATTRIBUTE_DEFENSE, ITEM_ATTRIBUTE_EXTRADEFENSE, ITEM_ATTRIBUTE_ARMOR}
      then - (2 ^ 31) \<le> i \<and> i < 2 ^ 31
      else if a = ITEM_ATTRIBUTE_DATE then - (2 ^ 31) \<le> i \<and> i < 2 ^ 31 \<and> i \<noteq> 0
      else if a = ITEM_ATTRIBUTE_HITCHANCE then - (2 ^ 7) \<le> i \<and> i < 2 ^ 7
      else if a \<in> {ITEM_ATTRIBUTE_SHOOTRANGE, ITEM_ATTRIBUTE_STOREITEM} then 0 \<le> i \<and> i < 2 ^ 8
      else if a = ITEM_ATTRIBUTE_FLUIDTYPE then isFluid t \<and> 0 \<le> i \<and> i < 2 ^ 8
      else if a = ITEM_ATTRIBUTE_WRAPID then 0 \<le> i \<and> i < 2 ^ 16
      else if a = ITEM_ATTRIBUTE_CHARGES
      then type_charges t \<noteq> 0 \<and> \<not> stackable t \<and> \<not> isFluid t \<and> 0 < i \<and> i < 2 ^ 16
      else if a = ITEM_ATTRIBUTE_ACTIONID then moveable t \<and> 100 \<le> i \<and> i < 2 ^ 16
      else if a = ITEM_ATTRIBUTE_DURATION then 0 \<le> i \<and> i < 2 ^ 31
      else True)"

text \<open>Attributes that are not written, and what is read back for the others.\<close>

definition unsaved :: "itemAttrTypes set" where
  "unsaved =
     {ITEM_ATTRIBUTE_UNIQUEID, ITEM_ATTRIBUTE_OWNER, ITEM_ATTRIBUTE_CORPSEOWNER, ITEM_ATTRIBUTE_DOORID,
      ITEM_ATTRIBUTE_DURATION_TIMESTAMP, ITEM_ATTRIBUTE_REDUCESKILLLOSS, ITEM_ATTRIBUTE_DROPBONUS}"

definition saved_map :: "s64 \<Rightarrow> ('a) Item_scheme \<Rightarrow> itemAttrTypes \<Rightarrow> AttrValue option" where
  "saved_map now it t =
     (if t \<in> unsaved then None
      else if t = ITEM_ATTRIBUTE_DURATION then map_option (\<lambda>_. VInt (scast (getDuration now it))) (item_map it t)
      else if t = ITEM_ATTRIBUTE_DECAYSTATE
      then (if getDecaying it = DECAYING_TRUE \<or> getDecaying it = DECAYING_PENDING then Some (VInt (ucast DECAYING_PENDING)) else None)
      else item_map it t)"

definition storable :: "Items \<Rightarrow> ('a) Item_scheme \<Rightarrow> bool" where
  "storable ty it \<longleftrightarrow> item_ok it \<and>
     (\<forall>t i. item_map it t = Some (VInt i) \<longrightarrow> storable_int (ty (itemId it)) t (sint i)) \<and>
     (\<forall>t s. item_map it t = Some (VStr s) \<longrightarrow> length s \<le> 65535) \<and>
     (isFluid (ty (itemId it)) \<longrightarrow> item_map it ITEM_ATTRIBUTE_FLUIDTYPE \<noteq> None)"

lemma carries_int:
  assumes ok: "item_ok it" and t: "single t" "isIntAttrType t" and m: "m t = item_map it t" and "attr \<noteq> 0"
    and rd: "\<And>v (it0 :: ('b) Item_scheme) s. item_map it t = Some (VInt v) \<Longrightarrow>
      readAttr ty u attr it0 (prop_bytes (C v) @ s) = (ATTR_READ_CONTINUE, Item_setIntAttr t v it0, s) \<and> at_least_100 t v = v"
  shows "carries ty u i m TYPE('b) (write_int t attr C it) {t}"
proof (cases "item_map it t")
  case None
  then show ?thesis using ok t m by (simp add: write_int_def Item_hasAttribute_map carries_none)
next
  case (Some v)
  then obtain j where j: "v = VInt j" using int_only[OF ok t(2)] by blast
  have "carries ty u i m TYPE('b) (PByte attr # [C j]) {t}"
    using Some j m t assms(5) rd[of j] by (intro carries_chunk) (auto simp: set_is_put)
  then show ?thesis
    using ok t Some j by (simp add: write_int_def Item_hasAttribute_map Item_getIntAttr_map int_value_def)
qed

lemma carries_str:
  assumes ok: "item_ok it" and t: "single t" "isStrAttrType t" and m: "m t = item_map it t" and "attr \<noteq> 0"
    and len: "\<And>v. item_map it t = Some (VStr v) \<Longrightarrow> length v \<le> 65535"
    and rd: "readAttr ty u attr = (read_string_with (Item_setStrAttr t) :: ('b) Item_scheme \<Rightarrow> _)"
  shows "carries ty u i m TYPE('b) (write_str t attr it) {t}" and "write_text t attr it = write_str t attr it"
proof -
  have "carries ty u i m TYPE('b) (write_str t attr it) {t} \<and> write_text t attr it = write_str t attr it"
  proof (cases "item_map it t")
    case None
    then show ?thesis
      using ok t m by (simp add: write_str_def write_text_def Item_hasAttribute_map Item_getStrAttr_map str_value_def carries_none)
  next
    case (Some v)
    then obtain s where s: "v = VStr s" "s \<noteq> []" using str_only[OF ok t(2)] by blast
    have "carries ty u i m TYPE('b) (PByte attr # [PStr s]) {t}"
      using Some s m t assms(5) rd len[of s]
      by (intro carries_chunk) (auto simp: set_is_put read_string_with_bytes simp del: prop_bytes.simps)
    then show ?thesis
      using ok t Some s by (simp add: write_str_def write_text_def Item_hasAttribute_map Item_getStrAttr_map str_value_def)
  qed
  then show "carries ty u i m TYPE('b) (write_str t attr it) {t}" "write_text t attr it = write_str t attr it" by auto
qed

text \<open>An integer comes back from a field that it fits.\<close>

lemma carries_u32:
  assumes "storable ty it" "single t" "isIntAttrType t" "m t = item_map it t" "attr \<noteq> 0"
    and rd: "readAttr ty u attr = (read_with (\<lambda>v :: u32. Item_setIntAttr t (ucast v)) :: ('b) Item_scheme \<Rightarrow> _)"
    and fit: "\<And>i. storable_int (ty (itemId it)) t i \<Longrightarrow> 0 \<le> i \<and> i < 2 ^ 32 \<and> (t = ITEM_ATTRIBUTE_ATTACK_SPEED \<longrightarrow> 100 \<le> i)"
  shows "carries ty u k m TYPE('b) (write_int t attr (PU32 \<circ> ucast) it) {t}"
proof (rule carries_int)
  fix v s and it0 :: "('b) Item_scheme"
  assume v: "item_map it t = Some (VInt v)"
  have f: "storable_int (ty (itemId it)) t (sint v)" using assms(1) v by (simp add: storable_def)
  have "ucast (ucast v :: u32) = v" using fit[OF f] ucast_back[of v, where 'a = 32] by simp
  then show "readAttr ty u attr it0 (prop_bytes ((PU32 \<circ> ucast) v) @ s) = (ATTR_READ_CONTINUE, Item_setIntAttr t v it0, s) \<and>
      at_least_100 t v = v"
    using fit[OF f] by (auto simp: rd at_least_100_def simp del: prop_bytes.simps)
qed (use assms in \<open>simp_all add: storable_def\<close>)

lemma carries_s32:
  assumes "storable ty it" "single t" "isIntAttrType t" "m t = item_map it t" "attr \<noteq> 0"
    and rd: "readAttr ty u attr = (read_with (\<lambda>v :: s32. Item_setIntAttr t (scast v)) :: ('b) Item_scheme \<Rightarrow> _)"
    and fit: "\<And>i. storable_int (ty (itemId it)) t i \<Longrightarrow> - (2 ^ 31) \<le> i \<and> i < 2 ^ 31 \<and> (t = ITEM_ATTRIBUTE_ATTACK_SPEED \<longrightarrow> 100 \<le> i)"
  shows "carries ty u k m TYPE('b) (write_int t attr (PU32 \<circ> ucast) it) {t}"
proof (rule carries_int)
  fix v s and it0 :: "('b) Item_scheme"
  assume v: "item_map it t = Some (VInt v)"
  have f: "storable_int (ty (itemId it)) t (sint v)" using assms(1) v by (simp add: storable_def)
  have "scast (ucast v :: s32) = v" using fit[OF f] scast_back[of v, where 'a = 32] by simp
  then show "readAttr ty u attr it0 (prop_bytes ((PU32 \<circ> ucast) v) @ s) = (ATTR_READ_CONTINUE, Item_setIntAttr t v it0, s) \<and>
      at_least_100 t v = v"
    using fit[OF f] by (auto simp: rd at_least_100_def simp del: prop_bytes.simps)
qed (use assms in \<open>simp_all add: storable_def\<close>)

lemma carries_u16:
  assumes "storable ty it" "single t" "isIntAttrType t" "m t = item_map it t" "attr \<noteq> 0"
    and rd: "readAttr ty u attr = (read_with (\<lambda>v :: u16. Item_setIntAttr t (ucast v)) :: ('b) Item_scheme \<Rightarrow> _)"
    and fit: "\<And>i. storable_int (ty (itemId it)) t i \<Longrightarrow> 0 \<le> i \<and> i < 2 ^ 16 \<and> (t = ITEM_ATTRIBUTE_ATTACK_SPEED \<longrightarrow> 100 \<le> i)"
  shows "carries ty u k m TYPE('b) (write_int t attr (PU16 \<circ> ucast) it) {t}"
proof (rule carries_int)
  fix v s and it0 :: "('b) Item_scheme"
  assume v: "item_map it t = Some (VInt v)"
  have f: "storable_int (ty (itemId it)) t (sint v)" using assms(1) v by (simp add: storable_def)
  have "ucast (ucast v :: u16) = v" using fit[OF f] ucast_back[of v, where 'a = 16] by simp
  then show "readAttr ty u attr it0 (prop_bytes ((PU16 \<circ> ucast) v) @ s) = (ATTR_READ_CONTINUE, Item_setIntAttr t v it0, s) \<and>
      at_least_100 t v = v"
    using fit[OF f] by (auto simp: rd at_least_100_def simp del: prop_bytes.simps)
qed (use assms in \<open>simp_all add: storable_def\<close>)

lemma carries_u8:
  assumes "storable ty it" "single t" "isIntAttrType t" "m t = item_map it t" "attr \<noteq> 0"
    and rd: "readAttr ty u attr = (read_with (\<lambda>v :: u8. Item_setIntAttr t (ucast v)) :: ('b) Item_scheme \<Rightarrow> _)"
    and fit: "\<And>i. storable_int (ty (itemId it)) t i \<Longrightarrow> 0 \<le> i \<and> i < 2 ^ 8 \<and> (t = ITEM_ATTRIBUTE_ATTACK_SPEED \<longrightarrow> 100 \<le> i)"
  shows "carries ty u k m TYPE('b) (write_int t attr (PByte \<circ> ucast) it) {t}"
proof (rule carries_int)
  fix v s and it0 :: "('b) Item_scheme"
  assume v: "item_map it t = Some (VInt v)"
  have f: "storable_int (ty (itemId it)) t (sint v)" using assms(1) v by (simp add: storable_def)
  have "ucast (ucast v :: u8) = v" using fit[OF f] ucast_back[of v, where 'a = 8] by simp
  then show "readAttr ty u attr it0 (prop_bytes ((PByte \<circ> ucast) v) @ s) = (ATTR_READ_CONTINUE, Item_setIntAttr t v it0, s) \<and>
      at_least_100 t v = v"
    using fit[OF f] by (auto simp: rd at_least_100_def simp del: prop_bytes.simps)
qed (use assms in \<open>simp_all add: storable_def\<close>)

lemma carries_s8:
  assumes "storable ty it" "single t" "isIntAttrType t" "m t = item_map it t" "attr \<noteq> 0"
    and rd: "readAttr ty u attr = (read_with (\<lambda>v :: s8. Item_setIntAttr t (scast v)) :: ('b) Item_scheme \<Rightarrow> _)"
    and fit: "\<And>i. storable_int (ty (itemId it)) t i \<Longrightarrow> - (2 ^ 7) \<le> i \<and> i < 2 ^ 7 \<and> (t = ITEM_ATTRIBUTE_ATTACK_SPEED \<longrightarrow> 100 \<le> i)"
  shows "carries ty u k m TYPE('b) (write_int t attr (PByte \<circ> ucast) it) {t}"
proof (rule carries_int)
  fix v s and it0 :: "('b) Item_scheme"
  assume v: "item_map it t = Some (VInt v)"
  have f: "storable_int (ty (itemId it)) t (sint v)" using assms(1) v by (simp add: storable_def)
  have "scast (ucast v :: s8) = v" using fit[OF f] scast_back[of v, where 'a = 8] by simp
  then show "readAttr ty u attr it0 (prop_bytes ((PByte \<circ> ucast) v) @ s) = (ATTR_READ_CONTINUE, Item_setIntAttr t v it0, s) \<and>
      at_least_100 t v = v"
    using fit[OF f] by (auto simp: rd at_least_100_def simp del: prop_bytes.simps)
qed (use assms in \<open>simp_all add: storable_def\<close>)

lemma carries_unwritten:
  assumes "item_ok it"
  shows "carries ty u k m TYPE('b) (write_int ITEM_ATTRIBUTE_REWARDID attr C it) {}"
proof -
  have "item_map it ITEM_ATTRIBUTE_REWARDID = None"
  proof (rule ccontr)
    assume "item_map it ITEM_ATTRIBUTE_REWARDID \<noteq> None"
    then obtain v where "item_map it ITEM_ATTRIBUTE_REWARDID = Some v" by auto
    then have "value_ok ITEM_ATTRIBUTE_REWARDID v" using item_value[OF assms] by blast
    then show False
      by (cases v) (simp_all add: isIntAttrType_def isStrAttrType_def intAttributeTypes_def stringAttributeTypes_def ITEM_ATTRIBUTE_CUSTOM_def)
  qed
  then show ?thesis using assms by (simp add: write_int_def Item_hasAttribute_map single_types carries_none del: ITEM_ATTRIBUTE_REWARDID_def)
qed

lemmas saved_simps = readAttr_def storable_int_def saved_map_def unsaved_def

lemma carries_WEIGHT:
  "storable ty it \<Longrightarrow> carries ty u k (saved_map now it) TYPE('b) (write_int ITEM_ATTRIBUTE_WEIGHT ATTR_WEIGHT (PU32 \<circ> ucast) it) {ITEM_ATTRIBUTE_WEIGHT}"
  by (rule carries_u32) (simp_all only: single_types int_types, simp_all add: saved_simps)

lemma carries_ATTACK:
  "storable ty it \<Longrightarrow> carries ty u k (saved_map now it) TYPE('b) (write_int ITEM_ATTRIBUTE_ATTACK ATTR_ATTACK (PU32 \<circ> ucast) it) {ITEM_ATTRIBUTE_ATTACK}"
  by (rule carries_s32) (simp_all only: single_types int_types, simp_all add: saved_simps)

lemma carries_ATTACK_SPEED:
  "storable ty it \<Longrightarrow> carries ty u k (saved_map now it) TYPE('b) (write_int ITEM_ATTRIBUTE_ATTACK_SPEED ATTR_ATTACK_SPEED (PU32 \<circ> ucast) it) {ITEM_ATTRIBUTE_ATTACK_SPEED}"
  by (rule carries_u32) (simp_all only: single_types int_types, simp_all add: saved_simps)

lemma carries_CLASSIFICATION:
  "storable ty it \<Longrightarrow> carries ty u k (saved_map now it) TYPE('b) (write_int ITEM_ATTRIBUTE_CLASSIFICATION ATTR_CLASSIFICATION (PU32 \<circ> ucast) it) {ITEM_ATTRIBUTE_CLASSIFICATION}"
  by (rule carries_u32) (simp_all only: single_types int_types, simp_all add: saved_simps)

lemma carries_TIER:
  "storable ty it \<Longrightarrow> carries ty u k (saved_map now it) TYPE('b) (write_int ITEM_ATTRIBUTE_TIER ATTR_TIER (PU32 \<circ> ucast) it) {ITEM_ATTRIBUTE_TIER}"
  by (rule carries_u32) (simp_all only: single_types int_types, simp_all add: saved_simps)

lemma carries_DEFENSE:
  "storable ty it \<Longrightarrow> carries ty u k (saved_map now it) TYPE('b) (write_int ITEM_ATTRIBUTE_DEFENSE ATTR_DEFENSE (PU32 \<circ> ucast) it) {ITEM_ATTRIBUTE_DEFENSE}"
  by (rule carries_s32) (simp_all only: single_types int_types, simp_all add: saved_simps)

lemma carries_EXTRADEFENSE:
  "storable ty it \<Longrightarrow> carries ty u k (saved_map now it) TYPE('b) (write_int ITEM_ATTRIBUTE_EXTRADEFENSE ATTR_EXTRADEFENSE (PU32 \<circ> ucast) it) {ITEM_ATTRIBUTE_EXTRADEFENSE}"
  by (rule carries_s32) (simp_all only: single_types int_types, simp_all add: saved_simps)

lemma carries_ARMOR:
  "storable ty it \<Longrightarrow> carries ty u k (saved_map now it) TYPE('b) (write_int ITEM_ATTRIBUTE_ARMOR ATTR_ARMOR (PU32 \<circ> ucast) it) {ITEM_ATTRIBUTE_ARMOR}"
  by (rule carries_s32) (simp_all only: single_types int_types, simp_all add: saved_simps)

lemma carries_HITCHANCE:
  "storable ty it \<Longrightarrow> carries ty u k (saved_map now it) TYPE('b) (write_int ITEM_ATTRIBUTE_HITCHANCE ATTR_HITCHANCE (PByte \<circ> ucast) it) {ITEM_ATTRIBUTE_HITCHANCE}"
  by (rule carries_s8) (simp_all only: single_types int_types, simp_all add: saved_simps)

lemma carries_SHOOTRANGE:
  "storable ty it \<Longrightarrow> carries ty u k (saved_map now it) TYPE('b) (write_int ITEM_ATTRIBUTE_SHOOTRANGE ATTR_SHOOTRANGE (PByte \<circ> ucast) it) {ITEM_ATTRIBUTE_SHOOTRANGE}"
  by (rule carries_u8) (simp_all only: single_types int_types, simp_all add: saved_simps)

lemma carries_WRAPID:
  "storable ty it \<Longrightarrow> carries ty u k (saved_map now it) TYPE('b) (write_int ITEM_ATTRIBUTE_WRAPID ATTR_WRAPID (PU16 \<circ> ucast) it) {ITEM_ATTRIBUTE_WRAPID}"
  by (rule carries_u16) (simp_all only: single_types int_types, simp_all add: saved_simps)

lemma carries_STOREITEM:
  "storable ty it \<Longrightarrow> carries ty u k (saved_map now it) TYPE('b) (write_int ITEM_ATTRIBUTE_STOREITEM ATTR_STOREITEM (PByte \<circ> ucast) it) {ITEM_ATTRIBUTE_STOREITEM}"
  by (rule carries_u8) (simp_all only: single_types int_types, simp_all add: saved_simps)

lemma carries_string:
  assumes "storable ty it" and "single t" "isStrAttrType t" and "saved_map now it t = item_map it t" and "attr \<noteq> 0"
    and "readAttr ty u attr = (read_string_with (Item_setStrAttr t) :: ('b) Item_scheme \<Rightarrow> _)"
  shows "carries ty u k (saved_map now it) TYPE('b) (write_str t attr it) {t}"
    and "carries ty u k (saved_map now it) TYPE('b) (write_text t attr it) {t}"
proof -
  have ok: "item_ok it" "\<And>v. item_map it t = Some (VStr v) \<Longrightarrow> length v \<le> 65535"
    using assms(1) by (auto simp: storable_def)
  note str = carries_str[where m = "saved_map now it" and it = it, OF ok(1) assms(2-5) ok(2) assms(6)]
  show "carries ty u k (saved_map now it) TYPE('b) (write_str t attr it) {t}"
    "carries ty u k (saved_map now it) TYPE('b) (write_text t attr it) {t}"
    using str by simp_all
qed

lemma carries_TEXT:
  "storable ty it \<Longrightarrow> carries ty u k (saved_map now it) TYPE('b) (write_text ITEM_ATTRIBUTE_TEXT ATTR_TEXT it) {ITEM_ATTRIBUTE_TEXT}"
  by (rule carries_string(2)) (simp_all only: single_types str_types, simp_all add: saved_simps)

lemma carries_WRITER:
  "storable ty it \<Longrightarrow> carries ty u k (saved_map now it) TYPE('b) (write_text ITEM_ATTRIBUTE_WRITER ATTR_WRITTENBY it) {ITEM_ATTRIBUTE_WRITER}"
  by (rule carries_string(2)) (simp_all only: single_types str_types, simp_all add: saved_simps)

lemma carries_DESCRIPTION:
  "storable ty it \<Longrightarrow> carries ty u k (saved_map now it) TYPE('b) (write_text ITEM_ATTRIBUTE_DESCRIPTION ATTR_DESC it) {ITEM_ATTRIBUTE_DESCRIPTION}"
  by (rule carries_string(2)) (simp_all only: single_types str_types, simp_all add: saved_simps)

lemma carries_NAME:
  "storable ty it \<Longrightarrow> carries ty u k (saved_map now it) TYPE('b) (write_str ITEM_ATTRIBUTE_NAME ATTR_NAME it) {ITEM_ATTRIBUTE_NAME}"
  by (rule carries_string(1)) (simp_all only: single_types str_types, simp_all add: saved_simps)

lemma carries_ARTICLE:
  "storable ty it \<Longrightarrow> carries ty u k (saved_map now it) TYPE('b) (write_str ITEM_ATTRIBUTE_ARTICLE ATTR_ARTICLE it) {ITEM_ATTRIBUTE_ARTICLE}"
  by (rule carries_string(1)) (simp_all only: single_types str_types, simp_all add: saved_simps)

lemma carries_PLURALNAME:
  "storable ty it \<Longrightarrow> carries ty u k (saved_map now it) TYPE('b) (write_str ITEM_ATTRIBUTE_PLURALNAME ATTR_PLURALNAME it) {ITEM_ATTRIBUTE_PLURALNAME}"
  by (rule carries_string(1)) (simp_all only: single_types str_types, simp_all add: saved_simps)

text \<open>The chunks that are written under a condition of their own.\<close>

lemma storable_value:
  assumes "storable ty it" and "isIntAttrType t"
  shows "item_map it t = None \<or> (\<exists>i. item_map it t = Some (VInt i) \<and> storable_int (ty (itemId it)) t (sint i))"
proof (cases "item_map it t")
  case (Some v)
  then obtain i where "v = VInt i" using assms int_only[of it t v] by (auto simp: storable_def)
  with Some assms(1) show ?thesis by (auto simp: storable_def)
qed simp

lemma storable_get:
  "storable ty it \<Longrightarrow> single t \<Longrightarrow> isIntAttrType t \<Longrightarrow> Item_getIntAttr t it = int_value (item_map it t)"
  by (simp add: storable_def Item_getIntAttr_map)

lemma ucast_nonzero:
  assumes "0 < sint (i :: s64)" and "sint i < 2 ^ LENGTH('a)"
  shows "(ucast i :: 'a::len word) \<noteq> 0"
  using ucast_back[of i, where 'a = 'a] assms by auto

lemma carries_CHARGES:
  assumes "storable ty it"
  shows "carries ty u (itemId it) (saved_map now it) TYPE('b)
     (if getCharges it \<noteq> 0 then [PByte ATTR_CHARGES, PU16 (getCharges it)] else []) {ITEM_ATTRIBUTE_CHARGES}"
  using storable_value[OF assms int_types(12)]
proof (elim disjE exE conjE)
  assume "item_map it ITEM_ATTRIBUTE_CHARGES = None"
  then show ?thesis
    using storable_get[OF assms single_types(12) int_types(12)]
    by (simp add: getCharges_def int_value_def carries_none saved_simps)
next
  fix i assume i: "item_map it ITEM_ATTRIBUTE_CHARGES = Some (VInt i)" "storable_int (ty (itemId it)) ITEM_ATTRIBUTE_CHARGES (sint i)"
  have f: "type_charges (ty (itemId it)) \<noteq> 0" "\<not> stackable (ty (itemId it))" "\<not> isFluid (ty (itemId it))" "0 < sint i" "sint i < 2 ^ 16"
    using i(2) by (simp_all add: storable_int_def)
  have "carries ty u (itemId it) (saved_map now it) TYPE('b) (PByte ATTR_CHARGES # [PU16 (ucast i)]) {ITEM_ATTRIBUTE_CHARGES}"
  proof (rule carries_chunk[where v = "VInt i"])
    fix it0 :: "('b) Item_scheme" and s assume "itemId it0 = itemId it"
    then show "readAttr ty u ATTR_CHARGES it0 (enc_all prop_bytes [PU16 (ucast i)] @ s) =
        (ATTR_READ_CONTINUE, on_attributes (put_attr ITEM_ATTRIBUTE_CHARGES (VInt i)) it0, s)"
      using f ucast_back[of i, where 'a = 16]
      by (simp add: readAttr_def setSubType_def setCharges_def set_is_put(1)[OF int_types(12), simplified] at_least_100_def
          del: prop_bytes.simps)
  qed (use i single_types(12) int_types(12) in \<open>simp_all add: saved_simps\<close>)
  then show ?thesis
    using i f storable_get[OF assms single_types(12) int_types(12)] ucast_nonzero[of i, where 'a = 16]
    by (simp add: getCharges_def int_value_def)
qed

lemma carries_ACTIONID:
  assumes "storable ty it"
  shows "carries ty u k (saved_map now it) TYPE('b)
     (if moveable (ty (itemId it)) \<and> getActionId it \<noteq> 0 then [PByte ATTR_ACTION_ID, PU16 (getActionId it)] else [])
     {ITEM_ATTRIBUTE_ACTIONID}"
  using storable_value[OF assms int_types(1)]
proof (elim disjE exE conjE)
  assume "item_map it ITEM_ATTRIBUTE_ACTIONID = None"
  then show ?thesis
    using storable_get[OF assms single_types(1) int_types(1)]
    by (simp add: getActionId_def int_value_def carries_none saved_simps)
next
  fix i assume i: "item_map it ITEM_ATTRIBUTE_ACTIONID = Some (VInt i)" "storable_int (ty (itemId it)) ITEM_ATTRIBUTE_ACTIONID (sint i)"
  have f: "moveable (ty (itemId it))" "100 \<le> sint i" "sint i < 2 ^ 16"
    using i(2) by (simp_all add: storable_int_def)
  have b: "ucast (ucast i :: u16) = i" using f ucast_back[of i, where 'a = 16] by simp
  have "\<not> (ucast i :: u16) < 100"
  proof
    assume "(ucast i :: u16) < 100"
    then have "uint (ucast i :: u16) < 100" by (simp add: word_less_def)
    moreover have "uint i = sint i" using f uint_take_sint[of i] by (simp add: take_bit_int_eq_self)
    then have "uint (ucast i :: u16) = sint i" using f by (simp add: unsigned_ucast_eq take_bit_int_eq_self)
    ultimately show False using f by simp
  qed
  then have "carries ty u k (saved_map now it) TYPE('b) (PByte ATTR_ACTION_ID # [PU16 (ucast i)]) {ITEM_ATTRIBUTE_ACTIONID}"
    using i single_types(1) int_types(1) b
    by (intro carries_chunk[where v = "VInt i"])
      (simp_all add: saved_simps setActionId_def set_is_put(1)[OF int_types(1), simplified] at_least_100_def del: prop_bytes.simps)
  then show ?thesis
    using i f storable_get[OF assms single_types(1) int_types(1)] ucast_nonzero[of i, where 'a = 16]
    by (simp add: getActionId_def int_value_def)
qed

lemma carries_DATE:
  assumes "storable ty it"
  shows "carries ty u k (saved_map now it) TYPE('b)
     (if Item_getIntAttr ITEM_ATTRIBUTE_DATE it \<noteq> 0
      then [PByte ATTR_WRITTENDATE, PU32 (ucast (Item_getIntAttr ITEM_ATTRIBUTE_DATE it))] else []) {ITEM_ATTRIBUTE_DATE}"
  using storable_value[OF assms int_types(2)]
proof (elim disjE exE conjE)
  assume "item_map it ITEM_ATTRIBUTE_DATE = None"
  then show ?thesis
    using storable_get[OF assms single_types(2) int_types(2)]
    by (simp add: int_value_def carries_none saved_simps)
next
  fix i assume i: "item_map it ITEM_ATTRIBUTE_DATE = Some (VInt i)" "storable_int (ty (itemId it)) ITEM_ATTRIBUTE_DATE (sint i)"
  have f: "- (2 ^ 31) \<le> sint i" "sint i < 2 ^ 31" "i \<noteq> 0"
    using i(2) by (auto simp: storable_int_def)
  have "carries ty u k (saved_map now it) TYPE('b) (PByte ATTR_WRITTENDATE # [PU32 (ucast i)]) {ITEM_ATTRIBUTE_DATE}"
    using i f single_types(2) int_types(2) scast_back[of i, where 'a = 32]
    by (intro carries_chunk[where v = "VInt i"])
      (simp_all add: saved_simps setDate_def set_is_put(1)[OF int_types(2), simplified] at_least_100_def del: prop_bytes.simps)
  then show ?thesis
    using i f storable_get[OF assms single_types(2) int_types(2)] by (simp add: int_value_def)
qed

lemma getDuration_nonneg:
  assumes "storable ty it" and "item_map it ITEM_ATTRIBUTE_DURATION = Some v"
  shows "\<not> sint (getDuration now it) < 0"
proof (cases "getDecaying it = DECAYING_TRUE \<or> getDecaying it = DECAYING_STOPPING")
  case False
  from storable_value[OF assms(1) int_types(10)] assms(2) obtain i where i: "v = VInt i"
    "storable_int (ty (itemId it)) ITEM_ATTRIBUTE_DURATION (sint i)" by auto
  then have "sint (ucast i :: s32) = sint i"
    by (simp add: storable_int_def signed_ucast_eq uint_take_sint signed_take_bit_take_bit signed_take_bit_int_eq_self)
  with False i storable_get[OF assms(1) single_types(10) int_types(10)] assms(2) show ?thesis
    by (simp add: getDuration_def int_value_def storable_int_def)
qed (auto simp: getDuration_def Let_def)

lemma carries_DURATION:
  assumes "storable ty it"
  shows "carries ty u k (saved_map now it) TYPE('b)
     (if Item_hasAttribute ITEM_ATTRIBUTE_DURATION it then [PByte ATTR_DURATION, PU32 (getDuration now it)] else [])
     {ITEM_ATTRIBUTE_DURATION}"
proof -
  have ok: "item_ok it" using assms by (simp add: storable_def)
  show ?thesis
  proof (cases "item_map it ITEM_ATTRIBUTE_DURATION")
    case None
    then show ?thesis using Item_hasAttribute_map[OF ok single_types(10)] by (simp add: carries_none saved_simps)
  next
    case (Some v)
    have "carries ty u k (saved_map now it) TYPE('b) (PByte ATTR_DURATION # [PU32 (getDuration now it)]) {ITEM_ATTRIBUTE_DURATION}"
      using Some single_types(10) int_types(10) getDuration_nonneg[OF assms Some, of now]
      by (intro carries_chunk[where v = "VInt (scast (getDuration now it))"])
        (simp_all add: saved_simps setDuration_def set_is_put(1)[OF int_types(10), simplified] at_least_100_def del: prop_bytes.simps)
    then show ?thesis using Some Item_hasAttribute_map[OF ok single_types(10)] by simp
  qed
qed

lemma carries_DECAYSTATE:
  "carries ty u k (saved_map now it) TYPE('b)
     (if getDecaying it = DECAYING_TRUE \<or> getDecaying it = DECAYING_PENDING
      then [PByte ATTR_DECAYING_STATE, PByte (getDecaying it)] else []) {ITEM_ATTRIBUTE_DECAYSTATE}"
proof (cases "getDecaying it = DECAYING_TRUE \<or> getDecaying it = DECAYING_PENDING")
  case True
  have "carries ty u k (saved_map now it) TYPE('b) (PByte ATTR_DECAYING_STATE # [PByte (getDecaying it)]) {ITEM_ATTRIBUTE_DECAYSTATE}"
    using True single_types(11) int_types(11)
    by (intro carries_chunk[where v = "VInt (ucast DECAYING_PENDING)"])
      (auto simp: saved_simps setDecaying_def set_is_put(1)[OF int_types(11), simplified] at_least_100_def simp del: prop_bytes.simps)
  then show ?thesis using True by auto
next
  case False
  then show ?thesis by (simp add: carries_none saved_simps)
qed

section \<open>Groups of chunks\<close>

definition count_chunk :: "Items \<Rightarrow> ('a) Item_scheme \<Rightarrow> prop_value list" where
  "count_chunk ty it =
     (let t = ty (itemId it) in if stackable t \<or> isFluid t then [PByte ATTR_COUNT, PByte (ucast (getSubType ty it))] else [])"

definition front_chunks :: "Items \<Rightarrow> s64 \<Rightarrow> ('a) Item_scheme \<Rightarrow> prop_value list" where
  "front_chunks ty now it =
     (if getCharges it \<noteq> 0 then [PByte ATTR_CHARGES, PU16 (getCharges it)] else []) @
     (if moveable (ty (itemId it)) \<and> getActionId it \<noteq> 0 then [PByte ATTR_ACTION_ID, PU16 (getActionId it)] else []) @
     write_text ITEM_ATTRIBUTE_TEXT ATTR_TEXT it @
     (if Item_getIntAttr ITEM_ATTRIBUTE_DATE it \<noteq> 0
      then [PByte ATTR_WRITTENDATE, PU32 (ucast (Item_getIntAttr ITEM_ATTRIBUTE_DATE it))] else []) @
     write_text ITEM_ATTRIBUTE_WRITER ATTR_WRITTENBY it @
     write_text ITEM_ATTRIBUTE_DESCRIPTION ATTR_DESC it @
     (if Item_hasAttribute ITEM_ATTRIBUTE_DURATION it then [PByte ATTR_DURATION, PU32 (getDuration now it)] else []) @
     (if getDecaying it = DECAYING_TRUE \<or> getDecaying it = DECAYING_PENDING
      then [PByte ATTR_DECAYING_STATE, PByte (getDecaying it)] else []) @
     write_str ITEM_ATTRIBUTE_NAME ATTR_NAME it @
     write_str ITEM_ATTRIBUTE_ARTICLE ATTR_ARTICLE it @
     write_str ITEM_ATTRIBUTE_PLURALNAME ATTR_PLURALNAME it @
     write_int ITEM_ATTRIBUTE_WEIGHT ATTR_WEIGHT (PU32 \<circ> ucast) it @
     write_int ITEM_ATTRIBUTE_ATTACK ATTR_ATTACK (PU32 \<circ> ucast) it @
     write_int ITEM_ATTRIBUTE_ATTACK_SPEED ATTR_ATTACK_SPEED (PU32 \<circ> ucast) it @
     write_int ITEM_ATTRIBUTE_CLASSIFICATION ATTR_CLASSIFICATION (PU32 \<circ> ucast) it @
     write_int ITEM_ATTRIBUTE_TIER ATTR_TIER (PU32 \<circ> ucast) it @
     write_int ITEM_ATTRIBUTE_REWARDID ATTR_REWARDID (PU32 \<circ> ucast) it @
     write_int ITEM_ATTRIBUTE_DEFENSE ATTR_DEFENSE (PU32 \<circ> ucast) it"

definition imbuement_chunks :: "bool \<Rightarrow> ('a) Item_scheme \<Rightarrow> prop_value list" where
  "imbuement_chunks system it =
     (if getImbuementSlots system it > 0 then [PByte ATTR_IMBUESLOTS, PU32 (ucast (imbuementSlots it))] else []) @
     (if imbuements it \<noteq> []
      then [PByte ATTR_IMBUEMENTS, PU16 (of_nat (length (imbuements it)))] @ concat (map Imbuement_serialize (imbuements it))
      else [])"

definition back_chunks :: "('a) Item_scheme \<Rightarrow> prop_value list" where
  "back_chunks it =
     write_int ITEM_ATTRIBUTE_EXTRADEFENSE ATTR_EXTRADEFENSE (PU32 \<circ> ucast) it @
     write_int ITEM_ATTRIBUTE_ARMOR ATTR_ARMOR (PU32 \<circ> ucast) it @
     write_int ITEM_ATTRIBUTE_HITCHANCE ATTR_HITCHANCE (PByte \<circ> ucast) it @
     write_int ITEM_ATTRIBUTE_SHOOTRANGE ATTR_SHOOTRANGE (PByte \<circ> ucast) it @
     write_int ITEM_ATTRIBUTE_WRAPID ATTR_WRAPID (PU16 \<circ> ucast) it @
     write_int ITEM_ATTRIBUTE_STOREITEM ATTR_STOREITEM (PByte \<circ> ucast) it"

definition custom_chunk :: "('a) Item_scheme \<Rightarrow> prop_value list" where
  "custom_chunk it =
     (case (case item_attributes it of None \<Rightarrow> None | Some a \<Rightarrow> getCustomAttributeMap a) of
        None \<Rightarrow> []
      | Some m \<Rightarrow>
          [PByte ATTR_CUSTOM_ATTRIBUTES, PU64 (of_nat (length m))] @
          concat (map (\<lambda>(k, v). PStr k # CustomAttribute_serialize v) m))"

lemma serializeAttr_chunks:
  "serializeAttr ty system now it =
     fold write_value (count_chunk ty it @ front_chunks ty now it @ imbuement_chunks system it @ back_chunks it @ custom_chunk it)"
  unfolding serializeAttr_def count_chunk_def front_chunks_def imbuement_chunks_def back_chunks_def custom_chunk_def Let_def
  by (simp only: append_assoc)

definition front_types :: "itemAttrTypes set" where
  "front_types =
     {ITEM_ATTRIBUTE_CHARGES, ITEM_ATTRIBUTE_ACTIONID, ITEM_ATTRIBUTE_TEXT, ITEM_ATTRIBUTE_DATE, ITEM_ATTRIBUTE_WRITER,
      ITEM_ATTRIBUTE_DESCRIPTION, ITEM_ATTRIBUTE_DURATION, ITEM_ATTRIBUTE_DECAYSTATE, ITEM_ATTRIBUTE_NAME,
      ITEM_ATTRIBUTE_ARTICLE, ITEM_ATTRIBUTE_PLURALNAME, ITEM_ATTRIBUTE_WEIGHT, ITEM_ATTRIBUTE_ATTACK,
      ITEM_ATTRIBUTE_ATTACK_SPEED, ITEM_ATTRIBUTE_CLASSIFICATION, ITEM_ATTRIBUTE_TIER, ITEM_ATTRIBUTE_DEFENSE}"

definition back_types :: "itemAttrTypes set" where
  "back_types =
     {ITEM_ATTRIBUTE_EXTRADEFENSE, ITEM_ATTRIBUTE_ARMOR, ITEM_ATTRIBUTE_HITCHANCE, ITEM_ATTRIBUTE_SHOOTRANGE,
      ITEM_ATTRIBUTE_WRAPID, ITEM_ATTRIBUTE_STOREITEM}"

lemma carries_cong: "carries ty u k m TYPE('b) vs T \<Longrightarrow> T = T' \<Longrightarrow> carries ty u k m TYPE('b) vs T'"
  by simp

lemma carries_front:
  assumes "storable ty it"
  shows "carries ty u (itemId it) (saved_map now it) TYPE('b) (front_chunks ty now it) front_types"
proof -
  have ok: "item_ok it" using assms by (simp add: storable_def)
  note laws = carries_CHARGES[OF assms]
    carries_ACTIONID[OF assms]
    carries_TEXT[OF assms]
    carries_DATE[OF assms]
    carries_WRITER[OF assms]
    carries_DESCRIPTION[OF assms]
    carries_DURATION[OF assms]
    carries_DECAYSTATE
    carries_NAME[OF assms]
    carries_ARTICLE[OF assms]
    carries_PLURALNAME[OF assms]
    carries_WEIGHT[OF assms]
    carries_ATTACK[OF assms]
    carries_ATTACK_SPEED[OF assms]
    carries_CLASSIFICATION[OF assms]
    carries_TIER[OF assms]
    carries_unwritten[OF ok]
    carries_DEFENSE[OF assms]
  show ?thesis unfolding front_chunks_def front_types_def
    by (rule carries_cong, (rule carries_append laws)+) (simp_all, blast)
qed

lemma carries_back:
  assumes "storable ty it"
  shows "carries ty u k (saved_map now it) TYPE('b) (back_chunks it) back_types"
proof -
  note laws = carries_EXTRADEFENSE[OF assms]
    carries_ARMOR[OF assms]
    carries_HITCHANCE[OF assms]
    carries_SHOOTRANGE[OF assms]
    carries_WRAPID[OF assms]
    carries_STOREITEM[OF assms]
  show ?thesis unfolding back_chunks_def back_types_def
    by (rule carries_cong, (rule carries_append laws)+) (simp_all, blast)
qed

lemma absorbs_count:
  fixes it0 :: "('b) Item_scheme"
  assumes st: "storable ty it" and it0: "item_ok it0" "itemId it0 = itemId it" "item_map it0 = Map.empty"
  obtains a where "absorbs ty u it0 (count_chunk ty it)
      (it0\<lparr>item_attributes := a, item_count := if stackable (ty (itemId it)) \<and> \<not> isFluid (ty (itemId it)) then item_count it else item_count it0\<rparr>)"
    and "item_ok (it0\<lparr>item_attributes := a\<rparr>)"
    and "item_map (it0\<lparr>item_attributes := a\<rparr>) = override_on Map.empty (saved_map now it) {ITEM_ATTRIBUTE_FLUIDTYPE}"
proof (cases "isFluid (ty (itemId it))")
  case True
  with storable_value[OF st int_types(13)] obtain i where i: "item_map it ITEM_ATTRIBUTE_FLUIDTYPE = Some (VInt i)"
    "0 \<le> sint i" "sint i < 2 ^ 8" using st by (auto simp: storable_def storable_int_def)
  have b: "ucast (ucast i :: u8) = i" using i ucast_back[of i, where 'a = 8] by simp
  have "ucast (ucast (ucast i :: u8) :: u16) = (ucast (ucast i :: u8) :: s64)" "ucast (ucast i :: u16) = (ucast i :: u8)"
    by (rule bit_word_eqI; auto simp: bit_simps)+
  with b have c: "ucast (ucast (ucast i :: u8) :: u16) = i" "ucast (ucast i :: u16) = (ucast i :: u8)" by simp_all
  have "carries ty u (itemId it) (saved_map now it) TYPE('b) (PByte ATTR_COUNT # [PByte (ucast i)]) {ITEM_ATTRIBUTE_FLUIDTYPE}"
    using i single_types(13) int_types(13) True c
    by (intro carries_chunk[where v = "VInt i"])
      (simp_all add: saved_simps setSubType_def setFluidType_def set_is_put(1)[OF int_types(13), simplified] at_least_100_def
        del: prop_bytes.simps)
  moreover have "count_chunk ty it = PByte ATTR_COUNT # [PByte (ucast i)]"
    using True i c storable_get[OF st single_types(13) int_types(13)]
    by (simp add: count_chunk_def getSubType_def getFluidType_def int_value_def)
  ultimately have "carries ty u (itemId it0) (saved_map now it) TYPE('b) (count_chunk ty it) {ITEM_ATTRIBUTE_FLUIDTYPE}"
    using it0(2) by simp
  then obtain a where a: "absorbs ty u it0 (count_chunk ty it) (it0\<lparr>item_attributes := a\<rparr>)" "item_ok (it0\<lparr>item_attributes := a\<rparr>)"
    "item_map (it0\<lparr>item_attributes := a\<rparr>) = override_on (item_map it0) (saved_map now it) {ITEM_ATTRIBUTE_FLUIDTYPE}"
    by (rule carriesE) (use it0 in simp_all)
  moreover have "it0\<lparr>item_attributes := a, item_count := item_count it0\<rparr> = it0\<lparr>item_attributes := a\<rparr>" by simp
  ultimately show ?thesis using that[of a] True it0(3) by simp
next
  case False
  have n: "saved_map now it ITEM_ATTRIBUTE_FLUIDTYPE = None"
    using storable_value[OF st int_types(13)] False by (auto simp: saved_simps)
  have "absorbs ty u it0 (count_chunk ty it)
      (it0\<lparr>item_attributes := item_attributes it0, item_count := if stackable (ty (itemId it)) then item_count it else item_count it0\<rparr>)"
  proof (cases "stackable (ty (itemId it))")
    case True
    have "absorbs ty u it0 (PByte ATTR_COUNT # [PByte (item_count it)]) (it0\<lparr>item_count := item_count it\<rparr>)"
      using True False it0 by (intro absorbs_chunk) (simp_all add: readAttr_def setSubType_def setItemCount_def del: prop_bytes.simps)
    then show ?thesis using True False by (simp add: count_chunk_def getSubType_def)
  qed (use False in \<open>simp add: count_chunk_def absorbs_Nil\<close>)
  then show ?thesis using that[of "item_attributes it0"] it0 False n by (auto simp: override_on_def fun_eq_iff)
qed

section \<open>Imbuements\<close>

lemma prop_read_u32 [simp]: "prop_read (prop_bytes (PU32 w) @ s) = (Some w, s)"
  using prop_read_bytes[where 'a = 32, of 4] by (simp del: le_bytes.simps)

lemma Imbuement_roundtrip:
  "Imbuement_unserialize (enc_all prop_bytes (Imbuement_serialize imb) @ s) = (Some imb, s)"
  by (simp add: Imbuement_unserialize_def Imbuement_serialize_def unpack_decay del: prop_bytes.simps)

lemma read_imbuements_bytes:
  "length (imbuements it0) + length is \<le> unat (imbuementSlots it0) \<Longrightarrow>
   read_imbuements (length is) it0 (enc_all prop_bytes (concat (map Imbuement_serialize is)) @ s) =
     (ATTR_READ_CONTINUE, it0\<lparr>imbuements := imbuements it0 @ is\<rparr>, s)"
proof (induction "is" arbitrary: it0)
  case (Cons x xs)
  have "imbuementSlots it0 > 0" using Cons.prems by (simp add: word_greater_zero_iff unat_eq_0[symmetric] del: unat_eq_0)
  then have "addImbuement x it0 = it0\<lparr>imbuements := imbuements it0 @ [x]\<rparr>" using Cons.prems by (simp add: addImbuement_def)
  with Cons show ?case by (simp add: Imbuement_roundtrip)
qed simp

definition kept_slots :: "bool \<Rightarrow> ('a) Item_scheme \<Rightarrow> ('b) Item_scheme \<Rightarrow> u16" where
  "kept_slots system it it0 = (if system \<and> imbuementSlots it > 0 then imbuementSlots it else imbuementSlots it0)"

lemma absorbs_imbuements:
  assumes "length (imbuements it) \<le> unat (kept_slots system it it0)" and "imbuements it0 = []"
  shows "absorbs ty u it0 (imbuement_chunks system it) (it0\<lparr>imbuementSlots := kept_slots system it it0, imbuements := imbuements it\<rparr>)"
  unfolding imbuement_chunks_def
proof (rule absorbs_append)
  let ?it1 = "it0\<lparr>imbuementSlots := kept_slots system it it0\<rparr>"
  show "absorbs ty u it0 (if getImbuementSlots system it > 0 then [PByte ATTR_IMBUESLOTS, PU32 (ucast (imbuementSlots it))] else []) ?it1"
    by (auto simp: getImbuementSlots_def kept_slots_def absorbs_Nil readAttr_def intro!: absorbs_chunk simp del: prop_bytes.simps)
  have unchanged: "it0\<lparr>imbuementSlots := w, imbuements := []\<rparr> = it0\<lparr>imbuementSlots := w\<rparr>" for w
    using assms(2) by (cases it0) simp
  have n: "unat (of_nat (length (imbuements it)) :: u16) = length (imbuements it)"
    using assms(1) unsigned_less[of "kept_slots system it it0", where 'a = nat] by (intro unat_of_nat_lt) simp
  have "absorbs ty u ?it1 (PByte ATTR_IMBUEMENTS # PU16 (of_nat (length (imbuements it))) # concat (map Imbuement_serialize (imbuements it)))
      (?it1\<lparr>imbuements := imbuements it\<rparr>)"
    using prop_read_bytes[where 'a = 16, of 2] read_imbuements_bytes[of ?it1 "imbuements it"] assms n
    by (intro absorbs_chunk) (simp_all add: readAttr_def read_counted_def del: le_bytes.simps)
  then show "absorbs ty u ?it1
      (if imbuements it \<noteq> []
       then [PByte ATTR_IMBUEMENTS, PU16 (of_nat (length (imbuements it)))] @ concat (map Imbuement_serialize (imbuements it))
       else []) (it0\<lparr>imbuementSlots := kept_slots system it it0, imbuements := imbuements it\<rparr>)"
    using assms(2) absorbs_Nil[of ty u ?it1] by (cases "imbuements it = []") (simp_all add: unchanged)
qed

section \<open>Custom attributes\<close>

fun custom_ok :: "CustomAttribute \<Rightarrow> bool" where
  "custom_ok (CStr s) \<longleftrightarrow> length s \<le> 65535"
| "custom_ok _ \<longleftrightarrow> True"

definition customs_ok :: "(u8 list \<times> CustomAttribute) list \<Rightarrow> bool" where
  "customs_ok m \<longleftrightarrow> (\<forall>(k, v) \<in> set m. length k \<le> 65535 \<and> custom_ok v)"

lemma CustomAttribute_roundtrip:
  "custom_ok v \<Longrightarrow> CustomAttribute_unserialize (enc_all prop_bytes (CustomAttribute_serialize v) @ s) = (Some v, s)"
  using prop_read_bytes[where 'a = 8, of 1] prop_read_bytes[where 'a = 64, of 8] readString_bytes
  by (cases v) (simp_all add: CustomAttribute_unserialize_def del: le_bytes.simps)

definition set_customs :: "(u8 list \<times> CustomAttribute) list \<Rightarrow> ('a) Item_scheme \<Rightarrow> ('a) Item_scheme" where
  "set_customs m = fold (\<lambda>(k, v). Item_setCustomAttribute k v) m"

lemma read_customs_bytes:
  "customs_ok m \<Longrightarrow>
   read_customs (length m) it0 (enc_all prop_bytes (concat (map (\<lambda>(k, v). PStr k # CustomAttribute_serialize v) m)) @ s) =
     (ATTR_READ_CONTINUE, set_customs m it0, s)"
proof (induction m arbitrary: it0)
  case (Cons x xs)
  obtain k v where x: "x = (k, v)" by (cases x)
  with Cons show ?case
    by (simp add: customs_ok_def set_customs_def readString_bytes CustomAttribute_roundtrip del: prop_bytes.simps)
qed (simp add: set_customs_def)

definition item_custom :: "('a) Item_scheme \<Rightarrow> u8 list \<Rightarrow> CustomAttribute option" where
  "item_custom it = (case item_attributes it of None \<Rightarrow> Map.empty | Some a \<Rightarrow> custom_map a)"

lemma getAttributes_ok:
  assumes "item_ok it"
  shows "attributes_ok (getAttributes it)" and "attr_map (getAttributes it) = item_map it"
    and "custom_map (getAttributes it) = item_custom it"
  using assms new_ok
  by (auto simp: item_ok_def getAttributes_def item_map_def item_custom_def attr_map_def custom_map_def new_ItemAttributes_def
      split: option.splits)

lemma set_custom_one:
  assumes "item_ok it"
  shows "item_ok (Item_setCustomAttribute k v it)"
    and "item_custom (Item_setCustomAttribute k v it) = (item_custom it)(asLowerCaseBytes k \<mapsto> v)"
    and "t \<noteq> ITEM_ATTRIBUTE_CUSTOM \<Longrightarrow> item_map (Item_setCustomAttribute k v it) t = item_map it t"
  using setCustomAttribute_map[where k = k and v = v, OF getAttributes_ok(1)[OF assms]] getAttributes_ok[OF assms]
  by (simp_all add: Item_setCustomAttribute_def on_attributes_def item_ok_def item_custom_def item_map_def)

lemma set_customs_map:
  assumes "item_ok it0" and "lower_keys m"
  shows "item_ok (set_customs m it0)" and "item_custom (set_customs m it0) = item_custom it0 ++ map_of m"
    and "t \<noteq> ITEM_ATTRIBUTE_CUSTOM \<Longrightarrow> item_map (set_customs m it0) t = item_map it0 t"
    and "\<exists>a. set_customs m it0 = it0\<lparr>item_attributes := a\<rparr>"
proof -
  have "item_ok (set_customs m it0) \<and> item_custom (set_customs m it0) = item_custom it0 ++ map_of m \<and>
      (\<forall>t. t \<noteq> ITEM_ATTRIBUTE_CUSTOM \<longrightarrow> item_map (set_customs m it0) t = item_map it0 t) \<and>
      (\<exists>a. set_customs m it0 = it0\<lparr>item_attributes := a\<rparr>)"
    using assms
  proof (induction m arbitrary: it0)
    case Nil
    then show ?case by (auto simp: set_customs_def intro: exI[of _ "item_attributes it0"])
  next
    case (Cons x xs)
    obtain k v where x: "x = (k, v)" by (cases x)
    let ?it1 = "Item_setCustomAttribute k v it0"
    have k: "asLowerCaseBytes k = k" "k \<notin> dom (map_of xs)" "lower_keys xs"
      using Cons.prems(2) x by (auto simp: lower_keys_def dom_map_of_conv_image_fst)
    note one = set_custom_one[where k = k and v = v, OF Cons.prems(1)]
    have ih: "item_ok (set_customs xs ?it1) \<and> item_custom (set_customs xs ?it1) = item_custom ?it1 ++ map_of xs \<and>
        (\<forall>t. t \<noteq> ITEM_ATTRIBUTE_CUSTOM \<longrightarrow> item_map (set_customs xs ?it1) t = item_map ?it1 t) \<and>
        (\<exists>a. set_customs xs ?it1 = ?it1\<lparr>item_attributes := a\<rparr>)"
      using Cons.IH[OF one(1) k(3)] .
    have "(item_custom it0)(k \<mapsto> v) ++ map_of xs = item_custom it0 ++ map_of (x # xs)"
      using k(2) x by (auto simp: fun_eq_iff map_add_def split: option.splits)
    moreover have "?it1\<lparr>item_attributes := a\<rparr> = it0\<lparr>item_attributes := a\<rparr>" for a
      by (simp add: Item_setCustomAttribute_def on_attributes_def)
    moreover have "set_customs (x # xs) it0 = set_customs xs ?it1" by (simp add: set_customs_def x)
    ultimately show ?case using ih one k(1) by (auto simp del: map_of.simps)
  qed
  then show "item_ok (set_customs m it0)" "item_custom (set_customs m it0) = item_custom it0 ++ map_of m"
    "t \<noteq> ITEM_ATTRIBUTE_CUSTOM \<Longrightarrow> item_map (set_customs m it0) t = item_map it0 t"
    "\<exists>a. set_customs m it0 = it0\<lparr>item_attributes := a\<rparr>" by auto
qed

lemma no_customs: "attributes_ok a \<Longrightarrow> attr_map a ITEM_ATTRIBUTE_CUSTOM = None \<Longrightarrow> getCustomAttributeMap a = None"
  using getCustomAttributeMap_cases[of a] by simp

text \<open>The chunk of the custom attributes.\<close>

lemma absorbs_customs:
  assumes "item_ok it" and "item_ok it0" and "item_custom it0 = Map.empty"
    and c: "\<forall>m. item_map it ITEM_ATTRIBUTE_CUSTOM = Some (VCustom m) \<longrightarrow> customs_ok m \<and> length m < 2 ^ 64"
  obtains a where "absorbs ty u it0 (custom_chunk it) (it0\<lparr>item_attributes := a\<rparr>)" and "item_ok (it0\<lparr>item_attributes := a\<rparr>)"
    and "item_custom (it0\<lparr>item_attributes := a\<rparr>) = item_custom it"
    and "\<forall>t. t \<noteq> ITEM_ATTRIBUTE_CUSTOM \<longrightarrow> item_map (it0\<lparr>item_attributes := a\<rparr>) t = item_map it0 t"
proof (cases "item_map it ITEM_ATTRIBUTE_CUSTOM")
  case None
  then have "custom_chunk it = []" "item_custom it = Map.empty"
    using assms(1) no_customs
    by (auto simp: custom_chunk_def item_ok_def item_map_def item_custom_def custom_map_def split: option.splits)
  then show ?thesis using that[of "item_attributes it0"] assms(2,3) by (simp add: absorbs_Nil)
next
  case (Some v)
  then obtain b where b: "item_attributes it = Some b" "attributes_ok b" "attr_map b ITEM_ATTRIBUTE_CUSTOM = Some v"
    using assms(1) by (auto simp: item_map_def item_ok_def split: option.splits)
  then obtain m where m: "v = VCustom m" "getCustomAttributeMap b = Some m" "lower_keys m"
    using getCustomAttributeMap_cases[OF b(2)] by auto
  have ok: "customs_ok m" "length m < 2 ^ 64" using c Some m by auto
  have "item_custom it = map_of m" using b m by (simp add: item_custom_def custom_map_def)
  moreover have "unat (of_nat (length m) :: u64) = length m" using ok(2) by (intro unat_of_nat_lt) simp
  then have "absorbs ty u it0 (PByte ATTR_CUSTOM_ATTRIBUTES # PU64 (of_nat (length m)) #
      concat (map (\<lambda>(k, v). PStr k # CustomAttribute_serialize v) m)) (set_customs m it0)"
    using prop_read_bytes[where 'a = 64, of 8] read_customs_bytes[OF ok(1), of it0]
    by (intro absorbs_chunk) (simp_all add: readAttr_def read_counted_def del: le_bytes.simps)
  then have "absorbs ty u it0 (custom_chunk it) (set_customs m it0)" using b m by (simp add: custom_chunk_def)
  moreover obtain a where "set_customs m it0 = it0\<lparr>item_attributes := a\<rparr>" using set_customs_map(4)[OF assms(2) m(3)] by blast
  ultimately show ?thesis using that[of a] set_customs_map[OF assms(2) m(3)] assms(3) by simp
qed

lemma int_bits: "bit intAttributeTypes n \<Longrightarrow> n \<in> {0, 1, 4, 9, 10, 11, 12, 13, 14, 15, 16, 17, 18, 19, 20, 21, 22, 23, 24, 25, 26, 27, 28, 32, 33}"
  unfolding intAttributeTypes_def bit_or_iff
    ITEM_ATTRIBUTE_ACTIONID_def ITEM_ATTRIBUTE_UNIQUEID_def ITEM_ATTRIBUTE_DATE_def ITEM_ATTRIBUTE_WEIGHT_def
    ITEM_ATTRIBUTE_ATTACK_def ITEM_ATTRIBUTE_DEFENSE_def ITEM_ATTRIBUTE_EXTRADEFENSE_def
    ITEM_ATTRIBUTE_ARMOR_def ITEM_ATTRIBUTE_HITCHANCE_def ITEM_ATTRIBUTE_SHOOTRANGE_def
    ITEM_ATTRIBUTE_OWNER_def ITEM_ATTRIBUTE_DURATION_def ITEM_ATTRIBUTE_DECAYSTATE_def
    ITEM_ATTRIBUTE_CORPSEOWNER_def ITEM_ATTRIBUTE_CHARGES_def ITEM_ATTRIBUTE_FLUIDTYPE_def
    ITEM_ATTRIBUTE_DOORID_def ITEM_ATTRIBUTE_DURATION_TIMESTAMP_def ITEM_ATTRIBUTE_WRAPID_def
    ITEM_ATTRIBUTE_STOREITEM_def ITEM_ATTRIBUTE_ATTACK_SPEED_def ITEM_ATTRIBUTE_CLASSIFICATION_def
    ITEM_ATTRIBUTE_TIER_def ITEM_ATTRIBUTE_REDUCESKILLLOSS_def ITEM_ATTRIBUTE_DROPBONUS_def
    ITEM_ATTRIBUTE_DESCRIPTION_def ITEM_ATTRIBUTE_TEXT_def ITEM_ATTRIBUTE_WRITER_def ITEM_ATTRIBUTE_NAME_def
    ITEM_ATTRIBUTE_ARTICLE_def ITEM_ATTRIBUTE_PLURALNAME_def bit_exp_iff
  by blast

lemma str_bits: "bit (ucast stringAttributeTypes :: u64) n \<Longrightarrow> n \<in> {2, 3, 5, 6, 7, 8}"
  unfolding stringAttributeTypes_def bit_ucast_iff bit_or_iff
    ITEM_ATTRIBUTE_ACTIONID_def ITEM_ATTRIBUTE_UNIQUEID_def ITEM_ATTRIBUTE_DATE_def ITEM_ATTRIBUTE_WEIGHT_def
    ITEM_ATTRIBUTE_ATTACK_def ITEM_ATTRIBUTE_DEFENSE_def ITEM_ATTRIBUTE_EXTRADEFENSE_def
    ITEM_ATTRIBUTE_ARMOR_def ITEM_ATTRIBUTE_HITCHANCE_def ITEM_ATTRIBUTE_SHOOTRANGE_def
    ITEM_ATTRIBUTE_OWNER_def ITEM_ATTRIBUTE_DURATION_def ITEM_ATTRIBUTE_DECAYSTATE_def
    ITEM_ATTRIBUTE_CORPSEOWNER_def ITEM_ATTRIBUTE_CHARGES_def ITEM_ATTRIBUTE_FLUIDTYPE_def
    ITEM_ATTRIBUTE_DOORID_def ITEM_ATTRIBUTE_DURATION_TIMESTAMP_def ITEM_ATTRIBUTE_WRAPID_def
    ITEM_ATTRIBUTE_STOREITEM_def ITEM_ATTRIBUTE_ATTACK_SPEED_def ITEM_ATTRIBUTE_CLASSIFICATION_def
    ITEM_ATTRIBUTE_TIER_def ITEM_ATTRIBUTE_REDUCESKILLLOSS_def ITEM_ATTRIBUTE_DROPBONUS_def
    ITEM_ATTRIBUTE_DESCRIPTION_def ITEM_ATTRIBUTE_TEXT_def ITEM_ATTRIBUTE_WRITER_def ITEM_ATTRIBUTE_NAME_def
    ITEM_ATTRIBUTE_ARTICLE_def ITEM_ATTRIBUTE_PLURALNAME_def bit_exp_iff
  by blast

lemma kinds_known:
  assumes "single t" and "isIntAttrType t \<or> isStrAttrType t"
  shows "t \<in> {ITEM_ATTRIBUTE_FLUIDTYPE} \<union> front_types \<union> back_types \<union> unsaved"
proof -
  from assms(1) obtain n where n: "n < 64" "t = 2 ^ n" by (auto simp: single_def)
  have "bit intAttributeTypes n \<or> bit (ucast stringAttributeTypes :: u64) n"
    using assms(2) by (simp add: n isIntAttrType_def isStrAttrType_def power_and[OF n(1)])
  then have "n \<in> {0, 1, 4, 9, 10, 11, 12, 13, 14, 15, 16, 17, 18, 19, 20, 21, 22, 23, 24, 25, 26, 27, 28, 32, 33} \<union> {2, 3, 5, 6, 7, 8}"
    using int_bits str_bits by blast
  then show ?thesis unfolding n(2)
    by (elim UnE insertE emptyE) (simp_all add: front_types_def back_types_def unsaved_def)
qed

lemma saved_map_known:
  assumes "item_ok it" and "t \<noteq> ITEM_ATTRIBUTE_CUSTOM"
    and "t \<notin> {ITEM_ATTRIBUTE_FLUIDTYPE} \<union> front_types \<union> back_types"
  shows "saved_map now it t = None"
proof (cases "t \<in> unsaved")
  case False
  have "item_map it t = None"
  proof (rule ccontr)
    assume "item_map it t \<noteq> None"
    then obtain v where "item_map it t = Some v" by auto
    then have "single t" "value_ok t v" using item_value[OF assms(1)] by auto
    then show False using kinds_known[of t] assms(2,3) False by (cases v) auto
  qed
  moreover have "t \<noteq> ITEM_ATTRIBUTE_DECAYSTATE" using assms(3) by (auto simp: front_types_def)
  ultimately show ?thesis by (auto simp: saved_map_def)
qed (simp add: saved_map_def)

section \<open>The round trip\<close>

lemma customs_storable:
  "\<forall>m. item_map it ITEM_ATTRIBUTE_CUSTOM = Some (VCustom m) \<longrightarrow> customs_ok m \<and> length m < 2 ^ 64 \<Longrightarrow> item_ok it \<Longrightarrow>
    \<forall>v \<in> set (custom_chunk it). prop_ok v"
proof (cases "item_attributes it")
  case (Some a)
  assume c: "\<forall>m. item_map it ITEM_ATTRIBUTE_CUSTOM = Some (VCustom m) \<longrightarrow> customs_ok m \<and> length m < 2 ^ 64" and ok: "item_ok it"
  have "prop_ok w" if "w \<in> set (CustomAttribute_serialize v)" "custom_ok v" for w v using that by (cases v) auto
  then show ?thesis
    using c ok Some getCustomAttributeMap_cases[of a]
    by (fastforce simp: custom_chunk_def item_map_def item_ok_def customs_ok_def split: option.splits)
qed (simp add: custom_chunk_def)

lemma chunks_ok:
  assumes "storable ty it" and c: "\<forall>m. item_map it ITEM_ATTRIBUTE_CUSTOM = Some (VCustom m) \<longrightarrow> customs_ok m \<and> length m < 2 ^ 64"
  shows "\<forall>v \<in> set (count_chunk ty it @ front_chunks ty now it @ imbuement_chunks system it @ back_chunks it @ custom_chunk it). prop_ok v"
proof -
  have ok: "item_ok it" using assms(1) by (simp add: storable_def)
  have "length (Item_getStrAttr t it) \<le> 65535" if "single t" "isStrAttrType t" for t
    using assms(1) Item_getStrAttr_map[OF ok that] by (auto simp: storable_def str_value_def split: option.splits AttrValue.splits)
  then have str: "\<forall>v \<in> set (write_str t attr it). prop_ok v" "\<forall>v \<in> set (write_text t attr it). prop_ok v"
    if "single t" "isStrAttrType t" for t attr using that by (auto simp: write_str_def write_text_def)
  have "\<forall>v \<in> set (write_int t attr (PU32 \<circ> ucast) it). prop_ok v" "\<forall>v \<in> set (write_int t attr (PU16 \<circ> ucast) it). prop_ok v"
    "\<forall>v \<in> set (write_int t attr (PByte \<circ> ucast) it). prop_ok v" for t attr by (auto simp: write_int_def)
  note all = this str[OF single_types(19) str_types(1)] str[OF single_types(20) str_types(2)] str[OF single_types(21) str_types(3)]
    str[OF single_types(22) str_types(4)] str[OF single_types(23) str_types(5)] str[OF single_types(24) str_types(6)]
    customs_storable[OF c ok]
  show ?thesis unfolding count_chunk_def front_chunks_def imbuement_chunks_def back_chunks_def Let_def
    using all by (simp only: set_append ball_Un) (auto simp: Imbuement_serialize_def)
qed

definition kept_count :: "Items \<Rightarrow> ('a) Item_scheme \<Rightarrow> ('b) Item_scheme \<Rightarrow> u8" where
  "kept_count ty it it0 =
     (if stackable (ty (itemId it)) \<and> \<not> isFluid (ty (itemId it)) then item_count it else item_count it0)"

lemma absorbs_all:
  fixes it0 :: "('b) Item_scheme"
  assumes st: "storable ty it"
    and c: "\<forall>m. item_map it ITEM_ATTRIBUTE_CUSTOM = Some (VCustom m) \<longrightarrow> customs_ok m \<and> length m < 2 ^ 64"
    and it0: "item_attributes it0 = None" "itemId it0 = itemId it" "imbuements it0 = []"
    and slots: "length (imbuements it) \<le> unat (kept_slots system it it0)"
  obtains it1 where "absorbs ty u it0 (count_chunk ty it @ front_chunks ty now it @ imbuement_chunks system it @ back_chunks it @ custom_chunk it) it1"
    and "\<forall>t. t \<noteq> ITEM_ATTRIBUTE_CUSTOM \<longrightarrow> item_map it1 t = saved_map now it t" and "item_custom it1 = item_custom it"
    and "itemId it1 = itemId it" and "item_count it1 = kept_count ty it it0"
    and "imbuementSlots it1 = kept_slots system it it0" and "imbuements it1 = imbuements it"
proof -
  have ok: "item_ok it" using st by (simp add: storable_def)
  let ?m = "saved_map now it"
  have e: "item_ok it0" "item_map it0 = Map.empty" using it0 by (simp_all add: item_ok_def item_map_def)
  have dis: "ITEM_ATTRIBUTE_FLUIDTYPE \<notin> front_types" "({ITEM_ATTRIBUTE_FLUIDTYPE} \<union> front_types) \<inter> back_types = {}"
    "ITEM_ATTRIBUTE_CUSTOM \<notin> {ITEM_ATTRIBUTE_FLUIDTYPE} \<union> front_types \<union> back_types"
    by (simp_all add: front_types_def back_types_def ITEM_ATTRIBUTE_CUSTOM_def)
  obtain a where a: "absorbs ty u it0 (count_chunk ty it) (it0\<lparr>item_attributes := a, item_count := kept_count ty it it0\<rparr>)"
    "item_ok (it0\<lparr>item_attributes := a\<rparr>)" "item_map (it0\<lparr>item_attributes := a\<rparr>) = override_on Map.empty ?m {ITEM_ATTRIBUTE_FLUIDTYPE}"
    using absorbs_count[OF st e(1) it0(2) e(2), of u now] unfolding kept_count_def by blast
  let ?a = "it0\<lparr>item_attributes := a, item_count := kept_count ty it it0\<rparr>"
  have fa: "item_ok ?a" "item_map ?a = override_on Map.empty ?m {ITEM_ATTRIBUTE_FLUIDTYPE}" "itemId ?a = itemId it"
    using a(2,3) it0(2) by (simp_all add: item_ok_def item_map_def)
  have "carries ty u (itemId ?a) ?m TYPE('b) (front_chunks ty now it) front_types"
    unfolding fa(3) by (rule carries_front[OF st])
  then obtain b where b: "absorbs ty u ?a (front_chunks ty now it) (?a\<lparr>item_attributes := b\<rparr>)" "item_ok (?a\<lparr>item_attributes := b\<rparr>)"
    "item_map (?a\<lparr>item_attributes := b\<rparr>) = override_on (item_map ?a) ?m front_types"
    by (rule carriesE) (use fa dis in \<open>auto simp: override_on_def\<close>)
  let ?b = "?a\<lparr>item_attributes := b\<rparr>"
  let ?c = "?b\<lparr>imbuementSlots := kept_slots system it it0, imbuements := imbuements it\<rparr>"
  have ab: "absorbs ty u ?b (imbuement_chunks system it) ?c"
  proof -
    have k: "kept_slots system it ?b = kept_slots system it it0" by (simp add: kept_slots_def)
    show ?thesis using absorbs_imbuements[of it system ?b ty u] slots it0(3) unfolding k by simp
  qed
  have fc: "item_ok ?c" "item_map ?c = override_on Map.empty ?m ({ITEM_ATTRIBUTE_FLUIDTYPE} \<union> front_types)"
    using b(2,3) fa(2) by (auto simp: item_ok_def item_map_def override_on_def fun_eq_iff)
  have "carries ty u (itemId ?c) ?m TYPE('b) (back_chunks it) back_types" by (rule carries_back[OF st])
  then obtain d where d: "absorbs ty u ?c (back_chunks it) (?c\<lparr>item_attributes := d\<rparr>)" "item_ok (?c\<lparr>item_attributes := d\<rparr>)"
    "item_map (?c\<lparr>item_attributes := d\<rparr>) = override_on (item_map ?c) ?m back_types"
    by (rule carriesE) (use fc dis in \<open>auto simp: override_on_def\<close>)
  let ?d = "?c\<lparr>item_attributes := d\<rparr>"
  have fd: "item_map ?d = override_on Map.empty ?m ({ITEM_ATTRIBUTE_FLUIDTYPE} \<union> front_types \<union> back_types)"
    unfolding d(3) fc(2) by (auto simp: override_on_def fun_eq_iff)
  then have "item_custom ?d = Map.empty"
    using dis(3) by (auto simp: item_custom_def custom_map_def item_map_def override_on_def fun_eq_iff split: option.splits)
  from absorbs_customs[OF ok d(2) this c] obtain f where f: "absorbs ty u ?d (custom_chunk it) (?d\<lparr>item_attributes := f\<rparr>)"
    "item_custom (?d\<lparr>item_attributes := f\<rparr>) = item_custom it"
    "\<forall>t. t \<noteq> ITEM_ATTRIBUTE_CUSTOM \<longrightarrow> item_map (?d\<lparr>item_attributes := f\<rparr>) t = item_map ?d t" by metis
  have "\<forall>t. t \<noteq> ITEM_ATTRIBUTE_CUSTOM \<longrightarrow> item_map (?d\<lparr>item_attributes := f\<rparr>) t = ?m t"
    using f(3) fd saved_map_known[OF ok] by (auto simp: override_on_def)
  then show ?thesis
    using that[of "?d\<lparr>item_attributes := f\<rparr>"] f(2) it0(2) absorbs_append[OF a(1) absorbs_append[OF b(1) absorbs_append[OF ab absorbs_append[OF d(1) f(1)]]]]
    by simp
qed

definition storable_item :: "Items \<Rightarrow> bool \<Rightarrow> ('a) Item_scheme \<Rightarrow> ('b) Item_scheme \<Rightarrow> bool" where
  "storable_item ty system it it0 \<longleftrightarrow> storable ty it \<and>
     (\<forall>m. item_map it ITEM_ATTRIBUTE_CUSTOM = Some (VCustom m) \<longrightarrow> customs_ok m \<and> length m < 2 ^ 64) \<and>
     length (imbuements it) \<le> unat (kept_slots system it it0)"


definition sword_type :: ItemType where
  "sword_type =
     \<lparr>type_id = 7, deprecated = False, isFluid = False, stackable = False, type_charges = 5, moveable = True,
      pickupable = True, storeItem = False, weight = 3500, worth = 0, stackSize = 100, maxItems = 0,
      weaponType = WEAPON_SWORD, imbuementSlot = 0, decayTo = -1, decayTimeMin = 0, decayTimeMax = 0, stopTime = False\<rparr>"

definition sword :: "ItemAttributes option \<Rightarrow> Item" where
  "sword a = \<lparr>itemId = 7, item_count = 1, item_attributes = a, imbuementSlots = 0, imbuements = [], instanceID = 0\<rparr>"

lemma new_attr_map: "attr_map new_ItemAttributes = Map.empty"
  by (simp add: attr_map_def new_ItemAttributes_def)

lemma sword_attributes:
  "item_map (sword (Some (setIntAttr ITEM_ATTRIBUTE_CHARGES 3 (setIntAttr ITEM_ATTRIBUTE_ATTACK (-5) new_ItemAttributes)))) =
     [ITEM_ATTRIBUTE_ATTACK \<mapsto> VInt (-5), ITEM_ATTRIBUTE_CHARGES \<mapsto> VInt 3]"
  "item_ok (sword (Some (setIntAttr ITEM_ATTRIBUTE_CHARGES 3 (setIntAttr ITEM_ATTRIBUTE_ATTACK (-5) new_ItemAttributes))))"
proof -
  have "built (setIntAttr ITEM_ATTRIBUTE_ATTACK (-5) new_ItemAttributes)"
    "built (setIntAttr ITEM_ATTRIBUTE_CHARGES 3 (setIntAttr ITEM_ATTRIBUTE_ATTACK (-5) new_ItemAttributes))"
    by (intro built.intros single_types)+
  note b = this[THEN built_ok]
  show "item_map (sword (Some (setIntAttr ITEM_ATTRIBUTE_CHARGES 3 (setIntAttr ITEM_ATTRIBUTE_ATTACK (-5) new_ItemAttributes)))) =
      [ITEM_ATTRIBUTE_ATTACK \<mapsto> VInt (-5), ITEM_ATTRIBUTE_CHARGES \<mapsto> VInt 3]"
    using attributes_map_laws(4)[OF built.fresh single_types(4), of "-5"]
      attributes_map_laws(4)[OF built.int[OF built.fresh single_types(4), of "-5"] single_types(12), of 3]
      int_types(4,12)
      new_attr_map
    by (simp add: item_map_def sword_def at_least_100_def)
  show "item_ok (sword (Some (setIntAttr ITEM_ATTRIBUTE_CHARGES 3 (setIntAttr ITEM_ATTRIBUTE_ATTACK (-5) new_ItemAttributes))))"
    using b by (simp add: item_ok_def sword_def)
qed


end
