(* ===== verification/Conditions.thy ===== *)
theory Conditions
  imports PropStreams Positions "HOL-Library.Monad_Syntax"
begin

text \<open>
  The conditions of creatures, \<^verbatim>\<open>src/src/condition.h\<close> and \<^verbatim>\<open>src/src/condition.cpp\<close>: their data, the
  parameters scripts set and read, and how a player's conditions are written to the database and read
  back (\<^verbatim>\<open>src/src/iologindata.cpp\<close>). A condition is the record of the members of the base \<^verbatim>\<open>Condition\<close>;
  its field \<open>part\<close> holds the members of the derived type it was made as, and the virtual methods are
  case distinctions on it. Signed integers are words read with \<open>sint\<close>; a \<^verbatim>\<open>float\<close> member is kept as
  its 32 bits, since these operations only store it.
\<close>

section \<open>Enumerations\<close>

type_synonym ConditionType_t = u64
type_synonym ConditionId_t = s8

definition CONDITIONATTR_TYPE :: u8 where [simp]: "CONDITIONATTR_TYPE = 1"
definition CONDITIONATTR_ID :: u8 where [simp]: "CONDITIONATTR_ID = 2"
definition CONDITIONATTR_TICKS :: u8 where [simp]: "CONDITIONATTR_TICKS = 3"
definition CONDITIONATTR_HEALTHTICKS :: u8 where [simp]: "CONDITIONATTR_HEALTHTICKS = 4"
definition CONDITIONATTR_HEALTHGAIN :: u8 where [simp]: "CONDITIONATTR_HEALTHGAIN = 5"
definition CONDITIONATTR_MANATICKS :: u8 where [simp]: "CONDITIONATTR_MANATICKS = 6"
definition CONDITIONATTR_MANAGAIN :: u8 where [simp]: "CONDITIONATTR_MANAGAIN = 7"
definition CONDITIONATTR_DELAYED :: u8 where [simp]: "CONDITIONATTR_DELAYED = 8"
definition CONDITIONATTR_OWNER :: u8 where [simp]: "CONDITIONATTR_OWNER = 9"
definition CONDITIONATTR_INTERVALDATA :: u8 where [simp]: "CONDITIONATTR_INTERVALDATA = 10"
definition CONDITIONATTR_SPEEDDELTA :: u8 where [simp]: "CONDITIONATTR_SPEEDDELTA = 11"
definition CONDITIONATTR_FORMULA_MINA :: u8 where [simp]: "CONDITIONATTR_FORMULA_MINA = 12"
definition CONDITIONATTR_FORMULA_MINB :: u8 where [simp]: "CONDITIONATTR_FORMULA_MINB = 13"
definition CONDITIONATTR_FORMULA_MAXA :: u8 where [simp]: "CONDITIONATTR_FORMULA_MAXA = 14"
definition CONDITIONATTR_FORMULA_MAXB :: u8 where [simp]: "CONDITIONATTR_FORMULA_MAXB = 15"
definition CONDITIONATTR_LIGHTCOLOR :: u8 where [simp]: "CONDITIONATTR_LIGHTCOLOR = 16"
definition CONDITIONATTR_LIGHTLEVEL :: u8 where [simp]: "CONDITIONATTR_LIGHTLEVEL = 17"
definition CONDITIONATTR_LIGHTTICKS :: u8 where [simp]: "CONDITIONATTR_LIGHTTICKS = 18"
definition CONDITIONATTR_LIGHTINTERVAL :: u8 where [simp]: "CONDITIONATTR_LIGHTINTERVAL = 19"
definition CONDITIONATTR_SOULTICKS :: u8 where [simp]: "CONDITIONATTR_SOULTICKS = 20"
definition CONDITIONATTR_SOULGAIN :: u8 where [simp]: "CONDITIONATTR_SOULGAIN = 21"
definition CONDITIONATTR_SKILLS :: u8 where [simp]: "CONDITIONATTR_SKILLS = 22"
definition CONDITIONATTR_STATS :: u8 where [simp]: "CONDITIONATTR_STATS = 23"
definition CONDITIONATTR_OUTFIT :: u8 where [simp]: "CONDITIONATTR_OUTFIT = 24"
definition CONDITIONATTR_PERIODDAMAGE :: u8 where [simp]: "CONDITIONATTR_PERIODDAMAGE = 25"
definition CONDITIONATTR_ISBUFF :: u8 where [simp]: "CONDITIONATTR_ISBUFF = 26"
definition CONDITIONATTR_SUBID :: u8 where [simp]: "CONDITIONATTR_SUBID = 27"
definition CONDITIONATTR_ISAGGRESSIVE :: u8 where [simp]: "CONDITIONATTR_ISAGGRESSIVE = 28"
definition CONDITIONATTR_DISABLEDEFENSE :: u8 where [simp]: "CONDITIONATTR_DISABLEDEFENSE = 29"
definition CONDITIONATTR_SPECIALSKILLS :: u8 where [simp]: "CONDITIONATTR_SPECIALSKILLS = 30"
definition CONDITIONATTR_EXPERIENCERATE :: u8 where [simp]: "CONDITIONATTR_EXPERIENCERATE = 31"
definition CONDITIONATTR_HEALTHGAINPERCENT :: u8 where [simp]: "CONDITIONATTR_HEALTHGAINPERCENT = 32"
definition CONDITIONATTR_MANAGAINPERCENT :: u8 where [simp]: "CONDITIONATTR_MANAGAINPERCENT = 33"
definition CONDITIONATTR_CONSTANT :: u8 where [simp]: "CONDITIONATTR_CONSTANT = 34"
definition CONDITIONATTR_ENDTIME :: u8 where [simp]: "CONDITIONATTR_ENDTIME = 35"
definition CONDITIONATTR_TYPE64 :: u8 where [simp]: "CONDITIONATTR_TYPE64 = 36"
definition CONDITIONATTR_END :: u8 where [simp]: "CONDITIONATTR_END = 254"

definition CONDITION_NONE :: ConditionType_t where [simp]: "CONDITION_NONE = 0"
definition CONDITION_POISON :: ConditionType_t where [simp]: "CONDITION_POISON = 2 ^ 0"
definition CONDITION_FIRE :: ConditionType_t where [simp]: "CONDITION_FIRE = 2 ^ 1"
definition CONDITION_ENERGY :: ConditionType_t where [simp]: "CONDITION_ENERGY = 2 ^ 2"
definition CONDITION_BLEEDING :: ConditionType_t where [simp]: "CONDITION_BLEEDING = 2 ^ 3"
definition CONDITION_HASTE :: ConditionType_t where [simp]: "CONDITION_HASTE = 2 ^ 4"
definition CONDITION_PARALYZE :: ConditionType_t where [simp]: "CONDITION_PARALYZE = 2 ^ 5"
definition CONDITION_OUTFIT :: ConditionType_t where [simp]: "CONDITION_OUTFIT = 2 ^ 6"
definition CONDITION_INVISIBLE :: ConditionType_t where [simp]: "CONDITION_INVISIBLE = 2 ^ 7"
definition CONDITION_LIGHT :: ConditionType_t where [simp]: "CONDITION_LIGHT = 2 ^ 8"
definition CONDITION_MANASHIELD :: ConditionType_t where [simp]: "CONDITION_MANASHIELD = 2 ^ 9"
definition CONDITION_INFIGHT :: ConditionType_t where [simp]: "CONDITION_INFIGHT = 2 ^ 10"
definition CONDITION_DRUNK :: ConditionType_t where [simp]: "CONDITION_DRUNK = 2 ^ 11"
definition CONDITION_EXHAUST_WEAPON :: ConditionType_t where [simp]: "CONDITION_EXHAUST_WEAPON = 2 ^ 12"
definition CONDITION_REGENERATION :: ConditionType_t where [simp]: "CONDITION_REGENERATION = 2 ^ 13"
definition CONDITION_SOUL :: ConditionType_t where [simp]: "CONDITION_SOUL = 2 ^ 14"
definition CONDITION_DROWN :: ConditionType_t where [simp]: "CONDITION_DROWN = 2 ^ 15"
definition CONDITION_MUTED :: ConditionType_t where [simp]: "CONDITION_MUTED = 2 ^ 16"
definition CONDITION_CHANNELMUTEDTICKS :: ConditionType_t where [simp]: "CONDITION_CHANNELMUTEDTICKS = 2 ^ 17"
definition CONDITION_YELLTICKS :: ConditionType_t where [simp]: "CONDITION_YELLTICKS = 2 ^ 18"
definition CONDITION_ATTRIBUTES :: ConditionType_t where [simp]: "CONDITION_ATTRIBUTES = 2 ^ 19"
definition CONDITION_FREEZING :: ConditionType_t where [simp]: "CONDITION_FREEZING = 2 ^ 20"
definition CONDITION_DAZZLED :: ConditionType_t where [simp]: "CONDITION_DAZZLED = 2 ^ 21"
definition CONDITION_CURSED :: ConditionType_t where [simp]: "CONDITION_CURSED = 2 ^ 22"
definition CONDITION_EXHAUST_COMBAT :: ConditionType_t where [simp]: "CONDITION_EXHAUST_COMBAT = 2 ^ 23"
definition CONDITION_EXHAUST_HEAL :: ConditionType_t where [simp]: "CONDITION_EXHAUST_HEAL = 2 ^ 24"
definition CONDITION_PACIFIED :: ConditionType_t where [simp]: "CONDITION_PACIFIED = 2 ^ 25"
definition CONDITION_CLIPORT :: ConditionType_t where [simp]: "CONDITION_CLIPORT = 2 ^ 26"
definition CONDITION_SPELLCOOLDOWN :: ConditionType_t where [simp]: "CONDITION_SPELLCOOLDOWN = 2 ^ 27"
definition CONDITION_SPELLGROUPCOOLDOWN :: ConditionType_t where [simp]: "CONDITION_SPELLGROUPCOOLDOWN = 2 ^ 28"
definition CONDITION_ROOTED :: ConditionType_t where [simp]: "CONDITION_ROOTED = 2 ^ 29"
definition CONDITION_FEARED :: ConditionType_t where [simp]: "CONDITION_FEARED = 2 ^ 30"
definition CONDITION_AGONY :: ConditionType_t where [simp]: "CONDITION_AGONY = 2 ^ 31"
definition CONDITION_LESSERHEX :: ConditionType_t where [simp]: "CONDITION_LESSERHEX = 2 ^ 32"
definition CONDITION_INTENSEHEX :: ConditionType_t where [simp]: "CONDITION_INTENSEHEX = 2 ^ 33"
definition CONDITION_GREATERHEX :: ConditionType_t where [simp]: "CONDITION_GREATERHEX = 2 ^ 34"
definition CONDITION_POWERLESS :: ConditionType_t where [simp]: "CONDITION_POWERLESS = 2 ^ 35"

definition CONDITIONID_DEFAULT :: ConditionId_t where [simp]: "CONDITIONID_DEFAULT = - 1"
definition CONDITIONID_COMBAT :: ConditionId_t where [simp]: "CONDITIONID_COMBAT = 0"

datatype (plugins only:) ConditionParam_t =
    CONDITION_PARAM_OWNER | CONDITION_PARAM_TICKS | CONDITION_PARAM_HEALTHGAIN
   | CONDITION_PARAM_HEALTHTICKS | CONDITION_PARAM_MANAGAIN | CONDITION_PARAM_MANATICKS
   | CONDITION_PARAM_DELAYED | CONDITION_PARAM_SPEED | CONDITION_PARAM_LIGHT_LEVEL
   | CONDITION_PARAM_LIGHT_COLOR | CONDITION_PARAM_SOULGAIN | CONDITION_PARAM_SOULTICKS
   | CONDITION_PARAM_MINVALUE | CONDITION_PARAM_MAXVALUE | CONDITION_PARAM_STARTVALUE
   | CONDITION_PARAM_TICKINTERVAL | CONDITION_PARAM_FORCEUPDATE | CONDITION_PARAM_SKILL_MELEE
   | CONDITION_PARAM_SKILL_FIST | CONDITION_PARAM_SKILL_CLUB | CONDITION_PARAM_SKILL_SWORD
   | CONDITION_PARAM_SKILL_AXE | CONDITION_PARAM_SKILL_DISTANCE | CONDITION_PARAM_SKILL_SHIELD
   | CONDITION_PARAM_SKILL_FISHING | CONDITION_PARAM_STAT_MAXHITPOINTS
   | CONDITION_PARAM_STAT_MAXMANAPOINTS | CONDITION_PARAM_STAT_MAGICPOINTS
   | CONDITION_PARAM_STAT_MAXHITPOINTSPERCENT | CONDITION_PARAM_STAT_MAXMANAPOINTSPERCENT
   | CONDITION_PARAM_STAT_MAGICPOINTSPERCENT | CONDITION_PARAM_PERIODICDAMAGE
   | CONDITION_PARAM_SKILL_MELEEPERCENT | CONDITION_PARAM_SKILL_FISTPERCENT
   | CONDITION_PARAM_SKILL_CLUBPERCENT | CONDITION_PARAM_SKILL_SWORDPERCENT
   | CONDITION_PARAM_SKILL_AXEPERCENT | CONDITION_PARAM_SKILL_DISTANCEPERCENT
   | CONDITION_PARAM_SKILL_SHIELDPERCENT | CONDITION_PARAM_SKILL_FISHINGPERCENT
   | CONDITION_PARAM_BUFF_SPELL | CONDITION_PARAM_SUBID | CONDITION_PARAM_FIELD
   | CONDITION_PARAM_DISABLE_DEFENSE | CONDITION_PARAM_SPECIALSKILL_CRITICALHITCHANCE
   | CONDITION_PARAM_SPECIALSKILL_CRITICALHITAMOUNT | CONDITION_PARAM_SPECIALSKILL_LIFELEECHCHANCE
   | CONDITION_PARAM_SPECIALSKILL_LIFELEECHAMOUNT | CONDITION_PARAM_SPECIALSKILL_MANALEECHCHANCE
   | CONDITION_PARAM_SPECIALSKILL_MANALEECHAMOUNT | CONDITION_PARAM_AGGRESSIVE
   | CONDITION_PARAM_DRUNKENNESS | CONDITION_PARAM_EXPERIENCERATE_BASE
   | CONDITION_PARAM_EXPERIENCERATE_LOW_LEVEL | CONDITION_PARAM_EXPERIENCERATE_BONUS
   | CONDITION_PARAM_EXPERIENCERATE_STAMINA | CONDITION_PARAM_HEALTHGAINPERCENT
   | CONDITION_PARAM_MANAGAINPERCENT | CONDITION_PARAM_CASTER_POSITION | CONDITION_PARAM_STAT_CAPACITY
   | CONDITION_PARAM_STAT_CAPACITYPERCENT

text \<open>Indices of the arrays of a condition that changes attributes.\<close>

definition SKILL_FIST :: nat where [simp]: "SKILL_FIST = 0"
definition SKILL_CLUB :: nat where [simp]: "SKILL_CLUB = 1"
definition SKILL_SWORD :: nat where [simp]: "SKILL_SWORD = 2"
definition SKILL_AXE :: nat where [simp]: "SKILL_AXE = 3"
definition SKILL_DISTANCE :: nat where [simp]: "SKILL_DISTANCE = 4"
definition SKILL_SHIELD :: nat where [simp]: "SKILL_SHIELD = 5"
definition SKILL_FISHING :: nat where [simp]: "SKILL_FISHING = 6"
definition SKILL_LAST :: nat where [simp]: "SKILL_LAST = 6"
definition STAT_MAXHITPOINTS :: nat where [simp]: "STAT_MAXHITPOINTS = 0"
definition STAT_MAXMANAPOINTS :: nat where [simp]: "STAT_MAXMANAPOINTS = 1"
definition STAT_MAGICPOINTS :: nat where [simp]: "STAT_MAGICPOINTS = 3"
definition STAT_CAPACITY :: nat where [simp]: "STAT_CAPACITY = 4"
definition STAT_LAST :: nat where [simp]: "STAT_LAST = 4"
definition SPECIALSKILL_CRITICALHITCHANCE :: nat where [simp]: "SPECIALSKILL_CRITICALHITCHANCE = 0"
definition SPECIALSKILL_CRITICALHITAMOUNT :: nat where [simp]: "SPECIALSKILL_CRITICALHITAMOUNT = 1"
definition SPECIALSKILL_LIFELEECHCHANCE :: nat where [simp]: "SPECIALSKILL_LIFELEECHCHANCE = 2"
definition SPECIALSKILL_LIFELEECHAMOUNT :: nat where [simp]: "SPECIALSKILL_LIFELEECHAMOUNT = 3"
definition SPECIALSKILL_MANALEECHCHANCE :: nat where [simp]: "SPECIALSKILL_MANALEECHCHANCE = 4"
definition SPECIALSKILL_MANALEECHAMOUNT :: nat where [simp]: "SPECIALSKILL_MANALEECHAMOUNT = 5"
definition SPECIALSKILL_LAST :: nat where [simp]: "SPECIALSKILL_LAST = 5"
definition RATE_BASE :: nat where [simp]: "RATE_BASE = 1"
definition RATE_LOW_LEVEL :: nat where [simp]: "RATE_LOW_LEVEL = 2"
definition RATE_BONUS :: nat where [simp]: "RATE_BONUS = 3"
definition RATE_STAMINA :: nat where [simp]: "RATE_STAMINA = 4"

section \<open>Conditions\<close>

record AttributesPart =
  skills :: "s32 list"
  skillsPercent :: "s32 list"
  specialSkills :: "s32 list"
  stats :: "s32 list"
  statsPercent :: "s32 list"
  experienceRate :: "s32 list"
  currentSkill :: nat
  currentSpecialSkill :: nat
  currentStat :: nat
  currentExperienceRate :: nat
  disableDefense :: bool

record RegenerationPart =
  internalHealthTicks :: u32
  internalManaTicks :: u32
  healthTicks :: u32
  manaTicks :: u32
  healthGain :: u32
  healthGainPercent :: u32
  manaGain :: u32
  manaGainPercent :: u32

record SoulPart =
  internalSoulTicks :: u32
  soulTicks :: u32
  soulGain :: u32

record IntervalInfo =
  timeLeft :: s32
  ivalue :: s32
  interval :: s32

record DamagePart =
  maxDamage :: s32
  minDamage :: s32
  startDamage :: s32
  periodDamage :: s32
  periodDamageTick :: s32
  tickInterval :: s32
  initDamage :: s32
  forceUpdate :: bool
  delayed :: bool
  isField :: bool
  damageOwner :: u32
  damageList :: "IntervalInfo list"

record SpeedPart =
  speedDelta :: s32
  mina :: u32
  minb :: u32
  maxa :: u32
  maxb :: u32

record Outfit_t =
  lookType :: u16
  lookTypeEx :: u16
  lookMount :: u16
  lookFamiliar :: u16
  lookHead :: u8
  lookBody :: u8
  lookLegs :: u8
  lookFeet :: u8
  lookAddons :: u8

record LightPart =
  lightLevel :: u8
  lightColor :: u8
  internalLightTicks :: u32
  lightChangeInterval :: u32

datatype ConditionPart =
    GenericPart
  | Attributes AttributesPart
  | Regeneration RegenerationPart
  | Soul SoulPart
  | InvisiblePart
  | Damage DamagePart
  | Speed SpeedPart
  | RootedPart
  | Feared Position
  | Outfit Outfit_t
  | Light LightPart
  | SpellCooldownPart
  | SpellGroupCooldownPart
  | Drunk u8

record Condition =
  endTime :: s64
  subId :: u32
  ticks :: s32
  conditionType :: ConditionType_t
  isBuff :: bool
  aggressive :: bool
  isConstant :: bool
  condId :: ConditionId_t
  part :: ConditionPart

section \<open>Construction\<close>

definition INT64_MAX :: s64 where "INT64_MAX = 0x7FFFFFFFFFFFFFFF"

definition new_Condition ::
  "ConditionId_t \<Rightarrow> ConditionType_t \<Rightarrow> s32 \<Rightarrow> bool \<Rightarrow> u32 \<Rightarrow> bool \<Rightarrow> ConditionPart \<Rightarrow> Condition" where
  "new_Condition ident type tcks buff sub aggr p =
     \<lparr>endTime = (if tcks = - 1 then INT64_MAX else 0), subId = sub, ticks = tcks, conditionType = type,
      isBuff = buff, aggressive = aggr, isConstant = False, condId = ident, part = p\<rparr>"

text \<open>Copying a condition (\<^verbatim>\<open>clone\<close>) keeps everything but the time it ends.\<close>

definition clone :: "Condition \<Rightarrow> Condition" where
  "clone c = c\<lparr>endTime := if ticks c = - 1 then INT64_MAX else 0\<rparr>"

definition new_Attributes :: AttributesPart where
  "new_Attributes =
     \<lparr>skills = replicate (SKILL_LAST + 1) 0, skillsPercent = replicate (SKILL_LAST + 1) 0,
      specialSkills = replicate (SPECIALSKILL_LAST + 1) 0, stats = replicate (STAT_LAST + 1) 0,
      statsPercent = replicate (STAT_LAST + 1) 0, experienceRate = replicate (RATE_STAMINA + 1) 0,
      currentSkill = 0, currentSpecialSkill = 0, currentStat = 0, currentExperienceRate = 0,
      disableDefense = False\<rparr>"

definition new_Regeneration :: RegenerationPart where
  "new_Regeneration =
     \<lparr>internalHealthTicks = 0, internalManaTicks = 0, healthTicks = 1000, manaTicks = 1000,
      healthGain = 0, healthGainPercent = 0, manaGain = 0, manaGainPercent = 0\<rparr>"

definition new_Soul :: SoulPart where
  "new_Soul = \<lparr>internalSoulTicks = 0, soulTicks = 0, soulGain = 0\<rparr>"

definition new_Damage :: DamagePart where
  "new_Damage =
     \<lparr>maxDamage = 0, minDamage = 0, startDamage = 0, periodDamage = 0, periodDamageTick = 0,
      tickInterval = 2000, initDamage = 0, forceUpdate = False, delayed = False, isField = False,
      damageOwner = 0, damageList = []\<rparr>"

definition new_Speed :: "s32 \<Rightarrow> SpeedPart" where
  "new_Speed changeSpeed = \<lparr>speedDelta = changeSpeed, mina = 0, minb = 0, maxa = 0, maxb = 0\<rparr>"

definition new_Outfit :: Outfit_t where
  "new_Outfit =
     \<lparr>lookType = 0, lookTypeEx = 0, lookMount = 0, lookFamiliar = 0, lookHead = 0, lookBody = 0,
      lookLegs = 0, lookFeet = 0, lookAddons = 0\<rparr>"

definition new_Light :: "u8 \<Rightarrow> u8 \<Rightarrow> LightPart" where
  "new_Light lightlevel lightcolor =
     \<lparr>lightLevel = lightlevel, lightColor = lightcolor, internalLightTicks = 0, lightChangeInterval = 0\<rparr>"

definition new_Drunk :: "u8 \<Rightarrow> u8" where
  "new_Drunk drunkenness = (if drunkenness \<noteq> 0 then drunkenness else 25)"

text \<open>\<^verbatim>\<open>Condition::createCondition\<close> with the values given: the type decides which derived type is made.\<close>

definition createCondition ::
  "ConditionId_t \<Rightarrow> ConditionType_t \<Rightarrow> s32 \<Rightarrow> s32 \<Rightarrow> bool \<Rightarrow> u32 \<Rightarrow> bool \<Rightarrow> Condition option" where
  "createCondition ident type tcks param buff sub aggr =
     (let made = (\<lambda>p. Some (new_Condition ident type tcks buff sub aggr p))
      in if type \<in> {CONDITION_POISON, CONDITION_FIRE, CONDITION_ENERGY, CONDITION_DROWN,
           CONDITION_FREEZING, CONDITION_DAZZLED, CONDITION_CURSED, CONDITION_AGONY, CONDITION_BLEEDING}
         then Some (new_Condition ident type 0 buff sub aggr (Damage new_Damage))
         else if type \<in> {CONDITION_HASTE, CONDITION_PARALYZE} then made (Speed (new_Speed param))
         else if type = CONDITION_ROOTED then made RootedPart
         else if type = CONDITION_FEARED then made (Feared (Position 0 0 0))
         else if type = CONDITION_INVISIBLE then made InvisiblePart
         else if type = CONDITION_OUTFIT then made (Outfit new_Outfit)
         else if type = CONDITION_LIGHT
         then made (Light (new_Light (ucast (param AND 0xFF)) (ucast (drop_bit 8 (param AND 0xFF00)))))
         else if type = CONDITION_REGENERATION then made (Regeneration new_Regeneration)
         else if type = CONDITION_SOUL then made (Soul new_Soul)
         else if type = CONDITION_ATTRIBUTES then made (Attributes new_Attributes)
         else if type = CONDITION_SPELLCOOLDOWN then made SpellCooldownPart
         else if type = CONDITION_SPELLGROUPCOOLDOWN then made SpellGroupCooldownPart
         else if type = CONDITION_DRUNK then made (Drunk (new_Drunk (ucast param)))
         else if type \<in> {CONDITION_INFIGHT, CONDITION_EXHAUST_WEAPON, CONDITION_EXHAUST_COMBAT,
           CONDITION_EXHAUST_HEAL, CONDITION_MUTED, CONDITION_CHANNELMUTEDTICKS, CONDITION_YELLTICKS,
           CONDITION_PACIFIED, CONDITION_MANASHIELD, CONDITION_CLIPORT, CONDITION_LESSERHEX,
           CONDITION_INTENSEHEX, CONDITION_GREATERHEX, CONDITION_POWERLESS} then made GenericPart
         else None)"

definition setEndTime :: "s64 \<Rightarrow> Condition \<Rightarrow> Condition" where
  "setEndTime newEndTime c = c\<lparr>endTime := newEndTime\<rparr>"

text \<open>\<open>now\<close> is the clock \<^verbatim>\<open>OTSYS_TIME()\<close>.\<close>

definition setTicks :: "s64 \<Rightarrow> s32 \<Rightarrow> Condition \<Rightarrow> Condition" where
  "setTicks now newTicks c = setEndTime (scast newTicks + now) (c\<lparr>ticks := newTicks\<rparr>)"

definition setConstant :: "bool \<Rightarrow> Condition \<Rightarrow> Condition" where
  "setConstant b c = c\<lparr>isConstant := b\<rparr>"

definition isPersistent :: "Condition \<Rightarrow> bool" where
  "isPersistent c \<longleftrightarrow> ticks c \<noteq> - 1 \<and>
     (condId c = CONDITIONID_DEFAULT \<or> condId c = CONDITIONID_COMBAT \<or> conditionType c = CONDITION_MUTED)"

section \<open>Parameters\<close>

text \<open>Setting a parameter gives whether it was accepted; reading an unknown one gives the largest integer.\<close>

definition INT32_MAX :: s32 where "INT32_MAX = 0x7FFFFFFF"

definition bool_param :: "bool \<Rightarrow> s32" where
  "bool_param b = (if b then 1 else 0)"

definition abs32 :: "s32 \<Rightarrow> s32" where
  "abs32 v = (if sint v < 0 then - v else v)"

definition Condition_setParam :: "ConditionParam_t \<Rightarrow> s32 \<Rightarrow> Condition \<Rightarrow> bool \<times> Condition" where
  "Condition_setParam param value c =
     (case param of
        CONDITION_PARAM_TICKS \<Rightarrow> (True, c\<lparr>ticks := value\<rparr>)
      | CONDITION_PARAM_BUFF_SPELL \<Rightarrow> (True, c\<lparr>isBuff := value \<noteq> 0\<rparr>)
      | CONDITION_PARAM_SUBID \<Rightarrow> (True, c\<lparr>subId := value\<rparr>)
      | CONDITION_PARAM_AGGRESSIVE \<Rightarrow> (True, c\<lparr>aggressive := value \<noteq> 0\<rparr>)
      | _ \<Rightarrow> (False, c))"

definition Condition_getParam :: "ConditionParam_t \<Rightarrow> Condition \<Rightarrow> s32" where
  "Condition_getParam param c =
     (case param of
        CONDITION_PARAM_TICKS \<Rightarrow> ticks c
      | CONDITION_PARAM_BUFF_SPELL \<Rightarrow> bool_param (isBuff c)
      | CONDITION_PARAM_SUBID \<Rightarrow> subId c
      | _ \<Rightarrow> INT32_MAX)"

definition with_skill :: "nat \<Rightarrow> s32 \<Rightarrow> AttributesPart \<Rightarrow> AttributesPart" where
  "with_skill i value a = a\<lparr>skills := (skills a)[i := value]\<rparr>"

definition with_skillPercent :: "nat \<Rightarrow> s32 \<Rightarrow> AttributesPart \<Rightarrow> AttributesPart" where
  "with_skillPercent i value a = a\<lparr>skillsPercent := (skillsPercent a)[i := value]\<rparr>"

definition with_specialSkill :: "nat \<Rightarrow> s32 \<Rightarrow> AttributesPart \<Rightarrow> AttributesPart" where
  "with_specialSkill i value a = a\<lparr>specialSkills := (specialSkills a)[i := value]\<rparr>"

definition with_stat :: "nat \<Rightarrow> s32 \<Rightarrow> AttributesPart \<Rightarrow> AttributesPart" where
  "with_stat i value a = a\<lparr>stats := (stats a)[i := value]\<rparr>"

definition with_statPercent :: "nat \<Rightarrow> s32 \<Rightarrow> AttributesPart \<Rightarrow> AttributesPart" where
  "with_statPercent i value a =
     a\<lparr>statsPercent := (statsPercent a)[i := if sint value < 0 then 0 else value]\<rparr>"

definition with_rate :: "nat \<Rightarrow> s32 \<Rightarrow> AttributesPart \<Rightarrow> AttributesPart" where
  "with_rate i value a = a\<lparr>experienceRate := (experienceRate a)[i := value]\<rparr>"

definition ConditionAttributes_setParam ::
  "ConditionParam_t \<Rightarrow> s32 \<Rightarrow> AttributesPart \<Rightarrow> Condition \<Rightarrow> bool \<times> Condition" where
  "ConditionAttributes_setParam param value a c0 =
     (let (ret, c) = Condition_setParam param value c0; set = (\<lambda>a'. (True, c\<lparr>part := Attributes a'\<rparr>))
      in case param of
        CONDITION_PARAM_SKILL_MELEE \<Rightarrow>
          set (with_skill SKILL_SWORD value (with_skill SKILL_AXE value (with_skill SKILL_CLUB value a)))
      | CONDITION_PARAM_SKILL_MELEEPERCENT \<Rightarrow>
          set (with_skillPercent SKILL_SWORD value
            (with_skillPercent SKILL_AXE value (with_skillPercent SKILL_CLUB value a)))
      | CONDITION_PARAM_SKILL_FIST \<Rightarrow> set (with_skill SKILL_FIST value a)
      | CONDITION_PARAM_SKILL_FISTPERCENT \<Rightarrow> set (with_skillPercent SKILL_FIST value a)
      | CONDITION_PARAM_SKILL_CLUB \<Rightarrow> set (with_skill SKILL_CLUB value a)
      | CONDITION_PARAM_SKILL_CLUBPERCENT \<Rightarrow> set (with_skillPercent SKILL_CLUB value a)
      | CONDITION_PARAM_SKILL_SWORD \<Rightarrow> set (with_skill SKILL_SWORD value a)
      | CONDITION_PARAM_SKILL_SWORDPERCENT \<Rightarrow> set (with_skillPercent SKILL_SWORD value a)
      | CONDITION_PARAM_SKILL_AXE \<Rightarrow> set (with_skill SKILL_AXE value a)
      | CONDITION_PARAM_SKILL_AXEPERCENT \<Rightarrow> set (with_skillPercent SKILL_AXE value a)
      | CONDITION_PARAM_SKILL_DISTANCE \<Rightarrow> set (with_skill SKILL_DISTANCE value a)
      | CONDITION_PARAM_SKILL_DISTANCEPERCENT \<Rightarrow> set (with_skillPercent SKILL_DISTANCE value a)
      | CONDITION_PARAM_SKILL_SHIELD \<Rightarrow> set (with_skill SKILL_SHIELD value a)
      | CONDITION_PARAM_SKILL_SHIELDPERCENT \<Rightarrow> set (with_skillPercent SKILL_SHIELD value a)
      | CONDITION_PARAM_SKILL_FISHING \<Rightarrow> set (with_skill SKILL_FISHING value a)
      | CONDITION_PARAM_SKILL_FISHINGPERCENT \<Rightarrow> set (with_skillPercent SKILL_FISHING value a)
      | CONDITION_PARAM_SPECIALSKILL_CRITICALHITCHANCE \<Rightarrow> set (with_specialSkill SPECIALSKILL_CRITICALHITCHANCE value a)
      | CONDITION_PARAM_SPECIALSKILL_CRITICALHITAMOUNT \<Rightarrow> set (with_specialSkill SPECIALSKILL_CRITICALHITAMOUNT value a)
      | CONDITION_PARAM_SPECIALSKILL_LIFELEECHCHANCE \<Rightarrow> set (with_specialSkill SPECIALSKILL_LIFELEECHCHANCE value a)
      | CONDITION_PARAM_SPECIALSKILL_LIFELEECHAMOUNT \<Rightarrow> set (with_specialSkill SPECIALSKILL_LIFELEECHAMOUNT value a)
      | CONDITION_PARAM_SPECIALSKILL_MANALEECHCHANCE \<Rightarrow> set (with_specialSkill SPECIALSKILL_MANALEECHCHANCE value a)
      | CONDITION_PARAM_SPECIALSKILL_MANALEECHAMOUNT \<Rightarrow> set (with_specialSkill SPECIALSKILL_MANALEECHAMOUNT value a)
      | CONDITION_PARAM_STAT_MAXHITPOINTS \<Rightarrow> set (with_stat STAT_MAXHITPOINTS value a)
      | CONDITION_PARAM_STAT_MAXMANAPOINTS \<Rightarrow> set (with_stat STAT_MAXMANAPOINTS value a)
      | CONDITION_PARAM_STAT_MAGICPOINTS \<Rightarrow> set (with_stat STAT_MAGICPOINTS value a)
      | CONDITION_PARAM_STAT_MAXHITPOINTSPERCENT \<Rightarrow> set (with_statPercent STAT_MAXHITPOINTS value a)
      | CONDITION_PARAM_STAT_MAXMANAPOINTSPERCENT \<Rightarrow> set (with_statPercent STAT_MAXMANAPOINTS value a)
      | CONDITION_PARAM_STAT_MAGICPOINTSPERCENT \<Rightarrow> set (with_statPercent STAT_MAGICPOINTS value a)
      | CONDITION_PARAM_STAT_CAPACITY \<Rightarrow> set (with_stat STAT_CAPACITY value a)
      | CONDITION_PARAM_STAT_CAPACITYPERCENT \<Rightarrow> set (with_statPercent STAT_CAPACITY value a)
      | CONDITION_PARAM_EXPERIENCERATE_BASE \<Rightarrow> set (with_rate RATE_BASE value a)
      | CONDITION_PARAM_EXPERIENCERATE_LOW_LEVEL \<Rightarrow> set (with_rate RATE_LOW_LEVEL value a)
      | CONDITION_PARAM_EXPERIENCERATE_BONUS \<Rightarrow> set (with_rate RATE_BONUS value a)
      | CONDITION_PARAM_EXPERIENCERATE_STAMINA \<Rightarrow> set (with_rate RATE_STAMINA value a)
      | CONDITION_PARAM_DISABLE_DEFENSE \<Rightarrow> set (a\<lparr>disableDefense := value \<noteq> 0\<rparr>)
      | CONDITION_PARAM_AGGRESSIVE \<Rightarrow> (True, c\<lparr>aggressive := value \<noteq> 0\<rparr>)
      | _ \<Rightarrow> (ret, c))"

definition ConditionAttributes_getParam :: "ConditionParam_t \<Rightarrow> AttributesPart \<Rightarrow> Condition \<Rightarrow> s32" where
  "ConditionAttributes_getParam param a c =
     (case param of
        CONDITION_PARAM_SKILL_FIST \<Rightarrow> skills a ! SKILL_FIST
      | CONDITION_PARAM_SKILL_FISTPERCENT \<Rightarrow> skillsPercent a ! SKILL_FIST
      | CONDITION_PARAM_SKILL_CLUB \<Rightarrow> skills a ! SKILL_CLUB
      | CONDITION_PARAM_SKILL_CLUBPERCENT \<Rightarrow> skillsPercent a ! SKILL_CLUB
      | CONDITION_PARAM_SKILL_SWORD \<Rightarrow> skills a ! SKILL_SWORD
      | CONDITION_PARAM_SKILL_SWORDPERCENT \<Rightarrow> skillsPercent a ! SKILL_SWORD
      | CONDITION_PARAM_SKILL_AXE \<Rightarrow> skills a ! SKILL_AXE
      | CONDITION_PARAM_SKILL_AXEPERCENT \<Rightarrow> skillsPercent a ! SKILL_AXE
      | CONDITION_PARAM_SKILL_DISTANCE \<Rightarrow> skills a ! SKILL_DISTANCE
      | CONDITION_PARAM_SKILL_DISTANCEPERCENT \<Rightarrow> skillsPercent a ! SKILL_DISTANCE
      | CONDITION_PARAM_SKILL_SHIELD \<Rightarrow> skills a ! SKILL_SHIELD
      | CONDITION_PARAM_SKILL_SHIELDPERCENT \<Rightarrow> skillsPercent a ! SKILL_SHIELD
      | CONDITION_PARAM_SKILL_FISHING \<Rightarrow> skills a ! SKILL_FISHING
      | CONDITION_PARAM_SKILL_FISHINGPERCENT \<Rightarrow> skillsPercent a ! SKILL_FISHING
      | CONDITION_PARAM_STAT_MAXHITPOINTS \<Rightarrow> stats a ! STAT_MAXHITPOINTS
      | CONDITION_PARAM_STAT_MAXMANAPOINTS \<Rightarrow> stats a ! STAT_MAXMANAPOINTS
      | CONDITION_PARAM_STAT_MAGICPOINTS \<Rightarrow> stats a ! STAT_MAGICPOINTS
      | CONDITION_PARAM_STAT_MAXHITPOINTSPERCENT \<Rightarrow> statsPercent a ! STAT_MAXHITPOINTS
      | CONDITION_PARAM_STAT_MAXMANAPOINTSPERCENT \<Rightarrow> statsPercent a ! STAT_MAXMANAPOINTS
      | CONDITION_PARAM_STAT_MAGICPOINTSPERCENT \<Rightarrow> statsPercent a ! STAT_MAGICPOINTS
      | CONDITION_PARAM_STAT_CAPACITY \<Rightarrow> stats a ! STAT_CAPACITY
      | CONDITION_PARAM_STAT_CAPACITYPERCENT \<Rightarrow> statsPercent a ! STAT_CAPACITY
      | CONDITION_PARAM_DISABLE_DEFENSE \<Rightarrow> bool_param (disableDefense a)
      | CONDITION_PARAM_SPECIALSKILL_CRITICALHITCHANCE \<Rightarrow> specialSkills a ! SPECIALSKILL_CRITICALHITCHANCE
      | CONDITION_PARAM_SPECIALSKILL_CRITICALHITAMOUNT \<Rightarrow> specialSkills a ! SPECIALSKILL_CRITICALHITAMOUNT
      | CONDITION_PARAM_SPECIALSKILL_LIFELEECHCHANCE \<Rightarrow> specialSkills a ! SPECIALSKILL_LIFELEECHCHANCE
      | CONDITION_PARAM_SPECIALSKILL_LIFELEECHAMOUNT \<Rightarrow> specialSkills a ! SPECIALSKILL_LIFELEECHAMOUNT
      | CONDITION_PARAM_SPECIALSKILL_MANALEECHCHANCE \<Rightarrow> specialSkills a ! SPECIALSKILL_MANALEECHCHANCE
      | CONDITION_PARAM_SPECIALSKILL_MANALEECHAMOUNT \<Rightarrow> specialSkills a ! SPECIALSKILL_MANALEECHAMOUNT
      | CONDITION_PARAM_EXPERIENCERATE_BASE \<Rightarrow> experienceRate a ! RATE_BASE
      | CONDITION_PARAM_EXPERIENCERATE_LOW_LEVEL \<Rightarrow> experienceRate a ! RATE_LOW_LEVEL
      | CONDITION_PARAM_EXPERIENCERATE_BONUS \<Rightarrow> experienceRate a ! RATE_BONUS
      | CONDITION_PARAM_EXPERIENCERATE_STAMINA \<Rightarrow> experienceRate a ! RATE_STAMINA
      | _ \<Rightarrow> Condition_getParam param c)"

definition ConditionRegeneration_setParam ::
  "ConditionParam_t \<Rightarrow> s32 \<Rightarrow> RegenerationPart \<Rightarrow> Condition \<Rightarrow> bool \<times> Condition" where
  "ConditionRegeneration_setParam param value r c0 =
     (let (ret, c) = Condition_setParam param value c0; set = (\<lambda>r'. (True, c\<lparr>part := Regeneration r'\<rparr>))
      in case param of
        CONDITION_PARAM_HEALTHGAIN \<Rightarrow> set (r\<lparr>healthGain := value\<rparr>)
      | CONDITION_PARAM_HEALTHGAINPERCENT \<Rightarrow> set (r\<lparr>healthGainPercent := value\<rparr>)
      | CONDITION_PARAM_HEALTHTICKS \<Rightarrow> set (r\<lparr>healthTicks := value\<rparr>)
      | CONDITION_PARAM_MANAGAIN \<Rightarrow> set (r\<lparr>manaGain := value\<rparr>)
      | CONDITION_PARAM_MANAGAINPERCENT \<Rightarrow> set (r\<lparr>manaGainPercent := value\<rparr>)
      | CONDITION_PARAM_MANATICKS \<Rightarrow> set (r\<lparr>manaTicks := value\<rparr>)
      | _ \<Rightarrow> (ret, c))"

definition ConditionRegeneration_getParam :: "ConditionParam_t \<Rightarrow> RegenerationPart \<Rightarrow> Condition \<Rightarrow> s32" where
  "ConditionRegeneration_getParam param r c =
     (case param of
        CONDITION_PARAM_HEALTHGAIN \<Rightarrow> healthGain r
      | CONDITION_PARAM_HEALTHTICKS \<Rightarrow> healthTicks r
      | CONDITION_PARAM_MANAGAIN \<Rightarrow> manaGain r
      | CONDITION_PARAM_MANATICKS \<Rightarrow> manaTicks r
      | _ \<Rightarrow> Condition_getParam param c)"

definition ConditionSoul_setParam ::
  "ConditionParam_t \<Rightarrow> s32 \<Rightarrow> SoulPart \<Rightarrow> Condition \<Rightarrow> bool \<times> Condition" where
  "ConditionSoul_setParam param value s c0 =
     (let (ret, c) = Condition_setParam param value c0; set = (\<lambda>s'. (True, c\<lparr>part := Soul s'\<rparr>))
      in case param of
        CONDITION_PARAM_SOULGAIN \<Rightarrow> set (s\<lparr>soulGain := value\<rparr>)
      | CONDITION_PARAM_SOULTICKS \<Rightarrow> set (s\<lparr>soulTicks := value\<rparr>)
      | _ \<Rightarrow> (ret, c))"

definition ConditionSoul_getParam :: "ConditionParam_t \<Rightarrow> SoulPart \<Rightarrow> Condition \<Rightarrow> s32" where
  "ConditionSoul_getParam param s c =
     (case param of
        CONDITION_PARAM_SOULGAIN \<Rightarrow> soulGain s
      | CONDITION_PARAM_SOULTICKS \<Rightarrow> soulTicks s
      | _ \<Rightarrow> Condition_getParam param c)"

definition ConditionDamage_setParam ::
  "ConditionParam_t \<Rightarrow> s32 \<Rightarrow> DamagePart \<Rightarrow> Condition \<Rightarrow> bool \<times> Condition" where
  "ConditionDamage_setParam param value d c0 =
     (let (ret, c) = Condition_setParam param value c0; set = (\<lambda>r d'. (r, c\<lparr>part := Damage d'\<rparr>))
      in case param of
        CONDITION_PARAM_OWNER \<Rightarrow> set True (d\<lparr>damageOwner := value\<rparr>)
      | CONDITION_PARAM_FORCEUPDATE \<Rightarrow> set True (d\<lparr>forceUpdate := value \<noteq> 0\<rparr>)
      | CONDITION_PARAM_DELAYED \<Rightarrow> set True (d\<lparr>delayed := value \<noteq> 0\<rparr>)
      | CONDITION_PARAM_MAXVALUE \<Rightarrow> set ret (d\<lparr>maxDamage := abs32 value\<rparr>)
      | CONDITION_PARAM_MINVALUE \<Rightarrow> set ret (d\<lparr>minDamage := abs32 value\<rparr>)
      | CONDITION_PARAM_STARTVALUE \<Rightarrow> set ret (d\<lparr>startDamage := abs32 value\<rparr>)
      | CONDITION_PARAM_TICKINTERVAL \<Rightarrow> set ret (d\<lparr>tickInterval := abs32 value\<rparr>)
      | CONDITION_PARAM_PERIODICDAMAGE \<Rightarrow> set ret (d\<lparr>periodDamage := value\<rparr>)
      | CONDITION_PARAM_FIELD \<Rightarrow> set ret (d\<lparr>isField := value \<noteq> 0\<rparr>)
      | _ \<Rightarrow> (False, c))"

definition ConditionDamage_getParam :: "ConditionParam_t \<Rightarrow> DamagePart \<Rightarrow> Condition \<Rightarrow> s32" where
  "ConditionDamage_getParam param d c =
     (case param of
        CONDITION_PARAM_OWNER \<Rightarrow> damageOwner d
      | CONDITION_PARAM_FORCEUPDATE \<Rightarrow> bool_param (forceUpdate d)
      | CONDITION_PARAM_DELAYED \<Rightarrow> bool_param (delayed d)
      | CONDITION_PARAM_MAXVALUE \<Rightarrow> maxDamage d
      | CONDITION_PARAM_MINVALUE \<Rightarrow> minDamage d
      | CONDITION_PARAM_STARTVALUE \<Rightarrow> startDamage d
      | CONDITION_PARAM_TICKINTERVAL \<Rightarrow> tickInterval d
      | CONDITION_PARAM_PERIODICDAMAGE \<Rightarrow> periodDamage d
      | CONDITION_PARAM_FIELD \<Rightarrow> bool_param (isField d)
      | _ \<Rightarrow> Condition_getParam param c)"

definition ConditionSpeed_setParam ::
  "ConditionParam_t \<Rightarrow> s32 \<Rightarrow> SpeedPart \<Rightarrow> Condition \<Rightarrow> bool \<times> Condition" where
  "ConditionSpeed_setParam param value s c0 =
     (let c = snd (Condition_setParam param value c0)
      in if param \<noteq> CONDITION_PARAM_SPEED then (False, c)
         else (True, c\<lparr>conditionType := if sint value > 0 then CONDITION_HASTE else CONDITION_PARALYZE,
                      part := Speed (s\<lparr>speedDelta := value\<rparr>)\<rparr>))"

definition ConditionSpeed_getParam :: "ConditionParam_t \<Rightarrow> SpeedPart \<Rightarrow> Condition \<Rightarrow> s32" where
  "ConditionSpeed_getParam param s c =
     (case param of CONDITION_PARAM_SPEED \<Rightarrow> speedDelta s | _ \<Rightarrow> Condition_getParam param c)"

definition setFormulaVars :: "u32 \<Rightarrow> u32 \<Rightarrow> u32 \<Rightarrow> u32 \<Rightarrow> SpeedPart \<Rightarrow> SpeedPart" where
  "setFormulaVars va vb wa wb s = s\<lparr>mina := va, minb := vb, maxa := wa, maxb := wb\<rparr>"

definition ConditionLight_setParam ::
  "ConditionParam_t \<Rightarrow> s32 \<Rightarrow> LightPart \<Rightarrow> Condition \<Rightarrow> bool \<times> Condition" where
  "ConditionLight_setParam param value l c0 =
     (let (ret, c) = Condition_setParam param value c0
      in if ret then (False, c)
         else case param of
             CONDITION_PARAM_LIGHT_LEVEL \<Rightarrow> (True, c\<lparr>part := Light (l\<lparr>lightLevel := ucast value\<rparr>)\<rparr>)
           | CONDITION_PARAM_LIGHT_COLOR \<Rightarrow> (True, c\<lparr>part := Light (l\<lparr>lightColor := ucast value\<rparr>)\<rparr>)
           | _ \<Rightarrow> (False, c))"

definition ConditionLight_getParam :: "ConditionParam_t \<Rightarrow> LightPart \<Rightarrow> Condition \<Rightarrow> s32" where
  "ConditionLight_getParam param l c =
     (case param of
        CONDITION_PARAM_LIGHT_LEVEL \<Rightarrow> ucast (lightLevel l)
      | CONDITION_PARAM_LIGHT_COLOR \<Rightarrow> ucast (lightColor l)
      | _ \<Rightarrow> Condition_getParam param c)"

definition ConditionDrunk_setParam ::
  "ConditionParam_t \<Rightarrow> s32 \<Rightarrow> u8 \<Rightarrow> Condition \<Rightarrow> bool \<times> Condition" where
  "ConditionDrunk_setParam param value d c0 =
     (let (ret, c) = Condition_setParam param value c0
      in case param of
        CONDITION_PARAM_DRUNKENNESS \<Rightarrow> (True, c\<lparr>part := Drunk (ucast value)\<rparr>)
      | _ \<Rightarrow> (ret, c))"

definition ConditionFeared_setPositionParam ::
  "ConditionParam_t \<Rightarrow> Position \<Rightarrow> Condition \<Rightarrow> bool \<times> Condition" where
  "ConditionFeared_setPositionParam param p c =
     (if param \<noteq> CONDITION_PARAM_CASTER_POSITION then (False, c) else (True, c\<lparr>part := Feared p\<rparr>))"

definition setOutfit :: "Outfit_t \<Rightarrow> Condition \<Rightarrow> Condition" where
  "setOutfit outfit c = c\<lparr>part := Outfit outfit\<rparr>"

text \<open>The virtual methods.\<close>

definition setParam :: "ConditionParam_t \<Rightarrow> s32 \<Rightarrow> Condition \<Rightarrow> bool \<times> Condition" where
  "setParam param value c =
     (case part c of
        Attributes a \<Rightarrow> ConditionAttributes_setParam param value a c
      | Regeneration r \<Rightarrow> ConditionRegeneration_setParam param value r c
      | Soul s \<Rightarrow> ConditionSoul_setParam param value s c
      | Damage d \<Rightarrow> ConditionDamage_setParam param value d c
      | Speed s \<Rightarrow> ConditionSpeed_setParam param value s c
      | Light l \<Rightarrow> ConditionLight_setParam param value l c
      | Drunk d \<Rightarrow> ConditionDrunk_setParam param value d c
      | _ \<Rightarrow> Condition_setParam param value c)"

definition getParam :: "ConditionParam_t \<Rightarrow> Condition \<Rightarrow> s32" where
  "getParam param c =
     (case part c of
        Attributes a \<Rightarrow> ConditionAttributes_getParam param a c
      | Regeneration r \<Rightarrow> ConditionRegeneration_getParam param r c
      | Soul s \<Rightarrow> ConditionSoul_getParam param s c
      | Damage d \<Rightarrow> ConditionDamage_getParam param d c
      | Speed s \<Rightarrow> ConditionSpeed_getParam param s c
      | Light l \<Rightarrow> ConditionLight_getParam param l c
      | _ \<Rightarrow> Condition_getParam param c)"

definition setPositionParam :: "ConditionParam_t \<Rightarrow> Position \<Rightarrow> Condition \<Rightarrow> bool \<times> Condition" where
  "setPositionParam param p c =
     (case part c of Feared _ \<Rightarrow> ConditionFeared_setPositionParam param p c | _ \<Rightarrow> (False, c))"

section \<open>Writing a condition\<close>

definition Condition_serialize :: "Condition \<Rightarrow> PropWriteStream \<Rightarrow> PropWriteStream" where
  "Condition_serialize c =
     fold write_value
       ((if uint (conditionType c) > 4294967295
         then [PByte CONDITIONATTR_TYPE64, PU64 (conditionType c)]
         else [PByte CONDITIONATTR_TYPE, PU32 (ucast (conditionType c))]) @
        [PByte CONDITIONATTR_ID, PU32 (scast (condId c)),
         PByte CONDITIONATTR_TICKS, PU32 (ticks c),
         PByte CONDITIONATTR_ISBUFF, PByte (of_bool (isBuff c)),
         PByte CONDITIONATTR_SUBID, PU32 (subId c),
         PByte CONDITIONATTR_ISAGGRESSIVE, PByte (of_bool (aggressive c)),
         PByte CONDITIONATTR_CONSTANT, PByte (of_bool (isConstant c))] @
        (if isConstant c then [PByte CONDITIONATTR_ENDTIME, PU64 (endTime c)] else []))"

definition write_attrs :: "u8 \<Rightarrow> s32 list \<Rightarrow> prop_value list" where
  "write_attrs attr vs = concat (map (\<lambda>v. [PByte attr, PU32 v]) vs)"

definition ConditionAttributes_serialize ::
  "AttributesPart \<Rightarrow> Condition \<Rightarrow> PropWriteStream \<Rightarrow> PropWriteStream" where
  "ConditionAttributes_serialize a c w =
     fold write_value
       (write_attrs CONDITIONATTR_SKILLS (skills a) @
        write_attrs CONDITIONATTR_STATS (stats a) @
        [PByte CONDITIONATTR_DISABLEDEFENSE, PByte (of_bool (disableDefense a))] @
        write_attrs CONDITIONATTR_SPECIALSKILLS (specialSkills a) @
        write_attrs CONDITIONATTR_SPECIALSKILLS (drop RATE_BASE (experienceRate a)))
       (Condition_serialize c w)"

definition ConditionRegeneration_serialize ::
  "RegenerationPart \<Rightarrow> Condition \<Rightarrow> PropWriteStream \<Rightarrow> PropWriteStream" where
  "ConditionRegeneration_serialize r c w =
     fold write_value
       [PByte CONDITIONATTR_HEALTHTICKS, PU32 (healthTicks r),
        PByte CONDITIONATTR_HEALTHGAIN, PU32 (healthGain r),
        PByte CONDITIONATTR_HEALTHGAINPERCENT, PU32 (healthGainPercent r),
        PByte CONDITIONATTR_MANATICKS, PU32 (manaTicks r),
        PByte CONDITIONATTR_MANAGAIN, PU32 (manaGain r),
        PByte CONDITIONATTR_MANAGAINPERCENT, PU32 (manaGainPercent r)]
       (Condition_serialize c w)"

definition ConditionSoul_serialize :: "SoulPart \<Rightarrow> Condition \<Rightarrow> PropWriteStream \<Rightarrow> PropWriteStream" where
  "ConditionSoul_serialize s c w =
     fold write_value
       [PByte CONDITIONATTR_SOULGAIN, PU32 (soulGain s), PByte CONDITIONATTR_SOULTICKS, PU32 (soulTicks s)]
       (Condition_serialize c w)"

text \<open>An \<^verbatim>\<open>IntervalInfo\<close> is written as its three integers in memory order.\<close>

definition write_interval :: "IntervalInfo \<Rightarrow> prop_value list" where
  "write_interval i = [PByte CONDITIONATTR_INTERVALDATA, PU32 (timeLeft i), PU32 (ivalue i), PU32 (interval i)]"

definition ConditionDamage_serialize :: "DamagePart \<Rightarrow> Condition \<Rightarrow> PropWriteStream \<Rightarrow> PropWriteStream" where
  "ConditionDamage_serialize d c w =
     fold write_value
       ([PByte CONDITIONATTR_DELAYED, PByte (of_bool (delayed d)),
         PByte CONDITIONATTR_PERIODDAMAGE, PU32 (periodDamage d)] @
        concat (map write_interval (damageList d)))
       (Condition_serialize c w)"

definition ConditionSpeed_serialize :: "SpeedPart \<Rightarrow> Condition \<Rightarrow> PropWriteStream \<Rightarrow> PropWriteStream" where
  "ConditionSpeed_serialize s c w =
     fold write_value
       [PByte CONDITIONATTR_SPEEDDELTA, PU32 (speedDelta s),
        PByte CONDITIONATTR_FORMULA_MINA, PU32 (mina s),
        PByte CONDITIONATTR_FORMULA_MINB, PU32 (minb s),
        PByte CONDITIONATTR_FORMULA_MAXA, PU32 (maxa s),
        PByte CONDITIONATTR_FORMULA_MAXB, PU32 (maxb s)]
       (Condition_serialize c w)"

text \<open>
  \<^verbatim>\<open>sizeof(Outfit_t)\<close> is 14: four 16-bit and five 8-bit members, and a byte of padding to the
  alignment of 2. The fields written take 11 of them; zeros fill the rest.
\<close>

definition sizeof_Outfit :: nat where "sizeof_Outfit = 14"

definition ConditionOutfit_serialize :: "Outfit_t \<Rightarrow> Condition \<Rightarrow> PropWriteStream \<Rightarrow> PropWriteStream" where
  "ConditionOutfit_serialize f c w =
     fold write_value
       ([PByte CONDITIONATTR_OUTFIT, PU16 (lookType f), PU16 (lookTypeEx f), PU16 (lookMount f),
         PByte (lookHead f), PByte (lookBody f), PByte (lookLegs f), PByte (lookFeet f),
         PByte (lookAddons f)] @ replicate (sizeof_Outfit - (2 * 3 + 1 * 5)) (PByte 0))
       (Condition_serialize c w)"

definition ConditionLight_serialize :: "LightPart \<Rightarrow> Condition \<Rightarrow> PropWriteStream \<Rightarrow> PropWriteStream" where
  "ConditionLight_serialize l c w =
     fold write_value
       [PByte CONDITIONATTR_LIGHTCOLOR, PU32 (ucast (lightColor l)),
        PByte CONDITIONATTR_LIGHTLEVEL, PU32 (ucast (lightLevel l)),
        PByte CONDITIONATTR_LIGHTTICKS, PU32 (internalLightTicks l),
        PByte CONDITIONATTR_LIGHTINTERVAL, PU32 (lightChangeInterval l)]
       (Condition_serialize c w)"

definition serialize :: "Condition \<Rightarrow> PropWriteStream \<Rightarrow> PropWriteStream" where
  "serialize c =
     (case part c of
        Attributes a \<Rightarrow> ConditionAttributes_serialize a c
      | Regeneration r \<Rightarrow> ConditionRegeneration_serialize r c
      | Soul s \<Rightarrow> ConditionSoul_serialize s c
      | Damage d \<Rightarrow> ConditionDamage_serialize d c
      | Speed s \<Rightarrow> ConditionSpeed_serialize s c
      | Outfit f \<Rightarrow> ConditionOutfit_serialize f c
      | Light l \<Rightarrow> ConditionLight_serialize l c
      | _ \<Rightarrow> Condition_serialize c)"

section \<open>Reading a condition\<close>

text \<open>
  Reading one attribute gives whether it was understood, the condition and the rest of the stream.
  The attributes of a condition that changes skills go to the next free element of an array; \<open>None\<close>
  stands for a write outside the array.
\<close>

type_synonym prop_result = "(bool \<times> Condition \<times> PropStream) option"

definition read_to :: "('a::len word \<Rightarrow> Condition) \<Rightarrow> Condition \<Rightarrow> PropStream \<Rightarrow> prop_result" where
  "read_to upd c s =
     (case prop_read s of (None, s1) \<Rightarrow> Some (False, c, s1) | (Some v, s1) \<Rightarrow> Some (True, upd v, s1))"

definition Condition_unserializeProp :: "u8 \<Rightarrow> Condition \<Rightarrow> PropStream \<Rightarrow> prop_result" where
  "Condition_unserializeProp attr c s =
     (if attr = CONDITIONATTR_TYPE then read_to (\<lambda>v :: u32. c\<lparr>conditionType := ucast v\<rparr>) c s
      else if attr = CONDITIONATTR_TYPE64 then read_to (\<lambda>v :: u64. c\<lparr>conditionType := v\<rparr>) c s
      else if attr = CONDITIONATTR_ID then read_to (\<lambda>v :: s32. c\<lparr>condId := ucast v\<rparr>) c s
      else if attr = CONDITIONATTR_TICKS then read_to (\<lambda>v :: s32. c\<lparr>ticks := v\<rparr>) c s
      else if attr = CONDITIONATTR_ISBUFF then read_to (\<lambda>v :: u8. c\<lparr>isBuff := v \<noteq> 0\<rparr>) c s
      else if attr = CONDITIONATTR_SUBID then read_to (\<lambda>v :: u32. c\<lparr>subId := v\<rparr>) c s
      else if attr = CONDITIONATTR_ISAGGRESSIVE then read_to (\<lambda>v :: u8. c\<lparr>aggressive := v \<noteq> 0\<rparr>) c s
      else if attr = CONDITIONATTR_CONSTANT then read_to (\<lambda>v :: u8. c\<lparr>isConstant := v \<noteq> 0\<rparr>) c s
      else if attr = CONDITIONATTR_ENDTIME then read_to (\<lambda>v :: s64. c\<lparr>endTime := v\<rparr>) c s
      else if attr = CONDITIONATTR_END then Some (True, c, s)
      else Some (False, c, s))"

definition read_slot ::
  "nat \<Rightarrow> s32 list \<Rightarrow> (s32 list \<Rightarrow> AttributesPart) \<Rightarrow> Condition \<Rightarrow> PropStream \<Rightarrow> prop_result" where
  "read_slot i xs upd c s =
     (case prop_read s of
        (None, s1) \<Rightarrow> Some (False, c\<lparr>part := Attributes (upd xs)\<rparr>, s1)
      | (Some v, s1) \<Rightarrow>
          if i < length xs then Some (True, c\<lparr>part := Attributes (upd (xs[i := v]))\<rparr>, s1) else None)"

definition ConditionAttributes_unserializeProp ::
  "u8 \<Rightarrow> AttributesPart \<Rightarrow> Condition \<Rightarrow> PropStream \<Rightarrow> prop_result" where
  "ConditionAttributes_unserializeProp attr a c s =
     (if attr = CONDITIONATTR_SKILLS
      then read_slot (currentSkill a) (skills a) (\<lambda>xs. a\<lparr>skills := xs, currentSkill := currentSkill a + 1\<rparr>) c s
      else if attr = CONDITIONATTR_SPECIALSKILLS
      then read_slot (currentSpecialSkill a) (specialSkills a)
             (\<lambda>xs. a\<lparr>specialSkills := xs, currentSpecialSkill := currentSpecialSkill a + 1\<rparr>) c s
      else if attr = CONDITIONATTR_STATS
      then read_slot (currentStat a) (stats a) (\<lambda>xs. a\<lparr>stats := xs, currentStat := currentStat a + 1\<rparr>) c s
      else if attr = CONDITIONATTR_EXPERIENCERATE
      then read_slot (currentExperienceRate a) (experienceRate a)
             (\<lambda>xs. a\<lparr>experienceRate := xs, currentExperienceRate := currentExperienceRate a + 1\<rparr>) c s
      else if attr = CONDITIONATTR_DISABLEDEFENSE
      then read_to (\<lambda>v :: u8. c\<lparr>part := Attributes (a\<lparr>disableDefense := v \<noteq> 0\<rparr>)\<rparr>) c s
      else Condition_unserializeProp attr c s)"

definition ConditionRegeneration_unserializeProp ::
  "u8 \<Rightarrow> RegenerationPart \<Rightarrow> Condition \<Rightarrow> PropStream \<Rightarrow> prop_result" where
  "ConditionRegeneration_unserializeProp attr r c s =
     (if attr = CONDITIONATTR_HEALTHTICKS then read_to (\<lambda>v. c\<lparr>part := Regeneration (r\<lparr>healthTicks := v\<rparr>)\<rparr>) c s
      else if attr = CONDITIONATTR_HEALTHGAIN then read_to (\<lambda>v. c\<lparr>part := Regeneration (r\<lparr>healthGain := v\<rparr>)\<rparr>) c s
      else if attr = CONDITIONATTR_HEALTHGAINPERCENT
      then read_to (\<lambda>v. c\<lparr>part := Regeneration (r\<lparr>healthGainPercent := v\<rparr>)\<rparr>) c s
      else if attr = CONDITIONATTR_MANATICKS then read_to (\<lambda>v. c\<lparr>part := Regeneration (r\<lparr>manaTicks := v\<rparr>)\<rparr>) c s
      else if attr = CONDITIONATTR_MANAGAIN then read_to (\<lambda>v. c\<lparr>part := Regeneration (r\<lparr>manaGain := v\<rparr>)\<rparr>) c s
      else if attr = CONDITIONATTR_MANAGAINPERCENT
      then read_to (\<lambda>v. c\<lparr>part := Regeneration (r\<lparr>manaGainPercent := v\<rparr>)\<rparr>) c s
      else Condition_unserializeProp attr c s)"

definition ConditionSoul_unserializeProp :: "u8 \<Rightarrow> SoulPart \<Rightarrow> Condition \<Rightarrow> PropStream \<Rightarrow> prop_result" where
  "ConditionSoul_unserializeProp attr sp c s =
     (if attr = CONDITIONATTR_SOULGAIN then read_to (\<lambda>v. c\<lparr>part := Soul (sp\<lparr>soulGain := v\<rparr>)\<rparr>) c s
      else if attr = CONDITIONATTR_SOULTICKS then read_to (\<lambda>v. c\<lparr>part := Soul (sp\<lparr>soulTicks := v\<rparr>)\<rparr>) c s
      else Condition_unserializeProp attr c s)"

text \<open>A whole \<^verbatim>\<open>IntervalInfo\<close> is read, or nothing.\<close>

definition read_IntervalInfo :: "PropStream \<Rightarrow> IntervalInfo option \<times> PropStream" where
  "read_IntervalInfo s =
     (if prop_size s < 12 then (None, s)
      else (Some \<lparr>timeLeft = le_word (take 4 s), ivalue = le_word (take 4 (drop 4 s)),
                  interval = le_word (take 4 (drop 8 s))\<rparr>, drop 12 s))"

definition ConditionDamage_unserializeProp ::
  "s64 \<Rightarrow> u8 \<Rightarrow> DamagePart \<Rightarrow> Condition \<Rightarrow> PropStream \<Rightarrow> prop_result" where
  "ConditionDamage_unserializeProp now attr d c s =
     (if attr = CONDITIONATTR_DELAYED then read_to (\<lambda>v :: u8. c\<lparr>part := Damage (d\<lparr>delayed := v \<noteq> 0\<rparr>)\<rparr>) c s
      else if attr = CONDITIONATTR_PERIODDAMAGE
      then read_to (\<lambda>v. c\<lparr>part := Damage (d\<lparr>periodDamage := v\<rparr>)\<rparr>) c s
      else if attr = CONDITIONATTR_OWNER then (case prop_skip 4 s of (ok, s1) \<Rightarrow> Some (ok, c, s1))
      else if attr = CONDITIONATTR_INTERVALDATA
      then case read_IntervalInfo s of
          (None, s1) \<Rightarrow> Some (False, c, s1)
        | (Some info, s1) \<Rightarrow>
            let c1 = c\<lparr>part := Damage (d\<lparr>damageList := damageList d @ [info]\<rparr>)\<rparr>
            in Some (True, if ticks c1 \<noteq> - 1 then setTicks now (ticks c1 + interval info) c1 else c1, s1)
      else Condition_unserializeProp attr c s)"

definition ConditionSpeed_unserializeProp :: "u8 \<Rightarrow> SpeedPart \<Rightarrow> Condition \<Rightarrow> PropStream \<Rightarrow> prop_result" where
  "ConditionSpeed_unserializeProp attr sp c s =
     (if attr = CONDITIONATTR_SPEEDDELTA then read_to (\<lambda>v. c\<lparr>part := Speed (sp\<lparr>speedDelta := v\<rparr>)\<rparr>) c s
      else if attr = CONDITIONATTR_FORMULA_MINA then read_to (\<lambda>v. c\<lparr>part := Speed (sp\<lparr>mina := v\<rparr>)\<rparr>) c s
      else if attr = CONDITIONATTR_FORMULA_MINB then read_to (\<lambda>v. c\<lparr>part := Speed (sp\<lparr>minb := v\<rparr>)\<rparr>) c s
      else if attr = CONDITIONATTR_FORMULA_MAXA then read_to (\<lambda>v. c\<lparr>part := Speed (sp\<lparr>maxa := v\<rparr>)\<rparr>) c s
      else if attr = CONDITIONATTR_FORMULA_MAXB then read_to (\<lambda>v. c\<lparr>part := Speed (sp\<lparr>maxb := v\<rparr>)\<rparr>) c s
      else Condition_unserializeProp attr c s)"

text \<open>The bytes of an \<^verbatim>\<open>Outfit_t\<close> in memory order: every member at its own offset.\<close>

definition read_Outfit :: "PropStream \<Rightarrow> Outfit_t option \<times> PropStream" where
  "read_Outfit s =
     (if prop_size s < sizeof_Outfit then (None, s)
      else (Some \<lparr>lookType = le_word (take 2 s), lookTypeEx = le_word (take 2 (drop 2 s)),
                  lookMount = le_word (take 2 (drop 4 s)), lookFamiliar = le_word (take 2 (drop 6 s)),
                  lookHead = s ! 8, lookBody = s ! 9, lookLegs = s ! 10, lookFeet = s ! 11,
                  lookAddons = s ! 12\<rparr>, drop sizeof_Outfit s))"

definition ConditionOutfit_unserializeProp :: "u8 \<Rightarrow> Condition \<Rightarrow> PropStream \<Rightarrow> prop_result" where
  "ConditionOutfit_unserializeProp attr c s =
     (if attr = CONDITIONATTR_OUTFIT
      then case read_Outfit s of
          (None, s1) \<Rightarrow> Some (False, c, s1)
        | (Some f, s1) \<Rightarrow> Some (True, c\<lparr>part := Outfit f\<rparr>, s1)
      else Condition_unserializeProp attr c s)"

definition ConditionLight_unserializeProp :: "u8 \<Rightarrow> LightPart \<Rightarrow> Condition \<Rightarrow> PropStream \<Rightarrow> prop_result" where
  "ConditionLight_unserializeProp attr l c s =
     (if attr = CONDITIONATTR_LIGHTCOLOR then read_to (\<lambda>v. c\<lparr>part := Light (l\<lparr>lightColor := v\<rparr>)\<rparr>) c s
      else if attr = CONDITIONATTR_LIGHTLEVEL then read_to (\<lambda>v. c\<lparr>part := Light (l\<lparr>lightLevel := v\<rparr>)\<rparr>) c s
      else if attr = CONDITIONATTR_LIGHTTICKS
      then read_to (\<lambda>v. c\<lparr>part := Light (l\<lparr>internalLightTicks := v\<rparr>)\<rparr>) c s
      else if attr = CONDITIONATTR_LIGHTINTERVAL
      then read_to (\<lambda>v. c\<lparr>part := Light (l\<lparr>lightChangeInterval := v\<rparr>)\<rparr>) c s
      else Condition_unserializeProp attr c s)"

definition unserializeProp :: "s64 \<Rightarrow> u8 \<Rightarrow> Condition \<Rightarrow> PropStream \<Rightarrow> prop_result" where
  "unserializeProp now attr c s =
     (case part c of
        Attributes a \<Rightarrow> ConditionAttributes_unserializeProp attr a c s
      | Regeneration r \<Rightarrow> ConditionRegeneration_unserializeProp attr r c s
      | Soul sp \<Rightarrow> ConditionSoul_unserializeProp attr sp c s
      | Damage d \<Rightarrow> ConditionDamage_unserializeProp now attr d c s
      | Speed sp \<Rightarrow> ConditionSpeed_unserializeProp attr sp c s
      | Outfit _ \<Rightarrow> ConditionOutfit_unserializeProp attr c s
      | Light l \<Rightarrow> ConditionLight_unserializeProp attr l c s
      | _ \<Rightarrow> Condition_unserializeProp attr c s)"

text \<open>No attribute gives bytes back to the stream, so the loop over the attributes ends.\<close>

lemma read_to_shorter: "read_to upd c s = Some (ok, c', s') \<Longrightarrow> length s' \<le> length s"
  by (auto simp: read_to_def dest: prop_read_shorter split: prod.splits option.splits)

lemma read_slot_shorter: "read_slot i xs upd c s = Some (ok, c', s') \<Longrightarrow> length s' \<le> length s"
  by (auto simp: read_slot_def dest: prop_read_shorter split: prod.splits option.splits if_splits)

lemma Condition_unserializeProp_shorter:
  "Condition_unserializeProp attr c s = Some (ok, c', s') \<Longrightarrow> length s' \<le> length s"
  by (auto simp: Condition_unserializeProp_def dest: read_to_shorter split: if_splits)

lemmas unserializeProp_defs =
  ConditionAttributes_unserializeProp_def ConditionRegeneration_unserializeProp_def
  ConditionSoul_unserializeProp_def ConditionDamage_unserializeProp_def ConditionSpeed_unserializeProp_def
  ConditionOutfit_unserializeProp_def ConditionLight_unserializeProp_def

lemma unserializeProp_shorter:
  assumes "unserializeProp now attr c s = Some (ok, c', s')"
  shows "length s' \<le> length s"
  using assms unfolding unserializeProp_def unserializeProp_defs
  by (auto simp: prop_skip_def read_IntervalInfo_def read_Outfit_def Let_def
      dest: read_to_shorter read_slot_shorter Condition_unserializeProp_shorter
      split: ConditionPart.splits if_splits prod.splits option.splits)

function unserialize :: "s64 \<Rightarrow> Condition \<Rightarrow> PropStream \<Rightarrow> prop_result" where
  "unserialize now c s =
     (case prop_read s :: u8 option \<times> PropStream of
        (None, s1) \<Rightarrow> Some (True, c, s1)
      | (Some attr, s1) \<Rightarrow>
          if attr = CONDITIONATTR_END then Some (True, c, s1)
          else case unserializeProp now attr c s1 of
              None \<Rightarrow> None
            | Some (ok, c2, s2) \<Rightarrow> if ok then unserialize now c2 s2 else Some (False, c2, s2))"
  by pat_completeness auto

termination
  by (relation "measure (\<lambda>(_, _, s). length s)")
    (auto simp del: CONDITIONATTR_END_def dest!: prop_read_Some_shorter[OF sym] unserializeProp_shorter)

declare unserialize.simps [simp del]

text \<open>\<^verbatim>\<open>Condition::createCondition\<close> from a stream: the attributes of the base in their fixed order.\<close>

definition read_next :: "PropStream \<Rightarrow> ('a::len word \<times> PropStream) option" where
  "read_next s = (case prop_read s of (None, _) \<Rightarrow> None | (Some v, s1) \<Rightarrow> Some (v, s1))"

definition read_attr :: "u8 \<Rightarrow> PropStream \<Rightarrow> ('a::len word \<times> PropStream) option" where
  "read_attr a s = do { (attr, s1) \<leftarrow> read_next s; if attr \<noteq> a then None else read_next s1 }"

definition read_type :: "PropStream \<Rightarrow> (u64 \<times> PropStream) option" where
  "read_type s =
     do { (attr :: u8, s1) \<leftarrow> read_next s;
          if attr = CONDITIONATTR_TYPE then do { (v :: u32, s2) \<leftarrow> read_next s1; Some (ucast v, s2) }
          else if attr = CONDITIONATTR_TYPE64 then read_next s1
          else None }"

definition createCondition_from :: "PropStream \<Rightarrow> (Condition \<times> PropStream) option" where
  "createCondition_from s0 =
     do { (type, s1) \<leftarrow> read_type s0;
          if type = 0 \<or> type AND (type - 1) \<noteq> 0 then None else
          do { (ident :: u32, s2) \<leftarrow> read_attr CONDITIONATTR_ID s1;
               (tcks :: u32, s3) \<leftarrow> read_attr CONDITIONATTR_TICKS s2;
               (buff :: u8, s4) \<leftarrow> read_attr CONDITIONATTR_ISBUFF s3;
               (sub :: u32, s5) \<leftarrow> read_attr CONDITIONATTR_SUBID s4;
               (aggr :: u8, s6) \<leftarrow> read_attr CONDITIONATTR_ISAGGRESSIVE s5;
               (const :: u8, s7) \<leftarrow> read_attr CONDITIONATTR_CONSTANT s6;
               condition \<leftarrow> createCondition (ucast ident) type tcks 0 (buff \<noteq> 0) sub (aggr \<noteq> 0);
               if const \<noteq> 0
               then do { (et, s8) \<leftarrow> read_attr CONDITIONATTR_ENDTIME s7;
                         Some (setEndTime et (setConstant True condition), s8) }
               else Some (setConstant False condition, s7) } }"

section \<open>The conditions of a player\<close>

text \<open>The loops of \<^verbatim>\<open>IOLoginData::savePlayer\<close> and \<^verbatim>\<open>IOLoginData::loadPlayer\<close>.\<close>

definition saveConditions :: "Condition list \<Rightarrow> PropWriteStream" where
  "saveConditions cs =
     fold (\<lambda>c w. if isPersistent c \<or> isConstant c then prop_write CONDITIONATTR_END (serialize c w) else w) cs []"

lemma read_next_shorter:
  "read_next s = Some (v :: 'a::len word, s1) \<Longrightarrow> 8 \<le> LENGTH('a) \<Longrightarrow> length s1 < length s"
  by (auto simp: read_next_def dest: prop_read_Some_shorter split: prod.splits option.splits)

lemma read_next_shorter_eq: "read_next s = Some (v, s1) \<Longrightarrow> length s1 \<le> length s"
  by (auto simp: read_next_def dest: prop_read_shorter split: prod.splits option.splits)

lemma read_attr_shorter: "read_attr a s = Some (v, s1) \<Longrightarrow> length s1 \<le> length s"
  by (auto simp: read_attr_def bind_eq_Some_conv dest!: read_next_shorter_eq split: if_splits)

lemma read_type_shorter: "read_type s = Some (v, s1) \<Longrightarrow> length s1 < length s"
  by (auto simp: read_type_def bind_eq_Some_conv dest!: read_next_shorter split: if_splits)

lemma createCondition_from_shorter: "createCondition_from s = Some (c, s1) \<Longrightarrow> length s1 < length s"
  by (auto simp: createCondition_from_def bind_eq_Some_conv
      dest!: read_type_shorter read_attr_shorter split: if_splits)

lemma unserialize_shorter: "unserialize now c s = Some (ok, c', s') \<Longrightarrow> length s' \<le> length s"
proof (induction now c s rule: unserialize.induct)
  case (1 now c s)
  obtain r s1 where r: "(prop_read s :: u8 option \<times> PropStream) = (r, s1)" by fastforce
  note le = prop_read_shorter[OF r]
  show ?case
  proof (cases "r = None \<or> r = Some CONDITIONATTR_END")
    case True
    with 1(2) r le show ?thesis by (auto simp: unserialize.simps[of now c s])
  next
    case False
    then obtain attr where attr: "r = Some attr" "attr \<noteq> CONDITIONATTR_END" by auto
    with 1(2) r obtain b c2 s2 where u: "unserializeProp now attr c s1 = Some (b, c2, s2)"
      by (auto simp: unserialize.simps[of now c s] simp del: CONDITIONATTR_END_def split: option.splits)
    from unserializeProp_shorter[OF this] le have le2: "length s2 \<le> length s" by simp
    show ?thesis
    proof (cases b)
      case True
      with 1(2) r attr u have "unserialize now c2 s2 = Some (ok, c', s')"
        by (simp add: unserialize.simps[of now c s] del: CONDITIONATTR_END_def)
      from 1(1)[OF r[symmetric] attr u refl refl True this] le2 show ?thesis by simp
    next
      case False
      with 1(2) r attr u le2 show ?thesis
        by (simp add: unserialize.simps[of now c s] del: CONDITIONATTR_END_def)
    qed
  qed
qed

function load_loop :: "s64 \<Rightarrow> PropStream \<Rightarrow> Condition list \<Rightarrow> Condition list option" where
  "load_loop now s stored =
     (case createCondition_from s of
        None \<Rightarrow> Some stored
      | Some (c, s1) \<Rightarrow>
          (case unserialize now c s1 of
             None \<Rightarrow> None
           | Some (ok, c2, s2) \<Rightarrow> load_loop now s2 (if ok then c2 # stored else stored)))"
  by pat_completeness auto

termination
  by (relation "measure (\<lambda>(_, s, _). length s)")
    (auto dest!: createCondition_from_shorter unserialize_shorter)

declare load_loop.simps [simp del]

definition loadConditions :: "s64 \<Rightarrow> PropStream \<Rightarrow> Condition list option" where
  "loadConditions now s = load_loop now s []"

end
