(* ===== verification/ConditionEffects.thy ===== *)
theory ConditionEffects
  imports Conditions
begin

text \<open>
  What conditions do to the creature that has them, \<^verbatim>\<open>src/src/condition.cpp\<close>: how each derived type starts, runs,
  is renewed and ends. \<open>Creature\<close> holds the members of \<^verbatim>\<open>Creature\<close> and \<^verbatim>\<open>Player\<close> that they read or change; calls
  into the rest of the server (walking, messages to clients, tasks) are recorded in \<open>calls\<close>, in order. What the
  operations ask the rest of the server, and what they compute in floating point, comes in the record \<open>Env\<close>.
\<close>

section \<open>The creature\<close>

datatype CreatureKind = KPlayer | KMonster | KNpc

datatype Call =
    StopEventWalk | ChangeSpeed s32 | ChangeVisible bool | ChangeOutfit Outfit_t | ChangeLight
  | AutoWalk "Direction list" | SendSpellCooldown u16 s32 | SendSpellGroupCooldown u32 s32
  | SendSkills | SendStats | SendIcons | AddCreatureHealth | ExecuteDeath | SendHealed s32 | SendGainedMana s32
  | UpdateIdleStatus | OnIdleStatus | ClearAttacked | UpdateSkull
  | ForceAddCondition s64 Condition | ForceRemoveCondition s64 ConditionType_t
  | SendCombatCondition ConditionType_t | ClearIgnoreFieldDamage | MayDestroyItem ConditionId_t
  | SetIdle bool

record LightInfo =
  level :: u8
  color :: u8

record Creature =
  kind :: CreatureKind
  position :: Position
  conditions :: "(nat \<times> Condition) list"
  conditionImmunities :: u64
  conditionSuppressions :: u64
  flagCannotBeAttacked :: bool
  rootImmunityEnd :: s64
  fearImmunityEnd :: s64
  removed :: bool
  health :: s32
  healthMax :: s32
  resetHpBonus :: s32
  mana :: u32
  manaMax :: u32
  resetManaBonus :: s32
  flagInfiniteMana :: bool
  soul :: u8
  soulMax :: u8
  baseSpeed :: u32
  varSpeed :: s32
  drunkenness :: u8
  currentOutfit :: Outfit_t
  defaultOutfit :: Outfit_t
  internalLight :: LightInfo
  normalLight :: LightInfo
  canUseDefense :: bool
  baseSkills :: "u16 list"
  magLevel :: u32
  capacity :: u32
  flagCannotPickupItem :: bool
  flagInfiniteCapacity :: bool
  varSkills :: "s32 list"
  varSpecialSkills :: "s32 list"
  varStats :: "s32 list"
  rates :: "s32 list"
  pzLocked :: bool
  calls :: "Call list"

text \<open>
  \<open>percentOf base k\<close> is \<^verbatim>\<open>static_cast<int32_t>(base * (k / 100.f))\<close>, \<open>formulaValues\<close> the pair of
  \<^verbatim>\<open>std::fma\<close> values of \<^verbatim>\<open>getFormulaValues\<close>, \<open>generateDamageList\<close> the list of the method of that name;
  \<open>combat\<close> is what \<^verbatim>\<open>doDamage\<close> does once its own checks are passed.
\<close>

record Env =
  now :: s64
  protectionZone :: bool
  walkDelay :: s64
  random :: "s32 \<Rightarrow> s32 \<Rightarrow> s32"
  percentOf :: "int \<Rightarrow> int \<Rightarrow> s32"
  formulaValues :: "u32 \<Rightarrow> SpeedPart \<Rightarrow> s32 \<times> s32"
  generateDamageList :: "s32 \<Rightarrow> s32 \<Rightarrow> s32 list"
  fieldCombatType :: "u16 option"
  getPathTo :: "Position \<Rightarrow> Direction list option"
  worldPvpEnforced :: bool
  canDoAction :: bool
  nextActionTime :: u32
  onChangeOutfit :: "Outfit_t \<Rightarrow> bool"
  combat :: "Condition \<Rightarrow> s32 \<Rightarrow> Creature \<Rightarrow> bool \<times> Creature"

definition call :: "Call \<Rightarrow> Creature \<Rightarrow> Creature" where
  "call x cr = cr\<lparr>calls := calls cr @ [x]\<rparr>"

definition isPlayer :: "Creature \<Rightarrow> bool" where
  "isPlayer cr \<longleftrightarrow> kind cr = KPlayer"

definition isDead :: "Creature \<Rightarrow> bool" where
  "isDead cr \<longleftrightarrow> sint (health cr) \<le> 0"

definition smax :: "s32 \<Rightarrow> s32 \<Rightarrow> s32" where
  "smax a b = (if sint a < sint b then b else a)"

definition smin :: "s32 \<Rightarrow> s32 \<Rightarrow> s32" where
  "smin a b = (if sint b < sint a then b else a)"

definition getMaxHealth :: "Creature \<Rightarrow> s32" where
  "getMaxHealth cr =
     (if isPlayer cr then smax 1 (healthMax cr + varStats cr ! STAT_MAXHITPOINTS + resetHpBonus cr) else healthMax cr)"

definition getMaxMana :: "Creature \<Rightarrow> u32" where
  "getMaxMana cr = smax 0 (manaMax cr + varStats cr ! STAT_MAXMANAPOINTS + resetManaBonus cr)"

definition getCapacity :: "Creature \<Rightarrow> u32" where
  "getCapacity cr =
     (if flagCannotPickupItem cr then 0
      else if flagInfiniteCapacity cr then - 1
      else smax 0 (capacity cr + varStats cr ! STAT_CAPACITY))"

definition Creature_changeHealth :: "s32 \<Rightarrow> Creature \<Rightarrow> Creature" where
  "Creature_changeHealth healthChange cr =
     (let h = (if sint healthChange > 0 then health cr + smin healthChange (getMaxHealth cr - health cr)
               else smax 0 (health cr + healthChange));
          cr1 = cr\<lparr>health := h\<rparr>;
          cr2 = (if h \<noteq> health cr then call AddCreatureHealth cr1 else cr1)
      in if isDead cr2 then call ExecuteDeath cr2 else cr2)"

definition changeHealth :: "s32 \<Rightarrow> Creature \<Rightarrow> Creature" where
  "changeHealth healthChange cr =
     (let cr1 = Creature_changeHealth healthChange (if kind cr = KMonster then call (SetIdle False) cr else cr)
      in if isPlayer cr \<and> health cr1 \<noteq> health cr then call SendStats cr1 else cr1)"

definition changeMana :: "s32 \<Rightarrow> Creature \<Rightarrow> Creature" where
  "changeMana manaChange cr =
     (let m = (if flagInfiniteMana cr then mana cr
               else if sint manaChange > 0 then mana cr + smin manaChange (getMaxMana cr - mana cr)
               else smax 0 (mana cr + manaChange))
      in if m \<noteq> mana cr then call SendStats (cr\<lparr>mana := m\<rparr>) else cr\<lparr>mana := m\<rparr>)"

definition changeSoul :: "s32 \<Rightarrow> Creature \<Rightarrow> Creature" where
  "changeSoul soulChange cr =
     (let s = (if sint soulChange > 0
               then soul cr + ucast (smin soulChange (ucast (soulMax cr) - ucast (soul cr)))
               else ucast (smax 0 (ucast (soul cr) + soulChange)))
      in if s \<noteq> soul cr then call SendStats (cr\<lparr>soul := s\<rparr>) else cr\<lparr>soul := s\<rparr>)"

definition changeSpeed :: "s32 \<Rightarrow> Creature \<Rightarrow> Creature" where
  "changeSpeed varSpeedDelta cr = call (ChangeSpeed varSpeedDelta) (cr\<lparr>varSpeed := varSpeed cr + varSpeedDelta\<rparr>)"

definition isInvisible :: "Creature \<Rightarrow> bool" where
  "isInvisible cr \<longleftrightarrow> list_ex (\<lambda>(_, c). conditionType c = CONDITION_INVISIBLE) (conditions cr)"

definition internalCreatureChangeOutfit :: "Env \<Rightarrow> Outfit_t \<Rightarrow> Creature \<Rightarrow> Creature" where
  "internalCreatureChangeOutfit env outfit cr =
     (if \<not> onChangeOutfit env outfit then cr
      else let cr1 = cr\<lparr>currentOutfit := outfit\<rparr>
           in if isInvisible cr1 then cr1 else call (ChangeOutfit outfit) cr1)"

definition hasBitSet :: "u64 \<Rightarrow> u64 \<Rightarrow> bool" where
  "hasBitSet flag flags \<longleftrightarrow> flags AND flag \<noteq> 0"

definition isImmune :: "Env \<Rightarrow> ConditionType_t \<Rightarrow> Creature \<Rightarrow> bool" where
  "isImmune env type cr \<longleftrightarrow>
     isPlayer cr \<and> (flagCannotBeAttacked cr \<or>
       type = CONDITION_ROOTED \<and> sint (now env) \<le> sint (rootImmunityEnd cr) \<or>
       type = CONDITION_FEARED \<and> sint (now env) \<le> sint (fearImmunityEnd cr)) \<or>
     hasBitSet type (conditionImmunities cr)"

definition isSuppress :: "ConditionType_t \<Rightarrow> Creature \<Rightarrow> bool" where
  "isSuppress type cr \<longleftrightarrow> hasBitSet type (conditionSuppressions cr)"

section \<open>All conditions\<close>

definition Condition_startCondition :: "Env \<Rightarrow> Condition \<Rightarrow> Condition" where
  "Condition_startCondition env c =
     (if sint (ticks c) > 0 \<and> endTime c = 0 then setEndTime (scast (ticks c) + now env) c else c)"

definition Condition_executeCondition :: "Env \<Rightarrow> s32 \<Rightarrow> Condition \<Rightarrow> bool \<times> Condition" where
  "Condition_executeCondition env ival c =
     (if ticks c = - 1 then (True, c)
      else (sint (endTime c) \<ge> sint (now env), c\<lparr>ticks := smax 0 (ticks c - ival)\<rparr>))"

definition Condition_updateCondition :: "Env \<Rightarrow> Condition \<Rightarrow> Condition \<Rightarrow> bool" where
  "Condition_updateCondition env add c \<longleftrightarrow>
     conditionType c = conditionType add \<and>
     \<not> (ticks c = - 1 \<and> sint (ticks add) > 0) \<and>
     \<not> (sint (ticks add) \<ge> 0 \<and> sint (endTime c) > sint (now env + scast (ticks add)))"

definition renew :: "Env \<Rightarrow> Condition \<Rightarrow> Condition \<Rightarrow> Condition" where
  "renew env add c = setTicks (now env) (ticks add) c"

section \<open>Conditions that change attributes\<close>

definition updatePercentSkills :: "Env \<Rightarrow> Creature \<Rightarrow> AttributesPart \<Rightarrow> AttributesPart" where
  "updatePercentSkills env cr a =
     fold (\<lambda>i a. if skillsPercent a ! i = 0 then a
             else with_skill i (percentOf env (uint (baseSkills cr ! i)) (sint (skillsPercent a ! i - 100))) a)
       [0..<SKILL_LAST + 1] a"

definition updatePercentStats :: "Env \<Rightarrow> Creature \<Rightarrow> AttributesPart \<Rightarrow> AttributesPart" where
  "updatePercentStats env cr a =
     fold (\<lambda>i a. if statsPercent a ! i = 0 then a
             else let p = (\<lambda>base. with_stat i (percentOf env base (sint (statsPercent a ! i - 100))) a)
                  in if i = STAT_MAXHITPOINTS then p (sint (getMaxHealth cr))
                     else if i = STAT_MAXMANAPOINTS then p (uint (getMaxMana cr))
                     else if i = STAT_MAGICPOINTS then p (uint (magLevel cr))
                     else if i = STAT_CAPACITY then p (uint (getCapacity cr))
                     else a)
       [0..<STAT_LAST + 1] a"

definition setVarSkill :: "nat \<Rightarrow> s32 \<Rightarrow> Creature \<Rightarrow> Creature" where
  "setVarSkill i modifier cr = cr\<lparr>varSkills := (varSkills cr)[i := varSkills cr ! i + modifier]\<rparr>"

definition setVarSpecialSkill :: "nat \<Rightarrow> s32 \<Rightarrow> Creature \<Rightarrow> Creature" where
  "setVarSpecialSkill i modifier cr =
     cr\<lparr>varSpecialSkills := (varSpecialSkills cr)[i := varSpecialSkills cr ! i + modifier]\<rparr>"

definition setVarStats :: "nat \<Rightarrow> s32 \<Rightarrow> Creature \<Rightarrow> Creature" where
  "setVarStats i modifier cr0 =
     (let cr = cr0\<lparr>varStats := (varStats cr0)[i := varStats cr0 ! i + modifier]\<rparr>
      in if i = STAT_MAXHITPOINTS
         then if sint (health cr) > sint (getMaxHealth cr)
              then Creature_changeHealth (getMaxHealth cr - health cr) cr
              else call AddCreatureHealth cr
         else if i = STAT_MAXMANAPOINTS
         then if mana cr > getMaxMana cr then changeMana (getMaxMana cr - mana cr) cr else cr
         else cr)"

definition setExperienceRate :: "nat \<Rightarrow> s32 \<Rightarrow> Creature \<Rightarrow> Creature" where
  "setExperienceRate i rate cr = cr\<lparr>rates := (rates cr)[i := rate]\<rparr>"

definition addExperienceRate :: "nat \<Rightarrow> s32 \<Rightarrow> Creature \<Rightarrow> Creature" where
  "addExperienceRate i rate cr = cr\<lparr>rates := (rates cr)[i := rates cr ! i + rate]\<rparr>"

definition call_if :: "bool \<Rightarrow> Call list \<Rightarrow> Creature \<Rightarrow> Creature" where
  "call_if b xs cr = (if b then fold call xs cr else cr)"

definition updateSkills :: "AttributesPart \<Rightarrow> Creature \<Rightarrow> Creature" where
  "updateSkills a cr =
     (let cr1 = fold (\<lambda>i cr. if skills a ! i \<noteq> 0 then setVarSkill i (skills a ! i) cr else cr) [0..<SKILL_LAST + 1] cr;
          cr2 = fold (\<lambda>i cr. if specialSkills a ! i \<noteq> 0 then setVarSpecialSkill i (specialSkills a ! i) cr else cr)
                  [0..<SPECIALSKILL_LAST + 1] cr1;
          needUpdateSkills = list_ex (\<lambda>i. skills a ! i \<noteq> 0) [0..<SKILL_LAST + 1] \<or>
            list_ex (\<lambda>i. specialSkills a ! i \<noteq> 0) [0..<SPECIALSKILL_LAST + 1]
      in call_if needUpdateSkills [SendSkills] cr2)"

definition updateStats :: "AttributesPart \<Rightarrow> Creature \<Rightarrow> Creature" where
  "updateStats a cr =
     (let cr1 = fold (\<lambda>i cr. if stats a ! i \<noteq> 0 then setVarStats i (stats a ! i) cr else cr) [0..<STAT_LAST + 1] cr
      in call_if (list_ex (\<lambda>i. stats a ! i \<noteq> 0) [0..<STAT_LAST + 1]) [SendStats, SendSkills] cr1)"

definition updateExperienceRate :: "AttributesPart \<Rightarrow> Creature \<Rightarrow> Creature" where
  "updateExperienceRate a cr =
     fold (\<lambda>i cr. if experienceRate a ! i \<noteq> 0 then setExperienceRate i (experienceRate a ! i) cr else cr)
       [RATE_BASE..<RATE_STAMINA + 1] cr"

text \<open>Applying the skills and stats, shared by starting and renewing.\<close>

definition apply_attributes :: "Env \<Rightarrow> AttributesPart \<Rightarrow> Creature \<Rightarrow> AttributesPart \<times> Creature" where
  "apply_attributes env a cr =
     (let a1 = updatePercentSkills env cr a;
          cr1 = updateSkills a1 cr;
          a2 = updatePercentStats env cr1 a1
      in (a2, updateStats a2 cr1))"

definition ConditionAttributes_startCondition ::
  "Env \<Rightarrow> AttributesPart \<Rightarrow> Condition \<Rightarrow> Creature \<Rightarrow> bool \<times> Condition \<times> Creature" where
  "ConditionAttributes_startCondition env a c0 cr0 =
     (let c = Condition_startCondition env c0; cr = cr0\<lparr>canUseDefense := \<not> disableDefense a\<rparr>
      in if isPlayer cr
         then let (a1, cr1) = apply_attributes env a cr
              in (True, c\<lparr>part := Attributes a1\<rparr>, updateExperienceRate a1 cr1)
         else (True, c, cr))"

definition ConditionAttributes_endCondition :: "AttributesPart \<Rightarrow> Creature \<Rightarrow> Creature" where
  "ConditionAttributes_endCondition a cr0 =
     (let cr = (if isPlayer cr0
        then let cr1 = fold (\<lambda>i cr. if skills a ! i \<noteq> 0 \<or> skillsPercent a ! i \<noteq> 0
                    then setVarSkill i (- (skills a ! i)) cr else cr) [0..<SKILL_LAST + 1] cr0;
                 cr2 = fold (\<lambda>i cr. if specialSkills a ! i \<noteq> 0
                    then setVarSpecialSkill i (- (specialSkills a ! i)) cr else cr) [0..<SPECIALSKILL_LAST + 1] cr1;
                 needUpdateSkills = list_ex (\<lambda>i. skills a ! i \<noteq> 0 \<or> skillsPercent a ! i \<noteq> 0) [0..<SKILL_LAST + 1] \<or>
                   list_ex (\<lambda>i. specialSkills a ! i \<noteq> 0) [0..<SPECIALSKILL_LAST + 1];
                 cr3 = call_if needUpdateSkills [SendSkills] cr2;
                 cr4 = fold (\<lambda>i cr. if stats a ! i \<noteq> 0 then setVarStats i (- (stats a ! i)) cr else cr)
                    [0..<STAT_LAST + 1] cr3;
                 cr5 = call_if (list_ex (\<lambda>i. stats a ! i \<noteq> 0) [0..<STAT_LAST + 1]) [SendStats, SendSkills] cr4
             in fold (\<lambda>i cr. if experienceRate a ! i \<noteq> 0 then addExperienceRate i (- (experienceRate a ! i)) cr else cr)
                  [RATE_BASE..<RATE_STAMINA + 1] cr5
        else cr0)
      in if disableDefense a then cr\<lparr>canUseDefense := True\<rparr> else cr)"

definition ConditionAttributes_addCondition ::
  "Env \<Rightarrow> Condition \<Rightarrow> AttributesPart \<Rightarrow> Condition \<Rightarrow> Creature \<Rightarrow> Condition \<times> Creature" where
  "ConditionAttributes_addCondition env add a c cr =
     (case part add of
        Attributes b \<Rightarrow>
          if Condition_updateCondition env add c
          then let c1 = renew env add c;
                   cr1 = ConditionAttributes_endCondition a cr;
                   a1 = a\<lparr>skills := skills b, specialSkills := specialSkills b, skillsPercent := skillsPercent b,
                     stats := stats b, statsPercent := statsPercent b, experienceRate := experienceRate b,
                     disableDefense := disableDefense b\<rparr>
               in if isPlayer cr1
                  then let (a2, cr2) = apply_attributes env a1 cr1 in (c1\<lparr>part := Attributes a2\<rparr>, cr2)
                  else (c1\<lparr>part := Attributes a1\<rparr>, cr1)
          else (c, cr)
      | _ \<Rightarrow> (c, cr))"

section \<open>Regeneration and soul\<close>

definition regenerate_health :: "Env \<Rightarrow> Condition \<Rightarrow> RegenerationPart \<Rightarrow> Creature \<Rightarrow> Creature" where
  "regenerate_health env c r cr =
     (if sint (health cr) < sint (getMaxHealth cr)
      then let healAmount = healthGain r +
                 (if healthGainPercent r \<noteq> 0 then percentOf env (sint (getMaxHealth cr)) (uint (healthGainPercent r - 100)) else 0);
               cr1 = changeHealth healAmount cr;
               realHealthGain = health cr1 - health cr
           in if isBuff c \<and> sint realHealthGain > 0 \<and> isPlayer cr1 then call (SendHealed realHealthGain) cr1 else cr1
      else cr)"

definition regenerate_mana :: "Env \<Rightarrow> Condition \<Rightarrow> RegenerationPart \<Rightarrow> Creature \<Rightarrow> Creature" where
  "regenerate_mana env c r cr =
     (if isPlayer cr \<and> mana cr < getMaxMana cr
      then let manaAmount = manaGain r +
                 (if manaGainPercent r \<noteq> 0 then percentOf env (uint (getMaxMana cr)) (uint (manaGainPercent r - 100)) else 0);
               cr1 = changeMana manaAmount cr;
               realManaGain = mana cr1 - mana cr
           in if isBuff c \<and> sint realManaGain > 0 then call (SendGainedMana realManaGain) cr1 else cr1
      else cr)"

definition ConditionRegeneration_executeCondition ::
  "Env \<Rightarrow> s32 \<Rightarrow> RegenerationPart \<Rightarrow> Condition \<Rightarrow> Creature \<Rightarrow> bool \<times> Condition \<times> Creature" where
  "ConditionRegeneration_executeCondition env ival r0 c cr0 =
     (let r1 = r0\<lparr>internalHealthTicks := internalHealthTicks r0 + ival, internalManaTicks := internalManaTicks r0 + ival\<rparr>;
          (r, cr) =
            (if protectionZone env then (r1, cr0)
             else let (r2, cr1) = (if internalHealthTicks r1 \<ge> healthTicks r1
                        then (r1\<lparr>internalHealthTicks := 0\<rparr>, regenerate_health env c r1 cr0) else (r1, cr0))
                  in if internalManaTicks r2 \<ge> manaTicks r2
                     then (r2\<lparr>internalManaTicks := 0\<rparr>, regenerate_mana env c r2 cr1) else (r2, cr1));
          (ret, c1) = Condition_executeCondition env ival (c\<lparr>part := Regeneration r\<rparr>)
      in (ret, c1, cr))"

definition ConditionRegeneration_addCondition :: "Env \<Rightarrow> Condition \<Rightarrow> RegenerationPart \<Rightarrow> Condition \<Rightarrow> Condition" where
  "ConditionRegeneration_addCondition env add r c =
     (case part add of
        Regeneration q \<Rightarrow>
          if Condition_updateCondition env add c
          then (renew env add c)\<lparr>part := Regeneration (r\<lparr>healthTicks := healthTicks q, manaTicks := manaTicks q,
                 healthGain := healthGain q, healthGainPercent := healthGainPercent q, manaGain := manaGain q,
                 manaGainPercent := manaGainPercent q\<rparr>)\<rparr>
          else c
      | _ \<Rightarrow> c)"

definition ConditionSoul_executeCondition ::
  "Env \<Rightarrow> s32 \<Rightarrow> SoulPart \<Rightarrow> Condition \<Rightarrow> Creature \<Rightarrow> bool \<times> Condition \<times> Creature" where
  "ConditionSoul_executeCondition env ival s0 c cr0 =
     (let s1 = s0\<lparr>internalSoulTicks := internalSoulTicks s0 + ival\<rparr>;
          (s, cr) = (if isPlayer cr0 \<and> \<not> protectionZone env \<and> internalSoulTicks s1 \<ge> soulTicks s1
                     then (s1\<lparr>internalSoulTicks := 0\<rparr>, changeSoul (soulGain s1) cr0) else (s1, cr0));
          (ret, c1) = Condition_executeCondition env ival (c\<lparr>part := Soul s\<rparr>)
      in (ret, c1, cr))"

definition ConditionSoul_addCondition :: "Env \<Rightarrow> Condition \<Rightarrow> SoulPart \<Rightarrow> Condition \<Rightarrow> Condition" where
  "ConditionSoul_addCondition env add s c =
     (case part add of
        Soul q \<Rightarrow>
          if Condition_updateCondition env add c
          then (renew env add c)\<lparr>part := Soul (s\<lparr>soulTicks := soulTicks q, soulGain := soulGain q\<rparr>)\<rparr>
          else c
      | _ \<Rightarrow> c)"

section \<open>Damage over time\<close>

text \<open>
  A condition object is known by its address \<open>pid\<close> among the conditions of the creature. \<^verbatim>\<open>doDamage\<close> may run any part
  of the server, so the object is stored before the call and read again after it.
\<close>

definition put_condition :: "nat \<Rightarrow> Condition \<Rightarrow> Creature \<Rightarrow> Creature" where
  "put_condition pid c cr = cr\<lparr>conditions := map (\<lambda>(i, d). (i, if i = pid then c else d)) (conditions cr)\<rparr>"

definition condition_at :: "nat \<Rightarrow> Condition \<Rightarrow> Creature \<Rightarrow> Condition" where
  "condition_at pid c cr = (case map_of (conditions cr) pid of None \<Rightarrow> c | Some d \<Rightarrow> d)"

definition EVENT_CREATURE_THINK_INTERVAL :: s32 where "EVENT_CREATURE_THINK_INTERVAL = 1000"

definition doDamage :: "Env \<Rightarrow> Condition \<Rightarrow> s32 \<Rightarrow> Creature \<Rightarrow> bool \<times> Creature" where
  "doDamage env c healthChange cr =
     (if isDead cr \<or> removed cr then (False, cr)
      else if isSuppress (conditionType c) cr \<or> isImmune env (conditionType c) cr then (False, cr)
      else combat env c healthChange cr)"

fun addDamage_loop :: "Env \<Rightarrow> nat \<Rightarrow> IntervalInfo \<Rightarrow> DamagePart \<Rightarrow> Condition \<Rightarrow> DamagePart \<times> Condition" where
  "addDamage_loop env 0 info d c = (d, c)"
| "addDamage_loop env (Suc n) info d c =
     addDamage_loop env n info (d\<lparr>damageList := damageList d @ [info]\<rparr>)
       (if ticks c \<noteq> - 1 then setTicks (now env) (ticks c + interval info) c else c)"

definition addDamage ::
  "Env \<Rightarrow> s32 \<Rightarrow> s32 \<Rightarrow> s32 \<Rightarrow> DamagePart \<Rightarrow> Condition \<Rightarrow> bool \<times> DamagePart \<times> Condition" where
  "addDamage env rounds time0 value d c =
     (let time = smax time0 EVENT_CREATURE_THINK_INTERVAL
      in if rounds = - 1
         then (True, d\<lparr>periodDamage := value, tickInterval := abs32 time\<rparr>, c\<lparr>ticks := - 1\<rparr>)
         else if sint (periodDamage d) > 0 then (False, d, c)
         else let (d1, c1) = addDamage_loop env (nat (sint rounds)) \<lparr>timeLeft = time, ivalue = value, interval = time\<rparr> d c
              in (True, d1, c1))"

definition first_damage :: "s32 \<Rightarrow> DamagePart \<Rightarrow> DamagePart" where
  "first_damage amount d =
     (if sint (startDamage d) > sint (maxDamage d) then d\<lparr>startDamage := maxDamage d\<rparr>
      else if startDamage d = 0 then d\<lparr>startDamage := smax 1 (word_of_int (- (- sint amount div 20)))\<rparr>
      else d)"

definition damage_init :: "Env \<Rightarrow> DamagePart \<Rightarrow> Condition \<Rightarrow> bool \<times> DamagePart \<times> Condition" where
  "damage_init env d c =
     (if periodDamage d \<noteq> 0 then (True, d, c)
      else if damageList d \<noteq> [] then (True, d, c)
      else let c1 = setTicks (now env) 0 c; amount = random env (minDamage d) (maxDamage d);
               (d2, c2) = (if amount \<noteq> 0
                 then let d1 = first_damage amount d
                      in fold (\<lambda>value (d, c). snd (addDamage env 1 (tickInterval d) (- value) d c))
                           (generateDamageList env amount (startDamage d1)) (d1, c1)
                 else (d, c1))
           in (damageList d2 \<noteq> [], d2, c2))"

definition getTotalDamage :: "DamagePart \<Rightarrow> s32" where
  "getTotalDamage d =
     abs32 (if damageList d \<noteq> [] then (\<Sum>i \<leftarrow> damageList d. ivalue i)
            else minDamage d + (let k = sint (maxDamage d - minDamage d)
                                in word_of_int (if k < 0 then - (- k div 2) else k div 2)))"

definition ConditionDamage_updateCondition :: "DamagePart \<Rightarrow> Condition \<Rightarrow> DamagePart \<Rightarrow> Condition \<Rightarrow> bool" where
  "ConditionDamage_updateCondition b add d c \<longleftrightarrow>
     forceUpdate b \<or> \<not> (ticks c = - 1 \<and> sint (ticks add) > 0) \<and> sint (getTotalDamage b) > sint (getTotalDamage d)"

definition getNextDamage :: "DamagePart \<Rightarrow> Condition \<Rightarrow> s32 option \<times> DamagePart" where
  "getNextDamage d c =
     (if periodDamage d \<noteq> 0 then (Some (periodDamage d), d)
      else case damageList d of
          [] \<Rightarrow> (None, d)
        | info # rest \<Rightarrow> (Some (ivalue info), if ticks c \<noteq> - 1 then d\<lparr>damageList := rest\<rparr> else d))"

definition ConditionDamage_startCondition ::
  "Env \<Rightarrow> DamagePart \<Rightarrow> Condition \<Rightarrow> Creature \<Rightarrow> bool \<times> Condition \<times> Creature" where
  "ConditionDamage_startCondition env d c0 cr0 =
     (let c = Condition_startCondition env c0;
          (hit, cr) = (if delayed d then (True, cr0) else doDamage env c (initDamage d) cr0)
      in if \<not> hit then (False, c, cr)
         else let (ok, d1, c1) = damage_init env d c in (ok, c1\<lparr>part := Damage d1\<rparr>, cr))"

definition COMBAT_PHYSICALDAMAGE :: u16 where [simp]: "COMBAT_PHYSICALDAMAGE = 1"
definition COMBAT_ENERGYDAMAGE :: u16 where [simp]: "COMBAT_ENERGYDAMAGE = 2"
definition COMBAT_EARTHDAMAGE :: u16 where [simp]: "COMBAT_EARTHDAMAGE = 4"
definition COMBAT_FIREDAMAGE :: u16 where [simp]: "COMBAT_FIREDAMAGE = 8"
definition COMBAT_DROWNDAMAGE :: u16 where [simp]: "COMBAT_DROWNDAMAGE = 256"
definition COMBAT_ICEDAMAGE :: u16 where [simp]: "COMBAT_ICEDAMAGE = 512"
definition COMBAT_HOLYDAMAGE :: u16 where [simp]: "COMBAT_HOLYDAMAGE = 1024"
definition COMBAT_DEATHDAMAGE :: u16 where [simp]: "COMBAT_DEATHDAMAGE = 2048"
definition COMBAT_AGONYDAMAGE :: u16 where [simp]: "COMBAT_AGONYDAMAGE = 4096"

text \<open>\<open>fieldCombatType\<close> is the combat type of the magic field on the creature's tile, if there is one.\<close>

definition onTickCondition :: "Env \<Rightarrow> ConditionType_t \<Rightarrow> bool \<Rightarrow> bool" where
  "onTickCondition env type bRemove =
     (case fieldCombatType env of
        None \<Rightarrow> bRemove
      | Some f \<Rightarrow>
          if type = CONDITION_FIRE then f \<noteq> COMBAT_FIREDAMAGE
          else if type = CONDITION_ENERGY then f \<noteq> COMBAT_ENERGYDAMAGE
          else if type = CONDITION_POISON then f \<noteq> COMBAT_EARTHDAMAGE
          else if type = CONDITION_FREEZING then f \<noteq> COMBAT_ICEDAMAGE
          else if type = CONDITION_DAZZLED then f \<noteq> COMBAT_HOLYDAMAGE
          else if type = CONDITION_CURSED then f \<noteq> COMBAT_DEATHDAMAGE
          else if type = CONDITION_AGONY then f \<noteq> COMBAT_AGONYDAMAGE
          else if type = CONDITION_DROWN then f \<noteq> COMBAT_DROWNDAMAGE
          else if type = CONDITION_BLEEDING then f \<noteq> COMBAT_PHYSICALDAMAGE
          else bRemove)"

definition damage_now :: "Env \<Rightarrow> nat \<Rightarrow> Condition \<Rightarrow> s32 \<Rightarrow> Creature \<Rightarrow> Condition \<times> Creature" where
  "damage_now env pid c amount cr =
     (let cr1 = snd (doDamage env c amount (put_condition pid c cr)) in (condition_at pid c cr1, cr1))"

text \<open>The damage of one run, and the interval the condition has aged by.\<close>

definition damage_tick ::
  "Env \<Rightarrow> s32 \<Rightarrow> nat \<Rightarrow> DamagePart \<Rightarrow> Condition \<Rightarrow> Creature \<Rightarrow> Condition \<times> Creature \<times> s32" where
  "damage_tick env ival pid d c cr =
     (if periodDamage d \<noteq> 0
      then let tick = periodDamageTick d + ival
           in if sint tick \<ge> sint (tickInterval d)
              then let (c1, cr1) = damage_now env pid (c\<lparr>part := Damage (d\<lparr>periodDamageTick := 0\<rparr>)\<rparr>) (periodDamage d) cr
                   in (c1, cr1, ival)
              else (c\<lparr>part := Damage (d\<lparr>periodDamageTick := tick\<rparr>)\<rparr>, cr, ival)
      else case damageList d of
          [] \<Rightarrow> (c, cr, ival)
        | info0 # rest \<Rightarrow>
            let bRemove = onTickCondition env (conditionType c) (ticks c \<noteq> - 1);
                info = info0\<lparr>timeLeft := timeLeft info0 - ival\<rparr>;
                (c1, cr1) =
                  (if sint (timeLeft info) \<le> 0
                   then let dl = (if bRemove then rest else info\<lparr>timeLeft := interval info\<rparr> # rest)
                        in damage_now env pid (c\<lparr>part := Damage (d\<lparr>damageList := dl\<rparr>)\<rparr>) (ivalue info) cr
                   else (c\<lparr>part := Damage (d\<lparr>damageList := info # rest\<rparr>)\<rparr>, cr))
            in if bRemove then (c1, cr1, ival)
               else (if sint (ticks c1) > 0 then c1\<lparr>endTime := endTime c1 + scast ival\<rparr> else c1, cr1, 0))"

definition ConditionDamage_executeCondition ::
  "Env \<Rightarrow> s32 \<Rightarrow> nat \<Rightarrow> DamagePart \<Rightarrow> Condition \<Rightarrow> Creature \<Rightarrow> bool \<times> Condition \<times> Creature" where
  "ConditionDamage_executeCondition env ival pid d c cr =
     (let (c2, cr2, ival2) = damage_tick env ival pid d c cr;
          (ret, c3) = Condition_executeCondition env ival2 c2
      in (ret, c3, cr2))"

definition restore_timeLeft :: "s32 \<Rightarrow> IntervalInfo list \<Rightarrow> IntervalInfo list" where
  "restore_timeLeft t dl = (case dl of [] \<Rightarrow> [] | info # rest \<Rightarrow> info\<lparr>timeLeft := t\<rparr> # rest)"

definition ConditionDamage_addCondition ::
  "Env \<Rightarrow> Condition \<Rightarrow> nat \<Rightarrow> DamagePart \<Rightarrow> Condition \<Rightarrow> Creature \<Rightarrow> Condition \<times> Creature" where
  "ConditionDamage_addCondition env add pid d c cr =
     (case part add of
        Damage b \<Rightarrow>
          if conditionType add \<noteq> conditionType c \<or> \<not> ConditionDamage_updateCondition b add d c then (c, cr)
          else let c1 = renew env add c;
                   nextTimeLeft = (case damageList d of [] \<Rightarrow> tickInterval b | info # _ \<Rightarrow> timeLeft info);
                   d1 = d\<lparr>maxDamage := maxDamage b, minDamage := minDamage b, startDamage := startDamage b,
                     periodDamage := periodDamage b, tickInterval := tickInterval b, damageOwner := damageOwner b,
                     damageList := damageList b\<rparr>;
                   (ok, d2, c2) = damage_init env d1 c1
               in if \<not> ok then (c2\<lparr>part := Damage d2\<rparr>, cr)
                  else let d3 = d2\<lparr>damageList := restore_timeLeft nextTimeLeft (damageList d2)\<rparr>
                       in if delayed d3 then (c2\<lparr>part := Damage d3\<rparr>, cr)
                          else case getNextDamage d3 c2 of
                              (None, d4) \<Rightarrow> (c2\<lparr>part := Damage d4\<rparr>, cr)
                            | (Some amount, d4) \<Rightarrow> damage_now env pid (c2\<lparr>part := Damage d4\<rparr>) amount cr
      | _ \<Rightarrow> (c, cr))"

section \<open>Speed, rooting and fear\<close>

definition speed_delta :: "Env \<Rightarrow> SpeedPart \<Rightarrow> Creature \<Rightarrow> s32" where
  "speed_delta env s cr =
     (if speedDelta s = 0
      then case formulaValues env (baseSpeed cr) s of (lo, hi) \<Rightarrow> random env lo hi
      else speedDelta s)"

definition ConditionSpeed_startCondition ::
  "Env \<Rightarrow> SpeedPart \<Rightarrow> Condition \<Rightarrow> Creature \<Rightarrow> bool \<times> Condition \<times> Creature" where
  "ConditionSpeed_startCondition env s c cr =
     (let s1 = s\<lparr>speedDelta := speed_delta env s cr\<rparr>
      in (True, (Condition_startCondition env c)\<lparr>part := Speed s1\<rparr>, changeSpeed (speedDelta s1) cr))"

definition ConditionSpeed_endCondition :: "SpeedPart \<Rightarrow> Creature \<Rightarrow> Creature" where
  "ConditionSpeed_endCondition s cr = changeSpeed (- speedDelta s) cr"

definition ConditionSpeed_addCondition ::
  "Env \<Rightarrow> Condition \<Rightarrow> SpeedPart \<Rightarrow> Condition \<Rightarrow> Creature \<Rightarrow> Condition \<times> Creature" where
  "ConditionSpeed_addCondition env add s c cr =
     (case part add of
        Speed b \<Rightarrow>
          if conditionType c \<noteq> conditionType add \<or> ticks c = - 1 \<and> sint (ticks add) > 0 then (c, cr)
          else let s1 = s\<lparr>speedDelta := speedDelta b, mina := mina b, minb := minb b, maxa := maxa b, maxb := maxb b\<rparr>;
                   s2 = s1\<lparr>speedDelta := speed_delta env s1 cr\<rparr>;
                   newSpeedChange = speedDelta s2 - speedDelta s
               in ((renew env add c)\<lparr>part := Speed s2\<rparr>,
                   if newSpeedChange \<noteq> 0 then changeSpeed newSpeedChange cr else cr)
      | _ \<Rightarrow> (c, cr))"

definition ConditionRooted_endCondition :: "Env \<Rightarrow> Creature \<Rightarrow> Creature" where
  "ConditionRooted_endCondition env cr0 =
     (let cr = call StopEventWalk cr0
      in if isPlayer cr then cr\<lparr>rootImmunityEnd := now env + 30000\<rparr> else cr)"

definition ConditionFeared_endCondition :: "Env \<Rightarrow> Creature \<Rightarrow> Creature" where
  "ConditionFeared_endCondition env cr0 =
     (let cr = call StopEventWalk cr0
      in if isPlayer cr then cr\<lparr>fearImmunityEnd := now env + 11000\<rparr> else cr)"

definition all_directions :: "Direction list" where
  "all_directions =
     [DIRECTION_NORTH, DIRECTION_EAST, DIRECTION_SOUTH, DIRECTION_WEST,
      DIRECTION_NORTHEAST, DIRECTION_SOUTHEAST, DIRECTION_SOUTHWEST, DIRECTION_NORTHWEST]"

definition flee_directions :: "int \<Rightarrow> int \<Rightarrow> Direction list" where
  "flee_directions offsetX offsetY =
     (if offsetX = 0 \<and> offsetY = 0 then all_directions
      else (if offsetX > 0 \<and> offsetY < 0 then [DIRECTION_NORTHEAST]
            else if offsetX > 0 \<and> offsetY > 0 then [DIRECTION_SOUTHEAST]
            else if offsetX < 0 \<and> offsetY > 0 then [DIRECTION_SOUTHWEST]
            else if offsetX < 0 \<and> offsetY < 0 then [DIRECTION_NORTHWEST]
            else []) @
           (if offsetY < 0 then [DIRECTION_NORTH] else if offsetY > 0 then [DIRECTION_SOUTH] else []) @
           (if offsetX > 0 then [DIRECTION_EAST] else if offsetX < 0 then [DIRECTION_WEST] else []) @
           all_directions)"

fun try_directions :: "Env \<Rightarrow> Position \<Rightarrow> Direction list \<Rightarrow> Direction list option" where
  "try_directions env p [] = None"
| "try_directions env p (d # ds) =
     (case getPathTo env ((getNextPosition d ^^ 6) p) of
        Some dirList \<Rightarrow> if dirList \<noteq> [] then Some dirList else try_directions env p ds
      | None \<Rightarrow> try_directions env p ds)"

definition getFleePath :: "Env \<Rightarrow> Position \<Rightarrow> Creature \<Rightarrow> Direction list option" where
  "getFleePath env fleeingFromPos cr =
     (if \<not> isPlayer cr then None
      else if pos_z (position cr) \<noteq> pos_z fleeingFromPos then None
      else try_directions env (position cr)
             (flee_directions (getOffsetX (position cr) fleeingFromPos) (getOffsetY (position cr) fleeingFromPos)))"

definition flee :: "Env \<Rightarrow> Position \<Rightarrow> Creature \<Rightarrow> Creature" where
  "flee env p cr = (case getFleePath env p cr of None \<Rightarrow> cr | Some listDir \<Rightarrow> call (AutoWalk listDir) cr)"

section \<open>Outfit, light, cooldowns and drunkenness\<close>

text \<open>\<open>None\<close> stands for a division by zero: the light level is the divisor.\<close>

definition light_interval :: "s32 \<Rightarrow> u8 \<Rightarrow> u32 option" where
  "light_interval t l =
     (if l = 0 then None
      else Some (word_of_int (if sint t < 0 then - (- sint t div uint l) else sint t div uint l)))"

definition ConditionLight_startCondition ::
  "Env \<Rightarrow> LightPart \<Rightarrow> Condition \<Rightarrow> Creature \<Rightarrow> (bool \<times> Condition \<times> Creature) option" where
  "ConditionLight_startCondition env l c0 cr =
     (let c = Condition_startCondition env c0
      in map_option (\<lambda>iv.
           (True, c\<lparr>part := Light (l\<lparr>internalLightTicks := 0, lightChangeInterval := iv\<rparr>)\<rparr>,
            call ChangeLight (cr\<lparr>internalLight := \<lparr>level = lightLevel l, color = lightColor l\<rparr>\<rparr>)))
         (light_interval (ticks c) (lightLevel l)))"

definition ConditionLight_executeCondition ::
  "Env \<Rightarrow> s32 \<Rightarrow> LightPart \<Rightarrow> Condition \<Rightarrow> Creature \<Rightarrow> bool \<times> Condition \<times> Creature" where
  "ConditionLight_executeCondition env ival l c cr =
     (let l1 = l\<lparr>internalLightTicks := internalLightTicks l + ival\<rparr>;
          (l2, cr2) =
            (if internalLightTicks l1 \<ge> lightChangeInterval l1
             then (l1\<lparr>internalLightTicks := 0\<rparr>,
                   let info = internalLight cr
                   in if level info > 0
                      then call ChangeLight (cr\<lparr>internalLight := info\<lparr>level := level info - 1\<rparr>\<rparr>) else cr)
             else (l1, cr));
          (ret, c1) = Condition_executeCondition env ival (c\<lparr>part := Light l2\<rparr>)
      in (ret, c1, cr2))"

definition ConditionLight_addCondition ::
  "Env \<Rightarrow> Condition \<Rightarrow> LightPart \<Rightarrow> Condition \<Rightarrow> Creature \<Rightarrow> (Condition \<times> Creature) option" where
  "ConditionLight_addCondition env add l c cr =
     (case part add of
        Light b \<Rightarrow>
          if Condition_updateCondition env add c
          then let c1 = renew env add c
               in map_option (\<lambda>iv.
                    (c1\<lparr>part := Light (l\<lparr>lightLevel := lightLevel b, lightColor := lightColor b, internalLightTicks := 0,
                       lightChangeInterval := iv\<rparr>)\<rparr>,
                     call ChangeLight (cr\<lparr>internalLight := \<lparr>level = lightLevel b, color = lightColor b\<rparr>\<rparr>)))
                  (light_interval (ticks c1) (lightLevel b))
          else Some (c, cr)
      | _ \<Rightarrow> Some (c, cr))"

definition ConditionLight_endCondition :: "Creature \<Rightarrow> Creature" where
  "ConditionLight_endCondition cr = call ChangeLight (cr\<lparr>internalLight := normalLight cr\<rparr>)"

definition ConditionOutfit_addCondition ::
  "Env \<Rightarrow> Condition \<Rightarrow> Condition \<Rightarrow> Creature \<Rightarrow> Condition \<times> Creature" where
  "ConditionOutfit_addCondition env add c cr =
     (case part add of
        Outfit f \<Rightarrow>
          if Condition_updateCondition env add c
          then ((renew env add c)\<lparr>part := Outfit f\<rparr>, internalCreatureChangeOutfit env f cr)
          else (c, cr)
      | _ \<Rightarrow> (c, cr))"

definition spell_cooldown :: "Condition \<Rightarrow> Creature \<Rightarrow> Creature" where
  "spell_cooldown c cr =
     (if subId c \<noteq> 0 \<and> sint (ticks c) > 0 \<and> isPlayer cr \<and> uint (subId c) \<le> 65535
      then call (SendSpellCooldown (ucast (subId c)) (ticks c)) cr else cr)"

definition spell_group_cooldown :: "Condition \<Rightarrow> Creature \<Rightarrow> Creature" where
  "spell_group_cooldown c cr =
     (if subId c \<noteq> 0 \<and> sint (ticks c) > 0 \<and> isPlayer cr
      then call (SendSpellGroupCooldown (subId c) (ticks c)) cr else cr)"

definition ConditionDrunk_addCondition ::
  "Env \<Rightarrow> Condition \<Rightarrow> u8 \<Rightarrow> Condition \<Rightarrow> Creature \<Rightarrow> Condition \<times> Creature" where
  "ConditionDrunk_addCondition env add d c cr =
     (case part add of
        Drunk b \<Rightarrow> if b > d then (renew env add c, cr\<lparr>drunkenness := b\<rparr>) else (c, cr)
      | _ \<Rightarrow> (c, cr))"

section \<open>The virtual methods\<close>

definition startCondition :: "Env \<Rightarrow> Condition \<Rightarrow> Creature \<Rightarrow> (bool \<times> Condition \<times> Creature) option" where
  "startCondition env c cr =
     (let c1 = Condition_startCondition env c
      in case part c of
          Attributes a \<Rightarrow> Some (ConditionAttributes_startCondition env a c cr)
        | Damage d \<Rightarrow> Some (ConditionDamage_startCondition env d c cr)
        | Speed s \<Rightarrow> Some (ConditionSpeed_startCondition env s c cr)
        | RootedPart \<Rightarrow> Some (True, c1, call StopEventWalk cr)
        | Feared p \<Rightarrow> Some (True, c1, flee env p cr)
        | InvisiblePart \<Rightarrow> Some (True, c1, call (ChangeVisible False) cr)
        | Outfit f \<Rightarrow> Some (True, c1, internalCreatureChangeOutfit env f cr)
        | Light l \<Rightarrow> ConditionLight_startCondition env l c cr
        | SpellCooldownPart \<Rightarrow> Some (True, c1, spell_cooldown c1 cr)
        | SpellGroupCooldownPart \<Rightarrow> Some (True, c1, spell_group_cooldown c1 cr)
        | Drunk d \<Rightarrow> Some (True, c1, cr\<lparr>drunkenness := d\<rparr>)
        | _ \<Rightarrow> Some (True, c1, cr))"

definition executeCondition :: "Env \<Rightarrow> s32 \<Rightarrow> nat \<Rightarrow> Condition \<Rightarrow> Creature \<Rightarrow> bool \<times> Condition \<times> Creature" where
  "executeCondition env ival pid c cr =
     (let base = (\<lambda>cr'. let (ret, c1) = Condition_executeCondition env ival c in (ret, c1, cr'))
      in case part c of
          Regeneration r \<Rightarrow> ConditionRegeneration_executeCondition env ival r c cr
        | Soul s \<Rightarrow> ConditionSoul_executeCondition env ival s c cr
        | Damage d \<Rightarrow> ConditionDamage_executeCondition env ival pid d c cr
        | RootedPart \<Rightarrow> base (call StopEventWalk cr)
        | Feared p \<Rightarrow> base (flee env p cr)
        | Light l \<Rightarrow> ConditionLight_executeCondition env ival l c cr
        | _ \<Rightarrow> base cr)"

definition endCondition :: "Env \<Rightarrow> Condition \<Rightarrow> Creature \<Rightarrow> Creature" where
  "endCondition env c cr =
     (case part c of
        Attributes a \<Rightarrow> ConditionAttributes_endCondition a cr
      | Speed s \<Rightarrow> ConditionSpeed_endCondition s cr
      | RootedPart \<Rightarrow> ConditionRooted_endCondition env cr
      | Feared _ \<Rightarrow> ConditionFeared_endCondition env cr
      | InvisiblePart \<Rightarrow> if \<not> isInvisible cr then call (ChangeVisible True) cr else cr
      | Outfit _ \<Rightarrow> internalCreatureChangeOutfit env (defaultOutfit cr) cr
      | Light _ \<Rightarrow> ConditionLight_endCondition cr
      | Drunk _ \<Rightarrow> cr\<lparr>drunkenness := 0\<rparr>
      | _ \<Rightarrow> cr)"

text \<open>The condition \<open>c\<close> that the creature has at \<open>pid\<close> takes in \<open>add\<close>.\<close>

definition Condition_addCondition :: "Env \<Rightarrow> Condition \<Rightarrow> nat \<Rightarrow> Condition \<Rightarrow> Creature \<Rightarrow> (Condition \<times> Creature) option" where
  "Condition_addCondition env add pid c cr =
     (let ok = Condition_updateCondition env add c; c1 = (if ok then renew env add c else c)
      in case part c of
          Attributes a \<Rightarrow> Some (ConditionAttributes_addCondition env add a c cr)
        | Regeneration r \<Rightarrow> Some (ConditionRegeneration_addCondition env add r c, cr)
        | Soul s \<Rightarrow> Some (ConditionSoul_addCondition env add s c, cr)
        | Damage d \<Rightarrow> Some (ConditionDamage_addCondition env add pid d c cr)
        | Speed s \<Rightarrow> Some (ConditionSpeed_addCondition env add s c cr)
        | Outfit _ \<Rightarrow> Some (ConditionOutfit_addCondition env add c cr)
        | Light l \<Rightarrow> ConditionLight_addCondition env add l c cr
        | SpellCooldownPart \<Rightarrow> Some (c1, if ok then spell_cooldown c1 cr else cr)
        | SpellGroupCooldownPart \<Rightarrow> Some (c1, if ok then spell_group_cooldown c1 cr else cr)
        | Drunk d \<Rightarrow> Some (ConditionDrunk_addCondition env add d c cr)
        | _ \<Rightarrow> Some (c1, cr))"

section \<open>Icons\<close>

definition ICON_POISON :: u64 where [simp]: "ICON_POISON = 2 ^ 0"
definition ICON_BURN :: u64 where [simp]: "ICON_BURN = 2 ^ 1"
definition ICON_ENERGY :: u64 where [simp]: "ICON_ENERGY = 2 ^ 2"
definition ICON_DRUNK :: u64 where [simp]: "ICON_DRUNK = 2 ^ 3"
definition ICON_MANASHIELD :: u64 where [simp]: "ICON_MANASHIELD = 2 ^ 4"
definition ICON_PARALYZE :: u64 where [simp]: "ICON_PARALYZE = 2 ^ 5"
definition ICON_HASTE :: u64 where [simp]: "ICON_HASTE = 2 ^ 6"
definition ICON_SWORDS :: u64 where [simp]: "ICON_SWORDS = 2 ^ 7"
definition ICON_DROWNING :: u64 where [simp]: "ICON_DROWNING = 2 ^ 8"
definition ICON_FREEZING :: u64 where [simp]: "ICON_FREEZING = 2 ^ 9"
definition ICON_DAZZLED :: u64 where [simp]: "ICON_DAZZLED = 2 ^ 10"
definition ICON_CURSED :: u64 where [simp]: "ICON_CURSED = 2 ^ 11"
definition ICON_PARTY_BUFF :: u64 where [simp]: "ICON_PARTY_BUFF = 2 ^ 12"
definition ICON_BLEEDING :: u64 where [simp]: "ICON_BLEEDING = 2 ^ 15"
definition PlayerIcon_Rooted :: u64 where [simp]: "PlayerIcon_Rooted = 2 ^ 19"
definition PlayerIcon_Feared :: u64 where [simp]: "PlayerIcon_Feared = 2 ^ 20"
definition PlayerIcon_Agony :: u64 where [simp]: "PlayerIcon_Agony = 2 ^ 27"

definition Condition_getIcons :: "Condition \<Rightarrow> u64" where
  "Condition_getIcons c = (if isBuff c then ICON_PARTY_BUFF else 0)"

definition ConditionGeneric_getIcons :: "Condition \<Rightarrow> u64" where
  "ConditionGeneric_getIcons c =
     Condition_getIcons c OR
       (if conditionType c = CONDITION_MANASHIELD then ICON_MANASHIELD
        else if conditionType c = CONDITION_INFIGHT then ICON_SWORDS else 0)"

definition ConditionDamage_getIcons :: "Condition \<Rightarrow> u64" where
  "ConditionDamage_getIcons c =
     (let t = conditionType c
      in Condition_getIcons c OR
        (if t = CONDITION_FIRE then ICON_BURN
         else if t = CONDITION_ENERGY then ICON_ENERGY
         else if t = CONDITION_DROWN then ICON_DROWNING
         else if t = CONDITION_POISON then ICON_POISON
         else if t = CONDITION_FREEZING then ICON_FREEZING
         else if t = CONDITION_DAZZLED then ICON_DAZZLED
         else if t = CONDITION_CURSED then ICON_CURSED
         else if t = CONDITION_BLEEDING then ICON_BLEEDING
         else if t = CONDITION_AGONY then PlayerIcon_Agony else 0))"

definition ConditionSpeed_getIcons :: "Condition \<Rightarrow> u64" where
  "ConditionSpeed_getIcons c =
     Condition_getIcons c OR
       (if conditionType c = CONDITION_HASTE then ICON_HASTE
        else if conditionType c = CONDITION_PARALYZE then ICON_PARALYZE else 0)"

definition getIcons :: "Condition \<Rightarrow> u64" where
  "getIcons c =
     (case part c of
        Damage _ \<Rightarrow> ConditionDamage_getIcons c
      | Speed _ \<Rightarrow> ConditionSpeed_getIcons c
      | RootedPart \<Rightarrow> Condition_getIcons c OR PlayerIcon_Rooted
      | Feared _ \<Rightarrow> Condition_getIcons c OR PlayerIcon_Feared
      | Drunk _ \<Rightarrow> ICON_DRUNK
      | Outfit _ \<Rightarrow> Condition_getIcons c
      | Light _ \<Rightarrow> Condition_getIcons c
      | _ \<Rightarrow> ConditionGeneric_getIcons c)"

end
