(* ===== verification/ConditionStore.thy ===== *)
theory ConditionStore
  imports Conditions
begin

text \<open>
  What becomes of a player's conditions between a logout and the next login: the bytes that
  \<^verbatim>\<open>IOLoginData::savePlayer\<close> writes for them and the conditions that \<^verbatim>\<open>IOLoginData::loadPlayer\<close> makes
  of these bytes, for every derived type of \<^verbatim>\<open>src/src/condition.cpp\<close>.
\<close>

section \<open>Bytes written and read\<close>

lemma write_all_append: "list_all prop_ok vs \<Longrightarrow> fold write_value vs w = w @ enc_all prop_bytes vs"
  using props.out_put_all[of vs w] by (simp add: list_all_iff)

lemma prop_bytes_byte: "prop_bytes (PByte b) = [b]"
  by (simp add: numeral_eq_Suc)

lemma prop_read_cons [simp]: "prop_read (b # s) = (Some b, s)" for b :: u8
  using prop_read_bytes[of 1 b s] by simp

lemma read_next_cons [simp]: "read_next (b # s) = Some (b, s)" for b :: u8
  by (simp add: read_next_def)

lemma read_next_bytes [simp]:
  "LENGTH('a) = 8 * n \<Longrightarrow> read_next (le_bytes n (w :: 'a::len word) @ s) = Some (w, s)"
  by (simp add: read_next_def prop_read_bytes)

lemma read_to_cons [simp]: "read_to upd c (b # s) = Some (True, upd b, s)" for b :: u8
  by (simp add: read_to_def)

lemma read_to_bytes [simp]:
  "LENGTH('a) = 8 * n \<Longrightarrow> read_to upd c (le_bytes n (w :: 'a::len word) @ s) = Some (True, upd w, s)"
  by (simp add: read_to_def prop_read_bytes)

lemma read_attr_cons [simp]: "read_attr a (a # s) = read_next s"
  by (simp add: read_attr_def)

lemma unserialize_cons:
  "unserialize now c (attr # s) =
     (if attr = CONDITIONATTR_END then Some (True, c, s)
      else case unserializeProp now attr c s of
          None \<Rightarrow> None
        | Some (ok, c2, s2) \<Rightarrow> if ok then unserialize now c2 s2 else Some (False, c2, s2))"
  by (simp add: unserialize.simps[of now c])

section \<open>The common attributes\<close>

text \<open>The condition that the common attributes alone describe.\<close>

definition header_bytes :: "Condition \<Rightarrow> u8 list" where
  "header_bytes c = Condition_serialize c []"

definition stored_base :: "Condition \<Rightarrow> Condition \<Rightarrow> Condition" where
  "stored_base c c' = (let d = setConstant (isConstant c) c' in if isConstant c then setEndTime (endTime c) d else d)"

lemma Condition_serialize_append: "Condition_serialize c w = w @ header_bytes c"
proof -
  have "Condition_serialize c w = w @ Condition_serialize c []"
    unfolding Condition_serialize_def
    by (subst (1 2) write_all_append) (simp_all add: del: enc_all_simps)
  then show ?thesis by (simp add: header_bytes_def)
qed

lemma ucast_scast_id: "ucast (scast (w :: 8 word) :: 32 word) = w"
  by (rule bit_word_eqI) (auto simp: bit_simps)

lemma ucast_ucast_type: "uint (t :: u64) \<le> 4294967295 \<Longrightarrow> ucast (ucast t :: u32) = t"
proof -
  assume "uint t \<le> 4294967295"
  then have "take_bit 32 (uint t) = uint t" by (simp add: take_bit_int_eq_self_iff)
  then have "take_bit 32 t = t" by (metis unsigned_take_bit_eq word_eq_iff_unsigned)
  then show ?thesis by (simp add: unsigned_ucast_eq word_eq_iff_unsigned)
qed

lemma createCondition_header:
  assumes "conditionType c \<noteq> 0" and "conditionType c AND (conditionType c - 1) = 0"
    and "createCondition (condId c) (conditionType c) (ticks c) 0 (isBuff c) (subId c) (aggressive c) = Some d"
  shows "createCondition_from (header_bytes c @ s) = Some (stored_base c d, s)"
  using assms unfolding header_bytes_def Condition_serialize_def
  by (subst write_all_append)
    (auto simp: createCondition_from_def read_type_def read_attr_def prop_bytes_byte stored_base_def Let_def
      ucast_scast_id ucast_ucast_type simp del: prop_bytes.simps(1))

section \<open>The derived type of a condition\<close>

fun class_index :: "ConditionPart \<Rightarrow> nat" where
  "class_index GenericPart = 0"
| "class_index (Attributes _) = 1"
| "class_index (Regeneration _) = 2"
| "class_index (Soul _) = 3"
| "class_index InvisiblePart = 4"
| "class_index (Damage _) = 5"
| "class_index (Speed _) = 6"
| "class_index RootedPart = 7"
| "class_index (Feared _) = 8"
| "class_index (Outfit _) = 9"
| "class_index (Light _) = 10"
| "class_index SpellCooldownPart = 11"
| "class_index SpellGroupCooldownPart = 12"
| "class_index (Drunk _) = 13"

definition class_of_type :: "ConditionType_t \<Rightarrow> nat option" where
  "class_of_type type =
     map_option (class_index \<circ> part) (createCondition CONDITIONID_DEFAULT type 0 0 False 0 False)"

text \<open>
  A condition has the derived type that its \<^verbatim>\<open>conditionType\<close> stands for, and arrays of the length the
  class declares.
\<close>

definition well_typed :: "Condition \<Rightarrow> bool" where
  "well_typed c \<longleftrightarrow> class_of_type (conditionType c) = Some (class_index (part c)) \<and>
     (case part c of
        Attributes a \<Rightarrow> length (skills a) = 7 \<and> length (skillsPercent a) = 7 \<and> length (specialSkills a) = 6 \<and>
          length (stats a) = 5 \<and> length (statsPercent a) = 5 \<and> length (experienceRate a) = 5
      | _ \<Rightarrow> True)"

lemmas condition_type_defs =
  CONDITION_NONE_def CONDITION_POISON_def CONDITION_FIRE_def CONDITION_ENERGY_def CONDITION_BLEEDING_def
  CONDITION_HASTE_def CONDITION_PARALYZE_def CONDITION_OUTFIT_def CONDITION_INVISIBLE_def
  CONDITION_LIGHT_def CONDITION_MANASHIELD_def CONDITION_INFIGHT_def CONDITION_DRUNK_def
  CONDITION_EXHAUST_WEAPON_def CONDITION_REGENERATION_def CONDITION_SOUL_def CONDITION_DROWN_def
  CONDITION_MUTED_def CONDITION_CHANNELMUTEDTICKS_def CONDITION_YELLTICKS_def CONDITION_ATTRIBUTES_def
  CONDITION_FREEZING_def CONDITION_DAZZLED_def CONDITION_CURSED_def CONDITION_EXHAUST_COMBAT_def
  CONDITION_EXHAUST_HEAL_def CONDITION_PACIFIED_def CONDITION_CLIPORT_def CONDITION_SPELLCOOLDOWN_def
  CONDITION_SPELLGROUPCOOLDOWN_def CONDITION_ROOTED_def CONDITION_FEARED_def CONDITION_AGONY_def
  CONDITION_LESSERHEX_def CONDITION_INTENSEHEX_def CONDITION_GREATERHEX_def CONDITION_POWERLESS_def

definition fresh_ticks :: "ConditionPart \<Rightarrow> s32 \<Rightarrow> s32" where
  "fresh_ticks p tcks = (case p of Damage _ \<Rightarrow> 0 | _ \<Rightarrow> tcks)"

lemma createCondition_class:
  "createCondition ident type tcks param buff sub aggr =
     map_option (\<lambda>c. new_Condition ident type (fresh_ticks (part c) tcks) buff sub aggr (part c))
       (createCondition CONDITIONID_DEFAULT type 0 param False 0 False)"
  unfolding createCondition_def Let_def
  by (simp add: new_Condition_def fresh_ticks_def if_distrib[of "map_option _"] del: condition_type_defs insert_iff cong: if_cong)

lemma createCondition_class_part:
  assumes "createCondition ident type tcks param buff sub aggr = Some c" and "createCondition ident' type tcks' param' buff' sub' aggr' = Some c'"
  shows "class_index (part c) = class_index (part c')"
  using assms unfolding createCondition_def Let_def
  by (simp add: new_Condition_def del: condition_type_defs insert_iff split: if_splits)
    (auto simp del: condition_type_defs insert_iff)

definition known_types :: "ConditionType_t set" where
  "known_types = {
     CONDITION_POISON, CONDITION_FIRE, CONDITION_ENERGY, CONDITION_BLEEDING, CONDITION_HASTE,
     CONDITION_PARALYZE, CONDITION_OUTFIT, CONDITION_INVISIBLE, CONDITION_LIGHT, CONDITION_MANASHIELD,
     CONDITION_INFIGHT, CONDITION_DRUNK, CONDITION_EXHAUST_WEAPON, CONDITION_REGENERATION,
     CONDITION_SOUL, CONDITION_DROWN, CONDITION_MUTED, CONDITION_CHANNELMUTEDTICKS, CONDITION_YELLTICKS,
     CONDITION_ATTRIBUTES, CONDITION_FREEZING, CONDITION_DAZZLED, CONDITION_CURSED,
     CONDITION_EXHAUST_COMBAT, CONDITION_EXHAUST_HEAL, CONDITION_PACIFIED, CONDITION_CLIPORT,
     CONDITION_SPELLCOOLDOWN, CONDITION_SPELLGROUPCOOLDOWN, CONDITION_ROOTED, CONDITION_FEARED,
     CONDITION_AGONY, CONDITION_LESSERHEX, CONDITION_INTENSEHEX, CONDITION_GREATERHEX,
     CONDITION_POWERLESS}"

lemma createCondition_known: "createCondition ident type tcks param buff sub aggr = Some c \<Longrightarrow> type \<in> known_types"
  unfolding createCondition_def Let_def known_types_def
  by (simp del: condition_type_defs split: if_splits) blast+

lemma known_types_single: "type \<in> known_types \<Longrightarrow> type \<noteq> 0 \<and> type AND (type - 1) = 0"
  unfolding known_types_def by (elim insertE emptyE) simp_all

section \<open>The attributes of the derived types\<close>

text \<open>What a saved condition is when it has been read back.\<close>

definition reloaded_outfit :: "Outfit_t \<Rightarrow> Outfit_t" where
  "reloaded_outfit f =
     f\<lparr>lookFamiliar := le_word [lookHead f, lookBody f], lookHead := lookLegs f, lookBody := lookFeet f,
       lookLegs := lookAddons f, lookFeet := 0, lookAddons := 0\<rparr>"

fun reloaded_part :: "ConditionPart \<Rightarrow> ConditionPart" where
  "reloaded_part (Regeneration r) = Regeneration (r\<lparr>internalHealthTicks := 0, internalManaTicks := 0\<rparr>)"
| "reloaded_part (Soul s) = Soul (s\<lparr>internalSoulTicks := 0\<rparr>)"
| "reloaded_part (Damage d) =
     Damage (new_Damage\<lparr>periodDamage := periodDamage d, delayed := delayed d, damageList := damageList d\<rparr>)"
| "reloaded_part (Feared _) = Feared (Position 0 0 0)"
| "reloaded_part (Outfit f) = Outfit (reloaded_outfit f)"
| "reloaded_part (Drunk _) = Drunk 25"
| "reloaded_part p = p"

definition base_reloaded :: "s32 \<Rightarrow> Condition \<Rightarrow> Condition" where
  "base_reloaded t c =
     c\<lparr>endTime := if isConstant c then endTime c else if t = - 1 then INT64_MAX else 0, ticks := t,
       part := reloaded_part (part c)\<rparr>"

definition reloaded :: "s64 \<Rightarrow> Condition \<Rightarrow> Condition" where
  "reloaded now c =
     (case part c of
        Damage d \<Rightarrow>
          if damageList d = [] then base_reloaded 0 c
          else setTicks now (\<Sum>i \<leftarrow> damageList d. interval i) (base_reloaded 0 c)
      | _ \<Rightarrow> base_reloaded (ticks c) c)"

text \<open>
  The conditions the format carries: all but those that change attributes or give light. The intervals
  of a damage list are as \<^verbatim>\<open>addDamage\<close> makes them, not negative and with a total that fits.
\<close>

definition intervals_ok :: "IntervalInfo list \<Rightarrow> bool" where
  "intervals_ok dl \<longleftrightarrow> list_all (\<lambda>i. 0 \<le> sint (interval i)) dl \<and> (\<Sum>i \<leftarrow> dl. sint (interval i)) < 2 ^ 31"

definition storable :: "Condition \<Rightarrow> bool" where
  "storable c \<longleftrightarrow> well_typed c \<and>
     (case part c of Attributes _ \<Rightarrow> False | Light _ \<Rightarrow> False | Damage d \<Rightarrow> intervals_ok (damageList d) | _ \<Rightarrow> True)"

fun part_props :: "ConditionPart \<Rightarrow> prop_value list" where
  "part_props (Attributes a) =
     write_attrs CONDITIONATTR_SKILLS (skills a) @ write_attrs CONDITIONATTR_STATS (stats a) @
     [PByte CONDITIONATTR_DISABLEDEFENSE, PByte (of_bool (disableDefense a))] @
     write_attrs CONDITIONATTR_SPECIALSKILLS (specialSkills a) @
     write_attrs CONDITIONATTR_SPECIALSKILLS (drop RATE_BASE (experienceRate a))"
| "part_props (Regeneration r) =
     [PByte CONDITIONATTR_HEALTHTICKS, PU32 (healthTicks r), PByte CONDITIONATTR_HEALTHGAIN, PU32 (healthGain r),
      PByte CONDITIONATTR_HEALTHGAINPERCENT, PU32 (healthGainPercent r),
      PByte CONDITIONATTR_MANATICKS, PU32 (manaTicks r), PByte CONDITIONATTR_MANAGAIN, PU32 (manaGain r),
      PByte CONDITIONATTR_MANAGAINPERCENT, PU32 (manaGainPercent r)]"
| "part_props (Soul s) =
     [PByte CONDITIONATTR_SOULGAIN, PU32 (soulGain s), PByte CONDITIONATTR_SOULTICKS, PU32 (soulTicks s)]"
| "part_props (Damage d) =
     [PByte CONDITIONATTR_DELAYED, PByte (of_bool (delayed d)),
      PByte CONDITIONATTR_PERIODDAMAGE, PU32 (periodDamage d)] @ concat (map write_interval (damageList d))"
| "part_props (Speed s) =
     [PByte CONDITIONATTR_SPEEDDELTA, PU32 (speedDelta s), PByte CONDITIONATTR_FORMULA_MINA, PU32 (mina s),
      PByte CONDITIONATTR_FORMULA_MINB, PU32 (minb s), PByte CONDITIONATTR_FORMULA_MAXA, PU32 (maxa s),
      PByte CONDITIONATTR_FORMULA_MAXB, PU32 (maxb s)]"
| "part_props (Outfit f) =
     [PByte CONDITIONATTR_OUTFIT, PU16 (lookType f), PU16 (lookTypeEx f), PU16 (lookMount f),
      PByte (lookHead f), PByte (lookBody f), PByte (lookLegs f), PByte (lookFeet f), PByte (lookAddons f)] @
     replicate (sizeof_Outfit - (2 * 3 + 1 * 5)) (PByte 0)"
| "part_props (Light l) =
     [PByte CONDITIONATTR_LIGHTCOLOR, PU32 (ucast (lightColor l)),
      PByte CONDITIONATTR_LIGHTLEVEL, PU32 (ucast (lightLevel l)),
      PByte CONDITIONATTR_LIGHTTICKS, PU32 (internalLightTicks l),
      PByte CONDITIONATTR_LIGHTINTERVAL, PU32 (lightChangeInterval l)]"
| "part_props _ = []"

definition part_bytes :: "ConditionPart \<Rightarrow> u8 list" where
  "part_bytes p = enc_all prop_bytes (part_props p)"

lemma serialize_fold: "serialize c w = fold write_value (part_props (part c)) (Condition_serialize c w)"
  unfolding serialize_def ConditionAttributes_serialize_def ConditionRegeneration_serialize_def
    ConditionSoul_serialize_def ConditionDamage_serialize_def ConditionSpeed_serialize_def
    ConditionOutfit_serialize_def ConditionLight_serialize_def
  by (simp only: part_props.simps fold_simps id_apply split: ConditionPart.split) simp

lemma part_props_ok: "list_all prop_ok (part_props p)"
  by (cases p) (auto simp: list_all_iff write_attrs_def write_interval_def)

lemma serialize_bytes: "serialize c w = w @ header_bytes c @ part_bytes (part c)"
  by (simp add: serialize_fold write_all_append[OF part_props_ok] Condition_serialize_append part_bytes_def)

section \<open>Reading a condition back\<close>

fun fresh_part :: "ConditionPart \<Rightarrow> ConditionPart" where
  "fresh_part (Attributes _) = Attributes new_Attributes"
| "fresh_part (Regeneration _) = Regeneration new_Regeneration"
| "fresh_part (Soul _) = Soul new_Soul"
| "fresh_part (Damage _) = Damage new_Damage"
| "fresh_part (Speed _) = Speed (new_Speed 0)"
| "fresh_part (Feared _) = Feared (Position 0 0 0)"
| "fresh_part (Outfit _) = Outfit new_Outfit"
| "fresh_part (Light _) = Light (new_Light 0 0)"
| "fresh_part (Drunk _) = Drunk 25"
| "fresh_part p = p"

lemma createCondition_fresh_part:
  assumes "createCondition ident type tcks 0 buff sub aggr = Some d"
  shows "part d = fresh_part (part d)"
  using assms unfolding createCondition_def Let_def
  by (auto simp: new_Condition_def new_Drunk_def simp del: condition_type_defs insert_iff split: if_splits)

lemma fresh_part_class: "class_index p = class_index q \<Longrightarrow> fresh_part p = fresh_part q"
  by (cases p; cases q) simp_all

lemma class_of_type_create:
  assumes "class_of_type (conditionType c) = Some (class_index (part c))"
  shows "createCondition (condId c) (conditionType c) (ticks c) 0 (isBuff c) (subId c) (aggressive c) =
     Some (new_Condition (condId c) (conditionType c) (fresh_ticks (part c) (ticks c)) (isBuff c) (subId c)
       (aggressive c) (fresh_part (part c)))"
proof -
  from assms obtain d where d: "createCondition CONDITIONID_DEFAULT (conditionType c) 0 0 False 0 False = Some d"
      and cls: "class_index (part d) = class_index (part c)"
    by (auto simp: class_of_type_def)
  from createCondition_fresh_part[OF d] fresh_part_class[OF cls] have "part d = fresh_part (part c)" by simp
  then show ?thesis
    using d by (subst createCondition_class) (cases "part c"; simp add: fresh_ticks_def)
qed

definition fresh :: "Condition \<Rightarrow> Condition" where
  "fresh c = stored_base c (new_Condition (condId c) (conditionType c) (fresh_ticks (part c) (ticks c)) (isBuff c)
     (subId c) (aggressive c) (fresh_part (part c)))"

lemma createCondition_fresh:
  assumes "well_typed c"
  shows "createCondition_from (header_bytes c @ s) = Some (fresh c, s)"
proof -
  from assms have cls: "class_of_type (conditionType c) = Some (class_index (part c))"
    by (simp add: well_typed_def)
  note made = class_of_type_create[OF cls]
  from createCondition_known[OF made] known_types_single
  have "conditionType c \<noteq> 0 \<and> conditionType c AND (conditionType c - 1) = 0" by blast
  with createCondition_header[OF _ _ made] show ?thesis by (simp add: fresh_def)
qed

lemma fresh_simps [simp]:
  "part (fresh c) = fresh_part (part c)" "ticks (fresh c) = fresh_ticks (part c) (ticks c)"
  by (auto simp: fresh_def stored_base_def new_Condition_def setConstant_def setEndTime_def Let_def)

lemma fresh_base: "fresh c\<lparr>part := reloaded_part (part c)\<rparr> = base_reloaded (fresh_ticks (part c) (ticks c)) c"
  by (cases c) (simp add: fresh_def stored_base_def base_reloaded_def new_Condition_def setConstant_def setEndTime_def Let_def)

lemmas unserialize_simps = unserialize_cons unserializeProp_def unserializeProp_defs prop_bytes_byte

lemma read_Outfit_bytes:
  "read_Outfit (le_bytes 2 (lookType f) @ le_bytes 2 (lookTypeEx f) @ le_bytes 2 (lookMount f) @
     lookHead f # lookBody f # lookLegs f # lookFeet f # lookAddons f # 0 # 0 # 0 # s) = (Some (reloaded_outfit f), s)"
  by (cases f) (simp add: read_Outfit_def prop_size_def sizeof_Outfit_def reloaded_outfit_def nth_append numeral_eq_Suc
      flip: numeral_eq_Suc)

lemma unserialize_part:
  assumes "part c = fresh_part p" and "\<not> (case p of Attributes _ \<Rightarrow> True | Light _ \<Rightarrow> True | Damage _ \<Rightarrow> True | _ \<Rightarrow> False)"
  shows "unserialize now c (part_bytes p @ 254 # s) = Some (True, c\<lparr>part := reloaded_part p\<rparr>, s)"
proof (cases p)
  case (Outfit f)
  with assms show ?thesis
    by (simp add: part_bytes_def unserialize_simps sizeof_Outfit_def numeral_3_eq_3 read_Outfit_bytes del: prop_bytes.simps(1))
qed (use assms in \<open>simp_all add: part_bytes_def unserialize_simps new_Regeneration_def new_Soul_def new_Speed_def
       del: prop_bytes.simps(1)\<close>)

lemma sint_add_in_range:
  fixes a b :: s32
  assumes "0 \<le> sint a" and "0 \<le> sint b" and "sint a + sint b < 2 ^ 31"
  shows "sint (a + b) = sint a + sint b"
  using assms by (simp add: sint_word_ariths signed_take_bit_int_eq_self_iff)

lemma read_IntervalInfo_bytes:
  "read_IntervalInfo (le_bytes 4 (timeLeft i) @ le_bytes 4 (ivalue i) @ le_bytes 4 (interval i) @ s) = (Some i, s)"
  by (cases i) (simp add: read_IntervalInfo_def prop_size_def)

lemma unserialize_interval:
  assumes "part c = Damage d" and "0 \<le> sint (ticks c)"
  shows "unserialize now c (enc_all prop_bytes (write_interval i) @ s) =
    unserialize now (setTicks now (ticks c + interval i) (c\<lparr>part := Damage (d\<lparr>damageList := damageList d @ [i]\<rparr>)\<rparr>)) s"
proof -
  from assms(2) have "ticks c \<noteq> - 1" by auto
  with assms(1) show ?thesis
    by (simp add: write_interval_def unserialize_simps read_IntervalInfo_bytes del: prop_bytes.simps(1))
qed

lemma setTicks_simps [simp]:
  "part (setTicks now t c) = part c" "ticks (setTicks now t c) = t"
  "setTicks now t (setTicks now u c) = setTicks now t c"
  "(setTicks now t c)\<lparr>part := p\<rparr> = setTicks now t (c\<lparr>part := p\<rparr>)"
  by (simp_all add: setTicks_def setEndTime_def)

lemma unserialize_intervals:
  assumes "part c = Damage d" and "0 \<le> sint (ticks c)" and "list_all (\<lambda>i. 0 \<le> sint (interval i)) dl"
    and "sint (ticks c) + (\<Sum>i \<leftarrow> dl. sint (interval i)) < 2 ^ 31"
  shows "unserialize now c (enc_all prop_bytes (concat (map write_interval dl)) @ 254 # s) =
    Some (True, (if dl = [] then c else setTicks now (ticks c + (\<Sum>i \<leftarrow> dl. interval i))
      (c\<lparr>part := Damage (d\<lparr>damageList := damageList d @ dl\<rparr>)\<rparr>)), s)"
  using assms
proof (induction dl arbitrary: c d)
  case Nil
  then show ?case by (simp add: unserialize_cons)
next
  case (Cons i dl)
  let ?c = "setTicks now (ticks c + interval i) (c\<lparr>part := Damage (d\<lparr>damageList := damageList d @ [i]\<rparr>)\<rparr>)"
  have nonneg: "0 \<le> (\<Sum>i \<leftarrow> dl. sint (interval i))"
    using Cons.prems(3) by (intro sum_list_nonneg) (auto simp: list_all_iff)
  have add: "sint (ticks c + interval i) = sint (ticks c) + sint (interval i)"
    using Cons.prems nonneg by (intro sint_add_in_range) auto
  have split: "enc_all prop_bytes (concat (map write_interval (i # dl))) @ 254 # s =
      enc_all prop_bytes (write_interval i) @ enc_all prop_bytes (concat (map write_interval dl)) @ 254 # s"
    by (simp add: enc_all_def)
  have "unserialize now c (enc_all prop_bytes (concat (map write_interval (i # dl))) @ 254 # s) =
      unserialize now ?c (enc_all prop_bytes (concat (map write_interval dl)) @ 254 # s)"
    unfolding split by (rule unserialize_interval[OF Cons.prems(1,2)])
  also have "\<dots> = Some (True, (if dl = [] then ?c else setTicks now (ticks ?c + (\<Sum>i \<leftarrow> dl. interval i))
      (?c\<lparr>part := Damage (d\<lparr>damageList := damageList d @ [i] @ dl\<rparr>)\<rparr>)), s)"
    using Cons.IH[of ?c "d\<lparr>damageList := damageList d @ [i]\<rparr>"] Cons.prems add by simp
  finally show ?case by (simp add: add.assoc)
qed

lemma unserialize_damage:
  assumes "part c = Damage new_Damage" and "ticks c = 0" and "intervals_ok (damageList d)"
  shows "unserialize now c (part_bytes (Damage d) @ 254 # s) =
    Some (True, (if damageList d = [] then c\<lparr>part := reloaded_part (Damage d)\<rparr>
      else setTicks now (\<Sum>i \<leftarrow> damageList d. interval i) (c\<lparr>part := reloaded_part (Damage d)\<rparr>)), s)"
  using assms unserialize_intervals[of "c\<lparr>part := Damage (new_Damage\<lparr>delayed := delayed d, periodDamage := periodDamage d\<rparr>)\<rparr>" _ "damageList d"]
  by (simp add: part_bytes_def unserialize_simps intervals_ok_def enc_all_append new_Damage_def del: prop_bytes.simps(1))

lemma unserialize_storable:
  assumes "storable c"
  shows "unserialize now (fresh c) (part_bytes (part c) @ 254 # s) = Some (True, reloaded now c, s)"
proof (cases "part c")
  case (Damage d)
  with assms have "intervals_ok (damageList d)" by (simp add: storable_def)
  moreover have "fresh c\<lparr>part := reloaded_part (Damage d)\<rparr> = base_reloaded 0 c"
    using fresh_base[of c] Damage by (simp add: fresh_ticks_def)
  ultimately show ?thesis
    using Damage by (simp add: unserialize_damage fresh_ticks_def reloaded_def del: reloaded_part.simps)
qed (use assms unserialize_part[of "fresh c" "part c"] fresh_base[of c] in
     \<open>simp_all add: storable_def reloaded_def fresh_ticks_def\<close>)

section \<open>Saving and loading all conditions\<close>

definition saved :: "Condition \<Rightarrow> bool" where
  "saved c \<longleftrightarrow> isPersistent c \<or> isConstant c"

definition record_bytes :: "Condition \<Rightarrow> u8 list" where
  "record_bytes c = header_bytes c @ part_bytes (part c) @ [CONDITIONATTR_END]"

lemma saveConditions_bytes: "saveConditions cs = concat (map record_bytes (filter saved cs))"
proof -
  have "fold (\<lambda>c w. if isPersistent c \<or> isConstant c then prop_write CONDITIONATTR_END (serialize c w) else w) cs w =
      w @ concat (map record_bytes (filter saved cs))" for w
  proof (induction cs arbitrary: w)
    case (Cons c cs)
    have "prop_write CONDITIONATTR_END (serialize c w) = w @ record_bytes c"
      by (simp add: prop_write_def serialize_bytes record_bytes_def)
    with Cons show ?case by (simp add: saved_def del: CONDITIONATTR_END_def)
  qed simp
  then show ?thesis by (simp add: saveConditions_def)
qed

lemma load_record:
  assumes "well_typed c" and "unserialize now (fresh c) (part_bytes (part c) @ 254 # s) = r"
  shows "load_loop now (record_bytes c @ s) stored =
    (case r of None \<Rightarrow> None | Some (ok, c2, s2) \<Rightarrow> load_loop now s2 (if ok then c2 # stored else stored))"
  using assms createCondition_fresh[of c "part_bytes (part c) @ 254 # s"]
  by (subst load_loop.simps) (simp add: record_bytes_def)

lemma load_records:
  assumes "\<forall>c \<in> set cs. storable c"
  shows "load_loop now (concat (map record_bytes cs) @ s) stored =
    load_loop now s (rev (map (reloaded now) cs) @ stored)"
  using assms
proof (induction cs arbitrary: stored)
  case (Cons c cs)
  then show ?case
    by (simp add: load_record[OF _ unserialize_storable] storable_def)
qed simp

lemma load_nothing [simp]: "load_loop now [] stored = Some stored"
  by (simp add: load_loop.simps createCondition_from_def read_type_def read_next_def prop_read_def prop_size_def Let_def)



lemma wide_byte: "le_bytes 4 (ucast (b :: u8) :: u32) = [b, 0, 0, 0]"
proof -
  have "drop_bit 8 (ucast b :: u32) = 0"
    using bit_imp_le_length[of b] by (intro bit_word_eqI) (fastforce simp: bit_simps)
  then have "le_bytes (Suc 3) (ucast b :: u32) = ucast (ucast b :: u32) # le_bytes 3 (0 :: u32)"
    by (simp only: le_bytes.simps)
  moreover have "le_bytes 3 (0 :: u32) = [0, 0, 0]" by (simp add: numeral_3_eq_3)
  moreover have "ucast (ucast b :: u32) = b" by (rule bit_word_eqI) (auto simp: bit_simps)
  ultimately show ?thesis by simp
qed

text \<open>
  Claim C14. A light condition is never read back, and ends the loading: its colour is written as four bytes
  and read as one, so the second byte is taken for an unknown attribute, and the third for the start of the next
  condition. Only the conditions saved before it are loaded.
\<close>

theorem light_ends_loading:
  assumes "\<forall>c \<in> set cs. storable c" and "well_typed c" and "part c = Light l" and "isPersistent c \<or> isConstant c"
  shows "loadConditions now (saveConditions (cs @ c # ds)) =
    Some (rev (map (reloaded now) (filter (\<lambda>c. isPersistent c \<or> isConstant c) cs)))"
proof -
  have "unserialize now (fresh c) (part_bytes (part c) @ 254 # s) =
      Some (False, fresh c\<lparr>part := Light ((new_Light 0 0)\<lparr>lightColor := lightColor l\<rparr>)\<rparr>,
        0 # 0 # drop 5 (part_bytes (part c)) @ 254 # s)" for s
    using assms(3)
    by (simp add: part_bytes_def unserialize_simps wide_byte Condition_unserializeProp_def del: prop_bytes.simps(1))
  from load_record[OF assms(2) this] assms(3,4) load_records[of "filter saved cs" now _ "[]"] assms(1)
  show ?thesis
    by (simp add: loadConditions_def saveConditions_bytes saved_def[abs_def] load_loop.simps[of now "0 # _"]
      createCondition_from_def read_type_def)
qed

theorem light_ends_loading_witness:
  "loadConditions 0 (saveConditions
     [new_Condition (- 1) CONDITION_LIGHT 60000 False 0 False (Light (new_Light 5 215)),
      new_Condition (- 1) CONDITION_MUTED 1000 False 0 False GenericPart]) = Some []"
  using light_ends_loading[of "[]" "new_Condition (- 1) CONDITION_LIGHT 60000 False 0 False (Light (new_Light 5 215))"
      "new_Light 5 215" 0 "[new_Condition (- 1) CONDITION_MUTED 1000 False 0 False GenericPart]"]
  by (simp add: well_typed_def class_of_type_def createCondition_def new_Condition_def isPersistent_def)

lemma part_update_same: "part c = p \<Longrightarrow> c\<lparr>part := p\<rparr> = c"
  by (cases c) auto

lemma unserialize_skills:
  assumes "part c = Attributes a" and "currentSkill a + length vs \<le> length (skills a)"
  shows "\<exists>xs. length xs = length (skills a) \<and>
    unserialize now c (enc_all prop_bytes (write_attrs CONDITIONATTR_SKILLS vs) @ s) =
    unserialize now (c\<lparr>part := Attributes (a\<lparr>skills := xs, currentSkill := currentSkill a + length vs\<rparr>)\<rparr>) s"
  using assms
proof (induction vs arbitrary: c a)
  case Nil
  then show ?case by (intro exI[of _ "skills a"]) (simp add: write_attrs_def part_update_same)
next
  case (Cons v vs)
  let ?a = "a\<lparr>skills := (skills a)[currentSkill a := v], currentSkill := currentSkill a + 1\<rparr>"
  have "unserialize now c (enc_all prop_bytes (write_attrs CONDITIONATTR_SKILLS (v # vs)) @ s) =
      unserialize now (c\<lparr>part := Attributes ?a\<rparr>) (enc_all prop_bytes (write_attrs CONDITIONATTR_SKILLS vs) @ s)"
    using Cons.prems
    by (simp add: write_attrs_def unserialize_simps read_slot_def prop_read_bytes del: prop_bytes.simps(1))
  with Cons.IH[of "c\<lparr>part := Attributes ?a\<rparr>" ?a] Cons.prems show ?case by simp
qed

lemma unserialize_stats:
  assumes "part c = Attributes a" and "currentStat a + length vs \<le> length (stats a)"
  shows "\<exists>xs. length xs = length (stats a) \<and>
    unserialize now c (enc_all prop_bytes (write_attrs CONDITIONATTR_STATS vs) @ s) =
    unserialize now (c\<lparr>part := Attributes (a\<lparr>stats := xs, currentStat := currentStat a + length vs\<rparr>)\<rparr>) s"
  using assms
proof (induction vs arbitrary: c a)
  case Nil
  then show ?case by (intro exI[of _ "stats a"]) (simp add: write_attrs_def part_update_same)
next
  case (Cons v vs)
  let ?a = "a\<lparr>stats := (stats a)[currentStat a := v], currentStat := currentStat a + 1\<rparr>"
  have "unserialize now c (enc_all prop_bytes (write_attrs CONDITIONATTR_STATS (v # vs)) @ s) =
      unserialize now (c\<lparr>part := Attributes ?a\<rparr>) (enc_all prop_bytes (write_attrs CONDITIONATTR_STATS vs) @ s)"
    using Cons.prems
    by (simp add: write_attrs_def unserialize_simps read_slot_def prop_read_bytes del: prop_bytes.simps(1))
  with Cons.IH[of "c\<lparr>part := Attributes ?a\<rparr>" ?a] Cons.prems show ?case by simp
qed

lemma unserialize_specialSkills_overrun:
  assumes "part c = Attributes a" and "length (specialSkills a) < currentSpecialSkill a + length vs"
    and "currentSpecialSkill a \<le> length (specialSkills a)"
  shows "unserialize now c (enc_all prop_bytes (write_attrs CONDITIONATTR_SPECIALSKILLS vs) @ s) = None"
  using assms
proof (induction vs arbitrary: c a)
  case (Cons v vs)
  show ?case
  proof (cases "currentSpecialSkill a < length (specialSkills a)")
    case True
    let ?a = "a\<lparr>specialSkills := (specialSkills a)[currentSpecialSkill a := v],
        currentSpecialSkill := currentSpecialSkill a + 1\<rparr>"
    from True Cons.prems Cons.IH[of "c\<lparr>part := Attributes ?a\<rparr>" ?a] show ?thesis
      by (simp add: write_attrs_def unserialize_simps read_slot_def prop_read_bytes del: prop_bytes.simps(1))
  qed (use Cons.prems in \<open>simp add: write_attrs_def unserialize_simps read_slot_def prop_read_bytes del: prop_bytes.simps(1)\<close>)
qed simp

lemma write_attrs_append [simp]: "write_attrs attr (vs @ ws) = write_attrs attr vs @ write_attrs attr ws"
  by (simp add: write_attrs_def)

lemma unserialize_attributes:
  assumes "well_typed c" and "part c = Attributes a" and "part d = Attributes new_Attributes"
  shows "unserialize now d (part_bytes (Attributes a) @ s) = None"
proof -
  let ?special = "specialSkills a @ drop RATE_BASE (experienceRate a)"
  let ?rest = "enc_all prop_bytes (write_attrs CONDITIONATTR_SPECIALSKILLS ?special) @ s"
  let ?def = "CONDITIONATTR_DISABLEDEFENSE # of_bool (disableDefense a) # ?rest"
  have len: "length (skills a) = 7" "length (stats a) = 5" "length ?special = 10"
    using assms(1,2) by (simp_all add: well_typed_def)
  have bytes: "part_bytes (Attributes a) @ s = enc_all prop_bytes (write_attrs CONDITIONATTR_SKILLS (skills a)) @
      enc_all prop_bytes (write_attrs CONDITIONATTR_STATS (stats a)) @ ?def"
    by (simp add: part_bytes_def prop_bytes_byte del: prop_bytes.simps(1))
  let ?new = "new_Attributes"
  obtain xs where xs: "length xs = length (skills ?new)"
      "unserialize now d (part_bytes (Attributes a) @ s) =
       unserialize now (d\<lparr>part := Attributes (?new\<lparr>skills := xs, currentSkill := 7\<rparr>)\<rparr>)
         (enc_all prop_bytes (write_attrs CONDITIONATTR_STATS (stats a)) @ ?def)"
    using unserialize_skills[OF assms(3), of "skills a" now "enc_all prop_bytes (write_attrs CONDITIONATTR_STATS (stats a)) @ ?def"] len
    unfolding bytes by (auto simp: new_Attributes_def)
  let ?a1 = "?new\<lparr>skills := xs, currentSkill := 7\<rparr>"
  obtain ys where ys: "length ys = length (stats ?a1)"
      "unserialize now d (part_bytes (Attributes a) @ s) =
       unserialize now (d\<lparr>part := Attributes (?a1\<lparr>stats := ys, currentStat := 5\<rparr>)\<rparr>) ?def"
    using unserialize_stats[of "d\<lparr>part := Attributes ?a1\<rparr>" ?a1 "stats a" now ?def] len
    unfolding xs(2) by (auto simp: new_Attributes_def)
  let ?a2 = "?a1\<lparr>stats := ys, currentStat := 5, disableDefense := disableDefense a\<rparr>"
  have "unserialize now d (part_bytes (Attributes a) @ s) = unserialize now (d\<lparr>part := Attributes ?a2\<rparr>) ?rest"
    unfolding ys(2) by (simp add: unserialize_simps)
  also have "\<dots> = None"
    by (rule unserialize_specialSkills_overrun[where a = ?a2]) (use len in \<open>simp_all add: new_Attributes_def\<close>)
  finally show ?thesis .
qed

text \<open>
  Claim C13. Loading a condition that changes attributes writes outside an array: the four experience rates are
  written with the tag of the special skills, so ten values are read into the six elements of \<^verbatim>\<open>specialSkills\<close>.
  No element of \<^verbatim>\<open>experienceRate\<close> is ever restored.
\<close>

theorem attributes_overrun:
  assumes "\<forall>c \<in> set cs. storable c" and "well_typed c" and "part c = Attributes a" and "isPersistent c \<or> isConstant c"
  shows "loadConditions now (saveConditions (cs @ c # ds)) = None"
proof -
  have "unserialize now (fresh c) (part_bytes (part c) @ 254 # s) = None" for s
    using unserialize_attributes[OF assms(2,3), of "fresh c" now "254 # s"] assms(3) by simp
  from load_record[OF assms(2) this] assms(4) load_records[of "filter saved cs" now _ "[]"] assms(1)
  show ?thesis by (simp add: loadConditions_def saveConditions_bytes saved_def[abs_def])
qed

theorem attributes_overrun_witness:
  "loadConditions 0 (saveConditions
     [new_Condition (- 1) CONDITION_ATTRIBUTES 60000 False 0 False (Attributes new_Attributes)]) = None"
  using attributes_overrun[of "[]" "new_Condition (- 1) CONDITION_ATTRIBUTES 60000 False 0 False (Attributes new_Attributes)"
      new_Attributes 0 "[]"]
  by (simp add: well_typed_def class_of_type_def createCondition_def new_Condition_def new_Attributes_def isPersistent_def)

section \<open>Streams that are cut short\<close>

text \<open>
  \<open>reads_alike f\<close>: on a stream that is cut short, the reader either does what it does on the whole stream, or
  fails with less left than the common attributes of a condition take.
\<close>

definition reads_alike :: "(PropStream \<Rightarrow> prop_result) \<Rightarrow> bool" where
  "reads_alike f \<longleftrightarrow> (\<forall>s t c u. f (s @ t) = Some (True, c, u) \<longrightarrow>
     (\<exists>s'. f s = Some (True, c, s') \<and> u = s' @ t) \<or> (\<exists>c' s'. f s = Some (False, c', s') \<and> length s' < 26))"

lemma reads_alike_read_to: "LENGTH('a) \<le> 64 \<Longrightarrow> reads_alike (read_to (upd :: 'a::len word \<Rightarrow> Condition) c)"
  by (auto simp: reads_alike_def read_to_def prop_read_def prop_size_def Let_def split: if_splits)

lemma reads_alike_read_slot: "reads_alike (read_slot i xs upd c)"
  by (auto simp: reads_alike_def read_slot_def prop_read_def prop_size_def Let_def split: if_splits)

lemma reads_alike_pure: "reads_alike (\<lambda>s. Some (b, c, s))"
  by (auto simp: reads_alike_def)

lemma reads_alike_skip: "n \<le> 26 \<Longrightarrow> reads_alike (\<lambda>s. case prop_skip n s of (ok, s1) \<Rightarrow> Some (ok, c, s1))"
  by (auto simp: reads_alike_def prop_skip_def prop_size_def split: if_splits)

lemma reads_alike_if: "reads_alike f \<Longrightarrow> reads_alike g \<Longrightarrow> reads_alike (\<lambda>s. if b then f s else g s)"
  by (cases b) simp_all

lemma reads_alike_base: "reads_alike (Condition_unserializeProp attr c)"
  unfolding Condition_unserializeProp_def[abs_def]
  by (intro reads_alike_if reads_alike_pure reads_alike_read_to) simp_all

lemma reads_alike_interval:
  "reads_alike (\<lambda>s. case read_IntervalInfo s of (None, s1) \<Rightarrow> Some (False, c, s1) | (Some info, s1) \<Rightarrow> Some (True, f info, s1))"
  by (auto simp: reads_alike_def read_IntervalInfo_def prop_size_def split: if_splits)

lemma reads_alike_outfit:
  "reads_alike (\<lambda>s. case read_Outfit s of (None, s1) \<Rightarrow> Some (False, c, s1) | (Some info, s1) \<Rightarrow> Some (True, f info, s1))"
  by (auto simp: reads_alike_def read_Outfit_def prop_size_def sizeof_Outfit_def nth_append split: if_splits)

lemma reads_alike_unserializeProp: "reads_alike (unserializeProp now attr c)"
  unfolding unserializeProp_def[abs_def] unserializeProp_defs Let_def
  by (cases "part c"; simp only: ConditionPart.case)
    (intro reads_alike_if reads_alike_pure reads_alike_read_to reads_alike_read_slot reads_alike_skip
      reads_alike_interval reads_alike_outfit reads_alike_base; simp)+

lemma unserialize_cut:
  "unserialize now c (s @ t) = Some (True, c', u) \<Longrightarrow>
   (\<exists>s'. unserialize now c s = Some (True, c', s') \<and> u = s' @ t) \<or>
   (\<exists>b c'' s'. unserialize now c s = Some (b, c'', s') \<and> length s' < 26)"
proof (induction "length s" arbitrary: c s rule: less_induct)
  case less
  show ?case
  proof (cases s)
    case Nil
    then have "unserialize now c s = Some (True, c, [])"
      by (simp add: unserialize.simps[of now c "[]"] prop_read_def prop_size_def Let_def)
    then show ?thesis by fastforce
  next
    case (Cons attr s1)
    show ?thesis
    proof (cases "attr = CONDITIONATTR_END")
      case True
      with less.prems Cons show ?thesis by (simp add: unserialize_cons)
    next
      case False
      from less.prems Cons False obtain c2 u2 where u: "unserializeProp now attr c (s1 @ t) = Some (True, c2, u2)"
          "unserialize now c2 u2 = Some (True, c', u)"
        by (auto simp: unserialize_cons simp del: CONDITIONATTR_END_def split: option.splits if_splits)
      with reads_alike_unserializeProp[of now attr c] consider
          (same) s2 where "unserializeProp now attr c s1 = Some (True, c2, s2)" "u2 = s2 @ t"
        | (cut) c3 s2 where "unserializeProp now attr c s1 = Some (False, c3, s2)" "length s2 < 26"
        unfolding reads_alike_def by blast
      then show ?thesis
      proof cases
        case same
        with unserializeProp_shorter[OF same(1)] Cons less.hyps[of s2 c2] u False show ?thesis
          by (simp add: unserialize_cons del: CONDITIONATTR_END_def)
      next
        case cut
        with Cons False have "unserialize now c s = Some (False, c3, s2)"
          by (simp add: unserialize_cons del: CONDITIONATTR_END_def)
        with cut(2) show ?thesis by blast
      qed
    qed
  qed
qed

lemma read_next_length:
  "read_next s = Some (v :: 'a::len word, s1) \<Longrightarrow> length s = length s1 + LENGTH('a) div 8"
  by (auto simp: read_next_def prop_read_def prop_size_def Let_def split: if_splits)

lemma read_attr_length:
  "read_attr a s = Some (v :: 'a::len word, s1) \<Longrightarrow> length s = length s1 + 1 + LENGTH('a) div 8"
  by (auto simp: read_attr_def bind_eq_Some_conv dest!: read_next_length split: if_splits)

lemma read_type_length: "read_type s = Some (v, s1) \<Longrightarrow> length s1 + 5 \<le> length s"
  by (auto simp: read_type_def bind_eq_Some_conv dest!: read_next_length split: if_splits)

lemma createCondition_from_length: "createCondition_from s = Some (c, s1) \<Longrightarrow> 26 \<le> length s"
  by (auto simp: createCondition_from_def bind_eq_Some_conv dest!: read_type_length read_attr_length split: if_splits)

text \<open>What was read from the start of a stream does not depend on the rest.\<close>

definition extends :: "(PropStream \<Rightarrow> ('b \<times> PropStream) option) \<Rightarrow> bool" where
  "extends f \<longleftrightarrow> (\<forall>s t v s1. f s = Some (v, s1) \<longrightarrow> f (s @ t) = Some (v, s1 @ t))"

lemma extends_read_next: "extends read_next"
  by (auto simp: extends_def read_next_def prop_read_def prop_size_def Let_def split: if_splits)

lemma extends_bind:
  "extends f \<Longrightarrow> (\<And>v. extends (g v)) \<Longrightarrow> extends (\<lambda>s. do { (v, s1) \<leftarrow> f s; g v s1 })"
  by (fastforce simp: extends_def bind_eq_Some_conv)

lemma extends_value: "(\<And>v. extends (g v)) \<Longrightarrow> extends (\<lambda>s. do { v \<leftarrow> x; g v s })"
  by (cases x) (auto simp: extends_def)

lemma extends_if: "extends f \<Longrightarrow> extends g \<Longrightarrow> extends (\<lambda>s. if b then f s else g s)"
  by (cases b) simp_all

lemma extends_pure: "extends (\<lambda>s. Some (v, s))" "extends (\<lambda>s. None)"
  by (simp_all add: extends_def)

lemmas extends_intros = extends_read_next extends_bind extends_value extends_if extends_pure

lemma extends_read_attr: "extends (read_attr a)"
  unfolding read_attr_def[abs_def] by (intro extends_intros)

lemma extends_read_type: "extends read_type"
  unfolding read_type_def[abs_def] by (intro extends_intros)

lemma createCondition_from_extend:
  assumes "createCondition_from s = Some (c, s1)"
  shows "createCondition_from (s @ t) = Some (c, s1 @ t)"
proof -
  have "extends createCondition_from"
    unfolding createCondition_from_def[abs_def] by (intro extends_intros extends_read_attr extends_read_type)
  with assms show ?thesis by (simp add: extends_def)
qed

lemma load_short: "length s < 26 \<Longrightarrow> load_loop now s stored = Some stored"
  using createCondition_from_length[of s] by (subst load_loop.simps) (fastforce split: option.split)

lemma load_cut_record:
  assumes "storable c" and "n < length (record_bytes c)"
  shows "\<exists>partial. length partial \<le> 1 \<and> load_loop now (take n (record_bytes c)) stored = Some (partial @ stored)"
proof -
  have wt: "well_typed c" using assms(1) by (simp add: storable_def)
  let ?h = "header_bytes c" and ?p = "part_bytes (part c) @ [254]"
  have bytes: "record_bytes c = ?h @ ?p" by (simp add: record_bytes_def)
  show ?thesis
  proof (cases "n < length ?h")
    case True
    have "createCondition_from (take n ?h) = None"
    proof (rule ccontr)
      assume "createCondition_from (take n ?h) \<noteq> None"
      then obtain d s1 where "createCondition_from (take n ?h) = Some (d, s1)" by auto
      from createCondition_from_extend[OF this, of "drop n ?h"] createCondition_fresh[OF wt, of "[]"] True
      show False by simp
    qed
    with True show ?thesis by (intro exI[of _ "[]"]) (simp add: bytes load_loop.simps)
  next
    case False
    let ?m = "n - length ?h"
    have split: "take n (record_bytes c) = ?h @ take ?m ?p" using False by (simp add: bytes)
    have "unserialize now (fresh c) (take ?m ?p @ drop ?m ?p) = Some (True, reloaded now c, [])"
      using unserialize_storable[OF assms(1), of now "[]"] by (simp only: append_take_drop_id)
    moreover have "drop ?m ?p \<noteq> []" using assms(2) False bytes by simp
    ultimately obtain b c' s' where "unserialize now (fresh c) (take ?m ?p) = Some (b, c', s')" "length s' < 26"
      using unserialize_cut by blast
    with createCondition_fresh[OF wt, of "take ?m ?p"] show ?thesis
      by (intro exI[of _ "if b then [c'] else []"]) (simp add: split load_loop.simps[of now "?h @ _"] load_short)
  qed
qed

text \<open>The number of whole records in the first \<open>n\<close> bytes.\<close>

fun fitting :: "nat \<Rightarrow> Condition list \<Rightarrow> nat" where
  "fitting n [] = 0"
| "fitting n (c # cs) =
     (if length (record_bytes c) \<le> n then Suc (fitting (n - length (record_bytes c)) cs) else 0)"

lemma load_cut:
  assumes "\<forall>c \<in> set cs. storable c"
  shows "\<exists>partial. length partial \<le> 1 \<and> load_loop now (take n (concat (map record_bytes cs))) stored =
    Some (partial @ rev (map (reloaded now) (take (fitting n cs) cs)) @ stored)"
  using assms
proof (induction cs arbitrary: n stored)
  case (Cons c cs)
  show ?case
  proof (cases "length (record_bytes c) \<le> n")
    case True
    with Cons.prems have "load_loop now (take n (concat (map record_bytes (c # cs)))) stored =
        load_loop now (take (n - length (record_bytes c)) (concat (map record_bytes cs))) (reloaded now c # stored)"
      by (simp add: load_record[OF _ unserialize_storable] storable_def)
    with Cons.IH[of "n - length (record_bytes c)" "reloaded now c # stored"] Cons.prems True show ?thesis by simp
  next
    case False
    with load_cut_record[of c n now stored] Cons.prems show ?thesis by simp
  qed
qed simp



section \<open>Configured conditions\<close>

lemma Condition_setParam_keeps:
  "part (snd (Condition_setParam param v c)) = part c"
  "conditionType (snd (Condition_setParam param v c)) = conditionType c"
  "condId (snd (Condition_setParam param v c)) = condId c"
  by (simp_all add: Condition_setParam_def split: ConditionParam_t.split)

lemmas setParam_defs = setParam_def Condition_setParam_def ConditionAttributes_setParam_def ConditionRegeneration_setParam_def
  ConditionSoul_setParam_def ConditionDamage_setParam_def ConditionSpeed_setParam_def ConditionLight_setParam_def
  ConditionDrunk_setParam_def

lemma setParam_keeps:
  "condId (snd (setParam param v c)) = condId c \<and>
   (if class_index (part c) = class_index (Speed (new_Speed 0)) \<and> param = CONDITION_PARAM_SPEED
    then conditionType (snd (setParam param v c)) = (if sint v > 0 then CONDITION_HASTE else CONDITION_PARALYZE)
    else conditionType (snd (setParam param v c)) = conditionType c) \<and>
   class_index (part (snd (setParam param v c))) = class_index (part c)"
  by (cases "part c"; cases param) (simp_all add: setParam_defs Let_def)

lemma setParam_arrays:
  assumes "part c = Attributes a" and "part (snd (setParam param v c)) = Attributes b"
  shows "length (skills b) = length (skills a) \<and> length (skillsPercent b) = length (skillsPercent a) \<and>
    length (specialSkills b) = length (specialSkills a) \<and> length (stats b) = length (stats a) \<and>
    length (statsPercent b) = length (statsPercent a) \<and> length (experienceRate b) = length (experienceRate a)"
  using assms
  by (cases param) (auto simp: setParam_def ConditionAttributes_setParam_def Condition_setParam_def Let_def
      with_skill_def with_skillPercent_def with_specialSkill_def with_stat_def with_statPercent_def with_rate_def)

lemma speed_types: "class_of_type CONDITION_HASTE = Some (class_index (Speed s))" "class_of_type CONDITION_PARALYZE = Some (class_index (Speed s))"
  by (simp_all add: class_of_type_def createCondition_def new_Condition_def)

lemma setParam_well_typed:
  assumes "well_typed c"
  shows "well_typed (snd (setParam param v c))"
proof -
  let ?c = "snd (setParam param v c)"
  have t: "class_of_type (conditionType ?c) = class_of_type (conditionType c)"
    using setParam_keeps[of param v c] assms speed_types
    by (cases "part c") (auto simp: well_typed_def split: if_splits)
  have i: "class_index (part ?c) = class_index (part c)" using setParam_keeps by blast
  show ?thesis
  proof (cases "part c")
    case (Attributes a)
    with i obtain b where b: "part ?c = Attributes b" by (cases "part ?c") auto
    show ?thesis using assms t setParam_arrays[OF Attributes b] by (simp add: well_typed_def Attributes b)
  qed (use assms t i in \<open>cases "part ?c"; simp add: well_typed_def\<close>)+
qed

lemma class_of_createCondition:
  "map_option (class_index \<circ> part) (createCondition ident type tcks param buff sub aggr) = class_of_type type"
  unfolding class_of_type_def createCondition_def Let_def
  by (simp add: new_Condition_def if_distrib[of "map_option _"] del: condition_type_defs insert_iff cong: if_cong)

lemma createCondition_fields:
  assumes "createCondition ident type tcks param buff sub aggr = Some c"
  shows "conditionType c = type" "condId c = ident" "part c = Attributes a \<Longrightarrow> a = new_Attributes"
  using assms unfolding createCondition_def Let_def
  by (auto simp add: new_Condition_def simp del: condition_type_defs insert_iff split: if_splits)

lemma createCondition_well_typed:
  assumes "createCondition ident type tcks param buff sub aggr = Some c"
  shows "well_typed c \<and> condId c = ident"
  using class_of_createCondition[of ident type tcks param buff sub aggr] createCondition_fields[OF assms] assms
  by (cases "part c") (simp_all add: well_typed_def new_Attributes_def)




end
