(* ===== verification/CreatureConditions.thy ===== *)
theory CreatureConditions
  imports ConditionEffects ConditionStore
begin

text \<open>
  The conditions a creature has, \<^verbatim>\<open>src/src/creature.cpp\<close>: adding, renewing, removing and running them, with the
  hooks of \<^verbatim>\<open>Player\<close> and \<^verbatim>\<open>Monster\<close>. Each condition object in \<open>conditions\<close> stands with its address.
\<close>

section \<open>Finding conditions\<close>

definition getCondition :: "ConditionType_t \<Rightarrow> Creature \<Rightarrow> (nat \<times> Condition) option" where
  "getCondition type cr = List.find (\<lambda>(_, c). conditionType c = type) (conditions cr)"

definition getCondition3 :: "ConditionType_t \<Rightarrow> ConditionId_t \<Rightarrow> u32 \<Rightarrow> Creature \<Rightarrow> (nat \<times> Condition) option" where
  "getCondition3 type ident sub cr =
     List.find (\<lambda>(_, c). conditionType c = type \<and> condId c = ident \<and> subId c = sub) (conditions cr)"

definition hasCondition :: "Env \<Rightarrow> ConditionType_t \<Rightarrow> u32 \<Rightarrow> Creature \<Rightarrow> bool" where
  "hasCondition env type sub cr \<longleftrightarrow>
     \<not> isSuppress type cr \<and>
     list_ex (\<lambda>(_, c). conditionType c = type \<and> subId c = sub \<and> (sint (endTime c) \<ge> sint (now env) \<or> ticks c = - 1))
       (conditions cr)"

section \<open>Removing conditions\<close>

definition onEndCondition :: "ConditionType_t \<Rightarrow> Creature \<Rightarrow> Creature" where
  "onEndCondition type cr =
     (case kind cr of
        KPlayer \<Rightarrow>
          call SendIcons
            (if type = CONDITION_INFIGHT
             then call UpdateSkull (call ClearAttacked ((call OnIdleStatus cr)\<lparr>pzLocked := False\<rparr>)) else cr)
      | KMonster \<Rightarrow>
          call UpdateIdleStatus
            (if type = CONDITION_FIRE \<or> type = CONDITION_ENERGY \<or> type = CONDITION_POISON
             then call ClearIgnoreFieldDamage cr else cr)
      | KNpc \<Rightarrow> cr)"

definition delayed_removal :: "Env \<Rightarrow> bool \<Rightarrow> ConditionType_t \<Rightarrow> bool" where
  "delayed_removal env force type \<longleftrightarrow> \<not> force \<and> type = CONDITION_PARALYZE \<and> sint (walkDelay env) > 0"

text \<open>The loop over the vector: \<open>kept\<close> was passed over, \<open>rest\<close> is still to come.\<close>

fun removeCondition_loop ::
  "Env \<Rightarrow> bool \<Rightarrow> ConditionType_t \<Rightarrow> (Condition \<Rightarrow> bool) \<Rightarrow> (nat \<times> Condition) list \<Rightarrow> (nat \<times> Condition) list \<Rightarrow>
   Creature \<Rightarrow> Creature" where
  "removeCondition_loop env force type P kept [] cr = cr"
| "removeCondition_loop env force type P kept ((pid, c) # rest) cr =
     (if \<not> P c then removeCondition_loop env force type P (kept @ [(pid, c)]) rest cr
      else if delayed_removal env force type then call (ForceRemoveCondition (walkDelay env) type) cr
      else removeCondition_loop env force type P kept rest
             (onEndCondition type (endCondition env c (cr\<lparr>conditions := kept @ rest\<rparr>))))"

definition removeCondition :: "Env \<Rightarrow> bool \<Rightarrow> ConditionType_t \<Rightarrow> Creature \<Rightarrow> Creature" where
  "removeCondition env force type cr =
     removeCondition_loop env force type (\<lambda>c. conditionType c = type) [] (conditions cr) cr"

definition removeCondition2 :: "Env \<Rightarrow> bool \<Rightarrow> ConditionType_t \<Rightarrow> ConditionId_t \<Rightarrow> Creature \<Rightarrow> Creature" where
  "removeCondition2 env force type ident cr =
     removeCondition_loop env force type (\<lambda>c. conditionType c = type \<and> condId c = ident) [] (conditions cr) cr"

definition erase :: "nat \<Rightarrow> Creature \<Rightarrow> Creature" where
  "erase pid cr = cr\<lparr>conditions := filter (\<lambda>(i, _). i \<noteq> pid) (conditions cr)\<rparr>"

definition removeCondition_at :: "Env \<Rightarrow> bool \<Rightarrow> nat \<Rightarrow> Creature \<Rightarrow> Creature" where
  "removeCondition_at env force pid cr =
     (case map_of (conditions cr) pid of
        None \<Rightarrow> cr
      | Some c \<Rightarrow>
          if delayed_removal env force (conditionType c)
          then call (ForceRemoveCondition (walkDelay env) (conditionType c)) cr
          else onEndCondition (conditionType c) (endCondition env c (erase pid cr)))"

definition onCombatRemoveCondition :: "Env \<Rightarrow> nat \<Rightarrow> Creature \<Rightarrow> Creature" where
  "onCombatRemoveCondition env pid cr =
     (if \<not> isPlayer cr then removeCondition_at env False pid cr
      else case map_of (conditions cr) pid of
          None \<Rightarrow> cr
        | Some c \<Rightarrow>
            if sint (condId c) > 0 then (if worldPvpEnforced env then call (MayDestroyItem (condId c)) cr else cr)
            else if \<not> canDoAction env
            then let tcks = nextActionTime env - nextActionTime env mod 1000
                 in if sint tcks < 0 then removeCondition_at env False pid cr
                    else put_condition pid (setTicks (now env) tcks c) cr
            else removeCondition_at env False pid cr)"

definition removeCombatCondition :: "Env \<Rightarrow> ConditionType_t \<Rightarrow> Creature \<Rightarrow> Creature" where
  "removeCombatCondition env type cr =
     fold (onCombatRemoveCondition env) (map fst (filter (\<lambda>(_, c). conditionType c = type) (conditions cr))) cr"

section \<open>Adding a condition\<close>

definition onAddCondition :: "Env \<Rightarrow> ConditionType_t \<Rightarrow> Creature \<Rightarrow> Creature" where
  "onAddCondition env type cr =
     (let base = (if type AND CONDITION_PARALYZE \<noteq> 0 \<and> hasCondition env CONDITION_HASTE 0 cr
                  then removeCondition env False CONDITION_HASTE cr
                  else if type AND CONDITION_HASTE \<noteq> 0 \<and> hasCondition env CONDITION_PARALYZE 0 cr
                  then removeCondition env False CONDITION_PARALYZE cr
                  else cr)
      in case kind cr of
          KPlayer \<Rightarrow> call SendIcons base
        | KMonster \<Rightarrow> call UpdateIdleStatus cr
        | KNpc \<Rightarrow> base)"

text \<open>\<open>pid\<close> is the address of the new object; \<open>None\<close> stands for a division by zero.\<close>

definition addCondition :: "Env \<Rightarrow> bool \<Rightarrow> nat \<Rightarrow> Condition \<Rightarrow> Creature \<Rightarrow> (bool \<times> Creature) option" where
  "addCondition env force pid c cr =
     (if \<not> force \<and> (conditionType c = CONDITION_ROOTED \<or> conditionType c = CONDITION_FEARED) \<and>
         isImmune env (conditionType c) cr
      then Some (False, cr)
      else if \<not> force \<and> conditionType c = CONDITION_HASTE \<and> hasCondition env CONDITION_PARALYZE 0 cr \<and>
         sint (walkDelay env) > 0
      then Some (False, call (ForceAddCondition (walkDelay env) c) cr)
      else case getCondition3 (conditionType c) (condId c) (subId c) cr of
          Some (prev, prevCond) \<Rightarrow>
            map_option (\<lambda>(c1, cr1). (True, put_condition prev c1 cr1)) (Condition_addCondition env c prev prevCond cr)
        | None \<Rightarrow>
            (case startCondition env c cr of
               None \<Rightarrow> None
             | Some (ok, c1, cr1) \<Rightarrow>
                 if ok then Some (True, onAddCondition env (conditionType c1) (cr1\<lparr>conditions := conditions cr1 @ [(pid, c1)]\<rparr>))
                 else Some (False, cr1)))"

definition onAddCombatCondition :: "ConditionType_t \<Rightarrow> Creature \<Rightarrow> Creature" where
  "onAddCombatCondition type cr = (if isPlayer cr then call (SendCombatCondition type) cr else cr)"

definition addCombatCondition :: "Env \<Rightarrow> nat \<Rightarrow> Condition \<Rightarrow> Creature \<Rightarrow> (bool \<times> Creature) option" where
  "addCombatCondition env pid c cr =
     map_option (\<lambda>(ok, cr1). if ok then (True, onAddCombatCondition (conditionType c) cr1) else (False, cr1))
       (addCondition env False pid c cr)"

section \<open>Running the conditions\<close>

definition execute_one :: "Env \<Rightarrow> s32 \<Rightarrow> nat \<Rightarrow> Condition \<Rightarrow> Creature \<Rightarrow> Creature" where
  "execute_one env ival pid c cr =
     (let (alive, c1, cr1) = executeCondition env ival pid c cr; cr2 = put_condition pid c1 cr1
      in if alive then cr2
         else case map_of (conditions cr2) pid of
             None \<Rightarrow> cr2
           | Some owned \<Rightarrow> onEndCondition (conditionType owned) (endCondition env owned (erase pid cr2)))"

fun execute_loop :: "Env \<Rightarrow> s32 \<Rightarrow> nat list \<Rightarrow> Creature \<Rightarrow> Creature" where
  "execute_loop env ival [] cr = cr"
| "execute_loop env ival (pid # pids) cr =
     (if isDead cr \<or> removed cr then cr
      else case map_of (conditions cr) pid of
          None \<Rightarrow> execute_loop env ival pids cr
        | Some c \<Rightarrow> execute_loop env ival pids (execute_one env ival pid c cr))"

definition executeConditions :: "Env \<Rightarrow> s32 \<Rightarrow> Creature \<Rightarrow> Creature" where
  "executeConditions env ival cr = execute_loop env ival (map fst (conditions cr)) cr"

end
