(* ===== verification/ConditionBalance.thy ===== *)
theory ConditionBalance
  imports CreatureConditions "HOL-Library.Sublist"
begin

text \<open>
  What holds of the conditions of a creature however they are added, renewed, run and removed: no two of them are of
  the same kind, and what they add to the creature's speed, skills and stats is taken away again, no more and no less.
\<close>

section \<open>Arrays of modifiers\<close>

text \<open>An array whose elements are changed by adding to them; \<open>bump\<close> changes one element.\<close>

locale modifier_array =
  fixes arr :: "'s \<Rightarrow> ('n::ab_group_add) list"
    and bump :: "nat \<Rightarrow> 'n \<Rightarrow> 's \<Rightarrow> 's"
  assumes arr_bump: "arr (bump i x s) = (arr s)[i := arr s ! i + x]"
begin

lemma length_bump_all: "length (arr (fold (\<lambda>i s. if P i then bump i (f i) s else s) ks s)) = length (arr s)"
  by (induction ks arbitrary: s) (auto simp: arr_bump)

lemma nth_bump_all:
  assumes "distinct ks" and "j < length (arr s)"
  shows "arr (fold (\<lambda>i s. if P i then bump i (f i) s else s) ks s) ! j = arr s ! j + (if j \<in> set ks \<and> P j then f j else 0)"
  using assms
proof (induction ks arbitrary: s)
  case (Cons k ks)
  have "j < length (arr (if P k then bump k (f k) s else s))" using Cons.prems by (simp add: arr_bump)
  with Cons show ?case by (cases "k = j") (auto simp: arr_bump)
qed simp

text \<open>An element that is not bumped because nothing is to be added makes no difference.\<close>

lemma bump_upto:
  assumes "j < n" and "n \<le> length (arr s)" and "P j \<or> f j = 0"
  shows "arr (fold (\<lambda>i s. if P i then bump i (f i) s else s) [0..<n] s) ! j = arr s ! j + f j"
  using assms by (subst nth_bump_all) auto

end

section \<open>What conditions leave alone\<close>

type_synonym core = "(nat \<times> Condition) list \<times> CreatureKind \<times> s32 \<times> s32 list \<times> s32 list \<times> s32 list"

definition core :: "Creature \<Rightarrow> core" where
  "core cr = (conditions cr, kind cr, varSpeed cr, varSkills cr, varSpecialSkills cr, varStats cr)"

named_theorems core_simps \<open>operations that leave the conditions and the modifiers alone\<close>

lemma core_call [core_simps]: "core (call x cr) = core cr"
  by (simp add: core_def call_def)

lemma core_calls [core_simps]: "core (fold call xs cr) = core cr"
  by (induction xs arbitrary: cr) (simp_all add: core_simps)

lemma core_call_if [core_simps]: "core (call_if b xs cr) = core cr"
  by (simp add: call_if_def core_simps)

lemma core_update [core_simps]:
  "core (cr\<lparr>health := h\<rparr>) = core cr" "core (cr\<lparr>mana := m\<rparr>) = core cr" "core (cr\<lparr>soul := s\<rparr>) = core cr"
  "core (cr\<lparr>drunkenness := d\<rparr>) = core cr" "core (cr\<lparr>currentOutfit := f\<rparr>) = core cr"
  "core (cr\<lparr>internalLight := l\<rparr>) = core cr" "core (cr\<lparr>canUseDefense := b\<rparr>) = core cr"
  "core (cr\<lparr>rootImmunityEnd := t\<rparr>) = core cr" "core (cr\<lparr>fearImmunityEnd := t\<rparr>) = core cr"
  "core (cr\<lparr>rates := rs\<rparr>) = core cr" "core (cr\<lparr>pzLocked := b\<rparr>) = core cr"
  by (simp_all add: core_def)

lemma core_changeHealth [core_simps]: "core (Creature_changeHealth x cr) = core cr" "core (changeHealth x cr) = core cr"
  by (simp_all add: Creature_changeHealth_def changeHealth_def Let_def core_simps)

lemma core_changeMana [core_simps]: "core (changeMana x cr) = core cr"
  by (simp add: changeMana_def Let_def core_simps)

lemma core_changeSoul [core_simps]: "core (changeSoul x cr) = core cr"
  by (simp add: changeSoul_def Let_def core_simps)

lemma core_outfit [core_simps]: "core (internalCreatureChangeOutfit env f cr) = core cr"
  by (simp add: internalCreatureChangeOutfit_def Let_def core_simps)

lemma core_regenerate [core_simps]:
  "core (regenerate_health env c r cr) = core cr" "core (regenerate_mana env c r cr) = core cr"
  by (simp_all add: regenerate_health_def regenerate_mana_def Let_def core_simps)

lemma core_flee [core_simps]: "core (flee env p cr) = core cr"
  by (simp add: flee_def core_simps split: option.split)

lemma core_cooldown [core_simps]: "core (spell_cooldown c cr) = core cr" "core (spell_group_cooldown c cr) = core cr"
  by (simp_all add: spell_cooldown_def spell_group_cooldown_def core_simps)

lemma core_onEndCondition [core_simps]: "core (onEndCondition type cr) = core cr"
  by (simp add: onEndCondition_def core_simps split: CreatureKind.split)

lemma core_rates [core_simps]:
  "core (setExperienceRate i x cr) = core cr" "core (addExperienceRate i x cr) = core cr"
  by (simp_all add: setExperienceRate_def addExperienceRate_def core_simps)

lemma core_fold: "(\<And>i cr. core (f i cr) = core cr) \<Longrightarrow> core (fold (\<lambda>i cr. if P i then f i cr else cr) ks cr) = core cr"
  by (induction ks arbitrary: cr) auto

lemma core_proj:
  assumes "core cr = core cr'"
  shows "conditions cr = conditions cr'" "kind cr = kind cr'" "varSpeed cr = varSpeed cr'" "varSkills cr = varSkills cr'"
    "varSpecialSkills cr = varSpecialSkills cr'" "varStats cr = varStats cr'"
  using assms by (simp_all add: core_def)

lemma core_setVarStats:
  "core (setVarStats i x cr) = core (cr\<lparr>varStats := (varStats cr)[i := varStats cr ! i + x]\<rparr>)"
  by (simp add: setVarStats_def Let_def core_simps)

interpretation skill: modifier_array varSkills setVarSkill
  by unfold_locales (simp add: setVarSkill_def)

interpretation special: modifier_array varSpecialSkills setVarSpecialSkill
  by unfold_locales (simp add: setVarSpecialSkill_def)

interpretation stat: modifier_array varStats setVarStats
  by unfold_locales (use core_proj(6)[OF core_setVarStats] in simp)

interpretation rate: modifier_array rates addExperienceRate
  by unfold_locales (simp add: addExperienceRate_def)

section \<open>What a condition adds\<close>

datatype slot = SlotSpeed | SlotSkill nat | SlotSpecial nat | SlotStat nat

fun current :: "Creature \<Rightarrow> slot \<Rightarrow> s32" where
  "current cr SlotSpeed = varSpeed cr"
| "current cr (SlotSkill j) = (if j \<le> SKILL_LAST then varSkills cr ! j else 0)"
| "current cr (SlotSpecial j) = (if j \<le> SPECIALSKILL_LAST then varSpecialSkills cr ! j else 0)"
| "current cr (SlotStat j) = (if j \<le> STAT_LAST then varStats cr ! j else 0)"

definition attr_contrib :: "AttributesPart \<Rightarrow> slot \<Rightarrow> s32" where
  "attr_contrib a x =
     (case x of
        SlotSpeed \<Rightarrow> 0
      | SlotSkill j \<Rightarrow> if j \<le> SKILL_LAST then skills a ! j else 0
      | SlotSpecial j \<Rightarrow> if j \<le> SPECIALSKILL_LAST then specialSkills a ! j else 0
      | SlotStat j \<Rightarrow> if j \<le> STAT_LAST then stats a ! j else 0)"

text \<open>Skills and stats are those of players: on other creatures a condition does not touch them.\<close>

definition contrib :: "CreatureKind \<Rightarrow> Condition \<Rightarrow> slot \<Rightarrow> s32" where
  "contrib k c x =
     (case part c of
        Speed s \<Rightarrow> if x = SlotSpeed then speedDelta s else 0
      | Attributes a \<Rightarrow> if k = KPlayer then attr_contrib a x else 0
      | _ \<Rightarrow> 0)"

text \<open>What the creature would have without its conditions.\<close>

definition natural :: "Creature \<Rightarrow> slot \<Rightarrow> s32" where
  "natural cr x = current cr x - (\<Sum>(_, c) \<leftarrow> conditions cr. contrib (kind cr) c x)"

definition arrays_ok :: "Creature \<Rightarrow> bool" where
  "arrays_ok cr \<longleftrightarrow> length (varSkills cr) = SKILL_LAST + 1 \<and> length (varSpecialSkills cr) = SPECIALSKILL_LAST + 1 \<and>
     length (varStats cr) = STAT_LAST + 1"

lemma core_current: "core cr = core cr' \<Longrightarrow> current cr x = current cr' x"
  by (cases x) (auto simp: core_def)

lemma core_arrays_ok: "core cr = core cr' \<Longrightarrow> arrays_ok cr = arrays_ok cr'"
  by (auto simp: core_def arrays_ok_def)

lemma core_natural: "core cr = core cr' \<Longrightarrow> natural cr = natural cr'"
  using core_current[of cr cr'] core_proj(1,2)[of cr cr'] by (intro ext) (simp add: natural_def)


section \<open>Attributes\<close>

definition attr_lengths :: "AttributesPart \<Rightarrow> bool" where
  "attr_lengths a \<longleftrightarrow> length (skills a) = 7 \<and> length (skillsPercent a) = 7 \<and> length (specialSkills a) = 6 \<and>
     length (stats a) = 5 \<and> length (statsPercent a) = 5 \<and> length (experienceRate a) = 5"

lemma fold_keeps: "(\<And>i x. g (f i x) = g x) \<Longrightarrow> g (fold f ks x) = g x"
  by (induction ks arbitrary: x) auto

lemma updatePercentSkills_keeps:
  "specialSkills (updatePercentSkills env cr a) = specialSkills a" "stats (updatePercentSkills env cr a) = stats a"
  "skillsPercent (updatePercentSkills env cr a) = skillsPercent a" "statsPercent (updatePercentSkills env cr a) = statsPercent a"
  "experienceRate (updatePercentSkills env cr a) = experienceRate a" "disableDefense (updatePercentSkills env cr a) = disableDefense a"
  "length (skills (updatePercentSkills env cr a)) = length (skills a)"
  unfolding updatePercentSkills_def by (rule fold_keeps, simp add: with_skill_def)+

lemma updatePercentStats_keeps:
  "specialSkills (updatePercentStats env cr a) = specialSkills a" "skills (updatePercentStats env cr a) = skills a"
  "skillsPercent (updatePercentStats env cr a) = skillsPercent a" "statsPercent (updatePercentStats env cr a) = statsPercent a"
  "experienceRate (updatePercentStats env cr a) = experienceRate a" "disableDefense (updatePercentStats env cr a) = disableDefense a"
  "length (stats (updatePercentStats env cr a)) = length (stats a)"
  unfolding updatePercentStats_def by (rule fold_keeps, simp add: with_stat_def Let_def)+

lemmas percent_keeps = updatePercentSkills_keeps updatePercentStats_keeps

text \<open>A bump of one array leaves the other modifiers.\<close>

definition others :: "slot \<Rightarrow> Creature \<Rightarrow> core" where
  "others x cr =
     (case x of
        SlotSpeed \<Rightarrow> core (cr\<lparr>varSpeed := 0\<rparr>)
      | SlotSkill _ \<Rightarrow> core (cr\<lparr>varSkills := []\<rparr>)
      | SlotSpecial _ \<Rightarrow> core (cr\<lparr>varSpecialSkills := []\<rparr>)
      | SlotStat _ \<Rightarrow> core (cr\<lparr>varStats := []\<rparr>))"

lemma others_bump:
  "others (SlotSkill j) (setVarSkill i x cr) = others (SlotSkill j) cr"
  "others (SlotSpecial j) (setVarSpecialSkill i x cr) = others (SlotSpecial j) cr"
  "others (SlotStat j) (setVarStats i x cr) = others (SlotStat j) cr"
  using core_proj[OF core_setVarStats, of i x cr]
  by (simp_all add: others_def core_def setVarSkill_def setVarSpecialSkill_def)

lemma others_fold:
  "others (SlotSkill 0) (fold (\<lambda>i cr. if P i then setVarSkill i (f i) cr else cr) ks cr) = others (SlotSkill 0) cr"
  "others (SlotSpecial 0) (fold (\<lambda>i cr. if P i then setVarSpecialSkill i (f i) cr else cr) ks cr) = others (SlotSpecial 0) cr"
  "others (SlotStat 0) (fold (\<lambda>i cr. if P i then setVarStats i (f i) cr else cr) ks cr) = others (SlotStat 0) cr"
  by (rule fold_keeps, simp add: others_bump)+

text \<open>The three runs over the arrays together, as \<^verbatim>\<open>updateSkills\<close>, \<^verbatim>\<open>updateStats\<close> and \<^verbatim>\<open>endCondition\<close> make them.\<close>

definition bump_skills :: "(nat \<Rightarrow> bool) \<Rightarrow> (nat \<Rightarrow> s32) \<Rightarrow> Creature \<Rightarrow> Creature" where
  "bump_skills P f cr = fold (\<lambda>i cr. if P i then setVarSkill i (f i) cr else cr) [0..<SKILL_LAST + 1] cr"

definition bump_special :: "(nat \<Rightarrow> bool) \<Rightarrow> (nat \<Rightarrow> s32) \<Rightarrow> Creature \<Rightarrow> Creature" where
  "bump_special P f cr = fold (\<lambda>i cr. if P i then setVarSpecialSkill i (f i) cr else cr) [0..<SPECIALSKILL_LAST + 1] cr"

definition bump_stats :: "(nat \<Rightarrow> bool) \<Rightarrow> (nat \<Rightarrow> s32) \<Rightarrow> Creature \<Rightarrow> Creature" where
  "bump_stats P f cr = fold (\<lambda>i cr. if P i then setVarStats i (f i) cr else cr) [0..<STAT_LAST + 1] cr"

text \<open>\<open>moved d cr cr'\<close>: the modifiers of \<open>cr'\<close> are those of \<open>cr\<close> with \<open>d\<close> added, and nothing else of them has changed.\<close>

definition moved :: "(slot \<Rightarrow> s32) \<Rightarrow> Creature \<Rightarrow> Creature \<Rightarrow> bool" where
  "moved d cr cr' \<longleftrightarrow> arrays_ok cr' \<and> conditions cr' = conditions cr \<and> kind cr' = kind cr \<and>
     (\<forall>x. current cr' x = current cr x + d x)"

lemma moved_core: "core cr' = core cr \<Longrightarrow> arrays_ok cr \<Longrightarrow> moved (\<lambda>_. 0) cr cr'"
  using core_current[of cr' cr] core_proj[of cr' cr] core_arrays_ok[of cr' cr] by (simp add: moved_def)

lemma moved_trans: "moved d cr cr1 \<Longrightarrow> moved e cr1 cr2 \<Longrightarrow> moved (\<lambda>x. d x + e x) cr cr2"
  by (simp add: moved_def add.assoc)

lemma moved_core_right: "moved d cr cr1 \<Longrightarrow> core cr2 = core cr1 \<Longrightarrow> moved d cr cr2"
  using core_current[of cr2 cr1] core_proj[of cr2 cr1] core_arrays_ok[of cr2 cr1] by (simp add: moved_def)

lemma moved_arrays: "moved d cr cr' \<Longrightarrow> arrays_ok cr'"
  by (simp add: moved_def)

lemma bump_skills_moved:
  assumes "arrays_ok cr" and "\<And>i. P i \<or> f i = 0"
  shows "moved (\<lambda>x. case x of SlotSkill j \<Rightarrow> if j \<le> SKILL_LAST then f j else 0 | _ \<Rightarrow> 0) cr (bump_skills P f cr)"
proof -
  let ?cr = "bump_skills P f cr"
  have o: "others (SlotSkill 0) ?cr = others (SlotSkill 0) cr" by (simp add: bump_skills_def others_fold del: upt_Suc)
  have "length (varSkills ?cr) = length (varSkills cr)" by (simp add: bump_skills_def skill.length_bump_all)
  moreover have "varSkills ?cr ! j = varSkills cr ! j + f j" if "j \<le> SKILL_LAST" for j
    using assms that unfolding bump_skills_def by (intro skill.bump_upto) (auto simp: arrays_ok_def)
  ultimately show ?thesis
    using o assms(1) by (auto simp: moved_def others_def core_def arrays_ok_def split: slot.split)
qed

lemma bump_special_moved:
  assumes "arrays_ok cr" and "\<And>i. P i \<or> f i = 0"
  shows "moved (\<lambda>x. case x of SlotSpecial j \<Rightarrow> if j \<le> SPECIALSKILL_LAST then f j else 0 | _ \<Rightarrow> 0) cr (bump_special P f cr)"
proof -
  let ?cr = "bump_special P f cr"
  have o: "others (SlotSpecial 0) ?cr = others (SlotSpecial 0) cr" by (simp add: bump_special_def others_fold del: upt_Suc)
  have "length (varSpecialSkills ?cr) = length (varSpecialSkills cr)" by (simp add: bump_special_def special.length_bump_all)
  moreover have "varSpecialSkills ?cr ! j = varSpecialSkills cr ! j + f j" if "j \<le> SPECIALSKILL_LAST" for j
    using assms that unfolding bump_special_def by (intro special.bump_upto) (auto simp: arrays_ok_def)
  ultimately show ?thesis
    using o assms(1) by (auto simp: moved_def others_def core_def arrays_ok_def split: slot.split)
qed

lemma bump_stats_moved:
  assumes "arrays_ok cr" and "\<And>i. P i \<or> f i = 0"
  shows "moved (\<lambda>x. case x of SlotStat j \<Rightarrow> if j \<le> STAT_LAST then f j else 0 | _ \<Rightarrow> 0) cr (bump_stats P f cr)"
proof -
  let ?cr = "bump_stats P f cr"
  have o: "others (SlotStat 0) ?cr = others (SlotStat 0) cr" by (simp add: bump_stats_def others_fold del: upt_Suc)
  have "length (varStats ?cr) = length (varStats cr)" by (simp add: bump_stats_def stat.length_bump_all)
  moreover have "varStats ?cr ! j = varStats cr ! j + f j" if "j \<le> STAT_LAST" for j
    using assms that unfolding bump_stats_def by (intro stat.bump_upto) (auto simp: arrays_ok_def)
  ultimately show ?thesis
    using o assms(1) by (auto simp: moved_def others_def core_def arrays_ok_def split: slot.split)
qed

lemma updateSkills_bump:
  "core (updateSkills a cr) = core (bump_special (\<lambda>i. specialSkills a ! i \<noteq> 0) ((!) (specialSkills a))
     (bump_skills (\<lambda>i. skills a ! i \<noteq> 0) ((!) (skills a)) cr))"
  by (simp add: updateSkills_def bump_skills_def bump_special_def Let_def core_simps del: upt_Suc)

lemma updateStats_bump:
  "core (updateStats a cr) = core (bump_stats (\<lambda>i. stats a ! i \<noteq> 0) ((!) (stats a)) cr)"
  by (simp add: updateStats_def bump_stats_def Let_def core_simps del: upt_Suc)

lemma apply_attributes_moved:
  assumes "arrays_ok cr" and "apply_attributes env a cr = (a', cr')"
  shows "moved (attr_contrib a') cr cr'"
proof -
  define a1 where "a1 = updatePercentSkills env cr a"
  define cr1 where "cr1 = updateSkills a1 cr"
  have a': "a' = updatePercentStats env cr1 a1" and cr': "cr' = updateStats a' cr1"
    using assms(2) by (auto simp: apply_attributes_def a1_def cr1_def Let_def)
  let ?s1 = "bump_skills (\<lambda>i. skills a1 ! i \<noteq> 0) ((!) (skills a1)) cr"
  note m1 = bump_skills_moved[OF assms(1), of "\<lambda>i. skills a1 ! i \<noteq> 0" "(!) (skills a1)", simplified]
  note m2 = bump_special_moved[OF moved_arrays[OF m1], of "\<lambda>i. specialSkills a1 ! i \<noteq> 0" "(!) (specialSkills a1)", simplified]
  from moved_trans[OF m1 m2] have m12: "moved (\<lambda>x. (case x of SlotSkill j \<Rightarrow> if j \<le> 6 then skills a1 ! j else 0 | _ \<Rightarrow> 0) +
      (case x of SlotSpecial j \<Rightarrow> if j \<le> 5 then specialSkills a1 ! j else 0 | _ \<Rightarrow> 0)) cr cr1"
    by (rule moved_core_right) (simp add: cr1_def updateSkills_bump)
  note m3 = bump_stats_moved[OF moved_arrays[OF m12], of "\<lambda>i. stats a' ! i \<noteq> 0" "(!) (stats a')", simplified]
  from moved_trans[OF m12 m3] have "moved (\<lambda>x. (case x of SlotSkill j \<Rightarrow> if j \<le> 6 then skills a1 ! j else 0 | _ \<Rightarrow> 0) +
      (case x of SlotSpecial j \<Rightarrow> if j \<le> 5 then specialSkills a1 ! j else 0 | _ \<Rightarrow> 0) +
      (case x of SlotStat j \<Rightarrow> if j \<le> 4 then stats a' ! j else 0 | _ \<Rightarrow> 0)) cr cr'"
    by (rule moved_core_right) (simp add: cr' updateStats_bump)
  moreover have "attr_contrib a' = (\<lambda>x. (case x of SlotSkill j \<Rightarrow> if j \<le> 6 then skills a1 ! j else 0 | _ \<Rightarrow> 0) +
      (case x of SlotSpecial j \<Rightarrow> if j \<le> 5 then specialSkills a1 ! j else 0 | _ \<Rightarrow> 0) +
      (case x of SlotStat j \<Rightarrow> if j \<le> 4 then stats a' ! j else 0 | _ \<Rightarrow> 0))"
    by (rule ext) (simp add: attr_contrib_def a' percent_keeps split: slot.split)
  ultimately show ?thesis by simp
qed

lemma apply_attributes_keeps:
  assumes "apply_attributes env a cr = (a', cr')"
  shows "attr_lengths a' = attr_lengths a" "experienceRate a' = experienceRate a" "disableDefense a' = disableDefense a"
  using assms by (auto simp: apply_attributes_def Let_def attr_lengths_def percent_keeps)

lemma updateExperienceRate_core [core_simps]: "core (updateExperienceRate a cr) = core cr"
  unfolding updateExperienceRate_def by (rule core_fold) (simp add: core_simps)

lemma attributes_end_moved:
  assumes "arrays_ok cr" and "isPlayer cr"
  shows "moved (\<lambda>x. - attr_contrib a x) cr (ConditionAttributes_endCondition a cr)"
proof -
  define cr1 where "cr1 = bump_skills (\<lambda>i. skills a ! i \<noteq> 0 \<or> skillsPercent a ! i \<noteq> 0) (\<lambda>i. - (skills a ! i)) cr"
  define cr2 where "cr2 = bump_special (\<lambda>i. specialSkills a ! i \<noteq> 0) (\<lambda>i. - (specialSkills a ! i)) cr1"
  define need where "need \<longleftrightarrow> list_ex (\<lambda>i. skills a ! i \<noteq> 0 \<or> skillsPercent a ! i \<noteq> 0) [0..<SKILL_LAST + 1] \<or>
                   list_ex (\<lambda>i. specialSkills a ! i \<noteq> 0) [0..<SPECIALSKILL_LAST + 1]"
  define cr3 where "cr3 = call_if need [SendSkills] cr2"
  define cr4 where "cr4 = bump_stats (\<lambda>i. stats a ! i \<noteq> 0) (\<lambda>i. - (stats a ! i)) cr3"
  have m1: "moved (\<lambda>x. case x of SlotSkill j \<Rightarrow> if j \<le> SKILL_LAST then - (skills a ! j) else 0 | _ \<Rightarrow> 0) cr cr1"
    unfolding cr1_def by (rule bump_skills_moved[OF assms(1)]) auto
  have m2: "moved (\<lambda>x. case x of SlotSpecial j \<Rightarrow> if j \<le> SPECIALSKILL_LAST then - (specialSkills a ! j) else 0 | _ \<Rightarrow> 0) cr1 cr3"
    by (rule moved_core_right[of _ _ cr2])
      (auto simp: cr2_def cr3_def core_simps simp del: SPECIALSKILL_LAST_def intro: bump_special_moved[OF moved_arrays[OF m1]])
  have m3: "moved (\<lambda>x. case x of SlotStat j \<Rightarrow> if j \<le> STAT_LAST then - (stats a ! j) else 0 | _ \<Rightarrow> 0) cr3 cr4"
    unfolding cr4_def by (rule bump_stats_moved[OF moved_arrays[OF m2]]) auto
  have "core (ConditionAttributes_endCondition a cr) = core cr4"
    using assms(2)
    by (simp add: ConditionAttributes_endCondition_def Let_def core_simps core_fold cr4_def cr3_def cr2_def cr1_def need_def
        bump_skills_def bump_special_def bump_stats_def del: upt_Suc)
  from moved_core_right[OF moved_trans[OF moved_trans[OF m1 m2] m3] this]
  have "moved (\<lambda>x. (case x of SlotSkill j \<Rightarrow> if j \<le> SKILL_LAST then - (skills a ! j) else 0 | _ \<Rightarrow> 0) +
      (case x of SlotSpecial j \<Rightarrow> if j \<le> SPECIALSKILL_LAST then - (specialSkills a ! j) else 0 | _ \<Rightarrow> 0) +
      (case x of SlotStat j \<Rightarrow> if j \<le> STAT_LAST then - (stats a ! j) else 0 | _ \<Rightarrow> 0)) cr (ConditionAttributes_endCondition a cr)" .
  moreover have "(\<lambda>x. - attr_contrib a x) = (\<lambda>x. (case x of SlotSkill j \<Rightarrow> if j \<le> SKILL_LAST then - (skills a ! j) else 0 | _ \<Rightarrow> 0) +
      (case x of SlotSpecial j \<Rightarrow> if j \<le> SPECIALSKILL_LAST then - (specialSkills a ! j) else 0 | _ \<Rightarrow> 0) +
      (case x of SlotStat j \<Rightarrow> if j \<le> STAT_LAST then - (stats a ! j) else 0 | _ \<Rightarrow> 0))"
    by (rule ext) (simp add: attr_contrib_def split: slot.split)
  ultimately show ?thesis by simp
qed

lemma attributes_end_nonplayer: "\<not> isPlayer cr \<Longrightarrow> core (ConditionAttributes_endCondition a cr) = core cr"
  by (simp add: ConditionAttributes_endCondition_def Let_def core_simps)

section \<open>Starting, running, renewing and ending\<close>

definition key :: "Condition \<Rightarrow> ConditionType_t \<times> ConditionId_t \<times> u32" where
  "key c = (conditionType c, condId c, subId c)"

definition is_damage :: "Condition \<Rightarrow> bool" where
  "is_damage c \<longleftrightarrow> class_index (part c) = 5"

lemma is_damage_iff: "is_damage c \<longleftrightarrow> (\<exists>d. part c = Damage d)"
  by (cases "part c") (simp_all add: is_damage_def)

lemma contrib_damage: "is_damage c \<Longrightarrow> contrib k c x = 0"
  by (auto simp: is_damage_iff contrib_def)

lemma contrib_player: "part c = Attributes a \<Longrightarrow> contrib KPlayer c = attr_contrib a"
  by (rule ext) (simp add: contrib_def)

lemma contrib_speed: "part c = Speed s \<Longrightarrow> contrib k c = (\<lambda>x. if x = SlotSpeed then speedDelta s else 0)"
  by (rule ext) (simp add: contrib_def)

text \<open>Same type, identity and flags; only the times differ.\<close>

lemma base_steps:
  "key (Condition_startCondition env c) = key c" "part (Condition_startCondition env c) = part c"
  "key (renew env add c) = key c" "part (renew env add c) = part c"
  "key (snd (Condition_executeCondition env ival c)) = key c" "part (snd (Condition_executeCondition env ival c)) = part c"
  "key (c\<lparr>part := p\<rparr>) = key c" "key (setTicks t n c) = key c"
  by (simp_all add: key_def Condition_startCondition_def renew_def setTicks_def setEndTime_def Condition_executeCondition_def)

text \<open>A condition stays well typed while its derived type and the lengths of its arrays stay.\<close>

lemma well_typed_step:
  assumes "well_typed c" and "key c' = key c" and "class_index (part c') = class_index (part c)"
    and "\<And>a'. part c' = Attributes a' \<Longrightarrow> attr_lengths a'"
  shows "well_typed c'"
  using assms by (auto simp: well_typed_def key_def attr_lengths_def split: ConditionPart.splits)

lemma well_typed_attr_lengths: "well_typed c \<Longrightarrow> part c = Attributes a \<Longrightarrow> attr_lengths a"
  by (simp add: well_typed_def attr_lengths_def)

lemma moved_zero: "arrays_ok cr \<Longrightarrow> core cr' = core cr \<Longrightarrow> (\<And>x. d x = 0) \<Longrightarrow> moved d cr cr'"
  using moved_core[of cr' cr] by (simp add: moved_def)

lemma changeSpeed_moved:
  "arrays_ok cr \<Longrightarrow> moved (\<lambda>x. if x = SlotSpeed then d else 0) cr (changeSpeed d cr)"
  by (auto simp: moved_def changeSpeed_def call_def arrays_ok_def) (case_tac x; simp)

lemma endCondition_moved:
  assumes "arrays_ok cr"
  shows "moved (\<lambda>x. - contrib (kind cr) c x) cr (endCondition env c cr)"
proof (cases "part c")
  case (Attributes a)
  then show ?thesis
    using attributes_end_moved[OF assms, of a] moved_zero[OF assms attributes_end_nonplayer[of cr a]]
    by (cases "isPlayer cr") (simp_all add: endCondition_def contrib_def isPlayer_def)
next
  case (Speed s)
  then show ?thesis
    using changeSpeed_moved[OF assms, of "- speedDelta s"]
    by (simp add: endCondition_def contrib_def ConditionSpeed_endCondition_def if_distrib cong: if_cong)
qed (auto intro!: moved_zero[OF assms] simp: endCondition_def contrib_def core_simps Let_def
      ConditionRooted_endCondition_def ConditionFeared_endCondition_def ConditionLight_endCondition_def)

lemma startCondition_moved:
  assumes "arrays_ok cr" and "\<not> is_damage c" and "startCondition env c cr = Some (ok, c1, cr1)"
  shows "ok \<and> moved (contrib (kind cr) c1) cr cr1 \<and> key c1 = key c \<and> (well_typed c \<longrightarrow> well_typed c1)"
proof (cases "part c")
  case (Attributes a)
  let ?cr = "cr\<lparr>canUseDefense := \<not> disableDefense a\<rparr>"
  have c0: "core ?cr = core cr" by (simp add: core_simps)
  have ok0: "arrays_ok ?cr" using assms(1) core_arrays_ok[OF c0] by simp
  obtain a1 cr2 where ap: "apply_attributes env a ?cr = (a1, cr2)" by fastforce
  have wt: "well_typed c1" if "well_typed c"
  proof (rule well_typed_step[OF that])
    show "key c1 = key c" "class_index (part c1) = class_index (part c)"
      using assms(3) Attributes ap by (auto simp: startCondition_def ConditionAttributes_startCondition_def base_steps Let_def split: if_splits)
    show "attr_lengths a'" if "part c1 = Attributes a'" for a'
      using assms(3) Attributes ap that well_typed_attr_lengths[OF \<open>well_typed c\<close> Attributes] apply_attributes_keeps(1)[OF ap]
      by (auto simp: startCondition_def ConditionAttributes_startCondition_def base_steps Let_def split: if_splits)
  qed
  show ?thesis
  proof (cases "isPlayer cr")
    case True
    have "moved (attr_contrib a1) ?cr (updateExperienceRate a1 cr2)"
      by (rule moved_core_right[OF apply_attributes_moved[OF ok0 ap]]) (simp add: core_simps)
    with moved_trans[OF moved_core[OF c0 assms(1)] this] assms(3) Attributes ap True wt show ?thesis
      by (auto simp: startCondition_def ConditionAttributes_startCondition_def contrib_player base_steps isPlayer_def Let_def)
  next
    case False
    with moved_zero[OF assms(1) c0] assms(3) Attributes wt show ?thesis
      by (auto simp: startCondition_def ConditionAttributes_startCondition_def contrib_def base_steps isPlayer_def Let_def)
  qed
next
  case (Speed s)
  with assms changeSpeed_moved[OF assms(1), of "speed_delta env s cr"] show ?thesis
    by (auto simp: startCondition_def ConditionSpeed_startCondition_def contrib_speed base_steps Let_def
        elim: well_typed_step cong: if_cong)
next
  case (Light l)
  with assms(3) show ?thesis
    by (auto simp: startCondition_def ConditionLight_startCondition_def contrib_def base_steps Let_def core_simps
        intro!: moved_zero[OF assms(1)] elim!: well_typed_step)
qed (use assms in \<open>auto intro!: moved_zero simp: startCondition_def contrib_def core_simps Let_def
      base_steps is_damage_iff elim!: well_typed_step\<close>)

lemma executeCondition_core:
  assumes "\<not> is_damage c" and "executeCondition env ival pid c cr = (alive, c1, cr1)"
  shows "core cr1 = core cr \<and> key c1 = key c \<and> contrib (kind cr) c1 = contrib (kind cr) c \<and> (well_typed c \<longrightarrow> well_typed c1)"
proof -
  have "core cr1 = core cr \<and> key c1 = key c \<and> class_index (part c1) = class_index (part c) \<and>
      (\<forall>a. part c1 = Attributes a \<longrightarrow> part c = Attributes a) \<and> (\<forall>s. part c1 = Speed s \<longrightarrow> part c = Speed s)"
    using assms base_steps(5,6)[of env ival]
    by (cases "part c")
      (auto simp: executeCondition_def is_damage_iff ConditionRegeneration_executeCondition_def ConditionSoul_executeCondition_def
        ConditionLight_executeCondition_def core_simps Let_def prod_eq_iff base_steps split: prod.splits if_splits)
  moreover from this have "contrib (kind cr) c1 = contrib (kind cr) c"
    by (intro ext) (cases "part c1"; cases "part c"; simp add: contrib_def)
  moreover from calculation(1) have "well_typed c \<longrightarrow> well_typed c1"
    by (metis well_typed_attr_lengths well_typed_step)
  ultimately show ?thesis by blast
qed


lemma attributes_add:
  assumes "arrays_ok cr" and "part c = Attributes a" and "well_typed c" and "well_typed add"
    and "ConditionAttributes_addCondition env add a c cr = (c1, cr1)"
  shows "moved (\<lambda>x. contrib (kind cr) c1 x - contrib (kind cr) c x) cr cr1 \<and> key c1 = key c \<and> well_typed c1"
proof (cases "\<exists>b. part add = Attributes b \<and> Condition_updateCondition env add c")
  case False
  with assms(5) have "c1 = c" "cr1 = cr"
    by (auto simp: ConditionAttributes_addCondition_def split: ConditionPart.splits if_splits)
  then show ?thesis using moved_zero[OF assms(1), of cr] assms(3) by simp
next
  case True
  then obtain b where b: "part add = Attributes b" and up: "Condition_updateCondition env add c" by blast
  let ?cr = "ConditionAttributes_endCondition a cr"
  let ?a = "a\<lparr>skills := skills b, specialSkills := specialSkills b, skillsPercent := skillsPercent b,
      stats := stats b, statsPercent := statsPercent b, experienceRate := experienceRate b, disableDefense := disableDefense b\<rparr>"
  have m1: "moved (\<lambda>x. - contrib (kind cr) c x) cr ?cr"
    using endCondition_moved[OF assms(1), of c] assms(2) by (simp add: endCondition_def)
  then have k: "kind ?cr = kind cr" by (simp add: moved_def)
  obtain a2 cr2 where ap: "apply_attributes env ?a ?cr = (a2, cr2)" by fastforce
  have len: "attr_lengths ?a" using well_typed_attr_lengths[OF assms(4) b] by (simp add: attr_lengths_def)
  show ?thesis
  proof (cases "isPlayer cr")
    case True
    then have p: "isPlayer ?cr" "kind cr = KPlayer" using k by (simp_all add: isPlayer_def)
    with assms(5) b up ap have c1: "c1 = (renew env add c)\<lparr>part := Attributes a2\<rparr>" and cr1: "cr1 = cr2"
      by (auto simp: ConditionAttributes_addCondition_def Let_def)
    have "moved (\<lambda>x. - contrib (kind cr) c x + attr_contrib a2 x) cr cr1"
      using moved_trans[OF m1 apply_attributes_moved[OF moved_arrays[OF m1] ap]] cr1 by simp
    moreover have "contrib (kind cr) c1 = attr_contrib a2" using p c1 by (simp add: contrib_player)
    moreover have "well_typed c1"
      by (rule well_typed_step[OF assms(3)])
        (use c1 assms(2) len apply_attributes_keeps(1)[OF ap] in \<open>auto simp: base_steps\<close>)
    ultimately show ?thesis by (simp add: c1 base_steps moved_def algebra_simps)
  next
    case False
    then have p: "\<not> isPlayer ?cr" "kind cr \<noteq> KPlayer" using k by (simp_all add: isPlayer_def)
    with assms(5) b up have c1: "c1 = (renew env add c)\<lparr>part := Attributes ?a\<rparr>" and cr1: "cr1 = ?cr"
      by (auto simp: ConditionAttributes_addCondition_def Let_def)
    have "well_typed c1"
      by (rule well_typed_step[OF assms(3)]) (use c1 assms(2) len in \<open>auto simp: base_steps\<close>)
    with m1 show ?thesis using p(2) assms(2) by (simp add: c1 cr1 base_steps contrib_def moved_def)
  qed
qed

lemma Condition_addCondition_moved:
  assumes "arrays_ok cr" and "\<not> is_damage c" and "well_typed c" and "well_typed add"
    and "Condition_addCondition env add pid c cr = Some (c1, cr1)"
  shows "moved (\<lambda>x. contrib (kind cr) c1 x - contrib (kind cr) c x) cr cr1 \<and> key c1 = key c \<and> well_typed c1"
proof (cases "part c")
  case (Attributes a)
  with attributes_add[OF assms(1) Attributes assms(3,4)] assms(5) show ?thesis
    by (simp add: Condition_addCondition_def Let_def)
next
  case (Speed s)
  show ?thesis
  proof (cases "\<exists>b. part add = Speed b \<and> conditionType c = conditionType add \<and> \<not> (ticks c = - 1 \<and> sint (ticks add) > 0)")
    case False
    with assms(5) Speed have "c1 = c" "cr1 = cr"
      by (auto simp: Condition_addCondition_def ConditionSpeed_addCondition_def Let_def split: ConditionPart.splits if_splits)
    then show ?thesis using moved_zero[OF assms(1), of cr] assms(3) by simp
  next
    case True
    with assms(5) Speed obtain s2 where c1: "c1 = (renew env add c)\<lparr>part := Speed s2\<rparr>"
        and cr1: "cr1 = (if speedDelta s2 - speedDelta s \<noteq> 0 then changeSpeed (speedDelta s2 - speedDelta s) cr else cr)"
      by (auto simp: Condition_addCondition_def ConditionSpeed_addCondition_def Let_def)
    have "moved (\<lambda>x. if x = SlotSpeed then speedDelta s2 - speedDelta s else 0) cr cr1"
      using changeSpeed_moved[OF assms(1), of "speedDelta s2 - speedDelta s"] moved_zero[OF assms(1), of cr] by (simp add: cr1)
    moreover have "well_typed c1"
      by (rule well_typed_step[OF assms(3)]) (use c1 Speed in \<open>auto simp: base_steps\<close>)
    ultimately show ?thesis
      using Speed by (simp add: c1 base_steps contrib_speed moved_def)
  qed
qed (use assms(1-3,5) in \<open>auto simp: Condition_addCondition_def contrib_def is_damage_iff base_steps core_simps Let_def
      ConditionRegeneration_addCondition_def ConditionSoul_addCondition_def ConditionOutfit_addCondition_def
      ConditionLight_addCondition_def ConditionDrunk_addCondition_def
      intro!: moved_zero elim!: well_typed_step split: ConditionPart.splits if_splits\<close>)

section \<open>Steps that add no condition\<close>

definition tag :: "nat \<times> Condition \<Rightarrow> nat \<times> ConditionType_t \<times> ConditionId_t \<times> u32" where
  "tag ic = (fst ic, key (snd ic))"

definition sound :: "Creature \<Rightarrow> bool" where
  "sound cr \<longleftrightarrow> arrays_ok cr \<and> distinct (map fst (conditions cr)) \<and> (\<forall>(_, c) \<in> set (conditions cr). well_typed c)"

text \<open>
  \<open>settled cr cr'\<close>: the conditions of \<open>cr'\<close> are among those of \<open>cr\<close>, in the same order, and without conditions the
  two creatures would have the same modifiers.
\<close>

definition settled :: "Creature \<Rightarrow> Creature \<Rightarrow> bool" where
  "settled cr cr' \<longleftrightarrow> sound cr' \<and> subseq (map tag (conditions cr')) (map tag (conditions cr)) \<and>
     natural cr' = natural cr \<and> kind cr' = kind cr"

text \<open>What the model asks of combat: it adds no condition to the creature it hits, and leaves the balance.\<close>

definition combat_fair :: "Env \<Rightarrow> bool" where
  "combat_fair env \<longleftrightarrow> (\<forall>c amount cr. sound cr \<longrightarrow> settled cr (snd (combat env c amount cr)))"

lemma subseq_mem: "subseq xs ys \<Longrightarrow> x \<in> set xs \<Longrightarrow> x \<in> set ys"
  by (induction rule: list_emb.induct) auto

lemma subseq_keeps_distinct: "subseq xs ys \<Longrightarrow> distinct ys \<Longrightarrow> distinct xs"
  by (induction rule: list_emb.induct) (auto dest: subseq_mem)

lemma settled_refl: "sound cr \<Longrightarrow> settled cr cr"
  by (simp add: settled_def)

lemma settled_trans: "settled cr cr1 \<Longrightarrow> settled cr1 cr2 \<Longrightarrow> settled cr cr2"
  by (auto simp: settled_def intro: subseq_order.order_trans)

lemma settled_sound: "settled cr cr' \<Longrightarrow> sound cr'"
  by (simp add: settled_def)

lemma core_sound: "core cr = core cr' \<Longrightarrow> sound cr = sound cr'"
  using core_arrays_ok[of cr cr'] core_proj(1)[of cr cr'] by (simp add: sound_def)

lemma settled_core: "settled cr cr1 \<Longrightarrow> core cr2 = core cr1 \<Longrightarrow> settled cr cr2"
  using core_sound[of cr2 cr1] core_natural[of cr2 cr1] core_proj[of cr2 cr1] by (simp add: settled_def)

lemma sound_at: "sound cr \<Longrightarrow> map_of (conditions cr) pid = Some c \<Longrightarrow> well_typed c"
  by (auto simp: sound_def dest!: map_of_SomeD)

lemma key_class: "well_typed c \<Longrightarrow> well_typed d \<Longrightarrow> key c = key d \<Longrightarrow> class_index (part c) = class_index (part d)"
  by (auto simp: well_typed_def key_def)

lemma sum_update:
  assumes "distinct (map fst xs)" and "map_of xs pid = Some d"
  shows "(\<Sum>(_, c) \<leftarrow> map (\<lambda>(i, e). (i, if i = pid then c' else e)) xs. f c) = (\<Sum>(_, c) \<leftarrow> xs. f c) + f c' - (f d :: 'b::ab_group_add)"
  using assms
proof (induction xs)
  case (Cons x xs)
  obtain i e where x: "x = (i, e)" by fastforce
  show ?case
  proof (cases "i = pid")
    case True
    with Cons.prems x have "map (\<lambda>(i, e). (i, if i = pid then c' else e)) xs = xs"
      by (intro map_idI) (auto simp: image_iff)
    with True Cons.prems x show ?thesis by (simp add: algebra_simps)
  qed (use Cons x in \<open>simp add: algebra_simps\<close>)
qed simp

lemma sum_erase:
  assumes "distinct (map fst xs)" and "map_of xs pid = Some d"
  shows "(\<Sum>(_, c) \<leftarrow> filter (\<lambda>(i, _). i \<noteq> pid) xs. f c) = (\<Sum>(_, c) \<leftarrow> xs. f c) - (f d :: 'b::ab_group_add)"
  using assms
proof (induction xs)
  case (Cons x xs)
  obtain i e where x: "x = (i, e)" by fastforce
  show ?case
  proof (cases "i = pid")
    case True
    with Cons.prems x have "filter (\<lambda>(i, _). i \<noteq> pid) xs = xs"
      by (intro filter_True) (auto simp: image_iff)
    with True Cons.prems x show ?thesis by (simp add: algebra_simps)
  qed (use Cons x in \<open>simp add: algebra_simps\<close>)
qed simp

lemma current_conditions [simp]: "current (cr\<lparr>conditions := xs\<rparr>) x = current cr x"
  by (cases x) simp_all

lemma arrays_conditions [simp]: "arrays_ok (cr\<lparr>conditions := xs\<rparr>) = arrays_ok cr"
  by (simp add: arrays_ok_def)

lemma put_condition_absent: "map_of (conditions cr) pid = None \<Longrightarrow> put_condition pid c cr = cr"
proof -
  assume "map_of (conditions cr) pid = None"
  then have "map (\<lambda>(i, d). (i, if i = pid then c else d)) (conditions cr) = conditions cr"
    by (auto intro!: map_idI simp: map_of_eq_None_iff image_iff)
  then show ?thesis by (simp add: put_condition_def)
qed

lemma put_settled:
  assumes "sound cr" and "well_typed c"
    and "\<And>d. map_of (conditions cr) pid = Some d \<Longrightarrow> key c = key d \<and> contrib (kind cr) c = contrib (kind cr) d"
  shows "settled cr (put_condition pid c cr)"
proof (cases "map_of (conditions cr) pid")
  case None
  then show ?thesis using assms(1) by (simp add: put_condition_absent settled_refl)
next
  case (Some d)
  let ?up = "map (\<lambda>(i, e). (i, if i = pid then c else e)) (conditions cr)"
  have fst: "map fst ?up = map fst (conditions cr)" by (simp add: case_prod_beta comp_def)
  have same: "e = d" if "(pid, e) \<in> set (conditions cr)" for e
    using map_of_is_SomeI[OF _ that] assms(1) Some by (simp add: sound_def)
  have tag: "map tag ?up = map tag (conditions cr)"
    using assms(3)[OF Some] by (auto simp: tag_def dest: same)
  have "natural (put_condition pid c cr) = natural cr"
  proof (rule ext)
    fix x
    have "(\<Sum>(_, e) \<leftarrow> ?up. contrib (kind cr) e x) =
        (\<Sum>(_, e) \<leftarrow> conditions cr. contrib (kind cr) e x) + contrib (kind cr) c x - contrib (kind cr) d x"
      using assms(1) Some by (intro sum_update) (simp_all add: sound_def)
    with assms(3)[OF Some] show "natural (put_condition pid c cr) x = natural cr x"
      by (simp add: natural_def put_condition_def)
  qed
  moreover have "sound (put_condition pid c cr)"
  proof -
    have "distinct (map fst ?up)" unfolding fst using assms(1) by (simp add: sound_def)
    moreover have "\<forall>(_, e) \<in> set ?up. well_typed e" using assms(1,2) by (auto simp: sound_def)
    ultimately show ?thesis using assms(1) by (simp add: sound_def put_condition_def del: map_map)
  qed
  ultimately show ?thesis by (simp add: settled_def tag put_condition_def del: map_map)
qed

lemma tags_at:
  assumes "sound cr" and "subseq (map tag (conditions cr')) (map tag (conditions cr))" and "sound cr'"
    and "map_of (conditions cr') pid = Some d'" and "map_of (conditions cr) pid = Some d"
  shows "key d' = key d"
proof -
  have "(pid, key d') \<in> set (map tag (conditions cr'))" using map_of_SomeD[OF assms(4)] by (force simp: tag_def)
  with assms(2) have "(pid, key d') \<in> set (map tag (conditions cr))" by (rule subseq_mem)
  then obtain e where "(pid, e) \<in> set (conditions cr)" "key e = key d'" by (auto simp: tag_def)
  moreover from this assms(1,5) have "e = d" by (simp add: sound_def)
  ultimately show ?thesis by simp
qed

lemma erase_end_settled:
  assumes "sound cr" and "map_of (conditions cr) pid = Some c"
  shows "settled cr (onEndCondition type (endCondition env c (erase pid cr)))"
proof -
  let ?e = "erase pid cr"
  have sub: "subseq (map tag (conditions ?e)) (map tag (conditions cr))"
    by (simp add: erase_def subseq_map)
  have snd: "sound ?e" using assms(1) by (auto simp: sound_def erase_def distinct_map_filter)
  have k: "kind ?e = kind cr" by (simp add: erase_def)
  have nat: "natural ?e x = natural cr x + contrib (kind cr) c x" for x
    using assms sum_erase[of "conditions cr" pid c "\<lambda>c. contrib (kind cr) c x"]
    by (simp add: natural_def erase_def sound_def)
  have m: "moved (\<lambda>x. - contrib (kind cr) c x) ?e (endCondition env c ?e)"
    using endCondition_moved[of ?e c env] snd k by (simp add: sound_def)
  have natural_end: "natural (endCondition env c ?e) = natural cr"
  proof (rule ext)
    fix x
    have "natural (endCondition env c ?e) x = natural ?e x - contrib (kind cr) c x"
      using m by (simp add: natural_def moved_def)
    then show "natural (endCondition env c ?e) x = natural cr x" by (simp add: nat)
  qed
  have "settled cr (endCondition env c ?e)"
    using m sub snd k by (auto simp: settled_def moved_def sound_def natural_end)
  then show ?thesis by (rule settled_core) (simp add: core_simps)
qed

section \<open>Damage\<close>

lemma doDamage_settled: "combat_fair env \<Longrightarrow> sound cr \<Longrightarrow> settled cr (snd (doDamage env c amount cr))"
  by (simp add: doDamage_def settled_refl combat_fair_def)

lemma damage_class: "well_typed c \<Longrightarrow> well_typed d \<Longrightarrow> key c = key d \<Longrightarrow> is_damage c \<Longrightarrow> is_damage d"
  using key_class[of c d] by (simp add: is_damage_def)

lemma put_damage_settled:
  assumes "sound cr" and "well_typed c" and "is_damage c"
    and "\<And>d. map_of (conditions cr) pid = Some d \<Longrightarrow> key d = key c"
  shows "settled cr (put_condition pid c cr)"
proof (rule put_settled[OF assms(1,2)])
  fix d
  assume d: "map_of (conditions cr) pid = Some d"
  from damage_class[OF assms(2) sound_at[OF assms(1) d]] assms(3,4) d have "is_damage d" by simp
  with assms(3,4) d show "key c = key d \<and> contrib (kind cr) c = contrib (kind cr) d"
    by (auto simp: contrib_damage)
qed

lemma map_of_put: "map_of (conditions (put_condition pid c cr)) pid = map_option (\<lambda>_. c) (map_of (conditions cr) pid)"
proof -
  have "map_of (map (\<lambda>(i, d). (i, if i = pid then c else d)) xs) pid = map_option (\<lambda>_. c) (map_of xs pid)" for xs
    by (induction xs) auto
  then show ?thesis by (simp add: put_condition_def)
qed

lemma damage_now_settled:
  assumes "combat_fair env" and "sound cr" and "well_typed c" and "is_damage c"
    and "map_of (conditions cr) pid = Some d" and "key d = key c"
    and "damage_now env pid c amount cr = (c1, cr1)"
  shows "settled cr cr1 \<and> key c1 = key c \<and> well_typed c1 \<and> is_damage c1"
proof -
  let ?p = "put_condition pid c cr"
  have p: "settled cr ?p" using assms by (intro put_damage_settled) auto
  have cr1: "cr1 = snd (doDamage env c amount ?p)" and c1: "c1 = condition_at pid c cr1"
    using assms(7) by (auto simp: damage_now_def Let_def)
  have s: "settled ?p cr1" unfolding cr1 by (rule doDamage_settled[OF assms(1) settled_sound[OF p]])
  have "key c1 = key c \<and> well_typed c1"
  proof (cases "map_of (conditions cr1) pid")
    case None
    then show ?thesis using assms(3) by (simp add: c1 condition_at_def)
  next
    case (Some e)
    have "key e = key c"
      using tags_at[OF settled_sound[OF p] _ settled_sound[OF s] Some, of c] s assms(5) by (simp add: settled_def map_of_put)
    with Some sound_at[OF settled_sound[OF s] Some] show ?thesis by (simp add: c1 condition_at_def)
  qed
  with settled_trans[OF p s] damage_class[OF assms(3), of c1] assms(4) show ?thesis by simp
qed

lemma damage_step:
  "well_typed c \<Longrightarrow> part c = Damage d \<Longrightarrow> well_typed (c\<lparr>part := Damage d'\<rparr>) \<and> is_damage (c\<lparr>part := Damage d'\<rparr>)"
  by (auto simp: is_damage_iff base_steps elim!: well_typed_step)

text \<open>\<open>kept_damage cr c (c1, cr1)\<close>: what every step of a condition that does damage keeps.\<close>

definition kept_damage :: "Creature \<Rightarrow> Condition \<Rightarrow> Condition \<Rightarrow> Creature \<Rightarrow> bool" where
  "kept_damage cr c c1 cr1 \<longleftrightarrow> settled cr cr1 \<and> key c1 = key c \<and> well_typed c1 \<and> is_damage c1"

lemma kept_damage_later:
  assumes "kept_damage cr c c1 cr1" and "key c2 = key c1" and "part c2 = part c1"
  shows "kept_damage cr c c2 cr1"
proof -
  have "well_typed c2"
    by (rule well_typed_step[of c1]) (use assms in \<open>auto simp: kept_damage_def dest: well_typed_attr_lengths\<close>)
  with assms show ?thesis by (auto simp: kept_damage_def is_damage_def)
qed

lemma kept_damage_endTime: "kept_damage cr c c1 cr1 \<Longrightarrow> kept_damage cr c (c1\<lparr>endTime := t\<rparr>) cr1"
  by (rule kept_damage_later) (simp_all add: key_def)

lemma damage_tick_kept:
  assumes "combat_fair env" and "sound cr" and "map_of (conditions cr) pid = Some c" and "part c = Damage d"
    and "damage_tick env ival pid d c cr = (c1, cr1, ival1)"
  shows "kept_damage cr c c1 cr1"
proof -
  have wt: "well_typed c" by (rule sound_at[OF assms(2,3)])
  have now: "kept_damage cr c c' cr'" if "damage_now env pid (c\<lparr>part := Damage d'\<rparr>) amount cr = (c', cr')" for d' amount c' cr'
    using damage_now_settled[OF assms(1,2) _ _ assms(3) _ that] damage_step[OF wt assms(4)] by (simp add: base_steps kept_damage_def)
  have idle: "kept_damage cr c (c\<lparr>part := Damage d'\<rparr>) cr" for d'
    using damage_step[OF wt assms(4)] settled_refl[OF assms(2)] by (simp add: kept_damage_def base_steps)
  have same: "kept_damage cr c c cr"
    using wt assms(4) settled_refl[OF assms(2)] by (auto simp: kept_damage_def is_damage_iff)
  show ?thesis
    using assms(5) same idle unfolding damage_tick_def Let_def
    by (auto dest!: now intro!: kept_damage_endTime split: if_splits list.splits prod.splits)
qed

lemma execute_damage_kept:
  assumes "combat_fair env" and "sound cr" and "map_of (conditions cr) pid = Some c" and "part c = Damage d"
    and "ConditionDamage_executeCondition env ival pid d c cr = (alive, c1, cr1)"
  shows "kept_damage cr c c1 cr1"
proof -
  obtain c2 cr2 ival2 where t: "damage_tick env ival pid d c cr = (c2, cr2, ival2)" by (metis prod_cases3)
  with assms(5) have c1: "c1 = snd (Condition_executeCondition env ival2 c2)" and cr1: "cr1 = cr2"
    by (auto simp: ConditionDamage_executeCondition_def split: prod.splits)
  show ?thesis
    unfolding c1 cr1 by (rule kept_damage_later[OF damage_tick_kept[OF assms(1-4) t]]) (simp_all add: base_steps)
qed

lemma addDamage_loop_key: "addDamage_loop env n info d c = (d1, c1) \<Longrightarrow> key c1 = key c"
  by (induction env n info d c rule: addDamage_loop.induct) (auto simp: base_steps split: if_splits)

lemma addDamage_key: "addDamage env rounds time value d c = (ok, d1, c1) \<Longrightarrow> key c1 = key c"
  by (auto simp: addDamage_def Let_def key_def[of "c\<lparr>ticks := _\<rparr>"] key_def[of c] dest!: addDamage_loop_key split: if_splits prod.splits)
    (simp_all add: key_def)

lemma damage_init_key: "damage_init env d c = (ok, d1, c1) \<Longrightarrow> key c1 = key c"
proof -
  have fold: "key (snd (fold (\<lambda>value (d, c). snd (addDamage env 1 (tickInterval d) (- value) d c)) vs (d, c))) = key c" for vs d c
  proof (induction vs arbitrary: d c)
    case (Cons v vs)
    obtain ok d1 c1 where "addDamage env 1 (tickInterval d) (- v) d c = (ok, d1, c1)" by (metis prod_cases3)
    with Cons[of d1 c1] addDamage_key show ?case by fastforce
  qed simp
  have fold': "key c'' = key c'"
    if "fold (\<lambda>value (d, c). snd (addDamage env 1 (tickInterval d) (- value) d c)) vs (d', setTicks t n c') = (d'', c'')" for vs d' d'' c' c'' t n
    using fold[of vs d' "setTicks t n c'"] by (simp add: that base_steps)
  assume "damage_init env d c = (ok, d1, c1)"
  then show ?thesis
    by (auto simp: damage_init_def Let_def base_steps dest!: fold' split: if_splits prod.splits)
qed

lemma damage_variant:
  "well_typed c \<Longrightarrow> is_damage c \<Longrightarrow> key e = key c \<Longrightarrow>
   well_typed (e\<lparr>part := Damage d\<rparr>) \<and> is_damage (e\<lparr>part := Damage d\<rparr>) \<and> key (e\<lparr>part := Damage d\<rparr>) = key c"
  by (auto simp: is_damage_iff base_steps elim!: well_typed_step)

lemma add_damage_kept:
  assumes "combat_fair env" and "sound cr" and "map_of (conditions cr) pid = Some c" and "part c = Damage d"
    and "ConditionDamage_addCondition env add pid d c cr = (c1, cr1)"
  shows "kept_damage cr c c1 cr1"
proof -
  have wt: "well_typed c" "is_damage c" using sound_at[OF assms(2,3)] assms(4) by (auto simp: is_damage_iff)
  have now: "kept_damage cr c c' cr'"
    if "damage_now env pid (e\<lparr>part := Damage d'\<rparr>) amount cr = (c', cr')" "key e = key c" for e d' amount c' cr'
    using damage_now_settled[OF assms(1,2) _ _ assms(3) _ that(1)] damage_variant[OF wt that(2)] by (simp add: kept_damage_def)
  have idle: "kept_damage cr c (e\<lparr>part := Damage d'\<rparr>) cr" if "key e = key c" for e d'
    using damage_variant[OF wt that] settled_refl[OF assms(2)] by (simp add: kept_damage_def)
  have same: "kept_damage cr c c cr" using wt settled_refl[OF assms(2)] by (simp add: kept_damage_def)
  show ?thesis
  proof (cases "\<exists>b. part add = Damage b \<and> \<not> (conditionType add \<noteq> conditionType c \<or> \<not> ConditionDamage_updateCondition b add d c)")
    case False
    with assms(5) have "c1 = c" "cr1 = cr"
      by (auto simp: ConditionDamage_addCondition_def split: ConditionPart.splits if_splits)
    then show ?thesis using same by simp
  next
    case True
    then obtain b where b: "part add = Damage b" "\<not> (conditionType add \<noteq> conditionType c \<or> \<not> ConditionDamage_updateCondition b add d c)" by blast
    define d1 where "d1 = d\<lparr>maxDamage := maxDamage b, minDamage := minDamage b, startDamage := startDamage b,
        periodDamage := periodDamage b, tickInterval := tickInterval b, damageOwner := damageOwner b, damageList := damageList b\<rparr>"
    obtain ok d2 c2 where i: "damage_init env d1 (renew env add c) = (ok, d2, c2)" by (metis prod_cases3)
    from damage_init_key[OF i] have k: "key c2 = key c" by (simp add: base_steps)
    from assms(5) b i k idle[OF k] show ?thesis
      unfolding ConditionDamage_addCondition_def Let_def d1_def[symmetric]
      by (auto simp: d1_def[symmetric] dest: now split: if_splits option.splits prod.splits list.splits)
  qed
qed

section \<open>Running and removing\<close>

lemma executed_settled:
  assumes "combat_fair env" and "sound cr" and "map_of (conditions cr) pid = Some c"
    and e: "executeCondition env ival pid c cr = (alive, c1, cr1)"
  shows "settled cr (put_condition pid c1 cr1)"
proof (cases "is_damage c")
  case True
  then obtain d where d: "part c = Damage d" by (auto simp: is_damage_iff)
  with e have k: "kept_damage cr c c1 cr1"
    using execute_damage_kept[OF assms(1-3) d] by (simp add: executeCondition_def)
  then have s: "settled cr cr1" by (simp add: kept_damage_def)
  have "settled cr1 (put_condition pid c1 cr1)"
  proof (rule put_damage_settled[OF settled_sound[OF s]])
    show "well_typed c1" "is_damage c1" using k by (simp_all add: kept_damage_def)
    show "key e = key c1" if "map_of (conditions cr1) pid = Some e" for e
      using tags_at[OF assms(2) _ settled_sound[OF s] that assms(3)] s k by (simp add: settled_def kept_damage_def)
  qed
  with s show ?thesis by (rule settled_trans)
next
  case False
  note x = executeCondition_core[OF False e]
  have s: "settled cr cr1" using settled_core[OF settled_refl[OF assms(2)]] x by simp
  have "settled cr1 (put_condition pid c1 cr1)"
    using x core_proj[of cr1 cr] assms(3) sound_at[OF assms(2,3)] settled_sound[OF s] by (intro put_settled) auto
  with s show ?thesis by (rule settled_trans)
qed

lemma execute_one_settled:
  assumes "combat_fair env" and "sound cr" and "map_of (conditions cr) pid = Some c"
  shows "settled cr (execute_one env ival pid c cr)"
proof -
  obtain alive c1 cr1 where e: "executeCondition env ival pid c cr = (alive, c1, cr1)" by (metis prod_cases3)
  let ?p = "put_condition pid c1 cr1"
  note p = executed_settled[OF assms e]
  show ?thesis
  proof (cases "alive \<or> map_of (conditions ?p) pid = None")
    case True
    with p e show ?thesis by (auto simp: execute_one_def Let_def)
  next
    case False
    then obtain d where d: "map_of (conditions ?p) pid = Some d" by auto
    from settled_trans[OF p erase_end_settled[OF settled_sound[OF p] d]] False d e show ?thesis
      by (simp add: execute_one_def Let_def)
  qed
qed

lemma execute_loop_settled:
  "combat_fair env \<Longrightarrow> sound cr \<Longrightarrow> settled cr (execute_loop env ival pids cr)"
proof (induction pids arbitrary: cr)
  case (Cons pid pids)
  then show ?case
    by (auto simp: settled_refl split: option.split
        intro: settled_trans[OF execute_one_settled] settled_sound[OF execute_one_settled])
qed (simp add: settled_refl)

lemma executeConditions_settled: "combat_fair env \<Longrightarrow> sound cr \<Longrightarrow> settled cr (executeConditions env ival cr)"
  by (simp add: executeConditions_def execute_loop_settled)

lemma erase_middle:
  assumes "conditions cr = kept @ (pid, c) # rest" and "sound cr"
  shows "cr\<lparr>conditions := kept @ rest\<rparr> = erase pid cr" "map_of (conditions cr) pid = Some c"
proof -
  have "pid \<notin> fst ` set kept" "pid \<notin> fst ` set rest" using assms by (auto simp: sound_def)
  then have "filter (\<lambda>(i, _). i \<noteq> pid) kept = kept" "filter (\<lambda>(i, _). i \<noteq> pid) rest = rest"
    by (auto intro!: filter_True simp: image_iff)
  with assms(1) show "cr\<lparr>conditions := kept @ rest\<rparr> = erase pid cr" by (simp add: erase_def)
  show "map_of (conditions cr) pid = Some c"
    using assms by (intro map_of_is_SomeI) (auto simp: sound_def)
qed

lemma removeCondition_loop_settled:
  "sound cr \<Longrightarrow> conditions cr = kept @ rest \<Longrightarrow> settled cr (removeCondition_loop env force type P kept rest cr)"
proof (induction env force type P kept rest cr rule: removeCondition_loop.induct)
  case (2 env force type P kept pid c rest cr)
  let ?next = "onEndCondition type (endCondition env c (cr\<lparr>conditions := kept @ rest\<rparr>))"
  have s: "settled cr ?next"
    using erase_end_settled[OF 2(3) erase_middle(2)[OF 2(4,3)]] erase_middle(1)[OF 2(4,3)] by simp
  have "conditions (endCondition env c (cr\<lparr>conditions := kept @ rest\<rparr>)) = kept @ rest"
    using endCondition_moved[of "cr\<lparr>conditions := kept @ rest\<rparr>" c env] 2(3) by (simp add: moved_def sound_def)
  then have n: "conditions ?next = kept @ rest"
    using core_proj(1)[OF core_onEndCondition] by simp
  have c: "settled cr (call x cr)" for x
    by (rule settled_core[OF settled_refl[OF 2(3)]]) (simp add: core_simps)
  show ?case
    using 2 s c settled_trans[OF s 2(2)[OF _ _ settled_sound[OF s] n]] by (simp del: onEndCondition_def)
qed (simp add: settled_refl)

lemma remove_settled:
  assumes "sound cr"
  shows "settled cr (removeCondition env force type cr)" "settled cr (removeCondition2 env force type ident cr)"
  using assms by (simp_all add: removeCondition_def removeCondition2_def removeCondition_loop_settled)

lemma call_settled: "sound cr \<Longrightarrow> settled cr (call x cr)"
  by (rule settled_core[OF settled_refl]) (simp_all add: core_simps)

lemma removeCondition_at_settled: "sound cr \<Longrightarrow> settled cr (removeCondition_at env force pid cr)"
  by (auto simp: removeCondition_at_def settled_refl call_settled erase_end_settled split: option.split)

lemma onCombatRemoveCondition_settled:
  assumes "sound cr"
  shows "settled cr (onCombatRemoveCondition env pid cr)"
proof -
  have "settled cr (put_condition pid (setTicks t n c) cr)" if c: "map_of (conditions cr) pid = Some c" for t n c
  proof (rule put_settled[OF assms])
    show "well_typed (setTicks t n c)"
      by (rule well_typed_step[OF sound_at[OF assms c]])
        (auto simp: base_steps dest: well_typed_attr_lengths[OF sound_at[OF assms c]])
    show "key (setTicks t n c) = key d \<and> contrib (kind cr) (setTicks t n c) = contrib (kind cr) d"
      if "map_of (conditions cr) pid = Some d" for d
      using that c by (auto simp: base_steps contrib_def fun_eq_iff)
  qed
  then show ?thesis
    using assms
    by (auto simp: onCombatRemoveCondition_def settled_refl call_settled removeCondition_at_settled Let_def split: option.split)
qed

lemma removeCombatCondition_settled: "sound cr \<Longrightarrow> settled cr (removeCombatCondition env type cr)"
proof -
  have "settled cr (fold (onCombatRemoveCondition env) pids cr)" if "sound cr" for pids
    using that
  proof (induction pids arbitrary: cr)
    case (Cons pid pids)
    note s = onCombatRemoveCondition_settled[OF Cons.prems, of env pid]
    from settled_trans[OF s Cons.IH[OF settled_sound[OF s]]] show ?case by simp
  qed (simp add: settled_refl)
  then show "sound cr \<Longrightarrow> settled cr (removeCombatCondition env type cr)" by (simp add: removeCombatCondition_def)
qed

section \<open>Adding\<close>

definition single :: "Creature \<Rightarrow> bool" where
  "single cr \<longleftrightarrow> distinct (map (key \<circ> snd) (conditions cr))"

lemma tag_snd: "map (key \<circ> snd) xs = map snd (map tag xs)"
  by (simp add: tag_def comp_def)

lemma tags_single:
  "subseq (map tag xs) (map tag ys) \<Longrightarrow> distinct (map (key \<circ> snd) ys) \<Longrightarrow> distinct (map (key \<circ> snd) xs)"
  by (metis subseq_keeps_distinct subseq_map tag_snd)

lemma tags_pids: "subseq (map tag xs) (map tag ys) \<Longrightarrow> fst ` set xs \<subseteq> fst ` set ys"
proof
  fix p
  assume s: "subseq (map tag xs) (map tag ys)" and "p \<in> fst ` set xs"
  then obtain c where "(p, c) \<in> set xs" by auto
  then have "(p, key c) \<in> set (map tag xs)" by (force simp: tag_def)
  from subseq_mem[OF s this] show "p \<in> fst ` set ys" by (force simp: tag_def)
qed

lemma tags_keys: "subseq (map tag xs) (map tag ys) \<Longrightarrow> (key \<circ> snd) ` set xs \<subseteq> (key \<circ> snd) ` set ys"
proof
  fix k
  assume s: "subseq (map tag xs) (map tag ys)" and "k \<in> (key \<circ> snd) ` set xs"
  then obtain p c where "(p, c) \<in> set xs" and k: "k = key c" by auto
  then have "(p, key c) \<in> set (map tag xs)" by (force simp: tag_def)
  from subseq_mem[OF s this] k show "k \<in> (key \<circ> snd) ` set ys" by (force simp: tag_def)
qed

lemma settled_single: "settled cr cr' \<Longrightarrow> single cr \<Longrightarrow> single cr'"
  unfolding single_def settled_def using tags_single by blast

lemma settled_step:
  "settled cr cr' \<Longrightarrow> sound cr \<and> single cr \<and> natural cr = n \<Longrightarrow> sound cr' \<and> single cr' \<and> natural cr' = n"
  using settled_single[of cr cr'] by (simp add: settled_def)

lemma settled_pids: "settled cr cr' \<Longrightarrow> fst ` set (conditions cr') \<subseteq> fst ` set (conditions cr)"
  by (auto simp: settled_def dest: tags_pids)

text \<open>\<open>started cr c c1 cr1\<close>: \<open>c1\<close> is started on \<open>cr1\<close> but not yet among its conditions.\<close>

definition started :: "Creature \<Rightarrow> Condition \<Rightarrow> Condition \<Rightarrow> Creature \<Rightarrow> bool" where
  "started cr c c1 cr1 \<longleftrightarrow> sound cr1 \<and> subseq (map tag (conditions cr1)) (map tag (conditions cr)) \<and> kind cr1 = kind cr \<and>
     (\<forall>x. natural cr1 x = natural cr x + contrib (kind cr) c1 x) \<and> key c1 = key c \<and> well_typed c1"

lemma startCondition_started:
  assumes "combat_fair env" and "sound cr" and "well_typed c" and "startCondition env c cr = Some (ok, c1, cr1)"
  shows "if ok then started cr c c1 cr1 else settled cr cr1"
proof (cases "is_damage c")
  case True
  then obtain d where d: "part c = Damage d" by (auto simp: is_damage_iff)
  have base: "key (Condition_startCondition env c) = key c" by (simp add: base_steps)
  have "settled cr cr1" using assms d doDamage_settled[OF assms(1,2)] settled_refl[OF assms(2)]
    by (auto simp: startCondition_def ConditionDamage_startCondition_def Let_def split: if_splits prod.splits)
      (metis snd_conv)+
  moreover have "key c1 = key c \<and> well_typed c1 \<and> is_damage c1" if ok
    using assms(4) d that damage_variant[OF assms(3) True] base
    by (auto simp: startCondition_def ConditionDamage_startCondition_def Let_def dest!: damage_init_key split: if_splits prod.splits)
  ultimately show ?thesis
    by (auto simp: started_def settled_def contrib_damage)
next
  case False
  from startCondition_moved[OF _ False assms(4)] assms(2,3)
  have ok and m: "moved (contrib (kind cr) c1) cr cr1" and "key c1 = key c" "well_typed c1"
    by (auto simp: sound_def)
  moreover from m assms(2) have "sound cr1" "conditions cr1 = conditions cr" "kind cr1 = kind cr"
    "\<forall>x. natural cr1 x = natural cr x + contrib (kind cr) c1 x"
    by (auto simp: sound_def moved_def natural_def)
  ultimately show ?thesis by (simp add: started_def)
qed

lemma append_started:
  assumes "started cr c c1 cr1" and "single cr" and "pid \<notin> fst ` set (conditions cr)"
    and "key c \<notin> (key \<circ> snd) ` set (conditions cr)"
  shows "sound (cr1\<lparr>conditions := conditions cr1 @ [(pid, c1)]\<rparr>) \<and> single (cr1\<lparr>conditions := conditions cr1 @ [(pid, c1)]\<rparr>) \<and>
    natural (cr1\<lparr>conditions := conditions cr1 @ [(pid, c1)]\<rparr>) = natural cr \<and>
    fst ` set (conditions cr1 @ [(pid, c1)]) \<subseteq> insert pid (fst ` set (conditions cr))"
proof -
  have sub: "subseq (map tag (conditions cr1)) (map tag (conditions cr))" and k: "key c1 = key c"
    using assms(1) by (simp_all add: started_def)
  have pids: "fst ` set (conditions cr1) \<subseteq> fst ` set (conditions cr)"
    and keys: "(key \<circ> snd) ` set (conditions cr1) \<subseteq> (key \<circ> snd) ` set (conditions cr)"
    using tags_pids[OF sub] tags_keys[OF sub] by auto
  have "single cr1" using assms(2) tags_single[OF sub] by (simp add: single_def)
  moreover have "natural (cr1\<lparr>conditions := conditions cr1 @ [(pid, c1)]\<rparr>) x = natural cr x" for x
    using assms(1) by (simp add: natural_def started_def algebra_simps)
  ultimately show ?thesis
    using assms(1,3,4) pids keys k by (auto simp: single_def sound_def started_def)
qed

lemma find_pid:
  assumes "sound cr" and "getCondition3 type ident sub cr = Some (pid, c)"
  shows "map_of (conditions cr) pid = Some c \<and> key c = (type, ident, sub)"
proof -
  from assms(2) have "(pid, c) \<in> set (conditions cr) \<and> key c = (type, ident, sub)"
    by (auto simp: getCondition3_def find_Some_iff key_def) (metis nth_mem)
  with assms(1) show ?thesis by (auto simp: sound_def intro!: map_of_is_SomeI)
qed

lemma find_none:
  "getCondition3 type ident sub cr = None \<Longrightarrow> (type, ident, sub) \<notin> (key \<circ> snd) ` set (conditions cr)"
  by (fastforce simp: getCondition3_def find_None_iff key_def)

lemma onAddCondition_settled: "sound cr \<Longrightarrow> settled cr (onAddCondition env type cr)"
proof -
  assume s: "sound cr"
  have call: "settled cr (call x cr')" if "settled cr cr'" for x cr'
    by (rule settled_core[OF that]) (simp add: core_simps)
  show ?thesis
    unfolding onAddCondition_def Let_def
    by (cases "kind cr") (auto simp: s settled_refl remove_settled intro!: call)
qed

lemma renew_settled:
  assumes "combat_fair env" and "sound cr" and "well_typed add" and "map_of (conditions cr) pid = Some c"
    and "Condition_addCondition env add pid c cr = Some (c1, cr1)"
  shows "settled cr (put_condition pid c1 cr1)"
proof (cases "is_damage c")
  case True
  then obtain d where d: "part c = Damage d" by (auto simp: is_damage_iff)
  with assms(5) have k: "kept_damage cr c c1 cr1"
    using add_damage_kept[OF assms(1,2,4) d] by (simp add: Condition_addCondition_def Let_def)
  then have s: "settled cr cr1" by (simp add: kept_damage_def)
  have "settled cr1 (put_condition pid c1 cr1)"
  proof (rule put_damage_settled[OF settled_sound[OF s]])
    show "well_typed c1" "is_damage c1" using k by (simp_all add: kept_damage_def)
    show "key e = key c1" if "map_of (conditions cr1) pid = Some e" for e
      using tags_at[OF assms(2) _ settled_sound[OF s] that assms(4)] s k by (simp add: settled_def kept_damage_def)
  qed
  with s show ?thesis by (rule settled_trans)
next
  case False
  note wt = sound_at[OF assms(2,4)]
  from Condition_addCondition_moved[OF _ False wt assms(3,5)] assms(2)
  have m: "moved (\<lambda>x. contrib (kind cr) c1 x - contrib (kind cr) c x) cr cr1" and k: "key c1 = key c" and w: "well_typed c1"
    by (auto simp: sound_def)
  let ?p = "put_condition pid c1 cr1"
  have conds: "conditions cr1 = conditions cr" "kind cr1 = kind cr" "arrays_ok cr1" using m by (auto simp: moved_def)
  have same: "conditions ?p = conditions (put_condition pid c1 cr)" by (simp add: put_condition_def conds)
  have at: "d = c" if "(pid, d) \<in> set (conditions cr)" for d
    using map_of_is_SomeI[OF _ that] assms(2,4) by (simp add: sound_def)
  have tags: "map tag (conditions ?p) = map tag (conditions cr)"
    using k by (auto simp: put_condition_def conds tag_def dest: at)
  have "map fst (conditions ?p) = map fst (conditions cr)" by (simp add: put_condition_def conds case_prod_beta comp_def)
  then have "distinct (map fst (conditions ?p))" using assms(2) by (simp add: sound_def del: map_map)
  then have snd: "sound ?p"
    using assms(2) w conds unfolding sound_def by (auto simp: put_condition_def)
  have "natural ?p x = natural cr x" for x
  proof -
    have "(\<Sum>(_, e) \<leftarrow> conditions ?p. contrib (kind cr) e x) =
        (\<Sum>(_, e) \<leftarrow> conditions cr. contrib (kind cr) e x) + contrib (kind cr) c1 x - contrib (kind cr) c x"
      using sum_update[of "conditions cr" pid c "\<lambda>e. contrib (kind cr) e x" c1] assms(2,4)
      by (simp add: put_condition_def conds sound_def)
    moreover have "current ?p x = current cr x + (contrib (kind cr) c1 x - contrib (kind cr) c x)"
      using m by (simp add: put_condition_def moved_def)
    ultimately show ?thesis by (simp add: natural_def put_condition_def conds)
  qed
  then have "natural ?p = natural cr" by (rule ext)
  moreover have "kind ?p = kind cr" by (simp add: put_condition_def conds)
  ultimately show ?thesis using snd tags by (simp add: settled_def)
qed

lemma addCondition_kept:
  assumes "combat_fair env" and "sound cr" and "single cr" and "well_typed c" and "pid \<notin> fst ` set (conditions cr)"
    and "addCondition env force pid c cr = Some (ok, cr')"
  shows "sound cr' \<and> single cr' \<and> natural cr' = natural cr"
proof -
  have settled: ?thesis if "settled cr cr'"
    using that settled_single[OF that assms(3)] by (simp add: settled_def)
  consider (rejected) "cr' = cr" | (later) x where "cr' = call x cr"
    | (renewed) prev d c1 cr1 where "getCondition3 (conditionType c) (condId c) (subId c) cr = Some (prev, d)"
        "Condition_addCondition env c prev d cr = Some (c1, cr1)" "cr' = put_condition prev c1 cr1"
    | (new) b c1 cr1 where "getCondition3 (conditionType c) (condId c) (subId c) cr = None" "startCondition env c cr = Some (b, c1, cr1)"
        "cr' = (if b then onAddCondition env (conditionType c1) (cr1\<lparr>conditions := conditions cr1 @ [(pid, c1)]\<rparr>) else cr1)"
    using assms(6) unfolding addCondition_def by (auto split: if_splits option.splits prod.splits)
  then show ?thesis
  proof cases
    case rejected
    then show ?thesis using assms by simp
  next
    case later
    then show ?thesis using settled call_settled[OF assms(2)] by simp
  next
    case renewed
    with find_pid[OF assms(2) renewed(1)] renew_settled[OF assms(1,2,4)] settled show ?thesis by blast
  next
    case new
    note st = startCondition_started[OF assms(1,2,4) new(2)]
    show ?thesis
    proof (cases b)
      case True
      with st have "started cr c c1 cr1" by simp
      from append_started[OF this assms(3,5)] find_none[OF new(1)]
      have a: "sound (cr1\<lparr>conditions := conditions cr1 @ [(pid, c1)]\<rparr>)" "single (cr1\<lparr>conditions := conditions cr1 @ [(pid, c1)]\<rparr>)"
          "natural (cr1\<lparr>conditions := conditions cr1 @ [(pid, c1)]\<rparr>) = natural cr"
        by (simp_all add: key_def)
      note s = onAddCondition_settled[OF a(1), of env "conditionType c1"]
      from s settled_single[OF s a(2)] a(3) new(3) True show ?thesis by (simp add: settled_def)
    next
      case False
      with st new(3) settled show ?thesis by simp
    qed
  qed
qed

section \<open>The life of a creature's conditions\<close>

text \<open>The operations on the conditions of a creature, at the times and in the circumstances of the environments given.\<close>

inductive lives :: "Creature \<Rightarrow> Creature \<Rightarrow> bool" for cr0 where
  start: "lives cr0 cr0"
| add: "lives cr0 cr \<Longrightarrow> combat_fair env \<Longrightarrow> well_typed c \<Longrightarrow> pid \<notin> fst ` set (conditions cr) \<Longrightarrow>
    addCondition env force pid c cr = Some (ok, cr') \<Longrightarrow> lives cr0 cr'"
| combat: "lives cr0 cr \<Longrightarrow> combat_fair env \<Longrightarrow> well_typed c \<Longrightarrow> pid \<notin> fst ` set (conditions cr) \<Longrightarrow>
    addCombatCondition env pid c cr = Some (ok, cr') \<Longrightarrow> lives cr0 cr'"
| execute: "lives cr0 cr \<Longrightarrow> combat_fair env \<Longrightarrow> lives cr0 (executeConditions env ival cr)"
| remove: "lives cr0 cr \<Longrightarrow> lives cr0 (removeCondition env force type cr)"
| remove2: "lives cr0 cr \<Longrightarrow> lives cr0 (removeCondition2 env force type ident cr)"
| remove_at: "lives cr0 cr \<Longrightarrow> lives cr0 (removeCondition_at env force pid cr)"
| remove_combat: "lives cr0 cr \<Longrightarrow> lives cr0 (removeCombatCondition env type cr)"

lemma addCombatCondition_kept:
  assumes "combat_fair env" and "sound cr" and "single cr" and "well_typed c" and "pid \<notin> fst ` set (conditions cr)"
    and "addCombatCondition env pid c cr = Some (ok, cr')"
  shows "sound cr' \<and> single cr' \<and> natural cr' = natural cr"
proof -
  from assms(6) obtain b cr1 where a: "addCondition env False pid c cr = Some (b, cr1)"
      and cr': "cr' = cr1 \<or> cr' = onAddCombatCondition (conditionType c) cr1"
    by (auto simp: addCombatCondition_def split: if_splits)
  note k = addCondition_kept[OF assms(1-5) a]
  have "settled cr1 (onAddCombatCondition (conditionType c) cr1)"
    using k by (simp add: onAddCombatCondition_def call_settled settled_refl)
  from settled_step[OF this k] k cr' show ?thesis by auto
qed


text \<open>A player with no condition, in quiet surroundings.\<close>

definition quiet :: Env where
  "quiet = \<lparr>now = 5000, protectionZone = False, walkDelay = 0, random = (\<lambda>a _. a), percentOf = (\<lambda>_ _. 0),
     formulaValues = (\<lambda>_ _. (0, 0)), generateDamageList = (\<lambda>_ _. []), fieldCombatType = None, getPathTo = (\<lambda>_. None),
     worldPvpEnforced = False, canDoAction = True, nextActionTime = 0, onChangeOutfit = (\<lambda>_. True),
     combat = (\<lambda>_ _ cr. (True, cr))\<rparr>"

definition newcomer :: Creature where
  "newcomer = \<lparr>kind = KPlayer, position = Position 100 100 7, conditions = [], conditionImmunities = 0,
     conditionSuppressions = 0, flagCannotBeAttacked = False, rootImmunityEnd = 0, fearImmunityEnd = 0, removed = False,
     health = 150, healthMax = 150, resetHpBonus = 0, mana = 0, manaMax = 0, resetManaBonus = 0, flagInfiniteMana = False,
     soul = 0, soulMax = 100, baseSpeed = 220, varSpeed = 0, drunkenness = 0, currentOutfit = new_Outfit,
     defaultOutfit = new_Outfit, internalLight = \<lparr>level = 0, color = 0\<rparr>, normalLight = \<lparr>level = 0, color = 0\<rparr>,
     canUseDefense = True, baseSkills = replicate 7 10, magLevel = 0, capacity = 400, flagCannotPickupItem = False,
     flagInfiniteCapacity = False, varSkills = replicate 7 0, varSpecialSkills = replicate 6 0, varStats = replicate 5 0,
     rates = replicate 4 100, pzLocked = False, calls = []\<rparr>"

lemma quiet_fair: "combat_fair quiet"
  by (simp add: combat_fair_def quiet_def settled_refl)


end
