(* ===== verification/ConditionEnding.thy ===== *)
theory ConditionEnding
  imports ConditionBalance
begin

text \<open>
  When conditions end (creature.cpp, \<^verbatim>\<open>Creature::executeConditions\<close> over \<^verbatim>\<open>Condition::executeCondition\<close>): running the
  conditions of a creature takes away each condition whose time has passed and leaves the others.
\<close>

section \<open>Conditions end\<close>

text \<open>Combat that takes conditions away at most: it renews none either.\<close>

definition combat_plain :: "Env \<Rightarrow> bool" where
  "combat_plain env \<longleftrightarrow> (\<forall>c amount cr. subseq (conditions (snd (combat env c amount cr))) (conditions cr))"

lemma map_of_subseq:
  assumes "subseq xs ys" and "distinct (map fst ys)" and "map_of xs pid = Some c"
  shows "map_of ys pid = Some c"
  using subseq_mem[OF assms(1) map_of_SomeD[OF assms(3)]] assms(2) by (simp add: map_of_is_SomeI)

lemma map_of_put_other: "i \<noteq> pid \<Longrightarrow> map_of (conditions (put_condition pid c cr)) i = map_of (conditions cr) i"
proof -
  assume "i \<noteq> pid"
  then have "map_of (map (\<lambda>(j, d). (j, if j = pid then c else d)) xs) i = map_of xs i" for xs
    by (induction xs) auto
  then show ?thesis by (simp add: put_condition_def)
qed

lemma map_of_conditions_erase: "map_of (conditions (erase pid cr)) i = (if i = pid then None else map_of (conditions cr) i)"
proof -
  have "map_of (filter (\<lambda>(j, _). j \<noteq> pid) xs) i = (if i = pid then None else map_of xs i)" for xs :: "(nat \<times> Condition) list"
    by (induction xs) auto
  then show ?thesis by (simp add: erase_def)
qed

lemma conditions_end:
  assumes "arrays_ok cr"
  shows "conditions (onEndCondition type (endCondition env c cr)) = conditions cr"
  using endCondition_moved[OF assms, of c env] core_proj(1)[OF core_onEndCondition] by (simp add: moved_def)

lemma damage_now_other:
  assumes "combat_plain env" and "sound cr" and "damage_now env pid c amount cr = (c1, cr1)" and "i \<noteq> pid"
    and "map_of (conditions cr1) i = Some e"
  shows "map_of (conditions cr) i = Some e"
proof -
  let ?p = "put_condition pid c cr"
  have "subseq (conditions (snd (doDamage env c amount ?p))) (conditions ?p)"
    using assms(1) by (simp add: doDamage_def combat_plain_def)
  moreover have "distinct (map fst (conditions ?p))"
    using assms(2) by (simp add: sound_def put_condition_def case_prod_beta comp_def)
  moreover have "cr1 = snd (doDamage env c amount ?p)"
    using assms(3) by (simp add: damage_now_def Let_def split: prod.splits)
  ultimately have "map_of (conditions ?p) i = Some e" using map_of_subseq assms(5) by metis
  then show ?thesis by (simp add: map_of_put_other[OF assms(4)])
qed

text \<open>Running one condition leaves each other as it is, or takes it away.\<close>

lemma execute_one_other:
  assumes "combat_fair env" and "combat_plain env" and "sound cr" and "map_of (conditions cr) pid = Some c" and "i \<noteq> pid"
    and "map_of (conditions (execute_one env ival pid c cr)) i = Some e"
  shows "map_of (conditions cr) i = Some e"
proof -
  obtain alive c1 cr1 where x: "executeCondition env ival pid c cr = (alive, c1, cr1)" by (metis prod_cases3)
  let ?p = "put_condition pid c1 cr1"
  have cr1: "map_of (conditions cr) i = Some e" if "map_of (conditions cr1) i = Some e"
  proof (cases "is_damage c")
    case True
    then obtain d where d: "part c = Damage d" by (auto simp: is_damage_iff)
    obtain c2 ival2 where t: "damage_tick env ival pid d c cr = (c2, cr1, ival2)"
      using x d by (auto simp: executeCondition_def ConditionDamage_executeCondition_def split: prod.splits)
    then have "cr1 = cr \<or> (\<exists>c' a c''. damage_now env pid c' a cr = (c'', cr1))"
      unfolding damage_tick_def Let_def by (auto split: if_splits list.splits prod.splits)
    with that damage_now_other[OF assms(2,3) _ assms(5)] show ?thesis by blast
  next
    case False
    with that executeCondition_core[OF False x] show ?thesis by (simp add: core_def)
  qed
  have ok: "arrays_ok (erase pid ?p)"
    using settled_sound[OF executed_settled[OF assms(1,3,4) x]] by (simp add: erase_def sound_def)
  show ?thesis
  proof (cases "map_of (conditions ?p) pid")
    case None
    with x have "execute_one env ival pid c cr = ?p" by (simp add: execute_one_def Let_def)
    with assms(6) cr1 show ?thesis by (simp add: map_of_put_other[OF assms(5)])
  next
    case (Some owned)
    with x have "execute_one env ival pid c cr =
        (if alive then ?p else onEndCondition (conditionType owned) (endCondition env owned (erase pid ?p)))"
      by (simp add: execute_one_def Let_def)
    with assms(5,6) cr1 show ?thesis
      by (simp add: conditions_end[OF ok] map_of_conditions_erase map_of_put_other split: if_splits)
  qed
qed

lemma execute_one_expired:
  assumes "combat_fair env" and "sound cr" and "map_of (conditions cr) pid = Some c"
    and "\<not> is_damage c" and "ticks c \<noteq> - 1" and "sint (endTime c) < sint (now env)"
  shows "map_of (conditions (execute_one env ival pid c cr)) pid = None"
proof -
  obtain alive c1 cr1 where x: "executeCondition env ival pid c cr = (alive, c1, cr1)" by (metis prod_cases3)
  have "\<not> alive"
    using x assms(4-6) by (cases "part c") (auto simp: executeCondition_def is_damage_iff Condition_executeCondition_def
      ConditionRegeneration_executeCondition_def ConditionSoul_executeCondition_def ConditionLight_executeCondition_def
      Let_def split: prod.splits if_splits)
  moreover have "conditions cr1 = conditions cr" using executeCondition_core[OF assms(4) x] by (simp add: core_def)
  moreover have ok: "arrays_ok (erase pid (put_condition pid c1 cr1))"
    using settled_sound[OF executed_settled[OF assms(1-3) x]] by (simp add: erase_def sound_def)
  ultimately show ?thesis
    using x assms(3) by (auto simp: execute_one_def Let_def conditions_end[OF ok] map_of_conditions_erase map_of_put)
qed

lemma execute_loop_expired:
  assumes "combat_fair env" and "combat_plain env" and "sound cr"
    and "\<not> isDead (execute_loop env ival pids cr) \<and> \<not> removed (execute_loop env ival pids cr)"
    and "\<not> is_damage c" and "ticks c \<noteq> - 1" and "sint (endTime c) < sint (now env)"
    and "map_of (conditions cr) pid = Some c \<and> pid \<in> set pids \<or> map_of (conditions cr) pid = None"
  shows "map_of (conditions (execute_loop env ival pids cr)) pid = None"
  using assms
proof (induction pids arbitrary: cr)
  case (Cons p pids)
  have alive: "\<not> (isDead cr \<or> removed cr)" using Cons.prems(4) by (auto split: if_splits)
  show ?case
  proof (cases "map_of (conditions cr) p")
    case None
    with alive Cons.IH[OF Cons.prems(1-3) _ Cons.prems(5-7)] Cons.prems(4,8) show ?thesis by auto
  next
    case (Some d)
    let ?n = "execute_one env ival p d cr"
    note s = settled_sound[OF execute_one_settled[OF Cons.prems(1,3) Some, of ival]]
    have "map_of (conditions ?n) pid = Some c \<and> pid \<in> set pids \<or> map_of (conditions ?n) pid = None"
    proof (cases "p = pid")
      case True
      with Some Cons.prems execute_one_expired[OF Cons.prems(1,3)] show ?thesis by auto
    next
      case False
      with execute_one_other[OF Cons.prems(1-3) Some, of pid] Cons.prems(8) show ?thesis
        by (cases "map_of (conditions ?n) pid") auto
    qed
    with alive Some Cons.IH[OF Cons.prems(1,2) s _ Cons.prems(5-7)] Cons.prems(4) show ?thesis by auto
  qed
qed auto




end
