(* ===== verification/Parties.thy ===== *)
theory Parties
  imports Positions
begin

text \<open>
  Parties (party.h, party.cpp), the invitations a player holds (player.cpp) and the requests of the game
  (\<open>Game::player...Party...\<close> of game.cpp).

  Players and parties refer to each other by weak pointers. A player is its identifier, and \<open>live\<close> holds
  the players that exist, so \<open>lock()\<close> of a player is membership in \<open>live\<close>. A party is its number;
  \<open>disband\<close> drops the last strong pointer, so a party exists while \<open>parties\<close> has it. The icons and
  messages sent to clients are left out: they do not change this state. The callbacks of the script
  engine are predicates of the record \<open>Events\<close>; what the code reads of players (level, position, flags)
  and of the configuration and the clock is the record \<open>Env\<close>. The level limit of shared experience is
  computed with a \<open>float\<close> in the source; \<open>float_near\<close> is its rounding to 24 significant bits, ties to even.
\<close>

type_synonym pid = nat

record Party =
  leader :: "u32 option"
  memberList :: "u32 list"
  inviteList :: "u32 list"
  sharedExpActive :: bool
  sharedExpEnabled :: bool
  ticksMap :: "u32 \<rightharpoonup> int"

record World =
  parties :: "pid \<rightharpoonup> Party"
  party_of :: "u32 \<rightharpoonup> pid"
  invitePartyList :: "u32 \<Rightarrow> pid list"
  live :: "u32 set"
  nextParty :: pid

record Events =
  onDisband :: "pid \<Rightarrow> bool"
  onLeave :: "pid \<Rightarrow> u32 \<Rightarrow> bool"
  onPassLeadership :: "pid \<Rightarrow> u32 \<Rightarrow> bool"
  onJoin :: "pid \<Rightarrow> u32 \<Rightarrow> bool"
  onRevokeInvitation :: "pid \<Rightarrow> u32 \<Rightarrow> bool"
  onInvite :: "pid \<Rightarrow> u32 \<Rightarrow> bool"

record Env =
  getLevel :: "u32 \<Rightarrow> u32"
  playerPosition :: "u32 \<Rightarrow> Position"
  notGainInFight :: "u32 \<Rightarrow> bool"
  infight :: "u32 \<Rightarrow> bool"
  inProtectionZone :: "u32 \<Rightarrow> bool"
  otsysTime :: int
  expShareRange :: s32
  expShareFloors :: s32
  pzLocked :: int

section \<open>Players and parties\<close>

definition lock_player :: "World \<Rightarrow> u32 option \<Rightarrow> u32 option" where
  "lock_player w r = (case r of None \<Rightarrow> None | Some p \<Rightarrow> if p \<in> live w then Some p else None)"

definition getParty :: "World \<Rightarrow> u32 \<Rightarrow> pid option" where
  "getParty w p = (case party_of w p of None \<Rightarrow> None | Some P \<Rightarrow> if parties w P = None then None else Some P)"

definition setParty :: "u32 \<Rightarrow> pid option \<Rightarrow> World \<Rightarrow> World" where
  "setParty p P w = w\<lparr>party_of := (party_of w)(p := P)\<rparr>"

definition upd_party :: "pid \<Rightarrow> (Party \<Rightarrow> Party) \<Rightarrow> World \<Rightarrow> World" where
  "upd_party P f w = w\<lparr>parties := (parties w)(P := map_option f (parties w P))\<rparr>"

definition party_empty :: "Party \<Rightarrow> bool" where
  "party_empty pt \<longleftrightarrow> memberList pt = [] \<and> inviteList pt = []"

definition addPartyInvitation :: "u32 \<Rightarrow> pid \<Rightarrow> World \<Rightarrow> bool \<times> World" where
  "addPartyInvitation p P w =
     (if \<exists>Q \<in> set (invitePartyList w p). parties w Q \<noteq> None \<and> Q = P then (False, w)
      else if parties w P = None then (False, w)
      else (True, w\<lparr>invitePartyList := (invitePartyList w)(p := P # invitePartyList w p)\<rparr>))"

definition removePartyInvitation :: "u32 \<Rightarrow> pid \<Rightarrow> World \<Rightarrow> World" where
  "removePartyInvitation p P w =
     w\<lparr>invitePartyList := (invitePartyList w)(p := filter (\<lambda>Q. parties w Q \<noteq> None \<and> Q \<noteq> P) (invitePartyList w p))\<rparr>"

section \<open>Shared experience\<close>

datatype SharedExpStatus =
  SHAREDEXP_OK | SHAREDEXP_TOOFARAWAY | SHAREDEXP_LEVELDIFFTOOLARGE | SHAREDEXP_MEMBERINACTIVE | SHAREDEXP_EMPTYPARTY

definition highest_level :: "Env \<Rightarrow> World \<Rightarrow> u32 \<Rightarrow> u32 list \<Rightarrow> u32" where
  "highest_level env w l ms =
     fold (\<lambda>m h. if m \<in> live w \<and> getLevel env m > h then getLevel env m else h) ms (getLevel env l)"

text \<open>
  Single precision: \<open>float_unit n\<close> is the distance of neighbouring floats at \<open>n\<close>, \<open>float_near a b\<close> the float
  nearest to \<open>a / b\<close>, for quotients from \<open>2 ^ 23\<close> on and 0. Smaller quotients are scaled before; with 24 fractional
  bits the quotients below are in that range. Doubling a float is exact.
\<close>

definition round_even :: "nat \<Rightarrow> nat \<Rightarrow> nat" where
  "round_even a b =
     (let q = a div b; r = a mod b in if 2 * r < b \<or> 2 * r = b \<and> even q then q else q + 1)"

fun float_unit :: "nat \<Rightarrow> nat" where
  "float_unit n = (if n < 2 ^ 24 then 1 else 2 * float_unit (n div 2))"

declare float_unit.simps [simp del]

definition float_near :: "nat \<Rightarrow> nat \<Rightarrow> nat" where
  "float_near a b = (let u = float_unit (a div b) in round_even a (b * u) * u)"

definition min_level :: "u32 \<Rightarrow> u32" where
  "min_level highestLevel =
     (let level = float_near (unat highestLevel) 1;
          limit = float_near (level * 2 * 2 ^ 24) 3
      in of_nat ((limit + (2 ^ 24 - 1)) div 2 ^ 24))"

definition getMemberSharedExperienceStatus :: "Env \<Rightarrow> World \<Rightarrow> Party \<Rightarrow> u32 \<Rightarrow> SharedExpStatus" where
  "getMemberSharedExperienceStatus env w pt player =
     (if memberList pt = [] then SHAREDEXP_EMPTYPARTY
      else case lock_player w (leader pt) of
          None \<Rightarrow> SHAREDEXP_MEMBERINACTIVE
        | Some currentLeader \<Rightarrow>
            if getLevel env player < min_level (highest_level env w currentLeader (memberList pt))
            then SHAREDEXP_LEVELDIFFTOOLARGE
            else if \<not> isInRange3 (playerPosition env currentLeader) (playerPosition env player)
                       (sint (expShareRange env)) (sint (expShareRange env)) (ucast (expShareFloors env))
            then SHAREDEXP_TOOFARAWAY
            else if \<not> notGainInFight env player
            then (case ticksMap pt player of
                    None \<Rightarrow> SHAREDEXP_MEMBERINACTIVE
                  | Some t \<Rightarrow> if (otsysTime env - t) mod 2 ^ 64 > pzLocked env mod 2 ^ 64
                              then SHAREDEXP_MEMBERINACTIVE else SHAREDEXP_OK)
            else SHAREDEXP_OK)"

fun member_statuses :: "Env \<Rightarrow> World \<Rightarrow> Party \<Rightarrow> u32 list \<Rightarrow> SharedExpStatus" where
  "member_statuses env w pt [] = SHAREDEXP_OK"
| "member_statuses env w pt (m # ms) =
     (if m \<in> live w
      then let memberStatus = getMemberSharedExperienceStatus env w pt m
           in if memberStatus \<noteq> SHAREDEXP_OK then memberStatus else member_statuses env w pt ms
      else member_statuses env w pt ms)"

definition getSharedExperienceStatus :: "Env \<Rightarrow> World \<Rightarrow> Party \<Rightarrow> SharedExpStatus" where
  "getSharedExperienceStatus env w pt =
     (case lock_player w (leader pt) of
        None \<Rightarrow> SHAREDEXP_MEMBERINACTIVE
      | Some currentLeader \<Rightarrow>
          let leaderStatus = getMemberSharedExperienceStatus env w pt currentLeader
          in if leaderStatus \<noteq> SHAREDEXP_OK then leaderStatus
             else member_statuses env w pt (memberList pt))"

definition updateSharedExperience :: "Env \<Rightarrow> pid \<Rightarrow> World \<Rightarrow> World" where
  "updateSharedExperience env P w =
     upd_party P (\<lambda>pt. if sharedExpActive pt
                       then pt\<lparr>sharedExpEnabled := (getSharedExperienceStatus env w pt = SHAREDEXP_OK)\<rparr>
                       else pt) w"

definition setSharedExperience :: "Env \<Rightarrow> pid \<Rightarrow> u32 \<Rightarrow> bool \<Rightarrow> World \<Rightarrow> bool \<times> World" where
  "setSharedExperience env P player act w =
     (case parties w P of
        None \<Rightarrow> (False, w)
      | Some pt \<Rightarrow>
          if lock_player w (leader pt) \<noteq> Some player then (False, w)
          else if sharedExpActive pt = act then (True, w)
          else (True, upd_party P (\<lambda>pt. let pt = pt\<lparr>sharedExpActive := act\<rparr> in
                  if act then pt\<lparr>sharedExpEnabled := (getSharedExperienceStatus env w pt = SHAREDEXP_OK)\<rparr> else pt) w))"

definition updatePlayerTicks :: "Env \<Rightarrow> pid \<Rightarrow> u32 \<Rightarrow> u32 \<Rightarrow> World \<Rightarrow> World" where
  "updatePlayerTicks env P player points w =
     (if points \<noteq> 0 \<and> \<not> notGainInFight env player
      then updateSharedExperience env P
             (upd_party P (\<lambda>pt. pt\<lparr>ticksMap := (ticksMap pt)(player \<mapsto> otsysTime env)\<rparr>) w)
      else w)"

definition clearPlayerPoints :: "Env \<Rightarrow> pid \<Rightarrow> u32 \<Rightarrow> World \<Rightarrow> World" where
  "clearPlayerPoints env P player w =
     (case parties w P of
        None \<Rightarrow> w
      | Some pt \<Rightarrow>
          if ticksMap pt player \<noteq> None
          then updateSharedExperience env P (upd_party P (\<lambda>pt. pt\<lparr>ticksMap := (ticksMap pt)(player := None)\<rparr>) w)
          else w)"

section \<open>The operations of a party\<close>

definition create :: "u32 \<Rightarrow> World \<Rightarrow> pid \<times> World" where
  "create l w =
     (let P = nextParty w;
          pt = \<lparr>leader = Some l, memberList = [], inviteList = [], sharedExpActive = False,
                sharedExpEnabled = False, ticksMap = Map.empty\<rparr>
      in (P, setParty l (Some P) (w\<lparr>parties := (parties w)(P \<mapsto> pt), nextParty := Suc P\<rparr>)))"

definition disband :: "Events \<Rightarrow> pid \<Rightarrow> World \<Rightarrow> World" where
  "disband ev P w =
     (if \<not> onDisband ev P then w
      else case parties w P of
          None \<Rightarrow> w
        | Some pt \<Rightarrow>
            let w = (case lock_player w (leader pt) of None \<Rightarrow> w | Some l \<Rightarrow> setParty l None w);
                w = fold (\<lambda>i w. if i \<in> live w then removePartyInvitation i P w else w) (inviteList pt) w;
                w = fold (\<lambda>m w. if m \<in> live w then setParty m None w else w) (memberList pt) w
            in w\<lparr>parties := (parties w)(P := None)\<rparr>)"

definition without :: "World \<Rightarrow> u32 \<Rightarrow> u32 list \<Rightarrow> u32 list" where
  "without w player ps = filter (\<lambda>m. m \<in> live w \<and> m \<noteq> player) ps"

definition passPartyLeadership :: "Events \<Rightarrow> Env \<Rightarrow> pid \<Rightarrow> u32 \<Rightarrow> bool \<Rightarrow> World \<Rightarrow> bool \<times> World" where
  "passPartyLeadership ev env P player forceRemove w =
     (case parties w P of
        None \<Rightarrow> (False, w)
      | Some pt \<Rightarrow>
          let currentLeader = lock_player w (leader pt) in
          if currentLeader = Some player \<or> getParty w player \<noteq> Some P then (False, w)
          else if \<not> onPassLeadership ev P player \<and> \<not> forceRemove then (False, w)
          else
            let ms = without w player (memberList pt);
                ms = (case currentLeader of None \<Rightarrow> ms | Some oldLeader \<Rightarrow> oldLeader # ms)
            in (True, updateSharedExperience env P
                        (upd_party P (\<lambda>pt. pt\<lparr>memberList := ms, leader := Some player\<rparr>) w)))"

definition leaveParty :: "Events \<Rightarrow> Env \<Rightarrow> pid \<Rightarrow> u32 \<Rightarrow> bool \<Rightarrow> World \<Rightarrow> bool \<times> World" where
  "leaveParty ev env P player forceRemove w =
     (case parties w P of
        None \<Rightarrow> (False, w)
      | Some pt \<Rightarrow>
          let currentLeader = lock_player w (leader pt) in
          if getParty w player \<noteq> Some P \<and> currentLeader \<noteq> Some player then (False, w)
          else if \<not> forceRemove \<and> \<not> onLeave ev P player then (False, w)
          else
            let (missingLeader, w) =
                  (if currentLeader = Some player \<or> currentLeader = None
                   then if memberList pt \<noteq> []
                        then let valid = without w player (memberList pt)
                             in if length valid = 0 \<or>
                                   (length valid = 1 \<and> inviteList pt = [] \<and> currentLeader = Some player)
                                then (True, w)
                                else (False, snd (passPartyLeadership ev env P (hd valid) True w))
                        else (True, w)
                   else (False, w));
                w = upd_party P (\<lambda>pt. pt\<lparr>memberList := without w player (memberList pt)\<rparr>) w;
                w = setParty player None w;
                w = updateSharedExperience env P w;
                w = clearPlayerPoints env P player w
            in if missingLeader \<or> (case parties w P of None \<Rightarrow> True | Some pt \<Rightarrow> party_empty pt)
               then (True, disband ev P w) else (True, w))"

definition removeInvite :: "Events \<Rightarrow> pid \<Rightarrow> u32 \<Rightarrow> bool \<Rightarrow> World \<Rightarrow> bool \<times> World" where
  "removeInvite ev P player removeFromPlayer w =
     (case parties w P of
        None \<Rightarrow> (False, w)
      | Some pt \<Rightarrow>
          let found = (player \<in> live w \<and> player \<in> set (inviteList pt));
              is = without w player (inviteList pt);
              w = upd_party P (\<lambda>pt. pt\<lparr>inviteList := is\<rparr>) w
          in if \<not> found then (False, w)
             else
               let w = (if removeFromPlayer then removePartyInvitation player P w else w)
               in if party_empty (pt\<lparr>inviteList := is\<rparr>) then (True, disband ev P w) else (True, w))"

definition clearPartyInvitations :: "Events \<Rightarrow> u32 \<Rightarrow> World \<Rightarrow> World" where
  "clearPartyInvitations ev player w =
     (let w' = fold (\<lambda>Q w. if parties w Q = None then w else snd (removeInvite ev Q player False w))
                 (invitePartyList w player) w
      in w'\<lparr>invitePartyList := (invitePartyList w')(player := [])\<rparr>)"

definition joinParty :: "Events \<Rightarrow> Env \<Rightarrow> pid \<Rightarrow> u32 \<Rightarrow> World \<Rightarrow> bool \<times> World" where
  "joinParty ev env P player w =
     (case parties w P of
        None \<Rightarrow> (False, w)
      | Some pt \<Rightarrow>
          (case lock_player w (leader pt) of
             None \<Rightarrow> (False, w)
           | Some currentLeader \<Rightarrow>
               if \<not> onJoin ev P player then (False, w)
               else
                 let w = (if memberList pt = [] then clearPartyInvitations ev currentLeader w else w);
                     w = upd_party P (\<lambda>pt. pt\<lparr>memberList := memberList pt @ [player]\<rparr>) w;
                     w = setParty player (Some P) w;
                     w = clearPartyInvitations ev player w;
                     w = removePartyInvitation player P w
                 in (True, updateSharedExperience env P w)))"

definition revokeInvitation :: "Events \<Rightarrow> pid \<Rightarrow> u32 \<Rightarrow> World \<Rightarrow> World" where
  "revokeInvitation ev P player w =
     (if \<not> onRevokeInvitation ev P player then w else snd (removeInvite ev P player True w))"

definition isPlayerInvited :: "World \<Rightarrow> pid \<Rightarrow> u32 \<Rightarrow> bool" where
  "isPlayerInvited w P player =
     (case parties w P of None \<Rightarrow> False | Some pt \<Rightarrow> player \<in> live w \<and> player \<in> set (inviteList pt))"

definition invitePlayer :: "pid \<Rightarrow> u32 \<Rightarrow> World \<Rightarrow> bool \<times> World" where
  "invitePlayer P player w =
     (case parties w P of
        None \<Rightarrow> (False, w)
      | Some pt \<Rightarrow>
          if isPlayerInvited w P player then (False, w)
          else if lock_player w (leader pt) = None then (False, w)
          else (True, snd (addPartyInvitation player P
                 (upd_party P (\<lambda>pt. pt\<lparr>inviteList := inviteList pt @ [player]\<rparr>) w))))"

definition isInviting :: "World \<Rightarrow> u32 \<Rightarrow> u32 \<Rightarrow> bool" where
  "isInviting w self player =
     (case getParty w self of
        None \<Rightarrow> False
      | Some P \<Rightarrow> (case parties w P of None \<Rightarrow> False
                   | Some pt \<Rightarrow> lock_player w (leader pt) = Some self \<and> isPlayerInvited w P player))"

definition isPartner :: "World \<Rightarrow> u32 \<Rightarrow> u32 \<Rightarrow> bool" where
  "isPartner w self player \<longleftrightarrow> getParty w self \<noteq> None \<and> player \<noteq> self \<and> getParty w self = getParty w player"

definition getLeader :: "World \<Rightarrow> pid \<Rightarrow> u32 option" where
  "getLeader w P = (case parties w P of None \<Rightarrow> None | Some pt \<Rightarrow> lock_player w (leader pt))"

definition party_canOpenCorpse :: "World \<Rightarrow> pid \<Rightarrow> u32 \<Rightarrow> bool" where
  "party_canOpenCorpse w P ownerId \<longleftrightarrow>
     ownerId \<in> live w \<and> (getLeader w P = Some ownerId \<or> getParty w ownerId = Some P)"

definition canOpenCorpse :: "World \<Rightarrow> u32 \<Rightarrow> u32 \<Rightarrow> bool" where
  "canOpenCorpse w self ownerId \<longleftrightarrow>
     (if self = ownerId then True
      else case getParty w self of None \<Rightarrow> False | Some P \<Rightarrow> party_canOpenCorpse w P ownerId)"

section \<open>Requests\<close>

definition playerInviteToParty :: "Events \<Rightarrow> u32 \<Rightarrow> u32 \<Rightarrow> World \<Rightarrow> World" where
  "playerInviteToParty ev playerId invitedId w =
     (if playerId = invitedId then w
      else if playerId \<notin> live w then w
      else if invitedId \<notin> live w \<or> isInviting w invitedId playerId then w
      else if getParty w invitedId \<noteq> None then w
      else
        let r = (case getParty w playerId of
                   None \<Rightarrow> Some (create playerId w)
                 | Some P \<Rightarrow> if getLeader w P \<noteq> Some playerId then None else Some (P, w))
        in case r of
            None \<Rightarrow> w
          | Some (P, w) \<Rightarrow>
              if \<not> onInvite ev P invitedId
              then (case parties w P of None \<Rightarrow> w | Some pt \<Rightarrow> if party_empty pt then disband ev P w else w)
              else snd (invitePlayer P invitedId w))"

definition playerJoinParty :: "Events \<Rightarrow> Env \<Rightarrow> u32 \<Rightarrow> u32 \<Rightarrow> World \<Rightarrow> World" where
  "playerJoinParty ev env playerId leaderId w =
     (if playerId \<notin> live w then w
      else if leaderId \<notin> live w \<or> \<not> isInviting w leaderId playerId then w
      else case getParty w leaderId of
          None \<Rightarrow> w
        | Some P \<Rightarrow>
            if getLeader w P \<noteq> Some leaderId then w
            else if getParty w playerId \<noteq> None then w
            else snd (joinParty ev env P playerId w))"

definition playerRevokePartyInvitation :: "Events \<Rightarrow> u32 \<Rightarrow> u32 \<Rightarrow> World \<Rightarrow> World" where
  "playerRevokePartyInvitation ev playerId invitedId w =
     (if playerId \<notin> live w then w
      else case getParty w playerId of
          None \<Rightarrow> w
        | Some P \<Rightarrow>
            if getLeader w P \<noteq> Some playerId then w
            else if invitedId \<notin> live w \<or> \<not> isInviting w playerId invitedId then w
            else revokeInvitation ev P invitedId w)"

definition playerPassPartyLeadership :: "Events \<Rightarrow> Env \<Rightarrow> u32 \<Rightarrow> u32 \<Rightarrow> World \<Rightarrow> World" where
  "playerPassPartyLeadership ev env playerId newLeaderId w =
     (if playerId \<notin> live w then w
      else case getParty w playerId of
          None \<Rightarrow> w
        | Some P \<Rightarrow>
            if getLeader w P \<noteq> Some playerId then w
            else if newLeaderId \<notin> live w \<or> \<not> isPartner w playerId newLeaderId then w
            else snd (passPartyLeadership ev env P newLeaderId False w))"

definition playerLeaveParty :: "Events \<Rightarrow> Env \<Rightarrow> u32 \<Rightarrow> World \<Rightarrow> World" where
  "playerLeaveParty ev env playerId w =
     (if playerId \<notin> live w then w
      else case getParty w playerId of
          None \<Rightarrow> w
        | Some P \<Rightarrow> if infight env playerId then w else snd (leaveParty ev env P playerId False w))"

definition playerEnableSharedPartyExperience :: "Env \<Rightarrow> u32 \<Rightarrow> bool \<Rightarrow> World \<Rightarrow> World" where
  "playerEnableSharedPartyExperience env playerId act w =
     (if playerId \<notin> live w then w
      else case getParty w playerId of
          None \<Rightarrow> w
        | Some P \<Rightarrow>
            if infight env playerId \<and> \<not> inProtectionZone env playerId then w
            else snd (setSharedExperience env P playerId act w))"

text \<open>A player who logs out gives up invitations and party before the object goes away.\<close>

definition player_logout :: "Events \<Rightarrow> Env \<Rightarrow> u32 \<Rightarrow> World \<Rightarrow> World" where
  "player_logout ev env player w =
     (let w = clearPartyInvitations ev player w;
          w = (case getParty w player of None \<Rightarrow> w | Some P \<Rightarrow> snd (leaveParty ev env P player True w))
      in w\<lparr>live := live w - {player}\<rparr>)"

section \<open>The invariant\<close>

text \<open>
  Membership and invitations are mutual. \<open>X\<close> holds the players whose own invitations are being cleared:
  for them only the direction from the party to the player is demanded.
\<close>

definition party_ok :: "u32 set \<Rightarrow> World \<Rightarrow> pid \<Rightarrow> Party \<Rightarrow> bool" where
  "party_ok X w P pt \<longleftrightarrow>
     (case leader pt of None \<Rightarrow> False
      | Some l \<Rightarrow> l \<in> live w \<and> party_of w l = Some P \<and> l \<notin> set (memberList pt)) \<and>
     distinct (memberList pt) \<and> distinct (inviteList pt) \<and>
     (\<forall>m \<in> set (memberList pt). m \<in> live w \<and> party_of w m = Some P) \<and>
     (\<forall>i \<in> set (inviteList pt). i \<in> live w \<and> (i \<notin> X \<longrightarrow> party_of w i \<noteq> Some P) \<and> P \<in> set (invitePartyList w i))"

definition core :: "u32 set \<Rightarrow> World \<Rightarrow> bool" where
  "core X w \<longleftrightarrow>
     (\<forall>P pt. parties w P = Some pt \<longrightarrow> party_ok X w P pt \<and> P < nextParty w) \<and>
     (\<forall>p P. party_of w p = Some P \<longrightarrow>
        (\<exists>pt. parties w P = Some pt \<and> (leader pt = Some p \<or> p \<in> set (memberList pt)))) \<and>
     (\<forall>p Q. p \<notin> X \<longrightarrow> Q \<in> set (invitePartyList w p) \<longrightarrow>
        (\<exists>pt. parties w Q = Some pt \<and> p \<in> set (inviteList pt))) \<and>
     (\<forall>p. distinct (invitePartyList w p))"

definition lonely :: "World \<Rightarrow> pid set" where
  "lonely w = {P. \<exists>pt. parties w P = Some pt \<and> party_empty pt}"

definition world_ok :: "World \<Rightarrow> bool" where
  "world_ok w \<longleftrightarrow> core {} w \<and> lonely w = {}"

definition accepts :: "Events \<Rightarrow> bool" where
  "accepts ev \<longleftrightarrow> (\<forall>P. onDisband ev P)"

lemma core_party: "core X w \<Longrightarrow> parties w P = Some pt \<Longrightarrow> party_ok X w P pt \<and> P < nextParty w"
  by (simp add: core_def)

lemma core_member: "core X w \<Longrightarrow> party_of w p = Some P \<Longrightarrow>
    \<exists>pt. parties w P = Some pt \<and> (leader pt = Some p \<or> p \<in> set (memberList pt))"
  by (simp add: core_def)

lemma core_invite: "core X w \<Longrightarrow> p \<notin> X \<Longrightarrow> Q \<in> set (invitePartyList w p) \<Longrightarrow>
    \<exists>pt. parties w Q = Some pt \<and> p \<in> set (inviteList pt)"
  by (simp add: core_def)

lemma core_mono: "core X w \<Longrightarrow> X \<subseteq> Y \<Longrightarrow> core Y w"
  unfolding core_def party_ok_def by blast

lemma getParty_core: "core X w \<Longrightarrow> getParty w p = party_of w p"
  by (auto simp: getParty_def split: option.splits dest: core_member)

lemma lock_leader: "core X w \<Longrightarrow> parties w P = Some pt \<Longrightarrow> lock_player w (leader pt) = leader pt"
  by (auto dest!: core_party simp: party_ok_def lock_player_def split: option.splits)

lemma without_live: "set ps \<subseteq> live w \<Longrightarrow> without w p ps = filter (\<lambda>i. i \<noteq> p) ps"
  unfolding without_def by (rule filter_cong) auto

lemma members_live: "core X w \<Longrightarrow> parties w P = Some pt \<Longrightarrow> set (memberList pt) \<subseteq> live w \<and> set (inviteList pt) \<subseteq> live w"
  by (auto dest!: core_party simp: party_ok_def)

section \<open>Disbanding\<close>

lemma fold_setParty:
  "fold (\<lambda>m w. if m \<in> live w then setParty m None w else w) ms w =
     w\<lparr>party_of := (\<lambda>p. if p \<in> set ms \<and> p \<in> live w then None else party_of w p)\<rparr>"
  by (induction ms arbitrary: w) (auto simp: setParty_def fun_eq_iff intro!: World.equality)

lemma fold_removePartyInvitation:
  "fold (\<lambda>i w. if i \<in> live w then removePartyInvitation i P w else w) is w =
     w\<lparr>invitePartyList := (\<lambda>i. if i \<in> set is \<and> i \<in> live w
        then filter (\<lambda>Q. parties w Q \<noteq> None \<and> Q \<noteq> P) (invitePartyList w i) else invitePartyList w i)\<rparr>"
  by (induction "is" arbitrary: w) (auto simp: removePartyInvitation_def fun_eq_iff intro!: World.equality)

lemma disband_raw:
  assumes pt: "parties w P = Some pt" and ev: "accepts ev" and l: "leader pt = Some l" "l \<in> live w"
    and m: "set (memberList pt) \<subseteq> live w" and i: "set (inviteList pt) \<subseteq> live w"
  shows "disband ev P w = w\<lparr>
     party_of := (\<lambda>q. if q = l \<or> q \<in> set (memberList pt) then None else party_of w q),
     invitePartyList := (\<lambda>i. if i \<in> set (inviteList pt)
        then filter (\<lambda>Q. parties w Q \<noteq> None \<and> Q \<noteq> P) (invitePartyList w i) else invitePartyList w i),
     parties := (parties w)(P := None)\<rparr>"
proof -
  have po: "(\<lambda>q. if q \<in> set (memberList pt) \<and> q \<in> live w then None else ((party_of w)(l := None)) q) =
      (\<lambda>q. if q = l \<or> q \<in> set (memberList pt) then None else party_of w q)"
    using m by (auto simp: fun_eq_iff)
  have io: "(\<lambda>i. if i \<in> set (inviteList pt) \<and> i \<in> live w
        then filter (\<lambda>Q. parties w Q \<noteq> None \<and> Q \<noteq> P) (invitePartyList w i) else invitePartyList w i) =
      (\<lambda>i. if i \<in> set (inviteList pt)
        then filter (\<lambda>Q. parties w Q \<noteq> None \<and> Q \<noteq> P) (invitePartyList w i) else invitePartyList w i)"
    using i by (auto simp: fun_eq_iff)
  show ?thesis
    using ev pt l po io setParty_def[of l None w]
    by (simp add: disband_def accepts_def lock_player_def fold_setParty fold_removePartyInvitation Let_def cong: if_cong)
qed

lemma core_leader:
  assumes "core X w" and "parties w P = Some pt"
  obtains l where "leader pt = Some l" "l \<in> live w" "party_of w l = Some P" "l \<notin> set (memberList pt)"
    and "\<And>q. party_of w q = Some P \<longleftrightarrow> q = l \<or> q \<in> set (memberList pt)"
proof -
  have ok: "party_ok X w P pt"
    using core_party[OF assms] by simp
  then obtain l where l: "leader pt = Some l" "l \<in> live w" "party_of w l = Some P" "l \<notin> set (memberList pt)"
    by (auto simp: party_ok_def split: option.splits)
  have "party_of w q = Some P \<longleftrightarrow> q = l \<or> q \<in> set (memberList pt)" for q
    using core_member[OF assms(1), of q P] assms(2) l ok by (auto simp: party_ok_def)
  with that l show ?thesis by blast
qed

lemma disband_effect:
  assumes c: "core X w" and pt: "parties w P = Some pt" and ev: "accepts ev"
  shows "disband ev P w = w\<lparr>
     party_of := (\<lambda>p. if party_of w p = Some P then None else party_of w p),
     invitePartyList := (\<lambda>i. if i \<in> set (inviteList pt)
        then filter (\<lambda>Q. parties w Q \<noteq> None \<and> Q \<noteq> P) (invitePartyList w i) else invitePartyList w i),
     parties := (parties w)(P := None)\<rparr>"
proof -
  obtain l where l: "leader pt = Some l" "l \<in> live w"
      and p: "\<And>q. party_of w q = Some P \<longleftrightarrow> q = l \<or> q \<in> set (memberList pt)"
    using core_leader[OF c pt] by metis
  show ?thesis
    using disband_raw[OF pt ev l] members_live[OF c pt] by (simp add: p)
qed

lemma coreI:
  assumes "\<And>P pt. parties w P = Some pt \<Longrightarrow> party_ok X w P pt"
    and "\<And>P pt. parties w P = Some pt \<Longrightarrow> P < nextParty w"
    and "\<And>p P. party_of w p = Some P \<Longrightarrow>
        \<exists>pt. parties w P = Some pt \<and> (leader pt = Some p \<or> p \<in> set (memberList pt))"
    and "\<And>p Q. p \<notin> X \<Longrightarrow> Q \<in> set (invitePartyList w p) \<Longrightarrow>
        \<exists>pt. parties w Q = Some pt \<and> p \<in> set (inviteList pt)"
    and "\<And>p. distinct (invitePartyList w p)"
  shows "core X w"
  using assms unfolding core_def by auto

lemma core_distinct: "core X w \<Longrightarrow> distinct (invitePartyList w p)"
  by (simp add: core_def)

lemma disband_core:
  assumes c: "core X w" and pt: "parties w P = Some pt" and ev: "accepts ev"
  shows "core X (disband ev P w)"
proof (rule coreI)
  note E = disband_effect[OF c pt ev]
  show "party_ok X (disband ev P w) Q qt" if "parties (disband ev P w) Q = Some qt" for Q qt
  proof -
    have Q: "Q \<noteq> P" "parties w Q = Some qt"
      using that by (auto simp: E split: if_splits)
    show ?thesis
      using core_party[OF c Q(2)] Q unfolding party_ok_def E by (auto split: option.splits)
  qed
  show "Q < nextParty (disband ev P w)" if "parties (disband ev P w) Q = Some qt" for Q qt
    using that core_party[OF c, of Q] by (auto simp: E split: if_splits)
  show "\<exists>qt. parties (disband ev P w) Q = Some qt \<and> (leader qt = Some p \<or> p \<in> set (memberList qt))"
    if "party_of (disband ev P w) p = Some Q" for p Q
    using that core_member[OF c, of p Q] by (auto simp: E split: if_splits)
  show "\<exists>qt. parties (disband ev P w) Q = Some qt \<and> p \<in> set (inviteList qt)"
    if "p \<notin> X" "Q \<in> set (invitePartyList (disband ev P w) p)" for p Q
    using that core_invite[OF c, of p Q] pt by (auto simp: E split: if_splits)
  show "distinct (invitePartyList (disband ev P w) p)" for p
    using core_distinct[OF c] by (simp add: E)
qed

lemma lonely_disband: "core X w \<Longrightarrow> parties w P = Some pt \<Longrightarrow> accepts ev \<Longrightarrow> lonely (disband ev P w) = lonely w - {P}"
  by (auto simp: lonely_def disband_effect)

section \<open>Withdrawing invitations\<close>

definition drop_invite :: "u32 \<Rightarrow> Party \<Rightarrow> Party option" where
  "drop_invite p pt =
     (if p \<notin> set (inviteList pt) then Some pt
      else let pt = pt\<lparr>inviteList := filter (\<lambda>i. i \<noteq> p) (inviteList pt)\<rparr>
           in if party_empty pt then None else Some pt)"

definition alive :: "(pid \<rightharpoonup> Party) \<Rightarrow> pid option \<Rightarrow> pid option" where
  "alive ps P = Option.bind P (\<lambda>P. if ps P = None then None else Some P)"

definition withdraw :: "u32 \<Rightarrow> pid set \<Rightarrow> World \<Rightarrow> World" where
  "withdraw p A w =
     (let ps = (\<lambda>Q. if Q \<in> A then Option.bind (parties w Q) (drop_invite p) else parties w Q)
      in w\<lparr>parties := ps, party_of := (\<lambda>q. alive ps (party_of w q))\<rparr>)"

lemma filter_absent: "p \<notin> set xs \<Longrightarrow> filter (\<lambda>i. i \<noteq> p) xs = xs"
  by (simp add: filter_id_conv) blast

lemma drop_inviteD:
  assumes "drop_invite p pt = Some pt'"
  shows "leader pt' = leader pt \<and> memberList pt' = memberList pt \<and>
    inviteList pt' = filter (\<lambda>i. i \<noteq> p) (inviteList pt) \<and> (p \<in> set (inviteList pt) \<longrightarrow> \<not> party_empty pt')"
proof (cases "p \<in> set (inviteList pt)")
  case True
  then show ?thesis
    using assms by (simp add: drop_invite_def Let_def split: if_splits) fastforce
next
  case False
  then show ?thesis
    using assms by (simp add: drop_invite_def filter_absent)
qed

lemma drop_invite_None: "drop_invite p pt = None \<longleftrightarrow>
    p \<in> set (inviteList pt) \<and> memberList pt = [] \<and> filter (\<lambda>i. i \<noteq> p) (inviteList pt) = []"
  by (simp add: drop_invite_def Let_def party_empty_def)

lemma alive_core: "core X w \<Longrightarrow> alive (parties w) (party_of w q) = party_of w q"
  using core_member[of X w q] by (auto simp: alive_def split: bind_splits)

lemma withdraw_empty: "core X w \<Longrightarrow> withdraw p {} w = w"
  by (simp add: withdraw_def alive_core)

lemma drop_invite_twice: "Option.bind (drop_invite p pt) (drop_invite p) = drop_invite p pt"
  by (auto simp: drop_invite_def Let_def)

lemma alive_alive: "(\<And>Q. ps Q = None \<Longrightarrow> ps' Q = None) \<Longrightarrow> alive ps' (alive ps P) = alive ps' P"
  by (cases P) (auto simp: alive_def)

lemma withdraw_Un: "withdraw p A (withdraw p B w) = withdraw p (A \<union> B) w"
proof -
  let ?f = "\<lambda>Q. Option.bind (parties w Q) (drop_invite p)"
  have ps: "(\<lambda>Q. if Q \<in> A then Option.bind (if Q \<in> B then ?f Q else parties w Q) (drop_invite p)
       else if Q \<in> B then ?f Q else parties w Q) = (\<lambda>Q. if Q \<in> A \<union> B then ?f Q else parties w Q)"
    by (auto simp: fun_eq_iff Option.bind_assoc drop_invite_twice)
  have al: "alive (\<lambda>Q. if Q \<in> A \<union> B then ?f Q else parties w Q) (alive (\<lambda>Q. if Q \<in> B then ?f Q else parties w Q) P) =
      alive (\<lambda>Q. if Q \<in> A \<union> B then ?f Q else parties w Q) P" for P
    by (rule alive_alive) (simp split: if_splits)
  show ?thesis
    using ps al by (simp add: withdraw_def Let_def cong: if_cong)
qed

lemma withdraw_rest:
  "invitePartyList (withdraw p A w) = invitePartyList w" "live (withdraw p A w) = live w" "nextParty (withdraw p A w) = nextParty w"
  by (simp_all add: withdraw_def Let_def)

lemma withdraw_core:
  assumes c: "core X w" and p: "p \<in> X"
  shows "core X (withdraw p A w)"
proof -
  let ?w = "withdraw p A w"
  have old: "\<exists>qt. parties w Q = Some qt \<and> leader pt = leader qt \<and> memberList pt = memberList qt \<and>
      (inviteList pt = inviteList qt \<or> inviteList pt = filter (\<lambda>i. i \<noteq> p) (inviteList qt))"
    if "parties ?w Q = Some pt" for Q pt
    using that by (auto simp: withdraw_def Let_def bind_eq_Some_conv dest!: drop_inviteD split: if_splits)
  have mem: "party_of ?w q = Some Q \<longleftrightarrow> party_of w q = Some Q \<and> parties ?w Q \<noteq> None" for q Q
    by (auto simp: withdraw_def Let_def alive_def bind_eq_Some_conv split: if_splits)
  have kept: "\<exists>pt. parties ?w Q = Some pt \<and> q \<in> set (inviteList pt)"
    if "parties w Q = Some qt" "q \<in> set (inviteList qt)" "q \<noteq> p" for Q qt q
    using that by (auto simp: withdraw_def Let_def drop_invite_def party_empty_def filter_empty_conv)
  note rest = withdraw_rest
  show ?thesis
  proof (rule coreI)
    show "party_ok X ?w Q pt" if q: "parties ?w Q = Some pt" for Q pt
      using old[OF q] core_party[OF c, of Q] q
      by (auto simp: party_ok_def mem rest split: option.splits)
    show "Q < nextParty ?w" if q: "parties ?w Q = Some pt" for Q pt
      using old[OF q] core_party[OF c, of Q] by (auto simp: rest)
    show "\<exists>pt. parties ?w Q = Some pt \<and> (leader pt = Some q \<or> q \<in> set (memberList pt))"
      if "party_of ?w q = Some Q" for q Q
      using that core_member[OF c, of q Q] old[of Q] by (auto simp: mem)
    show "\<exists>pt. parties ?w Q = Some pt \<and> q \<in> set (inviteList pt)"
      if "q \<notin> X" "Q \<in> set (invitePartyList ?w q)" for q Q
      using that core_invite[OF c, of q Q] kept p by (auto simp: rest)
    show "distinct (invitePartyList ?w q)" for q
      using core_distinct[OF c] by (simp add: rest)
  qed
qed

text \<open>Updates that keep leaders and members and drop at most invitations of \<open>X\<close> keep the invariant.\<close>

definition same_people :: "u32 set \<Rightarrow> Party \<Rightarrow> Party \<Rightarrow> bool" where
  "same_people X pt pt' \<longleftrightarrow> leader pt' = leader pt \<and> memberList pt' = memberList pt \<and>
     (inviteList pt' = inviteList pt \<or> inviteList pt' = filter (\<lambda>i. i \<notin> X) (inviteList pt))"

definition similar :: "u32 set \<Rightarrow> World \<Rightarrow> World \<Rightarrow> bool" where
  "similar X w w' \<longleftrightarrow>
     party_of w' = party_of w \<and> invitePartyList w' = invitePartyList w \<and> live w' = live w \<and> nextParty w' = nextParty w \<and>
     (\<forall>Q pt. parties w Q = Some pt \<longrightarrow> (\<exists>pt'. parties w' Q = Some pt' \<and> same_people X pt pt')) \<and>
     (\<forall>Q. parties w Q = None \<longrightarrow> parties w' Q = None)"

lemma similarD: "similar X w w' \<Longrightarrow> parties w' Q = Some pt' \<Longrightarrow> \<exists>pt. parties w Q = Some pt \<and> same_people X pt pt'"
  unfolding similar_def by (metis option.distinct(1) option.exhaust option.inject)

lemma similarD2: "similar X w w' \<Longrightarrow> parties w Q = Some pt \<Longrightarrow> \<exists>pt'. parties w' Q = Some pt' \<and> same_people X pt pt'"
  by (simp add: similar_def)

lemma similar_rest: "similar X w w' \<Longrightarrow>
    party_of w' = party_of w \<and> invitePartyList w' = invitePartyList w \<and> live w' = live w \<and> nextParty w' = nextParty w"
  by (simp add: similar_def)

lemma similar_core:
  assumes c: "core X w" and s: "similar X w w'"
  shows "core X w'"
proof (rule coreI)
  note r = similar_rest[OF s]
  show "party_ok X w' Q pt" "Q < nextParty w'" if q: "parties w' Q = Some pt" for Q pt
    using similarD[OF s q] core_party[OF c, of Q]
    by (auto simp: party_ok_def r same_people_def split: option.splits)
  show "\<exists>pt. parties w' Q = Some pt \<and> (leader pt = Some p \<or> p \<in> set (memberList pt))"
    if pq: "party_of w' p = Some Q" for p Q
  proof -
    obtain pt where pt: "parties w Q = Some pt" "leader pt = Some p \<or> p \<in> set (memberList pt)"
      using core_member[OF c, of p Q] pq by (auto simp: r)
    then show ?thesis
      using similarD2[OF s pt(1)] by (auto simp: same_people_def)
  qed
  show "\<exists>pt. parties w' Q = Some pt \<and> p \<in> set (inviteList pt)"
    if pq: "p \<notin> X" "Q \<in> set (invitePartyList w' p)" for p Q
  proof -
    obtain pt where pt: "parties w Q = Some pt" "p \<in> set (inviteList pt)"
      using core_invite[OF c, of p Q] pq by (auto simp: r)
    then show ?thesis
      using similarD2[OF s pt(1)] pq by (auto simp: same_people_def)
  qed
  show "distinct (invitePartyList w' p)" for p
    using core_distinct[OF c] by (simp add: r)
qed

lemma same_people_refl: "same_people X pt pt"
  by (simp add: same_people_def)

lemma similar_upd:
  "(\<And>pt. parties w P = Some pt \<Longrightarrow> same_people X pt (f pt)) \<Longrightarrow> similar X w (upd_party P f w)"
  by (auto simp: similar_def upd_party_def same_people_refl)

lemma upd_invite_core:
  "core {p} w \<Longrightarrow> parties w P = Some pt \<Longrightarrow>
     core {p} (upd_party P (\<lambda>pt. pt\<lparr>inviteList := filter (\<lambda>i. i \<noteq> p) (inviteList pt)\<rparr>) w)"
  by (erule similar_core, rule similar_upd) (simp add: same_people_def)

lemma alive_core_upd: "core X w \<Longrightarrow> alive ((parties w)(Q := None)) (party_of w q) = (if party_of w q = Some Q then None else party_of w q)"
  using core_member[of X w q] by (auto simp: alive_def split: bind_splits)

lemma alive_some: "core X w \<Longrightarrow> ps Q \<noteq> None \<Longrightarrow> \<forall>R. R \<noteq> Q \<longrightarrow> ps R = parties w R \<Longrightarrow> alive ps (party_of w q) = party_of w q"
  using core_member[of X w q] by (cases "party_of w q") (auto simp: alive_def)

lemma withdraw_one:
  assumes c: "core X w" and pt: "parties w Q = Some pt"
  shows "withdraw p {Q} w = (case drop_invite p pt of
      None \<Rightarrow> w\<lparr>parties := (parties w)(Q := None), party_of := (\<lambda>q. if party_of w q = Some Q then None else party_of w q)\<rparr>
    | Some pt' \<Rightarrow> w\<lparr>parties := (parties w)(Q \<mapsto> pt')\<rparr>)"
proof -
  have ps: "(\<lambda>R. if R = Q then Option.bind (parties w R) (drop_invite p) else parties w R) = (parties w)(Q := drop_invite p pt)"
    using pt by (auto simp: fun_eq_iff)
  show ?thesis
  proof (cases "drop_invite p pt")
    case None
    then show ?thesis
      by (simp add: withdraw_def ps alive_core_upd[OF c])
  next
    case (Some pt')
    then show ?thesis
      using alive_some[OF c, of "(parties w)(Q \<mapsto> pt')" Q] by (simp add: withdraw_def ps)
  qed
qed

lemma disband_lonely:
  assumes c: "core {p} w" and pt: "parties w Q = Some pt" and ev: "accepts ev"
    and e: "party_empty (pt\<lparr>inviteList := filter (\<lambda>i. i \<noteq> p) (inviteList pt)\<rparr>)"
  shows "disband ev Q (upd_party Q (\<lambda>pt. pt\<lparr>inviteList := filter (\<lambda>i. i \<noteq> p) (inviteList pt)\<rparr>) w) =
    w\<lparr>parties := (parties w)(Q := None), party_of := (\<lambda>q. if party_of w q = Some Q then None else party_of w q)\<rparr>"
proof -
  have e': "filter (\<lambda>i. i \<noteq> p) (inviteList pt) = []"
    using e by (simp add: party_empty_def)
  show ?thesis
    using disband_effect[OF upd_invite_core[OF c pt] _ ev, of Q "pt\<lparr>inviteList := filter (\<lambda>i. i \<noteq> p) (inviteList pt)\<rparr>"] pt
    by (simp add: upd_party_def e' cong: if_cong)
qed

lemma removeInvite_withdraw:
  assumes c: "core {p} w" and pt: "parties w Q = Some pt" and ev: "accepts ev"
  shows "snd (removeInvite ev Q p False w) = withdraw p {Q} w"
proof -
  let ?f = "\<lambda>pt. pt\<lparr>inviteList := filter (\<lambda>i. i \<noteq> p) (inviteList pt)\<rparr>"
  have wo: "without w p (inviteList pt) = filter (\<lambda>i. i \<noteq> p) (inviteList pt)"
    using members_live[OF c pt] by (auto intro: without_live)
  have u: "upd_party Q (\<lambda>pt'. pt'\<lparr>inviteList := filter (\<lambda>i. i \<noteq> p) (inviteList pt)\<rparr>) w = w\<lparr>parties := (parties w)(Q \<mapsto> ?f pt)\<rparr>"
    using pt by (simp add: upd_party_def)
  have u2: "upd_party Q ?f w = w\<lparr>parties := (parties w)(Q \<mapsto> ?f pt)\<rparr>"
    using pt by (simp add: upd_party_def)
  have live: "p \<in> set (inviteList pt) \<Longrightarrow> p \<in> live w"
    using members_live[OF c pt] by blast
  show ?thesis
  proof (cases "p \<in> set (inviteList pt)")
    case True
    then show ?thesis
      using live disband_lonely[OF c pt ev]
      by (cases "party_empty (?f pt)")
         (simp_all add: removeInvite_def pt Let_def u withdraw_one[OF c pt] drop_invite_def wo u2)
  next
    case False
    then show ?thesis
      by (simp add: removeInvite_def pt Let_def u withdraw_one[OF c pt] drop_invite_def wo filter_absent)
         (simp add: upd_party_def pt)
  qed
qed

lemma withdraw_parties_None:
  assumes "parties w Q = None" and "core X w"
  shows "withdraw p {Q} w = w"
proof -
  have "(\<lambda>R. if R = Q then Option.bind (parties w R) (drop_invite p) else parties w R) = parties w"
    using assms(1) by (auto simp: fun_eq_iff)
  then show ?thesis
    using alive_core[OF assms(2)] by (simp add: withdraw_def)
qed

lemma fold_removeInvite:
  assumes ev: "accepts ev" and c: "core {p} w"
  shows "fold (\<lambda>Q w. if parties w Q = None then w else snd (removeInvite ev Q p False w)) Qs w = withdraw p (set Qs) w"
  using c
proof (induction Qs arbitrary: w)
  case Nil
  then show ?case by (simp add: withdraw_empty)
next
  case (Cons Q Qs)
  have "(if parties w Q = None then w else snd (removeInvite ev Q p False w)) = withdraw p {Q} w"
    using withdraw_parties_None[OF _ Cons.prems] removeInvite_withdraw[OF Cons.prems _ ev] by auto
  then show ?case
    using Cons.IH[OF withdraw_core[OF Cons.prems]] by (simp add: withdraw_Un)
qed

definition cleared :: "u32 \<Rightarrow> World \<Rightarrow> World" where
  "cleared p w = (withdraw p (set (invitePartyList w p)) w)\<lparr>invitePartyList := (invitePartyList w)(p := [])\<rparr>"

lemma clearPartyInvitations_cleared:
  "accepts ev \<Longrightarrow> core {p} w \<Longrightarrow> clearPartyInvitations ev p w = cleared p w"
  by (simp add: clearPartyInvitations_def fold_removeInvite cleared_def Let_def) (simp add: withdraw_def Let_def)

lemma cleared_simps:
  "invitePartyList (cleared p w) = (invitePartyList w)(p := [])" "live (cleared p w) = live w"
  "nextParty (cleared p w) = nextParty w"
  by (simp_all add: cleared_def withdraw_def Let_def)

lemma cleared_parties:
  assumes c: "core X w"
  shows "parties (cleared p w) Q = Option.bind (parties w Q) (drop_invite p)"
proof (cases "parties w Q")
  case (Some pt)
  have "p \<in> set (inviteList pt) \<Longrightarrow> Q \<in> set (invitePartyList w p)"
    using core_party[OF c Some] by (auto simp: party_ok_def)
  then show ?thesis
    using Some by (auto simp: cleared_def withdraw_def Let_def drop_invite_def)
qed (simp add: cleared_def withdraw_def Let_def)

lemma cleared_party_of:
  "party_of (cleared p w) q = Some Q \<longleftrightarrow> party_of w q = Some Q \<and> parties (cleared p w) Q \<noteq> None"
  by (auto simp: cleared_def withdraw_def Let_def alive_def bind_eq_Some_conv split: if_splits)

lemma cleared_core:
  assumes c: "core {p} w"
  shows "core {} (cleared p w)"
proof -
  have w: "core {p} (withdraw p (set (invitePartyList w p)) w)"
    using withdraw_core[OF c] by simp
  have noinv: "p \<notin> set (inviteList pt)" if "parties (cleared p w) Q = Some pt" for Q pt
    using that by (auto simp: cleared_parties[OF c] bind_eq_Some_conv dest: drop_inviteD)
  show ?thesis
  proof (rule coreI)
    show "party_ok {} (cleared p w) Q pt" "Q < nextParty (cleared p w)" if q: "parties (cleared p w) Q = Some pt" for Q pt
      using core_party[OF w, of Q pt] noinv[OF q] q
      by (auto simp: party_ok_def cleared_def withdraw_rest split: option.splits)
    show "\<exists>pt. parties (cleared p w) Q = Some pt \<and> (leader pt = Some q \<or> q \<in> set (memberList pt))"
      if "party_of (cleared p w) q = Some Q" for q Q
      using core_member[OF w, of q Q] that by (simp add: cleared_def)
    show "\<exists>pt. parties (cleared p w) Q = Some pt \<and> q \<in> set (inviteList pt)"
      if "q \<notin> {}" "Q \<in> set (invitePartyList (cleared p w) q)" for q Q
      using core_invite[OF w, of q Q] that by (auto simp: cleared_def withdraw_def Let_def split: if_splits)
    show "distinct (invitePartyList (cleared p w) q)" for q
      using core_distinct[OF c] by (simp add: cleared_simps)
  qed
qed

lemma cleared_lonely:
  assumes c: "core X w"
  shows "lonely (cleared p w) \<subseteq> lonely w"
proof
  fix Q assume "Q \<in> lonely (cleared p w)"
  then obtain pt pt' where "parties w Q = Some pt'" "drop_invite p pt' = Some pt" "party_empty pt"
    by (auto simp: lonely_def cleared_parties[OF c] bind_eq_Some_conv)
  then show "Q \<in> lonely w"
    by (auto simp: drop_invite_def lonely_def Let_def split: if_splits)
qed

section \<open>Preservation of the invariant\<close>

subsection \<open>Shared experience\<close>

text \<open>The bookkeeping of shared experience touches one party and nobody's membership.\<close>

definition touched :: "pid \<Rightarrow> World \<Rightarrow> World \<Rightarrow> bool" where
  "touched P w w' \<longleftrightarrow>
     (case parties w P of None \<Rightarrow> w' = w
      | Some pt \<Rightarrow> \<exists>pt'. same_people {} pt pt' \<and> w' = w\<lparr>parties := (parties w)(P \<mapsto> pt')\<rparr>)"

lemma touched_upd: "(\<And>pt. parties w P = Some pt \<Longrightarrow> same_people {} pt (f pt)) \<Longrightarrow> touched P w (upd_party P f w)"
  by (auto simp: touched_def upd_party_def fun_upd_idem split: option.splits)

lemma touched_trans: "touched P w w' \<Longrightarrow> touched P w' w'' \<Longrightarrow> touched P w w''"
  by (auto simp: touched_def same_people_def split: option.splits)

lemma touched_refl: "touched P w w"
  by (cases "parties w P") (auto simp: touched_def same_people_refl fun_upd_idem intro!: exI[of _ "the (parties w P)"])

lemma updateSharedExperience_touched: "touched P w (updateSharedExperience env P w)"
  unfolding updateSharedExperience_def by (rule touched_upd) (simp add: same_people_def)

lemma clearPlayerPoints_touched: "touched P w (clearPlayerPoints env P p w)"
proof (cases "parties w P")
  case (Some pt)
  have "touched P w (upd_party P (\<lambda>pt. pt\<lparr>ticksMap := (ticksMap pt)(p := None)\<rparr>) w)"
    by (rule touched_upd) (simp add: same_people_def)
  then show ?thesis
    using touched_trans[OF _ updateSharedExperience_touched] by (simp add: clearPlayerPoints_def Some touched_refl)
qed (simp add: clearPlayerPoints_def touched_def)

lemma setSharedExperience_touched: "touched P w (snd (setSharedExperience env P p act w))"
  by (auto simp: setSharedExperience_def touched_refl Let_def same_people_def split: option.split intro!: touched_upd)

lemma updatePlayerTicks_touched: "touched P w (updatePlayerTicks env P p points w)"
proof -
  have "touched P w (upd_party P (\<lambda>pt. pt\<lparr>ticksMap := (ticksMap pt)(p \<mapsto> otsysTime env)\<rparr>) w)"
    by (rule touched_upd) (simp add: same_people_def)
  then show ?thesis
    using touched_trans[OF _ updateSharedExperience_touched] by (simp add: updatePlayerTicks_def touched_refl)
qed

lemma touched_similar: "touched P w w' \<Longrightarrow> similar {} w w'"
  by (auto simp: touched_def similar_def same_people_refl split: option.splits)

lemma touched_core: "touched P w w' \<Longrightarrow> core {} w \<Longrightarrow> core {} w'"
  using similar_core touched_similar by blast

lemma touched_lonely: "touched P w w' \<Longrightarrow> lonely w' = lonely w"
  by (auto simp: touched_def lonely_def same_people_def party_empty_def split: option.splits if_splits)

lemma touched_ok: "touched P w w' \<Longrightarrow> world_ok w \<Longrightarrow> world_ok w'"
  by (simp add: world_ok_def touched_core touched_lonely)

subsection \<open>Founding a party and inviting\<close>

lemma create_core:
  assumes c: "core {} w" and l: "l \<in> live w" "party_of w l = None"
  shows "core {} (snd (create l w))"
proof -
  have new: "parties w (nextParty w) = None"
    using core_party[OF c, of "nextParty w"] by fastforce
  have fresh: "party_of w q \<noteq> Some (nextParty w)" for q
    using core_member[OF c, of q "nextParty w"] new by auto
  show ?thesis
  proof (rule coreI, goal_cases)
    case (1 P pt)
    then show ?case
      using core_party[OF c, of P pt] l fresh
      by (auto simp: create_def Let_def setParty_def party_ok_def split: if_splits option.splits)
  next
    case (2 P pt)
    then show ?case
      using core_party[OF c, of P pt] by (auto simp: create_def Let_def setParty_def split: if_splits)
  next
    case (3 p P)
    then show ?case
      using core_member[OF c, of p P] new by (auto simp: create_def Let_def setParty_def split: if_splits)
  next
    case (4 p Q)
    then show ?case
      using core_invite[OF c, of p Q] new by (auto simp: create_def Let_def setParty_def split: if_splits)
  next
    case (5 p)
    then show ?case
      using core_distinct[OF c] by (simp add: create_def Let_def setParty_def)
  qed
qed

lemma create_lonely: "lonely (snd (create l w)) \<subseteq> insert (fst (create l w)) (lonely w)"
  by (auto simp: lonely_def create_def Let_def setParty_def)

lemma create_party:
  "parties (snd (create l w)) (fst (create l w)) =
     Some \<lparr>leader = Some l, memberList = [], inviteList = [], sharedExpActive = False, sharedExpEnabled = False, ticksMap = Map.empty\<rparr>"
  "live (snd (create l w)) = live w"
  "party_of (snd (create l w)) = (party_of w)(l \<mapsto> fst (create l w))"
  by (simp_all add: create_def Let_def setParty_def)

lemma invitePlayer_effect:
  assumes c: "core {} w" and pt: "parties w P = Some pt" and p: "p \<in> live w" "p \<notin> set (inviteList pt)"
  shows "snd (invitePlayer P p w) = w\<lparr>parties := (parties w)(P \<mapsto> pt\<lparr>inviteList := inviteList pt @ [p]\<rparr>),
     invitePartyList := (invitePartyList w)(p := P # invitePartyList w p)\<rparr>"
proof -
  have "P \<notin> set (invitePartyList w p)"
    using core_invite[OF c, of p P] pt p by auto
  moreover have "lock_player w (leader pt) \<noteq> None"
    using lock_leader[OF c pt] core_leader[OF c pt] by (metis option.distinct(1))
  ultimately show ?thesis
    using pt p by (auto simp: invitePlayer_def isPlayerInvited_def addPartyInvitation_def upd_party_def)
qed

lemma invitePlayer_core:
  assumes c: "core {} w" and pt: "parties w P = Some pt"
    and p: "p \<in> live w" "p \<notin> set (inviteList pt)" "party_of w p \<noteq> Some P"
  shows "core {} (snd (invitePlayer P p w))"
proof -
  have fresh: "P \<notin> set (invitePartyList w p)"
    using core_invite[OF c, of p P] pt p by auto
  note E = invitePlayer_effect[OF c pt p(1,2)]
  show ?thesis
  proof (rule coreI, goal_cases)
    case (1 Q qt)
    then show ?case
      using core_party[OF c, of Q] pt p by (auto simp: E party_ok_def split: if_splits option.splits)
  next
    case (2 Q qt)
    then show ?case
      using core_party[OF c, of Q] pt by (auto simp: E split: if_splits)
  next
    case (3 q Q)
    then show ?case
      using core_member[OF c, of q Q] pt by (auto simp: E split: if_splits)
  next
    case (4 q Q)
    then show ?case
      using core_invite[OF c, of q Q] pt by (auto simp: E split: if_splits)
  next
    case (5 q)
    then show ?case
      using core_distinct[OF c] fresh by (simp add: E)
  qed
qed

lemma invitePlayer_lonely:
  assumes "core {} w" and "parties w P = Some pt" and "p \<in> live w" and "p \<notin> set (inviteList pt)"
  shows "lonely (snd (invitePlayer P p w)) \<subseteq> lonely w - {P}"
  by (auto simp: invitePlayer_effect[OF assms] lonely_def party_empty_def split: if_splits)

subsection \<open>Leadership and leaving\<close>

text \<open>The party with its leader and members replaced.\<close>

definition reseat :: "pid \<Rightarrow> u32 \<Rightarrow> u32 list \<Rightarrow> World \<Rightarrow> World" where
  "reseat P l ms w = upd_party P (\<lambda>pt. pt\<lparr>memberList := ms, leader := Some l\<rparr>) w"

text \<open>Someone may be missing from the new seats, if also the pointer to the party is reset.\<close>

lemma reseat_core:
  assumes c: "core {} w" and pt: "parties w P = Some pt"
    and seats: "\<And>q. q = l \<or> q \<in> set ms \<longleftrightarrow> party_of w q = Some P \<and> q \<notin> gone" and d: "distinct (l # ms)"
  shows "core {} ((reseat P l ms w)\<lparr>party_of := (\<lambda>q. if party_of w q = Some P \<and> q \<in> gone then None else party_of w q)\<rparr>)"
proof -
  have live: "q \<in> live w" if "party_of w q = Some P" for q
    using core_party[OF c pt] core_member[OF c that] pt by (auto simp: party_ok_def split: option.splits)
  have E: "reseat P l ms w = w\<lparr>parties := (parties w)(P \<mapsto> pt\<lparr>memberList := ms, leader := Some l\<rparr>)\<rparr>"
    using pt by (simp add: reseat_def upd_party_def)
  have l: "party_of w l = Some P" "l \<notin> gone"
    using seats[of l] by auto
  have m: "party_of w q = Some P" "q \<notin> gone" if "q \<in> set ms" for q
    using seats[of q] that by auto
  show ?thesis
  proof (rule coreI, goal_cases)
    case (1 Q qt)
    then show ?case
      using core_party[OF c, of Q] pt l m live d
      by (auto simp: E party_ok_def split: if_splits option.splits)
  next
    case (2 Q qt)
    then show ?case
      using core_party[OF c, of Q] pt by (auto simp: E split: if_splits)
  next
    case (3 q Q)
    then show ?case
      using core_member[OF c, of q Q] pt seats[of q] by (auto simp: E split: if_splits)
  next
    case (4 q Q)
    then show ?case
      using core_invite[OF c, of q Q] pt by (auto simp: E split: if_splits)
  next
    case (5 q)
    then show ?case
      using core_distinct[OF c] by (simp add: E)
  qed
qed

lemma reseat_same:
  assumes c: "core {} w" and pt: "parties w P = Some pt"
    and seats: "\<And>q. q = l \<or> q \<in> set ms \<longleftrightarrow> party_of w q = Some P" and d: "distinct (l # ms)"
  shows "core {} (reseat P l ms w)"
  using reseat_core[OF c pt, of l ms "{}"] seats d by (simp add: reseat_def upd_party_def)

lemma pass_effect:
  assumes c: "core {} w" and pt: "parties w P = Some pt" and l: "leader pt = Some l"
    and p: "party_of w p = Some P" "p \<noteq> l" and ev: "onPassLeadership ev P p \<or> force"
  shows "touched P (reseat P p (l # filter (\<lambda>m. m \<noteq> p) (memberList pt)) w) (snd (passPartyLeadership ev env P p force w))"
    "fst (passPartyLeadership ev env P p force w)"
proof -
  have "without w p (memberList pt) = filter (\<lambda>m. m \<noteq> p) (memberList pt)"
    using members_live[OF c pt] by (simp add: without_live)
  then have "passPartyLeadership ev env P p force w = (True, updateSharedExperience env P
       (reseat P p (l # filter (\<lambda>m. m \<noteq> p) (memberList pt)) w))"
    using lock_leader[OF c pt] pt l p ev getParty_core[OF c]
    by (auto simp: passPartyLeadership_def Let_def reseat_def upd_party_def)
  then show "touched P (reseat P p (l # filter (\<lambda>m. m \<noteq> p) (memberList pt)) w) (snd (passPartyLeadership ev env P p force w))"
    "fst (passPartyLeadership ev env P p force w)"
    by (simp_all add: updateSharedExperience_touched)
qed

lemma pass_refused:
  assumes c: "core {} w" and "\<not> (party_of w p = Some P \<and> leader (the (parties w P)) \<noteq> Some p \<and> (onPassLeadership ev P p \<or> force))"
  shows "passPartyLeadership ev env P p force w = (False, w)"
proof (cases "parties w P")
  case (Some pt)
  then show ?thesis
    using assms(2) lock_leader[OF c Some] getParty_core[OF c, of p] by (auto simp: passPartyLeadership_def Let_def)
qed (simp add: passPartyLeadership_def)

lemma pass_ok:
  assumes w: "world_ok w"
  shows "world_ok (snd (passPartyLeadership ev env P p force w))"
proof (cases "party_of w p = Some P \<and> leader (the (parties w P)) \<noteq> Some p \<and> (onPassLeadership ev P p \<or> force)")
  case True
  have c: "core {} w"
    using w by (simp add: world_ok_def)
  obtain pt where pt: "parties w P = Some pt"
    using core_member[OF c] True by blast
  obtain l where l: "leader pt = Some l" "party_of w l = Some P" "l \<notin> set (memberList pt)"
      and q: "\<And>q. party_of w q = Some P \<longleftrightarrow> q = l \<or> q \<in> set (memberList pt)"
    using core_leader[OF c pt] by metis
  let ?ms = "l # filter (\<lambda>m. m \<noteq> p) (memberList pt)"
  have "core {} (reseat P p ?ms w)"
    using core_party[OF c pt] q True l pt by (intro reseat_same[OF c pt]) (auto simp: party_ok_def)
  moreover have "lonely (reseat P p ?ms w) \<subseteq> lonely w"
    by (auto simp: lonely_def reseat_def upd_party_def party_empty_def pt split: if_splits)
  moreover have "p \<noteq> l"
    using True l pt by auto
  ultimately show ?thesis
    using touched_ok[OF pass_effect(1)[OF c pt l(1)]] True w by (simp add: world_ok_def)
next
  case False
  then show ?thesis
    using pass_refused[of w p P ev force env] w by (simp add: world_ok_def)
qed

text \<open>The state in which \<open>leaveParty\<close> decides whether the party goes on.\<close>

definition left_party :: "pid \<Rightarrow> u32 \<Rightarrow> u32 \<Rightarrow> u32 list \<Rightarrow> World \<Rightarrow> World" where
  "left_party P p l ms w = (reseat P l ms w)\<lparr>party_of := (party_of w)(p := None)\<rparr>"

definition heirs :: "u32 \<Rightarrow> Party \<Rightarrow> u32 list" where
  "heirs p pt = filter (\<lambda>m. m \<noteq> p) (memberList pt)"

definition dissolves :: "u32 \<Rightarrow> Party \<Rightarrow> bool" where
  "dissolves p pt \<longleftrightarrow> (if leader pt = Some p then heirs p pt = [] \<or> (length (heirs p pt) = 1 \<and> inviteList pt = [])
      else heirs p pt = [] \<and> inviteList pt = [])"

definition go_on :: "pid \<Rightarrow> u32 \<Rightarrow> Party \<Rightarrow> World \<Rightarrow> World" where
  "go_on P p pt w =
     (if leader pt = Some p then left_party P p (hd (heirs p pt)) (tl (heirs p pt)) w
      else left_party P p (the (leader pt)) (heirs p pt) w)"

lemma touched_left:
  assumes "touched P (reseat P l (p # ms) w) w'" and pt: "parties w P = Some pt" and ms: "set (p # ms) \<subseteq> live w" "p \<notin> set ms"
  shows "touched P (left_party P p l ms w)
    (setParty p None (upd_party P (\<lambda>pt. pt\<lparr>memberList := without w' p (memberList pt)\<rparr>) w'))"
proof -
  obtain pt' where "w' = w\<lparr>parties := (parties w)(P \<mapsto> pt')\<rparr>" "leader pt' = Some l" "memberList pt' = p # ms"
      "inviteList pt' = inviteList pt"
    using assms(1) pt by (auto simp: touched_def reseat_def upd_party_def same_people_def)
  then show ?thesis
    using ms pt
    by (auto simp: touched_def left_party_def reseat_def upd_party_def setParty_def same_people_def without_live filter_absent
        intro!: exI[of _ "pt'\<lparr>memberList := ms\<rparr>"])
qed

lemma touched_left_member:
  assumes c: "core {} w" and pt: "parties w P = Some pt" and l: "leader pt = Some l"
  shows "touched P (left_party P p l (heirs p pt) w)
    (setParty p None (upd_party P (\<lambda>pt. pt\<lparr>memberList := without w p (memberList pt)\<rparr>) w))"
  using members_live[OF c pt] pt l
  by (auto simp: touched_def left_party_def reseat_def upd_party_def setParty_def same_people_def without_live heirs_def
      intro!: exI[of _ "pt\<lparr>memberList := filter (\<lambda>m. m \<noteq> p) (memberList pt)\<rparr>"])

lemma disband_left:
  assumes c: "core {} w" and pt: "parties w P = Some pt" and ev: "accepts ev" and p: "party_of w p = Some P"
    and t: "touched P (left_party P p l ms w) w'"
    and l: "party_of w l = Some P" and ms: "\<And>q. q \<in> set ms \<Longrightarrow> party_of w q = Some P"
    and all: "\<And>q. party_of w q = Some P \<Longrightarrow> q = l \<or> q = p \<or> q \<in> set ms"
  shows "disband ev P w' = disband ev P w"
proof -
  have live: "q \<in> live w" if "party_of w q = Some P" for q
    using core_party[OF c pt] core_member[OF c that] pt by (auto simp: party_ok_def split: option.splits)
  obtain pt' where w': "w' = w\<lparr>party_of := (party_of w)(p := None), parties := (parties w)(P \<mapsto> pt')\<rparr>"
      and pt': "leader pt' = Some l" "memberList pt' = ms" "inviteList pt' = inviteList pt"
    using t pt by (auto simp: touched_def left_party_def reseat_def upd_party_def same_people_def)
  have "disband ev P w' = w'\<lparr>
     party_of := (\<lambda>q. if q = l \<or> q \<in> set ms then None else party_of w' q),
     invitePartyList := (\<lambda>i. if i \<in> set (inviteList pt)
        then filter (\<lambda>Q. parties w' Q \<noteq> None \<and> Q \<noteq> P) (invitePartyList w' i) else invitePartyList w' i),
     parties := (parties w')(P := None)\<rparr>"
    using disband_raw[of w' P pt' ev l] w' pt' ev live[OF l] live[OF ms] members_live[OF c pt] by (auto simp: subset_iff)
  moreover have "(\<lambda>q. if q = l \<or> q \<in> set ms then None else party_of w' q) = (\<lambda>q. if party_of w q = Some P then None else party_of w q)"
    using l ms all p by (auto simp: w' fun_eq_iff)
  moreover have "filter (\<lambda>Q. parties w' Q \<noteq> None \<and> Q \<noteq> P) xs = filter (\<lambda>Q. parties w Q \<noteq> None \<and> Q \<noteq> P) xs" for xs
    by (rule filter_cong) (auto simp: w')
  ultimately show ?thesis
    by (simp add: disband_effect[OF c pt ev]) (simp add: w' cong: if_cong)
qed

text \<open>The part of \<open>leaveParty\<close> after the choice of a new leader.\<close>

definition leave_tail :: "Events \<Rightarrow> Env \<Rightarrow> pid \<Rightarrow> u32 \<Rightarrow> bool \<times> World \<Rightarrow> World" where
  "leave_tail ev env P p r =
     (let w = snd r;
          w = clearPlayerPoints env P p (updateSharedExperience env P (setParty p None
                (upd_party P (\<lambda>pt. pt\<lparr>memberList := without w p (memberList pt)\<rparr>) w)))
      in if fst r \<or> (case parties w P of None \<Rightarrow> True | Some pt \<Rightarrow> party_empty pt) then disband ev P w else w)"

lemma leave_tail_touched:
  assumes pt: "parties w P = Some pt"
    and t: "touched P (left_party P p l ms w)
      (setParty p None (upd_party P (\<lambda>pt. pt\<lparr>memberList := without w' p (memberList pt)\<rparr>) w'))"
  obtains w2 where "touched P (left_party P p l ms w) w2"
    and "leave_tail ev env P p (miss, w') = (if miss \<or> (ms = [] \<and> inviteList pt = []) then disband ev P w2 else w2)"
proof -
  let ?w2 = "clearPlayerPoints env P p (updateSharedExperience env P
      (setParty p None (upd_party P (\<lambda>pt. pt\<lparr>memberList := without w' p (memberList pt)\<rparr>) w')))"
  have t2: "touched P (left_party P p l ms w) ?w2"
    using touched_trans[OF touched_trans[OF t updateSharedExperience_touched] clearPlayerPoints_touched] .
  have "(case parties ?w2 P of None \<Rightarrow> True | Some pt \<Rightarrow> party_empty pt) = (ms = [] \<and> inviteList pt = [])"
    using t2 pt by (auto simp: touched_def left_party_def reseat_def upd_party_def same_people_def party_empty_def)
  with that[OF t2] show ?thesis
    by (simp add: leave_tail_def Let_def)
qed

lemma leaveParty_tail:
  assumes c: "core {} w" and pt: "parties w P = Some pt" and p: "party_of w p = Some P" and a: "force \<or> onLeave ev P p"
  shows "leaveParty ev env P p force w = (True, leave_tail ev env P p
     (if leader pt = Some p
      then if heirs p pt = [] \<or> (length (heirs p pt) = 1 \<and> inviteList pt = []) then (True, w)
           else (False, snd (passPartyLeadership ev env P (hd (heirs p pt)) True w))
      else (False, w)))"
proof -
  obtain l where l: "leader pt = Some l" "l \<notin> set (memberList pt)"
    using core_leader[OF c pt] by metis
  have wo: "without w p (memberList pt) = heirs p pt"
    using members_live[OF c pt] by (simp add: without_live heirs_def)
  have "lock_player w (Some l) = Some l"
    using lock_leader[OF c pt] l by simp
  moreover have "memberList pt = [] \<Longrightarrow> heirs p pt = []"
    by (simp add: heirs_def)
  ultimately show ?thesis
    using a p l by (auto simp: leaveParty_def pt getParty_core[OF c] leave_tail_def Let_def wo)
qed

lemma leader_leaves:
  assumes c: "core {} w" and pt: "parties w P = Some pt" and ev: "accepts ev" and a: "force \<or> onLeave ev P p"
    and l: "leader pt = Some p"
  shows "if dissolves p pt then snd (leaveParty ev env P p force w) = disband ev P w
    else touched P (go_on P p pt w) (snd (leaveParty ev env P p force w))"
proof -
  have p: "party_of w p = Some P" "p \<notin> set (memberList pt)" "p \<in> live w"
      and q: "\<And>q. party_of w q = Some P \<longleftrightarrow> q = p \<or> q \<in> set (memberList pt)"
    using core_leader[OF c pt] l by (metis option.inject)+
  have h: "heirs p pt = memberList pt"
    using p by (simp add: heirs_def filter_absent)
  have d: "distinct (memberList pt)"
    using core_party[OF c pt] by (simp add: party_ok_def)
  note T = leaveParty_tail[OF c pt p(1) a, of env]
  show ?thesis
  proof (cases "dissolves p pt")
    case True
    obtain w2 where w2: "touched P (left_party P p p (heirs p pt) w) w2"
        "leave_tail ev env P p (True, w) = disband ev P w2"
      using leave_tail_touched[OF pt touched_left_member[OF c pt l, of p], of ev env True] by auto
    have "disband ev P w2 = disband ev P w"
      using q by (intro disband_left[OF c pt ev p(1) w2(1) p(1)]) (auto simp: h)
    then show ?thesis
      using True w2 by (auto simp: T l dissolves_def)
  next
    case False
    then obtain n ns where ns: "memberList pt = n # ns" "n \<noteq> p" "ns \<noteq> [] \<or> inviteList pt \<noteq> []"
      using l p(2) by (cases "memberList pt") (auto simp: dissolves_def h)
    have n: "party_of w n = Some P" "filter (\<lambda>m. m \<noteq> n) (memberList pt) = ns"
      using q[of n] ns d by (auto simp: filter_absent)
    have t: "touched P (reseat P n (p # ns) w) (snd (passPartyLeadership ev env P n True w))"
      using pass_effect(1)[OF c pt l n(1), of ev True env] ns(2) n(2) by simp
    have live: "set (p # ns) \<subseteq> live w" "p \<notin> set ns"
      using members_live[OF c pt] p ns by auto
    obtain w2 where w2: "touched P (left_party P p n ns w) w2"
        "leave_tail ev env P p (False, snd (passPartyLeadership ev env P n True w)) =
          (if False \<or> (ns = [] \<and> inviteList pt = []) then disband ev P w2 else w2)"
      by (rule leave_tail_touched[OF pt touched_left[OF t pt live], of ev env False])
    then show ?thesis
      using False ns(3) by (auto simp: T l dissolves_def h ns go_on_def)
  qed
qed

lemma member_leaves:
  assumes c: "core {} w" and pt: "parties w P = Some pt" and ev: "accepts ev" and a: "force \<or> onLeave ev P p"
    and p: "party_of w p = Some P" and np: "leader pt \<noteq> Some p"
  shows "if dissolves p pt then snd (leaveParty ev env P p force w) = disband ev P w
    else touched P (go_on P p pt w) (snd (leaveParty ev env P p force w))"
proof -
  obtain l where l: "leader pt = Some l" "party_of w l = Some P"
      and q: "\<And>q. party_of w q = Some P \<longleftrightarrow> q = l \<or> q \<in> set (memberList pt)"
    using core_leader[OF c pt] by metis
  note T = leaveParty_tail[OF c pt p a, of env]
  obtain w2 where w2: "touched P (left_party P p l (heirs p pt) w) w2"
      "leave_tail ev env P p (False, w) = (if heirs p pt = [] \<and> inviteList pt = [] then disband ev P w2 else w2)"
    using leave_tail_touched[OF pt touched_left_member[OF c pt l(1), of p], of ev env False] by auto
  have "disband ev P w2 = disband ev P w"
    using q l by (intro disband_left[OF c pt ev p w2(1) l(2)]) (auto simp: heirs_def)
  then show ?thesis
    using w2 np l by (simp add: T dissolves_def go_on_def)
qed

lemma leaveParty_effect:
  assumes "core {} w" and "parties w P = Some pt" and "accepts ev" and "force \<or> onLeave ev P p"
    and "party_of w p = Some P"
  shows "if dissolves p pt then snd (leaveParty ev env P p force w) = disband ev P w
    else touched P (go_on P p pt w) (snd (leaveParty ev env P p force w))"
  using leader_leaves[OF assms(1-4)] member_leaves[OF assms] by blast

lemma left_party_core:
  assumes c: "core {} w" and pt: "parties w P = Some pt" and p: "party_of w p = Some P"
    and seats: "\<And>q. q = l \<or> q \<in> set ms \<longleftrightarrow> party_of w q = Some P \<and> q \<noteq> p" and d: "distinct (l # ms)"
  shows "core {} (left_party P p l ms w)"
proof -
  have "(\<lambda>q. if party_of w q = Some P \<and> q \<in> {p} then None else party_of w q) = (party_of w)(p := None)"
    using p by (auto simp: fun_eq_iff)
  then show ?thesis
    using reseat_core[OF c pt, of l ms "{p}"] seats d by (simp add: left_party_def)
qed

lemma go_on_core:
  assumes c: "core {} w" and pt: "parties w P = Some pt" and p: "party_of w p = Some P" and nd: "\<not> dissolves p pt"
  shows "core {} (go_on P p pt w)"
proof -
  obtain l where l: "leader pt = Some l" "l \<notin> set (memberList pt)"
      and q: "\<And>q. party_of w q = Some P \<longleftrightarrow> q = l \<or> q \<in> set (memberList pt)"
    using core_leader[OF c pt] by metis
  have d: "distinct (memberList pt)"
    using core_party[OF c pt] by (simp add: party_ok_def)
  show ?thesis
  proof (cases "l = p")
    case True
    then obtain n ns where ns: "memberList pt = n # ns" "n \<noteq> p" "heirs p pt = n # ns"
      using nd l by (cases "memberList pt") (auto simp: dissolves_def heirs_def filter_absent)
    then have "core {} (left_party P p n ns w)"
      using q d l True by (intro left_party_core[OF c pt p]) auto
    then show ?thesis
      using True l ns by (simp add: go_on_def)
  next
    case False
    then have "core {} (left_party P p l (heirs p pt) w)"
      using q d l by (intro left_party_core[OF c pt p]) (auto simp: heirs_def)
    then show ?thesis
      using False l by (simp add: go_on_def)
  qed
qed

lemma go_on_lonely:
  assumes "parties w P = Some pt" and "\<not> dissolves p pt"
  shows "lonely (go_on P p pt w) \<subseteq> lonely w"
  using assms by (auto simp: lonely_def go_on_def left_party_def reseat_def upd_party_def party_empty_def dissolves_def
      length_Suc_conv neq_Nil_conv split: if_splits)

lemma leaveParty_ok:
  assumes w: "world_ok w" and ev: "accepts ev"
  shows "world_ok (snd (leaveParty ev env P p force w))"
proof (cases "party_of w p = Some P \<and> (force \<or> onLeave ev P p)")
  case True
  have c: "core {} w"
    using w by (simp add: world_ok_def)
  obtain pt where pt: "parties w P = Some pt"
    using core_member[OF c] True by blast
  have a: "force \<or> onLeave ev P p" and p: "party_of w p = Some P"
    using True by auto
  show ?thesis
  proof (cases "dissolves p pt")
    case True
    then show ?thesis
      using leaveParty_effect[OF c pt ev a p, of env] disband_core[OF c pt ev] lonely_disband[OF c pt ev] w
      by (simp add: world_ok_def)
  next
    case False
    have "world_ok (go_on P p pt w)"
      using go_on_core[OF c pt p False] go_on_lonely[OF pt False] w by (auto simp: world_ok_def)
    then show ?thesis
      using leaveParty_effect[OF c pt ev a p, of env] False touched_ok by auto
  qed
next
  case False
  have c: "core {} w"
    using w by (simp add: world_ok_def)
  have "leaveParty ev env P p force w = (False, w)"
  proof (cases "parties w P")
    case (Some pt)
    obtain l where l: "leader pt = Some l" "party_of w l = Some P"
      using core_leader[OF c Some] by metis
    have L: "lock_player w (Some l) = Some l"
      using lock_leader[OF c Some] l by simp
    show ?thesis
    proof (cases "party_of w p = Some P")
      case True
      then show ?thesis
        using False l L by (simp add: leaveParty_def Let_def Some getParty_core[OF c])
    next
      case False
      then have "l \<noteq> p"
        using l by auto
      then show ?thesis
        using False l L by (simp add: leaveParty_def Let_def Some getParty_core[OF c])
    qed
  qed (simp add: leaveParty_def)
  then show ?thesis
    using w by simp
qed

subsection \<open>Joining and revoking\<close>

definition enrolled :: "pid \<Rightarrow> u32 \<Rightarrow> World \<Rightarrow> World" where
  "enrolled P p w = setParty p (Some P) (upd_party P (\<lambda>pt. pt\<lparr>memberList := memberList pt @ [p]\<rparr>) w)"

lemma enrolled_core:
  assumes c: "core {} w" and pt: "parties w P = Some pt" and p: "p \<in> live w" "party_of w p = None"
  shows "core {p} (enrolled P p w)"
proof -
  have E: "enrolled P p w = w\<lparr>parties := (parties w)(P \<mapsto> pt\<lparr>memberList := memberList pt @ [p]\<rparr>), party_of := (party_of w)(p \<mapsto> P)\<rparr>"
    using pt by (simp add: enrolled_def setParty_def upd_party_def)
  have lp: "leader pt \<noteq> Some p" "p \<notin> set (memberList pt)"
    using core_party[OF c pt] p by (auto simp: party_ok_def)
  have other: "leader qt \<noteq> Some p" if "parties w Q = Some qt" for Q qt
    using core_party[OF c that] p by (auto simp: party_ok_def)
  show ?thesis
  proof (rule coreI, goal_cases)
    case (1 Q qt)
    then show ?case
      using core_party[OF c, of Q] pt p lp other by (auto simp: E party_ok_def split: if_splits option.splits)
  next
    case (2 Q qt)
    then show ?case
      using core_party[OF c, of Q] pt by (auto simp: E split: if_splits)
  next
    case (3 q Q)
    then show ?case
      using core_member[OF c, of q Q] pt by (auto simp: E split: if_splits)
  next
    case (4 q Q)
    then show ?case
      using core_invite[OF c, of q Q] pt by (auto simp: E split: if_splits)
  next
    case (5 q)
    then show ?case
      using core_distinct[OF c] by (simp add: E)
  qed
qed

lemma enrolled_lonely: "lonely (enrolled P p w) \<subseteq> lonely w"
  by (auto simp: lonely_def enrolled_def setParty_def upd_party_def party_empty_def split: if_splits)

lemma joinParty_effect:
  assumes c: "core {} w" and pt: "parties w P = Some pt" and l: "leader pt = Some l"
    and ev: "accepts ev" "onJoin ev P p" and p: "p \<in> live w" "party_of w p = None"
  obtains w1 where "core {} w1" "lonely w1 \<subseteq> lonely w" "parties w1 P = Some pt" "party_of w1 p = None"
    "live w1 = live w" "w1 = (if memberList pt = [] then cleared l w else w)"
    and "touched P (cleared p (enrolled P p w1)) (snd (joinParty ev env P p w))"
proof -
  define w1 where "w1 = (if memberList pt = [] then cleared l w else w)"
  have pl: "party_of w l = Some P"
    using core_leader[OF c pt] l by (metis option.inject)
  have nl: "l \<notin> set (inviteList pt)"
    using core_party[OF c pt] pl by (auto simp: party_ok_def)
  have w1: "core {} w1" "lonely w1 \<subseteq> lonely w" "live w1 = live w"
    using c cleared_core[OF core_mono[OF c]] cleared_lonely[OF c] by (auto simp: w1_def cleared_simps)
  have pt1: "parties w1 P = Some pt"
    using pt nl by (simp add: w1_def cleared_parties[OF c] drop_invite_def)
  have p1: "party_of w1 p = None"
    using p cleared_party_of[of l w p] by (cases "party_of (cleared l w) p") (auto simp: w1_def)
  have ec: "core {p} (enrolled P p w1)"
    using enrolled_core[OF w1(1) pt1 _ p1] p w1 by simp
  have noop: "removePartyInvitation p P (cleared p (enrolled P p w1)) = cleared p (enrolled P p w1)"
    by (simp add: removePartyInvitation_def cleared_simps fun_upd_idem)
  have "lock_player w (Some l) = Some l"
    using lock_leader[OF c pt] l by simp
  moreover have "(if memberList pt = [] then clearPartyInvitations ev l w else w) = w1"
    by (simp add: w1_def clearPartyInvitations_cleared[OF ev(1) core_mono[OF c]])
  ultimately have "snd (joinParty ev env P p w) = updateSharedExperience env P (cleared p (enrolled P p w1))"
    using ev l by (simp add: joinParty_def pt Let_def clearPartyInvitations_cleared[OF ev(1) ec] noop flip: enrolled_def)
  then have "touched P (cleared p (enrolled P p w1)) (snd (joinParty ev env P p w))"
    by (simp add: updateSharedExperience_touched)
  with that w1 pt1 p1 w1_def show ?thesis by blast
qed

lemma joinParty_ok:
  assumes w: "world_ok w" and ev: "accepts ev" and p: "p \<in> live w" "party_of w p = None"
  shows "world_ok (snd (joinParty ev env P p w))"
proof (cases "parties w P")
  case (Some pt)
  have c: "core {} w" and lw: "lonely w = {}"
    using w by (simp_all add: world_ok_def)
  obtain l where l: "leader pt = Some l"
    using core_leader[OF c Some] by metis
  show ?thesis
  proof (cases "onJoin ev P p")
    case True
    obtain w1 where w1: "core {} w1" "lonely w1 \<subseteq> lonely w" "parties w1 P = Some pt" "party_of w1 p = None" "live w1 = live w"
        and t: "touched P (cleared p (enrolled P p w1)) (snd (joinParty ev env P p w))"
      by (rule joinParty_effect[OF c Some l ev True p])
    have e: "core {p} (enrolled P p w1)"
      using enrolled_core[OF w1(1,3) _ w1(4)] p w1(5) by simp
    have "world_ok (cleared p (enrolled P p w1))"
      using cleared_core[OF e] cleared_lonely[OF e, of p] enrolled_lonely[of P p w1] w1(2) lw by (auto simp: world_ok_def)
    then show ?thesis
      using touched_ok[OF t] by simp
  next
    case False
    then show ?thesis
      using w by (simp add: joinParty_def Some split: option.split)
  qed
qed (use w in \<open>simp add: joinParty_def\<close>)

definition uninvited :: "pid \<Rightarrow> u32 \<Rightarrow> World \<Rightarrow> World" where
  "uninvited P p w = removePartyInvitation p P (upd_party P (\<lambda>pt. pt\<lparr>inviteList := filter (\<lambda>i. i \<noteq> p) (inviteList pt)\<rparr>) w)"

lemma uninvited_core:
  assumes c: "core {} w" and pt: "parties w P = Some pt"
  shows "core {} (uninvited P p w)"
proof -
  have E: "uninvited P p w = w\<lparr>parties := (parties w)(P \<mapsto> pt\<lparr>inviteList := filter (\<lambda>i. i \<noteq> p) (inviteList pt)\<rparr>),
      invitePartyList := (invitePartyList w)(p := filter (\<lambda>Q. parties w Q \<noteq> None \<and> Q \<noteq> P) (invitePartyList w p))\<rparr>"
    using pt by (auto simp: uninvited_def removePartyInvitation_def upd_party_def fun_eq_iff intro!: World.equality filter_cong)
  show ?thesis
  proof (rule coreI, goal_cases)
    case (1 Q qt)
    then show ?case
      using core_party[OF c, of Q] pt by (auto simp: E party_ok_def split: if_splits option.splits)
  next
    case (2 Q qt)
    then show ?case
      using core_party[OF c, of Q] pt by (auto simp: E split: if_splits)
  next
    case (3 q Q)
    then show ?case
      using core_member[OF c, of q Q] pt by (auto simp: E split: if_splits)
  next
    case (4 q Q)
    then show ?case
      using core_invite[OF c, of q Q] pt by (auto simp: E split: if_splits)
  next
    case (5 q)
    then show ?case
      using core_distinct[OF c] by (simp add: E)
  qed
qed

lemma removeInvite_effect:
  assumes c: "core {} w" and pt: "parties w P = Some pt"
  shows "removeInvite ev P p True w =
     (if p \<notin> set (inviteList pt) then (False, w)
      else (True, if memberList pt = [] \<and> filter (\<lambda>i. i \<noteq> p) (inviteList pt) = [] then disband ev P (uninvited P p w)
                  else uninvited P p w))"
proof -
  have wo: "without w p (inviteList pt) = filter (\<lambda>i. i \<noteq> p) (inviteList pt)"
    using members_live[OF c pt] by (simp add: without_live)
  have u: "upd_party P (\<lambda>pt'. pt'\<lparr>inviteList := filter (\<lambda>i. i \<noteq> p) (inviteList pt)\<rparr>) w =
      upd_party P (\<lambda>pt. pt\<lparr>inviteList := filter (\<lambda>i. i \<noteq> p) (inviteList pt)\<rparr>) w"
    using pt by (simp add: upd_party_def)
  have u0: "p \<notin> set (inviteList pt) \<Longrightarrow> upd_party P (\<lambda>pt. pt\<lparr>inviteList := filter (\<lambda>i. i \<noteq> p) (inviteList pt)\<rparr>) w = w"
    using pt by (simp add: upd_party_def filter_absent fun_upd_idem)
  have live: "p \<in> set (inviteList pt) \<Longrightarrow> p \<in> live w"
    using members_live[OF c pt] by blast
  then show ?thesis
    using u0 by (cases "p \<in> set (inviteList pt)")
      (simp_all add: removeInvite_def pt Let_def wo u party_empty_def flip: uninvited_def)
qed

lemma removeInvite_ok:
  assumes w: "world_ok w" and ev: "accepts ev"
  shows "world_ok (snd (removeInvite ev P p True w))"
proof (cases "parties w P")
  case (Some pt)
  have c: "core {} w" and lw: "lonely w = {}"
    using w by (simp_all add: world_ok_def)
  let ?pt = "pt\<lparr>inviteList := filter (\<lambda>i. i \<noteq> p) (inviteList pt)\<rparr>"
  have P: "parties (uninvited P p w) = (parties w)(P \<mapsto> ?pt)"
    using Some by (simp add: uninvited_def removePartyInvitation_def upd_party_def)
  then have P1: "parties (uninvited P p w) P = Some ?pt"
    by simp
  have "lonely (uninvited P p w) \<subseteq> {P}"
    using lw by (auto simp: lonely_def P split: if_splits)
  moreover have "lonely (uninvited P p w) = {}" if "\<not> party_empty ?pt"
    using lw that by (auto simp: lonely_def P split: if_splits)
  ultimately show ?thesis
    using w uninvited_core[OF c Some, of p] disband_core[OF uninvited_core[OF c Some] P1 ev]
      lonely_disband[OF uninvited_core[OF c Some] P1 ev]
    by (auto simp: removeInvite_effect[OF c Some] world_ok_def party_empty_def)
qed (use w in \<open>simp add: removeInvite_def\<close>)

subsection \<open>Logging out\<close>

lemma leave_rest:
  assumes c: "core {} w" and ev: "accepts ev" and p: "party_of w p = Some P" and i: "invitePartyList w p = []"
  shows "party_of (snd (leaveParty ev env P p True w)) p = None \<and> invitePartyList (snd (leaveParty ev env P p True w)) p = []"
proof -
  obtain pt where pt: "parties w P = Some pt"
    using core_member[OF c p] by blast
  have E: "if dissolves p pt then snd (leaveParty ev env P p True w) = disband ev P w
    else touched P (go_on P p pt w) (snd (leaveParty ev env P p True w))"
    using leaveParty_effect[OF c pt ev _ p] by simp
  show ?thesis
  proof (cases "dissolves p pt")
    case True
    then show ?thesis
      using E p i by (simp add: disband_effect[OF c pt ev])
  next
    case False
    then have "similar {} (go_on P p pt w) (snd (leaveParty ev env P p True w))"
      using E touched_similar by simp
    then show ?thesis
      using i by (auto dest!: similar_rest simp: go_on_def left_party_def reseat_def upd_party_def)
  qed
qed

lemma gone_ok:
  assumes w: "world_ok w" and p: "party_of w p = None" "invitePartyList w p = []"
  shows "world_ok (w\<lparr>live := live w - {p}\<rparr>)"
proof -
  have c: "core {} w"
    using w by (simp add: world_ok_def)
  have "party_ok {} (w\<lparr>live := live w - {p}\<rparr>) Q qt" if "parties w Q = Some qt" for Q qt
    using core_party[OF c that] p by (auto simp: party_ok_def split: option.splits)
  then have "core {} (w\<lparr>live := live w - {p}\<rparr>)"
    using core_party[OF c] core_member[OF c] core_invite[OF c] core_distinct[OF c] by (intro coreI) auto
  then show ?thesis
    using w by (simp add: world_ok_def lonely_def)
qed

lemma logout_ok:
  assumes w: "world_ok w" and ev: "accepts ev"
  shows "world_ok (player_logout ev env p w)"
proof -
  have c: "core {} w"
    using w by (simp add: world_ok_def)
  let ?w = "cleared p w"
  have k: "clearPartyInvitations ev p w = ?w"
    using clearPartyInvitations_cleared[OF ev core_mono[OF c]] by simp
  have w1: "world_ok ?w"
    using cleared_core[OF core_mono[OF c]] cleared_lonely[OF c] w by (auto simp: world_ok_def)
  then have c1: "core {} ?w"
    by (simp add: world_ok_def)
  show ?thesis
  proof (cases "party_of ?w p")
    case None
    then show ?thesis
      using gone_ok[OF w1] by (simp add: player_logout_def Let_def k getParty_core[OF c1] cleared_simps)
  next
    case (Some P)
    then show ?thesis
      using gone_ok[OF leaveParty_ok[OF w1 ev, of env P p True]] leave_rest[OF c1 ev Some, of env]
      by (simp add: player_logout_def Let_def k getParty_core[OF c1] cleared_simps)
  qed
qed

lemma login_ok:
  assumes w: "world_ok w"
  shows "world_ok (w\<lparr>live := insert p (live w)\<rparr>)"
proof -
  have c: "core {} w"
    using w by (simp add: world_ok_def)
  have "party_ok {} (w\<lparr>live := insert p (live w)\<rparr>) Q qt" if "parties w Q = Some qt" for Q qt
    using core_party[OF c that] by (auto simp: party_ok_def split: option.splits)
  then have "core {} (w\<lparr>live := insert p (live w)\<rparr>)"
    using core_party[OF c] core_member[OF c] core_invite[OF c] core_distinct[OF c] by (intro coreI) auto
  then show ?thesis
    using w by (simp add: world_ok_def lonely_def)
qed

subsection \<open>The requests\<close>

lemma invite_ok:
  assumes w: "world_ok w" and ev: "accepts ev"
  shows "world_ok (playerInviteToParty ev p i w)"
proof -
  have c: "core {} w" and lw: "lonely w = {}"
    using w by (simp_all add: world_ok_def)
  have go: "world_ok (if \<not> onInvite ev P i
       then (case parties w' P of None \<Rightarrow> w' | Some pt \<Rightarrow> if party_empty pt then disband ev P w' else w')
       else snd (invitePlayer P i w'))"
    if c': "core {} w'" and l': "lonely w' \<subseteq> {P}" and P: "parties w' P = Some pt" and i: "i \<in> live w'" "party_of w' i = None" for P pt w'
  proof (cases "i \<in> set (inviteList pt)")
    case True
    then have "lonely w' = {}" "\<not> party_empty pt"
      using l' P by (auto simp: lonely_def party_empty_def)
    then show ?thesis
      using True P i c' by (simp add: world_ok_def invitePlayer_def isPlayerInvited_def)
  next
    case False
    have e: "\<not> party_empty pt \<Longrightarrow> lonely w' = {}"
      using l' P by (auto simp: lonely_def)
    have "world_ok (snd (invitePlayer P i w'))"
      using invitePlayer_core[OF c' P i(1) False] invitePlayer_lonely[OF c' P i(1) False] l' i(2) by (auto simp: world_ok_def)
    moreover have "world_ok (disband ev P w')"
      using disband_core[OF c' P ev] lonely_disband[OF c' P ev] l' by (auto simp: world_ok_def)
    ultimately show ?thesis
      using P c' e by (simp add: world_ok_def)
  qed
  have new: "world_ok (if \<not> onInvite ev (fst (create p w)) i
       then (case parties (snd (create p w)) (fst (create p w)) of None \<Rightarrow> snd (create p w)
             | Some pt \<Rightarrow> if party_empty pt then disband ev (fst (create p w)) (snd (create p w)) else snd (create p w))
       else snd (invitePlayer (fst (create p w)) i (snd (create p w))))"
    if "p \<noteq> i" "p \<in> live w" "i \<in> live w" "party_of w i = None" "party_of w p = None"
    using that create_lonely[of p w] lw by (intro go[OF create_core[OF c]]) (auto simp: create_party)
  show ?thesis
  proof (cases "p = i \<or> p \<notin> live w \<or> i \<notin> live w \<or> isInviting w i p \<or> party_of w i \<noteq> None")
    case True
    then show ?thesis
      using w by (auto simp: playerInviteToParty_def getParty_core[OF c])
  next
    case False
    show ?thesis
    proof (cases "party_of w p")
      case None
      then show ?thesis
        using False new by (simp add: playerInviteToParty_def getParty_core[OF c] split_def)
    next
      case (Some P)
      obtain pt where "parties w P = Some pt"
        using core_member[OF c Some] by blast
      then show ?thesis
        using False Some go[OF c _ _, of P] w lw by (simp add: playerInviteToParty_def getParty_core[OF c])
    qed
  qed
qed

datatype Request =
  InviteToParty u32 u32 | JoinParty u32 u32 | RevokeInvitation u32 u32 | PassLeadership u32 u32 | LeaveParty u32
  | EnableSharedExperience u32 bool | PlayerTicks u32 u32 | PlayerLogin u32 | PlayerLogout u32

fun perform :: "Events \<Rightarrow> Env \<Rightarrow> Request \<Rightarrow> World \<Rightarrow> World" where
  "perform ev env (InviteToParty p i) w = playerInviteToParty ev p i w"
| "perform ev env (JoinParty p l) w = playerJoinParty ev env p l w"
| "perform ev env (RevokeInvitation p i) w = playerRevokePartyInvitation ev p i w"
| "perform ev env (PassLeadership p n) w = playerPassPartyLeadership ev env p n w"
| "perform ev env (LeaveParty p) w = playerLeaveParty ev env p w"
| "perform ev env (EnableSharedExperience p b) w = playerEnableSharedPartyExperience env p b w"
| "perform ev env (PlayerTicks p points) w =
     (case getParty w p of None \<Rightarrow> w | Some P \<Rightarrow> updatePlayerTicks env P p points w)"
| "perform ev env (PlayerLogin p) w = w\<lparr>live := insert p (live w)\<rparr>"
| "perform ev env (PlayerLogout p) w = player_logout ev env p w"

definition no_parties :: World where
  "no_parties = \<lparr>parties = Map.empty, party_of = Map.empty, invitePartyList = (\<lambda>_. []), live = {}, nextParty = 0\<rparr>"

inductive party_reachable :: "World \<Rightarrow> bool" where
  init: "party_reachable no_parties"
| step: "party_reachable w \<Longrightarrow> accepts ev \<Longrightarrow> party_reachable (perform ev env r w)"

lemma perform_ok:
  assumes w: "world_ok w" and ev: "accepts ev"
  shows "world_ok (perform ev env r w)"
proof (cases r)
  case (JoinParty p l)
  have c: "core {} w"
    using w by (simp add: world_ok_def)
  show ?thesis
    using w joinParty_ok[OF w ev]
    by (auto simp: JoinParty playerJoinParty_def getParty_core[OF c] split: option.split)
next
  case (RevokeInvitation p i)
  show ?thesis
    using w removeInvite_ok[OF w ev]
    by (simp add: RevokeInvitation playerRevokePartyInvitation_def revokeInvitation_def split: option.split)
next
  case (EnableSharedExperience p b)
  show ?thesis
    using w touched_ok[OF setSharedExperience_touched w]
    by (simp add: EnableSharedExperience playerEnableSharedPartyExperience_def split: option.split)
next
  case (PlayerTicks p points)
  show ?thesis
    using w touched_ok[OF updatePlayerTicks_touched w] by (simp add: PlayerTicks split: option.split)
qed (use w invite_ok[OF w ev] pass_ok[OF w] leaveParty_ok[OF w ev] login_ok[OF w] logout_ok[OF w ev]
      in \<open>simp_all add: playerPassPartyLeadership_def playerLeaveParty_def split: option.split\<close>)

lemma reachable_ok: "party_reachable w \<Longrightarrow> world_ok w"
proof (induction rule: party_reachable.induct)
  case init
  then show ?case
    by (simp add: world_ok_def core_def lonely_def no_parties_def)
next
  case (step w ev env r)
  then show ?case by (simp add: perform_ok)
qed

section \<open>Claims\<close>

lemma reachable_core: "party_reachable w \<Longrightarrow> core {} w"
  using reachable_ok by (simp add: world_ok_def)

text \<open>
  Claim C6. In every world that requests, logins and logouts can lead to (while the script engine lets
  parties disband), players and parties agree: the players who point to a party are its leader and its
  members, the players it invites are those who hold its invitation, nobody is listed twice or both as
  member and as invited, the leader is online, and no party without members and invitations is left over.
\<close>

theorem party_consistent:
  assumes "party_reachable w" and "parties w P = Some pt"
  shows "(\<forall>p. getParty w p = Some P \<longleftrightarrow> getLeader w P = Some p \<or> p \<in> set (memberList pt)) \<and>
    (\<forall>p. isPlayerInvited w P p \<longleftrightarrow> P \<in> set (invitePartyList w p)) \<and>
    distinct (memberList pt) \<and> distinct (inviteList pt) \<and> set (memberList pt) \<inter> set (inviteList pt) = {} \<and>
    getLeader w P \<noteq> None \<and> \<not> party_empty pt"
proof -
  have c: "core {} w" and ne: "\<not> party_empty pt"
    using reachable_ok[OF assms(1)] assms(2) by (auto simp: world_ok_def lonely_def)
  obtain l where l: "leader pt = Some l" and q: "\<And>q. party_of w q = Some P \<longleftrightarrow> q = l \<or> q \<in> set (memberList pt)"
    using core_leader[OF c assms(2)] by metis
  have gl: "getLeader w P = Some l"
    using lock_leader[OF c assms(2)] l by (simp add: getLeader_def assms(2))
  have "isPlayerInvited w P p \<longleftrightarrow> P \<in> set (invitePartyList w p)" for p
    using core_party[OF c assms(2)] core_invite[OF c, of p P] assms(2) by (auto simp: isPlayerInvited_def party_ok_def)
  moreover have "distinct (memberList pt)" "distinct (inviteList pt)" "set (memberList pt) \<inter> set (inviteList pt) = {}"
    using core_party[OF c assms(2)] by (auto simp: party_ok_def)
  ultimately show ?thesis
    using ne gl q by (auto simp: getParty_core[OF c])
qed

abbreviation all_yes :: Events where
  "all_yes \<equiv> \<lparr>onDisband = (\<lambda>_. True), onLeave = (\<lambda>_ _. True), onPassLeadership = (\<lambda>_ _. True), onJoin = (\<lambda>_ _. True),
     onRevokeInvitation = (\<lambda>_ _. True), onInvite = (\<lambda>_ _. True)\<rparr>"

abbreviation calm :: Env where
  "calm \<equiv> \<lparr>getLevel = (\<lambda>p. if p = 1 then 30 else 20), playerPosition = (\<lambda>_. Position 100 100 7), notGainInFight = (\<lambda>_. True),
     infight = (\<lambda>_. False), inProtectionZone = (\<lambda>_. False), otsysTime = 0, expShareRange = 30, expShareFloors = 1, pzLocked = 60000\<rparr>"

text \<open>Players 1, 2 and 3 log in, 1 invites 2 and 3, and 2 joins.\<close>

definition meeting :: World where
  "meeting = fold (perform all_yes calm)
     [PlayerLogin 1, PlayerLogin 2, PlayerLogin 3, InviteToParty 1 2, InviteToParty 1 3, JoinParty 2 1] no_parties"

lemmas party_eval = playerInviteToParty_def playerJoinParty_def isInviting_def getParty_def getLeader_def lock_player_def
  create_def setParty_def upd_party_def invitePlayer_def isPlayerInvited_def addPartyInvitation_def joinParty_def
  clearPartyInvitations_def removeInvite_def removePartyInvitation_def without_def party_empty_def updateSharedExperience_def
  no_parties_def Let_def

lemma accepts_all: "accepts all_yes"
  by (simp add: accepts_def)

lemma meeting_reachable: "party_reachable meeting"
proof -
  have "party_reachable w \<Longrightarrow> party_reachable (fold (perform all_yes calm) rs w)" for rs w
    by (induction rs arbitrary: w) (auto intro: party_reachable.step accepts_all)
  from this[OF party_reachable.init] show ?thesis
    unfolding meeting_def .
qed

lemma meeting_party: "parties meeting 0 =
    Some \<lparr>leader = Some 1, memberList = [2], inviteList = [3], sharedExpActive = False, sharedExpEnabled = False, ticksMap = Map.empty\<rparr>"
  by (simp add: meeting_def party_eval)

theorem party_consistent_witness: "getParty meeting 2 = Some 0 \<and> 0 \<in> set (invitePartyList meeting 3) \<and> getLeader meeting 0 = Some 1"
proof -
  note c = party_consistent[OF meeting_reachable meeting_party]
  have "getParty meeting 2 = Some 0" "isPlayerInvited meeting 0 3" "getLeader meeting 0 = Some 1"
    using c by (simp_all add: meeting_def party_eval)
  then show ?thesis
    using c by simp
qed

text \<open>
  Claim C7. A player who leaves belongs to no party afterwards. The party ends, and nobody refers to it any
  more, when too few people remain: without other members, or when the leader leaves a single member and
  no invitations, or a member leaves a leader with neither. Otherwise it goes on: the leader is the first
  remaining member when the leader left, and the order of the others stays.
\<close>

theorem leaveParty_hands_over:
  assumes "party_reachable w" and "parties w P = Some pt" and "getParty w p = Some P" and "accepts ev"
    and "force \<or> onLeave ev P p" and "rest = filter (\<lambda>m. m \<noteq> p) (memberList pt)"
    and "over = (if leader pt = Some p then rest = [] \<or> (length rest = 1 \<and> inviteList pt = [])
      else rest = [] \<and> inviteList pt = [])"
    and "w' = snd (leaveParty ev env P p force w)"
  shows "getParty w' p = None \<and>
    (if over then parties w' P = None \<and> (\<forall>q. getParty w' q \<noteq> Some P \<and> P \<notin> set (invitePartyList w' q))
     else getLeader w' P = (if leader pt = Some p then Some (hd rest) else leader pt) \<and>
       map_option memberList (parties w' P) = Some (if leader pt = Some p then tl rest else rest))"
proof -
  have w: "world_ok w" and c: "core {} w"
    using reachable_ok[OF assms(1)] by (simp_all add: world_ok_def)
  have p: "party_of w p = Some P"
    using assms(3) by (simp add: getParty_core[OF c])
  have w': "core {} w'"
    using leaveParty_ok[OF w assms(4)] by (simp add: assms(8) world_ok_def)
  have d: "over = dissolves p pt"
    by (simp add: assms(6,7) dissolves_def heirs_def)
  note E = leaveParty_effect[OF c assms(2,4,5) p, of env, folded assms(8)]
  show ?thesis
  proof (cases over)
    case True
    then have w'E: "w' = disband ev P w"
      using E d by simp
    have "parties w' P = None" "party_of w' p = None"
      using p by (simp_all add: w'E disband_effect[OF c assms(2,4)])
    then show ?thesis
      using True core_invite[OF w', of _ P] core_member[OF w', of _ P] by (auto simp: getParty_core[OF w'])
  next
    case False
    then have t: "touched P (go_on P p pt w) w'"
      using E d by simp
    obtain l where l: "leader pt = Some l"
      using core_leader[OF c assms(2)] by metis
    from t obtain pt' where pt': "parties w' P = Some pt'" "leader pt' = (if leader pt = Some p then Some (hd rest) else leader pt)"
        "memberList pt' = (if leader pt = Some p then tl rest else rest)"
      using assms(2,6) l
      by (auto simp: touched_def go_on_def left_party_def reseat_def upd_party_def same_people_def heirs_def split: if_splits)
    moreover have "party_of w' p = None"
      using similar_rest[OF touched_similar[OF t]] by (simp add: go_on_def left_party_def)
    ultimately show ?thesis
      using False lock_leader[OF w' pt'(1)] by (simp add: getParty_core[OF w'] getLeader_def)
  qed
qed

theorem leaveParty_witness:
  "getLeader (snd (leaveParty all_yes calm 0 1 False meeting)) 0 = Some 2 \<and>
   getParty (snd (leaveParty all_yes calm 0 1 False meeting)) 1 = None"
proof -
  have "getParty meeting 1 = Some 0"
    by (simp add: meeting_def party_eval)
  from leaveParty_hands_over[OF meeting_reachable meeting_party this accepts_all _ refl refl refl, of False calm]
  show ?thesis by simp
qed

text \<open>
  Claim C8. A player who accepts an invitation of the leader becomes the last member of that party and
  holds no invitations afterwards; the leader and the other members of the party stay as they were.
\<close>

theorem playerJoinParty_joins:
  assumes "party_reachable w" and "accepts ev" and "p \<in> live w" and "l \<in> live w" and "isInviting w l p"
    and "getParty w l = Some P" and "parties w P = Some pt" and "getParty w p = None" and "onJoin ev P p"
    and "w' = playerJoinParty ev env p l w"
  shows "getParty w' p = Some P \<and> invitePartyList w' p = [] \<and> getLeader w' P = Some l \<and>
    map_option memberList (parties w' P) = Some (memberList pt @ [p])"
proof -
  have w: "world_ok w" and c: "core {} w"
    using reachable_ok[OF assms(1)] by (simp_all add: world_ok_def)
  have l: "leader pt = Some l" "getLeader w P = Some l"
    using assms(5,6,7) lock_leader[OF c assms(7)] by (auto simp: isInviting_def getLeader_def)
  have p: "party_of w p = None"
    using assms(8) by (simp add: getParty_core[OF c])
  have w': "w' = snd (joinParty ev env P p w)"
    using assms(3-6,8) l by (simp add: assms(10) playerJoinParty_def)
  obtain w1 where w1: "core {} w1" "parties w1 P = Some pt" "party_of w1 p = None" "live w1 = live w"
      and t: "touched P (cleared p (enrolled P p w1)) w'"
    using joinParty_effect[OF c assms(7) l(1) assms(2,9,3) p, of env] unfolding w' by metis
  have e: "core {p} (enrolled P p w1)"
    using enrolled_core[OF w1(1,2) _ w1(3)] assms(3) w1(4) by simp
  have "parties (enrolled P p w1) P = Some (pt\<lparr>memberList := memberList pt @ [p]\<rparr>)"
    using w1(2) by (simp add: enrolled_def setParty_def upd_party_def)
  then obtain pt1 where pt1: "parties (cleared p (enrolled P p w1)) P = Some pt1" "leader pt1 = Some l"
      "memberList pt1 = memberList pt @ [p]"
    using l(1) by (cases "p \<in> set (inviteList pt)") (auto simp: cleared_parties[OF e] drop_invite_def party_empty_def Let_def)
  then obtain pt' where pt': "parties w' P = Some pt'" "leader pt' = Some l" "memberList pt' = memberList pt @ [p]"
    using t by (auto simp: touched_def same_people_def)
  have cw: "core {} w'"
    using touched_core[OF t cleared_core[OF e]] .
  have "party_of w' p = Some P"
    using core_party[OF cw pt'(1)] pt'(3) by (auto simp: party_ok_def)
  moreover have "invitePartyList w' p = []"
    using similar_rest[OF touched_similar[OF t]] by (simp add: cleared_simps)
  ultimately show ?thesis
    using pt' lock_leader[OF cw pt'(1)] by (simp add: getParty_core[OF cw] getLeader_def)
qed

theorem playerJoinParty_witness:
  "map_option memberList (parties (playerJoinParty all_yes calm 3 1 meeting) 0) = Some [2, 3] \<and>
   invitePartyList (playerJoinParty all_yes calm 3 1 meeting) 3 = []"
proof -
  have "3 \<in> live meeting" "1 \<in> live meeting" "isInviting meeting 1 3" "getParty meeting 1 = Some 0" "getParty meeting 3 = None"
    by (simp_all add: meeting_def party_eval)
  from playerJoinParty_joins[OF meeting_reachable accepts_all this(1-4) meeting_party this(5) _ refl, of calm]
  show ?thesis by simp
qed

lemma highest_fold:
  "set ms \<subseteq> live w \<Longrightarrow>
   fold (\<lambda>m h. if m \<in> live w \<and> getLevel env m > h then getLevel env m else h) ms h = Max (insert h (getLevel env ` set ms))"
proof (induction ms arbitrary: h)
  case (Cons m ms)
  have "(if m \<in> live w \<and> getLevel env m > h then getLevel env m else h) = max h (getLevel env m)"
    using Cons.prems by simp
  then show ?case
    using Cons by (cases "ms = []") (simp_all add: max.assoc)
qed simp

lemma float_unit_small [simp]: "n < 2 ^ 24 \<Longrightarrow> float_unit n = 1"
  and float_unit_double [simp]: "2 ^ 24 \<le> n \<Longrightarrow> float_unit n = 2 * float_unit (n div 2)"
  by (simp_all add: float_unit.simps)

lemma float_unit_power: "n < 2 ^ (24 + k) \<Longrightarrow> \<exists>j \<le> k. float_unit n = 2 ^ j"
proof (induction k arbitrary: n)
  case (Suc k)
  show ?case
  proof (cases "n < 2 ^ 24")
    case False
    from Suc.prems have "n div 2 < 2 ^ (24 + k)" by (intro less_mult_imp_div_less) (simp add: power_add mult.commute)
    from Suc.IH[OF this] obtain j where "j \<le> k" "float_unit (n div 2) = 2 ^ j" by blast
    with False show ?thesis by (intro exI[of _ "Suc j"]) (simp add: float_unit.simps[of n])
  qed (auto simp: float_unit_small intro!: exI[of _ 0])
qed (simp add: float_unit_small)

lemma round_even_near:
  assumes "0 < b"
  shows "2 * a \<le> 2 * b * round_even a b + b" and "2 * b * round_even a b \<le> 2 * a + b"
proof -
  have a: "a = b * (a div b) + a mod b" and r: "a mod b < b" using assms by simp_all
  obtain q m where q: "q = a div b" "m = a mod b" by blast
  have "a = b * q + m" "m < b" using a r q by simp_all
  then show "2 * a \<le> 2 * b * round_even a b + b" "2 * b * round_even a b \<le> 2 * a + b"
    unfolding round_even_def Let_def q[symmetric] by (auto simp: algebra_simps)
qed

text \<open>The limit is the exact one, two thirds rounded up, for all levels below \<open>3 * 2 ^ 22\<close>.\<close>

lemma float_near_exact: "n < 2 ^ 24 \<Longrightarrow> float_near n 1 = n"
  by (simp add: float_near_def float_unit_small round_even_def)

lemma ceil_between:
  fixes i Q K :: nat
  assumes "i * K < Q" and "Q \<le> (i + 1) * K"
  shows "(Q + (K - 1)) div K = i + 1"
proof (rule div_nat_eqI)
  have "0 < K" using assms by (cases K) simp_all
  then show "K * (i + 1) \<le> Q + (K - 1)" "Q + (K - 1) < K * Suc (i + 1)"
    using assms by (simp_all add: algebra_simps)
qed

lemma ceil_exact: "0 < K \<Longrightarrow> (i * K + (K - 1)) div K = i" for i K :: nat
  by (intro div_nat_eqI) (simp_all add: algebra_simps)

lemma limit_ceiling:
  assumes n: "n < 3 * 2 ^ 22"
  shows "(float_near (n * 2 * 2 ^ 24) 3 + (2 ^ 24 - 1)) div 2 ^ 24 = (2 * n + 2) div 3"
proof -
  let ?A = "n * 2 * 2 ^ 24"
  have "?A div 3 < 2 ^ (24 + 23)" using n by simp
  then obtain j where j: "j \<le> 23" "float_unit (?A div 3) = 2 ^ j" using float_unit_power by blast
  define U :: nat where "U = 2 ^ (24 - j)"
  define u :: nat where "u = 2 ^ j"
  have Uu: "U * u = 2 ^ 24" and u0: "0 < u"
    using j(1) by (simp_all add: U_def u_def power_add[symmetric])
  have U2: "2 \<le> U" using power_increasing[of 1 "24 - j" "2 :: nat"] j(1) by (simp add: U_def)
  define R where "R = round_even ?A (3 * u)"
  have A: "?A = 2 * n * U * u" by (simp only: Uu[symmetric] ac_simps)
  have "2 * (2 * n * U * u) \<le> 2 * (3 * u) * R + 3 * u" "2 * (3 * u) * R \<le> 2 * (2 * n * U * u) + 3 * u"
    using round_even_near[of "3 * u" ?A, folded R_def] u0 unfolding A by simp_all
  then have "u * (4 * n * U) \<le> u * (6 * R + 3)" "u * (6 * R) \<le> u * (4 * n * U + 3)"
    by (simp_all add: algebra_simps)
  then have near: "4 * n * U \<le> 6 * R + 3" "6 * R \<le> 4 * n * U + 3" using u0 by simp_all
  obtain i f where i: "2 * n = 3 * i + f" "f < 3" using that[of "2 * n div 3" "2 * n mod 3"] by simp
  have "4 * n * U = 2 * (2 * n) * U" by simp
  also have "\<dots> = 6 * (i * U) + 2 * f * U" unfolding i(1) by (simp add: algebra_simps)
  finally have "4 * n * U = 6 * (i * U) + 2 * f * U" .
  note near' = near[unfolded this]
  have goal: "float_near ?A 3 = R * u" by (simp only: float_near_def j(2) R_def u_def Let_def)
  have U0: "0 < U" using U2 by simp
  have "(R * u + (U * u - 1)) div (U * u) = (2 * n + 2) div 3"
  proof (cases "f = 0")
    case True
    then have "R = i * U" using near' by simp
    with ceil_exact[of "U * u" i] U0 u0 i(1) True show ?thesis by (simp add: mult.assoc)
  next
    case False
    with i(2) have f: "1 \<le> f" "f \<le> 2" by simp_all
    have "f = 1 \<or> f = 2" using f by linarith
    then have "i * U < R" "R \<le> (i + 1) * U" using near' U2 by auto
    then have "i * (U * u) < R * u" "R * u \<le> (i + 1) * (U * u)"
      using u0 by (simp_all flip: mult.assoc)
    from ceil_between[OF this] i f show ?thesis by simp
  qed
  then show ?thesis by (simp only: goal Uu)
qed

lemma below_min_level:
  assumes "unat h < 3 * 2 ^ 22"
  shows "n < min_level h \<longleftrightarrow> 3 * unat n < 2 * unat h"
proof -
  have "unat (min_level h) = (2 * unat h + 2) div 3"
    using assms float_near_exact[of "unat h"] limit_ceiling[OF assms]
    by (simp add: min_level_def Let_def unat_of_nat)
  then show ?thesis by (auto simp: word_less_nat_alt)
qed

lemma float_limit_low: "min_level 12582914 = 8388609" and "(2 * 12582914 + 2) div 3 = (8388610 :: nat)"
  by (simp_all add: min_level_def float_near_def round_even_def)

definition shares :: "Env \<Rightarrow> Party \<Rightarrow> u32 \<Rightarrow> u32 \<Rightarrow> u32 \<Rightarrow> bool" where
  "shares env pt l best q \<longleftrightarrow> 2 * unat best \<le> 3 * unat (getLevel env q) \<and>
     isInRange3 (playerPosition env l) (playerPosition env q) (sint (expShareRange env)) (sint (expShareRange env))
       (ucast (expShareFloors env)) \<and>
     (notGainInFight env q \<or>
      (case ticksMap pt q of None \<Rightarrow> False | Some t \<Rightarrow> (otsysTime env - t) mod 2 ^ 64 \<le> pzLocked env mod 2 ^ 64))"

lemma member_status:
  assumes c: "core {} w" and pt: "parties w P = Some pt" and l: "leader pt = Some l" and ne: "memberList pt \<noteq> []"
    and small: "unat (Max (getLevel env ` set (l # memberList pt))) < 3 * 2 ^ 22"
  shows "getMemberSharedExperienceStatus env w pt q = SHAREDEXP_OK \<longleftrightarrow>
    shares env pt l (Max (getLevel env ` set (l # memberList pt))) q"
proof -
  define best where "best = Max (getLevel env ` set (l # memberList pt))"
  have "lock_player w (Some l) = Some l"
    using lock_leader[OF c pt] l by simp
  moreover have "highest_level env w l (memberList pt) = best"
    using highest_fold[of "memberList pt" w env] members_live[OF c pt] by (simp add: highest_level_def best_def)
  ultimately show ?thesis
    unfolding best_def[symmetric] using ne l by (auto simp: getMemberSharedExperienceStatus_def shares_def below_min_level[OF small, folded best_def] split: option.splits)
qed

lemma member_statuses_ok:
  "set ms \<subseteq> live w \<Longrightarrow> member_statuses env w pt ms = SHAREDEXP_OK \<longleftrightarrow>
     list_all (\<lambda>m. getMemberSharedExperienceStatus env w pt m = SHAREDEXP_OK) ms"
  by (induction ms) (simp_all add: Let_def)

text \<open>
  Experience is shared exactly when the party has members and everyone in it, leader included,
  has at least two thirds of the highest level of the party (which is below \<open>3 * 2 ^ 22\<close>), stands within the configured range of the
  leader, and has been active recently (or carries the flag that exempts from activity).
\<close>

theorem shared_experience_iff:
  assumes "party_reachable w" and "parties w P = Some pt" and "leader pt = Some l"
    and "best = Max (getLevel env ` set (l # memberList pt))" and "unat best < 3 * 2 ^ 22"
  shows "getSharedExperienceStatus env w pt = SHAREDEXP_OK \<longleftrightarrow>
    memberList pt \<noteq> [] \<and> list_all (shares env pt l best) (l # memberList pt)"
proof -
  have c: "core {} w"
    using reachable_core[OF assms(1)] .
  have "lock_player w (Some l) = Some l"
    using lock_leader[OF c assms(2)] assms(3) by simp
  then show ?thesis
    using member_status[OF c assms(2,3) _ assms(5)[unfolded assms(4)]] member_statuses_ok[of "memberList pt" w env pt] members_live[OF c assms(2)] assms(3)
    by (cases "memberList pt = []")
      (simp_all add: getSharedExperienceStatus_def Let_def assms(4) getMemberSharedExperienceStatus_def)
qed

theorem shared_experience_witness:
  "getSharedExperienceStatus calm meeting (the (parties meeting 0)) = SHAREDEXP_OK"
  using shared_experience_iff[OF meeting_reachable meeting_party _ refl, of 1 calm]
  by (simp add: meeting_party shares_def isInRange3_def getDistanceX_def getDistanceY_def getDistanceZ_def
      getOffsetX_def getOffsetY_def getOffsetZ_def tfs_abs_def)

text \<open>
  \<open>disband\<close> is refused when the script engine says so, but its callers have already removed the player:
  a party can then be led by someone who is in no party.
\<close>

theorem refused_disband_leaves_leader:
  "let w = fold (perform (all_yes\<lparr>onDisband := (\<lambda>_. False)\<rparr>) calm) [PlayerLogin 1, PlayerLogin 2, InviteToParty 1 2, LeaveParty 1] no_parties
   in getLeader w 0 = Some 1 \<and> getParty w 1 = None"
  by (simp add: party_eval playerLeaveParty_def leaveParty_def disband_def clearPlayerPoints_def)

end
