(* ===== verification/Assoc.thy ===== *)
theory Assoc
  imports TFS_Prelude
begin

text \<open>
  Keyed containers (\<open>std::map\<close>, \<open>std::unordered_map\<close>) whose content is walked or counted, as lists of
  pairs with distinct keys: \<open>erase\<close> removes a key, \<open>assign\<close> is \<open>m[k] = v\<close>, \<open>map_of\<close> is \<open>find\<close>.
\<close>

fun erase :: "'k \<Rightarrow> ('k \<times> 'v) list \<Rightarrow> ('k \<times> 'v) list" where
  "erase k [] = []"
| "erase k ((a, v) # m) = (if a = k then m else (a, v) # erase k m)"

fun assign :: "'k \<Rightarrow> 'v \<Rightarrow> ('k \<times> 'v) list \<Rightarrow> ('k \<times> 'v) list" where
  "assign k v [] = [(k, v)]"
| "assign k v ((a, w) # m) = (if a = k then (a, v) # m else (a, w) # assign k v m)"

section \<open>Their view as a map\<close>

lemma map_of_assign [simp]: "map_of (assign k v m) = (map_of m)(k \<mapsto> v)"
  by (induction k v m rule: assign.induct) auto

lemma map_of_erase [simp]: "distinct (map fst m) \<Longrightarrow> map_of (erase k m) = (map_of m)(k := None)"
  by (induction k m rule: erase.induct) (auto simp: map_of_eq_None_iff intro!: ext)

lemma set_assign: "set (assign k v m) \<subseteq> insert (k, v) (set m)"
  by (induction k v m rule: assign.induct) auto

lemma keys_assign: "fst ` set (assign k v m) = insert k (fst ` set m)"
  by (induction k v m rule: assign.induct) auto

lemma distinct_assign [simp]: "distinct (map fst (assign k v m)) \<longleftrightarrow> distinct (map fst m)"
  by (induction k v m rule: assign.induct) (auto simp: keys_assign)

lemma set_erase: "set (erase k m) \<subseteq> set m"
  by (induction k m rule: erase.induct) auto

lemma distinct_erase [simp]: "distinct (map fst m) \<Longrightarrow> distinct (map fst (erase k m))"
  by (induction k m rule: erase.induct) (auto dest: set_erase[THEN subsetD])

lemma assign_not_Nil [simp]: "assign k v m \<noteq> []"
  by (cases "(k, v, m)" rule: assign.cases) auto

end
