(* ===== verification/Chats.thy ===== *)
theory Chats
  imports Parties Assoc
begin

text \<open>
  Chat channels (chat.h, chat.cpp) and the requests of the game that use them (game.cpp).

  A player is the record \<open>ChatPlayer\<close> of what the chat reads of it; players are found by their identifier
  in a map of the players online, so a weak pointer can be locked when its identifier is in that map. Users
  and invitations, which only are looked up, are sets; the four containers of channels are keyed lists,
  because some operations walk them. A pointer to a channel is a \<open>ChannelRef\<close>. What the channel scripts
  answer (\<open>canJoin\<close>, \<open>onSpeak\<close>) is the record \<open>ChannelScripts\<close>; an event number of -1 means that there is no
  script. Texts sent to clients do not change the state and are left out, except who receives a message.
\<close>

record ChatPlayer =
  pl_id :: u32
  pl_guid :: u32
  pl_name :: string
  pl_guild :: "u32 option"
  pl_guildName :: string
  pl_rankLevel :: "u8 option"
  pl_party :: "pid option"
  pl_premium :: bool

record ChannelScripts =
  scr_canJoin :: "int \<Rightarrow> ChatPlayer \<Rightarrow> bool"
  scr_onSpeak :: "int \<Rightarrow> ChatPlayer \<Rightarrow> u8 \<Rightarrow> string \<Rightarrow> bool \<times> u8"

record ChatChannel =
  ch_id :: u16
  ch_name :: string
  users :: "u32 set"
  canJoinEvent :: int
  onSpeakEvent :: int

record PrivateChatChannel = ChatChannel +
  invites :: "u32 set"
  owner :: u32

record Chat =
  normalChannels :: "(u16 \<times> ChatChannel) list"
  privateChannels :: "(u16 \<times> PrivateChatChannel) list"
  partyChannels :: "(pid \<times> ChatChannel) list"
  guildChannels :: "(u32 \<times> ChatChannel) list"
  usersToRestore :: "(u16 \<times> u32 set) list"

definition CHANNEL_GUILD :: u16 where "CHANNEL_GUILD = 0"
definition CHANNEL_PARTY :: u16 where "CHANNEL_PARTY = 1"
definition CHANNEL_PRIVATE :: u16 where "CHANNEL_PRIVATE = 0xFFFF"
definition TALKTYPE_CHANNEL_Y :: u8 where "TALKTYPE_CHANNEL_Y = 7"
definition TALKTYPE_CHANNEL_O :: u8 where "TALKTYPE_CHANNEL_O = 15"

section \<open>One channel\<close>

definition new_channel :: "u16 \<Rightarrow> string \<Rightarrow> ChatChannel" where
  "new_channel i n = \<lparr>ch_id = i, ch_name = n, users = {}, canJoinEvent = -1, onSpeakEvent = -1\<rparr>"

definition new_private :: "u16 \<Rightarrow> string \<Rightarrow> PrivateChatChannel" where
  "new_private i n = \<lparr>ch_id = i, ch_name = n, users = {}, canJoinEvent = -1, onSpeakEvent = -1, invites = {}, owner = 0\<rparr>"

definition isInvited :: "PrivateChatChannel \<Rightarrow> u32 \<Rightarrow> bool" where
  "isInvited ch guid \<longleftrightarrow> (if guid = owner ch then True else guid \<in> invites ch)"

definition channel_removeInvite :: "u32 \<Rightarrow> PrivateChatChannel \<Rightarrow> bool \<times> PrivateChatChannel" where
  "channel_removeInvite guid ch = (guid \<in> invites ch, ch\<lparr>invites := invites ch - {guid}\<rparr>)"

definition channel_invitePlayer :: "ChatPlayer \<Rightarrow> PrivateChatChannel \<Rightarrow> PrivateChatChannel" where
  "channel_invitePlayer p ch = ch\<lparr>invites := insert (pl_guid p) (invites ch)\<rparr>"

definition removeUser :: "ChatPlayer \<Rightarrow> 'a ChatChannel_scheme \<Rightarrow> bool \<times> 'a ChatChannel_scheme" where
  "removeUser p ch = (if pl_id p \<notin> users ch then (False, ch) else (True, ch\<lparr>users := users ch - {pl_id p}\<rparr>))"

definition excludePlayer :: "ChatPlayer \<Rightarrow> PrivateChatChannel \<Rightarrow> PrivateChatChannel" where
  "excludePlayer p ch =
     (let (found, ch) = channel_removeInvite (pl_guid p) ch in if \<not> found then ch else snd (removeUser p ch))"

definition prune :: "u32 set \<Rightarrow> 'a ChatChannel_scheme \<Rightarrow> 'a ChatChannel_scheme" where
  "prune online ch = ch\<lparr>users := {u \<in> users ch. u \<in> online}\<rparr>"

definition closeChannel :: "u32 set \<Rightarrow> PrivateChatChannel \<Rightarrow> PrivateChatChannel" where
  "closeChannel online ch = prune online ch"

definition executeCanJoinEvent :: "ChannelScripts \<Rightarrow> 'a ChatChannel_scheme \<Rightarrow> ChatPlayer \<Rightarrow> bool" where
  "executeCanJoinEvent scr ch p = (if canJoinEvent ch = -1 then True else scr_canJoin scr (canJoinEvent ch) p)"

definition executeOnSpeakEvent :: "ChannelScripts \<Rightarrow> 'a ChatChannel_scheme \<Rightarrow> ChatPlayer \<Rightarrow> u8 \<Rightarrow> string \<Rightarrow> bool \<times> u8" where
  "executeOnSpeakEvent scr ch p type text =
     (if onSpeakEvent ch = -1 then (True, type) else scr_onSpeak scr (onSpeakEvent ch) p type text)"

definition addUser :: "ChannelScripts \<Rightarrow> ChatPlayer \<Rightarrow> 'a ChatChannel_scheme \<Rightarrow> bool \<times> 'a ChatChannel_scheme" where
  "addUser scr p ch =
     (if pl_id p \<in> users ch then (False, ch)
      else if \<not> executeCanJoinEvent scr ch p then (False, ch)
      else (True, ch\<lparr>users := insert (pl_id p) (users ch)\<rparr>))"

definition hasUser :: "ChatPlayer \<Rightarrow> 'a ChatChannel_scheme \<Rightarrow> bool" where
  "hasUser p ch \<longleftrightarrow> pl_id p \<in> users ch"

text \<open>\<open>sendToAll\<close> and \<open>talk\<close> also give the players who receive the message.\<close>

definition sendToAll :: "u32 set \<Rightarrow> 'a ChatChannel_scheme \<Rightarrow> u32 set \<times> 'a ChatChannel_scheme" where
  "sendToAll online ch = (users (prune online ch), prune online ch)"

definition talk :: "u32 set \<Rightarrow> ChatPlayer \<Rightarrow> 'a ChatChannel_scheme \<Rightarrow> bool \<times> u32 set \<times> 'a ChatChannel_scheme" where
  "talk online p ch =
     (if pl_id p \<notin> users ch then (False, {}, ch) else (True, users (prune online ch), prune online ch))"

section \<open>References to channels\<close>

datatype ChannelRef = NormalRef u16 | PrivateRef u16 | PartyRef pid | GuildRef u32

definition adjust :: "'k \<Rightarrow> ('v \<Rightarrow> 'v) \<Rightarrow> ('k \<times> 'v) list \<Rightarrow> ('k \<times> 'v) list" where
  "adjust k f m = (case map_of m k of None \<Rightarrow> m | Some v \<Rightarrow> assign k (f v) m)"

fun deref :: "Chat \<Rightarrow> ChannelRef \<Rightarrow> ChatChannel option" where
  "deref c (NormalRef i) = map_of (normalChannels c) i"
| "deref c (PrivateRef i) = map_option ChatChannel.truncate (map_of (privateChannels c) i)"
| "deref c (PartyRef P) = map_of (partyChannels c) P"
| "deref c (GuildRef g) = map_of (guildChannels c) g"

fun set_users :: "ChannelRef \<Rightarrow> u32 set \<Rightarrow> Chat \<Rightarrow> Chat" where
  "set_users (NormalRef i) us c = c\<lparr>normalChannels := adjust i (\<lambda>ch. ch\<lparr>users := us\<rparr>) (normalChannels c)\<rparr>"
| "set_users (PrivateRef i) us c = c\<lparr>privateChannels := adjust i (\<lambda>ch. ch\<lparr>users := us\<rparr>) (privateChannels c)\<rparr>"
| "set_users (PartyRef P) us c = c\<lparr>partyChannels := adjust P (\<lambda>ch. ch\<lparr>users := us\<rparr>) (partyChannels c)\<rparr>"
| "set_users (GuildRef g) us c = c\<lparr>guildChannels := adjust g (\<lambda>ch. ch\<lparr>users := us\<rparr>) (guildChannels c)\<rparr>"

fun getOwner :: "Chat \<Rightarrow> ChannelRef \<Rightarrow> u32" where
  "getOwner c (PrivateRef i) = (case map_of (privateChannels c) i of None \<Rightarrow> 0 | Some ch \<Rightarrow> owner ch)"
| "getOwner c _ = 0"

section \<open>The chat\<close>

definition getChannel :: "ChannelScripts \<Rightarrow> Chat \<Rightarrow> ChatPlayer \<Rightarrow> u16 \<Rightarrow> ChannelRef option" where
  "getChannel scr c p channelId =
     (if channelId = CHANNEL_GUILD
      then (case pl_guild p of None \<Rightarrow> None
            | Some g \<Rightarrow> if map_of (guildChannels c) g \<noteq> None then Some (GuildRef g) else None)
      else if channelId = CHANNEL_PARTY
      then (case pl_party p of None \<Rightarrow> None
            | Some P \<Rightarrow> if map_of (partyChannels c) P \<noteq> None then Some (PartyRef P) else None)
      else (case map_of (normalChannels c) channelId of
              Some ch \<Rightarrow> if \<not> executeCanJoinEvent scr ch p then None else Some (NormalRef channelId)
            | None \<Rightarrow>
                (case map_of (privateChannels c) channelId of
                   Some ch \<Rightarrow> if isInvited ch (pl_guid p) then Some (PrivateRef channelId) else None
                 | None \<Rightarrow> None)))"

definition getPrivateChannel :: "Chat \<Rightarrow> ChatPlayer \<Rightarrow> u16 option" where
  "getPrivateChannel c p = map_option fst (List.find (\<lambda>(i, ch). owner ch = pl_guid p) (privateChannels c))"

definition getChannelById :: "Chat \<Rightarrow> u16 \<Rightarrow> ChannelRef option" where
  "getChannelById c i = (if map_of (normalChannels c) i = None then None else Some (NormalRef i))"

definition getGuildChannelById :: "Chat \<Rightarrow> u32 \<Rightarrow> ChannelRef option" where
  "getGuildChannelById c g = (if map_of (guildChannels c) g = None then None else Some (GuildRef g))"

function slot_from :: "Chat \<Rightarrow> nat \<Rightarrow> u16 option" where
  "slot_from c i =
     (if i < 10000 then if map_of (privateChannels c) (of_nat i) = None then Some (of_nat i) else slot_from c (i + 1)
      else None)"
  by auto
termination
  by (relation "measure (\<lambda>(c, i). 10000 - i)") auto

declare slot_from.simps [simp del]

definition free_slot :: "Chat \<Rightarrow> u16 option" where
  "free_slot c = slot_from c 100"

definition createChannel :: "ChannelScripts \<Rightarrow> ChatPlayer \<Rightarrow> u16 \<Rightarrow> Chat \<Rightarrow> ChannelRef option \<times> Chat" where
  "createChannel scr p channelId c =
     (if getChannel scr c p channelId \<noteq> None then (None, c)
      else if channelId = CHANNEL_GUILD
      then (case pl_guild p of None \<Rightarrow> (None, c)
            | Some g \<Rightarrow> (Some (GuildRef g),
                c\<lparr>guildChannels := guildChannels c @ [(g, new_channel channelId (pl_guildName p))]\<rparr>))
      else if channelId = CHANNEL_PARTY
      then (case pl_party p of None \<Rightarrow> (None, c)
            | Some P \<Rightarrow> (Some (PartyRef P),
                c\<lparr>partyChannels := partyChannels c @ [(P, new_channel channelId ''Party'')]\<rparr>))
      else if channelId = CHANNEL_PRIVATE
      then if \<not> pl_premium p \<or> getPrivateChannel c p \<noteq> None then (None, c)
           else (case free_slot c of
                   None \<Rightarrow> (None, c)
                 | Some i \<Rightarrow> (Some (PrivateRef i),
                     c\<lparr>privateChannels := privateChannels c @
                        [(i, (new_private i (pl_name p @ CHR 0x27 # ''s Channel''))\<lparr>owner := pl_guid p\<rparr>)]\<rparr>))
      else (None, c))"

definition deleteChannel :: "ChatPlayer \<Rightarrow> u16 \<Rightarrow> Chat \<Rightarrow> bool \<times> Chat" where
  "deleteChannel p channelId c =
     (if channelId = CHANNEL_GUILD
      then (case pl_guild p of None \<Rightarrow> (False, c)
            | Some g \<Rightarrow> if map_of (guildChannels c) g = None then (False, c)
                         else (True, c\<lparr>guildChannels := erase g (guildChannels c)\<rparr>))
      else if channelId = CHANNEL_PARTY
      then (case pl_party p of None \<Rightarrow> (False, c)
            | Some P \<Rightarrow> if map_of (partyChannels c) P = None then (False, c)
                         else (True, c\<lparr>partyChannels := erase P (partyChannels c)\<rparr>))
      else if map_of (privateChannels c) channelId = None then (False, c)
      else (True, c\<lparr>privateChannels := erase channelId (privateChannels c)\<rparr>))"

definition addUserToChannel :: "ChannelScripts \<Rightarrow> ChatPlayer \<Rightarrow> u16 \<Rightarrow> Chat \<Rightarrow> ChannelRef option \<times> Chat" where
  "addUserToChannel scr p channelId c =
     (case getChannel scr c p channelId of
        None \<Rightarrow> (None, c)
      | Some r \<Rightarrow>
          (case deref c r of None \<Rightarrow> (None, c)
           | Some ch \<Rightarrow> let (added, ch') = addUser scr p ch
                        in if added then (Some r, set_users r (users ch') c) else (None, c)))"

definition removeUserFromChannel :: "ChannelScripts \<Rightarrow> ChatPlayer \<Rightarrow> u16 \<Rightarrow> Chat \<Rightarrow> bool \<times> Chat" where
  "removeUserFromChannel scr p channelId c =
     (case getChannel scr c p channelId of
        None \<Rightarrow> (False, c)
      | Some r \<Rightarrow>
          (case deref c r of None \<Rightarrow> (False, c)
           | Some ch \<Rightarrow>
               let (removed, ch') = removeUser p ch in
               if \<not> removed then (False, c)
               else
                 let c = set_users r (users ch') c;
                     ownerLeft = (getOwner c r = pl_guid p)
                 in if channelId = CHANNEL_PARTY \<and> users ch' = {}
                    then (True, case r of PartyRef P \<Rightarrow> c\<lparr>partyChannels := erase P (partyChannels c)\<rparr> | _ \<Rightarrow> c)
                    else if ownerLeft then (True, snd (deleteChannel p channelId c))
                    else (True, c)))"

definition leave_private :: "u32 set \<Rightarrow> ChatPlayer \<Rightarrow> u16 \<times> PrivateChatChannel \<Rightarrow> (u16 \<times> PrivateChatChannel) list" where
  "leave_private online p e =
     (case e of (i, ch) \<Rightarrow>
        let ch = snd (channel_removeInvite (pl_guid p) ch);
            ch = snd (removeUser p ch)
        in if owner ch = pl_guid p then [] else [(i, ch)])"

definition removeUserFromAllChannels :: "u32 set \<Rightarrow> ChatPlayer \<Rightarrow> Chat \<Rightarrow> Chat" where
  "removeUserFromAllChannels online p c = c\<lparr>
     normalChannels := map (apsnd (\<lambda>ch. snd (removeUser p ch))) (normalChannels c),
     partyChannels := map (apsnd (\<lambda>ch. snd (removeUser p ch))) (partyChannels c),
     guildChannels := map (apsnd (\<lambda>ch. snd (removeUser p ch))) (guildChannels c),
     privateChannels := concat (map (leave_private online p) (privateChannels c))\<rparr>"

definition speak_type :: "ChatPlayer \<Rightarrow> u16 \<Rightarrow> u8 \<Rightarrow> u8" where
  "speak_type p channelId type =
     (if channelId = CHANNEL_GUILD
      then (case pl_rankLevel p of Some level \<Rightarrow> if level > 1 then TALKTYPE_CHANNEL_O else TALKTYPE_CHANNEL_Y
            | None \<Rightarrow> TALKTYPE_CHANNEL_Y)
      else if channelId = CHANNEL_PRIVATE \<or> channelId = CHANNEL_PARTY then TALKTYPE_CHANNEL_Y
      else type)"

definition talkToChannel ::
  "ChannelScripts \<Rightarrow> u32 set \<Rightarrow> ChatPlayer \<Rightarrow> u8 \<Rightarrow> string \<Rightarrow> u16 \<Rightarrow> Chat \<Rightarrow> bool \<times> (u32 set \<times> u8) \<times> Chat" where
  "talkToChannel scr online p type text channelId c =
     (case getChannel scr c p channelId of
        None \<Rightarrow> (False, ({}, type), c)
      | Some r \<Rightarrow>
          (case deref c r of None \<Rightarrow> (False, ({}, type), c)
           | Some ch \<Rightarrow>
               let (allowed, type) = executeOnSpeakEvent scr ch p (speak_type p channelId type) text in
               if \<not> allowed then (False, ({}, type), c)
               else let (ok, receivers, ch') = talk online p ch
                    in (ok, (receivers, type), if ok then set_users r (users ch') c else c)))"

definition find_or_create :: "ChannelScripts \<Rightarrow> ChatPlayer \<Rightarrow> u16 \<Rightarrow> Chat \<Rightarrow> ChannelRef list \<times> Chat" where
  "find_or_create scr p channelId c =
     (case getChannel scr c p channelId of
        Some r \<Rightarrow> ([r], c)
      | None \<Rightarrow> (case createChannel scr p channelId c of (Some r, c) \<Rightarrow> ([r], c) | (None, c) \<Rightarrow> ([], c)))"

text \<open>The list for the channel dialog; \<open>None\<close> stands for the dummy entry that opens a private channel.\<close>

definition getChannelList :: "ChannelScripts \<Rightarrow> ChatPlayer \<Rightarrow> Chat \<Rightarrow> ChannelRef option list \<times> Chat" where
  "getChannelList scr p c =
     (let (guild, c) = (if pl_guild p \<noteq> None then find_or_create scr p CHANNEL_GUILD c else ([], c));
          (party, c) = (if pl_party p \<noteq> None then find_or_create scr p CHANNEL_PARTY c else ([], c));
          normal = concat (map (\<lambda>(i, _). case getChannel scr c p i of None \<Rightarrow> [] | Some r \<Rightarrow> [r]) (normalChannels c));
          private = concat (map (\<lambda>(i, ch). if isInvited ch (pl_guid p) then [PrivateRef i] else []) (privateChannels c));
          hasPrivate = list_ex (\<lambda>(_, ch). owner ch = pl_guid p) (privateChannels c);
          found = map Some (guild @ party @ normal @ private)
      in (if \<not> hasPrivate \<and> pl_premium p then None # found else found, c))"

text \<open>Reloading the scripts: the channels are dropped and registered again, their users are kept aside.\<close>

definition chat_clear :: "Chat \<Rightarrow> Chat" where
  "chat_clear c = c\<lparr>usersToRestore := map (apsnd users) (normalChannels c), normalChannels := []\<rparr>"

definition registerLuaChannel :: "u32 set \<Rightarrow> ChatChannel \<Rightarrow> Chat \<Rightarrow> Chat" where
  "registerLuaChannel online ch c =
     (let i = ch_id ch;
          c = (case map_of (normalChannels c) i of
                 Some old \<Rightarrow> c\<lparr>normalChannels := assign i ch (normalChannels c),
                               usersToRestore := assign i (users old) (usersToRestore c)\<rparr>
               | None \<Rightarrow> c\<lparr>normalChannels := normalChannels c @ [(i, ch)]\<rparr>)
      in case map_of (usersToRestore c) i of
           None \<Rightarrow> c
         | Some us \<Rightarrow> c\<lparr>normalChannels := adjust i (\<lambda>ch. ch\<lparr>users := users ch \<union> {u \<in> us. u \<in> online}\<rparr>) (normalChannels c),
                        usersToRestore := erase i (usersToRestore c)\<rparr>)"

section \<open>Requests of players\<close>

text \<open>The players online and the chat. \<open>byName\<close> is the lookup of a player by name.\<close>

record ChatServer =
  online :: "u32 \<rightharpoonup> ChatPlayer"
  chat :: Chat

definition sendClosePrivate :: "ChannelScripts \<Rightarrow> ChatPlayer \<Rightarrow> u16 \<Rightarrow> Chat \<Rightarrow> Chat" where
  "sendClosePrivate scr p channelId c =
     (if channelId = CHANNEL_GUILD \<or> channelId = CHANNEL_PARTY then snd (removeUserFromChannel scr p channelId c) else c)"

definition playerCreatePrivateChannel :: "ChannelScripts \<Rightarrow> u32 \<Rightarrow> ChatServer \<Rightarrow> ChatServer" where
  "playerCreatePrivateChannel scr playerId s =
     (case online s playerId of
        None \<Rightarrow> s
      | Some p \<Rightarrow>
          if \<not> pl_premium p then s
          else case createChannel scr p CHANNEL_PRIVATE (chat s) of
              (None, c) \<Rightarrow> s\<lparr>chat := c\<rparr>
            | (Some r, c) \<Rightarrow>
                (case deref c r of None \<Rightarrow> s\<lparr>chat := c\<rparr>
                 | Some ch \<Rightarrow> let (added, ch') = addUser scr p ch
                              in s\<lparr>chat := if added then set_users r (users ch') c else c\<rparr>))"

definition playerChannelInvite :: "(string \<Rightarrow> u32 option) \<Rightarrow> u32 \<Rightarrow> string \<Rightarrow> ChatServer \<Rightarrow> ChatServer" where
  "playerChannelInvite byName playerId name s =
     (case online s playerId of
        None \<Rightarrow> s
      | Some p \<Rightarrow>
          (case getPrivateChannel (chat s) p of
             None \<Rightarrow> s
           | Some i \<Rightarrow>
               (case Option.bind (byName name) (online s) of
                  None \<Rightarrow> s
                | Some q \<Rightarrow>
                    if pl_id p = pl_id q then s
                    else s\<lparr>chat := (chat s)\<lparr>privateChannels := adjust i (channel_invitePlayer q) (privateChannels (chat s))\<rparr>\<rparr>)))"

definition playerChannelExclude :: "(string \<Rightarrow> u32 option) \<Rightarrow> u32 \<Rightarrow> string \<Rightarrow> ChatServer \<Rightarrow> ChatServer" where
  "playerChannelExclude byName playerId name s =
     (case online s playerId of
        None \<Rightarrow> s
      | Some p \<Rightarrow>
          (case getPrivateChannel (chat s) p of
             None \<Rightarrow> s
           | Some i \<Rightarrow>
               (case Option.bind (byName name) (online s) of
                  None \<Rightarrow> s
                | Some q \<Rightarrow>
                    if pl_id p = pl_id q then s
                    else s\<lparr>chat := (chat s)\<lparr>privateChannels := adjust i (excludePlayer q) (privateChannels (chat s))\<rparr>\<rparr>)))"

definition CHANNEL_CAST :: u16 where "CHANNEL_CAST = 0xFF"

definition playerOpenChannel :: "ChannelScripts \<Rightarrow> (u32 \<Rightarrow> bool) \<Rightarrow> u32 \<Rightarrow> u16 \<Rightarrow> ChatServer \<Rightarrow> ChatServer" where
  "playerOpenChannel scr isBroadcasting playerId channelId s =
     (case online s playerId of
        None \<Rightarrow> s
      | Some p \<Rightarrow>
          if channelId = CHANNEL_CAST \<and> isBroadcasting playerId then s
          else s\<lparr>chat := snd (addUserToChannel scr p channelId (chat s))\<rparr>)"

definition playerCloseChannel :: "ChannelScripts \<Rightarrow> u32 \<Rightarrow> u16 \<Rightarrow> ChatServer \<Rightarrow> ChatServer" where
  "playerCloseChannel scr playerId channelId s =
     (case online s playerId of
        None \<Rightarrow> s
      | Some p \<Rightarrow> s\<lparr>chat := snd (removeUserFromChannel scr p channelId (chat s))\<rparr>)"

definition playerLogout :: "u32 \<Rightarrow> ChatServer \<Rightarrow> ChatServer" where
  "playerLogout playerId s =
     (case online s playerId of
        None \<Rightarrow> s
      | Some p \<Rightarrow> \<lparr>online = (online s)(playerId := None), chat = removeUserFromAllChannels (dom (online s)) p (chat s)\<rparr>)"

section \<open>The invariant\<close>

text \<open>
  Users of a channel are online; those of a private channel are its owner or invited to it; the owner of
  a private channel is online and owns no other.
\<close>

definition private_ok :: "(u32 \<rightharpoonup> ChatPlayer) \<Rightarrow> u16 \<Rightarrow> PrivateChatChannel \<Rightarrow> bool" where
  "private_ok on i ch \<longleftrightarrow> ch_id ch = i \<and> canJoinEvent ch = -1 \<and>
     (\<forall>u \<in> users ch. \<exists>p. on u = Some p \<and> isInvited ch (pl_guid p)) \<and> (\<exists>u p. on u = Some p \<and> pl_guid p = owner ch)"

definition people_ok :: "(u32 \<rightharpoonup> ChatPlayer) \<Rightarrow> bool" where
  "people_ok on \<longleftrightarrow> (\<forall>i p. on i = Some p \<longrightarrow> pl_id p = i) \<and>
     (\<forall>i j p q. on i = Some p \<longrightarrow> on j = Some q \<longrightarrow> pl_guid p = pl_guid q \<longrightarrow> i = j)"

definition keys_ok :: "Chat \<Rightarrow> bool" where
  "keys_ok c \<longleftrightarrow> distinct (map fst (normalChannels c)) \<and> distinct (map fst (privateChannels c)) \<and>
     distinct (map fst (partyChannels c)) \<and> distinct (map fst (guildChannels c))"

definition privates_ok :: "(u32 \<rightharpoonup> ChatPlayer) \<Rightarrow> (u16 \<rightharpoonup> PrivateChatChannel) \<Rightarrow> bool" where
  "privates_ok on m \<longleftrightarrow> (\<forall>i ch. m i = Some ch \<longrightarrow> private_ok on i ch) \<and>
     (\<forall>i j ch ch'. m i = Some ch \<longrightarrow> m j = Some ch' \<longrightarrow> owner ch = owner ch' \<longrightarrow> i = j)"

definition users_ok :: "u32 set \<Rightarrow> Chat \<Rightarrow> bool" where
  "users_ok on c \<longleftrightarrow> (\<forall>r ch. deref c r = Some ch \<longrightarrow> users ch \<subseteq> on)"

definition server_ok :: "ChatServer \<Rightarrow> bool" where
  "server_ok s \<longleftrightarrow> people_ok (online s) \<and> keys_ok (chat s) \<and>
     privates_ok (online s) (map_of (privateChannels (chat s))) \<and> users_ok (dom (online s)) (chat s)"

lemma map_of_adjust [simp]: "map_of (adjust k f m) = (map_of m)(k := map_option f (map_of m k))"
  by (auto simp: adjust_def fun_eq_iff split: option.split)

lemma keys_adjust [simp]: "map fst (adjust k f m) = map fst m"
proof -
  have "k \<in> fst ` set m \<Longrightarrow> map fst (assign k v m) = map fst m" for v
    by (induction k v m rule: assign.induct) auto
  then show ?thesis
    by (auto simp: adjust_def weak_map_of_SomeI split: option.split dest: map_of_SomeD) (metis fst_conv imageI map_of_SomeD)
qed

lemma keys_set_users [simp]: "keys_ok (set_users r us c) \<longleftrightarrow> keys_ok c"
  by (cases r) (simp_all add: keys_ok_def)

lemma users_truncate [simp]: "users (ChatChannel.truncate ch) = users ch" "canJoinEvent (ChatChannel.truncate ch) = canJoinEvent ch"
  by (simp_all add: ChatChannel.truncate_def)

lemma deref_set_users:
  "deref (set_users r us c) r' = (if r' = r then map_option (\<lambda>ch. ch\<lparr>users := us\<rparr>) (deref c r) else deref c r')"
  by (cases r; cases r') (auto simp: option.map_comp comp_def ChatChannel.truncate_def)

lemma privates_set_users:
  "map_of (privateChannels (set_users r us c)) =
     (case r of PrivateRef i \<Rightarrow> (map_of (privateChannels c))(i := map_option (\<lambda>ch. ch\<lparr>users := us\<rparr>) (map_of (privateChannels c) i))
      | _ \<Rightarrow> map_of (privateChannels c))"
  by (cases r) auto

lemma isInvited_alt: "isInvited ch g \<longleftrightarrow> g = owner ch \<or> g \<in> invites ch"
  by (simp add: isInvited_def)

lemma isInvited_users [simp]: "isInvited (ch\<lparr>users := us\<rparr>) g \<longleftrightarrow> isInvited ch g"
  by (simp add: isInvited_def)

lemma set_users_ok:
  assumes s: "server_ok s" and us: "us \<subseteq> dom (online s)"
    and p: "\<And>i ch. r = PrivateRef i \<Longrightarrow> map_of (privateChannels (chat s)) i = Some ch \<Longrightarrow>
      (\<forall>u \<in> us. \<exists>p. online s u = Some p \<and> isInvited ch (pl_guid p))"
  shows "server_ok (s\<lparr>chat := set_users r us (chat s)\<rparr>)"
proof -
  have "users_ok (dom (online s)) (set_users r us (chat s))"
    using s us by (auto simp: server_ok_def users_ok_def deref_set_users split: if_splits)
  moreover have "privates_ok (online s) (map_of (privateChannels (set_users r us (chat s))))"
  proof (cases r)
    case (PrivateRef i)
    then show ?thesis
      using s p[OF PrivateRef] unfolding server_ok_def privates_ok_def privates_set_users
      by (auto simp: private_ok_def)
  qed (use s in \<open>auto simp: server_ok_def privates_set_users\<close>)
  ultimately show ?thesis
    using s by (simp add: server_ok_def)
qed

lemma people_id: "server_ok s \<Longrightarrow> online s i = Some p \<Longrightarrow> pl_id p = i"
  by (simp add: server_ok_def people_ok_def)

lemma people_guid: "server_ok s \<Longrightarrow> online s i = Some p \<Longrightarrow> online s j = Some q \<Longrightarrow> pl_guid p = pl_guid q \<Longrightarrow> i = j"
  by (simp add: server_ok_def people_ok_def)

lemma privateD: "server_ok s \<Longrightarrow> map_of (privateChannels (chat s)) i = Some ch \<Longrightarrow> private_ok (online s) i ch"
  by (simp add: server_ok_def privates_ok_def)

lemma usersD: "server_ok s \<Longrightarrow> deref (chat s) r = Some ch \<Longrightarrow> users ch \<subseteq> dom (online s)"
  by (simp add: server_ok_def users_ok_def)

lemma getChannel_private: "getChannel scr c p channelId = Some (PrivateRef i) \<Longrightarrow>
    i = channelId \<and> (\<exists>ch. map_of (privateChannels c) i = Some ch \<and> isInvited ch (pl_guid p))"
  by (auto simp: getChannel_def split: if_splits option.splits)

lemma deref_private: "map_of (privateChannels c) i = Some ch \<Longrightarrow> deref c (PrivateRef i) = Some (ChatChannel.truncate ch)"
  by simp

subsection \<open>Opening, closing and talking\<close>

lemma add_ok:
  assumes s: "server_ok s" and p: "online s u = Some p"
    and r: "deref (chat s) r = Some ch" and pr: "\<And>i ch. r = PrivateRef i \<Longrightarrow> map_of (privateChannels (chat s)) i = Some ch \<Longrightarrow> isInvited ch (pl_guid p)"
  shows "server_ok (s\<lparr>chat := set_users r (insert (pl_id p) (users ch)) (chat s)\<rparr>)"
proof (rule set_users_ok[OF s])
  show "insert (pl_id p) (users ch) \<subseteq> dom (online s)"
    using usersD[OF s r] people_id[OF s p] p by auto
  fix i ch' assume r': "r = PrivateRef i" and ch': "map_of (privateChannels (chat s)) i = Some ch'"
  have "users ch = users ch'"
    using r r' ch' by auto
  then show "\<forall>u \<in> insert (pl_id p) (users ch). \<exists>p. online s u = Some p \<and> isInvited ch' (pl_guid p)"
    using privateD[OF s ch'] pr[OF r' ch'] people_id[OF s p] p by (auto simp: private_ok_def)
qed

lemma shrink_ok:
  assumes s: "server_ok s" and r: "deref (chat s) r = Some ch" and us: "us \<subseteq> users ch"
  shows "server_ok (s\<lparr>chat := set_users r us (chat s)\<rparr>)"
proof (rule set_users_ok[OF s])
  show "us \<subseteq> dom (online s)"
    using usersD[OF s r] us by auto
  fix i ch' assume r': "r = PrivateRef i" and ch': "map_of (privateChannels (chat s)) i = Some ch'"
  then show "\<forall>u \<in> us. \<exists>p. online s u = Some p \<and> isInvited ch' (pl_guid p)"
    using privateD[OF s ch'] us r by (auto simp: private_ok_def)
qed

lemma open_ok:
  assumes s: "server_ok s"
  shows "server_ok (playerOpenChannel scr isB playerId channelId s)"
proof (cases "online s playerId")
  case (Some p)
  show ?thesis
    using s
    by (auto simp: playerOpenChannel_def Some addUserToChannel_def addUser_def Let_def split: option.splits
        intro!: add_ok[OF s Some] dest!: getChannel_private)
qed (use s in \<open>simp add: playerOpenChannel_def\<close>)

lemma talk_ok: "server_ok s \<Longrightarrow> server_ok (s\<lparr>chat := snd (snd (talkToChannel scr on p type text channelId (chat s)))\<rparr>)"
  by (auto simp: talkToChannel_def talk_def prune_def split: option.splits prod.splits if_splits intro!: shrink_ok)

lemma delete_ok:
  assumes s: "server_ok s"
  shows "server_ok (s\<lparr>chat := snd (deleteChannel p channelId (chat s))\<rparr>)"
proof -
  have d: "distinct (map fst (normalChannels (chat s)))" "distinct (map fst (privateChannels (chat s)))"
    "distinct (map fst (partyChannels (chat s)))" "distinct (map fst (guildChannels (chat s)))"
    using s by (simp_all add: server_ok_def keys_ok_def)
  let ?c = "snd (deleteChannel p channelId (chat s))"
  have "deref ?c r = Some ch \<Longrightarrow> deref (chat s) r = Some ch" for r ch
    by (cases r) (auto simp: deleteChannel_def d split: if_splits option.splits dest: set_erase[THEN subsetD])
  then have "users_ok (dom (online s)) ?c"
    using s unfolding server_ok_def users_ok_def by blast
  moreover have "map_of (privateChannels ?c) i = Some ch \<Longrightarrow> map_of (privateChannels (chat s)) i = Some ch" for i ch
    by (auto simp: deleteChannel_def d split: if_splits option.splits dest: set_erase[THEN subsetD])
  then have "privates_ok (online s) (map_of (privateChannels ?c))"
    using s unfolding server_ok_def privates_ok_def by blast
  moreover have "keys_ok ?c"
    using d by (auto simp: deleteChannel_def keys_ok_def split: option.splits)
  ultimately show ?thesis
    using s by (simp add: server_ok_def)
qed

lemma erase_party_ok:
  assumes s: "server_ok s"
  shows "server_ok (s\<lparr>chat := (chat s)\<lparr>partyChannels := erase P (partyChannels (chat s))\<rparr>\<rparr>)"
proof -
  have d: "distinct (map fst (partyChannels (chat s)))"
    using s by (simp add: server_ok_def keys_ok_def)
  let ?c = "(chat s)\<lparr>partyChannels := erase P (partyChannels (chat s))\<rparr>"
  have "deref ?c r = Some ch \<Longrightarrow> deref (chat s) r = Some ch" for r ch
    by (cases r) (auto simp: d split: if_splits)
  then have "users_ok (dom (online s)) ?c"
    using s unfolding server_ok_def users_ok_def by blast
  then show ?thesis
    using s d by (simp add: server_ok_def keys_ok_def)
qed

lemma remove_ok:
  assumes s: "server_ok s"
  shows "server_ok (s\<lparr>chat := snd (removeUserFromChannel scr p channelId (chat s))\<rparr>)"
proof (cases "getChannel scr (chat s) p channelId")
  case (Some r)
  show ?thesis
  proof (cases "deref (chat s) r")
    case (Some ch)
    let ?s = "s\<lparr>chat := set_users r (users ch - {pl_id p}) (chat s)\<rparr>"
    have ok: "server_ok ?s"
      using shrink_ok[OF s Some] by blast
    show ?thesis
      using ok delete_ok[OF ok, of p channelId] erase_party_ok[OF ok] s
      by (auto simp: removeUserFromChannel_def \<open>getChannel scr (chat s) p channelId = Some r\<close> Some removeUser_def Let_def
          split: ChannelRef.split simp del: set_users.simps)
  qed (use s Some in \<open>simp add: removeUserFromChannel_def\<close>)
qed (use s in \<open>simp add: removeUserFromChannel_def\<close>)

subsection \<open>Private channels\<close>

lemma adjust_private_ok:
  assumes s: "server_ok s" and ch: "map_of (privateChannels (chat s)) i = Some ch"
    and f: "private_ok (online s) i (f ch)" "owner (f ch) = owner ch" "users (f ch) \<subseteq> users ch"
  shows "server_ok (s\<lparr>chat := (chat s)\<lparr>privateChannels := adjust i f (privateChannels (chat s))\<rparr>\<rparr>)"
proof -
  let ?c = "(chat s)\<lparr>privateChannels := adjust i f (privateChannels (chat s))\<rparr>"
  have "users_ok (dom (online s)) ?c"
    unfolding users_ok_def
  proof (intro allI impI)
    fix r ch' assume d: "deref ?c r = Some ch'"
    show "users ch' \<subseteq> dom (online s)"
    proof (cases "r = PrivateRef i")
      case True
      then show ?thesis
        using d ch f(3) usersD[OF s deref_private[OF ch]] by auto
    next
      case False
      then have "deref (chat s) r = Some ch'"
        using d by (cases r) (auto split: if_splits)
      then show ?thesis
        using usersD[OF s] by simp
    qed
  qed
  moreover have "privates_ok (online s) (map_of (privateChannels ?c))"
    using s ch f unfolding server_ok_def privates_ok_def by (auto split: if_splits)
  ultimately show ?thesis
    using s by (simp add: server_ok_def keys_ok_def)
qed

lemma getPrivateChannel_Some:
  assumes "getPrivateChannel c p = Some i" and "distinct (map fst (privateChannels c))"
  obtains ch where "map_of (privateChannels c) i = Some ch" "owner ch = pl_guid p"
proof -
  obtain ch where "List.find (\<lambda>(i, ch). owner ch = pl_guid p) (privateChannels c) = Some (i, ch)"
    using assms(1) by (auto simp: getPrivateChannel_def)
  then have "(i, ch) \<in> set (privateChannels c)" "owner ch = pl_guid p"
    by (auto simp: find_Some_iff) (metis nth_mem)
  with that assms(2) show ?thesis
    by simp
qed

lemma getPrivateChannel_None: "getPrivateChannel c p = None \<Longrightarrow> map_of (privateChannels c) i = Some ch \<Longrightarrow> owner ch \<noteq> pl_guid p"
  by (auto simp: getPrivateChannel_def find_None_iff dest: map_of_SomeD)

lemma invite_ok_chat:
  assumes s: "server_ok s"
  shows "server_ok (playerChannelInvite byName playerId name s)"
proof -
  have "server_ok (s\<lparr>chat := (chat s)\<lparr>privateChannels := adjust i (channel_invitePlayer q) (privateChannels (chat s))\<rparr>\<rparr>)"
    if g: "getPrivateChannel (chat s) p = Some i" for i p q
  proof -
    obtain ch where ch: "map_of (privateChannels (chat s)) i = Some ch"
      using getPrivateChannel_Some[OF g] s by (auto simp: server_ok_def keys_ok_def)
    show ?thesis
      using privateD[OF s ch] by (intro adjust_private_ok[OF s ch])
        (auto simp: private_ok_def channel_invitePlayer_def isInvited_alt)
  qed
  then show ?thesis
    using s by (auto simp: playerChannelInvite_def split: option.split)
qed

lemma exclude_private:
  assumes s: "server_ok s" and q: "online s u = Some q" and ch: "map_of (privateChannels (chat s)) i = Some ch"
  shows "private_ok (online s) i (excludePlayer q ch)"
proof -
  have "\<exists>p. online s v = Some p \<and> pl_guid p \<noteq> pl_guid q \<and> isInvited ch (pl_guid p)"
    if "v \<in> users ch" "v \<noteq> u" for v
    using privateD[OF s ch] that people_guid[OF s q, of v] unfolding private_ok_def by metis
  then show ?thesis
    using privateD[OF s ch] people_id[OF s q]
    by (fastforce simp: excludePlayer_def channel_removeInvite_def removeUser_def private_ok_def isInvited_alt)
qed

lemma exclude_ok:
  assumes s: "server_ok s"
  shows "server_ok (playerChannelExclude byName playerId name s)"
proof -
  have "server_ok (s\<lparr>chat := (chat s)\<lparr>privateChannels := adjust i (excludePlayer q) (privateChannels (chat s))\<rparr>\<rparr>)"
    if g: "getPrivateChannel (chat s) p = Some i" and q: "online s u = Some q" for i p q u
  proof -
    obtain ch where ch: "map_of (privateChannels (chat s)) i = Some ch"
      using getPrivateChannel_Some[OF g] s by (auto simp: server_ok_def keys_ok_def)
    show ?thesis
      using exclude_private[OF s q ch] by (intro adjust_private_ok[OF s ch])
        (auto simp: excludePlayer_def channel_removeInvite_def removeUser_def)
  qed
  then show ?thesis
    using s by (auto simp: playerChannelExclude_def bind_eq_Some_conv split: option.split)
qed

lemma slot_from_free: "slot_from c k = Some i \<Longrightarrow> map_of (privateChannels c) i = None"
  by (induction c k rule: slot_from.induct) (subst (asm) (2) slot_from.simps, simp split: if_splits)

lemma free_slot_free: "free_slot c = Some i \<Longrightarrow> map_of (privateChannels c) i = None"
  by (simp add: free_slot_def slot_from_free)

lemma append_ok:
  assumes s: "server_ok s" and p: "online s u = Some p"
    and n: "map_of (privateChannels (chat s)) i = None" and g: "getPrivateChannel (chat s) p = None"
  shows "server_ok (s\<lparr>chat := (chat s)\<lparr>privateChannels := privateChannels (chat s) @
    [(i, (new_private i nm)\<lparr>owner := pl_guid p\<rparr>)]\<rparr>\<rparr>)"
proof -
  let ?ch = "(new_private i nm)\<lparr>owner := pl_guid p\<rparr>"
  let ?c = "(chat s)\<lparr>privateChannels := privateChannels (chat s) @ [(i, ?ch)]\<rparr>"
  have m: "map_of (privateChannels ?c) = (map_of (privateChannels (chat s)))(i \<mapsto> ?ch)"
    using n by (auto simp: fun_eq_iff map_add_def split: option.split)
  have "private_ok (online s) i ?ch"
    using p by (auto simp: private_ok_def new_private_def)
  then have "privates_ok (online s) (map_of (privateChannels ?c))"
    using s getPrivateChannel_None[OF g] unfolding m server_ok_def privates_ok_def
    by (auto simp: new_private_def split: if_splits) metis+
  moreover have "users_ok (dom (online s)) ?c"
    unfolding users_ok_def
  proof (intro allI impI)
    fix r ch assume d: "deref ?c r = Some ch"
    show "users ch \<subseteq> dom (online s)"
    proof (cases "r = PrivateRef i")
      case True
      then show ?thesis
        using d n by (auto simp: new_private_def map_add_def)
    next
      case False
      then have "deref (chat s) r = Some ch"
        using d m by (cases r) auto
      then show ?thesis
        using usersD[OF s] by simp
    qed
  qed
  moreover have "keys_ok ?c"
    using s n by (auto simp: server_ok_def keys_ok_def map_of_eq_None_iff)
  ultimately show ?thesis
    using s by (simp add: server_ok_def)
qed

lemma create_private_ok:
  assumes s: "server_ok s"
  shows "server_ok (playerCreatePrivateChannel scr playerId s)"
proof (cases "online s playerId")
  case (Some p)
  show ?thesis
  proof (cases "pl_premium p \<and> getChannel scr (chat s) p CHANNEL_PRIVATE = None \<and> getPrivateChannel (chat s) p = None \<and> free_slot (chat s) \<noteq> None")
    case True
    then obtain i where i: "free_slot (chat s) = Some i"
      by auto
    let ?ch = "(new_private i (pl_name p @ CHR 0x27 # ''s Channel''))\<lparr>owner := pl_guid p\<rparr>"
    let ?c = "(chat s)\<lparr>privateChannels := privateChannels (chat s) @ [(i, ?ch)]\<rparr>"
    have n: "map_of (privateChannels (chat s)) i = None"
      using free_slot_free[OF i] .
    have ok: "server_ok (s\<lparr>chat := ?c\<rparr>)"
      using append_ok[OF s Some n] True by simp
    have d: "deref ?c (PrivateRef i) = Some (ChatChannel.truncate ?ch)"
      using n by (simp add: map_add_def)
    have inv: "isInvited ch (pl_guid p)" if "map_of (privateChannels ?c) i = Some ch" for ch
      using that n by (auto simp: map_add_def isInvited_def)
    have "server_ok (s\<lparr>chat := ?c\<rparr>\<lparr>chat := set_users (PrivateRef i) (insert (pl_id p) (users (ChatChannel.truncate ?ch))) ?c\<rparr>)"
      using add_ok[OF ok, of playerId p "PrivateRef i" "ChatChannel.truncate ?ch"] Some d inv
      by (simp del: set_users.simps deref.simps)
    then have "server_ok (s\<lparr>chat := set_users (PrivateRef i) (insert (pl_id p) {}) ?c\<rparr>)"
      by (simp add: new_private_def)
    then show ?thesis
      using True i n Some
      by (simp add: map_add_def playerCreatePrivateChannel_def createChannel_def CHANNEL_PRIVATE_def CHANNEL_GUILD_def CHANNEL_PARTY_def
          addUser_def executeCanJoinEvent_def new_private_def Let_def)
  next
    case False
    then show ?thesis
      using s Some by (auto simp: playerCreatePrivateChannel_def createChannel_def CHANNEL_PRIVATE_def CHANNEL_GUILD_def
          CHANNEL_PARTY_def)
  qed
qed (use s in \<open>simp add: playerCreatePrivateChannel_def\<close>)

subsection \<open>Logging in and out\<close>

lemma snd_removeUser: "snd (removeUser p ch) = ch\<lparr>users := users ch - {pl_id p}\<rparr>"
  by (simp add: removeUser_def)

definition left_private :: "ChatPlayer \<Rightarrow> PrivateChatChannel \<Rightarrow> PrivateChatChannel option" where
  "left_private p ch = (if owner ch = pl_guid p then None
     else Some (ch\<lparr>invites := invites ch - {pl_guid p}, users := users ch - {pl_id p}\<rparr>))"

lemma leave_private_alt: "leave_private on p (i, ch) = (case left_private p ch of None \<Rightarrow> [] | Some ch' \<Rightarrow> [(i, ch')])"
  by (simp add: leave_private_def channel_removeInvite_def snd_removeUser left_private_def Let_def)

lemma keys_leave: "set (map fst (concat (map (leave_private on p) m))) \<subseteq> set (map fst m)"
  by (induction m) (auto simp: leave_private_alt split: option.splits)

lemma distinct_leave: "distinct (map fst m) \<Longrightarrow> distinct (map fst (concat (map (leave_private on p) m)))"
proof (induction m)
  case (Cons e m)
  obtain k ch where e: "e = (k, ch)"
    by (cases e)
  have "k \<notin> set (map fst (concat (map (leave_private on p) m)))"
    using keys_leave[of on p m] Cons.prems e by auto
  then show ?case
    using Cons by (simp add: e leave_private_alt split: option.split)
qed simp

lemma map_of_leave:
  "distinct (map fst m) \<Longrightarrow> map_of (concat (map (leave_private on p) m)) i = Option.bind (map_of m i) (left_private p)"
proof (induction m)
  case (Cons e m)
  obtain k ch where e: "e = (k, ch)"
    by (cases e)
  have "map_of m k = None"
    using Cons.prems by (auto simp: e map_of_eq_None_iff)
  then show ?case
    using Cons by (auto simp: e leave_private_alt split: option.splits)
qed simp

lemma map_of_apsnd: "map_of (map (apsnd f) m) i = map_option f (map_of m i)"
  by (induction m) auto

lemma private_left:
  assumes "private_ok on i ch" and "people_ok on" and "on u = Some p" and "left_private p ch = Some ch'"
  shows "private_ok (on(u := None)) i ch'"
proof -
  have id: "pl_id p = u"
    using assms by (simp add: people_ok_def)
  have ch': "ch' = ch\<lparr>invites := invites ch - {pl_guid p}, users := users ch - {pl_id p}\<rparr>" and o: "owner ch \<noteq> pl_guid p"
    using assms(4) by (auto simp: left_private_def split: if_splits)
  have inv: "\<exists>q. (on(u := None)) v = Some q \<and> isInvited ch' (pl_guid q)" if v: "v \<in> users ch'" for v
  proof -
    obtain q where q: "on v = Some q" "isInvited ch (pl_guid q)"
      using assms(1) v by (auto simp: private_ok_def ch')
    have "v \<noteq> u"
      using v id by (simp add: ch')
    then have "pl_guid q \<noteq> pl_guid p"
      using assms(2,3) q unfolding people_ok_def by metis
    with q \<open>v \<noteq> u\<close> show ?thesis
      by (auto simp: isInvited_alt ch')
  qed
  obtain v q where "on v = Some q" "pl_guid q = owner ch"
    using assms(1) by (auto simp: private_ok_def)
  then have "\<exists>v q. (on(u := None)) v = Some q \<and> pl_guid q = owner ch'"
    using assms(3) o by (intro exI[of _ v] exI[of _ q]) (auto simp: ch')
  then show ?thesis
    using assms(1) inv by (simp add: private_ok_def ch')
qed

lemma logout_chat_ok:
  assumes s: "server_ok s"
  shows "server_ok (playerLogout u s)"
proof (cases "online s u")
  case (Some p)
  let ?c = "removeUserFromAllChannels (dom (online s)) p (chat s)"
  have people: "people_ok (online s)" and d: "distinct (map fst (privateChannels (chat s)))"
    using s by (auto simp: server_ok_def keys_ok_def)
  have m: "map_of (privateChannels ?c) i = Option.bind (map_of (privateChannels (chat s)) i) (left_private p)" for i
    using map_of_leave[OF d] by (simp add: removeUserFromAllChannels_def)
  have "privates_ok ((online s)(u := None)) (map_of (privateChannels ?c))"
    unfolding privates_ok_def
  proof (intro conjI allI impI)
    fix i ch assume "map_of (privateChannels ?c) i = Some ch"
    then show "private_ok ((online s)(u := None)) i ch"
      using private_left[OF privateD[OF s] people Some] by (auto simp: m bind_eq_Some_conv)
  next
    fix i j ch ch'
    assume a: "map_of (privateChannels ?c) i = Some ch" "map_of (privateChannels ?c) j = Some ch'" "owner ch = owner ch'"
    then show "i = j"
      using s unfolding server_ok_def privates_ok_def
      by (auto simp: m bind_eq_Some_conv left_private_def split: if_splits)
  qed
  moreover have "users_ok (dom ((online s)(u := None))) ?c"
    unfolding users_ok_def
  proof (intro allI impI)
    fix r ch assume r: "deref ?c r = Some ch"
    have "\<exists>ch0. deref (chat s) r = Some ch0 \<and> users ch \<subseteq> users ch0 - {pl_id p}"
      using r map_of_leave[OF d]
      by (cases r) (auto simp: removeUserFromAllChannels_def map_of_apsnd snd_removeUser bind_eq_Some_conv left_private_def split: if_splits)
    then show "users ch \<subseteq> dom ((online s)(u := None))"
      using usersD[OF s] people_id[OF s Some] by fastforce
  qed
  moreover have "keys_ok ?c"
    using s distinct_leave by (auto simp: server_ok_def keys_ok_def removeUserFromAllChannels_def comp_def)
  moreover have "people_ok ((online s)(u := None))"
    using people unfolding people_ok_def by auto
  ultimately show ?thesis
    by (simp add: playerLogout_def Some server_ok_def)
qed (use s in \<open>simp add: playerLogout_def\<close>)

lemma login_chat_ok:
  assumes s: "server_ok s" and p: "online s (pl_id p) = None" "\<forall>u q. online s u = Some q \<longrightarrow> pl_guid q \<noteq> pl_guid p"
  shows "server_ok (s\<lparr>online := (online s)(pl_id p \<mapsto> p)\<rparr>)"
proof -
  have "private_ok ((online s)(pl_id p \<mapsto> p)) i ch" if "private_ok (online s) i ch" for i ch
    using that p(1) unfolding private_ok_def by (metis fun_upd_apply option.distinct(1))
  then have "privates_ok ((online s)(pl_id p \<mapsto> p)) (map_of (privateChannels (chat s)))"
    using s unfolding server_ok_def privates_ok_def by blast
  moreover have "people_ok ((online s)(pl_id p \<mapsto> p))"
    using s p unfolding server_ok_def people_ok_def by (auto split: if_splits) metis
  ultimately show ?thesis
    using s by (auto simp: server_ok_def users_ok_def)
qed

text \<open>Guild, party, rank and account status of a player may change; identifier and character do not.\<close>

lemma change_chat_ok:
  assumes s: "server_ok s" and p: "online s u = Some p" "pl_id q = pl_id p" "pl_guid q = pl_guid p"
  shows "server_ok (s\<lparr>online := (online s)(u \<mapsto> q)\<rparr>)"
proof -
  have "private_ok ((online s)(u \<mapsto> q)) i ch" if "private_ok (online s) i ch" for i ch
    using that p unfolding private_ok_def by (metis fun_upd_apply option.inject)
  then have "privates_ok ((online s)(u \<mapsto> q)) (map_of (privateChannels (chat s)))"
    using s unfolding server_ok_def privates_ok_def by blast
  moreover have "people_ok ((online s)(u \<mapsto> q))"
    using s p unfolding server_ok_def people_ok_def by (auto split: if_splits)
  moreover have "users_ok (dom ((online s)(u \<mapsto> q))) (chat s)"
    using s p unfolding server_ok_def users_ok_def by (auto simp: insert_absorb dom_def)
  ultimately show ?thesis
    using s by (simp add: server_ok_def)
qed

subsection \<open>The dialog and reloading\<close>

lemma append_shared_ok:
  assumes s: "server_ok s"
  shows "map_of (guildChannels (chat s)) g = None \<Longrightarrow>
      server_ok (s\<lparr>chat := (chat s)\<lparr>guildChannels := guildChannels (chat s) @ [(g, new_channel i nm)]\<rparr>\<rparr>)"
    and "map_of (partyChannels (chat s)) P = None \<Longrightarrow>
      server_ok (s\<lparr>chat := (chat s)\<lparr>partyChannels := partyChannels (chat s) @ [(P, new_channel i nm)]\<rparr>\<rparr>)"
proof -
  have u: "users_ok (dom (online s)) (chat s)"
    using s by (simp add: server_ok_def)
  show "server_ok (s\<lparr>chat := (chat s)\<lparr>guildChannels := guildChannels (chat s) @ [(g, new_channel i nm)]\<rparr>\<rparr>)"
    if n: "map_of (guildChannels (chat s)) g = None"
  proof -
    let ?c = "(chat s)\<lparr>guildChannels := guildChannels (chat s) @ [(g, new_channel i nm)]\<rparr>"
    have "deref ?c r = Some ch \<Longrightarrow> deref (chat s) r = Some ch \<or> users ch = {}" for r ch
      by (cases r) (auto simp: map_add_def new_channel_def split: option.splits if_splits)
    then have "users_ok (dom (online s)) ?c"
      using u unfolding users_ok_def by (metis empty_subsetI)
    then show ?thesis
      using s n by (auto simp: server_ok_def keys_ok_def map_of_eq_None_iff)
  qed
  show "server_ok (s\<lparr>chat := (chat s)\<lparr>partyChannels := partyChannels (chat s) @ [(P, new_channel i nm)]\<rparr>\<rparr>)"
    if n: "map_of (partyChannels (chat s)) P = None"
  proof -
    let ?c = "(chat s)\<lparr>partyChannels := partyChannels (chat s) @ [(P, new_channel i nm)]\<rparr>"
    have "deref ?c r = Some ch \<Longrightarrow> deref (chat s) r = Some ch \<or> users ch = {}" for r ch
      by (cases r) (auto simp: map_add_def new_channel_def split: option.splits if_splits)
    then have "users_ok (dom (online s)) ?c"
      using u unfolding users_ok_def by (metis empty_subsetI)
    then show ?thesis
      using s n by (auto simp: server_ok_def keys_ok_def map_of_eq_None_iff)
  qed
qed

lemma find_or_create_ok:
  assumes s: "server_ok s" and i: "i = CHANNEL_GUILD \<or> i = CHANNEL_PARTY"
  shows "server_ok (s\<lparr>chat := snd (find_or_create scr p i (chat s))\<rparr>)"
  using s i append_shared_ok[OF s]
  by (auto simp: find_or_create_def createChannel_def CHANNEL_GUILD_def CHANNEL_PARTY_def getChannel_def
      split: option.splits if_splits)

lemma dialog_ok:
  assumes s: "server_ok s"
  shows "server_ok (s\<lparr>chat := snd (getChannelList scr p (chat s))\<rparr>)"
proof -
  have g: "server_ok (s\<lparr>chat := snd (if pl_guild p \<noteq> None then find_or_create scr p CHANNEL_GUILD (chat s) else ([], chat s))\<rparr>)"
    using s find_or_create_ok[OF s] by simp
  let ?s = "s\<lparr>chat := snd (if pl_guild p \<noteq> None then find_or_create scr p CHANNEL_GUILD (chat s) else ([], chat s))\<rparr>"
  have "server_ok (?s\<lparr>chat := snd (if pl_party p \<noteq> None then find_or_create scr p CHANNEL_PARTY (chat ?s) else ([], chat ?s))\<rparr>)"
    using g find_or_create_ok[OF g] by simp
  then show ?thesis
    by (cases "pl_guild p"; cases "pl_party p") (simp_all add: getChannelList_def Let_def split_def)
qed

lemma clear_ok: "server_ok s \<Longrightarrow> server_ok (s\<lparr>chat := chat_clear (chat s)\<rparr>)"
proof -
  assume s: "server_ok s"
  have "deref (chat_clear (chat s)) r = Some ch \<Longrightarrow> deref (chat s) r = Some ch" for r ch
    by (cases r) (auto simp: chat_clear_def)
  then have "users_ok (dom (online s)) (chat_clear (chat s))"
    using s unfolding server_ok_def users_ok_def by blast
  then show ?thesis
    using s by (auto simp: server_ok_def chat_clear_def keys_ok_def)
qed

lemma register_parts:
  "privateChannels (registerLuaChannel on ch c) = privateChannels c" "partyChannels (registerLuaChannel on ch c) = partyChannels c"
  "guildChannels (registerLuaChannel on ch c) = guildChannels c"
  by (auto simp: registerLuaChannel_def Let_def split: option.split)

lemma map_of_snoc: "m k = None \<Longrightarrow> [k \<mapsto> v] ++ m = m(k \<mapsto> v)"
  by (auto simp: fun_eq_iff map_add_def split: option.split)

definition restored :: "Chat \<Rightarrow> u16 \<Rightarrow> u32 set" where
  "restored c i = (case map_of (normalChannels c) i of
     Some old \<Rightarrow> users old
   | None \<Rightarrow> (case map_of (usersToRestore c) i of None \<Rightarrow> {} | Some us \<Rightarrow> us))"

lemma register_normal:
  "map_of (normalChannels (registerLuaChannel on ch c)) =
     (map_of (normalChannels c))(ch_id ch \<mapsto> ch\<lparr>users := users ch \<union> {u \<in> restored c (ch_id ch). u \<in> on}\<rparr>)"
  by (auto simp: registerLuaChannel_def Let_def restored_def map_of_snoc split: option.split)

lemma register_ok:
  assumes s: "server_ok s" and ch: "users ch = {}"
  shows "server_ok (s\<lparr>chat := registerLuaChannel (dom (online s)) ch (chat s)\<rparr>)"
proof -
  let ?c = "registerLuaChannel (dom (online s)) ch (chat s)"
  have "deref ?c r = Some ch' \<Longrightarrow> deref (chat s) r = Some ch' \<or> users ch' \<subseteq> dom (online s)" for r ch'
    using ch by (cases r) (auto simp: register_parts register_normal split: if_splits)
  then have "users_ok (dom (online s)) ?c"
    using s unfolding server_ok_def users_ok_def by blast
  moreover have "distinct (map fst (normalChannels ?c))"
    using s by (auto simp: server_ok_def keys_ok_def registerLuaChannel_def Let_def map_of_eq_None_iff split: option.split)
  ultimately show ?thesis
    using s by (simp add: server_ok_def keys_ok_def register_parts)
qed

section \<open>Reachable servers\<close>

definition empty_server :: ChatServer where
  "empty_server = \<lparr>online = Map.empty, chat = \<lparr>normalChannels = [], privateChannels = [], partyChannels = [], guildChannels = [],
     usersToRestore = []\<rparr>\<rparr>"

text \<open>
  \<open>sharing\<close> says whether a second player of a character that is online is let in: \<open>ProtocolGame::login\<close> does
  so for the shared account manager and where clones are allowed (\<open>OnlinePlayers.login_admitted\<close>).
\<close>

inductive chat_reachable :: "bool \<Rightarrow> ChatServer \<Rightarrow> bool" for sharing where
  start: "chat_reachable sharing empty_server"
| login: "chat_reachable sharing s \<Longrightarrow> online s (pl_id p) = None \<Longrightarrow>
    \<not> sharing \<longrightarrow> (\<forall>u q. online s u = Some q \<longrightarrow> pl_guid q \<noteq> pl_guid p) \<Longrightarrow>
    chat_reachable sharing (s\<lparr>online := (online s)(pl_id p \<mapsto> p)\<rparr>)"
| change: "chat_reachable sharing s \<Longrightarrow> online s u = Some p \<Longrightarrow> pl_id q = pl_id p \<Longrightarrow> pl_guid q = pl_guid p \<Longrightarrow>
    chat_reachable sharing (s\<lparr>online := (online s)(u \<mapsto> q)\<rparr>)"
| logout: "chat_reachable sharing s \<Longrightarrow> chat_reachable sharing (playerLogout u s)"
| create: "chat_reachable sharing s \<Longrightarrow> chat_reachable sharing (playerCreatePrivateChannel scr u s)"
| invite: "chat_reachable sharing s \<Longrightarrow> chat_reachable sharing (playerChannelInvite byName u name s)"
| exclude: "chat_reachable sharing s \<Longrightarrow> chat_reachable sharing (playerChannelExclude byName u name s)"
| openc: "chat_reachable sharing s \<Longrightarrow> chat_reachable sharing (playerOpenChannel scr isB u i s)"
| closec: "chat_reachable sharing s \<Longrightarrow> chat_reachable sharing (playerCloseChannel scr u i s)"
| talk: "chat_reachable sharing s \<Longrightarrow> online s u = Some p \<Longrightarrow>
    chat_reachable sharing (s\<lparr>chat := snd (snd (talkToChannel scr (dom (online s)) p type text i (chat s)))\<rparr>)"
| dialog: "chat_reachable sharing s \<Longrightarrow> online s u = Some p \<Longrightarrow> chat_reachable sharing (s\<lparr>chat := snd (getChannelList scr p (chat s))\<rparr>)"
| close_private: "chat_reachable sharing s \<Longrightarrow> online s u = Some p \<Longrightarrow> chat_reachable sharing (s\<lparr>chat := sendClosePrivate scr p i (chat s)\<rparr>)"
| reload: "chat_reachable sharing s \<Longrightarrow> chat_reachable sharing (s\<lparr>chat := chat_clear (chat s)\<rparr>)"
| register: "chat_reachable sharing s \<Longrightarrow> users ch = {} \<Longrightarrow>
    chat_reachable sharing (s\<lparr>chat := registerLuaChannel (dom (online s)) ch (chat s)\<rparr>)"

lemma chat_reachable_ok: "chat_reachable False s \<Longrightarrow> server_ok s"
proof (induction rule: chat_reachable.induct)
  case start
  have "deref (chat empty_server) r = None" for r
    by (cases r) (simp_all add: empty_server_def)
  then show ?case
    by (simp add: server_ok_def users_ok_def) (simp add: empty_server_def people_ok_def keys_ok_def privates_ok_def)
next
  case (closec s scr u i)
  then show ?case
    using remove_ok by (auto simp: playerCloseChannel_def split: option.split)
next
  case (close_private s u p scr i)
  then show ?case
    using remove_ok by (auto simp: sendClosePrivate_def)
qed (simp_all add: login_chat_ok change_chat_ok logout_chat_ok create_private_ok invite_ok_chat exclude_ok open_ok talk_ok
    dialog_ok clear_ok register_ok)

section \<open>Claims\<close>

text \<open>
  Claim C9. A message to a private channel reaches only players who are online and are its owner or invited
  to it; and the channel can be found, opened or spoken in only by such players. This holds, whatever the
  scripts answer, in every state that logins, logouts, reloads and the requests of players lead to on a
  server that lets in one player per character; \<open>clone_stays_user\<close> shows that it fails with clones.
\<close>

theorem private_channels_private:
  assumes "chat_reachable False s" and "online s u = Some p" and "map_of (normalChannels (chat s)) i = None"
    and "i \<noteq> CHANNEL_GUILD" and "i \<noteq> CHANNEL_PARTY" and "map_of (privateChannels (chat s)) i = Some ch"
    and "talkToChannel scr (dom (online s)) p type text i (chat s) = (ok, (receivers, type'), c')"
  shows "(\<forall>v. v \<in> receivers \<longrightarrow> (\<exists>q. online s v = Some q \<and> (pl_guid q = owner ch \<or> pl_guid q \<in> invites ch))) \<and>
    (ok \<longrightarrow> pl_guid p = owner ch \<or> pl_guid p \<in> invites ch) \<and>
    (getChannel scr (chat s) p i \<noteq> None \<longleftrightarrow> pl_guid p = owner ch \<or> pl_guid p \<in> invites ch)"
proof -
  have "private_ok (online s) i ch"
    using privateD[OF chat_reachable_ok[OF assms(1)] assms(6)] .
  moreover have "getChannel scr (chat s) p i = (if isInvited ch (pl_guid p) then Some (PrivateRef i) else None)"
    using assms(3-6) by (simp add: getChannel_def)
  ultimately show ?thesis
    using assms(6,7)
    by (auto simp: talkToChannel_def talk_def prune_def private_ok_def isInvited_alt split: if_splits prod.splits)
qed

text \<open>Owner 7 opens a private channel, invites 8 (identifier 2) and excludes nobody; 9 (identifier 3) is online too.\<close>

definition person :: "u32 \<Rightarrow> u32 \<Rightarrow> ChatPlayer" where
  "person i g = \<lparr>pl_id = i, pl_guid = g, pl_name = ''Ann'', pl_guild = None, pl_guildName = [], pl_rankLevel = None,
     pl_party = None, pl_premium = True\<rparr>"

definition quiet :: ChannelScripts where
  "quiet = \<lparr>scr_canJoin = (\<lambda>_ _. True), scr_onSpeak = (\<lambda>_ _ type _. (True, type))\<rparr>"

definition lobby :: ChatServer where
  "lobby = playerOpenChannel quiet (\<lambda>_. False) 2 100 (playerChannelInvite (\<lambda>_. Some 2) 1 ''Bob''
     (playerCreatePrivateChannel quiet 1
       (empty_server\<lparr>online := [1 \<mapsto> person 1 7, 2 \<mapsto> person 2 8, 3 \<mapsto> person 3 9]\<rparr>)))"

lemma lobby_reachable: "chat_reachable False lobby"
proof -
  have "chat_reachable False (empty_server\<lparr>online := [1 \<mapsto> person 1 7]\<rparr>)"
    using chat_reachable.login[OF chat_reachable.start, of "person 1 7"] by (simp add: person_def empty_server_def)
  from chat_reachable.login[OF this, of "person 2 8"]
  have "chat_reachable False (empty_server\<lparr>online := [1 \<mapsto> person 1 7, 2 \<mapsto> person 2 8]\<rparr>)"
    by (simp add: person_def empty_server_def)
  from chat_reachable.login[OF this, of "person 3 9"]
  have "chat_reachable False (empty_server\<lparr>online := [1 \<mapsto> person 1 7, 2 \<mapsto> person 2 8, 3 \<mapsto> person 3 9]\<rparr>)"
    by (simp add: person_def empty_server_def)
  then show ?thesis
    unfolding lobby_def by (intro chat_reachable.openc chat_reachable.invite chat_reachable.create)
qed

lemma slot_100: "slot_from c 100 = (if map_of (privateChannels c) 100 = None then Some 100 else slot_from c 101)"
  by (subst slot_from.simps) simp

lemmas chat_eval = playerOpenChannel_def playerChannelInvite_def playerCreatePrivateChannel_def createChannel_def getChannel_def
  addUserToChannel_def addUser_def executeCanJoinEvent_def getPrivateChannel_def free_slot_def slot_100 new_private_def
  adjust_def channel_invitePlayer_def isInvited_def CHANNEL_PRIVATE_def CHANNEL_GUILD_def CHANNEL_PARTY_def CHANNEL_CAST_def
  ChatChannel.truncate_def person_def empty_server_def quiet_def

lemma lobby_channel: "map_of (privateChannels (chat lobby)) 100 = Some
    \<lparr>ch_id = 100, ch_name = ''Ann'' @ CHR 0x27 # ''s Channel'', users = {1, 2}, canJoinEvent = -1, onSpeakEvent = -1,
     invites = {8}, owner = 7\<rparr>"
  by (simp add: lobby_def chat_eval insert_commute)

theorem private_channels_witness:
  "getChannel quiet (chat lobby) (person 3 9) 100 = None \<and>
   (\<exists>c. talkToChannel quiet {1, 2, 3} (person 1 7) 7 ''hi'' 100 (chat lobby) = (True, ({1, 2}, 7), c))"
proof -
  have n: "normalChannels (chat lobby) = []" and o: "online lobby = [1 \<mapsto> person 1 7, 2 \<mapsto> person 2 8, 3 \<mapsto> person 3 9]"
    by (simp_all add: lobby_def chat_eval)
  have "getChannel quiet (chat lobby) (person 3 9) 100 = None"
  proof -
    obtain ok r t c where "talkToChannel quiet (dom (online lobby)) (person 3 9) 7 ''hi'' 100 (chat lobby) = (ok, (r, t), c)"
      by (metis prod.exhaust)
    from private_channels_private[OF lobby_reachable, of 3, OF _ _ _ _ lobby_channel this]
    show ?thesis
      by (auto simp: n o CHANNEL_GUILD_def CHANNEL_PARTY_def person_def)
  qed
  moreover have "\<exists>c. talkToChannel quiet {1, 2, 3} (person 1 7) 7 ''hi'' 100 (chat lobby) = (True, ({1, 2}, 7), c)"
  proof -
    have "getChannel quiet (chat lobby) (person 1 7) 100 = Some (PrivateRef 100)"
      by (simp add: getChannel_def n lobby_channel isInvited_def person_def CHANNEL_GUILD_def CHANNEL_PARTY_def)
    then show ?thesis
      by (auto simp: talkToChannel_def lobby_channel talk_def prune_def executeOnSpeakEvent_def speak_type_def person_def
          CHANNEL_GUILD_def CHANNEL_PARTY_def CHANNEL_PRIVATE_def ChatChannel.truncate_def)
  qed
  ultimately show ?thesis by simp
qed

text \<open>
  With clones: 7 invites character 8, who is online twice, both open the channel, and 7 excludes the one
  the lookup by name gives. The invitation of the character is gone, the other player is still a user.
\<close>

definition twins :: ChatServer where
  "twins = playerChannelExclude (\<lambda>_. Some 3) 1 ''Ann''
     (playerOpenChannel quiet (\<lambda>_. False) 3 100 (playerOpenChannel quiet (\<lambda>_. False) 2 100
       (playerChannelInvite (\<lambda>_. Some 3) 1 ''Ann'' (playerCreatePrivateChannel quiet 1
         (empty_server\<lparr>online := [1 \<mapsto> person 1 7, 2 \<mapsto> person 2 8, 3 \<mapsto> person 3 8]\<rparr>)))))"

lemma clone_stays_user:
  "chat_reachable True twins \<and> map_of (privateChannels (chat twins)) 100 = Some
    \<lparr>ch_id = 100, ch_name = ''Ann'' @ CHR 0x27 # ''s Channel'', users = {1, 2}, canJoinEvent = -1, onSpeakEvent = -1,
     invites = {}, owner = 7\<rparr>"
proof
  have "chat_reachable True (empty_server\<lparr>online := [1 \<mapsto> person 1 7]\<rparr>)"
    using chat_reachable.login[OF chat_reachable.start, of "person 1 7" True] by (simp add: person_def empty_server_def)
  from chat_reachable.login[OF this, of "person 2 8"]
  have "chat_reachable True (empty_server\<lparr>online := [1 \<mapsto> person 1 7, 2 \<mapsto> person 2 8]\<rparr>)"
    by (simp add: person_def empty_server_def)
  from chat_reachable.login[OF this, of "person 3 8"]
  have "chat_reachable True (empty_server\<lparr>online := [1 \<mapsto> person 1 7, 2 \<mapsto> person 2 8, 3 \<mapsto> person 3 8]\<rparr>)"
    by (simp add: person_def empty_server_def)
  then show "chat_reachable True twins"
    unfolding twins_def
    by (intro chat_reachable.exclude chat_reachable.openc chat_reachable.invite chat_reachable.create)
  show "map_of (privateChannels (chat twins)) 100 = Some
    \<lparr>ch_id = 100, ch_name = ''Ann'' @ CHR 0x27 # ''s Channel'', users = {1, 2}, canJoinEvent = -1, onSpeakEvent = -1,
     invites = {}, owner = 7\<rparr>"
    by (simp add: twins_def chat_eval playerChannelExclude_def excludePlayer_def channel_removeInvite_def removeUser_def)
      (auto simp: insert_commute)
qed

text \<open>
  Reloading keeps the users: when the channels are dropped and a channel of the same number is
  registered again, its users are the users it had before who are still online.
\<close>

theorem reload_keeps_users:
  assumes "chat_reachable False s" and "map_of (normalChannels (chat s)) (ch_id ch) = Some old" and "users ch = {}"
  shows "map_of (normalChannels (registerLuaChannel (dom (online s)) ch (chat_clear (chat s)))) (ch_id ch) = Some (ch\<lparr>users := users old\<rparr>)"
proof -
  have "users old \<subseteq> dom (online s)"
    using usersD[OF chat_reachable_ok[OF assms(1)], of "NormalRef (ch_id ch)" old] assms(2) by simp
  moreover have "restored (chat_clear (chat s)) (ch_id ch) = users old"
    using assms(2) by (simp add: restored_def chat_clear_def map_of_apsnd)
  ultimately show ?thesis
    using assms(3) by (auto simp: register_normal intro!: ChatChannel.equality)
qed

definition helpdesk :: ChatChannel where
  "helpdesk = new_channel 9 ''Help''"

theorem reload_witness:
  "map_of (normalChannels (registerLuaChannel {1} helpdesk (chat_clear (chat
     (playerOpenChannel quiet (\<lambda>_. False) 1 9 (empty_server\<lparr>online := [1 \<mapsto> person 1 7],
        chat := registerLuaChannel {1} helpdesk (chat empty_server)\<rparr>)))))) 9 = Some (helpdesk\<lparr>users := {1}\<rparr>)"
proof -
  have "chat_reachable False (empty_server\<lparr>online := [1 \<mapsto> person 1 7]\<rparr>)"
    using chat_reachable.login[OF chat_reachable.start, of "person 1 7"] by (simp add: person_def empty_server_def)
  from chat_reachable.register[OF this, of helpdesk]
  have "chat_reachable False (empty_server\<lparr>online := [1 \<mapsto> person 1 7], chat := registerLuaChannel {1} helpdesk (chat empty_server)\<rparr>)"
    by (simp add: helpdesk_def new_channel_def empty_server_def)
  from reload_keeps_users[OF chat_reachable.openc[OF this, of quiet "\<lambda>_. False" 1 9], of helpdesk "helpdesk\<lparr>users := {1}\<rparr>"]
  show ?thesis
    by (simp add: helpdesk_def new_channel_def chat_eval registerLuaChannel_def Let_def)
qed

text \<open>
  When a player leaves a party, the pointer to the party is reset before the party channel is closed for
  the player. The channel is then not found, and the player stays among its users.
\<close>

theorem left_party_channel_stays_open: "pl_party p = None \<Longrightarrow> sendClosePrivate scr p CHANNEL_PARTY c = c"
  by (simp add: sendClosePrivate_def removeUserFromChannel_def getChannel_def CHANNEL_PARTY_def CHANNEL_GUILD_def)

end
