(* ===== verification/Advancement.thy ===== *)
theory Advancement
  imports TFS_Prelude
begin

text \<open>
  Levels, magic levels and skills of a player (player.h, player.cpp): experience gained and lost, mana spent
  and skill tries, online and through offline training.

  Counters are machine words as in the source; \<open>health\<close>, \<open>healthMax\<close> (\<open>int32_t\<close>) are words that are read
  as signed numbers where the code compares them. What the scripts make of a gain is the record \<open>Gains\<close>. The
  tries and mana a level needs are functions of the vocation (the source computes them in floating point).
  The bonuses of a reset are \<open>float\<close> members that only \<open>getMaxHealth\<close> and \<open>getMaxMana\<close> read, rounded to an \<open>int32_t\<close>; the
  rounded number is the member here. Percentages for the client are computed with \<open>double\<close>; here they are quotients of numbers.
\<close>


record Vocation =
  gainHP :: u32
  gainMana :: u32
  gainCap :: u32
  vocBaseSpeed :: u32
  getReqSkillTries :: "nat \<Rightarrow> u16 \<Rightarrow> u64"
  getReqMana :: "u32 \<Rightarrow> u64"
  soulMax :: u8

record Skill =
  tries :: u64
  skill_level :: u16
  percent :: u8

record Character =
  level :: u32
  experience :: u64
  levelPercent :: u8
  health :: s32
  healthMax :: s32
  varHealth :: s32
  resetHpBonus :: s32
  mana :: u32
  manaMax :: u32
  varMana :: s32
  resetManaBonus :: s32
  capacity :: u32
  baseSpeed :: u32
  magLevel :: u32
  manaSpent :: u64
  magLevelPercent :: u8
  skills :: "nat \<Rightarrow> Skill"
  soul :: u8

record Gains =
  onGainExperience :: "u64 \<Rightarrow> u64"
  onLoseExperience :: "u64 \<Rightarrow> u64"
  onGainSkillTries :: "nat \<Rightarrow> u64 \<Rightarrow> u64"
  flagSetMaxSpeed :: bool
  flagNotGainMana :: bool
  speedPerLevel :: u32
  playerMaxSpeed :: u32

section \<open>Small functions\<close>

definition MINIMUM_SKILL_LEVEL :: u16 where "MINIMUM_SKILL_LEVEL = 10"
definition SKILL_MAGLEVEL :: nat where "SKILL_MAGLEVEL = 7"
definition SKILL_LEVEL :: nat where "SKILL_LEVEL = 8"

text \<open>\<open>std::max<int32_t>\<close> of a number and a word.\<close>

definition max_s32 :: "s32 \<Rightarrow> s32 \<Rightarrow> s32" where
  "max_s32 a b = (if sint a < sint b then b else a)"

definition getExpForLevel :: "u64 \<Rightarrow> u64" where
  "getExpForLevel lv = (((lv - 6) * lv + 17) * lv - 12) div 6 * 100"

definition getBasisPointLevel :: "u64 \<Rightarrow> u64 \<Rightarrow> nat" where
  "getBasisPointLevel count nextLevelCount =
     (if nextLevelCount = 0 then 0
      else let result = unat count * 10000 div unat nextLevelCount
           in if result > 10000 then 0 else result)"

definition percent_of :: "u64 \<Rightarrow> u64 \<Rightarrow> u8" where
  "percent_of count nextLevelCount = of_nat (getBasisPointLevel count nextLevelCount div 100)"

definition getMaxHealth :: "Character \<Rightarrow> s32" where
  "getMaxHealth p = max_s32 1 (healthMax p + varHealth p + resetHpBonus p)"

definition getMaxMana :: "Character \<Rightarrow> u32" where
  "getMaxMana p = max_s32 0 (manaMax p + varMana p + resetManaBonus p)"

definition updateBaseSpeed :: "Vocation \<Rightarrow> Gains \<Rightarrow> Character \<Rightarrow> Character" where
  "updateBaseSpeed voc g p =
     p\<lparr>baseSpeed := if \<not> flagSetMaxSpeed g then vocBaseSpeed voc + speedPerLevel g * (level p - 1) else playerMaxSpeed g\<rparr>"

definition changeSoul :: "Vocation \<Rightarrow> int \<Rightarrow> Character \<Rightarrow> Character" where
  "changeSoul voc soulChange p =
     (if soulChange > 0
      then p\<lparr>soul := soul p + of_int (min soulChange (uint (soulMax voc) - uint (soul p)))\<rparr>
      else p\<lparr>soul := of_int (max 0 (uint (soul p) + soulChange))\<rparr>)"

section \<open>Experience\<close>

lemma measure_up: "(a :: u64) < b \<Longrightarrow> 2 ^ 64 - unat b < 2 ^ 64 - unat a"
proof -
  assume "a < b"
  then have "unat a < unat b"
    by (simp add: word_less_nat_alt)
  moreover have "unat b < 2 ^ LENGTH(64)"
    by (rule unsigned_less)
  ultimately show ?thesis
    by simp
qed

lemma unat_pred: "0 < (w :: 'a::len word) \<Longrightarrow> unat (w - 1) = unat w - 1"
  by (simp add: unat_minus_one word_neq_0_conv)

lemma pred_less: "(w :: 'a::len word) \<noteq> 0 \<Longrightarrow> unat (w - 1) < unat w"
  by (simp add: unat_minus_one unat_gt_0)

function level_up :: "Vocation \<Rightarrow> u64 \<Rightarrow> u64 \<Rightarrow> Character \<Rightarrow> u64 \<times> u64 \<times> Character" where
  "level_up voc cur next p =
     (if experience p \<ge> next
      then
        let p = p\<lparr>level := level p + 1, healthMax := healthMax p + gainHP voc, health := health p + gainHP voc,
                  manaMax := manaMax p + gainMana voc, mana := mana p + gainMana voc, capacity := capacity p + gainCap voc\<rparr>;
            next' = getExpForLevel (ucast (level p + 1))
        in if next \<ge> next' then (next, next', p) else level_up voc next next' p
      else (cur, next, p))"
  by pat_completeness auto
termination
  by (relation "measure (\<lambda>(voc, cur, next, p). 2 ^ 64 - unat next)")
    (use measure_up in \<open>auto simp: not_le\<close>)

declare level_up.simps [simp del]

definition addExperience :: "Vocation \<Rightarrow> Gains \<Rightarrow> u64 \<Rightarrow> Character \<Rightarrow> Character" where
  "addExperience voc g exp0 p =
     (let cur = getExpForLevel (ucast (level p)); next = getExpForLevel (ucast (level p + 1)) in
      if cur \<ge> next then p\<lparr>levelPercent := 0\<rparr>
      else
        let exp = onGainExperience g exp0 in
        if exp = 0 then p
        else
          let p = p\<lparr>experience := experience p + exp\<rparr>;
              prevLevel = level p;
              (cur, next, p) = level_up voc cur next p;
              p = (if prevLevel \<noteq> level p then updateBaseSpeed voc g (p\<lparr>health := getMaxHealth p, mana := getMaxMana p\<rparr>) else p)
          in p\<lparr>levelPercent := if next > cur then percent_of (experience p - cur) (next - cur) else 0\<rparr>)"

function level_down :: "Vocation \<Rightarrow> u64 \<Rightarrow> Character \<Rightarrow> u64 \<times> Character" where
  "level_down voc cur p =
     (if level p > 1 \<and> experience p < cur
      then
        let p = p\<lparr>level := level p - 1, healthMax := max_s32 0 (healthMax p - gainHP voc),
                  manaMax := max_s32 0 (manaMax p - gainMana voc), capacity := max_s32 0 (capacity p - gainCap voc)\<rparr>
        in level_down voc (getExpForLevel (ucast (level p))) p
      else (cur, p))"
  by pat_completeness auto
termination
  by (relation "measure (\<lambda>(voc, cur, p). unat (level p))") (auto simp: unat_pred word_gt_0 word_less_nat_alt)

declare level_down.simps [simp del]

text \<open>\<open>std::max<int64_t>(0, experience - exp)\<close>.\<close>

definition lose :: "u64 \<Rightarrow> u64 \<Rightarrow> u64" where
  "lose a b = (if sint (a - b) < 0 then 0 else a - b)"

definition removeExperience :: "Vocation \<Rightarrow> Gains \<Rightarrow> u64 \<Rightarrow> Character \<Rightarrow> Character" where
  "removeExperience voc g exp0 p =
     (if experience p = 0 \<or> exp0 = 0 then p
      else
        let exp = onLoseExperience g exp0 in
        if exp = 0 then p
        else
          let p = p\<lparr>experience := lose (experience p) exp\<rparr>;
              oldLevel = level p;
              (cur, p) = level_down voc (getExpForLevel (ucast (level p))) p;
              p = (if oldLevel \<noteq> level p then updateBaseSpeed voc g (p\<lparr>health := getMaxHealth p, mana := getMaxMana p\<rparr>) else p);
              next = getExpForLevel (ucast (level p + 1))
          in p\<lparr>levelPercent := if next > cur then percent_of (experience p - cur) (next - cur) else 0\<rparr>)"

section \<open>Skills and magic\<close>

text \<open>
  The loop that turns tries into levels, with the tries a level needs as a function \<open>req\<close>. The last
  component tells that a level was reached from which no further level can be gained.
\<close>

function climb :: "('l::len word \<Rightarrow> u64) \<Rightarrow> 'l word \<Rightarrow> u64 \<Rightarrow> u64 \<Rightarrow> u64 \<Rightarrow> u64 \<Rightarrow> 'l word \<times> u64 \<times> u64 \<times> u64 \<times> u64 \<times> bool" where
  "climb req l t count cur next =
     (if t + count \<ge> next
      then
        let count = count - (next - t);
            l = l + 1;
            next' = req (l + 1)
        in if next \<ge> next' then (l, 0, count, next, next', True) else climb req l 0 count next next'
      else (l, t, count, cur, next, False))"
  by pat_completeness auto
termination
  by (relation "measure (\<lambda>(req, l, t, count, cur, next). 2 ^ 64 - unat next)") (use measure_up in \<open>auto simp: not_le\<close>)

declare climb.simps [simp del]

definition addSkillAdvance :: "Vocation \<Rightarrow> Gains \<Rightarrow> nat \<Rightarrow> u64 \<Rightarrow> Character \<Rightarrow> Character" where
  "addSkillAdvance voc g skill count0 p =
     (let s = skills p skill;
          req = getReqSkillTries voc skill;
          cur = req (skill_level s); next = req (skill_level s + 1) in
      if cur \<ge> next then p
      else
        let count = onGainSkillTries g skill count0 in
        if count = 0 then p
        else
          let (l, t, count, cur, next, maxed) = climb req (skill_level s) (tries s) count cur next;
              t = t + (if maxed then 0 else count);
              newPercent = (if next > cur then percent_of t next else 0)
          in p\<lparr>skills := (skills p)(skill := \<lparr>tries = t, skill_level = l, percent = newPercent\<rparr>)\<rparr>)"

function fall :: "(u16 \<Rightarrow> u64) \<Rightarrow> u16 \<Rightarrow> u64 \<Rightarrow> u64 \<Rightarrow> u16 \<times> u64 \<times> u64" where
  "fall req l t count =
     (if count > t
      then
        let count = count - t
        in if l \<le> MINIMUM_SKILL_LEVEL then (MINIMUM_SKILL_LEVEL, 0, 0)
           else fall req (l - 1) (req l) count
      else (l, t, count))"
  by pat_completeness auto
termination
  by (relation "measure (\<lambda>(req, l, t, count). unat l)")
    (auto simp: MINIMUM_SKILL_LEVEL_def intro!: pred_less)

declare fall.simps [simp del]

text \<open>\<open>std::max<int32_t>(0, tries - count)\<close> of 64-bit numbers: the difference is cut to 32 bits.\<close>

definition cut_difference :: "u64 \<Rightarrow> u64 \<Rightarrow> u64" where
  "cut_difference t count = (let d = ucast (t - count) :: s32 in if sint d < 0 then 0 else ucast d)"

definition removeSkillTries :: "Vocation \<Rightarrow> nat \<Rightarrow> u64 \<Rightarrow> Character \<Rightarrow> Character" where
  "removeSkillTries voc skill count p =
     (let s = skills p skill;
          req = getReqSkillTries voc skill;
          (l, t, count) = fall req (skill_level s) (tries s) count;
          t = cut_difference t count
      in p\<lparr>skills := (skills p)(skill := \<lparr>tries = t, skill_level = l, percent = percent_of t (req l)\<rparr>)\<rparr>)"

definition addManaSpent :: "Vocation \<Rightarrow> Gains \<Rightarrow> u64 \<Rightarrow> Character \<Rightarrow> Character" where
  "addManaSpent voc g amount0 p =
     (if flagNotGainMana g then p
      else
        let cur = getReqMana voc (magLevel p); next = getReqMana voc (magLevel p + 1) in
        if cur \<ge> next then p
        else
          let amount = onGainSkillTries g SKILL_MAGLEVEL amount0 in
          if amount = 0 then p
          else
            let (l, t, amount, cur, next, maxed) = climb (getReqMana voc) (magLevel p) (manaSpent p) amount cur next
            in if maxed then p\<lparr>magLevel := l, manaSpent := t\<rparr>
               else p\<lparr>magLevel := l, manaSpent := t + amount,
                      magLevelPercent := if next > cur then percent_of (t + amount) next else 0\<rparr>)"

function mana_fall :: "(u32 \<Rightarrow> u64) \<Rightarrow> u32 \<Rightarrow> u64 \<Rightarrow> u64 \<Rightarrow> u32 \<times> u64 \<times> u64" where
  "mana_fall req l t amount =
     (if amount > t \<and> l > 0 then mana_fall req (l - 1) (req l) (amount - t) else (l, t, amount))"
  by pat_completeness auto
termination
  by (relation "measure (\<lambda>(req, l, t, amount). unat l)") (auto intro!: pred_less)

declare mana_fall.simps [simp del]

definition removeManaSpent :: "Vocation \<Rightarrow> u64 \<Rightarrow> Character \<Rightarrow> Character" where
  "removeManaSpent voc amount p =
     (if amount = 0 then p
      else
        let (l, t, amount) = mana_fall (getReqMana voc) (magLevel p) (manaSpent p) amount;
            t = t - amount;
            next = getReqMana voc (l + 1)
        in p\<lparr>magLevel := l, manaSpent := t,
             magLevelPercent := if next > getReqMana voc l then percent_of t next else 0\<rparr>)"

text \<open>
  Offline training. The percentage of a skill is stored in eight bits without the division by 100 that
  the other functions make. The texts that are sent are left out.
\<close>

definition addOfflineTrainingTries :: "Vocation \<Rightarrow> Gains \<Rightarrow> nat \<Rightarrow> u64 \<Rightarrow> Character \<Rightarrow> bool \<times> Character" where
  "addOfflineTrainingTries voc g skill tries0 p =
     (if tries0 = 0 \<or> skill = SKILL_LEVEL then (False, p)
      else if skill = SKILL_MAGLEVEL
      then
        let cur = getReqMana voc (magLevel p); next = getReqMana voc (magLevel p + 1) in
        if cur \<ge> next then (False, p)
        else
          let tr = onGainSkillTries g SKILL_MAGLEVEL tries0;
              (l, t, tr, cur, next, maxed) = climb (getReqMana voc) (magLevel p) (manaSpent p) tr cur next;
              t = t + (if maxed then 0 else tr);
              newPercent = (if next > cur then percent_of t next else 0)
          in (maxed \<or> l \<noteq> magLevel p \<or> newPercent \<noteq> magLevelPercent p, p\<lparr>magLevel := l, manaSpent := t, magLevelPercent := newPercent\<rparr>)
      else
        let s = skills p skill;
            req = getReqSkillTries voc skill;
            cur = req (skill_level s); next = req (skill_level s + 1) in
        if cur \<ge> next then (False, p)
        else
          let tr = onGainSkillTries g skill tries0;
              (l, t, tr, cur, next, maxed) = climb req (skill_level s) (tries s) tr cur next;
              t = t + (if maxed then 0 else tr);
              newPercent = (if next > cur then of_nat (getBasisPointLevel t next) else 0)
          in (maxed \<or> l \<noteq> skill_level s \<or> newPercent \<noteq> percent s,
              p\<lparr>skills := (skills p)(skill := \<lparr>tries = t, skill_level = l, percent = newPercent\<rparr>)\<rparr>))"

section \<open>The experience of a level\<close>

definition exp_poly :: "nat \<Rightarrow> int" where
  "exp_poly n = ((int n - 6) * int n + 17) * int n - 12"

definition exp_for :: "nat \<Rightarrow> nat" where
  "exp_for n = nat (exp_poly n div 6 * 100)"

abbreviation MAX_LEVEL :: nat where "MAX_LEVEL \<equiv> 1000000"

lemma exp_poly_Suc: "exp_poly (Suc n) = exp_poly n + 3 * (int n * int n - 3 * int n + 4)"
  by (simp add: exp_poly_def algebra_simps)

lemma step_pos: "int n * int n - 3 * int n + 4 \<ge> 2"
proof -
  have "(2 * int n - 3)\<^sup>2 \<ge> 0"
    by simp
  then have "4 * (int n * int n) - 12 * int n + 9 \<ge> 0"
    by (simp add: power2_eq_square algebra_simps)
  then show ?thesis by linarith
qed

lemma exp_poly_mono: "exp_poly n + 6 \<le> exp_poly (Suc n)"
  using step_pos[of n] by (simp add: exp_poly_Suc)

lemma exp_poly_le: "m \<le> n \<Longrightarrow> exp_poly m \<le> exp_poly n"
proof (induction rule: dec_induct)
  case (step n)
  then show ?case
    using exp_poly_mono[of n] by linarith
qed simp

lemma exp_poly_nonneg: "1 \<le> n \<Longrightarrow> 0 \<le> exp_poly n"
  using exp_poly_le[of 1 n] by (simp add: exp_poly_def)

lemma exp_for_less_Suc: "1 \<le> n \<Longrightarrow> exp_for n < exp_for (Suc n)"
proof -
  assume n: "1 \<le> n"
  have "exp_poly n div 6 + 1 = (exp_poly n + 6) div 6"
    by simp
  also have "\<dots> \<le> exp_poly (Suc n) div 6"
    using exp_poly_mono by (intro zdiv_mono1) auto
  finally have "exp_poly n div 6 < exp_poly (Suc n) div 6"
    by simp
  moreover have "0 \<le> exp_poly n div 6"
    using exp_poly_nonneg[OF n] by simp
  ultimately show ?thesis
    by (simp add: exp_for_def)
qed

lemma exp_for_mono:
  assumes "1 \<le> m" and "m \<le> n"
  shows "exp_for m \<le> exp_for n"
  using assms(2,1)
proof (induction rule: dec_induct)
  case (step n)
  then show ?case
    using exp_for_less_Suc[of n] by linarith
qed simp

lemma exp_for_strict: "1 \<le> m \<Longrightarrow> m < n \<Longrightarrow> exp_for m < exp_for n"
  using exp_for_mono[of "Suc m" n] exp_for_less_Suc[of m] by simp

lemma exp_for_reflect: "1 \<le> n \<Longrightarrow> exp_for m < exp_for n \<Longrightarrow> 1 \<le> m \<Longrightarrow> m < n"
  using exp_for_mono[of n m] by (meson leD leI)

lemma exp_word:
  assumes n: "1 \<le> n" "n \<le> MAX_LEVEL"
  shows "unat (getExpForLevel (of_nat n)) = exp_for n"
proof -
  let ?v = "exp_poly n"
  have lo: "0 \<le> ?v"
    using exp_poly_nonneg[OF n(1)] .
  have "?v \<le> exp_poly MAX_LEVEL"
    using exp_poly_le[OF n(2)] .
  then have hi: "?v \<le> 999994000016999988"
    by (simp add: exp_poly_def)
  have w: "((of_nat n - 6) * of_nat n + 17) * of_nat n - 12 = (of_int ?v :: u64)"
    by (simp add: exp_poly_def)
  have u: "uint (of_int ?v :: u64) = ?v"
    using lo hi by (simp add: uint_word_of_int)
  have d: "uint ((of_int ?v :: u64) div 6) = ?v div 6"
    by (simp add: uint_div_distrib u)
  have q: "?v div 6 \<le> 166665666669499998"
    using zdiv_mono1[OF hi, of 6] by simp
  have "uint ((of_int ?v :: u64) div 6 * 100) = (?v div 6 * 100) mod 2 ^ 64"
    using d by (simp add: uint_word_ariths)
  also have "\<dots> = ?v div 6 * 100"
    using lo q by (intro mod_pos_pos_trivial) auto
  finally show ?thesis
    unfolding getExpForLevel_def w exp_for_def by (metis unat_eq_nat_uint)
qed

lemma level_word:
  assumes "1 \<le> unat (l :: u32)" "unat l \<le> MAX_LEVEL"
  shows "unat (getExpForLevel (ucast l)) = exp_for (unat l)"
proof -
  have "(ucast l :: u64) = of_nat (unat l)"
    by (simp add: unsigned_of_nat word_unat_eq_iff unsigned_ucast_eq)
  then show ?thesis
    using exp_word[OF assms] by simp
qed

lemma level_Suc:
  assumes "unat (l :: u32) < MAX_LEVEL"
  shows "unat (l + 1) = Suc (unat l)"
  using unat_add_of_nat[of l 1] assms by simp

text \<open>The level of a character belongs to the experience.\<close>

definition level_ok :: "Character \<Rightarrow> bool" where
  "level_ok p \<longleftrightarrow> 1 \<le> unat (level p) \<and> unat (level p) < MAX_LEVEL \<and>
     exp_for (unat (level p)) \<le> unat (experience p) \<and> unat (experience p) < exp_for (Suc (unat (level p)))"

lemma level_ok_unique: "level_ok p \<Longrightarrow> level_ok q \<Longrightarrow> experience p = experience q \<Longrightarrow> level p = level q"
proof -
  assume a: "level_ok p" "level_ok q" "experience p = experience q"
  have "\<not> unat (level p) < unat (level q)" "\<not> unat (level q) < unat (level p)"
    using a exp_for_mono[of "Suc (unat (level p))" "unat (level q)"] exp_for_mono[of "Suc (unat (level q))" "unat (level p)"]
    by (auto simp: level_ok_def)
  then show ?thesis
    by (simp add: word_unat_eq_iff)
qed

section \<open>Gaining and losing levels\<close>

definition raised :: "Vocation \<Rightarrow> Character \<Rightarrow> Character \<Rightarrow> bool" where
  "raised voc p q \<longleftrightarrow> experience q = experience p \<and> unat (level p) \<le> unat (level q) \<and>
     healthMax q = healthMax p + of_nat (unat (level q) - unat (level p)) * gainHP voc \<and>
     manaMax q = manaMax p + of_nat (unat (level q) - unat (level p)) * gainMana voc \<and>
     capacity q = capacity p + of_nat (unat (level q) - unat (level p)) * gainCap voc"

lemma raised_refl: "raised voc p p"
  by (simp add: raised_def)

lemma raised_step:
  assumes "raised voc (p\<lparr>level := l, healthMax := healthMax p + gainHP voc, health := h, manaMax := manaMax p + gainMana voc,
      mana := m, capacity := capacity p + gainCap voc\<rparr>) q" and "unat l = Suc (unat (level p))"
  shows "raised voc p q"
proof -
  have "Suc (unat (level p)) \<le> unat (level q)"
    using assms by (simp add: raised_def)
  then obtain k where k: "unat (level q) = Suc (unat (level p)) + k"
    by (metis le_Suc_ex)
  then show ?thesis
    using assms by (simp add: raised_def algebra_simps)
qed

lemma level_up_correct:
  assumes "1 \<le> unat (level p)" and "unat (level p) < MAX_LEVEL" and "unat (experience p) < exp_for MAX_LEVEL"
    and "exp_for (unat (level p)) \<le> unat (experience p)"
    and "unat cur = exp_for (unat (level p))" and "unat next = exp_for (Suc (unat (level p)))"
    and "level_up voc cur next p = (c, n, q)"
  shows "level_ok q \<and> raised voc p q \<and> unat c = exp_for (unat (level q)) \<and> unat n = exp_for (Suc (unat (level q)))"
  using assms
proof (induction voc cur "next" p arbitrary: c n q rule: level_up.induct)
  case (1 voc cur "next" p)
  show ?case
  proof (cases "experience p \<ge> next")
    case True
    let ?p = "p\<lparr>level := level p + 1, healthMax := healthMax p + gainHP voc, health := health p + gainHP voc,
                  manaMax := manaMax p + gainMana voc, mana := mana p + gainMana voc, capacity := capacity p + gainCap voc\<rparr>"
    have l: "unat (level p + 1) = Suc (unat (level p))"
      using level_Suc 1 by simp
    have reach: "exp_for (Suc (unat (level p))) \<le> unat (experience p)"
      using True 1(7) by (simp add: word_le_nat_alt)
    then have lt: "Suc (unat (level p)) < MAX_LEVEL"
      using exp_for_reflect[of MAX_LEVEL "Suc (unat (level p))"] 1(4) by simp
    let ?n = "getExpForLevel (ucast (level p + 1 + 1))"
    have l2: "unat (level p + 1 + 1) = Suc (Suc (unat (level p)))"
      using level_Suc[of "level p + 1"] l lt by simp
    have n: "unat ?n = exp_for (Suc (Suc (unat (level p))))"
      using level_word[of "level p + 1 + 1"] l2 lt by simp
    have less: "\<not> next \<ge> ?n"
      using n 1(7) exp_for_less_Suc[of "Suc (unat (level p))"] by (simp add: word_le_nat_alt)
    have rec: "level_up voc next ?n ?p = (c, n, q)"
      using 1(8) True less by (subst (asm) level_up.simps) (simp add: Let_def)
    have "level_ok q \<and> raised voc ?p q \<and> unat c = exp_for (unat (level q)) \<and> unat n = exp_for (Suc (unat (level q)))"
      using 1(1)[of ?p ?n c n q] True less lt l n reach 1(4,7) rec by simp
    then show ?thesis
      using l by (auto intro: raised_step)
  next
    case False
    then have "(c, n, q) = (cur, next, p)"
      using 1(8) by (subst (asm) level_up.simps) simp
    then show ?thesis
      using False 1(2-7) by (simp add: level_ok_def raised_refl word_le_nat_alt)
  qed
qed

lemma speed_rest: "level (updateBaseSpeed voc g p) = level p" "experience (updateBaseSpeed voc g p) = experience p"
  "healthMax (updateBaseSpeed voc g p) = healthMax p" "manaMax (updateBaseSpeed voc g p) = manaMax p"
  "capacity (updateBaseSpeed voc g p) = capacity p" "health (updateBaseSpeed voc g p) = health p"
  by (simp_all add: updateBaseSpeed_def)

lemma addExperience_raises:
  assumes ok: "level_ok p" and e: "onGainExperience g e0 = e" "e \<noteq> 0" and small: "unat (experience p) + unat e < exp_for MAX_LEVEL"
  shows "level_ok (addExperience voc g e0 p) \<and> raised voc (p\<lparr>experience := experience p + e\<rparr>) (addExperience voc g e0 p)"
proof -
  let ?p = "p\<lparr>experience := experience p + e\<rparr>"
  let ?c = "getExpForLevel (ucast (level p))" and ?n = "getExpForLevel (ucast (level p + 1))"
  have l: "1 \<le> unat (level p)" "unat (level p) < MAX_LEVEL"
    using ok by (simp_all add: level_ok_def)
  have c: "unat ?c = exp_for (unat (level p))" and n: "unat ?n = exp_for (Suc (unat (level p)))"
    using level_word[of "level p"] level_word[of "level p + 1"] level_Suc l by simp_all
  have lt: "\<not> ?c \<ge> ?n"
    using exp_for_less_Suc[OF l(1)] by (simp add: word_le_nat_alt c n)
  have big: "exp_for MAX_LEVEL < 2 ^ 64"
    by (simp add: exp_for_def exp_poly_def)
  have x: "unat (experience p + e) = unat (experience p) + unat e"
    using small big by (simp add: unat_word_ariths)
  obtain c' n' q where q: "level_up voc ?c ?n ?p = (c', n', q)"
    by (metis prod.exhaust)
  have r: "level_ok q \<and> raised voc ?p q"
    using level_up_correct[OF _ _ _ _ _ _ q] l small x ok c n by (simp add: level_ok_def)
  have "level (addExperience voc g e0 p) = level q" "experience (addExperience voc g e0 p) = experience q"
    "healthMax (addExperience voc g e0 p) = healthMax q" "manaMax (addExperience voc g e0 p) = manaMax q"
    "capacity (addExperience voc g e0 p) = capacity q"
    using lt e q by (simp_all add: addExperience_def Let_def speed_rest)
  then have "level_ok (addExperience voc g e0 p) = level_ok q" "raised voc ?p (addExperience voc g e0 p) = raised voc ?p q"
    by (simp_all add: level_ok_def raised_def)
  then show ?thesis
    using r by simp
qed

lemma addExperience_fills:
  assumes ok: "level_ok p" and e: "onGainExperience g e0 = e" "e \<noteq> 0" and small: "unat (experience p) + unat e < exp_for MAX_LEVEL"
  shows "let q = addExperience voc g e0 p in if level q = level p then health q = health p \<and> mana q = mana p else health q = getMaxHealth q \<and> mana q = getMaxMana q"
proof -
  let ?p = "p\<lparr>experience := experience p + e\<rparr>"
  let ?c = "getExpForLevel (ucast (level p))" and ?n = "getExpForLevel (ucast (level p + 1))"
  have l: "1 \<le> unat (level p)" "unat (level p) < MAX_LEVEL"
    using ok by (simp_all add: level_ok_def)
  have c: "unat ?c = exp_for (unat (level p))" and n: "unat ?n = exp_for (Suc (unat (level p)))"
    using level_word[of "level p"] level_word[of "level p + 1"] level_Suc l by simp_all
  have lt: "\<not> ?c \<ge> ?n"
    using exp_for_less_Suc[OF l(1)] by (simp add: word_le_nat_alt c n)
  have "exp_for MAX_LEVEL < 2 ^ 64"
    by (simp add: exp_for_def exp_poly_def)
  then have x: "unat (experience p + e) = unat (experience p) + unat e"
    using small by (simp add: unat_word_ariths)
  obtain c' n' r where r: "level_up voc ?c ?n ?p = (c', n', r)"
    by (metis prod.exhaust)
  have "level_ok r \<and> raised voc ?p r"
    using level_up_correct[OF _ _ _ _ _ _ r] l small x ok c n by (simp add: level_ok_def)
  then have stay: "r = ?p" if "level r = level p"
    using that r n by (subst (asm) level_up.simps) (auto simp: level_ok_def raised_def word_le_nat_alt split: if_splits)
  have "addExperience voc g e0 p = (if level p \<noteq> level r then updateBaseSpeed voc g (r\<lparr>health := getMaxHealth r, mana := getMaxMana r\<rparr>) else r)
      \<lparr>levelPercent := if n' > c' then percent_of (experience r - c') (n' - c') else 0\<rparr>"
    using lt e r by (simp add: addExperience_def Let_def speed_rest)
  then show ?thesis
    using stay by (auto simp: getMaxHealth_def getMaxMana_def updateBaseSpeed_def Let_def)
qed

lemma level_down_correct:
  assumes "1 \<le> unat (level p)" and "unat (level p) < MAX_LEVEL"
    and "unat (experience p) < exp_for (Suc (unat (level p)))" and "unat cur = exp_for (unat (level p))"
    and "level_down voc cur p = (c, q)"
  shows "level_ok q \<and> experience q = experience p \<and> unat c = exp_for (unat (level q)) \<and> level q \<le> level p"
  using assms
proof (induction voc cur p arbitrary: c q rule: level_down.induct)
  case (1 voc cur p)
  show ?case
  proof (cases "level p > 1 \<and> experience p < cur")
    case True
    let ?p = "p\<lparr>level := level p - 1, healthMax := max_s32 0 (healthMax p - gainHP voc),
                  manaMax := max_s32 0 (manaMax p - gainMana voc), capacity := max_s32 0 (capacity p - gainCap voc)\<rparr>"
    have l: "unat (level p - 1) = unat (level p) - 1" "1 < unat (level p)"
      using True unat_pred[of "level p"] by (auto simp: word_less_nat_alt)
    let ?n = "getExpForLevel (ucast (level p - 1))"
    have n: "unat ?n = exp_for (unat (level p) - 1)"
      using level_word[of "level p - 1"] l 1(3) by simp
    have rec: "level_down voc ?n ?p = (c, q)"
      using 1(6) True by (subst (asm) level_down.simps) (simp add: Let_def)
    have x: "unat (experience p) < exp_for (unat (level p))"
      using True 1(5) by (simp add: word_less_nat_alt)
    have "level_ok q \<and> experience q = experience p \<and> unat c = exp_for (unat (level q)) \<and> level q \<le> level p - 1"
      using 1(1)[of ?p c q] True l n x 1(3) rec by simp
    moreover have "level p - 1 \<le> level p"
      using l by (simp add: word_le_nat_alt)
    ultimately show ?thesis by (meson order_trans)
  next
    case False
    then have q: "(c, q) = (cur, p)"
      using 1(6) by (subst (asm) level_down.simps) auto
    have "exp_for (unat (level p)) \<le> unat (experience p)"
    proof (cases "level p > 1")
      case True
      then show ?thesis
        using False 1(5) by (simp add: word_less_nat_alt)
    next
      case False
      then have "unat (level p) = 1"
        using 1(2) by (simp add: word_less_nat_alt)
      then show ?thesis
        by (simp add: exp_for_def exp_poly_def)
    qed
    then show ?thesis
      using q 1(2-5) by (simp add: level_ok_def)
  qed
qed

lemma sint_negative: "sint (w :: 'a::len word) < 0 \<longleftrightarrow> 2 ^ (LENGTH('a) - 1) \<le> unat w"
proof -
  have lt: "unat w < 2 * 2 ^ (LENGTH('a) - 1)"
    using unsigned_less[of w, where 'a = nat] by (simp flip: power_Suc)
  have "sint w < 0 \<longleftrightarrow> bit w (LENGTH('a) - 1)"
    using bit_last_iff[of w] by simp
  also have "\<dots> \<longleftrightarrow> bit (unat w) (LENGTH('a) - 1)"
    by (simp add: bit_unsigned_iff)
  also have "\<dots> \<longleftrightarrow> odd (unat w div 2 ^ (LENGTH('a) - 1))"
    by (simp add: bit_iff_odd)
  also have "\<dots> \<longleftrightarrow> 2 ^ (LENGTH('a) - 1) \<le> unat w"
  proof (cases "2 ^ (LENGTH('a) - 1) \<le> unat w")
    case True
    then have "unat w div 2 ^ (LENGTH('a) - 1) = 1"
      using lt by (intro div_nat_eqI) auto
    with True show ?thesis by simp
  qed simp
  finally show ?thesis .
qed

lemma lose_small:
  assumes "unat (a :: u64) < 2 ^ 63" and "unat b < 2 ^ 63"
  shows "unat (lose a b) = unat a - unat b"
proof (cases "b \<le> a")
  case True
  then have "unat (a - b) = unat a - unat b"
    by (simp add: unat_sub)
  then show ?thesis
    using assms by (simp add: lose_def sint_negative)
next
  case False
  then have "unat (a - b) = 2 ^ 64 + unat a - unat b"
    using unat_sub_if_size[of a b] by (auto simp: word_le_nat_alt size_word.rep_eq)
  then show ?thesis
    using False assms by (simp add: lose_def sint_negative word_le_nat_alt)
qed

lemma removeExperience_lowers:
  assumes ok: "level_ok p" and e: "onLoseExperience g e0 = e" "e \<noteq> 0" "e0 \<noteq> 0" "experience p \<noteq> 0"
    and small: "unat (experience p) < 2 ^ 63" "unat e < 2 ^ 63"
  shows "level_ok (removeExperience voc g e0 p) \<and>
    unat (experience (removeExperience voc g e0 p)) = unat (experience p) - unat e \<and>
    level (removeExperience voc g e0 p) \<le> level p"
proof -
  let ?p = "p\<lparr>experience := lose (experience p) e\<rparr>"
  let ?c = "getExpForLevel (ucast (level p))"
  have l: "1 \<le> unat (level p)" "unat (level p) < MAX_LEVEL"
    using ok by (simp_all add: level_ok_def)
  have c: "unat ?c = exp_for (unat (level p))"
    using level_word[of "level p"] l by simp
  have x: "unat (lose (experience p) e) = unat (experience p) - unat e"
    using lose_small[OF small] .
  obtain c' q where q: "level_down voc ?c ?p = (c', q)"
    by (metis prod.exhaust)
  have "unat (experience ?p) < exp_for (Suc (unat (level p)))"
    using ok x by (auto simp: level_ok_def)
  then have r: "level_ok q \<and> experience q = lose (experience p) e \<and> level q \<le> level p"
    using level_down_correct[OF _ _ _ _ q] l c by simp
  have "level (removeExperience voc g e0 p) = level q" "experience (removeExperience voc g e0 p) = experience q"
    using e q by (simp_all add: removeExperience_def Let_def speed_rest)
  moreover from this have "level_ok (removeExperience voc g e0 p) = level_ok q"
    by (simp add: level_ok_def)
  ultimately show ?thesis
    using r x by simp
qed

section \<open>Tries and levels\<close>

text \<open>The tries spent on the levels above \<open>a\<close> up to \<open>b\<close>.\<close>

definition spent :: "('l::len word \<Rightarrow> u64) \<Rightarrow> nat \<Rightarrow> nat \<Rightarrow> nat" where
  "spent req a b = (\<Sum>i \<in> {a<..b}. unat (req (of_nat i)))"

lemma spent_split: "a \<le> b \<Longrightarrow> b \<le> c \<Longrightarrow> spent req a c = spent req a b + spent req b c"
proof -
  assume "a \<le> b" "b \<le> c"
  then have "{a<..c} = {a<..b} \<union> {b<..c}"
    by auto
  moreover have "{a<..b} \<inter> {b<..c} = {}"
    by auto
  ultimately show ?thesis
    by (simp add: spent_def sum.union_disjoint)
qed

lemma spent_Suc: "a \<le> b \<Longrightarrow> spent req a (Suc b) = spent req a b + unat (req (of_nat (Suc b)))"
proof -
  assume "a \<le> b"
  then have "{a<..Suc b} = insert (Suc b) {a<..b}"
    by auto
  then show ?thesis
    by (simp add: spent_def)
qed

lemma spent_one: "spent req (unat l) (Suc (unat l)) = unat (req (l + 1))"
proof -
  have "{unat l<..Suc (unat l)} = {Suc (unat l)}"
    by auto
  then show ?thesis
    by (simp add: spent_def add.commute)
qed

lemma climb_correct:
  fixes req :: "'l::len word \<Rightarrow> u64"
  assumes "unat t < unat next" and "unat t + unat count < 2 ^ 64" and "next = req (l + 1)"
    and lim: "unat l < unat lim" "unat lim + 1 < 2 ^ LENGTH('l)" "req (lim + 1) \<le> req lim"
    and "climb req l t count cur next = (l', t', c', cur', next', maxed)"
  shows "unat l \<le> unat l' \<and> unat l' \<le> unat lim \<and> next' = req (l' + 1) \<and>
    (if maxed then t' = 0 \<and> req (l' + 1) \<le> req l'
     else spent req (unat l) (unat l') + unat t' + unat c' = unat t + unat count \<and> unat t' + unat c' < unat next')"
  using assms
proof (induction req l t count cur "next" arbitrary: l' t' c' cur' next' maxed rule: climb.induct)
  case (1 req l t count cur "next")
  have sum: "unat (t + count) = unat t + unat count"
    using 1(3) by (simp add: unat_word_ariths)
  have l: "unat (l + 1) = Suc (unat l)"
  proof -
    have "Suc (unat l) < 2 ^ LENGTH('l)"
      using 1(5,6) by linarith
    then show ?thesis
      by (simp add: unat_word_ariths)
  qed
  show ?case
  proof (cases "t + count \<ge> next")
    case True
    let ?c = "count - (next - t)"
    have d: "unat (next - t) = unat next - unat t"
      using 1(2) by (simp add: unat_sub word_le_nat_alt)
    have c: "unat ?c = unat t + unat count - unat next"
      using True 1(2) d sum by (simp add: unat_sub word_le_nat_alt)
    show ?thesis
    proof (cases "next \<ge> req (l + 1 + 1)")
      case ge: True
      then have "(l', t', c', cur', next', maxed) = (l + 1, 0, ?c, next, req (l + 1 + 1), True)"
        using 1(8) True by (subst (asm) climb.simps) (auto simp: Let_def)
      then show ?thesis
        using l 1(4,5) ge by simp
    next
      case less: False
      have rec: "climb req (l + 1) 0 ?c next (req (l + 1 + 1)) = (l', t', c', cur', next', maxed)"
        using 1(8) True less by (subst (asm) climb.simps) (simp add: Let_def)
      have "l + 1 \<noteq> lim"
        using less 1(4,7) by auto
      then have lt: "unat (l + 1) < unat lim"
        using l 1(5) by (metis Suc_leI le_neq_implies_less word_unat_eq_iff)
      have small: "unat ?c < unat (req (l + 1 + 1)) \<or> unat (req (l + 1 + 1)) \<le> unat ?c" "unat ?c < 2 ^ 64" "0 < unat (req (l + 1 + 1))"
        using less 1(3) c by (auto simp: word_le_nat_alt)
      have IH: "unat (l + 1) \<le> unat l' \<and> unat l' \<le> unat lim \<and> next' = req (l' + 1) \<and>
        (if maxed then t' = 0 \<and> req (l' + 1) \<le> req l'
         else spent req (unat (l + 1)) (unat l') + unat t' + unat c' = unat (0 :: u64) + unat ?c \<and> unat t' + unat c' < unat next')"
        using 1(1)[of ?c "l + 1" "req (l + 1 + 1)" l' t' c' cur' next' maxed] True less small lt 1(6,7) rec by (auto split: if_splits)
      have "spent req (unat l) (Suc (unat l)) = unat next"
        using 1(4) by (simp add: spent_one)
      moreover have "maxed \<or> spent req (unat l) (unat l') = spent req (unat l) (Suc (unat l)) + spent req (Suc (unat l)) (unat l')"
        using IH l by (auto intro: spent_split)
      ultimately show ?thesis
        using IH l c True sum by (auto simp: word_le_nat_alt)
    qed
  next
    case False
    then have "(l', t', c', cur', next', maxed) = (l, t, count, cur, next, False)"
      using 1(8) by (subst (asm) climb.simps) simp
    then show ?thesis
      using False 1(4,5) sum by (simp add: spent_def word_le_nat_alt)
  qed
qed

lemma fall_restores:
  assumes "10 \<le> unat l" and "unat t < unat (req (l + 1))" and "unat l \<le> unat m"
    and "spent req (unat l) (unat m) + unat T = unat t + unat count"
  shows "\<exists>T' c. fall req m T count = (l, T', c) \<and> c \<le> T' \<and> T' - c = t"
  using assms
proof (induction req m T count rule: fall.induct)
  case (1 req m T count)
  show ?case
  proof (cases "l = m")
    case True
    then have n: "unat T = unat t + unat count"
      using 1(5) by (simp add: spent_def)
    have "T = t + count"
      using arg_cong[OF n, of "of_nat :: nat \<Rightarrow> u64"] by simp
    moreover have "\<not> T < count" "count \<le> T"
      using n by (simp_all add: word_le_nat_alt word_less_nat_alt)
    ultimately show ?thesis
      using True by (subst fall.simps) simp
  next
    case False
    then have lt: "Suc (unat l) \<le> unat m"
      using 1(4) by (metis Suc_leI le_neq_implies_less word_unat_eq_iff)
    have pos: "unat (m - 1) = unat m - 1" "m \<noteq> 0"
      using lt unat_pred[of m] by (auto simp: word_less_nat_alt)
    have "spent req (unat l) (unat m) \<ge> unat (req (l + 1))"
      using spent_split[of "unat l" "Suc (unat l)" "unat m" req] lt by (simp add: spent_one)
    then have gt: "count > T"
      using 1(3,5) by (simp add: word_less_nat_alt)
    have floor: "\<not> m \<le> MINIMUM_SKILL_LEVEL"
      using lt 1(2) by (simp add: MINIMUM_SKILL_LEVEL_def word_le_nat_alt)
    have last: "spent req (unat l) (unat m) = spent req (unat l) (unat (m - 1)) + unat (req m)"
      using spent_Suc[of "unat l" "unat (m - 1)" req] lt pos by simp
    have "unat (count - T) = unat count - unat T"
      using gt by (simp add: unat_sub word_less_nat_alt word_le_nat_alt)
    then have "\<exists>T' c. fall req (m - 1) (req m) (count - T) = (l, T', c) \<and> c \<le> T' \<and> T' - c = t"
      using 1(1)[OF gt refl floor] 1(2,3,5) lt pos last gt by (simp add: word_less_nat_alt)
    then show ?thesis
      using gt floor by (subst fall.simps) (simp add: Let_def)
  qed
qed

lemma cut_difference_small:
  assumes "unat (T - c) < 2 ^ 31"
  shows "cut_difference T c = T - c"
proof -
  have n: "unat (ucast (T - c) :: s32) = unat (T - c)"
    using assms by (simp add: unsigned_ucast_eq take_bit_nat_eq_self)
  then have "\<not> sint (ucast (T - c) :: s32) < 0"
    using assms by (simp add: sint_negative)
  moreover have "(ucast (ucast (T - c) :: s32) :: u64) = T - c"
    using n assms by (intro word_unat_eq_iff[THEN iffD2]) (simp add: unsigned_take_bit_eq unsigned_ucast_eq take_bit_nat_eq_self)
  ultimately show ?thesis
    by (simp add: cut_difference_def Let_def)
qed

lemma addSkillAdvance_climbs:
  assumes "req = getReqSkillTries voc skill" and "s = skills p skill" and "req (skill_level s) < req (skill_level s + 1)"
    and "onGainSkillTries g skill count = count" "count \<noteq> 0"
    and "climb req (skill_level s) (tries s) count (req (skill_level s)) (req (skill_level s + 1)) = (l, t, c, cur, next, maxed)"
    and "s' = skills (addSkillAdvance voc g skill count p) skill"
  shows "skill_level s' = l \<and> tries s' = t + (if maxed then 0 else c)"
proof -
  have "\<not> req (skill_level s + 1) \<le> req (skill_level s)"
    using assms(3) by (simp only: not_le)
  then show ?thesis
    using assms(1,2,4-7) by (simp add: addSkillAdvance_def Let_def)
qed

section \<open>Correctness\<close>

text \<open>
  Claim C30. A player whose level fits the experience has a fitting level after \<open>addExperience\<close>, for every
  level below a million: the experience lies between what the level needs and what the next level
  needs, has grown by exactly what the scripts granted, and the limits of hit points and mana and the
  capacity have grown by the gain of the vocation once for every level. A player who gained a level has
  the full hit points and mana that belong to the new limits; otherwise neither changes.
\<close>

theorem addExperience_levels:
  assumes "level_ok p" and "onGainExperience g e0 = e" "e \<noteq> 0" and "unat (experience p) + unat e < exp_for MAX_LEVEL"
  shows "level_ok (addExperience voc g e0 p) \<and>
    unat (experience (addExperience voc g e0 p)) = unat (experience p) + unat e \<and>
    raised voc (p\<lparr>experience := experience p + e\<rparr>) (addExperience voc g e0 p) \<and>
    (let q = addExperience voc g e0 p
     in if level q = level p then health q = health p \<and> mana q = mana p
        else health q = getMaxHealth q \<and> mana q = getMaxMana q)"
proof -
  have "exp_for MAX_LEVEL < 2 ^ 64"
    by (simp add: exp_for_def exp_poly_def)
  then have "unat (experience p + e) = unat (experience p) + unat e"
    using assms(4) by (simp add: unat_word_ariths)
  then show ?thesis
    using addExperience_raises[OF assms] addExperience_fills[OF assms] by (simp add: raised_def Let_def)
qed

text \<open>
  Claim C31. Experience that is granted and then taken again leaves the player with the same level
  and the same experience, whatever levels were gained and lost on the way, as long as the experience
  stays below \<open>2 ^ 63\<close>, where the signed maximum of \<open>removeExperience\<close> is exact.
\<close>

theorem experience_roundtrip:
  assumes "level_ok p" and "onGainExperience g e = e" "onLoseExperience g e = e" "e \<noteq> 0"
    and "unat (experience p) + unat e < 2 ^ 63"
  shows "level (removeExperience voc g e (addExperience voc g e p)) = level p \<and>
    experience (removeExperience voc g e (addExperience voc g e p)) = experience p"
proof -
  let ?q = "addExperience voc g e p" and ?r = "removeExperience voc g e (addExperience voc g e p)"
  have big: "unat (experience p) + unat e < exp_for MAX_LEVEL"
    using assms(5) by (simp add: exp_for_def exp_poly_def)
  have q: "level_ok ?q" "experience ?q = experience p + e"
    using addExperience_raises[OF assms(1,2,4) big] by (auto simp: raised_def)
  have x: "unat (experience ?q) = unat (experience p) + unat e"
    using assms(5) q(2) by (simp add: unat_word_ariths)
  moreover have "0 < unat e"
    using assms(4) by (simp add: unat_gt_0)
  ultimately have "experience ?q \<noteq> 0"
    by auto
  then have r: "level_ok ?r" "unat (experience ?r) = unat (experience p)"
    using removeExperience_lowers[OF q(1) assms(3,4,4), of voc] x assms(5) by auto
  then have "experience ?r = experience p"
    by (simp add: word_unat_eq_iff)
  then show ?thesis
    using level_ok_unique[OF r(1) assms(1)] by simp
qed

text \<open>
  Tries that \<open>addSkillAdvance\<close> granted and \<open>removeSkillTries\<close> took again leave level and tries of the
  skill as they were, across any number of levels, when the skill can still advance at the level it
  reached and had fewer than \<open>2 ^ 31\<close> tries before. The vocation has a level limit \<open>lim\<close>, above the present level,
  from which on a level needs no more tries than the one before; and the tries before and the granted ones
  together do not overflow 64 bits.
\<close>

theorem skill_tries_roundtrip:
  assumes "req = getReqSkillTries voc skill" and "s = skills p skill"
    and "s' = skills (addSkillAdvance voc g skill count p) skill"
    and "10 \<le> unat (skill_level s)" and "tries s < req (skill_level s + 1)" and "unat (tries s) < 2 ^ 31"
    and "req (skill_level s) < req (skill_level s + 1)" and "req (skill_level s') < req (skill_level s' + 1)"
    and "unat (skill_level s) < unat lim" "unat lim + 1 < 2 ^ 16" "req (lim + 1) \<le> req lim"
    and "onGainSkillTries g skill count = count" "count \<noteq> 0" and "unat (tries s) + unat count < 2 ^ 64"
    and "s'' = skills (removeSkillTries voc skill count (addSkillAdvance voc g skill count p)) skill"
  shows "skill_level s'' = skill_level s \<and> tries s'' = tries s"
proof -
  let ?l = "skill_level s" and ?t = "tries s"
  obtain l t c cur "next" maxed where
    climb: "climb req ?l ?t count (req ?l) (req (?l + 1)) = (l, t, c, cur, next, maxed)"
    by (metis prod.exhaust)
  have s': "skill_level s' = l" "tries s' = t + (if maxed then 0 else c)"
    using addSkillAdvance_climbs[OF assms(1,2,7,12,13) climb assms(3)] by simp_all
  have up: "unat ?l \<le> unat l \<and> unat l \<le> unat lim \<and> next = req (l + 1) \<and>
    (if maxed then t = 0 \<and> req (l + 1) \<le> req l
     else spent req (unat ?l) (unat l) + unat t + unat c = unat ?t + unat count \<and> unat t + unat c < unat next)"
    using climb_correct[OF _ _ refl assms(9) _ assms(11) climb] assms(5,10,14) by (auto simp: word_less_nat_alt)
  then have m: "\<not> maxed"
    using assms(8) s'(1) by (auto simp: not_le[symmetric])
  have "unat (t + c) = unat t + unat c"
    proof -
    have "unat t + unat c < 2 ^ LENGTH(64)"
      using up m unsigned_less[of "next", where 'a = nat] by auto
    then show ?thesis
      by (simp add: unat_word_ariths)
  qed
  then have "spent req (unat ?l) (unat l) + unat (tries s') = unat ?t + unat count"
    using up m s'(2) by simp
  then obtain T c' where fall: "fall req l (tries s') count = (?l, T, c')" "c' \<le> T" "T - c' = ?t"
    using fall_restores[of ?l ?t req l "tries s'" count] assms(4,5) up by (auto simp: word_less_nat_alt)
  then have "cut_difference T c' = ?t"
    using cut_difference_small[of T c'] assms(6) by simp
  then show ?thesis
    using assms(15) fall(1) s' assms(1,3) by (simp add: removeSkillTries_def Let_def)
qed

text \<open>A vocation and a player of level 8 for the examples.\<close>

definition knight :: Vocation where
  "knight = \<lparr>gainHP = 15, gainMana = 5, gainCap = 2500, vocBaseSpeed = 220,
     getReqSkillTries = (\<lambda>skill l. if l < 20 then ucast l * 50 else 0), getReqMana = (\<lambda>l. if l < 20 then ucast l * 1600 else 0), soulMax = 100\<rparr>"

definition plain :: Gains where
  "plain = \<lparr>onGainExperience = (\<lambda>e. e), onLoseExperience = (\<lambda>e. e), onGainSkillTries = (\<lambda>s c. c),
     flagSetMaxSpeed = False, flagNotGainMana = False, speedPerLevel = 2, playerMaxSpeed = 1500\<rparr>"

definition newcomer :: Character where
  "newcomer = \<lparr>level = 8, experience = 4200, levelPercent = 0, health = 185, healthMax = 185, varHealth = 0, resetHpBonus = 0, mana = 90,
     manaMax = 90, varMana = 0, resetManaBonus = 0, capacity = 47000, baseSpeed = 234, magLevel = 0, manaSpent = 0, magLevelPercent = 0,
     skills = (\<lambda>s. \<lparr>tries = 7, skill_level = 10, percent = 0\<rparr>), soul = 100\<rparr>"

lemma newcomer_ok: "level_ok newcomer"
  by (simp add: level_ok_def newcomer_def exp_for_def exp_poly_def)

theorem addExperience_levels_witness:
  "level_ok (addExperience knight plain 100000 newcomer) \<and>
    unat (experience (addExperience knight plain 100000 newcomer)) = 104200"
  using addExperience_levels[of newcomer plain 100000 100000 knight] newcomer_ok
  by (simp add: plain_def newcomer_def exp_for_def exp_poly_def)

theorem experience_roundtrip_witness:
  "level (removeExperience knight plain 100000 (addExperience knight plain 100000 newcomer)) = 8"
  using experience_roundtrip[of newcomer plain 100000 knight] newcomer_ok
  by (simp add: plain_def newcomer_def)

theorem skill_tries_roundtrip_witness:
  "skill_level (skills (removeSkillTries knight 2 1500 (addSkillAdvance knight plain 2 1500 newcomer)) 2) = 10"
proof -
  have up: "skill_level (skills (addSkillAdvance knight plain 2 1500 newcomer) 2) = 12"
    by (simp add: addSkillAdvance_def climb.simps knight_def plain_def newcomer_def)
  show ?thesis
    using skill_tries_roundtrip[OF refl refl refl _ _ _ _ _ _ _ _ _ _ _ refl, where voc = knight and skill = 2 and p = newcomer
        and g = plain and count = 1500 and lim = 19]
    unfolding up by (simp add: knight_def plain_def newcomer_def)
qed

section \<open>What the code does not keep\<close>

text \<open>
  \<open>removeSkillTries\<close> cuts the tries that are left to 32 bits: a skill with \<open>2 ^ 32 + 5\<close> tries that loses one
  try is left with 4, and one with \<open>2 ^ 31 + 1\<close> tries that loses one is left with none.
\<close>

theorem removeSkillTries_cuts:
  "tries (skills (removeSkillTries knight 2 1 (newcomer\<lparr>skills := \<lambda>s. \<lparr>tries = 2 ^ 32 + 5, skill_level = 15, percent = 0\<rparr>\<rparr>)) 2) = 4"
  "tries (skills (removeSkillTries knight 2 1 (newcomer\<lparr>skills := \<lambda>s. \<lparr>tries = 2 ^ 31 + 1, skill_level = 15, percent = 0\<rparr>\<rparr>)) 2) = 0"
  by (simp_all add: removeSkillTries_def fall.simps cut_difference_def newcomer_def knight_def)

text \<open>
  \<open>removeManaSpent\<close> on magic level 0 subtracts more mana than was spent: the counter wraps around.
\<close>

theorem removeManaSpent_wraps:
  "manaSpent (removeManaSpent knight 1 newcomer) = 2 ^ 64 - 1"
  by (simp add: removeManaSpent_def mana_fall.simps newcomer_def knight_def Let_def)

end
