(* ===== verification/SightLines.thy ===== *)
theory SightLines
  imports Positions "HOL-Library.Monad_Syntax"
begin

text \<open>
  Lines of sight (map.cpp): \<open>isTileClear\<close>, \<open>checkSightLine\<close>, \<open>isSightClear\<close> and \<open>canThrowObjectTo\<close>.

  Tiles are addresses; \<open>None\<close> is the null pointer. The loop of \<open>checkSightLine\<close> has no bound of its own, so it is
  a partial function: that it returns is a theorem. Its \<open>int32_t\<close> products are words that \<open>sint\<close> reads. Their
  sums overflow between distant positions; the source leaves that undefined, here they wrap, as compiled for
  the supported targets. The distances compared are small again, so that the wrapping cancels.
\<close>

definition returns :: "'a option \<Rightarrow> bool" where
  "returns x \<longleftrightarrow> x \<noteq> None"

named_theorems returning \<open>rules for computations that return\<close>

lemma returns_Some [returning]: "returns (Some a)"
  by (simp add: returns_def)

lemma returns_bind [returning]: "returns x \<Longrightarrow> (\<And>a. x = Some a \<Longrightarrow> returns (f a)) \<Longrightarrow> returns (x \<bind> f)"
  by (auto simp: returns_def)

lemma returns_if [returning]: "(b \<Longrightarrow> returns x) \<Longrightarrow> (\<not> b \<Longrightarrow> returns y) \<Longrightarrow> returns (if b then x else y)"
  by simp

section \<open>The functions\<close>

record Map =
  getTile :: "u16 \<Rightarrow> u16 \<Rightarrow> u8 \<Rightarrow> nat option"
  getGround :: "nat \<Rightarrow> bool"
  blockProjectile :: "nat \<Rightarrow> bool"

definition isTileClear :: "('a) Map_scheme \<Rightarrow> u16 \<Rightarrow> u16 \<Rightarrow> u8 \<Rightarrow> bool \<Rightarrow> bool" where
  "isTileClear m x y z blockFloor =
     (case getTile m x y z of
        None \<Rightarrow> True
      | Some tile \<Rightarrow> if blockFloor \<and> getGround m tile then False else \<not> blockProjectile m tile)"

definition direction_sign :: "u16 \<Rightarrow> u16 \<Rightarrow> int" where
  "direction_sign a b = (if a < b then 1 else if a = b then 0 else - 1)"

definition std_abs :: "s32 \<Rightarrow> s32" where
  "std_abs w = (if sint w < 0 then - w else w)"

partial_function (option) sight_loop ::
  "('a) Map_scheme \<Rightarrow> u16 \<Rightarrow> u16 \<Rightarrow> u8 \<Rightarrow> s32 \<Rightarrow> s32 \<Rightarrow> s32 \<Rightarrow> int \<Rightarrow> int \<Rightarrow> u16 \<Rightarrow> u16 \<Rightarrow> bool option" where
  "sight_loop m x1 y1 z A B C mx my x y =
     (if x \<noteq> x1 \<or> y \<noteq> y1
      then
        let move_hor = sint (std_abs (A * (ucast x + of_int mx) + B * ucast y + C));
            move_ver = sint (std_abs (A * ucast x + B * (ucast y + of_int my) + C));
            move_cross = sint (std_abs (A * (ucast x + of_int mx) + B * (ucast y + of_int my) + C));
            y' = (if y \<noteq> y1 \<and> (x = x1 \<or> move_hor > move_ver \<or> move_hor > move_cross) then y + of_int my else y);
            x' = (if x \<noteq> x1 \<and> (y' = y1 \<or> move_ver > move_hor \<or> move_ver > move_cross) then x + of_int mx else x)
        in if \<not> isTileClear m x' y' z False then Some False
           else sight_loop m x1 y1 z A B C mx my x' y'
      else Some True)"

declare sight_loop.simps [code]

definition checkSightLine :: "('a) Map_scheme \<Rightarrow> u16 \<Rightarrow> u16 \<Rightarrow> u16 \<Rightarrow> u16 \<Rightarrow> u8 \<Rightarrow> bool option" where
  "checkSightLine m x0 y0 x1 y1 z =
     (if x0 = x1 \<and> y0 = y1 then Some True
      else
        let A = ucast y1 - ucast y0;
            B = ucast x0 - ucast x1;
            C = - (A * ucast x1 + B * ucast y1)
        in sight_loop m x1 y1 z A B C (direction_sign x0 x1) (direction_sign y0 y1) x0 y0)"

text \<open>The floors from the one of the thrower down to the one above the target.\<close>

definition floors_clear :: "('a) Map_scheme \<Rightarrow> u16 \<Rightarrow> u16 \<Rightarrow> u8 \<Rightarrow> u8 \<Rightarrow> bool" where
  "floors_clear m x y from_z to_z = list_all (\<lambda>z. isTileClear m x y (of_nat z) True) [unat from_z ..< unat to_z]"

definition isSightClear :: "('a) Map_scheme \<Rightarrow> Position \<Rightarrow> Position \<Rightarrow> bool \<Rightarrow> bool option" where
  "isSightClear m from to sameFloor =
     (if pos_z from = pos_z to
      then
        if getDistanceX from to < 2 \<and> getDistanceY from to < 2 then Some True
        else do {
          a \<leftarrow> checkSightLine m (pos_x from) (pos_y from) (pos_x to) (pos_y to) (pos_z from);
          sightClear \<leftarrow> (if a then Some True
             else checkSightLine m (pos_x to) (pos_y to) (pos_x from) (pos_y from) (pos_z from));
          if sightClear \<or> sameFloor then Some sightClear
          else if pos_z from = 0 then Some True
          else if isTileClear m (pos_x from) (pos_y from) (pos_z from - 1) True \<and>
                  isTileClear m (pos_x to) (pos_y to) (pos_z from - 1) True
          then checkSightLine m (pos_x from) (pos_y from) (pos_x to) (pos_y to) (pos_z from - 1)
          else Some False
        }
      else if sameFloor then Some False
      else if (pos_z from < 8 \<and> pos_z to > 7) \<or> (pos_z from > 7 \<and> pos_z to < 8) then Some False
      else if pos_z from > pos_z to
      then
        if getDistanceZ from to > 1 then Some False
        else if isTileClear m (pos_x from) (pos_y from) (pos_z from - 1) True
        then checkSightLine m (pos_x from) (pos_y from) (pos_x to) (pos_y to) (pos_z from - 1)
        else Some False
      else if \<not> floors_clear m (pos_x to) (pos_y to) (pos_z from) (pos_z to) then Some False
      else checkSightLine m (pos_x from) (pos_y from) (pos_x to) (pos_y to) (pos_z from))"

definition canThrowObjectTo :: "('a) Map_scheme \<Rightarrow> Position \<Rightarrow> Position \<Rightarrow> bool \<Rightarrow> bool \<Rightarrow> int \<Rightarrow> int \<Rightarrow> bool option" where
  "canThrowObjectTo m from to checkLineOfSight sameFloor rangex rangey =
     (if getDistanceX from to > rangex \<or> getDistanceY from to > rangey then Some False
      else if \<not> checkLineOfSight then Some True
      else isSightClear m from to sameFloor)"

section \<open>The line ends\<close>

text \<open>
  The three distances are those of the points ahead from the line through both ends, scaled. A point that
  the loop reaches before a coordinate has arrived deviates by at most \<open>\<bar>a\<bar> + \<bar>b\<bar>\<close>, less than \<open>2 ^ 17\<close>, so the
  wrapped sums are the exact ones; and one of the moves is worse than the other or than the crossing move.
\<close>

lemma std_abs_of_int: "\<bar>v\<bar> < 2 ^ 31 \<Longrightarrow> sint (std_abs (of_int v)) = \<bar>v\<bar>"
proof -
  assume v: "\<bar>v\<bar> < 2 ^ 31"
  then have "sint (of_int w :: s32) = w" if "\<bar>w\<bar> = \<bar>v\<bar>" for w
    using that v by (simp add: signed_of_int signed_take_bit_int_eq_self)
  from this[of v] this[of "- v"] show ?thesis by (simp add: std_abs_def)
qed

definition deviation :: "int \<Rightarrow> int \<Rightarrow> int \<Rightarrow> u16 \<Rightarrow> u16 \<Rightarrow> int" where
  "deviation a b c x y = a * uint x + b * uint y + c"

definition steers :: "int \<Rightarrow> int \<Rightarrow> int \<Rightarrow> int \<Rightarrow> bool" where
  "steers a b mx my \<longleftrightarrow> 0 < \<bar>a\<bar> \<and> \<bar>a\<bar> < 2 ^ 16 \<and> 0 < \<bar>b\<bar> \<and> \<bar>b\<bar> < 2 ^ 16 \<and>
     (a * mx = \<bar>a\<bar> \<and> b * my = - \<bar>b\<bar> \<or> a * mx = - \<bar>a\<bar> \<and> b * my = \<bar>b\<bar>)"

lemma distances:
  fixes x y :: u16
  assumes "steers a b mx my" and "\<bar>deviation a b c x y\<bar> \<le> \<bar>a\<bar> + \<bar>b\<bar>"
  shows "sint (std_abs (of_int a * (ucast x + of_int mx) + of_int b * ucast y + of_int c)) = \<bar>deviation a b c x y + a * mx\<bar>"
    and "sint (std_abs (of_int a * ucast x + of_int b * (ucast y + of_int my) + of_int c)) = \<bar>deviation a b c x y + b * my\<bar>"
    and "sint (std_abs (of_int a * (ucast x + of_int mx) + of_int b * (ucast y + of_int my) + of_int c)) =
      \<bar>deviation a b c x y + a * mx + b * my\<bar>"
proof -
  have u: "ucast w = (of_int (uint w) :: s32)" for w :: u16
    by simp
  have "\<bar>a * mx\<bar> < 2 ^ 16" "\<bar>b * my\<bar> < 2 ^ 16" "\<bar>deviation a b c x y\<bar> < 2 ^ 17"
    using assms unfolding steers_def by auto
  then have "\<bar>deviation a b c x y + a * mx\<bar> < 2 ^ 31" "\<bar>deviation a b c x y + b * my\<bar> < 2 ^ 31"
    "\<bar>deviation a b c x y + a * mx + b * my\<bar> < 2 ^ 31"
    by (simp_all add: abs_less_iff)
  note d = this[THEN std_abs_of_int]
  show "sint (std_abs (of_int a * (ucast x + of_int mx) + of_int b * ucast y + of_int c)) = \<bar>deviation a b c x y + a * mx\<bar>"
    unfolding d(1)[symmetric] u by (simp only: deviation_def of_int_add[symmetric] of_int_mult[symmetric] algebra_simps)
  show "sint (std_abs (of_int a * ucast x + of_int b * (ucast y + of_int my) + of_int c)) = \<bar>deviation a b c x y + b * my\<bar>"
    unfolding d(2)[symmetric] u by (simp only: deviation_def of_int_add[symmetric] of_int_mult[symmetric] algebra_simps)
  show "sint (std_abs (of_int a * (ucast x + of_int mx) + of_int b * (ucast y + of_int my) + of_int c)) =
      \<bar>deviation a b c x y + a * mx + b * my\<bar>"
    unfolding d(3)[symmetric] u by (simp only: deviation_def of_int_add[symmetric] of_int_mult[symmetric] algebra_simps)
qed

text \<open>Some coordinate moves, and the point stays near the line: \<open>p\<close> is the change by a step in \<open>x\<close>, \<open>q\<close> in \<open>y\<close>.\<close>

lemma move_decides:
  fixes D p q :: int
  assumes "0 < p \<and> q < 0 \<or> p < 0 \<and> 0 < q"
  shows "\<bar>D + p\<bar> > \<bar>D + q\<bar> \<or> \<bar>D + p\<bar> > \<bar>D + p + q\<bar> \<or> \<bar>D + q\<bar> > \<bar>D + p\<bar> \<or> \<bar>D + q\<bar> > \<bar>D + p + q\<bar>"
  using assms by auto

lemma stays_near:
  fixes D p q :: int
  assumes "0 < p \<and> q < 0 \<or> p < 0 \<and> 0 < q" and "\<bar>D\<bar> \<le> \<bar>p\<bar> + \<bar>q\<bar>"
    and "down \<longleftrightarrow> \<bar>D + p\<bar> > \<bar>D + q\<bar> \<or> \<bar>D + p\<bar> > \<bar>D + p + q\<bar>"
    and "across \<longleftrightarrow> \<bar>D + q\<bar> > \<bar>D + p\<bar> \<or> \<bar>D + q\<bar> > \<bar>D + p + q\<bar>"
  shows "\<bar>D + (if across then p else 0) + (if down then q else 0)\<bar> \<le> \<bar>p\<bar> + \<bar>q\<bar>"
  using assms by (cases across; cases down) auto

lemma line_steers:
  assumes "x0 \<noteq> x1" and "y0 \<noteq> y1"
  shows "steers (uint y1 - uint y0) (uint x0 - uint x1) (direction_sign x0 x1) (direction_sign y0 y1)"
proof -
  have "\<bar>uint v - uint w\<bar> < 65536" for v w :: u16
    using uint_lt2p[of v, simplified] uint_lt2p[of w, simplified] uint_ge_0[of v] uint_ge_0[of w] by linarith
  from this[of y1 y0] this[of x0 x1] show ?thesis
    using assms unfolding steers_def direction_sign_def word_less_def word_uint_eq_iff by auto
qed

definition toward :: "u16 \<Rightarrow> u16 \<Rightarrow> int \<Rightarrow> bool" where
  "toward x b s \<longleftrightarrow> x = b \<or> s = direction_sign x b"

definition gap :: "u16 \<Rightarrow> u16 \<Rightarrow> nat" where
  "gap x b = nat \<bar>uint b - uint x\<bar>"

lemma uint_toward:
  assumes "toward x e s" and "x \<noteq> e"
  shows "uint (x + of_int s) = uint x + s"
proof (cases "x < e")
  case True
  then have "uint x < uint e" "uint e < 65536"
    using uint_lt2p[of e] by (simp_all add: word_less_def)
  then have "x \<noteq> 65535" by auto
  then show ?thesis using uint_inc[of x] assms True by (auto simp: toward_def direction_sign_def)
next
  case False
  then have "uint e < uint x"
    using assms(2) by (simp add: word_less_def word_uint_eq_iff)
  then have "x \<noteq> 0" by auto
  then show ?thesis using uint_dec[of x] assms False by (auto simp: toward_def direction_sign_def)
qed

lemma toward_step:
  assumes "toward x b s" and "x \<noteq> b"
  shows "toward (x + of_int s) b s \<and> gap (x + of_int s) b < gap x b"
  using uint_toward[OF assms] assms
  by (auto simp: toward_def direction_sign_def gap_def word_less_def word_uint_eq_iff split: if_splits)

lemma deviation_step:
  "toward x e mx \<Longrightarrow> x \<noteq> e \<Longrightarrow> deviation a b c (x + of_int mx) y = deviation a b c x y + a * mx"
  "toward y e my \<Longrightarrow> y \<noteq> e \<Longrightarrow> deviation a b c x (y + of_int my) = deviation a b c x y + b * my"
  by (simp_all add: deviation_def uint_toward algebra_simps)

lemma loop_near:
  assumes "toward x x1 mx" "toward y y1 my" "x \<noteq> x1" "y \<noteq> y1" and "steers a b mx my" "\<bar>deviation a b c x y\<bar> \<le> \<bar>a\<bar> + \<bar>b\<bar>"
    and "h = \<bar>deviation a b c x y + a * mx\<bar>" "v = \<bar>deviation a b c x y + b * my\<bar>"
      "w = \<bar>deviation a b c x y + a * mx + b * my\<bar>"
    and "y' = (if y \<noteq> y1 \<and> (x = x1 \<or> h > v \<or> h > w) then y + of_int my else y)"
    and "x' = (if x \<noteq> x1 \<and> (y' = y1 \<or> v > h \<or> v > w) then x + of_int mx else x)" and "y' \<noteq> y1"
  shows "\<bar>deviation a b c x' y'\<bar> \<le> \<bar>a\<bar> + \<bar>b\<bar>"
proof -
  have s: "0 < a * mx \<and> b * my < 0 \<or> a * mx < 0 \<and> 0 < b * my" "\<bar>a\<bar> + \<bar>b\<bar> = \<bar>a * mx\<bar> + \<bar>b * my\<bar>"
    using assms(5) unfolding steers_def by auto
  have x': "x' = (if v > h \<or> v > w then x + of_int mx else x)" and y': "y' = (if h > v \<or> h > w then y + of_int my else y)"
    using assms(3,4,10-12) by simp_all
  have "deviation a b c x' y'' = deviation a b c x y'' + (if v > h \<or> v > w then a * mx else 0)" for y''
    using deviation_step(1)[OF assms(1,3), of a b c y''] by (cases "v > h \<or> v > w") (simp_all only: x' if_True if_False add_0_right)
  moreover have "deviation a b c x y' = deviation a b c x y + (if h > v \<or> h > w then b * my else 0)"
    using deviation_step(2)[OF assms(2,4), of a b c x] by (cases "h > v \<or> h > w") (simp_all only: y' if_True if_False add_0_right)
  ultimately have "deviation a b c x' y' =
      deviation a b c x y + (if v > h \<or> v > w then a * mx else 0) + (if h > v \<or> h > w then b * my else 0)"
    by simp
  with stays_near[OF s(1) assms(6)[unfolded s(2)] refl refl] show ?thesis
    unfolding s(2) assms(7-9) by (simp only:)
qed

lemma sight_loop_returns:
  assumes "toward x x1 mx" and "toward y y1 my"
    and "x \<noteq> x1 \<Longrightarrow> y \<noteq> y1 \<Longrightarrow> steers a b mx my \<and> \<bar>deviation a b c x y\<bar> \<le> \<bar>a\<bar> + \<bar>b\<bar>"
  shows "sight_loop m x1 y1 z (of_int a) (of_int b) (of_int c) mx my x y \<noteq> None"
  using assms
proof (induction "gap x x1 + gap y y1" arbitrary: x y rule: less_induct)
  case less
  let ?h = "sint (std_abs (of_int a * (ucast x + of_int mx) + of_int b * ucast y + of_int c))"
    and ?v = "sint (std_abs (of_int a * ucast x + of_int b * (ucast y + of_int my) + of_int c))"
    and ?c = "sint (std_abs (of_int a * (ucast x + of_int mx) + of_int b * (ucast y + of_int my) + of_int c))"
  let ?y = "if y \<noteq> y1 \<and> (x = x1 \<or> ?h > ?v \<or> ?h > ?c) then y + of_int my else y"
  let ?x = "if x \<noteq> x1 \<and> (?y = y1 \<or> ?v > ?h \<or> ?v > ?c) then x + of_int mx else x"
  show ?case
  proof (cases "x \<noteq> x1 \<or> y \<noteq> y1")
    case False
    then show ?thesis
      by (subst sight_loop.simps) simp
  next
    case True
    have near: "?h = \<bar>deviation a b c x y + a * mx\<bar>" "?v = \<bar>deviation a b c x y + b * my\<bar>"
      "?c = \<bar>deviation a b c x y + a * mx + b * my\<bar>" if "x \<noteq> x1" "y \<noteq> y1"
      using distances[of a b mx my c x y] less(4)[OF that] by simp_all
    have "0 < a * mx \<and> b * my < 0 \<or> a * mx < 0 \<and> 0 < b * my" if "x \<noteq> x1" "y \<noteq> y1"
      using less(4)[OF that] unfolding steers_def by auto
    then have "x = x1 \<or> y = y1 \<or> ?h > ?v \<or> ?h > ?c \<or> ?v > ?h \<or> ?v > ?c"
      using near move_decides[of "a * mx" "b * my" "deviation a b c x y"] by metis
    then have "?y \<noteq> y \<and> y \<noteq> y1 \<or> ?x \<noteq> x \<and> x \<noteq> x1 \<or> y \<noteq> y1 \<and> (x = x1 \<or> ?h > ?v \<or> ?h > ?c) \<or> x \<noteq> x1 \<and> (?y = y1 \<or> ?v > ?h \<or> ?v > ?c)"
      using True by auto
    then have closer: "gap ?x x1 + gap ?y y1 < gap x x1 + gap y y1"
      using toward_step[OF less(2)] toward_step[OF less(3)] by (auto split: if_splits)
    have tow: "toward ?x x1 mx" "toward ?y y1 my"
      using toward_step[OF less(2)] toward_step[OF less(3)] less(2,3) by auto
    have "steers a b mx my \<and> \<bar>deviation a b c ?x ?y\<bar> \<le> \<bar>a\<bar> + \<bar>b\<bar>" if n: "?x \<noteq> x1" "?y \<noteq> y1"
    proof -
      have xy: "x \<noteq> x1" "y \<noteq> y1" using n by (auto split: if_splits)
      from loop_near[OF less(2,3) xy _ _ near[OF xy] refl refl n(2)] less(4)[OF xy] show ?thesis by blast
    qed
    then have "sight_loop m x1 y1 z (of_int a) (of_int b) (of_int c) mx my ?x ?y \<noteq> None"
      by (rule less(1)[OF closer tow])
    moreover have "sight_loop m x1 y1 z (of_int a) (of_int b) (of_int c) mx my x y =
      (if \<not> isTileClear m ?x ?y z False then Some False
       else sight_loop m x1 y1 z (of_int a) (of_int b) (of_int c) mx my ?x ?y)"
      by (subst sight_loop.simps) (simp only: Let_def True if_True)
    ultimately show ?thesis
      by (simp only: split: if_split) simp
  qed
qed

lemma checkSightLine_returns [returning]: "returns (checkSightLine m x0 y0 x1 y1 z)"
proof -
  have "toward x0 x1 (direction_sign x0 x1)" "toward y0 y1 (direction_sign y0 y1)"
    by (simp_all add: toward_def)
  moreover define a b c where "a = uint y1 - uint y0" and "b = uint x0 - uint x1" and "c = - (a * uint x1 + b * uint y1)"
  moreover have "deviation a b c x0 y0 = 0"
    by (simp add: deviation_def a_def b_def c_def algebra_simps)
  ultimately have "sight_loop m x1 y1 z (of_int a) (of_int b) (of_int c) (direction_sign x0 x1) (direction_sign y0 y1) x0 y0 \<noteq> None"
    using line_steers by (intro sight_loop_returns) auto
  moreover have "of_int a = (ucast y1 - ucast y0 :: s32)" "of_int b = (ucast x0 - ucast x1 :: s32)"
    "of_int c = (- ((ucast y1 - ucast y0) * ucast x1 + (ucast x0 - ucast x1) * ucast y1) :: s32)"
    by (simp_all add: a_def b_def c_def del: minus_add_distrib)
  ultimately show ?thesis
    by (auto simp add: returns_def checkSightLine_def Let_def simp del: minus_add_distrib)
qed

lemma isSightClear_returns: "returns (isSightClear m p q sameFloor)"
  unfolding isSightClear_def by (intro returning)

text \<open>
  Claim C39. \<open>isSightClear\<close> returns for every two positions of every map, however far apart; and with the option
  \<open>sameFloor\<close>, which excludes looking over obstacles on the floor above, sight is mutual: what sees is seen.
\<close>

theorem isSightClear_mutual:
  "\<exists>b. isSightClear m p q sameFloor = Some b \<and> isSightClear m p q True = isSightClear m q p True"
proof -
  obtain a b where "checkSightLine m (pos_x p) (pos_y p) (pos_x q) (pos_y q) (pos_z p) = Some a"
    "checkSightLine m (pos_x q) (pos_y q) (pos_x p) (pos_y p) (pos_z p) = Some b"
    using checkSightLine_returns unfolding returns_def by blast
  then have "isSightClear m p q True = isSightClear m q p True"
    by (auto simp: isSightClear_def getDistanceX_def getDistanceY_def getOffsetX_def getOffsetY_def tfs_abs_eq abs_minus_commute)
  moreover have "isSightClear m p q sameFloor \<noteq> None"
    using isSightClear_returns by (simp only: returns_def)
  ultimately show ?thesis
    by blast
qed

end
