(* ===== verification/AStar.thy ===== *)
theory AStar
  imports SightLines
begin

text \<open>
  The node store of the path search (class \<open>AStarNodes\<close> of map.h and map.cpp): a binary heap of the open nodes
  with the position of every node in it, and an open-addressing hash table from map positions to nodes. The
  arrays live in a workspace that is shared by all searches of a thread and only cleaned where the last search
  touched it; the object adds its counters to the workspace.

  Indices are numbers below 512 (\<open>uint16_t\<close> in the source) and \<open>0xFFFF\<close> marks the absence of a node; scores are
  numbers (\<open>int_fast32_t\<close>). Probing loops have no bound in the source and are partial functions.
\<close>

section \<open>The data\<close>

definition MAX_NODES :: nat where "MAX_NODES = 512"
definition MAP_NORMALWALKCOST :: int where "MAP_NORMALWALKCOST = 10"
definition MAP_DIAGONALWALKCOST :: int where "MAP_DIAGONALWALKCOST = 25"
definition ASTAR_NODE_NONE :: nat where "ASTAR_NODE_NONE = 0xFFFF"
definition ASTAR_HASH_BITS :: nat where "ASTAR_HASH_BITS = 10"
definition ASTAR_HASH_SIZE :: nat where "ASTAR_HASH_SIZE = 2 ^ ASTAR_HASH_BITS"
definition FIB_MULT :: u32 where "FIB_MULT = 2654435761"

record AStarNode =
  node_parent :: nat
  node_f :: int
  g_score :: int
  node_x :: u16
  node_y :: u16

record AStarWorkspace =
  nodes :: "nat \<Rightarrow> AStarNode"
  heap :: "nat \<Rightarrow> nat"
  node_to_heap :: "nat \<Rightarrow> nat"
  h_table_keys :: "nat \<Rightarrow> u32"
  h_table_values :: "nat \<Rightarrow> nat"
  used_nodes :: "nat \<Rightarrow> nat"
  used_count :: nat
  previous_node :: nat

definition new_workspace :: AStarWorkspace where
  "new_workspace = \<lparr>nodes = (\<lambda>_. \<lparr>node_parent = ASTAR_NODE_NONE, node_f = 0, g_score = 0, node_x = 0, node_y = 0\<rparr>),
     heap = (\<lambda>_. 0), node_to_heap = (\<lambda>_. ASTAR_NODE_NONE), h_table_keys = (\<lambda>_. 0),
     h_table_values = (\<lambda>_. ASTAR_NODE_NONE), used_nodes = (\<lambda>_. 0), used_count = 0, previous_node = 0\<rparr>"

record AStarNodes = AStarWorkspace +
  heap_size :: nat
  current_node :: nat
  closed_nodes :: int

section \<open>The hash table\<close>

definition first_slot :: "u32 \<Rightarrow> nat" where
  "first_slot key = unat (drop_bit (32 - ASTAR_HASH_BITS) (key * FIB_MULT))"

definition next_slot :: "nat \<Rightarrow> nat" where
  "next_slot slot = take_bit ASTAR_HASH_BITS (slot + 1)"

partial_function (option) Insert_loop :: "AStarNodes \<Rightarrow> nat \<Rightarrow> nat option" where
  "Insert_loop w slot =
     (if h_table_values w slot \<noteq> ASTAR_NODE_NONE then Insert_loop w (next_slot slot) else Some slot)"

definition Insert :: "u32 \<Rightarrow> nat \<Rightarrow> AStarNodes \<Rightarrow> AStarNodes option" where
  "Insert key node_index w = do {
     slot \<leftarrow> Insert_loop w (first_slot key);
     Some (w\<lparr>h_table_keys := (h_table_keys w)(slot := key),
             h_table_values := (h_table_values w)(slot := node_index),
             used_nodes := (used_nodes w)(used_count w := slot),
             used_count := used_count w + 1\<rparr>)
   }"

partial_function (option) Find_loop :: "AStarNodes \<Rightarrow> u32 \<Rightarrow> nat \<Rightarrow> nat option" where
  "Find_loop w key slot =
     (if h_table_values w slot \<noteq> ASTAR_NODE_NONE
      then if h_table_keys w slot = key then Some (h_table_values w slot) else Find_loop w key (next_slot slot)
      else Some ASTAR_NODE_NONE)"

definition Find :: "u32 \<Rightarrow> AStarNodes \<Rightarrow> nat option" where
  "Find key w = Find_loop w key (first_slot key)"

definition position_key :: "u16 \<Rightarrow> u16 \<Rightarrow> u32" where
  "position_key x y = push_bit 16 (ucast x) OR ucast y"

definition GetNodeByPosition :: "u16 \<Rightarrow> u16 \<Rightarrow> AStarNodes \<Rightarrow> nat option" where
  "GetNodeByPosition x y w = Find (position_key x y) w"

section \<open>The heap\<close>

function SiftUp_loop :: "int \<Rightarrow> nat \<Rightarrow> AStarNodes \<Rightarrow> nat \<times> AStarNodes" where
  "SiftUp_loop f pos w =
     (if pos > 0
      then
        let parentPos = (pos - 1) div 2 in
        if node_f (nodes w (heap w parentPos)) \<le> f then (pos, w)
        else
          let w = w\<lparr>heap := (heap w)(pos := heap w parentPos)\<rparr>;
              w = w\<lparr>node_to_heap := (node_to_heap w)(heap w pos := pos)\<rparr>
          in SiftUp_loop f parentPos w
      else (pos, w))"
  by pat_completeness auto
termination
  by (relation "measure (\<lambda>(f, pos, w). pos)") auto

definition SiftUp :: "nat \<Rightarrow> AStarNodes \<Rightarrow> AStarNodes" where
  "SiftUp pos w =
     (let node_index = heap w pos;
          (pos, w) = SiftUp_loop (node_f (nodes w node_index)) pos w
      in w\<lparr>heap := (heap w)(pos := node_index), node_to_heap := (node_to_heap w)(node_index := pos)\<rparr>)"

function SiftDown_loop :: "int \<Rightarrow> nat \<Rightarrow> AStarNodes \<Rightarrow> nat \<times> AStarNodes" where
  "SiftDown_loop f pos w =
     (let child = 2 * pos + 1 in
      if child \<ge> heap_size w then (pos, w)
      else
        let child = (if child + 1 < heap_size w \<and>
                        node_f (nodes w (heap w (child + 1))) < node_f (nodes w (heap w child))
                     then child + 1 else child)
        in if node_f (nodes w (heap w child)) \<ge> f then (pos, w)
           else
             let w = w\<lparr>heap := (heap w)(pos := heap w child)\<rparr>;
                 w = w\<lparr>node_to_heap := (node_to_heap w)(heap w pos := pos)\<rparr>
             in SiftDown_loop f child w)"
  by pat_completeness auto
termination
  by (relation "measure (\<lambda>(f, pos, w). heap_size w - pos)") (auto simp: Let_def)

definition SiftDown :: "nat \<Rightarrow> AStarNodes \<Rightarrow> nat \<times> AStarNodes" where
  "SiftDown pos w =
     (let node_index = heap w pos;
          (pos, w) = SiftDown_loop (node_f (nodes w node_index)) pos w
      in (pos, w\<lparr>heap := (heap w)(pos := node_index), node_to_heap := (node_to_heap w)(node_index := pos)\<rparr>))"

declare SiftUp_loop.simps [simp del] SiftDown_loop.simps [simp del]

section \<open>Operations\<close>

definition new_AStarNodes :: "AStarWorkspace \<Rightarrow> u16 \<Rightarrow> u16 \<Rightarrow> AStarNodes option" where
  "new_AStarNodes ws x y =
     (let ws = fold (\<lambda>i ws. ws\<lparr>h_table_values := (h_table_values ws)(used_nodes ws i := ASTAR_NODE_NONE)\<rparr>) [0 ..< used_count ws] ws;
          ws = fold (\<lambda>i ws. ws\<lparr>node_to_heap := (node_to_heap ws)(i := ASTAR_NODE_NONE)\<rparr>) [0 ..< previous_node ws] ws;
          ws = ws\<lparr>used_count := 0,
                  nodes := (nodes ws)(0 := \<lparr>node_parent = ASTAR_NODE_NONE, node_f = 0, g_score = 0, node_x = x, node_y = y\<rparr>),
                  heap := (heap ws)(0 := 0), node_to_heap := (node_to_heap ws)(0 := 0)\<rparr>
      in Insert (position_key x y) 0 (AStarWorkspace.extend ws \<lparr>heap_size = 1, current_node = 1, closed_nodes = 0\<rparr>))"

definition delete_AStarNodes :: "AStarNodes \<Rightarrow> AStarWorkspace" where
  "delete_AStarNodes w = AStarWorkspace.truncate (w\<lparr>previous_node := current_node w\<rparr>)"

definition CreateOpenNode :: "nat \<Rightarrow> u16 \<Rightarrow> u16 \<Rightarrow> int \<Rightarrow> int \<Rightarrow> AStarNodes \<Rightarrow> (nat \<times> AStarNodes) option" where
  "CreateOpenNode parent x y f g w =
     (if current_node w \<ge> MAX_NODES then Some (ASTAR_NODE_NONE, w)
      else do {
        let node_index = current_node w;
        let w = w\<lparr>current_node := current_node w + 1,
                  nodes := (nodes w)(node_index := \<lparr>node_parent = parent, node_f = f, g_score = g, node_x = x, node_y = y\<rparr>)\<rparr>;
        w \<leftarrow> Insert (position_key x y) node_index w;
        let w = w\<lparr>heap := (heap w)(heap_size w := node_index), node_to_heap := (node_to_heap w)(node_index := heap_size w),
                  heap_size := heap_size w + 1\<rparr>;
        Some (node_index, SiftUp (heap_size w - 1) w)
      })"

definition GetBestNode :: "AStarNodes \<Rightarrow> nat" where
  "GetBestNode w = (if heap_size w = 0 then ASTAR_NODE_NONE else heap w 0)"

definition CloseNode :: "nat \<Rightarrow> AStarNodes \<Rightarrow> AStarNodes" where
  "CloseNode node_index w =
     (let position = node_to_heap w node_index;
          w = w\<lparr>node_to_heap := (node_to_heap w)(node_index := ASTAR_NODE_NONE), closed_nodes := closed_nodes w + 1,
                heap_size := heap_size w - 1\<rparr>
      in if position = heap_size w then w
         else
           let last_index = heap w (heap_size w);
               w = w\<lparr>heap := (heap w)(position := last_index), node_to_heap := (node_to_heap w)(last_index := position)\<rparr>;
               (new_position, w) = SiftDown position w
           in if new_position = position then SiftUp position w else w)"

definition OpenNode :: "nat \<Rightarrow> AStarNodes \<Rightarrow> AStarNodes" where
  "OpenNode node_index w =
     (if node_to_heap w node_index = ASTAR_NODE_NONE
      then
        let w = w\<lparr>heap := (heap w)(heap_size w := node_index), node_to_heap := (node_to_heap w)(node_index := heap_size w),
                  heap_size := heap_size w + 1\<rparr>;
            w = SiftUp (heap_size w - 1) w
        in w\<lparr>closed_nodes := closed_nodes w - 1\<rparr>
      else SiftUp (node_to_heap w node_index) w)"

section \<open>Sifting\<close>

text \<open>
  While an element is sifted its place in the arrays is stale. The proofs follow the arrays in which it
  sits at the current position: a turn of the loop then swaps two entries.
\<close>

definition linked :: "(nat \<Rightarrow> nat) \<Rightarrow> (nat \<Rightarrow> nat) \<Rightarrow> nat \<Rightarrow> bool" where
  "linked h n k \<longleftrightarrow> (\<forall>i < k. n (h i) = i)"

definition rearranged :: "(nat \<Rightarrow> nat) \<Rightarrow> (nat \<Rightarrow> nat) \<Rightarrow> (nat \<Rightarrow> nat) \<Rightarrow> (nat \<Rightarrow> nat) \<Rightarrow> nat \<Rightarrow> bool" where
  "rearranged h n h' n' k \<longleftrightarrow> linked h' n' k \<and> h' ` {..<k} = h ` {..<k} \<and> (\<forall>m. m \<notin> h ` {..<k} \<longrightarrow> n' m = n m)"

abbreviation up :: "nat \<Rightarrow> nat" where "up i \<equiv> (i - 1) div 2"

text \<open>The heap order at the positions that satisfy \<open>P\<close>, and the order between the parent and the children of \<open>pos\<close>.\<close>

definition ordered :: "(nat \<Rightarrow> int) \<Rightarrow> nat \<Rightarrow> (nat \<Rightarrow> bool) \<Rightarrow> bool" where
  "ordered c k P \<longleftrightarrow> (\<forall>i. 0 < i \<longrightarrow> i < k \<longrightarrow> P i \<longrightarrow> c (up i) \<le> c i)"

definition bridged :: "(nat \<Rightarrow> int) \<Rightarrow> nat \<Rightarrow> nat \<Rightarrow> bool" where
  "bridged c k pos \<longleftrightarrow> (\<forall>i. 0 < i \<longrightarrow> i < k \<longrightarrow> up i = pos \<longrightarrow> 0 < pos \<longrightarrow> c (up pos) \<le> c i)"

lemma rearranged_refl: "linked h n k \<Longrightarrow> rearranged h n h n k"
  by (simp add: rearranged_def)

lemma rearranged_trans: "rearranged h n h' n' k \<Longrightarrow> rearranged h' n' h'' n'' k \<Longrightarrow> rearranged h n h'' n'' k"
  by (auto simp: rearranged_def)

lemma rearranged_swap:
  assumes "linked h n k" and "a < k" "b < k" "a \<noteq> b"
  shows "rearranged h n (h(a := h b, b := h a)) (n(h b := a, h a := b)) k"
proof -
  have ne: "h i = h j \<Longrightarrow> i = j" if "i < k" "j < k" for i j
    using assms(1) that by (auto simp: linked_def) metis
  have "linked (h(a := h b, b := h a)) (n(h b := a, h a := b)) k"
    using assms ne by (auto simp: linked_def)
  moreover have "(h(a := h b, b := h a)) ` {..<k} = h ` {..<k}"
  proof
    show "(h(a := h b, b := h a)) ` {..<k} \<subseteq> h ` {..<k}"
      using assms by auto
    show "h ` {..<k} \<subseteq> (h(a := h b, b := h a)) ` {..<k}"
    proof
      fix m assume "m \<in> h ` {..<k}"
      then obtain i where "i < k" "m = h i" by auto
      then show "m \<in> (h(a := h b, b := h a)) ` {..<k}"
        using assms(2,3) by (cases "i = a"; cases "i = b") (auto intro!: image_eqI[of _ _ "if i = a then b else if i = b then a else i"])
    qed
  qed
  ultimately show ?thesis
    using assms(2,3) by (auto simp: rearranged_def)
qed

lemma up_less: "0 < i \<Longrightarrow> up i < i"
  by (simp add: less_Suc_eq_le div_le_dividend)

lemma sift_up_order:
  assumes "ordered c k (\<lambda>i. i \<noteq> pos)" and "bridged c k pos" and "0 < pos" "pos < k" and "c pos < c (up pos)"
  shows "ordered (c(pos := c (up pos), up pos := c pos)) k (\<lambda>i. i \<noteq> up pos)"
    and "bridged (c(pos := c (up pos), up pos := c pos)) k (up pos)"
proof -
  let ?d = "c(pos := c (up pos), up pos := c pos)"
  have lt: "up pos < pos"
    using assms(3) by (rule up_less)
  have o: "c (up i) \<le> c i" if "0 < i" "i < k" "i \<noteq> pos" for i
    using assms(1) that by (simp add: ordered_def)
  show "ordered ?d k (\<lambda>i. i \<noteq> up pos)"
    unfolding ordered_def
  proof (intro allI impI)
    fix i assume i: "0 < i" "i < k" "i \<noteq> up pos"
    have "up i < i" using i(1) by (rule up_less)
    consider "i = pos" | "i \<noteq> pos" "up i = pos" | "i \<noteq> pos" "up i \<noteq> pos" "up i = up pos" | "i \<noteq> pos" "up i \<noteq> pos" "up i \<noteq> up pos"
      by blast
    then show "?d (up i) \<le> ?d i"
    proof cases
      case 1
      then show ?thesis using assms(5) lt by auto
    next
      case 2
      then have "c (up pos) \<le> c i"
        using assms(2,3) i by (simp add: bridged_def)
      then show ?thesis using 2 i lt by auto
    next
      case 3
      then have "c (up pos) \<le> c i"
        using o[OF i(1,2)] by simp
      then show ?thesis using 3 i assms(5) by auto
    next
      case 4
      then show ?thesis using o[OF i(1,2)] i by auto
    qed
  qed
  show "bridged ?d k (up pos)"
    unfolding bridged_def
  proof (intro allI impI)
    fix i assume i: "0 < i" "i < k" "up i = up pos" "0 < up pos"
    have a: "c (up (up pos)) \<le> c (up pos)"
      using o[of "up pos"] i(4) lt assms(4) by simp
    have "up (up pos) < up pos" using i(4) by (rule up_less)
    moreover have "up i < i" using i(1) by (rule up_less)
    ultimately show "?d (up (up pos)) \<le> ?d i"
      using a o[OF i(1,2)] i lt by auto
  qed
qed

lemma sift_down_order:
  assumes "ordered c k (\<lambda>i. i \<noteq> pos \<and> up i \<noteq> pos)" and "bridged c k pos"
    and ch: "0 < ch" "ch < k" "up ch = pos" "c ch < c pos"
    and least: "\<And>i. 0 < i \<Longrightarrow> i < k \<Longrightarrow> up i = pos \<Longrightarrow> c ch \<le> c i"
  shows "ordered (c(pos := c ch, ch := c pos)) k (\<lambda>i. i \<noteq> ch \<and> up i \<noteq> ch)"
    and "bridged (c(pos := c ch, ch := c pos)) k ch"
proof -
  let ?d = "c(pos := c ch, ch := c pos)"
  have lt: "pos < ch"
    using up_less[OF ch(1)] ch(3) by simp
  show "ordered ?d k (\<lambda>i. i \<noteq> ch \<and> up i \<noteq> ch)"
    unfolding ordered_def
  proof (intro allI impI)
    fix i assume i: "0 < i" "i < k" "i \<noteq> ch \<and> up i \<noteq> ch"
    have "up i < i" using i(1) by (rule up_less)
    show "?d (up i) \<le> ?d i"
    proof (cases "i = pos")
      case True
      then have "c (up pos) \<le> c ch"
        using assms(2) ch i by (simp add: bridged_def)
      then show ?thesis using True i lt \<open>up i < i\<close> by auto
    next
      case False
      then show ?thesis
        using assms(1) least[OF i(1,2)] i lt by (cases "up i = pos") (auto simp: ordered_def)
    qed
  qed
  show "bridged ?d k ch"
    unfolding bridged_def
  proof (intro allI impI)
    fix i assume i: "0 < i" "i < k" "up i = ch" "0 < ch"
    have "ch < i" using up_less[OF i(1)] i(3) by simp
    moreover from this have "c ch \<le> c i"
      using assms(1) i lt by (auto simp: ordered_def)
    ultimately show "?d (up ch) \<le> ?d i"
      using ch(3) lt by auto
  qed
qed

definition costs :: "AStarNodes \<Rightarrow> (nat \<Rightarrow> nat) \<Rightarrow> nat \<Rightarrow> int" where
  "costs w h i = node_f (nodes w (h i))"

lemma costs_update: "costs w (h(a := m)) = (costs w h)(a := node_f (nodes w m))"
  by (auto simp: costs_def)

lemma costs_arrays [simp]:
  "costs (w\<lparr>heap := h\<rparr>) = costs w" "costs (w\<lparr>node_to_heap := n\<rparr>) = costs w" "costs (w\<lparr>heap_size := k\<rparr>) = costs w"
  "costs (w\<lparr>closed_nodes := c\<rparr>) = costs w" "costs (w\<lparr>h_table_keys := t\<rparr>) = costs w" "costs (w\<lparr>h_table_values := v\<rparr>) = costs w"
  "costs (w\<lparr>used_nodes := u\<rparr>) = costs w" "costs (w\<lparr>used_count := k\<rparr>) = costs w" "costs (w\<lparr>current_node := k\<rparr>) = costs w"
  by (auto simp: costs_def fun_eq_iff)

lemma SiftUp_loop_correct:
  assumes "SiftUp_loop (node_f (nodes w idx)) pos w = (pos', w')"
    and "linked ((heap w)(pos := idx)) ((node_to_heap w)(idx := pos)) k" and "pos < k"
    and "ordered (costs w ((heap w)(pos := idx))) k (\<lambda>i. i \<noteq> pos)"
    and "bridged (costs w ((heap w)(pos := idx))) k pos"
  shows "\<exists>h n. w' = w\<lparr>heap := h, node_to_heap := n\<rparr> \<and> pos' < k \<and>
    rearranged ((heap w)(pos := idx)) ((node_to_heap w)(idx := pos)) (h(pos' := idx)) (n(idx := pos')) k \<and>
    ordered (costs w (h(pos' := idx))) k (\<lambda>_. True)"
  using assms
proof (induction "node_f (nodes w idx)" pos w arbitrary: pos' w' rule: SiftUp_loop.induct)
  case (1 pos w)
  let ?h = "(heap w)(pos := idx)" and ?n = "(node_to_heap w)(idx := pos)"
  show ?case
  proof (cases "0 < pos \<and> \<not> node_f (nodes w (heap w (up pos))) \<le> node_f (nodes w idx)")
    case True
    let ?p = "up pos"
    have pos: "0 < pos" and lt: "?p < pos" using True up_less by blast+
    let ?w = "w\<lparr>heap := (heap w)(pos := heap w ?p), node_to_heap := (node_to_heap w)(heap w ?p := pos)\<rparr>"
    have rec: "SiftUp_loop (node_f (nodes ?w idx)) ?p ?w = (pos', w')"
      using 1(2) True by (subst (asm) SiftUp_loop.simps) (simp add: Let_def)
    have h: "(heap ?w)(?p := idx) = ?h(pos := ?h ?p, ?p := ?h pos)"
      using lt by (auto simp: fun_eq_iff)
    have n: "(node_to_heap ?w)(idx := ?p) = ?n(?h ?p := pos, ?h pos := ?p)"
      using lt by (auto simp: fun_eq_iff)
    have swap: "rearranged ?h ?n ((heap ?w)(?p := idx)) ((node_to_heap ?w)(idx := ?p)) k"
      unfolding h n using 1(3,4) lt by (intro rearranged_swap) auto
    have c: "costs ?w ((heap ?w)(?p := idx)) = (costs w ?h)(pos := costs w ?h ?p, ?p := costs w ?h pos)"
      unfolding h using lt by (auto simp: costs_def fun_eq_iff)
    have less: "costs w ?h pos < costs w ?h ?p"
      using True lt by (auto simp: costs_def)
    have "\<exists>h n. w' = ?w\<lparr>heap := h, node_to_heap := n\<rparr> \<and> pos' < k \<and>
      rearranged ((heap ?w)(?p := idx)) ((node_to_heap ?w)(idx := ?p)) (h(pos' := idx)) (n(idx := pos')) k \<and>
      ordered (costs ?w (h(pos' := idx))) k (\<lambda>_. True)"
    proof (rule 1(1)[of ?p "w\<lparr>heap := (heap w)(pos := heap w ?p)\<rparr>" ?w])
      show "linked ((heap ?w)(?p := idx)) ((node_to_heap ?w)(idx := ?p)) k"
        using swap by (simp add: rearranged_def)
      show "ordered (costs ?w ((heap ?w)(?p := idx))) k (\<lambda>i. i \<noteq> ?p)"
        unfolding c by (rule sift_up_order(1)[OF 1(5,6) pos 1(4) less])
      show "bridged (costs ?w ((heap ?w)(?p := idx))) k ?p"
        unfolding c by (rule sift_up_order(2)[OF 1(5,6) pos 1(4) less])
      show "SiftUp_loop (node_f (nodes ?w idx)) ?p ?w = (pos', w')" by (rule rec)
    qed (use True lt 1(4) in auto)
    then show ?thesis
      using rearranged_trans[OF swap] by auto
  next
    case False
    then have eq: "pos' = pos" "w' = w"
      using 1(2) by (subst (asm) SiftUp_loop.simps, auto simp: Let_def split: if_splits)+
    have "ordered (costs w ?h) k (\<lambda>_. True)"
      using 1(5) False up_less[of pos] by (auto simp: ordered_def costs_def)
    then show ?thesis
      using eq 1(3,4) by (intro exI[of _ "heap w"] exI[of _ "node_to_heap w"]) (simp add: rearranged_refl)
  qed
qed

lemma SiftUp_correct:
  assumes "linked (heap w) (node_to_heap w) k" and "pos < k"
    and "ordered (costs w (heap w)) k (\<lambda>i. i \<noteq> pos)" and "bridged (costs w (heap w)) k pos"
  shows "\<exists>h n. SiftUp pos w = w\<lparr>heap := h, node_to_heap := n\<rparr> \<and>
    rearranged (heap w) (node_to_heap w) h n k \<and> ordered (costs w h) k (\<lambda>_. True)"
proof -
  let ?i = "heap w pos"
  obtain pos' w' where loop: "SiftUp_loop (node_f (nodes w ?i)) pos w = (pos', w')"
    by (metis prod.exhaust)
  have "(node_to_heap w)(?i := pos) = node_to_heap w"
    using assms(1,2) by (auto simp: linked_def)
  then show ?thesis
    using SiftUp_loop_correct[OF loop, of k] assms loop by (force simp: SiftUp_def Let_def)
qed

definition least_child :: "(nat \<Rightarrow> int) \<Rightarrow> nat \<Rightarrow> nat \<Rightarrow> nat" where
  "least_child c k pos = (if 2 * pos + 2 < k \<and> c (2 * pos + 2) < c (2 * pos + 1) then 2 * pos + 2 else 2 * pos + 1)"

lemma up_cases: "0 < i \<Longrightarrow> up i = pos \<longleftrightarrow> i = 2 * pos + 1 \<or> i = 2 * pos + 2"
  by (cases i) auto

lemma least_child:
  assumes "2 * pos + 1 < k"
  shows "0 < least_child c k pos" "least_child c k pos < k" "up (least_child c k pos) = pos" "pos < least_child c k pos"
  using assms by (auto simp: least_child_def)

lemma least_child_least:
  assumes "0 < i" "i < k" "up i = pos"
  shows "c (least_child c k pos) \<le> c i"
proof -
  have "i = 2 * pos + 1 \<or> i = 2 * pos + 2"
    using assms up_cases by blast
  then show ?thesis
    using assms(2) by (auto simp: least_child_def)
qed

lemma SiftDown_loop_correct:
  assumes "SiftDown_loop (node_f (nodes w idx)) pos w = (pos', w')" and "heap_size w = k"
    and "linked ((heap w)(pos := idx)) ((node_to_heap w)(idx := pos)) k" and "pos < k"
    and "ordered (costs w ((heap w)(pos := idx))) k (\<lambda>i. i \<noteq> pos \<and> up i \<noteq> pos)"
    and "bridged (costs w ((heap w)(pos := idx))) k pos"
  shows "\<exists>h n. w' = w\<lparr>heap := h, node_to_heap := n\<rparr> \<and> pos \<le> pos' \<and> pos' < k \<and>
    rearranged ((heap w)(pos := idx)) ((node_to_heap w)(idx := pos)) (h(pos' := idx)) (n(idx := pos')) k \<and>
    ordered (costs w (h(pos' := idx))) k (\<lambda>i. i \<noteq> pos') \<and> bridged (costs w (h(pos' := idx))) k pos' \<and>
    (if pos' = pos then h(pos' := idx) = (heap w)(pos := idx)
     else costs w (h(pos' := idx)) (up pos') \<le> costs w (h(pos' := idx)) pos')"
  using assms
proof (induction "node_f (nodes w idx)" pos w arbitrary: pos' w' rule: SiftDown_loop.induct)
  case (1 pos w)
  let ?h = "(heap w)(pos := idx)" and ?n = "(node_to_heap w)(idx := pos)"
  let ?ch = "least_child (costs w (heap w)) k pos"
  show ?case
  proof (cases "2 * pos + 1 < k \<and> node_f (nodes w (heap w ?ch)) < node_f (nodes w idx)")
    case True
    note least = least_child[of pos k "costs w (heap w)"]
    have ch: "0 < ?ch" "?ch < k" "up ?ch = pos" "pos < ?ch"
      using True least by auto
    let ?w = "w\<lparr>heap := (heap w)(pos := heap w ?ch), node_to_heap := (node_to_heap w)(heap w ?ch := pos)\<rparr>"
    have rec: "SiftDown_loop (node_f (nodes ?w idx)) ?ch ?w = (pos', w')"
      using 1(2,3) True by (subst (asm) SiftDown_loop.simps) (auto simp: Let_def least_child_def costs_def split: if_splits)
    have h: "(heap ?w)(?ch := idx) = ?h(pos := ?h ?ch, ?ch := ?h pos)"
      using ch(4) by (auto simp: fun_eq_iff)
    have n: "(node_to_heap ?w)(idx := ?ch) = ?n(?h ?ch := pos, ?h pos := ?ch)"
      using ch(4) by (auto simp: fun_eq_iff)
    have swap: "rearranged ?h ?n ((heap ?w)(?ch := idx)) ((node_to_heap ?w)(idx := ?ch)) k"
      unfolding h n using 1(4,5) ch by (intro rearranged_swap) auto
    have c: "costs ?w ((heap ?w)(?ch := idx)) = (costs w ?h)(pos := costs w ?h ?ch, ?ch := costs w ?h pos)"
      unfolding h using ch by (auto simp: costs_def fun_eq_iff)
    have less: "costs w ?h ?ch < costs w ?h pos"
      using True ch by (auto simp: costs_def)
    have "costs w ?h ?ch \<le> costs w ?h i" if "0 < i" "i < k" "up i = pos" for i
      using least_child_least[of i k pos "costs w (heap w)"] that ch(4) up_less[of i] by (auto simp: costs_def)
    note ord = sift_down_order[OF 1(6,7) ch(1-3) less this]
    have IH: "\<exists>h n. w' = ?w\<lparr>heap := h, node_to_heap := n\<rparr> \<and> ?ch \<le> pos' \<and> pos' < k \<and>
      rearranged ((heap ?w)(?ch := idx)) ((node_to_heap ?w)(idx := ?ch)) (h(pos' := idx)) (n(idx := pos')) k \<and>
      ordered (costs ?w (h(pos' := idx))) k (\<lambda>i. i \<noteq> pos') \<and> bridged (costs ?w (h(pos' := idx))) k pos' \<and>
      (if pos' = ?ch then h(pos' := idx) = (heap ?w)(?ch := idx)
       else costs ?w (h(pos' := idx)) (up pos') \<le> costs ?w (h(pos' := idx)) pos')"
    proof (rule 1(1))
      show "linked ((heap ?w)(?ch := idx)) ((node_to_heap ?w)(idx := ?ch)) k"
        using swap by (simp add: rearranged_def)
      show "ordered (costs ?w ((heap ?w)(?ch := idx))) k (\<lambda>i. i \<noteq> ?ch \<and> up i \<noteq> ?ch)"
        unfolding c by (rule ord(1))
      show "bridged (costs ?w ((heap ?w)(?ch := idx))) k ?ch"
        unfolding c by (rule ord(2))
      show "SiftDown_loop (node_f (nodes ?w idx)) ?ch ?w = (pos', w')" by (rule rec)
    qed (use True ch 1(3) in \<open>auto simp: least_child_def costs_def\<close>)
    have moved: "costs w ((heap ?w)(?ch := idx)) (up ?ch) \<le> costs w ((heap ?w)(?ch := idx)) ?ch"
      using c less ch by (simp add: costs_def)
    obtain h n where r: "w' = ?w\<lparr>heap := h, node_to_heap := n\<rparr>" "?ch \<le> pos'" "pos' < k"
      "rearranged ((heap ?w)(?ch := idx)) ((node_to_heap ?w)(idx := ?ch)) (h(pos' := idx)) (n(idx := pos')) k"
      "ordered (costs ?w (h(pos' := idx))) k (\<lambda>i. i \<noteq> pos')" "bridged (costs ?w (h(pos' := idx))) k pos'"
      "pos' = ?ch \<Longrightarrow> h(pos' := idx) = (heap ?w)(?ch := idx)"
      "pos' \<noteq> ?ch \<Longrightarrow> costs ?w (h(pos' := idx)) (up pos') \<le> costs ?w (h(pos' := idx)) pos'"
      using IH by (auto split: if_splits)
    have "costs w (h(pos' := idx)) (up pos') \<le> costs w (h(pos' := idx)) pos'"
    proof (cases "pos' = ?ch")
      case True
      then show ?thesis using r(7)[OF True] moved by simp
    next
      case False
      then show ?thesis using r(8) by simp
    qed
    then show ?thesis
      using r rearranged_trans[OF swap r(4)] ch(4) by (intro exI[of _ h] exI[of _ n]) simp
  next
    case False
    have "SiftDown_loop (node_f (nodes w idx)) pos w = (pos, w)"
      using False 1(3) by (subst SiftDown_loop.simps) (auto simp: Let_def least_child_def costs_def not_less split: if_splits)
    then have eq: "pos' = pos" "w' = w"
      using 1(2) by simp_all
    have "costs w ?h pos \<le> costs w ?h i" if i: "0 < i" "i < k" "up i = pos" for i
    proof -
      have "2 * pos + 1 < k"
        using i up_cases[of i pos] by auto
      then show ?thesis
        using False least_child_least[of i k pos "costs w (heap w)"] i up_less[of i] by (auto simp: costs_def)
    qed
    then have "ordered (costs w ?h) k (\<lambda>i. i \<noteq> pos)"
      using 1(6) unfolding ordered_def by metis
    then show ?thesis
      using eq 1(4,5,7) by (intro exI[of _ "heap w"] exI[of _ "node_to_heap w"]) (simp add: rearranged_refl)
  qed
qed

lemma SiftDown_correct:
  assumes "linked (heap w) (node_to_heap w) k" and "pos < k" and "heap_size w = k"
    and "ordered (costs w (heap w)) k (\<lambda>i. i \<noteq> pos \<and> up i \<noteq> pos)" and "bridged (costs w (heap w)) k pos"
  shows "\<exists>pos' h n. SiftDown pos w = (pos', w\<lparr>heap := h, node_to_heap := n\<rparr>) \<and>
    rearranged (heap w) (node_to_heap w) h n k \<and> bridged (costs w h) k pos' \<and>
    ordered (costs w h) k (\<lambda>i. pos' = pos \<longrightarrow> i \<noteq> pos)"
proof -
  let ?i = "heap w pos"
  obtain pos' w' where loop: "SiftDown_loop (node_f (nodes w ?i)) pos w = (pos', w')"
    by (metis prod.exhaust)
  have n: "(node_to_heap w)(?i := pos) = node_to_heap w"
    using assms(1,2) by (auto simp: linked_def)
  obtain h n where r: "w' = w\<lparr>heap := h, node_to_heap := n\<rparr>" "rearranged (heap w) (node_to_heap w) (h(pos' := ?i)) (n(?i := pos')) k"
    "ordered (costs w (h(pos' := ?i))) k (\<lambda>i. i \<noteq> pos')" "bridged (costs w (h(pos' := ?i))) k pos'"
    "pos' = pos \<or> costs w (h(pos' := ?i)) (up pos') \<le> costs w (h(pos' := ?i)) pos'"
    using SiftDown_loop_correct[OF loop assms(3)] assms n by (auto split: if_splits)
  have "ordered (costs w (h(pos' := ?i))) k (\<lambda>i. pos' = pos \<longrightarrow> i \<noteq> pos)"
    using r(3,5) unfolding ordered_def by metis
  then show ?thesis
    using r loop by (force simp: SiftDown_def Let_def)
qed

section \<open>The heap invariant\<close>

definition open_nodes :: "AStarNodes \<Rightarrow> nat set" where
  "open_nodes w = {n. n < current_node w \<and> node_to_heap w n \<noteq> ASTAR_NODE_NONE}"

definition heap_ok :: "AStarNodes \<Rightarrow> bool" where
  "heap_ok w \<longleftrightarrow> current_node w \<le> MAX_NODES \<and> heap_size w \<le> MAX_NODES \<and> linked (heap w) (node_to_heap w) (heap_size w) \<and>
     heap w ` {..<heap_size w} = open_nodes w \<and> ordered (costs w (heap w)) (heap_size w) (\<lambda>_. True)"

lemma linked_inj: "linked h n k \<Longrightarrow> inj_on h {..<k}"
  by (auto simp: linked_def inj_on_def) metis

lemma linked_at: "linked h n k \<Longrightarrow> m \<in> h ` {..<k} \<Longrightarrow> n m < k \<and> h (n m) = m"
  by (auto simp: linked_def)

lemma heap_size_card: "heap_ok w \<Longrightarrow> heap_size w = card (open_nodes w)"
  using card_image[OF linked_inj, of "heap w" "node_to_heap w" "heap_size w"] by (simp add: heap_ok_def)

lemma rearranged_open:
  assumes "rearranged h n h' n' k" and "linked h n k" and "k \<le> MAX_NODES"
  shows "n' m \<noteq> ASTAR_NODE_NONE \<longleftrightarrow> n m \<noteq> ASTAR_NODE_NONE"
proof (cases "m \<in> h ` {..<k}")
  case True
  then have "n m < k" "n' m < k"
    using assms(1,2) linked_at[of h n k m] linked_at[of h' n' k m] by (auto simp: rearranged_def)
  then show ?thesis
    using assms(3) by (simp add: MAX_NODES_def ASTAR_NODE_NONE_def)
qed (use assms(1) in \<open>simp add: rearranged_def\<close>)

text \<open>Sifting up the last element of a heap, and an element whose costs have fallen.\<close>

lemma heap_ok_root:
  assumes "heap_ok w" and "i < heap_size w"
  shows "costs w (heap w) 0 \<le> costs w (heap w) i"
  using assms(2)
proof (induction i rule: less_induct)
  case (less i)
  show ?case
  proof (cases "i = 0")
    case False
    then have "up i < i" using up_less by blast
    then have "costs w (heap w) 0 \<le> costs w (heap w) (up i)"
      using less by simp
    also have "\<dots> \<le> costs w (heap w) i"
      using assms(1) less(2) False by (simp add: heap_ok_def ordered_def)
    finally show ?thesis .
  qed simp
qed

text \<open>A state whose arrays are a heap up to the position that is sifted.\<close>

definition almost_heap :: "AStarNodes \<Rightarrow> nat \<Rightarrow> bool" where
  "almost_heap w pos \<longleftrightarrow> current_node w \<le> MAX_NODES \<and> heap_size w \<le> MAX_NODES \<and> linked (heap w) (node_to_heap w) (heap_size w) \<and>
     heap w ` {..<heap_size w} = open_nodes w \<and> pos < heap_size w \<and>
     ordered (costs w (heap w)) (heap_size w) (\<lambda>i. i \<noteq> pos) \<and> bridged (costs w (heap w)) (heap_size w) pos"

lemma heap_ok_rearranged:
  assumes "current_node w \<le> MAX_NODES" "heap_size w \<le> MAX_NODES" "linked (heap w) (node_to_heap w) (heap_size w)"
    "heap w ` {..<heap_size w} = open_nodes w"
    and "rearranged (heap w) (node_to_heap w) h n (heap_size w)" and "ordered (costs w h) (heap_size w) (\<lambda>_. True)"
  shows "heap_ok (w\<lparr>heap := h, node_to_heap := n\<rparr>) \<and> open_nodes (w\<lparr>heap := h, node_to_heap := n\<rparr>) = open_nodes w"
  using assms rearranged_open[OF assms(5,3,2)] by (auto simp: heap_ok_def open_nodes_def rearranged_def)

lemma SiftUp_ok:
  assumes "almost_heap w pos"
  obtains h n where "SiftUp pos w = w\<lparr>heap := h, node_to_heap := n\<rparr>" and "heap_ok (w\<lparr>heap := h, node_to_heap := n\<rparr>)"
    and "open_nodes (w\<lparr>heap := h, node_to_heap := n\<rparr>) = open_nodes w"
proof -
  obtain h n where h: "SiftUp pos w = w\<lparr>heap := h, node_to_heap := n\<rparr>"
    "rearranged (heap w) (node_to_heap w) h n (heap_size w)" "ordered (costs w h) (heap_size w) (\<lambda>_. True)"
    using assms SiftUp_correct[of w "heap_size w" pos] by (auto simp: almost_heap_def)
  then show ?thesis
    using that heap_ok_rearranged[OF _ _ _ _ h(2,3)] assms by (auto simp: almost_heap_def)
qed

lemma heap_push:
  assumes "heap_ok w" and "idx < current_node w" and "idx \<notin> open_nodes w" and "heap_size w < MAX_NODES"
  shows "almost_heap (w\<lparr>heap := (heap w)(heap_size w := idx), node_to_heap := (node_to_heap w)(idx := heap_size w),
    heap_size := heap_size w + 1\<rparr>) (heap_size w)" (is "almost_heap ?w _")
proof -
  let ?k = "heap_size w"
  have im: "heap w ` {..<?k} = open_nodes w" and l: "linked (heap w) (node_to_heap w) ?k"
    and o: "ordered (costs w (heap w)) ?k (\<lambda>_. True)"
    using assms(1) by (simp_all add: heap_ok_def)
  have "heap w i \<noteq> idx" if "i < ?k" for i
    using im assms(3) that by auto
  then have "linked (heap ?w) (node_to_heap ?w) (heap_size ?w)"
    using l by (auto simp: linked_def less_Suc_eq)
  moreover have "heap ?w ` {..<heap_size ?w} = open_nodes ?w"
  proof -
    have "heap ?w ` {..<heap_size ?w} = insert idx (heap w ` {..<?k})"
      by (auto simp: lessThan_Suc)
    also have "\<dots> = open_nodes ?w"
      using im assms(2,4) by (auto simp: open_nodes_def MAX_NODES_def ASTAR_NODE_NONE_def)
    finally show ?thesis .
  qed
  moreover have "ordered (costs ?w (heap ?w)) (heap_size ?w) (\<lambda>i. i \<noteq> ?k)"
    unfolding ordered_def
  proof (intro allI impI)
    fix i assume i: "0 < i" "i < heap_size ?w" "i \<noteq> ?k"
    then have "up i < i" using up_less by blast
    then show "costs ?w (heap ?w) (up i) \<le> costs ?w (heap ?w) i"
      using i o by (simp add: ordered_def costs_def)
  qed
  moreover have "bridged (costs ?w (heap ?w)) (heap_size ?w) ?k"
    unfolding bridged_def
  proof (intro allI impI)
    fix i assume i: "0 < i" "i < heap_size ?w" "up i = ?k"
    have "up i < i" using i(1) by (rule up_less)
    with i show "costs ?w (heap ?w) (up ?k) \<le> costs ?w (heap ?w) i" by simp
  qed
  ultimately show ?thesis
    using assms(1,4) by (simp add: almost_heap_def heap_ok_def)
qed

lemma heap_decrease:
  assumes "heap_ok w" and "idx \<in> open_nodes w" and "node_f node \<le> node_f (nodes w idx)"
  shows "almost_heap (w\<lparr>nodes := (nodes w)(idx := node)\<rparr>) (node_to_heap w idx)" (is "almost_heap ?w ?p")
proof -
  let ?k = "heap_size w"
  have l: "linked (heap w) (node_to_heap w) ?k" and im: "heap w ` {..<?k} = open_nodes w"
    and o: "ordered (costs w (heap w)) ?k (\<lambda>_. True)"
    using assms(1) by (simp_all add: heap_ok_def)
  have p: "?p < ?k" "heap w ?p = idx"
    using linked_at[OF l] im assms(2) by auto
  have c: "costs ?w (heap w) i = (if i = ?p then node_f node else costs w (heap w) i)" if "i < ?k" for i
    using l that p by (auto simp: costs_def linked_def)
  have old: "costs w (heap w) (up i) \<le> costs w (heap w) i" if "0 < i" "i < ?k" for i
    using o that by (simp add: ordered_def)
  have le: "node_f node \<le> costs w (heap w) ?p"
    using assms(3) p by (simp add: costs_def)
  have "ordered (costs ?w (heap w)) ?k (\<lambda>i. i \<noteq> ?p)"
    unfolding ordered_def
  proof (intro allI impI)
    fix i assume i: "0 < i" "i < ?k" "i \<noteq> ?p"
    then have "up i < i" using up_less by blast
    then show "costs ?w (heap w) (up i) \<le> costs ?w (heap w) i"
      using i c[of i] c[of "up i"] old[OF i(1,2)] le by auto
  qed
  moreover have "bridged (costs ?w (heap w)) ?k ?p"
    unfolding bridged_def
  proof (intro allI impI)
    fix i assume i: "0 < i" "i < ?k" "up i = ?p" "0 < ?p"
    have lt: "?p < i" "up ?p < ?p"
      using up_less[OF i(1)] up_less[OF i(4)] i(3) by simp_all
    then show "costs ?w (heap w) (up ?p) \<le> costs ?w (heap w) i"
      using i c[of i] c[of "up ?p"] old[OF i(1,2)] old[OF i(4) p(1)] p(1) by auto
  qed
  ultimately show ?thesis
    using assms(1) p(1) by (simp add: almost_heap_def heap_ok_def open_nodes_def)
qed

lemma remove_last:
  assumes "linked h n (Suc k)" and "p \<le> k" and "h p = idx"
  shows "linked (h(p := h k)) (n(idx := none, h k := p)) k"
    and "(h(p := h k)) ` {..<k} = h ` {..<Suc k} - {idx}"
proof -
  have inj: "h i = h j \<longleftrightarrow> i = j" if "i \<le> k" "j \<le> k" for i j
    using linked_inj[OF assms(1)] that by (auto simp: inj_on_def)
  show "linked (h(p := h k)) (n(idx := none, h k := p)) k"
    using assms inj by (auto simp: linked_def less_Suc_eq)
  show "(h(p := h k)) ` {..<k} = h ` {..<Suc k} - {idx}"
  proof
    show "(h(p := h k)) ` {..<k} \<subseteq> h ` {..<Suc k} - {idx}"
      using assms(2,3) inj by (auto simp: less_Suc_eq)
    show "h ` {..<Suc k} - {idx} \<subseteq> (h(p := h k)) ` {..<k}"
    proof
      fix m assume "m \<in> h ` {..<Suc k} - {idx}"
      then obtain i where i: "i \<le> k" "m = h i" "i \<noteq> p"
        using assms(3) by (fastforce simp: less_Suc_eq_le)
      then show "m \<in> (h(p := h k)) ` {..<k}"
        using assms(2) by (intro image_eqI[of _ _ "if i = k then p else i"]) auto
    qed
  qed
qed

lemma CloseNode_ok:
  assumes ok: "heap_ok w" and idx: "idx \<in> open_nodes w"
  obtains h n where "CloseNode idx w = w\<lparr>closed_nodes := closed_nodes w + 1, heap_size := heap_size w - 1, heap := h, node_to_heap := n\<rparr>"
    and "heap_ok (CloseNode idx w)" and "open_nodes (CloseNode idx w) = open_nodes w - {idx}"
proof -
  let ?p = "node_to_heap w idx"
  have l: "linked (heap w) (node_to_heap w) (heap_size w)" and im: "heap w ` {..<heap_size w} = open_nodes w"
    and o: "ordered (costs w (heap w)) (heap_size w) (\<lambda>_. True)" and max: "current_node w \<le> MAX_NODES" "heap_size w \<le> MAX_NODES"
    using ok by (simp_all add: heap_ok_def)
  have p: "?p < heap_size w" "heap w ?p = idx"
    using linked_at[OF l] im idx by auto
  then obtain k where k: "heap_size w = Suc k"
    by (cases "heap_size w") auto
  let ?last = "heap w k"
  let ?h = "(heap w)(?p := ?last)" and ?n = "(node_to_heap w)(idx := ASTAR_NODE_NONE, ?last := ?p)"
  have old: "costs w (heap w) (up i) \<le> costs w (heap w) i" if "0 < i" "i \<le> k" for i
    using o that by (simp add: ordered_def k)
  show ?thesis
  proof (cases "?p = k")
    case True
    let ?w = "w\<lparr>closed_nodes := closed_nodes w + 1, heap_size := heap_size w - 1, heap := heap w, node_to_heap := (node_to_heap w)(idx := ASTAR_NODE_NONE)\<rparr>"
    have eq: "CloseNode idx w = ?w"
      using True k by (simp add: CloseNode_def Let_def)
    have inj: "heap w i \<noteq> idx" if "i < k" for i
      using linked_inj[OF l] that p True by (auto simp: inj_on_def k)
    have op: "open_nodes ?w = open_nodes w - {idx}"
      by (auto simp: open_nodes_def)
    have "heap w ` {..<k} = open_nodes w - {idx}"
      using im inj p(2) True by (auto simp: k lessThan_Suc)
    moreover have "linked (heap w) ((node_to_heap w)(idx := ASTAR_NODE_NONE)) k"
      using l inj by (auto simp: linked_def k)
    moreover have "ordered (costs w (heap w)) k (\<lambda>_. True)"
      using old by (simp add: ordered_def)
    ultimately have "heap_ok ?w"
      using max op by (simp add: heap_ok_def k)
    then show ?thesis
      using that[where h = "heap w" and n = "(node_to_heap w)(idx := ASTAR_NODE_NONE)"] eq op by simp
  next
    case False
    let ?w = "w\<lparr>closed_nodes := closed_nodes w + 1, heap_size := k, heap := ?h, node_to_heap := ?n\<rparr>"
    have pk: "?p < k" using False p k by simp
    have lk: "linked ?h ?n k" and imk: "?h ` {..<k} = open_nodes w - {idx}"
      using remove_last[OF l[unfolded k] _ p(2)] pk im k by auto
    have ne: "?last \<noteq> idx"
      using l pk p(2) by (auto simp: linked_def k)
    have last: "?last < current_node w"
      using im k by (auto simp: open_nodes_def)
    have op: "open_nodes ?w = open_nodes w - {idx}"
      using ne pk max(2) im k by (auto simp: open_nodes_def MAX_NODES_def ASTAR_NODE_NONE_def)
    have c: "costs w ?h i = (if i = ?p then costs w (heap w) k else costs w (heap w) i)" for i
      by (simp add: costs_def)
    have ord: "ordered (costs w ?h) k (\<lambda>i. i \<noteq> ?p \<and> up i \<noteq> ?p)"
      using old by (auto simp: ordered_def c)
    have br: "bridged (costs w ?h) k ?p"
      unfolding bridged_def
    proof (intro allI impI)
      fix i assume i: "0 < i" "i < k" "up i = ?p" "0 < ?p"
      have "?p < i" "up ?p < ?p"
        using up_less[OF i(1)] up_less[OF i(4)] i(3) by simp_all
      then show "costs w ?h (up ?p) \<le> costs w ?h i"
        using old[of i] old[of ?p] i pk by (simp add: c)
    qed
    obtain pos' h n where d: "SiftDown ?p ?w = (pos', ?w\<lparr>heap := h, node_to_heap := n\<rparr>)"
      "rearranged ?h ?n h n k" "bridged (costs w h) k pos'" "ordered (costs w h) k (\<lambda>i. pos' = ?p \<longrightarrow> i \<noteq> ?p)"
      using SiftDown_correct[of ?w k ?p] lk pk ord br by auto
    let ?v = "?w\<lparr>heap := h, node_to_heap := n\<rparr>"
    have eq: "CloseNode idx w = (if pos' = ?p then SiftUp ?p ?v else ?v)"
      using False k d(1) by (simp add: CloseNode_def Let_def)
    have lv: "linked h n k" "h ` {..<k} = open_nodes ?v"
      using d(2) rearranged_open[OF d(2) lk] imk op max(2) k by (auto simp: rearranged_def open_nodes_def)
    have opv: "open_nodes ?v = open_nodes w - {idx}"
      using lv d(2) imk by (simp add: rearranged_def)
    show ?thesis
    proof (cases "pos' = ?p")
      case True
      then have "almost_heap ?v ?p"
        using d lv max pk k by (simp add: almost_heap_def)
      then show ?thesis
        using eq True opv that k by (elim SiftUp_ok) simp
    next
      case False
      then have "heap_ok ?v"
        using d lv max k by (simp add: heap_ok_def)
      then show ?thesis
        using eq False opv that[where h = h and n = n] k by simp
    qed
  qed
qed

section \<open>The hash table invariant\<close>

definition slot_at :: "u32 \<Rightarrow> nat \<Rightarrow> nat" where
  "slot_at key d = (first_slot key + d) mod ASTAR_HASH_SIZE"

definition node_key :: "AStarNodes \<Rightarrow> nat \<Rightarrow> u32" where
  "node_key w n = position_key (node_x (nodes w n)) (node_y (nodes w n))"

definition filled :: "AStarNodes \<Rightarrow> nat \<Rightarrow> bool" where
  "filled w s \<longleftrightarrow> h_table_values w s \<noteq> ASTAR_NODE_NONE"

text \<open>Every node is found from its first slot without crossing an empty one, and every filled slot holds a node.\<close>

definition placed :: "AStarNodes \<Rightarrow> nat \<Rightarrow> bool" where
  "placed w n \<longleftrightarrow> h_table_values w (used_nodes w n) = n \<and> h_table_keys w (used_nodes w n) = node_key w n \<and>
     (\<exists>d. used_nodes w n = slot_at (node_key w n) d \<and> (\<forall>e < d. filled w (slot_at (node_key w n) e)))"

definition hash_ok :: "AStarNodes \<Rightarrow> bool" where
  "hash_ok w \<longleftrightarrow> current_node w \<le> MAX_NODES \<and> used_count w = current_node w \<and> (\<forall>n < current_node w. placed w n) \<and>
     (\<forall>s < ASTAR_HASH_SIZE. filled w s \<longrightarrow> h_table_values w s < current_node w \<and> used_nodes w (h_table_values w s) = s) \<and>
     inj_on (node_key w) {..<current_node w}"

lemma hash_size: "ASTAR_HASH_SIZE = 1024"
  by (simp add: ASTAR_HASH_SIZE_def ASTAR_HASH_BITS_def)

lemma first_slot_bound: "first_slot key < ASTAR_HASH_SIZE"
proof -
  have "unat (key * FIB_MULT) < 2 ^ 32"
    using unsigned_less[of "key * FIB_MULT", where 'a = nat] by simp
  then have "unat (key * FIB_MULT) div 2 ^ 22 < 1024"
    by (simp add: less_mult_imp_div_less)
  moreover have "first_slot key = unat (key * FIB_MULT) div 2 ^ 22"
    unfolding first_slot_def ASTAR_HASH_BITS_def unat_drop_bit_eq by (simp add: drop_bit_eq_div)
  ultimately show ?thesis
    by (simp add: hash_size)
qed

lemma slot_at_0: "slot_at key 0 = first_slot key"
  using first_slot_bound by (simp add: slot_at_def)

lemma slot_at_bound: "slot_at key d < ASTAR_HASH_SIZE"
  by (simp add: slot_at_def hash_size)

lemma next_slot_at: "next_slot (slot_at key d) = slot_at key (Suc d)"
  by (simp add: next_slot_def slot_at_def take_bit_nat_def ASTAR_HASH_SIZE_def mod_Suc_eq)

lemma slot_at_hits: "s < ASTAR_HASH_SIZE \<Longrightarrow> \<exists>d. slot_at key d = s"
proof -
  assume s: "s < ASTAR_HASH_SIZE"
  have "(first_slot key + (ASTAR_HASH_SIZE - first_slot key + s)) mod ASTAR_HASH_SIZE = s"
    using first_slot_bound[of key] s by simp
  then show ?thesis
    unfolding slot_at_def by blast
qed

text \<open>The table has more slots than there are nodes, so probing meets an empty slot.\<close>

lemma empty_slot:
  assumes "card {s. s < ASTAR_HASH_SIZE \<and> filled w s} < ASTAR_HASH_SIZE"
  shows "\<exists>d. \<not> filled w (slot_at key d)"
proof (rule ccontr)
  assume "\<not> ?thesis"
  then have "filled w s" if "s < ASTAR_HASH_SIZE" for s
    using slot_at_hits[OF that, of key] by auto
  then have "{s. s < ASTAR_HASH_SIZE \<and> filled w s} = {..<ASTAR_HASH_SIZE}"
    by blast
  then show False
    using assms by simp
qed

lemma filled_card:
  assumes "\<And>s. s < ASTAR_HASH_SIZE \<Longrightarrow> filled w s \<Longrightarrow> h_table_values w s < k \<and> used_nodes w (h_table_values w s) = s" and "k \<le> MAX_NODES"
  shows "card {s. s < ASTAR_HASH_SIZE \<and> filled w s} < ASTAR_HASH_SIZE"
proof -
  have "{s. s < ASTAR_HASH_SIZE \<and> filled w s} \<subseteq> used_nodes w ` {..<k}"
    using assms(1) by force
  then have "card {s. s < ASTAR_HASH_SIZE \<and> filled w s} \<le> card (used_nodes w ` {..<k})"
    by (intro card_mono) auto
  also have "\<dots> \<le> k"
    using card_image_le[of "{..<k}" "used_nodes w"] by simp
  finally show ?thesis
    using assms(2) by (simp add: hash_size MAX_NODES_def)
qed

lemma Insert_loop_at:
  assumes "\<not> filled w (slot_at key d)" and "\<And>e. e < d \<Longrightarrow> filled w (slot_at key e)" and "e \<le> d"
  shows "Insert_loop w (slot_at key e) = Some (slot_at key d)"
  using assms(3)
proof (induction rule: inc_induct)
  case base
  then show ?case
    using assms(1) by (subst Insert_loop.simps) (simp add: filled_def)
next
  case (step e)
  then show ?case
    using assms(2) by (subst Insert_loop.simps) (simp add: filled_def next_slot_at)
qed

lemma Insert_finds:
  assumes "card {s. s < ASTAR_HASH_SIZE \<and> filled w s} < ASTAR_HASH_SIZE"
  obtains d where "Insert_loop w (first_slot key) = Some (slot_at key d)" "\<not> filled w (slot_at key d)"
    "\<And>e. e < d \<Longrightarrow> filled w (slot_at key e)"
proof -
  let ?d = "LEAST d. \<not> filled w (slot_at key d)"
  have "\<not> filled w (slot_at key ?d)"
    using empty_slot[OF assms] by (rule LeastI_ex)
  moreover have "filled w (slot_at key e)" if "e < ?d" for e
    using not_less_Least[OF that] by simp
  ultimately show ?thesis
    using that Insert_loop_at[of w key ?d 0] by (simp add: slot_at_0)
qed

lemma Find_loop_stops:
  assumes "\<not> filled w (slot_at key d) \<or> h_table_keys w (slot_at key d) = key"
    and "\<And>e. e < d \<Longrightarrow> filled w (slot_at key e) \<and> h_table_keys w (slot_at key e) \<noteq> key" and "e \<le> d"
  shows "Find_loop w key (slot_at key e) = Some (if filled w (slot_at key d) then h_table_values w (slot_at key d) else ASTAR_NODE_NONE)"
  using assms(3)
proof (induction rule: inc_induct)
  case base
  then show ?case
    using assms(1) by (subst Find_loop.simps) (auto simp: filled_def)
next
  case (step e)
  then show ?case
    using assms(2) by (subst Find_loop.simps) (simp add: filled_def next_slot_at)
qed

lemma position_key_inject: "position_key x y = position_key x' y' \<longleftrightarrow> x = x' \<and> y = y'"
proof -
  have u: "unat (position_key x y) = unat x * 2 ^ 16 + unat y" for x y :: u16
  proof -
    have "unat x < 2 ^ 16" "unat y < 2 ^ 16"
      using unsigned_less[of x, where 'a = nat] unsigned_less[of y, where 'a = nat] by simp_all
    then show ?thesis
      unfolding position_key_def by (subst unat_push_or) (simp_all add: unat_ucast_up)
  qed
  have "unat y < 2 ^ 16" "unat y' < 2 ^ 16"
    using unsigned_less[of y, where 'a = nat] unsigned_less[of y', where 'a = nat] by simp_all
  moreover have "(a * 2 ^ 16 + b) div 2 ^ 16 = a \<and> (a * 2 ^ 16 + b) mod 2 ^ 16 = b" if "b < 2 ^ 16" for a b :: nat
    using that by simp
  ultimately have "unat x * 2 ^ 16 + unat y = unat x' * 2 ^ 16 + unat y' \<longleftrightarrow> unat x = unat x' \<and> unat y = unat y'"
    by metis
  then show ?thesis
    by (simp add: word_unat_eq_iff u)
qed

lemma hash_slots:
  assumes "hash_ok w" and "filled w (slot_at key d)"
  shows "h_table_values w (slot_at key d) < current_node w" "h_table_keys w (slot_at key d) = node_key w (h_table_values w (slot_at key d))"
proof -
  let ?m = "h_table_values w (slot_at key d)"
  have m: "?m < current_node w" "used_nodes w ?m = slot_at key d"
    using assms slot_at_bound by (auto simp: hash_ok_def)
  then show "?m < current_node w" "h_table_keys w (slot_at key d) = node_key w ?m"
    using assms(1) by (auto simp: hash_ok_def placed_def)
qed

lemma Find_correct:
  assumes ok: "hash_ok w"
  shows "\<exists>r. Find key w = Some r \<and>
    (r = ASTAR_NODE_NONE \<and> (\<forall>n < current_node w. node_key w n \<noteq> key) \<or> r < current_node w \<and> node_key w r = key)"
proof -
  let ?stop = "\<lambda>d. \<not> filled w (slot_at key d) \<or> h_table_keys w (slot_at key d) = key"
  define D where "D = (LEAST d. ?stop d)"
  have "card {s. s < ASTAR_HASH_SIZE \<and> filled w s} < ASTAR_HASH_SIZE"
    using ok by (intro filled_card[of w "current_node w"]) (auto simp: hash_ok_def)
  then have "\<exists>d. ?stop d"
    using empty_slot by blast
  then have D: "?stop D"
    unfolding D_def by (rule LeastI_ex)
  have before: "\<not> ?stop e" if "e < D" for e
    using not_less_Least that unfolding D_def by blast
  have find: "Find key w = Some (if filled w (slot_at key D) then h_table_values w (slot_at key D) else ASTAR_NODE_NONE)"
    using Find_loop_stops[of w key D 0] D before by (simp add: Find_def slot_at_0)
  show ?thesis
  proof (cases "filled w (slot_at key D)")
    case True
    let ?m = "h_table_values w (slot_at key D)"
    have m: "?m < current_node w" "node_key w ?m = key"
      using hash_slots[OF ok True] D True by auto
    then show ?thesis
      using find True by auto
  next
    case False
    have "\<not> (\<exists>n < current_node w. node_key w n = key)"
    proof
      assume "\<exists>n < current_node w. node_key w n = key"
      then obtain n where n: "n < current_node w" "node_key w n = key" by blast
      then have "placed w n" using ok by (simp add: hash_ok_def)
      then obtain d where d: "used_nodes w n = slot_at key d" "\<And>e. e < d \<Longrightarrow> filled w (slot_at key e)"
        "h_table_values w (slot_at key d) = n" "h_table_keys w (slot_at key d) = key"
        using n(2) by (auto simp: placed_def)
      have "D \<le> d"
        using before[of d] d(4) by (meson not_le)
      moreover have "filled w (slot_at key d)"
        using d(3) n(1) ok by (auto simp: filled_def hash_ok_def MAX_NODES_def ASTAR_NODE_NONE_def)
      ultimately show False
        using False d(2)[of D] by (cases "D = d") auto
    qed
    then show ?thesis
      using find False by simp
  qed
qed

text \<open>Inserting a fresh node.\<close>

lemma Insert_ok:
  assumes ok: "hash_ok w" and room: "current_node w < MAX_NODES" and fresh: "\<And>n. n < current_node w \<Longrightarrow> node_key w n \<noteq> key"
    and v: "v = w\<lparr>current_node := current_node w + 1, nodes := (nodes w)(current_node w := node)\<rparr>"
    and key: "key = position_key (node_x node) (node_y node)"
  obtains t u us c where "Insert key (current_node w) v = Some (v\<lparr>h_table_keys := t, h_table_values := u, used_nodes := us, used_count := c\<rparr>)"
    and "hash_ok (v\<lparr>h_table_keys := t, h_table_values := u, used_nodes := us, used_count := c\<rparr>)"
proof -
  let ?k = "current_node w"
  have slots: "h_table_values w s < ?k \<and> used_nodes w (h_table_values w s) = s" if "s < ASTAR_HASH_SIZE" "filled w s" for s
    using ok that by (simp add: hash_ok_def)
  have fv: "filled v = filled w"
    by (simp add: v filled_def fun_eq_iff)
  have "card {s. s < ASTAR_HASH_SIZE \<and> filled v s} < ASTAR_HASH_SIZE"
    using filled_card[of w ?k] slots room by (simp add: fv)
  then obtain d where d: "Insert_loop v (first_slot key) = Some (slot_at key d)" "\<not> filled w (slot_at key d)"
    "\<And>e. e < d \<Longrightarrow> filled w (slot_at key e)"
    using Insert_finds fv by metis
  let ?s = "slot_at key d"
  let ?v = "v\<lparr>h_table_keys := (h_table_keys w)(?s := key), h_table_values := (h_table_values w)(?s := ?k),
    used_nodes := (used_nodes w)(?k := ?s), used_count := Suc ?k\<rparr>"
  have uc: "used_count w = ?k" and inj: "inj_on (node_key w) {..<?k}"
    using ok by (simp_all add: hash_ok_def)
  have ins: "Insert key ?k v = Some ?v"
    using d(1) uc by (simp add: Insert_def v)
  have keys: "node_key ?v n = (if n = ?k then key else node_key w n)" for n
    by (simp add: node_key_def v key)
  have k: "?k \<noteq> ASTAR_NODE_NONE"
    using room by (simp add: MAX_NODES_def ASTAR_NODE_NONE_def)
  have fl: "filled ?v s \<longleftrightarrow> filled w s \<or> s = ?s" for s
    using k by (simp add: filled_def v)
  have "placed ?v n" if "n < Suc ?k" for n
  proof (cases "n = ?k")
    case True
    then show ?thesis
      using d(3) fl by (auto simp: placed_def keys)
  next
    case False
    then have n: "n < ?k" using that by simp
    then have p: "placed w n" using ok by (simp add: hash_ok_def)
    have "n \<noteq> ASTAR_NODE_NONE"
      using n room by (simp add: MAX_NODES_def ASTAR_NODE_NONE_def)
    then have "filled w (used_nodes w n)"
      using p by (simp add: placed_def filled_def)
    then have "used_nodes w n \<noteq> ?s" using d(2) by auto
    then show ?thesis
      using p False fl by (auto simp: placed_def keys)
  qed
  moreover have "h_table_values ?v s < Suc ?k \<and> used_nodes ?v (h_table_values ?v s) = s" if "s < ASTAR_HASH_SIZE" "filled ?v s" for s
    using that slots[of s] fl[of s] by (auto simp: less_Suc_eq)
  moreover have "inj_on (node_key ?v) {..<Suc ?k}"
    using inj fresh by (auto simp: inj_on_def keys lessThan_Suc)
  ultimately have "hash_ok ?v"
    using room by (simp add: hash_ok_def v)
  then show ?thesis
    using that ins by blast
qed

section \<open>The node store\<close>

definition store_ok :: "AStarNodes \<Rightarrow> bool" where
  "store_ok w \<longleftrightarrow> heap_ok w \<and> hash_ok w"

definition workspace_ok :: "AStarWorkspace \<Rightarrow> bool" where
  "workspace_ok ws \<longleftrightarrow> (\<forall>s < ASTAR_HASH_SIZE. h_table_values ws s \<noteq> ASTAR_NODE_NONE \<longrightarrow> s \<in> used_nodes ws ` {..<used_count ws})"

lemma hash_ok_cong:
  assumes "hash_ok w" and "h_table_keys v = h_table_keys w" "h_table_values v = h_table_values w" "used_nodes v = used_nodes w"
    "used_count v = used_count w" "current_node v = current_node w" "\<And>n. node_x (nodes v n) = node_x (nodes w n)" "\<And>n. node_y (nodes v n) = node_y (nodes w n)"
  shows "hash_ok v"
proof -
  have k: "node_key v = node_key w" and f: "filled v = filled w"
    by (simp_all add: fun_eq_iff node_key_def filled_def assms)
  then have "placed v = placed w"
    by (simp add: fun_eq_iff placed_def assms)
  with k f show ?thesis
    using assms(1) by (simp add: hash_ok_def assms(3-6))
qed

lemma clear_values:
  "fold (\<lambda>i ws. ws\<lparr>h_table_values := (h_table_values ws)(used_nodes ws i := ASTAR_NODE_NONE)\<rparr>) is ws =
   ws\<lparr>h_table_values := (\<lambda>s. if s \<in> used_nodes ws ` set is then ASTAR_NODE_NONE else h_table_values ws s)\<rparr>"
  by (induction "is" arbitrary: ws) (auto simp: fun_eq_iff)

lemma clear_links:
  "fold (\<lambda>i ws. ws\<lparr>node_to_heap := (node_to_heap ws)(i := ASTAR_NODE_NONE)\<rparr>) is ws =
   ws\<lparr>node_to_heap := (\<lambda>n. if n \<in> set is then ASTAR_NODE_NONE else node_to_heap ws n)\<rparr>"
  by (induction "is" arbitrary: ws) (auto simp: fun_eq_iff)

definition start_node :: "u16 \<Rightarrow> u16 \<Rightarrow> AStarNode" where
  "start_node x y = \<lparr>node_parent = ASTAR_NODE_NONE, node_f = 0, g_score = 0, node_x = x, node_y = y\<rparr>"

lemma new_AStarNodes_ok:
  assumes "workspace_ok ws"
  obtains w where "new_AStarNodes ws x y = Some w" and "store_ok w" and "current_node w = 1" and "nodes w 0 = start_node x y"
    and "open_nodes w = {0}" and "heap_size w = 1" and "closed_nodes w = 0"
proof -
  define v where "v = AStarWorkspace.extend (ws\<lparr>h_table_values := (\<lambda>s. if s \<in> used_nodes ws ` {..<used_count ws} then ASTAR_NODE_NONE else h_table_values ws s),
      node_to_heap := (\<lambda>n. if n < previous_node ws then ASTAR_NODE_NONE else node_to_heap ws n)(0 := 0), used_count := 0,
      nodes := (nodes ws)(0 := start_node x y), heap := (heap ws)(0 := 0)\<rparr>) \<lparr>heap_size = 1, current_node = 1, closed_nodes = 0\<rparr>"
  let ?key = "position_key x y"
  have new: "new_AStarNodes ws x y = Insert ?key 0 v"
    unfolding new_AStarNodes_def clear_values clear_links Let_def
    by (simp add: v_def start_node_def AStarWorkspace.extend_def atLeast0LessThan cong: if_cong)
  have none: "\<not> filled v s" if "s < ASTAR_HASH_SIZE" for s
    using assms that by (auto simp: workspace_ok_def filled_def v_def AStarWorkspace.extend_def)
  then have "{s. s < ASTAR_HASH_SIZE \<and> filled v s} = {}"
    by blast
  then have free: "card {s. s < ASTAR_HASH_SIZE \<and> filled v s} < ASTAR_HASH_SIZE"
    by (simp only: card.empty) (simp add: hash_size)
  obtain d where d: "Insert_loop v (first_slot ?key) = Some (slot_at ?key d)" "\<And>e. e < d \<Longrightarrow> filled v (slot_at ?key e)"
    using Insert_finds[OF free] by metis
  then have "d = 0"
    using none[OF slot_at_bound, of ?key 0] by (cases d) auto
  let ?s = "slot_at ?key 0"
  let ?w = "v\<lparr>h_table_keys := (h_table_keys v)(?s := ?key), h_table_values := (h_table_values v)(?s := 0),
     used_nodes := (used_nodes v)(0 := ?s), used_count := Suc 0\<rparr>"
  have w: "new_AStarNodes ws x y = Some ?w"
    using new d(1) \<open>d = 0\<close> by (simp add: Insert_def) (simp add: v_def AStarWorkspace.extend_def)
  have sel: "current_node ?w = 1" "nodes ?w 0 = start_node x y" "heap_size ?w = 1" "closed_nodes ?w = 0" "heap ?w 0 = 0" "node_to_heap ?w 0 = 0"
    by (simp_all add: v_def AStarWorkspace.extend_def)
  have op: "open_nodes ?w = {0}"
    using sel by (auto simp: open_nodes_def ASTAR_NODE_NONE_def)
  have "heap_ok ?w"
    using sel op by (simp add: heap_ok_def MAX_NODES_def linked_def ordered_def lessThan_Suc)
  moreover have "hash_ok ?w"
  proof -
    have key: "node_key ?w 0 = ?key"
      using sel by (simp add: node_key_def start_node_def)
    have "placed ?w 0"
      using key by (auto simp: placed_def)
    moreover have "s = ?s" if "s < ASTAR_HASH_SIZE" "filled ?w s" for s
      using none[OF that(1)] that(2) by (auto simp: filled_def split: if_splits)
    moreover have "h_table_values ?w ?s = 0" "used_nodes ?w 0 = ?s"
      by simp_all
    ultimately show ?thesis
      unfolding hash_ok_def sel by (simp add: MAX_NODES_def lessThan_Suc) metis
  qed
  ultimately show ?thesis
    using that w sel op by (auto simp: store_ok_def)
qed

lemma delete_AStarNodes_ok:
  assumes "hash_ok w"
  shows "workspace_ok (delete_AStarNodes w)"
  unfolding workspace_ok_def
proof (intro allI impI)
  fix s assume s: "s < ASTAR_HASH_SIZE" "h_table_values (delete_AStarNodes w) s \<noteq> ASTAR_NODE_NONE"
  then have "h_table_values w s < used_count w" "used_nodes w (h_table_values w s) = s"
    using assms by (auto simp: hash_ok_def filled_def delete_AStarNodes_def AStarWorkspace.truncate_def)
  then show "s \<in> used_nodes (delete_AStarNodes w) ` {..<used_count (delete_AStarNodes w)}"
    by (intro image_eqI[of _ _ "h_table_values w s"]) (auto simp: delete_AStarNodes_def AStarWorkspace.truncate_def)
qed

lemma open_nodes_bound: "n \<in> open_nodes w \<Longrightarrow> n < current_node w"
  by (simp add: open_nodes_def)

lemma CreateOpenNode_full: "current_node w \<ge> MAX_NODES \<Longrightarrow> CreateOpenNode parent x y f g w = Some (ASTAR_NODE_NONE, w)"
  by (simp add: CreateOpenNode_def)

lemma CreateOpenNode_ok:
  assumes ok: "store_ok w" and room: "current_node w < MAX_NODES"
    and fresh: "\<And>n. n < current_node w \<Longrightarrow> node_key w n \<noteq> position_key x y"
  obtains w' where "CreateOpenNode parent x y f g w = Some (current_node w, w')" and "store_ok w'"
    and "current_node w' = Suc (current_node w)"
    and "nodes w' = (nodes w)(current_node w := \<lparr>node_parent = parent, node_f = f, g_score = g, node_x = x, node_y = y\<rparr>)"
    and "open_nodes w' = insert (current_node w) (open_nodes w)" and "closed_nodes w' = closed_nodes w"
proof -
  let ?k = "current_node w" and ?node = "\<lparr>node_parent = parent, node_f = f, g_score = g, node_x = x, node_y = y\<rparr>"
  let ?v = "w\<lparr>current_node := current_node w + 1, nodes := (nodes w)(?k := ?node)\<rparr>"
  have heap: "heap_ok w" and hash: "hash_ok w" using ok by (simp_all add: store_ok_def)
  obtain t u us c where ins: "Insert (position_key x y) ?k ?v = Some (?v\<lparr>h_table_keys := t, h_table_values := u, used_nodes := us, used_count := c\<rparr>)"
    and hash': "hash_ok (?v\<lparr>h_table_keys := t, h_table_values := u, used_nodes := us, used_count := c\<rparr>)"
    by (rule Insert_ok[OF hash room fresh refl, where node = ?node]) auto
  let ?i = "?v\<lparr>h_table_keys := t, h_table_values := u, used_nodes := us, used_count := c\<rparr>"
  let ?u = "?i\<lparr>node_to_heap := (node_to_heap w)(?k := ASTAR_NODE_NONE)\<rparr>"
  let ?p = "?i\<lparr>heap := (heap ?i)(heap_size ?i := ?k), node_to_heap := (node_to_heap ?i)(?k := heap_size ?i), heap_size := heap_size ?i + 1\<rparr>"
  have k: "heap w i \<noteq> ?k" if "i < heap_size w" for i
  proof -
    have "heap w i \<in> open_nodes w"
      using heap that by (auto simp: heap_ok_def)
    then show ?thesis by (simp add: open_nodes_def)
  qed
  have op: "open_nodes ?u = open_nodes w"
    by (auto simp: open_nodes_def)
  have c: "costs ?u (heap w) i = costs w (heap w) i" if "i < heap_size w" for i
    using k[OF that] by (simp add: costs_def)
  have ord: "ordered (costs ?u (heap w)) (heap_size w) (\<lambda>_. True)"
    unfolding ordered_def
  proof (intro allI impI)
    fix i assume i: "0 < i" "i < heap_size w"
    have "up i < heap_size w" using up_less[OF i(1)] i(2) by simp
    then show "costs ?u (heap w) (up i) \<le> costs ?u (heap w) i"
      using heap i by (simp only: c heap_ok_def ordered_def)
  qed
  have lnk: "linked (heap w) ((node_to_heap w)(?k := ASTAR_NODE_NONE)) (heap_size w)"
    using heap k by (simp add: heap_ok_def linked_def)
  have u: "heap_ok ?u"
    using heap room op ord lnk by (simp add: heap_ok_def)
  have size: "heap_size w < MAX_NODES"
  proof -
    have "card (open_nodes w) \<le> card {..<?k}"
      by (intro card_mono) (auto dest: open_nodes_bound)
    then show ?thesis
      using heap_size_card[OF heap] room by simp
  qed
  have "?p = ?u\<lparr>heap := (heap ?u)(heap_size ?u := ?k), node_to_heap := (node_to_heap ?u)(?k := heap_size ?u), heap_size := heap_size ?u + 1\<rparr>"
    by simp
  then have almost: "almost_heap ?p (heap_size w)"
    using heap_push[OF u, of ?k] op size by (auto simp: open_nodes_def)
  obtain h n where sift: "SiftUp (heap_size w) ?p = ?p\<lparr>heap := h, node_to_heap := n\<rparr>" "heap_ok (?p\<lparr>heap := h, node_to_heap := n\<rparr>)"
    "open_nodes (?p\<lparr>heap := h, node_to_heap := n\<rparr>) = open_nodes ?p"
    using SiftUp_ok[OF almost] by blast
  have "open_nodes ?p = insert ?k (open_nodes w)"
    using size by (auto simp: open_nodes_def MAX_NODES_def ASTAR_NODE_NONE_def)
  moreover have "hash_ok (?p\<lparr>heap := h, node_to_heap := n\<rparr>)"
    by (rule hash_ok_cong[OF hash']) simp_all
  moreover have "CreateOpenNode parent x y f g w = Some (?k, SiftUp (heap_size w) ?p)"
    using ins room by (simp add: CreateOpenNode_def Let_def)
  ultimately show ?thesis
    using that[of "?p\<lparr>heap := h, node_to_heap := n\<rparr>"] sift by (simp add: store_ok_def)
qed

lemma heap_ok_reprice:
  assumes "heap_ok w" and "n \<notin> open_nodes w"
  shows "heap_ok (w\<lparr>nodes := (nodes w)(n := node)\<rparr>)" (is "heap_ok ?v")
proof -
  have "heap w i \<noteq> n" if "i < heap_size w" for i
    using assms that by (auto simp: heap_ok_def)
  then have c: "costs ?v (heap w) i = costs w (heap w) i" if "i < heap_size w" for i
    using that by (simp add: costs_def)
  have "ordered (costs ?v (heap w)) (heap_size w) (\<lambda>_. True)"
    unfolding ordered_def
  proof (intro allI impI)
    fix i assume i: "0 < i" "i < heap_size w"
    have "up i < heap_size w" using up_less[OF i(1)] i(2) by simp
    then show "costs ?v (heap w) (up i) \<le> costs ?v (heap w) i"
      using assms(1) i by (simp only: c heap_ok_def ordered_def)
  qed
  then show ?thesis
    using assms(1) by (simp add: heap_ok_def open_nodes_def)
qed

lemma heap_has_room:
  assumes "heap_ok w" and "n < current_node w" and "n \<notin> open_nodes w"
  shows "heap_size w < MAX_NODES"
proof -
  have "card (insert n (open_nodes w)) \<le> card {..<current_node w}"
    using assms(2) by (intro card_mono) (auto dest: open_nodes_bound)
  moreover have "finite (open_nodes w)"
    by (simp add: open_nodes_def)
  ultimately have "Suc (heap_size w) \<le> current_node w"
    using heap_size_card[OF assms(1)] assms(3) by simp
  then show ?thesis
    using assms(1) by (simp add: heap_ok_def)
qed

lemma OpenNode_ok:
  assumes ok: "store_ok w" and n: "n < current_node w" and less: "node_f node \<le> node_f (nodes w n)"
    and pos: "node_x node = node_x (nodes w n)" "node_y node = node_y (nodes w n)"
    and v: "v = w\<lparr>nodes := (nodes w)(n := node)\<rparr>"
  shows "store_ok (OpenNode n v) \<and> nodes (OpenNode n v) = nodes v \<and> current_node (OpenNode n v) = current_node w \<and>
    open_nodes (OpenNode n v) = insert n (open_nodes w)"
proof -
  have heap: "heap_ok w" and hash: "hash_ok w" using ok by (simp_all add: store_ok_def)
  have hash_v: "hash_ok v"
    using pos by (intro hash_ok_cong[OF hash]) (simp_all add: v)
  have op: "open_nodes v = open_nodes w"
    by (simp add: open_nodes_def v)
  show ?thesis
  proof (cases "n \<in> open_nodes w")
    case True
    then have open_n: "node_to_heap v n \<noteq> ASTAR_NODE_NONE"
      by (simp add: open_nodes_def v)
    have "almost_heap v (node_to_heap v n)"
      using heap_decrease[OF heap True less] by (simp add: v)
    then obtain h m where s: "SiftUp (node_to_heap v n) v = v\<lparr>heap := h, node_to_heap := m\<rparr>" "heap_ok (v\<lparr>heap := h, node_to_heap := m\<rparr>)"
      "open_nodes (v\<lparr>heap := h, node_to_heap := m\<rparr>) = open_nodes v"
      using SiftUp_ok by blast
    have "hash_ok (v\<lparr>heap := h, node_to_heap := m\<rparr>)"
      by (rule hash_ok_cong[OF hash_v]) simp_all
    then show ?thesis
      using s open_n op True by (auto simp: OpenNode_def store_ok_def) (simp add: v)
  next
    case False
    then have closed: "node_to_heap v n = ASTAR_NODE_NONE"
      using n by (simp add: open_nodes_def v)
    have hv: "heap_ok v"
      unfolding v using heap False by (rule heap_ok_reprice)
    have room: "heap_size v < MAX_NODES"
      using heap_has_room[OF heap n False] by (simp add: v)
    let ?p = "v\<lparr>heap := (heap v)(heap_size v := n), node_to_heap := (node_to_heap v)(n := heap_size v), heap_size := heap_size v + 1\<rparr>"
    have "almost_heap ?p (heap_size v)"
      using heap_push[OF hv, of n] n False op room by (simp add: v)
    then obtain h m where s: "SiftUp (heap_size v) ?p = ?p\<lparr>heap := h, node_to_heap := m\<rparr>" "heap_ok (?p\<lparr>heap := h, node_to_heap := m\<rparr>)"
      "open_nodes (?p\<lparr>heap := h, node_to_heap := m\<rparr>) = open_nodes ?p"
      using SiftUp_ok by blast
    let ?r = "?p\<lparr>heap := h, node_to_heap := m, closed_nodes := closed_nodes v - 1\<rparr>"
    have eq: "OpenNode n v = ?r"
      using s(1) closed by (simp add: OpenNode_def Let_def)
    have "heap_ok ?r"
      using s(2) by (simp add: heap_ok_def open_nodes_def)
    moreover have "hash_ok ?r"
      by (rule hash_ok_cong[OF hash_v]) simp_all
    moreover have "open_nodes ?r = open_nodes ?p"
      using s(3) by (simp add: open_nodes_def)
    moreover have "open_nodes ?p = insert n (open_nodes w)"
      using op n room by (auto simp: open_nodes_def v MAX_NODES_def ASTAR_NODE_NONE_def)
    ultimately show ?thesis
      unfolding eq by (simp add: store_ok_def) (simp add: v)
  qed
qed

lemma store_CloseNode:
  assumes "store_ok w" and "n \<in> open_nodes w"
  shows "store_ok (CloseNode n w) \<and> nodes (CloseNode n w) = nodes w \<and> current_node (CloseNode n w) = current_node w \<and>
    open_nodes (CloseNode n w) = open_nodes w - {n}"
proof -
  have heap: "heap_ok w" and hash: "hash_ok w" using assms(1) by (simp_all add: store_ok_def)
  obtain h m where c: "CloseNode n w = w\<lparr>closed_nodes := closed_nodes w + 1, heap_size := heap_size w - 1, heap := h, node_to_heap := m\<rparr>"
    "heap_ok (CloseNode n w)" "open_nodes (CloseNode n w) = open_nodes w - {n}"
    using CloseNode_ok[OF heap assms(2)] by blast
  moreover have "hash_ok (CloseNode n w)"
    unfolding c(1) by (rule hash_ok_cong[OF hash]) simp_all
  ultimately show ?thesis
    by (simp add: store_ok_def)
qed

lemma GetNodeByPosition_ok:
  assumes "store_ok w"
  obtains r where "GetNodeByPosition x y w = Some r"
    and "r = ASTAR_NODE_NONE \<Longrightarrow> \<forall>n < current_node w. \<not> (node_x (nodes w n) = x \<and> node_y (nodes w n) = y)"
    and "r \<noteq> ASTAR_NODE_NONE \<Longrightarrow> r < current_node w \<and> node_x (nodes w r) = x \<and> node_y (nodes w r) = y"
proof -
  have hash: "hash_ok w" using assms by (simp add: store_ok_def)
  have max: "current_node w \<le> MAX_NODES" using hash by (simp add: hash_ok_def)
  obtain r where r: "Find (position_key x y) w = Some r"
    "r = ASTAR_NODE_NONE \<and> (\<forall>n < current_node w. node_key w n \<noteq> position_key x y) \<or> r < current_node w \<and> node_key w r = position_key x y"
    using Find_correct[OF hash] by blast
  show ?thesis
  proof (rule that)
    show "GetNodeByPosition x y w = Some r"
      using r(1) by (simp add: GetNodeByPosition_def)
    show "\<forall>n < current_node w. \<not> (node_x (nodes w n) = x \<and> node_y (nodes w n) = y)" if "r = ASTAR_NODE_NONE"
      using that r(2) max by (auto simp: node_key_def MAX_NODES_def ASTAR_NODE_NONE_def)
    show "r < current_node w \<and> node_x (nodes w r) = x \<and> node_y (nodes w r) = y" if "r \<noteq> ASTAR_NODE_NONE"
      using that r(2) by (auto simp: node_key_def position_key_inject)
  qed
qed

lemma GetBestNode_ok:
  assumes "store_ok w"
  shows "if open_nodes w = {} then GetBestNode w = ASTAR_NODE_NONE
    else GetBestNode w \<in> open_nodes w \<and> (\<forall>n \<in> open_nodes w. node_f (nodes w (GetBestNode w)) \<le> node_f (nodes w n))"
proof -
  have heap: "heap_ok w" using assms by (simp add: store_ok_def)
  then have im: "heap w ` {..<heap_size w} = open_nodes w" by (simp add: heap_ok_def)
  show ?thesis
  proof (cases "heap_size w = 0")
    case True
    then show ?thesis using im by (auto simp: GetBestNode_def)
  next
    case False
    have "node_f (nodes w (heap w 0)) \<le> node_f (nodes w n)" if n: "n \<in> open_nodes w" for n
    proof -
      obtain i where "i < heap_size w" "n = heap w i"
        using n unfolding im[symmetric] by auto
      then show ?thesis
        using heap_ok_root[OF heap] by (simp add: costs_def)
    qed
    moreover have "heap w 0 \<in> open_nodes w"
      unfolding im[symmetric] using False by auto
    ultimately show ?thesis
      using False by (auto simp: GetBestNode_def)
  qed
qed

section \<open>The store as a priority queue\<close>

text \<open>Taking the best node again and again.\<close>

primrec drain :: "('s \<Rightarrow> nat) \<Rightarrow> (nat \<Rightarrow> 's \<Rightarrow> 's) \<Rightarrow> nat \<Rightarrow> 's \<Rightarrow> nat list" where
  "drain best close 0 s = []"
| "drain best close (Suc k) s = best s # drain best close k (close (best s) s)"

locale open_list =
  fixes ok :: "'s \<Rightarrow> bool" and elems :: "'s \<Rightarrow> nat set" and cost :: "'s \<Rightarrow> nat \<Rightarrow> int"
    and best :: "'s \<Rightarrow> nat" and close :: "nat \<Rightarrow> 's \<Rightarrow> 's"
  assumes finite_elems: "ok s \<Longrightarrow> finite (elems s)"
    and best_least: "ok s \<Longrightarrow> elems s \<noteq> {} \<Longrightarrow> best s \<in> elems s \<and> (\<forall>n \<in> elems s. cost s (best s) \<le> cost s n)"
    and close_takes: "ok s \<Longrightarrow> n \<in> elems s \<Longrightarrow> ok (close n s) \<and> elems (close n s) = elems s - {n} \<and> cost (close n s) = cost s"
begin

lemma drain_sorts:
  assumes "ok s" and "card (elems s) = k"
  shows "set (drain best close k s) = elems s \<and> distinct (drain best close k s) \<and> sorted (map (cost s) (drain best close k s))"
  using assms
proof (induction k arbitrary: s)
  case 0
  then show ?case using finite_elems by auto
next
  case (Suc k)
  let ?b = "best s" and ?t = "close (best s) s"
  have ne: "elems s \<noteq> {}" using Suc(3) by auto
  have b: "?b \<in> elems s" "\<forall>n \<in> elems s. cost s ?b \<le> cost s n"
    using best_least[OF Suc(2) ne] by auto
  have t: "ok ?t" "elems ?t = elems s - {?b}" "cost ?t = cost s"
    using close_takes[OF Suc(2) b(1)] by auto
  have "card (elems ?t) = k"
    using t(2) b(1) Suc(3) finite_elems[OF Suc(2)] by simp
  from Suc(1)[OF t(1) this] show ?case
    using b t(2,3) by auto
qed

end

interpretation astar: open_list store_ok open_nodes "\<lambda>w n. node_f (nodes w n)" GetBestNode CloseNode
proof
  show "finite (open_nodes w)" for w
    by (simp add: open_nodes_def)
  show "GetBestNode w \<in> open_nodes w \<and> (\<forall>n \<in> open_nodes w. node_f (nodes w (GetBestNode w)) \<le> node_f (nodes w n))"
    if "store_ok w" "open_nodes w \<noteq> {}" for w
    using GetBestNode_ok[OF that(1)] that(2) by simp
  show "store_ok (CloseNode n w) \<and> open_nodes (CloseNode n w) = open_nodes w - {n} \<and>
      (\<lambda>m. node_f (nodes (CloseNode n w) m)) = (\<lambda>m. node_f (nodes w m))" if "store_ok w" "n \<in> open_nodes w" for w n
    using store_CloseNode[OF that] by simp
qed

section \<open>Reachable stores\<close>

text \<open>
  The states of the store: a search starts on a workspace that a finished search left behind, creates a
  node for a position that has none, closes open nodes, and reopens a node at a lower price.
\<close>

inductive store_reach :: "AStarNodes \<Rightarrow> bool" and workspace_reach :: "AStarWorkspace \<Rightarrow> bool" where
  fresh: "workspace_reach new_workspace"
| finished: "store_reach w \<Longrightarrow> workspace_reach (delete_AStarNodes w)"
| started: "workspace_reach ws \<Longrightarrow> new_AStarNodes ws x y = Some w \<Longrightarrow> store_reach w"
| created: "store_reach w \<Longrightarrow> GetNodeByPosition x y w = Some ASTAR_NODE_NONE \<Longrightarrow>
    CreateOpenNode parent x y f g w = Some (n, w') \<Longrightarrow> store_reach w'"
| closed: "store_reach w \<Longrightarrow> n \<in> open_nodes w \<Longrightarrow> store_reach (CloseNode n w)"
| reopened: "store_reach w \<Longrightarrow> n < current_node w \<Longrightarrow> f \<le> node_f (nodes w n) \<Longrightarrow>
    store_reach (OpenNode n (w\<lparr>nodes := (nodes w)(n := (nodes w n)\<lparr>node_parent := parent, node_f := f, g_score := g\<rparr>)\<rparr>))"

lemma store_reach_ok:
  "store_reach w \<Longrightarrow> store_ok w" "workspace_reach ws \<Longrightarrow> workspace_ok ws"
proof (induction rule: store_reach_workspace_reach.inducts)
  case fresh
  then show ?case by (simp add: workspace_ok_def new_workspace_def)
next
  case (finished w)
  then show ?case by (simp add: store_ok_def delete_AStarNodes_ok)
next
  case (started ws x y w)
  then show ?case using new_AStarNodes_ok[of ws x y] by (metis option.inject)
next
  case (created w x y parent f g n w')
  show ?case
  proof (cases "current_node w < MAX_NODES")
    case True
    have "node_key w m \<noteq> position_key x y" if "m < current_node w" for m
      using GetNodeByPosition_ok[OF created(4), of x y] created(2) that by (auto simp: node_key_def position_key_inject)
    then show ?thesis
      using CreateOpenNode_ok[OF created(4) True] created(3) by (metis option.inject prod.inject)
  next
    case False
    then show ?thesis using created by (simp add: CreateOpenNode_full)
  qed
next
  case (closed w n)
  then show ?case using store_CloseNode by simp
next
  case (reopened w n f parent g)
  then show ?case using OpenNode_ok[OF reopened(4,2) _ _ _ refl] by simp
qed

text \<open>
  Claim C4. In every reachable state of the node store, \<open>GetBestNode\<close> is an open node of least total score,
  or \<open>0xFFFF\<close> when no node is open; \<open>GetNodeByPosition\<close> always returns, and finds the node of a position
  exactly if the search created one there; and closing the best node until none is left visits each open node
  once in the order of the scores.
\<close>

theorem node_store_correct:
  assumes "store_reach w"
  shows "(if open_nodes w = {} then GetBestNode w = ASTAR_NODE_NONE
     else GetBestNode w \<in> open_nodes w \<and> (\<forall>n \<in> open_nodes w. node_f (nodes w (GetBestNode w)) \<le> node_f (nodes w n))) \<and>
    (\<exists>r. GetNodeByPosition x y w = Some r \<and>
       (if r = ASTAR_NODE_NONE then \<forall>n < current_node w. \<not> (node_x (nodes w n) = x \<and> node_y (nodes w n) = y)
        else r < current_node w \<and> node_x (nodes w r) = x \<and> node_y (nodes w r) = y)) \<and>
    (let ns = drain GetBestNode CloseNode (heap_size w) w
     in set ns = open_nodes w \<and> distinct ns \<and> sorted (map (\<lambda>n. node_f (nodes w n)) ns))"
proof -
  have ok: "store_ok w" using assms by (rule store_reach_ok)
  then have "card (open_nodes w) = heap_size w"
    using heap_size_card by (simp add: store_ok_def)
  then show ?thesis
    using GetBestNode_ok[OF ok] GetNodeByPosition_ok[OF ok, of x y] astar.drain_sorts[OF ok] by (auto simp: Let_def)
qed

theorem node_store_witness:
  "\<exists>w. store_reach w \<and> open_nodes w = {0} \<and> GetBestNode w = 0 \<and> GetNodeByPosition 100 100 w = Some 0"
proof -
  obtain w where w: "new_AStarNodes new_workspace 100 100 = Some w" "current_node w = 1" "nodes w 0 = start_node 100 100" "open_nodes w = {0}"
    using new_AStarNodes_ok[OF store_reach_ok(2)[OF fresh], of 100 100] by metis
  have reach: "store_reach w"
    using w(1) by (rule started[OF fresh])
  have "GetBestNode w = 0 \<and> GetNodeByPosition 100 100 w = Some 0"
    using node_store_correct[OF reach, of 100 100] w(2-4) by (auto simp: start_node_def split: if_splits)
  then show ?thesis
    using reach w(4) by blast
qed

end
