(* ===== verification/PathSearch.thy ===== *)
theory PathSearch
  imports AStar
begin

text \<open>
  The path search \<open>Map::getPathMatching\<close> (map.cpp) with the goal test \<open>FrozenPathingConditionCall\<close> (creature.cpp), on
  the node store of theory \<open>AStar\<close>.

  The map is extended by what the search asks of a tile: whether \<open>queryAdd\<close> accepts the creature, whether a
  visible creature stands on it, and the damage of a field on it. Metrics that are only recorded are left out.
\<close>

section \<open>Goal and costs\<close>

record FindPathParams =
  fullPathSearch :: bool
  clearSight :: bool
  allowDiagonal :: bool
  keepDistance :: bool
  maxSearchDist :: int
  minTargetDist :: int
  maxTargetDist :: int

record WalkMap = Map +
  queryAdd :: "nat \<Rightarrow> bool"
  getTopVisibleCreature :: "nat \<Rightarrow> bool"
  getFieldItem :: "nat \<Rightarrow> nat option"

record Walker =
  getPosition :: Position
  creatureTile :: "nat option"
  isImmune :: "nat \<Rightarrow> bool"
  hasFieldCondition :: "nat \<Rightarrow> bool"
  monsterCanWalkOnField :: "(nat \<Rightarrow> bool) option"

definition isInRange :: "Position \<Rightarrow> Position \<Rightarrow> Position \<Rightarrow> FindPathParams \<Rightarrow> bool" where
  "isInRange targetPos startPos testPos fpp =
     (if fullPathSearch fpp
      then
        if uint (pos_x testPos) > uint (pos_x targetPos) + maxTargetDist fpp then False
        else if uint (pos_x testPos) < uint (pos_x targetPos) - maxTargetDist fpp then False
        else if uint (pos_y testPos) > uint (pos_y targetPos) + maxTargetDist fpp then False
        else if uint (pos_y testPos) < uint (pos_y targetPos) - maxTargetDist fpp then False
        else True
      else
        let dx = getOffsetX startPos targetPos;
            dxMax = (if dx \<ge> 0 then maxTargetDist fpp else 0);
            dxMin = (if dx \<le> 0 then maxTargetDist fpp else 0);
            dy = getOffsetY startPos targetPos;
            dyMax = (if dy \<ge> 0 then maxTargetDist fpp else 0);
            dyMin = (if dy \<le> 0 then maxTargetDist fpp else 0)
        in if uint (pos_x testPos) > uint (pos_x targetPos) + dxMax then False
           else if uint (pos_x testPos) < uint (pos_x targetPos) - dxMin then False
           else if uint (pos_y testPos) > uint (pos_y targetPos) + dyMax then False
           else if uint (pos_y testPos) < uint (pos_y targetPos) - dyMin then False
           else True)"

text \<open>\<open>operator()\<close>, with the new value of \<open>bestMatchDist\<close>.\<close>

definition pathCondition :: "('a) Map_scheme \<Rightarrow> Position \<Rightarrow> Position \<Rightarrow> Position \<Rightarrow> FindPathParams \<Rightarrow> int \<Rightarrow> (bool \<times> int) option" where
  "pathCondition m targetPos startPos testPos fpp bestMatchDist =
     (if \<not> isInRange targetPos startPos testPos fpp then Some (False, bestMatchDist)
      else do {
        clear \<leftarrow> (if clearSight fpp then isSightClear m testPos targetPos True else Some True);
        if \<not> clear then Some (False, bestMatchDist)
        else
          let testDist = max (getDistanceX targetPos testPos) (getDistanceY targetPos testPos) in
          if maxTargetDist fpp = 1
          then
            if testDist < minTargetDist fpp \<or> testDist > maxTargetDist fpp then Some (False, bestMatchDist)
            else Some (True, bestMatchDist)
          else if testDist \<le> maxTargetDist fpp
          then
            if testDist < minTargetDist fpp then Some (False, bestMatchDist)
            else if testDist = maxTargetDist fpp then Some (True, 0)
            else if testDist > bestMatchDist then Some (True, testDist)
            else Some (False, bestMatchDist)
          else Some (False, bestMatchDist)
      })"

definition canWalkTo :: "('a) WalkMap_scheme \<Rightarrow> Walker \<Rightarrow> Position \<Rightarrow> nat option" where
  "canWalkTo m creature pos =
     (let tile = getTile m (pos_x pos) (pos_y pos) (pos_z pos) in
      if creatureTile creature \<noteq> tile
      then case tile of None \<Rightarrow> None | Some t \<Rightarrow> if \<not> queryAdd m t then None else tile
      else tile)"

definition GetMapWalkCost :: "AStarNode \<Rightarrow> Position \<Rightarrow> int" where
  "GetMapWalkCost node neighborPos =
     (if \<bar>uint (node_x node) - uint (pos_x neighborPos)\<bar> = \<bar>uint (node_y node) - uint (pos_y neighborPos)\<bar>
      then MAP_DIAGONALWALKCOST else MAP_NORMALWALKCOST)"

definition GetTileWalkCost :: "('a) WalkMap_scheme \<Rightarrow> Walker \<Rightarrow> nat \<Rightarrow> int" where
  "GetTileWalkCost m creature tile =
     (let cost = 0 + (if getTopVisibleCreature m tile then MAP_NORMALWALKCOST * 3 else 0) in
      case getFieldItem m tile of
        None \<Rightarrow> cost
      | Some combatType \<Rightarrow>
          if \<not> isImmune creature combatType \<and> \<not> hasFieldCondition creature combatType \<and>
             (case monsterCanWalkOnField creature of None \<Rightarrow> False | Some canWalkOnFieldType \<Rightarrow> \<not> canWalkOnFieldType combatType)
          then cost + MAP_NORMALWALKCOST * 18 else cost)"

definition manhattan_heuristic :: "Position \<Rightarrow> u16 \<Rightarrow> u16 \<Rightarrow> int" where
  "manhattan_heuristic target nx ny =
     (\<bar>uint nx - uint (pos_x target)\<bar> + \<bar>uint ny - uint (pos_y target)\<bar>) * MAP_NORMALWALKCOST"

section \<open>The search\<close>

fun dirNeighbors :: "Direction \<Rightarrow> (int \<times> int) list" where
  "dirNeighbors DIRECTION_NORTH = [(-1, 0), (0, 1), (1, 0), (1, 1), (-1, 1)]"
| "dirNeighbors DIRECTION_EAST = [(-1, 0), (0, 1), (0, -1), (-1, -1), (-1, 1)]"
| "dirNeighbors DIRECTION_SOUTH = [(-1, 0), (1, 0), (0, -1), (-1, -1), (1, -1)]"
| "dirNeighbors DIRECTION_WEST = [(0, 1), (1, 0), (0, -1), (1, -1), (1, 1)]"
| "dirNeighbors DIRECTION_SOUTHWEST = [(1, 0), (0, -1), (-1, -1), (1, -1), (1, 1)]"
| "dirNeighbors DIRECTION_SOUTHEAST = [(-1, 0), (0, -1), (-1, -1), (1, -1), (-1, 1)]"
| "dirNeighbors DIRECTION_NORTHWEST = [(0, 1), (1, 0), (1, -1), (1, 1), (-1, 1)]"
| "dirNeighbors DIRECTION_NORTHEAST = [(-1, 0), (0, 1), (-1, -1), (1, 1), (-1, 1)]"
| "dirNeighbors DIRECTION_NONE = []"

definition allNeighbors :: "(int \<times> int) list" where
  "allNeighbors = [(-1, 0), (0, 1), (1, 0), (0, -1), (-1, -1), (1, -1), (1, 1), (-1, 1)]"

definition neighbors :: "FindPathParams \<Rightarrow> AStarNodes \<Rightarrow> AStarNode \<Rightarrow> (int \<times> int) list" where
  "neighbors fpp w node =
     (if node_parent node \<noteq> ASTAR_NODE_NONE
      then
        let parent = nodes w (node_parent node);
            x_offset = uint (node_x parent) - uint (node_x node);
            y_offset = uint (node_y parent) - uint (node_y node);
            dir = (if y_offset = 0 then if x_offset = -1 then DIRECTION_WEST else DIRECTION_EAST
                   else if \<not> allowDiagonal fpp \<or> x_offset = 0
                   then if y_offset = -1 then DIRECTION_NORTH else DIRECTION_SOUTH
                   else if y_offset = -1
                   then if x_offset = -1 then DIRECTION_NORTHWEST else DIRECTION_NORTHEAST
                   else if x_offset = -1 then DIRECTION_SOUTHWEST else DIRECTION_SOUTHEAST)
        in take (if allowDiagonal fpp then 5 else 3) (dirNeighbors dir)
      else allNeighbors)"

datatype Expansion = Failed (store: AStarNodes) | Expanded (store: AStarNodes)

text \<open>The loop over the neighbours of a node.\<close>

fun expand :: "('a) WalkMap_scheme \<Rightarrow> Walker \<Rightarrow> Position \<Rightarrow> FindPathParams \<Rightarrow> nat \<Rightarrow> nat \<Rightarrow> (int \<times> int) list \<Rightarrow>
    AStarNodes \<Rightarrow> Expansion option" where
  "expand m creature target fpp nodeIdx found [] w = Some (Expanded w)"
| "expand m creature target fpp nodeIdx found ((dx, dy) # offsets) w =
     (let start = getPosition creature;
          node = nodes w nodeIdx;
          position = Position (node_x node + of_int dx) (node_y node + of_int dy) (pos_z start) in
      if maxSearchDist fpp \<noteq> 0 \<and>
         (getDistanceX start position > maxSearchDist fpp \<or> getDistanceY start position > maxSearchDist fpp)
      then expand m creature target fpp nodeIdx found offsets w
      else if keepDistance fpp \<and> \<not> isInRange target start position fpp
      then expand m creature target fpp nodeIdx found offsets w
      else do {
        neighborNodeIdx \<leftarrow> GetNodeByPosition (pos_x position) (pos_y position) w;
        let hasNeighborNode = (neighborNodeIdx \<noteq> ASTAR_NODE_NONE);
        case (if hasNeighborNode then getTile m (pos_x position) (pos_y position) (pos_z position)
              else canWalkTo m creature position) of
          None \<Rightarrow> expand m creature target fpp nodeIdx found offsets w
        | Some tile \<Rightarrow>
            let neighbor_g_score = g_score node + GetMapWalkCost node position + GetTileWalkCost m creature tile;
                neighbor_f_score = neighbor_g_score + manhattan_heuristic target (pos_x position) (pos_y position)
            in if hasNeighborNode
               then
                 if node_f (nodes w neighborNodeIdx) \<le> neighbor_f_score
                 then expand m creature target fpp nodeIdx found offsets w
                 else expand m creature target fpp nodeIdx found offsets
                   (OpenNode neighborNodeIdx (w\<lparr>nodes := (nodes w)(neighborNodeIdx :=
                      (nodes w neighborNodeIdx)\<lparr>node_parent := nodeIdx, node_f := neighbor_f_score, g_score := neighbor_g_score\<rparr>)\<rparr>))
               else do {
                 (createdNodeIdx, w) \<leftarrow> CreateOpenNode nodeIdx (pos_x position) (pos_y position) neighbor_f_score neighbor_g_score w;
                 if createdNodeIdx = ASTAR_NODE_NONE
                 then Some (if found \<noteq> ASTAR_NODE_NONE then Expanded w else Failed w)
                 else expand m creature target fpp nodeIdx found offsets w
               }
      })"

partial_function (option) search :: "('a) WalkMap_scheme \<Rightarrow> Walker \<Rightarrow> Position \<Rightarrow> FindPathParams \<Rightarrow> int \<Rightarrow> nat \<Rightarrow> Position \<Rightarrow>
    AStarNodes \<Rightarrow> (AStarNodes \<times> (nat \<times> Position) option) option" where
  "search m creature target fpp best_match found end_position w =
     (if maxSearchDist fpp \<noteq> 0 \<or> closed_nodes w < 100
      then
        let nodeIdx = GetBestNode w in
        if nodeIdx = ASTAR_NODE_NONE
        then Some (w, if found \<noteq> ASTAR_NODE_NONE then Some (found, end_position) else None)
        else
          let node = nodes w nodeIdx;
              position = Position (node_x node) (node_y node) (pos_z (getPosition creature))
          in do {
            (hit, best_match) \<leftarrow> pathCondition m target (getPosition creature) position fpp best_match;
            let found = (if hit then nodeIdx else found);
            let end_position = (if hit then position else end_position);
            if hit \<and> best_match = 0 then Some (w, Some (found, end_position))
            else do {
              e \<leftarrow> expand m creature target fpp nodeIdx found (neighbors fpp w node) w;
              case e of
                Failed w \<Rightarrow> Some (w, None)
              | Expanded w \<Rightarrow> search m creature target fpp best_match found end_position (CloseNode nodeIdx w)
            }
          }
      else Some (w, if found \<noteq> ASTAR_NODE_NONE then Some (found, end_position) else None))"

definition step_direction :: "int \<Rightarrow> int \<Rightarrow> Direction option" where
  "step_direction dx dy =
     (if dx = 1 \<and> dy = 1 then Some DIRECTION_NORTHWEST
      else if dx = -1 \<and> dy = 1 then Some DIRECTION_NORTHEAST
      else if dx = 1 \<and> dy = -1 then Some DIRECTION_SOUTHWEST
      else if dx = -1 \<and> dy = -1 then Some DIRECTION_SOUTHEAST
      else if dx = 1 then Some DIRECTION_WEST
      else if dx = -1 then Some DIRECTION_EAST
      else if dy = 1 then Some DIRECTION_NORTH
      else if dy = -1 then Some DIRECTION_SOUTH
      else None)"

partial_function (option) collect_path :: "AStarNodes \<Rightarrow> nat \<Rightarrow> int \<Rightarrow> int \<Rightarrow> Direction list \<Rightarrow> Direction list option" where
  "collect_path w found prevx prevy dirList =
     (if found \<noteq> ASTAR_NODE_NONE
      then
        let node = nodes w found;
            x = uint (node_x node); y = uint (node_y node);
            dirList = (case step_direction (x - prevx) (y - prevy) of None \<Rightarrow> dirList | Some d \<Rightarrow> dirList @ [d])
        in collect_path w (node_parent node) x y dirList
      else Some dirList)"

definition getPathMatching :: "('a) WalkMap_scheme \<Rightarrow> Walker \<Rightarrow> AStarWorkspace \<Rightarrow> Position \<Rightarrow> FindPathParams \<Rightarrow> Direction list \<Rightarrow>
    (Direction list option \<times> AStarWorkspace) option" where
  "getPathMatching m creature ws target fpp dirList = do {
     w \<leftarrow> new_AStarNodes ws (pos_x (getPosition creature)) (pos_y (getPosition creature));
     (w, found) \<leftarrow> search m creature target fpp 0 ASTAR_NODE_NONE (Position 0 0 0) w;
     case found of
       None \<Rightarrow> Some (None, delete_AStarNodes w)
     | Some (found, end_position) \<Rightarrow> do {
         dirList \<leftarrow> collect_path w (node_parent (nodes w found)) (uint (pos_x end_position)) (uint (pos_y end_position)) dirList;
         Some (Some dirList, delete_AStarNodes w)
       }
   }"

section \<open>What the search keeps\<close>

definition admissible :: "('a) WalkMap_scheme \<Rightarrow> Walker \<Rightarrow> Position \<Rightarrow> FindPathParams \<Rightarrow> Position \<Rightarrow> bool" where
  "admissible m c target fpp p \<longleftrightarrow> canWalkTo m c p \<noteq> None \<and>
     (maxSearchDist fpp \<noteq> 0 \<longrightarrow> getDistanceX (getPosition c) p \<le> maxSearchDist fpp \<and> getDistanceY (getPosition c) p \<le> maxSearchDist fpp) \<and>
     (keepDistance fpp \<longrightarrow> isInRange target (getPosition c) p fpp)"

definition node_position :: "Walker \<Rightarrow> AStarNode \<Rightarrow> Position" where
  "node_position c node = Position (node_x node) (node_y node) (pos_z (getPosition c))"

text \<open>A node is one allowed step behind its parent and at least the price of a step dearer.\<close>

definition linked_to :: "FindPathParams \<Rightarrow> nat \<Rightarrow> AStarNode \<Rightarrow> AStarNode \<Rightarrow> bool" where
  "linked_to fpp p parent node \<longleftrightarrow> g_score parent + MAP_NORMALWALKCOST \<le> g_score node \<and>
     (\<exists>(dx, dy) \<in> set allNeighbors. node_x node = node_x parent + of_int dx \<and> node_y node = node_y parent + of_int dy \<and>
        (allowDiagonal fpp \<or> p = 0 \<or> dx = 0 \<or> dy = 0))"

definition node_ok :: "('a) WalkMap_scheme \<Rightarrow> Walker \<Rightarrow> Position \<Rightarrow> FindPathParams \<Rightarrow> AStarNode \<Rightarrow> bool" where
  "node_ok m c target fpp node \<longleftrightarrow> admissible m c target fpp (node_position c node) \<and> 0 \<le> g_score node \<and>
     node_f node = g_score node + manhattan_heuristic target (node_x node) (node_y node)"

definition search_ok :: "('a) WalkMap_scheme \<Rightarrow> Walker \<Rightarrow> Position \<Rightarrow> FindPathParams \<Rightarrow> AStarNodes \<Rightarrow> bool" where
  "search_ok m c target fpp w \<longleftrightarrow> store_ok w \<and> 0 < current_node w \<and>
     nodes w 0 = start_node (pos_x (getPosition c)) (pos_y (getPosition c)) \<and>
     (\<forall>n. 0 < n \<longrightarrow> n < current_node w \<longrightarrow> node_ok m c target fpp (nodes w n) \<and> node_parent (nodes w n) < current_node w \<and>
        linked_to fpp (node_parent (nodes w n)) (nodes w (node_parent (nodes w n))) (nodes w n))"

lemma costs_positive: "MAP_NORMALWALKCOST \<le> GetMapWalkCost node p" "0 \<le> GetTileWalkCost m c t" "0 \<le> manhattan_heuristic target x y"
  by (auto simp: GetMapWalkCost_def GetTileWalkCost_def manhattan_heuristic_def MAP_NORMALWALKCOST_def MAP_DIAGONALWALKCOST_def Let_def
      split: option.splits)

lemma neighbors_allowed:
  "set (neighbors fpp w node) \<subseteq> set allNeighbors"
  "(dx, dy) \<in> set (neighbors fpp w node) \<Longrightarrow> allowDiagonal fpp \<or> node_parent node = ASTAR_NODE_NONE \<or> dx = 0 \<or> dy = 0"
  by (auto simp: neighbors_def allNeighbors_def Let_def split: if_splits)

lemma search_ok_score: "search_ok m c target fpp w \<Longrightarrow> n < current_node w \<Longrightarrow> 0 \<le> g_score (nodes w n) \<and> 0 \<le> node_f (nodes w n)"
  using costs_positive(3)[of target] by (cases "n = 0") (auto simp: search_ok_def start_node_def node_ok_def)

lemma search_ok_update:
  assumes ok: "search_ok m c target fpp w" and st: "store_ok w'" and upd: "nodes w' = (nodes w)(n := node)" and n: "0 < n"
    and size: "n < current_node w \<and> current_node w' = current_node w \<or> n = current_node w \<and> current_node w' = Suc (current_node w)"
    and node: "node_ok m c target fpp node" "node_parent node = i" "i < current_node w" "i \<noteq> n" "linked_to fpp i (nodes w i) node"
    and cheaper: "n < current_node w \<Longrightarrow> node_x node = node_x (nodes w n) \<and> node_y node = node_y (nodes w n) \<and> g_score node \<le> g_score (nodes w n)"
  shows "search_ok m c target fpp w'"
proof -
  have "node_ok m c target fpp (nodes w' k) \<and> node_parent (nodes w' k) < current_node w' \<and>
      linked_to fpp (node_parent (nodes w' k)) (nodes w' (node_parent (nodes w' k))) (nodes w' k)"
    if k: "0 < k" "k < current_node w'" for k
  proof (cases "k = n")
    case True
    then show ?thesis
      using node size upd by auto
  next
    case False
    then have kw: "k < current_node w" using k size by auto
    let ?p = "node_parent (nodes w k)"
    have old: "node_ok m c target fpp (nodes w k)" "?p < current_node w" "linked_to fpp ?p (nodes w ?p) (nodes w k)"
      using ok k kw by (auto simp: search_ok_def)
    have "linked_to fpp ?p (nodes w' ?p) (nodes w k)"
    proof (cases "?p = n")
      case True
      then show ?thesis
        using old cheaper upd by (force simp: linked_to_def)
    qed (use old upd in simp)
    then show ?thesis
      using old False upd size by auto
  qed
  then show ?thesis
    using ok st upd n size by (auto simp: search_ok_def)
qed

lemma search_ok_Close:
  assumes "search_ok m c target fpp w" and "n \<in> open_nodes w"
  shows "search_ok m c target fpp (CloseNode n w)"
  using store_CloseNode[OF _ assms(2)] assms(1) by (auto simp: search_ok_def)

section \<open>The search makes progress\<close>

definition total :: "AStarNodes \<Rightarrow> nat" where
  "total w = (\<Sum>n < current_node w. nat (node_f (nodes w n)))"

definition progress :: "AStarNodes \<Rightarrow> AStarNodes \<Rightarrow> bool" where
  "progress w w' \<longleftrightarrow> current_node w < current_node w' \<or> current_node w = current_node w' \<and>
     (total w' < total w \<or> total w' = total w \<and> open_nodes w' = open_nodes w)"

definition kept :: "AStarNodes \<Rightarrow> AStarNodes \<Rightarrow> bool" where
  "kept w w' \<longleftrightarrow> current_node w \<le> current_node w' \<and>
     (\<forall>n < current_node w. node_x (nodes w' n) = node_x (nodes w n) \<and> node_y (nodes w' n) = node_y (nodes w n))"

lemma progress_refl: "progress w w"
  by (simp add: progress_def)

lemma progress_trans: "progress u v \<Longrightarrow> progress v w \<Longrightarrow> progress u w"
  unfolding progress_def by (elim disjE conjE) simp_all

lemma kept_refl: "kept w w"
  by (simp add: kept_def)

lemma kept_trans: "kept u v \<Longrightarrow> kept v w \<Longrightarrow> kept u w"
  by (auto simp: kept_def)

lemma total_decreases:
  assumes "nodes w' = (nodes w)(n := node)" and "n < current_node w" and "current_node w' = current_node w"
    and "0 \<le> node_f node" and "node_f node < node_f (nodes w n)"
  shows "total w' < total w"
proof -
  have "(\<Sum>k < current_node w. nat (node_f (nodes w' k))) < (\<Sum>k < current_node w. nat (node_f (nodes w k)))"
    using assms by (intro sum_strict_mono_ex1) auto
  then show ?thesis
    using assms(3) by (simp add: total_def)
qed

lemma offset_moves:
  assumes "(dx, dy) \<in> set allNeighbors"
  shows "\<not> ((x :: u16) + of_int dx = x \<and> (y :: u16) + of_int dy = y)"
  using assms by (auto simp: allNeighbors_def)

lemma linked_to_neighbor:
  assumes "(dx, dy) \<in> set allNeighbors" and "allowDiagonal fpp \<or> i = 0 \<or> dx = 0 \<or> dy = 0"
    and "node_x node = node_x parent + of_int dx" "node_y node = node_y parent + of_int dy" "g_score parent + MAP_NORMALWALKCOST \<le> g_score node"
  shows "linked_to fpp i parent node"
  using assms by (auto simp: linked_to_def)

lemma expand_ok:
  assumes "search_ok m c target fpp w" and "i \<in> open_nodes w" and "set offsets \<subseteq> set allNeighbors"
    and "\<And>dx dy. (dx, dy) \<in> set offsets \<Longrightarrow> allowDiagonal fpp \<or> i = 0 \<or> dx = 0 \<or> dy = 0"
  shows "\<exists>e. expand m c target fpp i found offsets w = Some e \<and> search_ok m c target fpp (store e) \<and>
    i \<in> open_nodes (store e) \<and> kept w (store e) \<and> progress w (store e)"
  using assms
proof (induction offsets arbitrary: w)
  case Nil
  then show ?case by (simp add: kept_refl progress_refl)
next
  case (Cons off offsets)
  obtain dx dy where o: "off = (dx, dy)" by (cases off)
  have IH: "\<exists>e. expand m c target fpp i found offsets v = Some e \<and> search_ok m c target fpp (store e) \<and>
      i \<in> open_nodes (store e) \<and> kept w (store e) \<and> progress w (store e)"
    if "search_ok m c target fpp v" "i \<in> open_nodes v" "kept w v" "progress w v" for v
    using Cons(1)[OF that(1,2)] Cons(4,5) kept_trans[OF that(3)] progress_trans[OF that(4)] by fastforce
  note same = IH[OF Cons(2,3) kept_refl progress_refl]
  have dxy: "(dx, dy) \<in> set allNeighbors" and straight: "allowDiagonal fpp \<or> i = 0 \<or> dx = 0 \<or> dy = 0"
    using Cons(4,5) o by auto
  have st: "store_ok w" using Cons(2) by (simp add: search_ok_def)
  have i: "i < current_node w" using Cons(3) by (rule open_nodes_bound)
  let ?node = "nodes w i" and ?start = "getPosition c"
  let ?x = "node_x ?node + of_int dx" and ?y = "node_y ?node + of_int dy"
  let ?pos = "Position ?x ?y (pos_z ?start)"
  let ?far = "maxSearchDist fpp \<noteq> 0 \<and> (getDistanceX ?start ?pos > maxSearchDist fpp \<or> getDistanceY ?start ?pos > maxSearchDist fpp)"
  let ?away = "keepDistance fpp \<and> \<not> isInRange target ?start ?pos fpp"
  show ?case
  proof (cases "?far \<or> ?away")
    case True
    then have "expand m c target fpp i found (off # offsets) w = expand m c target fpp i found offsets w"
      unfolding o by (auto simp: Let_def)
    then show ?thesis using same by simp
  next
    case near: False
    obtain r where r: "GetNodeByPosition ?x ?y w = Some r"
      "r = ASTAR_NODE_NONE \<Longrightarrow> \<forall>n < current_node w. \<not> (node_x (nodes w n) = ?x \<and> node_y (nodes w n) = ?y)"
      "r \<noteq> ASTAR_NODE_NONE \<Longrightarrow> r < current_node w \<and> node_x (nodes w r) = ?x \<and> node_y (nodes w r) = ?y"
      using GetNodeByPosition_ok[OF st] by blast
    let ?tile = "if r \<noteq> ASTAR_NODE_NONE then getTile m ?x ?y (pos_z ?start) else canWalkTo m c ?pos"
    show ?thesis
    proof (cases ?tile)
      case None
      then have "expand m c target fpp i found (off # offsets) w = expand m c target fpp i found offsets w"
        using near r(1) unfolding o by (auto simp: Let_def)
      then show ?thesis using same by simp
    next
      case (Some t)
      define g where "g = g_score ?node + GetMapWalkCost ?node ?pos + GetTileWalkCost m c t"
      define f where "f = g + manhattan_heuristic target ?x ?y"
      have g: "g_score ?node + MAP_NORMALWALKCOST \<le> g" "0 \<le> g" "0 < f"
        using costs_positive(1)[of ?node ?pos] costs_positive(2)[of m c t] costs_positive(3)[of target ?x ?y] search_ok_score[OF Cons(2) i]
        by (simp_all add: g_def f_def MAP_NORMALWALKCOST_def)
      show ?thesis
      proof (cases "r = ASTAR_NODE_NONE")
        case False
        then have rn: "r < current_node w" "node_x (nodes w r) = ?x" "node_y (nodes w r) = ?y"
          using r(3) by auto
        let ?new = "(nodes w r)\<lparr>node_parent := i, node_f := f, g_score := g\<rparr>"
        let ?v = "w\<lparr>nodes := (nodes w)(r := ?new)\<rparr>"
        have eq: "expand m c target fpp i found (off # offsets) w =
            (if node_f (nodes w r) \<le> f then expand m c target fpp i found offsets w else expand m c target fpp i found offsets (OpenNode r ?v))"
          using near r(1) Some False unfolding o by (auto simp: Let_def g_def f_def)
        show ?thesis
        proof (cases "node_f (nodes w r) \<le> f")
          case True
          then show ?thesis using eq same by simp
        next
          case dear: False
          have "r \<noteq> 0"
          proof
            assume "r = 0"
            then show False
              using dear g(3) Cons(2) by (simp add: search_ok_def start_node_def)
          qed
          then have okr: "node_ok m c target fpp (nodes w r)"
            using Cons(2) rn by (auto simp: search_ok_def)
          have ir: "i \<noteq> r"
            using rn offset_moves[OF dxy, of "node_x ?node" "node_y ?node"] by auto
          have op: "store_ok (OpenNode r ?v) \<and> nodes (OpenNode r ?v) = nodes ?v \<and> current_node (OpenNode r ?v) = current_node w \<and>
              open_nodes (OpenNode r ?v) = insert r (open_nodes w)"
            using OpenNode_ok[OF st rn(1) _ _ _ refl, of ?new] dear by simp
          have "search_ok m c target fpp (OpenNode r ?v)"
          proof (rule search_ok_update[OF Cons(2), of _ r ?new i])
            show "node_ok m c target fpp ?new"
              using okr g rn by (simp add: node_ok_def node_position_def f_def)
            show "linked_to fpp i (nodes w i) ?new"
              using rn g by (intro linked_to_neighbor[OF dxy straight]) auto
            show "node_x ?new = node_x (nodes w r) \<and> node_y ?new = node_y (nodes w r) \<and> g_score ?new \<le> g_score (nodes w r)"
              using okr dear rn by (simp add: node_ok_def f_def)
          qed (use op rn i ir \<open>r \<noteq> 0\<close> in auto)
          moreover have "progress w (OpenNode r ?v)"
            using total_decreases[of "OpenNode r ?v" w r ?new] op rn dear g by (simp add: progress_def)
          moreover have "kept w (OpenNode r ?v)"
            using op by (auto simp: kept_def)
          ultimately have "\<exists>e. expand m c target fpp i found offsets (OpenNode r ?v) = Some e \<and> search_ok m c target fpp (store e) \<and>
              i \<in> open_nodes (store e) \<and> kept w (store e) \<and> progress w (store e)"
            using op Cons(3) by (intro IH) auto
          then show ?thesis using eq dear by simp
        qed
      next
        case new: True
        have walk: "canWalkTo m c ?pos = Some t" using Some new by simp
        have adm: "admissible m c target fpp ?pos"
          using near walk by (auto simp: admissible_def)
        show ?thesis
        proof (cases "current_node w < MAX_NODES")
          case True
          have fresh: "node_key w n \<noteq> position_key ?x ?y" if "n < current_node w" for n
            using r(2)[OF new] that by (auto simp: node_key_def position_key_inject)
          let ?new = "\<lparr>node_parent = i, node_f = f, g_score = g, node_x = ?x, node_y = ?y\<rparr>"
          obtain w' where w': "CreateOpenNode i ?x ?y f g w = Some (current_node w, w')" "store_ok w'" "current_node w' = Suc (current_node w)"
            "nodes w' = (nodes w)(current_node w := ?new)" "open_nodes w' = insert (current_node w) (open_nodes w)"
            using CreateOpenNode_ok[OF st True fresh] by metis
          have "current_node w \<noteq> ASTAR_NODE_NONE"
            using True by (simp add: MAX_NODES_def ASTAR_NODE_NONE_def)
          then have eq: "expand m c target fpp i found (off # offsets) w = expand m c target fpp i found offsets w'"
            using near r(1) walk new w'(1) unfolding o by (auto simp: Let_def g_def f_def)
          have "search_ok m c target fpp w'"
          proof (rule search_ok_update[OF Cons(2) w'(2,4)])
            show "node_ok m c target fpp ?new"
              using adm g by (simp add: node_ok_def node_position_def f_def)
            show "linked_to fpp i (nodes w i) ?new"
              using g by (intro linked_to_neighbor[OF dxy straight]) auto
          qed (use i w'(3) in auto)
          moreover have "progress w w'" "kept w w'"
            using w'(3,4) by (auto simp: progress_def kept_def)
          ultimately show ?thesis
            using eq w'(5) Cons(3) IH[of w'] by simp
        next
          case False
          then have "expand m c target fpp i found (off # offsets) w = Some (if found \<noteq> ASTAR_NODE_NONE then Expanded w else Failed w)"
            using near r(1) walk new unfolding o by (auto simp: Let_def CreateOpenNode_full)
          then show ?thesis
            using Cons(2,3) by (auto simp: kept_refl progress_refl)
        qed
      qed
    qed
  qed
qed

section \<open>The search returns\<close>

lemma pathCondition_returns [returning]: "returns (pathCondition m target start p fpp b)"
  unfolding pathCondition_def Let_def by (intro returning isSightClear_returns)

definition goal :: "('a) Map_scheme \<Rightarrow> Position \<Rightarrow> Position \<Rightarrow> FindPathParams \<Rightarrow> Position \<Rightarrow> bool" where
  "goal m target start fpp p \<longleftrightarrow> (\<exists>b b'. pathCondition m target start p fpp b = Some (True, b'))"

definition found_ok :: "('a) Map_scheme \<Rightarrow> Walker \<Rightarrow> Position \<Rightarrow> FindPathParams \<Rightarrow> AStarNodes \<Rightarrow> nat \<Rightarrow> Position \<Rightarrow> bool" where
  "found_ok m c target fpp w found p \<longleftrightarrow> found < current_node w \<and> p = node_position c (nodes w found) \<and> goal m target (getPosition c) fpp p"

lemma found_ok_kept: "kept w w' \<Longrightarrow> found_ok m c target fpp w found p \<Longrightarrow> found_ok m c target fpp w' found p"
  by (auto simp: kept_def found_ok_def node_position_def)

lemma kept_Close: "store_ok w \<Longrightarrow> n \<in> open_nodes w \<Longrightarrow> kept w (CloseNode n w)"
  using store_CloseNode by (simp add: kept_def)

abbreviation remaining :: "AStarNodes \<Rightarrow> nat \<times> nat \<times> nat" where
  "remaining w \<equiv> (MAX_NODES - current_node w, total w, card (open_nodes w))"

lemma remaining_decreases:
  assumes "progress w w'" and "store_ok w'" and "n \<in> open_nodes w'"
  shows "(remaining (CloseNode n w'), remaining w) \<in> less_than <*lex*> less_than <*lex*> less_than"
proof -
  have c: "nodes (CloseNode n w') = nodes w'" "current_node (CloseNode n w') = current_node w'" "open_nodes (CloseNode n w') = open_nodes w' - {n}"
    using store_CloseNode[OF assms(2,3)] by auto
  have "card (open_nodes w' - {n}) < card (open_nodes w')"
    using assms(3) by (intro card_Diff1_less) (auto simp: open_nodes_def)
  moreover have "total (CloseNode n w') = total w'"
    using c by (simp add: total_def)
  moreover have "current_node w' \<le> MAX_NODES"
    using assms(2) by (simp add: store_ok_def heap_ok_def)
  ultimately show ?thesis
    using assms(1) c(2,3) unfolding progress_def by (elim disjE conjE) (simp_all add: diff_less_mono2)
qed

lemma search_returns:
  assumes "search_ok m c target fpp w" and "found = ASTAR_NODE_NONE \<or> found_ok m c target fpp w found p"
  shows "\<exists>w' r. search m c target fpp b found p w = Some (w', r) \<and> search_ok m c target fpp w' \<and>
    (\<forall>n q. r = Some (n, q) \<longrightarrow> found_ok m c target fpp w' n q)"
  using assms
proof (induction "remaining w" arbitrary: w b found p rule: wf_induct_rule[OF wf_lex_prod[OF wf_less_than wf_lex_prod[OF wf_less_than wf_less_than]]])
  case (1 w)
  have st: "store_ok w" using 1(2) by (simp add: search_ok_def)
  let ?i = "GetBestNode w"
  let ?pos = "Position (node_x (nodes w ?i)) (node_y (nodes w ?i)) (pos_z (getPosition c))"
  show ?case
  proof (cases "(maxSearchDist fpp \<noteq> 0 \<or> closed_nodes w < 100) \<and> ?i \<noteq> ASTAR_NODE_NONE")
    case False
    then have "search m c target fpp b found p w = Some (w, if found \<noteq> ASTAR_NODE_NONE then Some (found, p) else None)"
      by (subst search.simps) (auto simp: Let_def)
    then show ?thesis using 1(2,3) by auto
  next
    case True
    have i: "?i \<in> open_nodes w"
      using GetBestNode_ok[OF st] True by (auto split: if_splits)
    have ib: "?i < current_node w" using i by (rule open_nodes_bound)
    obtain hit b' where pc: "pathCondition m target (getPosition c) ?pos fpp b = Some (hit, b')"
      using pathCondition_returns[of m target "getPosition c" ?pos fpp b] by (auto simp: returns_def)
    define found' where "found' = (if hit then ?i else found)"
    define p' where "p' = (if hit then ?pos else p)"
    have f': "found' = ASTAR_NODE_NONE \<or> found_ok m c target fpp w found' p'"
      using 1(3) pc ib by (auto simp: found'_def p'_def found_ok_def node_position_def goal_def)
    let ?rest = "expand m c target fpp ?i found' (neighbors fpp w (nodes w ?i)) w \<bind>
        case_Expansion (\<lambda>w. Some (w, None)) (\<lambda>w. search m c target fpp b' found' p' (CloseNode ?i w))"
    have eq: "search m c target fpp b found p w = (if hit \<and> b' = 0 then Some (w, Some (found', p')) else ?rest)"
      using True pc by (subst search.simps) (simp add: Let_def found'_def p'_def)
    have "allowDiagonal fpp \<or> ?i = 0 \<or> dx = 0 \<or> dy = 0" if "(dx, dy) \<in> set (neighbors fpp w (nodes w ?i))" for dx dy
    proof -
      have "?i = 0 \<or> node_parent (nodes w ?i) < current_node w"
        using 1(2) ib by (auto simp: search_ok_def)
      moreover have "current_node w \<le> MAX_NODES"
        using st by (simp add: store_ok_def heap_ok_def)
      ultimately have "?i = 0 \<or> node_parent (nodes w ?i) \<noteq> ASTAR_NODE_NONE"
        by (auto simp: MAX_NODES_def ASTAR_NODE_NONE_def)
      then show ?thesis
        using neighbors_allowed(2)[OF that] by blast
    qed
    from expand_ok[OF 1(2) i neighbors_allowed(1) this, where found = found']
    obtain e where e: "expand m c target fpp ?i found' (neighbors fpp w (nodes w ?i)) w = Some e" "search_ok m c target fpp (store e)"
      "?i \<in> open_nodes (store e)" "kept w (store e)" "progress w (store e)"
      by blast
    show ?thesis
    proof (cases "hit \<and> b' = 0")
      case True
      then show ?thesis
        using eq f' 1(2) ib st by (auto simp: found'_def store_ok_def heap_ok_def MAX_NODES_def ASTAR_NODE_NONE_def)
    next
      case go_on: False
      show ?thesis
      proof (cases e)
        case (Failed v)
        then show ?thesis using eq go_on e by auto
      next
        case (Expanded v)
        let ?u = "CloseNode ?i v"
        have v: "store_ok v" "search_ok m c target fpp v" "?i \<in> open_nodes v" "kept w v" "progress w v"
          using e Expanded by (auto simp: search_ok_def)
        have "\<exists>w' r. search m c target fpp b' found' p' ?u = Some (w', r) \<and> search_ok m c target fpp w' \<and>
            (\<forall>n q. r = Some (n, q) \<longrightarrow> found_ok m c target fpp w' n q)"
        proof (rule 1(1))
          show "(remaining ?u, remaining w) \<in> less_than <*lex*> less_than <*lex*> less_than"
            using v by (intro remaining_decreases)
          show "search_ok m c target fpp ?u"
            using v by (intro search_ok_Close)
          show "found' = ASTAR_NODE_NONE \<or> found_ok m c target fpp ?u found' p'"
            using f' found_ok_kept[OF kept_trans[OF v(4) kept_Close[OF v(1,3)]]] by blast
        qed
        then show ?thesis using eq go_on e(1) Expanded by simp
      qed
    qed
  qed
qed

lemma collect_path_returns:
  assumes "search_ok m c target fpp w" and "n = ASTAR_NODE_NONE \<or> n < current_node w"
  shows "returns (collect_path w n x y ds)"
proof (cases "n = ASTAR_NODE_NONE")
  case True
  then show ?thesis by (subst collect_path.simps) (simp add: returns_def)
next
  case False
  then have "n < current_node w" using assms(2) by simp
  then show ?thesis
  proof (induction "nat (g_score (nodes w n))" arbitrary: n x y ds rule: less_induct)
    case less
    let ?p = "node_parent (nodes w n)"
    have max: "current_node w \<le> MAX_NODES"
      using assms(1) by (simp add: search_ok_def store_ok_def heap_ok_def)
    then have n: "n \<noteq> ASTAR_NODE_NONE"
      using less(2) by (auto simp: MAX_NODES_def ASTAR_NODE_NONE_def)
    have "returns (collect_path w ?p x y ds)" for x y ds
    proof (cases "n = 0")
      case True
      then have "?p = ASTAR_NODE_NONE"
        using assms(1) by (simp add: search_ok_def start_node_def)
      then show ?thesis by (subst collect_path.simps) (simp add: returns_def)
    next
      case False
      then have p: "?p < current_node w" "linked_to fpp ?p (nodes w ?p) (nodes w n)"
        using assms(1) less(2) by (auto simp: search_ok_def)
      then have "nat (g_score (nodes w ?p)) < nat (g_score (nodes w n))"
        using search_ok_score[OF assms(1) p(1)] by (auto simp: linked_to_def MAP_NORMALWALKCOST_def)
      then show ?thesis
        using less(1) p(1) by blast
    qed
    then show ?case
      using n by (subst collect_path.simps) (simp add: Let_def)
  qed
qed

section \<open>The path\<close>

primrec walk :: "Position \<Rightarrow> Direction list \<Rightarrow> Position list" where
  "walk p [] = []"
| "walk p (d # ds) = getNextPosition d p # walk (getNextPosition d p) ds"

definition end_of :: "Position \<Rightarrow> Direction list \<Rightarrow> Position" where
  "end_of p ds = last (p # walk p ds)"

definition straight :: "Direction \<Rightarrow> bool" where
  "straight d \<longleftrightarrow> d \<in> {DIRECTION_NORTH, DIRECTION_EAST, DIRECTION_SOUTH, DIRECTION_WEST}"

lemma walk_snoc: "walk p (ds @ [d]) = walk p ds @ [getNextPosition d (end_of p ds)]"
  by (induction ds arbitrary: p) (auto simp: end_of_def)

lemma end_of_snoc: "end_of p (ds @ [d]) = getNextPosition d (end_of p ds)"
  by (simp add: end_of_def walk_snoc)

definition inner :: "u16 \<Rightarrow> bool" where
  "inner x \<longleftrightarrow> x \<noteq> 65535"

lemma offset_inner:
  assumes "inner x" and "inner (x + of_int d)" and "d \<in> {-1, 0, 1}"
  shows "uint (x + of_int d) = uint x + d"
proof -
  have "x \<noteq> 0" if "d = -1"
    using assms(2) that by (auto simp: inner_def)
  then show ?thesis
    using assms uint_inc[of x] uint_dec[of x] by (auto simp: inner_def)
qed

lemma step_direction_correct:
  assumes "(dx, dy) \<in> set allNeighbors" and "inner x" "inner y" "inner (x + of_int dx)" "inner (y + of_int dy)"
  shows "\<exists>d. step_direction (uint x - uint (x + of_int dx)) (uint y - uint (y + of_int dy)) = Some d \<and>
    getNextPosition d (Position x y z) = Position (x + of_int dx) (y + of_int dy) z \<and> (straight d \<longleftrightarrow> dx = 0 \<or> dy = 0)"
proof -
  have "uint (x + of_int dx) = uint x + dx" "uint (y + of_int dy) = uint y + dy"
    using assms by (auto intro!: offset_inner simp: allNeighbors_def)
  then show ?thesis
    using assms(1) by (auto simp: allNeighbors_def step_direction_def straight_def)
qed

definition map_inside :: "('a) Map_scheme \<Rightarrow> bool" where
  "map_inside m \<longleftrightarrow> (\<forall>x y z t. getTile m x y z = Some t \<longrightarrow> inner x \<and> inner y)"

lemma admissible_inner: "map_inside m \<Longrightarrow> admissible m c target fpp p \<Longrightarrow> inner (pos_x p) \<and> inner (pos_y p)"
  unfolding map_inside_def admissible_def canWalkTo_def Let_def by (metis not_None_eq option.simps(4))

text \<open>The directions lead, read backwards, from the start to the position, over admissible tiles.\<close>

definition leads_to :: "('a) WalkMap_scheme \<Rightarrow> Walker \<Rightarrow> Position \<Rightarrow> FindPathParams \<Rightarrow> Direction list \<Rightarrow> Position \<Rightarrow> bool" where
  "leads_to m c target fpp ds p \<longleftrightarrow> end_of (getPosition c) (rev ds) = p \<and>
     list_all (admissible m c target fpp) (walk (getPosition c) (rev ds)) \<and> (allowDiagonal fpp \<or> list_all straight (butlast ds))"

lemma collect_path_leads:
  assumes ok: "search_ok m c target fpp w" and inside: "map_inside m" "inner (pos_x (getPosition c))" "inner (pos_y (getPosition c))"
    and n: "n < current_node w"
  shows "\<exists>path. collect_path w (node_parent (nodes w n)) (uint (node_x (nodes w n))) (uint (node_y (nodes w n))) ds = Some (ds @ path) \<and>
    leads_to m c target fpp path (node_position c (nodes w n)) \<and> (n = 0 \<longrightarrow> path = [])"
  using n
proof (induction "nat (g_score (nodes w n))" arbitrary: n ds rule: less_induct)
  case less
  let ?p = "node_parent (nodes w n)"
  show ?case
  proof (cases "n = 0")
    case True
    then have "?p = ASTAR_NODE_NONE" "node_position c (nodes w n) = getPosition c"
      using ok by (simp_all add: search_ok_def start_node_def node_position_def)
    then show ?thesis
      using True by (subst collect_path.simps) (simp add: leads_to_def end_of_def)
  next
    case False
    have p: "?p < current_node w" "linked_to fpp ?p (nodes w ?p) (nodes w n)" "node_ok m c target fpp (nodes w n)"
      using ok less(2) False by (auto simp: search_ok_def)
    have pn: "?p \<noteq> ASTAR_NODE_NONE"
      using ok p(1) by (auto simp: search_ok_def store_ok_def heap_ok_def MAX_NODES_def ASTAR_NODE_NONE_def)
    have adm: "admissible m c target fpp (node_position c (nodes w n))"
      using p(3) by (simp add: node_ok_def)
    then have inn: "inner (node_x (nodes w n))" "inner (node_y (nodes w n))"
      using admissible_inner[OF inside(1)] by (fastforce simp: node_position_def)+
    have inp: "inner (node_x (nodes w ?p)) \<and> inner (node_y (nodes w ?p))"
    proof (cases "?p = 0")
      case True
      then show ?thesis
        using ok inside(2,3) by (simp add: search_ok_def start_node_def)
    next
      case False
      then have "admissible m c target fpp (node_position c (nodes w ?p))"
        using ok p(1) by (auto simp: search_ok_def node_ok_def)
      then show ?thesis
        using admissible_inner[OF inside(1)] by (fastforce simp: node_position_def)
    qed
    obtain dx dy where o: "(dx, dy) \<in> set allNeighbors" "node_x (nodes w n) = node_x (nodes w ?p) + of_int dx"
      "node_y (nodes w n) = node_y (nodes w ?p) + of_int dy" "allowDiagonal fpp \<or> ?p = 0 \<or> dx = 0 \<or> dy = 0"
      using p(2) by (auto simp: linked_to_def)
    obtain d where d: "step_direction (uint (node_x (nodes w ?p)) - uint (node_x (nodes w n))) (uint (node_y (nodes w ?p)) - uint (node_y (nodes w n))) = Some d"
      "getNextPosition d (node_position c (nodes w ?p)) = node_position c (nodes w n)" "straight d \<longleftrightarrow> dx = 0 \<or> dy = 0"
      using step_direction_correct[OF o(1), of "node_x (nodes w ?p)" "node_y (nodes w ?p)"] inp inn o(2,3) by (auto simp: node_position_def)
    have "nat (g_score (nodes w ?p)) < nat (g_score (nodes w n))"
      using p(2) search_ok_score[OF ok p(1)] by (auto simp: linked_to_def MAP_NORMALWALKCOST_def)
    from less(1)[OF this p(1), of "ds @ [d]"] obtain path where
      path: "collect_path w (node_parent (nodes w ?p)) (uint (node_x (nodes w ?p))) (uint (node_y (nodes w ?p))) (ds @ [d]) = Some (ds @ d # path)"
        "leads_to m c target fpp path (node_position c (nodes w ?p))" "?p = 0 \<longrightarrow> path = []"
      by auto
    have "collect_path w ?p (uint (node_x (nodes w n))) (uint (node_y (nodes w n))) ds = Some (ds @ d # path)"
      using pn d(1) path(1) by (subst collect_path.simps) (simp add: Let_def)
    moreover have "leads_to m c target fpp (d # path) (node_position c (nodes w n))"
      using path(2,3) d(2,3) o(4) adm by (auto simp: leads_to_def walk_snoc end_of_snoc)
    ultimately show ?thesis using False by blast
  qed
qed

lemma new_search_ok:
  assumes "workspace_ok ws"
  obtains w where "new_AStarNodes ws (pos_x (getPosition c)) (pos_y (getPosition c)) = Some w" "search_ok m c target fpp w"
proof -
  obtain w where "new_AStarNodes ws (pos_x (getPosition c)) (pos_y (getPosition c)) = Some w" "store_ok w" "current_node w = 1"
    "nodes w 0 = start_node (pos_x (getPosition c)) (pos_y (getPosition c))"
    using new_AStarNodes_ok[OF assms, of "pos_x (getPosition c)" "pos_y (getPosition c)"] by metis
  then show ?thesis
    using that by (simp add: search_ok_def)
qed

lemma getPathMatching_result:
  assumes "workspace_ok ws"
  obtains w where "search_ok m c target fpp w" "getPathMatching m c ws target fpp ds = Some (None, delete_AStarNodes w)"
  | w n where "search_ok m c target fpp w" "n < current_node w" "goal m target (getPosition c) fpp (node_position c (nodes w n))"
    "getPathMatching m c ws target fpp ds =
       collect_path w (node_parent (nodes w n)) (uint (node_x (nodes w n))) (uint (node_y (nodes w n))) ds \<bind> (\<lambda>ds. Some (Some ds, delete_AStarNodes w))"
proof -
  obtain v where v: "new_AStarNodes ws (pos_x (getPosition c)) (pos_y (getPosition c)) = Some v" "search_ok m c target fpp v"
    using new_search_ok[OF assms] by blast
  obtain w r where w: "search m c target fpp 0 ASTAR_NODE_NONE (Position 0 0 0) v = Some (w, r)" "search_ok m c target fpp w"
    "\<forall>n q. r = Some (n, q) \<longrightarrow> found_ok m c target fpp w n q"
    using search_returns[OF v(2)] by blast
  show ?thesis
  proof (cases r)
    case None
    then show ?thesis
      using that(1)[of w] v(1) w by (simp add: getPathMatching_def)
  next
    case (Some a)
    then obtain n q where nq: "r = Some (n, q)" "found_ok m c target fpp w n q"
      using w(3) by (cases a) auto
    then show ?thesis
      using that(2)[of w n] v(1) w by (simp add: getPathMatching_def found_ok_def node_position_def)
  qed
qed

text \<open>
  Claim C5. The path search always ends, on every map, for every creature, target and parameters, and
  leaves the shared workspace fit for the next search.
\<close>

theorem getPathMatching_returns:
  assumes "workspace_ok ws"
  shows "\<exists>r ws'. getPathMatching m c ws target fpp ds = Some (r, ws') \<and> workspace_ok ws'"
  using assms
proof (rule getPathMatching_result)
  fix w assume "search_ok m c target fpp w" "getPathMatching m c ws target fpp ds = Some (None, delete_AStarNodes w)"
  then show ?thesis
    using delete_AStarNodes_ok[of w] by (simp add: search_ok_def store_ok_def)
next
  fix w n assume w: "search_ok m c target fpp w" "n < current_node w" "getPathMatching m c ws target fpp ds =
       collect_path w (node_parent (nodes w n)) (uint (node_x (nodes w n))) (uint (node_y (nodes w n))) ds \<bind> (\<lambda>ds. Some (Some ds, delete_AStarNodes w))"
  have "n = 0 \<or> node_parent (nodes w n) < current_node w"
    using w(1,2) by (auto simp: search_ok_def)
  then have "node_parent (nodes w n) = ASTAR_NODE_NONE \<or> node_parent (nodes w n) < current_node w"
    using w(1) by (auto simp: search_ok_def start_node_def)
  then obtain ds' where "collect_path w (node_parent (nodes w n)) (uint (node_x (nodes w n))) (uint (node_y (nodes w n))) ds = Some ds'"
    using collect_path_returns[OF w(1)] by (fastforce simp: returns_def)
  then show ?thesis
    using w(1,3) delete_AStarNodes_ok[of w] by (simp add: search_ok_def store_ok_def)
qed

text \<open>
  Claim C3. The directions that a successful search appends lead, read from the last to the first, from
  the creature to a position that passes the goal test; every tile on the way can be walked on and lies
  within the search distance and, when distance is to be kept, within the range of the target; without
  diagonal moves every step but the first is straight. Tiles on the last row and column of the
  coordinates are excluded, where a step would wrap around.
\<close>

theorem getPathMatching_finds:
  assumes "workspace_ok ws" and "map_inside m" "inner (pos_x (getPosition c))" "inner (pos_y (getPosition c))"
    and "getPathMatching m c ws target fpp ds = Some (Some dirs, ws')"
  shows "\<exists>path. dirs = ds @ path \<and> leads_to m c target fpp path (end_of (getPosition c) (rev path)) \<and>
    goal m target (getPosition c) fpp (end_of (getPosition c) (rev path))"
  using assms(1)
proof (rule getPathMatching_result)
  fix w assume "getPathMatching m c ws target fpp ds = Some (None, delete_AStarNodes w)"
  then show ?thesis using assms(5) by simp
next
  fix w n assume w: "search_ok m c target fpp w" "n < current_node w" "goal m target (getPosition c) fpp (node_position c (nodes w n))"
    "getPathMatching m c ws target fpp ds =
       collect_path w (node_parent (nodes w n)) (uint (node_x (nodes w n))) (uint (node_y (nodes w n))) ds \<bind> (\<lambda>ds. Some (Some ds, delete_AStarNodes w))"
  obtain path where "collect_path w (node_parent (nodes w n)) (uint (node_x (nodes w n))) (uint (node_y (nodes w n))) ds = Some (ds @ path)"
    "leads_to m c target fpp path (node_position c (nodes w n))"
    using collect_path_leads[OF w(1) assms(2-4) w(2)] by blast
  then show ?thesis
    using w(3,4) assms(5) by (auto simp: leads_to_def)
qed

text \<open>An open field, and a creature that walks to the tile to the east.\<close>

definition field :: WalkMap where
  "field = \<lparr>getTile = (\<lambda>x y z. if x < 200 \<and> y < 200 then Some (unat x * 200 + unat y) else None), getGround = (\<lambda>_. True),
     blockProjectile = (\<lambda>_. False), queryAdd = (\<lambda>_. True), getTopVisibleCreature = (\<lambda>_. False), getFieldItem = (\<lambda>_. None)\<rparr>"

definition hunter :: Walker where
  "hunter = \<lparr>getPosition = Position 100 100 7, creatureTile = Some 20100, isImmune = (\<lambda>_. False), hasFieldCondition = (\<lambda>_. False),
     monsterCanWalkOnField = None\<rparr>"

definition approach :: FindPathParams where
  "approach = \<lparr>fullPathSearch = True, clearSight = True, allowDiagonal = True, keepDistance = True, maxSearchDist = 0,
     minTargetDist = 0, maxTargetDist = 0\<rparr>"

lemma approach_simps: "allowDiagonal approach" "clearSight approach" "keepDistance approach" "maxSearchDist approach = 0"
  "minTargetDist approach = 0" "maxTargetDist approach = 0"
  by (simp_all add: approach_def)

lemma in_range_here: "isInRange (Position x y z) s p approach \<longleftrightarrow> pos_x p = x \<and> pos_y p = y"
  by (auto simp: isInRange_def approach_def word_uint_eq_iff)

lemma condition_here: "pathCondition field (Position 101 100 7) s (Position 101 100 7) approach b = Some (True, 0)"
  by (simp add: pathCondition_def in_range_here isSightClear_def approach_simps getDistanceX_def getDistanceY_def getOffsetX_def getOffsetY_def)

lemma condition_elsewhere:
  "\<not> (pos_x p = 101 \<and> pos_y p = 100) \<Longrightarrow> pathCondition field (Position 101 100 7) s p approach b = Some (False, b)"
  by (simp add: pathCondition_def in_range_here)

lemma approach_east:
  "\<exists>ws. getPathMatching field hunter new_workspace (Position 101 100 7) approach [] = Some (Some [DIRECTION_EAST], ws)"
proof -
  let ?t = "Position 101 100 7"
  obtain w where w: "new_AStarNodes new_workspace 100 100 = Some w" "store_ok w" "current_node w = 1" "nodes w 0 = start_node 100 100"
    "open_nodes w = {0}" "closed_nodes w = 0"
    using new_AStarNodes_ok[OF store_reach_ok(2)[OF fresh], of 100 100] by metis
  have best: "GetBestNode w = 0"
    using GetBestNode_ok[OF w(2)] w(5) by simp
  have fresh_key: "node_key w n \<noteq> position_key 101 100" if "n < current_node w" for n
    using that w(3,4) by (simp add: node_key_def start_node_def position_key_inject)
  let ?node = "\<lparr>node_parent = 0, node_f = 10, g_score = 10, node_x = 101, node_y = 100\<rparr>"
  have "current_node w < MAX_NODES"
    using w(3) by (simp add: MAX_NODES_def)
  then obtain v where v: "CreateOpenNode 0 101 100 10 10 w = Some (1, v)" "store_ok v" "nodes v = (nodes w)(1 := ?node)"
    "open_nodes v = insert 1 {0}" "closed_nodes v = 0"
    using CreateOpenNode_ok[OF w(2) _ fresh_key, where parent = 0 and f = 10 and g = 10] unfolding w(3,5,6) by blast
  obtain r where r: "GetNodeByPosition 101 100 w = Some r"
    "r \<noteq> ASTAR_NODE_NONE \<Longrightarrow> r < current_node w \<and> node_x (nodes w r) = 101 \<and> node_y (nodes w r) = 100"
    using GetNodeByPosition_ok[OF w(2)] by blast
  have missing: "r = ASTAR_NODE_NONE"
    using r(2) w(3,4) by (cases "r = ASTAR_NODE_NONE") (auto simp: start_node_def)
  let ?expand = "expand field hunter ?t approach 0 ASTAR_NODE_NONE"
  have skip: "?expand ((dx, dy) # os) z = ?expand os z"
    if "nodes z 0 = start_node 100 100" "\<not> (100 + of_int dx = (101 :: u16) \<and> 100 + of_int dy = (100 :: u16))" for dx dy os z
    using that by (simp add: Let_def in_range_here approach_simps hunter_def start_node_def)
  have step: "?expand ((1, 0) # os) w = ?expand os v" for os
    using r(1) missing v(1) w(4)
    by (simp add: Let_def in_range_here approach_simps hunter_def start_node_def canWalkTo_def field_def GetMapWalkCost_def
        GetTileWalkCost_def manhattan_heuristic_def ASTAR_NODE_NONE_def MAP_NORMALWALKCOST_def)
  have "nodes v 0 = start_node 100 100"
    using v(3) w(4) by simp
  then have expand: "?expand allNeighbors w = Some (Expanded v)"
    unfolding allNeighbors_def by (simp add: skip w(4) step del: expand.simps(2))
  let ?u = "CloseNode 0 v"
  have u: "store_ok ?u" "nodes ?u = nodes v" "open_nodes ?u = {1}"
    using store_CloseNode[OF v(2), of 0] v(4) by auto
  have best2: "GetBestNode ?u = 1"
    using GetBestNode_ok[OF u(1)] u(3) by simp
  have "heap_ok v" "0 \<in> open_nodes v"
    using v(2,4) by (simp_all add: store_ok_def)
  then obtain h n where "?u = v\<lparr>closed_nodes := closed_nodes v + 1, heap_size := heap_size v - 1, heap := h, node_to_heap := n\<rparr>"
    using CloseNode_ok by blast
  then have closed: "closed_nodes ?u = 1" using v(5) by simp
  have "search field hunter ?t approach 0 ASTAR_NODE_NONE (Position 0 0 0) ?u = Some (?u, Some (1, ?t))"
    using best2 closed u(2) v(3)
    by (subst search.simps) (simp add: Let_def condition_here hunter_def ASTAR_NODE_NONE_def)
  then have "search field hunter ?t approach 0 ASTAR_NODE_NONE (Position 0 0 0) w = Some (?u, Some (1, ?t))"
    using best w(4,6) expand
    by (subst search.simps) (simp add: Let_def condition_elsewhere hunter_def start_node_def neighbors_def ASTAR_NODE_NONE_def)
  moreover have "collect_path ?u 0 101 100 [] = Some [DIRECTION_EAST]"
  proof -
    have "ASTAR_NODE_NONE \<noteq> 0" by (simp add: ASTAR_NODE_NONE_def)
    moreover have "collect_path ?u ASTAR_NODE_NONE x y ds = Some ds" for x y ds
      by (subst collect_path.simps) simp
    ultimately show ?thesis
      using u(2) v(3) w(4) by (subst collect_path.simps) (simp add: start_node_def step_direction_def)
  qed
  ultimately show ?thesis
    using w(1) u(2) v(3) by (simp add: getPathMatching_def hunter_def)
qed

theorem getPathMatching_returns_witness:
  "\<exists>r ws. getPathMatching field hunter new_workspace (Position 150 100 7) approach [] = Some (r, ws)"
  using getPathMatching_returns[OF store_reach_ok(2)[OF fresh], of field hunter "Position 150 100 7" approach "[]"] by blast

lemma field_inside: "map_inside field"
  by (auto simp: map_inside_def field_def inner_def split: if_splits)

theorem getPathMatching_finds_witness:
  "leads_to field hunter (Position 101 100 7) approach [DIRECTION_EAST] (end_of (Position 100 100 7) [DIRECTION_EAST])"
proof -
  obtain ws where "getPathMatching field hunter new_workspace (Position 101 100 7) approach [] = Some (Some [DIRECTION_EAST], ws)"
    using approach_east by blast
  from getPathMatching_finds[OF store_reach_ok(2)[OF fresh] field_inside _ _ this] show ?thesis
    by (simp add: hunter_def inner_def)
qed

end
