(* ===== verification/WildcardTree.thy ===== *)
theory WildcardTree
  imports Enums Assoc "HOL-Library.Sublist"
begin

text \<open>
  The prefix tree of online player names (wildcardtree.h, wildcardtree.cpp), with which
  \<open>getPlayerByNameWildcard\<close> completes a name. A node has a flag \<open>breakpoint\<close> (a name ends here) and a
  \<open>std::map\<close> from characters to child nodes, kept here as a list of pairs with distinct keys; no operation
  depends on the order of the map. The operations walk the tree through pointers; here each step
  rebuilds the node it changes. Inserting the empty name reads \<open>str[0]\<close> of an empty view in the
  source (\<open>length - 1\<close> wraps); it is the result \<open>None\<close>.

  The abstract view is the set of names in the tree (\<open>names\<close>); the locale \<open>name_index\<close> states what
  the game relies on.
\<close>

section \<open>Nodes\<close>

datatype WildcardTreeNode =
  Node (breakpoint: bool) (children: "(char \<times> WildcardTreeNode) list")

definition getChild :: "WildcardTreeNode \<Rightarrow> char \<Rightarrow> WildcardTreeNode option" where
  "getChild t ch = map_of (children t) ch"

definition setChild :: "WildcardTreeNode \<Rightarrow> char \<Rightarrow> WildcardTreeNode \<Rightarrow> WildcardTreeNode" where
  "setChild t ch child = Node (breakpoint t) (assign ch child (children t))"

text \<open>\<open>addChild\<close>: the tree with the child in it, and the child.\<close>

definition addChild :: "WildcardTreeNode \<Rightarrow> char \<Rightarrow> bool \<Rightarrow> WildcardTreeNode \<times> WildcardTreeNode" where
  "addChild t ch bp =
     (case getChild t ch of
        Some child \<Rightarrow>
          let child' = (if bp \<and> \<not> breakpoint child then Node True (children child) else child)
          in (setChild t ch child', child')
      | None \<Rightarrow> let child = Node bp [] in (setChild t ch child, child))"

fun insert_name :: "WildcardTreeNode \<Rightarrow> string \<Rightarrow> WildcardTreeNode option" where
  "insert_name cur [] = None"
| "insert_name cur [ch] = Some (fst (addChild cur ch True))"
| "insert_name cur (ch # ch' # str) =
     (let (cur', child) = addChild cur ch False
      in map_option (setChild cur' ch) (insert_name child (ch' # str)))"

text \<open>
  \<open>remove\<close>: the walk down collects the path, a stack of the nodes above the current one with the
  characters taken; the way up erases nodes that have neither children nor a name.
\<close>

type_synonym path = "(WildcardTreeNode \<times> char) list"

fun descend :: "WildcardTreeNode \<Rightarrow> string \<Rightarrow> path \<Rightarrow> (WildcardTreeNode \<times> path) option" where
  "descend cur [] path = Some (cur, path)"
| "descend cur (ch # str) path =
     (case getChild cur ch of None \<Rightarrow> None | Some child \<Rightarrow> descend child str ((cur, ch) # path))"

fun plug :: "WildcardTreeNode \<Rightarrow> path \<Rightarrow> WildcardTreeNode" where
  "plug cur [] = cur"
| "plug cur ((p, ch) # path) = plug (setChild p ch cur) path"

fun prune :: "WildcardTreeNode \<Rightarrow> path \<Rightarrow> WildcardTreeNode" where
  "prune cur [] = cur"
| "prune cur ((p, ch) # path) =
     (if children cur \<noteq> [] \<or> breakpoint cur then plug cur ((p, ch) # path)
      else prune (Node (breakpoint p) (erase ch (children p))) path)"

definition remove_name :: "WildcardTreeNode \<Rightarrow> string \<Rightarrow> WildcardTreeNode" where
  "remove_name t str =
     (case descend t str [] of
        None \<Rightarrow> t
      | Some (cur, path) \<Rightarrow> prune (Node False (children cur)) path)"

text \<open>\<open>findOne\<close> writes \<open>result\<close> as it goes; the pair holds the code and the final \<open>result\<close>.\<close>

fun follow :: "WildcardTreeNode \<Rightarrow> string \<Rightarrow> ReturnValue \<times> string" where
  "follow (Node bp []) result = (RETURNVALUE_NOERROR, result)"
| "follow (Node bp [(ch, child)]) result =
     (if bp then (RETURNVALUE_NAMEISTOOAMBIGUOUS, result) else follow child (result @ [ch]))"
| "follow (Node bp (_ # _ # _)) result = (RETURNVALUE_NAMEISTOOAMBIGUOUS, result)"

definition findOne :: "WildcardTreeNode \<Rightarrow> string \<Rightarrow> string \<Rightarrow> ReturnValue \<times> string" where
  "findOne t query result =
     (case descend t query [] of
        None \<Rightarrow> (RETURNVALUE_PLAYERWITHTHISNAMEISNOTONLINE, result)
      | Some (cur, _) \<Rightarrow> follow cur query)"

section \<open>The names in a tree\<close>

fun contains :: "WildcardTreeNode \<Rightarrow> string \<Rightarrow> bool" where
  "contains t [] = breakpoint t"
| "contains t (ch # str) = (case getChild t ch of None \<Rightarrow> False | Some child \<Rightarrow> contains child str)"

definition names :: "WildcardTreeNode \<Rightarrow> string set" where
  "names t = {s. contains t s}"

text \<open>
  The shape of a tree: keys are distinct, and every node below the root lies on the way to a name
  (\<open>alive\<close>: it is a name itself or has children).
\<close>

definition alive :: "WildcardTreeNode \<Rightarrow> bool" where
  "alive t \<longleftrightarrow> breakpoint t \<or> children t \<noteq> []"

fun shape :: "WildcardTreeNode \<Rightarrow> bool" where
  "shape (Node bp m) \<longleftrightarrow> distinct (map fst m) \<and> (\<forall>p \<in> set m. alive (snd p) \<and> shape (snd p))"

lemma getChild_Node [simp]: "getChild (Node bp m) ch = map_of m ch"
  by (simp add: getChild_def)

lemma getChild_setChild [simp]: "getChild (setChild t ch c) d = (if d = ch then Some c else getChild t d)"
  by (simp add: getChild_def setChild_def)

lemma breakpoint_setChild [simp]: "breakpoint (setChild t ch c) = breakpoint t"
  by (simp add: setChild_def)

lemma shape_getChild: "shape t \<Longrightarrow> getChild t ch = Some c \<Longrightarrow> shape c \<and> alive c"
  by (cases t) (auto dest!: map_of_SomeD)

lemma shape_setChild: "shape t \<Longrightarrow> shape c \<Longrightarrow> alive c \<Longrightarrow> shape (setChild t ch c)"
  by (cases t) (auto simp: setChild_def dest!: set_assign[THEN subsetD])

lemma alive_setChild [simp]: "alive (setChild t ch c)"
  by (simp add: alive_def setChild_def)

lemma setChild_same [simp]: "setChild (setChild t ch c) ch d = setChild t ch d"
proof -
  have "assign k v (assign k w m) = assign k v m" for k :: char and v w :: WildcardTreeNode and m
    by (induction k w m rule: assign.induct) auto
  then show ?thesis by (simp add: setChild_def)
qed

lemma assign_found: "map_of m k = Some v \<Longrightarrow> assign k v m = m"
  by (induction k v m rule: assign.induct) (auto split: if_splits)

lemma setChild_found: "getChild t ch = Some c \<Longrightarrow> setChild t ch c = t"
  by (cases t) (simp add: setChild_def assign_found)

section \<open>Insertion\<close>

lemma addChild_simps:
  "fst (addChild t ch True) = setChild t ch (case getChild t ch of None \<Rightarrow> Node True [] | Some c \<Rightarrow> Node True (children c))"
  "addChild t ch False = (let c = (case getChild t ch of None \<Rightarrow> Node False [] | Some c \<Rightarrow> c) in (setChild t ch c, c))"
   apply (auto simp: addChild_def Let_def split: option.splits)
  by (metis WildcardTreeNode.collapse)

lemma insert_name_step:
  "insert_name t (ch # ch' # str) = map_option (setChild t ch)
     (insert_name (case getChild t ch of None \<Rightarrow> Node False [] | Some c \<Rightarrow> c) (ch' # str))"
  by (auto simp: addChild_simps Let_def fun_eq_iff intro!: option.map_cong)

declare insert_name.simps(3) [simp del]
declare insert_name_step [simp]

lemma contains_empty [simp]: "contains (Node False []) s \<longleftrightarrow> False"
  by (cases s) auto

lemma contains_step [simp]:
  "contains (case getChild t ch of None \<Rightarrow> Node False [] | Some c \<Rightarrow> c) s = contains t (ch # s)"
  by (auto split: option.splits)

lemma contains_mark: "contains (Node True (children c)) s \<longleftrightarrow> s = [] \<or> contains c s"
  by (cases s; cases c) auto

lemma contains_mark_empty: "contains (Node True []) s \<longleftrightarrow> s = []"
  by (cases s) auto

lemma insert_name_total: "s \<noteq> [] \<Longrightarrow> \<exists>t'. insert_name t s = Some t'"
  by (induction t s rule: insert_name.induct) (auto simp: addChild_simps Let_def)

lemma contains_insert: "insert_name t s = Some t' \<Longrightarrow> contains t' r \<longleftrightarrow> r = s \<or> contains t r"
proof (induction s arbitrary: t t' r rule: induct_list012)
  case (2 ch)
  then show ?case
    by (cases r) (auto simp: addChild_simps contains_mark contains_mark_empty split: option.splits if_splits)
next
  case (3 ch ch' str)
  then obtain z where t': "t' = setChild t ch z" and
    z: "insert_name (case getChild t ch of None \<Rightarrow> Node False [] | Some c \<Rightarrow> c) (ch' # str) = Some z"
    by auto
  have "contains z s \<longleftrightarrow> s = ch' # str \<or> contains t (ch # s)" for s
    using 3(2)[OF z] by simp
  then show ?case by (cases r) (auto simp: t' split: if_splits)
qed auto

lemma shape_insert: "insert_name t s = Some t' \<Longrightarrow> shape t \<Longrightarrow> shape t' \<and> alive t'"
proof (induction s arbitrary: t t' rule: induct_list012)
  case (2 ch)
  have "shape (Node True (children c)) = shape c" for c by (cases c) simp
  with 2 show ?case
    by (auto simp: addChild_simps alive_def[of "Node _ _"] dest: shape_getChild
        intro!: shape_setChild split: option.splits)
next
  case (3 ch ch' str)
  let ?c = "case getChild t ch of None \<Rightarrow> Node False [] | Some c \<Rightarrow> c"
  have "shape ?c" using 3(4) by (auto dest: shape_getChild split: option.splits)
  with 3 show ?case by (fastforce intro: shape_setChild)
qed auto

section \<open>Removal\<close>

text \<open>Removal by recursion, without the stack.\<close>

fun remove_rec :: "WildcardTreeNode \<Rightarrow> string \<Rightarrow> WildcardTreeNode" where
  "remove_rec t [] = Node False (children t)"
| "remove_rec t (ch # str) =
     (case getChild t ch of None \<Rightarrow> t
      | Some c \<Rightarrow> let c' = remove_rec c str in
          if alive c' then setChild t ch c' else Node (breakpoint t) (erase ch (children t)))"

lemma prune_alive: "alive t \<Longrightarrow> prune t path = plug t path"
  by (cases path) (auto simp: alive_def)

lemma prune_descend:
  "descend t str path = Some (cur, path') \<Longrightarrow> prune (Node False (children cur)) path' = prune (remove_rec t str) path"
proof (induction str arbitrary: t path)
  case (Cons ch str)
  then obtain c where c: "getChild t ch = Some c" and "descend c str ((t, ch) # path) = Some (cur, path')"
    by (auto split: option.splits)
  from Cons.IH[OF this(2)] c show ?case
    by (auto simp: Let_def prune_alive) (auto simp: alive_def)
qed simp

lemma descend_missing: "descend t str path = None \<Longrightarrow> shape t \<Longrightarrow> remove_rec t str = t"
proof (induction str arbitrary: t path)
  case (Cons ch str)
  show ?case
  proof (cases "getChild t ch")
    case (Some c)
    with Cons.prems have "descend c str ((t, ch) # path) = None" "shape c" "alive c"
      by (auto dest: shape_getChild)
    with Cons.IH Some show ?thesis by (simp add: setChild_found)
  qed simp
qed simp

lemma remove_name_rec: "shape t \<Longrightarrow> remove_name t s = remove_rec t s"
  by (auto simp: remove_name_def descend_missing prune_descend split: option.splits)

lemma contains_erase:
  "shape t \<Longrightarrow> contains (Node (breakpoint t) (erase ch (children t))) s
     \<longleftrightarrow> contains t s \<and> (case s of [] \<Rightarrow> True | d # _ \<Rightarrow> d \<noteq> ch)"
  by (cases t; cases s) auto

lemma not_alive_contains: "\<not> alive t \<Longrightarrow> \<not> contains t s"
  by (cases t; cases s) (auto simp: alive_def)

lemma contains_remove: "shape t \<Longrightarrow> contains (remove_rec t s) r \<longleftrightarrow> r \<noteq> s \<and> contains t r"
proof (induction s arbitrary: t r)
  case Nil
  then show ?case by (cases t; cases r) auto
next
  case (Cons ch s)
  show ?case
  proof (cases "getChild t ch")
    case None
    then show ?thesis by auto
  next
    case (Some c)
    with Cons have IH: "contains (remove_rec c s) r \<longleftrightarrow> r \<noteq> s \<and> contains c r" for r
      by (auto dest: shape_getChild)
    show ?thesis
    proof (cases "alive (remove_rec c s)")
      case True
      with Some IH show ?thesis by (cases r) auto
    next
      case False
      then have "contains c r \<Longrightarrow> r = s" for r using IH not_alive_contains by blast
      with False Some show ?thesis
        by (cases r) (auto simp: contains_erase[OF Cons.prems] simp del: contains.simps,
            auto simp: Some split: option.splits)
    qed
  qed
qed

lemma shape_remove: "shape t \<Longrightarrow> shape (remove_rec t s)"
proof (induction s arbitrary: t)
  case Nil
  then show ?case by (cases t) auto
next
  case (Cons ch s)
  have "shape (Node (breakpoint t) (erase ch (children t)))"
    using Cons.prems by (cases t) (auto dest: set_erase[THEN subsetD])
  with Cons show ?case
    by (auto simp: Let_def split: option.splits dest: shape_getChild intro: shape_setChild)
qed

section \<open>Completion\<close>

definition matches :: "string set \<Rightarrow> string \<Rightarrow> string set" where
  "matches N query = {s \<in> N. prefix query s}"

lemma alive_has_name: "shape t \<Longrightarrow> alive t \<Longrightarrow> \<exists>s. contains t s"
proof (induction t)
  case (Node bp m)
  show ?case
  proof (cases bp)
    case True
    then show ?thesis by (intro exI[of _ "[]"]) simp
  next
    case False
    with Node.prems obtain ch c m' where m: "m = (ch, c) # m'" by (cases m) (auto simp: alive_def)
    with Node.IH[of "(ch, c)" c] Node.prems obtain s where "contains c s" by auto
    with m show ?thesis by (intro exI[of _ "ch # s"]) simp
  qed
qed

lemma follow_unique_or_two:
  "shape t \<Longrightarrow> alive t \<Longrightarrow>
   (\<exists>s. names t = {s} \<and> follow t r = (RETURNVALUE_NOERROR, r @ s)) \<or>
   (\<exists>s s'. s \<in> names t \<and> s' \<in> names t \<and> s \<noteq> s' \<and> fst (follow t r) = RETURNVALUE_NAMEISTOOAMBIGUOUS)"
proof (induction t r rule: follow.induct)
  case (1 bp result)
  then show ?case
    by (intro disjI1 exI[of _ "[]"]) (auto simp: names_def alive_def contains_mark_empty)
next
  case (2 bp ch c result)
  have c: "shape c" "alive c" using 2 by auto
  have mem: "contains (Node bp [(ch, c)]) s \<longleftrightarrow> (s = [] \<and> bp) \<or> (\<exists>s'. s = ch # s' \<and> contains c s')" for s
    by (cases s) auto
  show ?case
  proof (cases bp)
    case True
    obtain s where "contains c s" using alive_has_name[OF c] by blast
    with True mem show ?thesis
      by (intro disjI2 exI[of _ "[]"] exI[of _ "ch # s"]) (auto simp: names_def)
  next
    case False
    then have N: "names (Node bp [(ch, c)]) = (#) ch ` names c" 
      unfolding names_def mem by auto
    from 2(1)[OF False c] show ?thesis
      unfolding N using False by fastforce
  qed
next
  case (3 bp p p' m result)
  obtain ch c ch' c' where p: "p = (ch, c)" "p' = (ch', c')" by fastforce
  with 3 have "ch \<noteq> ch'" "shape c" "alive c" "shape c'" "alive c'" by auto
  moreover obtain s s' where "contains c s" "contains c' s'" using alive_has_name calculation by metis
  ultimately show ?case
    by (intro disjI2 exI[of _ "ch # s"] exI[of _ "ch' # s'"]) (auto simp: names_def p)
qed

lemma descend_names:
  "descend t q path = None \<Longrightarrow> \<not> contains t (q @ s)"
  "descend t q path = Some (cur, path') \<Longrightarrow> contains cur s = contains t (q @ s)"
  by (induction q arbitrary: t path) (auto split: option.splits)

lemma descend_shape:
  "descend t q path = Some (cur, path') \<Longrightarrow> shape t \<Longrightarrow> shape cur \<and> (q \<noteq> [] \<or> alive t \<longrightarrow> alive cur)"
  by (induction q arbitrary: t path) (auto split: option.splits dest: shape_getChild)

lemma findOne_spec:
  assumes "shape t" and "q \<noteq> [] \<or> names t \<noteq> {}"
  shows "matches (names t) q = {} \<and> findOne t q r = (RETURNVALUE_PLAYERWITHTHISNAMEISNOTONLINE, r) \<or>
         (\<exists>s. matches (names t) q = {s} \<and> findOne t q r = (RETURNVALUE_NOERROR, s)) \<or>
         (\<exists>s s'. s \<noteq> s' \<and> {s, s'} \<subseteq> matches (names t) q \<and>
            fst (findOne t q r) = RETURNVALUE_NAMEISTOOAMBIGUOUS)"
proof (cases "descend t q []")
  case None
  then show ?thesis
    by (auto simp: findOne_def matches_def names_def prefix_def descend_names(1))
next
  case (Some p)
  then obtain cur path where d: "descend t q [] = Some (cur, path)" by (cases p) auto
  have M: "matches (names t) q = (@) q ` names cur"
    by (auto simp: matches_def names_def prefix_def descend_names(2)[OF d])
  have "alive t" if "q = []" using that assms not_alive_contains[of t] by (auto simp: names_def)
  then have "shape cur" "alive cur" using descend_shape[OF d] assms(1) by auto
  from follow_unique_or_two[OF this, of q] show ?thesis
  proof (elim disjE exE conjE)
    fix s assume "names cur = {s}" "follow cur q = (RETURNVALUE_NOERROR, q @ s)"
    then show ?thesis using d by (simp add: M findOne_def)
  next
    fix s s' assume "s \<in> names cur" "s' \<in> names cur" "s \<noteq> s'"
      "fst (follow cur q) = RETURNVALUE_NAMEISTOOAMBIGUOUS"
    then show ?thesis using d
      by (intro disjI2 exI[of _ "q @ s"] exI[of _ "q @ s'"]) (simp add: M findOne_def)
  qed
qed

section \<open>The interface of the index\<close>

text \<open>
  What the game relies on: an index is a set of non-empty names; a query is answered by the one name
  it is a prefix of, refused as ambiguous when there are several, and unknown when there is none.
\<close>

datatype name_op = Login string | Logout string

fun run_index :: "('t \<Rightarrow> string \<Rightarrow> 't option) \<Rightarrow> ('t \<Rightarrow> string \<Rightarrow> 't) \<Rightarrow> name_op list \<Rightarrow> 't \<Rightarrow> 't option" where
  "run_index ins rem [] t = Some t"
| "run_index ins rem (Login s # ops) t =
     (case ins t s of None \<Rightarrow> None | Some t' \<Rightarrow> run_index ins rem ops t')"
| "run_index ins rem (Logout s # ops) t = run_index ins rem ops (rem t s)"

fun online :: "name_op list \<Rightarrow> string set \<Rightarrow> string set" where
  "online [] N = N"
| "online (Login s # ops) N = online ops (insert s N)"
| "online (Logout s # ops) N = online ops (N - {s})"

definition answers :: "string set \<Rightarrow> string \<Rightarrow> string \<Rightarrow> ReturnValue \<times> string \<Rightarrow> bool" where
  "answers N q r out \<longleftrightarrow>
     (if matches N q = {} then out = (RETURNVALUE_PLAYERWITHTHISNAMEISNOTONLINE, r)
      else if is_singleton (matches N q) then out = (RETURNVALUE_NOERROR, the_elem (matches N q))
      else fst out = RETURNVALUE_NAMEISTOOAMBIGUOUS)"

locale name_index =
  fixes empty :: "'t"
    and ins :: "'t \<Rightarrow> string \<Rightarrow> 't option"
    and rem :: "'t \<Rightarrow> string \<Rightarrow> 't"
    and find :: "'t \<Rightarrow> string \<Rightarrow> string \<Rightarrow> ReturnValue \<times> string"
    and content :: "'t \<Rightarrow> string set"
    and invar :: "'t \<Rightarrow> bool"
  assumes empty_laws: "invar empty" "content empty = {}"
    and ins_total: "s \<noteq> [] \<Longrightarrow> ins t s \<noteq> None"
    and ins_laws: "invar t \<Longrightarrow> ins t s = Some t' \<Longrightarrow> invar t' \<and> content t' = insert s (content t)"
    and rem_laws: "invar t \<Longrightarrow> invar (rem t s) \<and> content (rem t s) = content t - {s}"
    and find_law: "invar t \<Longrightarrow> q \<noteq> [] \<or> content t \<noteq> {} \<Longrightarrow> answers (content t) q r (find t q r)"
begin

lemma run_content:
  "invar t \<Longrightarrow> Login [] \<notin> set ops \<Longrightarrow>
     \<exists>t'. run_index ins rem ops t = Some t' \<and> invar t' \<and> content t' = online ops (content t)"
proof (induction ops arbitrary: t)
  case (Cons op ops)
  show ?case
  proof (cases op)
    case (Login s)
    with Cons.prems obtain t' where "ins t s = Some t'" using ins_total[of s t] by auto
    with Cons.prems ins_laws[of t s t'] have "invar t'" "content t' = insert s (content t)" by auto
    with Cons.IH[of t'] Cons.prems(2) Login \<open>ins t s = Some t'\<close> show ?thesis by simp
  next
    case (Logout s)
    with Cons.IH[of "rem t s"] Cons.prems rem_laws[of t s] show ?thesis by simp
  qed
qed simp

lemma run_answers:
  assumes "Login [] \<notin> set ops" and "q \<noteq> []"
  shows "\<exists>t. run_index ins rem ops empty = Some t \<and> answers (online ops {}) q r (find t q r)"
proof -
  obtain t where "run_index ins rem ops empty = Some t" "invar t" "content t = online ops {}"
    using run_content[OF empty_laws(1) assms(1)] empty_laws(2) by auto
  with find_law[of t q r] assms(2) show ?thesis by auto
qed

end

lemma findOne_answers:
  assumes "shape t" and "q \<noteq> [] \<or> names t \<noteq> {}"
  shows "answers (names t) q r (findOne t q r)"
  using findOne_spec[OF assms, of r]
proof (elim disjE exE conjE)
  fix s s' assume ne: "s \<noteq> s'" and M: "{s, s'} \<subseteq> matches (names t) q"
    and *: "fst (findOne t q r) = RETURNVALUE_NAMEISTOOAMBIGUOUS"
  have "\<not> is_singleton (matches (names t) q)"
  proof
    assume "is_singleton (matches (names t) q)"
    then obtain x where "matches (names t) q = {x}" by (rule is_singletonE)
    with M ne show False by simp
  qed
  moreover have "matches (names t) q \<noteq> {}" using M by blast
  ultimately show ?thesis using * by (simp add: answers_def)
qed (simp_all add: answers_def)

interpretation wct: name_index "Node False []" insert_name remove_name findOne names shape
proof unfold_locales
  fix s :: string and t
  assume "s \<noteq> []"
  then show "insert_name t s \<noteq> None" using insert_name_total[of s t] by auto
next
  fix t s t' assume "shape t" "insert_name t s = Some t'"
  then show "shape t' \<and> names t' = insert s (names t)"
    using shape_insert[of t s t'] contains_insert[of t s t'] by (auto simp: names_def)
next
  fix t s assume "shape t"
  then show "shape (remove_name t s) \<and> names (remove_name t s) = names t - {s}"
    by (auto simp: remove_name_rec shape_remove contains_remove names_def)
qed (simp_all add: findOne_answers, simp add: names_def)

text \<open>
  After any sequence of logins and logouts of players with non-empty names, completing a
  prefix gives the one online name that starts with it, reports the name as ambiguous exactly when
  several do, and as not online exactly when none does.
\<close>

theorem findOne_completes:
  assumes "Login [] \<notin> set ops" and "q \<noteq> []"
  shows "\<exists>t. run_index insert_name remove_name ops (Node False []) = Some t \<and>
           answers (online ops {}) q r (findOne t q r)"
  by (rule wct.run_answers[OF assms])

theorem findOne_completes_witness:
  "(\<exists>t. run_index insert_name remove_name [Login ''abe'', Login ''abel'', Login ''bob'', Logout ''abe'']
          (Node False []) = Some t \<and>
        answers (online [Login ''abe'', Login ''abel'', Login ''bob'', Logout ''abe''] {}) ''ab'' [] (findOne t ''ab'' [])) \<and>
   map_option (\<lambda>t. findOne t ''ab'' [])
     (run_index insert_name remove_name [Login ''abe'', Login ''abel'', Login ''bob'', Logout ''abe''] (Node False []))
     = Some (RETURNVALUE_NOERROR, ''abel'')"
  using findOne_completes[of "[Login ''abe'', Login ''abel'', Login ''bob'', Logout ''abe'']" "''ab''" "[]"]
  by (simp add: addChild_simps setChild_def remove_name_def findOne_def)

end
