(* ===== verification/OnlinePlayers.thy ===== *)
theory OnlinePlayers
  imports WildcardTree Strings
begin

text \<open>
  The registry of online players in game.cpp: the maps from names, identifiers and account characters
  to players, the prefix tree of names, the number of players online and its record.

  A \<open>std::weak_ptr<Player>\<close> is the identifier of the player; the argument \<open>H\<close> gives the player objects
  that are alive, so that \<open>lock()\<close> is \<open>lock_ref H\<close>. The events run at a new record and the database
  statement that stores it are left out, as are the browse windows and spy sessions that
  \<open>removePlayer\<close> also ends: none of them touches this state. An insertion of an empty name is the
  result \<open>None\<close>, see \<open>WildcardTree\<close>.
\<close>

record PlayerInfo =
  pl_id :: u32
  pl_guid :: u32
  pl_name :: string

record Registry =
  mappedPlayerNames :: "string \<rightharpoonup> u32"
  mappedPlayerGuids :: "u32 \<rightharpoonup> u32"
  wildcardTree :: WildcardTreeNode
  players :: "(u32 \<times> u32) list"
  playersOnline :: nat
  playersRecord :: u32
  pendingLogins :: "u32 set"

type_synonym objects = "u32 \<rightharpoonup> PlayerInfo"

definition empty_registry :: "u32 \<Rightarrow> Registry" where
  "empty_registry r = \<lparr>mappedPlayerNames = Map.empty, mappedPlayerGuids = Map.empty,
     wildcardTree = Node False [], players = [], playersOnline = 0, playersRecord = r, pendingLogins = {}\<rparr>"

definition PLAYER_NAME_LENGTH :: nat where
  "PLAYER_NAME_LENGTH = 25"

definition lock_ref :: "objects \<Rightarrow> u32 \<Rightarrow> u32 option" where
  "lock_ref H r = (case H r of None \<Rightarrow> None | Some _ \<Rightarrow> Some r)"

definition getPlayerByID :: "objects \<Rightarrow> Registry \<Rightarrow> u32 \<Rightarrow> u32 option" where
  "getPlayerByID H g i =
     (if i = 0 then None
      else case map_of (players g) i of None \<Rightarrow> None | Some r \<Rightarrow> lock_ref H r)"

definition getPlayerByName :: "objects \<Rightarrow> Registry \<Rightarrow> string \<Rightarrow> u32 option" where
  "getPlayerByName H g s =
     (if s = [] then None
      else case mappedPlayerNames g (asLowerCaseString s) of None \<Rightarrow> None | Some r \<Rightarrow> lock_ref H r)"

definition getPlayerByGUID :: "objects \<Rightarrow> Registry \<Rightarrow> u32 \<Rightarrow> u32 option" where
  "getPlayerByGUID H g guid =
     (if guid = 0 then None
      else case mappedPlayerGuids g guid of None \<Rightarrow> None | Some r \<Rightarrow> lock_ref H r)"

definition getPlayerByNameWildcard :: "objects \<Rightarrow> Registry \<Rightarrow> string \<Rightarrow> ReturnValue \<times> u32 option" where
  "getPlayerByNameWildcard H g s =
     (if length s = 0 \<or> length s > PLAYER_NAME_LENGTH
      then (RETURNVALUE_PLAYERWITHTHISNAMEISNOTONLINE, None)
      else
        let found =
          (if last s = CHR ''~''
           then case findOne (wildcardTree g) (asLowerCaseString (butlast s)) [] of
                (ret, result) \<Rightarrow>
                  if ret \<noteq> RETURNVALUE_NOERROR then Inl ret else Inr (getPlayerByName H g result)
           else Inr (getPlayerByName H g s))
        in case found of
            Inl ret \<Rightarrow> (ret, None)
          | Inr None \<Rightarrow> (RETURNVALUE_PLAYERWITHTHISNAMEISNOTONLINE, None)
          | Inr (Some player) \<Rightarrow> (RETURNVALUE_NOERROR, Some player))"

definition reserveLogin :: "u32 \<Rightarrow> Registry \<Rightarrow> bool \<times> Registry" where
  "reserveLogin guid g = (guid \<notin> pendingLogins g, g\<lparr>pendingLogins := insert guid (pendingLogins g)\<rparr>)"

definition releaseLogin :: "u32 \<Rightarrow> Registry \<Rightarrow> Registry" where
  "releaseLogin guid g = g\<lparr>pendingLogins := pendingLogins g - {guid}\<rparr>"

definition checkPlayersRecord :: "Registry \<Rightarrow> Registry" where
  "checkPlayersRecord g =
     (if playersOnline g > unat (playersRecord g)
      then g\<lparr>playersRecord := of_nat (playersOnline g)\<rparr> else g)"

definition addPlayer :: "objects \<Rightarrow> PlayerInfo \<Rightarrow> Registry \<Rightarrow> Registry option" where
  "addPlayer H p g =
     (case lock_ref H (pl_id p) of
        None \<Rightarrow> Some g
      | Some playerRef \<Rightarrow>
          let lowercase_name = asLowerCaseString (pl_name p) in
          case insert_name (wildcardTree g) lowercase_name of
            None \<Rightarrow> None
          | Some tree \<Rightarrow>
              let ps = assign (pl_id p) playerRef (players g) in
              Some (checkPlayersRecord (g\<lparr>
                mappedPlayerNames := (mappedPlayerNames g)(lowercase_name \<mapsto> playerRef),
                mappedPlayerGuids := (mappedPlayerGuids g)(pl_guid p \<mapsto> playerRef),
                wildcardTree := tree,
                players := ps,
                playersOnline := length ps\<rparr>)))"

definition removePlayer :: "PlayerInfo \<Rightarrow> Registry \<Rightarrow> Registry" where
  "removePlayer p g =
     (let lowercase_name = asLowerCaseString (pl_name p);
          ps = erase (pl_id p) (players g)
      in g\<lparr>mappedPlayerNames := (mappedPlayerNames g)(lowercase_name := None),
           mappedPlayerGuids := (mappedPlayerGuids g)(pl_guid p := None),
           wildcardTree := remove_name (wildcardTree g) lowercase_name,
           players := ps,
           playersOnline := length ps\<rparr>)"

section \<open>The players online\<close>

definition online_players :: "objects \<Rightarrow> Registry \<Rightarrow> PlayerInfo set" where
  "online_players H g = {p. H (pl_id p) = Some p \<and> pl_id p \<in> fst ` set (players g)}"

abbreviation key_name :: "PlayerInfo \<Rightarrow> string" where
  "key_name p \<equiv> asLowerCaseString (pl_name p)"

text \<open>
  The decision of \<open>ProtocolGame::login\<close> to make a new player: nobody is found for the character, or the one
  found is an account manager, or the server allows clones. The name of the new player is free of any
  check: it comes from the database, or is \<open>Account Manager\<close> for a name that is locked.
\<close>

definition login_admitted :: "bool \<Rightarrow> objects \<Rightarrow> Registry \<Rightarrow> u32 \<Rightarrow> bool" where
  "login_admitted allowClones H g guid =
     (case getPlayerByGUID H g guid of
        None \<Rightarrow> True
      | Some r \<Rightarrow> (case H r of None \<Rightarrow> False | Some q \<Rightarrow> pl_name q = ''Account Manager'') \<or> allowClones)"

text \<open>
  The states a server reaches: a new player object with an identifier of its own logs in for a character
  that is admitted, a player online logs out, and logins are reserved and released.
\<close>

inductive registry_reachable :: "bool \<Rightarrow> objects \<Rightarrow> Registry \<Rightarrow> bool" for clones and H where
  start: "registry_reachable clones H (empty_registry r)"
| login: "registry_reachable clones H g \<Longrightarrow> H (pl_id p) = Some p \<Longrightarrow> p \<notin> online_players H g \<Longrightarrow>
    pl_name p \<noteq> [] \<Longrightarrow> login_admitted clones H g (pl_guid p) \<Longrightarrow>
    addPlayer H p g = Some g' \<Longrightarrow> registry_reachable clones H g'"
| logout: "registry_reachable clones H g \<Longrightarrow> p \<in> online_players H g \<Longrightarrow>
    registry_reachable clones H (removePlayer p g)"
| reserve: "registry_reachable clones H g \<Longrightarrow> registry_reachable clones H (snd (reserveLogin guid g))"
| release: "registry_reachable clones H g \<Longrightarrow> registry_reachable clones H (releaseLogin guid g)"

text \<open>
  The players that hold their name: those the map of names leads to. A second player of the same name
  takes it over, and the first of the two to log out leaves nobody with it. Where each name belongs to
  one character and no character is shared, every player online holds his name.
\<close>

definition holders :: "objects \<Rightarrow> Registry \<Rightarrow> PlayerInfo set" where
  "holders H g = {p \<in> online_players H g. mappedPlayerNames g (key_name p) = Some (pl_id p)}"

definition own_names :: "objects \<Rightarrow> bool" where
  "own_names H \<longleftrightarrow>
     (\<forall>p q. H (pl_id p) = Some p \<longrightarrow> H (pl_id q) = Some q \<longrightarrow> key_name p = key_name q \<longrightarrow>
        pl_guid p = pl_guid q) \<and>
     (\<forall>p. H (pl_id p) = Some p \<longrightarrow> pl_guid p \<noteq> 0 \<and> pl_name p \<noteq> ''Account Manager'')"

definition indexed :: "(PlayerInfo \<Rightarrow> 'k) \<Rightarrow> PlayerInfo set \<Rightarrow> ('k \<rightharpoonup> u32) \<Rightarrow> bool" where
  "indexed f P m \<longleftrightarrow> (\<forall>k i. m k = Some i \<longleftrightarrow> (\<exists>p \<in> P. f p = k \<and> pl_id p = i))"

definition registry_ok :: "objects \<Rightarrow> Registry \<Rightarrow> bool" where
  "registry_ok H g \<longleftrightarrow>
     (\<forall>(i, r) \<in> set (players g). r = i \<and> (\<exists>p. H i = Some p \<and> pl_id p = i)) \<and>
     distinct (map fst (players g)) \<and>
     indexed key_name (holders H g) (mappedPlayerNames g) \<and>
     shape (wildcardTree g) \<and> names (wildcardTree g) = key_name ` holders H g \<and>
     [] \<notin> names (wildcardTree g) \<and>
     playersOnline g = length (players g)"

definition one_each :: "objects \<Rightarrow> Registry \<Rightarrow> bool" where
  "one_each H g \<longleftrightarrow> holders H g = online_players H g \<and>
     indexed pl_guid (online_players H g) (mappedPlayerGuids g)"

lemma online_unique: "p \<in> online_players H g \<Longrightarrow> q \<in> online_players H g \<Longrightarrow> pl_id p = pl_id q \<Longrightarrow> p = q"
  by (auto simp: online_players_def)

lemma holders_online: "holders H g \<subseteq> online_players H g"
  by (auto simp: holders_def)

lemma indexed_lookup: "indexed f P m \<Longrightarrow> p \<in> P \<Longrightarrow> m (f p) = Some (pl_id p)"
  by (auto simp: indexed_def)

lemma indexed_SomeD: "indexed f P m \<Longrightarrow> m k = Some i \<Longrightarrow> \<exists>p \<in> P. f p = k"
  by (auto simp: indexed_def)

lemma indexed_injective:
  "indexed f P m \<Longrightarrow> P \<subseteq> online_players H g \<Longrightarrow> p \<in> P \<Longrightarrow> q \<in> P \<Longrightarrow> f p = f q \<Longrightarrow> p = q"
  by (metis indexed_lookup online_unique option.inject subsetD)

lemma indexed_insert:
  "indexed f P m \<Longrightarrow> indexed f (insert p {q \<in> P. f q \<noteq> f p}) (m(f p \<mapsto> pl_id p))"
  unfolding indexed_def by auto

lemma indexed_remove: "indexed f P m \<Longrightarrow> indexed f {q \<in> P. f q \<noteq> k} (m(k := None))"
  unfolding indexed_def by auto

lemma others_remove:
  "inj_on f P \<Longrightarrow> p \<in> P \<Longrightarrow> {q \<in> P. f q \<noteq> f p} = P - {p}"
  by (auto simp: inj_on_def)

lemma registry_ok_start: "registry_ok H (empty_registry r) \<and> one_each H (empty_registry r)"
  by (simp add: registry_ok_def one_each_def holders_def empty_registry_def online_players_def indexed_def names_def)

lemma checkPlayersRecord_fields [simp]:
  "mappedPlayerNames (checkPlayersRecord g) = mappedPlayerNames g"
  "mappedPlayerGuids (checkPlayersRecord g) = mappedPlayerGuids g"
  "wildcardTree (checkPlayersRecord g) = wildcardTree g"
  "players (checkPlayersRecord g) = players g"
  "playersOnline (checkPlayersRecord g) = playersOnline g"
  by (simp_all add: checkPlayersRecord_def)

lemma asLowerCaseString_simps [simp]:
  "asLowerCaseString (asLowerCaseString s) = asLowerCaseString s"
  "asLowerCaseString s = [] \<longleftrightarrow> s = []" "[] = asLowerCaseString s \<longleftrightarrow> s = []"
  "asLowerCaseString [] = []" "length (asLowerCaseString s) = length s"
  by (simp_all add: asLowerCaseString_def toLowerCaseString_def)

lemma addPlayer_fields:
  assumes "H (pl_id p) = Some p" and "addPlayer H p g = Some g'"
  obtains t where "insert_name (wildcardTree g) (key_name p) = Some t"
    and "mappedPlayerNames g' = (mappedPlayerNames g)(key_name p \<mapsto> pl_id p)"
    and "mappedPlayerGuids g' = (mappedPlayerGuids g)(pl_guid p \<mapsto> pl_id p)"
    and "wildcardTree g' = t" and "players g' = assign (pl_id p) (pl_id p) (players g)"
    and "playersOnline g' = length (players g')"
  using assms by (auto simp: addPlayer_def lock_ref_def Let_def split: option.splits)

lemma login_online:
  assumes "H (pl_id p) = Some p" and "addPlayer H p g = Some g'"
  shows "online_players H g' = insert p (online_players H g)"
proof -
  have "players g' = assign (pl_id p) (pl_id p) (players g)" using addPlayer_fields[OF assms] .
  with assms(1) show ?thesis by (auto simp: online_players_def keys_assign)
qed

lemma login_holders:
  assumes "H (pl_id p) = Some p" and "p \<notin> online_players H g" and "addPlayer H p g = Some g'"
  shows "holders H g' = insert p {q \<in> holders H g. key_name q \<noteq> key_name p}"
proof -
  have m: "mappedPlayerNames g' = (mappedPlayerNames g)(key_name p \<mapsto> pl_id p)"
    using addPlayer_fields[OF assms(1,3)] .
  have "pl_id q \<noteq> pl_id p" if "q \<in> online_players H g" for q
    using that assms(1,2) unfolding online_players_def by (metis (mono_tags, lifting) mem_Collect_eq option.inject)
  then show ?thesis unfolding holders_def m login_online[OF assms(1,3)] by force
qed

lemma registry_ok_login:
  assumes ok: "registry_ok H g" and p: "H (pl_id p) = Some p" "p \<notin> online_players H g" "pl_name p \<noteq> []"
    and add: "addPlayer H p g = Some g'"
  shows "registry_ok H g'"
proof -
  obtain t where t: "insert_name (wildcardTree g) (key_name p) = Some t"
    and g': "mappedPlayerNames g' = (mappedPlayerNames g)(key_name p \<mapsto> pl_id p)" "wildcardTree g' = t"
      "players g' = assign (pl_id p) (pl_id p) (players g)" "playersOnline g' = length (players g')"
    using addPlayer_fields[OF p(1) add] by metis
  have "shape t" "names t = insert (key_name p) (names (wildcardTree g))"
    using wct.ins_laws[OF _ t] ok by (auto simp: registry_ok_def)
  moreover have "indexed key_name (holders H g') (mappedPlayerNames g')"
    using ok unfolding login_holders[OF p(1,2) add] g' by (intro indexed_insert) (simp add: registry_ok_def)
  moreover have "insert (key_name p) (key_name ` holders H g) = key_name ` holders H g'"
    unfolding login_holders[OF p(1,2) add] by auto
  moreover have "[] \<notin> insert (key_name p) (names (wildcardTree g))"
    using ok p(3) unfolding registry_ok_def insert_iff by (metis asLowerCaseString_simps(3))
  ultimately show ?thesis using ok p(1)
    by (auto simp: registry_ok_def g' simp del: asLowerCaseString_simps(2,3) dest!: set_assign[THEN subsetD])
qed

lemma fst_erase: "distinct (map fst m) \<Longrightarrow> fst ` set (erase k m) = fst ` set m - {k}"
  by (induction k m rule: erase.induct) auto

lemma logout_online:
  assumes "registry_ok H g" and "p \<in> online_players H g"
  shows "online_players H (removePlayer p g) = online_players H g - {p}"
  using assms by (auto simp: online_players_def removePlayer_def Let_def fst_erase registry_ok_def)

lemma logout_holders:
  assumes ok: "registry_ok H g" and p: "p \<in> online_players H g"
  shows "holders H (removePlayer p g) = {q \<in> holders H g. key_name q \<noteq> key_name p}"
  unfolding holders_def logout_online[OF assms] by (auto simp: removePlayer_def Let_def)

lemma registry_ok_logout:
  assumes ok: "registry_ok H g" and p: "p \<in> online_players H g"
  shows "registry_ok H (removePlayer p g)"
proof -
  let ?t = "remove_name (wildcardTree g) (key_name p)"
  have t: "shape ?t" "names ?t = key_name ` holders H (removePlayer p g)" "[] \<notin> names ?t"
    using wct.rem_laws[of "wildcardTree g" "key_name p"] ok
    unfolding logout_holders[OF assms] by (auto simp: registry_ok_def)
  have "\<forall>(i, r) \<in> set (erase (pl_id p) (players g)). r = i \<and> (\<exists>p. H i = Some p \<and> pl_id p = i)"
    using ok set_erase unfolding registry_ok_def by fast
  moreover have "indexed key_name (holders H (removePlayer p g)) ((mappedPlayerNames g)(key_name p := None))"
    using ok unfolding logout_holders[OF assms] by (intro indexed_remove) (simp add: registry_ok_def)
  ultimately show ?thesis using ok t
    by (simp add: registry_ok_def removePlayer_def Let_def)
qed

lemma registry_ok_pending:
  "registry_ok H (g\<lparr>pendingLogins := X\<rparr>) = registry_ok H g" "one_each H (g\<lparr>pendingLogins := X\<rparr>) = one_each H g"
  by (simp_all add: registry_ok_def one_each_def holders_def online_players_def)

lemma registry_invariant: "registry_reachable clones H g \<Longrightarrow> registry_ok H g"
proof (induction rule: registry_reachable.induct)
  case (login g p g')
  then show ?case using registry_ok_login by blast
qed (simp_all add: registry_ok_start registry_ok_logout registry_ok_pending reserveLogin_def releaseLogin_def)

lemma one_each_login:
  assumes own: "own_names H" and one: "one_each H g"
    and p: "H (pl_id p) = Some p" "p \<notin> online_players H g" and adm: "login_admitted False H g (pl_guid p)"
    and add: "addPlayer H p g = Some g'"
  shows "one_each H g'"
proof -
  have guid: "\<forall>q \<in> online_players H g. pl_guid q \<noteq> pl_guid p"
  proof
    fix q assume q: "q \<in> online_players H g"
    then have "mappedPlayerGuids g (pl_guid q) = Some (pl_id q)" and Hq: "H (pl_id q) = Some q"
      using one by (auto simp: one_each_def online_players_def intro: indexed_lookup)
    moreover have "pl_guid q \<noteq> 0" "pl_name q \<noteq> ''Account Manager''"
      using own Hq unfolding own_names_def by blast+
    ultimately show "pl_guid q \<noteq> pl_guid p"
      using adm by (auto simp: login_admitted_def getPlayerByGUID_def lock_ref_def)
  qed
  then have names: "\<forall>q \<in> online_players H g. key_name q \<noteq> key_name p"
    using own p(1) unfolding own_names_def online_players_def by blast
  have "indexed pl_guid (insert p (online_players H g)) ((mappedPlayerGuids g)(pl_guid p \<mapsto> pl_id p))"
    using indexed_insert[of pl_guid "online_players H g" "mappedPlayerGuids g" p] one guid
    by (simp add: one_each_def Collect_conj_eq[symmetric] cong: conj_cong)
  moreover have "mappedPlayerGuids g' = (mappedPlayerGuids g)(pl_guid p \<mapsto> pl_id p)"
    by (rule addPlayer_fields[OF p(1) add])
  moreover have "{q \<in> holders H g. key_name q \<noteq> key_name p} = online_players H g"
    using one names by (auto simp: one_each_def)
  ultimately show ?thesis
    by (simp add: one_each_def login_holders[OF p add] login_online[OF p(1) add])
qed

lemma one_each_logout:
  assumes ok: "registry_ok H g" and one: "one_each H g" and p: "p \<in> online_players H g"
  shows "one_each H (removePlayer p g)"
proof -
  let ?P = "online_players H g"
  have ix: "indexed key_name ?P (mappedPlayerNames g)" "indexed pl_guid ?P (mappedPlayerGuids g)"
    using ok one by (simp_all add: registry_ok_def one_each_def)
  have "inj_on key_name ?P" "inj_on pl_guid ?P"
    by (auto intro: inj_onI indexed_injective[OF ix(1)] indexed_injective[OF ix(2)])
  then have "{q \<in> ?P. key_name q \<noteq> key_name p} = ?P - {p}" "{q \<in> ?P. pl_guid q \<noteq> pl_guid p} = ?P - {p}"
    using others_remove[OF _ p, of key_name] others_remove[OF _ p, of pl_guid] by simp_all
  with indexed_remove[OF ix(2), of "pl_guid p"] one show ?thesis
    by (simp add: one_each_def logout_holders[OF ok p] logout_online[OF ok p])
      (simp add: removePlayer_def Let_def)
qed

lemma no_clones_one_each:
  assumes "registry_reachable clones H g" and "\<not> clones" and own: "own_names H"
  shows "one_each H g"
  using assms(1)
proof (induction rule: registry_reachable.induct)
  case (login g p g')
  then show ?case using one_each_login[OF own] assms(2) by simp
next
  case (logout g p)
  then show ?case using one_each_logout registry_invariant by blast
qed (simp_all add: registry_ok_start registry_ok_pending reserveLogin_def releaseLogin_def)

section \<open>Lookups\<close>

definition name_matches :: "PlayerInfo set \<Rightarrow> string \<Rightarrow> PlayerInfo set" where
  "name_matches P s = {p \<in> P. prefix (asLowerCaseString s) (key_name p)}"

lemma getPlayerByName_online:
  assumes "registry_ok H g" and "p \<in> holders H g" and "asLowerCaseString s = key_name p"
  shows "getPlayerByName H g s = Some (pl_id p)"
proof -
  have "mappedPlayerNames g (key_name p) = Some (pl_id p)"
    using assms(1,2) by (auto simp: registry_ok_def intro: indexed_lookup)
  moreover have "H (pl_id p) = Some p" using assms(2) by (simp add: holders_def online_players_def)
  moreover have "pl_name p \<noteq> []"
    using assms(1,2) by (auto simp: registry_ok_def image_iff)
  moreover from this have "s \<noteq> []" using assms(3) by auto
  ultimately show ?thesis using assms(3) by (simp add: getPlayerByName_def lock_ref_def)
qed

lemma getPlayerByName_offline:
  assumes "registry_ok H g" and "asLowerCaseString s \<notin> key_name ` holders H g"
  shows "getPlayerByName H g s = None"
proof -
  have "mappedPlayerNames g (asLowerCaseString s) = None"
  proof (cases "mappedPlayerNames g (asLowerCaseString s)")
    case (Some i)
    then obtain p where "p \<in> holders H g" "key_name p = asLowerCaseString s"
      using assms(1) indexed_SomeD[of key_name "holders H g"] unfolding registry_ok_def by metis
    then have "asLowerCaseString s \<in> key_name ` holders H g" by (metis imageI)
    with assms(2) show ?thesis by simp
  qed
  then show ?thesis by (simp add: getPlayerByName_def)
qed

lemma matches_names:
  assumes "registry_ok H g"
  shows "matches (names (wildcardTree g)) (asLowerCaseString s) = key_name ` name_matches (holders H g) s"
  using assms by (auto simp: matches_def name_matches_def registry_ok_def)

lemma wildcard_empty:
  assumes ok: "registry_ok H g" and "holders H g = {}" and "length s < PLAYER_NAME_LENGTH"
  shows "getPlayerByNameWildcard H g (s @ ''~'') = (RETURNVALUE_PLAYERWITHTHISNAMEISNOTONLINE, None)"
proof -
  have "getPlayerByName H g r = None" for r using getPlayerByName_offline[OF ok] assms(2) by auto
  moreover have "fst (findOne t q r) \<in> {RETURNVALUE_PLAYERWITHTHISNAMEISNOTONLINE, RETURNVALUE_NOERROR}"
    if "names t = {}" "shape t" for t q r
  proof -
    have "follow u r = (RETURNVALUE_NOERROR, r)" if "\<not> alive u" for u r
      using that by (cases u) (auto simp: alive_def)
    moreover have "\<not> alive t" using that alive_has_name[of t] by (auto simp: names_def)
    ultimately show ?thesis using that findOne_spec[of t q r]
      by (cases q) (simp_all add: findOne_def matches_def)
  qed
  moreover have "names (wildcardTree g) = {}" "shape (wildcardTree g)"
    using ok assms(2) by (simp_all add: registry_ok_def)
  ultimately have "fst (findOne (wildcardTree g) (asLowerCaseString s) [])
      \<in> {RETURNVALUE_PLAYERWITHTHISNAMEISNOTONLINE, RETURNVALUE_NOERROR}"
    "getPlayerByName H g r = None" for r by blast+
  then show ?thesis using assms(3)
    by (cases "findOne (wildcardTree g) (asLowerCaseString s) []") (auto simp: getPlayerByNameWildcard_def)
qed

lemma wildcard_nonempty:
  assumes ok: "registry_ok H g" and ne: "holders H g \<noteq> {}" and len: "length s < PLAYER_NAME_LENGTH"
  defines "M \<equiv> name_matches (holders H g) s"
  shows "M = {} \<and> getPlayerByNameWildcard H g (s @ ''~'') = (RETURNVALUE_PLAYERWITHTHISNAMEISNOTONLINE, None) \<or>
    (\<exists>p. M = {p} \<and> getPlayerByNameWildcard H g (s @ ''~'') = (RETURNVALUE_NOERROR, Some (pl_id p))) \<or>
    (\<exists>p q. p \<noteq> q \<and> {p, q} \<subseteq> M \<and> getPlayerByNameWildcard H g (s @ ''~'') = (RETURNVALUE_NAMEISTOOAMBIGUOUS, None))"
    (is "?A \<or> ?B \<or> ?C")
proof -
  let ?t = "wildcardTree g" and ?q = "asLowerCaseString s"
  have t: "shape ?t" "?q \<noteq> [] \<or> names ?t \<noteq> {}" using ok ne by (auto simp: registry_ok_def)
  have inj: "inj_on key_name M"
    using ok indexed_injective[OF _ holders_online] unfolding M_def name_matches_def registry_ok_def inj_on_def by blast
  note f = getPlayerByNameWildcard_def Let_def PLAYER_NAME_LENGTH_def
  from findOne_spec[OF t, of "[]"] show ?thesis unfolding matches_names[OF ok] M_def[symmetric]
  proof (elim disjE exE conjE)
    assume "key_name ` M = {}" "findOne ?t ?q [] = (RETURNVALUE_PLAYERWITHTHISNAMEISNOTONLINE, [])"
    then show ?thesis using len by (intro disjI1) (auto simp: f)
  next
    fix n assume n: "key_name ` M = {n}" "findOne ?t ?q [] = (RETURNVALUE_NOERROR, n)"
    then obtain p where p: "p \<in> M" "key_name p = n" by blast
    with n(1) inj have M: "M = {p}" by (auto simp: inj_on_def)
    have "getPlayerByName H g n = Some (pl_id p)"
      using p by (intro getPlayerByName_online[OF ok]) (auto simp: M_def name_matches_def)
    with n(2) M len show ?thesis by (intro disjI2 disjI1 exI[of _ p]) (auto simp: f)
  next
    fix n n' assume n: "n \<noteq> n'" "{n, n'} \<subseteq> key_name ` M" "fst (findOne ?t ?q []) = RETURNVALUE_NAMEISTOOAMBIGUOUS"
    then obtain p q where "p \<in> M" "q \<in> M" "p \<noteq> q" by auto
    with n(3) len show ?thesis
      by (intro disjI2 exI[of _ p] exI[of _ q]) (auto simp: f split: prod.splits)
  qed
qed

definition wildcard_answer :: "PlayerInfo set \<Rightarrow> ReturnValue \<times> u32 option" where
  "wildcard_answer M =
     (if M = {} then (RETURNVALUE_PLAYERWITHTHISNAMEISNOTONLINE, None)
      else if is_singleton M then (RETURNVALUE_NOERROR, Some (pl_id (the_elem M)))
      else (RETURNVALUE_NAMEISTOOAMBIGUOUS, None))"

lemma wildcard_answer_two: "p \<noteq> q \<Longrightarrow> {p, q} \<subseteq> M \<Longrightarrow> wildcard_answer M = (RETURNVALUE_NAMEISTOOAMBIGUOUS, None)"
proof -
  assume *: "p \<noteq> q" "{p, q} \<subseteq> M"
  have "\<not> is_singleton M"
  proof
    assume "is_singleton M"
    then obtain x where "M = {x}" by (rule is_singletonE)
    with * show False by simp
  qed
  with * show ?thesis by (auto simp: wildcard_answer_def)
qed

text \<open>
  With clones a player online can lose his name: the first of the two who logs out takes it along.
\<close>

lemma clone_loses_name:
  assumes ok: "registry_ok H g" and q: "q \<in> online_players H g"
    and p: "H (pl_id p) = Some p" "p \<notin> online_players H g" "pl_name p \<noteq> []" "key_name p = key_name q"
    and add: "addPlayer H p g = Some g'"
  shows "q \<in> online_players H (removePlayer p g') \<and> q \<notin> holders H (removePlayer p g') \<and>
    getPlayerByName H (removePlayer p g') (pl_name q) = None"
proof -
  have ok': "registry_ok H g'" by (rule registry_ok_login[OF ok p(1-3) add])
  have p': "p \<in> online_players H g'" by (simp add: login_online[OF p(1) add])
  have "key_name q \<notin> key_name ` holders H (removePlayer p g')"
    unfolding logout_holders[OF ok' p'] using p(4) by auto
  with getPlayerByName_offline[OF registry_ok_logout[OF ok' p'], of "pl_name q"] q p(2)
  show ?thesis by (auto simp: logout_online[OF ok' p'] login_online[OF p(1) add])
qed

text \<open>
  Claim C2. In every state the server reaches, asking for a name that ends in a tilde finds the one
  player whose name starts with the part before it, whatever the case; no player gives the "not
  online" code and several the "ambiguous" code. Asked are the players online that hold their name.
  These are all players online as long as clones are not allowed, a name belongs to one character and
  nobody plays a shared account manager; otherwise the theorem says who is still found, and
  \<open>clone_loses_name\<close> who is not.
\<close>

theorem wildcard_lookup:
  assumes "registry_reachable clones H g" and "length s < PLAYER_NAME_LENGTH"
  shows "getPlayerByNameWildcard H g (s @ ''~'') = wildcard_answer (name_matches (holders H g) s) \<and>
    holders H g \<subseteq> online_players H g \<and>
    (\<not> clones \<and> own_names H \<longrightarrow> holders H g = online_players H g)"
proof (intro conjI impI)
  note ok = registry_invariant[OF assms(1)]
  show "getPlayerByNameWildcard H g (s @ ''~'') = wildcard_answer (name_matches (holders H g) s)"
  proof (cases "holders H g = {}")
    case True
    with wildcard_empty[OF ok True assms(2)] show ?thesis by (simp add: wildcard_answer_def name_matches_def)
  next
    case False
    from wildcard_nonempty[OF ok False assms(2)] show ?thesis
      by (elim disjE exE conjE) (simp_all add: wildcard_answer_two, simp_all add: wildcard_answer_def)
  qed
qed (simp_all add: holders_online no_clones_one_each[OF assms(1), unfolded one_each_def])

definition abel :: PlayerInfo where
  "abel = \<lparr>pl_id = 1, pl_guid = 11, pl_name = ''Abel''\<rparr>"

definition abel_objects :: objects where
  "abel_objects = [1 \<mapsto> abel]"

lemma abel_own: "own_names abel_objects"
  by (auto simp: own_names_def abel_objects_def abel_def split: if_splits)

lemma abel_online:
  "\<exists>g. registry_reachable False abel_objects g \<and> online_players abel_objects g = {abel}"
proof -
  let ?g = "empty_registry 0"
  have none: "online_players abel_objects ?g = {}" by (simp add: online_players_def empty_registry_def)
  obtain g where g: "addPlayer abel_objects abel ?g = Some g"
    by (auto simp: addPlayer_def abel_objects_def abel_def lock_ref_def Let_def empty_registry_def
        asLowerCaseString_def toLowerCaseString_def addChild_simps)
  have *: "abel_objects (pl_id abel) = Some abel" "pl_name abel \<noteq> []"
    by (simp_all add: abel_objects_def abel_def)
  have "login_admitted False abel_objects ?g (pl_guid abel)"
    by (simp add: login_admitted_def getPlayerByGUID_def empty_registry_def)
  then have "registry_reachable False abel_objects g"
    using registry_reachable.login[OF registry_reachable.start *(1) _ *(2) _ g] none by simp
  moreover have "online_players abel_objects g = {abel}"
    using login_online[OF *(1) g] none by simp
  ultimately show ?thesis by blast
qed

theorem wildcard_lookup_witness:
  "\<exists>g. registry_reachable False abel_objects g \<and> own_names abel_objects \<and> length ''aB'' < PLAYER_NAME_LENGTH \<and>
     online_players abel_objects g = {abel} \<and>
     getPlayerByNameWildcard abel_objects g (''aB'' @ ''~'') = (RETURNVALUE_NOERROR, Some 1)"
proof -
  obtain g where g: "registry_reachable False abel_objects g" "online_players abel_objects g = {abel}"
    using abel_online by blast
  have l: "length ''aB'' < PLAYER_NAME_LENGTH" by (simp add: PLAYER_NAME_LENGTH_def)
  have "prefix (asLowerCaseString ''aB'') (key_name abel)" by code_simp
  then have "{p. p = abel \<and> prefix (asLowerCaseString ''aB'') (key_name p)} = {abel}" by auto
  then have "name_matches {abel} ''aB'' = {abel}" by (simp add: name_matches_def)
  with wildcard_lookup[OF g(1) l] g abel_own
  have "getPlayerByNameWildcard abel_objects g (''aB'' @ ''~'') = (RETURNVALUE_NOERROR, Some (pl_id abel))"
    by (simp add: wildcard_answer_def)
  with g l abel_own show ?thesis by (intro exI[of _ g]) (simp add: abel_def)
qed

end
