(* ===== verification/MatrixAreas.thy ===== *)
theory MatrixAreas
  imports TFS_Prelude
begin

text \<open>
  The matrices that describe the area of a spell (matrixarea.h, matrixarea.cpp): a row-major vector of
  flags, its dimensions, and the centre, from which offsets are counted. The loops fill a fresh vector
  cell by cell. Dimensions are natural numbers (the vectors have far fewer than \<open>2^32\<close> entries, so
  the index arithmetic does not wrap); the centre is a pair of 32-bit words, whose differences may wrap.
  An access outside a vector is undefined in the source; \<open>createArea\<close>, the only operation that can
  run into one, then has the result \<open>None\<close>.
\<close>

record MatrixArea =
  arr :: "u8 list"
  center :: "u32 \<times> u32"
  rows :: nat
  cols :: nat

definition new_area :: "nat \<Rightarrow> nat \<Rightarrow> MatrixArea" where
  "new_area r c = \<lparr>arr = replicate (r * c) 0, center = (0, 0), rows = r, cols = c\<rparr>"

definition cell :: "MatrixArea \<Rightarrow> nat \<Rightarrow> nat \<Rightarrow> u8" where
  "cell a row col = arr a ! (row * cols a + col)"

definition setCenter :: "u32 \<Rightarrow> u32 \<Rightarrow> MatrixArea \<Rightarrow> MatrixArea" where
  "setCenter y x a = a\<lparr>center := (x, y)\<rparr>"

definition for_cells :: "MatrixArea \<Rightarrow> (nat \<times> nat) list" where
  "for_cells a = List.product [0..<rows a] [0..<cols a]"

definition flip :: "MatrixArea \<Rightarrow> MatrixArea" where
  "flip a =
     (let newArr = fold (\<lambda>(row, col) new. new[row * cols a + col := arr a ! ((rows a - row - 1) * cols a + col)])
                     (for_cells a) (replicate (length (arr a)) 0);
          (centerX, centerY) = center a
      in \<lparr>arr = newArr, center = (centerX, of_nat (rows a) - centerY - 1), rows = rows a, cols = cols a\<rparr>)"

definition mirror :: "MatrixArea \<Rightarrow> MatrixArea" where
  "mirror a =
     (let newArr = fold (\<lambda>(row, col) new. new[row * cols a + col := arr a ! (row * cols a + (cols a - col - 1))])
                     (for_cells a) (replicate (length (arr a)) 0);
          (centerX, centerY) = center a
      in \<lparr>arr = newArr, center = (of_nat (cols a) - centerX - 1, centerY), rows = rows a, cols = cols a\<rparr>)"

text \<open>\<open>transpose\<close> reads through the \<open>bool\<close> valued access operator, so every flag becomes 0 or 1.\<close>

definition transpose_area :: "MatrixArea \<Rightarrow> MatrixArea" where
  "transpose_area a =
     (let newArr = fold (\<lambda>(row, col) new. new[col * rows a + row := (if cell a row col \<noteq> 0 then 1 else 0)])
                     (for_cells a) (replicate (length (arr a)) 0);
          (centerX, centerY) = center a
      in \<lparr>arr = newArr, center = (centerY, centerX), rows = cols a, cols = rows a\<rparr>)"

definition rotate90 :: "MatrixArea \<Rightarrow> MatrixArea" where
  "rotate90 a =
     (let newArr = fold (\<lambda>(row, col) new. new[col * rows a + (rows a - row - 1) := arr a ! (row * cols a + col)])
                     (for_cells a) (replicate (length (arr a)) 0);
          (centerX, centerY) = center a
      in \<lparr>arr = newArr, center = (of_nat (rows a) - centerY - 1, centerX), rows = cols a, cols = rows a\<rparr>)"

definition rotate180 :: "MatrixArea \<Rightarrow> MatrixArea" where
  "rotate180 a =
     (let (centerX, centerY) = center a
      in \<lparr>arr = rev (arr a), center = (of_nat (cols a) - centerX - 1, of_nat (rows a) - centerY - 1),
          rows = rows a, cols = cols a\<rparr>)"

definition rotate270 :: "MatrixArea \<Rightarrow> MatrixArea" where
  "rotate270 a =
     (let newArr = fold (\<lambda>(row, col) new. new[(cols a - col - 1) * rows a + row := arr a ! (row * cols a + col)])
                     (for_cells a) (replicate (length (arr a)) 0);
          (centerX, centerY) = center a
      in \<lparr>arr = newArr, center = (centerY, of_nat (cols a) - centerX - 1), rows = cols a, cols = rows a\<rparr>)"

fun fill_area :: "u32 list \<Rightarrow> nat \<Rightarrow> nat \<Rightarrow> MatrixArea \<Rightarrow> MatrixArea option" where
  "fill_area [] y x a = Some a"
| "fill_area (value # vec) y x a =
     (let index = y * cols a + x in
      if (value = 1 \<or> value = 3) \<and> \<not> index < length (arr a) then None
      else
        let a = (if value = 1 \<or> value = 3 then a\<lparr>arr := (arr a)[index := 1]\<rparr> else a);
            a = (if value = 2 \<or> value = 3 then setCenter (of_nat y) (of_nat x) a else a);
            x = x + 1;
            (x, y) = (if cols a = x then (0, y + 1) else (x, y))
        in fill_area vec y x a)"

definition createArea :: "u32 list \<Rightarrow> nat \<Rightarrow> MatrixArea option" where
  "createArea vec r =
     (let c = (if r = 0 then 0 else length vec div r) in fill_area vec 0 0 (new_area r c))"

section \<open>Filling a vector by index\<close>

lemma length_fold_update [simp]: "length (fold (\<lambda>(i, j) l. l[f i j := v i j]) xs l) = length l"
  by (induction xs arbitrary: l) auto

lemma fold_update_other:
  "k \<notin> (\<lambda>(i, j). f i j) ` set xs \<Longrightarrow> fold (\<lambda>(i, j) l. l[f i j := v i j]) xs l ! k = l ! k"
  by (induction xs arbitrary: l) auto

lemma fold_update_nth:
  assumes "inj_on (\<lambda>(i, j). f i j) (set xs)" and "distinct xs"
    and "(i, j) \<in> set xs" and "f i j < length l"
  shows "fold (\<lambda>(i, j) l. l[f i j := v i j]) xs l ! f i j = v i j"
  using assms
proof (induction xs arbitrary: l)
  case (Cons x xs)
  show ?case
  proof (cases "(i, j) \<in> set xs")
    case True
    with Cons show ?thesis by (auto split: prod.splits)
  next
    case False
    with Cons.prems have x: "x = (i, j)" and "f i j \<notin> (\<lambda>(i, j). f i j) ` set xs"
      by (auto simp: inj_on_def)
    with Cons.prems(4) show ?thesis by (simp add: fold_update_other)
  qed
qed simp

lemma row_major_inj: "j < n \<Longrightarrow> j' < n \<Longrightarrow> i * n + j = i' * n + (j' :: nat) \<longleftrightarrow> i = i' \<and> j = j'"
  by (metis add.commute div_mult_self3 less_nat_zero_code div_less add_right_imp_eq plus_nat.add_0)

lemma row_major_bound: "i < m \<Longrightarrow> j < n \<Longrightarrow> i * n + j < m * (n :: nat)"
  by (metis add.commute add_less_cancel_left less_le_trans mult_Suc mult_le_mono1 Suc_leI)

lemma row_major_cases:
  assumes "k < m * (n :: nat)"
  obtains i j where "i < m" "j < n" "k = i * n + j"
  using assms by (metis add.commute div_mult_mod_eq less_mult_imp_div_less mod_less_divisor mult.commute mult_is_0 not_less_zero gr0I)

section \<open>Well-formed areas and their cells\<close>

definition area_ok :: "MatrixArea \<Rightarrow> bool" where
  "area_ok a \<longleftrightarrow> length (arr a) = rows a * cols a \<and> rows a < 2 ^ 32 \<and> cols a < 2 ^ 32 \<and>
     (rows a * cols a \<noteq> 0 \<longrightarrow> unat (fst (center a)) < cols a \<and> unat (snd (center a)) < rows a)"

lemma area_eqI:
  assumes "area_ok a" "area_ok b" "rows a = rows b" "cols a = cols b" "center a = center b"
    and "\<And>i j. i < rows a \<Longrightarrow> j < cols a \<Longrightarrow> cell a i j = cell b i j"
  shows "a = b"
proof -
  have "arr a = arr b"
  proof (rule nth_equalityI)
    fix k assume "k < length (arr a)"
    then have "k < rows a * cols a" using assms(1) by (simp add: area_ok_def)
    then obtain i j where "i < rows a" "j < cols a" "k = i * cols a + j" by (rule row_major_cases)
    with assms(4,6) show "arr a ! k = arr b ! k" by (simp add: cell_def)
  qed (use assms in \<open>simp add: area_ok_def\<close>)
  with assms show ?thesis by simp
qed

lemma word_complement:
  assumes "unat (c :: u32) < n" and "n < 2 ^ 32"
  shows "unat (of_nat n - c - 1) = n - unat c - 1"
proof -
  have e: "of_nat n - c - 1 = (of_nat (n - unat c - 1) :: u32)"
    using assms by (simp add: of_nat_diff)
  show ?thesis unfolding e by (rule unat_of_nat_lt) (use assms in simp)
qed

lemma for_cells_facts [simp]: "distinct (for_cells a)" "(i, j) \<in> set (for_cells a) \<longleftrightarrow> i < rows a \<and> j < cols a"
  by (auto simp: for_cells_def distinct_product)

lemma filled_nth:
  assumes "area_ok a" and "inj_on (\<lambda>(i, j). f i j) (set (for_cells a))"
    and "i < rows a" "j < cols a" and "f i j < rows a * cols a"
  shows "fold (\<lambda>(i, j) l. l[f i j := v i j]) (for_cells a) (replicate (length (arr a)) 0) ! f i j = v i j"
  using assms by (intro fold_update_nth) (auto simp: area_ok_def)

lemma shape_simps [simp]:
  "rows (flip a) = rows a" "cols (flip a) = cols a" "rows (mirror a) = rows a" "cols (mirror a) = cols a"
  "rows (transpose_area a) = cols a" "cols (transpose_area a) = rows a"
  "rows (rotate90 a) = cols a" "cols (rotate90 a) = rows a"
  "rows (rotate180 a) = rows a" "cols (rotate180 a) = cols a"
  "rows (rotate270 a) = cols a" "cols (rotate270 a) = rows a"
  by (simp_all add: flip_def mirror_def transpose_area_def rotate90_def rotate180_def rotate270_def Let_def split: prod.splits)

lemma center_simps [simp]:
  "center (flip a) = (fst (center a), of_nat (rows a) - snd (center a) - 1)"
  "center (mirror a) = (of_nat (cols a) - fst (center a) - 1, snd (center a))"
  "center (transpose_area a) = (snd (center a), fst (center a))"
  "center (rotate90 a) = (of_nat (rows a) - snd (center a) - 1, fst (center a))"
  "center (rotate180 a) = (of_nat (cols a) - fst (center a) - 1, of_nat (rows a) - snd (center a) - 1)"
  "center (rotate270 a) = (snd (center a), of_nat (cols a) - fst (center a) - 1)"
  by (simp_all add: flip_def mirror_def transpose_area_def rotate90_def rotate180_def rotate270_def Let_def split: prod.splits)

lemma length_simps [simp]:
  "length (arr (flip a)) = length (arr a)" "length (arr (mirror a)) = length (arr a)"
  "length (arr (transpose_area a)) = length (arr a)" "length (arr (rotate90 a)) = length (arr a)"
  "length (arr (rotate180 a)) = length (arr a)" "length (arr (rotate270 a)) = length (arr a)"
  by (simp_all add: flip_def mirror_def transpose_area_def rotate90_def rotate180_def rotate270_def Let_def split: prod.splits)

lemma area_ok_ops [simp]:
  assumes "area_ok a"
  shows "area_ok (flip a)" "area_ok (mirror a)" "area_ok (transpose_area a)"
    "area_ok (rotate90 a)" "area_ok (rotate180 a)" "area_ok (rotate270 a)"
  using assms by (auto simp: area_ok_def word_complement mult.commute)

lemma inj_on_row_major:
  fixes f g :: "nat \<Rightarrow> nat \<Rightarrow> nat"
  assumes "\<And>i j. i < rows a \<Longrightarrow> j < cols a \<Longrightarrow> g i j < n"
    and "\<And>i j i' j'. i < rows a \<Longrightarrow> j < cols a \<Longrightarrow> i' < rows a \<Longrightarrow> j' < cols a \<Longrightarrow>
           f i j = f i' j' \<Longrightarrow> g i j = g i' j' \<Longrightarrow> i = i' \<and> j = j'"
  shows "inj_on (\<lambda>(i, j). f i j * n + g i j) (set (for_cells a))"
proof (rule inj_onI)
  fix x y assume xy: "x \<in> set (for_cells a)" "y \<in> set (for_cells a)"
    and eq: "(\<lambda>(i, j). f i j * n + g i j) x = (\<lambda>(i, j). f i j * n + g i j) y"
  obtain i j i' j' where [simp]: "x = (i, j)" "y = (i', j')" by (cases x; cases y)
  have b: "i < rows a" "j < cols a" "i' < rows a" "j' < cols a" using xy by auto
  have "f i j * n + g i j = f i' j' * n + g i' j'" using eq by (simp only: \<open>x = _\<close> \<open>y = _\<close> prod.case)
  with row_major_inj[OF assms(1)[OF b(1,2)] assms(1)[OF b(3,4)]] assms(2)[OF b] show "x = y" by simp
qed

lemma inj_cells:
  "inj_on (\<lambda>(i, j). i * cols a + j) (set (for_cells a))"
  "inj_on (\<lambda>(i, j). j * rows a + i) (set (for_cells a))"
  "inj_on (\<lambda>(i, j). j * rows a + (rows a - i - 1)) (set (for_cells a))"
  "inj_on (\<lambda>(i, j). (cols a - j - 1) * rows a + i) (set (for_cells a))"
  by (rule inj_on_row_major; linarith)+

lemma turned_bound: "area_ok a \<Longrightarrow> j < cols a \<Longrightarrow> i < rows a \<Longrightarrow> j * rows a + i < rows a * cols a"
  using row_major_bound[of j "cols a" i "rows a"] by (simp add: mult.commute)

lemma cell_flip: "area_ok a \<Longrightarrow> i < rows a \<Longrightarrow> j < cols a \<Longrightarrow> cell (flip a) i j = cell a (rows a - i - 1) j"
  using filled_nth[of a "\<lambda>i j. i * cols a + j" i j "\<lambda>i j. arr a ! ((rows a - i - 1) * cols a + j)"]
  by (auto simp: cell_def flip_def Let_def inj_cells row_major_bound split: prod.splits)

lemma cell_mirror: "area_ok a \<Longrightarrow> i < rows a \<Longrightarrow> j < cols a \<Longrightarrow> cell (mirror a) i j = cell a i (cols a - j - 1)"
  using filled_nth[of a "\<lambda>i j. i * cols a + j" i j "\<lambda>i j. arr a ! (i * cols a + (cols a - j - 1))"]
  by (auto simp: cell_def mirror_def Let_def inj_cells row_major_bound split: prod.splits)

lemma cell_transpose:
  assumes "area_ok a" "i < rows a" "j < cols a"
  shows "cell (transpose_area a) j i = (if cell a i j \<noteq> 0 then 1 else 0)"
  unfolding cell_def[of "transpose_area a"]
  using filled_nth[OF assms(1) inj_cells(2) assms(2,3) turned_bound[OF assms(1,3,2)],
      where v = "\<lambda>i j. if cell a i j \<noteq> 0 then 1 else 0"]
  by (simp add: transpose_area_def Let_def split: prod.splits split del: if_split)

lemma cell_rotate90_src:
  assumes "area_ok a" "i < rows a" "j < cols a"
  shows "cell (rotate90 a) j (rows a - i - 1) = cell a i j"
proof -
  have "rows a - i - 1 < rows a" using assms(2) by simp
  from filled_nth[OF assms(1) inj_cells(3) assms(2,3) turned_bound[OF assms(1,3) this]] show ?thesis
    by (simp only: cell_def rotate90_def Let_def split: prod.splits) (simp del: add_diff_assoc add_diff_assoc2)
qed

lemma cell_rotate270_src:
  assumes "area_ok a" "i < rows a" "j < cols a"
  shows "cell (rotate270 a) (cols a - j - 1) i = cell a i j"
proof -
  have "cols a - j - 1 < cols a" using assms(3) by simp
  from filled_nth[OF assms(1) inj_cells(4) assms(2,3) turned_bound[OF assms(1) this assms(2)]] show ?thesis
    by (simp only: cell_def rotate270_def Let_def split: prod.splits) simp
qed

lemma cell_rotate90: "area_ok a \<Longrightarrow> i < cols a \<Longrightarrow> j < rows a \<Longrightarrow> cell (rotate90 a) i j = cell a (rows a - j - 1) i"
  using cell_rotate90_src[of a "rows a - j - 1" i] by simp

lemma cell_rotate270: "area_ok a \<Longrightarrow> i < cols a \<Longrightarrow> j < rows a \<Longrightarrow> cell (rotate270 a) i j = cell a j (cols a - i - 1)"
  using cell_rotate270_src[of a j "cols a - i - 1"] by simp

lemma cell_rotate180:
  assumes "area_ok a" "i < rows a" "j < cols a"
  shows "cell (rotate180 a) i j = cell a (rows a - i - 1) (cols a - j - 1)"
proof -
  have "i * cols a + j < rows a * cols a" by (rule row_major_bound[OF assms(2,3)])
  moreover have "rows a * cols a - Suc (i * cols a + j) = (rows a - i - 1) * cols a + (cols a - j - 1)"
  proof -
    have "rows a * cols a = (rows a - i - 1) * cols a + Suc i * cols a"
      using assms(2) by (metis add_mult_distrib Suc_leI le_add_diff_inverse2 diff_diff_left plus_1_eq_Suc add.commute)
    with assms(3) show ?thesis by simp
  qed
  ultimately show ?thesis
    using assms(1) by (simp add: cell_def rotate180_def area_ok_def rev_nth split: prod.splits)
qed

lemmas cell_ops = cell_flip cell_mirror cell_rotate90 cell_rotate180 cell_rotate270

section \<open>The laws of the rotations\<close>

lemma rotate180_is_twice: "area_ok a \<Longrightarrow> rotate180 a = rotate90 (rotate90 a)"
  by (rule area_eqI) (auto simp: cell_ops)

lemma rotate90_270: "area_ok a \<Longrightarrow> rotate270 (rotate90 a) = a" "area_ok a \<Longrightarrow> rotate90 (rotate270 a) = a"
  by (rule area_eqI; auto simp: cell_ops)+

lemma flip_mirror: "area_ok a \<Longrightarrow> flip (mirror a) = rotate180 a"
  by (rule area_eqI) (auto simp: cell_ops)

text \<open>
  The rotations and reflections of an area satisfy the laws of the symmetries of a rectangle:
  \<open>rotate90\<close> and \<open>rotate270\<close> are inverse, \<open>rotate180\<close> is \<open>rotate90\<close> twice, four quarter turns change
  nothing, and flipping a mirrored area is half a turn.
\<close>

theorem rotation_laws:
  assumes "area_ok a"
  shows "rotate270 (rotate90 a) = a \<and> rotate90 (rotate270 a) = a \<and> rotate180 a = rotate90 (rotate90 a) \<and>
    rotate90 (rotate90 (rotate90 (rotate90 a))) = a \<and> flip (mirror a) = rotate180 a \<and>
    flip (flip a) = a \<and> mirror (mirror a) = a"
proof (intro conjI)
  show "rotate90 (rotate90 (rotate90 (rotate90 a))) = a" "flip (flip a) = a" "mirror (mirror a) = a"
    by (rule area_eqI; use assms in \<open>auto simp: cell_ops\<close>)+
qed (use assms rotate180_is_twice rotate90_270 flip_mirror in auto)

theorem rotation_laws_witness:
  "area_ok \<lparr>arr = [1, 0, 0, 1, 1, 0], center = (2, 1), rows = 2, cols = 3\<rparr> \<and>
   rotate270 (rotate90 \<lparr>arr = [1, 0, 0, 1, 1, 0], center = (2, 1), rows = 2, cols = 3\<rparr>)
     = \<lparr>arr = [1, 0, 0, 1, 1, 0], center = (2, 1), rows = 2, cols = 3\<rparr>"
proof -
  let ?a = "\<lparr>arr = [1, 0, 0, 1, 1, 0], center = (2, 1), rows = 2, cols = 3\<rparr>"
  have "area_ok ?a" by (simp add: area_ok_def)
  with rotation_laws[OF this] show ?thesis by blast
qed

section \<open>The offsets an area covers\<close>

definition hits :: "MatrixArea \<Rightarrow> (int \<times> int) set" where
  "hits a = {(int col - uint (fst (center a)), int row - uint (snd (center a))) | row col.
     row < rows a \<and> col < cols a \<and> cell a row col \<noteq> 0}"

lemma hits_iff:
  "(dx, dy) \<in> hits a \<longleftrightarrow> (\<exists>row col. row < rows a \<and> col < cols a \<and> cell a row col \<noteq> 0 \<and>
     dx = int col - uint (fst (center a)) \<and> dy = int row - uint (snd (center a)))"
  by (auto simp: hits_def)

lemma uint_complement:
  "unat (c :: u32) < n \<Longrightarrow> n < 2 ^ 32 \<Longrightarrow> uint (of_nat n - c - 1) = int n - uint c - 1"
  unfolding uint_nat by (simp only: word_complement)

lemma center_bounds:
  assumes "area_ok a" "row < rows a" "col < cols a"
  shows "unat (fst (center a)) < cols a" "unat (snd (center a)) < rows a" "rows a < 2 ^ 32" "cols a < 2 ^ 32"
  using assms by (auto simp: area_ok_def)

lemma hits_rotate90: "area_ok a \<Longrightarrow> (dx, dy) \<in> hits a \<Longrightarrow> (- dy, dx) \<in> hits (rotate90 a)"
  unfolding hits_iff
proof (elim exE conjE)
  fix row col
  assume "area_ok a" "row < rows a" "col < cols a" "cell a row col \<noteq> 0"
    "dx = int col - uint (fst (center a))" "dy = int row - uint (snd (center a))"
  moreover from this have "rows a - row - 1 < rows a" by simp
  ultimately show "\<exists>row col. row < rows (rotate90 a) \<and> col < cols (rotate90 a) \<and> cell (rotate90 a) row col \<noteq> 0 \<and>
    - dy = int col - uint (fst (center (rotate90 a))) \<and> dx = int row - uint (snd (center (rotate90 a)))"
    using center_bounds[of a row col]
    by (intro exI[of _ col] exI[of _ "rows a - row - 1"]) (simp add: cell_rotate90 uint_complement of_nat_diff)
qed

lemma hits_mirror: "area_ok a \<Longrightarrow> (dx, dy) \<in> hits a \<Longrightarrow> (- dx, dy) \<in> hits (mirror a)"
  unfolding hits_iff
proof (elim exE conjE)
  fix row col
  assume "area_ok a" "row < rows a" "col < cols a" "cell a row col \<noteq> 0"
    "dx = int col - uint (fst (center a))" "dy = int row - uint (snd (center a))"
  moreover from this have "cols a - col - 1 < cols a" by simp
  ultimately show "\<exists>row col. row < rows (mirror a) \<and> col < cols (mirror a) \<and> cell (mirror a) row col \<noteq> 0 \<and>
    - dx = int col - uint (fst (center (mirror a))) \<and> dy = int row - uint (snd (center (mirror a)))"
    using center_bounds[of a row col]
    by (intro exI[of _ row] exI[of _ "cols a - col - 1"]) (simp add: cell_mirror uint_complement of_nat_diff)
qed

lemma hits_rotate90_eq: "area_ok a \<Longrightarrow> hits (rotate90 a) = (\<lambda>(dx, dy). (- dy, dx)) ` hits a"
proof (intro set_eqI iffI)
  fix p assume a: "area_ok a" and "p \<in> hits (rotate90 a)"
  moreover obtain x y where p: "p = (x, y)" by (cases p)
  ultimately have "(- x, - y) \<in> hits (rotate90 (rotate90 (rotate90 a)))"
    using hits_rotate90[of "rotate90 a" x y] hits_rotate90[of "rotate90 (rotate90 a)" "- y" x] by simp
  then have "(y, - x) \<in> hits (rotate90 (rotate90 (rotate90 (rotate90 a))))"
    using hits_rotate90[of "rotate90 (rotate90 (rotate90 a))" "- x" "- y"] a by simp
  moreover have "rotate90 (rotate90 (rotate90 (rotate90 a))) = a"
    by (rule area_eqI) (use a in \<open>auto simp: cell_ops\<close>)
  ultimately show "p \<in> (\<lambda>(dx, dy). (- dy, dx)) ` hits a"
    using p by (intro image_eqI[of _ _ "(y, - x)"]) simp_all
next
  fix p assume "area_ok a" "p \<in> (\<lambda>(dx, dy). (- dy, dx)) ` hits a"
  then show "p \<in> hits (rotate90 a)" using hits_rotate90[of a] by (elim imageE) (simp split: prod.splits)
qed

lemma hits_rotate180_eq: "area_ok a \<Longrightarrow> hits (rotate180 a) = (\<lambda>(dx, dy). (- dx, - dy)) ` hits a"
  by (simp add: rotate180_is_twice hits_rotate90_eq image_image case_prod_beta)

lemma hits_rotate270_eq:
  assumes "area_ok a"
  shows "hits (rotate270 a) = (\<lambda>(dx, dy). (dy, - dx)) ` hits a"
proof -
  have "rotate270 a = rotate90 (rotate180 a)"
    by (rule area_eqI) (use assms in \<open>auto simp: cell_ops\<close>)
  with assms show ?thesis by (simp add: hits_rotate90_eq hits_rotate180_eq image_image case_prod_beta)
qed

lemma hits_mirror_eq: "area_ok a \<Longrightarrow> hits (mirror a) = (\<lambda>(dx, dy). (- dx, dy)) ` hits a"
proof (intro set_eqI iffI)
  fix p assume a: "area_ok a" and "p \<in> hits (mirror a)"
  moreover have "mirror (mirror a) = a" by (rule area_eqI) (use a in \<open>auto simp: cell_ops\<close>)
  ultimately show "p \<in> (\<lambda>(dx, dy). (- dx, dy)) ` hits a"
    using hits_mirror[of "mirror a" "fst p" "snd p"] by (intro image_eqI[of _ _ "(- fst p, snd p)"]) simp_all
next
  fix p assume "area_ok a" "p \<in> (\<lambda>(dx, dy). (- dx, dy)) ` hits a"
  then show "p \<in> hits (mirror a)" using hits_mirror[of a] by (elim imageE) (simp split: prod.splits)
qed

lemma hits_flip_eq:
  assumes "area_ok a"
  shows "hits (flip a) = (\<lambda>(dx, dy). (dx, - dy)) ` hits a"
proof -
  have "flip a = mirror (rotate180 a)"
    by (rule area_eqI) (use assms in \<open>auto simp: cell_ops\<close>)
  with assms show ?thesis by (simp add: hits_mirror_eq hits_rotate180_eq image_image case_prod_beta)
qed

lemmas hits_ops = hits_rotate90_eq hits_rotate180_eq hits_rotate270_eq hits_mirror_eq hits_flip_eq

section \<open>Reading an area from a list\<close>

definition flag :: "u32 \<Rightarrow> u8" where
  "flag v = (if v = 1 \<or> v = 3 then 1 else 0)"

definition filled_center :: "nat \<Rightarrow> u32 list \<Rightarrow> nat \<Rightarrow> u32 \<times> u32 \<Rightarrow> u32 \<times> u32" where
  "filled_center c vec k z =
     fold (\<lambda>i z. if vec ! i = 2 \<or> vec ! i = 3 then (of_nat ((k + i) mod c), of_nat ((k + i) div c)) else z)
       [0..<length vec] z"

lemma filled_center_Cons:
  "filled_center c (v # vec) k z = filled_center c vec (Suc k)
     (if v = 2 \<or> v = 3 then (of_nat (k mod c), of_nat (k div c)) else z)"
  unfolding filled_center_def
  by (simp add: upt_rec[of 0] map_Suc_upt[symmetric] fold_map comp_def del: upt_Suc)

definition put_cell :: "u32 \<Rightarrow> nat \<Rightarrow> nat \<Rightarrow> MatrixArea \<Rightarrow> MatrixArea" where
  "put_cell v y x a =
     (let b = (if v = 1 \<or> v = 3 then a\<lparr>arr := (arr a)[y * cols a + x := 1]\<rparr> else a)
      in if v = 2 \<or> v = 3 then setCenter (of_nat y) (of_nat x) b else b)"

lemma put_cell_simps [simp]:
  "cols (put_cell v y x a) = cols a" "rows (put_cell v y x a) = rows a"
  "length (arr (put_cell v y x a)) = length (arr a)"
  by (auto simp: put_cell_def Let_def setCenter_def)

lemma fill_area_step:
  "\<not> (v \<in> {1, 3} \<and> length (arr a) \<le> y * cols a + x) \<Longrightarrow>
   fill_area (v # vec) y x a =
     (if cols a = Suc x then fill_area vec (Suc y) 0 (put_cell v y x a)
      else fill_area vec y (Suc x) (put_cell v y x a))"
  by (auto simp: Let_def put_cell_def setCenter_def)

lemma fill_area_within:
  assumes "length (arr a) = rows a * cols a" and "x < cols a"
    and "y * cols a + x + length vec \<le> length (arr a)"
    and "\<forall>i \<ge> y * cols a + x. i < length (arr a) \<longrightarrow> arr a ! i = 0"
  shows "fill_area vec y x a = Some (a\<lparr>
    arr := take (y * cols a + x) (arr a) @ map flag vec @ drop (y * cols a + x + length vec) (arr a),
    center := filled_center (cols a) vec (y * cols a + x) (center a)\<rparr>)"
  using assms
proof (induction vec arbitrary: y x a)
  case Nil
  then show ?case by (simp add: filled_center_def)
next
  case (Cons v vec)
  let ?k = "y * cols a + x"
  let ?a = "a\<lparr>arr := (arr a)[?k := flag v],
    center := (if v = 2 \<or> v = 3 then (of_nat x, of_nat y) else center a)\<rparr>"
  obtain y' x' where yx: "(x', y') = (if cols a = Suc x then (0, Suc y) else (Suc x, y))" by metis
  have k': "y' * cols a + x' = Suc ?k" and x': "x' < cols a"
    using yx Cons.prems(2) by (auto split: if_splits)
  have k: "?k < length (arr a)" "arr a ! ?k = 0" using Cons.prems(3,4) by auto
  have step: "fill_area (v # vec) y x a = fill_area vec y' x' ?a"
    using k yx list_update_id[of "arr a" ?k]
    by (auto simp: Let_def flag_def setCenter_def simp del: list_update_id split: if_splits)
  have "fill_area vec y' x' ?a = Some (?a\<lparr>
    arr := take (Suc ?k) (arr ?a) @ map flag vec @ drop (Suc ?k + length vec) (arr ?a),
    center := filled_center (cols a) vec (Suc ?k) (center ?a)\<rparr>)"
    using Cons.IH[of ?a x' y'] Cons.prems x' k' by simp
  moreover have "?k mod cols a = x" "?k div cols a = y" using Cons.prems(2) by auto
  ultimately show ?case
    unfolding step using k(1)
    by (simp add: filled_center_Cons take_Suc_conv_app_nth upd_conv_take_nth_drop add.commute)
qed

definition rectangular :: "u32 list \<Rightarrow> nat \<Rightarrow> bool" where
  "rectangular vec r \<longleftrightarrow> 0 < r \<and> r dvd length vec \<and> vec \<noteq> [] \<and> length vec < 2 ^ 32"

lemma rectangularE:
  assumes "rectangular vec r"
  obtains c where "0 < c" "length vec = r * c" "length vec div r = c" "r < 2 ^ 32" "c < 2 ^ 32" "0 < r"
proof -
  from assms obtain c where c: "length vec = r * c" "0 < r" "r * c < 2 ^ 32" "vec \<noteq> []"
    by (auto simp: rectangular_def elim!: dvdE)
  then have "0 < c" by (cases c) auto
  then have "r * 1 \<le> r * c" "1 * c \<le> r * c" using c(2) by (intro mult_le_mono; simp)+
  then have "r < 2 ^ 32" "c < 2 ^ 32" using c(3) by linarith+
  with c \<open>0 < c\<close> show ?thesis by (intro that[of c]) simp_all
qed

lemma filled_center_bounds:
  assumes "0 < c" and "r < 2 ^ 32" "c < 2 ^ 32"
  shows "k + length vec \<le> r * c \<Longrightarrow> unat (fst z) < c \<and> unat (snd z) < r \<Longrightarrow>
    unat (fst (filled_center c vec k z)) < c \<and> unat (snd (filled_center c vec k z)) < r"
proof (induction vec arbitrary: k z)
  case (Cons v vec)
  have *: "k mod c < c" "k div c < r"
    using Cons.prems(1) assms(1) by (auto intro: less_mult_imp_div_less)
  moreover have "k mod c < 2 ^ 32" "k div c < 2 ^ 32" using * assms(2,3) by linarith+
  ultimately have "unat (of_nat (k mod c) :: u32) < c \<and> unat (of_nat (k div c) :: u32) < r"
    using unat_of_nat_lt[where 'a = 32, of "k mod c"] unat_of_nat_lt[where 'a = 32, of "k div c"] by simp
  with Cons show ?case by (simp add: filled_center_Cons)
qed (simp add: filled_center_def)

lemma createArea_rectangular:
  assumes "rectangular vec r"
  shows "createArea vec r = Some \<lparr>arr = map flag vec, center = filled_center (length vec div r) vec 0 (0, 0),
    rows = r, cols = length vec div r\<rparr>"
proof -
  from assms obtain c where c: "0 < c" "length vec = r * c" "length vec div r = c" "0 < r" by (rule rectangularE)
  have "fill_area vec 0 0 (new_area r c) = Some ((new_area r c)\<lparr>arr := map flag vec,
      center := filled_center c vec 0 (0, 0)\<rparr>)"
    using fill_area_within[of "new_area r c" 0 0 vec] c by (simp add: new_area_def)
  with c show ?thesis by (simp add: createArea_def new_area_def)
qed

lemma createArea_ok:
  assumes "rectangular vec r" and "createArea vec r = Some a"
  shows "area_ok a \<and> rows a = r \<and> cols a = length vec div r"
proof -
  from assms(1) obtain c where "0 < c" "length vec = r * c" "length vec div r = c" "r < 2 ^ 32" "c < 2 ^ 32" "0 < r"
    by (rule rectangularE)
  then show ?thesis
    using assms(2) createArea_rectangular[OF assms(1)] filled_center_bounds[of c r 0 vec "(0, 0)"]
    by (auto simp: area_ok_def)
qed

lemma fill_area_None:
  "fill_area vec y x a = None \<longleftrightarrow> (\<exists>i < length vec. length (arr a) \<le> y * cols a + x + i \<and> vec ! i \<in> {1, 3})"
proof (induction vec arbitrary: y x a)
  case (Cons v vec)
  let ?k = "y * cols a + x" and ?L = "length (arr a)"
  have split: "(\<exists>i < Suc n. ?L \<le> ?k + i \<and> (v # vec) ! i \<in> {1, 3}) \<longleftrightarrow>
      (?L \<le> ?k \<and> v \<in> {1, 3}) \<or> (\<exists>i < n. ?L \<le> Suc ?k + i \<and> vec ! i \<in> {1, 3})" for n
    by (simp add: Ex_less_Suc2)
  obtain y' x' where yx: "(x', y') = (if cols a = Suc x then (0, Suc y) else (Suc x, y))" by metis
  then have k': "y' * cols a + x' = Suc ?k" by (auto split: if_splits)
  have step: "fill_area (v # vec) y x a = fill_area vec y' x' (put_cell v y x a)" if "\<not> (v \<in> {1, 3} \<and> ?L \<le> ?k)"
    unfolding fill_area_step[OF that] using yx by (auto split: if_splits)
  show ?case
  proof (cases "v \<in> {1, 3} \<and> ?L \<le> ?k")
    case True
    then have "fill_area (v # vec) y x a = None" by (auto simp: Let_def)
    with True show ?thesis unfolding length_Cons split by blast
  next
    case False
    show ?thesis
      unfolding step[OF False] Cons.IH length_Cons split put_cell_simps k' using False by auto
  qed
qed simp

text \<open>
  \<open>createArea\<close> stays inside the matrix exactly when no value beyond the last full row sets a
  flag. Rows of different length, which the caller does not rule out, make it write behind the vector.
\<close>

theorem createArea_out_of_bounds:
  "createArea vec r = None \<longleftrightarrow> (\<exists>i < length vec. r * (length vec div r) \<le> i \<and> vec ! i \<in> {1, 3})"
  by (auto simp: createArea_def Let_def fill_area_None new_area_def)

end
