(* ===== verification/AreaCombats.thy ===== *)
theory AreaCombats
  imports MatrixAreas Positions "HOL-Library.Signed_Division"
begin

text \<open>
  The areas of a combat (\<open>AreaCombat\<close> and \<open>getList\<close>, \<open>getCombatArea\<close> of combat.cpp): one matrix per
  direction, made from one drawn shape by rotation, and the tiles that a shape covers on the map.
  The set of existing tiles is threaded through \<open>getList\<close>, which creates the tiles it misses;
  \<open>isSightClear\<close> of the game is an argument. Setting an area up is \<open>None\<close> when \<open>createArea\<close> leaves
  its matrix. Divisions of signed numbers truncate as in C++ (\<open>sdiv\<close>, \<open>smod\<close>).
\<close>

record AreaCombat =
  areas :: "MatrixArea list"
  hasExtArea :: bool

definition new_AreaCombat :: AreaCombat where
  "new_AreaCombat = \<lparr>areas = [], hasExtArea = False\<rparr>"

definition empty_area :: MatrixArea where
  "empty_area = \<lparr>arr = [], center = (0, 0), rows = 0, cols = 0\<rparr>"

abbreviation dir_index :: "Direction \<Rightarrow> nat" where
  "dir_index d \<equiv> unat (direction_code d)"

definition area_direction :: "bool \<Rightarrow> Position \<Rightarrow> Position \<Rightarrow> Direction" where
  "area_direction ext centerPos targetPos =
     (let dx = getOffsetX targetPos centerPos;
          dy = getOffsetY targetPos centerPos;
          dir = (if dx < 0 then DIRECTION_WEST
                 else if dx > 0 then DIRECTION_EAST
                 else if dy < 0 then DIRECTION_NORTH
                 else DIRECTION_SOUTH)
      in if ext
         then if dx < 0 \<and> dy < 0 then DIRECTION_NORTHWEST
              else if dx > 0 \<and> dy < 0 then DIRECTION_NORTHEAST
              else if dx < 0 \<and> dy > 0 then DIRECTION_SOUTHWEST
              else if dx > 0 \<and> dy > 0 then DIRECTION_SOUTHEAST
              else dir
         else dir)"

definition getArea :: "AreaCombat \<Rightarrow> Position \<Rightarrow> Position \<Rightarrow> MatrixArea" where
  "getArea ac centerPos targetPos =
     (let dir = area_direction (hasExtArea ac) centerPos targetPos
      in if dir_index dir \<ge> length (areas ac) then empty_area else areas ac ! dir_index dir)"

definition resize :: "nat \<Rightarrow> MatrixArea list \<Rightarrow> MatrixArea list" where
  "resize n xs = take n xs @ replicate (n - length xs) empty_area"

definition setupArea :: "u32 list \<Rightarrow> nat \<Rightarrow> AreaCombat \<Rightarrow> AreaCombat option" where
  "setupArea vec r ac =
     (case createArea vec r of
        None \<Rightarrow> None
      | Some area \<Rightarrow>
          let as = (if length (areas ac) = 0 then resize 4 (areas ac) else areas ac)
          in Some (ac\<lparr>areas := as[dir_index DIRECTION_EAST := rotate90 area,
                                   dir_index DIRECTION_SOUTH := rotate180 area,
                                   dir_index DIRECTION_WEST := rotate270 area,
                                   dir_index DIRECTION_NORTH := area]\<rparr>))"

definition setupExtArea :: "u32 list \<Rightarrow> nat \<Rightarrow> AreaCombat \<Rightarrow> AreaCombat option" where
  "setupExtArea vec r ac =
     (if vec = [] then Some ac
      else case createArea vec r of
          None \<Rightarrow> None
        | Some area \<Rightarrow>
            Some (ac\<lparr>hasExtArea := True,
              areas := (resize 8 (areas ac))[dir_index DIRECTION_NORTHEAST := mirror area,
                                             dir_index DIRECTION_SOUTHWEST := flip area,
                                             dir_index DIRECTION_SOUTHEAST := rotate180 area,
                                             dir_index DIRECTION_NORTHWEST := area]\<rparr>))"

section \<open>Shapes by length and spread\<close>

definition spread_line :: "nat \<Rightarrow> nat \<Rightarrow> int \<Rightarrow> int \<Rightarrow> u32 list" where
  "spread_line r y ncols colSpread =
     (let mincol = ncols - colSpread + 1; maxcol = ncols - (ncols - colSpread)
      in map (\<lambda>x. if y = r \<and> x = (ncols - ncols smod 2) sdiv 2 + 1 then 3
                  else if x \<ge> mincol \<and> x \<le> maxcol then 1 else 0) [1..ncols])"

fun spread_lines :: "nat list \<Rightarrow> nat \<Rightarrow> int \<Rightarrow> int \<Rightarrow> int \<Rightarrow> u32 list" where
  "spread_lines [] r ncols colSpread spread = []"
| "spread_lines (y # ys) r ncols colSpread spread =
     spread_line r y ncols colSpread @
     spread_lines ys r ncols (if spread > 0 \<and> y mod nat spread = 0 then colSpread - 1 else colSpread) spread"

definition spread_cols :: "int \<Rightarrow> int \<Rightarrow> int" where
  "spread_cols len spread =
     (if spread \<noteq> 0 then ((len - len smod spread) sdiv spread) * 2 + 1 else 1)"

definition setupArea_spread :: "int \<Rightarrow> int \<Rightarrow> AreaCombat \<Rightarrow> AreaCombat option" where
  "setupArea_spread len spread ac =
     (let r = nat (len mod 2 ^ 32);
          ncols = spread_cols len spread
      in setupArea (spread_lines [1..<Suc r] r ncols ncols spread) r ac)"

section \<open>Shapes by radius and ring\<close>

definition circle_table :: "int list" where
  "circle_table =
    [0, 0, 0, 0, 0, 0, 8, 0, 0, 0, 0, 0, 0,   0, 0, 0, 0, 8, 8, 7, 8, 8, 0, 0, 0, 0,
     0, 0, 0, 8, 7, 6, 6, 6, 7, 8, 0, 0, 0,   0, 0, 8, 7, 6, 5, 5, 5, 6, 7, 8, 0, 0,
     0, 8, 7, 6, 5, 4, 4, 4, 5, 6, 7, 8, 0,   0, 8, 6, 5, 4, 3, 2, 3, 4, 5, 6, 8, 0,
     8, 7, 6, 5, 4, 2, 1, 2, 4, 5, 6, 7, 8,   0, 8, 6, 5, 4, 3, 2, 3, 4, 5, 6, 8, 0,
     0, 8, 7, 6, 5, 4, 4, 4, 5, 6, 7, 8, 0,   0, 0, 8, 7, 6, 5, 5, 5, 6, 7, 8, 0, 0,
     0, 0, 0, 8, 7, 6, 6, 6, 7, 8, 0, 0, 0,   0, 0, 0, 0, 8, 8, 7, 8, 8, 0, 0, 0, 0,
     0, 0, 0, 0, 0, 0, 8, 0, 0, 0, 0, 0, 0]"

definition circle_vec :: "int \<Rightarrow> u32 list" where
  "circle_vec radius = map (\<lambda>cell. if cell = 1 then 3 else if cell > 0 \<and> cell \<le> radius then 1 else 0) circle_table"

definition setupArea_radius :: "int \<Rightarrow> AreaCombat \<Rightarrow> AreaCombat option" where
  "setupArea_radius radius ac = setupArea (circle_vec radius) 13 ac"

definition ring_table :: "int list" where
  "ring_table =
    [0, 0, 0, 0, 0, 7, 7, 7, 0, 0, 0, 0, 0,   0, 0, 0, 0, 7, 6, 6, 6, 7, 0, 0, 0, 0,
     0, 0, 0, 7, 6, 5, 5, 5, 6, 7, 0, 0, 0,   0, 0, 7, 6, 5, 4, 4, 4, 5, 6, 7, 0, 0,
     0, 7, 6, 5, 4, 3, 3, 3, 4, 5, 6, 7, 0,   7, 6, 5, 4, 3, 2, 0, 2, 3, 4, 5, 6, 7,
     7, 6, 5, 4, 3, 0, 1, 0, 3, 4, 5, 6, 7,   7, 6, 5, 4, 3, 2, 0, 2, 3, 4, 5, 6, 7,
     0, 7, 6, 5, 4, 3, 3, 3, 4, 5, 6, 7, 0,   0, 0, 7, 6, 5, 4, 4, 4, 5, 6, 7, 0, 0,
     0, 0, 0, 7, 6, 5, 5, 5, 6, 7, 0, 0, 0,   0, 0, 0, 0, 7, 6, 6, 6, 7, 0, 0, 0, 0,
     0, 0, 0, 0, 0, 7, 7, 7, 0, 0, 0, 0, 0]"

definition ring_vec :: "int \<Rightarrow> u32 list" where
  "ring_vec ring = map (\<lambda>cell. if cell = 1 then 3 else if cell > 0 \<and> cell = ring then 1 else 0) ring_table"

definition setupAreaRing :: "int \<Rightarrow> AreaCombat \<Rightarrow> AreaCombat option" where
  "setupAreaRing ring ac = setupArea (ring_vec ring) 13 ac"

section \<open>The tiles of an area\<close>

type_synonym sight = "Position \<Rightarrow> Position \<Rightarrow> bool"

fun list_cols :: "sight \<Rightarrow> Position \<Rightarrow> MatrixArea \<Rightarrow> nat \<Rightarrow> nat list \<Rightarrow> Position \<Rightarrow> Position set \<Rightarrow> Position list
    \<Rightarrow> Position \<times> Position set \<times> Position list" where
  "list_cols sight casterPos area row [] tmpPos tiles vec = (tmpPos, tiles, vec)"
| "list_cols sight casterPos area row (col # cs) tmpPos tiles vec =
     (let (tiles, vec) =
        (if cell area row col \<noteq> 0 \<and> sight casterPos tmpPos
         then (insert tmpPos tiles, vec @ [tmpPos]) else (tiles, vec))
      in list_cols sight casterPos area row cs (Position (pos_x tmpPos + 1) (pos_y tmpPos) (pos_z tmpPos)) tiles vec)"

fun list_rows :: "sight \<Rightarrow> Position \<Rightarrow> MatrixArea \<Rightarrow> nat list \<Rightarrow> Position \<Rightarrow> Position set \<Rightarrow> Position list
    \<Rightarrow> Position set \<times> Position list" where
  "list_rows sight casterPos area [] tmpPos tiles vec = (tiles, vec)"
| "list_rows sight casterPos area (row # rs) tmpPos tiles vec =
     (let (p, tiles, vec) = list_cols sight casterPos area row [0..<cols area] tmpPos tiles vec
      in list_rows sight casterPos area rs
           (Position (pos_x p - of_nat (cols area)) (pos_y p + 1) (pos_z p)) tiles vec)"

definition getList :: "sight \<Rightarrow> MatrixArea \<Rightarrow> Position \<Rightarrow> Direction \<Rightarrow> Position set \<Rightarrow> Position set \<times> Position list" where
  "getList sight area targetPos dir tiles =
     (let casterPos = getNextPosition dir targetPos;
          (cx, cy) = center area;
          tmpPos = Position (pos_x targetPos - ucast cx) (pos_y targetPos - ucast cy) (pos_z targetPos)
      in list_rows sight casterPos area [0..<rows area] tmpPos tiles [])"

definition MAP_MAX_LAYERS :: nat where
  "MAP_MAX_LAYERS = 16"

definition getCombatArea :: "sight \<Rightarrow> Position \<Rightarrow> Position \<Rightarrow> AreaCombat option \<Rightarrow> Position set
    \<Rightarrow> Position set \<times> Position list" where
  "getCombatArea sight centerPos targetPos area tiles =
     (if unat (pos_z targetPos) \<ge> MAP_MAX_LAYERS then (tiles, [])
      else case area of
          Some ac \<Rightarrow> getList sight (getArea ac centerPos targetPos) targetPos
                       (getDirectionTo targetPos centerPos True) tiles
        | None \<Rightarrow> (insert targetPos tiles, [targetPos]))"

section \<open>Every direction has the drawn shape, turned\<close>

text \<open>A shape is drawn for the north (for the north-west, if it is an extended one).\<close>

fun turn :: "Direction \<Rightarrow> int \<times> int \<Rightarrow> int \<times> int" where
  "turn DIRECTION_NORTH (x, y) = (x, y)"
| "turn DIRECTION_EAST (x, y) = (- y, x)"
| "turn DIRECTION_SOUTH (x, y) = (- x, - y)"
| "turn DIRECTION_WEST (x, y) = (y, - x)"
| "turn DIRECTION_NORTHWEST (x, y) = (x, y)"
| "turn DIRECTION_NORTHEAST (x, y) = (- x, y)"
| "turn DIRECTION_SOUTHWEST (x, y) = (x, - y)"
| "turn DIRECTION_SOUTHEAST (x, y) = (- x, - y)"
| "turn DIRECTION_NONE (x, y) = (x, y)"

definition straight :: "Direction \<Rightarrow> bool" where
  "straight d \<longleftrightarrow> d \<in> {DIRECTION_NORTH, DIRECTION_EAST, DIRECTION_SOUTH, DIRECTION_WEST}"

lemma area_direction_straight: "straight (area_direction False c t)"
  by (simp add: area_direction_def straight_def Let_def)

lemma area_direction_not_none: "area_direction e c t \<noteq> DIRECTION_NONE"
  by (simp add: area_direction_def Let_def)

lemma turn_lambda:
  "turn DIRECTION_NORTH = id" "turn DIRECTION_NORTHWEST = id"
  "turn DIRECTION_EAST = (\<lambda>(x, y). (- y, x))" "turn DIRECTION_SOUTH = (\<lambda>(x, y). (- x, - y))"
  "turn DIRECTION_WEST = (\<lambda>(x, y). (y, - x))" "turn DIRECTION_NORTHEAST = (\<lambda>(x, y). (- x, y))"
  "turn DIRECTION_SOUTHWEST = (\<lambda>(x, y). (x, - y))" "turn DIRECTION_SOUTHEAST = (\<lambda>(x, y). (- x, - y))"
  by (auto simp: fun_eq_iff)

lemma setupArea_areas:
  assumes "createArea vec r = Some a" and "area_ok a" and "length (areas ac) \<in> {0, 8}"
  shows "\<exists>ac'. setupArea vec r ac = Some ac' \<and> hasExtArea ac' = hasExtArea ac \<and>
     length (areas ac') \<ge> 4 \<and> (length (areas ac) = 8 \<longrightarrow> length (areas ac') = 8) \<and>
     (\<forall>d. straight d \<longrightarrow> hits (areas ac' ! dir_index d) = turn d ` hits a) \<and>
     (\<forall>i \<ge> 4. i < 8 \<longrightarrow> length (areas ac) = 8 \<longrightarrow> areas ac' ! i = areas ac ! i)"
  using assms
  by (auto simp: setupArea_def resize_def straight_def hits_ops turn_lambda nth_list_update)

lemma setupExtArea_areas:
  assumes "createArea vec r = Some a" and "area_ok a" and "vec \<noteq> []"
  shows "\<exists>ac'. setupExtArea vec r ac = Some ac' \<and> hasExtArea ac' \<and> length (areas ac') = 8 \<and>
     (\<forall>d. \<not> straight d \<longrightarrow> d \<noteq> DIRECTION_NONE \<longrightarrow> hits (areas ac' ! dir_index d) = turn d ` hits a)"
proof -
  have "hits ((resize 8 (areas ac))[7 := mirror a, 4 := flip a, 5 := rotate180 a, 6 := a] ! dir_index d) = turn d ` hits a"
    if "\<not> straight d" "d \<noteq> DIRECTION_NONE" for d
    using that assms(2)
    by (cases d) (simp_all add: straight_def hits_ops turn_lambda nth_list_update resize_def)
  with assms(1,3) show ?thesis by (simp add: setupExtArea_def resize_def)
qed

text \<open>
  A combat area set up from a rectangular drawing covers, for every caster and target, exactly
  the drawn offsets turned into the direction from the caster to the target.
\<close>

theorem directional_area:
  assumes "rectangular vec r" and "createArea vec r = Some a" and "setupArea vec r new_AreaCombat = Some ac"
  shows "hits (getArea ac centerPos targetPos) = turn (area_direction False centerPos targetPos) ` hits a"
proof -
  let ?d = "area_direction False centerPos targetPos"
  obtain ac' where ac: "setupArea vec r new_AreaCombat = Some ac'" "\<not> hasExtArea ac'" "4 \<le> length (areas ac')"
    and h: "\<forall>d. straight d \<longrightarrow> hits (areas ac' ! dir_index d) = turn d ` hits a"
    using setupArea_areas[OF assms(2), of new_AreaCombat] createArea_ok[OF assms(1,2)] by (auto simp: new_AreaCombat_def)
  have "straight ?d" by (rule area_direction_straight)
  then have "dir_index ?d < 4" by (auto simp: straight_def)
  with ac h assms(3) \<open>straight ?d\<close> show ?thesis by (simp add: getArea_def Let_def)
qed

theorem directional_area_witness:
  "\<exists>a ac. createArea [0, 1, 0, 0, 3, 0] 2 = Some a \<and> setupArea [0, 1, 0, 0, 3, 0] 2 new_AreaCombat = Some ac \<and>
     hits (getArea ac (Position 10 10 7) (Position 11 10 7)) = turn DIRECTION_EAST ` hits a"
proof -
  have r: "rectangular [0, 1, 0, 0, 3, 0] 2" by (simp add: rectangular_def)
  obtain a where a: "createArea [0, 1, 0, 0, 3, 0] 2 = Some a"
    using createArea_rectangular[OF r] by blast
  obtain ac where ac: "setupArea [0, 1, 0, 0, 3, 0] 2 new_AreaCombat = Some ac"
    using a by (simp add: setupArea_def)
  have "area_direction False (Position 10 10 7) (Position 11 10 7) = DIRECTION_EAST" by code_simp
  with directional_area[OF r a ac, of "Position 10 10 7" "Position 11 10 7"] a ac show ?thesis by auto
qed

section \<open>The tiles that are hit\<close>

definition shift :: "Position \<Rightarrow> int \<times> int \<Rightarrow> Position" where
  "shift p d = Position (pos_x p + of_int (fst d)) (pos_y p + of_int (snd d)) (pos_z p)"

fun seen_cols :: "sight \<Rightarrow> Position \<Rightarrow> MatrixArea \<Rightarrow> nat \<Rightarrow> nat list \<Rightarrow> Position \<Rightarrow> Position list" where
  "seen_cols sight caster area row [] p = []"
| "seen_cols sight caster area row (c # cs) p =
     (if cell area row c \<noteq> 0 \<and> sight caster p then [p] else []) @
     seen_cols sight caster area row cs (Position (pos_x p + 1) (pos_y p) (pos_z p))"

lemma list_cols_seen:
  "list_cols sight caster area row cs p tiles vec =
     (Position (pos_x p + of_nat (length cs)) (pos_y p) (pos_z p),
      tiles \<union> set (seen_cols sight caster area row cs p), vec @ seen_cols sight caster area row cs p)"
  by (induction sight caster area row cs p tiles vec rule: list_cols.induct) (auto simp: add.assoc)

lemma Collect_less_Suc:
  "{f j | j. j < Suc n \<and> P j} = (if P 0 then {f 0} else {}) \<union> {f (Suc j) | j. j < n \<and> P (Suc j)}"
  by (auto simp: less_Suc_eq_0_disj)

lemma set_seen_cols:
  "set (seen_cols sight caster area row [c..<c + n] (Position x y z)) =
     {Position (x + of_nat j) y z | j. j < n \<and> cell area row (c + j) \<noteq> 0 \<and> sight caster (Position (x + of_nat j) y z)}"
proof (induction n arbitrary: c x)
  case (Suc n)
  have u: "[c..<c + Suc n] = c # [Suc c..<Suc c + n]" by (simp add: upt_conv_Cons)
  show ?case
    unfolding u seen_cols.simps set_append Position.sel Suc[of "Suc c"] Collect_less_Suc
    by (simp add: add.assoc)
qed simp

lemma list_rows_seen:
  "list_rows sight caster area [r..<r + n] (Position x y z) tiles vec =
     (let ps = concat (map (\<lambda>i. seen_cols sight caster area (r + i) [0..<cols area] (Position x (y + of_nat i) z)) [0..<n])
      in (tiles \<union> set ps, vec @ ps))"
proof (induction n arbitrary: r y tiles vec)
  case (Suc n)
  have u: "[r..<r + Suc n] = r # [Suc r..<Suc r + n]" by (simp add: upt_conv_Cons)
  have v: "[0..<Suc n] = 0 # map Suc [0..<n]" by (simp add: map_Suc_upt upt_conv_Cons)
  have x: "x + of_nat (length [0..<cols area]) - of_nat (cols area) = x" by simp
  show ?case
    unfolding u v list_rows.simps list_cols_seen Let_def prod.case Position.sel x Suc.IH[of "Suc r", unfolded Let_def]
    by (simp add: comp_def add.assoc Un_assoc)
qed simp

text \<open>
  Claim C38. \<open>getList\<close> returns exactly the tiles at the offsets of the area that the caster can see, with
  coordinates computed modulo \<open>2^16\<close>, and creates no other tile than those.
\<close>

theorem getList_covers:
  "set (snd (getList sight area targetPos dir tiles)) =
     {p \<in> shift targetPos ` hits area. sight (getNextPosition dir targetPos) p} \<and>
   fst (getList sight area targetPos dir tiles) = tiles \<union> set (snd (getList sight area targetPos dir tiles))"
proof -
  obtain cx cy where c: "center area = (cx, cy)" by (cases "center area")
  let ?s = "sight (getNextPosition dir targetPos)"
  let ?x = "pos_x targetPos - ucast cx" and ?y = "pos_y targetPos - ucast cy" and ?z = "pos_z targetPos"
  let ?ps = "concat (map (\<lambda>i. seen_cols sight (getNextPosition dir targetPos) area i [0..<cols area]
    (Position ?x (?y + of_nat i) ?z)) [0..<rows area])"
  have g: "getList sight area targetPos dir tiles = (tiles \<union> set ?ps, ?ps)"
    using list_rows_seen[of sight _ area 0 "rows area"] by (simp add: getList_def c Let_def)
  have pos: "Position (?x + of_nat j) (?y + of_nat i) ?z = shift targetPos (int j - uint cx, int i - uint cy)" for i j
    by (simp add: shift_def word_of_int_uint[symmetric] del: word_of_int_uint)
  have "set ?ps = {Position (?x + of_nat j) (?y + of_nat i) ?z | i j. i < rows area \<and> j < cols area \<and>
      cell area i j \<noteq> 0 \<and> ?s (Position (?x + of_nat j) (?y + of_nat i) ?z)}"
    by (simp only: set_concat set_map image_image set_upt atLeast0LessThan
        set_seen_cols[where c = 0, unfolded plus_nat.add_0]) blast
  then have "set ?ps = {p \<in> shift targetPos ` hits area. ?s p}"
    unfolding pos by (auto simp: hits_def c)
  with g show ?thesis by (simp only: fst_conv snd_conv)
qed

section \<open>Round shapes look the same in every direction\<close>

definition shape_vec :: "int list \<Rightarrow> (int \<Rightarrow> bool) \<Rightarrow> u32 list" where
  "shape_vec T P = map (\<lambda>cell. if cell = 1 then 3 else if P cell then 1 else 0) T"

definition round_table :: "int list \<Rightarrow> bool" where
  "round_table T \<longleftrightarrow> length T = 169 \<and>
     list_all (\<lambda>(i, j). T ! (i * 13 + j) = T ! ((12 - j) * 13 + i)) (List.product [0..<13] [0..<13]) \<and>
     filter (\<lambda>k. T ! k = 1) [0..<169] = [84]"

lemma round_tables: "round_table circle_table" "round_table ring_table"
  by code_simp+

lemma shape_vecs:
  "circle_vec radius = shape_vec circle_table (\<lambda>c. c > 0 \<and> c \<le> radius)"
  "ring_vec ring = shape_vec ring_table (\<lambda>c. c > 0 \<and> c = ring)"
  by (simp_all add: circle_vec_def ring_vec_def shape_vec_def)

lemma shape_rectangular: "length T = 169 \<Longrightarrow> rectangular (shape_vec T P) 13"
  by (auto simp: rectangular_def shape_vec_def)

definition shape_area :: "int list \<Rightarrow> (int \<Rightarrow> bool) \<Rightarrow> MatrixArea" where
  "shape_area T P = \<lparr>arr = map (\<lambda>c. if c = 1 \<or> P c then 1 else 0) T, center = (6, 6), rows = 13, cols = 13\<rparr>"

lemma fold_if_filter: "fold (\<lambda>i z. if Q i then h i else z) xs z = (if filter Q xs = [] then z else h (last (filter Q xs)))"
  by (induction xs arbitrary: z) auto

lemma createArea_shape:
  assumes "round_table T"
  shows "createArea (shape_vec T P) 13 = Some (shape_area T P)"
proof -
  have len: "length T = 169" and centre: "filter (\<lambda>k. T ! k = 1) [0..<169] = [84]"
    using assms by (auto simp: round_table_def)
  have "filter (\<lambda>i. shape_vec T P ! i = 2 \<or> shape_vec T P ! i = 3) [0..<169] = filter (\<lambda>k. T ! k = 1) [0..<169]"
    by (rule filter_cong) (auto simp: shape_vec_def len)
  then have "filled_center 13 (shape_vec T P) 0 (0, 0) = (6, 6)"
    unfolding filled_center_def fold_if_filter by (simp add: len shape_vec_def centre)
  moreover have "map flag (shape_vec T P) = map (\<lambda>c. if c = 1 \<or> P c then 1 else 0) T"
    by (simp add: shape_vec_def flag_def comp_def)
  ultimately show ?thesis
    using createArea_rectangular[OF shape_rectangular[OF len]] by (simp add: shape_area_def len shape_vec_def)
qed

lemma shape_area_ok: "length T = 169 \<Longrightarrow> area_ok (shape_area T P)"
  by (simp add: area_ok_def shape_area_def)

lemma shape_quarter_turn:
  assumes "round_table T"
  shows "rotate90 (shape_area T P) = shape_area T P"
proof (rule area_eqI)
  have len: "length T = 169" using assms by (simp add: round_table_def)
  then show ok: "area_ok (shape_area T P)" by (rule shape_area_ok)
  then show "area_ok (rotate90 (shape_area T P))" by simp
  fix i j assume "i < rows (rotate90 (shape_area T P))" "j < cols (rotate90 (shape_area T P))"
  then have ij: "i < 13" "j < 13" by (simp_all add: shape_area_def)
  have "(12 - j) * 13 + i < 13 * 13" "i * 13 + j < 13 * 13" using ij by (intro row_major_bound; simp)+
  moreover have "T ! (i * 13 + j) = T ! ((12 - j) * 13 + i)"
    using assms ij by (auto simp: round_table_def list_all_iff)
  ultimately show "cell (rotate90 (shape_area T P)) i j = cell (shape_area T P) i j"
    using cell_rotate90[OF ok, of i j] ij len by (simp add: shape_area_def cell_def)
qed (simp_all add: shape_area_def)

definition shape_offsets :: "int list \<Rightarrow> (int \<Rightarrow> bool) \<Rightarrow> (int \<times> int) set" where
  "shape_offsets T P = {(dx, dy). \<bar>dx\<bar> \<le> 6 \<and> \<bar>dy\<bar> \<le> 6 \<and> (let c = T ! nat ((dy + 6) * 13 + (dx + 6)) in c = 1 \<or> P c)}"

lemma hits_shape:
  assumes "length T = 169"
  shows "hits (shape_area T P) = shape_offsets T P"
proof (intro set_eqI iffI; clarify)
  fix dx dy assume "(dx, dy) \<in> hits (shape_area T P)"
  then obtain i j where ij: "i < 13" "j < 13" "cell (shape_area T P) i j \<noteq> 0" "dx = int j - 6" "dy = int i - 6"
    by (auto simp: hits_iff shape_area_def)
  then have "nat ((dy + 6) * 13 + (dx + 6)) = i * 13 + j" by (simp add: nat_eq_iff)
  moreover have "i * 13 + j < 169" using ij row_major_bound[of i 13 j 13] by simp
  ultimately show "(dx, dy) \<in> shape_offsets T P"
    using ij assms by (auto simp: shape_offsets_def shape_area_def cell_def Let_def split: if_splits)
next
  fix dx dy assume *: "(dx, dy) \<in> shape_offsets T P"
  define i j where "i = nat (dy + 6)" and "j = nat (dx + 6)"
  have ij: "i < 13" "j < 13" "dx = int j - 6" "dy = int i - 6"
    using * by (auto simp: shape_offsets_def i_def j_def)
  then have "nat ((dy + 6) * 13 + (dx + 6)) = i * 13 + j" by (simp add: nat_eq_iff)
  moreover have "i * 13 + j < 169" using ij row_major_bound[of i 13 j 13] by simp
  ultimately have "cell (shape_area T P) i j \<noteq> 0"
    using * assms by (auto simp: shape_offsets_def shape_area_def cell_def Let_def)
  with ij show "(dx, dy) \<in> hits (shape_area T P)"
    unfolding hits_iff by (intro exI[of _ i] exI[of _ j]) (simp add: shape_area_def)
qed

lemma setupArea_round:
  assumes "round_table T"
  shows "\<exists>ac. setupArea (shape_vec T P) 13 new_AreaCombat = Some ac \<and>
    (\<forall>c t. hits (getArea ac c t) = shape_offsets T P)"
proof -
  let ?a = "shape_area T P"
  have ok: "area_ok ?a" and len: "length T = 169" using assms shape_area_ok by (auto simp: round_table_def)
  have r: "rotate90 ?a = ?a" by (rule shape_quarter_turn[OF assms])
  have "rotate180 ?a = ?a" "rotate270 ?a = ?a"
    using rotate180_is_twice[OF ok] rotate90_270(1)[OF ok] r by simp_all
  with r hits_ops(1-3)[OF ok] have "turn d ` hits ?a = hits ?a" if "straight d" for d
    using that by (auto simp: straight_def turn_lambda)
  moreover obtain ac where "setupArea (shape_vec T P) 13 new_AreaCombat = Some ac" "\<not> hasExtArea ac" and four: "4 \<le> length (areas ac)"
    and "\<forall>d. straight d \<longrightarrow> hits (areas ac ! dir_index d) = turn d ` hits ?a"
    using setupArea_areas[OF createArea_shape[OF assms] ok, of new_AreaCombat] by (auto simp: new_AreaCombat_def)
  moreover have "\<not> length (areas ac) \<le> dir_index (area_direction False c t)" for c t
    using area_direction_straight[of c t] four by (auto simp: straight_def)
  ultimately show ?thesis
    by (intro exI[of _ ac]) (simp add: getArea_def Let_def hits_shape[OF len] area_direction_straight)
qed

text \<open>
  The areas drawn by radius and by ring exist for every radius and ring, and whatever the
  positions of caster and target they cover the same offsets, those the tables give.
\<close>

theorem round_areas:
  "(\<exists>ac. setupArea_radius radius new_AreaCombat = Some ac \<and>
      (\<forall>c t. hits (getArea ac c t) = shape_offsets circle_table (\<lambda>v. v > 0 \<and> v \<le> radius))) \<and>
   (\<exists>ac. setupAreaRing ring new_AreaCombat = Some ac \<and>
      (\<forall>c t. hits (getArea ac c t) = shape_offsets ring_table (\<lambda>v. v > 0 \<and> v = ring)))"
  unfolding setupArea_radius_def setupAreaRing_def shape_vecs
  using setupArea_round[OF round_tables(1)] setupArea_round[OF round_tables(2)] by blast

section \<open>Shapes by length and spread are rectangular\<close>

lemma length_spread_lines: "length (spread_lines ys r ncols colSpread spread) = length ys * nat ncols"
  by (induction ys r ncols colSpread spread rule: spread_lines.induct) (auto simp: spread_line_def Let_def)

lemma signed_division_nonneg: "0 \<le> a \<Longrightarrow> 0 < b \<Longrightarrow> a sdiv b = a div b \<and> a smod b = a mod (b :: int)"
  by (auto simp: signed_divide_int_def signed_modulo_int_def sgn_if)

lemma div_bounds: "0 \<le> a \<Longrightarrow> 0 < b \<Longrightarrow> 0 \<le> a div b \<and> a div b \<le> (a :: int)"
  by (simp add: pos_imp_zdiv_nonneg_iff) (metis div_by_1 zdiv_mono2 int_one_le_iff_zero_less zero_less_one)

lemma spread_cols_nonneg:
  assumes "0 \<le> len" "0 \<le> spread"
  shows "spread_cols len spread = (if spread = 0 then 1 else 2 * (len div spread) + 1)"
proof (cases "spread = 0")
  case False
  with assms have "0 < spread" "0 \<le> len - len mod spread" using zmod_le_nonneg_dividend[of len spread] by auto
  then have "len smod spread = len mod spread" "(len - len mod spread) sdiv spread = len div spread"
    using assms by (simp_all add: signed_division_nonneg minus_mod_eq_mult_div)
  with False show ?thesis by (simp add: spread_cols_def)
qed (simp add: spread_cols_def)

text \<open>
  A shape given by a positive length and a spread that is not negative is a full rectangle,
  so setting it up never leaves the matrix, and its four areas have the length as their depth.
\<close>

theorem spread_area_defined:
  assumes "1 \<le> len" and "len < 2 ^ 15" and "0 \<le> spread"
  shows "\<exists>ac. setupArea_spread len spread new_AreaCombat = Some ac \<and> length (areas ac) = 4 \<and>
    int (rows (areas ac ! dir_index DIRECTION_NORTH)) = len \<and>
    int (cols (areas ac ! dir_index DIRECTION_NORTH)) = spread_cols len spread"
proof -
  let ?c = "spread_cols len spread" and ?r = "nat len"
  let ?vec = "spread_lines [1..<Suc ?r] ?r ?c ?c spread"
  have c: "1 \<le> ?c" "?c \<le> 2 * len + 1"
    using assms div_bounds[of len spread] by (auto simp: spread_cols_nonneg)
  have len: "length ?vec = ?r * nat ?c" by (simp add: length_spread_lines)
  have "?r * nat ?c \<le> ?r * (2 * ?r + 1)" using c assms by (intro mult_le_mono) auto
  also have "\<dots> \<le> 2 ^ 15 * 2 ^ 16" using assms by (intro mult_le_mono) auto
  finally have "length ?vec < 2 ^ 32" using len by simp
  moreover have "?vec \<noteq> []" using len assms c by (metis length_0_conv mult_eq_0_iff nat_eq_iff2 not_one_le_zero zero_less_nat_eq less_le_trans zero_less_one less_irrefl)
  ultimately have R: "rectangular ?vec ?r" using assms len by (simp add: rectangular_def)
  obtain a where a: "createArea ?vec ?r = Some a" using createArea_rectangular[OF R] by blast
  then have "rows a = ?r" "cols a = nat ?c" using createArea_ok[OF R a] len assms by auto
  moreover have "len mod 2 ^ 32 = len" using assms by simp
  ultimately show ?thesis
    using a assms c by (simp add: setupArea_spread_def setupArea_def new_AreaCombat_def resize_def)
qed

theorem spread_area_witness:
  "\<exists>ac. setupArea_spread 8 3 new_AreaCombat = Some ac \<and> length (areas ac) = 4 \<and>
    int (rows (areas ac ! dir_index DIRECTION_NORTH)) = 8 \<and>
    int (cols (areas ac ! dir_index DIRECTION_NORTH)) = spread_cols 8 3"
  by (rule spread_area_defined) simp_all

end
