(* ===== verification/RateLimiter.thy ===== *)
theory RateLimiter
  imports TFS_Prelude
begin

text \<open>
  The limiter of connection attempts per address (connection_rate_limiter.h and .cpp). Addresses map to
  entries; a \<open>std::multimap\<close> from expiry times to addresses says which entries may be dropped. An entry
  holds the iterator of its node in that index. Nodes are numbered in the order of their insertion, an
  iterator is the number of its node, and \<open>None\<close> is \<open>expiryIndex.end()\<close>. Times are 64-bit and counters
  32-bit words. The lock makes every call of \<open>check\<close> one step.
\<close>

definition CLEANUP_INTERVAL :: u64 where "CLEANUP_INTERVAL = 60000"
definition ENTRY_LIFETIME :: u64 where "ENTRY_LIFETIME = 300000"
definition ATTEMPT_WINDOW :: u64 where "ATTEMPT_WINDOW = 5000"
definition CLEANUP_BATCH_SIZE :: nat where "CLEANUP_BATCH_SIZE = 256"

definition getBlockDuration :: "u32 \<Rightarrow> u64" where
  "getBlockDuration blocks =
     (if blocks \<ge> 10 then 300000 else if blocks \<ge> 5 then 60000 else if blocks \<ge> 3 then 15000 else 3000)"

record Entry =
  lastAttempt :: u64
  blockUntil :: u64
  attempt_count :: u32
  totalBlocks :: u32
  expiry :: "nat option"

record RateLimitResult =
  allowed :: bool
  blockStarted :: bool
  blockDuration :: u64
  resultBlocks :: u32

definition default_result :: RateLimitResult where
  "default_result = \<lparr>allowed = True, blockStarted = False, blockDuration = 0, resultBlocks = 0\<rparr>"

record ExpiryNode =
  node_id :: nat
  expires :: u64
  node_ip :: u32

record Limiter =
  entries :: "u32 \<rightharpoonup> Entry"
  expiryIndex :: "ExpiryNode list"
  lastCleanup :: u64
  nextNode :: nat

definition new_limiter :: Limiter where
  "new_limiter = \<lparr>entries = Map.empty, expiryIndex = [], lastCleanup = 0, nextNode = 0\<rparr>"

text \<open>\<open>emplace\<close> puts a node behind the nodes with the same key.\<close>

fun emplace :: "ExpiryNode \<Rightarrow> ExpiryNode list \<Rightarrow> ExpiryNode list" where
  "emplace n [] = [n]"
| "emplace n (m # ms) = (if expires m \<le> expires n then m # emplace n ms else n # m # ms)"

definition erase_node :: "nat \<Rightarrow> ExpiryNode list \<Rightarrow> ExpiryNode list" where
  "erase_node i ns = filter (\<lambda>n. node_id n \<noteq> i) ns"

definition expires_at :: "Entry \<Rightarrow> u64" where
  "expires_at e = max (blockUntil e) (lastAttempt e + ENTRY_LIFETIME + 1)"

definition refreshExpiry :: "u32 \<Rightarrow> Entry \<Rightarrow> Limiter \<Rightarrow> Limiter" where
  "refreshExpiry clientIp e L =
     (let index = (case expiry e of None \<Rightarrow> expiryIndex L | Some i \<Rightarrow> erase_node i (expiryIndex L));
          n = \<lparr>node_id = nextNode L, expires = expires_at e, node_ip = clientIp\<rparr>
      in L\<lparr>expiryIndex := emplace n index,
           nextNode := Suc (nextNode L),
           entries := (entries L)(clientIp \<mapsto> e\<lparr>expiry := Some (nextNode L)\<rparr>)\<rparr>)"

fun cleanup_loop :: "nat \<Rightarrow> u64 \<Rightarrow> Limiter \<Rightarrow> Limiter" where
  "cleanup_loop 0 currentTime L = L"
| "cleanup_loop (Suc left) currentTime L =
     (case expiryIndex L of
        [] \<Rightarrow> L
      | n # ns \<Rightarrow>
          if expires n > currentTime then L
          else
            let es = (case entries L (node_ip n) of
                        None \<Rightarrow> entries L
                      | Some e \<Rightarrow> if expiry e = Some (node_id n) then (entries L)(node_ip n := None) else entries L)
            in cleanup_loop left currentTime (L\<lparr>entries := es, expiryIndex := ns\<rparr>))"

definition cleanup :: "u64 \<Rightarrow> Limiter \<Rightarrow> Limiter" where
  "cleanup currentTime L =
     (if lastCleanup L \<noteq> 0 \<and> currentTime - lastCleanup L < CLEANUP_INTERVAL then L
      else cleanup_loop CLEANUP_BATCH_SIZE currentTime (L\<lparr>lastCleanup := currentTime\<rparr>))"

definition check_entry :: "u32 \<Rightarrow> u64 \<Rightarrow> u32 \<Rightarrow> u64 \<Rightarrow> Entry \<Rightarrow> Limiter \<Rightarrow> RateLimitResult \<times> Limiter" where
  "check_entry clientIp currentTime allowedConnections minimumInterval entry L =
     (if blockUntil entry > currentTime
      then (default_result\<lparr>allowed := False, resultBlocks := totalBlocks entry\<rparr>, L)
      else
        let timeDifference = currentTime - lastAttempt entry;
            entry = entry\<lparr>lastAttempt := currentTime, blockUntil := 0\<rparr>
        in if timeDifference \<le> ATTEMPT_WINDOW
           then
             let entry = entry\<lparr>attempt_count := attempt_count entry + 1\<rparr>
             in if attempt_count entry > allowedConnections
                then
                  let entry = entry\<lparr>attempt_count := 0\<rparr>
                  in if timeDifference \<le> minimumInterval
                     then
                       let entry = entry\<lparr>totalBlocks := totalBlocks entry + 1\<rparr>;
                           duration = getBlockDuration (totalBlocks entry);
                           entry = entry\<lparr>blockUntil := currentTime + duration\<rparr>
                       in (\<lparr>allowed = False, blockStarted = True, blockDuration = duration,
                            resultBlocks = totalBlocks entry\<rparr>,
                           refreshExpiry clientIp entry L)
                     else (default_result, refreshExpiry clientIp entry L)
                else (default_result, refreshExpiry clientIp entry L)
           else
             let entry = entry\<lparr>attempt_count := 1\<rparr>;
                 entry = (if timeDifference > CLEANUP_INTERVAL \<and> totalBlocks entry > 0
                          then entry\<lparr>totalBlocks := totalBlocks entry - 1\<rparr> else entry)
             in (default_result, refreshExpiry clientIp entry L))"

definition check :: "u32 \<Rightarrow> u64 \<Rightarrow> u32 \<Rightarrow> u64 \<Rightarrow> Limiter \<Rightarrow> RateLimitResult \<times> Limiter" where
  "check clientIp currentTime allowedConnections minimumInterval L0 =
     (let L = cleanup currentTime L0
      in case entries L clientIp of
          None \<Rightarrow>
            let entry = \<lparr>lastAttempt = currentTime, blockUntil = 0, attempt_count = 1, totalBlocks = 0, expiry = None\<rparr>
            in (default_result, refreshExpiry clientIp entry L)
        | Some entry \<Rightarrow> check_entry clientIp currentTime allowedConnections minimumInterval entry L)"

section \<open>The index and the entries belong together\<close>

definition indexed_by :: "Limiter \<Rightarrow> ExpiryNode list \<Rightarrow> bool" where
  "indexed_by L ns \<longleftrightarrow>
     (\<forall>n \<in> set ns. \<exists>e. entries L (node_ip n) = Some e \<and> expiry e = Some (node_id n) \<and> expires n = expires_at e) \<and>
     (\<forall>ip e. entries L ip = Some e \<longrightarrow> (\<exists>n \<in> set ns. node_ip n = ip \<and> expiry e = Some (node_id n)))"

definition limiter_ok :: "Limiter \<Rightarrow> bool" where
  "limiter_ok L \<longleftrightarrow> indexed_by L (expiryIndex L) \<and> sorted (map expires (expiryIndex L)) \<and>
     distinct (map node_id (expiryIndex L)) \<and> (\<forall>n \<in> set (expiryIndex L). node_id n < nextNode L)"

lemma set_emplace [simp]: "set (emplace n ns) = insert n (set ns)"
  by (induction n ns rule: emplace.induct) auto

lemma sorted_emplace: "sorted (map expires ns) \<Longrightarrow> sorted (map expires (emplace n ns))"
proof (induction n ns rule: emplace.induct)
  case (2 n m ms)
  then show ?case by (auto simp: not_le dest: less_imp_le less_le_trans)
qed simp

lemma distinct_emplace:
  "distinct (map node_id (emplace n ns)) \<longleftrightarrow> node_id n \<notin> node_id ` set ns \<and> distinct (map node_id ns)"
  by (induction n ns rule: emplace.induct) auto

lemma limiter_ok_new: "limiter_ok new_limiter"
  by (simp add: limiter_ok_def new_limiter_def indexed_by_def)

lemma limiter_node_unique:
  assumes "limiter_ok L" "n \<in> set (expiryIndex L)" "m \<in> set (expiryIndex L)" "node_id n = node_id m \<or> node_ip n = node_ip m"
  shows "n = m"
proof -
  obtain e where "entries L (node_ip n) = Some e" "expiry e = Some (node_id n)"
    using assms(1,2) by (auto simp: limiter_ok_def indexed_by_def)
  moreover obtain e' where "entries L (node_ip m) = Some e'" "expiry e' = Some (node_id m)"
    using assms(1,3) by (auto simp: limiter_ok_def indexed_by_def)
  ultimately have "node_id n = node_id m" using assms(4) by auto
  moreover have "inj_on node_id (set (expiryIndex L))" using assms(1) by (simp add: limiter_ok_def distinct_map)
  ultimately show ?thesis using assms(2,3) by (auto dest: inj_onD)
qed

lemma erase_of_ip:
  assumes "limiter_ok L" "entries L ip = Some e" "expiry e = Some i"
  shows "erase_node i (expiryIndex L) = filter (\<lambda>n. node_ip n \<noteq> ip) (expiryIndex L)"
  unfolding erase_node_def
proof (rule filter_cong[OF refl])
  fix m assume m: "m \<in> set (expiryIndex L)"
  obtain n where "n \<in> set (expiryIndex L)" "node_ip n = ip" "node_id n = i"
    using assms unfolding limiter_ok_def indexed_by_def by fastforce
  with limiter_node_unique[OF assms(1) m] show "(node_id m \<noteq> i) = (node_ip m \<noteq> ip)" by auto
qed

lemma limiter_ok_refresh:
  assumes ok: "limiter_ok L" and e: "expiry e = (case entries L ip of None \<Rightarrow> None | Some e0 \<Rightarrow> expiry e0)"
  shows "limiter_ok (refreshExpiry ip e L)"
proof -
  let ?ns = "filter (\<lambda>n. node_ip n \<noteq> ip) (expiryIndex L)"
  let ?n = "\<lparr>node_id = nextNode L, expires = expires_at e, node_ip = ip\<rparr>"
  have index: "(case expiry e of None \<Rightarrow> expiryIndex L | Some i \<Rightarrow> erase_node i (expiryIndex L)) = ?ns"
  proof (cases "entries L ip")
    case None
    then have "filter (\<lambda>n. node_ip n \<noteq> ip) (expiryIndex L) = expiryIndex L"
      using ok by (intro filter_True) (auto simp: limiter_ok_def indexed_by_def)
    with None e show ?thesis by simp
  next
    case (Some e0)
    then obtain i where "expiry e0 = Some i" using ok unfolding limiter_ok_def indexed_by_def by blast
    with erase_of_ip[OF ok Some this] e Some show ?thesis by simp
  qed
  have "indexed_by (refreshExpiry ip e L) (emplace ?n ?ns)"
    using ok unfolding limiter_ok_def indexed_by_def
    by (auto simp: refreshExpiry_def Let_def expires_at_def) (metis option.inject)
  moreover have "sorted (map expires ?ns)" "distinct (map node_id ?ns)" "\<forall>n \<in> set ?ns. node_id n < nextNode L"
    using ok by (auto simp: limiter_ok_def sorted_filter distinct_map_filter)
  ultimately show ?thesis
    by (auto simp: limiter_ok_def index refreshExpiry_def Let_def sorted_emplace distinct_emplace less_Suc_eq)
qed

lemma cleanup_loop_ok:
  assumes "limiter_ok L"
  shows "limiter_ok (cleanup_loop k t L) \<and>
    entries (cleanup_loop k t L) \<subseteq>\<^sub>m entries L \<and>
    (\<forall>ip e. entries L ip = Some e \<longrightarrow> expires_at e > t \<longrightarrow> entries (cleanup_loop k t L) ip = Some e)"
  using assms
proof (induction k t L rule: cleanup_loop.induct)
  case (2 left t L)
  show ?case
  proof (cases "expiryIndex L")
    case (Cons n ns)
    show ?thesis
    proof (cases "expires n > t")
      case False
      obtain e where e: "entries L (node_ip n) = Some e" "expiry e = Some (node_id n)" "expires n = expires_at e"
        using 2(2) Cons by (auto simp: limiter_ok_def indexed_by_def)
      let ?L = "L\<lparr>entries := (entries L)(node_ip n := None), expiryIndex := ns\<rparr>"
      have other: "node_ip m \<noteq> node_ip n" if "m \<in> set ns" for m
        using limiter_node_unique[OF 2(2), of m n] that Cons 2(2) by (auto simp: limiter_ok_def)
      have "indexed_by ?L ns"
        using 2(2) other unfolding limiter_ok_def indexed_by_def Cons by auto
      then have "limiter_ok ?L" using 2(2) Cons by (auto simp: limiter_ok_def indexed_by_def)
      with 2(1)[OF Cons False refl] e have IH: "limiter_ok (cleanup_loop left t ?L)"
        "entries (cleanup_loop left t ?L) \<subseteq>\<^sub>m entries ?L"
        "\<forall>ip e. entries ?L ip = Some e \<longrightarrow> expires_at e > t \<longrightarrow> entries (cleanup_loop left t ?L) ip = Some e"
        by (simp_all add: fun_upd_def)
      have "entries ?L \<subseteq>\<^sub>m entries L" by (simp add: map_le_def)
      with IH(2) have "entries (cleanup_loop left t ?L) \<subseteq>\<^sub>m entries L" by (rule map_le_trans)
      moreover have "entries (cleanup_loop left t ?L) ip = Some e'" if "entries L ip = Some e'" "t < expires_at e'" for ip e'
      proof -
        have "ip \<noteq> node_ip n" using that e False by auto
        with IH(3) that show ?thesis by simp
      qed
      ultimately show ?thesis using IH(1) e False by (simp add: Cons)
    qed (use 2 Cons in \<open>simp add: map_le_def\<close>)
  qed (use 2 in \<open>simp add: map_le_def\<close>)
qed simp

lemma cleanup_ok:
  assumes "limiter_ok L"
  shows "limiter_ok (cleanup t L)" "entries (cleanup t L) \<subseteq>\<^sub>m entries L"
    "entries L ip = Some e \<Longrightarrow> expires_at e > t \<Longrightarrow> entries (cleanup t L) ip = Some e"
proof -
  have "limiter_ok (L\<lparr>lastCleanup := t\<rparr>)" using assms by (simp add: limiter_ok_def indexed_by_def)
  from cleanup_loop_ok[OF this] assms
  show "limiter_ok (cleanup t L)" "entries (cleanup t L) \<subseteq>\<^sub>m entries L"
    "entries L ip = Some e \<Longrightarrow> expires_at e > t \<Longrightarrow> entries (cleanup t L) ip = Some e"
    by (auto simp: cleanup_def)
qed

lemma expiry_updates [simp]:
  "expiry (e\<lparr>lastAttempt := a\<rparr>) = expiry e" "expiry (e\<lparr>blockUntil := b\<rparr>) = expiry e"
  "expiry (e\<lparr>attempt_count := c\<rparr>) = expiry e" "expiry (e\<lparr>totalBlocks := d\<rparr>) = expiry e"
  by simp_all

lemma check_entry_ok: "limiter_ok L \<Longrightarrow> entries L ip = Some e \<Longrightarrow> limiter_ok (snd (check_entry ip t a m e L))"
  by (auto simp: check_entry_def Let_def intro!: limiter_ok_refresh)

lemma check_ok: "limiter_ok L \<Longrightarrow> limiter_ok (snd (check ip t a m L))"
  using cleanup_ok(1)[of L t]
  by (auto simp: check_def Let_def check_entry_ok intro!: limiter_ok_refresh split: option.splits)

section \<open>A block lasts until its end\<close>

lemma entries_refresh [simp]: "ip' \<noteq> ip \<Longrightarrow> entries (refreshExpiry ip e L) ip' = entries L ip'"
  by (simp add: refreshExpiry_def Let_def)

lemma check_other: "ip' \<noteq> ip \<Longrightarrow> entries (snd (check ip t a m L)) ip' = entries (cleanup t L) ip'"
  by (simp add: check_def check_entry_def Let_def split: option.splits)

lemma blocked_expires: "blockUntil e > t \<Longrightarrow> expires_at e > t"
  by (simp add: expires_at_def less_max_iff_disj)

record attempt =
  at_ip :: u32
  at_time :: u64
  at_allowed :: u32
  at_interval :: u64

fun checks :: "attempt list \<Rightarrow> Limiter \<Rightarrow> RateLimitResult list \<times> Limiter" where
  "checks [] L = ([], L)"
| "checks (a # as) L =
     (let (r, L') = check (at_ip a) (at_time a) (at_allowed a) (at_interval a) L;
          (rs, L'') = checks as L'
      in (r # rs, L''))"

lemma snd_checks_Cons:
  "snd (checks (a # as) L) = snd (checks as (snd (check (at_ip a) (at_time a) (at_allowed a) (at_interval a) L)))"
  by (simp add: Let_def split: prod.splits)

lemma checks_ok: "limiter_ok L \<Longrightarrow> limiter_ok (snd (checks as L))"
  by (induction as arbitrary: L) (simp_all add: snd_checks_Cons check_ok del: checks.simps(2))

lemma check_blocked:
  assumes "limiter_ok L" "entries L ip = Some e" "blockUntil e > t"
  shows "check ip t a m L = (default_result\<lparr>allowed := False, resultBlocks := totalBlocks e\<rparr>, cleanup t L)"
  using cleanup_ok(3)[OF assms(1,2) blocked_expires[OF assms(3)]] assms(3)
  by (simp add: check_def check_entry_def)

lemma block_step:
  assumes "limiter_ok L" "entries L ip = Some e" "blockUntil e > t"
  shows "entries (snd (check ip' t a m L)) ip = Some e"
  using cleanup_ok(3)[OF assms(1,2) blocked_expires[OF assms(3)]] check_blocked[OF assms]
    check_other[of ip ip'] by (cases "ip' = ip") auto

lemma block_lasts:
  assumes "limiter_ok L" "entries L ip = Some e" "\<forall>a \<in> set as. at_time a < blockUntil e"
  shows "entries (snd (checks as L)) ip = Some e \<and>
    (\<forall>i < length as. at_ip (as ! i) = ip \<longrightarrow> \<not> allowed (fst (checks as L) ! i))"
  using assms
proof (induction as arbitrary: L)
  case (Cons a as)
  obtain r L' where c: "check (at_ip a) (at_time a) (at_allowed a) (at_interval a) L = (r, L')" by fastforce
  have t: "blockUntil e > at_time a" using Cons.prems(3) by simp
  have "limiter_ok L'" "entries L' ip = Some e"
    using check_ok[OF Cons.prems(1)] block_step[OF Cons.prems(1,2) t] c by (metis snd_conv)+
  with Cons.IH[of L'] Cons.prems(3)
  have IH: "entries (snd (checks as L')) ip = Some e"
    "\<forall>i < length as. at_ip (as ! i) = ip \<longrightarrow> \<not> allowed (fst (checks as L') ! i)" by auto
  have "at_ip a = ip \<Longrightarrow> \<not> allowed r" using check_blocked[OF Cons.prems(1,2) t] c by (auto simp: default_result_def)
  with IH c show ?case by (auto simp: All_less_Suc2 split: prod.splits)
qed simp

lemma block_started:
  assumes "check ip t a m L = (r, L')" "blockStarted r"
  shows "\<exists>e. entries L' ip = Some e \<and> blockUntil e = t + blockDuration r"
  using assms
  by (auto simp: check_def check_entry_def Let_def default_result_def refreshExpiry_def split: option.splits if_splits)

text \<open>
  Claim C36. The expiry index and the entries always match: each entry holds the iterator of exactly one
  node, the one with its address and its expiry time, every node belongs to an entry, and the index is
  in the order of expiry times. No call leaves a dangling iterator.
\<close>

theorem rate_limiter_consistent: "limiter_ok (snd (checks as new_limiter))"
  by (rule checks_ok[OF limiter_ok_new])

text \<open>
  Claim C35. Once an address is blocked, every attempt from it is refused until the block ends, whatever
  attempts of other addresses and cleanups happen in between.
\<close>

theorem block_is_kept:
  assumes "check ip t a m (snd (checks before new_limiter)) = (r, L)" and "blockStarted r"
    and "\<forall>x \<in> set later. at_time x < t + blockDuration r"
    and "i < length later" and "at_ip (later ! i) = ip"
  shows "\<not> allowed (fst (checks later L) ! i)"
proof -
  have "limiter_ok L" using check_ok[OF checks_ok[OF limiter_ok_new]] assms(1) by (metis snd_conv)
  moreover obtain e where "entries L ip = Some e" "blockUntil e = t + blockDuration r"
    using block_started[OF assms(1,2)] by blast
  ultimately show ?thesis using block_lasts[of L ip e later] assms(3-5) by simp
qed

text \<open>
  A block starts exactly when a known address that is not blocked tries again within the
  attempt window and within the minimum interval, and has used up its allowed connections; the
  duration grows with the number of blocks.
\<close>

theorem block_starts_iff:
  "blockStarted (fst (check ip t a m L)) \<longleftrightarrow>
     (\<exists>e. entries (cleanup t L) ip = Some e \<and> blockUntil e \<le> t \<and> t - lastAttempt e \<le> ATTEMPT_WINDOW \<and>
        t - lastAttempt e \<le> m \<and> attempt_count e + 1 > a \<and>
        blockDuration (fst (check ip t a m L)) = getBlockDuration (totalBlocks e + 1))"
  by (auto simp: check_def check_entry_def Let_def default_result_def split: option.splits)

definition burst :: "attempt list" where
  "burst = [\<lparr>at_ip = 7, at_time = 1000, at_allowed = 1, at_interval = 500\<rparr>]"

theorem block_is_kept_witness:
  "\<exists>r L. check 7 1100 1 500 (snd (checks burst new_limiter)) = (r, L) \<and> blockStarted r \<and>
     \<not> allowed (fst (checks [\<lparr>at_ip = 8, at_time = 1200, at_allowed = 1, at_interval = 500\<rparr>,
                             \<lparr>at_ip = 7, at_time = 4000, at_allowed = 1, at_interval = 500\<rparr>] L) ! 1)"
proof -
  let ?later = "[\<lparr>at_ip = 8, at_time = 1200, at_allowed = 1, at_interval = 500\<rparr>,
                 \<lparr>at_ip = 7, at_time = 4000, at_allowed = 1, at_interval = 500\<rparr>]"
  obtain r L where c: "check 7 1100 1 500 (snd (checks burst new_limiter)) = (r, L)" by fastforce
  have "fst (check 7 1100 1 500 (snd (checks burst new_limiter))) =
      \<lparr>allowed = False, blockStarted = True, blockDuration = 3000, resultBlocks = 1\<rparr>"
    by code_simp
  with c have r: "blockStarted r" "blockDuration r = 3000" by simp_all
  have "\<not> allowed (fst (checks ?later L) ! 1)"
    by (rule block_is_kept[OF c r(1)]) (simp_all add: r)
  with c r show ?thesis by blast
qed

end
