(* ===== verification/FileLoader.thy ===== *)
theory FileLoader
  imports TFS_Prelude
begin

text \<open>
  The loader of OTB files (\<open>OTB::Loader\<close> of fileloader.h and fileloader.cpp), the format of maps and
  items: a tree of nodes between START and END bytes, each with a type byte and properties in which
  control bytes are escaped. The mapped file is a list of bytes; the iterators of a node are indices
  into it. \<open>throw InvalidOTBFormat\<close> is the result \<open>None\<close>.

  \<open>parseTree\<close> keeps a stack of pointers to the open nodes, each already stored in its parent; here the
  stack holds the open nodes themselves, and a node joins its parent when it is closed. No operation
  looks at the children of a node below the top of the stack, so the two agree.
\<close>

definition ESCAPE :: u8 where "ESCAPE = 0xFD"
definition START :: u8 where "START = 0xFE"
definition END :: u8 where "END = 0xFF"

lemmas control_defs = ESCAPE_def START_def END_def

datatype OTB_Node = OTB_Node (node_type: u8) (propsBegin: nat) (propsEnd: nat) (node_children: "OTB_Node list")

type_synonym bytes = "u8 list"

definition minimalSize :: nat where
  "minimalSize = 4 + 1 + 1 + 1"

definition Loader :: "bytes \<Rightarrow> u8 list \<Rightarrow> bytes option" where
  "Loader fileContents acceptedIdentifier =
     (if length fileContents \<le> minimalSize then None
      else if take 4 fileContents \<noteq> acceptedIdentifier \<and> take 4 fileContents \<noteq> [0, 0, 0, 0] then None
      else Some fileContents)"

text \<open>\<open>currentNode.propsEnd = it\<close>, done before the first child and at the end of a node without children.\<close>

definition end_props :: "nat \<Rightarrow> OTB_Node \<Rightarrow> OTB_Node" where
  "end_props it n =
     (if node_children n = [] then OTB_Node (node_type n) (propsBegin n) it (node_children n) else n)"

definition add_child :: "OTB_Node \<Rightarrow> OTB_Node \<Rightarrow> OTB_Node" where
  "add_child n c = OTB_Node (node_type n) (propsBegin n) (propsEnd n) (node_children n @ [c])"

text \<open>
  The loop of \<open>parseTree\<close> over the bytes from \<open>it\<close> on. The end of the properties of an open node is 0
  until it is set. The last argument is the root once it is closed.
\<close>

fun parse_loop :: "u8 list \<Rightarrow> nat \<Rightarrow> OTB_Node list \<Rightarrow> OTB_Node option \<Rightarrow> OTB_Node option" where
  "parse_loop [] it parseStack root = (if parseStack \<noteq> [] then None else root)"
| "parse_loop (b # bs) it parseStack root =
     (if b = START then
        (case parseStack of
           [] \<Rightarrow> None
         | currentNode # st \<Rightarrow>
             (case bs of
                [] \<Rightarrow> None
              | ty # bs' \<Rightarrow>
                  parse_loop bs' (it + 2) (OTB_Node ty (it + 2) 0 [] # end_props it currentNode # st) root))
      else if b = END then
        (case parseStack of
           [] \<Rightarrow> None
         | currentNode # st \<Rightarrow>
             let n = end_props it currentNode in
             case st of
               [] \<Rightarrow> parse_loop bs (it + 1) [] (Some n)
             | p # st' \<Rightarrow> parse_loop bs (it + 1) (add_child p n # st') root)
      else if b = ESCAPE then
        (case bs of [] \<Rightarrow> None | _ # bs' \<Rightarrow> parse_loop bs' (it + 2) parseStack root)
      else parse_loop bs (it + 1) parseStack root)"

definition parseTree :: "bytes \<Rightarrow> OTB_Node option" where
  "parseTree fileContents =
     (if fileContents ! 4 \<noteq> START then None
      else parse_loop (drop 6 fileContents) 6 [OTB_Node (fileContents ! 5) 6 0 []] None)"

text \<open>\<open>std::memchr\<close>, as an offset.\<close>

fun memchr :: "u8 \<Rightarrow> u8 list \<Rightarrow> nat option" where
  "memchr c [] = None"
| "memchr c (b # bs) = (if b = c then Some 0 else map_option Suc (memchr c bs))"

text \<open>
  The slow path of \<open>getProps\<close>: \<open>src\<close> is what is left of the range, \<open>esc\<close> the offset of the next escape
  in it and \<open>dst\<close> what has been written to the buffer.
\<close>

function unescape_loop :: "u8 list \<Rightarrow> nat \<Rightarrow> u8 list \<Rightarrow> u8 list" where
  "unescape_loop src esc dst =
     (let dst = dst @ take esc src; src = drop (esc + 1) src
      in case src of
          [] \<Rightarrow> dst
        | b # src \<Rightarrow>
            let dst = dst @ [b]
            in case src of
                [] \<Rightarrow> dst
              | c # tail \<Rightarrow>
                  if c = ESCAPE then unescape_loop src 0 dst
                  else case memchr ESCAPE tail of
                      None \<Rightarrow> dst @ src
                    | Some k \<Rightarrow> unescape_loop src (k + 1) dst)"
  by pat_completeness auto
termination
proof (relation "measure (\<lambda>(src, _, _). length src)", goal_cases)
  case (2 src esc dst x xa b srca xb c tail)
  then have "drop (esc + 1) src = b # c # tail" by simp
  from arg_cong[OF this, of length] show ?case using 2 by simp
next
  case (3 src esc dst x xa b srca xb c tail k)
  then have "drop (esc + 1) src = b # c # tail" by simp
  from arg_cong[OF this, of length] show ?case using 3 by simp
qed simp

declare unescape_loop.simps [simp del]

definition file_range :: "bytes \<Rightarrow> nat \<Rightarrow> nat \<Rightarrow> u8 list" where
  "file_range fileContents b e = take (e - b) (drop b fileContents)"

definition getProps :: "bytes \<Rightarrow> OTB_Node \<Rightarrow> u8 list option" where
  "getProps fileContents node =
     (let props = file_range fileContents (propsBegin node) (propsEnd node)
      in if propsEnd node - propsBegin node = 0 then None
         else case memchr ESCAPE props of
             None \<Rightarrow> Some props
           | Some escapePtr \<Rightarrow> Some (unescape_loop props escapePtr []))"

section \<open>Unescaping\<close>

fun unescape :: "u8 list \<Rightarrow> u8 list" where
  "unescape [] = []"
| "unescape (b # bs) =
     (if b = ESCAPE then (case bs of [] \<Rightarrow> [] | c # cs \<Rightarrow> c # unescape cs) else b # unescape bs)"

fun escape :: "u8 list \<Rightarrow> u8 list" where
  "escape [] = []"
| "escape (b # bs) = (if b \<in> {ESCAPE, START, END} then [ESCAPE, b] else [b]) @ escape bs"

lemma unescape_escape [simp]: "unescape (escape ps) = ps"
  by (induction ps) (auto simp: control_defs)

lemma memchr_None: "memchr c bs = None \<longleftrightarrow> c \<notin> set bs"
  by (induction bs) auto

lemma memchr_Some: "memchr c bs = Some k \<Longrightarrow> k < length bs \<and> bs ! k = c \<and> c \<notin> set (take k bs)"
  by (induction bs arbitrary: k) (auto split: if_splits)

lemma unescape_plain: "ESCAPE \<notin> set as \<Longrightarrow> unescape (as @ bs) = as @ unescape bs"
  by (induction as) auto

lemma unescape_at:
  assumes "k < length bs" "bs ! k = ESCAPE" "ESCAPE \<notin> set (take k bs)"
  shows "unescape bs = take k bs @ (case drop (k + 1) bs of [] \<Rightarrow> [] | c # cs \<Rightarrow> c # unescape cs)"
proof -
  have "unescape bs = unescape (take k bs @ ESCAPE # drop (k + 1) bs)"
    using assms by (metis id_take_nth_drop Suc_eq_plus1)
  then show ?thesis using assms(3) by (simp add: unescape_plain)
qed

lemma unescape_loop_correct:
  "esc < length src \<Longrightarrow> src ! esc = ESCAPE \<Longrightarrow> ESCAPE \<notin> set (take esc src) \<Longrightarrow>
   unescape_loop src esc dst = dst @ unescape src"
proof (induction src esc dst rule: unescape_loop.induct)
  case (1 src esc dst)
  note u = unescape_at[OF 1(3-5)]
  show ?case
  proof (cases "drop (esc + 1) src")
    case Nil
    then show ?thesis by (subst unescape_loop.simps) (simp add: u)
  next
    case (Cons b src')
    show ?thesis
    proof (cases src')
      case Nil
      with Cons show ?thesis by (subst unescape_loop.simps) (simp add: u)
    next
      case 2: (Cons c tail)
      show ?thesis
      proof (cases "c = ESCAPE")
        case True
        with 1(1)[OF refl refl Cons refl 2 True] Cons 2 show ?thesis
          by (subst unescape_loop.simps) (simp add: u)
      next
        case False
        show ?thesis
        proof (cases "memchr ESCAPE tail")
          case None
          then have "unescape tail = tail" using unescape_plain[of tail "[]"] by (simp add: memchr_None)
          with None False Cons 2 show ?thesis by (subst unescape_loop.simps) (simp add: u)
        next
          case (Some k)
          with 1(2)[OF refl refl Cons refl 2 False Some] memchr_Some[OF Some] False 2
          have "unescape_loop src' (k + 1) (dst @ take esc src @ [b]) = (dst @ take esc src @ [b]) @ unescape src'" by simp
          with Some False Cons 2 show ?thesis by (subst unescape_loop.simps) (simp add: u)
        qed
      qed
    qed
  qed
qed

lemma getProps_eq:
  "getProps fileContents node =
     (if propsEnd node \<le> propsBegin node then None
      else Some (unescape (file_range fileContents (propsBegin node) (propsEnd node))))"
proof (cases "memchr ESCAPE (file_range fileContents (propsBegin node) (propsEnd node))")
  case None
  then have "unescape (file_range fileContents (propsBegin node) (propsEnd node)) =
      file_range fileContents (propsBegin node) (propsEnd node)"
    using unescape_plain[of "file_range fileContents (propsBegin node) (propsEnd node)" "[]"] by (simp add: memchr_None)
  with None show ?thesis by (simp add: getProps_def Let_def)
next
  case (Some k)
  with unescape_loop_correct[of k "file_range fileContents (propsBegin node) (propsEnd node)" "[]"] memchr_Some[OF Some]
  show ?thesis by (auto simp: getProps_def Let_def)
qed

text \<open>
  \<open>getProps\<close> gives the properties of a node exactly as unescaping byte by byte does, on the
  fast path and on the one that copies runs between escapes; it refuses only an empty range.
\<close>

theorem getProps_unescapes:
  "getProps fileContents node =
     (if propsEnd node \<le> propsBegin node then None
      else Some (unescape (file_range fileContents (propsBegin node) (propsEnd node))))"
  by (rule getProps_eq)

section \<open>The tree a file describes\<close>

datatype tree = Tree u8 "u8 list" "tree list"

fun serialize :: "tree \<Rightarrow> u8 list" and serialize_all :: "tree list \<Rightarrow> u8 list" where
  "serialize (Tree ty ps ts) = [START, ty] @ escape ps @ serialize_all ts @ [END]"
| "serialize_all [] = []"
| "serialize_all (t # ts) = serialize t @ serialize_all ts"

fun node_of :: "nat \<Rightarrow> tree \<Rightarrow> OTB_Node" and nodes_of :: "nat \<Rightarrow> tree list \<Rightarrow> OTB_Node list" where
  "node_of it (Tree ty ps ts) =
     OTB_Node ty (it + 2) (it + 2 + length (escape ps)) (nodes_of (it + 2 + length (escape ps)) ts)"
| "nodes_of it [] = []"
| "nodes_of it (t # ts) = node_of it t # nodes_of (it + length (serialize t)) ts"

lemma control_distinct [simp]: "ESCAPE \<noteq> START" "ESCAPE \<noteq> END" "START \<noteq> ESCAPE" "START \<noteq> END" "END \<noteq> START" "END \<noteq> ESCAPE"
  by (simp_all add: control_defs)

lemma parse_props: "parse_loop (escape ps @ rest) it stk root = parse_loop rest (it + length (escape ps)) stk root"
  by (induction ps arbitrary: it) (auto simp: add.assoc numeral_2_eq_2)

text \<open>The top of the stack after a list of children has been read.\<close>

definition grown :: "nat \<Rightarrow> tree list \<Rightarrow> OTB_Node \<Rightarrow> OTB_Node" where
  "grown it ts n = (if ts = [] then n else
     OTB_Node (node_type n) (propsBegin n) (propsEnd (end_props it n)) (node_children n @ nodes_of it ts))"

lemma grown_Cons: "grown it (t # ts) n = grown (it + length (serialize t)) ts (add_child (end_props it n) (node_of it t))"
  by (auto simp: grown_def add_child_def end_props_def)

lemma parse_tree:
  "parse_loop (serialize t @ rest) it (cur # stk) root =
     parse_loop rest (it + length (serialize t)) (add_child (end_props it cur) (node_of it t) # stk) root"
  "parse_loop (serialize_all ts @ rest) it (cur # stk) root =
     parse_loop rest (it + length (serialize_all ts)) (grown it ts cur # stk) root"
proof (induction t and ts arbitrary: it cur stk rest and it cur stk rest rule: serialize_serialize_all.induct)
  case (1 ty ps ts)
  let ?n = "OTB_Node ty (it + 2) 0 []" and ?it = "it + 2 + length (escape ps)"
  have "end_props (?it + length (serialize_all ts)) (grown ?it ts ?n) = node_of it (Tree ty ps ts)"
    by (cases ts) (auto simp: grown_def end_props_def)
  then show ?case
    by (simp add: parse_props 1 add.assoc numeral_eq_Suc)
next
  case 2
  then show ?case by (simp add: grown_def)
next
  case (3 t ts)
  show ?case by (simp add: 3 grown_Cons add.assoc)
qed

lemma parse_trailing:
  "set junk \<inter> {ESCAPE, START, END} = {} \<Longrightarrow> parse_loop junk it [] (Some n) = Some n"
  by (induction junk arbitrary: it) auto

lemma parse_root:
  assumes "set junk \<inter> {ESCAPE, START, END} = {}" and "length ident = 4"
  shows "parseTree (ident @ serialize t @ junk) = Some (node_of 4 t)"
proof -
  obtain ty ps ts where t: "t = Tree ty ps ts" by (cases t)
  have nth: "(ident @ serialize t @ junk) ! 4 = START" "(ident @ serialize t @ junk) ! 5 = ty"
    "drop 6 (ident @ serialize t @ junk) = escape ps @ serialize_all ts @ END # junk"
    using assms(2) by (simp_all add: nth_append t)
  have "end_props (6 + length (escape ps) + length (serialize_all ts)) (grown (6 + length (escape ps)) ts (OTB_Node ty 6 0 []))
      = node_of 4 t"
    by (cases ts) (auto simp: grown_def end_props_def t)
  then show ?thesis
    unfolding parseTree_def nth by (simp add: parse_props parse_tree parse_trailing[OF assms(1)])
qed

fun represents :: "bytes \<Rightarrow> OTB_Node \<Rightarrow> tree \<Rightarrow> bool" where
  "represents f n (Tree ty ps ts) \<longleftrightarrow> node_type n = ty \<and>
     getProps f n = (if ps = [] then None else Some ps) \<and> list_all2 (represents f) (node_children n) ts"

lemma escape_Nil [simp]: "escape ps = [] \<longleftrightarrow> ps = []"
  by (cases ps) auto

lemma getProps_at:
  assumes "f = pre @ escape ps @ post"
  shows "getProps f (OTB_Node ty (length pre) (length pre + length (escape ps)) cs) = (if ps = [] then None else Some ps)"
  using assms by (simp add: getProps_eq file_range_def)

lemma represents_node_of:
  "f = pre @ serialize t @ post \<Longrightarrow> represents f (node_of (length pre) t) t"
  "f = pre @ serialize_all ts @ post \<Longrightarrow> list_all2 (represents f) (nodes_of (length pre) ts) ts"
proof (induction t and ts arbitrary: pre post and pre post rule: serialize_serialize_all.induct)
  case (1 ty ps ts)
  let ?pre = "pre @ [START, ty]"
  have f: "f = ?pre @ escape ps @ serialize_all ts @ END # post"
    "f = (?pre @ escape ps) @ serialize_all ts @ END # post" using 1(2) by simp_all
  have l: "length ?pre = length pre + 2" "length (?pre @ escape ps) = length pre + 2 + length (escape ps)" by simp_all
  show ?case
    using getProps_at[OF f(1)] 1(1)[OF f(2)] unfolding l by simp
next
  case (3 t ts)
  have f: "f = pre @ serialize t @ (serialize_all ts @ post)" "f = (pre @ serialize t) @ serialize_all ts @ post"
    using 3(3) by simp_all
  show ?case using 3(1)[OF f(1)] 3(2)[OF f(2)] by simp
qed simp

text \<open>
  Claim C33. A file that holds a tree is read back as that tree: after the four identifier bytes, for
  every tree of types, properties and children, with bytes after the end that are not control bytes,
  \<open>parseTree\<close> returns nodes whose types, children and unescaped properties are those of the tree.
\<close>

theorem parseTree_roundtrip:
  assumes "length ident = 4" and "set junk \<inter> {ESCAPE, START, END} = {}"
  shows "\<exists>root. parseTree (ident @ serialize t @ junk) = Some root \<and> represents (ident @ serialize t @ junk) root t"
  using parse_root[OF assms(2,1), of t] represents_node_of(1)[of _ ident t junk] assms(1) by simp

theorem parseTree_roundtrip_witness:
  "length [79, 84, 66, 77 :: u8] = 4 \<and> set [0, 1] \<inter> {ESCAPE, START, END} = {} \<and>
   (\<exists>root. parseTree ([79, 84, 66, 77] @ serialize (Tree 1 [0xFD, 7] [Tree 0xFE [] [], Tree 3 [0xFF] []]) @ [0, 1]) = Some root \<and>
     represents ([79, 84, 66, 77] @ serialize (Tree 1 [0xFD, 7] [Tree 0xFE [] [], Tree 3 [0xFF] []]) @ [0, 1]) root
       (Tree 1 [0xFD, 7] [Tree 0xFE [] [], Tree 3 [0xFF] []]))"
proof -
  have "length [79, 84, 66, 77 :: u8] = 4" "set [0, 1] \<inter> {ESCAPE, START, END} = {}" by (simp_all add: control_defs)
  with parseTree_roundtrip[OF this] show ?thesis by blast
qed

section \<open>No accepted file makes the loader read outside it\<close>

fun inside :: "nat \<Rightarrow> OTB_Node \<Rightarrow> bool" where
  "inside n (OTB_Node ty b e cs) \<longleftrightarrow> b \<le> e \<and> e \<le> n \<and> list_all (inside n) cs"

text \<open>An open node: the end of its properties is set once it has children.\<close>

definition open_inside :: "nat \<Rightarrow> OTB_Node \<Rightarrow> bool" where
  "open_inside n x \<longleftrightarrow> propsBegin x \<le> n \<and> list_all (inside n) (node_children x) \<and>
     (node_children x \<noteq> [] \<longrightarrow> inside n x)"

lemma inside_mono: "inside n x \<Longrightarrow> n \<le> m \<Longrightarrow> inside m x"
  by (induction n x rule: inside.induct) (auto simp: list_all_iff)

lemma open_inside_mono: "open_inside n x \<Longrightarrow> n \<le> m \<Longrightarrow> open_inside m x"
  by (auto simp: open_inside_def list_all_iff intro: inside_mono)

lemma inside_end_props: "open_inside n x \<Longrightarrow> n \<le> m \<Longrightarrow> inside m (end_props n x)"
  by (cases x) (auto simp: open_inside_def end_props_def list_all_iff intro: inside_mono)

lemma open_inside_add_child: "inside n x \<Longrightarrow> inside m c \<Longrightarrow> n \<le> m \<Longrightarrow> open_inside m (add_child x c)"
  by (cases x) (auto simp: open_inside_def add_child_def list_all_iff intro: inside_mono)

definition stack_inside :: "nat \<Rightarrow> OTB_Node list \<Rightarrow> bool" where
  "stack_inside n stk \<longleftrightarrow> (case stk of [] \<Rightarrow> True | cur # st \<Rightarrow> open_inside n cur \<and> list_all (inside n) st)"

lemma stack_inside_simps [simp]:
  "stack_inside n []" "stack_inside n (cur # st) \<longleftrightarrow> open_inside n cur \<and> list_all (inside n) st"
  by (simp_all add: stack_inside_def)

lemma list_inside_mono: "list_all (inside n) xs \<Longrightarrow> n \<le> m \<Longrightarrow> list_all (inside m) xs"
  by (auto simp: list_all_iff intro: inside_mono)

lemma stack_inside_mono: "stack_inside n stk \<Longrightarrow> n \<le> m \<Longrightarrow> stack_inside m stk"
  by (cases stk) (auto intro: open_inside_mono list_inside_mono)

lemma parse_loop_inside:
  "parse_loop bs it stk root = Some r \<Longrightarrow> stack_inside it stk \<Longrightarrow> (\<forall>x. root = Some x \<longrightarrow> inside it x) \<Longrightarrow>
   inside (it + length bs) r"
proof (induction bs it stk root rule: parse_loop.induct)
  case (1 it stk root)
  then show ?case by (auto split: if_splits)
next
  case (2 b bs it stk root)
  have root: "\<forall>x. root = Some x \<longrightarrow> inside (it + k) x" for k using 2(8) inside_mono by auto
  consider "b = START" | "b = END" | "b = ESCAPE" | "b \<noteq> START" "b \<noteq> END" "b \<noteq> ESCAPE" by blast
  then show ?case
  proof cases
    case 1
    with 2(6) obtain cur st ty bs' where eq: "stk = cur # st" "bs = ty # bs'"
      and p: "parse_loop bs' (it + 2) (OTB_Node ty (it + 2) 0 [] # end_props it cur # st) root = Some r"
      by (auto split: list.splits)
    have "stack_inside (it + 2) (OTB_Node ty (it + 2) 0 [] # end_props it cur # st)"
      using 2(7) eq by (auto simp: open_inside_def inside_end_props intro: list_inside_mono)
    from 2(1)[OF 1 eq p this root] show ?thesis by (simp add: eq numeral_2_eq_2)
  next
    case fin: 2
    with 2(6) obtain cur st where eq: "stk = cur # st" by (auto split: list.splits)
    let ?n = "end_props it cur"
    have n: "inside (it + 1) ?n" using 2(7) eq by (simp add: inside_end_props)
    show ?thesis
    proof (cases st)
      case Nil
      with 2(2)[OF _ fin eq refl Nil] 2(6) fin eq n show ?thesis by simp
    next
      case (Cons p st')
      have "stack_inside (it + 1) (add_child p ?n # st')"
        using 2(7) eq Cons n by (auto intro: open_inside_add_child[of it] list_inside_mono)
      with 2(3)[OF _ fin eq refl Cons] 2(6) fin eq Cons root[of 1] show ?thesis by simp
    qed
  next
    case 3
    with 2(6) obtain x bs' where eq: "bs = x # bs'" "parse_loop bs' (it + 2) stk root = Some r"
      by (auto split: list.splits)
    from 2(4)[OF _ _ 3 eq(1) eq(2) stack_inside_mono[OF 2(7)] root] 3 show ?thesis by (simp add: eq numeral_2_eq_2)
  next
    case 4
    with 2(5)[OF 4 _ stack_inside_mono[OF 2(7)] root[of 1]] 2(6) show ?thesis by simp
  qed
qed

text \<open>
  Claim C34. Whatever the bytes of a file, when the loader accepts it every node of the tree has its
  properties inside the file: the begin is not behind the end and the end not behind the file, so
  \<open>getProps\<close> never reads outside the mapping.
\<close>

theorem parseTree_inside:
  assumes "Loader f ident = Some f" and "parseTree f = Some root"
  shows "inside (length f) root"
proof -
  have len: "6 \<le> length f" using assms(1) by (auto simp: Loader_def minimalSize_def split: if_splits)
  have "parse_loop (drop 6 f) 6 [OTB_Node (f ! 5) 6 0 []] None = Some root"
    using assms(2) by (simp add: parseTree_def split: if_splits)
  from parse_loop_inside[OF this] len show ?thesis by (simp add: open_inside_def)
qed

theorem parseTree_inside_witness:
  "Loader [0, 0, 0, 0, 0xFE, 1, 9, 0xFF] [79, 84, 66, 77] = Some [0, 0, 0, 0, 0xFE, 1, 9, 0xFF] \<and>
   inside 8 (the (parseTree [0, 0, 0, 0, 0xFE, 1, 9, 0xFF]))"
proof -
  let ?f = "[0, 0, 0, 0, 0xFE, 1, 9, 0xFF] :: u8 list"
  have l: "Loader ?f [79, 84, 66, 77] = Some ?f" by (simp add: Loader_def minimalSize_def)
  have "parseTree ?f = Some (OTB_Node 1 6 7 [])"
    by (simp add: parseTree_def control_defs end_props_def)
  with parseTree_inside[OF l this] l show ?thesis by simp
qed

end
