(* ===== verification/NetMessage.thy ===== *)
theory NetMessage
  imports Positions Codec
begin

text \<open>
  \<^verbatim>\<open>src/src/networkmessage.h\<close> and \<^verbatim>\<open>src/src/networkmessage.cpp\<close>: the packet buffer with its
  typed readers and writers. The buffer is a byte memory; that every access stays below
  \<open>NETWORKMESSAGE_MAXSIZE\<close> is a theorem and not part of the type. Reads that run past the message
  set the overrun flag and return zero, writes that do not fit are dropped: both are branches here.
\<close>

section \<open>State\<close>

definition NETWORKMESSAGE_MAXSIZE :: nat where "NETWORKMESSAGE_MAXSIZE = 65500"
definition INITIAL_BUFFER_POSITION :: nat where "INITIAL_BUFFER_POSITION = 8"
definition HEADER_LENGTH :: nat where "HEADER_LENGTH = 2"
definition CHECKSUM_LENGTH :: nat where "CHECKSUM_LENGTH = 4"
definition XTEA_MULTIPLE :: nat where "XTEA_MULTIPLE = 8"
definition MAX_BODY_LENGTH :: nat where
  "MAX_BODY_LENGTH = NETWORKMESSAGE_MAXSIZE - HEADER_LENGTH - CHECKSUM_LENGTH - XTEA_MULTIPLE"
definition MAX_PROTOCOL_BODY_LENGTH :: nat where
  "MAX_PROTOCOL_BODY_LENGTH = MAX_BODY_LENGTH - 10"

lemmas message_consts =
  NETWORKMESSAGE_MAXSIZE_def INITIAL_BUFFER_POSITION_def HEADER_LENGTH_def CHECKSUM_LENGTH_def
  XTEA_MULTIPLE_def MAX_BODY_LENGTH_def MAX_PROTOCOL_BODY_LENGTH_def

record NetworkMessage =
  msg_length :: u16
  position :: u16
  overrun :: bool
  buffer :: memory

definition new_message :: NetworkMessage where
  "new_message = \<lparr>msg_length = 0, position = of_nat INITIAL_BUFFER_POSITION, overrun = False,
     buffer = (\<lambda>_. 0)\<rparr>"

definition reset :: "('a) NetworkMessage_scheme \<Rightarrow> ('a) NetworkMessage_scheme" where
  "reset m = m\<lparr>msg_length := 0, position := of_nat INITIAL_BUFFER_POSITION, overrun := False\<rparr>"

section \<open>Reading\<close>

definition canRead :: "int \<Rightarrow> ('a) NetworkMessage_scheme \<Rightarrow> bool \<times> ('a) NetworkMessage_scheme" where
  "canRead sz m =
     (if uint (position m) + sz > uint (msg_length m) + 8
         \<or> sz \<ge> int NETWORKMESSAGE_MAXSIZE - uint (position m)
      then (False, m\<lparr>overrun := True\<rparr>)
      else (True, m))"

definition getByte :: "('a) NetworkMessage_scheme \<Rightarrow> u8 \<times> ('a) NetworkMessage_scheme" where
  "getByte m = (case canRead 1 m of
      (False, m') \<Rightarrow> (0, m')
    | (True, m') \<Rightarrow> (buffer m' (unat (position m')), m'\<lparr>position := position m' + 1\<rparr>))"

definition getPreviousByte :: "('a) NetworkMessage_scheme \<Rightarrow> u8 \<times> ('a) NetworkMessage_scheme" where
  "getPreviousByte m =
     (let p = position m - 1 in (buffer m (unat p), m\<lparr>position := p\<rparr>))"

text \<open>\<open>get<T>\<close>, where \<open>T\<close> is the unsigned type of the result; \<open>sizeof(T)\<close> is its width in bytes.\<close>

definition get :: "('a) NetworkMessage_scheme \<Rightarrow> 'w::len word \<times> ('a) NetworkMessage_scheme" where
  "get m = (let n = LENGTH('w) div 8 in
     case canRead (int n) m of
       (False, m') \<Rightarrow> (0, m')
     | (True, m') \<Rightarrow>
         (le_word (read_at (buffer m') (unat (position m')) n), m'\<lparr>position := position m' + of_nat n\<rparr>))"

definition getPosition :: "('a) NetworkMessage_scheme \<Rightarrow> Position \<times> ('a) NetworkMessage_scheme" where
  "getPosition m =
     (let (x, m1) = get m; (y, m2) = get m1; (z, m3) = getByte m2 in (Position x y z, m3))"

text \<open>
  \<open>getString\<close>; \<open>convert_latin1_to_utf8\<close> stands for the function of that name of the simdutf library
  (with the output sized by its \<open>utf8_length_from_latin1\<close>).
\<close>

definition getString ::
  "(u8 list \<Rightarrow> u8 list) \<Rightarrow> u16 \<Rightarrow> ('a) NetworkMessage_scheme \<Rightarrow> u8 list \<times> ('a) NetworkMessage_scheme" where
  "getString convert_latin1_to_utf8 stringLen m =
     (let (len, m1) = (if stringLen = 0 then get m else (stringLen, m)) in
      case canRead (uint len) m1 of
        (False, m2) \<Rightarrow> ([], m2)
      | (True, m2) \<Rightarrow>
          (convert_latin1_to_utf8 (read_at (buffer m2) (unat (position m2)) (unat len)),
           m2\<lparr>position := position m2 + len\<rparr>))"

definition skipBytes :: "u16 \<Rightarrow> ('a) NetworkMessage_scheme \<Rightarrow> ('a) NetworkMessage_scheme" where
  "skipBytes count m = m\<lparr>position := position m + count\<rparr>"

section \<open>Writing\<close>

text \<open>Sizes are \<open>size_t\<close>: the sum of \<open>canAdd\<close> wraps at \<open>2 ^ 64\<close>.\<close>

definition canAdd :: "u64 \<Rightarrow> ('a) NetworkMessage_scheme \<Rightarrow> bool" where
  "canAdd sz m \<longleftrightarrow> sz + ucast (position m) < of_nat MAX_BODY_LENGTH"

text \<open>The common tail of the writers: store the bytes at the position and advance.\<close>

definition put_bytes :: "u8 list \<Rightarrow> ('a) NetworkMessage_scheme \<Rightarrow> ('a) NetworkMessage_scheme" where
  "put_bytes bs m = m\<lparr>buffer := write_at (buffer m) (unat (position m)) bs,
     position := position m + of_nat (length bs), msg_length := msg_length m + of_nat (length bs)\<rparr>"

definition addByte :: "u8 \<Rightarrow> ('a) NetworkMessage_scheme \<Rightarrow> ('a) NetworkMessage_scheme" where
  "addByte v m = (if canAdd 1 m then put_bytes [v] m else m)"

definition add :: "'w::len word \<Rightarrow> ('a) NetworkMessage_scheme \<Rightarrow> ('a) NetworkMessage_scheme" where
  "add v m = (let n = LENGTH('w) div 8 in if canAdd (of_nat n) m then put_bytes (le_bytes n v) m else m)"

definition addBytes :: "u8 list \<Rightarrow> ('a) NetworkMessage_scheme \<Rightarrow> ('a) NetworkMessage_scheme" where
  "addBytes bytes m =
     (if \<not> canAdd (of_nat (length bytes)) m \<or> length bytes > 8192 then m else put_bytes bytes m)"

definition addPaddingBytes :: "u64 \<Rightarrow> ('a) NetworkMessage_scheme \<Rightarrow> ('a) NetworkMessage_scheme" where
  "addPaddingBytes n m =
     (if canAdd n m
      then m\<lparr>buffer := write_at (buffer m) (unat (position m)) (replicate (unat n) 0x33),
             msg_length := msg_length m + ucast n\<rparr>
      else m)"

text \<open>
  \<open>addString\<close>; the first two parameters stand for simdutf's \<open>latin1_length_from_utf8\<close> and
  \<open>convert_utf8_to_latin1\<close>, the latter returning the number of characters it reports and the bytes it
  stored at its output.
\<close>

definition addString ::
  "(u8 list \<Rightarrow> nat) \<Rightarrow> (u8 list \<Rightarrow> nat \<times> u8 list) \<Rightarrow> u8 list
   \<Rightarrow> ('a) NetworkMessage_scheme \<Rightarrow> ('a) NetworkMessage_scheme" where
  "addString latin1_length_from_utf8 convert_utf8_to_latin1 v m =
     (let stringLen = latin1_length_from_utf8 v in
      if \<not> canAdd (of_nat stringLen + 2) m \<or> stringLen > 8192 then m
      else
        let m1 = add (of_nat stringLen :: u16) m;
            (writtenLen, bs) = convert_utf8_to_latin1 v;
            m2 = m1\<lparr>buffer := write_at (buffer m1) (unat (position m1)) bs\<rparr>
        in if writtenLen \<noteq> stringLen
           then m2\<lparr>position := position m, msg_length := msg_length m\<rparr>
           else m2\<lparr>position := position m2 + of_nat writtenLen,
                   msg_length := msg_length m2 + of_nat writtenLen\<rparr>)"

definition addPosition :: "Position \<Rightarrow> ('a) NetworkMessage_scheme \<Rightarrow> ('a) NetworkMessage_scheme" where
  "addPosition p m = addByte (pos_z p) (add (pos_y p) (add (pos_x p) m))"

section \<open>Buffer access\<close>

definition getRemainingBufferLength :: "('a) NetworkMessage_scheme \<Rightarrow> u16" where
  "getRemainingBufferLength m = msg_length m - position m"

definition setBufferPosition :: "u16 \<Rightarrow> ('a) NetworkMessage_scheme \<Rightarrow> bool \<times> ('a) NetworkMessage_scheme" where
  "setBufferPosition pos m =
     (if unat pos < NETWORKMESSAGE_MAXSIZE - INITIAL_BUFFER_POSITION
      then (True, m\<lparr>position := pos + of_nat INITIAL_BUFFER_POSITION\<rparr>)
      else (False, m))"

definition getLengthHeader :: "('a) NetworkMessage_scheme \<Rightarrow> u16" where
  "getLengthHeader m = ucast (buffer m 0) OR push_bit 8 (ucast (buffer m 1))"

definition getBodyBuffer :: "('a) NetworkMessage_scheme \<Rightarrow> nat \<times> ('a) NetworkMessage_scheme" where
  "getBodyBuffer m = (HEADER_LENGTH, m\<lparr>position := 2\<rparr>)"

section \<open>Writers stay inside the body\<close>

lemma put_bytes_sel [simp]:
  "buffer (put_bytes bs m) = write_at (buffer m) (unat (position m)) bs"
  "position (put_bytes bs m) = position m + of_nat (length bs)"
  "msg_length (put_bytes bs m) = msg_length m + of_nat (length bs)"
  "overrun (put_bytes bs m) = overrun m"
  by (simp_all add: put_bytes_def)

text \<open>Room for \<open>n\<close> bytes; for every size but the last before \<open>2 ^ 64\<close>, \<open>canAdd\<close> says the same.\<close>

definition fits :: "nat \<Rightarrow> ('a) NetworkMessage_scheme \<Rightarrow> bool" where
  "fits n m \<longleftrightarrow> n + unat (position m) < MAX_BODY_LENGTH"

lemma canAdd_unat: "unat n < 2 ^ 64 - 2 ^ 16 \<Longrightarrow> canAdd n m \<longleftrightarrow> fits (unat n) m"
proof -
  assume n: "unat n < 2 ^ 64 - 2 ^ 16"
  have "unat (position m) < 65536" using unsigned_less[of "position m"] by simp
  with n have "unat (n + ucast (position m)) = unat n + unat (position m)"
    by (simp add: unat_word_ariths unsigned_ucast_eq take_bit_nat_eq_self)
  then show ?thesis by (simp add: canAdd_def fits_def word_less_nat_alt message_consts)
qed

lemma canAdd_fits [simp]: "n < 2 ^ 63 \<Longrightarrow> canAdd (of_nat n) m \<longleftrightarrow> fits n m"
  using canAdd_unat[of "of_nat n" m] by (simp add: unat_of_nat_lt)

lemma canAdd_numeral [simp]:
  "canAdd 1 m \<longleftrightarrow> fits 1 m" "canAdd 2 m \<longleftrightarrow> fits 2 m" "canAdd 4 m \<longleftrightarrow> fits 4 m" "canAdd 8 m \<longleftrightarrow> fits 8 m"
  using canAdd_unat[of 1 m] canAdd_unat[of 2 m] canAdd_unat[of 4 m] canAdd_unat[of 8 m] by simp_all

lemma canAdd_text: "n \<le> 8192 \<Longrightarrow> canAdd (of_nat n + 2) m \<longleftrightarrow> fits (n + 2) m"
  using canAdd_fits[of "n + 2" m] by simp

lemma addPaddingBytes_nat:
  "n < 2 ^ 63 \<Longrightarrow> addPaddingBytes (of_nat n) m =
     (if fits n m
      then m\<lparr>buffer := write_at (buffer m) (unat (position m)) (replicate n 0x33), msg_length := msg_length m + of_nat n\<rparr>
      else m)"
proof -
  assume n: "n < 2 ^ 63"
  then have u: "unat (of_nat n :: u64) = n" by (simp add: unat_of_nat_lt)
  have "ucast (of_nat n :: u64) = (of_nat (unat (of_nat n :: u64)) :: u16)" by (simp only: of_nat_unat)
  with n u show ?thesis by (simp add: addPaddingBytes_def)
qed

lemma unat_position_put_bytes [simp]:
  "fits (length bs) m \<Longrightarrow> unat (position m + of_nat (length bs)) = unat (position m) + length bs"
  by (rule unat_add_of_nat) (simp add: fits_def message_consts)

text \<open>A message being written: the body starts at byte 8 and its length is what was written.\<close>

definition writer_ok :: "('a) NetworkMessage_scheme \<Rightarrow> bool" where
  "writer_ok m \<longleftrightarrow> unat (position m) = unat (msg_length m) + 8 \<and> unat (position m) < MAX_BODY_LENGTH"

lemma writer_ok_new [simp]: "writer_ok new_message" "writer_ok (reset m)"
  by (simp_all add: writer_ok_def new_message_def reset_def message_consts)

lemma unat_length_put_bytes:
  "writer_ok m \<Longrightarrow> fits (length bs) m \<Longrightarrow>
   unat (msg_length m + of_nat (length bs)) = unat (msg_length m) + length bs"
  by (rule unat_add_of_nat) (simp add: writer_ok_def fits_def message_consts)

lemma writer_ok_put_bytes [simp]:
  "writer_ok m \<Longrightarrow> fits (length bs) m \<Longrightarrow> writer_ok (put_bytes bs m)"
  by (simp add: writer_ok_def unat_length_put_bytes fits_def[of _ m])

lemma put_bytes_append:
  "fits (length bs + length cs) m \<Longrightarrow> put_bytes (bs @ cs) m = put_bytes cs (put_bytes bs m)"
  by (simp add: put_bytes_def write_at_append fits_def add.assoc)

definition body :: "('a) NetworkMessage_scheme \<Rightarrow> u8 list" where
  "body m = read_at (buffer m) 8 (unat (msg_length m))"

lemma body_new [simp]: "body new_message = []" "body (reset m) = []"
  by (simp_all add: body_def new_message_def reset_def read_at_def)

lemma body_put_bytes:
  assumes "writer_ok m" and "fits (length bs) m"
  shows "body (put_bytes bs m) = body m @ bs"
proof -
  have "unat (position m) = 8 + unat (msg_length m)" using assms(1) by (simp add: writer_ok_def)
  then show ?thesis
    using assms by (simp add: body_def unat_length_put_bytes read_at_append mem_simps)
qed

section \<open>Readers and what is left to read\<close>

definition pending :: "('a) NetworkMessage_scheme \<Rightarrow> u8 list" where
  "pending m = read_at (buffer m) (unat (position m)) (unat (msg_length m) + 8 - unat (position m))"

definition reader_ok :: "('a) NetworkMessage_scheme \<Rightarrow> bool" where
  "reader_ok m \<longleftrightarrow> unat (position m) \<le> unat (msg_length m) + 8
     \<and> unat (msg_length m) + 8 < NETWORKMESSAGE_MAXSIZE \<and> \<not> overrun m"

definition advance :: "nat \<Rightarrow> ('a) NetworkMessage_scheme \<Rightarrow> ('a) NetworkMessage_scheme" where
  "advance n m = m\<lparr>position := position m + of_nat n\<rparr>"

lemma pending_split:
  assumes "reader_ok m" and "pending m = bs @ rest"
  shows "canRead (int (length bs)) m = (True, m)"
    and "read_at (buffer m) (unat (position m)) (length bs) = bs"
    and "pending (advance (length bs) m) = rest"
    and "reader_ok (advance (length bs) m)"
proof -
  have len: "unat (position m) + length bs + length rest = unat (msg_length m) + 8"
    using assms(1) arg_cong[OF assms(2), of length]
    by (simp only: reader_ok_def pending_def length_read_at length_append) linarith
  have pos: "unat (position m + of_nat (length bs)) = unat (position m) + length bs"
    using assms(1) len by (intro unat_add_of_nat) (simp add: reader_ok_def message_consts)
  have "uint (position m) + int (length bs) + int (length rest) = uint (msg_length m) + 8"
    using arg_cong[OF len, of int] by simp
  moreover have "int (unat (msg_length m) + 8) < int NETWORKMESSAGE_MAXSIZE"
    using assms(1) by (simp only: reader_ok_def of_nat_less_iff)
  ultimately show "canRead (int (length bs)) m = (True, m)"
    by (simp add: canRead_def)
  have "take (length bs) (pending m) = bs" using assms(2) by simp
  then show "read_at (buffer m) (unat (position m)) (length bs) = bs"
    using len by (simp add: pending_def take_read_at min_def split: if_splits)
  have "drop (length bs) (pending m) = rest" using assms(2) by simp
  then show "pending (advance (length bs) m) = rest"
    using pos by (simp add: pending_def advance_def drop_read_at)
  show "reader_ok (advance (length bs) m)"
    using assms(1) len pos by (simp add: reader_ok_def advance_def)
qed

lemma get_pending:
  assumes "reader_ok m" and "pending m = bs @ rest" and "length bs = LENGTH('w) div 8"
  shows "get m = (le_word bs :: 'w::len word, advance (length bs) m)"
  using pending_split[OF assms(1,2)] assms(3) by (simp add: get_def advance_def)

lemma getByte_pending:
  assumes "reader_ok m" and "pending m = b # rest"
  shows "getByte m = (b, advance 1 m)"
proof -
  have split: "pending m = [b] @ rest" using assms(2) by simp
  from pending_split(1,2)[OF assms(1) split] show ?thesis
    by (simp add: getByte_def advance_def read_at_def)
qed

section \<open>Round trip of a sequence of fields\<close>

text \<open>The parts of simdutf the messages use, as a parameter.\<close>

record latin1_codec =
  latin1_length_from_utf8 :: "u8 list \<Rightarrow> nat"
  convert_utf8_to_latin1 :: "u8 list \<Rightarrow> nat \<times> u8 list"
  convert_latin1_to_utf8 :: "u8 list \<Rightarrow> u8 list"

text \<open>
  What the library documents for UTF-8 text with characters up to U+00FF only: the conversion
  succeeds with the length it announced, and converting back gives the text.
\<close>

definition latin1_text :: "latin1_codec \<Rightarrow> u8 list \<Rightarrow> bool" where
  "latin1_text L v \<longleftrightarrow>
     fst (convert_utf8_to_latin1 L v) = latin1_length_from_utf8 L v
     \<and> length (snd (convert_utf8_to_latin1 L v)) = latin1_length_from_utf8 L v
     \<and> convert_latin1_to_utf8 L (snd (convert_utf8_to_latin1 L v)) = v"

datatype field = FByte u8 | FU16 u16 | FU32 u32 | FU64 u64 | FPos Position | FStr "u8 list"

fun enc_field :: "latin1_codec \<Rightarrow> field \<Rightarrow> u8 list" where
  "enc_field L (FByte b) = [b]"
| "enc_field L (FU16 w) = le_bytes 2 w"
| "enc_field L (FU32 w) = le_bytes 4 w"
| "enc_field L (FU64 w) = le_bytes 8 w"
| "enc_field L (FPos p) = le_bytes 2 (pos_x p) @ le_bytes 2 (pos_y p) @ [pos_z p]"
| "enc_field L (FStr v) =
     le_bytes 2 (of_nat (latin1_length_from_utf8 L v) :: u16) @ snd (convert_utf8_to_latin1 L v)"

fun put_field :: "latin1_codec \<Rightarrow> field \<Rightarrow> ('a) NetworkMessage_scheme \<Rightarrow> ('a) NetworkMessage_scheme" where
  "put_field L (FByte b) = addByte b"
| "put_field L (FU16 w) = add w"
| "put_field L (FU32 w) = add w"
| "put_field L (FU64 w) = add w"
| "put_field L (FPos p) = addPosition p"
| "put_field L (FStr v) = addString (latin1_length_from_utf8 L) (convert_utf8_to_latin1 L) v"

fun take_field :: "latin1_codec \<Rightarrow> field \<Rightarrow> ('a) NetworkMessage_scheme \<Rightarrow> field \<times> ('a) NetworkMessage_scheme" where
  "take_field L (FByte _) m = map_prod FByte id (getByte m)"
| "take_field L (FU16 _) m = map_prod FU16 id (get m)"
| "take_field L (FU32 _) m = map_prod FU32 id (get m)"
| "take_field L (FU64 _) m = map_prod FU64 id (get m)"
| "take_field L (FPos _) m = map_prod FPos id (getPosition m)"
| "take_field L (FStr _) m = map_prod FStr id (getString (convert_latin1_to_utf8 L) 0 m)"

fun ok_field :: "latin1_codec \<Rightarrow> field \<Rightarrow> bool" where
  "ok_field L (FStr v) \<longleftrightarrow> latin1_text L v \<and> latin1_length_from_utf8 L v \<le> 8192"
| "ok_field L _ \<longleftrightarrow> True"

definition room :: "('a) NetworkMessage_scheme \<Rightarrow> nat \<Rightarrow> bool" where
  "room m n \<longleftrightarrow> writer_ok m \<and> fits n m"

lemma fits_mono: "fits n m \<Longrightarrow> k \<le> n \<Longrightarrow> fits k m"
  by (simp add: fits_def)

lemma fits_put_bytes: "fits (length bs) m \<Longrightarrow> fits n (put_bytes bs m) \<longleftrightarrow> fits (length bs + n) m"
  by (auto simp: fits_def[of n] fits_def[of "length bs + n"])

lemma addString_put_bytes:
  assumes "latin1_text L v" and "latin1_length_from_utf8 L v \<le> 8192"
    and "fits (latin1_length_from_utf8 L v + 2) m"
  shows "addString (latin1_length_from_utf8 L) (convert_utf8_to_latin1 L) v m
         = put_bytes (enc_field L (FStr v)) m"
proof -
  let ?n = "latin1_length_from_utf8 L v"
  obtain bs where conv: "convert_utf8_to_latin1 L v = (?n, bs)" and len: "length bs = ?n"
    using assms(1) unfolding latin1_text_def by (metis prod.collapse)
  have two: "fits 2 m" using assms(3) by (rule fits_mono) simp
  have "put_bytes (enc_field L (FStr v)) m = put_bytes bs (put_bytes (le_bytes 2 (of_nat ?n :: u16)) m)"
    using assms(3) conv len by (simp add: put_bytes_append add.commute)
  then show ?thesis
    using assms conv len two by (simp add: addString_def add_def put_bytes_def Let_def canAdd_text)
qed

lemma put_field_put_bytes:
  assumes "ok_field L v" and "fits (length (enc_field L v)) m"
  shows "put_field L v m = put_bytes (enc_field L v) m"
proof (cases v)
  case (FPos p)
  have one: "fits 2 m" "fits (2 + 2) m" "fits (2 + 2 + 1) m"
    using assms(2) FPos by (auto intro: fits_mono)
  let ?x = "le_bytes 2 (pos_x p)" and ?y = "le_bytes 2 (pos_y p)"
  have "addPosition p m = put_bytes [pos_z p] (put_bytes ?y (put_bytes ?x m))"
    using one by (simp add: addPosition_def add_def addByte_def fits_put_bytes)
  also have "\<dots> = put_bytes (?x @ ?y @ [pos_z p]) m"
    using one by (simp add: put_bytes_append fits_put_bytes)
  finally show ?thesis using FPos by simp
next
  case (FStr s)
  then have "fits (latin1_length_from_utf8 L s + 2) m"
    using assms by (auto simp: latin1_text_def add.commute)
  then show ?thesis using FStr assms(1) addString_put_bytes[of L s m] by simp
qed (use assms in \<open>auto simp: addByte_def add_def\<close>)

lemma take_field_enc:
  assumes "ok_field L v" and "reader_ok m" and "pending m = enc_field L v @ rest"
  shows "take_field L v m = (v, advance (length (enc_field L v)) m)"
proof (cases v)
  case (FByte b)
  then show ?thesis using assms getByte_pending[of m b rest] by simp
next
  case (FPos p)
  let ?x = "le_bytes 2 (pos_x p)" and ?y = "le_bytes 2 (pos_y p)"
  have s1: "pending m = ?x @ (?y @ [pos_z p] @ rest)" using assms(3) FPos by simp
  note p1 = pending_split(3,4)[OF assms(2) s1]
  note p2 = pending_split(3,4)[OF p1(2,1)]
  show ?thesis
    using get_pending[OF assms(2) s1, where 'w=16] get_pending[OF p1(2,1), where 'w=16]
      getByte_pending[OF p2(2), of "pos_z p" rest] p2(1) FPos
    by (simp add: getPosition_def advance_def)
next
  case (FStr s)
  let ?n = "latin1_length_from_utf8 L s" and ?bs = "snd (convert_utf8_to_latin1 L s)"
  have s1: "pending m = le_bytes 2 (of_nat ?n :: u16) @ (?bs @ rest)" using assms(3) FStr by simp
  note p1 = pending_split(3,4)[OF assms(2) s1]
  have len: "length ?bs = ?n" and n: "unat (of_nat ?n :: u16) = ?n"
    using assms(1) FStr by (auto simp: latin1_text_def width_simps)
  have u: "uint (of_nat ?n :: u16) = int ?n" using arg_cong[OF n, of int] by simp
  show ?thesis
    using get_pending[OF assms(2) s1, where 'w=16] pending_split(1,2)[OF p1(2,1)] len n assms(1) FStr u
    by (simp add: getString_def latin1_text_def) (simp add: advance_def)
next
  case (FU16 w)
  then show ?thesis using assms get_pending[of m "le_bytes 2 w" rest, where 'w=16] by simp
next
  case (FU32 w)
  then show ?thesis using assms get_pending[of m "le_bytes 4 w" rest, where 'w=32] by simp
next
  case (FU64 w)
  then show ?thesis using assms get_pending[of m "le_bytes 8 w" rest, where 'w=64] by simp
qed

lemma net_out_put:
  assumes "ok_field L v" and "room w (length (enc_field L v) + n)"
  shows "body (put_field L v w) = body w @ enc_field L v \<and> room (put_field L v w) n"
proof -
  have ca: "fits (length (enc_field L v)) w" using assms(2) by (auto simp: room_def intro: fits_mono)
  with assms have "put_field L v w = put_bytes (enc_field L v) w"
    by (intro put_field_put_bytes)
  with ca assms(2) show ?thesis
    by (simp add: room_def body_put_bytes fits_put_bytes)
qed

lemma net_take:
  assumes "ok_field L v" and "reader_ok r" and "pending r = enc_field L v @ rest"
  shows "fst (take_field L v r) = v \<and> pending (snd (take_field L v r)) = rest
      \<and> reader_ok (snd (take_field L v r))"
  using take_field_enc[OF assms] pending_split(3,4)[OF assms(2,3)] by simp

interpretation net: stream_codec "enc_field L" "ok_field L" "put_field L" body room
    "take_field L" pending reader_ok
  for L
  by unfold_locales (auto dest: net_out_put net_take)

definition rewind :: "('a) NetworkMessage_scheme \<Rightarrow> ('a) NetworkMessage_scheme" where
  "rewind m = m\<lparr>position := of_nat INITIAL_BUFFER_POSITION\<rparr>"

lemma rewind_written:
  assumes "writer_ok m" and "\<not> overrun m"
  shows "reader_ok (rewind m) \<and> pending (rewind m) = body m"
  using assms by (simp add: reader_ok_def rewind_def pending_def body_def writer_ok_def message_consts)

lemma overrun_put_field [simp]: "overrun (put_field L v m) = overrun m"
  by (cases v) (simp_all add: addByte_def add_def addPosition_def addString_def Let_def split: prod.split)

lemma overrun_fold_put [simp]: "overrun (fold (put_field L) fs m) = overrun m"
  by (induction fs arbitrary: m) auto

text \<open>
  Claim C32. Any sequence of bytes, integers, positions and Latin-1 texts that fits the body of a fresh
  message is read back exactly as it was written, with nothing left over and no overrun.
\<close>

theorem message_roundtrip:
  assumes "\<forall>v \<in> set fs. ok_field L v"
    and "length (enc_all (enc_field L) fs) + INITIAL_BUFFER_POSITION < MAX_BODY_LENGTH"
  shows "let m = rewind (fold (put_field L) fs new_message); (fs', m') = take_all (take_field L) fs m
         in fs' = fs \<and> pending m' = [] \<and> \<not> overrun m'"
proof -
  let ?w = "fold (put_field L) fs new_message"
  have room: "room new_message (length (enc_all (enc_field L) fs))"
    using assms(2) by (simp add: room_def fits_def) (simp add: new_message_def message_consts)
  from net.room_put_all[OF assms(1) room] have "writer_ok ?w" by (simp add: room_def)
  then have r: "reader_ok (rewind ?w) \<and> pending (rewind ?w) = body ?w"
    by (intro rewind_written) (simp_all add: new_message_def)
  with net.out_put_all[OF assms(1) room] net.take_all_enc[OF assms(1), of "rewind ?w" "[]"]
  show ?thesis by (auto simp: Let_def split_beta reader_ok_def)
qed

definition ascii_codec :: latin1_codec where
  "ascii_codec = \<lparr>latin1_length_from_utf8 = length, convert_utf8_to_latin1 = (\<lambda>v. (length v, v)),
     convert_latin1_to_utf8 = (\<lambda>v. v)\<rparr>"

theorem message_roundtrip_witness:
  "let fs = [FByte 10, FU16 1000, FStr [72, 105], FPos (Position 95 117 7), FU32 70000];
       m = rewind (fold (put_field ascii_codec) fs new_message);
       (fs', m') = take_all (take_field ascii_codec) fs m
   in fs' = fs \<and> pending m' = [] \<and> \<not> overrun m'"
  using message_roundtrip[of "[FByte 10, FU16 1000, FStr [72, 105], FPos (Position 95 117 7), FU32 70000]"
    ascii_codec]
  by (simp add: Let_def latin1_text_def ascii_codec_def message_consts)

section \<open>Memory safety of writers and readers\<close>

text \<open>The documented output bound of \<open>convert_utf8_to_latin1\<close>.\<close>

definition stores_at_most_announced :: "latin1_codec \<Rightarrow> bool" where
  "stores_at_most_announced L \<longleftrightarrow>
     (\<forall>v. length (snd (convert_utf8_to_latin1 L v)) \<le> latin1_length_from_utf8 L v)"

text \<open>What a writer may do: change bytes from the old position up to the body limit, and move forward.\<close>

definition confined :: "('a) NetworkMessage_scheme \<Rightarrow> ('a) NetworkMessage_scheme \<Rightarrow> bool" where
  "confined m m' \<longleftrightarrow> unat (position m) \<le> unat (position m')
     \<and> (\<forall>a. buffer m' a \<noteq> buffer m a \<longrightarrow> unat (position m) \<le> a \<and> a < MAX_BODY_LENGTH)"

lemma confined_refl [simp]: "confined m m"
  by (simp add: confined_def)

lemma confinedD:
  "confined m m' \<Longrightarrow> buffer m' a \<noteq> buffer m a \<Longrightarrow> unat (position m) \<le> a \<and> a < MAX_BODY_LENGTH"
  by (simp add: confined_def)

lemma confined_trans:
  assumes "confined m m'" and "confined m' m''"
  shows "confined m m''"
proof -
  have p: "unat (position m) \<le> unat (position m')" using assms(1) by (simp add: confined_def)
  have "unat (position m) \<le> a \<and> a < MAX_BODY_LENGTH" if "buffer m'' a \<noteq> buffer m a" for a
    using that p confinedD[OF assms(1), of a] confinedD[OF assms(2), of a]
    by (cases "buffer m' a = buffer m a") auto
  with assms show ?thesis by (simp add: confined_def)
qed

lemma confined_put_bytes: "fits (length bs) m \<Longrightarrow> confined m (put_bytes bs m)"
  by (auto simp: confined_def write_at_def fits_def[of _ m] split: if_splits)

lemma confined_addByte: "confined m (addByte v m)"
  by (auto simp: addByte_def intro: confined_put_bytes)

lemma confined_add: "LENGTH('w) div 8 < 2 ^ 63 \<Longrightarrow> confined m (add (v :: 'w::len word) m)"
  by (auto simp: add_def Let_def intro: confined_put_bytes)

lemma confined_addBytes: "confined m (addBytes bs m)"
  by (cases "length bs > 8192") (auto simp: addBytes_def intro: confined_put_bytes)

lemma confined_addPaddingBytes: "unat n < 2 ^ 64 - 2 ^ 16 \<Longrightarrow> confined m (addPaddingBytes n m)"
  by (auto simp: addPaddingBytes_def confined_def write_at_def canAdd_unat fits_def)

text \<open>A padding whose end wraps passes the check, and is written past the end of the buffer.\<close>

lemma padding_wraps:
  assumes "position m = 8" and "n = - 8"
  shows "canAdd n m \<and> buffer (addPaddingBytes n m) NETWORKMESSAGE_MAXSIZE = 0x33"
proof -
  have "canAdd n m" using assms by (simp add: canAdd_def message_consts)
  moreover have "unat n = 2 ^ 64 - 8" using assms(2) by simp
  ultimately show ?thesis using assms(1) by (simp add: addPaddingBytes_def write_at_def message_consts)
qed

lemma confined_addPosition: "confined m (addPosition p m)"
  unfolding addPosition_def
  by (intro confined_trans[OF confined_trans[OF confined_add confined_add] confined_addByte]) simp_all

lemma confined_addString:
  assumes "stores_at_most_announced L"
  shows "confined m (addString (latin1_length_from_utf8 L) (convert_utf8_to_latin1 L) v m)"
proof (cases "latin1_length_from_utf8 L v \<le> 8192 \<and> fits (latin1_length_from_utf8 L v + 2) m")
  case True
  let ?n = "latin1_length_from_utf8 L v"
  obtain k bs where c: "convert_utf8_to_latin1 L v = (k, bs)" by (cases "convert_utf8_to_latin1 L v")
  have len: "length bs \<le> ?n" using assms c unfolding stores_at_most_announced_def by (metis snd_conv)
  have two: "fits 2 m" using True by (auto intro: fits_mono)
  have lim: "?n + 2 + unat (position m) < MAX_BODY_LENGTH" using True by (simp add: fits_def)
  have pos: "unat (position m + 2) = unat (position m) + 2"
    using lim unat_add_of_nat[of "position m" 2] by (simp add: message_consts)
  have pos': "unat (position m + 2 + of_nat ?n) = unat (position m) + 2 + ?n"
    using lim pos unat_add_of_nat[of "position m + 2" ?n] by (simp add: message_consts)
  show ?thesis
    using two len lim True
    by (auto simp: canAdd_text addString_def Let_def c add_def confined_def write_at_def pos pos')
qed (auto simp: addString_def Let_def canAdd_text)

text \<open>
  No writer touches the buffer outside the range from its position to the body limit
  (which lies below the end of the array), whatever the state of the message is: a value that does not
  fit is dropped. Only the padding, whose size is not bounded by itself, must stay below the wrap of \<open>size_t\<close>
  (\<open>padding_wraps\<close>); the program calls it with at most 7.
\<close>

theorem writers_confined:
  assumes "stores_at_most_announced L" and "unat n < 2 ^ 64 - 2 ^ 16"
  shows "confined m (fold (put_field L) fs m) \<and> confined m (addBytes bs m)
    \<and> confined m (addPaddingBytes n m) \<and> MAX_BODY_LENGTH < NETWORKMESSAGE_MAXSIZE"
proof -
  have one: "confined m (put_field L v m)" for v and m :: "('a) NetworkMessage_scheme"
    by (cases v) (simp_all add: confined_addByte confined_add confined_addPosition confined_addString assms(1))
  have "confined m (fold (put_field L) fs m)"
    by (induction fs arbitrary: m) (auto intro: one confined_trans)
  then show ?thesis by (simp add: confined_addBytes confined_addPaddingBytes[OF assms(2)] message_consts)
qed

theorem writers_confined_witness:
  "confined (new_message\<lparr>position := 65484\<rparr>)
     (fold (put_field ascii_codec) [FU32 1, FByte 7, FStr [65]] (new_message\<lparr>position := 65484\<rparr>))"
  using writers_confined[of ascii_codec 0 "new_message\<lparr>position := 65484\<rparr>" "[FU32 1, FByte 7, FStr [65]]"]
  by (simp add: stores_at_most_announced_def ascii_codec_def)

text \<open>What a reader may do: move forward inside the message, or set the overrun flag.\<close>

definition reads_inside :: "('a) NetworkMessage_scheme \<Rightarrow> ('a) NetworkMessage_scheme \<Rightarrow> bool" where
  "reads_inside m m' \<longleftrightarrow> buffer m' = buffer m \<and> msg_length m' = msg_length m
     \<and> unat (position m) \<le> unat (position m')
     \<and> (position m' = position m \<or>
        unat (position m') \<le> unat (msg_length m) + 8 \<and> unat (position m') < NETWORKMESSAGE_MAXSIZE)
     \<and> (overrun m \<longrightarrow> overrun m')"

lemma reads_inside_refl [simp]: "reads_inside m m"
  by (simp add: reads_inside_def)

lemma reads_inside_trans: "reads_inside m m' \<Longrightarrow> reads_inside m' m'' \<Longrightarrow> reads_inside m m''"
  by (auto simp: reads_inside_def)

lemma reads_inside_overrun [simp]: "reads_inside m (m\<lparr>overrun := True\<rparr>)"
  by (simp add: reads_inside_def)

lemma canRead_cases:
  obtains (no) "canRead (int n) m = (False, m\<lparr>overrun := True\<rparr>)"
  | (yes) "canRead (int n) m = (True, m)" "unat (position m) + n \<le> unat (msg_length m) + 8"
      "unat (position m) + n < NETWORKMESSAGE_MAXSIZE"
proof (cases "fst (canRead (int n) m)")
  case True
  then have "uint (position m) + int n \<le> uint (msg_length m) + 8"
    and "uint (position m) + int n < int NETWORKMESSAGE_MAXSIZE"
    by (auto simp: canRead_def split: if_splits)
  then have "unat (position m) + n \<le> unat (msg_length m) + 8"
    and "unat (position m) + n < NETWORKMESSAGE_MAXSIZE"
    unfolding uint_nat by linarith+
  with True yes show ?thesis by (auto simp: canRead_def split: if_splits)
next
  case False
  with no show ?thesis by (auto simp: canRead_def split: if_splits)
qed

lemma reads_inside_advance:
  assumes "unat (position m) + n \<le> unat (msg_length m) + 8"
    and "unat (position m) + n < NETWORKMESSAGE_MAXSIZE"
  shows "reads_inside m (m\<lparr>position := position m + of_nat n\<rparr>)"
  using assms unat_add_of_nat[of "position m" n] by (simp add: reads_inside_def message_consts)

lemma reads_inside_get: "reads_inside m (snd (get m :: 'w::len word \<times> ('a) NetworkMessage_scheme))"
  by (cases rule: canRead_cases[of "LENGTH('w) div 8" m]) (auto simp: get_def Let_def reads_inside_advance)

lemma reads_inside_getByte: "reads_inside m (snd (getByte m))"
  by (cases rule: canRead_cases[of 1 m])
    (use reads_inside_advance[of m 1] in \<open>auto simp: getByte_def\<close>)

lemma reads_inside_getPosition: "reads_inside m (snd (getPosition m))"
proof -
  obtain x m1 where g1: "get m = (x :: u16, m1)" by (cases "get m :: u16 \<times> _")
  obtain y m2 where g2: "get m1 = (y :: u16, m2)" by (cases "get m1 :: u16 \<times> _")
  have "reads_inside m m1" "reads_inside m1 m2" "reads_inside m2 (snd (getByte m2))"
    using reads_inside_get[of m, where 'w=16] reads_inside_get[of m1, where 'w=16] g1 g2
    by (simp_all add: reads_inside_getByte)
  then show ?thesis
    using g1 g2 by (auto simp: getPosition_def split_beta intro: reads_inside_trans)
qed

lemma reads_inside_getString: "reads_inside m (snd (getString conv n m))"
proof -
  obtain len m1 where g: "(if n = 0 then get m else (n, m)) = (len, m1)"
    by (cases "if n = 0 then get m else (n, m)")
  have "reads_inside m m1"
    using g reads_inside_get[of m, where 'w=16] by (auto split: if_splits)
  moreover have "reads_inside m1 (snd (getString conv n m))"
    using g by (cases rule: canRead_cases[of "unat len" m1])
      (use reads_inside_advance[of m1 "unat len"] in \<open>auto simp: getString_def\<close>)
  ultimately show ?thesis by (rule reads_inside_trans)
qed

text \<open>
  Whatever bytes a peer sent, reading any sequence of fields never moves past the received
  length (plus the eight header bytes) nor past the buffer, never changes the message, and a failed read
  stays visible in the overrun flag.
\<close>

theorem readers_stay_inside: "reads_inside m (snd (take_all (take_field L) fs m))"
proof (induction fs arbitrary: m)
  case (Cons v fs)
  have "reads_inside m (snd (take_field L v m))"
    by (cases v)
      (simp_all add: reads_inside_getByte reads_inside_get reads_inside_getPosition reads_inside_getString)
  then show ?case using Cons by (auto simp: split_beta Let_def intro: reads_inside_trans)
qed simp

end
