(* ===== verification/Xtea.thy ===== *)
theory Xtea
  imports TFS_Prelude
begin

text \<open>
  \<^verbatim>\<open>src/src/xtea.cpp\<close>: the XTEA cipher the game protocol encrypts its packets with. The code works
  in place on a byte range, round by round over all blocks; the model keeps that order. Shown here:
  decryption undoes encryption for every key, buffer and length, and the round-major loop computes
  the same as enciphering block by block.
\<close>

section \<open>Key schedule\<close>

definition xtea_delta :: u32 where
  "xtea_delta = 0x9E3779B9"

text \<open>
  The loop of \<open>expand_key\<close>: one call per iteration, with \<open>sum\<close> and \<open>next_sum\<close> as the loop keeps
  them; \<open>n\<close> iterations remain.
\<close>

primrec expand_key_loop :: "u32 list \<Rightarrow> nat \<Rightarrow> u32 \<Rightarrow> u32 \<Rightarrow> u32 list" where
  "expand_key_loop k 0 s next_s = []"
| "expand_key_loop k (Suc n) s next_s =
     (s + k ! unat (s AND 3)) # (next_s + k ! unat (drop_bit 11 next_s AND 3))
     # expand_key_loop k n next_s (next_s + xtea_delta)"

definition expand_key :: "u32 list \<Rightarrow> u32 list" where
  "expand_key k = expand_key_loop k 32 0 xtea_delta"

section \<open>Rounds and loops\<close>

definition xtea_mix :: "u32 \<Rightarrow> u32" where
  "xtea_mix v = (push_bit 4 v XOR drop_bit 5 v) + v"

text \<open>The body of the inner loop of \<open>encrypt\<close>, on the eight bytes at \<open>it\<close>.\<close>

definition encrypt_round :: "u32 \<Rightarrow> u32 \<Rightarrow> u8 list \<Rightarrow> u8 list" where
  "encrypt_round k0 k1 bs =
     (let left = le_word (take 4 bs); right = le_word (take 4 (drop 4 bs));
          left' = left + (xtea_mix right XOR k0);
          right' = right + (xtea_mix left' XOR k1)
      in le_bytes 4 left' @ le_bytes 4 right')"

definition decrypt_round :: "u32 \<Rightarrow> u32 \<Rightarrow> u8 list \<Rightarrow> u8 list" where
  "decrypt_round k0 k1 bs =
     (let left = le_word (take 4 bs); right = le_word (take 4 (drop 4 bs));
          right' = right - (xtea_mix left XOR k1);
          left' = left - (xtea_mix right' XOR k0)
      in le_bytes 4 left' @ le_bytes 4 right')"

text \<open>
  The inner loop \<open>for (it = data, last = data + length; it < last; it += 8)\<close>, over a memory.
  As in the code, a length that is no multiple of eight still touches the whole last block.
\<close>

function sweep :: "(u8 list \<Rightarrow> u8 list) \<Rightarrow> nat \<Rightarrow> nat \<Rightarrow> memory \<Rightarrow> memory" where
  "sweep f it stop mem =
     (if it < stop then sweep f (it + 8) stop (write_at mem it (f (read_at mem it 8))) else mem)"
  by pat_completeness auto
termination
  by (relation "measure (\<lambda>(f, it, stop, mem). stop - it)") auto

declare sweep.simps [simp del]

definition encrypt :: "memory \<Rightarrow> nat \<Rightarrow> nat \<Rightarrow> u32 list \<Rightarrow> memory" where
  "encrypt mem data len k =
     fold (\<lambda>j. sweep (encrypt_round (k ! (2 * j)) (k ! (2 * j + 1))) data (data + len)) [0..<32] mem"

definition decrypt :: "memory \<Rightarrow> nat \<Rightarrow> nat \<Rightarrow> u32 list \<Rightarrow> memory" where
  "decrypt mem data len k =
     fold (\<lambda>j. sweep (decrypt_round (k ! (2 * j)) (k ! (2 * j + 1))) data (data + len))
       (rev [0..<32]) mem"

text \<open>One whole block, all rounds: the textbook form of the cipher.\<close>

definition encrypt_block :: "u32 list \<Rightarrow> u8 list \<Rightarrow> u8 list" where
  "encrypt_block k = fold (\<lambda>j. encrypt_round (k ! (2 * j)) (k ! (2 * j + 1))) [0..<32]"

section \<open>Sweeping a block transformation over memory\<close>

lemma sweep_step:
  "it < stop \<Longrightarrow> sweep f it stop mem = sweep f (it + 8) stop (write_at mem it (f (read_at mem it 8)))"
  by (subst sweep.simps) simp

lemma sweep_done [simp]: "\<not> it < stop \<Longrightarrow> sweep f it stop mem = mem"
  by (subst sweep.simps) simp

text \<open>
  The contract of one block step: it keeps the block size. Everything about the loop follows from
  that: distinct blocks do not interfere.
\<close>

locale block_step =
  fixes f :: "u8 list \<Rightarrow> u8 list"
  assumes length_step: "length bs = 8 \<Longrightarrow> length (f bs) = 8"
begin

lemma sweep_write_below:
  "p + length bs \<le> it \<Longrightarrow> sweep f it stop (write_at mem p bs) = write_at (sweep f it stop mem) p bs"
proof (induction "stop - it" arbitrary: it mem rule: less_induct)
  case less
  show ?case
  proof (cases "it < stop")
    case True
    have "sweep f it stop (write_at mem p bs)
        = sweep f (it + 8) stop (write_at (write_at mem it (f (read_at mem it 8))) p bs)"
      using True less.prems by (simp add: sweep_step mem_simps write_write_commute)
    also have "\<dots> = write_at (sweep f (it + 8) stop (write_at mem it (f (read_at mem it 8)))) p bs"
      using True less.prems by (intro less.hyps) auto
    finally show ?thesis using True by (simp add: sweep_step)
  qed simp
qed

lemma sweep_below: "a < it \<Longrightarrow> sweep f it stop mem a = mem a"
proof (induction "stop - it" arbitrary: it mem rule: less_induct)
  case less
  then show ?case by (cases "it < stop") (auto simp: sweep_step mem_simps)
qed

lemma sweep_above: "stop + 7 \<le> a \<Longrightarrow> sweep f it stop mem a = mem a"
proof (induction "stop - it" arbitrary: it mem rule: less_induct)
  case less
  then show ?case by (cases "it < stop") (auto simp: sweep_step mem_simps length_step)
qed

lemma sweep_above_aligned: "8 dvd (stop - it) \<Longrightarrow> stop \<le> a \<Longrightarrow> sweep f it stop mem a = mem a"
proof (induction "stop - it" arbitrary: it mem rule: less_induct)
  case less
  show ?case
  proof (cases "it < stop")
    case True
    then have "it + 8 \<le> stop" using less.prems(1) by (auto dest: dvd_imp_le)
    moreover have "8 dvd (stop - (it + 8))"
      using less.prems(1) calculation by (metis diff_diff_left dvd_diff_nat dvd_refl)
    ultimately show ?thesis
      using True less by (simp add: sweep_step mem_simps length_step)
  qed simp
qed

lemma sweep_agree:
  assumes "8 dvd (stop - it)" and "\<And>a. it \<le> a \<Longrightarrow> a < stop \<Longrightarrow> mem a = mem' a"
    and "it \<le> a" and "a < stop"
  shows "sweep f it stop mem a = sweep f it stop mem' a"
  using assms
proof (induction "stop - it" arbitrary: it mem mem' rule: less_induct)
  case less
  have it: "it < stop" "it + 8 \<le> stop" using less.prems by (auto dest: dvd_imp_le)
  have eq: "read_at mem it 8 = read_at mem' it 8"
    using it by (intro read_at_cong) (auto intro: less.prems(2))
  show ?case
  proof (cases "a < it + 8")
    case True
    then show ?thesis using it less.prems(3) eq by (simp add: sweep_step sweep_below mem_simps length_step)
  next
    case False
    have "8 dvd (stop - (it + 8))"
      using less.prems(1) it by (metis diff_diff_left dvd_diff_nat dvd_refl)
    then show ?thesis
      using False it less.prems eq less.hyps[of "it + 8" "write_at mem it (f (read_at mem it 8))"
        "write_at mem' it (f (read_at mem' it 8))"]
      by (simp add: sweep_step mem_simps length_step)
  qed
qed

lemma sweep_unfold_last:
  "it < stop \<Longrightarrow> sweep f it stop mem = write_at (sweep f (it + 8) stop mem) it (f (read_at mem it 8))"
  by (simp add: sweep_step sweep_write_below length_step)

lemma read_sweep_below: "it + n \<le> jt \<Longrightarrow> read_at (sweep f jt stop mem) it n = read_at mem it n"
  by (rule read_at_cong) (simp add: sweep_below)

end

text \<open>Two steps in sequence, and a step with its inverse.\<close>

locale block_pair = f: block_step f + g: block_step g for f g :: "u8 list \<Rightarrow> u8 list"
begin

lemma sweep_compose: "sweep g it stop (sweep f it stop mem) = sweep (g \<circ> f) it stop mem"
proof (induction "stop - it" arbitrary: it mem rule: less_induct)
  case less
  show ?case
  proof (cases "it < stop")
    case True
    let ?M = "sweep f (it + 8) stop mem" and ?b = "read_at mem it 8"
    have "sweep g it stop (sweep f it stop mem)
        = sweep g (it + 8) stop (write_at (write_at ?M it (f ?b)) it (g (f ?b)))"
      using True
      by (simp add: sweep_step[of _ _ g] f.sweep_unfold_last mem_simps f.length_step)
    also have "\<dots> = sweep g (it + 8) stop (write_at ?M it (g (f ?b)))"
      by (simp add: mem_simps f.length_step g.length_step)
    also have "\<dots> = sweep g (it + 8) stop (sweep f (it + 8) stop (write_at mem it (g (f ?b))))"
      by (simp add: f.sweep_write_below f.length_step g.length_step)
    also have "\<dots> = sweep (g \<circ> f) (it + 8) stop (write_at mem it (g (f ?b)))"
      using True by (intro less.hyps) auto
    finally show ?thesis using True by (simp add: sweep_step[of _ _ "g \<circ> f"])
  qed simp
qed

end

locale block_cipher = block_pair f g for f g :: "u8 list \<Rightarrow> u8 list" +
  assumes inverse_step: "length bs = 8 \<Longrightarrow> g (f bs) = bs"
begin

lemma sweep_identity: "sweep (g \<circ> f) it stop mem = mem"
proof (induction "stop - it" arbitrary: it rule: less_induct)
  case less
  then show ?case
    by (cases "it < stop") (auto simp: sweep_step inverse_step mem_simps)
qed

lemma sweep_inverse: "sweep g it stop (sweep f it stop mem) = mem"
  by (simp add: sweep_compose sweep_identity)

end

section \<open>The XTEA rounds meet the contract\<close>

lemma le_halves [simp]:
  "length bs = 8 \<Longrightarrow>
   le_bytes 4 (le_word (take 4 bs) :: u32) @ le_bytes 4 (le_word (drop 4 bs) :: u32) = bs"
  using le_bytes_le_word[of "take 4 bs", where 'a=32] le_bytes_le_word[of "drop 4 bs", where 'a=32]
  by (simp add: min_def)

lemma decrypt_encrypt_round: "length bs = 8 \<Longrightarrow> decrypt_round k0 k1 (encrypt_round k0 k1 bs) = bs"
  by (simp add: decrypt_round_def encrypt_round_def Let_def)

lemma encrypt_decrypt_round: "length bs = 8 \<Longrightarrow> encrypt_round k0 k1 (decrypt_round k0 k1 bs) = bs"
  by (simp add: decrypt_round_def encrypt_round_def Let_def)

lemma length_encrypt_round [simp]: "length (encrypt_round k0 k1 bs) = 8"
  by (simp add: encrypt_round_def Let_def)

lemma length_decrypt_round [simp]: "length (decrypt_round k0 k1 bs) = 8"
  by (simp add: decrypt_round_def Let_def)

interpretation enc: block_cipher "encrypt_round k0 k1" "decrypt_round k0 k1" for k0 k1
  by unfold_locales (simp_all add: decrypt_encrypt_round)

interpretation dec: block_cipher "decrypt_round k0 k1" "encrypt_round k0 k1" for k0 k1
  by unfold_locales (simp_all add: encrypt_decrypt_round)

section \<open>Round-major and block-major loops\<close>

lemma sweep_id: "sweep (\<lambda>bs. bs) it stop mem = mem"
proof (induction "stop - it" arbitrary: it rule: less_induct)
  case less
  then show ?case by (cases "it < stop") (auto simp: sweep_step mem_simps)
qed

lemma length_fold_rounds:
  "length bs = 8 \<Longrightarrow> length (fold (\<lambda>j. encrypt_round (a j) (b j)) js bs) = 8"
  by (induction js arbitrary: bs) auto

lemma fold_sweep_rounds:
  "fold (\<lambda>j. sweep (encrypt_round (a j) (b j)) it stop) js mem
   = sweep (fold (\<lambda>j. encrypt_round (a j) (b j)) js) it stop mem"
proof (induction js rule: rev_induct)
  case Nil
  then show ?case by (simp add: sweep_id id_def)
next
  case (snoc j js)
  have "block_pair (fold (\<lambda>j. encrypt_round (a j) (b j)) js) (encrypt_round (a j) (b j))"
    by unfold_locales (simp_all add: length_fold_rounds)
  from block_pair.sweep_compose[OF this] show ?case by (simp add: snoc comp_def)
qed

section \<open>Round trip\<close>

lemma length_expand_key_loop: "length (expand_key_loop k n s t) = 2 * n"
  by (induction n arbitrary: s t) auto

lemma length_expand_key [simp]: "length (expand_key k) = 64"
  by (simp add: expand_key_def length_expand_key_loop)

lemma decrypt_encrypt: "decrypt (encrypt mem data len k) data len k = mem"
  unfolding decrypt_def encrypt_def by (rule fold_rev_inverse) (rule enc.sweep_inverse)

lemma encrypt_decrypt: "encrypt (decrypt mem data len k) data len k = mem"
  unfolding decrypt_def encrypt_def
  by (rule fold_rev_inverse[where js = "rev [0..<32]", unfolded rev_rev_ident]) (rule dec.sweep_inverse)

text \<open>
  Claim C37. Decrypting a byte range that was encrypted with the same round keys gives the memory back,
  whatever the key, the range and its length are, and so does encrypting a decrypted range.
\<close>

theorem xtea_roundtrip:
  "decrypt (encrypt mem data len (expand_key k)) data len (expand_key k) = mem \<and>
   encrypt (decrypt mem data len (expand_key k)) data len (expand_key k) = mem"
  by (simp add: decrypt_encrypt encrypt_decrypt)

text \<open>
  The loop over rounds with an inner loop over blocks, as the code has it, computes what
  enciphering the blocks one after the other, each through all 32 double rounds, computes.
\<close>

theorem encrypt_is_blockwise: "encrypt mem data len k = sweep (encrypt_block k) data (data + len) mem"
  by (simp add: encrypt_def encrypt_block_def fold_sweep_rounds)

text \<open>Encryption of a range whose length is a multiple of eight stays inside the range.\<close>

lemma block_step_encrypt_block: "block_step (encrypt_block k)"
  by unfold_locales (simp add: encrypt_block_def length_fold_rounds)

lemma encrypt_outside:
  assumes "8 dvd len" and "a < data \<or> data + len \<le> a"
  shows "encrypt mem data len k a = mem a"
proof -
  have "encrypt mem data len k = sweep (encrypt_block k) data (data + len) mem"
    by (simp add: encrypt_def encrypt_block_def fold_sweep_rounds)
  then show ?thesis
    using assms block_step.sweep_below[OF block_step_encrypt_block]
      block_step.sweep_above_aligned[OF block_step_encrypt_block, of "data + len" data]
    by auto
qed

text \<open>Decryption of an aligned range depends on the bytes of the range only.\<close>

lemma fold_decrypt_agree:
  assumes "8 dvd len" and "\<And>a. data \<le> a \<Longrightarrow> a < data + len \<Longrightarrow> mem a = mem' a"
    and "data \<le> a" and "a < data + len"
  shows "fold (\<lambda>j. sweep (decrypt_round (p j) (q j)) data (data + len)) js mem a
       = fold (\<lambda>j. sweep (decrypt_round (p j) (q j)) data (data + len)) js mem' a"
  using assms(2-)
proof (induction js arbitrary: mem mem')
  case (Cons j js)
  let ?f = "sweep (decrypt_round (p j) (q j)) data (data + len)"
  have "?f mem a = ?f mem' a" if "data \<le> a" "a < data + len" for a
    using that assms(1) by (intro enc.g.sweep_agree) (auto intro: Cons.prems(1))
  with Cons.IH[of "?f mem" "?f mem'"] Cons.prems show ?case by simp
qed simp

lemma decrypt_agree:
  assumes "8 dvd len" and "\<And>a. data \<le> a \<Longrightarrow> a < data + len \<Longrightarrow> mem a = mem' a"
    and "data \<le> a" and "a < data + len"
  shows "decrypt mem data len k a = decrypt mem' data len k a"
  unfolding decrypt_def using assms by (rule fold_decrypt_agree)

end
