(* ===== verification/Adler.thy ===== *)
theory Adler
  imports TFS_Prelude
begin

text \<open>
  \<open>adlerChecksum\<close> of \<^verbatim>\<open>src/src/tools.cpp\<close>: the packet checksum, computed in 32-bit words with
  the modulus deferred to the end of every chunk of 5552 bytes. Shown here: the deferred reductions
  never overflow, so the result is the Adler-32 checksum.
\<close>

section \<open>The code\<close>

text \<open>The inner \<open>do\<close>-\<open>while\<close> over one chunk.\<close>

fun adler_chunk :: "u32 \<Rightarrow> u32 \<Rightarrow> u8 list \<Rightarrow> u32 \<times> u32" where
  "adler_chunk a b [] = (a, b)"
| "adler_chunk a b (x # xs) = (let a' = a + ucast x in adler_chunk a' (b + a') xs)"

text \<open>The outer loop.\<close>

function adler_loop :: "u32 \<Rightarrow> u32 \<Rightarrow> u8 list \<Rightarrow> u32 \<times> u32" where
  "adler_loop a b data =
     (if data = [] then (a, b)
      else let tmp = (if length data > 5552 then 5552 else length data);
               (a', b') = adler_chunk a b (take tmp data)
           in adler_loop (a' mod 65521) (b' mod 65521) (drop tmp data))"
  by pat_completeness auto
termination
  by (relation "measure (\<lambda>(a, b, data). length data)") auto

declare adler_loop.simps [simp del]

definition adlerChecksum :: "u8 list \<Rightarrow> u32" where
  "adlerChecksum data =
     (if length data > 65500 then 0
      else let (a, b) = adler_loop 1 0 data in push_bit 16 b OR a)"

section \<open>Adler-32\<close>

text \<open>The checksum as RFC 1950 defines it, over the integers: two sums reduced modulo 65521.\<close>

fun adler_sums :: "nat \<Rightarrow> nat \<Rightarrow> u8 list \<Rightarrow> nat \<times> nat" where
  "adler_sums a b [] = (a, b)"
| "adler_sums a b (x # xs) = adler_sums (a + unat x) (b + (a + unat x)) xs"

definition adler32 :: "u8 list \<Rightarrow> nat" where
  "adler32 data = (let (a, b) = adler_sums 1 0 data in (b mod 65521) * 65536 + a mod 65521)"

text \<open>Closed form of the two sums.\<close>

fun byte_sum :: "u8 list \<Rightarrow> nat" where
  "byte_sum [] = 0"
| "byte_sum (x # xs) = unat x + byte_sum xs"

fun byte_weight :: "u8 list \<Rightarrow> nat" where
  "byte_weight [] = 0"
| "byte_weight (x # xs) = unat x * (length xs + 1) + byte_weight xs"

lemma adler_sums_closed: "adler_sums a b xs = (a + byte_sum xs, b + length xs * a + byte_weight xs)"
  by (induction a b xs rule: adler_sums.induct) (simp_all add: algebra_simps)

lemma byte_sum_bound: "byte_sum xs \<le> 255 * length xs"
  by (induction xs) (use byte_le in \<open>auto intro: add_mono\<close>)

lemma byte_weight_bound: "2 * byte_weight xs \<le> 255 * (length xs * (length xs + 1))"
proof (induction xs)
  case (Cons x xs)
  have "unat x * (length xs + 1) \<le> 255 * (length xs + 1)" by (intro mult_right_mono byte_le) simp
  with Cons show ?case by (simp add: algebra_simps)
qed simp

text \<open>A chunk of at most 5552 bytes stays below \<open>2 ^ 32\<close>.\<close>

lemma chunk_no_overflow:
  assumes "a < 65521" and "b < 65521" and "length xs \<le> 5552"
  shows "fst (adler_sums a b xs) < 2 ^ 32" and "snd (adler_sums a b xs) < 2 ^ 32"
proof -
  have n: "length xs * (length xs + 1) \<le> 5552 * 5553" using assms(3) by (intro mult_mono) auto
  have "length xs * a \<le> 5552 * 65520" using assms by (intro mult_mono) auto
  then show "snd (adler_sums a b xs) < 2 ^ 32"
    using byte_weight_bound[of xs] n assms by (simp add: adler_sums_closed)
  show "fst (adler_sums a b xs) < 2 ^ 32"
    using byte_sum_bound[of xs] assms by (simp add: adler_sums_closed)
qed

lemma adler_chunk_sums:
  assumes "fst (adler_sums (unat a) (unat b) xs) < 2 ^ 32" and "snd (adler_sums (unat a) (unat b) xs) < 2 ^ 32"
  shows "map_prod unat unat (adler_chunk a b xs) = adler_sums (unat a) (unat b) xs"
  using assms
proof (induction a b xs rule: adler_chunk.induct)
  case (2 a b x xs)
  let ?a = "a + ucast x :: u32"
  have a: "unat ?a = unat a + unat x"
    using "2.prems"(1) by (simp add: adler_sums_closed unat_word_ariths width_simps)
  have b: "unat (b + ?a) = unat b + unat ?a"
    using "2.prems"(2) a by (simp add: adler_sums_closed unat_word_ariths)
  have "map_prod unat unat (adler_chunk ?a (b + ?a) xs) = adler_sums (unat ?a) (unat (b + ?a)) xs"
    using "2.prems" a b by (intro "2.IH") simp_all
  then show ?case using a b by (simp add: Let_def)
qed simp

lemma adler_sums_append:
  "adler_sums a b (xs @ ys) = (case adler_sums a b xs of (a', b') \<Rightarrow> adler_sums a' b' ys)"
  by (induction a b xs rule: adler_sums.induct) simp_all

definition reduced :: "nat \<times> nat \<Rightarrow> nat \<times> nat" where
  "reduced = map_prod (\<lambda>a. a mod 65521) (\<lambda>b. b mod 65521)"

lemma adler_sums_reduced: "reduced (adler_sums (a mod 65521) (b mod 65521) xs) = reduced (adler_sums a b xs)"
  by (simp add: reduced_def adler_sums_closed)
    (metis (no_types, lifting) mod_add_cong mod_add_left_eq mod_mult_right_eq)

lemma adler_loop_sums:
  assumes "unat a < 65521" and "unat b < 65521"
  shows "map_prod unat unat (adler_loop a b data) = reduced (adler_sums (unat a) (unat b) data)"
  using assms
proof (induction a b data rule: adler_loop.induct)
  case (1 a b data)
  show ?case
  proof (cases "data = []")
    case True
    with "1.prems" show ?thesis by (simp add: adler_loop.simps[of a b] reduced_def)
  next
    case False
    define tmp where "tmp = (if length data > 5552 then 5552 else length data)"
    obtain a' b' where ab: "adler_chunk a b (take tmp data) = (a', b')" by fastforce
    have "map_prod unat unat (adler_chunk a b (take tmp data))
        = adler_sums (unat a) (unat b) (take tmp data)"
      using chunk_no_overflow[OF "1.prems", of "take tmp data"]
      by (intro adler_chunk_sums) (auto simp: tmp_def)
    then have sums: "adler_sums (unat a) (unat b) (take tmp data) = (unat a', unat b')"
      using ab by simp
    have "map_prod unat unat (adler_loop (a' mod 65521) (b' mod 65521) (drop tmp data))
        = reduced (adler_sums (unat (a' mod 65521)) (unat (b' mod 65521)) (drop tmp data))"
      using False ab tmp_def by (intro "1.IH") (auto simp: unat_mod)
    also have "\<dots> = reduced (adler_sums (unat a) (unat b) (take tmp data @ drop tmp data))"
      unfolding adler_sums_append sums by (simp add: unat_mod adler_sums_reduced)
    finally show ?thesis
      using False ab tmp_def by (simp add: adler_loop.simps[of a b] Let_def)
  qed
qed

text \<open>
  Claim C40. On every packet the buffer can hold, the checksum is the Adler-32 checksum of its bytes: the
  sums that the code lets grow over 5552 bytes before reducing them never leave 32 bits.
\<close>

theorem adlerChecksum_is_adler32:
  assumes "length data \<le> 65500"
  shows "unat (adlerChecksum data) = adler32 data"
proof -
  obtain a b where ab: "adler_loop 1 0 data = (a, b)" by fastforce
  obtain x y where xy: "adler_sums 1 0 data = (x, y)" by fastforce
  have "unat a = x mod 65521 \<and> unat b = y mod 65521"
    using adler_loop_sums[of 1 0 data] ab xy by (simp add: reduced_def)
  then show ?thesis
    using assms unat_push_or[of a 16 b]
    by (auto simp: adlerChecksum_def adler32_def ab xy[unfolded One_nat_def])
qed

theorem adlerChecksum_witness: "unat (adlerChecksum [87, 105, 107, 105]) = adler32 [87, 105, 107, 105]
    \<and> adler32 [87, 105, 107, 105] = 0x03DA0195"
  using adlerChecksum_is_adler32[of "[87, 105, 107, 105]"] by (simp add: adler32_def)

end
