(* ===== verification/Framing.thy ===== *)
theory Framing
  imports NetMessage Xtea Adler
begin

text \<open>
  Packet framing: \<^verbatim>\<open>src/src/outputmessage.h\<close> (headers in front of the body),
  \<^verbatim>\<open>src/src/protocol.cpp\<close> (padding and encryption) and the receiving half in
  \<^verbatim>\<open>src/src/connection.cpp\<close> (length header, checksum) and \<^verbatim>\<open>protocol.cpp\<close>
  (decryption). A frame is: length (2 bytes), Adler-32 checksum (4 bytes), and the XTEA-encrypted
  inner length (2 bytes), body and padding.
\<close>

section \<open>Outgoing messages\<close>

record OutputMessage = NetworkMessage +
  outputBufferStart :: u16

definition new_output_message :: OutputMessage where
  "new_output_message = \<lparr>msg_length = 0, position = of_nat INITIAL_BUFFER_POSITION, overrun = False,
     buffer = (\<lambda>_. 0), outputBufferStart = of_nat INITIAL_BUFFER_POSITION\<rparr>"

text \<open>
  \<open>add_header\<close>: in a release build the failed assertion is an early return.
\<close>

definition add_header :: "'w::len word \<Rightarrow> OutputMessage \<Rightarrow> OutputMessage" where
  "add_header v m = (let n = LENGTH('w) div 8 in
     if unat (outputBufferStart m) < n then m
     else let start = outputBufferStart m - of_nat n in
       m\<lparr>outputBufferStart := start,
         buffer := write_at (buffer m) (unat start) (le_bytes n v),
         msg_length := msg_length m + of_nat n\<rparr>)"

definition writeMessageLength :: "OutputMessage \<Rightarrow> OutputMessage" where
  "writeMessageLength m = add_header (msg_length m) m"

definition addCryptoHeader :: "bool \<Rightarrow> OutputMessage \<Rightarrow> OutputMessage" where
  "addCryptoHeader addChecksum m = writeMessageLength
     (if addChecksum
      then add_header (adlerChecksum
             (read_at (buffer m) (unat (outputBufferStart m)) (unat (msg_length m)))) m
      else m)"

definition append_message :: "('b) NetworkMessage_scheme \<Rightarrow> OutputMessage \<Rightarrow> OutputMessage" where
  "append_message msg m =
     (let msgLen = msg_length msg in
      if uint (position m) + uint msgLen > int NETWORKMESSAGE_MAXSIZE then m
      else m\<lparr>buffer := write_at (buffer m) (unat (position m)) (read_at (buffer msg) 8 (unat msgLen)),
             msg_length := msg_length m + msgLen, position := position m + msgLen\<rparr>)"

definition append_bytes :: "u8 list \<Rightarrow> OutputMessage \<Rightarrow> OutputMessage" where
  "append_bytes bytes m =
     (if bytes = [] then m
      else if unat (position m) + length bytes > NETWORKMESSAGE_MAXSIZE then m
      else m\<lparr>buffer := write_at (buffer m) (unat (position m)) bytes,
             msg_length := msg_length m + of_nat (length bytes),
             position := position m + of_nat (length bytes)\<rparr>)"

section \<open>Encryption of messages\<close>

definition XTEA_encrypt :: "OutputMessage \<Rightarrow> u32 list \<Rightarrow> OutputMessage" where
  "XTEA_encrypt msg k =
     (let paddingBytes = unat (msg_length msg) mod 8;
          m = (if paddingBytes \<noteq> 0 then addPaddingBytes (of_nat (8 - paddingBytes)) msg else msg)
      in m\<lparr>buffer := encrypt (buffer m) (unat (outputBufferStart m)) (unat (msg_length m)) k\<rparr>)"

definition XTEA_decrypt :: "('b) NetworkMessage_scheme \<Rightarrow> u32 list \<Rightarrow> bool \<times> ('b) NetworkMessage_scheme" where
  "XTEA_decrypt msg k =
     (if (uint (msg_length msg) - 6) AND 7 \<noteq> 0 then (False, msg)
      else
        let m = msg\<lparr>buffer :=
              decrypt (buffer msg) (unat (position msg)) (nat (uint (msg_length msg) - 6)) k\<rparr>;
            (innerLength, m') = get m :: u16 \<times> _
        in if uint innerLength + 8 > uint (msg_length m') then (False, m')
           else (True, m'\<lparr>msg_length := innerLength\<rparr>))"

section \<open>The protocol\<close>

record Protocol =
  key :: "u32 list"
  encryptionEnabled :: bool
  checksumEnabled :: bool
  rawMessages :: bool
  outputBuffer :: "OutputMessage option"

definition new_protocol :: Protocol where
  "new_protocol = \<lparr>key = replicate 64 0, encryptionEnabled = False, checksumEnabled = True,
     rawMessages = False, outputBuffer = None\<rparr>"

definition setXTEAKey :: "u32 list \<Rightarrow> Protocol \<Rightarrow> Protocol" where
  "setXTEAKey k p = p\<lparr>key := expand_key k\<rparr>"

definition onSendMessage :: "Protocol \<Rightarrow> OutputMessage \<Rightarrow> OutputMessage" where
  "onSendMessage p msg =
     (if \<not> rawMessages p
      then let m = writeMessageLength msg in
        if encryptionEnabled p then addCryptoHeader (checksumEnabled p) (XTEA_encrypt m (key p)) else m
      else msg)"

text \<open>\<open>onRecvMessage\<close>: the message handed to \<open>parsePacket\<close>, if any.\<close>

definition onRecvMessage :: "Protocol \<Rightarrow> ('b) NetworkMessage_scheme \<Rightarrow> ('b) NetworkMessage_scheme option" where
  "onRecvMessage p msg =
     (if encryptionEnabled p
      then (case XTEA_decrypt msg (key p) of (False, _) \<Rightarrow> None | (True, m) \<Rightarrow> Some m)
      else Some msg)"

text \<open>
  \<open>getOutputBuffer\<close>: the protocol with its current buffer, the messages passed to \<open>send\<close>, and whether
  the protocol is handed to the autosend pool.
\<close>

definition getOutputBuffer :: "int \<Rightarrow> Protocol \<Rightarrow> Protocol \<times> OutputMessage list \<times> bool" where
  "getOutputBuffer sz p =
     (case outputBuffer p of
        None \<Rightarrow> (p\<lparr>outputBuffer := Some new_output_message\<rparr>, [], True)
      | Some b \<Rightarrow>
          if uint (msg_length b) + sz > int MAX_PROTOCOL_BODY_LENGTH
          then (p\<lparr>outputBuffer := Some new_output_message\<rparr>, [b], True)
          else (p, [], False))"

section \<open>Receiving\<close>

text \<open>
  \<open>parseHeader\<close> and \<open>parsePacket\<close> of a connection, as far as they work on the message: the two header
  bytes and then the announced number of bytes are read from the socket into the buffer. \<open>None\<close> is the
  forced close on a bad size.
\<close>

definition receive_frame :: "u8 list \<Rightarrow> u8 list \<Rightarrow> NetworkMessage \<Rightarrow> NetworkMessage option" where
  "receive_frame header payload msg =
     (let m = msg\<lparr>buffer := write_at (buffer msg) 0 header\<rparr>;
          sz = getLengthHeader m
      in if sz = 0 \<or> uint sz \<ge> int NETWORKMESSAGE_MAXSIZE - 16 then None
         else let m1 = m\<lparr>msg_length := sz + of_nat HEADER_LENGTH\<rparr>;
                  (start, m2) = getBodyBuffer m1
              in Some (m2\<lparr>buffer := write_at (buffer m2) start (take (unat sz) payload)\<rparr>))"

definition check_checksum :: "NetworkMessage \<Rightarrow> bool \<times> NetworkMessage" where
  "check_checksum m =
     (let len = uint (msg_length m) - uint (position m) - int CHECKSUM_LENGTH;
          checksum = (if len > 0
            then adlerChecksum (read_at (buffer m) (unat (position m) + CHECKSUM_LENGTH) (nat len))
            else 0);
          (recvChecksum, m1) = get m
      in (recvChecksum = checksum,
          if recvChecksum \<noteq> checksum then skipBytes (- of_nat CHECKSUM_LENGTH) m1 else m1))"

text \<open>A packet of an established session, from the wire to \<open>parsePacket\<close> of the protocol.\<close>

definition receive_packet :: "Protocol \<Rightarrow> u8 list \<Rightarrow> NetworkMessage \<Rightarrow> NetworkMessage option" where
  "receive_packet p bytes msg =
     (case receive_frame (take 2 bytes) (drop 2 bytes) msg of
        None \<Rightarrow> None
      | Some m \<Rightarrow> onRecvMessage p (snd (check_checksum m)))"

text \<open>What \<open>internalSend\<close> writes to the socket.\<close>

definition wire_bytes :: "OutputMessage \<Rightarrow> u8 list" where
  "wire_bytes m = read_at (buffer m) (unat (outputBufferStart m)) (unat (msg_length m))"

section \<open>The format of a frame\<close>

definition out_ok :: "OutputMessage \<Rightarrow> bool" where
  "out_ok m \<longleftrightarrow> writer_ok m \<and> outputBufferStart m = 8"

lemma out_ok_new [simp]: "out_ok new_output_message"
  by (simp add: out_ok_def writer_ok_def new_output_message_def message_consts)

text \<open>The size of the encrypted part: inner length and body, rounded up to blocks.\<close>

definition padded :: "nat \<Rightarrow> nat" where
  "padded L = 8 * ((L + 9) div 8)"

lemma padded_bounds: "L + 2 \<le> padded L" "padded L < L + 10" "8 dvd padded L"
  unfolding padded_def by (auto simp: dvd_def)

lemma padded_eq: "padded L = L + 2 + (if (L + 2) mod 8 = 0 then 0 else 8 - (L + 2) mod 8)"
  unfolding padded_def by presburger

abbreviation body_len :: "OutputMessage \<Rightarrow> nat" where
  "body_len m \<equiv> unat (msg_length m)"

lemma out_ok_bound: "out_ok m \<Longrightarrow> body_len m + 8 < 65486 \<and> unat (position m) = body_len m + 8"
  by (simp add: out_ok_def writer_ok_def message_consts)

lemma writeMessageLength_first:
  "out_ok m \<Longrightarrow> writeMessageLength m = m\<lparr>outputBufferStart := 6,
     buffer := write_at (buffer m) 6 (le_bytes 2 (msg_length m)), msg_length := msg_length m + 2\<rparr>"
  by (simp add: writeMessageLength_def add_header_def out_ok_def Let_def)

text \<open>The plain text of a frame in memory: the sender's buffer before it is encrypted.\<close>

definition plain_buffer :: "OutputMessage \<Rightarrow> memory" where
  "plain_buffer m =
     (let B = write_at (buffer m) 6 (le_bytes 2 (msg_length m)); L = body_len m in
      if (L + 2) mod 8 = 0 then B
      else write_at B (L + 8) (replicate (8 - (L + 2) mod 8) 0x33))"

lemma plain_buffer_body:
  "read_at (plain_buffer m) 6 (2 + body_len m) = le_bytes 2 (msg_length m) @ body m"
  unfolding read_at_append by (simp add: plain_buffer_def Let_def mem_simps body_def)

lemma addPaddingBytes_first:
  assumes "out_ok m" and "body_len m + 8 + pad < 65486"
  shows "addPaddingBytes (of_nat pad) (writeMessageLength m) = m\<lparr>outputBufferStart := 6,
     buffer := write_at (write_at (buffer m) 6 (le_bytes 2 (msg_length m))) (body_len m + 8)
       (replicate pad 0x33), msg_length := of_nat (body_len m + 2 + pad)\<rparr>"
  using assms out_ok_bound[OF assms(1)]
  by (simp add: addPaddingBytes_nat writeMessageLength_first fits_def message_consts)

lemma XTEA_encrypt_first:
  assumes "out_ok m" and "padded (body_len m) < 65480"
  shows "XTEA_encrypt (writeMessageLength m) k = m\<lparr>outputBufferStart := 6,
     buffer := encrypt (plain_buffer m) 6 (padded (body_len m)) k,
     msg_length := of_nat (padded (body_len m))\<rparr>"
proof -
  let ?L = "body_len m" and ?r = "(body_len m + 2) mod 8"
  have len: "unat (msg_length m + 2) = ?L + 2"
    using out_ok_bound[OF assms(1)] unat_add_of_nat[of "msg_length m" 2] by simp
  have P: "unat (of_nat (padded ?L) :: u16) = padded ?L"
    using assms(2) by (intro unat_of_nat_lt) simp
  show ?thesis
  proof (cases "?r = 0")
    case True
    then have "padded ?L = ?L + 2" by (simp add: padded_eq)
    with True len show ?thesis
      by (simp add: XTEA_encrypt_def writeMessageLength_first[OF assms(1)] Let_def plain_buffer_def)
  next
    case False
    then have pad: "?L + 2 + (8 - ?r) = padded ?L" by (simp add: padded_eq)
    then have "?L + 8 + (8 - ?r) < 65486" using assms(2) by linarith
    note pb = addPaddingBytes_first[OF assms(1) this, unfolded pad]
    have "unat (msg_length (writeMessageLength m)) mod 8 = ?r"
      using len by (simp add: writeMessageLength_first[OF assms(1)])
    with False P show ?thesis
      by (simp only: XTEA_encrypt_def Let_def pb) (simp add: plain_buffer_def Let_def)
  qed
qed

lemma wire_format:
  assumes "out_ok m" and "padded (body_len m) < 65480"
    and "\<not> rawMessages p" and "encryptionEnabled p" and "checksumEnabled p"
  defines "P \<equiv> padded (body_len m)"
  defines "C \<equiv> read_at (encrypt (plain_buffer m) 6 P (key p)) 6 P"
  shows "wire_bytes (onSendMessage p m)
    = le_bytes 2 (of_nat (P + 4) :: u16) @ le_bytes 4 (adlerChecksum C) @ C"
proof -
  have PC: "unat (of_nat P :: u16) = P" "unat (of_nat P + 4 :: u16) = P + 4"
    "unat (of_nat P + 6 :: u16) = P + 6"
    using assms(2) P_def unat_of_nat_lt[of P, where 'a=16] unat_of_nat_lt[of "P + 4", where 'a=16]
      unat_of_nat_lt[of "P + 6", where 'a=16] by (simp_all add: add.commute)
  let ?E = "encrypt (plain_buffer m) 6 P (key p)"
  let ?B = "write_at (write_at ?E 2 (le_bytes 4 (adlerChecksum C))) 0 (le_bytes 2 (of_nat P + 4 :: u16))"
  have "onSendMessage p m
      = m\<lparr>outputBufferStart := 0, buffer := ?B, msg_length := of_nat P + 6\<rparr>"
    using XTEA_encrypt_first[OF assms(1,2), of "key p"] assms(3-5) PC
    by (simp add: onSendMessage_def addCryptoHeader_def add_header_def Let_def P_def[symmetric]
          C_def[symmetric])
      (simp add: writeMessageLength_def add_header_def Let_def)
  then have "wire_bytes (onSendMessage p m) = read_at ?B 0 (2 + (4 + P))"
    using PC by (simp add: wire_bytes_def add.commute)
  also have "\<dots> = le_bytes 2 (of_nat P + 4 :: u16) @ le_bytes 4 (adlerChecksum C) @ C"
    unfolding read_at_append by (simp add: mem_simps C_def)
  finally show ?thesis by (simp add: add.commute)
qed

section \<open>Receiving what was sent\<close>

lemma getLengthHeader_le: "buffer m 0 = b \<Longrightarrow> buffer m 1 = c \<Longrightarrow> getLengthHeader m = le_word [b, c]"
  by (simp add: getLengthHeader_def)

lemma receive_frame_ok:
  assumes "length payload = n" and "0 < n" and "n < 65484"
  shows "receive_frame (le_bytes 2 (of_nat n :: u16)) payload msg
    = Some (msg\<lparr>buffer := write_at (write_at (buffer msg) 0 (le_bytes 2 (of_nat n :: u16))) 2 payload,
        msg_length := of_nat (n + 2), position := 2\<rparr>)"
proof -
  let ?h = "le_bytes 2 (of_nat n :: u16)"
  let ?m = "msg\<lparr>buffer := write_at (buffer msg) 0 ?h\<rparr>"
  have n: "unat (of_nat n :: u16) = n" using assms by (intro unat_of_nat_lt) simp
  have "getLengthHeader ?m = le_word [?h ! 0, ?h ! 1]"
    by (rule getLengthHeader_le) (simp_all add: mem_simps)
  also have "[?h ! 0, ?h ! 1] = ?h" by (simp add: numeral_2_eq_2)
  finally have h: "getLengthHeader ?m = of_nat n" by simp
  have u: "uint (of_nat n :: u16) = int n" using arg_cong[OF n, of int] by simp
  have "(of_nat n :: u16) \<noteq> 0" using n assms(2) by (metis unat_0 less_numeral_extra(3))
  then show ?thesis
    using assms h n u by (simp add: receive_frame_def Let_def getBodyBuffer_def message_consts)
qed

lemma check_checksum_ok:
  assumes "msg_length m = of_nat (P + 6)" and "position m = 2" and "0 < P" and "P < 65480"
    and "read_at (buffer m) 2 (4 + P) = le_bytes 4 (adlerChecksum C) @ C" and "length C = P"
  shows "check_checksum m = (True, m\<lparr>position := 6\<rparr>)"
proof -
  have len: "unat (msg_length m) = P + 6" unfolding assms(1) using assms(4) by (intro unat_of_nat_lt) simp
  have u: "uint (msg_length m) = int P + 6" using arg_cong[OF len, of int] by simp
  have C: "read_at (buffer m) 2 4 = le_bytes 4 (adlerChecksum C)" "read_at (buffer m) 6 P = C"
    using assms(5,6) by (simp_all add: read_at_append)
  have "get m = (adlerChecksum C, m\<lparr>position := 6\<rparr>)"
    using assms(2) u C(1) assms(4) by (simp add: get_def canRead_def Let_def message_consts)
  with assms(2,3) u C(2) show ?thesis
    by (simp add: check_checksum_def Let_def message_consts)
qed

lemma and_7_mod: "x AND 7 = x mod 8" for x :: int
  using take_bit_eq_mask[of 3 x] by (simp add: take_bit_eq_mod mask_eq_exp_minus_1)

lemma XTEA_decrypt_ok:
  assumes "msg_length m = of_nat (P + 6)" and "position m = 6" and "8 dvd P" and "P < 65480"
    and "read_at (buffer m) 6 P = read_at (encrypt B 6 P k) 6 P"
    and "read_at B 6 (2 + L) = le_bytes 2 (of_nat L :: u16) @ bs" and "length bs = L" and "L + 2 \<le> P"
  shows "\<exists>m'. XTEA_decrypt m k = (True, m') \<and> pending m' = bs \<and> overrun m' = overrun m
    \<and> msg_length m' = of_nat L \<and> position m' = 8"
proof -
  let ?D = "decrypt (buffer m) 6 P k"
  have len: "unat (msg_length m) = P + 6" unfolding assms(1) using assms(4) by (intro unat_of_nat_lt) simp
  have u: "uint (msg_length m) = int P + 6" using arg_cong[OF len, of int] by simp
  have L: "unat (of_nat L :: u16) = L" using assms(4,8) by (intro unat_of_nat_lt) simp
  have uL: "uint (of_nat L :: u16) = int L" using arg_cong[OF L, of int] by simp
  have "buffer m a = encrypt B 6 P k a" if "6 \<le> a" "a < 6 + P" for a
    using arg_cong[OF assms(5), of "\<lambda>xs. xs ! (a - 6)"] that by simp
  then have D: "?D a = B a" if "6 \<le> a" "a < 6 + P" for a
    using decrypt_agree[OF assms(3), of 6 "buffer m" "encrypt B 6 P k" a k] that
    by (simp add: decrypt_encrypt)
  have "read_at ?D 6 (2 + L) = read_at B 6 (2 + L)"
    using assms(8) by (intro read_at_cong) (simp add: D)
  then have r: "read_at ?D 6 2 = le_bytes 2 (of_nat L :: u16)" "read_at ?D 8 L = bs"
    using assms(6,7) by (simp_all add: read_at_append)
  have "int P AND 7 = 0" using assms(3) by (auto simp: and_7_mod elim!: dvdE)
  then show ?thesis
    using assms(2,4,8) u uL L r
    by (simp add: XTEA_decrypt_def get_def canRead_def Let_def message_consts pending_def)
qed

text \<open>
  Claim C1. A message that one protocol object encrypts, checksums and sends is received by a peer with
  the same key as exactly the body that was written, with the reader at its first byte, whatever the
  peer's buffer held before. The limit: with its length field and padding the body is shorter than 65480
  bytes, so it has at most 65470 (\<open>padded_fits\<close>); the padding of longer ones is dropped.
\<close>

theorem frame_roundtrip:
  assumes "out_ok m" and "padded (unat (msg_length m)) < 65480"
    and "\<not> rawMessages p" and "encryptionEnabled p" and "checksumEnabled p"
    and "encryptionEnabled q" and "key q = key p"
  shows "\<exists>r. receive_packet q (wire_bytes (onSendMessage p m)) msg = Some r
    \<and> pending r = body m \<and> overrun r = overrun msg"
proof -
  let ?P = "padded (body_len m)"
  define C where "C = read_at (encrypt (plain_buffer m) 6 ?P (key p)) 6 ?P"
  let ?pl = "le_bytes 4 (adlerChecksum C) @ C"
  have lenC: "length C = ?P" by (simp add: C_def)
  have wire: "wire_bytes (onSendMessage p m) = le_bytes 2 (of_nat (?P + 4) :: u16) @ ?pl"
    unfolding C_def by (rule wire_format[OF assms(1-5)])
  define m1 where "m1 = msg\<lparr>buffer := write_at (write_at (buffer msg) 0 (le_bytes 2 (of_nat (?P + 4) :: u16))) 2 ?pl,
        msg_length := of_nat (?P + 6), position := 2\<rparr>"
  have r1: "receive_frame (take 2 (wire_bytes (onSendMessage p m))) (drop 2 (wire_bytes (onSendMessage p m))) msg
      = Some m1"
    unfolding wire using receive_frame_ok[of ?pl "?P + 4" msg] assms(2) lenC
    by (simp add: m1_def add.assoc)
  have body1: "read_at (buffer m1) 2 (4 + ?P) = ?pl"
    by (simp add: m1_def mem_simps lenC)
  have c: "check_checksum m1 = (True, m1\<lparr>position := 6\<rparr>)"
    using assms(2) padded_bounds(1)[of "body_len m"] body1 lenC
    by (intro check_checksum_ok[where P = ?P and C = C]) (simp_all add: m1_def)
  have "read_at (buffer m1) 6 ?P = C"
    using body1 by (simp add: read_at_append)
  then have "\<exists>r. XTEA_decrypt (m1\<lparr>position := 6\<rparr>) (key p) = (True, r) \<and> pending r = body m
      \<and> overrun r = overrun (m1\<lparr>position := 6\<rparr>) \<and> msg_length r = of_nat (body_len m) \<and> position r = 8"
    using assms(2) padded_bounds[of "body_len m"] plain_buffer_body[of m]
    by (intro XTEA_decrypt_ok[where P = ?P and B = "plain_buffer m"])
      (simp_all add: m1_def C_def body_def)
  then show ?thesis
    using r1 c assms(6,7) by (auto simp: receive_packet_def onRecvMessage_def m1_def)
qed

definition session_protocol :: Protocol where
  "session_protocol = (setXTEAKey [1, 2, 3, 4] new_protocol)\<lparr>encryptionEnabled := True\<rparr>"

theorem frame_roundtrip_witness:
  "\<exists>r. receive_packet session_protocol
        (wire_bytes (onSendMessage session_protocol (addByte 0x1E new_output_message))) new_message = Some r
    \<and> pending r = body (addByte 0x1E new_output_message) \<and> overrun r = overrun new_message"
proof (rule frame_roundtrip)
  show "out_ok (addByte 0x1E new_output_message)"
    using out_ok_new by (simp add: addByte_def out_ok_def put_bytes_def)
      (simp add: writer_ok_def new_output_message_def message_consts)
  show "padded (unat (msg_length (addByte 0x1E new_output_message))) < 65480"
    by (simp add: addByte_def fits_def put_bytes_def new_output_message_def message_consts padded_def)
qed (simp_all add: session_protocol_def setXTEAKey_def new_protocol_def)

section \<open>The size limits\<close>

lemma padded_fits: "padded L < 65480 \<longleftrightarrow> L \<le> 65470"
  unfolding padded_def by presburger

lemma XTEA_encrypt_unpadded:
  assumes "out_ok m" and "body_len m \<le> MAX_PROTOCOL_BODY_LENGTH" and "65470 < body_len m"
  shows "msg_length (XTEA_encrypt (writeMessageLength m) k) = msg_length m + 2"
    and "(body_len m + 2) mod 8 \<noteq> 0"
proof -
  have L: "body_len m \<in> {65471..65476}" using assms(2,3) by (simp add: message_consts)
  then show r: "(body_len m + 2) mod 8 \<noteq> 0" by simp presburger
  have len: "unat (msg_length m + 2) = body_len m + 2"
    using L unat_add_of_nat[of "msg_length m" 2] by simp
  have "\<not> body_len m + 8 + (8 - (body_len m + 2) mod 8) < 65486" using L by simp presburger
  then have "\<not> fits (8 - (body_len m + 2) mod 8) (writeMessageLength m)"
    using out_ok_bound[OF assms(1)]
    by (simp add: fits_def writeMessageLength_first[OF assms(1)] message_consts)
  then show "msg_length (XTEA_encrypt (writeMessageLength m) k) = msg_length m + 2"
    using len by (simp add: XTEA_encrypt_def Let_def addPaddingBytes_nat writeMessageLength_first[OF assms(1)] del: of_nat_diff)
qed

text \<open>
  Which messages reach the peer in whole cipher blocks: among the bodies the autosend buffer
  may hold (up to \<open>MAX_PROTOCOL_BODY_LENGTH\<close>, 65476 bytes) exactly those of at most 65470 bytes. For the
  six largest sizes the padding no longer passes \<open>canAdd\<close> and is silently dropped, so the encrypted
  part is no multiple of the block size.
\<close>

theorem padding_limit:
  assumes "out_ok m" and "unat (msg_length m) \<le> MAX_PROTOCOL_BODY_LENGTH"
  shows "unat (msg_length (XTEA_encrypt (writeMessageLength m) k)) mod 8 = 0
    \<longleftrightarrow> unat (msg_length m) \<le> 65470"
proof (cases "body_len m \<le> 65470")
  case True
  then have P: "padded (body_len m) < 65480" by (simp add: padded_fits)
  then have "unat (of_nat (padded (body_len m)) :: u16) mod 8 = 0"
    using padded_bounds(3)[of "body_len m"] by (simp add: unat_of_nat_lt mod_eq_0_iff_dvd)
  with True show ?thesis using XTEA_encrypt_first[OF assms(1) P, of k] by simp
next
  case False
  have "unat (msg_length m + 2) = body_len m + 2"
    using assms(2) unat_add_of_nat[of "msg_length m" 2] by (simp add: message_consts)
  with False show ?thesis
    using XTEA_encrypt_unpadded(1)[OF assms, of k] XTEA_encrypt_unpadded(2)[OF assms] by simp
qed

theorem padding_limit_witness:
  "unat (msg_length (XTEA_encrypt (writeMessageLength
      (new_output_message\<lparr>msg_length := 65476, position := 65484\<rparr>)) (replicate 64 0))) mod 8 \<noteq> 0"
  using padding_limit[of "new_output_message\<lparr>msg_length := 65476, position := 65484\<rparr>" "replicate 64 0"]
  by (simp add: out_ok_def writer_ok_def new_output_message_def message_consts)

text \<open>
  The autosend buffer keeps its promise: after \<open>getOutputBuffer(size)\<close> the current buffer is
  well formed and takes \<open>size\<close> more bytes, and the only message flushed is the one that could not.
\<close>

theorem getOutputBuffer_room:
  assumes "\<forall>b. outputBuffer p = Some b \<longrightarrow> out_ok b" and "0 \<le> sz" and "sz \<le> int MAX_PROTOCOL_BODY_LENGTH"
  shows "case getOutputBuffer sz p of (p', sent, _) \<Rightarrow>
    (\<exists>b. outputBuffer p' = Some b \<and> out_ok b \<and> fits (nat sz) b)
    \<and> (\<forall>b \<in> set sent. outputBuffer p = Some b \<and> uint (msg_length b) + sz > int MAX_PROTOCOL_BODY_LENGTH)"
proof -
  have new: "fits (nat sz) new_output_message"
    using assms(3) by (simp add: fits_def new_output_message_def message_consts)
  have old: "fits (nat sz) b" if "out_ok b" "\<not> uint (msg_length b) + sz > int MAX_PROTOCOL_BODY_LENGTH" for b
    using that assms(2) unfolding uint_nat
    by (simp add: fits_def out_ok_def writer_ok_def message_consts del: of_nat_unat)
  show ?thesis using assms(1) new old by (auto simp: getOutputBuffer_def split: option.splits)
qed

theorem getOutputBuffer_room_witness:
  "case getOutputBuffer 100 (new_protocol\<lparr>outputBuffer := Some new_output_message\<rparr>) of (p', sent, _) \<Rightarrow>
    (\<exists>b. outputBuffer p' = Some b \<and> out_ok b \<and> fits (nat 100) b)
    \<and> (\<forall>b \<in> set sent. outputBuffer (new_protocol\<lparr>outputBuffer := Some new_output_message\<rparr>) = Some b
         \<and> uint (msg_length b) + 100 > int MAX_PROTOCOL_BODY_LENGTH)"
  using getOutputBuffer_room[of "new_protocol\<lparr>outputBuffer := Some new_output_message\<rparr>" 100]
  by (simp add: message_consts)

end
