(* ===== verification/Spec2Isabelle.thy ===== *)
theory Spec2Isabelle
  imports HouseRuns SpectatorRuns Money ItemRoundtrip ConditionEnding Chats Advancement PathSearch OnlinePlayers AreaCombats RateLimiter FileLoader PropStreams Framing
begin

text \<open>
  A verification library for The Forgotten Server, 8.60 downgrade (\<^verbatim>\<open>src/src\<close>): the server of a multiplayer game in
  C++. Clients connect over TCP; frames are checked, decrypted (\<^verbatim>\<open>connection.cpp\<close>, \<^verbatim>\<open>protocol.cpp\<close>) and turned into
  requests to one \<^verbatim>\<open>Game\<close> object, which runs on one thread and owns the map, the creatures, the items, the parties and
  the chat. So every request is one step on the state; interleaving is the order of requests. Scripts in Lua are called at
  fixed points and may refuse; players are stored in a database as streams of bytes.

  \<^bold>\<open>How the code is modelled.\<close> Classes are records, enumerations and variants are datatypes, unsigned integers are
  words of their width, signed ones are words that \<open>sint\<close> reads; operations are functions with the names of the source.
  Pointers are numbers where objects share or point to each other (containers, parties, conditions, leaves of the map), a weak pointer can be locked while
  its number is in the map of living objects. An exception, a failed read, an access through a null pointer and a loop
  that does not end are \<open>None\<close>. Script callbacks, tiles as the search asks for them, clocks and floating point results
  are arguments, so the theorems hold whatever they answer. Packets and texts sent to clients do not change the modelled
  state and are left out, except who receives a chat message.

  \<^bold>\<open>The theories\<close>, in the order of the layers:

  \<^item> \<open>TFS_Prelude\<close>, \<open>Assoc\<close>, \<open>Enums\<close>, \<open>Positions\<close>: machine types, little-endian bytes, memories of bytes, keyed lists
    (\<^verbatim>\<open>std::map\<close>), result codes, and \<^verbatim>\<open>position.h\<close> with the directions of \<^verbatim>\<open>tools.cpp\<close>.
  \<^item> \<open>Codec\<close>: the contract of a writer and its reader (locale \<open>stream_codec\<close>), with the round trip of a sequence of
    values. It is interpreted by the messages of \<open>NetMessage\<close> (\<^verbatim>\<open>networkmessage.h\<close>) and by the property streams of
    \<open>PropStreams\<close> (\<^verbatim>\<open>fileloader.h\<close>), on which the storage of conditions and of items rests.
  \<^item> \<open>Xtea\<close> (\<^verbatim>\<open>xtea.cpp\<close>), \<open>Adler\<close> (\<^verbatim>\<open>tools.cpp\<close>), \<open>Framing\<close> (\<^verbatim>\<open>outputmessage.h\<close>, \<^verbatim>\<open>protocol.cpp\<close>, \<^verbatim>\<open>connection.cpp\<close>):
    the cipher works round by round over a buffer; the locales \<open>block_step\<close>, \<open>block_pair\<close> and \<open>block_cipher\<close> lift the
    inversion of one round to a buffer. The checksum with its postponed reductions is Adler-32. A frame that is sent is
    accepted and read back.
  \<^item> \<open>RateLimiter\<close> (\<^verbatim>\<open>connection_rate_limiter.cpp\<close>): entries and expiry index always match, a block is kept until its end,
    with clocks that wrap.
  \<^item> \<open>FileLoader\<close> (\<^verbatim>\<open>fileloader.cpp\<close>): the parser of node files returns what a writer serialised, and every range it
    returns lies inside the file.
  \<^item> \<open>WildcardTree\<close>, \<open>OnlinePlayers\<close> (\<^verbatim>\<open>wildcardtree.cpp\<close>, \<^verbatim>\<open>game.cpp\<close>): the prefix tree implements a set of names (locale
    \<open>name_index\<close>); in every registry that admitted logins lead to, the wildcard finds the player whose name it
    starts, among those who hold their name: all players online, unless a character is shared.
  \<^item> \<open>Strings\<close> (\<^verbatim>\<open>tools.cpp\<close>): splitting, replacing, trimming and the formatting of player names.
  \<^item> \<open>MatrixAreas\<close>, \<open>AreaCombats\<close> (\<^verbatim>\<open>matrixarea.cpp\<close>, \<^verbatim>\<open>combat.cpp\<close>): areas of a combat, their rotations, and the tiles
    they cover.
  \<^item> \<open>Parties\<close> (\<^verbatim>\<open>party.cpp\<close>) and \<open>Chats\<close> (\<^verbatim>\<open>chat.cpp\<close>): all requests as steps of an inductive reachability; players
    and parties agree about membership, and a private channel is heard by its owner and its guests only, as long as
    every character is played once. The level limit of shared experience is the rounded \<^verbatim>\<open>float\<close> of the source.
  \<^item> \<open>Advancement\<close> (\<^verbatim>\<open>player.cpp\<close>): experience, skills and magic levels up and down again.
  \<^item> \<open>SightLines\<close>, \<open>AStar\<close>, \<open>PathSearch\<close> (\<^verbatim>\<open>map.cpp\<close>, \<^verbatim>\<open>creature.cpp\<close>): lines of sight end, and are mutual where only the floor itself counts; heap and hash table
    of the search are a priority queue (locale \<open>open_list\<close>) and a map; the search returns, and a path it finds can be walked
    to the goal.
  \<^item> \<open>QuadTree\<close>, \<open>Spectators\<close>, \<open>SpectatorRuns\<close> (\<^verbatim>\<open>map.cpp\<close>, \<^verbatim>\<open>spectators.h\<close>, \<^verbatim>\<open>tile.cpp\<close>): the leaves of the map form a grid linked to
    the east and the south (locale \<open>leaf_grid\<close>); the walk along the links and the cache find exactly the creatures in range.
  \<^item> \<open>Conditions\<close>, \<open>ConditionStore\<close>, \<open>ConditionEffects\<close>, \<open>CreatureConditions\<close>, \<open>ConditionBalance\<close>, \<open>ConditionEnding\<close>
    (\<^verbatim>\<open>condition.cpp\<close>, \<^verbatim>\<open>creature.cpp\<close>, \<^verbatim>\<open>iologindata.cpp\<close>): all classes of conditions, their storage, their effects and
    the list a creature keeps. What conditions add is taken back when they end (locale \<open>modifier_array\<close> for the four arrays of
    modifiers), an expired one is removed, and the storage gives them back for the types whose writer and reader agree.
  \<^item> \<open>ItemAttributes\<close>, \<open>Items\<close>, \<open>ItemStore\<close>, \<open>ItemRoundtrip\<close> (\<^verbatim>\<open>item.h\<close>, \<^verbatim>\<open>item.cpp\<close>, \<^verbatim>\<open>imbuement.h\<close>): the vector and bit set
    of attributes refine a map; an item that is stored and read has its attributes again.
  \<^item> \<open>Containers\<close>, \<open>ContainerTree\<close>, \<open>ContainerMoves\<close>, \<open>ContainerRuns\<close>, \<open>Money\<close> (\<^verbatim>\<open>container.cpp\<close>, \<^verbatim>\<open>game.cpp\<close>): containers form a
    forest, cached weights are the sums of the contents, all walks end on every heap the server reaches; money is paid and
    handed out exactly.
  \<^item> \<open>Houses\<close>, \<open>HouseRuns\<close> (\<^verbatim>\<open>house.cpp\<close>, \<^verbatim>\<open>housetile.cpp\<close>): access lists admit whom they name; nobody walks into or stays in a
    house uninvited, whatever happens to its lists and owners (locale \<open>kicker\<close> for the two ways of sending players out); a house
    that changes hands is emptied, and one whose rent is not paid is lost after seven warnings.

  \<^bold>\<open>How the parts fit.\<close> Messages carry strings and positions; frames carry messages. Conditions and items are written with the
  property streams, which also read the properties of a parsed file. The registry of players uses the prefix tree, the areas
  take the test of a sight line as an argument, the path search uses positions and the node store, spectators use the quadtree and positions, money uses
  containers and items, houses use positions and strings.

  \<^bold>\<open>Loops and bounds.\<close> No operation has fuel. A loop that the source bounds is structural recursion or has a
  measure; one it does not bound (probing in a hash table, the search and the way back from the goal, sight lines, walks through containers, coins that are handed out,
  the descent to a leaf) is a \<open>partial_function\<close> into \<open>option\<close>, and that it returns on
  the states that are reached is part of the theorems; \<open>addMoney\<close> is shown not to return when the number of coins of a currency reaches 65536.
  Where words are read as numbers, the theory says for which inputs they agree: ranges of spectators
  up to \<open>2 ^ 30\<close>. The sums of sight lines wrap where C++ leaves their overflow undefined.

  \<^bold>\<open>Not modelled.\<close> Sockets, timers and threads (\<^verbatim>\<open>connection.cpp\<close> beyond frames, \<^verbatim>\<open>server.cpp\<close>, \<^verbatim>\<open>reactor.cpp\<close>): calls to
  a third-party library. The packets of the game protocol (\<^verbatim>\<open>protocolgame.cpp\<close>): long sequences of the modelled writers. The bindings to Lua
  (\<^verbatim>\<open>luascript.cpp\<close>, \<^verbatim>\<open>lua*.cpp\<close>, \<^verbatim>\<open>events.cpp\<close>): glue to an interpreter; its answers are arguments here. SQL (\<^verbatim>\<open>database.cpp\<close>,
  \<^verbatim>\<open>iologindata.cpp\<close> beyond the streams). Tiles with their items and the loading of maps and item types (\<^verbatim>\<open>tile.cpp\<close>,
  \<^verbatim>\<open>iomap.cpp\<close>, \<^verbatim>\<open>items.cpp\<close>): data from files and, for tiles, the remaining cylinder. The behaviour of monsters and characters (\<^verbatim>\<open>monster.cpp\<close>, \<^verbatim>\<open>npc.cpp\<close>),
  spells and weapons (\<^verbatim>\<open>spells.cpp\<close>, \<^verbatim>\<open>weapons.cpp\<close>): random choices, floating point formulas and scripts. Wars of
  guilds, the inventory of a player and the infrastructure of the process (configuration, logs, metrics, signals).
\<close>

end
